(* ===== verification/Js_Prelude.thy ===== *)
theory Js_Prelude
  imports Complex_Main
begin

text \<open>
  The JavaScript value model every component of the development is written in: numbers, values,
  property bags, and the ASCII/UTF-8 text operations of the language's standard library that
  the frontend code calls.

  Conventions.
  \<^item> A JavaScript string is a HOL \<open>string\<close> holding its UTF-8 bytes. Lone surrogates do not
    occur, \<open>toLowerCase\<close> and \<open>toUpperCase\<close> fold ASCII letters only, and lengths count bytes; the
    source only compares lengths with 0 or with the length of an ASCII literal.
  \<^item> A number is \<open>Fin q\<close> with \<open>q\<close> the rational it denotes, or one of the three non-finite values.
    Arithmetic is exact: IEEE rounding and the sign of zero are not modelled.
  \<^item> An object is the list of its own properties in enumeration order. \<open>oput\<close> is the creation of a
    data property and keeps array-index keys in front, in ascending order; \<open>oset\<close> is the
    assignment \<open>o[k] = v\<close>, which differs on the key \<open>__proto__\<close> only.
  \<^item> Values are immutable here, so a shallow copy is the object itself, and code that mutates an
    object returns the new one.
\<close>

named_theorems js_simps \<open>evaluation rules of the value model\<close>
named_theorems wire_simps \<open>unfolding of the wire-format writers\<close>

section \<open>Values\<close>

datatype jsnum = NaN | PosInf | NegInf | Fin rat

datatype js =
    JUndef
  | JNull
  | JBool bool
  | JNum jsnum
  | JStr string
  | JArr "js list"
  | JObj "(string \<times> js) list"

type_synonym jobj = "(string \<times> js) list"

abbreviation JInt :: "int \<Rightarrow> js" where
  "JInt n \<equiv> JNum (Fin (of_int n))"

fun truthy :: "js \<Rightarrow> bool" where
  "truthy JUndef = False"
| "truthy JNull = False"
| "truthy (JBool b) = b"
| "truthy (JNum n) = (n \<noteq> NaN \<and> n \<noteq> Fin 0)"
| "truthy (JStr s) = (s \<noteq> [])"
| "truthy (JArr _) = True"
| "truthy (JObj _) = True"

fun nullish :: "js \<Rightarrow> bool" where
  "nullish JUndef = True"
| "nullish JNull = True"
| "nullish _ = False"

fun is_obj :: "js \<Rightarrow> bool" where
  "is_obj (JObj _) = True"
| "is_obj _ = False"

fun is_arr :: "js \<Rightarrow> bool" where
  "is_arr (JArr _) = True"
| "is_arr _ = False"

fun is_str :: "js \<Rightarrow> bool" where
  "is_str (JStr _) = True"
| "is_str _ = False"

fun is_num :: "js \<Rightarrow> bool" where
  "is_num (JNum _) = True"
| "is_num _ = False"

fun is_bool :: "js \<Rightarrow> bool" where
  "is_bool (JBool _) = True"
| "is_bool _ = False"

text \<open>The operators \<open>??\<close> and \<open>||\<close>.\<close>

definition coalesce :: "js \<Rightarrow> js \<Rightarrow> js" where
  "coalesce a b = (if nullish a then b else a)"

definition jor :: "js \<Rightarrow> js \<Rightarrow> js" where
  "jor a b = (if truthy a then a else b)"

definition sor :: "string \<Rightarrow> string \<Rightarrow> string" where
  "sor a b = (if a \<noteq> [] then a else b)"

lemma sor_simps [simp]: "sor [] b = b" "sor (c # a) b = c # a" "sor a [] = a"
  by (auto simp: sor_def)

lemma sor_eq_Nil [simp]: "sor a b = [] \<longleftrightarrow> a = [] \<and> b = []"
  by (simp add: sor_def)

lemma coalesce_simps [simp]:
  "coalesce JUndef b = b" "coalesce JNull b = b" "coalesce (JStr s) b = JStr s"
  "coalesce (JNum n) b = JNum n" "coalesce (JBool c) b = JBool c"
  "coalesce (JArr xs) b = JArr xs" "coalesce (JObj ps) b = JObj ps"
  by (simp_all add: coalesce_def)

section \<open>Decimal digits\<close>

definition byte :: "char \<Rightarrow> nat" where
  "byte c = of_char c"

lemma byte_Char [simp]:
  "byte (Char b0 b1 b2 b3 b4 b5 b6 b7) =
     of_bool b0 + 2 * of_bool b1 + 4 * of_bool b2 + 8 * of_bool b3
     + 16 * of_bool b4 + 32 * of_bool b5 + 64 * of_bool b6 + 128 * of_bool b7"
  by (simp add: byte_def of_char_def)

lemma byte_less [simp]: "byte c < 256"
  by (simp add: byte_def)

lemma char_of_byte [simp]: "char_of (byte c) = c"
  by (simp add: byte_def)

lemma byte_inject: "byte c = byte d \<Longrightarrow> c = d"
  by (metis char_of_byte)

definition is_digit :: "char \<Rightarrow> bool" where
  "is_digit c \<longleftrightarrow> 48 \<le> byte c \<and> byte c \<le> 57"

lemma digit_eq_Char:
  "is_digit c \<Longrightarrow> \<not> is_digit (Char b0 b1 b2 b3 b4 b5 b6 b7) \<Longrightarrow>
     (c = Char b0 b1 b2 b3 b4 b5 b6 b7) = False"
  by auto

definition digit_val :: "char \<Rightarrow> nat" where
  "digit_val c = (if is_digit c then byte c - 48 else 9)"

definition digit_char :: "nat \<Rightarrow> char" where
  "digit_char n = ''0123456789'' ! n"

fun nat_str :: "nat \<Rightarrow> string" where
  "nat_str n = (if n < 10 then [digit_char n] else nat_str (n div 10) @ [digit_char (n mod 10)])"

declare nat_str.simps [simp del]

definition str_nat :: "string \<Rightarrow> nat" where
  "str_nat s = foldl (\<lambda>a c. 10 * a + digit_val c) 0 s"

lemma less_10_cases:
  assumes "(n::nat) < 10"
  obtains "n = 0" | "n = 1" | "n = 2" | "n = 3" | "n = 4" | "n = 5" | "n = 6" | "n = 7" | "n = 8" | "n = 9"
proof -
  have "n \<in> {0, 1, 2, 3, 4, 5, 6, 7, 8, 9}" using assms by auto
  then show ?thesis using that by blast
qed

lemma digit_char_is_digit: "n < 10 \<Longrightarrow> is_digit (digit_char n)"
  by (erule less_10_cases) (simp_all add: digit_char_def is_digit_def)

lemma digit_val_char: "n < 10 \<Longrightarrow> digit_val (digit_char n) = n"
  by (erule less_10_cases) (simp_all add: digit_char_def digit_val_def is_digit_def)

lemma nat_str_digits: "\<forall>c \<in> set (nat_str n). is_digit c"
proof (induction n rule: nat_str.induct)
  case (1 n)
  then show ?case
    by (subst nat_str.simps) (auto simp: digit_char_is_digit)
qed

lemma nat_str_nonempty [simp]: "nat_str n \<noteq> []"
  by (subst nat_str.simps) simp

lemma str_nat_append: "str_nat (s @ [c]) = 10 * str_nat s + digit_val c"
  by (simp add: str_nat_def)

lemma str_nat_nat_str [simp]: "str_nat (nat_str n) = n"
proof (induction n rule: nat_str.induct)
  case (1 n)
  show ?case
  proof (cases "n < 10")
    case True
    then show ?thesis
      by (subst nat_str.simps) (simp add: str_nat_def digit_val_char)
  next
    case False
    with "1" have "str_nat (nat_str (n div 10)) = n div 10" by simp
    with False show ?thesis
      by (subst nat_str.simps) (simp add: str_nat_append digit_val_char)
  qed
qed

lemma nat_str_inject [simp]: "nat_str m = nat_str n \<longleftrightarrow> m = n"
  by (metis str_nat_nat_str)

lemma nat_str_hd_digit: "is_digit (hd (nat_str n))"
  using nat_str_digits[of n] by (cases "nat_str n") auto

section \<open>Own properties of an object\<close>

text \<open>An array index in the sense of the language: a canonical decimal below \<open>2^32 - 1\<close>.\<close>

fun is_index :: "string \<Rightarrow> bool" where
  "is_index [] = False"
| "is_index (c # cs) =
     (is_digit c \<and> (c = CHR ''0'' \<longrightarrow> cs = []) \<and> list_all is_digit cs
      \<and> str_nat (c # cs) < 4294967295)"

definition key_before :: "string \<Rightarrow> string \<Rightarrow> bool" where
  "key_before k k' \<longleftrightarrow> is_index k \<and> (\<not> is_index k' \<or> str_nat k < str_nat k')"

fun oput :: "string \<Rightarrow> 'v \<Rightarrow> (string \<times> 'v) list \<Rightarrow> (string \<times> 'v) list" where
  "oput k v [] = [(k, v)]"
| "oput k v (p # ps) =
     (if fst p = k then (k, v) # ps
      else if key_before k (fst p) then (k, v) # p # ps
      else p # oput k v ps)"

definition ohas :: "(string \<times> 'v) list \<Rightarrow> string \<Rightarrow> bool" where
  "ohas o1 k \<longleftrightarrow> k \<in> fst ` set o1"

definition oget :: "jobj \<Rightarrow> string \<Rightarrow> js" where
  "oget o1 k = (case map_of o1 k of Some v \<Rightarrow> v | None \<Rightarrow> JUndef)"

definition odel :: "string \<Rightarrow> (string \<times> 'v) list \<Rightarrow> (string \<times> 'v) list" where
  "odel k o1 = filter (\<lambda>p. fst p \<noteq> k) o1"

definition oset :: "string \<Rightarrow> 'v \<Rightarrow> (string \<times> 'v) list \<Rightarrow> (string \<times> 'v) list" where
  "oset k v o1 = (if k = ''__proto__'' \<and> \<not> ohas o1 k then o1 else oput k v o1)"

text \<open>\<open>k in o\<close> and \<open>o[k]\<close> also see the members of \<open>Object.prototype\<close>.\<close>

definition proto_names :: "string list" where
  "proto_names =
     [''constructor'', ''__defineGetter__'', ''__defineSetter__'', ''hasOwnProperty'',
      ''__lookupGetter__'', ''__lookupSetter__'', ''isPrototypeOf'', ''propertyIsEnumerable'',
      ''toString'', ''valueOf'', ''__proto__'', ''toLocaleString'']"

definition in_obj :: "string \<Rightarrow> (string \<times> 'v) list \<Rightarrow> bool" where
  "in_obj k o1 \<longleftrightarrow> ohas o1 k \<or> k \<in> set proto_names"

definition okeys :: "(string \<times> 'v) list \<Rightarrow> string list" where
  "okeys o1 = map fst o1"

text \<open>\<open>{...a, ...b}\<close>: the own properties of \<open>b\<close> created one after the other on \<open>a\<close>.\<close>

definition omerge :: "(string \<times> 'v) list \<Rightarrow> (string \<times> 'v) list \<Rightarrow> (string \<times> 'v) list" where
  "omerge a b = fold (\<lambda>(k, v) acc. oput k v acc) b a"

text \<open>Deleting several keys, and \<open>delete o[k]\<close> under a condition on the stored value.\<close>

definition odels :: "string list \<Rightarrow> (string \<times> 'v) list \<Rightarrow> (string \<times> 'v) list" where
  "odels ks o1 = fold odel ks o1"

definition jget :: "js \<Rightarrow> string \<Rightarrow> js" where
  "jget v k = (case v of JObj o1 \<Rightarrow> oget o1 k | _ \<Rightarrow> JUndef)"

lemma jget_JObj [simp]: "jget (JObj o1) k = oget o1 k"
  by (simp add: jget_def)

lemma jget_non_obj [simp]:
  "jget JUndef k = JUndef" "jget JNull k = JUndef" "jget (JArr xs) k = JUndef"
  "jget (JStr s) k = JUndef" "jget (JNum n) k = JUndef" "jget (JBool b) k = JUndef"
  by (simp_all add: jget_def)

lemma map_of_oput: "map_of (oput k v o1) = (map_of o1)(k \<mapsto> v)"
  by (induction k v o1 rule: oput.induct) (auto simp: fun_eq_iff)

lemma map_of_odel: "map_of (odel k o1) = (map_of o1)(k := None)"
  by (induction o1) (auto simp: odel_def fun_eq_iff)

lemma map_of_oset: "k \<noteq> ''__proto__'' \<Longrightarrow> map_of (oset k v o1) = (map_of o1)(k \<mapsto> v)"
  by (simp add: oset_def map_of_oput)

lemma ohas_map_of: "ohas o1 k \<longleftrightarrow> map_of o1 k \<noteq> None"
  by (simp add: ohas_def map_of_eq_None_iff)

lemma ohas_oput [simp]: "ohas (oput k v o1) k' \<longleftrightarrow> k' = k \<or> ohas o1 k'"
  by (auto simp: ohas_map_of map_of_oput)

lemma ohas_odel [simp]: "ohas (odel k o1) k' \<longleftrightarrow> k' \<noteq> k \<and> ohas o1 k'"
  by (auto simp: ohas_map_of map_of_odel)

lemma ohas_oset [simp]:
  "k \<noteq> ''__proto__'' \<Longrightarrow> ohas (oset k v o1) k' \<longleftrightarrow> k' = k \<or> ohas o1 k'"
  by (simp add: oset_def)

lemma oget_Nil [simp]: "oget [] k = JUndef"
  by (simp add: oget_def)

lemma oget_Cons [simp]: "oget ((k', v) # o1) k = (if k = k' then v else oget o1 k)"
  by (simp add: oget_def)

lemma oget_oput [simp]: "oget (oput k v o1) k' = (if k' = k then v else oget o1 k')"
  by (simp add: oget_def map_of_oput)

lemma oget_odel [simp]: "oget (odel k o1) k' = (if k' = k then JUndef else oget o1 k')"
  by (simp add: oget_def map_of_odel)

lemma oget_oset [simp]:
  "k \<noteq> ''__proto__'' \<Longrightarrow> oget (oset k v o1) k' = (if k' = k then v else oget o1 k')"
  by (simp add: oset_def)

lemma oget_not_ohas: "\<not> ohas o1 k \<Longrightarrow> oget o1 k = JUndef"
  by (simp add: oget_def ohas_map_of)

lemma odel_absent: "\<not> ohas o1 k \<Longrightarrow> odel k o1 = o1"
  by (auto simp: odel_def ohas_def filter_id_conv image_def)

lemma odel_idem [simp]: "odel k (odel k o1) = odel k o1"
  by (simp add: odel_def)

lemma odel_commute: "odel k (odel k' o1) = odel k' (odel k o1)"
  by (simp add: odel_def conj_commute)

lemma odels_Nil [simp]: "odels [] o1 = o1"
  by (simp add: odels_def)

lemma odels_Cons [simp]: "odels (k # ks) o1 = odels ks (odel k o1)"
  by (simp add: odels_def)

lemma odels_eq_filter: "odels ks o1 = filter (\<lambda>p. fst p \<notin> set ks) o1"
  by (induction ks arbitrary: o1) (auto simp: odel_def intro!: filter_cong)

lemma oget_odels [simp]: "oget (odels ks o1) k = (if k \<in> set ks then JUndef else oget o1 k)"
  by (induction ks arbitrary: o1) auto

lemma ohas_odels [simp]: "ohas (odels ks o1) k \<longleftrightarrow> k \<notin> set ks \<and> ohas o1 k"
  by (induction ks arbitrary: o1) auto

subsection \<open>Well-formed property lists\<close>

text \<open>Every key once, and array indices in ascending order before the other keys.\<close>

definition key_ordered :: "string list \<Rightarrow> bool" where
  "key_ordered ks \<longleftrightarrow> sorted_wrt (\<lambda>a b. \<not> key_before b a) ks"

definition owf :: "(string \<times> 'v) list \<Rightarrow> bool" where
  "owf o1 \<longleftrightarrow> distinct (okeys o1) \<and> key_ordered (okeys o1)"

lemma owf_Nil [simp]: "owf []"
  by (simp add: owf_def okeys_def key_ordered_def)

lemma key_before_irrefl [simp]: "\<not> key_before k k"
  by (simp add: key_before_def)

lemma key_before_trans_ordered:
  "key_before k a \<Longrightarrow> \<not> key_before b a \<Longrightarrow> key_before k b \<or> (is_index b \<and> str_nat b = str_nat k)"
  by (auto simp: key_before_def)

lemma set_okeys_oput: "set (okeys (oput k v o1)) = insert k (set (okeys o1))"
  by (induction k v o1 rule: oput.induct) (auto simp: okeys_def)

lemma index_before_all:
  assumes "key_before k a" and "\<not> key_before b a"
  shows "\<not> key_before b k"
  using assms by (auto simp: key_before_def)


lemma owf_named: "list_all (\<lambda>k. \<not> is_index k) (okeys o1) \<Longrightarrow> distinct (okeys o1) \<Longrightarrow> owf o1"
  by (auto simp: owf_def key_ordered_def sorted_wrt_iff_nth_less list_all_length key_before_def)

section \<open>Spreading a value\<close>

text \<open>\<open>{ ...v }\<close> of an object or an array.\<close>

definition spread :: "js \<Rightarrow> jobj" where
  "spread v =
     (case v of JObj o1 \<Rightarrow> o1 | JArr xs \<Rightarrow> zip (map nat_str [0 ..< length xs]) xs | _ \<Rightarrow> [])"

end
