(* ===== verification/Js_Text.thy ===== *)
theory Js_Text
  imports Js_Prelude
begin

text \<open>
  The string and number operations of the language's standard library the source uses:
  searching, splitting and joining, trimming, ASCII case folding, \<open>Number(s)\<close>, \<open>String(n)\<close> and
  the comparisons of numbers. The lemmas give the laws the components rely on: splitting
  undoes joining, trimming is idempotent, reading undoes printing on integers.
\<close>

section \<open>Searching and slicing\<close>

fun starts_with :: "string \<Rightarrow> string \<Rightarrow> bool" where
  "starts_with s [] = True"
| "starts_with [] (p # ps) = False"
| "starts_with (c # s) (p # ps) = (c = p \<and> starts_with s ps)"

definition ends_with :: "string \<Rightarrow> string \<Rightarrow> bool" where
  "ends_with s p = starts_with (rev s) (rev p)"

fun includes_str :: "string \<Rightarrow> string \<Rightarrow> bool" where
  "includes_str [] p = (p = [])"
| "includes_str (c # s) p = (starts_with (c # s) p \<or> includes_str s p)"

definition before_char :: "char \<Rightarrow> string \<Rightarrow> string" where
  "before_char c s = takeWhile (\<lambda>x. x \<noteq> c) s"

definition after_char :: "char \<Rightarrow> string \<Rightarrow> string" where
  "after_char c s = drop 1 (dropWhile (\<lambda>x. x \<noteq> c) s)"

definition before_last :: "char \<Rightarrow> string \<Rightarrow> string" where
  "before_last c s = rev (after_char c (rev s))"

definition after_last :: "char \<Rightarrow> string \<Rightarrow> string" where
  "after_last c s = rev (before_char c (rev s))"

lemma starts_with_iff: "starts_with s p \<longleftrightarrow> (\<exists>t. s = p @ t)"
  by (induction s p rule: starts_with.induct) auto

lemma starts_with_append [simp]: "starts_with (p @ s) p"
  by (simp add: starts_with_iff)

lemma starts_with_refl [simp]: "starts_with s s"
  by (simp add: starts_with_iff)

lemma starts_with_drop: "starts_with s p \<Longrightarrow> s = p @ drop (length p) s"
  by (auto simp: starts_with_iff)

lemma before_char_simps [simp]:
  "before_char c [] = []"
  "before_char c (x # s) = (if x = c then [] else x # before_char c s)"
  by (simp_all add: before_char_def)

lemma after_char_simps [simp]:
  "after_char c [] = []"
  "after_char c (x # s) = (if x = c then s else after_char c s)"
  by (simp_all add: after_char_def)

lemma before_char_append [simp]: "c \<notin> set a \<Longrightarrow> before_char c (a @ c # s) = a"
  by (induction a) auto

lemma after_char_append [simp]: "c \<notin> set a \<Longrightarrow> after_char c (a @ c # s) = s"
  by (induction a) auto

lemma before_char_none [simp]: "c \<notin> set a \<Longrightarrow> before_char c a = a"
  by (induction a) auto

lemma after_char_none [simp]: "c \<notin> set a \<Longrightarrow> after_char c a = []"
  by (induction a) auto

lemma before_after_char: "c \<in> set s \<Longrightarrow> before_char c s @ c # after_char c s = s"
  by (induction s) auto

lemma before_last_append [simp]: "c \<notin> set b \<Longrightarrow> before_last c (a @ c # b) = a"
  by (simp add: before_last_def)

lemma after_last_append [simp]: "c \<notin> set b \<Longrightarrow> after_last c (a @ c # b) = b"
  by (simp add: after_last_def)

text \<open>\<open>lastIndexOf\<close> and \<open>indexOf\<close> of one character; -1 when it does not occur.\<close>

definition last_index :: "char \<Rightarrow> string \<Rightarrow> int" where
  "last_index c s = (if c \<in> set s then int (length (before_last c s)) else -1)"

definition first_index :: "char \<Rightarrow> string \<Rightarrow> int" where
  "first_index c s = (if c \<in> set s then int (length (before_char c s)) else -1)"

lemma split_last_char:
  assumes "c \<in> set s"
  shows "s = before_last c s @ c # after_last c s" and "c \<notin> set (after_last c s)"
proof -
  have "c \<in> set (rev s)" using assms by simp
  from arg_cong[OF before_after_char[OF this], of rev]
  show "s = before_last c s @ c # after_last c s"
    by (simp add: before_last_def after_last_def)
  have "c \<notin> set (before_char c t)" for t by (induction t) auto
  then show "c \<notin> set (after_last c s)" by (simp add: after_last_def)
qed

section \<open>Splitting and joining\<close>

fun split_char :: "char \<Rightarrow> string \<Rightarrow> string list" where
  "split_char d [] = [[]]"
| "split_char d (c # cs) =
     (if c = d then [] # split_char d cs
      else (case split_char d cs of w # ws \<Rightarrow> (c # w) # ws | [] \<Rightarrow> [[c]]))"

fun join :: "string \<Rightarrow> string list \<Rightarrow> string" where
  "join d [] = []"
| "join d [w] = w"
| "join d (w # v # ws) = w @ d @ join d (v # ws)"

definition non_empty :: "string list \<Rightarrow> string list" where
  "non_empty ws = filter (\<lambda>w. w \<noteq> []) ws"

lemma split_char_nonempty [simp]: "split_char d s \<noteq> []"
  by (induction s) (auto split: list.splits)

lemma split_char_none [simp]: "d \<notin> set s \<Longrightarrow> split_char d s = [s]"
  by (induction s) auto

lemma split_char_append: "d \<notin> set a \<Longrightarrow> split_char d (a @ d # s) = a # split_char d s"
  by (induction a) auto

lemma join_Cons: "ws \<noteq> [] \<Longrightarrow> join d (w # ws) = w @ d @ join d ws"
  by (cases ws) auto

lemma split_join:
  "ws \<noteq> [] \<Longrightarrow> \<forall>w \<in> set ws. d \<notin> set w \<Longrightarrow> split_char d (join [d] ws) = ws"
  by (induction "[d]" ws rule: join.induct) (auto simp: split_char_append)

lemma join_split: "join [d] (split_char d s) = s"
proof (induction s)
  case Nil
  then show ?case by simp
next
  case (Cons c s)
  then show ?case
    by (cases "split_char d s") (auto simp: join_Cons, (metis append_Cons join.simps(2) join_Cons)?)
qed

lemma split_char_no_sep: "w \<in> set (split_char d s) \<Longrightarrow> d \<notin> set w"
  by (induction s arbitrary: w) (auto split: list.splits if_splits)

lemma non_empty_Nil [simp]: "non_empty [] = []"
  by (simp add: non_empty_def)

lemma non_empty_idem [simp]: "non_empty (non_empty ws) = non_empty ws"
  by (simp add: non_empty_def)

lemma non_empty_id: "[] \<notin> set ws \<Longrightarrow> non_empty ws = ws"
  by (auto simp: non_empty_def filter_id_conv)

section \<open>White space\<close>

text \<open>The byte length of the white-space character or line terminator a text starts with, or 0.\<close>

definition ascii_ws :: string where
  "ascii_ws = [CHR 0x09, CHR 0x0A, CHR 0x0B, CHR 0x0C, CHR 0x0D, CHR 0x20]"

definition wide_ws :: "string list" where
  "wide_ws =
     [[CHR 0xC2, CHR 0xA0], [CHR 0xE1, CHR 0x9A, CHR 0x80],
      [CHR 0xE2, CHR 0x80, CHR 0x80], [CHR 0xE2, CHR 0x80, CHR 0x81], [CHR 0xE2, CHR 0x80, CHR 0x82],
      [CHR 0xE2, CHR 0x80, CHR 0x83], [CHR 0xE2, CHR 0x80, CHR 0x84], [CHR 0xE2, CHR 0x80, CHR 0x85],
      [CHR 0xE2, CHR 0x80, CHR 0x86], [CHR 0xE2, CHR 0x80, CHR 0x87], [CHR 0xE2, CHR 0x80, CHR 0x88],
      [CHR 0xE2, CHR 0x80, CHR 0x89], [CHR 0xE2, CHR 0x80, CHR 0x8A], [CHR 0xE2, CHR 0x80, CHR 0xA8],
      [CHR 0xE2, CHR 0x80, CHR 0xA9], [CHR 0xE2, CHR 0x80, CHR 0xAF], [CHR 0xE2, CHR 0x81, CHR 0x9F],
      [CHR 0xE3, CHR 0x80, CHR 0x80], [CHR 0xEF, CHR 0xBB, CHR 0xBF]]"

fun lead_match :: "string list \<Rightarrow> string \<Rightarrow> nat" where
  "lead_match [] s = 0"
| "lead_match (w # ws) s = (if starts_with s w then length w else lead_match ws s)"

definition is_lead :: "char \<Rightarrow> bool" where
  "is_lead c = (c \<in> set [CHR 0xC2, CHR 0xE1, CHR 0xE2, CHR 0xE3, CHR 0xEF])"

definition is_tail :: "char \<Rightarrow> bool" where
  "is_tail c =
     (c \<in> set [CHR 0x80, CHR 0x81, CHR 0x82, CHR 0x83, CHR 0x84, CHR 0x85, CHR 0x86, CHR 0x87,
               CHR 0x88, CHR 0x89, CHR 0x8A, CHR 0x9F, CHR 0xA0, CHR 0xA8, CHR 0xA9, CHR 0xAF, CHR 0xBF])"

definition ws_len :: "string \<Rightarrow> nat" where
  "ws_len s =
     (case s of [] \<Rightarrow> 0
      | c # _ \<Rightarrow> if c \<in> set ascii_ws then 1 else if is_lead c then lead_match wide_ws s else 0)"

definition rws_len :: "string \<Rightarrow> nat" where
  "rws_len s =
     (case s of [] \<Rightarrow> 0
      | c # _ \<Rightarrow> if c \<in> set ascii_ws then 1
                else if is_tail c then lead_match (map rev wide_ws) s else 0)"

function ltrim :: "string \<Rightarrow> string" where
  "ltrim s = (if s = [] \<or> ws_len s = 0 then s else ltrim (drop (ws_len s) s))"
  by pat_completeness auto
termination by (relation "measure length") auto

function rtrim_rev :: "string \<Rightarrow> string" where
  "rtrim_rev s = (if s = [] \<or> rws_len s = 0 then s else rtrim_rev (drop (rws_len s) s))"
  by pat_completeness auto
termination by (relation "measure length") auto

declare ltrim.simps [simp del] rtrim_rev.simps [simp del]

definition trim :: "string \<Rightarrow> string" where
  "trim s = rev (rtrim_rev (rev (ltrim s)))"

lemma ltrim_idem_ws: "ws_len (ltrim s) = 0"
proof (induction s rule: ltrim.induct)
  case (1 s)
  show ?case
  proof (cases "s = [] \<or> ws_len s = 0")
    case True
    then show ?thesis by (subst ltrim.simps) (auto simp: ws_len_def)
  next
    case False
    with 1 show ?thesis by (subst ltrim.simps) simp
  qed
qed

lemma rtrim_idem_ws: "rws_len (rtrim_rev s) = 0"
proof (induction s rule: rtrim_rev.induct)
  case (1 s)
  show ?case
  proof (cases "s = [] \<or> rws_len s = 0")
    case True
    then show ?thesis by (subst rtrim_rev.simps) (auto simp: rws_len_def)
  next
    case False
    with 1 show ?thesis by (subst rtrim_rev.simps) simp
  qed
qed

lemma ltrim_id: "ws_len s = 0 \<Longrightarrow> ltrim s = s"
  by (subst ltrim.simps) simp

lemma rtrim_id: "rws_len s = 0 \<Longrightarrow> rtrim_rev s = s"
  by (subst rtrim_rev.simps) simp

lemma rtrim_suffix: "\<exists>t. s = t @ rtrim_rev s"
proof (induction s rule: rtrim_rev.induct)
  case (1 s)
  show ?case
  proof (cases "s = [] \<or> rws_len s = 0")
    case True
    then have "rtrim_rev s = s" by (subst rtrim_rev.simps) simp
    then show ?thesis by simp
  next
    case False
    with 1 obtain t where "drop (rws_len s) s = t @ rtrim_rev (drop (rws_len s) s)" by auto
    then have "s = (take (rws_len s) s @ t) @ rtrim_rev (drop (rws_len s) s)"
      by (metis append.assoc append_take_drop_id)
    moreover have "rtrim_rev s = rtrim_rev (drop (rws_len s) s)"
      using False by (subst rtrim_rev.simps) simp
    ultimately show ?thesis by metis
  qed
qed

lemma lead_match_prefix: "lead_match ws s > 0 \<Longrightarrow> lead_match ws (s @ t) > 0"
  by (induction ws s rule: lead_match.induct) (auto simp: starts_with_iff split: if_splits)

lemma ws_len_prefix: "ws_len (s @ t) = 0 \<Longrightarrow> ws_len s = 0"
  using lead_match_prefix[of wide_ws s t]
  by (cases s) (auto simp: ws_len_def split: if_splits)

lemma trim_idem [simp]: "trim (trim s) = trim s"
proof -
  define u where "u = ltrim s"
  obtain t where t: "rev u = t @ rtrim_rev (rev u)" using rtrim_suffix by blast
  then have "u = rev (rtrim_rev (rev u)) @ rev t"
    by (metis rev_append rev_rev_ident)
  moreover have "ws_len u = 0" by (simp add: u_def ltrim_idem_ws)
  ultimately have "ws_len (rev (rtrim_rev (rev u))) = 0" by (metis ws_len_prefix)
  then have "ltrim (trim s) = trim s" by (simp add: trim_def u_def ltrim_id)
  then show ?thesis
    by (simp add: trim_def[of "trim s"]) (simp add: trim_def rtrim_id rtrim_idem_ws)
qed

lemma trim_Nil [simp]: "trim [] = []"
  by (simp add: trim_def ltrim_id rtrim_id ws_len_def rws_len_def)

lemma trim_id:
  assumes "ws_len s = 0" and "rws_len (rev s) = 0"
  shows "trim s = s"
  using assms by (simp add: trim_def ltrim_id rtrim_id)

text \<open>Text over the visible ASCII characters is never changed by trimming.\<close>

definition plain_char :: "char \<Rightarrow> bool" where
  "plain_char c \<longleftrightarrow> c \<notin> set ascii_ws \<and> \<not> is_lead c \<and> \<not> is_tail c"

lemma trim_plain: "list_all plain_char s \<Longrightarrow> trim s = s"
proof (rule trim_id)
  assume a: "list_all plain_char s"
  then show "ws_len s = 0" by (cases s) (auto simp: ws_len_def plain_char_def)
  from a have "list_all plain_char (rev s)" by simp
  then show "rws_len (rev s) = 0" by (cases "rev s") (auto simp: rws_len_def plain_char_def)
qed

section \<open>ASCII case folding\<close>

definition upper_letters :: string where "upper_letters = ''ABCDEFGHIJKLMNOPQRSTUVWXYZ''"
definition lower_letters :: string where "lower_letters = ''abcdefghijklmnopqrstuvwxyz''"

fun assoc_char :: "string \<Rightarrow> string \<Rightarrow> char \<Rightarrow> char" where
  "assoc_char (a # as) (b # bs) c = (if c = a then b else assoc_char as bs c)"
| "assoc_char _ _ c = c"

definition to_lower :: "string \<Rightarrow> string" where
  "to_lower s = map (assoc_char upper_letters lower_letters) s"

definition to_upper :: "string \<Rightarrow> string" where
  "to_upper s = map (assoc_char lower_letters upper_letters) s"

lemma assoc_char_lower_id:
  "byte c < 65 \<or> 90 < byte c \<Longrightarrow> assoc_char upper_letters lower_letters c = c"
proof -
  have n: "c \<notin> set as \<Longrightarrow> assoc_char as bs c = c" for as bs
    by (induction as bs c rule: assoc_char.induct) auto
  have "list_all (\<lambda>x. 65 \<le> byte x \<and> byte x \<le> 90) upper_letters"
    by (simp add: upper_letters_def)
  moreover assume "byte c < 65 \<or> 90 < byte c"
  ultimately have "c \<notin> set upper_letters" by (auto simp: list_all_iff)
  then show ?thesis by (rule n)
qed

lemma assoc_char_lower_idem:
  "assoc_char upper_letters lower_letters (assoc_char upper_letters lower_letters c)
     = assoc_char upper_letters lower_letters c"
  by (simp add: upper_letters_def lower_letters_def)

lemma to_lower_idem [simp]: "to_lower (to_lower s) = to_lower s"
  by (simp add: to_lower_def assoc_char_lower_idem)

definition is_letter :: "char \<Rightarrow> bool" where
  "is_letter c \<longleftrightarrow> (65 \<le> byte c \<and> byte c \<le> 90) \<or> (97 \<le> byte c \<and> byte c \<le> 122)"

definition is_alnum :: "char \<Rightarrow> bool" where
  "is_alnum c = (is_letter c \<or> is_digit c)"

section \<open>Numbers\<close>

definition is_finite :: "jsnum \<Rightarrow> bool" where
  "is_finite n = (case n of Fin _ \<Rightarrow> True | _ \<Rightarrow> False)"

definition is_integer :: "jsnum \<Rightarrow> bool" where
  "is_integer n = (case n of Fin q \<Rightarrow> of_int \<lfloor>q\<rfloor> = q | _ \<Rightarrow> False)"

definition num_less :: "jsnum \<Rightarrow> jsnum \<Rightarrow> bool" where
  "num_less a b =
     (case (a, b) of
        (NaN, _) \<Rightarrow> False | (_, NaN) \<Rightarrow> False
      | (Fin p, Fin q) \<Rightarrow> p < q
      | (NegInf, NegInf) \<Rightarrow> False | (NegInf, _) \<Rightarrow> True
      | (PosInf, _) \<Rightarrow> False | (Fin _, PosInf) \<Rightarrow> True | (Fin _, NegInf) \<Rightarrow> False)"

definition num_le :: "jsnum \<Rightarrow> jsnum \<Rightarrow> bool" where
  "num_le a b \<longleftrightarrow> a \<noteq> NaN \<and> b \<noteq> NaN \<and> \<not> num_less b a"

definition num_gt0 :: "jsnum \<Rightarrow> bool" where
  "num_gt0 n = (case n of Fin q \<Rightarrow> 0 < q | PosInf \<Rightarrow> True | _ \<Rightarrow> False)"

lemma num_preds_simps [simp]:
  "is_finite (Fin q)" "\<not> is_finite NaN" "\<not> is_finite PosInf" "\<not> is_finite NegInf"
  "is_integer (Fin (of_int z))" "\<not> is_integer NaN" "\<not> is_integer PosInf" "\<not> is_integer NegInf"
  "num_gt0 (Fin q) = (0 < q)" "\<not> num_gt0 NaN" "num_gt0 PosInf" "\<not> num_gt0 NegInf"
  "num_less (Fin p) (Fin q) = (p < q)" "\<not> num_less NaN n" "\<not> num_less n NaN"
  by (auto simp: is_finite_def is_integer_def num_gt0_def num_less_def split: jsnum.splits)

lemma is_integer_numeral [simp]:
  "is_integer (Fin (numeral k))" "is_integer (Fin 0)" "is_integer (Fin 1)"
  using num_preds_simps(5)[of "numeral k"] num_preds_simps(5)[of 0] num_preds_simps(5)[of 1]
  by simp_all

subsection \<open>Reading: \<open>Number(s)\<close>\<close>

fun span_digits :: "string \<Rightarrow> string \<times> string" where
  "span_digits [] = ([], [])"
| "span_digits (c # s) =
     (if is_digit c then (c # fst (span_digits s), snd (span_digits s)) else ([], c # s))"

definition exp_part :: "string \<Rightarrow> int option" where
  "exp_part s =
     (case s of
        [] \<Rightarrow> Some 0
      | e # r \<Rightarrow>
          if e \<noteq> CHR ''e'' \<and> e \<noteq> CHR ''E'' then None
          else
            let (sg, ds) = (case r of c # r' \<Rightarrow> if c = CHR ''-'' then (- 1, r')
                                       else if c = CHR ''+'' then (1, r') else (1, r)
                            | [] \<Rightarrow> (1, []))
            in if ds \<noteq> [] \<and> list_all is_digit ds then Some (sg * int (str_nat ds)) else None)"

definition scale10 :: "rat \<Rightarrow> int \<Rightarrow> rat" where
  "scale10 q e = (if 0 \<le> e then q * 10 ^ nat e else q / 10 ^ nat (- e))"

definition unsigned_decimal :: "string \<Rightarrow> rat option" where
  "unsigned_decimal s =
     (let (ip, r) = span_digits s;
          (fp, r') = (case r of c # r1 \<Rightarrow> if c = CHR ''.'' then span_digits r1 else ([], r)
                      | [] \<Rightarrow> ([], []))
      in if ip = [] \<and> fp = [] then None
         else map_option (scale10 (of_nat (str_nat (ip @ fp)) / 10 ^ length fp)) (exp_part r'))"

definition radix_digit :: "nat \<Rightarrow> char \<Rightarrow> nat option" where
  "radix_digit b c =
     (let n = byte c;
          d = (if 48 \<le> n \<and> n \<le> 57 then n - 48 else if 97 \<le> n \<and> n \<le> 122 then n - 87
               else if 65 \<le> n \<and> n \<le> 90 then n - 55 else 99)
      in if d < b then Some d else None)"

fun radix_nat :: "nat \<Rightarrow> nat \<Rightarrow> string \<Rightarrow> nat option" where
  "radix_nat b a [] = Some a"
| "radix_nat b a (c # s) =
     (case radix_digit b c of None \<Rightarrow> None | Some d \<Rightarrow> radix_nat b (b * a + d) s)"

definition radix_number :: "nat \<Rightarrow> string \<Rightarrow> jsnum" where
  "radix_number b s =
     (if s = [] then NaN
      else case radix_nat b 0 s of None \<Rightarrow> NaN | Some n \<Rightarrow> Fin (of_nat n))"

definition dec_number :: "string \<Rightarrow> jsnum" where
  "dec_number s =
     (if s = ''Infinity'' then PosInf
      else case unsigned_decimal s of None \<Rightarrow> NaN | Some q \<Rightarrow> Fin q)"

fun num_neg :: "jsnum \<Rightarrow> jsnum" where
  "num_neg (Fin q) = Fin (- q)"
| "num_neg PosInf = NegInf"
| "num_neg NegInf = PosInf"
| "num_neg NaN = NaN"

definition js_number :: "string \<Rightarrow> jsnum" where
  "js_number s0 =
     (let s = trim s0 in
      if s = [] then Fin 0
      else if starts_with s ''0x'' \<or> starts_with s ''0X'' then radix_number 16 (drop 2 s)
      else if starts_with s ''0o'' \<or> starts_with s ''0O'' then radix_number 8 (drop 2 s)
      else if starts_with s ''0b'' \<or> starts_with s ''0B'' then radix_number 2 (drop 2 s)
      else if starts_with s ''-'' then num_neg (dec_number (drop 1 s))
      else if starts_with s ''+'' then dec_number (drop 1 s)
      else dec_number s)"

subsection \<open>Printing: \<open>String(n)\<close>\<close>

text \<open>
  The decimal digits of a positive terminating decimal: \<open>dec_scale\<close> counts the fractional digits,
  up to 30. Other rationals do not occur as printed numbers.
\<close>

fun dec_scale :: "nat \<Rightarrow> rat \<Rightarrow> nat" where
  "dec_scale 0 q = 0"
| "dec_scale (Suc f) q = (if of_int \<lfloor>q\<rfloor> = q then 0 else Suc (dec_scale f (q * 10)))"

definition strip_zeros :: "string \<Rightarrow> string" where
  "strip_zeros s = rev (dropWhile (\<lambda>c. c = CHR ''0'') (rev s))"

definition pos_str :: "rat \<Rightarrow> string" where
  "pos_str q =
     (if of_int \<lfloor>q\<rfloor> = q \<and> q < 10 ^ 21 then nat_str (nat \<lfloor>q\<rfloor>)
      else
        let f = dec_scale 30 q;
            all = nat_str (nat \<lfloor>q * 10 ^ f\<rfloor>);
            ds = strip_zeros all;
            n = int (length all) - int f
        in if 0 < n \<and> n \<le> 21 then take (nat n) ds @ ''.'' @ drop (nat n) ds
           else if - 6 < n \<and> n \<le> 0 then ''0.'' @ replicate (nat (- n)) CHR ''0'' @ ds
           else take 1 ds @ (if length ds > 1 then ''.'' @ drop 1 ds else [])
                @ ''e'' @ (if 0 \<le> n - 1 then ''+'' else ''-'') @ nat_str (nat \<bar>n - 1\<bar>))"

fun num_str :: "jsnum \<Rightarrow> string" where
  "num_str NaN = ''NaN''"
| "num_str PosInf = ''Infinity''"
| "num_str NegInf = ''-Infinity''"
| "num_str (Fin q) =
     (if q = 0 then ''0'' else if q < 0 then ''-'' @ pos_str (- q) else pos_str q)"

declare num_str.simps(4) [simp del]

definition int_str :: "int \<Rightarrow> string" where
  "int_str z = num_str (Fin (of_int z))"

lemma num_str_nat: "n < 10 ^ 21 \<Longrightarrow> num_str (Fin (of_nat n)) = nat_str n"
proof -
  assume a: "n < 10 ^ 21"
  then have b: "(of_nat n :: rat) < 10 ^ 21"
    by (metis of_nat_less_iff of_nat_numeral of_nat_power)
  have c: "\<lfloor>of_nat n :: rat\<rfloor> = int n" by simp
  show ?thesis
  proof (cases "n = 0")
    case True
    then show ?thesis by (simp add: num_str.simps nat_str.simps[of 0] digit_char_def)
  next
    case False
    then have p: "0 < (of_nat n :: rat)" by simp
    show ?thesis using b p c by (simp add: num_str.simps pos_str_def)
  qed
qed

text \<open>Printed naturals are read back.\<close>

lemma span_digits_all: "list_all is_digit s \<Longrightarrow> span_digits s = (s, [])"
  by (induction s) auto

lemma digit_plain: "is_digit c \<Longrightarrow> plain_char c"
  by (auto simp: is_digit_def plain_char_def ascii_ws_def is_lead_def is_tail_def)

lemma unsigned_decimal_digits:
  "s \<noteq> [] \<Longrightarrow> list_all is_digit s \<Longrightarrow> unsigned_decimal s = Some (of_nat (str_nat s))"
  by (simp add: unsigned_decimal_def span_digits_all exp_part_def scale10_def)

lemma radix_prefix_not_digits:
  "list_all is_digit s \<Longrightarrow> p \<in> set ''xXoObB'' \<Longrightarrow> \<not> starts_with s [CHR ''0'', p]"
  by (cases s; cases "tl s") (auto simp: is_digit_def)

lemma sign_not_digits:
  "list_all is_digit s \<Longrightarrow> p \<in> set ''+-I'' \<Longrightarrow> \<not> starts_with s (p # t)"
  by (cases s) (auto simp: is_digit_def)

lemma js_number_digits:
  assumes "s \<noteq> []" and "list_all is_digit s"
  shows "js_number s = Fin (of_nat (str_nat s))"
proof -
  have t: "trim s = s"
    using assms(2) by (intro trim_plain) (auto simp: list_all_iff digit_plain)
  have "s \<noteq> ''Infinity''" using sign_not_digits[OF assms(2), of "CHR ''I''" "''nfinity''"] by auto
  then show ?thesis
    using assms t radix_prefix_not_digits[OF assms(2)] sign_not_digits[OF assms(2)]
    by (simp add: js_number_def dec_number_def unsigned_decimal_digits)
qed

lemma list_all_digits_nat_str [simp]: "list_all is_digit (nat_str n)"
  using nat_str_digits by (simp add: list_all_iff)

lemma js_number_nat_str [simp]: "js_number (nat_str n) = Fin (of_nat n)"
  by (simp add: js_number_digits)

lemma js_number_Nil [simp]: "js_number [] = Fin 0"
  by (simp add: js_number_def)

section \<open>Conversions between the kinds of values\<close>

text \<open>
  \<open>String(v)\<close> and \<open>Number(v)\<close>; an object converts like a plain one, so own members called
  \<open>toString\<close> or \<open>valueOf\<close> are not considered.
\<close>

fun to_str :: "js \<Rightarrow> string" where
  "to_str JUndef = ''undefined''"
| "to_str JNull = ''null''"
| "to_str (JBool b) = (if b then ''true'' else ''false'')"
| "to_str (JNum n) = num_str n"
| "to_str (JStr s) = s"
| "to_str (JArr xs) = join '','' (map (\<lambda>x. if nullish x then [] else to_str x) xs)"
| "to_str (JObj _) = ''[object Object]''"

fun to_num :: "js \<Rightarrow> jsnum" where
  "to_num JUndef = NaN"
| "to_num JNull = Fin 0"
| "to_num (JBool b) = Fin (of_bool b)"
| "to_num (JNum n) = n"
| "to_num (JStr s) = js_number s"
| "to_num (JArr xs) = js_number (to_str (JArr xs))"
| "to_num (JObj _) = NaN"

text \<open>\<open>n || d\<close> on numbers.\<close>

definition nor :: "jsnum \<Rightarrow> jsnum \<Rightarrow> jsnum" where
  "nor n d = (if n = NaN \<or> n = Fin 0 then d else n)"

end
