(* ===== verification/Json.thy ===== *)
theory Json
  imports Js_Text
begin

text \<open>
  \<open>JSON.stringify\<close>, compact and indented, and \<open>JSON.parse\<close>, as the source calls them on plain
  data, with the theorem that parsing undoes printing on clean values: no \<open>undefined\<close> member,
  well-formed objects and integral numbers below \<open>10^21\<close>. \<open>None\<close> stands for the thrown
  \<open>SyntaxError\<close>. A lone surrogate escape becomes U+FFFD, since strings here are UTF-8.
\<close>

section \<open>Printing\<close>

definition hex_digit :: "nat \<Rightarrow> char" where
  "hex_digit n = ''0123456789abcdef'' ! (n mod 16)"

definition esc_char :: "char \<Rightarrow> string" where
  "esc_char c =
     (if c = CHR 0x22 then [CHR 0x5C, CHR 0x22]
      else if c = CHR 0x5C then [CHR 0x5C, CHR 0x5C]
      else if c = CHR 0x08 then [CHR 0x5C, CHR ''b'']
      else if c = CHR 0x0C then [CHR 0x5C, CHR ''f'']
      else if c = CHR 0x0A then [CHR 0x5C, CHR ''n'']
      else if c = CHR 0x0D then [CHR 0x5C, CHR ''r'']
      else if c = CHR 0x09 then [CHR 0x5C, CHR ''t'']
      else let n = byte c in
           if n < 32 then [CHR 0x5C, CHR ''u'', CHR ''0'', CHR ''0'', hex_digit (n div 16), hex_digit n]
           else [c])"

definition json_quote :: "string \<Rightarrow> string" where
  "json_quote s = CHR 0x22 # concat (map esc_char s) @ [CHR 0x22]"

definition line_sep :: "string \<Rightarrow> string \<Rightarrow> string" where
  "line_sep g i = (if g = [] then [] else CHR 0x0A # i)"

definition colon_sep :: "string \<Rightarrow> string" where
  "colon_sep g = (if g = [] then '':'' else '': '')"

fun json_gen :: "string \<Rightarrow> string \<Rightarrow> js \<Rightarrow> string"
  and json_elems :: "string \<Rightarrow> string \<Rightarrow> js list \<Rightarrow> string list"
  and json_members :: "string \<Rightarrow> string \<Rightarrow> (string \<times> js) list \<Rightarrow> string list"
where
  "json_gen g i JUndef = ''null''"
| "json_gen g i JNull = ''null''"
| "json_gen g i (JBool b) = (if b then ''true'' else ''false'')"
| "json_gen g i (JNum n) = (if is_finite n then num_str n else ''null'')"
| "json_gen g i (JStr s) = json_quote s"
| "json_gen g i (JArr xs) =
     (case json_elems g (i @ g) xs of
        [] \<Rightarrow> ''[]''
      | es \<Rightarrow> ''['' @ line_sep g (i @ g) @ join ('','' @ line_sep g (i @ g)) es @ line_sep g i @ '']'')"
| "json_gen g i (JObj ps) =
     (case json_members g (i @ g) ps of
        [] \<Rightarrow> ''{}''
      | es \<Rightarrow> ''{'' @ line_sep g (i @ g) @ join ('','' @ line_sep g (i @ g)) es @ line_sep g i @ ''}'')"
| "json_elems g i [] = []"
| "json_elems g i (x # xs) = json_gen g i x # json_elems g i xs"
| "json_members g i [] = []"
| "json_members g i (p # ps) =
     (if snd p = JUndef then json_members g i ps
      else (json_quote (fst p) @ colon_sep g @ json_gen g i (snd p)) # json_members g i ps)"

definition json_stringify :: "js \<Rightarrow> string" where
  "json_stringify v = json_gen [] [] v"

definition json_stringify2 :: "js \<Rightarrow> string" where
  "json_stringify2 v = json_gen ''  '' [] v"

section \<open>Parsing\<close>

definition json_ws :: "char \<Rightarrow> bool" where
  "json_ws c = (c \<in> set [CHR 0x20, CHR 0x0A, CHR 0x0D, CHR 0x09])"

definition skip_ws :: "string \<Rightarrow> string" where
  "skip_ws s = dropWhile json_ws s"

definition utf8_encode :: "nat \<Rightarrow> string" where
  "utf8_encode n =
     (if n < 128 then [char_of n]
      else if n < 2048 then [char_of (192 + n div 64), char_of (128 + n mod 64)]
      else if n < 65536 then
        (if 55296 \<le> n \<and> n \<le> 57343 then [CHR 0xEF, CHR 0xBF, CHR 0xBD]
         else [char_of (224 + n div 4096), char_of (128 + n div 64 mod 64), char_of (128 + n mod 64)])
      else [char_of (240 + n div 262144), char_of (128 + n div 4096 mod 64),
            char_of (128 + n div 64 mod 64), char_of (128 + n mod 64)])"

definition hex4 :: "string \<Rightarrow> nat option" where
  "hex4 s = (if length s = 4 then radix_nat 16 0 s else None)"

definition simple_escape :: "char \<Rightarrow> char option" where
  "simple_escape c =
     (if c = CHR 0x22 then Some (CHR 0x22) else if c = CHR 0x5C then Some (CHR 0x5C)
      else if c = CHR ''/'' then Some (CHR ''/'') else if c = CHR ''b'' then Some (CHR 0x08)
      else if c = CHR ''f'' then Some (CHR 0x0C) else if c = CHR ''n'' then Some (CHR 0x0A)
      else if c = CHR ''r'' then Some (CHR 0x0D) else if c = CHR ''t'' then Some (CHR 0x09)
      else None)"

text \<open>The escape after a backslash: the bytes it denotes and how many characters it takes.\<close>

definition escape_at :: "string \<Rightarrow> (string \<times> nat) option" where
  "escape_at s =
     (case s of
        [] \<Rightarrow> None
      | c # r \<Rightarrow>
          if c = CHR ''u'' then
            (case hex4 (take 4 r) of
               None \<Rightarrow> None
             | Some hi \<Rightarrow>
                 if 55296 \<le> hi \<and> hi \<le> 56319 \<and> starts_with (drop 4 r) [CHR 0x5C, CHR ''u''] then
                   (case hex4 (take 4 (drop 6 r)) of
                      Some lo \<Rightarrow>
                        if 56320 \<le> lo \<and> lo \<le> 57343
                        then Some (utf8_encode (65536 + (hi - 55296) * 1024 + (lo - 56320)), 11)
                        else Some (utf8_encode hi, 5)
                    | None \<Rightarrow> Some (utf8_encode hi, 5))
                 else Some (utf8_encode hi, 5))
          else map_option (\<lambda>x. ([x], 1)) (simple_escape c))"

function pstr :: "string \<Rightarrow> (string \<times> string) option" where
  "pstr s =
     (case s of
        [] \<Rightarrow> None
      | c # r \<Rightarrow>
          if c = CHR 0x22 then Some ([], r)
          else if c = CHR 0x5C then
            (case escape_at r of
               None \<Rightarrow> None
             | Some (t, n) \<Rightarrow> map_option (\<lambda>(u, r'). (t @ u, r')) (pstr (drop n r)))
          else if byte c < 32 then None
          else map_option (\<lambda>(u, r'). (c # u, r')) (pstr r))"
  by pat_completeness auto
termination by (relation "measure length") auto

declare pstr.simps [simp del]

definition pexp :: "string \<Rightarrow> (int \<times> string) option" where
  "pexp s =
     (case s of
        [] \<Rightarrow> Some (0, [])
      | e # r \<Rightarrow>
          if e \<noteq> CHR ''e'' \<and> e \<noteq> CHR ''E'' then Some (0, s)
          else
            let (sg, r1) = (case r of c # r' \<Rightarrow> if c = CHR ''-'' then (- 1, r')
                                       else if c = CHR ''+'' then (1, r') else (1, r)
                            | [] \<Rightarrow> (1, []));
                (ds, r2) = span_digits r1
            in if ds = [] then None else Some (sg * int (str_nat ds), r2))"

definition pnum_abs :: "string \<Rightarrow> (rat \<times> string) option" where
  "pnum_abs s =
     (let (ip, r) = span_digits s in
      if ip = [] \<or> (hd ip = CHR ''0'' \<and> tl ip \<noteq> []) then None
      else
        (case r of
           c # r1 \<Rightarrow>
             if c = CHR ''.'' then
               (let (fp, r2) = span_digits r1 in
                if fp = [] then None
                else map_option (\<lambda>(e, r3). (scale10 (of_nat (str_nat (ip @ fp)) / 10 ^ length fp) e, r3)) (pexp r2))
             else map_option (\<lambda>(e, r3). (scale10 (of_nat (str_nat ip)) e, r3)) (pexp r)
         | [] \<Rightarrow> Some (of_nat (str_nat ip), [])))"

definition pnum :: "string \<Rightarrow> (rat \<times> string) option" where
  "pnum s =
     (case s of
        c # r \<Rightarrow> if c = CHR ''-'' then map_option (\<lambda>(q, r'). (- q, r')) (pnum_abs r) else pnum_abs s
      | [] \<Rightarrow> None)"

fun pval :: "nat \<Rightarrow> string \<Rightarrow> (js \<times> string) option"
  and pelems :: "nat \<Rightarrow> js list \<Rightarrow> string \<Rightarrow> (js list \<times> string) option"
  and pmems :: "nat \<Rightarrow> (string \<times> js) list \<Rightarrow> string \<Rightarrow> ((string \<times> js) list \<times> string) option"
where
  "pval 0 s = None"
| "pval (Suc f) s =
     (case skip_ws s of
        [] \<Rightarrow> None
      | c # r \<Rightarrow>
          if c = CHR ''{'' then
            (case skip_ws r of
               [] \<Rightarrow> None
             | d # r' \<Rightarrow> if d = CHR ''}'' then Some (JObj [], r')
                        else map_option (\<lambda>(ps, r2). (JObj ps, r2)) (pmems f [] (d # r')))
          else if c = CHR ''['' then
            (case skip_ws r of
               [] \<Rightarrow> None
             | d # r' \<Rightarrow> if d = CHR '']'' then Some (JArr [], r')
                        else map_option (\<lambda>(xs, r2). (JArr xs, r2)) (pelems f [] (d # r')))
          else if c = CHR 0x22 then map_option (\<lambda>(t, r'). (JStr t, r')) (pstr r)
          else if starts_with (c # r) ''true'' then Some (JBool True, drop 3 r)
          else if starts_with (c # r) ''false'' then Some (JBool False, drop 4 r)
          else if starts_with (c # r) ''null'' then Some (JNull, drop 3 r)
          else map_option (\<lambda>(q, r'). (JNum (Fin q), r')) (pnum (c # r)))"
| "pelems 0 acc s = None"
| "pelems (Suc f) acc s =
     (case pval f s of
        None \<Rightarrow> None
      | Some (v, r) \<Rightarrow>
          (case skip_ws r of
             [] \<Rightarrow> None
           | c # r' \<Rightarrow> if c = CHR '','' then pelems f (acc @ [v]) r'
                      else if c = CHR '']'' then Some (acc @ [v], r') else None))"
| "pmems 0 acc s = None"
| "pmems (Suc f) acc s =
     (case skip_ws s of
        [] \<Rightarrow> None
      | q # r \<Rightarrow>
          if q \<noteq> CHR 0x22 then None
          else
            (case pstr r of
               None \<Rightarrow> None
             | Some (k, r1) \<Rightarrow>
                 (case skip_ws r1 of
                    [] \<Rightarrow> None
                  | c # r2 \<Rightarrow>
                      if c \<noteq> CHR '':'' then None
                      else
                        (case pval f r2 of
                           None \<Rightarrow> None
                         | Some (v, r3) \<Rightarrow>
                             (case skip_ws r3 of
                                [] \<Rightarrow> None
                              | d # r4 \<Rightarrow> if d = CHR '','' then pmems f (oput k v acc) r4
                                         else if d = CHR ''}'' then Some (oput k v acc, r4) else None)))))"

definition json_parse :: "string \<Rightarrow> js option" where
  "json_parse s =
     (case pval (Suc (length s)) s of
        Some (v, r) \<Rightarrow> if skip_ws r = [] then Some v else None
      | None \<Rightarrow> None)"

section \<open>Parsing undoes printing\<close>

subsection \<open>Strings\<close>

lemma radix_hex_digit: "radix_digit 16 (hex_digit k) = Some (k mod 16)"
proof -
  have "list_all (\<lambda>m. radix_digit 16 (''0123456789abcdef'' ! m) = Some m) [0 ..< 16]"
    by code_simp
  moreover have "k mod 16 \<in> set [0 ..< 16]" by simp
  ultimately have "radix_digit 16 (''0123456789abcdef'' ! (k mod 16)) = Some (k mod 16)"
    unfolding list_all_iff by (rule bspec)
  then show ?thesis unfolding hex_digit_def .
qed

lemma escape_at_control:
  assumes "n < 32"
  shows "escape_at (CHR ''u'' # CHR ''0'' # CHR ''0'' # hex_digit (n div 16) # hex_digit n # r)
           = Some ([char_of n], 5)"
proof -
  have z: "radix_digit 16 (CHR ''0'') = Some 0" by (simp add: radix_digit_def)
  have d: "16 * (n div 16 mod 16) + n mod 16 = n" using assms by simp
  then have "hex4 [CHR ''0'', CHR ''0'', hex_digit (n div 16), hex_digit n] = Some n"
    by (simp add: hex4_def z radix_hex_digit)
  then show ?thesis using assms by (simp add: escape_at_def utf8_encode_def)
qed

lemma esc_control:
  assumes "byte c < 32"
  shows "\<exists>t. esc_char c = CHR 0x5C # t \<and> (\<forall>r. escape_at (t @ r) = Some ([c], length t))"
proof (cases "c \<in> set [CHR 0x08, CHR 0x0C, CHR 0x0A, CHR 0x0D, CHR 0x09]")
  case True
  then show ?thesis by (auto simp: esc_char_def escape_at_def simple_escape_def)
next
  case False
  let ?n = "byte c"
  have "esc_char c = CHR 0x5C # [CHR ''u'', CHR ''0'', CHR ''0'', hex_digit (?n div 16), hex_digit ?n]"
  proof -
    have "c \<noteq> CHR 0x22" "c \<noteq> CHR 0x5C" using assms by auto
    then show ?thesis using False assms by (simp add: esc_char_def Let_def)
  qed
  then show ?thesis using escape_at_control[OF assms] by simp
qed

lemma pstr_esc:
  "pstr (esc_char c @ r) = map_option (\<lambda>(u, r'). (c # u, r')) (pstr r)"
proof (cases "byte c < 32")
  case True
  from esc_control[OF this] obtain t where t: "esc_char c = CHR 0x5C # t"
    and e: "escape_at (t @ r) = Some ([c], length t)" by blast
  show ?thesis by (subst pstr.simps) (simp add: t e)
next
  case False
  then show ?thesis
    by (subst pstr.simps) (auto simp: esc_char_def escape_at_def simple_escape_def Let_def)
qed

lemma pstr_body: "pstr (concat (map esc_char s) @ CHR 0x22 # r) = Some (s, r)"
proof (induction s)
  case Nil
  then show ?case by (subst pstr.simps) simp
next
  case (Cons c s)
  then show ?case by (simp add: pstr_esc)
qed

subsection \<open>Numbers\<close>

definition ends_value :: "string \<Rightarrow> bool" where
  "ends_value r = (case r of [] \<Rightarrow> True | c # _ \<Rightarrow> c \<in> set [CHR '','', CHR '']'', CHR ''}'', CHR 0x0A])"

lemma ends_value_cases:
  assumes "ends_value r"
  obtains "r = []" | t where "r = CHR '','' # t" | t where "r = CHR '']'' # t"
    | t where "r = CHR ''}'' # t" | t where "r = CHR 0x0A # t"
  using assms by (cases r) (auto simp: ends_value_def)

lemma span_digits_append:
  "list_all is_digit s \<Longrightarrow> ends_value r \<Longrightarrow> span_digits (s @ r) = (s, r)"
  by (induction s) (auto elim!: ends_value_cases simp: is_digit_def)

lemma pexp_ends: "ends_value r \<Longrightarrow> pexp r = Some (0, r)"
  by (auto elim!: ends_value_cases simp: pexp_def)

lemma nat_str_no_lead_zero: "hd (nat_str n) = CHR ''0'' \<Longrightarrow> nat_str n = ''0''"
proof (induction n rule: nat_str.induct)
  case (1 n)
  show ?case
  proof (cases "n < 10")
    case True
    then show ?thesis using "1.prems" by (subst nat_str.simps) (simp add: nat_str.simps[of n])
  next
    case False
    then have e: "nat_str n = nat_str (n div 10) @ [digit_char (n mod 10)]"
      by (subst nat_str.simps) simp
    have "hd (nat_str (n div 10)) = CHR ''0''" using "1.prems" e by simp
    with "1.IH"[OF False] have "nat_str (n div 10) = nat_str 0"
      by (simp add: nat_str.simps[of 0] digit_char_def)
    then have "n div 10 = 0" by (simp only: nat_str_inject)
    with False show ?thesis by simp
  qed
qed

lemma pnum_abs_nat:
  assumes "ends_value r"
  shows "pnum_abs (nat_str n @ r) = Some (of_nat n, r)"
  using assms nat_str_no_lead_zero[of n]
  by (auto simp: pnum_abs_def span_digits_append pexp_def scale10_def elim!: ends_value_cases)

lemma pnum_int:
  assumes "ends_value r" and "\<bar>z\<bar> < 10 ^ 21"
  shows "pnum (num_str (Fin (of_int z)) @ r) = Some (of_int z, r)"
proof (cases "z < 0")
  case True
  define n where "n = nat (- z)"
  from True have z: "z = - int n" by (simp add: n_def)
  then have z': "(of_int z :: rat) = - of_nat n" by simp
  have n: "n < 10 ^ 21" "n \<noteq> 0" using assms(2) True by (auto simp: n_def nat_less_iff)
  have b: "(of_nat n :: rat) < 10 ^ 21"
    using n(1) by (metis of_nat_less_iff of_nat_numeral of_nat_power)
  have "num_str (Fin (of_int z)) = ''-'' @ nat_str n"
    unfolding z' using b n(2) by (simp add: num_str.simps pos_str_def)
  then show ?thesis using pnum_abs_nat[OF assms(1), of n] z' by (simp add: pnum_def)
next
  case False
  define n where "n = nat z"
  from False have z': "(of_int z :: rat) = of_nat n" by (simp add: n_def)
  have n: "n < 10 ^ 21" using assms(2) False by (auto simp: n_def nat_less_iff)
  have s: "num_str (Fin (of_int z)) = nat_str n" unfolding z' by (rule num_str_nat[OF n])
  have "is_digit (hd (nat_str n))" by (rule nat_str_hd_digit)
  then have "pnum (nat_str n @ r) = pnum_abs (nat_str n @ r)"
    by (cases "nat_str n") (auto simp: pnum_def is_digit_def)
  then show ?thesis using pnum_abs_nat[OF assms(1), of n] z' s by simp
qed

lemma num_str_int_hd:
  assumes "\<bar>z\<bar> < 10 ^ 21"
  obtains c t where "num_str (Fin (of_int z)) = c # t" and "is_digit c \<or> c = CHR ''-''"
proof (cases "z < 0")
  case True
  then have "num_str (Fin (of_int z)) = CHR ''-'' # pos_str (- of_int z)"
    by (simp add: num_str.simps)
  then show ?thesis using that by blast
next
  case False
  define n where "n = nat z"
  from False have z': "(of_int z :: rat) = of_nat n" by (simp add: n_def)
  have n: "n < 10 ^ 21" using assms False by (auto simp: n_def nat_less_iff)
  have s: "num_str (Fin (of_int z)) = nat_str n" unfolding z' by (rule num_str_nat[OF n])
  obtain c t where "nat_str n = c # t" using nat_str_nonempty by (meson neq_Nil_conv)
  then show ?thesis using that s nat_str_hd_digit[of n] by auto
qed

subsection \<open>Values\<close>

fun json_clean :: "js \<Rightarrow> bool" where
  "json_clean JUndef = False"
| "json_clean JNull = True"
| "json_clean (JBool b) = True"
| "json_clean (JStr s) = True"
| "json_clean (JNum n) =
     (case n of Fin q \<Rightarrow> of_int \<lfloor>q\<rfloor> = q \<and> \<bar>\<lfloor>q\<rfloor>\<bar> < 10 ^ 21 | _ \<Rightarrow> False)"
| "json_clean (JArr xs) = list_all json_clean xs"
| "json_clean (JObj ps) = (owf ps \<and> list_all (\<lambda>p. json_clean (snd p)) ps)"

fun jsize :: "js \<Rightarrow> nat" and jsizes :: "js list \<Rightarrow> nat" and jsizem :: "(string \<times> js) list \<Rightarrow> nat" where
  "jsize (JArr xs) = Suc (jsizes xs)"
| "jsize (JObj ps) = Suc (jsizem ps)"
| "jsize _ = 1"
| "jsizes [] = 0"
| "jsizes (x # xs) = Suc (jsize x + jsizes xs)"
| "jsizem [] = 0"
| "jsizem (p # ps) = Suc (jsize (snd p) + jsizem ps)"

abbreviation ws_only :: "string \<Rightarrow> bool" where
  "ws_only s \<equiv> list_all json_ws s"

lemma skip_ws_append: "ws_only w \<Longrightarrow> skip_ws (w @ s) = skip_ws s"
  by (induction w) (auto simp: skip_ws_def)

lemma skip_ws_Cons [simp]: "skip_ws (c # s) = (if json_ws c then skip_ws s else c # s)"
  by (simp add: skip_ws_def)

lemma skip_ws_Nil [simp]: "skip_ws [] = []"
  by (simp add: skip_ws_def)

lemma ws_line_sep [simp]: "ws_only i \<Longrightarrow> ws_only (line_sep g i)"
  by (simp add: line_sep_def json_ws_def)

lemma skip_sep [simp]: "ws_only i \<Longrightarrow> skip_ws (line_sep g i @ s) = skip_ws s"
  by (simp add: skip_ws_append)

lemma json_ws_simps [simp]:
  "\<not> json_ws CHR '',''" "\<not> json_ws CHR '']''" "\<not> json_ws CHR ''}''" "\<not> json_ws CHR ''[''"
  "\<not> json_ws CHR ''{''" "\<not> json_ws CHR '':''" "\<not> json_ws CHR 0x22" "json_ws CHR '' ''"
  "\<not> json_ws CHR ''n''" "\<not> json_ws CHR ''t''" "\<not> json_ws CHR ''f''"
  by (simp_all add: json_ws_def)

lemma pval_ws: "ws_only w \<Longrightarrow> pval f (w @ s) = pval f s"
  by (cases f) (simp_all add: skip_ws_append)

lemma pelems_ws: "ws_only w \<Longrightarrow> pelems f acc (w @ s) = pelems f acc s"
  by (cases f) (simp_all add: pval_ws)

lemma pmems_ws: "ws_only w \<Longrightarrow> pmems f acc (w @ s) = pmems f acc s"
  by (cases f) (simp_all add: skip_ws_append)

definition opens_value :: "char \<Rightarrow> bool" where
  "opens_value c = (\<not> json_ws c \<and> c \<noteq> CHR '']'' \<and> c \<noteq> CHR ''}'')"

lemma json_clean_num:
  assumes "json_clean (JNum n)"
  obtains z where "n = Fin (of_int z)" and "\<bar>z\<bar> < 10 ^ 21"
proof (cases n)
  case (Fin q)
  with assms have "n = Fin (of_int \<lfloor>q\<rfloor>)" "\<bar>\<lfloor>q\<rfloor>\<bar> < 10 ^ 21" by auto
  then show ?thesis using that by blast
qed (use assms in auto)

definition opens_text :: "string \<Rightarrow> bool" where
  "opens_text s = (case s of [] \<Rightarrow> False | c # _ \<Rightarrow> opens_value c)"

lemma opens_text_num: "\<bar>z\<bar> < 10 ^ 21 \<Longrightarrow> opens_text (num_str (Fin (of_int z)))"
  by (rule num_str_int_hd[of z]) (auto simp: opens_text_def opens_value_def json_ws_def is_digit_def)

lemma gen_opens_text: "json_clean v \<Longrightarrow> opens_text (json_gen g i v)"
proof (cases v)
  case (JNum n)
  assume "json_clean v"
  with JNum obtain z where "n = Fin (of_int z)" "\<bar>z\<bar> < 10 ^ 21"
    using json_clean_num by metis
  then show ?thesis using JNum by (simp add: opens_text_num)
qed (auto simp: opens_text_def opens_value_def json_ws_def json_quote_def split: list.split)

lemma gen_opens:
  assumes "json_clean v"
  obtains c t where "json_gen g i v = c # t" and "opens_value c"
  using gen_opens_text[OF assms, of g i] by (auto simp: opens_text_def split: list.splits)

lemma ends_value_simps [simp]:
  "ends_value []" "ends_value (CHR '','' # t)" "ends_value (CHR '']'' # t)"
  "ends_value (CHR ''}'' # t)" "ends_value (CHR 0x0A # t)"
  by (simp_all add: ends_value_def)

lemma ends_value_sep [simp]:
  "ends_value (line_sep g i @ CHR '']'' # t)" "ends_value (line_sep g i @ CHR ''}'' # t)"
  by (simp_all add: line_sep_def)

lemma oput_snoc:
  "owf (acc @ [(k, v)]) \<Longrightarrow> oput k v acc = acc @ [(k, v)]"
  by (induction acc) (auto simp: owf_def okeys_def key_ordered_def)

lemma owf_prefix: "owf (a @ b) \<Longrightarrow> owf a"
  by (auto simp: owf_def okeys_def key_ordered_def sorted_wrt_append)

lemma members_clean_eq:
  "list_all (\<lambda>p. json_clean (snd p)) (p # ps) \<Longrightarrow>
   json_members g i (p # ps)
     = (json_quote (fst p) @ colon_sep g @ json_gen g i (snd p)) # json_members g i ps"
  by auto

lemma elems_Nil [simp]: "json_elems g i xs = [] \<longleftrightarrow> xs = []"
  by (cases xs) auto

lemma members_Nil: "list_all (\<lambda>p. json_clean (snd p)) ps \<Longrightarrow> json_members g i ps = [] \<longleftrightarrow> ps = []"
  by (cases ps) auto

lemma pval_quote: "pval (Suc f) (json_quote s @ r) = Some (JStr s, r)"
  by (simp add: json_quote_def json_ws_def pstr_body)

lemma pval_num:
  assumes "ends_value r" and "\<bar>z\<bar> < 10 ^ 21"
  shows "pval (Suc f) (num_str (Fin (of_int z)) @ r) = Some (JInt z, r)"
proof -
  obtain c t where ct: "num_str (Fin (of_int z)) = c # t" "is_digit c \<or> c = CHR ''-''"
    by (rule num_str_int_hd[OF assms(2)])
  then show ?thesis using pnum_int[OF assms]
    by (elim disjE) (simp_all add: json_ws_def digit_eq_Char is_digit_def[of "Char _ _ _ _ _ _ _ _"])
qed

lemma pmems_step:
  assumes "pval f (json_gen g i v @ r) = Some (v, r)" and "ws_only i" and "ws_only g"
  shows "pmems (Suc f) acc (json_quote k @ colon_sep g @ json_gen g i v @ r)
    = (case skip_ws r of [] \<Rightarrow> None
       | d # r4 \<Rightarrow> if d = CHR '','' then pmems f (oput k v acc) r4
                  else if d = CHR ''}'' then Some (oput k v acc, r4) else None)"
proof -
  have "pval f (CHR '' '' # json_gen g i v @ r) = Some (v, r)"
    using pval_ws[of "'' ''" f "json_gen g i v @ r"] assms(1) by (simp add: json_ws_def)
  then have p: "pval f ((if g = [] then [] else '' '') @ json_gen g i v @ r) = Some (v, r)"
    using assms(1) by (cases "g = []") simp_all
  have "colon_sep g = CHR '':'' # (if g = [] then [] else '' '')"
    by (simp add: colon_sep_def)
  then have "pmems (Suc f) acc (json_quote k @ colon_sep g @ json_gen g i v @ r)
    = pmems (Suc f) acc (CHR 0x22 # concat (map esc_char k) @ CHR 0x22 # CHR '':'' #
        (if g = [] then [] else '' '') @ json_gen g i v @ r)"
    by (simp add: json_quote_def)
  then show ?thesis
    by (simp add: json_ws_def pstr_body p del: append.simps if_split)
qed

theorem gen_pval:
  "ws_only g \<Longrightarrow> ws_only i \<Longrightarrow> json_clean v \<Longrightarrow> jsize v \<le> f \<Longrightarrow> ends_value r \<Longrightarrow>
     pval f (json_gen g i v @ r) = Some (v, r)"
  and "ws_only g \<Longrightarrow> ws_only i \<Longrightarrow> ws_only i0 \<Longrightarrow> xs \<noteq> [] \<Longrightarrow> list_all json_clean xs \<Longrightarrow>
     jsizes xs \<le> f \<Longrightarrow>
     pelems f acc (join ('','' @ line_sep g i) (json_elems g i xs) @ line_sep g i0 @ '']'' @ r)
       = Some (acc @ xs, r)"
  and "ws_only g \<Longrightarrow> ws_only i \<Longrightarrow> ws_only i0 \<Longrightarrow> ps \<noteq> [] \<Longrightarrow>
     list_all (\<lambda>p. json_clean (snd p)) ps \<Longrightarrow> owf (macc @ ps) \<Longrightarrow> jsizem ps \<le> f \<Longrightarrow>
     pmems f macc (join ('','' @ line_sep g i) (json_members g i ps) @ line_sep g i0 @ ''}'' @ r)
       = Some (macc @ ps, r)"
proof (induction g i v and g i xs and g i ps arbitrary: f r and f acc i0 r and f macc i0 r
       rule: json_gen_json_elems_json_members.induct)
  case (1 g i)
  then show ?case by simp
next
  case (2 g i)
  then show ?case by (cases f) simp_all
next
  case (3 g i b)
  then show ?case by (cases f) auto
next
  case (4 g i n)
  then obtain z where "n = Fin (of_int z)" "\<bar>z\<bar> < 10 ^ 21"
    using json_clean_num by metis
  with 4 show ?case by (cases f) (auto simp only: json_gen.simps num_preds_simps if_True pval_num jsize.simps)
next
  case (5 g i s)
  then show ?case by (cases f) (auto simp only: json_gen.simps pval_quote jsize.simps)
next
  case (6 g i xs)
  then obtain f' where f: "f = Suc f'" by (cases f) auto
  show ?case
  proof (cases xs)
    case Nil
    then show ?thesis by (simp add: f)
  next
    case (Cons x xs')
    let ?body = "join ('','' @ line_sep g (i @ g)) (json_elems g (i @ g) xs)"
    have e: "json_gen g i (JArr xs) @ r
        = CHR ''['' # line_sep g (i @ g) @ ?body @ line_sep g i @ '']'' @ r"
      using Cons by (simp split: list.splits)
    obtain c t where ct: "json_gen g (i @ g) x = c # t" "opens_value c"
      using gen_opens[of x g "i @ g"] 6 Cons by auto
    have b: "\<exists>u. ?body = c # u" using Cons ct by (cases xs') simp_all
    have "pelems f' [] (?body @ line_sep g i @ '']'' @ r) = Some ([] @ xs, r)"
      using 6 Cons f by (intro "6.IH") auto
    moreover have "ws_only (line_sep g (i @ g))" using 6 by simp
    ultimately show ?thesis unfolding e f using b ct(2)
      by (auto simp: skip_ws_append opens_value_def)
  qed
next
  case (7 g i ps)
  then obtain f' where f: "f = Suc f'" by (cases f) auto
  show ?case
  proof (cases ps)
    case Nil
    then show ?thesis by (simp add: f)
  next
    case (Cons p ps')
    let ?body = "join ('','' @ line_sep g (i @ g)) (json_members g (i @ g) ps)"
    have ne: "json_members g (i @ g) ps \<noteq> []" using Cons 7 by auto
    have e: "json_gen g i (JObj ps) @ r
        = CHR ''{'' # line_sep g (i @ g) @ ?body @ line_sep g i @ ''}'' @ r"
      using ne by (simp split: list.splits)
    have b: "\<exists>u. ?body = CHR 0x22 # u"
      using Cons 7 by (cases "json_members g (i @ g) ps'") (auto simp: json_quote_def)
    have "pmems f' [] (?body @ line_sep g i @ ''}'' @ r) = Some ([] @ ps, r)"
      using 7 Cons f by (intro "7.IH") auto
    moreover have "ws_only (line_sep g (i @ g))" using 7 by simp
    ultimately show ?thesis unfolding e f using b
      by (auto simp: skip_ws_append)
  qed
next
  case (8 g i)
  then show ?case by simp
next
  case (9 g i x xs)
  then obtain f' where f: "f = Suc f'" by (cases f) auto
  show ?case
  proof (cases xs)
    case Nil
    have "pval f' (json_gen g i x @ line_sep g i0 @ '']'' @ r) = Some (x, line_sep g i0 @ '']'' @ r)"
      using 9 f by (intro "9.IH"(1)) auto
    then show ?thesis using Nil 9 f by (simp add: skip_ws_append)
  next
    case (Cons y ys)
    let ?rest = "line_sep g i @ join ('','' @ line_sep g i) (json_elems g i xs) @ line_sep g i0 @ '']'' @ r"
    have "pval f' (json_gen g i x @ '','' @ ?rest) = Some (x, '','' @ ?rest)"
      using 9 f by (intro "9.IH"(1)) auto
    moreover have "pelems f' (acc @ [x]) ?rest = Some ((acc @ [x]) @ xs, r)"
      using 9 f Cons by (subst pelems_ws) (auto intro!: "9.IH"(2))
    ultimately show ?thesis using Cons f by simp
  qed
next
  case (10 g i)
  then show ?case by simp
next
  case (11 g i p ps)
  then obtain f' where f: "f = Suc f'" by (cases f) auto
  have cl: "json_clean (snd p)" and nu: "snd p \<noteq> JUndef" using 11 by auto
  have o: "oput (fst p) (snd p) macc = macc @ [p]"
    using 11 oput_snoc[of macc "fst p" "snd p"] owf_prefix[of "macc @ [p]" ps] by simp
  show ?case
  proof (cases ps)
    case Nil
    let ?rest = "line_sep g i0 @ ''}'' @ r"
    have "pval f' (json_gen g i (snd p) @ ?rest) = Some (snd p, ?rest)"
      using 11 f cl nu by (intro "11.IH"(2)) auto
    from pmems_step[OF this, of "macc" "fst p"] show ?thesis
      using Nil 11 f nu o by (simp add: skip_ws_append)
  next
    case (Cons q qs)
    let ?rest = "line_sep g i @ join ('','' @ line_sep g i) (json_members g i ps) @ line_sep g i0 @ ''}'' @ r"
    have "pval f' (json_gen g i (snd p) @ '','' @ ?rest) = Some (snd p, '','' @ ?rest)"
      using 11 f cl nu by (intro "11.IH"(2)) auto
    note st = pmems_step[OF this, of "macc" "fst p"]
    have "pmems f' (macc @ [p]) ?rest = Some ((macc @ [p]) @ ps, r)"
      using 11 f Cons nu by (subst pmems_ws) (auto intro!: "11.IH"(3))
    moreover have "json_members g i ps \<noteq> []" using 11 Cons by auto
    ultimately show ?thesis using st 11 f nu o by (simp add: join_Cons)
  qed
qed

lemma sum_join: "sum_list (map length ws) + length ws \<le> Suc (length (join (CHR '','' # d) ws))"
  by (induction "CHR '','' # d" ws rule: join.induct) auto

lemma gen_length:
  "json_clean v \<Longrightarrow> jsize v \<le> length (json_gen g i v)"
  "list_all json_clean xs \<Longrightarrow>
     jsizes xs \<le> sum_list (map length (json_elems g i xs)) + length (json_elems g i xs)"
  "list_all (\<lambda>p. json_clean (snd p)) ps \<Longrightarrow>
     jsizem ps \<le> sum_list (map length (json_members g i ps)) + length (json_members g i ps)"
proof (induction g i v and g i xs and g i ps rule: json_gen_json_elems_json_members.induct)
  case (4 g i n)
  then obtain z where "n = Fin (of_int z)" "\<bar>z\<bar> < 10 ^ 21"
    using json_clean_num by metis
  then show ?case using num_str_int_hd[of z] by (metis Suc_leI json_gen.simps(4) jsize.simps(6)
    length_greater_0_conv list.discI num_preds_simps(1) One_nat_def)
next
  case (6 g i xs)
  then show ?case
    using sum_join[of "json_elems g (i @ g) xs" "line_sep g (i @ g)"]
    by (auto split: list.splits)
next
  case (7 g i ps)
  then show ?case
    using sum_join[of "json_members g (i @ g) ps" "line_sep g (i @ g)"]
    by (auto split: list.splits)
qed (auto simp: json_quote_def)

theorem json_parse_stringify: "json_clean v \<Longrightarrow> json_parse (json_stringify v) = Some v"
proof -
  assume c: "json_clean v"
  have "pval (Suc (length (json_stringify v))) (json_gen [] [] v @ []) = Some (v, [])"
    using gen_length(1)[OF c, of "[]" "[]"] c
    by (intro gen_pval(1)) (auto simp: json_stringify_def)
  then show ?thesis by (simp add: json_parse_def json_stringify_def)
qed

theorem json_parse_stringify2: "json_clean v \<Longrightarrow> json_parse (json_stringify2 v) = Some v"
proof -
  assume c: "json_clean v"
  have "pval (Suc (length (json_stringify2 v))) (json_gen ''  '' [] v @ []) = Some (v, [])"
    using gen_length(1)[OF c, of "''  ''" "[]"] c
    by (intro gen_pval(1)) (auto simp: json_stringify2_def json_ws_def)
  then show ?thesis by (simp add: json_parse_def json_stringify2_def)
qed

end
