(* ===== verification/Codecs.thy ===== *)
theory Codecs
  imports Json
begin

text \<open>
  The byte-level codecs of the web platform the link code is built on: UTF-8 decoding with
  replacement, \<open>btoa\<close> and \<open>atob\<close>, \<open>encodeURIComponent\<close> and \<open>decodeURIComponent\<close>, and the
  form encoding of query strings. The locale \<open>codec\<close> is the contract the link components use;
  it is interpreted on each of them and on JSON.
\<close>

section \<open>The contract of a codec\<close>

locale codec =
  fixes enc :: "'a \<Rightarrow> 'b" and dec :: "'b \<Rightarrow> 'a option" and ok :: "'a \<Rightarrow> bool"
  assumes dec_enc: "ok x \<Longrightarrow> dec (enc x) = Some x"
begin

lemma enc_inject: "ok x \<Longrightarrow> ok y \<Longrightarrow> enc x = enc y \<longleftrightarrow> x = y"
  by (metis dec_enc option.inject)

lemma enc_inj_on: "inj_on enc {x. ok x}"
  by (auto intro: inj_onI simp: enc_inject)

lemma dec_enc_all: "list_all ok xs \<Longrightarrow> map (dec \<circ> enc) xs = map Some xs"
  by (induction xs) (auto simp: dec_enc)

end

locale codec_chain =
  inner: codec enc1 dec1 ok1 + outer: codec enc2 dec2 ok2
  for enc1 :: "'a \<Rightarrow> 'b" and dec1 ok1 and enc2 :: "'b \<Rightarrow> 'c" and dec2 ok2 +
  assumes enc1_ok: "ok1 x \<Longrightarrow> ok2 (enc1 x)"

sublocale codec_chain \<subseteq> chain: codec "\<lambda>x. enc2 (enc1 x)" "\<lambda>y. Option.bind (dec2 y) dec1" ok1
  by unfold_locales (simp add: outer.dec_enc enc1_ok inner.dec_enc)

section \<open>UTF-8\<close>

text \<open>The continuation bytes a lead byte asks for: how many, and the range of the first.\<close>

definition utf8_lead :: "nat \<Rightarrow> (nat \<times> nat \<times> nat) option" where
  "utf8_lead n =
     (if 194 \<le> n \<and> n \<le> 223 then Some (1, 128, 191)
      else if n = 224 then Some (2, 160, 191)
      else if n = 237 then Some (2, 128, 159)
      else if 225 \<le> n \<and> n \<le> 239 then Some (2, 128, 191)
      else if n = 240 then Some (3, 144, 191)
      else if 241 \<le> n \<and> n \<le> 243 then Some (3, 128, 191)
      else if n = 244 then Some (3, 128, 143)
      else None)"

fun conts :: "nat \<Rightarrow> nat \<Rightarrow> nat \<Rightarrow> string \<Rightarrow> nat" where
  "conts 0 lo hi s = 0"
| "conts (Suc k) lo hi [] = 0"
| "conts (Suc k) lo hi (c # s) =
     (let n = byte c in
      if lo \<le> n \<and> n \<le> hi then Suc (conts k 128 191 s) else 0)"

function utf8_valid :: "string \<Rightarrow> bool" where
  "utf8_valid s =
     (case s of
        [] \<Rightarrow> True
      | c # r \<Rightarrow>
          if byte c < 128 then utf8_valid r
          else (case utf8_lead (byte c) of
                  None \<Rightarrow> False
                | Some (k, lo, hi) \<Rightarrow> conts k lo hi r = k \<and> utf8_valid (drop k r)))"
  by pat_completeness auto
termination by (relation "measure length") auto

declare utf8_valid.simps [simp del]

definition replacement :: string where
  "replacement = [CHR 0xEF, CHR 0xBF, CHR 0xBD]"

function utf8_lossy :: "string \<Rightarrow> string" where
  "utf8_lossy s =
     (case s of
        [] \<Rightarrow> []
      | c # r \<Rightarrow>
          if byte c < 128 then c # utf8_lossy r
          else (case utf8_lead (byte c) of
                  None \<Rightarrow> replacement @ utf8_lossy r
                | Some (k, lo, hi) \<Rightarrow>
                    (let j = conts k lo hi r in
                     (if j = k then c # take k r else replacement) @ utf8_lossy (drop j r))))"
  by pat_completeness auto
termination by (relation "measure length") auto

declare utf8_lossy.simps [simp del]

definition text_decode :: "string \<Rightarrow> string" where
  "text_decode s = utf8_lossy (if starts_with s [CHR 0xEF, CHR 0xBB, CHR 0xBF] then drop 3 s else s)"

definition is_ascii :: "string \<Rightarrow> bool" where
  "is_ascii s = list_all (\<lambda>c. byte c < 128) s"

lemma conts_length: "conts k lo hi s \<le> length s"
  by (induction k lo hi s rule: conts.induct) (auto simp: Let_def)

lemma utf8_lossy_valid: "utf8_valid s \<Longrightarrow> utf8_lossy s = s"
proof (induction s rule: utf8_valid.induct)
  case (1 s)
  show ?case
  proof (cases s)
    case Nil
    then show ?thesis by (subst utf8_lossy.simps) simp
  next
    case (Cons c r)
    have v: "utf8_valid (c # r)" using "1.prems" Cons by simp
    show ?thesis
    proof (cases "byte c < 128")
      case True
      then show ?thesis using "1.IH"(1)[OF Cons True] v Cons
        by (subst utf8_lossy.simps) (simp add: utf8_valid.simps[of "c # r"])
    next
      case False
      then obtain k lo hi where l: "utf8_lead (byte c) = Some (k, lo, hi)"
        and cc: "conts k lo hi r = k" and d: "utf8_valid (drop k r)"
        using v by (subst (asm) utf8_valid.simps) (auto split: option.splits)
      have "utf8_lossy (drop k r) = drop k r"
        using "1.IH"(2)[OF Cons False l refl refl d] .
      then show ?thesis using False Cons l cc
        by (subst utf8_lossy.simps) (simp add: Let_def)
    qed
  qed
qed

lemma utf8_valid_ascii: "is_ascii s \<Longrightarrow> utf8_valid s"
  by (induction s) (auto simp: is_ascii_def utf8_valid.simps)

lemma text_decode_ascii: "is_ascii s \<Longrightarrow> text_decode s = s"
proof -
  assume a: "is_ascii s"
  then have "\<not> starts_with s [CHR 0xEF, CHR 0xBB, CHR 0xBF]"
    by (cases s) (auto simp: is_ascii_def)
  with a show ?thesis by (simp add: text_decode_def utf8_lossy_valid utf8_valid_ascii)
qed

section \<open>Base64\<close>

definition b64_chars :: string where
  "b64_chars = ''ABCDEFGHIJKLMNOPQRSTUVWXYZabcdefghijklmnopqrstuvwxyz0123456789+/''"

definition b64_char :: "nat \<Rightarrow> char" where
  "b64_char n = b64_chars ! n"

definition b64_val :: "char \<Rightarrow> nat option" where
  "b64_val c =
     (let n = byte c in
      if 65 \<le> n \<and> n \<le> 90 then Some (n - 65)
      else if 97 \<le> n \<and> n \<le> 122 then Some (n - 71)
      else if 48 \<le> n \<and> n \<le> 57 then Some (n + 4)
      else if n = 43 then Some 62 else if n = 47 then Some 63 else None)"

text \<open>The four sextets of three bytes, and the three bytes of four sextets.\<close>

definition sx1 :: "nat \<Rightarrow> nat" where "sx1 a = a div 4"
definition sx2 :: "nat \<Rightarrow> nat \<Rightarrow> nat" where "sx2 a b = a mod 4 * 16 + b div 16"
definition sx3 :: "nat \<Rightarrow> nat \<Rightarrow> nat" where "sx3 b c = b mod 16 * 4 + c div 64"
definition sx4 :: "nat \<Rightarrow> nat" where "sx4 c = c mod 64"

definition oc1 :: "nat \<Rightarrow> nat \<Rightarrow> nat" where "oc1 w x = w * 4 + x div 16"
definition oc2 :: "nat \<Rightarrow> nat \<Rightarrow> nat" where "oc2 x y = x mod 16 * 16 + y div 4"
definition oc3 :: "nat \<Rightarrow> nat \<Rightarrow> nat" where "oc3 y z = y mod 4 * 64 + z"

fun b64_body :: "string \<Rightarrow> string" where
  "b64_body [] = []"
| "b64_body [a] = [b64_char (sx1 (byte a)), b64_char (sx2 (byte a) 0)]"
| "b64_body [a, b] =
     [b64_char (sx1 (byte a)), b64_char (sx2 (byte a) (byte b)), b64_char (sx3 (byte b) 0)]"
| "b64_body (a # b # c # s) =
     b64_char (sx1 (byte a)) # b64_char (sx2 (byte a) (byte b))
     # b64_char (sx3 (byte b) (byte c)) # b64_char (sx4 (byte c)) # b64_body s"

definition b64_pad :: "nat \<Rightarrow> string" where
  "b64_pad n = (if n mod 3 = 1 then ''=='' else if n mod 3 = 2 then ''='' else [])"

definition btoa :: "string \<Rightarrow> string" where
  "btoa s = b64_body s @ b64_pad (length s)"

fun b64_bytes :: "nat list \<Rightarrow> string" where
  "b64_bytes (w # x # y # z # r) =
     char_of (oc1 w x) # char_of (oc2 x y) # char_of (oc3 y z) # b64_bytes r"
| "b64_bytes [w, x, y] = [char_of (oc1 w x), char_of (oc2 x y)]"
| "b64_bytes [w, x] = [char_of (oc1 w x)]"
| "b64_bytes _ = []"

definition atob_ws :: "char \<Rightarrow> bool" where
  "atob_ws c = (c \<in> set [CHR 0x09, CHR 0x0A, CHR 0x0C, CHR 0x0D, CHR 0x20])"

definition drop_pad :: "string \<Rightarrow> string" where
  "drop_pad s =
     (if length s mod 4 \<noteq> 0 then s
      else if ends_with s ''=='' then take (length s - 2) s
      else if ends_with s ''='' then take (length s - 1) s
      else s)"

fun all_some :: "'a option list \<Rightarrow> 'a list option" where
  "all_some [] = Some []"
| "all_some (None # xs) = None"
| "all_some (Some x # xs) = map_option ((#) x) (all_some xs)"

text \<open>\<open>None\<close> stands for the thrown \<open>InvalidCharacterError\<close>.\<close>

definition atob :: "string \<Rightarrow> string option" where
  "atob s0 =
     (let s = drop_pad (filter (\<lambda>c. \<not> atob_ws c) s0) in
      if length s mod 4 = 1 then None
      else map_option b64_bytes (all_some (map b64_val s)))"

lemma b64_chars_length: "length b64_chars = 64"
  by (simp add: b64_chars_def)

lemma b64_val_chars: "map b64_val b64_chars = map Some [0 ..< 64]"
  by code_simp

lemma b64_val_char: "n < 64 \<Longrightarrow> b64_val (b64_char n) = Some n"
  using arg_cong[OF b64_val_chars, of "\<lambda>xs. xs ! n"]
  by (simp add: b64_char_def b64_chars_length)

lemma b64_char_mem: "n < 64 \<Longrightarrow> b64_char n \<in> set b64_chars"
  by (simp add: b64_char_def b64_chars_length)

lemma b64_chars_plain: "list_all (\<lambda>c. \<not> atob_ws c \<and> c \<noteq> CHR ''='' \<and> byte c < 128) b64_chars"
  by (simp add: b64_chars_def atob_ws_def)

lemma b64_char_plain:
  "n < 64 \<Longrightarrow> \<not> atob_ws (b64_char n) \<and> b64_char n \<noteq> CHR ''='' \<and> byte (b64_char n) < 128"
  using b64_chars_plain b64_char_mem unfolding list_all_iff by blast

lemma sextets:
  "a < 256 \<Longrightarrow> sx1 a < 64" "b < 256 \<Longrightarrow> sx2 a b < 64" "c < 256 \<Longrightarrow> sx3 b c < 64" "sx4 c < 64"
proof -
  show "sx1 a < 64" if "a < 256" using that by (simp add: sx1_def)
  show "sx2 a b < 64" if "b < 256"
  proof -
    have "b div 16 < 16" "a mod 4 < 4" using that by simp_all
    then show ?thesis unfolding sx2_def by linarith
  qed
  show "sx3 b c < 64" if "c < 256"
  proof -
    have "c div 64 < 4" "b mod 16 < 16" using that by simp_all
    then show ?thesis unfolding sx3_def by linarith
  qed
  show "sx4 c < 64" by (simp add: sx4_def)
qed

lemma octets:
  "b < 256 \<Longrightarrow> oc1 (sx1 a) (sx2 a b) = a"
  "b < 256 \<Longrightarrow> c < 256 \<Longrightarrow> oc2 (sx2 a b) (sx3 b c) = b"
  "c < 256 \<Longrightarrow> oc3 (sx3 b c) (sx4 c) = c"
proof -
  show "oc1 (sx1 a) (sx2 a b) = a" if "b < 256"
  proof -
    have "b div 16 < 16" using that by simp
    then have "(a mod 4 * 16 + b div 16) div 16 = a mod 4" by simp
    then show ?thesis by (simp add: oc1_def sx1_def sx2_def)
  qed
  show "oc2 (sx2 a b) (sx3 b c) = b" if "b < 256" "c < 256"
  proof -
    have "b div 16 < 16" "c div 64 < 4" using that by simp_all
    then have "(a mod 4 * 16 + b div 16) mod 16 = b div 16"
      and "(b mod 16 * 4 + c div 64) div 4 = b mod 16" by simp_all
    then show ?thesis by (simp add: oc2_def sx2_def sx3_def)
  qed
  show "oc3 (sx3 b c) (sx4 c) = c" if "c < 256"
  proof -
    have "c div 64 < 4" using that by simp
    then have "(b mod 16 * 4 + c div 64) mod 4 = c div 64" by simp
    then show ?thesis by (simp add: oc3_def sx3_def sx4_def)
  qed
qed

lemma octets_end: "oc1 (sx1 a) (sx2 a 0) = a" "b < 256 \<Longrightarrow> oc2 (sx2 a b) (sx3 b 0) = b"
  using octets(1)[of 0 a] octets(2)[of b 0 a] by simp_all

lemma b64_body_decodes:
  "map_option b64_bytes (all_some (map b64_val (b64_body s))) = Some s \<and>
   (\<exists>vs. all_some (map b64_val (b64_body s)) = Some vs \<and> b64_bytes vs = s)"
  by (induction s rule: b64_body.induct) (auto simp: b64_val_char sextets octets octets_end)

lemma b64_body_plain: "c \<in> set (b64_body s) \<Longrightarrow> \<not> atob_ws c \<and> c \<noteq> CHR ''='' \<and> byte c < 128"
  by (induction s rule: b64_body.induct) (auto simp: b64_char_plain sextets)

lemma b64_body_length:
  "length (b64_body s) mod 4 = (if length s mod 3 = 0 then 0 else Suc (length s mod 3))"
  by (induction s rule: b64_body.induct) (auto simp: mod_Suc)

lemma filter_b64_body: "filter (\<lambda>c. \<not> atob_ws c) (b64_body s) = b64_body s"
  using b64_body_plain by (auto simp: filter_id_conv)

lemma no_pad_end:
  assumes "CHR ''='' \<notin> set t"
  shows "\<not> ends_with t ''==''" and "\<not> ends_with t ''=''"
  using assms by (auto simp: ends_with_def starts_with_iff rev_swap)

lemma drop_pad_btoa: "drop_pad (btoa s) = b64_body s"
proof -
  have np: "CHR ''='' \<notin> set (b64_body s)" using b64_body_plain by blast
  note lm = b64_body_length[of s]
  have m3: "length s mod 3 = 0 \<or> length s mod 3 = 1 \<or> length s mod 3 = 2" by presburger
  then show ?thesis
  proof (elim disjE)
    assume m: "length s mod 3 = 0"
    then show ?thesis using lm no_pad_end[OF np] by (simp add: btoa_def b64_pad_def drop_pad_def)
  next
    assume m: "length s mod 3 = 1"
    then have "length (b64_body s) mod 4 = 2" using lm by simp
    then have "(length (b64_body s) + 2) mod 4 = 0" by presburger
    then show ?thesis using m
      by (simp add: btoa_def b64_pad_def drop_pad_def ends_with_def)
  next
    assume m: "length s mod 3 = 2"
    then have "length (b64_body s) mod 4 = 3" using lm by simp
    then have "(length (b64_body s) + 1) mod 4 = 0" by presburger
    moreover have "\<not> starts_with (rev (b64_body s)) ''=''"
      using no_pad_end(2)[OF np] by (simp add: ends_with_def)
    ultimately show ?thesis using m
      by (simp add: btoa_def b64_pad_def drop_pad_def ends_with_def)
  qed
qed

theorem atob_btoa: "atob (btoa s) = Some s"
proof -
  have "filter (\<lambda>c. \<not> atob_ws c) (btoa s) = btoa s"
    by (simp add: btoa_def filter_b64_body) (simp add: b64_pad_def atob_ws_def)
  moreover have "length (b64_body s) mod 4 \<noteq> 1" by (simp add: b64_body_length)
  ultimately show ?thesis
    using b64_body_decodes[of s] by (simp add: atob_def drop_pad_btoa)
qed

text \<open>Base64 text is decoded without its padding too.\<close>

theorem atob_unpadded: "atob (filter (\<lambda>c. c \<noteq> CHR ''='') (btoa s)) = Some s"
proof -
  have np: "CHR ''='' \<notin> set (b64_body s)" using b64_body_plain by blast
  have "filter (\<lambda>c. c \<noteq> CHR ''='') (b64_body s) = b64_body s"
    using np by (auto simp: filter_id_conv)
  moreover have "filter (\<lambda>c. c \<noteq> CHR ''='') (b64_pad n) = []" for n by (simp add: b64_pad_def)
  moreover have "drop_pad (b64_body s) = b64_body s"
    using no_pad_end[OF np] by (simp add: drop_pad_def)
  moreover have "length (b64_body s) mod 4 \<noteq> 1" by (simp add: b64_body_length)
  ultimately show ?thesis
    using b64_body_decodes[of s]
    by (simp add: atob_def btoa_def filter_b64_body)
qed

lemma is_ascii_btoa: "is_ascii (btoa s)"
  using b64_body_plain[of _ s]
  by (auto simp: is_ascii_def btoa_def b64_pad_def list_all_iff)

interpretation b64: codec btoa atob "\<lambda>_. True"
  by unfold_locales (rule atob_btoa)

interpretation json: codec json_stringify json_parse json_clean
  by unfold_locales (rule json_parse_stringify)

interpretation json2: codec json_stringify2 json_parse json_clean
  by unfold_locales (rule json_parse_stringify2)

interpretation b64_json: codec_chain json_stringify2 json_parse json_clean btoa atob "\<lambda>_. True"
  by unfold_locales simp

end
