(* ===== verification/Web_Url.thy ===== *)
theory Web_Url
  imports Codecs
begin

text \<open>
  Percent-encoding, \<open>URLSearchParams\<close> and the part of the \<open>URL\<close> class the link code calls, for
  the non-special schemes it builds and reads (vless, trojan, ss, hysteria, hysteria2, wireguard,
  tg). The parser follows the URL Standard: white-space stripping, credentials up to the last
  \<open>@\<close>, opaque hosts with their forbidden code points, ports up to 65535, and the four
  percent-encode sets. IPv6 literals are canonicalised by the parameter \<open>ip6\<close>, which returns
  None for text that is no address. Dot segments of a path are kept, and a special scheme (http,
  https, ws, wss, ftp, file) is reported as a failure: every caller discards such a URL.
\<close>

section \<open>Stores of named values\<close>

text \<open>The contract shared by URL parameters and objects used as dictionaries.\<close>

locale store =
  fixes get :: "'s \<Rightarrow> 'k \<Rightarrow> 'v option" and put :: "'k \<Rightarrow> 'v \<Rightarrow> 's \<Rightarrow> 's"
    and del :: "'k \<Rightarrow> 's \<Rightarrow> 's" and new :: 's and key_ok :: "'k \<Rightarrow> bool"
  assumes get_new: "get new k = None"
    and get_put: "key_ok k \<Longrightarrow> get (put k v s) k' = (if k' = k then Some v else get s k')"
    and get_del: "get (del k s) k' = (if k' = k then None else get s k')"
begin

lemma get_put_if:
  "key_ok k \<Longrightarrow> get (if b then put k v s else s) k' = (if b \<and> k' = k then Some v else get s k')"
  by (simp add: get_put)

lemma get_puts:
  "\<forall>p \<in> set kvs. key_ok (fst p) \<Longrightarrow>
   get (fold (\<lambda>p. put (fst p) (snd p)) kvs s) k
     = (case map_of (rev kvs) k of Some v \<Rightarrow> Some v | None \<Rightarrow> get s k)"
proof (induction kvs arbitrary: s)
  case Nil
  then show ?case by simp
next
  case (Cons p kvs)
  then have "get (fold (\<lambda>p. put (fst p) (snd p)) kvs (put (fst p) (snd p) s)) k
      = (case map_of (rev kvs) k of Some v \<Rightarrow> Some v | None \<Rightarrow> get (put (fst p) (snd p) s) k)"
    by simp
  with Cons.prems show ?case
    by (cases p) (auto simp: get_put map_add_def split: option.splits)
qed

lemma get_dels: "get (fold del ks s) k = (if k \<in> set ks then None else get s k)"
  by (induction ks arbitrary: s) (auto simp: get_del)

end

interpretation own: store map_of oset odel "[] :: (string \<times> js) list" "\<lambda>k. k \<noteq> ''__proto__''"
  by unfold_locales (auto simp: map_of_oset map_of_odel)

section \<open>Percent-encoding\<close>

definition hex_upper :: "nat \<Rightarrow> char" where
  "hex_upper n = ''0123456789ABCDEF'' ! (n mod 16)"

definition pct :: "char \<Rightarrow> string" where
  "pct c = [CHR ''%'', hex_upper (byte c div 16), hex_upper (byte c)]"

definition percent_encode :: "(char \<Rightarrow> bool) \<Rightarrow> string \<Rightarrow> string" where
  "percent_encode keep s = concat (map (\<lambda>c. if keep c then [c] else pct c) s)"

fun percent_decode :: "string \<Rightarrow> string" where
  "percent_decode (p # a # b # r) =
     (if p = CHR ''%'' then
        (case (radix_digit 16 a, radix_digit 16 b) of
           (Some x, Some y) \<Rightarrow> char_of (16 * x + y) # percent_decode r
         | _ \<Rightarrow> p # percent_decode (a # b # r))
      else p # percent_decode (a # b # r))"
| "percent_decode s = s"

lemma radix_hex_upper: "radix_digit 16 (hex_upper k) = Some (k mod 16)"
proof -
  have "list_all (\<lambda>m. radix_digit 16 (''0123456789ABCDEF'' ! m) = Some m) [0 ..< 16]"
    by code_simp
  moreover have "k mod 16 \<in> set [0 ..< 16]" by simp
  ultimately have "radix_digit 16 (''0123456789ABCDEF'' ! (k mod 16)) = Some (k mod 16)"
    unfolding list_all_iff by (rule bspec)
  then show ?thesis unfolding hex_upper_def .
qed

lemma hex_byte: "16 * (byte c div 16 mod 16) + byte c mod 16 = byte c"
proof -
  have "byte c div 16 < 16" using byte_less[of c] by linarith
  then show ?thesis by simp
qed

lemma percent_decode_pct [simp]: "percent_decode (pct c @ r) = c # percent_decode r"
  by (simp add: pct_def radix_hex_upper hex_byte)

lemma percent_decode_plain: "c \<noteq> CHR ''%'' \<Longrightarrow> percent_decode (c # r) = c # percent_decode r"
  by (cases r; cases "tl r") auto

lemma percent_encode_simps [simp]:
  "percent_encode keep [] = []"
  "percent_encode keep (c # s) = (if keep c then [c] else pct c) @ percent_encode keep s"
  "percent_encode keep (s @ t) = percent_encode keep s @ percent_encode keep t"
  by (simp_all add: percent_encode_def)

lemma percent_decode_encode:
  "\<not> keep CHR ''%'' \<Longrightarrow> percent_decode (percent_encode keep s) = s"
proof (induction s)
  case (Cons c s)
  then show ?case by (cases "c = CHR ''%''") (auto simp: percent_decode_plain)
qed simp

lemma percent_encode_id: "list_all keep s \<Longrightarrow> percent_encode keep s = s"
  by (induction s) auto

lemma hex_upper_alnum: "is_alnum (hex_upper n)"
proof -
  have "list_all (\<lambda>m. is_alnum (''0123456789ABCDEF'' ! m)) [0 ..< 16]"
    by (simp add: is_alnum_def is_letter_def is_digit_def upper_letters_def upt_conv_Cons)
  moreover have "n mod 16 \<in> set [0 ..< 16]" by simp
  ultimately show ?thesis unfolding hex_upper_def list_all_iff by (rule bspec)
qed

subsection \<open>\<open>encodeURIComponent\<close> and \<open>decodeURIComponent\<close>\<close>

definition uri_unreserved :: "char \<Rightarrow> bool" where
  "uri_unreserved c = (is_alnum c \<or> c \<in> set ''-_.!~*'' \<or> c = CHR 0x27 \<or> c = CHR ''('' \<or> c = CHR '')'')"

definition encode_uri_component :: "string \<Rightarrow> string" where
  "encode_uri_component s = percent_encode uri_unreserved s"

definition pct_byte :: "string \<Rightarrow> nat option" where
  "pct_byte s =
     (case s of
        p # a # b # _ \<Rightarrow>
          if p = CHR ''%'' then
            (case (radix_digit 16 a, radix_digit 16 b) of
               (Some x, Some y) \<Rightarrow> Some (16 * x + y) | _ \<Rightarrow> None)
          else None
      | _ \<Rightarrow> None)"

fun pct_bytes :: "nat \<Rightarrow> string \<Rightarrow> string option" where
  "pct_bytes 0 s = Some []"
| "pct_bytes (Suc k) s =
     (case pct_byte s of
        None \<Rightarrow> None
      | Some b \<Rightarrow> map_option ((#) (char_of b)) (pct_bytes k (drop 3 s)))"

text \<open>\<open>None\<close> stands for the thrown \<open>URIError\<close>.\<close>

function decode_uri_component :: "string \<Rightarrow> string option" where
  "decode_uri_component s =
     (case s of
        [] \<Rightarrow> Some []
      | c # r \<Rightarrow>
          if c \<noteq> CHR ''%'' then map_option ((#) c) (decode_uri_component r)
          else
            (case pct_byte s of
               None \<Rightarrow> None
             | Some b \<Rightarrow>
                 if b < 128 then map_option ((#) (char_of b)) (decode_uri_component (drop 2 r))
                 else
                   (case utf8_lead b of
                      None \<Rightarrow> None
                    | Some (k, lo, hi) \<Rightarrow>
                        (case pct_bytes k (drop 2 r) of
                           None \<Rightarrow> None
                         | Some bs \<Rightarrow>
                             if conts k lo hi bs = k
                             then map_option (\<lambda>t. char_of b # bs @ t)
                                    (decode_uri_component (drop (2 + 3 * k) r))
                             else None))))"
  by pat_completeness auto
termination by (relation "measure length") auto

declare decode_uri_component.simps [simp del]

lemma pct_byte_pct [simp]: "pct_byte (pct c @ r) = Some (byte c)"
  by (simp add: pct_byte_def pct_def radix_hex_upper hex_byte)

lemma high_not_unreserved: "128 \<le> byte c \<Longrightarrow> \<not> uri_unreserved c"
  by (auto simp: uri_unreserved_def is_alnum_def is_letter_def is_digit_def)

lemma pct_bytes_encode:
  "k \<le> length s \<Longrightarrow> \<forall>c \<in> set (take k s). \<not> keep c \<Longrightarrow>
   pct_bytes k (percent_encode keep s @ r) = Some (take k s)
   \<and> drop (3 * k) (percent_encode keep s @ r) = percent_encode keep (drop k s) @ r"
proof (induction k arbitrary: s)
  case (Suc k)
  then obtain c t where s: "s = c # t" by (cases s) auto
  with Suc.prems have "\<not> keep c" by simp
  moreover have "pct_bytes k (percent_encode keep t @ r) = Some (take k t)
      \<and> drop (3 * k) (percent_encode keep t @ r) = percent_encode keep (drop k t) @ r"
    using Suc s by auto
  moreover have "drop 3 (pct c @ u) = u" "drop (3 + n) (pct c @ u) = drop n u" for u n
    by (simp_all add: pct_def numeral_3_eq_3)
  ultimately show ?case using s by (simp add: add.commute[of _ 3] del: drop_append)
qed simp

lemma conts_high: "conts k lo hi s = k \<Longrightarrow> 128 \<le> lo \<Longrightarrow> c \<in> set (take k s) \<Longrightarrow> 128 \<le> byte c"
  by (induction k lo hi s rule: conts.induct) (auto simp: Let_def split: if_splits)

lemma conts_take: "conts k lo hi (take k s) = conts k lo hi s"
  by (induction k lo hi s rule: conts.induct) (auto simp: Let_def)

lemma utf8_lead_high: "utf8_lead n = Some (k, lo, hi) \<Longrightarrow> 128 \<le> lo"
  by (auto simp: utf8_lead_def split: if_splits)

lemma decode_uri_plain:
  "c \<noteq> CHR ''%'' \<Longrightarrow> decode_uri_component (c # r) = map_option ((#) c) (decode_uri_component r)"
  by (subst decode_uri_component.simps) simp

lemma decode_uri_pct_ascii:
  "byte c < 128 \<Longrightarrow> decode_uri_component (pct c @ r) = map_option ((#) c) (decode_uri_component r)"
  by (subst decode_uri_component.simps)
     (auto simp: pct_byte_def radix_hex_upper hex_byte pct_def)

lemma decode_uri_pct_high:
  assumes "\<not> byte c < 128" and "utf8_lead (byte c) = Some (k, lo, hi)"
    and "pct_bytes k r = Some bs" and "conts k lo hi bs = k"
  shows "decode_uri_component (pct c @ r)
    = map_option (\<lambda>t. c # bs @ t) (decode_uri_component (drop (3 * k) r))"
  using assms
  by (subst decode_uri_component.simps)
     (auto simp: pct_byte_def radix_hex_upper hex_byte pct_def)

lemma decode_encode_uri_append:
  "utf8_valid s \<Longrightarrow> decode_uri_component (encode_uri_component s @ u) = map_option ((@) s) (decode_uri_component u)"
proof (induction s rule: utf8_valid.induct)
  case (1 s)
  show ?case
  proof (cases s)
    case Nil
    then show ?thesis by (simp add: encode_uri_component_def option.map_ident)
  next
    case (Cons c r)
    have v: "utf8_valid (c # r)" using "1.prems" Cons by simp
    show ?thesis
    proof (cases "byte c < 128")
      case True
      have ih: "decode_uri_component (percent_encode uri_unreserved r @ u) = map_option ((@) r) (decode_uri_component u)"
        using "1.IH"(1)[OF Cons True] v True
        by (simp add: utf8_valid.simps[of "c # r"] encode_uri_component_def)
      have "c \<noteq> CHR ''%''" if "uri_unreserved c"
        using that by (auto simp: uri_unreserved_def is_alnum_def is_letter_def is_digit_def)
      then show ?thesis using Cons ih True
        by (auto simp: encode_uri_component_def decode_uri_plain decode_uri_pct_ascii option.map_comp comp_def)
    next
      case False
      then obtain k lo hi where l: "utf8_lead (byte c) = Some (k, lo, hi)"
        and cc: "conts k lo hi r = k" and d: "utf8_valid (drop k r)"
        using v by (subst (asm) utf8_valid.simps) (auto split: option.splits)
      have ih: "decode_uri_component (percent_encode uri_unreserved (drop k r) @ u)
          = map_option ((@) (drop k r)) (decode_uri_component u)"
        using "1.IH"(2)[OF Cons False l refl refl d] by (simp add: encode_uri_component_def)
      have high: "\<forall>x \<in> set (take k r). \<not> uri_unreserved x"
        using conts_high[OF cc utf8_lead_high[OF l]] high_not_unreserved by blast
      have len: "k \<le> length r" using conts_length[of k lo hi r] cc by simp
      have p: "pct_bytes k (percent_encode uri_unreserved r @ u) = Some (take k r)"
        and dr: "drop (3 * k) (percent_encode uri_unreserved r @ u) = percent_encode uri_unreserved (drop k r) @ u"
        using pct_bytes_encode[OF len high, of u] by blast+
      have nk: "\<not> uri_unreserved c" using False by (intro high_not_unreserved) simp
      have "decode_uri_component (pct c @ percent_encode uri_unreserved r @ u)
          = map_option (\<lambda>t. c # take k r @ t)
              (decode_uri_component (drop (3 * k) (percent_encode uri_unreserved r @ u)))"
        using False l p cc by (intro decode_uri_pct_high[of c k lo hi]) (auto simp: conts_take)
      moreover have "c # take k r @ drop k r @ t = s @ t" for t using Cons by simp
      ultimately show ?thesis
        using nk unfolding dr ih encode_uri_component_def Cons
        by (simp add: option.map_comp comp_def del: append_take_drop_id)
    qed
  qed
qed

theorem decode_encode_uri: "utf8_valid s \<Longrightarrow> decode_uri_component (encode_uri_component s) = Some s"
proof -
  assume "utf8_valid s"
  moreover have "decode_uri_component [] = Some []" by (subst decode_uri_component.simps) simp
  ultimately show ?thesis using decode_encode_uri_append[of s "[]"] by simp
qed

interpretation uri: codec encode_uri_component decode_uri_component utf8_valid
  by unfold_locales (rule decode_encode_uri)

section \<open>Form encoding and \<open>URLSearchParams\<close>\<close>

type_synonym params = "(string \<times> string) list"

definition form_keep :: "char \<Rightarrow> bool" where
  "form_keep c = (is_alnum c \<or> c \<in> set ''*-._'')"

definition form_byte :: "char \<Rightarrow> string" where
  "form_byte c = (if c = CHR '' '' then ''+'' else if form_keep c then [c] else pct c)"

definition form_encode :: "string \<Rightarrow> string" where
  "form_encode s = concat (map form_byte s)"

definition form_decode :: "string \<Rightarrow> string" where
  "form_decode s =
     utf8_lossy (percent_decode (map (\<lambda>c. if c = CHR ''+'' then CHR '' '' else c) s))"

definition params_str :: "params \<Rightarrow> string" where
  "params_str ps = join ''&'' (map (\<lambda>p. form_encode (fst p) @ ''='' @ form_encode (snd p)) ps)"

definition params_parse :: "string \<Rightarrow> params" where
  "params_parse s =
     map (\<lambda>w. (form_decode (before_char CHR ''='' w), form_decode (after_char CHR ''='' w)))
       (non_empty (split_char CHR ''&'' s))"

definition params_get :: "params \<Rightarrow> string \<Rightarrow> string option" where
  "params_get ps k = map_of ps k"

definition params_del :: "string \<Rightarrow> params \<Rightarrow> params" where
  "params_del k ps = filter (\<lambda>p. fst p \<noteq> k) ps"

fun params_set :: "string \<Rightarrow> string \<Rightarrow> params \<Rightarrow> params" where
  "params_set k v [] = [(k, v)]"
| "params_set k v (p # ps) =
     (if fst p = k then (k, v) # params_del k ps else p # params_set k v ps)"

lemma map_of_params_del: "map_of (params_del k ps) = (map_of ps)(k := None)"
  by (induction ps) (auto simp: params_del_def fun_eq_iff)

lemma map_of_params_set: "map_of (params_set k v ps) = (map_of ps)(k \<mapsto> v)"
  by (induction k v ps rule: params_set.induct) (auto simp: map_of_params_del fun_eq_iff)

interpretation ps: store params_get params_set params_del "[] :: params" "\<lambda>_. True"
  by unfold_locales (simp_all add: params_get_def map_of_params_set map_of_params_del)

lemma hex_upper_facts:
  "hex_upper n \<noteq> CHR ''+''" "hex_upper n \<noteq> CHR ''&''" "hex_upper n \<noteq> CHR ''=''"
  "hex_upper n \<noteq> CHR ''#''" "hex_upper n \<noteq> CHR ''?''" "hex_upper n \<noteq> CHR ''/''"
  "hex_upper n \<noteq> CHR '' ''" "hex_upper n \<noteq> CHR ''@''" "hex_upper n \<noteq> CHR '':''"
  using hex_upper_alnum[of n]
  by (auto simp: is_alnum_def is_letter_def is_digit_def)

lemma form_byte_decode:
  "percent_decode (map (\<lambda>c. if c = CHR ''+'' then CHR '' '' else c) (form_byte c) @ r)
     = c # percent_decode r"
proof (cases "c = CHR '' ''")
  case True
  then show ?thesis by (simp add: form_byte_def percent_decode_plain)
next
  case False
  show ?thesis
  proof (cases "form_keep c")
    case True
    then have "c \<noteq> CHR ''+''" "c \<noteq> CHR ''%''"
      by (auto simp: form_keep_def is_alnum_def is_letter_def is_digit_def)
    then show ?thesis using True False by (simp add: form_byte_def percent_decode_plain)
  next
    case nk: False
    have "map (\<lambda>c. if c = CHR ''+'' then CHR '' '' else c) (pct c) = pct c"
      by (simp add: pct_def hex_upper_facts)
    then show ?thesis using nk False by (simp add: form_byte_def)
  qed
qed

theorem form_decode_encode: "utf8_valid s \<Longrightarrow> form_decode (form_encode s) = s"
proof -
  assume v: "utf8_valid s"
  have "percent_decode (map (\<lambda>c. if c = CHR ''+'' then CHR '' '' else c) (form_encode t)) = t" for t
  proof (induction t)
    case (Cons c t)
    then show ?case by (simp add: form_encode_def form_byte_decode)
  qed (simp add: form_encode_def)
  with v show ?thesis by (simp add: form_decode_def utf8_lossy_valid)
qed

interpretation form: codec form_encode "\<lambda>s. Some (form_decode s)" utf8_valid
  by unfold_locales (simp add: form_decode_encode)

lemma uri_char: "c \<in> set (encode_uri_component s) \<Longrightarrow> uri_unreserved c \<or> c = CHR ''%'' \<or> is_alnum c"
  using hex_upper_alnum by (auto simp: encode_uri_component_def percent_encode_def pct_def split: if_splits)

text \<open>The characters form-encoded text is made of.\<close>

definition query_char :: "char \<Rightarrow> bool" where
  "query_char c = (is_alnum c \<or> c \<in> set ''*-._+%&='')"

lemma form_byte_chars: "x \<in> set (form_byte c) \<Longrightarrow> query_char x \<and> x \<noteq> CHR ''&'' \<and> x \<noteq> CHR ''=''"
  using hex_upper_alnum[of "byte c div 16"] hex_upper_alnum[of "byte c"]
        hex_upper_facts[of "byte c div 16"] hex_upper_facts[of "byte c"]
  by (auto simp: form_byte_def query_char_def form_keep_def pct_def split: if_splits)
     (auto simp: is_alnum_def is_letter_def is_digit_def)

lemma form_encode_chars:
  "x \<in> set (form_encode s) \<Longrightarrow> query_char x \<and> x \<noteq> CHR ''&'' \<and> x \<noteq> CHR ''=''"
  using form_byte_chars by (fastforce simp: form_encode_def)

lemma join_chars: "x \<in> set (join d ws) \<Longrightarrow> x \<in> set d \<or> (\<exists>w \<in> set ws. x \<in> set w)"
  by (induction d ws rule: join.induct) auto

lemma params_str_chars: "list_all query_char (params_str ps)"
  using form_encode_chars
  by (fastforce simp: params_str_def list_all_iff query_char_def dest!: join_chars)

definition params_ok :: "params \<Rightarrow> bool" where
  "params_ok ps = list_all (\<lambda>p. utf8_valid (fst p) \<and> utf8_valid (snd p)) ps"

theorem params_parse_str: "params_ok ps \<Longrightarrow> params_parse (params_str ps) = ps"
proof -
  assume ok: "params_ok ps"
  let ?seg = "\<lambda>p. form_encode (fst p) @ ''='' @ form_encode (snd p)"
  have no_amp: "\<forall>w \<in> set (map ?seg ps). CHR ''&'' \<notin> set w"
    using form_encode_chars by fastforce
  have seg: "form_decode (before_char CHR ''='' (?seg p)) = fst p
      \<and> form_decode (after_char CHR ''='' (?seg p)) = snd p" if "p \<in> set ps" for p
  proof -
    have "CHR ''='' \<notin> set (form_encode (fst p))" using form_encode_chars by blast
    moreover have "utf8_valid (fst p)" "utf8_valid (snd p)"
      using ok that by (auto simp: params_ok_def list_all_iff)
    ultimately show ?thesis by (simp add: form_decode_encode)
  qed
  show ?thesis
  proof (cases "ps = []")
    case True
    then show ?thesis by (simp add: params_parse_def params_str_def non_empty_def)
  next
    case False
    then have "split_char CHR ''&'' (params_str ps) = map ?seg ps"
      using no_amp unfolding params_str_def by (intro split_join) auto
    moreover have "non_empty (map ?seg ps) = map ?seg ps"
      by (rule non_empty_id) auto
    ultimately show ?thesis using seg
      by (simp add: params_parse_def o_def) (auto intro: map_idI)
  qed
qed

lemma params_ok_set:
  "params_ok ps \<Longrightarrow> utf8_valid k \<Longrightarrow> utf8_valid v \<Longrightarrow> params_ok (params_set k v ps)"
  by (induction k v ps rule: params_set.induct)
     (auto simp: params_ok_def params_del_def list_all_iff)

section \<open>The \<open>URL\<close> class\<close>

definition c0_set :: "char \<Rightarrow> bool" where
  "c0_set c = (byte c < 32 \<or> 126 < byte c)"

definition fragment_set :: "char \<Rightarrow> bool" where
  "fragment_set c = (c0_set c \<or> c \<in> set [CHR '' '', CHR 0x22, CHR ''<'', CHR ''>'', CHR 0x60])"

definition query_set :: "char \<Rightarrow> bool" where
  "query_set c = (c0_set c \<or> c \<in> set [CHR '' '', CHR 0x22, CHR ''#'', CHR ''<'', CHR ''>''])"

definition path_set :: "char \<Rightarrow> bool" where
  "path_set c = (query_set c \<or> c \<in> set [CHR ''?'', CHR ''^'', CHR 0x60, CHR ''{'', CHR ''}''])"

definition userinfo_set :: "char \<Rightarrow> bool" where
  "userinfo_set c =
     (path_set c \<or> c \<in> set [CHR ''/'', CHR '':'', CHR '';'', CHR ''='', CHR ''@'', CHR ''['',
                             CHR 0x5C, CHR '']'', CHR ''|''])"

definition forbidden_host :: "char \<Rightarrow> bool" where
  "forbidden_host c =
     (c \<in> set [CHR 0x00, CHR 0x09, CHR 0x0A, CHR 0x0D, CHR '' '', CHR ''#'', CHR ''/'', CHR '':'',
               CHR ''<'', CHR ''>'', CHR ''?'', CHR ''@'', CHR ''['', CHR 0x5C, CHR '']'',
               CHR ''^'', CHR ''|''])"

record url =
  u_scheme :: string
  u_user :: string
  u_pass :: string
  u_host :: "string option"
  u_port :: string
  u_path :: string
  u_query :: "string option"
  u_fragment :: "string option"

definition special_schemes :: "string list" where
  "special_schemes = [''http'', ''https'', ''ws'', ''wss'', ''ftp'', ''file'']"

definition scheme_char :: "char \<Rightarrow> bool" where
  "scheme_char c = (is_alnum c \<or> c \<in> set ''+-.'')"

text \<open>Cutting a text at the first character of a set; the delimiter stays in front of the rest.\<close>

definition cut_at :: "string \<Rightarrow> string \<Rightarrow> string" where
  "cut_at ds s = takeWhile (\<lambda>c. c \<notin> set ds) s"

definition rest_at :: "string \<Rightarrow> string \<Rightarrow> string" where
  "rest_at ds s = dropWhile (\<lambda>c. c \<notin> set ds) s"

text \<open>Host and port: the first colon outside square brackets separates them.\<close>

fun host_split :: "bool \<Rightarrow> string \<Rightarrow> string \<times> string option" where
  "host_split b [] = ([], None)"
| "host_split b (c # s) =
     (if c = CHR '':'' \<and> \<not> b then ([], Some s)
      else let b' = (if c = CHR ''['' then True else if c = CHR '']'' then False else b)
           in (c # fst (host_split b' s), snd (host_split b' s)))"

definition parse_host :: "(string \<Rightarrow> string option) \<Rightarrow> string \<Rightarrow> string option" where
  "parse_host ip6 h =
     (if starts_with h ''['' then
        (if ends_with h '']'' \<and> 2 \<le> length h
         then map_option (\<lambda>a. ''['' @ a @ '']'') (ip6 (butlast (tl h))) else None)
      else if list_ex forbidden_host h then None
      else Some (percent_encode (\<lambda>c. \<not> c0_set c) h))"

definition parse_port :: "string option \<Rightarrow> string option" where
  "parse_port p =
     (case p of
        None \<Rightarrow> Some []
      | Some ds \<Rightarrow>
          if ds = [] then Some []
          else if list_all is_digit ds \<and> str_nat ds \<le> 65535 then Some (nat_str (str_nat ds))
          else None)"

definition clean_input :: "string \<Rightarrow> string" where
  "clean_input s =
     (let drop_c0 = dropWhile (\<lambda>c. byte c \<le> 32) in
      filter (\<lambda>c. c \<notin> set [CHR 0x09, CHR 0x0A, CHR 0x0D]) (rev (drop_c0 (rev (drop_c0 s)))))"

text \<open>Query and fragment of the rest after the path.\<close>

definition tail_query :: "string \<Rightarrow> string option" where
  "tail_query s =
     (case cut_at ''#'' s of
        c # q \<Rightarrow> if c = CHR ''?'' then Some (percent_encode (\<lambda>c. \<not> query_set c) q) else None
      | [] \<Rightarrow> None)"

definition tail_fragment :: "string \<Rightarrow> string option" where
  "tail_fragment s =
     (case rest_at ''#'' s of
        _ # f \<Rightarrow> Some (percent_encode (\<lambda>c. \<not> fragment_set c) f) | [] \<Rightarrow> None)"

definition userinfo_encode :: "string \<Rightarrow> string" where
  "userinfo_encode s = percent_encode (\<lambda>c. \<not> userinfo_set c) s"

definition parse_authority ::
  "(string \<Rightarrow> string option) \<Rightarrow> string \<Rightarrow> (string \<times> string \<times> string \<times> string) option" where
  "parse_authority ip6 a =
     (let has_at = CHR ''@'' \<in> set a;
          cred = (if has_at then before_last CHR ''@'' a else []);
          hp = (if has_at then after_last CHR ''@'' a else a);
          hs = host_split False hp
      in if (has_at \<and> hp = []) \<or> (fst hs = [] \<and> snd hs \<noteq> None) then None
         else (case (parse_host ip6 (fst hs), parse_port (snd hs)) of
                 (Some h, Some p) \<Rightarrow>
                   Some (userinfo_encode (before_char CHR '':'' cred),
                         userinfo_encode (after_char CHR '':'' cred), h, p)
               | _ \<Rightarrow> None))"

definition parse_url :: "(string \<Rightarrow> string option) \<Rightarrow> string \<Rightarrow> url option" where
  "parse_url ip6 s0 =
     (let s = clean_input s0; sch = to_lower (before_char CHR '':'' s); r = after_char CHR '':'' s in
      if CHR '':'' \<notin> set s \<or> sch = [] \<or> \<not> is_letter (hd sch) \<or> \<not> list_all scheme_char sch
         \<or> sch \<in> set special_schemes then None
      else if starts_with r ''//'' then
        (let a = cut_at ''/?#'' (drop 2 r); t = rest_at ''/?#'' (drop 2 r) in
         map_option
           (\<lambda>(u, pw, h, p).
              \<lparr>u_scheme = sch, u_user = u, u_pass = pw, u_host = Some h, u_port = p,
               u_path = percent_encode (\<lambda>c. \<not> path_set c) (cut_at ''?#'' t),
               u_query = tail_query (rest_at ''?#'' t), u_fragment = tail_fragment (rest_at ''?#'' t)\<rparr>)
           (parse_authority ip6 a))
      else
        Some \<lparr>u_scheme = sch, u_user = [], u_pass = [], u_host = None, u_port = [],
              u_path = percent_encode
                (\<lambda>c. \<not> (if starts_with r ''/'' then path_set c else c0_set c)) (cut_at ''?#'' r),
              u_query = tail_query (rest_at ''?#'' r), u_fragment = tail_fragment (rest_at ''?#'' r)\<rparr>)"

definition url_href :: "url \<Rightarrow> string" where
  "url_href u =
     u_scheme u @ '':'' @
     (case u_host u of
        None \<Rightarrow> []
      | Some h \<Rightarrow>
          ''//'' @ (if u_user u = [] \<and> u_pass u = [] then []
                  else u_user u @ (if u_pass u = [] then [] else '':'' @ u_pass u) @ ''@'')
          @ h @ (if u_port u = [] then [] else '':'' @ u_port u)) @
     u_path u @
     (case u_query u of None \<Rightarrow> [] | Some q \<Rightarrow> ''?'' @ q) @
     (case u_fragment u of None \<Rightarrow> [] | Some f \<Rightarrow> ''#'' @ f)"

definition url_hostname :: "url \<Rightarrow> string" where
  "url_hostname u = (case u_host u of None \<Rightarrow> [] | Some h \<Rightarrow> h)"

definition url_hash :: "url \<Rightarrow> string" where
  "url_hash u = (case u_fragment u of None \<Rightarrow> [] | Some f \<Rightarrow> if f = [] then [] else ''#'' @ f)"

definition url_params :: "url \<Rightarrow> params" where
  "url_params u = (case u_query u of None \<Rightarrow> [] | Some q \<Rightarrow> params_parse q)"

text \<open>\<open>url.searchParams.set(k, v)\<close> re-serialises the query; an empty one becomes null.\<close>

definition url_set_params :: "params \<Rightarrow> url \<Rightarrow> url" where
  "url_set_params ps u =
     u\<lparr>u_query := (let q = params_str ps in if q = [] then None else Some q)\<rparr>"

definition url_search_set :: "string \<Rightarrow> string \<Rightarrow> url \<Rightarrow> url" where
  "url_search_set k v u = url_set_params (params_set k v (url_params u)) u"

definition url_search_sets :: "params \<Rightarrow> url \<Rightarrow> url" where
  "url_search_sets ps u = fold (\<lambda>p. url_search_set (fst p) (snd p)) ps u"

definition url_set_hash :: "string \<Rightarrow> url \<Rightarrow> url" where
  "url_set_hash s u =
     (if s = [] then u\<lparr>u_fragment := None\<rparr>
      else let t = (if starts_with s ''#'' then drop 1 s else s) in
           u\<lparr>u_fragment := Some (percent_encode (\<lambda>c. \<not> fragment_set c)
              (filter (\<lambda>c. c \<notin> set [CHR 0x09, CHR 0x0A, CHR 0x0D]) t))\<rparr>)"

definition url_set_username :: "string \<Rightarrow> url \<Rightarrow> url" where
  "url_set_username s u =
     (if u_host u = None \<or> u_host u = Some [] then u else u\<lparr>u_user := userinfo_encode s\<rparr>)"

subsection \<open>Reading back a serialised URL\<close>

lemma cut_at_append:
  assumes "list_all (\<lambda>c. c \<notin> set ds) a" and "t = [] \<or> hd t \<in> set ds"
  shows "cut_at ds (a @ t) = a" and "rest_at ds (a @ t) = t"
  using assms
  by (induction a) (cases t; auto simp: cut_at_def rest_at_def)+

lemma clean_input_visible: "list_all (\<lambda>c. 32 < byte c) s \<Longrightarrow> clean_input s = s"
proof -
  assume v: "list_all (\<lambda>c. 32 < byte c) s"
  have d: "dropWhile (\<lambda>c. byte c \<le> 32) t = t" if "list_all (\<lambda>c. 32 < byte c) t" for t
    using that by (cases t) auto
  have "c \<notin> set [CHR 0x09, CHR 0x0A, CHR 0x0D]" if "c \<in> set s" for c
    using v that by (auto simp: list_all_iff)
  then show ?thesis using v by (simp add: clean_input_def d filter_id_conv)
qed

definition scheme_ok :: "string \<Rightarrow> bool" where
  "scheme_ok s =
     (s \<noteq> [] \<and> list_all (\<lambda>c. 97 \<le> byte c \<and> byte c \<le> 122 \<or> is_digit c) s \<and> is_letter (hd s)
      \<and> s \<notin> set special_schemes)"

definition plain_host :: "string \<Rightarrow> bool" where
  "plain_host h = (h \<noteq> [] \<and> list_all (\<lambda>c. \<not> forbidden_host c \<and> \<not> c0_set c) h)"

definition port_ok :: "string \<Rightarrow> bool" where
  "port_ok p = (p = [] \<or> (list_all is_digit p \<and> str_nat p \<le> 65535 \<and> nat_str (str_nat p) = p))"

definition url_ok :: "url \<Rightarrow> bool" where
  "url_ok u =
     (scheme_ok (u_scheme u) \<and> list_all (\<lambda>c. \<not> userinfo_set c) (u_user u) \<and> u_pass u = []
      \<and> (case u_host u of None \<Rightarrow> False | Some h \<Rightarrow> plain_host h) \<and> port_ok (u_port u)
      \<and> u_path u = []
      \<and> (case u_query u of None \<Rightarrow> True | Some q \<Rightarrow> list_all (\<lambda>c. \<not> query_set c) q)
      \<and> (case u_fragment u of None \<Rightarrow> True | Some f \<Rightarrow> list_all (\<lambda>c. \<not> fragment_set c) f))"

lemma port_ok_nat [simp]: "n \<le> 65535 \<Longrightarrow> port_ok (nat_str n)"
  by (simp add: port_ok_def)

lemma c0_visible: "\<not> c0_set c \<Longrightarrow> c \<noteq> CHR '' '' \<Longrightarrow> 32 < byte c"
  using byte_inject[of c "CHR '' ''"] by (fastforce simp: c0_set_def)

lemma fragment_visible: "\<not> fragment_set c \<Longrightarrow> 32 < byte c"
  by (rule c0_visible) (simp_all add: fragment_set_def)

lemma query_visible: "\<not> query_set c \<Longrightarrow> 32 < byte c"
  by (rule c0_visible) (simp_all add: query_set_def)

lemma userinfo_visible: "\<not> userinfo_set c \<Longrightarrow> 32 < byte c"
  by (rule query_visible) (simp add: userinfo_set_def path_set_def)

lemma host_visible: "\<not> forbidden_host c \<Longrightarrow> \<not> c0_set c \<Longrightarrow> 32 < byte c"
  by (rule c0_visible) (simp_all add: forbidden_host_def)

lemma scheme_char_facts:
  "97 \<le> byte c \<and> byte c \<le> 122 \<or> is_digit c \<Longrightarrow> 32 < byte c \<and> c \<noteq> CHR '':''
     \<and> assoc_char upper_letters lower_letters c = c \<and> scheme_char c"
  by (auto simp: is_digit_def scheme_char_def is_alnum_def is_letter_def intro!: assoc_char_lower_id)

lemma scheme_chars:
  assumes "scheme_ok s"
  shows "list_all (\<lambda>c. 32 < byte c) s" and "CHR '':'' \<notin> set s" and "to_lower s = s"
    and "list_all scheme_char s"
proof -
  have "\<forall>c \<in> set s. 97 \<le> byte c \<and> byte c \<le> 122 \<or> is_digit c"
    using assms by (simp add: scheme_ok_def list_all_iff)
  then have "\<forall>c \<in> set s. 32 < byte c \<and> c \<noteq> CHR '':''
      \<and> assoc_char upper_letters lower_letters c = c \<and> scheme_char c"
    using scheme_char_facts by blast
  then show "list_all (\<lambda>c. 32 < byte c) s" "CHR '':'' \<notin> set s" "to_lower s = s"
    "list_all scheme_char s"
    by (auto simp: list_all_iff to_lower_def intro: map_idI)
qed

lemma host_split_plain: "list_all (\<lambda>c. \<not> forbidden_host c) h \<Longrightarrow> host_split False h = (h, None)"
  by (induction h) (auto simp: forbidden_host_def)

lemma host_split_port:
  "list_all (\<lambda>c. \<not> forbidden_host c) h \<Longrightarrow> host_split False (h @ CHR '':'' # p) = (h, Some p)"
  by (induction h) (auto simp: forbidden_host_def)

lemma host_no_delim: "\<not> forbidden_host c \<Longrightarrow> c \<notin> set ''/?#@:[''"
  unfolding forbidden_host_def by force

lemma userinfo_no_delim: "\<not> userinfo_set c \<Longrightarrow> c \<notin> set ''/?#@:''"
  unfolding userinfo_set_def path_set_def query_set_def by force

lemma digit_no_delim: "is_digit c \<Longrightarrow> c \<notin> set ''/?#@:'' \<and> 32 < byte c"
  by (auto simp: is_digit_def)

lemma plain_hostD:
  assumes "plain_host h"
  shows "h \<noteq> []" and "list_all (\<lambda>c. \<not> forbidden_host c) h" and "list_all (\<lambda>c. \<not> c0_set c) h"
    and "\<forall>c \<in> set h. c \<notin> set ''/?#@:[''" and "\<forall>c \<in> set h. 32 < byte c"
proof -
  show a: "h \<noteq> []" "list_all (\<lambda>c. \<not> forbidden_host c) h" "list_all (\<lambda>c. \<not> c0_set c) h"
    using assms by (simp_all add: plain_host_def list_all_iff)
  show "\<forall>c \<in> set h. c \<notin> set ''/?#@:[''"
    using a(2) host_no_delim unfolding list_all_iff by blast
  show "\<forall>c \<in> set h. 32 < byte c"
    using a(2,3) host_visible unfolding list_all_iff by blast
qed

lemma parse_plain_host:
  assumes "plain_host h"
  shows "parse_host ip6 h = Some h"
proof -
  note d = plain_hostD[OF assms]
  have "\<not> starts_with h ''[''" using d(4) by (cases h) auto
  moreover have "\<not> list_ex forbidden_host h" using d(2) by (simp add: list_all_iff list_ex_iff)
  ultimately show ?thesis using percent_encode_id[OF d(3)] by (simp add: parse_host_def)
qed

lemma port_okD: "port_ok p \<Longrightarrow> \<forall>c \<in> set p. c \<notin> set ''/?#@:'' \<and> 32 < byte c"
  using digit_no_delim unfolding port_ok_def list_all_iff by (cases "p = []") (simp, blast)

lemma userinfoD:
  "list_all (\<lambda>c. \<not> userinfo_set c) us \<Longrightarrow> \<forall>c \<in> set us. c \<notin> set ''/?#@:'' \<and> 32 < byte c"
  using userinfo_no_delim userinfo_visible unfolding list_all_iff by blast

definition authority :: "string \<Rightarrow> string \<Rightarrow> string \<Rightarrow> string" where
  "authority us h p =
     (if us = [] then [] else us @ ''@'') @ h @ (if p = [] then [] else '':'' @ p)"

lemma authority_no_delim:
  assumes "list_all (\<lambda>c. \<not> userinfo_set c) us" and "plain_host h" and "port_ok p"
  shows "list_all (\<lambda>c. c \<notin> set ''/?#'') (authority us h p)"
    and "list_all (\<lambda>c. 32 < byte c) (authority us h p)"
proof -
  have all: "list_all P us \<Longrightarrow> list_all P h \<Longrightarrow> list_all P p \<Longrightarrow> P CHR ''@'' \<Longrightarrow> P CHR '':'' \<Longrightarrow>
      list_all P (authority us h p)" for P
    by (simp add: authority_def)
  show "list_all (\<lambda>c. c \<notin> set ''/?#'') (authority us h p)"
    using userinfoD[OF assms(1)] plain_hostD(4)[OF assms(2)] port_okD[OF assms(3)]
    by (intro all) (simp_all add: list_all_iff)
  show "list_all (\<lambda>c. 32 < byte c) (authority us h p)"
    using userinfoD[OF assms(1)] plain_hostD(5)[OF assms(2)] port_okD[OF assms(3)]
    by (intro all) (simp_all add: list_all_iff)
qed

lemma parse_authority_ok:
  assumes "list_all (\<lambda>c. \<not> userinfo_set c) us" and "plain_host h" and "port_ok p"
  shows "parse_authority ip6 (authority us h p) = Some (us, [], h, p)"
proof -
  let ?hp = "h @ (if p = [] then [] else '':'' @ p)"
  note hf = plain_hostD(2,1)[OF assms(2)]
  have na: "CHR ''@'' \<notin> set ?hp"
    using plain_hostD(4)[OF assms(2)] port_okD[OF assms(3)] by auto
  have hs: "host_split False ?hp = (h, if p = [] then None else Some p)"
    using host_split_plain[OF hf(1)] host_split_port[OF hf(1)] by simp
  have pp: "parse_port (if p = [] then None else Some p) = Some p"
    using assms(3) by (auto simp: parse_port_def port_ok_def)
  have uc: "CHR '':'' \<notin> set us" "userinfo_encode us = us"
    using userinfoD[OF assms(1)] percent_encode_id[OF assms(1)] by (auto simp: userinfo_encode_def)
  note facts = hs pp parse_plain_host[OF assms(2)] uc hf(2)
  show ?thesis
  proof (cases "us = []")
    case True
    then show ?thesis using na facts
      by (simp add: parse_authority_def authority_def userinfo_encode_def Let_def)
  next
    case False
    then have a: "authority us h p = us @ CHR ''@'' # ?hp" by (simp add: authority_def)
    have "before_last CHR ''@'' (authority us h p) = us" "after_last CHR ''@'' (authority us h p) = ?hp"
      unfolding a using na by (simp_all only: before_last_append after_last_append not_False_eq_True)
    moreover have "CHR ''@'' \<in> set (authority us h p)" unfolding a by simp
    ultimately show ?thesis using facts
      by (simp add: parse_authority_def userinfo_encode_def Let_def del: append_is_Nil_conv)
  qed
qed

lemma tail_split:
  assumes "case q of None \<Rightarrow> True | Some q' \<Rightarrow> list_all (\<lambda>c. \<not> query_set c) q'"
    and "case f of None \<Rightarrow> True | Some f' \<Rightarrow> list_all (\<lambda>c. \<not> fragment_set c) f'"
  defines "qs \<equiv> (case q of None \<Rightarrow> [] | Some q' \<Rightarrow> ''?'' @ q')"
    and "fs \<equiv> (case f of None \<Rightarrow> [] | Some f' \<Rightarrow> ''#'' @ f')"
  shows "tail_query (qs @ fs) = q" and "tail_fragment (qs @ fs) = f"
    and "list_all (\<lambda>c. 32 < byte c) (qs @ fs)"
    and "qs @ fs = [] \<or> hd (qs @ fs) \<in> set ''?#''"
proof -
  have n: "list_all (\<lambda>c. c \<notin> set ''#'') qs"
    using assms(1) by (auto simp: qs_def query_set_def list_all_iff split: option.splits)
  have t: "fs = [] \<or> hd fs \<in> set ''#''" by (simp add: fs_def split: option.splits)
  note c = cut_at_append[OF n t]
  show "tail_query (qs @ fs) = q" unfolding tail_query_def c
    using assms(1) by (auto simp: qs_def split: option.splits intro!: percent_encode_id)
  show "tail_fragment (qs @ fs) = f" unfolding tail_fragment_def c
    using assms(2) by (auto simp: fs_def split: option.splits intro!: percent_encode_id)
  have "32 < byte CHR ''?''" "32 < byte CHR ''#''" by simp_all
  then show "list_all (\<lambda>c. 32 < byte c) (qs @ fs)"
    using assms(1,2) query_visible fragment_visible
    by (auto simp: qs_def fs_def list_all_iff split: option.splits)
  show "qs @ fs = [] \<or> hd (qs @ fs) \<in> set ''?#''"
    by (auto simp: qs_def fs_def split: option.splits)
qed

theorem parse_url_href:
  assumes "url_ok u"
  shows "parse_url ip6 (url_href u) = Some u"
proof -
  obtain h where h: "u_host u = Some h" "plain_host h"
    using assms by (auto simp: url_ok_def split: option.splits)
  have s: "scheme_ok (u_scheme u)" and us: "list_all (\<lambda>c. \<not> userinfo_set c) (u_user u)"
    and pw: "u_pass u = []" "u_path u = []" and po: "port_ok (u_port u)"
    and q: "case u_query u of None \<Rightarrow> True | Some q' \<Rightarrow> list_all (\<lambda>c. \<not> query_set c) q'"
    and f: "case u_fragment u of None \<Rightarrow> True | Some f' \<Rightarrow> list_all (\<lambda>c. \<not> fragment_set c) f'"
    using assms by (auto simp: url_ok_def)
  let ?a = "authority (u_user u) h (u_port u)"
  let ?t = "(case u_query u of None \<Rightarrow> [] | Some q' \<Rightarrow> ''?'' @ q')
            @ (case u_fragment u of None \<Rightarrow> [] | Some f' \<Rightarrow> ''#'' @ f')"
  note ts = tail_split[OF q f] and sc = scheme_chars[OF s]
    and an = authority_no_delim[OF us h(2) po]
  have href: "url_href u = u_scheme u @ CHR '':'' # ''//'' @ ?a @ ?t"
    using h pw by (simp add: url_href_def authority_def)
  have "list_all (\<lambda>c. 32 < byte c) (url_href u)"
    unfolding href using sc(1) an(2) ts(3) by simp
  then have cl: "clean_input (url_href u) = url_href u" by (rule clean_input_visible)
  have sp: "before_char CHR '':'' (url_href u) = u_scheme u"
    "after_char CHR '':'' (url_href u) = ''//'' @ ?a @ ?t" "CHR '':'' \<in> set (url_href u)"
    unfolding href using sc(2) by simp_all
  have hd: "hd ?t \<in> set ''/?#''" if "?t \<noteq> []" using ts(4) that by auto
  have c1: "cut_at ''/?#'' (?a @ ?t) = ?a" "rest_at ''/?#'' (?a @ ?t) = ?t"
    using cut_at_append[OF an(1), of ?t] hd by blast+
  have c2: "cut_at ''?#'' ?t = []" "rest_at ''?#'' ?t = ?t"
    using cut_at_append[of "''?#''" "[]" ?t] ts(4) by simp_all
  have pa: "parse_authority ip6 ?a = Some (u_user u, [], h, u_port u)"
    by (rule parse_authority_ok[OF us h(2) po])
  have ok: "\<not> (CHR '':'' \<notin> set (url_href u) \<or> u_scheme u = [] \<or> \<not> is_letter (hd (u_scheme u))
      \<or> \<not> list_all scheme_char (u_scheme u) \<or> u_scheme u \<in> set special_schemes)"
    using s sc(4) sp(3) by (auto simp: scheme_ok_def)
  have sw: "starts_with (''//'' @ ?a @ ?t) ''//''" and dr: "drop 2 (''//'' @ ?a @ ?t) = ?a @ ?t"
    by simp_all
  show ?thesis
    unfolding parse_url_def Let_def cl sp(1,2) sc(3) if_not_P[OF ok] if_P[OF sw] dr c1 c2 pa ts(1,2)
    using h(1) pw by simp
qed

interpretation href: codec url_href "parse_url ip6" url_ok for ip6
  by unfold_locales (rule parse_url_href)

end
