(* ===== verification/Headers.thy ===== *)
theory Headers
  imports Json
begin

text \<open>
  \<open>lib/xray/headers.ts\<close>: the two shapes of HTTP headers, a list of name/value rows in the
  forms and a V2-style map on the wire, and the conversions between them.

  A form row is a \<open>header_entry\<close>; its fields are optional because the code tests them for
  null. The map is the list of its own properties in enumeration order, each value a
  string or an array of strings.
\<close>

record header_entry =
  he_name :: "string option"
  he_value :: "string option"

datatype hval = HStr string | HArr "string list"

type_synonym v2map = "(string \<times> hval) list"

definition entry :: "string \<Rightarrow> string \<Rightarrow> header_entry" where
  "entry n v = \<lparr>he_name = Some n, he_value = Some v\<rparr>"

fun hval_js :: "hval \<Rightarrow> js" where
  "hval_js (HStr s) = JStr s"
| "hval_js (HArr xs) = JArr (map JStr xs)"

definition v2_js :: "v2map \<Rightarrow> js" where
  "v2_js m = JObj (map (\<lambda>(k, v). (k, hval_js v)) m)"

section \<open>toHeaders\<close>

fun index_entries :: "nat \<Rightarrow> js list \<Rightarrow> jobj" where
  "index_entries i [] = []"
| "index_entries i (x # xs) = (nat_str i, x) # index_entries (Suc i) xs"

fun own_entries :: "js \<Rightarrow> jobj" where
  "own_entries (JObj o1) = o1"
| "own_entries (JArr xs) = index_entries 0 xs"
| "own_entries _ = []"

fun str_items :: "js list \<Rightarrow> string list" where
  "str_items [] = []"
| "str_items (JStr s # xs) = s # str_items xs"
| "str_items (_ # xs) = str_items xs"

definition key_headers :: "string \<times> js \<Rightarrow> header_entry list" where
  "key_headers p =
     (case snd p of
        JStr s \<Rightarrow> [entry (fst p) s]
      | JArr xs \<Rightarrow> map (entry (fst p)) (str_items xs)
      | _ \<Rightarrow> [])"

definition toHeaders :: "js \<Rightarrow> header_entry list" where
  "toHeaders v = (if is_obj v \<or> is_arr v then concat (map key_headers (own_entries v)) else [])"

section \<open>getHeaderValue\<close>

text \<open>The argument is \<open>None\<close> for undefined and null.\<close>

fun first_header :: "string \<Rightarrow> v2map \<Rightarrow> string" where
  "first_header lower [] = []"
| "first_header lower ((k, v) # m) =
     (if to_lower k \<noteq> lower then first_header lower m
      else case v of
             HStr s \<Rightarrow> s
           | HArr xs \<Rightarrow> (case xs of [] \<Rightarrow> [] | x # _ \<Rightarrow> x))"

definition getHeaderValue :: "v2map option \<Rightarrow> string \<Rightarrow> string" where
  "getHeaderValue h name = (case h of None \<Rightarrow> [] | Some m \<Rightarrow> first_header (to_lower name) m)"

section \<open>toV2Headers\<close>

definition v2_add :: "bool \<Rightarrow> string \<Rightarrow> string \<Rightarrow> v2map \<Rightarrow> v2map" where
  "v2_add arr n v m =
     (if \<not> in_obj n m then oset n (if arr then HArr [v] else HStr v) m
      else case map_of m n of
             Some (HArr xs) \<Rightarrow> if arr then oset n (HArr (xs @ [v])) m else oset n (HStr v) m
           | _ \<Rightarrow> oset n (HStr v) m)"

definition v2_step :: "bool \<Rightarrow> header_entry \<Rightarrow> v2map \<Rightarrow> v2map" where
  "v2_step arr e m =
     (case (he_name e, he_value e) of
        (Some n, Some v) \<Rightarrow> if n = [] \<or> v = [] then m else v2_add arr n v m
      | _ \<Rightarrow> m)"

definition toV2Headers :: "header_entry list \<Rightarrow> bool \<Rightarrow> v2map" where
  "toV2Headers es arr = fold (v2_step arr) es []"

section \<open>The values an entry list holds under a name\<close>

definition usable :: "header_entry \<Rightarrow> bool" where
  "usable e \<longleftrightarrow>
     (case (he_name e, he_value e) of (Some n, Some v) \<Rightarrow> n \<noteq> [] \<and> v \<noteq> [] | _ \<Rightarrow> False)"

definition values_of :: "string \<Rightarrow> header_entry list \<Rightarrow> string list" where
  "values_of n es = map (\<lambda>e. the (he_value e)) (filter (\<lambda>e. usable e \<and> he_name e = Some n) es)"

definition safe_names :: "header_entry list \<Rightarrow> bool" where
  "safe_names es \<longleftrightarrow> list_all (\<lambda>e. \<forall>n \<in> set_option (he_name e). n \<notin> set proto_names) es"

lemma entry_sel [simp]: "he_name (entry n v) = Some n" "he_value (entry n v) = Some v"
  by (simp_all add: entry_def)

lemma usable_entry [simp]: "usable (entry n v) \<longleftrightarrow> n \<noteq> [] \<and> v \<noteq> []"
  by (simp add: usable_def)

lemma values_of_Nil [simp]: "values_of n [] = []"
  by (simp add: values_of_def)

lemma values_of_append [simp]: "values_of n (a @ b) = values_of n a @ values_of n b"
  by (simp add: values_of_def)

lemma values_of_single:
  "values_of n [e] = (if usable e \<and> he_name e = Some n then [the (he_value e)] else [])"
  by (simp add: values_of_def)

lemma usable_cases:
  assumes "usable e"
  obtains n v where "e = entry n v" "n \<noteq> []" "v \<noteq> []"
  using assms that[of "the (he_name e)" "the (he_value e)"]
  by (cases e) (auto simp: usable_def entry_def split: option.splits)

lemma v2_step_usable: "usable (entry n v) \<Longrightarrow> v2_step arr (entry n v) m = v2_add arr n v m"
  by (simp add: v2_step_def)

lemma v2_step_skip: "\<not> usable e \<Longrightarrow> v2_step arr e m = m"
  by (auto simp: v2_step_def usable_def split: option.splits)

lemma toV2_snoc: "toV2Headers (es @ [e]) arr = v2_step arr e (toV2Headers es arr)"
  by (simp add: toV2Headers_def)

lemma safe_names_snoc:
  "safe_names (es @ [e]) \<longleftrightarrow> safe_names es \<and> (\<forall>n \<in> set_option (he_name e). n \<notin> set proto_names)"
  by (simp add: safe_names_def)

lemma safe_not_proto: "n \<notin> set proto_names \<Longrightarrow> n \<noteq> ''__proto__''"
  by (auto simp: proto_names_def)

lemma v2_add_arr:
  assumes "n \<notin> set proto_names"
    and "map_of m n = (if vs = [] then None else Some (HArr vs))"
  shows "map_of (v2_add True n v m) = (map_of m)(n \<mapsto> HArr (vs @ [v]))"
  using assms safe_not_proto[OF assms(1)]
  by (auto simp: v2_add_def in_obj_def ohas_map_of map_of_oset)

lemma v2_add_single:
  assumes "n \<notin> set proto_names"
    and "map_of m n = (if vs = [] then None else Some (HStr (last vs)))"
  shows "map_of (v2_add False n v m) = (map_of m)(n \<mapsto> HStr v)"
  using assms safe_not_proto[OF assms(1)]
  by (auto simp: v2_add_def in_obj_def ohas_map_of map_of_oset)

lemma v2_lookup_arr:
  assumes "safe_names es"
  shows "map_of (toV2Headers es True) n
           = (if values_of n es = [] then None else Some (HArr (values_of n es)))"
  using assms
proof (induction es arbitrary: n rule: rev_induct)
  case Nil
  then show ?case by (simp add: toV2Headers_def)
next
  case (snoc e es)
  then have IH: "map_of (toV2Headers es True) n'
      = (if values_of n' es = [] then None else Some (HArr (values_of n' es)))" for n'
    by (simp add: safe_names_snoc)
  show ?case
  proof (cases "usable e")
    case True
    then obtain n' v where e: "e = entry n' v" "n' \<noteq> []" "v \<noteq> []" by (rule usable_cases)
    then show ?thesis
      using snoc.prems v2_add_arr[OF _ IH, of n' v] IH[of n]
      by (auto simp: toV2_snoc v2_step_usable values_of_single safe_names_snoc)
  qed (use IH in \<open>simp add: toV2_snoc v2_step_skip values_of_single\<close>)
qed

lemma v2_lookup_single:
  assumes "safe_names es"
  shows "map_of (toV2Headers es False) n
           = (if values_of n es = [] then None else Some (HStr (last (values_of n es))))"
  using assms
proof (induction es arbitrary: n rule: rev_induct)
  case Nil
  then show ?case by (simp add: toV2Headers_def)
next
  case (snoc e es)
  then have IH: "map_of (toV2Headers es False) n'
      = (if values_of n' es = [] then None else Some (HStr (last (values_of n' es))))" for n'
    by (simp add: safe_names_snoc)
  show ?case
  proof (cases "usable e")
    case True
    then obtain n' v where e: "e = entry n' v" "n' \<noteq> []" "v \<noteq> []" by (rule usable_cases)
    then show ?thesis
      using snoc.prems v2_add_single[OF _ IH, of n' v] IH[of n]
      by (auto simp: toV2_snoc v2_step_usable values_of_single safe_names_snoc)
  qed (use IH in \<open>simp add: toV2_snoc v2_step_skip values_of_single\<close>)
qed

section \<open>Grouping and flattening are inverse\<close>

text \<open>
  A map in canonical form: object-ordered keys, none of them a prototype name or empty, and
  every value a non-empty array of non-empty strings.
\<close>

definition canonical :: "v2map \<Rightarrow> bool" where
  "canonical m \<longleftrightarrow> owf m \<and>
     list_all (\<lambda>(k, v). k \<noteq> [] \<and> k \<notin> set proto_names \<and>
       (case v of HArr xs \<Rightarrow> xs \<noteq> [] \<and> list_all (\<lambda>x. x \<noteq> []) xs | HStr _ \<Rightarrow> False)) m"

lemma str_items_map [simp]: "str_items (map JStr xs) = xs"
  by (induction xs) auto

lemma toHeaders_v2: "toHeaders (v2_js m) = concat (map (key_headers \<circ> (\<lambda>(k, v). (k, hval_js v))) m)"
  by (simp add: toHeaders_def v2_js_def)

lemma key_headers_HArr: "key_headers (k, hval_js (HArr xs)) = map (entry k) xs"
  by (simp add: key_headers_def)

lemma fold_same_key:
  assumes "k \<noteq> []" "k \<notin> set proto_names" "list_all (\<lambda>x. x \<noteq> []) ys"
    and "owf (m @ [(k, HArr xs)])"
  shows "fold (v2_step True) (map (entry k) ys) (m @ [(k, HArr xs)]) = m @ [(k, HArr (xs @ ys))]"
  using assms(3,4)
proof (induction ys arbitrary: xs)
  case (Cons y ys)
  let ?m = "m @ [(k, HArr xs)]"
  have k: "k \<noteq> ''__proto__''" using assms(2) by (rule safe_not_proto)
  have nk: "k \<notin> fst ` set m" using Cons.prems by (auto simp: owf_def okeys_def)
  have o: "owf (m @ [(k, HArr zs)])" for zs
    using Cons.prems by (simp add: owf_def okeys_def)
  have lk: "map_of ?m k = Some (HArr xs)"
    using nk by (simp add: map_add_def map_of_eq_None_iff[symmetric])
  have put: "oput k v (m @ [(k, w)]) = m @ [(k, v)]" if "owf (m @ [(k, w)])" for v w :: hval
    using that nk
    by (induction m) (auto simp: owf_def okeys_def key_ordered_def)
  have "v2_step True (entry k y) ?m = m @ [(k, HArr (xs @ [y]))]"
    using Cons.prems assms(1) k lk put[OF Cons.prems(2)]
    by (simp add: v2_step_usable v2_add_def in_obj_def ohas_map_of oset_def)
  then show ?case
    using Cons.IH[OF _ o] Cons.prems by simp
qed simp

lemma fold_key:
  assumes "k \<noteq> []" "k \<notin> set proto_names" "list_all (\<lambda>x. x \<noteq> []) ys" "ys \<noteq> []"
    and "owf (m @ [(k, HArr ys)])"
  shows "fold (v2_step True) (map (entry k) ys) m = m @ [(k, HArr ys)]"
proof (cases ys)
  case (Cons y zs)
  have k: "k \<noteq> ''__proto__''" using assms(2) by (rule safe_not_proto)
  have o: "owf (m @ [(k, HArr [y])])"
    using assms(5) by (simp add: owf_def okeys_def)
  have "\<not> in_obj k m"
    using assms(2) o by (auto simp: in_obj_def ohas_def owf_def okeys_def)
  then have "v2_step True (entry k y) m = m @ [(k, HArr [y])]"
    using assms(1,3) Cons k oput_snoc[OF o] by (simp add: v2_step_usable v2_add_def oset_def)
  then show ?thesis
    using fold_same_key[OF assms(1,2) _ o, of zs] assms(3) Cons by simp
qed (use assms in simp)

lemma fold_headers:
  assumes "canonical (acc @ m)"
  shows "fold (v2_step True) (toHeaders (v2_js m)) acc = acc @ m"
  using assms
proof (induction m arbitrary: acc)
  case Nil
  then show ?case by (simp add: toHeaders_v2)
next
  case (Cons p m)
  obtain k xs where p: "p = (k, HArr xs)"
    using Cons.prems by (cases p; cases "snd p") (auto simp: canonical_def)
  have "owf (acc @ [(k, HArr xs)])"
    using Cons.prems p owf_prefix[of "acc @ [(k, HArr xs)]" m] by (simp add: canonical_def)
  then have "fold (v2_step True) (map (entry k) xs) acc = acc @ [(k, HArr xs)]"
    using Cons.prems p by (intro fold_key) (auto simp: canonical_def)
  then show ?case
    using Cons.IH[of "acc @ [p]"] Cons.prems p
    by (simp add: toHeaders_v2 key_headers_HArr del: hval_js.simps)
qed

section \<open>Lookup\<close>

lemma first_header_hit:
  assumes "first_header lower m \<noteq> []"
  shows "\<exists>k v. (k, v) \<in> set m \<and> to_lower k = lower \<and>
           (v = HStr (first_header lower m) \<or> (\<exists>ys. v = HArr (first_header lower m # ys)))"
  using assms
  by (induction lower m rule: first_header.induct) (auto split: hval.splits list.splits if_splits)

lemma first_header_miss:
  assumes "canonical m" and "first_header lower m = []" and "(k, v) \<in> set m"
  shows "to_lower k \<noteq> lower"
proof -
  have "list_all (\<lambda>(k, v). case v of HArr xs \<Rightarrow> xs \<noteq> [] \<and> list_all (\<lambda>x. x \<noteq> []) xs | _ \<Rightarrow> False) m"
    using assms(1) by (auto simp: canonical_def elim: list.pred_mono_strong)
  with assms(2,3) show ?thesis
    by (induction lower m rule: first_header.induct)
       (auto split: hval.splits list.splits if_splits)
qed

text \<open>
  Grouping rows into a map keeps, for every header name that is not a member of
  \<open>Object.prototype\<close>, exactly the non-empty values given for it: all of them in their order in
  the array form, the last one in the plain form, and no entry when there is none.
\<close>

theorem toV2Headers_groups:
  assumes "safe_names es"
  shows "map_of (toV2Headers es True) n
           = (if values_of n es = [] then None else Some (HArr (values_of n es)))
       \<and> map_of (toV2Headers es False) n
           = (if values_of n es = [] then None else Some (HStr (last (values_of n es))))"
  using v2_lookup_arr[OF assms] v2_lookup_single[OF assms] by blast

theorem toV2Headers_groups_witness:
  "map_of (toV2Headers [entry ''Host'' ''a'', entry ''X'' ''b'', entry ''Host'' ''c''] True) ''Host''
     = Some (HArr [''a'', ''c''])"
  using toV2Headers_groups[of "[entry ''Host'' ''a'', entry ''X'' ''b'', entry ''Host'' ''c'']" "''Host''"]
  by (simp add: safe_names_def proto_names_def values_of_def)

text \<open>
  Flattening a map in canonical form into rows and grouping the rows again gives the map back,
  with its keys in the same order.
\<close>

theorem toHeaders_roundtrip:
  assumes "canonical m"
  shows "toV2Headers (toHeaders (v2_js m)) True = m"
  using fold_headers[of "[]" m] assms by (simp add: toV2Headers_def)

theorem toHeaders_roundtrip_witness:
  "toV2Headers (toHeaders (v2_js [(''7'', HArr [''x'']), (''Host'', HArr [''a'', ''b''])])) True
     = [(''7'', HArr [''x'']), (''Host'', HArr [''a'', ''b''])]"
  by (rule toHeaders_roundtrip)
     (simp add: canonical_def owf_def okeys_def key_ordered_def key_before_def is_digit_def proto_names_def)

text \<open>
  A header lookup ignores the case of the name, is empty on a canonical map only if no key
  equals the name up to case, and otherwise is the first value stored under such a key.
\<close>

theorem getHeaderValue_spec:
  assumes "canonical m"
  shows "getHeaderValue (Some m) (to_lower name) = getHeaderValue (Some m) name
       \<and> (getHeaderValue (Some m) name = [] \<longleftrightarrow> (\<forall>k \<in> set (okeys m). to_lower k \<noteq> to_lower name))
       \<and> (getHeaderValue (Some m) name \<noteq> [] \<longrightarrow>
            (\<exists>k ys. (k, HArr (getHeaderValue (Some m) name # ys)) \<in> set m
                    \<and> to_lower k = to_lower name))"
proof -
  let ?v = "first_header (to_lower name) m"
  have hit: "\<exists>k ys. (k, HArr (?v # ys)) \<in> set m \<and> to_lower k = to_lower name" if "?v \<noteq> []"
    using first_header_hit[OF that] assms by (fastforce simp: canonical_def list_all_iff)
  have miss: "\<forall>k \<in> set (okeys m). to_lower k \<noteq> to_lower name" if "?v = []"
    using first_header_miss[OF assms that] by (auto simp: okeys_def)
  show ?thesis
    using hit miss by (fastforce simp: getHeaderValue_def okeys_def)
qed

theorem getHeaderValue_spec_witness:
  "getHeaderValue (Some [(''hOST'', HArr [''a''])]) ''Host'' = ''a'' \<and>
   getHeaderValue (Some [(''hOST'', HArr [''a''])]) ''Host'' \<noteq> []"
proof -
  have c: "canonical [(''hOST'', HArr [''a''])]"
    by (simp add: canonical_def owf_def okeys_def key_ordered_def proto_names_def)
  have "to_lower ''hOST'' = to_lower ''Host''" by code_simp
  then show ?thesis
    using getHeaderValue_spec[OF c, of "''Host''"] by (auto simp: okeys_def)
qed

text \<open>
  The membership test \<open>name in out\<close> also sees the prototype: a single row named like one of its
  members is stored as a plain string where every other name gets an array.
\<close>

theorem toV2Headers_prototype_name:
  "toV2Headers [entry ''constructor'' ''x''] True = [(''constructor'', HStr ''x'')] \<and>
   toV2Headers [entry ''Constructor'' ''x''] True = [(''Constructor'', HArr [''x''])]"
  by code_simp

end
