(* ===== verification/Capabilities.thy ===== *)
theory Capabilities
  imports Js_Text
begin

text \<open>
  \<open>lib/xray/protocol-capabilities.ts\<close>: which transport securities and options an inbound may
  enable, as predicates over the slice of the form they read. An optional field is an option.
\<close>

definition TLS_ELIGIBLE_PROTOCOLS :: "string list" where
  "TLS_ELIGIBLE_PROTOCOLS = [''vmess'', ''vless'', ''trojan'', ''shadowsocks'']"

definition TLS_NETWORKS :: "string list" where
  "TLS_NETWORKS = [''tcp'', ''ws'', ''http'', ''grpc'', ''httpupgrade'', ''xhttp'']"

definition REALITY_ELIGIBLE_PROTOCOLS :: "string list" where
  "REALITY_ELIGIBLE_PROTOCOLS = [''vless'', ''trojan'']"

definition REALITY_NETWORKS :: "string list" where
  "REALITY_NETWORKS = [''tcp'', ''http'', ''grpc'', ''xhttp'']"

definition STREAM_PROTOCOLS :: "string list" where
  "STREAM_PROTOCOLS =
     [''vmess'', ''vless'', ''trojan'', ''shadowsocks'', ''hysteria'', ''wireguard'', ''tunnel'']"

definition VISION_FLOW :: string where "VISION_FLOW = ''xtls-rprx-vision''"
definition SS_2022_PREFIX :: string where "SS_2022_PREFIX = ''2022''"
definition SS_BLAKE3_CHACHA20 :: string where
  "SS_BLAKE3_CHACHA20 = ''2022-blake3-chacha20-poly1305''"

text \<open>
  The slices. A client row is the flow it carries; the row itself may be absent (\<open>c?.flow\<close>).
\<close>

record cap_settings =
  cs_encryption :: "string option"
  cs_decryption :: "string option"
  cs_method :: "string option"
  cs_clients :: "string option option list option"

record cap_stream =
  ct_network :: "string option"
  ct_security :: "string option"

record cap_slice =
  cap_protocol :: string
  cap_settings :: "cap_settings option"
  cap_stream :: "cap_stream option"

definition stream_network :: "cap_slice \<Rightarrow> string option" where
  "stream_network v = Option.bind (cap_stream v) ct_network"

definition stream_security :: "cap_slice \<Rightarrow> string option" where
  "stream_security v = Option.bind (cap_stream v) ct_security"

definition or_empty :: "string option \<Rightarrow> string" where
  "or_empty x = (case x of None \<Rightarrow> [] | Some s \<Rightarrow> s)"

definition canEnableTls :: "cap_slice \<Rightarrow> bool" where
  "canEnableTls v =
     (if cap_protocol v = ''hysteria'' then True
      else if cap_protocol v \<notin> set TLS_ELIGIBLE_PROTOCOLS then False
      else or_empty (stream_network v) \<in> set TLS_NETWORKS)"

definition canEnableReality :: "cap_slice \<Rightarrow> bool" where
  "canEnableReality v =
     (if cap_protocol v \<notin> set REALITY_ELIGIBLE_PROTOCOLS then False
      else or_empty (stream_network v) \<in> set REALITY_NETWORKS)"

definition is_set :: "string option \<Rightarrow> bool" where
  "is_set v = (case v of None \<Rightarrow> False | Some s \<Rightarrow> s \<noteq> [] \<and> s \<noteq> ''none'')"

definition hasVlessEncryption :: "cap_settings option \<Rightarrow> bool" where
  "hasVlessEncryption st =
     (is_set (Option.bind st cs_encryption) \<or> is_set (Option.bind st cs_decryption))"

definition canEnableTlsFlow :: "cap_slice \<Rightarrow> bool" where
  "canEnableTlsFlow v =
     (if cap_protocol v \<noteq> ''vless'' then False
      else
        (let network = stream_network v; security = stream_security v in
         if network = Some ''tcp'' \<and> (security = Some ''tls'' \<or> security = Some ''reality'') then True
         else if network = Some ''xhttp'' \<and> hasVlessEncryption (cap_settings v) then True
         else False))"

definition canEnableStream :: "cap_slice \<Rightarrow> bool" where
  "canEnableStream v = (cap_protocol v \<in> set STREAM_PROTOCOLS)"

definition canEnableSniffing :: "cap_slice \<Rightarrow> bool" where
  "canEnableSniffing v = (cap_protocol v \<noteq> ''mtproto'')"

definition canEnableVisionSeed :: "cap_slice \<Rightarrow> bool" where
  "canEnableVisionSeed v =
     (if \<not> canEnableTlsFlow v then False
      else case Option.bind (cap_settings v) cs_clients of
             None \<Rightarrow> False
           | Some cs \<Rightarrow> list_ex (\<lambda>c. c = Some (Some VISION_FLOW)) cs)"

definition ss_method :: "cap_slice \<Rightarrow> string" where
  "ss_method v =
     (if cap_protocol v = ''shadowsocks'' then or_empty (Option.bind (cap_settings v) cs_method) else [])"

definition isSSMultiUser :: "cap_slice \<Rightarrow> bool" where
  "isSSMultiUser v = (ss_method v \<noteq> SS_BLAKE3_CHACHA20)"

definition isSS2022 :: "cap_slice \<Rightarrow> bool" where
  "isSS2022 v = (take 4 (ss_method v) = SS_2022_PREFIX)"

section \<open>How the capabilities are ordered\<close>

lemmas cap_lists = TLS_ELIGIBLE_PROTOCOLS_def TLS_NETWORKS_def REALITY_ELIGIBLE_PROTOCOLS_def
  REALITY_NETWORKS_def STREAM_PROTOCOLS_def

lemma reality_tls: "canEnableReality v \<Longrightarrow> canEnableTls v"
  by (auto simp: canEnableReality_def canEnableTls_def cap_lists split: if_splits)

lemma tls_stream: "canEnableTls v \<Longrightarrow> canEnableStream v"
  by (auto simp: canEnableTls_def canEnableStream_def cap_lists split: if_splits)

lemma flow_reality: "canEnableTlsFlow v \<Longrightarrow> canEnableReality v"
  by (auto simp: canEnableTlsFlow_def canEnableReality_def cap_lists or_empty_def Let_def
      split: if_splits)

lemma seed_flow: "canEnableVisionSeed v \<Longrightarrow> canEnableTlsFlow v"
  by (simp add: canEnableVisionSeed_def split: if_splits)

lemma stream_sniffing: "canEnableStream v \<Longrightarrow> canEnableSniffing v"
  by (auto simp: canEnableStream_def canEnableSniffing_def cap_lists)

text \<open>
  The capabilities form a chain: an inbound that may use the vision seed may use the TLS flow,
  one that may use the flow may use REALITY, then TLS, then a stream block, then sniffing; a
  single-user Shadowsocks method is always a 2022 one.
\<close>

theorem capability_chain:
  "(canEnableVisionSeed v \<longrightarrow> canEnableTlsFlow v) \<and> (canEnableTlsFlow v \<longrightarrow> canEnableReality v)
   \<and> (canEnableReality v \<longrightarrow> canEnableTls v) \<and> (canEnableTls v \<longrightarrow> canEnableStream v)
   \<and> (canEnableStream v \<longrightarrow> canEnableSniffing v) \<and> (isSSMultiUser v \<or> isSS2022 v)"
proof -
  have "isSSMultiUser v \<or> isSS2022 v"
    by (auto simp: isSSMultiUser_def isSS2022_def SS_BLAKE3_CHACHA20_def SS_2022_PREFIX_def)
  then show ?thesis
    using seed_flow flow_reality reality_tls tls_stream stream_sniffing by blast
qed

theorem capability_chain_witness:
  "let v = \<lparr>cap_protocol = ''vless'',
            cap_settings = Some \<lparr>cs_encryption = None, cs_decryption = Some ''none'', cs_method = None,
                                 cs_clients = Some [None, Some (Some ''xtls-rprx-vision'')]\<rparr>,
            cap_stream = Some \<lparr>ct_network = Some ''tcp'', ct_security = Some ''reality''\<rparr>\<rparr>
   in canEnableVisionSeed v \<and> canEnableReality v \<and> canEnableSniffing v"
proof -
  let ?v = "\<lparr>cap_protocol = ''vless'',
            cap_settings = Some \<lparr>cs_encryption = None, cs_decryption = Some ''none'', cs_method = None,
                                 cs_clients = Some [None, Some (Some ''xtls-rprx-vision'')]\<rparr>,
            cap_stream = Some \<lparr>ct_network = Some ''tcp'', ct_security = Some ''reality''\<rparr>\<rparr>"
  have "canEnableVisionSeed ?v"
    by (simp add: canEnableVisionSeed_def canEnableTlsFlow_def stream_network_def
        stream_security_def VISION_FLOW_def)
  then show ?thesis
    using capability_chain[of ?v] unfolding Let_def by blast
qed

text \<open>
  The exact condition of the TLS flow: a VLESS inbound over raw TCP with TLS or REALITY, or one over
  XHTTP whose encryption or decryption is a value other than empty or none.
\<close>

lemma tls_flow_exact:
  "canEnableTlsFlow v \<longleftrightarrow>
     cap_protocol v = ''vless'' \<and>
     ((stream_network v = Some ''tcp'' \<and> stream_security v \<in> {Some ''tls'', Some ''reality''})
      \<or> (stream_network v = Some ''xhttp'' \<and>
         (\<exists>st e. cap_settings v = Some st \<and> e \<noteq> [] \<and> e \<noteq> ''none''
               \<and> (cs_encryption st = Some e \<or> cs_decryption st = Some e))))"
  by (cases "cap_settings v")
     (auto simp: canEnableTlsFlow_def Let_def hasVlessEncryption_def is_set_def split: option.splits)

end
