(* ===== verification/Inbound_Tag.thy ===== *)
theory Inbound_Tag
  imports Js_Text
begin

text \<open>
  \<open>lib/xray/inbound-tag.ts\<close>: the tag the panel derives for an inbound from its port, its node and
  the transports it listens on, and the test whether a tag is one the panel derived. The server
  derives the same tag in \<open>internal/web/service/port_conflict.go\<close>; that derivation is modelled
  beside it and the two are compared.
\<close>

section \<open>The client side\<close>

type_synonym bits = nat

definition TCP :: bits where "TCP = 1"
definition UDP :: bits where "UDP = 2"

text \<open>\<open>a | b\<close> on the two flags.\<close>

definition bit_or :: "bits \<Rightarrow> bits \<Rightarrow> bits" where
  "bit_or a b = (if a = b \<or> b = 0 then a else if a = 0 then b else 3)"

definition asString :: "js \<Rightarrow> string" where
  "asString v = (case v of JStr s \<Rightarrow> s | _ \<Rightarrow> [])"

definition part_bits :: "bits \<Rightarrow> string \<Rightarrow> bits" where
  "part_bits b part =
     (let p = trim part in
      if p = ''tcp'' then bit_or b TCP else if p = ''udp'' then bit_or b UDP else b)"

definition stream_bits :: "jobj option \<Rightarrow> bits" where
  "stream_bits stream =
     (let network = (case stream of None \<Rightarrow> [] | Some o1 \<Rightarrow> asString (oget o1 ''network'')) in
      if network = ''kcp'' \<or> network = ''quic'' then bit_or 0 UDP else bit_or 0 TCP)"

definition settings_bits :: "string \<Rightarrow> jobj \<Rightarrow> bits \<Rightarrow> bits" where
  "settings_bits protocol st b =
     (if protocol = ''shadowsocks'' \<or> protocol = ''tunnel'' then
        (let key = (if protocol = ''tunnel'' then ''allowedNetwork'' else ''network'');
             n = asString (oget st key) in
         if n \<noteq> [] then foldl part_bits 0 (split_char CHR '','' n) else b)
      else if protocol = ''mixed'' then
        (if oget st ''udp'' = JBool True then bit_or b UDP else b)
      else b)"

definition inboundTransports :: "string \<Rightarrow> jobj option \<Rightarrow> jobj option \<Rightarrow> bits" where
  "inboundTransports protocol stream settings =
     (if protocol = ''hysteria'' \<or> protocol = ''wireguard'' then UDP
      else
        (let b = stream_bits stream;
             b = (case settings of None \<Rightarrow> b | Some st \<Rightarrow> settings_bits protocol st b) in
         if b = 0 then TCP else b))"

definition transportTagSuffix :: "bits \<Rightarrow> string" where
  "transportTagSuffix b =
     (if b = TCP then ''tcp'' else if b = UDP then ''udp''
      else if b = bit_or TCP UDP then ''tcpudp'' else ''any'')"

definition baseInboundTag :: "int \<Rightarrow> string" where
  "baseInboundTag port = ''in-'' @ int_str port"

definition nodeTagPrefix :: "int option \<Rightarrow> string" where
  "nodeTagPrefix n = (case n of None \<Rightarrow> [] | Some i \<Rightarrow> ''n'' @ int_str i @ ''-'')"

text \<open>The port and the node number are the whole numbers of the database row, or missing.\<close>

record tag_input =
  ti_port :: "int option"
  ti_node :: "int option"
  ti_protocol :: string
  ti_stream :: "jobj option"
  ti_settings :: "jobj option"

definition composeInboundTag :: "tag_input \<Rightarrow> string" where
  "composeInboundTag i =
     (let b = inboundTransports (ti_protocol i) (ti_stream i) (ti_settings i) in
      nodeTagPrefix (ti_node i) @ baseInboundTag (case ti_port i of None \<Rightarrow> 0 | Some p \<Rightarrow> p)
      @ ''-'' @ transportTagSuffix b)"

definition isAutoInboundTag :: "string \<Rightarrow> tag_input \<Rightarrow> bool" where
  "isAutoInboundTag tag i =
     (if tag = [] then True
      else
        (let base = composeInboundTag i in
         if tag = base then True
         else
           (let prefix = base @ ''-'' in
            if \<not> starts_with tag prefix then False
            else
              (let suffix = drop (length prefix) tag in
               suffix \<noteq> [] \<and> list_all is_digit suffix))))"

section \<open>The server side\<close>

text \<open>
  \<open>port_conflict.go\<close>. The JSON columns are given parsed: \<open>None\<close> for an empty or unreadable one.
  \<open>strings.TrimSpace\<close> is its ASCII path, and \<open>%d\<close> prints a decimal.
\<close>

definition go_trim :: "string \<Rightarrow> string" where
  "go_trim s =
     (let cut = dropWhile (\<lambda>c. c \<in> set ascii_ws) in rev (cut (rev (cut s))))"

definition go_int :: "int \<Rightarrow> string" where
  "go_int z = (if z < 0 then ''-'' @ nat_str (nat (- z)) else nat_str (nat z))"

definition go_part :: "bits \<Rightarrow> string \<Rightarrow> bits" where
  "go_part b part =
     (if go_trim part = ''tcp'' then bit_or b TCP
      else if go_trim part = ''udp'' then bit_or b UDP else b)"

definition go_inboundTransports :: "string \<Rightarrow> jobj option \<Rightarrow> jobj option \<Rightarrow> bits" where
  "go_inboundTransports protocol stream settings =
     (if protocol = ''hysteria'' \<or> protocol = ''wireguard'' then UDP
      else if protocol = ''mtproto'' then TCP
      else
        (let network = (case stream of
                          None \<Rightarrow> []
                        | Some ss \<Rightarrow> (case oget ss ''network'' of JStr n \<Rightarrow> n | _ \<Rightarrow> []));
             b = (if network = ''kcp'' \<or> network = ''quic'' then UDP else TCP);
             b = (case settings of
                    None \<Rightarrow> b
                  | Some st \<Rightarrow>
                      if protocol = ''shadowsocks'' \<or> protocol = ''tunnel'' then
                        (case oget st (if protocol = ''tunnel'' then ''allowedNetwork'' else ''network'') of
                           JStr n \<Rightarrow> if n \<noteq> [] then foldl go_part 0 (split_char CHR '','' n) else b
                         | _ \<Rightarrow> b)
                      else if protocol = ''mixed'' then
                        (case oget st ''udp'' of JBool True \<Rightarrow> bit_or b UDP | _ \<Rightarrow> b)
                      else b)
         in if b = 0 then TCP else b))"

definition go_composeInboundTag :: "int \<Rightarrow> int option \<Rightarrow> bits \<Rightarrow> string" where
  "go_composeInboundTag port node b =
     (case node of None \<Rightarrow> [] | Some i \<Rightarrow> ''n'' @ go_int i @ ''-'')
     @ (''in-'' @ go_int port) @ ''-'' @ transportTagSuffix b"

definition go_isAutoGeneratedTag :: "string \<Rightarrow> int \<Rightarrow> int option \<Rightarrow> bits \<Rightarrow> bool" where
  "go_isAutoGeneratedTag tag port node b =
     (let base = go_composeInboundTag port node b in
      if tag = base then True
      else
        (let prefix = base @ ''-'' in
         if \<not> starts_with tag prefix \<or> drop (length prefix) tag = [] then False
         else list_all is_digit (drop (length prefix) tag)))"

section \<open>The two derivations agree\<close>

lemma ascii_not_wide: "byte c < 128 \<Longrightarrow> \<not> is_lead c \<and> \<not> is_tail c"
  by (auto simp: is_lead_def is_tail_def)

lemma ltrim_ascii: "list_all (\<lambda>c. byte c < 128) s \<Longrightarrow> ltrim s = dropWhile (\<lambda>c. c \<in> set ascii_ws) s"
  by (induction s) (subst ltrim.simps, simp add: ws_len_def ascii_not_wide)+

lemma rtrim_ascii:
  "list_all (\<lambda>c. byte c < 128) s \<Longrightarrow> rtrim_rev s = dropWhile (\<lambda>c. c \<in> set ascii_ws) s"
  by (induction s) (subst rtrim_rev.simps, simp add: rws_len_def ascii_not_wide)+

lemma trim_ascii: "list_all (\<lambda>c. byte c < 128) s \<Longrightarrow> trim s = go_trim s"
proof -
  assume a: "list_all (\<lambda>c. byte c < 128) s"
  have "list_all (\<lambda>c. byte c < 128) (rev (dropWhile (\<lambda>c. c \<in> set ascii_ws) s))"
    using a by (auto simp: list_all_iff dest: set_dropWhileD)
  with a show ?thesis by (simp add: trim_def go_trim_def ltrim_ascii rtrim_ascii Let_def)
qed

lemma split_char_subset: "w \<in> set (split_char d s) \<Longrightarrow> set w \<subseteq> set s"
proof (induction s arbitrary: w)
  case (Cons a s)
  show ?case
  proof (cases "split_char d s")
    case (Cons v vs)
    then show ?thesis
      using Cons.IH[of v] Cons.IH[of w] Cons.prems by (auto split: if_splits)
  qed simp
qed simp

lemma fold_parts_ascii:
  "list_all (\<lambda>c. byte c < 128) n \<Longrightarrow>
   foldl part_bits b (split_char CHR '','' n) = foldl go_part b (split_char CHR '','' n)"
proof (rule foldl_cong)
  fix b w
  assume a: "list_all (\<lambda>c. byte c < 128) n" and "w \<in> set (split_char CHR '','' n)"
  then have "list_all (\<lambda>c. byte c < 128) w"
    using split_char_subset[of w "CHR '',''" n] by (auto simp: list_all_iff)
  then show "part_bits b w = go_part b w"
    by (simp add: part_bits_def go_part_def trim_ascii Let_def)
qed simp_all

definition ascii_field :: "js \<Rightarrow> bool" where
  "ascii_field v = (case v of JStr s \<Rightarrow> list_all (\<lambda>c. byte c < 128) s | _ \<Rightarrow> True)"

definition ascii_settings :: "jobj option \<Rightarrow> bool" where
  "ascii_settings st =
     (case st of None \<Rightarrow> True
      | Some o1 \<Rightarrow> ascii_field (oget o1 ''network'') \<and> ascii_field (oget o1 ''allowedNetwork''))"

lemma bit_or_0 [simp]: "bit_or 0 b = b"
  by (simp add: bit_or_def)

lemma bits_nonzero [simp]: "TCP \<noteq> 0" "UDP \<noteq> 0"
  by (simp_all add: TCP_def UDP_def)

lemma settings_bits_go:
  assumes "ascii_settings (Some st)"
  shows "settings_bits protocol st b =
    (if protocol = ''shadowsocks'' \<or> protocol = ''tunnel'' then
       (case oget st (if protocol = ''tunnel'' then ''allowedNetwork'' else ''network'') of
          JStr n \<Rightarrow> if n \<noteq> [] then foldl go_part 0 (split_char CHR '','' n) else b
        | _ \<Rightarrow> b)
     else if protocol = ''mixed'' then
       (case oget st ''udp'' of JBool True \<Rightarrow> bit_or b UDP | _ \<Rightarrow> b)
     else b)"
  using assms
  by (auto simp: settings_bits_def ascii_settings_def ascii_field_def asString_def Let_def
      fold_parts_ascii split: js.splits bool.splits)

lemma transports_agree:
  assumes "protocol \<noteq> ''mtproto''" and "ascii_settings settings"
  shows "inboundTransports protocol stream settings = go_inboundTransports protocol stream settings"
proof -
  have s: "stream_bits stream =
      (let network = (case stream of
                        None \<Rightarrow> []
                      | Some ss \<Rightarrow> (case oget ss ''network'' of JStr n \<Rightarrow> n | _ \<Rightarrow> []))
       in if network = ''kcp'' \<or> network = ''quic'' then UDP else TCP)"
    by (cases stream) (simp_all add: stream_bits_def asString_def Let_def)
  show ?thesis
    using assms
    by (cases settings)
       (simp_all add: inboundTransports_def go_inboundTransports_def s settings_bits_go Let_def)
qed

lemma go_int_nat: "0 \<le> z \<Longrightarrow> go_int z = nat_str (nat z)"
  by (simp add: go_int_def)

lemma int_str_nat: "0 \<le> z \<Longrightarrow> z < 10 ^ 21 \<Longrightarrow> int_str z = nat_str (nat z)"
  using num_str_nat[of "nat z"] by (simp add: int_str_def nat_less_iff)

definition row_number :: "int \<Rightarrow> bool" where
  "row_number z \<longleftrightarrow> 0 \<le> z \<and> z < 2 ^ 63"

lemma row_number_str: "row_number z \<Longrightarrow> int_str z = nat_str (nat z) \<and> go_int z = nat_str (nat z)"
  by (simp add: row_number_def int_str_nat go_int_nat)

definition db_row :: "tag_input \<Rightarrow> bool" where
  "db_row i \<longleftrightarrow> (\<forall>p \<in> set_option (ti_port i). row_number p) \<and> (\<forall>n \<in> set_option (ti_node i). row_number n)
     \<and> ascii_settings (ti_settings i)"

definition port_of :: "tag_input \<Rightarrow> int" where
  "port_of i = (case ti_port i of None \<Rightarrow> 0 | Some p \<Rightarrow> p)"

lemma port_of_row: "db_row i \<Longrightarrow> row_number (port_of i)"
  by (auto simp: db_row_def port_of_def row_number_def split: option.splits)

lemma compose_go:
  assumes "db_row i"
  shows "composeInboundTag i = go_composeInboundTag (port_of i) (ti_node i)
           (inboundTransports (ti_protocol i) (ti_stream i) (ti_settings i))"
  using assms port_of_row[OF assms] row_number_str
  by (auto simp: composeInboundTag_def go_composeInboundTag_def nodeTagPrefix_def
      baseInboundTag_def port_of_def db_row_def split: option.splits)

lemma auto_go:
  assumes "composeInboundTag i = go_composeInboundTag p n b"
  shows "isAutoInboundTag tag i \<longleftrightarrow> tag = [] \<or> go_isAutoGeneratedTag tag p n b"
  by (auto simp: isAutoInboundTag_def go_isAutoGeneratedTag_def assms Let_def)

section \<open>Tags determine what they were derived from\<close>

lemma transports_values: "inboundTransports p st se \<in> {TCP, UDP, 3}"
proof -
  have or: "bit_or b x \<in> {TCP, UDP, 3}" if "b \<in> {0, TCP, UDP, 3}" "x \<in> {TCP, UDP}" for b x
    using that by (auto simp: bit_or_def TCP_def UDP_def)
  have pb: "part_bits b x \<in> {0, TCP, UDP, 3}" if "b \<in> {0, TCP, UDP, 3}" for b x
    using that or[OF that] by (auto simp: part_bits_def Let_def)
  have fold: "foldl part_bits b xs \<in> {0, TCP, UDP, 3}" if "b \<in> {0, TCP, UDP, 3}" for b xs
    using that pb by (induction xs arbitrary: b) auto
  have st: "stream_bits st \<in> {0, TCP, UDP, 3}"
    by (simp add: stream_bits_def Let_def)
  have se: "settings_bits p o1 (stream_bits st) \<in> {0, TCP, UDP, 3}" for o1
    unfolding settings_bits_def Let_def using st or[OF st] fold[of 0] by auto
  define b where "b = (case se of None \<Rightarrow> stream_bits st | Some o1 \<Rightarrow> settings_bits p o1 (stream_bits st))"
  have "b \<in> {0, TCP, UDP, 3}" using st se by (cases se) (simp_all add: b_def)
  then show ?thesis
    unfolding inboundTransports_def Let_def b_def[symmetric] by auto
qed

lemma suffix_inject:
  "a \<in> {TCP, UDP, 3} \<Longrightarrow> b \<in> {TCP, UDP, 3} \<Longrightarrow>
   transportTagSuffix a = transportTagSuffix b \<longleftrightarrow> a = b"
  by (auto simp: transportTagSuffix_def TCP_def UDP_def bit_or_def)

lemma suffix_no_dash: "CHR ''-'' \<notin> set (transportTagSuffix b)"
  by (simp add: transportTagSuffix_def)

lemma nat_str_no_dash: "CHR ''-'' \<notin> set (nat_str n)"
  using nat_str_digits[of n] by (auto simp: is_digit_def)

definition node_head :: "nat option \<Rightarrow> string" where
  "node_head n = (case n of None \<Rightarrow> [] | Some i \<Rightarrow> CHR ''n'' # nat_str i @ ''-'')"

lemma node_head_in_inject:
  assumes "node_head a @ ''in'' = node_head b @ ''in''"
  shows "a = b"
  using assms by (cases a; cases b) (auto simp: node_head_def)

lemma last_dash_inject:
  fixes c :: char
  assumes "a @ c # b = a' @ c # b'" and "c \<notin> set b" and "c \<notin> set b'"
  shows "a = a' \<and> b = b'"
  using arg_cong[OF assms(1), of "after_last c"] arg_cong[OF assms(1), of "before_last c"] assms(2,3)
  by simp

lemma tag_parts_inject:
  assumes "(h @ ''in'') @ CHR ''-'' # nat_str p @ CHR ''-'' # transportTagSuffix b
         = (h' @ ''in'') @ CHR ''-'' # nat_str p' @ CHR ''-'' # transportTagSuffix b'"
  shows "h @ ''in'' = h' @ ''in'' \<and> p = p' \<and> transportTagSuffix b = transportTagSuffix b'"
proof -
  define x where "x = h @ ''in''"
  define y where "y = h' @ ''in''"
  have eq: "(x @ CHR ''-'' # nat_str p) @ CHR ''-'' # transportTagSuffix b
          = (y @ CHR ''-'' # nat_str p') @ CHR ''-'' # transportTagSuffix b'"
    using assms by (simp add: x_def y_def)
  from last_dash_inject[OF eq suffix_no_dash suffix_no_dash]
  have m: "x @ CHR ''-'' # nat_str p = y @ CHR ''-'' # nat_str p'"
    and s: "transportTagSuffix b = transportTagSuffix b'" by blast+
  from last_dash_inject[OF m nat_str_no_dash nat_str_no_dash] show ?thesis
    using s by (simp add: x_def y_def)
qed

lemma compose_shape:
  assumes "db_row i"
  shows "composeInboundTag i = (node_head (map_option nat (ti_node i)) @ ''in'') @ CHR ''-''
           # nat_str (nat (port_of i)) @ CHR ''-''
           # transportTagSuffix (inboundTransports (ti_protocol i) (ti_stream i) (ti_settings i))"
  using assms port_of_row[OF assms] row_number_str
  by (auto simp: compose_go go_composeInboundTag_def node_head_def db_row_def split: option.splits)

text \<open>
  C38
  For a row as the database holds it - its numbers within range, the fields that name transports in ASCII -, of
  any protocol but MTProto (whose stream settings only the client reads), the tag the client derives is the one
  the server derives, and the two tests for a derived tag agree on every tag that is not empty; the empty one
  counts as derived for the client alone.
\<close>

theorem tag_client_server:
  assumes "db_row i" and "ti_protocol i \<noteq> ''mtproto''"
  shows "composeInboundTag i = go_composeInboundTag (port_of i) (ti_node i)
           (go_inboundTransports (ti_protocol i) (ti_stream i) (ti_settings i))
       \<and> (isAutoInboundTag tag i \<longleftrightarrow> tag = [] \<or> go_isAutoGeneratedTag tag (port_of i) (ti_node i)
           (go_inboundTransports (ti_protocol i) (ti_stream i) (ti_settings i)))"
proof -
  have "ascii_settings (ti_settings i)" using assms(1) by (simp add: db_row_def)
  then have c: "composeInboundTag i = go_composeInboundTag (port_of i) (ti_node i)
           (go_inboundTransports (ti_protocol i) (ti_stream i) (ti_settings i))"
    using compose_go[OF assms(1)] transports_agree[OF assms(2)] by simp
  then show ?thesis using auto_go by blast
qed

theorem tag_client_server_witness:
  "let i = \<lparr>ti_port = Some 443, ti_node = Some 3, ti_protocol = ''shadowsocks'', ti_stream = None,
            ti_settings = Some [(''network'', JStr ''tcp, udp'')]\<rparr>
   in composeInboundTag i = go_composeInboundTag 443 (Some 3)
        (go_inboundTransports ''shadowsocks'' None (Some [(''network'', JStr ''tcp, udp'')]))"
proof -
  let ?i = "\<lparr>ti_port = Some 443, ti_node = Some 3, ti_protocol = ''shadowsocks'', ti_stream = None,
            ti_settings = Some [(''network'', JStr ''tcp, udp'')]\<rparr>"
  have "db_row ?i" by (simp add: db_row_def row_number_def ascii_settings_def ascii_field_def)
  then show ?thesis using tag_client_server[of ?i] by (simp add: port_of_def)
qed

text \<open>
  An MTProto inbound over mKCP is tagged as UDP by the client and as TCP by the server.
\<close>

theorem mtproto_tag_diverges:
  "composeInboundTag \<lparr>ti_port = Some 443, ti_node = None, ti_protocol = ''mtproto'',
     ti_stream = Some [(''network'', JStr ''kcp'')], ti_settings = None\<rparr> = ''in-443-udp'' \<and>
   go_composeInboundTag 443 None
     (go_inboundTransports ''mtproto'' (Some [(''network'', JStr ''kcp'')]) None) = ''in-443-tcp''"
  by code_simp

text \<open>
  A derived tag determines the node, the port and the transports of its inbound: two rows have the
  same tag only when all three are the same.
\<close>

theorem composeInboundTag_inject:
  assumes "db_row i" and "db_row j"
  shows "composeInboundTag i = composeInboundTag j \<longleftrightarrow>
           ti_node i = ti_node j \<and> port_of i = port_of j \<and>
           inboundTransports (ti_protocol i) (ti_stream i) (ti_settings i)
             = inboundTransports (ti_protocol j) (ti_stream j) (ti_settings j)"
proof
  let ?b = "\<lambda>k. inboundTransports (ti_protocol k) (ti_stream k) (ti_settings k)"
  assume "composeInboundTag i = composeInboundTag j"
  from tag_parts_inject[OF this[unfolded compose_shape[OF assms(1)] compose_shape[OF assms(2)]]]
  have h: "node_head (map_option nat (ti_node i)) @ ''in'' = node_head (map_option nat (ti_node j)) @ ''in''"
    and p: "nat (port_of i) = nat (port_of j)"
    and s: "transportTagSuffix (?b i) = transportTagSuffix (?b j)" by blast+
  have "?b i = ?b j" using s suffix_inject transports_values by blast
  moreover have "port_of i = port_of j"
    using p port_of_row[OF assms(1)] port_of_row[OF assms(2)]
    unfolding row_number_def by linarith
  moreover have "ti_node i = ti_node j"
    using node_head_in_inject[OF h] assms
    by (cases "ti_node i"; cases "ti_node j") (auto simp: db_row_def row_number_def)
  ultimately show "ti_node i = ti_node j \<and> port_of i = port_of j \<and> ?b i = ?b j" by blast
next
  assume "ti_node i = ti_node j \<and> port_of i = port_of j \<and>
           inboundTransports (ti_protocol i) (ti_stream i) (ti_settings i)
             = inboundTransports (ti_protocol j) (ti_stream j) (ti_settings j)"
  then show "composeInboundTag i = composeInboundTag j"
    by (simp add: composeInboundTag_def port_of_def)
qed

theorem composeInboundTag_inject_witness:
  "composeInboundTag \<lparr>ti_port = Some 443, ti_node = None, ti_protocol = ''vless'', ti_stream = None,
     ti_settings = None\<rparr>
   \<noteq> composeInboundTag \<lparr>ti_port = Some 443, ti_node = Some 1, ti_protocol = ''vless'', ti_stream = None,
     ti_settings = None\<rparr>"
  by (subst composeInboundTag_inject)
     (simp_all add: db_row_def row_number_def ascii_settings_def)

end
