(* ===== verification/Wire_Normalize.thy ===== *)
theory Wire_Normalize
  imports Js_Text
begin

text \<open>
  \<open>lib/xray/stream-wire-normalize.ts\<close>: the pruning that stream settings go through on their way to
  the server configuration, and the check of a REALITY target.

  The settings are untyped objects. Every function works on a shallow copy from which it deletes
  keys; the copy is the object itself here, and a run of conditional deletes is a run of
  \<open>drop_when\<close>.
\<close>

datatype wire_side = Inbound_Side | Outbound_Side

definition PACKET_UP_FIELDS :: "string list" where
  "PACKET_UP_FIELDS = [''scMaxEachPostBytes'', ''scMinPostsIntervalMs'', ''scMaxBufferedPosts'']"

definition STREAM_UP_SERVER_FIELDS :: "string list" where
  "STREAM_UP_SERVER_FIELDS = [''scStreamUpServerSecs'']"

definition PLACEMENT_STRING_FIELDS :: "string list" where
  "PLACEMENT_STRING_FIELDS =
     [''sessionPlacement'', ''sessionKey'', ''seqPlacement'', ''seqKey'', ''uplinkDataPlacement'',
      ''uplinkDataKey'', ''uplinkHTTPMethod'', ''xPaddingKey'', ''xPaddingHeader'',
      ''xPaddingPlacement'', ''xPaddingMethod'']"

definition nonEmptyString :: "js \<Rightarrow> bool" where
  "nonEmptyString v = (case v of JStr s \<Rightarrow> trim s \<noteq> [] | _ \<Rightarrow> False)"

definition hasMeaningfulHeaders :: "js \<Rightarrow> bool" where
  "hasMeaningfulHeaders v = (case v of JObj o1 \<Rightarrow> okeys o1 \<noteq> [] | _ \<Rightarrow> False)"

section \<open>XMUX\<close>

definition int32RangeUpper :: "js \<Rightarrow> jsnum" where
  "int32RangeUpper v =
     (case v of
        JNum n \<Rightarrow> if is_finite n then n else Fin 0
      | JStr s \<Rightarrow>
          (let trimmed = trim s in
           if trimmed = [] then Fin 0
           else
             (let parts = split_char CHR ''-'' trimmed; n = js_number (last parts) in
              if is_finite n then n else Fin 0))
      | _ \<Rightarrow> Fin 0)"

definition resolveXmuxExclusivity :: "jobj \<Rightarrow> jobj" where
  "resolveXmuxExclusivity xmux =
     (if num_gt0 (int32RangeUpper (oget xmux ''maxConnections''))
         \<and> num_gt0 (int32RangeUpper (oget xmux ''maxConcurrency''))
      then odel ''maxConcurrency'' xmux else xmux)"

section \<open>REALITY targets\<close>

definition all_digits :: "string \<Rightarrow> bool" where
  "all_digits s \<longleftrightarrow> s \<noteq> [] \<and> list_all is_digit s"

definition validateRealityTarget :: "string \<Rightarrow> string option" where
  "validateRealityTarget target =
     (let trimmed = trim target in
      if trimmed = [] then Some ''pages.inbounds.form.realityTargetRequired''
      else if starts_with trimmed ''/'' \<or> starts_with trimmed ''@'' then None
      else if all_digits trimmed then
        (let port = js_number trimmed in
         if num_le (Fin 1) port \<and> num_le port (Fin 65535) then None
         else Some ''pages.inbounds.form.realityTargetInvalidPort'')
      else
        (let lastColon = last_index CHR '':'' trimmed in
         if lastColon \<le> 0 \<or> lastColon = int (length trimmed) - 1
         then Some ''pages.inbounds.form.realityTargetNeedsPort''
         else
           (let portPart = drop (nat (lastColon + 1)) trimmed in
            if \<not> all_digits portPart then Some ''pages.inbounds.form.realityTargetInvalidPort''
            else
              (let port = js_number portPart in
               if num_less port (Fin 1) \<or> num_less (Fin 65535) port
               then Some ''pages.inbounds.form.realityTargetInvalidPort''
               else None))))"

section \<open>Conditional deletes\<close>

definition drop_when :: "(js \<Rightarrow> bool) \<Rightarrow> string \<Rightarrow> jobj \<Rightarrow> jobj" where
  "drop_when P k o1 = (if P (oget o1 k) then odel k o1 else o1)"

definition empty_value :: "js \<Rightarrow> bool" where
  "empty_value v = (v = JStr [] \<or> nullish v)"

definition dropEmptyStrings :: "jobj \<Rightarrow> string list \<Rightarrow> jobj" where
  "dropEmptyStrings o1 keys = fold (drop_when empty_value) keys o1"

definition dropFalseFlags :: "jobj \<Rightarrow> string list \<Rightarrow> jobj" where
  "dropFalseFlags o1 keys = fold (drop_when (\<lambda>v. v = JBool False)) keys o1"

definition dropZeroNumbers :: "jobj \<Rightarrow> string list \<Rightarrow> jobj" where
  "dropZeroNumbers o1 keys = fold (drop_when (\<lambda>v. v = JInt 0)) keys o1"

section \<open>TLS, XHTTP, sockopt, and the whole block\<close>

definition normalizeTlsForWire :: "jobj \<Rightarrow> jobj" where
  "normalizeTlsForWire raw =
     (let out = drop_when (\<lambda>v. v = JStr []) ''fingerprint'' raw in
      case oget out ''settings'' of
        JObj st \<Rightarrow> oput ''settings'' (JObj (drop_when (\<lambda>v. v = JStr []) ''fingerprint'' st)) out
      | _ \<Rightarrow> out)"

definition xhttp_mode :: "jobj \<Rightarrow> string" where
  "xhttp_mode o1 = (case oget o1 ''mode'' of JStr m \<Rightarrow> if m \<noteq> [] then m else ''auto'' | _ \<Rightarrow> ''auto'')"

definition xhttp_side :: "wire_side \<Rightarrow> bool \<Rightarrow> jobj \<Rightarrow> jobj" where
  "xhttp_side side enableXmux o1 =
     (if side = Inbound_Side then
        (let o1 = (if \<not> enableXmux then odel ''xmux'' o1 else o1);
             o1 = drop_when (\<lambda>v. v = JStr [] \<or> v = JStr ''30'') ''scMinPostsIntervalMs'' o1
         in odel ''uplinkChunkSize'' o1)
      else o1)"

definition xhttp_xmux :: "jobj \<Rightarrow> jobj" where
  "xhttp_xmux o1 =
     (case oget o1 ''xmux'' of
        JObj x \<Rightarrow> oput ''xmux'' (JObj (resolveXmuxExclusivity x)) o1
      | _ \<Rightarrow> o1)"

definition xhttp_fields :: "jobj \<Rightarrow> jobj" where
  "xhttp_fields o1 =
     (let o1 = dropEmptyStrings o1 PLACEMENT_STRING_FIELDS;
          o1 = dropEmptyStrings o1 [''scMaxEachPostBytes'', ''scMinPostsIntervalMs'', ''scStreamUpServerSecs''];
          o1 = drop_when (\<lambda>v. \<not> hasMeaningfulHeaders v) ''headers'' o1;
          o1 = (if oget o1 ''xPaddingObfsMode'' \<noteq> JBool True then
                  dropEmptyStrings (odel ''xPaddingObfsMode'' o1)
                    [''xPaddingKey'', ''xPaddingHeader'', ''xPaddingPlacement'', ''xPaddingMethod'']
                else o1);
          o1 = drop_when (\<lambda>v. v \<noteq> JBool True) ''noGRPCHeader'' o1;
          o1 = drop_when (\<lambda>v. v \<noteq> JBool True) ''noSSEHeader'' o1;
          o1 = drop_when (\<lambda>v. v = JInt 0) ''serverMaxHeaderBytes'' o1
      in drop_when (\<lambda>v. v = JInt 0) ''uplinkChunkSize'' o1)"

definition xhttp_mode_fields :: "string \<Rightarrow> wire_side \<Rightarrow> jobj \<Rightarrow> jobj" where
  "xhttp_mode_fields mode side o1 =
     (if mode = ''stream-one'' then odels STREAM_UP_SERVER_FIELDS (odels PACKET_UP_FIELDS o1)
      else if mode = ''stream-up'' then
        (let o1 = odels PACKET_UP_FIELDS o1 in
         if side = Outbound_Side then odel ''scStreamUpServerSecs'' o1 else o1)
      else if mode = ''packet-up'' then odel ''scStreamUpServerSecs'' o1
      else o1)"

definition normalizeXhttpForWire :: "jobj \<Rightarrow> wire_side \<Rightarrow> jobj" where
  "normalizeXhttpForWire raw side =
     (let mode = xhttp_mode raw;
          enableXmux = (oget raw ''enableXmux'' = JBool True);
          out = odel ''enableXmux'' raw
      in xhttp_mode_fields mode side (xhttp_fields (xhttp_xmux (xhttp_side side enableXmux out))))"

definition normalizeHappyEyeballs :: "jobj \<Rightarrow> jobj" where
  "normalizeHappyEyeballs he =
     drop_when (\<lambda>v. v = JInt 4) ''maxConcurrentTry''
       (drop_when (\<lambda>v. v = JInt 1) ''interleave''
         (drop_when (\<lambda>v. v = JBool False) ''prioritizeIPv6''
           (drop_when (\<lambda>v. v = JInt 0) ''tryDelayMs'' he)))"

definition sockopt_happy :: "jobj \<Rightarrow> jobj" where
  "sockopt_happy o1 =
     (case oget o1 ''happyEyeballs'' of
        JObj he \<Rightarrow>
          (let heOut = normalizeHappyEyeballs he in
           if okeys heOut = [] then odel ''happyEyeballs'' o1
           else oput ''happyEyeballs'' (JObj heOut) o1)
      | _ \<Rightarrow> o1)"

definition sockopt_fields :: "jobj \<Rightarrow> jobj" where
  "sockopt_fields o1 =
     (let o1 = dropZeroNumbers o1 [''tcpWindowClamp'', ''tcpMaxSeg'', ''tcpUserTimeout'',
                 ''tcpKeepAliveIdle'', ''tcpKeepAliveInterval'', ''mark''];
          o1 = dropFalseFlags o1 [''acceptProxyProtocol'', ''tcpFastOpen'', ''tcpMptcp'', ''penetrate'',
                 ''V6Only''];
          o1 = drop_when (\<lambda>v. v = JStr ''off'') ''tproxy'' o1;
          o1 = drop_when (\<lambda>v. v = JStr ''AsIs'') ''domainStrategy'' o1;
          o1 = drop_when (\<lambda>v. v = JStr ''none'') ''addressPortStrategy'' o1;
          o1 = drop_when (\<lambda>v. \<not> nonEmptyString v) ''dialerProxy'' o1;
          o1 = drop_when (\<lambda>v. \<not> nonEmptyString v) ''interface'' o1;
          o1 = drop_when (\<lambda>v. v = JArr []) ''trustedXForwardedFor'' o1
      in drop_when (\<lambda>v. v = JArr []) ''customSockopt'' o1)"

definition normalizeSockoptForWire :: "jobj \<Rightarrow> jobj option" where
  "normalizeSockoptForWire raw =
     (let out = drop_when (\<lambda>v. \<not> nonEmptyString v) ''tcpcongestion'' (sockopt_happy (sockopt_fields raw)) in
      if okeys out = [] then None else Some out)"

definition put_obj :: "string \<Rightarrow> (jobj \<Rightarrow> jobj option) \<Rightarrow> jobj \<Rightarrow> jobj" where
  "put_obj k f o1 =
     (case oget o1 k of
        JObj x \<Rightarrow> (case f x of Some y \<Rightarrow> oput k (JObj y) o1 | None \<Rightarrow> odel k o1)
      | _ \<Rightarrow> o1)"

definition normalizeStreamSettingsForWire :: "jobj \<Rightarrow> wire_side \<Rightarrow> jobj" where
  "normalizeStreamSettingsForWire stream side =
     put_obj ''sockopt'' normalizeSockoptForWire
       (put_obj ''tlsSettings'' (\<lambda>t. Some (normalizeTlsForWire t))
         (put_obj ''xhttpSettings'' (\<lambda>x. Some (normalizeXhttpForWire x side)) stream))"

section \<open>Deletes as filters\<close>

text \<open>Objects whose keys are distinct, at every depth.\<close>

fun objs_ok :: "js \<Rightarrow> bool" where
  "objs_ok (JObj o1) = (distinct (okeys o1) \<and> list_all (\<lambda>p. objs_ok (snd p)) o1)"
| "objs_ok (JArr xs) = list_all objs_ok xs"
| "objs_ok _ = True"

lemma distinct_filter_keys [simp]: "distinct (okeys o1) \<Longrightarrow> distinct (okeys (filter P o1))"
  by (simp add: okeys_def distinct_map_filter)

lemma oget_mem: "distinct (okeys o1) \<Longrightarrow> (k, v) \<in> set o1 \<Longrightarrow> oget o1 k = v"
  by (simp add: oget_def okeys_def map_of_is_SomeI)

lemma oget_cases: "oget o1 k = JUndef \<or> (k, oget o1 k) \<in> set o1"
  by (auto simp: oget_def split: option.splits dest: map_of_SomeD)

lemma drop_when_filter:
  "distinct (okeys o1) \<Longrightarrow>
   drop_when P k o1 = filter (\<lambda>p. \<not> (fst p = k \<and> P (snd p))) o1"
  using oget_mem by (force simp: drop_when_def odel_def intro!: filter_cong filter_True[symmetric])

lemma drop_run_filter:
  "distinct (okeys o1) \<Longrightarrow>
   fold (drop_when P) ks o1 = filter (\<lambda>p. \<not> (fst p \<in> set ks \<and> P (snd p))) o1"
  by (induction ks arbitrary: o1)
     (auto simp: drop_when_filter intro!: filter_cong)

lemma dropEmptyStrings_filter:
  "distinct (okeys o1) \<Longrightarrow>
   dropEmptyStrings o1 ks = filter (\<lambda>p. \<not> (fst p \<in> set ks \<and> empty_value (snd p))) o1"
  by (simp add: dropEmptyStrings_def drop_run_filter)

lemma oput_replace:
  assumes "\<not> is_index k" and "distinct (okeys o1)" and "ohas o1 k"
  shows "oput k v o1 = map (\<lambda>p. if fst p = k then (k, v) else p) o1"
  using assms(2,3)
proof (induction o1)
  case (Cons p o1)
  show ?case
  proof (cases "fst p = k")
    case True
    then have "k \<notin> fst ` set o1" using Cons.prems by (auto simp: okeys_def)
    then have "map (\<lambda>p. if fst p = k then (k, v) else p) o1 = o1"
      by (intro map_idI) auto
    with True show ?thesis by simp
  next
    case False
    with Cons assms(1) show ?thesis by (auto simp: okeys_def ohas_def key_before_def)
  qed
qed (simp add: ohas_def)

definition upd_obj :: "(jobj \<Rightarrow> jobj option) \<Rightarrow> js \<Rightarrow> js" where
  "upd_obj f v = (case v of JObj x \<Rightarrow> (case f x of Some y \<Rightarrow> JObj y | None \<Rightarrow> v) | _ \<Rightarrow> v)"

definition gone_obj :: "(jobj \<Rightarrow> jobj option) \<Rightarrow> js \<Rightarrow> bool" where
  "gone_obj f v = (case v of JObj x \<Rightarrow> f x = None | _ \<Rightarrow> False)"

definition map_key :: "string \<Rightarrow> (js \<Rightarrow> js) \<Rightarrow> jobj \<Rightarrow> jobj" where
  "map_key k g o1 = map (\<lambda>p. if fst p = k then (k, g (snd p)) else p) o1"

lemma okeys_map_key [simp]: "okeys (map_key k g o1) = okeys o1"
  by (simp add: okeys_def map_key_def)

lemma oget_map_key [simp]:
  "oget (map_key k g o1) k' = (if k' = k \<and> ohas o1 k then g (oget o1 k) else oget o1 k')"
  by (induction o1) (auto simp: map_key_def ohas_map_of)

lemma map_key_cong:
  "(\<And>v. (k, v) \<in> set o1 \<Longrightarrow> g v = h v) \<Longrightarrow> map_key k g o1 = map_key k h o1"
  by (auto simp: map_key_def)

lemma map_key_id: "(\<And>v. (k, v) \<in> set o1 \<Longrightarrow> g v = v) \<Longrightarrow> map_key k g o1 = o1"
  by (force simp: map_key_def intro: map_idI)

lemma map_key_comp: "map_key k g (map_key k h o1) = map_key k (\<lambda>v. g (h v)) o1"
  by (simp add: map_key_def)

lemma filter_map_key:
  "(\<And>v. (k, v) \<in> set o1 \<Longrightarrow> P (k, g v) = P (k, v)) \<Longrightarrow>
   filter P (map_key k g o1) = map_key k g (filter P o1)"
  by (induction o1) (auto simp: map_key_def)

lemma put_obj_map_key:
  assumes "\<not> is_index k" and d: "distinct (okeys o1)"
  shows "put_obj k f o1
           = map_key k (upd_obj f) (filter (\<lambda>p. \<not> (fst p = k \<and> gone_obj f (snd p))) o1)"
proof (cases "\<exists>x. (k, JObj x) \<in> set o1")
  case True
  then obtain x where x: "(k, JObj x) \<in> set o1" by blast
  have u: "snd p = JObj x" if "p \<in> set o1" "fst p = k" for p
    using oget_mem[OF d, of k "snd p"] oget_mem[OF d x] that by (cases p) auto
  have h: "ohas o1 k" using x by (force simp: ohas_def)
  show ?thesis
  proof (cases "f x")
    case None
    have "filter (\<lambda>p. \<not> (fst p = k \<and> gone_obj f (snd p))) o1 = odel k o1"
    proof -
      have "gone_obj f (snd p)" if "p \<in> set o1" "fst p = k" for p
        using u[OF that] None by (simp add: gone_obj_def)
      then show ?thesis by (auto simp: odel_def intro!: filter_cong)
    qed
    moreover have "map_key k (upd_obj f) (odel k o1) = odel k o1"
      by (rule map_key_id) (simp add: odel_def)
    ultimately show ?thesis
      using oget_mem[OF d x] None by (simp add: put_obj_def)
  next
    case (Some y)
    have "filter (\<lambda>p. \<not> (fst p = k \<and> gone_obj f (snd p))) o1 = o1"
      using u Some by (auto simp: gone_obj_def filter_id_conv)
    then show ?thesis
      using oget_mem[OF d x] Some u oput_replace[OF assms h]
      by (auto simp: put_obj_def map_key_def upd_obj_def)
  qed
next
  case False
  then have nx: "\<And>p x. p \<in> set o1 \<Longrightarrow> fst p = k \<Longrightarrow> snd p \<noteq> JObj x" by force
  then have nk: "\<And>x. (k, JObj x) \<notin> set o1" by force
  then have "filter (\<lambda>p. \<not> (fst p = k \<and> gone_obj f (snd p))) o1 = o1"
    by (auto simp: gone_obj_def filter_id_conv split: js.splits)
  moreover have "map_key k (upd_obj f) o1 = o1"
    using nk by (intro map_key_id) (auto simp: upd_obj_def split: js.splits)
  moreover have "oget o1 k \<noteq> JObj x" for x
    using oget_cases[of o1 k] nx by force
  ultimately show ?thesis
    by (auto simp: put_obj_def split: js.splits)
qed


section \<open>XHTTP: a table of what is dropped\<close>

lemma xhttp_keys_not_index:
  "\<not> is_index ''xmux''" "\<not> is_index ''settings''" "\<not> is_index ''happyEyeballs''"
  "\<not> is_index ''xhttpSettings''" "\<not> is_index ''tlsSettings''" "\<not> is_index ''sockopt''"
  by (simp_all add: is_digit_def)

definition resolve_js :: "js \<Rightarrow> js" where
  "resolve_js = upd_obj (\<lambda>x. Some (resolveXmuxExclusivity x))"

lemma odel_filter: "odel k o1 = filter (\<lambda>p. \<not> fst p = k) o1"
  by (simp add: odel_def)

lemma xhttp_side_filter:
  assumes "distinct (okeys o1)"
  shows "xhttp_side side e o1 = filter (\<lambda>p. \<not> (side = Inbound_Side \<and> (fst p = ''xmux'' \<and> \<not> e
      \<or> fst p = ''scMinPostsIntervalMs'' \<and> (snd p = JStr [] \<or> snd p = JStr ''30'')
      \<or> fst p = ''uplinkChunkSize''))) o1"
  using assms
  by (cases side; cases e)
     (auto simp: xhttp_side_def odel_filter drop_when_filter Let_def intro!: filter_cong)

lemma xhttp_xmux_map:
  assumes "distinct (okeys o1)"
  shows "xhttp_xmux o1 = map_key ''xmux'' resolve_js o1"
proof -
  have "xhttp_xmux o1 = put_obj ''xmux'' (\<lambda>x. Some (resolveXmuxExclusivity x)) o1"
    by (simp add: xhttp_xmux_def put_obj_def split: js.splits)
  also have "\<dots> = map_key ''xmux'' resolve_js (filter (\<lambda>p. True) o1)"
    by (subst put_obj_map_key[OF xhttp_keys_not_index(1) assms])
       (simp add: resolve_js_def gone_obj_def split: js.splits)
  finally show ?thesis by simp
qed

text \<open>The part of the table that depends on neither the side nor the mode.\<close>

definition field_dropped :: "string \<Rightarrow> js \<Rightarrow> bool" where
  "field_dropped k v \<longleftrightarrow>
     k \<in> set PLACEMENT_STRING_FIELDS \<and> empty_value v
     \<or> k \<in> set [''scMaxEachPostBytes'', ''scMinPostsIntervalMs'', ''scStreamUpServerSecs''] \<and> empty_value v
     \<or> k = ''headers'' \<and> \<not> hasMeaningfulHeaders v
     \<or> k = ''xPaddingObfsMode'' \<and> v \<noteq> JBool True
     \<or> k = ''noGRPCHeader'' \<and> v \<noteq> JBool True
     \<or> k = ''noSSEHeader'' \<and> v \<noteq> JBool True
     \<or> k = ''serverMaxHeaderBytes'' \<and> v = JInt 0
     \<or> k = ''uplinkChunkSize'' \<and> v = JInt 0"

definition xhttp_dropped :: "wire_side \<Rightarrow> string \<Rightarrow> bool \<Rightarrow> string \<Rightarrow> js \<Rightarrow> bool" where
  "xhttp_dropped side mode enableXmux k v \<longleftrightarrow>
     k = ''enableXmux''
     \<or> side = Inbound_Side \<and> (k = ''xmux'' \<and> \<not> enableXmux
           \<or> k = ''scMinPostsIntervalMs'' \<and> (v = JStr [] \<or> v = JStr ''30'') \<or> k = ''uplinkChunkSize'')
     \<or> field_dropped k v
     \<or> k \<in> set PACKET_UP_FIELDS \<and> mode \<in> {''stream-one'', ''stream-up''}
     \<or> k = ''scStreamUpServerSecs'' \<and>
           (mode \<in> {''stream-one'', ''packet-up''} \<or> mode = ''stream-up'' \<and> side = Outbound_Side)"

lemma filter_step: "filter (\<lambda>p. \<not> A p) (filter (\<lambda>p. \<not> B p) xs) = filter (\<lambda>p. \<not> (B p \<or> A p)) xs"
  by (simp add: conj_commute)

lemma padding_keys: 
  "k \<in> {''xPaddingKey'', ''xPaddingHeader'', ''xPaddingPlacement'', ''xPaddingMethod''} \<Longrightarrow>
   k \<in> set PLACEMENT_STRING_FIELDS"
  by (auto simp: PLACEMENT_STRING_FIELDS_def)

lemma padding_branch:
  assumes "distinct (okeys o1)"
  shows "(if oget o1 ''xPaddingObfsMode'' \<noteq> JBool True then
            dropEmptyStrings (odel ''xPaddingObfsMode'' o1)
              [''xPaddingKey'', ''xPaddingHeader'', ''xPaddingPlacement'', ''xPaddingMethod'']
          else o1)
       = filter (\<lambda>p. \<not> (fst p = ''xPaddingObfsMode'' \<and> snd p \<noteq> JBool True
            \<or> fst p \<in> {''xPaddingKey'', ''xPaddingHeader'', ''xPaddingPlacement'', ''xPaddingMethod''}
                \<and> oget o1 ''xPaddingObfsMode'' \<noteq> JBool True \<and> empty_value (snd p))) o1"
proof (cases "oget o1 ''xPaddingObfsMode'' = JBool True")
  case True
  have "filter (\<lambda>p. fst p = ''xPaddingObfsMode'' \<longrightarrow> snd p = JBool True) o1 = o1"
    using oget_mem[OF assms, of "''xPaddingObfsMode''"] True by (auto simp: filter_id_conv)
  with True show ?thesis by simp
next
  case False
  then show ?thesis
    using oget_mem[OF assms, of "''xPaddingObfsMode''"] assms
    by (auto simp: odel_filter dropEmptyStrings_filter intro!: filter_cong)
qed

lemma xhttp_fields_filter:
  assumes "distinct (okeys o1)"
  shows "xhttp_fields o1 = filter (\<lambda>p. \<not> field_dropped (fst p) (snd p)) o1"
proof -
  note steps = dropEmptyStrings_filter drop_when_filter padding_branch distinct_filter_keys filter_step
  show ?thesis
    using assms unfolding xhttp_fields_def Let_def
    apply (simp only: steps)
    apply (rule filter_cong[OF refl])
    apply (unfold field_dropped_def)
    using padding_keys by blast
qed

lemma xhttp_mode_filter:
  "xhttp_mode_fields mode side o1 = filter (\<lambda>p. \<not>
     (fst p \<in> set PACKET_UP_FIELDS \<and> mode \<in> {''stream-one'', ''stream-up''}
      \<or> fst p = ''scStreamUpServerSecs'' \<and>
          (mode \<in> {''stream-one'', ''packet-up''} \<or> mode = ''stream-up'' \<and> side = Outbound_Side))) o1"
  by (cases side; cases "mode = ''stream-one''"; cases "mode = ''stream-up''"; cases "mode = ''packet-up''")
     (simp_all add: xhttp_mode_fields_def odels_eq_filter odel_filter Let_def conj_commute
       STREAM_UP_SERVER_FIELDS_def)

lemma xmux_not_field: "\<not> field_dropped ''xmux'' v"
  by (simp add: field_dropped_def PLACEMENT_STRING_FIELDS_def)

lemma xmux_not_mode: "''xmux'' \<notin> set PACKET_UP_FIELDS" "''xmux'' \<noteq> ''scStreamUpServerSecs''"
  by (simp_all add: PACKET_UP_FIELDS_def)

lemma normalizeXhttp_table:
  assumes "distinct (okeys raw)"
  shows "normalizeXhttpForWire raw side
    = map_key ''xmux'' resolve_js
        (filter (\<lambda>p. \<not> xhttp_dropped side (xhttp_mode raw) (oget raw ''enableXmux'' = JBool True) (fst p) (snd p)) raw)"
proof -
  define e where "e = (oget raw ''enableXmux'' = JBool True)"
  define o1 where "o1 = xhttp_side side e (odel ''enableXmux'' raw)"
  have d1: "distinct (okeys (odel ''enableXmux'' raw))" using assms by (simp add: odel_filter)
  have o1: "o1 = filter (\<lambda>p. \<not> (fst p = ''enableXmux'' \<or> side = Inbound_Side \<and> (fst p = ''xmux'' \<and> \<not> e
      \<or> fst p = ''scMinPostsIntervalMs'' \<and> (snd p = JStr [] \<or> snd p = JStr ''30'')
      \<or> fst p = ''uplinkChunkSize''))) raw"
    unfolding o1_def xhttp_side_filter[OF d1] unfolding odel_filter filter_step ..
  then have d2: "distinct (okeys o1)" using assms by simp
  have "normalizeXhttpForWire raw side
      = xhttp_mode_fields (xhttp_mode raw) side (xhttp_fields (map_key ''xmux'' resolve_js o1))"
    by (simp add: normalizeXhttpForWire_def Let_def e_def[symmetric] o1_def[symmetric] xhttp_xmux_map d2)
  also have "xhttp_fields (map_key ''xmux'' resolve_js o1)
      = map_key ''xmux'' resolve_js (filter (\<lambda>p. \<not> field_dropped (fst p) (snd p)) o1)"
    using d2 by (simp add: xhttp_fields_filter filter_map_key xmux_not_field)
  also have "xhttp_mode_fields (xhttp_mode raw) side \<dots> = map_key ''xmux'' resolve_js
      (xhttp_mode_fields (xhttp_mode raw) side (filter (\<lambda>p. \<not> field_dropped (fst p) (snd p)) o1))"
    unfolding xhttp_mode_filter by (rule filter_map_key) (simp add: xmux_not_mode)
  also have "xhttp_mode_fields (xhttp_mode raw) side (filter (\<lambda>p. \<not> field_dropped (fst p) (snd p)) o1)
      = filter (\<lambda>p. \<not> xhttp_dropped side (xhttp_mode raw) e (fst p) (snd p)) raw"
    unfolding xhttp_mode_filter o1 filter_step
    by (rule filter_cong[OF refl]) (unfold xhttp_dropped_def, blast)
  finally show ?thesis by (simp add: e_def)
qed

section \<open>A locale of normalisers\<close>

text \<open>
  A normaliser brings a value into a normal form and leaves normal values alone; \<open>ok\<close> is the
  well-formedness the code takes for granted.
\<close>

locale normaliser =
  fixes norm :: "'a \<Rightarrow> 'b option" and into :: "'b \<Rightarrow> 'a" and ok :: "'a \<Rightarrow> bool" and normal :: "'b \<Rightarrow> bool"
  assumes norm_normal: "ok x \<Longrightarrow> norm x = Some y \<Longrightarrow> normal y"
    and norm_fixed: "normal y \<Longrightarrow> norm (into y) = Some y"
begin

lemma norm_idem: "ok x \<Longrightarrow> norm x = Some y \<Longrightarrow> norm (into y) = Some y"
  using norm_normal norm_fixed by blast

lemma norm_twice: "ok x \<Longrightarrow> Option.bind (norm x) (\<lambda>y. norm (into y)) = norm x"
  by (cases "norm x") (auto simp: norm_idem)

end

lemma oget_filter:
  "distinct (okeys o1) \<Longrightarrow>
   oget (filter P o1) k = (if ohas o1 k \<and> P (k, oget o1 k) then oget o1 k else JUndef)"
proof (induction o1)
  case (Cons p o1)
  obtain a b where p: "p = (a, b)" by (cases p)
  have nd: "distinct (okeys o1)" and na: "\<not> ohas o1 a"
    using Cons.prems p by (auto simp: okeys_def ohas_def)
  show ?case
    using Cons.IH[OF nd] na p oget_not_ohas[OF na]
    by (cases "k = a") (simp_all add: ohas_def)
qed (simp add: ohas_def)

lemma resolveXmux_idem [simp]: "resolveXmuxExclusivity (resolveXmuxExclusivity x) = resolveXmuxExclusivity x"
proof -
  have "int32RangeUpper JUndef = Fin 0" by (simp add: int32RangeUpper_def)
  then show ?thesis by (simp add: resolveXmuxExclusivity_def num_gt0_def)
qed

lemma resolve_js_idem [simp]: "resolve_js (resolve_js v) = resolve_js v"
  by (simp add: resolve_js_def upd_obj_def split: js.splits)

text \<open>
  What the normal form of an XHTTP block is: nothing in it would be dropped again, and its XMUX
  object keeps one strategy only.
\<close>

definition xhttp_normal :: "wire_side \<Rightarrow> jobj \<Rightarrow> bool" where
  "xhttp_normal side o1 \<longleftrightarrow> distinct (okeys o1) \<and>
     list_all (\<lambda>p. \<not> xhttp_dropped side (xhttp_mode o1) (oget o1 ''enableXmux'' = JBool True) (fst p) (snd p)) o1
     \<and> resolve_js (oget o1 ''xmux'') = oget o1 ''xmux''"

lemma xhttp_normal_fixed:
  assumes "xhttp_normal side o1"
  shows "normalizeXhttpForWire o1 side = o1"
proof -
  have d: "distinct (okeys o1)" and r: "resolve_js (oget o1 ''xmux'') = oget o1 ''xmux''"
    using assms by (auto simp: xhttp_normal_def)
  have "map_key ''xmux'' resolve_js o1 = o1"
    using r oget_mem[OF d] by (intro map_key_id) auto
  moreover have "filter (\<lambda>p. \<not> xhttp_dropped side (xhttp_mode o1) (oget o1 ''enableXmux'' = JBool True) (fst p) (snd p)) o1 = o1"
    using assms by (auto simp: xhttp_normal_def list_all_iff filter_id_conv)
  ultimately show ?thesis by (simp add: normalizeXhttp_table[OF d])
qed

definition xhttp_ok :: "wire_side \<Rightarrow> jobj \<Rightarrow> bool" where
  "xhttp_ok side raw \<longleftrightarrow> distinct (okeys raw) \<and>
     (side = Outbound_Side \<or> oget raw ''enableXmux'' \<noteq> JBool True \<or> \<not> ohas raw ''xmux'')"

lemma mode_not_dropped: "\<not> xhttp_dropped side m e ''mode'' v" 
  by (simp add: xhttp_dropped_def field_dropped_def PLACEMENT_STRING_FIELDS_def PACKET_UP_FIELDS_def)

lemma enable_dropped: "xhttp_dropped side m e ''enableXmux'' v"
  by (simp add: xhttp_dropped_def)

lemma dropped_enable_irrelevant:
  "side = Outbound_Side \<or> \<not> e \<or> k \<noteq> ''xmux'' \<Longrightarrow>
   xhttp_dropped side m False k v \<longleftrightarrow> xhttp_dropped side m e k v"
  by (auto simp: xhttp_dropped_def)

lemma dropped_xmux_value: "xhttp_dropped side m e ''xmux'' v = xhttp_dropped side m e ''xmux'' w"
  by (simp add: xhttp_dropped_def field_dropped_def PLACEMENT_STRING_FIELDS_def)

lemma list_all_map_key:
  assumes "\<And>v. P (k, g v) = P (k, v)"
  shows "list_all P (map_key k g o1) = list_all P o1"
proof -
  have "P (if fst p = k then (k, g (snd p)) else p) = P p" for p
    using assms[of "snd p"] by (cases p) simp
  then show ?thesis by (simp only: map_key_def list.pred_map comp_def)
qed

lemma normalizeXhttp_normal:
  assumes "xhttp_ok side raw"
  shows "xhttp_normal side (normalizeXhttpForWire raw side)"
proof -
  define e where "e = (oget raw ''enableXmux'' = JBool True)"
  define f where "f = filter (\<lambda>p. \<not> xhttp_dropped side (xhttp_mode raw) e (fst p) (snd p)) raw"
  have d: "distinct (okeys raw)" using assms by (simp add: xhttp_ok_def)
  have out: "normalizeXhttpForWire raw side = map_key ''xmux'' resolve_js f"
    by (simp add: normalizeXhttp_table[OF d] f_def e_def)
  have df: "distinct (okeys f)" using d by (simp add: f_def)
  have "oget f ''mode'' = oget raw ''mode''"
    using d by (simp add: f_def oget_filter mode_not_dropped oget_not_ohas)
  then have m: "xhttp_mode (map_key ''xmux'' resolve_js f) = xhttp_mode raw"
    by (simp add: xhttp_mode_def)
  have en: "oget (map_key ''xmux'' resolve_js f) ''enableXmux'' = JUndef"
    using d by (simp add: f_def oget_filter enable_dropped)
  have "list_all (\<lambda>p. \<not> xhttp_dropped side (xhttp_mode raw) False (fst p) (snd p)) f"
    unfolding list_all_iff
  proof
    fix p assume p: "p \<in> set f"
    then have nd: "\<not> xhttp_dropped side (xhttp_mode raw) e (fst p) (snd p)" by (simp add: f_def)
    have "side = Outbound_Side \<or> \<not> e \<or> fst p \<noteq> ''xmux''"
    proof -
      have "ohas raw (fst p)" using p by (auto simp: f_def ohas_def)
      then show ?thesis using assms by (auto simp: xhttp_ok_def e_def)
    qed
    with nd show "\<not> xhttp_dropped side (xhttp_mode raw) False (fst p) (snd p)"
      using dropped_enable_irrelevant by blast
  qed
  then have l: "list_all (\<lambda>p. \<not> xhttp_dropped side (xhttp_mode raw) False (fst p) (snd p))
      (map_key ''xmux'' resolve_js f)"
  proof (subst list_all_map_key)
    show "(\<not> xhttp_dropped side (xhttp_mode raw) False (fst (''xmux'', resolve_js v)) (snd (''xmux'', resolve_js v)))
        = (\<not> xhttp_dropped side (xhttp_mode raw) False (fst (''xmux'', v)) (snd (''xmux'', v)))" for v
      unfolding fst_conv snd_conv using dropped_xmux_value by blast
  qed
  have "resolve_js JUndef = JUndef" by (simp add: resolve_js_def upd_obj_def)
  then have "resolve_js (oget (map_key ''xmux'' resolve_js f) ''xmux'')
      = oget (map_key ''xmux'' resolve_js f) ''xmux''"
    by (simp add: oget_not_ohas)
  then show ?thesis
    unfolding out xhttp_normal_def using df m en l by simp
qed

interpretation xhttp: normaliser "\<lambda>raw. Some (normalizeXhttpForWire raw side)" "\<lambda>y. y" "xhttp_ok side"
  "xhttp_normal side" for side
  by unfold_locales (auto simp: normalizeXhttp_normal xhttp_normal_fixed)

section \<open>Sockopt\<close>

definition sockopt_dropped :: "string \<Rightarrow> js \<Rightarrow> bool" where
  "sockopt_dropped k v \<longleftrightarrow>
     k \<in> set [''tcpWindowClamp'', ''tcpMaxSeg'', ''tcpUserTimeout'', ''tcpKeepAliveIdle'',
              ''tcpKeepAliveInterval'', ''mark''] \<and> v = JInt 0
     \<or> k \<in> set [''acceptProxyProtocol'', ''tcpFastOpen'', ''tcpMptcp'', ''penetrate'', ''V6Only''] \<and> v = JBool False
     \<or> k = ''tproxy'' \<and> v = JStr ''off''
     \<or> k = ''domainStrategy'' \<and> v = JStr ''AsIs''
     \<or> k = ''addressPortStrategy'' \<and> v = JStr ''none''
     \<or> k = ''dialerProxy'' \<and> \<not> nonEmptyString v
     \<or> k = ''interface'' \<and> \<not> nonEmptyString v
     \<or> k = ''trustedXForwardedFor'' \<and> v = JArr []
     \<or> k = ''customSockopt'' \<and> v = JArr []"

definition happy_dropped :: "string \<Rightarrow> js \<Rightarrow> bool" where
  "happy_dropped k v \<longleftrightarrow>
     k = ''tryDelayMs'' \<and> v = JInt 0 \<or> k = ''prioritizeIPv6'' \<and> v = JBool False
     \<or> k = ''interleave'' \<and> v = JInt 1 \<or> k = ''maxConcurrentTry'' \<and> v = JInt 4"

lemma normalizeHappy_filter:
  "distinct (okeys he) \<Longrightarrow>
   normalizeHappyEyeballs he = filter (\<lambda>p. \<not> happy_dropped (fst p) (snd p)) he"
  unfolding normalizeHappyEyeballs_def
  by (simp only: drop_when_filter distinct_filter_keys filter_step)
     (rule filter_cong[OF refl], unfold happy_dropped_def, blast)

lemma normalizeHappy_idem:
  "distinct (okeys he) \<Longrightarrow> normalizeHappyEyeballs (normalizeHappyEyeballs he) = normalizeHappyEyeballs he"
  by (simp add: normalizeHappy_filter)

lemma sockopt_fields_filter:
  "distinct (okeys o1) \<Longrightarrow>
   sockopt_fields o1 = filter (\<lambda>p. \<not> sockopt_dropped (fst p) (snd p)) o1"
  unfolding sockopt_fields_def dropZeroNumbers_def dropFalseFlags_def Let_def
  by (simp only: drop_when_filter drop_run_filter distinct_filter_keys filter_step)
     (rule filter_cong[OF refl], unfold sockopt_dropped_def, blast)

definition happy_step :: "jobj \<Rightarrow> jobj option" where
  "happy_step he = (let h = normalizeHappyEyeballs he in if okeys h = [] then None else Some h)"

lemma sockopt_happy_put: "sockopt_happy o1 = put_obj ''happyEyeballs'' happy_step o1"
  by (auto simp: sockopt_happy_def put_obj_def happy_step_def Let_def split: js.splits)

lemma happy_step_idem:
  "distinct (okeys he) \<Longrightarrow> happy_step he = Some h \<Longrightarrow> happy_step h = Some h"
  by (auto simp: happy_step_def Let_def normalizeHappy_idem split: if_splits)

definition sockopt_gone :: "string \<Rightarrow> js \<Rightarrow> bool" where
  "sockopt_gone k v \<longleftrightarrow> sockopt_dropped k v
     \<or> k = ''happyEyeballs'' \<and> gone_obj happy_step v
     \<or> k = ''tcpcongestion'' \<and> \<not> nonEmptyString v"

lemma happy_not_dropped: "\<not> sockopt_dropped ''happyEyeballs'' v"
  by (simp add: sockopt_dropped_def)

lemma sockopt_table:
  assumes "distinct (okeys raw)"
  shows "drop_when (\<lambda>v. \<not> nonEmptyString v) ''tcpcongestion'' (sockopt_happy (sockopt_fields raw))
    = map_key ''happyEyeballs'' (upd_obj happy_step)
        (filter (\<lambda>p. \<not> sockopt_gone (fst p) (snd p)) raw)"
proof -
  let ?m = "map_key ''happyEyeballs'' (upd_obj happy_step)"
  have d: "distinct (okeys (sockopt_fields raw))"
    using assms by (simp add: sockopt_fields_filter)
  define g where "g = ?m (filter (\<lambda>p. \<not> (fst p = ''happyEyeballs'' \<and> gone_obj happy_step (snd p))) (sockopt_fields raw))"
  have "sockopt_happy (sockopt_fields raw) = g"
    unfolding sockopt_happy_put g_def by (rule put_obj_map_key[OF xhttp_keys_not_index(3) d])
  moreover have "distinct (okeys g)" using d by (simp add: g_def)
  ultimately have "drop_when (\<lambda>v. \<not> nonEmptyString v) ''tcpcongestion'' (sockopt_happy (sockopt_fields raw))
      = filter (\<lambda>p. \<not> (fst p = ''tcpcongestion'' \<and> \<not> nonEmptyString (snd p))) g"
    by (simp only: drop_when_filter)
  also have "\<dots> = ?m (filter (\<lambda>p. \<not> (fst p = ''tcpcongestion'' \<and> \<not> nonEmptyString (snd p)))
       (filter (\<lambda>p. \<not> (fst p = ''happyEyeballs'' \<and> gone_obj happy_step (snd p))) (sockopt_fields raw)))"
    unfolding g_def by (rule filter_map_key) simp
  also have "\<dots> = ?m (filter (\<lambda>p. \<not> sockopt_gone (fst p) (snd p)) raw)"
    unfolding sockopt_fields_filter[OF assms] filter_step
    by (rule arg_cong[of _ _ ?m], rule filter_cong[OF refl]) (unfold sockopt_gone_def, blast)
  finally show ?thesis .
qed

text \<open>A sockopt block is well-formed when its keys are distinct, those of happyEyeballs too.\<close>

definition sockopt_ok :: "jobj \<Rightarrow> bool" where
  "sockopt_ok raw \<longleftrightarrow> distinct (okeys raw) \<and>
     (\<forall>p \<in> set raw. \<forall>he. p = (''happyEyeballs'', JObj he) \<longrightarrow> distinct (okeys he))"

definition sockopt_normal :: "jobj \<Rightarrow> bool" where
  "sockopt_normal o1 \<longleftrightarrow> distinct (okeys o1) \<and> o1 \<noteq> [] \<and>
     list_all (\<lambda>p. \<not> sockopt_gone (fst p) (snd p)) o1 \<and>
     (\<forall>v. (''happyEyeballs'', v) \<in> set o1 \<longrightarrow> upd_obj happy_step v = v)"

lemma sockopt_normal_fixed: "sockopt_normal o1 \<Longrightarrow> normalizeSockoptForWire o1 = Some o1"
  unfolding sockopt_normal_def normalizeSockoptForWire_def Let_def
  by (simp add: sockopt_table map_key_id filter_id_conv list_all_iff okeys_def)

lemma upd_happy:
  assumes "\<And>he. v = JObj he \<Longrightarrow> distinct (okeys he)" and "\<not> gone_obj happy_step v"
  shows "upd_obj happy_step (upd_obj happy_step v) = upd_obj happy_step v"
    and "\<not> gone_obj happy_step (upd_obj happy_step v)"
  using assms happy_step_idem
  by (auto simp: upd_obj_def gone_obj_def split: js.splits option.splits)

lemma map_key_mem: "(k, v) \<in> set (map_key k g o1) \<Longrightarrow> \<exists>w. (k, w) \<in> set o1 \<and> v = g w"
  by (auto simp: map_key_def split: if_splits)

lemma map_key_mem_other: "p \<in> set (map_key k g o1) \<Longrightarrow> fst p \<noteq> k \<Longrightarrow> p \<in> set o1"
  by (auto simp: map_key_def split: if_splits)

lemma normalizeSockopt_normal:
  assumes "sockopt_ok raw" and "normalizeSockoptForWire raw = Some out"
  shows "sockopt_normal out"
proof -
  define f where "f = filter (\<lambda>p. \<not> sockopt_gone (fst p) (snd p)) raw"
  have d: "distinct (okeys raw)" using assms(1) by (simp add: sockopt_ok_def)
  have out: "out = map_key ''happyEyeballs'' (upd_obj happy_step) f" and ne: "okeys out \<noteq> []"
    using assms(2) by (auto simp: normalizeSockoptForWire_def Let_def sockopt_table[OF d] f_def
        split: if_splits)
  have v: "upd_obj happy_step (upd_obj happy_step w) = upd_obj happy_step w
      \<and> \<not> gone_obj happy_step (upd_obj happy_step w)" if "(''happyEyeballs'', w) \<in> set f" for w
    using upd_happy[of w] that assms(1) by (auto simp: f_def sockopt_ok_def sockopt_gone_def)
  have 1: "\<not> sockopt_gone (fst p) (snd p)" if p: "p \<in> set out" for p
  proof (cases "fst p = ''happyEyeballs''")
    case True
    then obtain w where "(''happyEyeballs'', w) \<in> set f" "snd p = upd_obj happy_step w"
      using map_key_mem[of "''happyEyeballs''" "snd p"] p out by (cases p) auto
    then show ?thesis using v True by (simp add: sockopt_gone_def happy_not_dropped)
  next
    case False
    have "p \<in> set f" using map_key_mem_other[OF p[unfolded out] False] .
    then show ?thesis by (simp add: f_def)
  qed
  have 2: "upd_obj happy_step w = w" if "(''happyEyeballs'', w) \<in> set out" for w
    using map_key_mem[OF that[unfolded out]] v by auto
  have "distinct (okeys out)" using d by (simp add: out f_def)
  moreover have "out \<noteq> []" using ne by (auto simp: okeys_def)
  ultimately show ?thesis
    unfolding sockopt_normal_def list_all_iff using 1 2 by blast
qed

interpretation sockopt: normaliser normalizeSockoptForWire "\<lambda>y. y" sockopt_ok sockopt_normal
  by unfold_locales (auto simp: normalizeSockopt_normal sockopt_normal_fixed)

section \<open>TLS and the whole block\<close>

definition fp_dropped :: "string \<times> js \<Rightarrow> bool" where
  "fp_dropped p \<longleftrightarrow> fst p = ''fingerprint'' \<and> snd p = JStr []"

definition tls_settings_step :: "jobj \<Rightarrow> jobj option" where
  "tls_settings_step st = Some (drop_when (\<lambda>v. v = JStr []) ''fingerprint'' st)"

lemma normalizeTls_put:
  "normalizeTlsForWire raw
     = put_obj ''settings'' tls_settings_step (drop_when (\<lambda>v. v = JStr []) ''fingerprint'' raw)"
  by (simp add: normalizeTlsForWire_def put_obj_def tls_settings_step_def Let_def split: js.splits)

definition tls_ok :: "jobj \<Rightarrow> bool" where
  "tls_ok raw \<longleftrightarrow> distinct (okeys raw) \<and>
     (\<forall>p \<in> set raw. \<forall>st. p = (''settings'', JObj st) \<longrightarrow> distinct (okeys st))"

definition tls_normal :: "jobj \<Rightarrow> bool" where
  "tls_normal o1 \<longleftrightarrow> distinct (okeys o1) \<and> list_all (\<lambda>p. \<not> fp_dropped p) o1 \<and>
     (\<forall>v. (''settings'', v) \<in> set o1 \<longrightarrow> upd_obj tls_settings_step v = v)"

lemma fp_filter:
  "distinct (okeys o1) \<Longrightarrow>
   drop_when (\<lambda>v. v = JStr []) ''fingerprint'' o1 = filter (\<lambda>p. \<not> fp_dropped p) o1"
  by (simp add: drop_when_filter fp_dropped_def)

lemma normalizeTls_table:
  assumes "distinct (okeys raw)"
  shows "normalizeTlsForWire raw
    = map_key ''settings'' (upd_obj tls_settings_step) (filter (\<lambda>p. \<not> fp_dropped p) raw)"
proof -
  have "\<not> gone_obj tls_settings_step v" for v
    by (simp add: gone_obj_def tls_settings_step_def split: js.splits)
  then show ?thesis
    using assms put_obj_map_key[OF xhttp_keys_not_index(2), of "filter (\<lambda>p. \<not> fp_dropped p) raw" tls_settings_step]
    by (simp add: normalizeTls_put fp_filter)
qed

lemma tls_normal_fixed: "tls_normal o1 \<Longrightarrow> normalizeTlsForWire o1 = o1"
  unfolding tls_normal_def
  by (simp add: normalizeTls_table map_key_id filter_id_conv list_all_iff)

lemma normalizeTls_normal:
  assumes "tls_ok raw"
  shows "tls_normal (normalizeTlsForWire raw)"
proof -
  define f where "f = filter (\<lambda>p. \<not> fp_dropped p) raw"
  have d: "distinct (okeys raw)" using assms by (simp add: tls_ok_def)
  have out: "normalizeTlsForWire raw = map_key ''settings'' (upd_obj tls_settings_step) f"
    by (simp add: normalizeTls_table[OF d] f_def)
  have i: "upd_obj tls_settings_step (upd_obj tls_settings_step w) = upd_obj tls_settings_step w"
    if "(''settings'', w) \<in> set f" for w
    using assms that
    by (auto simp: upd_obj_def tls_settings_step_def f_def tls_ok_def fp_filter split: js.splits)
  have "\<not> fp_dropped p" if p: "p \<in> set (normalizeTlsForWire raw)" for p
  proof (cases "fst p = ''settings''")
    case False
    have "p \<in> set f" using map_key_mem_other[OF p[unfolded out] False] .
    then show ?thesis by (simp add: f_def)
  qed (simp add: fp_dropped_def)
  moreover have "upd_obj tls_settings_step w = w" if "(''settings'', w) \<in> set (normalizeTlsForWire raw)" for w
    using map_key_mem[OF that[unfolded out]] i by auto
  moreover have "distinct (okeys (normalizeTlsForWire raw))" using d by (simp add: out f_def)
  ultimately show ?thesis unfolding tls_normal_def list_all_iff by blast
qed

interpretation tls: normaliser "\<lambda>raw. Some (normalizeTlsForWire raw)" "\<lambda>y. y" tls_ok tls_normal
  by unfold_locales (auto simp: normalizeTls_normal tls_normal_fixed)

lemma put_obj_fixed:
  assumes k: "\<not> is_index k" and d: "distinct (okeys o1)"
    and f: "\<And>x. oget o1 k = JObj x \<Longrightarrow> f x = Some x"
  shows "put_obj k f o1 = o1"
proof (cases "oget o1 k")
  case (JObj x)
  then have m: "(k, JObj x) \<in> set o1" using oget_cases[of o1 k] by simp
  then have "ohas o1 k" by (force simp: ohas_def)
  moreover have "snd p = JObj x" if "p \<in> set o1" "fst p = k" for p
    using oget_mem[OF d, of k "snd p"] that JObj by (cases p) auto
  then have "map (\<lambda>p. if fst p = k then (k, JObj x) else p) o1 = o1"
    by (force intro: map_idI)
  ultimately show ?thesis
    using f[OF JObj] JObj oput_replace[OF k d] by (simp add: put_obj_def)
qed (simp_all add: put_obj_def)

lemma oget_put_obj_other: "k' \<noteq> k \<Longrightarrow> oget (put_obj k f o1) k' = oget o1 k'"
  by (simp add: put_obj_def split: js.splits option.splits)

lemma oget_put_obj_same:
  "oget (put_obj k f o1) k = JObj y \<Longrightarrow> \<exists>x. oget o1 k = JObj x \<and> f x = Some y"
  by (auto simp: put_obj_def split: js.splits option.splits)

lemma distinct_put_obj:
  "\<not> is_index k \<Longrightarrow> distinct (okeys o1) \<Longrightarrow> distinct (okeys (put_obj k f o1))"
  by (simp add: put_obj_map_key)

definition stream_ok :: "wire_side \<Rightarrow> jobj \<Rightarrow> bool" where
  "stream_ok side o1 \<longleftrightarrow> distinct (okeys o1)
     \<and> (\<forall>x. oget o1 ''xhttpSettings'' = JObj x \<longrightarrow> xhttp_ok side x)
     \<and> (\<forall>x. oget o1 ''tlsSettings'' = JObj x \<longrightarrow> tls_ok x)
     \<and> (\<forall>x. oget o1 ''sockopt'' = JObj x \<longrightarrow> sockopt_ok x)"

definition stream_normal :: "wire_side \<Rightarrow> jobj \<Rightarrow> bool" where
  "stream_normal side o1 \<longleftrightarrow> distinct (okeys o1)
     \<and> (\<forall>x. oget o1 ''xhttpSettings'' = JObj x \<longrightarrow> xhttp_normal side x)
     \<and> (\<forall>x. oget o1 ''tlsSettings'' = JObj x \<longrightarrow> tls_normal x)
     \<and> (\<forall>x. oget o1 ''sockopt'' = JObj x \<longrightarrow> sockopt_normal x)"

lemma stream_keys_distinct:
  "''xhttpSettings'' \<noteq> ''tlsSettings''" "''tlsSettings'' \<noteq> ''xhttpSettings''"
  "''xhttpSettings'' \<noteq> ''sockopt''" "''sockopt'' \<noteq> ''xhttpSettings''"
  "''tlsSettings'' \<noteq> ''sockopt''" "''sockopt'' \<noteq> ''tlsSettings''"
  by simp_all

lemma stream_normal_fixed:
  assumes "stream_normal side o1"
  shows "normalizeStreamSettingsForWire o1 side = o1"
proof -
  have d: "distinct (okeys o1)" using assms by (simp add: stream_normal_def)
  have x: "put_obj ''xhttpSettings'' (\<lambda>x. Some (normalizeXhttpForWire x side)) o1 = o1"
    using assms by (intro put_obj_fixed[OF xhttp_keys_not_index(4) d])
      (simp add: stream_normal_def xhttp_normal_fixed)
  have t: "put_obj ''tlsSettings'' (\<lambda>t. Some (normalizeTlsForWire t)) o1 = o1"
    using assms by (intro put_obj_fixed[OF xhttp_keys_not_index(5) d])
      (simp add: stream_normal_def tls_normal_fixed)
  have s: "put_obj ''sockopt'' normalizeSockoptForWire o1 = o1"
    using assms by (intro put_obj_fixed[OF xhttp_keys_not_index(6) d])
      (simp add: stream_normal_def sockopt_normal_fixed)
  show ?thesis unfolding normalizeStreamSettingsForWire_def x t s ..
qed

lemma normalizeStream_normal:
  assumes "stream_ok side raw"
  shows "stream_normal side (normalizeStreamSettingsForWire raw side)"
proof -
  have d: "distinct (okeys (normalizeStreamSettingsForWire raw side))"
    using assms unfolding normalizeStreamSettingsForWire_def stream_ok_def
    by (intro distinct_put_obj xhttp_keys_not_index) blast
  have x: "xhttp_normal side y" if "oget (normalizeStreamSettingsForWire raw side) ''xhttpSettings'' = JObj y" for y
    using that assms normalizeXhttp_normal
    unfolding normalizeStreamSettingsForWire_def oget_put_obj_other[OF stream_keys_distinct(3)]
      oget_put_obj_other[OF stream_keys_distinct(1)] stream_ok_def
    by (auto dest!: oget_put_obj_same)
  have t: "tls_normal y" if "oget (normalizeStreamSettingsForWire raw side) ''tlsSettings'' = JObj y" for y
  proof -
    have "oget (put_obj ''tlsSettings'' (\<lambda>t. Some (normalizeTlsForWire t))
        (put_obj ''xhttpSettings'' (\<lambda>x. Some (normalizeXhttpForWire x side)) raw)) ''tlsSettings'' = JObj y"
      using that unfolding normalizeStreamSettingsForWire_def
      by (simp only: oget_put_obj_other[OF stream_keys_distinct(5)])
    from oget_put_obj_same[OF this] obtain w where
      "oget raw ''tlsSettings'' = JObj w" "normalizeTlsForWire w = y"
      by (auto simp: oget_put_obj_other[OF stream_keys_distinct(2)])
    then show ?thesis using assms normalizeTls_normal by (auto simp: stream_ok_def)
  qed
  have s: "sockopt_normal y" if "oget (normalizeStreamSettingsForWire raw side) ''sockopt'' = JObj y" for y
  proof -
    from oget_put_obj_same[OF that[unfolded normalizeStreamSettingsForWire_def]] obtain w where
      "oget raw ''sockopt'' = JObj w" "normalizeSockoptForWire w = Some y"
      by (auto simp: oget_put_obj_other[OF stream_keys_distinct(4)] oget_put_obj_other[OF stream_keys_distinct(6)])
    then show ?thesis using assms normalizeSockopt_normal by (auto simp: stream_ok_def)
  qed
  show ?thesis unfolding stream_normal_def using d x t s by blast
qed

interpretation stream: normaliser "\<lambda>raw. Some (normalizeStreamSettingsForWire raw side)" "\<lambda>y. y"
  "stream_ok side" "stream_normal side" for side
  by unfold_locales (auto simp: normalizeStream_normal stream_normal_fixed)

section \<open>REALITY targets\<close>

definition valid_port :: "string \<Rightarrow> bool" where
  "valid_port s \<longleftrightarrow> all_digits s \<and> 1 \<le> str_nat s \<and> str_nat s \<le> 65535"

lemma num_le_nat: "num_le (Fin (of_nat a)) (Fin (of_nat b)) \<longleftrightarrow> a \<le> b"
  by (auto simp: num_le_def num_less_def)

lemma port_range:
  assumes "all_digits s"
  shows "num_le (Fin 1) (js_number s) \<and> num_le (js_number s) (Fin 65535) \<longleftrightarrow> valid_port s"
    and "num_less (js_number s) (Fin 1) \<or> num_less (Fin 65535) (js_number s) \<longleftrightarrow> \<not> valid_port s"
proof -
  have n: "js_number s = Fin (of_nat (str_nat s))"
    using assms by (simp add: all_digits_def js_number_digits)
  show r: "num_le (Fin 1) (js_number s) \<and> num_le (js_number s) (Fin 65535) \<longleftrightarrow> valid_port s"
    using num_le_nat[of 1 "str_nat s"] num_le_nat[of "str_nat s" 65535] assms
    by (simp add: n valid_port_def)
  then show "num_less (js_number s) (Fin 1) \<or> num_less (Fin 65535) (js_number s) \<longleftrightarrow> \<not> valid_port s"
    by (auto simp: n num_le_def)
qed

lemma all_digits_no_colon: "all_digits s \<Longrightarrow> CHR '':'' \<notin> set s"
  by (auto simp: all_digits_def list_all_iff is_digit_def)

lemma target_accepts:
  "validateRealityTarget target = None \<longleftrightarrow>
     (let t = trim target in
      t \<noteq> [] \<and> (hd t = CHR ''/'' \<or> hd t = CHR ''@'' \<or> valid_port t \<or>
        (\<exists>h p. t = h @ CHR '':'' # p \<and> h \<noteq> [] \<and> valid_port p)))"
proof -
  define t where "t = trim target"
  have st: "starts_with t [c] \<longleftrightarrow> t \<noteq> [] \<and> hd t = c" for c by (cases t) auto
  show ?thesis
  proof (cases "t = [] \<or> hd t = CHR ''/'' \<or> hd t = CHR ''@'' \<or> all_digits t")
    case True
    then show ?thesis
      using port_range(1)[of t] all_digits_no_colon[of t]
      by (auto simp: validateRealityTarget_def Let_def t_def[symmetric] st valid_port_def)
  next
    case False
    show ?thesis
    proof (cases "CHR '':'' \<in> set t")
      case False
      then show ?thesis
        using \<open>\<not> (t = [] \<or> hd t = CHR ''/'' \<or> hd t = CHR ''@'' \<or> all_digits t)\<close>
        by (auto simp: validateRealityTarget_def Let_def t_def[symmetric] st valid_port_def last_index_def)
    next
      case True
      obtain h p where t: "t = h @ CHR '':'' # p" and p: "CHR '':'' \<notin> set p"
        using split_last_char[OF True] by metis
      have u: "h' = h \<and> p' = p" if "t = h' @ CHR '':'' # p'" "valid_port p'" for h' p'
        using that p all_digits_no_colon[of p'] arg_cong[OF t, of "after_last CHR '':''"]
          arg_cong[OF t, of "before_last CHR '':''"] by (auto simp: valid_port_def)
      have li: "last_index CHR '':'' t = int (length h)" "drop (nat (int (length h) + 1)) t = p"
        using p by (auto simp: t last_index_def nat_add_distrib)
      have rhs: "(\<exists>h p. t = h @ CHR '':'' # p \<and> h \<noteq> [] \<and> valid_port p) \<longleftrightarrow> h \<noteq> [] \<and> valid_port p"
        using u t by blast
      have lhs: "validateRealityTarget target = None \<longleftrightarrow> h \<noteq> [] \<and> p \<noteq> [] \<and> valid_port p"
      proof -
        have ns: "t \<noteq> []" "\<not> starts_with t ''/''" "\<not> starts_with t ''@''" "\<not> all_digits t"
          using False st by auto
        have l: "int (length t) - 1 = int (length h) + int (length p)" by (simp add: t)
        show ?thesis
        proof (cases "all_digits p")
          case True
          then show ?thesis
            using ns l li port_range(2)[OF True]
            by (simp add: validateRealityTarget_def Let_def t_def[symmetric])
        next
          case False
          then show ?thesis
            using ns l li
            by (simp add: validateRealityTarget_def Let_def t_def[symmetric] valid_port_def)
        qed
      qed
      show ?thesis
        using False rhs lhs by (auto simp: Let_def t_def[symmetric] valid_port_def all_digits_def)
    qed
  qed
qed

section \<open>Properties\<close>

text \<open>
  Normalising the stream settings is idempotent: what it writes is in a normal form that it leaves
  alone. On the inbound side this needs XMUX not to be switched on, because the switch is consumed
  by the first run and the second one would then drop the XMUX object.
\<close>

theorem normalizeStream_idempotent:
  assumes "stream_ok side raw"
  shows "normalizeStreamSettingsForWire (normalizeStreamSettingsForWire raw side) side
           = normalizeStreamSettingsForWire raw side"
  using stream.norm_idem[OF assms] by simp

theorem normalizeStream_idempotent_witness:
  "let raw = [(''network'', JStr ''xhttp''),
              (''xhttpSettings'', JObj [(''path'', JStr ''/''), (''host'', JStr []), (''enableXmux'', JBool True),
                 (''xmux'', JObj [(''maxConcurrency'', JStr ''16-32''), (''maxConnections'', JInt 4)])]),
              (''sockopt'', JObj [(''mark'', JInt 0), (''happyEyeballs'', JObj [(''interleave'', JInt 1)])])]
   in normalizeStreamSettingsForWire (normalizeStreamSettingsForWire raw Outbound_Side) Outbound_Side
        = normalizeStreamSettingsForWire raw Outbound_Side"
  unfolding Let_def
  by (rule normalizeStream_idempotent)
     (simp add: stream_ok_def okeys_def xhttp_ok_def sockopt_ok_def)

text \<open>
  The XHTTP normaliser deletes exactly the fields its table names, for the side, the mode and the
  XMUX switch of the block, keeps every other field with its value in its place, and rewrites the
  XMUX object only.
\<close>

theorem normalizeXhttp_drops_table:
  assumes "distinct (okeys raw)"
  shows "normalizeXhttpForWire raw side =
    map_key ''xmux'' (upd_obj (\<lambda>x. Some (resolveXmuxExclusivity x)))
      (filter (\<lambda>(k, v). \<not> xhttp_dropped side (xhttp_mode raw) (oget raw ''enableXmux'' = JBool True) k v) raw)"
  unfolding normalizeXhttp_table[OF assms] resolve_js_def by (simp add: case_prod_unfold)

theorem normalizeXhttp_drops_table_witness:
  "normalizeXhttpForWire [(''mode'', JStr ''packet-up''), (''scStreamUpServerSecs'', JStr ''20-80''),
       (''sessionKey'', JStr []), (''noSSEHeader'', JBool False), (''scMinPostsIntervalMs'', JStr ''30'')] Inbound_Side
     = [(''mode'', JStr ''packet-up'')]"
  by (subst normalizeXhttp_drops_table)
     (simp_all add: okeys_def xhttp_dropped_def field_dropped_def xhttp_mode_def map_key_def
       PLACEMENT_STRING_FIELDS_def PACKET_UP_FIELDS_def empty_value_def)

text \<open>
  No normalised XHTTP block sets both XMUX strategies: whatever the input, the upper ends of
  maxConnections and maxConcurrency are not both positive, the combination the server rejects.
\<close>

theorem xmux_one_strategy:
  assumes "oget (normalizeXhttpForWire raw side) ''xmux'' = JObj x" and "distinct (okeys raw)"
  shows "\<not> (num_gt0 (int32RangeUpper (oget x ''maxConnections''))
              \<and> num_gt0 (int32RangeUpper (oget x ''maxConcurrency'')))"
proof -
  obtain v where "JObj x = resolve_js v"
    using assms by (auto simp: normalizeXhttp_table oget_not_ohas split: if_splits dest: sym)
  then obtain y where y: "x = resolveXmuxExclusivity y"
    by (auto simp: resolve_js_def upd_obj_def split: js.splits)
  have "int32RangeUpper JUndef = Fin 0" by (simp add: int32RangeUpper_def)
  then show ?thesis unfolding y resolveXmuxExclusivity_def by (auto simp: num_gt0_def)
qed

theorem xmux_one_strategy_witness:
  "oget (normalizeXhttpForWire [(''xmux'', JObj [(''maxConcurrency'', JStr ''16-32''), (''maxConnections'', JInt 4)])]
     Outbound_Side) ''xmux'' = JObj [(''maxConnections'', JInt 4)]
   \<and> \<not> (num_gt0 (int32RangeUpper (JInt 4)) \<and> num_gt0 (int32RangeUpper JUndef))"
proof -
  have e: "oget (normalizeXhttpForWire [(''xmux'', JObj [(''maxConcurrency'', JStr ''16-32''), (''maxConnections'', JInt 4)])]
     Outbound_Side) ''xmux'' = JObj [(''maxConnections'', JInt 4)]"
    by code_simp
  then show ?thesis
    using xmux_one_strategy[OF e] by (simp add: okeys_def)
qed

text \<open>
  A REALITY target is accepted exactly when, trimmed, it is a Unix socket path, a port from 1 to
  65535, or a non-empty host and such a port after its last colon.
\<close>

theorem validateRealityTarget_accepts:
  "validateRealityTarget target = None \<longleftrightarrow>
     (let t = trim target in
      t \<noteq> [] \<and> (hd t = CHR ''/'' \<or> hd t = CHR ''@'' \<or> valid_port t \<or>
        (\<exists>h p. t = h @ CHR '':'' # p \<and> h \<noteq> [] \<and> valid_port p)))"
  by (rule target_accepts)

end
