(* ===== verification/Base64_Text.thy ===== *)
theory Base64_Text
  imports Codecs
begin

text \<open>
  The \<open>Base64\<close> class of \<open>utils/index.ts\<close>: text to base64 over its UTF-8 bytes, the URL-safe
  variant the links use, and the way back. A text is the list of its UTF-8 bytes, so the
  \<open>TextEncoder\<close> is the identity; \<open>alternativeEncode\<close>, which takes one byte per UTF-16 unit
  instead, is not modelled.
\<close>

definition base64_encode :: "string \<Rightarrow> string" where
  "base64_encode content = btoa content"

definition replace_char :: "char \<Rightarrow> char \<Rightarrow> string \<Rightarrow> string" where
  "replace_char a b s = map (\<lambda>c. if c = a then b else c) s"

definition base64_encode_safe :: "string \<Rightarrow> string" where
  "base64_encode_safe content =
     replace_char CHR ''/'' CHR ''_''
       (filter (\<lambda>c. c \<noteq> CHR ''='')
         (replace_char CHR ''+'' CHR ''-'' (base64_encode content)))"

text \<open>\<open>None\<close> is the exception of \<open>atob\<close>.\<close>

definition base64_decode :: "string \<Rightarrow> string option" where
  "base64_decode content = map_option text_decode (atob content)"

text \<open>Text the decoder gives back unchanged: valid UTF-8 without a byte-order mark.\<close>

definition decodable :: "string \<Rightarrow> bool" where
  "decodable s \<longleftrightarrow> utf8_valid s \<and> \<not> starts_with s [CHR 0xEF, CHR 0xBB, CHR 0xBF]"

lemma text_decode_id: "decodable s \<Longrightarrow> text_decode s = s"
  by (simp add: decodable_def text_decode_def utf8_lossy_valid)

lemma decodable_ascii: "is_ascii s \<Longrightarrow> decodable s"
  by (cases s) (auto simp: decodable_def utf8_valid_ascii is_ascii_def)

lemma base64_decode_encode: "decodable s \<Longrightarrow> base64_decode (base64_encode s) = Some s"
  by (simp add: base64_decode_def base64_encode_def atob_btoa text_decode_id)

interpretation b64_text: codec base64_encode base64_decode decodable
  by unfold_locales (rule base64_decode_encode)

text \<open>
  The URL-safe variant is read back only when it holds none of the two letters it renames.
\<close>

definition safe_plain :: "string \<Rightarrow> bool" where
  "safe_plain s \<longleftrightarrow> CHR ''+'' \<notin> set (btoa s) \<and> CHR ''/'' \<notin> set (btoa s)"

lemma replace_char_absent: "a \<notin> set s \<Longrightarrow> replace_char a b s = s"
  by (auto simp: replace_char_def intro: map_idI)

lemma replace_back: "b \<notin> set s \<Longrightarrow> replace_char b a (replace_char a b s) = s"
  by (auto simp: replace_char_def intro!: map_idI)

lemma replace_filter_back:
  "b \<notin> set s \<Longrightarrow> x \<noteq> a \<Longrightarrow> x \<noteq> b \<Longrightarrow>
   replace_char b a (filter (\<lambda>c. c \<noteq> x) (replace_char a b s)) = filter (\<lambda>c. c \<noteq> x) s"
  by (induction s) (auto simp: replace_char_def)

lemma safe_plain_encode:
  "safe_plain s \<Longrightarrow> base64_encode_safe s = filter (\<lambda>c. c \<noteq> CHR ''='') (btoa s)"
  by (simp add: safe_plain_def base64_encode_safe_def base64_encode_def replace_char_absent)

lemma base64_decode_safe:
  "safe_plain s \<Longrightarrow> decodable s \<Longrightarrow> base64_decode (base64_encode_safe s) = Some s"
  by (simp add: safe_plain_encode base64_decode_def atob_unpadded text_decode_id)

interpretation b64_safe: codec base64_encode_safe base64_decode "\<lambda>s. safe_plain s \<and> decodable s"
  by unfold_locales (simp add: base64_decode_safe)

lemma b64_alphabet: "c \<in> set (btoa s) \<Longrightarrow> c \<in> set b64_chars \<or> c = CHR ''=''"
proof -
  have b: "c \<in> set (b64_body s) \<Longrightarrow> c \<in> set b64_chars"
    by (induction s rule: b64_body.induct) (auto simp: b64_char_mem sextets)
  then show "c \<in> set (btoa s) \<Longrightarrow> c \<in> set b64_chars \<or> c = CHR ''=''"
    by (auto simp: btoa_def b64_pad_def split: if_splits)
qed

text \<open>The letters of the URL-safe variant never need escaping in a link.\<close>

lemma b64_chars_split: "list_all (\<lambda>c. is_alnum c \<or> c = CHR ''+'' \<or> c = CHR ''/'') b64_chars"
  by code_simp

lemma safe_alphabet:
  assumes "c \<in> set (base64_encode_safe s)"
  shows "is_alnum c \<or> c = CHR ''-'' \<or> c = CHR ''_''"
proof -
  have "is_alnum d \<or> d = CHR ''+'' \<or> d = CHR ''/'' \<or> d = CHR ''=''" if "d \<in> set (btoa s)" for d
    using b64_alphabet[OF that] b64_chars_split by (auto simp: list_all_iff)
  with assms show ?thesis
    by (auto simp: base64_encode_safe_def base64_encode_def replace_char_def split: if_splits)
qed

text \<open>
  The URL-safe encoding is injective on all byte strings, and undoing its two renamings before
  decoding gives every text back, so no information is lost by the links that use it.
\<close>

theorem base64_safe_lossless:
  "base64_encode_safe s = base64_encode_safe t \<longleftrightarrow> s = t"
proof
  define undo where "undo = (\<lambda>u. replace_char CHR ''-'' CHR ''+'' (replace_char CHR ''_'' CHR ''/'' u))"
  have no: "CHR ''-'' \<notin> set (btoa u)" "CHR ''_'' \<notin> set (btoa u)" for u
    using b64_alphabet[of "CHR ''-''" u] b64_alphabet[of "CHR ''_''" u] by (auto simp: b64_chars_def)
  have "undo (base64_encode_safe u) = filter (\<lambda>c. c \<noteq> CHR ''='') (btoa u)" for u
  proof -
    have "CHR ''_'' \<notin> set (filter (\<lambda>c. c \<noteq> CHR ''='') (replace_char CHR ''+'' CHR ''-'' (btoa u)))"
      using no by (auto simp: replace_char_def)
    then have "undo (base64_encode_safe u)
        = replace_char CHR ''-'' CHR ''+'' (filter (\<lambda>c. c \<noteq> CHR ''='') (replace_char CHR ''+'' CHR ''-'' (btoa u)))"
      by (simp add: undo_def base64_encode_safe_def base64_encode_def replace_back)
    also have "\<dots> = filter (\<lambda>c. c \<noteq> CHR ''='') (btoa u)"
      by (rule replace_filter_back) (use no in simp_all)
    finally show ?thesis .
  qed
  moreover assume "base64_encode_safe s = base64_encode_safe t"
  ultimately have "filter (\<lambda>c. c \<noteq> CHR ''='') (btoa s) = filter (\<lambda>c. c \<noteq> CHR ''='') (btoa t)" by metis
  then show "s = t" by (metis atob_unpadded option.inject)
qed simp

end
