(* ===== verification/Link_Parser.thy ===== *)
theory Link_Parser
  imports Base64_Text Web_Url
begin

text \<open>
  \<open>lib/xray/outbound-link-parser.ts\<close>: share links read back into outbound objects of the wire
  shape. Every parser returns \<open>None\<close> for null. An exception the code catches is \<open>None\<close> of the
  call that raises it. The parameter \<open>ip6\<close> is the IPv6 address serialiser of the URL class.
\<close>

section \<open>XHTTP knobs\<close>

definition XHTTP_STRING_KEYS :: "string list" where
  "XHTTP_STRING_KEYS =
     [''xPaddingBytes'', ''xPaddingKey'', ''xPaddingHeader'', ''xPaddingPlacement'', ''xPaddingMethod'',
      ''sessionPlacement'', ''sessionKey'', ''seqPlacement'', ''seqKey'', ''uplinkDataPlacement'',
      ''uplinkDataKey'', ''scMaxEachPostBytes'', ''scMinPostsIntervalMs'', ''scStreamUpServerSecs'',
      ''uplinkHTTPMethod'']"

definition XHTTP_NUMBER_KEYS :: "string list" where
  "XHTTP_NUMBER_KEYS = [''scMaxBufferedPosts'', ''serverMaxHeaderBytes'', ''uplinkChunkSize'']"

definition XHTTP_BOOL_KEYS :: "string list" where
  "XHTTP_BOOL_KEYS = [''xPaddingObfsMode'', ''noSSEHeader'', ''noGRPCHeader'']"

definition XHTTP_OBJECT_KEYS :: "string list" where
  "XHTTP_OBJECT_KEYS = [''xmux'', ''downloadSettings'']"

definition asBool :: "string option \<Rightarrow> js" where
  "asBool s = (case s of None \<Rightarrow> JUndef | Some t \<Rightarrow> JBool (t = ''true'' \<or> t = ''1''))"

text \<open>\<open>for (const k of keys) if (test(v(k))) o[k] = conv(v(k))\<close>\<close>

definition put_keys :: "(string \<Rightarrow> 'a option) \<Rightarrow> ('a \<Rightarrow> js) \<Rightarrow> string list \<Rightarrow> jobj \<Rightarrow> jobj" where
  "put_keys g conv ks o1 = fold (\<lambda>k o2. case g k of Some v \<Rightarrow> oput k (conv v) o2 | None \<Rightarrow> o2) ks o1"

definition keep_if :: "(js \<Rightarrow> bool) \<Rightarrow> js \<Rightarrow> string \<Rightarrow> js option" where
  "keep_if P json k = (let v = jget json k in if P v then Some v else None)"

definition applyXhttpStringFromJson :: "js \<Rightarrow> jobj \<Rightarrow> jobj" where
  "applyXhttpStringFromJson json xhttp =
     put_keys (keep_if is_obj json) id XHTTP_OBJECT_KEYS
       (put_keys (keep_if is_bool json) id XHTTP_BOOL_KEYS
         (put_keys (keep_if is_num json) id XHTTP_NUMBER_KEYS
           (put_keys (keep_if is_str json) id XHTTP_STRING_KEYS xhttp)))"

definition present :: "params \<Rightarrow> string \<Rightarrow> string option" where
  "present ps k = (case params_get ps k of Some v \<Rightarrow> if v = [] then None else Some v | None \<Rightarrow> None)"

definition apply_extra :: "params \<Rightarrow> jobj \<Rightarrow> jobj" where
  "apply_extra ps xhttp =
     (case present ps ''extra'' of
        None \<Rightarrow> xhttp
      | Some extra \<Rightarrow>
          (case json_parse extra of
             None \<Rightarrow> xhttp
           | Some JNull \<Rightarrow> xhttp
           | Some parsed \<Rightarrow>
               (let x = applyXhttpStringFromJson parsed xhttp; h = jget parsed ''headers'' in
                if is_obj h \<or> is_arr h then oput ''headers'' h x else x)))"

definition applyXhttpStringFromParams :: "params \<Rightarrow> jobj \<Rightarrow> jobj" where
  "applyXhttpStringFromParams ps xhttp =
     put_keys (present ps) (\<lambda>v. asBool (Some v)) XHTTP_BOOL_KEYS
       (put_keys (present ps) (\<lambda>v. JNum (nor (js_number v) (Fin 0))) XHTTP_NUMBER_KEYS
         (put_keys (present ps) JStr XHTTP_STRING_KEYS
           (apply_extra ps
             (case present ps ''x_padding_bytes'' of
                Some v \<Rightarrow> oput ''xPaddingBytes'' (JStr v) xhttp | None \<Rightarrow> xhttp))))"

section \<open>The stream skeleton\<close>

definition plain_tcp :: js where
  "plain_tcp = JObj [(''header'', JObj [(''type'', JStr ''none'')])]"

definition network_defaults :: "js \<Rightarrow> string \<times> js" where
  "network_defaults network =
     (if network = JStr ''tcp'' then (''tcpSettings'', plain_tcp)
      else if network = JStr ''kcp'' then
        (''kcpSettings'', JObj [(''mtu'', JInt 1350), (''tti'', JInt 20), (''uplinkCapacity'', JInt 5),
           (''downlinkCapacity'', JInt 20), (''cwndMultiplier'', JInt 1), (''maxSendingWindow'', JInt 2097152)])
      else if network = JStr ''ws'' then
        (''wsSettings'', JObj [(''path'', JStr ''/''), (''host'', JStr []), (''headers'', JObj []),
           (''heartbeatPeriod'', JInt 0)])
      else if network = JStr ''grpc'' then
        (''grpcSettings'', JObj [(''serviceName'', JStr []), (''authority'', JStr []), (''multiMode'', JBool False)])
      else if network = JStr ''httpupgrade'' then
        (''httpupgradeSettings'', JObj [(''path'', JStr ''/''), (''host'', JStr []), (''headers'', JObj [])])
      else if network = JStr ''xhttp'' then
        (''xhttpSettings'', JObj [(''path'', JStr ''/''), (''host'', JStr []), (''mode'', JStr ''auto''),
           (''headers'', JObj []), (''xPaddingBytes'', JStr ''100-1000'')])
      else (''tcpSettings'', plain_tcp))"

definition security_defaults :: "string \<Rightarrow> jobj" where
  "security_defaults security =
     (if security = ''tls'' then
        [(''tlsSettings'', JObj [(''serverName'', JStr []), (''alpn'', JArr []), (''fingerprint'', JStr []),
           (''echConfigList'', JStr []), (''verifyPeerCertByName'', JStr []), (''pinnedPeerCertSha256'', JStr [])])]
      else if security = ''reality'' then
        [(''realitySettings'', JObj [(''publicKey'', JStr []), (''fingerprint'', JStr ''chrome''),
           (''serverName'', JStr []), (''shortId'', JStr []), (''spiderX'', JStr []), (''mldsa65Verify'', JStr [])])]
      else [])"

definition buildStream :: "js \<Rightarrow> string \<Rightarrow> jobj" where
  "buildStream network security =
     [(''network'', network), (''security'', JStr security), network_defaults network]
     @ security_defaults security"

section \<open>Query parameters\<close>

definition or_param :: "params \<Rightarrow> string \<Rightarrow> string \<Rightarrow> string" where
  "or_param ps k d = (case params_get ps k of Some v \<Rightarrow> v | None \<Rightarrow> d)"

text \<open>\<open>(stream[k] as Raw).f = v\<close>, for a block the skeleton put there.\<close>

definition sub_upd :: "string \<Rightarrow> (jobj \<Rightarrow> jobj) \<Rightarrow> jobj \<Rightarrow> jobj" where
  "sub_upd k f o1 = (case oget o1 k of JObj x \<Rightarrow> oput k (JObj (f x)) o1 | _ \<Rightarrow> o1)"

definition split_list :: "string \<Rightarrow> js" where
  "split_list s = JArr (map JStr (split_char CHR '','' s))"

definition split_filled :: "string \<Rightarrow> js" where
  "split_filled s = JArr (map JStr (non_empty (split_char CHR '','' s)))"

definition http_header :: "string \<Rightarrow> string \<Rightarrow> js" where
  "http_header path host =
     JObj [(''type'', JStr ''http''),
           (''request'', JObj [(''version'', JStr ''1.1''), (''method'', JStr ''GET''),
              (''path'', split_filled path),
              (''headers'', JObj (if host \<noteq> [] then [(''Host'', split_filled host)] else []))])]"

definition applyTransportParams :: "params \<Rightarrow> jobj \<Rightarrow> jobj" where
  "applyTransportParams ps stream =
     (let network = oget stream ''network''; host = or_param ps ''host'' []; path = or_param ps ''path'' ''/'';
          host_path = (\<lambda>x. oput ''path'' (JStr path) (oput ''host'' (JStr host) x)) in
      if network = JStr ''ws'' then sub_upd ''wsSettings'' host_path stream
      else if network = JStr ''grpc'' then
        sub_upd ''grpcSettings'' (\<lambda>g.
          (let serviceName = (case params_get ps ''serviceName'' of Some v \<Rightarrow> v | None \<Rightarrow> or_param ps ''path'' [])
           in oput ''multiMode'' (JBool (params_get ps ''mode'' = Some ''multi''))
                (oput ''authority'' (JStr (or_param ps ''authority'' []))
                  (oput ''serviceName'' (JStr serviceName) g)))) stream
      else if network = JStr ''httpupgrade'' then sub_upd ''httpupgradeSettings'' host_path stream
      else if network = JStr ''xhttp'' then
        sub_upd ''xhttpSettings'' (\<lambda>x.
          (let x = host_path x;
               x = (case present ps ''mode'' of Some m \<Rightarrow> oput ''mode'' (JStr m) x | None \<Rightarrow> x)
           in applyXhttpStringFromParams ps x)) stream
      else if network = JStr ''tcp'' then
        (if params_get ps ''headerType'' = Some ''http'' \<or> params_get ps ''type'' = Some ''http''
         then sub_upd ''tcpSettings'' (oput ''header'' (http_header path host)) stream
         else stream)
      else stream)"

definition applyFinalMaskParam :: "params \<Rightarrow> jobj \<Rightarrow> jobj" where
  "applyFinalMaskParam ps stream =
     (case present ps ''fm'' of
        None \<Rightarrow> stream
      | Some fm \<Rightarrow>
          (case json_parse fm of
             Some parsed \<Rightarrow> if is_obj parsed \<or> is_arr parsed then oput ''finalmask'' parsed stream else stream
           | None \<Rightarrow> stream))"

definition applySecurityParams :: "params \<Rightarrow> jobj \<Rightarrow> jobj" where
  "applySecurityParams ps stream =
     (let get = (\<lambda>k d. JStr (or_param ps k d)) in
      if oget stream ''security'' = JStr ''tls'' then
        sub_upd ''tlsSettings'' (\<lambda>tls.
          (let tls = oput ''serverName'' (get ''sni'' []) tls;
               tls = oput ''fingerprint'' (get ''fp'' []) tls;
               tls = (case present ps ''alpn'' of Some a \<Rightarrow> oput ''alpn'' (split_list a) tls | None \<Rightarrow> tls);
               tls = oput ''echConfigList'' (get ''ech'' []) tls
           in oput ''pinnedPeerCertSha256'' (get ''pcs'' []) tls)) stream
      else if oget stream ''security'' = JStr ''reality'' then
        sub_upd ''realitySettings'' (\<lambda>re.
          (let re = oput ''serverName'' (get ''sni'' []) re;
               re = oput ''fingerprint'' (get ''fp'' ''chrome'') re;
               re = oput ''publicKey'' (get ''pbk'' []) re;
               re = oput ''shortId'' (get ''sid'' []) re;
               re = oput ''spiderX'' (get ''spx'' []) re
           in oput ''mldsa65Verify'' (get ''pqv'' []) re)) stream
      else stream)"

definition decode_or :: "string \<Rightarrow> string \<Rightarrow> string" where
  "decode_or s d = (case decode_uri_component s of Some t \<Rightarrow> t | None \<Rightarrow> d)"

definition decodeRemark :: "url \<Rightarrow> string" where
  "decodeRemark u =
     (let h = (case url_hash u of c # r \<Rightarrow> if c = CHR ''#'' then r else c # r | [] \<Rightarrow> []) in decode_or h h)"

section \<open>VMess\<close>

definition need_str :: "js \<Rightarrow> string option" where
  "need_str v = (case v of JStr s \<Rightarrow> Some s | _ \<Rightarrow> None)"

text \<open>\<open>v.split(',')\<close> throws on everything but a string; a falsy value is not split at all.\<close>

definition vmess_transport :: "js \<Rightarrow> js \<Rightarrow> jobj \<Rightarrow> jobj option" where
  "vmess_transport json network stream =
     (let f = jget json;
          host_path = (\<lambda>x. oput ''path'' (coalesce (f ''path'') (JStr ''/''))
                             (oput ''host'' (coalesce (f ''host'') (JStr [])) x)) in
      if network = JStr ''tcp'' \<and> f ''type'' = JStr ''http'' then
        (case need_str (coalesce (f ''path'') (JStr ''/'')) of
           None \<Rightarrow> None
         | Some path \<Rightarrow>
             if truthy (f ''host'') then
               (case need_str (f ''host'') of
                  None \<Rightarrow> None
                | Some host \<Rightarrow> Some (sub_upd ''tcpSettings'' (oput ''header'' (http_header path host)) stream))
             else Some (sub_upd ''tcpSettings'' (oput ''header'' (http_header path [])) stream))
      else if network = JStr ''ws'' then Some (sub_upd ''wsSettings'' host_path stream)
      else if network = JStr ''grpc'' then
        Some (sub_upd ''grpcSettings'' (\<lambda>g.
          oput ''multiMode'' (JBool (f ''type'' = JStr ''multi''))
            (oput ''authority'' (coalesce (f ''authority'') (JStr []))
              (oput ''serviceName'' (coalesce (f ''path'') (JStr [])) g))) stream)
      else if network = JStr ''httpupgrade'' then Some (sub_upd ''httpupgradeSettings'' host_path stream)
      else if network = JStr ''xhttp'' then
        Some (sub_upd ''xhttpSettings'' (\<lambda>x.
          (let x = host_path x;
               x = (if truthy (f ''mode'') then oput ''mode'' (f ''mode'') x else x)
           in applyXhttpStringFromJson json x)) stream)
      else Some stream)"

definition vmess_security :: "js \<Rightarrow> string \<Rightarrow> jobj \<Rightarrow> jobj option" where
  "vmess_security json security stream =
     (if security \<noteq> ''tls'' then Some stream
      else
        (let base = (\<lambda>tls. oput ''fingerprint'' (coalesce (jget json ''fp'') (JStr []))
                             (oput ''serverName'' (coalesce (jget json ''sni'') (JStr [])) tls)) in
         if truthy (jget json ''alpn'') then
           (case need_str (jget json ''alpn'') of
              None \<Rightarrow> None
            | Some a \<Rightarrow> Some (sub_upd ''tlsSettings'' (\<lambda>tls. oput ''alpn'' (split_list a) (base tls)) stream))
         else Some (sub_upd ''tlsSettings'' base stream)))"

definition vmess_outbound :: "js \<Rightarrow> jobj \<Rightarrow> js" where
  "vmess_outbound json stream =
     (let f = jget json; port = nor (to_num (f ''port'')) (Fin 443) in
      JObj [(''protocol'', JStr ''vmess''),
            (''tag'', if is_str (f ''ps'') then f ''ps'' else JStr []),
            (''settings'', JObj [(''vnext'', JArr [JObj [
               (''address'', coalesce (f ''add'') (JStr [])), (''port'', JNum port),
               (''users'', JArr [JObj [(''id'', coalesce (f ''id'') (JStr [])),
                                        (''security'', jor (f ''scy'') (JStr ''auto''))]])]])]),
            (''streamSettings'', JObj stream)])"

definition vmess_of_json :: "js \<Rightarrow> js option" where
  "vmess_of_json json =
     (if json = JNull then None
      else
        (let network = jor (jget json ''net'') (JStr ''tcp'');
             security = (if jget json ''tls'' = JStr ''tls'' then ''tls'' else ''none'')
         in Option.bind (vmess_transport json network (buildStream network security)) (\<lambda>stream.
              map_option (vmess_outbound json) (vmess_security json security stream))))"

definition parseVmessLink :: "string \<Rightarrow> js option" where
  "parseVmessLink link =
     (if \<not> starts_with link ''vmess://'' then None
      else Option.bind (base64_decode (drop 8 link)) (\<lambda>decoded.
             Option.bind (json_parse decoded) vmess_of_json))"

section \<open>VLESS and Trojan\<close>

definition parseUrlLink :: "(string \<Rightarrow> string option) \<Rightarrow> string \<Rightarrow> string \<Rightarrow> url option" where
  "parseUrlLink ip6 link proto =
     (case parse_url ip6 link of
        None \<Rightarrow> None
      | Some u \<Rightarrow> if u_scheme u \<noteq> proto then None else Some u)"

definition url_port :: "url \<Rightarrow> js" where
  "url_port u = JNum (nor (js_number (u_port u)) (Fin 443))"

definition link_stream :: "params \<Rightarrow> string \<Rightarrow> string \<Rightarrow> jobj" where
  "link_stream ps network security =
     applyFinalMaskParam ps (applySecurityParams ps (applyTransportParams ps
       (buildStream (JStr network) security)))"

definition parseVlessLink :: "(string \<Rightarrow> string option) \<Rightarrow> string \<Rightarrow> js option" where
  "parseVlessLink ip6 link =
     (case parseUrlLink ip6 link ''vless'' of
        None \<Rightarrow> None
      | Some u \<Rightarrow>
          (let ps = url_params u;
               stream = link_stream ps (or_param ps ''type'' ''tcp'') (or_param ps ''security'' ''none'')
           in Some (JObj [(''protocol'', JStr ''vless''), (''tag'', JStr (decodeRemark u)),
                (''settings'', JObj [(''address'', JStr (url_hostname u)), (''port'', url_port u),
                   (''id'', JStr (u_user u)), (''flow'', JStr (or_param ps ''flow'' [])),
                   (''encryption'', JStr (or_param ps ''encryption'' ''none''))]),
                (''streamSettings'', JObj stream)])))"

definition parseTrojanLink :: "(string \<Rightarrow> string option) \<Rightarrow> string \<Rightarrow> js option" where
  "parseTrojanLink ip6 link =
     (case parseUrlLink ip6 link ''trojan'' of
        None \<Rightarrow> None
      | Some u \<Rightarrow>
          (let ps = url_params u;
               stream = link_stream ps (or_param ps ''type'' ''tcp'') (or_param ps ''security'' ''tls'')
           in Some (JObj [(''protocol'', JStr ''trojan''), (''tag'', JStr (decodeRemark u)),
                (''settings'', JObj [(''servers'', JArr [JObj [(''address'', JStr (url_hostname u)),
                   (''port'', url_port u), (''password'', JStr (u_user u))]])]),
                (''streamSettings'', JObj stream)])))"

section \<open>Shadowsocks\<close>

definition ss_port :: "string \<Rightarrow> js" where
  "ss_port s = JNum (nor (js_number s) (Fin 443))"

definition ss_outbound :: "string \<Rightarrow> string \<Rightarrow> string \<Rightarrow> js \<Rightarrow> js" where
  "ss_outbound remark userInfo host port =
     (let has = CHR '':'' \<in> set userInfo;
          meth = (if has then before_char CHR '':'' userInfo else ''2022-blake3-aes-128-gcm'');
          password = (if has then after_char CHR '':'' userInfo else userInfo)
      in JObj [(''protocol'', JStr ''shadowsocks''), (''tag'', JStr remark),
           (''settings'', JObj [(''servers'', JArr [JObj [(''address'', JStr host), (''port'', port),
              (''password'', JStr password), (''method'', JStr meth)]])])])"

definition ss_userinfo :: "string \<Rightarrow> string" where
  "ss_userinfo raw =
     (if CHR '':'' \<in> set raw then decode_or raw raw
      else (case base64_decode raw of Some t \<Rightarrow> t | None \<Rightarrow> raw))"

definition parseShadowsocksLink :: "string \<Rightarrow> js option" where
  "parseShadowsocksLink link =
     (if \<not> starts_with link ''ss://'' then None
      else
        (let remark = (if CHR ''#'' \<in> set link then decode_or (after_char CHR ''#'' link) [] else []);
             linkNoHash = before_char CHR ''#'' link;
             core = before_char CHR ''?'' linkNoHash in
         if CHR ''@'' \<in> set core then
           (let userInfo = ss_userinfo (drop 5 (before_char CHR ''@'' core));
                hostPort = after_char CHR ''@'' core in
            if CHR '':'' \<notin> set hostPort then None
            else Some (ss_outbound remark userInfo (before_last CHR '':'' hostPort)
                   (ss_port (after_last CHR '':'' hostPort))))
         else
           (case base64_decode (drop 5 core) of
              None \<Rightarrow> None
            | Some decoded \<Rightarrow>
                if CHR ''@'' \<notin> set decoded then None
                else
                  (let hostPort = after_char CHR ''@'' decoded in
                   if CHR '':'' \<notin> set hostPort then None
                   else Some (ss_outbound remark (before_char CHR ''@'' decoded)
                          (before_last CHR '':'' hostPort) (ss_port (after_last CHR '':'' hostPort)))))))"

section \<open>Hysteria 2\<close>

definition parseHysteria2Link :: "(string \<Rightarrow> string option) \<Rightarrow> string \<Rightarrow> js option" where
  "parseHysteria2Link ip6 link =
     (case (case parseUrlLink ip6 link ''hysteria2'' of
              Some u \<Rightarrow> Some u | None \<Rightarrow> parseUrlLink ip6 link ''hy2'') of
        None \<Rightarrow> None
      | Some u \<Rightarrow>
          (let ps = url_params u; get = (\<lambda>k. JStr (or_param ps k []));
               stream =
                 [(''network'', JStr ''hysteria''), (''security'', JStr ''tls''),
                  (''hysteriaSettings'', JObj [(''version'', JInt 2), (''auth'', JStr (u_user u)),
                     (''udpIdleTimeout'', JInt 60)]),
                  (''tlsSettings'', JObj [(''serverName'', get ''sni''),
                     (''alpn'', case present ps ''alpn'' of Some a \<Rightarrow> split_list a | None \<Rightarrow> JArr [JStr ''h3'']),
                     (''fingerprint'', get ''fp''), (''echConfigList'', get ''ech''),
                     (''verifyPeerCertByName'', JStr []), (''pinnedPeerCertSha256'', get ''pinSHA256'')])]
           in Some (JObj [(''protocol'', JStr ''hysteria''), (''tag'', JStr (decodeRemark u)),
                (''settings'', JObj [(''address'', JStr (url_hostname u)), (''port'', url_port u),
                   (''version'', JInt 2)]),
                (''streamSettings'', JObj (applyFinalMaskParam ps stream))])))"

section \<open>WireGuard\<close>

fun firstParam :: "params \<Rightarrow> string list \<Rightarrow> string option" where
  "firstParam ps [] = None"
| "firstParam ps (k # ks) = (case present ps k of Some v \<Rightarrow> Some v | None \<Rightarrow> firstParam ps ks)"

definition trimmed_items :: "string \<Rightarrow> string list" where
  "trimmed_items s = non_empty (map trim (split_char CHR '','' s))"

definition put_number :: "string \<Rightarrow> string option \<Rightarrow> jobj \<Rightarrow> jobj" where
  "put_number k raw o1 =
     (case raw of
        None \<Rightarrow> o1
      | Some s \<Rightarrow> if is_finite (js_number s) then oput k (JNum (js_number s)) o1 else o1)"

definition wg_endpoint :: "url \<Rightarrow> string" where
  "wg_endpoint u =
     (let host = url_hostname u; port = u_port u in
      if host \<noteq> [] then (if port \<noteq> [] then host @ '':'' @ port else host) else [])"

definition wg_peer_of :: "url \<Rightarrow> params \<Rightarrow> jobj" where
  "wg_peer_of u ps =
     (let allowedIPs = (case firstParam ps [''allowedips'', ''allowed_ips''] of
             Some s \<Rightarrow> trimmed_items s | None \<Rightarrow> [''0.0.0.0/0'', ''::/0'']);
          peer = [(''publicKey'', JStr (case firstParam ps [''publickey'', ''publicKey'', ''public_key'', ''peerPublicKey''] of
                     Some s \<Rightarrow> s | None \<Rightarrow> [])),
                  (''endpoint'', JStr (wg_endpoint u)), (''allowedIPs'', JArr (map JStr allowedIPs))];
          peer = (case firstParam ps [''presharedkey'', ''preshared_key'', ''pre-shared-key'', ''psk''] of
                    Some s \<Rightarrow> oput ''preSharedKey'' (JStr s) peer | None \<Rightarrow> peer)
      in put_number ''keepAlive'' (firstParam ps [''keepalive'', ''persistentkeepalive'', ''persistent_keepalive'']) peer)"

definition parseWireguardLink :: "(string \<Rightarrow> string option) \<Rightarrow> string \<Rightarrow> js option" where
  "parseWireguardLink ip6 link =
     (case (case parseUrlLink ip6 link ''wireguard'' of
              Some u \<Rightarrow> Some u | None \<Rightarrow> parseUrlLink ip6 link ''wg'') of
        None \<Rightarrow> None
      | Some u \<Rightarrow>
          (let secretKey = decode_or (u_user u) (u_user u); ps = url_params u;
               address = trimmed_items (case firstParam ps [''address'', ''ip''] of Some s \<Rightarrow> s | None \<Rightarrow> []);
               settings = [(''secretKey'', JStr secretKey), (''address'', JArr (map JStr address)),
                           (''peers'', JArr [JObj (wg_peer_of u ps)])];
               settings = put_number ''mtu'' (firstParam ps [''mtu'']) settings;
               settings = (case firstParam ps [''reserved''] of
                  None \<Rightarrow> settings
                | Some raw \<Rightarrow>
                    (let ns = filter is_finite (map (\<lambda>s. js_number (trim s)) (split_char CHR '','' raw)) in
                     if ns \<noteq> [] then oput ''reserved'' (JArr (map JNum ns)) settings else settings))
           in Some (JObj [(''protocol'', JStr ''wireguard''), (''tag'', JStr (decodeRemark u)),
                (''settings'', JObj settings)])))"

section \<open>The dispatcher\<close>

fun first_some :: "'a option list \<Rightarrow> 'a option" where
  "first_some [] = None"
| "first_some (Some x # xs) = Some x"
| "first_some (None # xs) = first_some xs"

definition parseOutboundLink :: "(string \<Rightarrow> string option) \<Rightarrow> string \<Rightarrow> js option" where
  "parseOutboundLink ip6 link =
     (let trimmed = trim link in
      if trimmed = [] then None
      else first_some [parseVmessLink trimmed, parseVlessLink ip6 trimmed, parseTrojanLink ip6 trimmed,
             parseShadowsocksLink trimmed, parseHysteria2Link ip6 trimmed, parseWireguardLink ip6 trimmed])"

end
