(* ===== verification/Share_Model.thy ===== *)
theory Share_Model
  imports Headers Capabilities
begin

text \<open>
  The data of an inbound as the schemas under \<open>schemas/protocols\<close> and \<open>schemas/api/inbound.ts\<close> type
  it: the transport and security blocks of its stream settings, the extras beside them, the
  settings of each protocol, and the row that holds them.

  A field with a schema default is a plain value, an optional one is an option. Header maps of
  either shape are a \<open>v2map\<close>. The blocks the link generators read by computed keys or only
  serialise (XHTTP, finalmask, sockopt) stay JSON values.
\<close>

section \<open>Transports\<close>

record tcp_request =
  tq_version :: string
  tq_method :: string
  tq_path :: "string list"
  tq_headers :: v2map

record tcp_response =
  tr_version :: string
  tr_status :: string
  tr_reason :: string
  tr_headers :: v2map

datatype tcp_header = HeaderNone | HeaderHttp "tcp_request option" "tcp_response option"

record tcp_settings =
  tcp_acceptProxyProtocol :: bool
  tcp_header :: "tcp_header option"

record kcp_settings =
  kcp_mtu :: int
  kcp_tti :: int
  kcp_uplinkCapacity :: int
  kcp_downlinkCapacity :: int
  kcp_cwndMultiplier :: int
  kcp_maxSendingWindow :: int

record ws_settings =
  ws_acceptProxyProtocol :: bool
  ws_path :: string
  ws_host :: string
  ws_headers :: v2map
  ws_heartbeatPeriod :: int

record grpc_settings =
  grpc_serviceName :: string
  grpc_authority :: string
  grpc_multiMode :: bool

record httpupgrade_settings =
  hu_acceptProxyProtocol :: bool
  hu_path :: string
  hu_host :: string
  hu_headers :: v2map

datatype network_settings =
    NetTcp tcp_settings
  | NetKcp kcp_settings
  | NetWs ws_settings
  | NetGrpc grpc_settings
  | NetHttpupgrade httpupgrade_settings
  | NetXhttp jobj
  | NetHysteria jobj
  | NetAbsent

text \<open>The value of \<open>stream.network\<close>; a transportless block has none.\<close>

fun network_name :: "network_settings \<Rightarrow> string option" where
  "network_name (NetTcp _) = Some ''tcp''"
| "network_name (NetKcp _) = Some ''kcp''"
| "network_name (NetWs _) = Some ''ws''"
| "network_name (NetGrpc _) = Some ''grpc''"
| "network_name (NetHttpupgrade _) = Some ''httpupgrade''"
| "network_name (NetXhttp _) = Some ''xhttp''"
| "network_name (NetHysteria _) = Some ''hysteria''"
| "network_name NetAbsent = None"

section \<open>Security\<close>

record tls_client =
  tc_fingerprint :: string
  tc_echConfigList :: string
  tc_pinnedPeerCertSha256 :: "string list"

record tls_settings =
  tls_serverName :: string
  tls_minVersion :: string
  tls_maxVersion :: string
  tls_cipherSuites :: string
  tls_rejectUnknownSni :: bool
  tls_disableSystemRoot :: bool
  tls_enableSessionResumption :: bool
  tls_certificates :: "js list"
  tls_alpn :: "string list"
  tls_echServerKeys :: string
  tls_client :: tls_client

record reality_client =
  rc_publicKey :: string
  rc_fingerprint :: string
  rc_serverName :: string
  rc_spiderX :: string
  rc_mldsa65Verify :: string

record reality_settings =
  re_show :: bool
  re_xver :: int
  re_target :: string
  re_serverNames :: "string list"
  re_privateKey :: string
  re_minClientVer :: string
  re_maxClientVer :: string
  re_maxTimediff :: int
  re_shortIds :: "string list"
  re_mldsa65Seed :: string
  re_client :: reality_client

datatype security_settings =
    SecNone
  | SecTls tls_settings
  | SecReality reality_settings
  | SecAbsent

fun security_name :: "security_settings \<Rightarrow> string option" where
  "security_name SecNone = Some ''none''"
| "security_name (SecTls _) = Some ''tls''"
| "security_name (SecReality _) = Some ''reality''"
| "security_name SecAbsent = None"

text \<open>A REALITY block may call its target \<open>dest\<close>.\<close>

definition aliasRealityDest :: "js \<Rightarrow> js" where
  "aliasRealityDest v =
     (case v of
        JObj obj \<Rightarrow>
          (let hasTarget = (case oget obj ''target'' of JStr t \<Rightarrow> t \<noteq> [] | _ \<Rightarrow> False) in
           case oget obj ''dest'' of
             JStr d \<Rightarrow> if \<not> hasTarget \<and> d \<noteq> [] then JObj (oput ''target'' (JStr d) obj) else v
           | _ \<Rightarrow> v)
      | _ \<Rightarrow> v)"

section \<open>Stream settings\<close>

datatype force_tls = Same | Force_Tls | Force_None

record external_proxy =
  ep_forceTls :: force_tls
  ep_dest :: string
  ep_port :: int
  ep_remark :: string
  ep_sni :: "string option"
  ep_fingerprint :: "string option"
  ep_alpn :: "string list option"
  ep_pinnedPeerCertSha256 :: "string list option"
  ep_echConfigList :: "string option"

record stream_settings =
  st_network :: network_settings
  st_security :: security_settings
  st_externalProxy :: "external_proxy list option"
  st_finalmask :: js
  st_sockopt :: js

section \<open>Protocol settings\<close>

text \<open>The fields of a client row that the generators read; a row of any protocol has this shape.\<close>

record client_shape =
  cl_id :: "string option"
  cl_security :: "string option"
  cl_flow :: "string option"
  cl_password :: "string option"
  cl_auth :: "string option"
  cl_email :: "string option"

record vless_settings =
  vl_clients :: "client_shape list option"
  vl_decryption :: string
  vl_encryption :: string
  vl_fallbacks :: "js list"
  vl_testseed :: "int list option"

record shadowsocks_settings =
  ss_inb_method :: string
  ss_inb_password :: string
  ss_inb_network :: string
  ss_inb_clients :: "client_shape list option"
  ss_inb_ivCheck :: bool

record hysteria_settings =
  hy_version :: int
  hy_clients :: "client_shape list option"

record wg_peer =
  wp_privateKey :: "string option"
  wp_publicKey :: string
  wp_preSharedKey :: "string option"
  wp_allowedIPs :: "string list"
  wp_keepAlive :: "int option"
  wp_comment :: "string option"

record wireguard_settings =
  wg_mtu :: "int option"
  wg_secretKey :: string
  wg_peers :: "wg_peer list"
  wg_noKernelTun :: bool
  wg_workers :: "int option"
  wg_domainStrategy :: "string option"

datatype inbound_settings =
    InVmess "client_shape list option"
  | InVless vless_settings
  | InTrojan "client_shape list option" "js list"
  | InShadowsocks shadowsocks_settings
  | InWireguard wireguard_settings
  | InHysteria hysteria_settings
  | InHttp jobj
  | InMixed jobj
  | InTunnel jobj
  | InTun jobj
  | InMtproto "string option" jobj

fun protocol_name :: "inbound_settings \<Rightarrow> string" where
  "protocol_name (InVmess _) = ''vmess''"
| "protocol_name (InVless _) = ''vless''"
| "protocol_name (InTrojan _ _) = ''trojan''"
| "protocol_name (InShadowsocks _) = ''shadowsocks''"
| "protocol_name (InWireguard _) = ''wireguard''"
| "protocol_name (InHysteria _) = ''hysteria''"
| "protocol_name (InHttp _) = ''http''"
| "protocol_name (InMixed _) = ''mixed''"
| "protocol_name (InTunnel _) = ''tunnel''"
| "protocol_name (InTun _) = ''tun''"
| "protocol_name (InMtproto _ _) = ''mtproto''"

section \<open>The inbound row\<close>

record inbound =
  in_id :: "int option"
  in_up :: int
  in_down :: int
  in_total :: int
  in_remark :: string
  in_enable :: bool
  in_expiryTime :: int
  in_listen :: string
  in_port :: int
  in_tag :: string
  in_shareAddrStrategy :: string
  in_shareAddr :: "string option"
  in_sniffing :: js
  in_stream :: "stream_settings option"
  in_settings :: inbound_settings

section \<open>Facts about the alias\<close>

lemma alias_idem: "aliasRealityDest (aliasRealityDest v) = aliasRealityDest v"
  by (auto simp: aliasRealityDest_def Let_def split: js.splits if_splits)

lemma alias_keeps_target:
  "oget obj ''target'' = JStr t \<Longrightarrow> t \<noteq> [] \<Longrightarrow> aliasRealityDest (JObj obj) = JObj obj"
  by (simp add: aliasRealityDest_def Let_def split: js.splits)

section \<open>A sample row\<close>

definition plain_tls :: tls_settings where
  "plain_tls = \<lparr>tls_serverName = ''example.com'', tls_minVersion = ''1.2'', tls_maxVersion = ''1.3'',
     tls_cipherSuites = [], tls_rejectUnknownSni = False, tls_disableSystemRoot = False,
     tls_enableSessionResumption = False, tls_certificates = [], tls_alpn = [''h2'', ''http/1.1''],
     tls_echServerKeys = [],
     tls_client = \<lparr>tc_fingerprint = ''chrome'', tc_echConfigList = [], tc_pinnedPeerCertSha256 = []\<rparr>\<rparr>"

definition sample_ws :: ws_settings where
  "sample_ws = \<lparr>ws_acceptProxyProtocol = False, ws_path = ''/chat'', ws_host = ''cdn.example.com'',
     ws_headers = [], ws_heartbeatPeriod = 0\<rparr>"

definition sample_stream :: "network_settings \<Rightarrow> security_settings \<Rightarrow> stream_settings" where
  "sample_stream n s = \<lparr>st_network = n, st_security = s, st_externalProxy = None,
     st_finalmask = JUndef, st_sockopt = JUndef\<rparr>"

definition sample_inbound :: "inbound_settings \<Rightarrow> stream_settings option \<Rightarrow> inbound" where
  "sample_inbound st stream = \<lparr>in_id = Some 1, in_up = 0, in_down = 0, in_total = 0, in_remark = ''r'',
     in_enable = True, in_expiryTime = 0, in_listen = [], in_port = 443, in_tag = [],
     in_shareAddrStrategy = ''node'', in_shareAddr = None, in_sniffing = JUndef,
     in_stream = stream, in_settings = st\<rparr>"

end
