(* ===== verification/Share_Link.thy ===== *)
theory Share_Link
  imports Share_Model Base64_Text Web_Url Wireguard_Keys
begin

text \<open>
  \<open>lib/xray/inbound-link.ts\<close>: share links generated from an inbound and a client.

  A generator that calls \<open>new URL\<close> can throw; its result is an option, \<open>None\<close> for the exception.
  The empty string is the code's answer for an inbound that has no such link. The optional
  arguments of an input are options, and their defaults are filled in where the code destructures
  them. Query parameters are a list in insertion order.
\<close>

section \<open>Hosts\<close>

definition strip_brackets :: "string \<Rightarrow> string" where
  "strip_brackets s =
     (let t = (if starts_with s ''['' then drop 1 s else s) in
      if ends_with t '']'' then butlast t else t)"

definition formatUrlHost :: "string \<Rightarrow> string" where
  "formatUrlHost address =
     (let bare = strip_brackets address in
      if CHR '':'' \<in> set bare then ''['' @ bare @ '']'' else bare)"

section \<open>XHTTP extras\<close>

text \<open>A string field of the block, as the schema types it.\<close>

definition str_field :: "jobj \<Rightarrow> string \<Rightarrow> string" where
  "str_field x k = (case oget x k of JStr s \<Rightarrow> s | _ \<Rightarrow> [])"

fun js_hval :: "js \<Rightarrow> hval option" where
  "js_hval (JStr s) = Some (HStr s)"
| "js_hval (JArr xs) = Some (HArr (str_items xs))"
| "js_hval _ = None"

definition js_v2 :: "js \<Rightarrow> v2map option" where
  "js_v2 v =
     (case v of
        JObj o1 \<Rightarrow> Some (List.map_filter (\<lambda>(k, w). map_option (Pair k) (js_hval w)) o1)
      | _ \<Rightarrow> None)"

definition xhttpHostFallback :: "jobj \<Rightarrow> string" where
  "xhttpHostFallback xhttp = getHeaderValue (js_v2 (oget xhttp ''headers'')) ''host''"

definition put_filled :: "jobj \<Rightarrow> string \<Rightarrow> jobj \<Rightarrow> jobj" where
  "put_filled xhttp k extra = (if str_field xhttp k \<noteq> [] then oput k (JStr (str_field xhttp k)) extra else extra)"

definition xhttp_string_fields :: "string list" where
  "xhttp_string_fields =
     [''uplinkHTTPMethod'', ''sessionPlacement'', ''sessionKey'', ''seqPlacement'', ''seqKey'',
      ''uplinkDataPlacement'', ''uplinkDataKey'', ''scMaxEachPostBytes'']"

definition core_default :: "string \<Rightarrow> string \<Rightarrow> bool" where
  "core_default k v \<longleftrightarrow> k = ''scMaxEachPostBytes'' \<and> v = ''1000000''"

definition extra_headers :: "js \<Rightarrow> jobj" where
  "extra_headers h =
     (case h of
        JObj o1 \<Rightarrow> fold (\<lambda>(name, v) acc. if to_lower name = ''host'' then acc else oset name v acc) o1 []
      | _ \<Rightarrow> [])"

definition buildXhttpExtra :: "jobj \<Rightarrow> jobj option" where
  "buildXhttpExtra xhttp =
     (let extra = put_filled xhttp ''mode'' [];
          extra = put_filled xhttp ''xPaddingBytes'' extra;
          extra = (if oget xhttp ''xPaddingObfsMode'' = JBool True then
                     fold (put_filled xhttp) [''xPaddingKey'', ''xPaddingHeader'', ''xPaddingPlacement'', ''xPaddingMethod'']
                       (oput ''xPaddingObfsMode'' (JBool True) extra)
                   else extra);
          extra = fold (\<lambda>k e. if core_default k (str_field xhttp k) then e else put_filled xhttp k e)
                    xhttp_string_fields extra;
          hs = extra_headers (oget xhttp ''headers'');
          extra = (if hs \<noteq> [] then oput ''headers'' (JObj hs) extra else extra)
      in if extra = [] then None else Some extra)"

definition applyXhttpExtraToObj :: "jobj \<Rightarrow> jobj \<Rightarrow> jobj" where
  "applyXhttpExtraToObj xhttp obj =
     (let obj = (if str_field xhttp ''xPaddingBytes'' \<noteq> []
                 then oput ''x_padding_bytes'' (JStr (str_field xhttp ''xPaddingBytes'')) obj else obj)
      in case buildXhttpExtra xhttp of
           None \<Rightarrow> obj
         | Some extra \<Rightarrow> fold (\<lambda>(k, v). oput k v) extra obj)"

section \<open>Finalmask\<close>

fun hasShareableFinalMaskValue :: "js \<Rightarrow> bool" where
  "hasShareableFinalMaskValue JUndef = False"
| "hasShareableFinalMaskValue JNull = False"
| "hasShareableFinalMaskValue (JArr xs) = list_ex hasShareableFinalMaskValue xs"
| "hasShareableFinalMaskValue (JObj o1) = list_ex (\<lambda>p. hasShareableFinalMaskValue (snd p)) o1"
| "hasShareableFinalMaskValue (JStr s) = (s \<noteq> [])"
| "hasShareableFinalMaskValue (JBool _) = True"
| "hasShareableFinalMaskValue (JNum _) = True"

definition serializeFinalMask :: "js \<Rightarrow> string" where
  "serializeFinalMask fm =
     (if \<not> truthy fm then [] else if hasShareableFinalMaskValue fm then json_stringify fm else [])"

definition applyFinalMaskToObj :: "js \<Rightarrow> jobj \<Rightarrow> jobj" where
  "applyFinalMaskToObj fm obj =
     (let payload = serializeFinalMask fm in if payload \<noteq> [] then oput ''fm'' (JStr payload) obj else obj)"

section \<open>External proxies\<close>

definition externalProxyList :: "string list option \<Rightarrow> string" where
  "externalProxyList v = (case v of Some xs \<Rightarrow> join '','' (non_empty xs) | None \<Rightarrow> [])"

definition externalProxyAlpn :: "string list option \<Rightarrow> string" where
  "externalProxyAlpn v = externalProxyList v"

definition externalProxyPins :: "string list option \<Rightarrow> string" where
  "externalProxyPins v = externalProxyList v"

text \<open>
  The TLS fields an entry overrides, as the pairs both writers set: in an object or in a query.
\<close>

definition ep_tls_fields :: "external_proxy \<Rightarrow> (string \<times> string) list" where
  "ep_tls_fields ep =
     filter (\<lambda>p. snd p \<noteq> [])
       [(''sni'', sor (or_empty (ep_sni ep)) (ep_dest ep)), (''fp'', or_empty (ep_fingerprint ep)),
        (''alpn'', externalProxyAlpn (ep_alpn ep)), (''pcs'', externalProxyPins (ep_pinnedPeerCertSha256 ep)),
        (''ech'', or_empty (ep_echConfigList ep))]"

definition applyExternalProxyTLSObj :: "external_proxy option \<Rightarrow> jobj \<Rightarrow> string \<Rightarrow> jobj" where
  "applyExternalProxyTLSObj ep obj security =
     (case ep of
        None \<Rightarrow> obj
      | Some e \<Rightarrow> if security \<noteq> ''tls'' then obj
                  else fold (\<lambda>(k, v). oput k (JStr v)) (ep_tls_fields e) obj)"

definition applyExternalProxyTLSParams :: "external_proxy option \<Rightarrow> params \<Rightarrow> string \<Rightarrow> params" where
  "applyExternalProxyTLSParams ep ps security =
     (case ep of
        None \<Rightarrow> ps
      | Some e \<Rightarrow> if security \<noteq> ''tls'' then ps
                  else fold (\<lambda>(k, v). params_set k v) (ep_tls_fields e) ps)"

section \<open>VMess\<close>

definition force_security :: "force_tls \<Rightarrow> string option \<Rightarrow> string option" where
  "force_security f s =
     (case f of Same \<Rightarrow> s | Force_Tls \<Rightarrow> Some ''tls'' | Force_None \<Rightarrow> Some ''none'')"

definition opt_js :: "string option \<Rightarrow> js" where
  "opt_js x = (case x of None \<Rightarrow> JUndef | Some s \<Rightarrow> JStr s)"

definition http_host :: "tcp_request \<Rightarrow> tcp_response option \<Rightarrow> string" where
  "http_host rq rs =
     sor (getHeaderValue (map_option tr_headers rs) ''host'') (getHeaderValue (Some (tq_headers rq)) ''host'')"

record vmess_input =
  vm_inbound :: inbound
  vm_address :: string
  vm_port :: "int option"
  vm_forceTls :: "force_tls option"
  vm_remark :: "string option"
  vm_clientId :: string
  vm_security :: "string option"
  vm_externalProxy :: "external_proxy option"

definition vmess_network :: "network_settings \<Rightarrow> jobj \<Rightarrow> jobj" where
  "vmess_network n obj =
     (case n of
        NetTcp tcp \<Rightarrow>
          (case tcp_header tcp of
             None \<Rightarrow> oput ''type'' (JStr ''none'') obj
           | Some HeaderNone \<Rightarrow> oput ''type'' (JStr ''none'') obj
           | Some (HeaderHttp rq rs) \<Rightarrow>
               (let obj = oput ''type'' (JStr ''http'') obj in
                case rq of
                  None \<Rightarrow> obj
                | Some request \<Rightarrow>
                    (let obj = oput ''path'' (JStr (join '','' (tq_path request))) obj;
                         host = http_host request rs
                     in if host \<noteq> [] then oput ''host'' (JStr host) obj else obj)))
      | NetKcp kcp \<Rightarrow> oput ''tti'' (JInt (kcp_tti kcp)) (oput ''mtu'' (JInt (kcp_mtu kcp)) obj)
      | NetWs ws \<Rightarrow>
          oput ''host'' (JStr (if ws_host ws \<noteq> [] then ws_host ws else getHeaderValue (Some (ws_headers ws)) ''host''))
            (oput ''path'' (JStr (ws_path ws)) obj)
      | NetGrpc g \<Rightarrow>
          (let obj = oput ''authority'' (JStr (grpc_authority g)) (oput ''path'' (JStr (grpc_serviceName g)) obj)
           in if grpc_multiMode g then oput ''type'' (JStr ''multi'') obj else obj)
      | NetHttpupgrade hu \<Rightarrow>
          oput ''host'' (JStr (if hu_host hu \<noteq> [] then hu_host hu else getHeaderValue (Some (hu_headers hu)) ''host''))
            (oput ''path'' (JStr (hu_path hu)) obj)
      | NetXhttp x \<Rightarrow>
          applyXhttpExtraToObj x
            (oput ''type'' (oget x ''mode'')
              (oput ''host'' (JStr (if str_field x ''host'' \<noteq> [] then str_field x ''host'' else xhttpHostFallback x))
                (oput ''path'' (JStr (str_field x ''path'')) obj)))
      | NetHysteria _ \<Rightarrow> obj
      | NetAbsent \<Rightarrow> obj)"

definition vmess_tls :: "tls_settings \<Rightarrow> jobj \<Rightarrow> jobj" where
  "vmess_tls t obj =
     (let c = tls_client t;
          put = (\<lambda>k s obj. if s \<noteq> [] then oput k (JStr s) obj else obj);
          obj = put ''sni'' (tls_serverName t) obj;
          obj = put ''fp'' (tc_fingerprint c) obj;
          obj = (if tls_alpn t \<noteq> [] then oput ''alpn'' (JStr (join '','' (tls_alpn t))) obj else obj);
          obj = put ''ech'' (tc_echConfigList c) obj
      in if tc_pinnedPeerCertSha256 c \<noteq> []
         then oput ''pcs'' (JStr (join '','' (tc_pinnedPeerCertSha256 c))) obj else obj)"

definition vmess_obj :: "vmess_input \<Rightarrow> stream_settings \<Rightarrow> jobj" where
  "vmess_obj i stream =
     (let port = (case vm_port i of None \<Rightarrow> in_port (vm_inbound i) | Some p \<Rightarrow> p);
          forceTls = (case vm_forceTls i of None \<Rightarrow> Same | Some f \<Rightarrow> f);
          tls = (case force_security forceTls (security_name (st_security stream)) of
                   None \<Rightarrow> ''none'' | Some s \<Rightarrow> s);
          obj = [(''v'', JStr ''2''), (''ps'', JStr (or_empty (vm_remark i))), (''add'', JStr (vm_address i)),
                 (''port'', JInt port), (''id'', JStr (vm_clientId i)), (''scy'', opt_js (vm_security i)),
                 (''net'', opt_js (network_name (st_network stream))), (''tls'', JStr tls)];
          obj = vmess_network (st_network stream) obj;
          obj = applyFinalMaskToObj (st_finalmask stream) obj;
          obj = (case st_security stream of
                   SecTls t \<Rightarrow> if tls = ''tls'' then vmess_tls t obj else obj
                 | _ \<Rightarrow> obj)
      in applyExternalProxyTLSObj (vm_externalProxy i) obj tls)"

definition genVmessLink :: "vmess_input \<Rightarrow> string" where
  "genVmessLink i =
     (case in_settings (vm_inbound i) of
        InVmess _ \<Rightarrow>
          (case in_stream (vm_inbound i) of
             None \<Rightarrow> []
           | Some stream \<Rightarrow> ''vmess://'' @ base64_encode (json_stringify2 (JObj (vmess_obj i stream))))
      | _ \<Rightarrow> [])"

section \<open>Query writers\<close>

definition params_put :: "string \<Rightarrow> string \<Rightarrow> params \<Rightarrow> params" where
  "params_put k v ps = (if v \<noteq> [] then params_set k v ps else ps)"

definition applyXhttpExtraToParams :: "jobj \<Rightarrow> params \<Rightarrow> params" where
  "applyXhttpExtraToParams xhttp ps =
     (let ps = params_set ''path'' (str_field xhttp ''path'') ps;
          host = (if str_field xhttp ''host'' \<noteq> [] then str_field xhttp ''host'' else xhttpHostFallback xhttp);
          ps = params_set ''host'' host ps;
          ps = params_set ''mode'' (str_field xhttp ''mode'') ps;
          ps = params_put ''x_padding_bytes'' (str_field xhttp ''xPaddingBytes'') ps
      in case buildXhttpExtra xhttp of
           None \<Rightarrow> ps
         | Some extra \<Rightarrow> params_set ''extra'' (json_stringify (JObj extra)) ps)"

definition applyFinalMaskToParams :: "js \<Rightarrow> params \<Rightarrow> params" where
  "applyFinalMaskToParams fm ps = params_put ''fm'' (serializeFinalMask fm) ps"

text \<open>VLESS spells the same branches out in place; they are the same writes.\<close>

definition writeNetworkParams :: "network_settings \<Rightarrow> params \<Rightarrow> params" where
  "writeNetworkParams n ps =
     (case n of
        NetTcp tcp \<Rightarrow>
          (case tcp_header tcp of
             Some (HeaderHttp (Some request) rs) \<Rightarrow>
               (let ps = params_set ''path'' (join '','' (tq_path request)) ps;
                    ps = params_put ''host'' (http_host request rs) ps
                in params_set ''headerType'' ''http'' ps)
           | _ \<Rightarrow> ps)
      | NetKcp kcp \<Rightarrow> params_set ''tti'' (int_str (kcp_tti kcp)) (params_set ''mtu'' (int_str (kcp_mtu kcp)) ps)
      | NetWs ws \<Rightarrow>
          params_set ''host'' (if ws_host ws \<noteq> [] then ws_host ws else getHeaderValue (Some (ws_headers ws)) ''host'')
            (params_set ''path'' (ws_path ws) ps)
      | NetGrpc g \<Rightarrow>
          (let ps = params_set ''authority'' (grpc_authority g) (params_set ''serviceName'' (grpc_serviceName g) ps)
           in if grpc_multiMode g then params_set ''mode'' ''multi'' ps else ps)
      | NetHttpupgrade hu \<Rightarrow>
          params_set ''host'' (if hu_host hu \<noteq> [] then hu_host hu else getHeaderValue (Some (hu_headers hu)) ''host'')
            (params_set ''path'' (hu_path hu) ps)
      | NetXhttp x \<Rightarrow> applyXhttpExtraToParams x ps
      | NetHysteria _ \<Rightarrow> ps
      | NetAbsent \<Rightarrow> ps)"

definition vless_tls_params :: "tls_settings \<Rightarrow> params \<Rightarrow> params" where
  "vless_tls_params t ps =
     (let c = tls_client t;
          ps = params_set ''fp'' (tc_fingerprint c) ps;
          ps = params_set ''alpn'' (join '','' (tls_alpn t)) ps;
          ps = params_put ''sni'' (tls_serverName t) ps;
          ps = params_put ''ech'' (tc_echConfigList c) ps
      in if tc_pinnedPeerCertSha256 c \<noteq> []
         then params_set ''pcs'' (join '','' (tc_pinnedPeerCertSha256 c)) ps else ps)"

definition writeTlsParams :: "security_settings \<Rightarrow> params \<Rightarrow> params" where
  "writeTlsParams s ps =
     (case s of
        SecTls t \<Rightarrow>
          (let c = tls_client t;
               ps = params_set ''fp'' (tc_fingerprint c) ps;
               ps = params_set ''alpn'' (join '','' (tls_alpn t)) ps;
               ps = params_put ''ech'' (tc_echConfigList c) ps;
               ps = params_put ''sni'' (tls_serverName t) ps
           in if tc_pinnedPeerCertSha256 c \<noteq> []
              then params_set ''pcs'' (join '','' (tc_pinnedPeerCertSha256 c)) ps else ps)
      | _ \<Rightarrow> ps)"

text \<open>\<open>xs?.[0]\<close> and \<open>target?.split(':')[0]\<close>, both falling through when empty.\<close>

definition first_or_empty :: "string list \<Rightarrow> string" where
  "first_or_empty xs = (case xs of [] \<Rightarrow> [] | x # _ \<Rightarrow> x)"

definition reality_sni :: "reality_settings \<Rightarrow> string" where
  "reality_sni r =
     sor (rc_serverName (re_client r))
       (sor (first_or_empty (re_serverNames r)) (before_char CHR '':'' (re_target r)))"

definition writeRealityParams :: "security_settings \<Rightarrow> params \<Rightarrow> params" where
  "writeRealityParams s ps =
     (case s of
        SecReality r \<Rightarrow>
          (let c = re_client r;
               ps = params_set ''pbk'' (rc_publicKey c) ps;
               ps = params_set ''fp'' (rc_fingerprint c) ps;
               ps = params_put ''sni'' (reality_sni r) ps;
               ps = (case re_shortIds r of [] \<Rightarrow> ps | sid # _ \<Rightarrow> params_set ''sid'' sid ps);
               ps = params_put ''spx'' (rc_spiderX c) ps
           in params_put ''pqv'' (rc_mldsa65Verify c) ps)
      | _ \<Rightarrow> ps)"

text \<open>
  The common tail of the URL-shaped links: parse the base, copy the parameters over, set the
  fragment, serialise.
\<close>

definition link_url :: "(string \<Rightarrow> string option) \<Rightarrow> string \<Rightarrow> params \<Rightarrow> string \<Rightarrow> string option" where
  "link_url ip6 base ps remark =
     map_option (\<lambda>u. url_href (url_set_hash (encode_uri_component remark) (url_search_sets ps u)))
       (parse_url ip6 base)"

definition link_base :: "string \<Rightarrow> string \<Rightarrow> string \<Rightarrow> int \<Rightarrow> string" where
  "link_base scheme userinfo address port =
     scheme @ ''://'' @ userinfo @ ''@'' @ formatUrlHost address @ '':'' @ int_str port"

section \<open>VLESS and Trojan\<close>

record url_input =
  gi_inbound :: inbound
  gi_address :: string
  gi_port :: "int option"
  gi_forceTls :: "force_tls option"
  gi_remark :: "string option"
  gi_secret :: "string option"
  gi_flow :: "string option"
  gi_externalProxy :: "external_proxy option"

definition gi_port_of :: "url_input \<Rightarrow> int" where
  "gi_port_of i = (case gi_port i of None \<Rightarrow> in_port (gi_inbound i) | Some p \<Rightarrow> p)"

definition gi_security :: "url_input \<Rightarrow> stream_settings \<Rightarrow> string option" where
  "gi_security i stream =
     force_security (case gi_forceTls i of None \<Rightarrow> Same | Some f \<Rightarrow> f) (security_name (st_security stream))"

definition type_param :: "stream_settings \<Rightarrow> string" where
  "type_param stream = (case network_name (st_network stream) of None \<Rightarrow> ''tcp'' | Some n \<Rightarrow> n)"

definition vless_slice :: "vless_settings \<Rightarrow> stream_settings \<Rightarrow> cap_slice" where
  "vless_slice st stream =
     \<lparr>cap_protocol = ''vless'',
      cap_settings = Some \<lparr>cs_encryption = Some (vl_encryption st), cs_decryption = Some (vl_decryption st),
                           cs_method = None, cs_clients = map_option (map (\<lambda>c. Some (cl_flow c))) (vl_clients st)\<rparr>,
      cap_stream = Some \<lparr>ct_network = network_name (st_network stream),
                         ct_security = security_name (st_security stream)\<rparr>\<rparr>"

definition vless_params :: "url_input \<Rightarrow> vless_settings \<Rightarrow> stream_settings \<Rightarrow> params" where
  "vless_params i st stream =
     (let security = gi_security i stream;
          ps = params_set ''encryption'' (vl_encryption st) (params_set ''type'' (type_param stream) []);
          ps = writeNetworkParams (st_network stream) ps;
          ps = applyFinalMaskToParams (st_finalmask stream) ps;
          ps = (if security = Some ''tls'' then
                  (let ps = params_set ''security'' ''tls'' ps;
                       ps = (case st_security stream of SecTls t \<Rightarrow> vless_tls_params t ps | _ \<Rightarrow> ps)
                   in applyExternalProxyTLSParams (gi_externalProxy i) ps ''tls'')
                else if security = Some ''reality'' then
                  writeRealityParams (st_security stream) (params_set ''security'' ''reality'' ps)
                else params_set ''security'' ''none'' ps);
          flow = or_empty (gi_flow i)
      in if flow \<noteq> [] \<and> canEnableTlsFlow (vless_slice st stream) then params_set ''flow'' flow ps else ps)"

definition genVlessLink :: "(string \<Rightarrow> string option) \<Rightarrow> url_input \<Rightarrow> string option" where
  "genVlessLink ip6 i =
     (case (in_settings (gi_inbound i), in_stream (gi_inbound i)) of
        (InVless st, Some stream) \<Rightarrow>
          link_url ip6 (link_base ''vless'' (or_empty (gi_secret i)) (gi_address i) (gi_port_of i))
            (vless_params i st stream) (or_empty (gi_remark i))
      | _ \<Rightarrow> Some [])"

definition trojan_params :: "url_input \<Rightarrow> stream_settings \<Rightarrow> params" where
  "trojan_params i stream =
     (let security = gi_security i stream;
          ps = params_set ''type'' (type_param stream) [];
          ps = writeNetworkParams (st_network stream) ps;
          ps = applyFinalMaskToParams (st_finalmask stream) ps
      in if security = Some ''tls'' then
           applyExternalProxyTLSParams (gi_externalProxy i)
             (writeTlsParams (st_security stream) (params_set ''security'' ''tls'' ps)) ''tls''
         else if security = Some ''reality'' then
           writeRealityParams (st_security stream) (params_set ''security'' ''reality'' ps)
         else params_set ''security'' ''none'' ps)"

definition genTrojanLink :: "(string \<Rightarrow> string option) \<Rightarrow> url_input \<Rightarrow> string option" where
  "genTrojanLink ip6 i =
     (case (in_settings (gi_inbound i), in_stream (gi_inbound i)) of
        (InTrojan _ _, Some stream) \<Rightarrow>
          link_url ip6
            (link_base ''trojan'' (encode_uri_component (or_empty (gi_secret i))) (gi_address i) (gi_port_of i))
            (trojan_params i stream) (or_empty (gi_remark i))
      | _ \<Rightarrow> Some [])"

section \<open>Shadowsocks\<close>

definition ss_params :: "url_input \<Rightarrow> stream_settings \<Rightarrow> params" where
  "ss_params i stream =
     (let ps = params_set ''type'' (type_param stream) [];
          ps = writeNetworkParams (st_network stream) ps;
          ps = applyFinalMaskToParams (st_finalmask stream) ps;
          ps = (if gi_security i stream = Some ''tls'' then
                  applyExternalProxyTLSParams (gi_externalProxy i)
                    (writeTlsParams (st_security stream) (params_set ''security'' ''tls'' ps)) ''tls''
                else ps)
      in if type_param stream = ''tcp'' \<and> params_get ps ''headerType'' = Some ''http'' then
           (let host = (case params_get ps ''host'' of None \<Rightarrow> [] | Some h \<Rightarrow> h);
                ps = fold params_del [''type'', ''headerType'', ''host'', ''path''] ps
            in params_set ''plugin'' (''obfs-local;obfs=http;obfs-host='' @ host) ps)
         else ps)"

definition ss_passwords :: "shadowsocks_settings \<Rightarrow> string \<Rightarrow> string list" where
  "ss_passwords st clientPassword =
     (if take 4 (ss_inb_method st) = ''2022'' then [ss_inb_password st] else [])
     @ (if ss_inb_method st \<noteq> ''2022-blake3-chacha20-poly1305'' then [clientPassword] else [])"

definition genShadowsocksLink :: "(string \<Rightarrow> string option) \<Rightarrow> url_input \<Rightarrow> string option" where
  "genShadowsocksLink ip6 i =
     (case (in_settings (gi_inbound i), in_stream (gi_inbound i)) of
        (InShadowsocks st, Some stream) \<Rightarrow>
          (let ps = ss_params i stream; passwords = ss_passwords st (or_empty (gi_secret i));
               port = gi_port_of i; remark = or_empty (gi_remark i) in
           if take 4 (ss_inb_method st) = ''2022'' then
             (let userinfo = join '':'' (map encode_uri_component (ss_inb_method st # passwords));
                  query = params_str ps
              in Some (link_base ''ss'' userinfo (gi_address i) port
                   @ (if query \<noteq> [] then ''?'' @ query else []) @ ''#'' @ encode_uri_component remark))
           else
             (let userinfo = base64_encode_safe (ss_inb_method st @ '':'' @ join '':'' passwords)
              in link_url ip6 (link_base ''ss'' userinfo (gi_address i) port) ps remark))
      | _ \<Rightarrow> Some [])"

section \<open>Hysteria\<close>

definition is_hex :: "char \<Rightarrow> bool" where
  "is_hex c = (radix_digit 16 c \<noteq> None)"

definition byte_hex :: "char \<Rightarrow> string" where
  "byte_hex c = [hex_digit (byte c div 16), hex_digit (byte c mod 16)]"

definition hysteriaPinHex :: "string \<Rightarrow> string" where
  "hysteriaPinHex pin =
     (let stripped = filter (\<lambda>c. c \<noteq> CHR '':'') (trim pin) in
      if length stripped = 64 \<and> list_all is_hex stripped then to_lower stripped
      else
        (case atob (replace_char CHR ''_'' CHR ''/'' (replace_char CHR ''-'' CHR ''+'' (trim pin))) of
           None \<Rightarrow> pin
         | Some binary \<Rightarrow> if length binary \<noteq> 32 then pin else concat (map byte_hex binary)))"

definition find_mask :: "js list \<Rightarrow> js" where
  "find_mask ms = (case find (\<lambda>m. jget m ''type'' = JStr ''salamander'') ms of Some m \<Rightarrow> m | None \<Rightarrow> JUndef)"

definition hysteria_params :: "url_input \<Rightarrow> tls_settings \<Rightarrow> stream_settings \<Rightarrow> params" where
  "hysteria_params i t stream =
     (let c = tls_client t; fm = st_finalmask stream;
          ps = params_set ''security'' ''tls'' [];
          ps = params_put ''fp'' (tc_fingerprint c) ps;
          ps = (if tls_alpn t \<noteq> [] then params_set ''alpn'' (join '','' (tls_alpn t)) ps else ps);
          ps = params_put ''ech'' (tc_echConfigList c) ps;
          ps = params_put ''sni'' (tls_serverName t) ps;
          ps = (if tc_pinnedPeerCertSha256 c \<noteq> []
                then params_set ''pinSHA256'' (join '','' (map hysteriaPinHex (tc_pinnedPeerCertSha256 c))) ps else ps);
          ps = (case Option.bind (gi_externalProxy i) ep_pinnedPeerCertSha256 of
                  None \<Rightarrow> ps
                | Some pins \<Rightarrow>
                    (let epPins = map hysteriaPinHex (non_empty pins) in
                     if epPins \<noteq> [] then params_set ''pinSHA256'' (join '','' epPins) ps else ps));
          ps = (case jget fm ''udp'' of
                  JArr udpMasks \<Rightarrow>
                    (case jget (jget (find_mask udpMasks) ''settings'') ''password'' of
                       JStr pw \<Rightarrow> if pw \<noteq> [] then params_set ''obfs-password'' pw (params_set ''obfs'' ''salamander'' ps) else ps
                     | _ \<Rightarrow> ps)
                | _ \<Rightarrow> ps);
          ps = applyFinalMaskToParams fm ps
      in case jget (jget (jget fm ''quicParams'') ''udpHop'') ''ports'' of
           JStr ports \<Rightarrow> params_put ''mport'' (trim ports) ps
         | _ \<Rightarrow> ps)"

definition genHysteriaLink :: "(string \<Rightarrow> string option) \<Rightarrow> url_input \<Rightarrow> string option" where
  "genHysteriaLink ip6 i =
     (case (in_settings (gi_inbound i), in_stream (gi_inbound i)) of
        (InHysteria st, Some stream) \<Rightarrow>
          (case st_security stream of
             SecTls t \<Rightarrow>
               link_url ip6
                 (link_base (if hy_version st = 2 then ''hysteria2'' else ''hysteria'')
                   (or_empty (gi_secret i)) (gi_address i) (gi_port_of i))
                 (hysteria_params i t stream) (or_empty (gi_remark i))
           | _ \<Rightarrow> Some [])
      | _ \<Rightarrow> Some [])"

section \<open>MTProto and WireGuard\<close>

definition genMtprotoLink :: "(string \<Rightarrow> string option) \<Rightarrow> inbound \<Rightarrow> string \<Rightarrow> int option \<Rightarrow> string option" where
  "genMtprotoLink ip6 inb address port =
     (case in_settings inb of
        InMtproto secret _ \<Rightarrow>
          (if or_empty secret = [] then Some []
           else map_option (\<lambda>u. url_href
                  (url_search_set ''secret'' (or_empty secret)
                    (url_search_set ''port'' (int_str (case port of None \<Rightarrow> in_port inb | Some p \<Rightarrow> p))
                      (url_search_set ''server'' address u))))
                (parse_url ip6 ''tg://proxy''))
      | _ \<Rightarrow> Some [])"

record wg_input =
  wi_settings :: wireguard_settings
  wi_address :: string
  wi_port :: int
  wi_remark :: "string option"
  wi_peerIndex :: nat

definition wg_pubkey :: "wireguard_settings \<Rightarrow> string option" where
  "wg_pubkey st = (if wg_secretKey st \<noteq> [] then publicKey_of (wg_secretKey st) else Some [])"

definition wg_peer_at :: "wg_input \<Rightarrow> wg_peer option" where
  "wg_peer_at i =
     (if wi_peerIndex i < length (wg_peers (wi_settings i))
      then Some (wg_peers (wi_settings i) ! wi_peerIndex i) else None)"

definition genWireguardLink :: "(string \<Rightarrow> string option) \<Rightarrow> wg_input \<Rightarrow> string option" where
  "genWireguardLink ip6 i =
     (case wg_peer_at i of
        None \<Rightarrow> Some []
      | Some peer \<Rightarrow>
          Option.bind (parse_url ip6 (''wireguard://'' @ formatUrlHost (wi_address i) @ '':'' @ int_str (wi_port i))) (\<lambda>u.
          Option.bind (wg_pubkey (wi_settings i)) (\<lambda>pubKey.
            (let u = url_set_username (or_empty (wp_privateKey peer)) u;
                 u = (if pubKey \<noteq> [] then url_search_set ''publickey'' pubKey u else u);
                 a = first_or_empty (wp_allowedIPs peer);
                 u = (if a \<noteq> [] then url_search_set ''address'' a u else u);
                 u = (case wg_mtu (wi_settings i) of
                        Some m \<Rightarrow> if 0 < m then url_search_set ''mtu'' (int_str m) u else u
                      | None \<Rightarrow> u)
             in Some (url_href (url_set_hash (encode_uri_component (or_empty (wi_remark i))) u))))))"

definition nl :: string where "nl = [CHR 0x0A]"

definition genWireguardConfig :: "wg_input \<Rightarrow> string option" where
  "genWireguardConfig i =
     (case wg_peer_at i of
        None \<Rightarrow> Some []
      | Some peer \<Rightarrow>
          map_option (\<lambda>pubKey.
            ''[Interface]'' @ nl
            @ ''PrivateKey = '' @ or_empty (wp_privateKey peer) @ nl
            @ ''Address = '' @ first_or_empty (wp_allowedIPs peer) @ nl
            @ ''DNS = 1.1.1.1, 1.0.0.1'' @ nl
            @ (case wg_mtu (wi_settings i) of
                 Some m \<Rightarrow> if 0 < m then ''MTU = '' @ int_str m @ nl else [] | None \<Rightarrow> [])
            @ nl @ ''# '' @ or_empty (wi_remark i) @ nl
            @ ''[Peer]'' @ nl
            @ ''PublicKey = '' @ pubKey @ nl
            @ ''AllowedIPs = 0.0.0.0/0, ::/0'' @ nl
            @ ''Endpoint = '' @ wi_address i @ '':'' @ int_str (wi_port i)
            @ (if or_empty (wp_preSharedKey peer) \<noteq> []
               then nl @ ''PresharedKey = '' @ or_empty (wp_preSharedKey peer) else [])
            @ (case wp_keepAlive peer of
                 Some k \<Rightarrow> if 0 < k then nl @ ''PersistentKeepalive = '' @ int_str k @ nl else []
               | None \<Rightarrow> []))
            (wg_pubkey (wi_settings i)))"

section \<open>Which host a link names\<close>

definition isUnixSocketListen :: "string \<Rightarrow> bool" where
  "isUnixSocketListen listen \<longleftrightarrow> starts_with listen ''/'' \<or> starts_with listen ''@''"

definition label_ok :: "string \<Rightarrow> bool" where
  "label_ok w \<longleftrightarrow> w \<noteq> [] \<and> list_all (\<lambda>c. is_alnum c \<or> c = CHR ''-'') w \<and> is_alnum (hd w) \<and> is_alnum (last w)"

definition SHARE_HOSTNAME_RE :: "string \<Rightarrow> bool" where
  "SHARE_HOSTNAME_RE h \<longleftrightarrow> list_all label_ok (split_char CHR ''.'' h)"

text \<open>
  \<open>new URL('http://' + h).hostname\<close> for a bracketed \<open>h\<close>: the special scheme also ends the
  authority at a backslash. An exception gives the empty string.
\<close>

definition http_hostname :: "(string \<Rightarrow> string option) \<Rightarrow> string \<Rightarrow> string" where
  "http_hostname ip6 h =
     (case parse_authority ip6 (cut_at [CHR 0x5C] (clean_input h)) of
        Some (_, _, host, _) \<Rightarrow> host | None \<Rightarrow> [])"

definition normalizeShareHost :: "(string \<Rightarrow> string option) \<Rightarrow> string \<Rightarrow> string" where
  "normalizeShareHost ip6 host =
     (let h = trim host in
      if h = [] \<or> includes_str h ''://'' \<or> starts_with h ''//'' \<or> list_ex (\<lambda>c. c \<in> set ''/?#@'') h then []
      else if starts_with h ''['' then
        (if \<not> ends_with h '']'' then [] else http_hostname ip6 h)
      else if CHR '':'' \<in> set h then http_hostname ip6 (''['' @ h @ '']'')
      else if SHARE_HOSTNAME_RE h then h else [])"

definition isShareableHost :: "(string \<Rightarrow> string option) \<Rightarrow> string \<Rightarrow> bool" where
  "isShareableHost ip6 host =
     (let h = to_lower (strip_brackets (normalizeShareHost ip6 host)) in
      if h = [] then False
      else if h = ''0.0.0.0'' \<or> h = ''::'' \<or> h = ''::0'' then False
      else if h = ''localhost'' \<or> h = ''::1'' \<or> starts_with h ''127.'' then False
      else True)"

definition shareableListen :: "(string \<Rightarrow> string option) \<Rightarrow> inbound \<Rightarrow> string" where
  "shareableListen ip6 inb =
     (let listen = trim (in_listen inb) in
      if listen \<noteq> [] \<and> \<not> isUnixSocketListen listen \<and> isShareableHost ip6 listen
      then normalizeShareHost ip6 listen else [])"

definition shareAddrStrategy :: "inbound \<Rightarrow> string" where
  "shareAddrStrategy inb =
     (let s = in_shareAddrStrategy inb in if s = ''listen'' \<or> s = ''custom'' then s else ''node'')"

definition resolveAddr :: "(string \<Rightarrow> string option) \<Rightarrow> inbound \<Rightarrow> string \<Rightarrow> string \<Rightarrow> string" where
  "resolveAddr ip6 inb hostOverride fallbackHostname =
     (let nodeAddr = normalizeShareHost ip6 hostOverride;
          listenAddr = shareableListen ip6 inb;
          customAddr = normalizeShareHost ip6 (or_empty (in_shareAddr inb));
          fallbackAddr = normalizeShareHost ip6 fallbackHostname;
          s = shareAddrStrategy inb
      in if s = ''listen'' then sor listenAddr (sor nodeAddr fallbackAddr)
         else if s = ''custom'' then sor customAddr (sor nodeAddr (sor listenAddr fallbackAddr))
         else sor nodeAddr (sor listenAddr fallbackAddr))"

definition isLoopbackHost :: "string \<Rightarrow> bool" where
  "isLoopbackHost host =
     (let h = to_lower (strip_brackets (trim host)) in
      h = ''localhost'' \<or> h = ''::1'' \<or> starts_with h ''127.'')"

definition preferPublicHost :: "string \<Rightarrow> string \<Rightarrow> string" where
  "preferPublicHost browserHost publicHost =
     (if publicHost \<noteq> [] \<and> isLoopbackHost browserHost then publicHost else browserHost)"

section \<open>Fan-out\<close>

definition clients_or_empty :: "client_shape list option \<Rightarrow> client_shape list" where
  "clients_or_empty cs = (case cs of None \<Rightarrow> [] | Some xs \<Rightarrow> xs)"

definition getInboundClients :: "inbound \<Rightarrow> client_shape list option" where
  "getInboundClients inb =
     (case in_settings inb of
        InVmess cs \<Rightarrow> Some (clients_or_empty cs)
      | InVless st \<Rightarrow> Some (clients_or_empty (vl_clients st))
      | InTrojan cs _ \<Rightarrow> Some (clients_or_empty cs)
      | InHysteria st \<Rightarrow> Some (clients_or_empty (hy_clients st))
      | InShadowsocks st \<Rightarrow>
          (if ss_inb_method st \<noteq> ''2022-blake3-chacha20-poly1305''
           then Some (clients_or_empty (ss_inb_clients st)) else None)
      | _ \<Rightarrow> None)"

record link_input =
  li_inbound :: inbound
  li_address :: string
  li_port :: "int option"
  li_forceTls :: "force_tls option"
  li_remark :: "string option"
  li_client :: client_shape
  li_externalProxy :: "external_proxy option"

definition li_url :: "link_input \<Rightarrow> string option \<Rightarrow> string option \<Rightarrow> url_input" where
  "li_url i secret flow =
     \<lparr>gi_inbound = li_inbound i, gi_address = li_address i,
      gi_port = Some (case li_port i of None \<Rightarrow> in_port (li_inbound i) | Some p \<Rightarrow> p),
      gi_forceTls = Some (case li_forceTls i of None \<Rightarrow> Same | Some f \<Rightarrow> f),
      gi_remark = Some (or_empty (li_remark i)), gi_secret = secret, gi_flow = flow,
      gi_externalProxy = li_externalProxy i\<rparr>"

definition genLink :: "(string \<Rightarrow> string option) \<Rightarrow> link_input \<Rightarrow> string option" where
  "genLink ip6 i =
     (let c = li_client i; inb = li_inbound i;
          port = (case li_port i of None \<Rightarrow> in_port inb | Some p \<Rightarrow> p) in
      case in_settings inb of
        InVmess _ \<Rightarrow>
          Some (genVmessLink
            \<lparr>vm_inbound = inb, vm_address = li_address i, vm_port = Some port,
             vm_forceTls = Some (case li_forceTls i of None \<Rightarrow> Same | Some f \<Rightarrow> f),
             vm_remark = Some (or_empty (li_remark i)), vm_clientId = or_empty (cl_id c),
             vm_security = cl_security c, vm_externalProxy = li_externalProxy i\<rparr>)
      | InVless _ \<Rightarrow> genVlessLink ip6 (li_url i (Some (or_empty (cl_id c))) (cl_flow c))
      | InShadowsocks st \<Rightarrow>
          genShadowsocksLink ip6
            (li_url i (Some (if ss_inb_method st \<noteq> ''2022-blake3-chacha20-poly1305''
                             then or_empty (cl_password c) else [])) None)
      | InTrojan _ _ \<Rightarrow> genTrojanLink ip6 (li_url i (Some (or_empty (cl_password c))) None)
      | InHysteria _ \<Rightarrow> genHysteriaLink ip6 (li_url i (Some (or_empty (cl_auth c))) None)
      | InMtproto _ _ \<Rightarrow> genMtprotoLink ip6 inb (li_address i) (Some port)
      | _ \<Rightarrow> Some [])"

record all_input =
  al_inbound :: inbound
  al_remark :: "string option"
  al_client :: client_shape
  al_hostOverride :: "string option"
  al_fallbackHostname :: string

definition composeRemark :: "string \<Rightarrow> string \<Rightarrow> string" where
  "composeRemark remark proxyRemark = join ''-'' (non_empty [remark, proxyRemark])"

text \<open>Each entry is its remark and its link; a link may be the exception of its generator.\<close>

definition genAllLinks :: "(string \<Rightarrow> string option) \<Rightarrow> all_input \<Rightarrow> (string \<times> string option) list" where
  "genAllLinks ip6 i =
     (let inb = al_inbound i;
          addr = resolveAddr ip6 inb (or_empty (al_hostOverride i)) (al_fallbackHostname i);
          externals = (case Option.bind (in_stream inb) st_externalProxy of None \<Rightarrow> [] | Some es \<Rightarrow> es) in
      if externals = [] then
        (let r = composeRemark (or_empty (al_remark i)) [] in
         [(r, genLink ip6 \<lparr>li_inbound = inb, li_address = addr, li_port = Some (in_port inb),
                 li_forceTls = Some Same, li_remark = Some r, li_client = al_client i, li_externalProxy = None\<rparr>)])
      else
        map (\<lambda>ep.
          (let r = composeRemark (or_empty (al_remark i)) (ep_remark ep) in
           (r, genLink ip6 \<lparr>li_inbound = inb, li_address = ep_dest ep, li_port = Some (ep_port ep),
                  li_forceTls = Some (ep_forceTls ep), li_remark = Some r, li_client = al_client i,
                  li_externalProxy = Some ep\<rparr>))) externals)"

definition crlf :: string where "crlf = [CHR 0x0D, CHR 0x0A]"

definition wgPeerCommentSuffix :: "wg_peer \<Rightarrow> string" where
  "wgPeerCommentSuffix peer =
     (case wp_comment peer of
        Some c \<Rightarrow> if trim c \<noteq> [] then '' ('' @ trim c @ '')'' else []
      | None \<Rightarrow> [])"

record fanout_input =
  fo_inbound :: inbound
  fo_remark :: "string option"
  fo_hostOverride :: "string option"
  fo_fallbackHostname :: string

definition wg_fanout ::
  "(wg_input \<Rightarrow> string option) \<Rightarrow> (string \<Rightarrow> string option) \<Rightarrow> fanout_input \<Rightarrow> string option" where
  "wg_fanout gen ip6 i =
     (let inb = fo_inbound i in
      case in_settings inb of
        InWireguard st \<Rightarrow>
          (let addr = resolveAddr ip6 inb (or_empty (fo_hostOverride i)) (fo_fallbackHostname i) in
           map_option (join crlf)
             (all_some (map (\<lambda>k.
               gen \<lparr>wi_settings = st, wi_address = addr, wi_port = in_port inb,
                    wi_remark = Some (or_empty (fo_remark i) @ ''-'' @ nat_str (k + 1)
                                      @ wgPeerCommentSuffix (wg_peers st ! k)),
                    wi_peerIndex = k\<rparr>) [0 ..< length (wg_peers st)])))
      | _ \<Rightarrow> Some [])"

definition genWireguardLinks :: "(string \<Rightarrow> string option) \<Rightarrow> fanout_input \<Rightarrow> string option" where
  "genWireguardLinks ip6 i = wg_fanout (genWireguardLink ip6) ip6 i"

definition genWireguardConfigs :: "(string \<Rightarrow> string option) \<Rightarrow> fanout_input \<Rightarrow> string option" where
  "genWireguardConfigs ip6 i = wg_fanout genWireguardConfig ip6 i"

definition genInboundLinks :: "(string \<Rightarrow> string option) \<Rightarrow> fanout_input \<Rightarrow> string option" where
  "genInboundLinks ip6 i =
     (let inb = fo_inbound i;
          addr = resolveAddr ip6 inb (or_empty (fo_hostOverride i)) (fo_fallbackHostname i) in
      case getInboundClients inb of
        Some clients \<Rightarrow>
          map_option (join crlf)
            (all_some (concat (map (\<lambda>c. map snd (genAllLinks ip6
               \<lparr>al_inbound = inb, al_remark = Some (or_empty (fo_remark i)), al_client = c,
                al_hostOverride = Some (or_empty (fo_hostOverride i)),
                al_fallbackHostname = fo_fallbackHostname i\<rparr>)) clients)))
      | None \<Rightarrow>
          (case in_settings inb of
             InShadowsocks _ \<Rightarrow>
               genShadowsocksLink ip6
                 \<lparr>gi_inbound = inb, gi_address = addr, gi_port = Some (in_port inb), gi_forceTls = Some Same,
                  gi_remark = Some (or_empty (fo_remark i)), gi_secret = None, gi_flow = None,
                  gi_externalProxy = None\<rparr>
           | InWireguard _ \<Rightarrow> genWireguardConfigs ip6 i
           | _ \<Rightarrow> Some []))"

definition isPostQuantumLink :: "string \<Rightarrow> bool" where
  "isPostQuantumLink link \<longleftrightarrow>
     includes_str link ''?pqv='' \<or> includes_str link ''&pqv='' \<or> includes_str link ''mlkem768''
     \<or> includes_str link ''mldsa65'' \<or> includes_str link ''ML-KEM-768''"

end
