(* ===== verification/Web_Socket.thy ===== *)
theory Web_Socket
  imports Json
begin

text \<open>
  \<open>api/websocket.ts\<close>: the reconnecting client of the panel's push channel, and
  \<open>api/websocketBridge.ts\<close>: the debounced cache invalidation behind it.

  The client's fields are one record. The browser around it is the rest of the world: the sockets
  constructed so far with their ready states, the armed timeouts with their delays, the frames sent
  and the listener calls made. An operation takes what it reads from outside as arguments: whether
  the socket constructor succeeds, and the value of \<open>Math.random\<close>. The handlers of a socket and of
  a timeout are separate operations that the step relation fires. The listeners registered in this
  code base write the query cache and never call the client, so a call is an entry of the log.
\<close>

section \<open>State\<close>

datatype ready_state = Connecting | Open | Closing | Closed

record ws_client =
  basePath :: string
  maxReconnectAttempts :: nat
  reconnectAttempts :: nat
  isConnected :: bool
  ws :: "nat option"
  shouldReconnect :: bool
  reconnectTimer :: "nat option"
  listeners :: "(string \<times> nat list) list"

record ws_world = ws_client +
  sockets :: "ready_state list"
  timers :: "(nat \<times> rat) list"
  next_timer :: nat
  frames :: "(nat \<times> string) list"
  calls :: "(nat \<times> js list) list"

definition MAX_PAYLOAD_BYTES :: nat where "MAX_PAYLOAD_BYTES = 10 * 1024 * 1024"
definition BASE_RECONNECT_MS :: rat where "BASE_RECONNECT_MS = 1000"
definition MAX_RECONNECT_MS :: rat where "MAX_RECONNECT_MS = 30000"
definition SLOW_RETRY_MS :: rat where "SLOW_RETRY_MS = 60000"

definition new_client :: "string \<Rightarrow> ws_world" where
  "new_client path =
     \<lparr>basePath = path, maxReconnectAttempts = 10, reconnectAttempts = 0, isConnected = False,
      ws = None, shouldReconnect = True, reconnectTimer = None, listeners = [],
      sockets = [], timers = [], next_timer = 0, frames = [], calls = []\<rparr>"

section \<open>The browser\<close>

definition socket_state :: "ws_world \<Rightarrow> nat \<Rightarrow> ready_state" where
  "socket_state w s = (if s < length (sockets w) then sockets w ! s else Closed)"

definition set_socket :: "nat \<Rightarrow> ready_state \<Rightarrow> ws_world \<Rightarrow> ws_world" where
  "set_socket s r w = w\<lparr>sockets := (sockets w)[s := r]\<rparr>"

text \<open>\<open>socket.close(\<dots>)\<close> starts the closing handshake of a socket that is not closed yet.\<close>

definition start_close :: "nat \<Rightarrow> ws_world \<Rightarrow> ws_world" where
  "start_close s w =
     (if socket_state w s = Connecting \<or> socket_state w s = Open then set_socket s Closing w else w)"

lemma socket_state_upd [simp]:
  "socket_state (w\<lparr>isConnected := a\<rparr>) s = socket_state w s"
  "socket_state (w\<lparr>reconnectAttempts := b\<rparr>) s = socket_state w s"
  "socket_state (w\<lparr>shouldReconnect := a\<rparr>) s = socket_state w s"
  "socket_state (w\<lparr>ws := c\<rparr>) s = socket_state w s"
  "socket_state (w\<lparr>reconnectTimer := c\<rparr>) s = socket_state w s"
  "socket_state (w\<lparr>listeners := l\<rparr>) s = socket_state w s"
  "socket_state (w\<lparr>timers := t\<rparr>) s = socket_state w s"
  "socket_state (w\<lparr>next_timer := b\<rparr>) s = socket_state w s"
  "socket_state (w\<lparr>frames := f\<rparr>) s = socket_state w s"
  "socket_state (w\<lparr>calls := k\<rparr>) s = socket_state w s"
  by (simp_all add: socket_state_def)

lemma socket_live: "socket_state w s \<noteq> Closed \<Longrightarrow> s < length (sockets w)"
  by (simp add: socket_state_def split: if_splits)

section \<open>Listeners\<close>

definition listeners_of :: "ws_world \<Rightarrow> string \<Rightarrow> nat list" where
  "listeners_of w event = (case map_of (listeners w) event of Some fs \<Rightarrow> fs | None \<Rightarrow> [])"

fun put_set :: "string \<Rightarrow> nat list \<Rightarrow> (string \<times> nat list) list \<Rightarrow> (string \<times> nat list) list" where
  "put_set e fs [] = [(e, fs)]"
| "put_set e fs ((k, gs) # m) = (if k = e then (k, fs) # m else (k, gs) # put_set e fs m)"

definition on_event :: "string \<Rightarrow> nat \<Rightarrow> ws_world \<Rightarrow> ws_world" where
  "on_event event callback w =
     (let s = listeners_of w event in
      w\<lparr>listeners := put_set event (if callback \<in> set s then s else s @ [callback]) (listeners w)\<rparr>)"

definition off_event :: "string \<Rightarrow> nat \<Rightarrow> ws_world \<Rightarrow> ws_world" where
  "off_event event callback w =
     (case map_of (listeners w) event of
        None \<Rightarrow> w
      | Some s \<Rightarrow>
          (let s' = filter (\<lambda>f. f \<noteq> callback) s in
           if s' = [] then w\<lparr>listeners := filter (\<lambda>p. fst p \<noteq> event) (listeners w)\<rparr>
           else w\<lparr>listeners := put_set event s' (listeners w)\<rparr>))"

definition emit :: "string \<Rightarrow> js list \<Rightarrow> ws_world \<Rightarrow> ws_world" where
  "emit event args w = w\<lparr>calls := calls w @ map (\<lambda>f. (f, args)) (listeners_of w event)\<rparr>"

section \<open>Reconnection\<close>

definition cancelReconnect :: "ws_world \<Rightarrow> ws_world" where
  "cancelReconnect w =
     (case reconnectTimer w of
        None \<Rightarrow> w
      | Some t \<Rightarrow> w\<lparr>timers := filter (\<lambda>p. fst p \<noteq> t) (timers w), reconnectTimer := None\<rparr>)"

definition backoff_base :: "nat \<Rightarrow> rat" where
  "backoff_base attempts = min MAX_RECONNECT_MS (BASE_RECONNECT_MS * 2 ^ (attempts - 1))"

definition next_attempts :: "ws_world \<Rightarrow> nat" where
  "next_attempts w =
     (if reconnectAttempts w < maxReconnectAttempts w then reconnectAttempts w + 1 else reconnectAttempts w)"

definition retry_base :: "ws_world \<Rightarrow> rat" where
  "retry_base w =
     (if reconnectAttempts w < maxReconnectAttempts w then backoff_base (reconnectAttempts w + 1)
      else SLOW_RETRY_MS)"

definition scheduleReconnect :: "rat \<Rightarrow> ws_world \<Rightarrow> ws_world" where
  "scheduleReconnect random w =
     (if \<not> shouldReconnect w then w
      else
        (let w = cancelReconnect w;
             delay = retry_base w * (3 / 4 + random * (1 / 2));
             t = next_timer w
         in w\<lparr>reconnectAttempts := next_attempts w, timers := timers w @ [(t, delay)],
              next_timer := t + 1, reconnectTimer := Some t\<rparr>))"

definition openSocket :: "bool \<Rightarrow> rat \<Rightarrow> ws_world \<Rightarrow> ws_world" where
  "openSocket constructed random w =
     (if \<not> constructed then scheduleReconnect random (emit ''error'' [JUndef] w)
      else w\<lparr>sockets := sockets w @ [Connecting], ws := Some (length (sockets w))\<rparr>)"

section \<open>The public operations\<close>

definition connect :: "bool \<Rightarrow> rat \<Rightarrow> ws_world \<Rightarrow> ws_world" where
  "connect constructed random w =
     (case ws w of
        Some s \<Rightarrow>
          (if socket_state w s = Open \<or> socket_state w s = Connecting then w
           else openSocket constructed random (cancelReconnect (w\<lparr>shouldReconnect := True\<rparr>)))
      | None \<Rightarrow> openSocket constructed random (cancelReconnect (w\<lparr>shouldReconnect := True\<rparr>)))"

definition disconnect :: "ws_world \<Rightarrow> ws_world" where
  "disconnect w =
     (let w = (cancelReconnect (w\<lparr>shouldReconnect := False\<rparr>))\<lparr>reconnectAttempts := 0\<rparr>;
          w = (case ws w of Some s \<Rightarrow> (start_close s w)\<lparr>ws := None\<rparr> | None \<Rightarrow> w)
      in w\<lparr>isConnected := False\<rparr>)"

definition send :: "js \<Rightarrow> ws_world \<Rightarrow> ws_world" where
  "send v w =
     (case ws w of
        Some s \<Rightarrow>
          (if socket_state w s = Open
           then w\<lparr>frames := frames w @ [(s, if v = JUndef then ''undefined'' else json_stringify v)]\<rparr> else w)
      | None \<Rightarrow> w)"

definition buildUrl :: "bool \<Rightarrow> string \<Rightarrow> ws_world \<Rightarrow> string" where
  "buildUrl https host w =
     (let p = (if basePath w = [] then ''/'' else basePath w);
          p = (if take 1 p = ''/'' then p else ''/'' @ p);
          p = (if p \<noteq> [] \<and> last p = CHR ''/'' then p else p @ ''/'')
      in (if https then ''wss:'' else ''ws:'') @ ''//'' @ host @ p @ ''ws'')"

section \<open>The handlers of a socket and of the timeout\<close>

definition on_open :: "nat \<Rightarrow> ws_world \<Rightarrow> ws_world" where
  "on_open s w =
     (if ws w \<noteq> Some s then w
      else emit ''connected'' [] (w\<lparr>isConnected := True, reconnectAttempts := 0\<rparr>))"

text \<open>The data of a frame: text, or a binary value that the handler does not read.\<close>

datatype frame_data = Text string | Binary

definition onMessage :: "frame_data \<Rightarrow> ws_world \<Rightarrow> ws_world" where
  "onMessage d w =
     (let text = (case d of Text t \<Rightarrow> t | Binary \<Rightarrow> []) in
      if length text > MAX_PAYLOAD_BYTES then (case ws w of Some s \<Rightarrow> start_close s w | None \<Rightarrow> w)
      else
        (case json_parse text of
           Some (JObj o1) \<Rightarrow>
             (case oget o1 ''type'' of
                JStr t \<Rightarrow> emit ''message'' [JObj o1] (emit t [oget o1 ''payload'', oget o1 ''time''] w)
              | _ \<Rightarrow> w)
         | _ \<Rightarrow> w))"

definition on_message :: "nat \<Rightarrow> frame_data \<Rightarrow> ws_world \<Rightarrow> ws_world" where
  "on_message s d w = (if ws w \<noteq> Some s then w else onMessage d w)"

definition on_error :: "nat \<Rightarrow> ws_world \<Rightarrow> ws_world" where
  "on_error s w = (if ws w \<noteq> Some s then w else emit ''error'' [JUndef] w)"

definition on_close :: "nat \<Rightarrow> rat \<Rightarrow> ws_world \<Rightarrow> ws_world" where
  "on_close s random w =
     (if ws w \<noteq> Some s then w
      else
        (let w = emit ''disconnected'' [] (w\<lparr>isConnected := False, ws := None\<rparr>) in
         if shouldReconnect w then scheduleReconnect random w else w))"

definition on_timeout :: "bool \<Rightarrow> rat \<Rightarrow> ws_world \<Rightarrow> ws_world" where
  "on_timeout constructed random w =
     (let w = w\<lparr>reconnectTimer := None\<rparr> in
      if \<not> shouldReconnect w then w else openSocket constructed random w)"

section \<open>Steps\<close>

datatype ws_event =
    Connect bool rat
  | Disconnect
  | On string nat
  | Off string nat
  | Send js
  | Sock_Open nat
  | Sock_Message nat frame_data
  | Sock_Error nat
  | Sock_Close nat rat
  | Timeout nat bool rat

definition unit_random :: "rat \<Rightarrow> bool" where
  "unit_random r \<longleftrightarrow> 0 \<le> r \<and> r < 1"

text \<open>
  One event: a call from outside, or something the browser fires. A socket opens once, delivers
  messages while it is open, and closes once, from any other state; an armed timeout fires once.
\<close>

inductive ws_step :: "ws_world \<Rightarrow> ws_event \<Rightarrow> ws_world \<Rightarrow> bool" where
  step_connect: "unit_random r \<Longrightarrow> ws_step w (Connect b r) (connect b r w)"
| step_disconnect: "ws_step w Disconnect (disconnect w)"
| step_on: "ws_step w (On e f) (on_event e f w)"
| step_off: "ws_step w (Off e f) (off_event e f w)"
| step_send: "ws_step w (Send v) (send v w)"
| step_open: "socket_state w s = Connecting \<Longrightarrow> ws_step w (Sock_Open s) (on_open s (set_socket s Open w))"
| step_message: "socket_state w s = Open \<Longrightarrow> ws_step w (Sock_Message s d) (on_message s d w)"
| step_error: "socket_state w s \<noteq> Closed \<Longrightarrow> ws_step w (Sock_Error s) (on_error s w)"
| step_close: "socket_state w s \<noteq> Closed \<Longrightarrow> unit_random r
    \<Longrightarrow> ws_step w (Sock_Close s r) (on_close s r (set_socket s Closed w))"
| step_timeout: "t \<in> fst ` set (timers w) \<Longrightarrow> unit_random r
    \<Longrightarrow> ws_step w (Timeout t b r) (on_timeout b r (w\<lparr>timers := filter (\<lambda>p. fst p \<noteq> t) (timers w)\<rparr>))"

inductive ws_run :: "ws_world \<Rightarrow> ws_event list \<Rightarrow> ws_world \<Rightarrow> bool" where
  run_nil: "ws_run w [] w"
| run_cons: "ws_step w e w1 \<Longrightarrow> ws_run w1 es w2 \<Longrightarrow> ws_run w (e # es) w2"

inductive_cases ws_runE: "ws_run w es w'"
inductive_simps run_nil_iff: "ws_run w [] w'"
inductive_simps run_cons_iff: "ws_run w (e # es) w'"

lemmas ws_ops =
  connect_def disconnect_def on_event_def off_event_def send_def on_open_def on_message_def onMessage_def
  on_error_def on_close_def on_timeout_def openSocket_def scheduleReconnect_def cancelReconnect_def
  emit_def start_close_def set_socket_def

section \<open>Invariants along a run\<close>

text \<open>A predicate that every admitted event keeps holds along every run of admitted events.\<close>

locale run_invariant =
  fixes inv :: "ws_world \<Rightarrow> bool"
    and admitted :: "ws_event \<Rightarrow> bool"
  assumes kept: "ws_step w e w' \<Longrightarrow> admitted e \<Longrightarrow> inv w \<Longrightarrow> inv w'"
begin

lemma along: "ws_run w es w' \<Longrightarrow> list_all admitted es \<Longrightarrow> inv w \<Longrightarrow> inv w'"
  by (induction rule: ws_run.induct) (auto intro: kept)

end

section \<open>The link invariant\<close>

text \<open>
  The recorded socket exists, is not closed and is wanted; the only armed timeout is the recorded
  one; it is armed only while reconnection is wanted and no live socket is there; its delay is
  within the back-off bounds.
\<close>

definition socket_inv :: "ws_world \<Rightarrow> bool" where
  "socket_inv w \<longleftrightarrow>
     (\<forall>s. ws w = Some s \<longrightarrow> s < length (sockets w) \<and> sockets w ! s \<noteq> Closed \<and> shouldReconnect w)
     \<and> (isConnected w \<longrightarrow> ws w \<noteq> None)"

definition delay_ok :: "rat \<Rightarrow> bool" where
  "delay_ok d \<longleftrightarrow> 750 \<le> d \<and> d < 75000"

definition timer_inv :: "ws_world \<Rightarrow> bool" where
  "timer_inv w \<longleftrightarrow>
     map fst (timers w) = (case reconnectTimer w of None \<Rightarrow> [] | Some t \<Rightarrow> [t])
     \<and> (reconnectTimer w \<noteq> None \<longrightarrow> shouldReconnect w)
     \<and> (\<forall>s. reconnectTimer w \<noteq> None \<longrightarrow> ws w = Some s \<longrightarrow> socket_state w s = Closing)
     \<and> reconnectAttempts w \<le> maxReconnectAttempts w
     \<and> list_all (\<lambda>p. delay_ok (snd p)) (timers w)"

definition listener_inv :: "ws_world \<Rightarrow> bool" where
  "listener_inv w \<longleftrightarrow>
     distinct (map fst (listeners w)) \<and> list_all (\<lambda>p. snd p \<noteq> [] \<and> distinct (snd p)) (listeners w)"

definition ws_inv :: "ws_world \<Rightarrow> bool" where
  "ws_inv w \<longleftrightarrow> socket_inv w \<and> timer_inv w \<and> listener_inv w"

lemma emit_fields [simp]:
  "ws (emit e xs w) = ws w" "sockets (emit e xs w) = sockets w" "timers (emit e xs w) = timers w"
  "reconnectTimer (emit e xs w) = reconnectTimer w" "shouldReconnect (emit e xs w) = shouldReconnect w"
  "isConnected (emit e xs w) = isConnected w" "reconnectAttempts (emit e xs w) = reconnectAttempts w"
  "maxReconnectAttempts (emit e xs w) = maxReconnectAttempts w" "listeners (emit e xs w) = listeners w"
  "socket_state (emit e xs w) s = socket_state w s"
  by (simp_all add: emit_def socket_state_def)

lemma cancel_fields [simp]:
  "ws (cancelReconnect w) = ws w" "sockets (cancelReconnect w) = sockets w"
  "reconnectTimer (cancelReconnect w) = None" "shouldReconnect (cancelReconnect w) = shouldReconnect w"
  "isConnected (cancelReconnect w) = isConnected w" "reconnectAttempts (cancelReconnect w) = reconnectAttempts w"
  "maxReconnectAttempts (cancelReconnect w) = maxReconnectAttempts w" "listeners (cancelReconnect w) = listeners w"
  "calls (cancelReconnect w) = calls w" "socket_state (cancelReconnect w) s = socket_state w s"
  by (simp_all add: cancelReconnect_def socket_state_def split: option.splits)

lemma cancel_timers: "timer_inv w \<Longrightarrow> timers (cancelReconnect w) = []"
  by (auto simp: timer_inv_def cancelReconnect_def split: option.splits)

lemma base_bounds: "1000 \<le> retry_base w" "retry_base w \<le> 60000"
proof -
  have "(1::rat) \<le> 2 ^ n" for n :: nat by simp
  then show "1000 \<le> retry_base w" "retry_base w \<le> 60000"
    by (auto simp: retry_base_def backoff_base_def MAX_RECONNECT_MS_def BASE_RECONNECT_MS_def SLOW_RETRY_MS_def)
qed

lemma delay_ok_base:
  assumes "unit_random r"
  shows "delay_ok (retry_base w * (3 / 4 + r * (1 / 2)))"
proof -
  have f: "3 / 4 \<le> 3 / 4 + r * (1 / 2)" "3 / 4 + r * (1 / 2) < 5 / 4"
    using assms by (auto simp: unit_random_def)
  have "1000 * (3 / 4) \<le> retry_base w * (3 / 4 + r * (1 / 2))"
    using base_bounds(1)[of w] f(1) by (intro mult_mono) auto
  moreover have "retry_base w * (3 / 4 + r * (1 / 2)) < 60000 * (5 / 4)"
    using base_bounds[of w] f by (intro mult_le_less_imp_less) auto
  ultimately show ?thesis by (simp add: delay_ok_def)
qed

lemma schedule_timer_inv:
  assumes "timer_inv w" "unit_random r" "\<And>s. ws w = Some s \<Longrightarrow> socket_state w s = Closing"
  shows "timer_inv (scheduleReconnect r w)"
  using assms cancel_timers[OF assms(1)] delay_ok_base[OF assms(2)]
  by (auto simp: timer_inv_def scheduleReconnect_def Let_def next_attempts_def socket_state_def)

lemma schedule_fields [simp]:
  "ws (scheduleReconnect r w) = ws w" "sockets (scheduleReconnect r w) = sockets w"
  "isConnected (scheduleReconnect r w) = isConnected w" "shouldReconnect (scheduleReconnect r w) = shouldReconnect w"
  "listeners (scheduleReconnect r w) = listeners w" "calls (scheduleReconnect r w) = calls w"
  by (simp_all add: scheduleReconnect_def Let_def)

lemma timer_inv_emit [simp]: "timer_inv (emit e xs w) = timer_inv w"
  by (simp add: timer_inv_def)

lemma timer_inv_cancel: "timer_inv w \<Longrightarrow> timer_inv (cancelReconnect w)"
  using cancel_timers[of w] by (simp add: timer_inv_def)

lemma open_inv:
  assumes "timer_inv w" "unit_random r" "reconnectTimer w = None" "shouldReconnect w"
    and "\<And>s. ws w = Some s \<Longrightarrow> socket_state w s = Closing"
  shows "timer_inv (openSocket b r w)"
proof (cases b)
  case True
  then show ?thesis using assms by (auto simp: openSocket_def timer_inv_def)
next
  case False
  then show ?thesis using assms by (auto simp: openSocket_def intro: schedule_timer_inv)
qed

lemma open_socket_inv:
  assumes "socket_inv w" "shouldReconnect w"
  shows "socket_inv (openSocket b r w)"
  using assms by (auto simp: openSocket_def socket_inv_def nth_append)

lemma set_socket_fields [simp]:
  "ws (set_socket s r w) = ws w" "timers (set_socket s r w) = timers w"
  "reconnectTimer (set_socket s r w) = reconnectTimer w" "shouldReconnect (set_socket s r w) = shouldReconnect w"
  "isConnected (set_socket s r w) = isConnected w" "reconnectAttempts (set_socket s r w) = reconnectAttempts w"
  "maxReconnectAttempts (set_socket s r w) = maxReconnectAttempts w" "listeners (set_socket s r w) = listeners w"
  "length (sockets (set_socket s r w)) = length (sockets w)" "calls (set_socket s r w) = calls w"
  by (simp_all add: set_socket_def)

lemma socket_state_set [simp]:
  "socket_state (set_socket s r w) s' = (if s' = s \<and> s < length (sockets w) then r else socket_state w s')"
  by (auto simp: set_socket_def socket_state_def)

lemma start_close_fields [simp]:
  "ws (start_close s w) = ws w" "timers (start_close s w) = timers w"
  "reconnectTimer (start_close s w) = reconnectTimer w" "shouldReconnect (start_close s w) = shouldReconnect w"
  "isConnected (start_close s w) = isConnected w" "reconnectAttempts (start_close s w) = reconnectAttempts w"
  "maxReconnectAttempts (start_close s w) = maxReconnectAttempts w" "listeners (start_close s w) = listeners w"
  "length (sockets (start_close s w)) = length (sockets w)" "calls (start_close s w) = calls w"
  by (simp_all add: start_close_def)

lemma socket_inv_state:
  "socket_inv w \<longleftrightarrow> (\<forall>s. ws w = Some s \<longrightarrow> socket_state w s \<noteq> Closed \<and> shouldReconnect w)
     \<and> (isConnected w \<longrightarrow> ws w \<noteq> None)"
  by (auto simp: socket_inv_def socket_state_def)

lemma socket_state_start_close:
  "socket_state (start_close s w) s' = (if s' = s \<and> (socket_state w s = Connecting \<or> socket_state w s = Open)
     then Closing else socket_state w s')"
  by (auto simp: start_close_def socket_state_def set_socket_def)

section \<open>Every operation keeps it\<close>

lemma connect_keeps:
  assumes "socket_inv w" "timer_inv w" "unit_random r"
  shows "socket_inv (connect b r w) \<and> timer_inv (connect b r w)"
proof -
  let ?w = "cancelReconnect (w\<lparr>shouldReconnect := True\<rparr>)"
  have t: "timer_inv (w\<lparr>shouldReconnect := True\<rparr>)"
    using assms(2) by (simp add: timer_inv_def)
  have s: "socket_inv ?w" using assms(1) by (simp add: socket_inv_def)
  consider "connect b r w = w" | "connect b r w = openSocket b r ?w"
      "\<forall>s. ws w = Some s \<longrightarrow> socket_state w s \<noteq> Open \<and> socket_state w s \<noteq> Connecting"
  proof (cases "\<exists>s. ws w = Some s \<and> (socket_state w s = Open \<or> socket_state w s = Connecting)")
    case True
    then show ?thesis by (intro that(1)) (auto simp: connect_def)
  next
    case False
    then show ?thesis by (intro that(2)) (auto simp: connect_def split: option.splits)
  qed
  then show ?thesis
  proof cases
    case 1 then show ?thesis using assms by simp
  next
    case 2
    have c: "\<And>s. ws ?w = Some s \<Longrightarrow> socket_state ?w s = Closing"
      using 2(2) assms(1) by (simp add: socket_inv_state) (metis ready_state.exhaust)
    show ?thesis
      using open_inv[OF timer_inv_cancel[OF t] assms(3) _ _ c] open_socket_inv[OF s] 2(1) by simp
  qed
qed

lemma disconnect_keeps:
  assumes "socket_inv w" "timer_inv w"
  shows "socket_inv (disconnect w) \<and> timer_inv (disconnect w)"
proof -
  have t: "timers (cancelReconnect (w\<lparr>shouldReconnect := False\<rparr>)) = []"
    using assms(2) by (auto simp: timer_inv_def cancelReconnect_def split: option.splits)
  show ?thesis
    using t assms by (auto simp: disconnect_def Let_def socket_inv_def timer_inv_def split: option.splits)
qed

lemma open_keeps:
  assumes "socket_inv w" "timer_inv w" "socket_state w s = Connecting"
  shows "socket_inv (on_open s (set_socket s Open w)) \<and> timer_inv (on_open s (set_socket s Open w))"
  using assms socket_live[of w s] by (auto simp: on_open_def socket_inv_state timer_inv_def)

lemma message_keeps:
  assumes "socket_inv w" "timer_inv w"
  shows "socket_inv (on_message s d w) \<and> timer_inv (on_message s d w)"
proof -
  have emit2: "socket_inv (emit e xs w') = socket_inv w'" for e xs w'
    by (simp add: socket_inv_state)
  have close: "socket_inv (start_close s' w) \<and> timer_inv (start_close s' w)" if "ws w = Some s'" for s'
    using assms that by (auto simp: socket_inv_state timer_inv_def socket_state_start_close)
  show ?thesis
    using assms close
    by (auto simp: on_message_def onMessage_def Let_def emit2 split: option.splits js.splits)
qed

lemma error_keeps:
  "socket_inv w \<Longrightarrow> timer_inv w \<Longrightarrow> socket_inv (on_error s w) \<and> timer_inv (on_error s w)"
  by (simp add: on_error_def socket_inv_state)

lemma close_keeps:
  assumes "socket_inv w" "timer_inv w" "socket_state w s \<noteq> Closed" "unit_random r"
  shows "socket_inv (on_close s r (set_socket s Closed w)) \<and> timer_inv (on_close s r (set_socket s Closed w))"
proof (cases "ws w = Some s")
  case False
  then show ?thesis using assms by (auto simp: on_close_def socket_inv_state timer_inv_def)
next
  case True
  let ?v = "emit ''disconnected'' [] ((set_socket s Closed w)\<lparr>isConnected := False, ws := None\<rparr>)"
  have "socket_inv ?v" by (simp add: socket_inv_state)
  moreover have "timer_inv ?v" using assms(2) by (auto simp: timer_inv_def)
  moreover have "socket_inv (scheduleReconnect r ?v)" using calculation by (simp add: socket_inv_def)
  moreover have "timer_inv (scheduleReconnect r ?v)"
    using schedule_timer_inv[OF calculation(2) assms(4)] by simp
  ultimately show ?thesis using True by (simp add: on_close_def Let_def)
qed

lemma timeout_keeps:
  assumes "socket_inv w" "timer_inv w" "t \<in> fst ` set (timers w)" "unit_random r"
  shows "socket_inv (on_timeout b r (w\<lparr>timers := filter (\<lambda>p. fst p \<noteq> t) (timers w)\<rparr>))
    \<and> timer_inv (on_timeout b r (w\<lparr>timers := filter (\<lambda>p. fst p \<noteq> t) (timers w)\<rparr>))"
proof -
  obtain d where d: "timers w = [(t, d)]" "reconnectTimer w = Some t"
    using assms(2,3) by (auto simp: timer_inv_def split: option.splits)
  let ?v = "w\<lparr>timers := [], reconnectTimer := None\<rparr>"
  have v: "socket_inv ?v" "timer_inv ?v" "shouldReconnect ?v"
    "\<And>s. ws ?v = Some s \<Longrightarrow> socket_state ?v s = Closing"
    using assms(1,2) d by (auto simp: socket_inv_state timer_inv_def)
  show ?thesis
    using open_inv[OF v(2) assms(4) _ v(3,4)] open_socket_inv[OF v(1,3)] v(3) d
    by (simp add: on_timeout_def Let_def)
qed

lemma put_set_keys: "map fst (put_set e fs m) = (if e \<in> fst ` set m then map fst m else map fst m @ [e])"
  by (induction e fs m rule: put_set.induct) auto

lemma put_set_snds: "set (put_set e fs m) \<subseteq> insert (e, fs) (set m)"
  by (induction e fs m rule: put_set.induct) auto

lemma put_set_inv:
  assumes "distinct (map fst m)" "list_all (\<lambda>p. snd p \<noteq> [] \<and> distinct (snd p)) m" "fs \<noteq> []" "distinct fs"
  shows "distinct (map fst (put_set e fs m)) \<and> list_all (\<lambda>p. snd p \<noteq> [] \<and> distinct (snd p)) (put_set e fs m)"
  using assms put_set_snds[of e fs m] by (auto simp: put_set_keys list_all_iff)

lemma listeners_of_distinct: "listener_inv w \<Longrightarrow> distinct (listeners_of w e)"
  by (auto simp: listener_inv_def listeners_of_def list_all_iff split: option.splits dest!: map_of_SomeD)

lemma listener_keeps:
  assumes "listener_inv w"
  shows "listener_inv (on_event e f w)" "listener_inv (off_event e f w)"
proof -
  let ?fs = "if f \<in> set (listeners_of w e) then listeners_of w e else listeners_of w e @ [f]"
  have "?fs \<noteq> []" "distinct ?fs" using listeners_of_distinct[OF assms, of e] by auto
  then show "listener_inv (on_event e f w)"
    using put_set_inv[of "listeners w" ?fs e] assms by (simp add: on_event_def Let_def listener_inv_def)
  show "listener_inv (off_event e f w)"
  proof (cases "map_of (listeners w) e")
    case None
    then show ?thesis using assms by (simp add: off_event_def)
  next
    case (Some s)
    then have "distinct (filter (\<lambda>g. g \<noteq> f) s)"
      using listeners_of_distinct[OF assms, of e] by (simp add: listeners_of_def)
    then show ?thesis
      using Some put_set_inv[of "listeners w" "filter (\<lambda>g. g \<noteq> f) s" e] assms
      by (auto simp: off_event_def Let_def listener_inv_def list_all_iff distinct_map_filter)
  qed
qed

lemma listeners_fixed:
  "listeners (connect b r w) = listeners w" "listeners (disconnect w) = listeners w"
  "listeners (send v w) = listeners w" "listeners (on_open s w) = listeners w"
  "listeners (on_message s d w) = listeners w" "listeners (on_error s w) = listeners w"
  "listeners (on_close s r w) = listeners w" "listeners (on_timeout b r w) = listeners w"
  by (auto simp: connect_def disconnect_def send_def on_open_def on_message_def onMessage_def on_error_def
      on_close_def on_timeout_def openSocket_def Let_def split: option.splits js.splits)

lemma step_keeps:
  assumes "ws_step w e w'" "ws_inv w"
  shows "ws_inv w'"
  using assms(1)
proof cases
  case (step_on e f)
  then show ?thesis using assms(2) listener_keeps(1) 
    by (auto simp: ws_inv_def on_event_def Let_def socket_inv_def timer_inv_def)
next
  case (step_off e f)
  have "socket_inv (off_event e f w)" "timer_inv (off_event e f w)"
    using assms(2) by (auto simp: ws_inv_def off_event_def Let_def socket_inv_def timer_inv_def split: option.splits)
  then show ?thesis using step_off assms(2) listener_keeps(2) by (simp add: ws_inv_def)
next
  case (step_send v)
  then show ?thesis using assms(2)
    by (auto simp: ws_inv_def send_def socket_inv_def timer_inv_def listener_inv_def split: option.splits)
qed (use assms(2) connect_keeps disconnect_keeps open_keeps message_keeps error_keeps close_keeps timeout_keeps
      in \<open>simp_all add: ws_inv_def listener_inv_def listeners_fixed\<close>)

interpretation link: run_invariant ws_inv "\<lambda>_. True"
  by unfold_locales (rule step_keeps)

lemma new_client_inv: "ws_inv (new_client path)"
  by (simp add: ws_inv_def socket_inv_def timer_inv_def listener_inv_def new_client_def)

lemma reached_inv: "ws_run (new_client path) es w \<Longrightarrow> ws_inv w"
  by (rule link.along[OF _ _ new_client_inv]) (auto simp: list_all_iff)

section \<open>Disconnecting is final\<close>

text \<open>No socket, no timeout, no wish to reconnect, and nothing happened since.\<close>

definition quiet :: "ws_world \<Rightarrow> ws_world \<Rightarrow> bool" where
  "quiet w0 w \<longleftrightarrow>
     ws w = None \<and> timers w = [] \<and> \<not> isConnected w \<and> \<not> shouldReconnect w
     \<and> length (sockets w) = length (sockets w0) \<and> calls w = calls w0 \<and> frames w = frames w0"

definition no_connect :: "ws_event \<Rightarrow> bool" where
  "no_connect e \<longleftrightarrow> (case e of Connect _ _ \<Rightarrow> False | _ \<Rightarrow> True)"

lemma disconnect_quiet:
  assumes "ws_inv w"
  shows "quiet w (disconnect w)"
proof -
  have t: "timers (cancelReconnect (w\<lparr>shouldReconnect := False\<rparr>)) = []"
    using assms by (auto simp: ws_inv_def timer_inv_def cancelReconnect_def split: option.splits)
  show ?thesis
    using t by (auto simp: quiet_def disconnect_def Let_def cancelReconnect_def start_close_def set_socket_def
        split: option.splits)
qed

lemma quiet_kept:
  assumes "ws_step w e w'" "no_connect e" "quiet w0 w"
  shows "quiet w0 w'"
  using assms
proof cases
  case step_disconnect
  then show ?thesis using assms(3) by (auto simp: quiet_def disconnect_def Let_def cancelReconnect_def split: option.splits)
qed (use assms in \<open>auto simp: quiet_def no_connect_def on_event_def off_event_def send_def on_open_def on_message_def
      on_error_def on_close_def set_socket_def Let_def split: option.splits\<close>)

interpretation still: run_invariant "quiet w0" no_connect for w0
  by unfold_locales (rule quiet_kept)

section \<open>Never stuck\<close>

definition lively :: "ws_world \<Rightarrow> bool" where
  "lively w \<longleftrightarrow> ws_inv w \<and> shouldReconnect w \<and> (ws w \<noteq> None \<or> timers w \<noteq> [])"

lemma schedule_lively: "shouldReconnect w \<Longrightarrow> shouldReconnect (scheduleReconnect r w) \<and> timers (scheduleReconnect r w) \<noteq> []"
  by (simp add: scheduleReconnect_def Let_def)

lemma open_lively:
  "shouldReconnect w \<Longrightarrow> shouldReconnect (openSocket b r w)
    \<and> (ws (openSocket b r w) \<noteq> None \<or> timers (openSocket b r w) \<noteq> [])"
  using schedule_lively[of "emit ''error'' [JUndef] w" r] by (simp add: openSocket_def)

lemma connect_lively: "ws_inv w \<Longrightarrow> unit_random r \<Longrightarrow> lively (connect b r w)"
  using open_lively[of "cancelReconnect (w\<lparr>shouldReconnect := True\<rparr>)" b r]
    step_keeps[OF step_connect[of r w b]]
  by (auto simp: lively_def connect_def ws_inv_def socket_inv_def split: option.splits)

lemma lively_kept:
  assumes "ws_step w e w'" "e \<noteq> Disconnect" "lively w"
  shows "lively w'"
proof -
  have inv: "ws_inv w'" using assms step_keeps by (auto simp: lively_def)
  have "shouldReconnect w' \<and> (ws w' \<noteq> None \<or> timers w' \<noteq> [])"
    using assms(1)
  proof cases
    case (step_connect r b)
    then show ?thesis using connect_lively assms(3) by (auto simp: lively_def)
  next
    case (step_close s r)
    then show ?thesis
      using assms(3) schedule_lively[of "emit ''disconnected'' [] ((set_socket s Closed w)\<lparr>isConnected := False, ws := None\<rparr>)" r]
      by (auto simp: lively_def on_close_def Let_def)
  next
    case (step_timeout t r b)
    then show ?thesis
      using assms(3) open_lively by (auto simp: lively_def on_timeout_def Let_def)
  next
    case (step_message s d)
    then show ?thesis
      using assms(3) by (auto simp: lively_def on_message_def onMessage_def Let_def split: option.splits js.splits)
  qed (use assms in \<open>auto simp: lively_def on_event_def off_event_def send_def on_open_def on_error_def Let_def
      split: option.splits\<close>)
  then show ?thesis using inv by (simp add: lively_def)
qed

interpretation live: run_invariant lively "\<lambda>e. e \<noteq> Disconnect"
  by unfold_locales (rule lively_kept)

section \<open>Back-off\<close>

lemma schedule_attempts:
  assumes "shouldReconnect w" "maxReconnectAttempts w = 10"
  shows "shouldReconnect ((scheduleReconnect r ^^ n) w)
    \<and> maxReconnectAttempts ((scheduleReconnect r ^^ n) w) = 10
    \<and> reconnectAttempts ((scheduleReconnect r ^^ n) w) = max (reconnectAttempts w) (min (reconnectAttempts w + n) 10)"
proof (induction n)
  case 0
  then show ?case using assms by simp
next
  case (Suc n)
  then show ?case by (simp add: scheduleReconnect_def[of r "(_ ^^ n) w"] Let_def next_attempts_def) linarith
qed

lemma power_table: "k < 10 \<Longrightarrow> min 30000 (1000 * 2 ^ k) = (if k < 5 then 1000 * 2 ^ k else (30000::rat))"
proof -
  assume "k < 10"
  then have "k \<in> {0, 1, 2, 3, 4, 5, 6, 7, 8, 9}" by auto
  then show ?thesis by auto
qed

lemma retry_base_table:
  "maxReconnectAttempts w = 10 \<Longrightarrow> retry_base w =
    (if reconnectAttempts w < 5 then 1000 * 2 ^ reconnectAttempts w
     else if reconnectAttempts w < 10 then 30000 else 60000)"
  using power_table[of "reconnectAttempts w"]
  by (simp add: retry_base_def backoff_base_def MAX_RECONNECT_MS_def BASE_RECONNECT_MS_def SLOW_RETRY_MS_def)

section \<open>A socket that is closing\<close>

text \<open>
  \<open>connect\<close> during a closing handshake replaces the recorded socket without the bookkeeping of a
  close: the flag of the old connection stays set while the new socket is still connecting.
\<close>

lemma connected_flag_stale:
  assumes "ws w = Some s" "socket_state w s = Closing" "isConnected w"
  shows "isConnected (connect True r w) \<and> socket_state (connect True r w) (length (sockets w)) = Connecting
    \<and> ws (connect True r w) = Some (length (sockets w)) \<and> calls (connect True r w) = calls w"
  using assms by (simp add: connect_def openSocket_def socket_state_def nth_append)

section \<open>Properties\<close>

lemma max_attempts_kept: "ws_step w e w' \<Longrightarrow> maxReconnectAttempts w' = maxReconnectAttempts w"
  by (cases rule: ws_step.cases, assumption)
    (auto simp: connect_def disconnect_def on_event_def off_event_def send_def on_open_def on_message_def onMessage_def
      on_error_def on_close_def on_timeout_def openSocket_def scheduleReconnect_def Let_def
      split: option.splits js.splits)

interpretation cap: run_invariant "\<lambda>w. maxReconnectAttempts w = 10" "\<lambda>_. True"
  by unfold_locales (simp add: max_attempts_kept)

lemma reached_cap: "ws_run (new_client path) es w \<Longrightarrow> maxReconnectAttempts w = 10"
  using cap.along[of "new_client path" es w] by (simp add: list_all_iff new_client_def)

lemma first_run:
  "ws_run (new_client ''/'') [Connect True 0, Sock_Open 0]
     (on_open 0 (set_socket 0 Open (connect True 0 (new_client ''/''))))"
  by (intro run_cons[OF step_connect] run_cons[OF step_open] run_nil)
    (simp_all add: unit_random_def connect_def new_client_def openSocket_def cancelReconnect_def socket_state_def)

text \<open>
  C12
  In every state the client can reach, whatever the order of calls and browser events: it is
  connected only with a recorded socket that is not closed, at most one timeout is armed, and that
  one is the recorded one, is armed only while reconnection is wanted and no socket is open or
  connecting, and has a delay of at least 0.75 and less than 75 seconds; the retry counter never
  passes ten.
\<close>

theorem client_invariant:
  assumes "ws_run (new_client path) es w"
  shows "(isConnected w \<longrightarrow> (\<exists>s. ws w = Some s \<and> socket_state w s \<noteq> Closed))
    \<and> map fst (timers w) = (case reconnectTimer w of None \<Rightarrow> [] | Some t \<Rightarrow> [t])
    \<and> (\<forall>p \<in> set (timers w). shouldReconnect w \<and> 750 \<le> snd p \<and> snd p < 75000
         \<and> (\<forall>s. ws w = Some s \<longrightarrow> socket_state w s = Closing))
    \<and> reconnectAttempts w \<le> 10"
  using reached_inv[OF assms] reached_cap[OF assms]
  by (auto simp: ws_inv_def socket_inv_state timer_inv_def delay_ok_def list_all_iff split: option.splits)

theorem client_invariant_witness:
  "let w = on_open 0 (set_socket 0 Open (connect True 0 (new_client ''/''))) in
   isConnected w \<and> ws w = Some 0 \<and> socket_state w 0 \<noteq> Closed \<and> reconnectAttempts w \<le> 10"
  using client_invariant[OF first_run]
  by (simp add: Let_def connect_def new_client_def openSocket_def cancelReconnect_def on_open_def)

text \<open>
  C13
  After a disconnect, and until the next connect, the client does nothing: no event constructs a
  socket, arms a timeout, sends a frame or calls a listener, and it reports not to be connected.
\<close>

theorem disconnect_final:
  assumes "ws_run (new_client path) es w" and "ws_run (disconnect w) es' w'" and "list_all no_connect es'"
  shows "ws w' = None \<and> timers w' = [] \<and> \<not> isConnected w'
    \<and> length (sockets w') = length (sockets w) \<and> frames w' = frames w \<and> calls w' = calls w"
  using still.along[OF assms(2,3) disconnect_quiet[OF reached_inv[OF assms(1)]]] by (simp add: quiet_def)

theorem disconnect_final_witness:
  "let w = disconnect (on_open 0 (set_socket 0 Open (connect True 0 (new_client ''/''))));
       w' = on_close 0 0 (set_socket 0 Closed w) in
   ws w' = None \<and> timers w' = [] \<and> \<not> isConnected w' \<and> length (sockets w') = 1"
proof -
  let ?w = "on_open 0 (set_socket 0 Open (connect True 0 (new_client ''/'')))"
  have "ws_run (disconnect ?w) [Sock_Close 0 0] (on_close 0 0 (set_socket 0 Closed (disconnect ?w)))"
    by (intro run_cons[OF step_close] run_nil)
      (simp_all add: unit_random_def connect_def new_client_def openSocket_def cancelReconnect_def on_open_def
        disconnect_def start_close_def set_socket_def socket_state_def emit_def listeners_of_def)
  from disconnect_final[OF first_run this] show ?thesis
    by (simp add: Let_def no_connect_def connect_def new_client_def openSocket_def cancelReconnect_def on_open_def)
qed

text \<open>
  C14
  The client never gives up: after a connect, as long as nobody disconnects it, it either holds a
  socket that is not closed, or a timeout is armed that is due in less than 75 seconds and whose
  firing, when the constructor succeeds, leaves it with a new connecting socket.
\<close>

theorem never_gives_up:
  assumes "ws_run (new_client path) es w" and "unit_random r"
    and "ws_run (connect b r w) es' w'" and "Disconnect \<notin> set es'"
  shows "(\<exists>s. ws w' = Some s \<and> socket_state w' s \<noteq> Closed)
    \<or> (\<exists>t d w''. timers w' = [(t, d)] \<and> d < 75000 \<and> ws_step w' (Timeout t True 0) w''
         \<and> ws w'' = Some (length (sockets w')) \<and> socket_state w'' (length (sockets w')) = Connecting)"
proof -
  have l: "lively w'"
    using live.along[OF assms(3) _ connect_lively[OF reached_inv[OF assms(1)] assms(2)]] assms(4)
    by (auto simp: list_all_iff)
  show ?thesis
  proof (cases "ws w'")
    case (Some s)
    then show ?thesis using l by (auto simp: lively_def ws_inv_def socket_inv_state)
  next
    case None
    then obtain t d where t: "timers w' = [(t, d)]" "d < 75000"
      using l by (auto simp: lively_def ws_inv_def timer_inv_def delay_ok_def split: option.splits)
    have "ws_step w' (Timeout t True 0) (on_timeout True 0 (w'\<lparr>timers := filter (\<lambda>p. fst p \<noteq> t) (timers w')\<rparr>))"
      using t by (intro step_timeout) (auto simp: unit_random_def)
    moreover have "shouldReconnect w'" using l by (simp add: lively_def)
    ultimately show ?thesis
      using t by (intro disjI2) (auto simp: on_timeout_def openSocket_def socket_state_def nth_append)
  qed
qed

theorem never_gives_up_witness:
  "\<exists>d. timers (connect False 0 (new_client ''/'')) = [(0, d)] \<and> d < 75000"
proof -
  have "ws_run (new_client ''/'') [] (new_client ''/'')" "unit_random 0"
    "ws_run (connect False 0 (new_client ''/'')) [] (connect False 0 (new_client ''/''))"
    by (simp_all add: run_nil unit_random_def)
  from never_gives_up[OF this] show ?thesis
    by (auto simp: connect_def new_client_def openSocket_def cancelReconnect_def scheduleReconnect_def emit_def
        listeners_of_def Let_def)
qed

text \<open>
  The back-off schedule: after n failures in a row since the counter was reset, the next delay is
  drawn around 1, 2, 4, 8 and 16 seconds, then around 30 seconds up to the tenth retry, and around
  a minute for ever after.
\<close>

theorem backoff_schedule:
  assumes "shouldReconnect w" and "maxReconnectAttempts w = 10" and "reconnectAttempts w = 0"
  shows "retry_base ((scheduleReconnect r ^^ n) w) =
    (if n < 5 then 1000 * 2 ^ n else if n < 10 then 30000 else 60000)"
  using schedule_attempts[OF assms(1,2), of n r] assms(3)
  by (subst retry_base_table) auto

theorem backoff_schedule_witness:
  "retry_base ((scheduleReconnect 0 ^^ 4) (new_client ''/'')) = 16000"
  using backoff_schedule[of "new_client ''/''" 4 0] by (simp add: new_client_def)

text \<open>
  The address of the socket is on the panel's host, under a path that begins and ends with a
  slash, whatever base path the page was served with, and a base path that has both slashes is
  used as it is.
\<close>

theorem buildUrl_shape:
  "\<exists>p. buildUrl https host w = (if https then ''wss:'' else ''ws:'') @ ''//'' @ host @ p @ ''ws''
     \<and> hd p = CHR ''/'' \<and> last p = CHR ''/'' \<and> p \<noteq> []
     \<and> (basePath w \<noteq> [] \<longrightarrow> hd (basePath w) = CHR ''/'' \<longrightarrow> last (basePath w) = CHR ''/'' \<longrightarrow> p = basePath w)"
proof -
  define q where "q = (if basePath w = [] then ''/'' else basePath w)"
  define q' where "q' = (if take 1 q = ''/'' then q else ''/'' @ q)"
  define p where "p = (if q' \<noteq> [] \<and> last q' = CHR ''/'' then q' else q' @ ''/'')"
  have "q \<noteq> []" by (simp add: q_def)
  then have "q' \<noteq> []" "hd q' = CHR ''/''" by (auto simp: q'_def take_Suc split: if_splits)
  then have "p \<noteq> []" "hd p = CHR ''/''" "last p = CHR ''/''" by (auto simp: p_def)
  moreover have "p = basePath w"
    if "basePath w \<noteq> []" "hd (basePath w) = CHR ''/''" "last (basePath w) = CHR ''/''"
    using that by (simp add: p_def q'_def q_def take_Suc)
  ultimately show ?thesis
    by (intro exI[of _ p]) (simp add: buildUrl_def Let_def p_def q'_def q_def)
qed

theorem buildUrl_shape_witness:
  "\<exists>p. buildUrl True ''h:2053'' (new_client ''/panel/'') = ''wss://h:2053'' @ p @ ''ws'' \<and> p = ''/panel/''"
  using buildUrl_shape[of True "''h:2053''" "new_client ''/panel/''"] by (auto simp: new_client_def)

end
