(* ===== verification/Query_Bridge.thy ===== *)
theory Query_Bridge
  imports Web_Socket
begin

text \<open>
  \<open>api/websocketBridge.ts\<close> and \<open>api/invalidationTracker.ts\<close>: what the pushed messages do to the
  query cache. The pending timeout is the value its closure captured; the cache is the log of the
  operations asked of it, under the keys of \<open>api/queryKeys.ts\<close>.
\<close>

section \<open>State\<close>

datatype cache_op = Invalidate "string list" | Set_Data "string list" js

record bridge =
  invalidateTimer :: "string option"
  lastLocalInvalidateAt :: int
  cache :: "cache_op list"

definition empty_bridge :: bridge where
  "empty_bridge = \<lparr>invalidateTimer = None, lastLocalInvalidateAt = 0, cache = []\<rparr>"

definition markLocalInvalidate :: "int \<Rightarrow> bridge \<Rightarrow> bridge" where
  "markLocalInvalidate now b = b\<lparr>lastLocalInvalidateAt := now\<rparr>"

definition isRecentLocalInvalidate :: "int \<Rightarrow> int \<Rightarrow> bridge \<Rightarrow> bool" where
  "isRecentLocalInvalidate windowMs now b \<longleftrightarrow> now - lastLocalInvalidateAt b < windowMs"

section \<open>Handlers\<close>

definition onInvalidate :: "js \<Rightarrow> bridge \<Rightarrow> bridge" where
  "onInvalidate p b =
     (if jget p ''type'' = JStr ''inbounds'' then b\<lparr>invalidateTimer := Some ''inbounds''\<rparr>
      else if jget p ''type'' = JStr ''clients'' then b\<lparr>invalidateTimer := Some ''clients''\<rparr>
      else b)"

definition fireInvalidate :: "int \<Rightarrow> bridge \<Rightarrow> bridge" where
  "fireInvalidate now b =
     (case invalidateTimer b of
        None \<Rightarrow> b
      | Some t \<Rightarrow>
          (let b = b\<lparr>invalidateTimer := None\<rparr> in
           if isRecentLocalInvalidate 1500 now b then b
           else b\<lparr>cache := cache b @ [Invalidate [if t = ''inbounds'' then ''inbounds'' else ''clients'']]\<rparr>))"

definition onOutbounds :: "js \<Rightarrow> bridge \<Rightarrow> bridge" where
  "onOutbounds v b = b\<lparr>cache := cache b @ [Set_Data [''xray'', ''outboundsTraffic''] v]\<rparr>"

definition onNodes :: "js \<Rightarrow> bridge \<Rightarrow> bridge" where
  "onNodes v b = (if is_arr v then b\<lparr>cache := cache b @ [Set_Data [''nodes'', ''list''] v]\<rparr> else b)"

definition onInbounds :: "js \<Rightarrow> bridge \<Rightarrow> bridge" where
  "onInbounds v b = (if is_arr v then b\<lparr>cache := cache b @ [Set_Data [''inbounds'', ''slim''] v]\<rparr> else b)"

definition unmount :: "bridge \<Rightarrow> bridge" where
  "unmount b = b\<lparr>invalidateTimer := None\<rparr>"

section \<open>Mounting\<close>

text \<open>
  The effect registers its four handlers on the shared client and connects it; the cleanup removes
  them. The handlers are the numbers below.
\<close>

definition bridge_events :: "(string \<times> nat) list" where
  "bridge_events = [(''invalidate'', 0), (''outbounds'', 1), (''nodes'', 2), (''inbounds'', 3)]"

definition useWebSocket :: "(string \<times> nat) list \<Rightarrow> bool \<Rightarrow> rat \<Rightarrow> ws_world \<Rightarrow> ws_world" where
  "useWebSocket entries constructed random w =
     connect constructed random (fold (\<lambda>(event, f). on_event event f) entries w)"

definition leaveWebSocket :: "(string \<times> nat) list \<Rightarrow> ws_world \<Rightarrow> ws_world" where
  "leaveWebSocket entries w = fold (\<lambda>(event, f). off_event event f) entries w"

definition useWebSocketBridge :: "bool \<Rightarrow> rat \<Rightarrow> ws_world \<Rightarrow> ws_world" where
  "useWebSocketBridge constructed random w = useWebSocket bridge_events constructed random w"

text \<open>What a registered handler does with the arguments it is called with.\<close>

definition run_handler :: "nat \<times> js list \<Rightarrow> bridge \<Rightarrow> bridge" where
  "run_handler c b =
     (let p = (case snd c of [] \<Rightarrow> JUndef | v # _ \<Rightarrow> v) in
      if fst c = 0 then onInvalidate p b
      else if fst c = 1 then onOutbounds p b
      else if fst c = 2 then onNodes p b
      else if fst c = 3 then onInbounds p b
      else b)"

section \<open>Facts\<close>

definition invalidates :: "js \<Rightarrow> bool" where
  "invalidates p \<longleftrightarrow> jget p ''type'' = JStr ''inbounds'' \<or> jget p ''type'' = JStr ''clients''"

definition burst :: "js list \<Rightarrow> bridge \<Rightarrow> bridge" where
  "burst ps b = fold onInvalidate ps b"

lemma onInvalidate_timer:
  "invalidateTimer (onInvalidate p b) = (if invalidates p then Some (case jget p ''type'' of JStr t \<Rightarrow> t | _ \<Rightarrow> [])
     else invalidateTimer b)"
  by (auto simp: onInvalidate_def invalidates_def)

lemma onInvalidate_rest [simp]:
  "cache (onInvalidate p b) = cache b" "lastLocalInvalidateAt (onInvalidate p b) = lastLocalInvalidateAt b"
  by (auto simp: onInvalidate_def)

lemma burst_rest: "cache (burst ps b) = cache b \<and> lastLocalInvalidateAt (burst ps b) = lastLocalInvalidateAt b"
  unfolding burst_def by (induction ps arbitrary: b) auto

lemma burst_timer:
  "invalidateTimer (burst ps b) =
     (case rev (filter invalidates ps) of
        [] \<Rightarrow> invalidateTimer b
      | p # _ \<Rightarrow> Some (case jget p ''type'' of JStr t \<Rightarrow> t | _ \<Rightarrow> []))"
  unfolding burst_def by (induction ps rule: rev_induct) (auto simp: onInvalidate_timer split: list.splits)

lemma map_of_put_set: "map_of (put_set e fs m) k = (if k = e then Some fs else map_of m k)"
  by (induction e fs m rule: put_set.induct) auto

lemma map_of_without: "map_of (filter (\<lambda>p. fst p \<noteq> e) m) k = (if k = e then None else map_of m k)"
  by (induction m) auto

lemma listeners_of_on:
  "listeners_of (on_event e f w) k =
     (if k = e \<and> f \<notin> set (listeners_of w e) then listeners_of w e @ [f] else listeners_of w k)"
  by (auto simp: listeners_of_def on_event_def Let_def map_of_put_set split: option.splits)

lemma listeners_of_off:
  "listeners_of (off_event e f w) k = (if k = e then filter (\<lambda>g. g \<noteq> f) (listeners_of w e) else listeners_of w k)"
  by (auto simp: listeners_of_def off_event_def Let_def map_of_put_set map_of_without split: option.splits)

lemma listeners_of_fold_on:
  "distinct (map fst es) \<Longrightarrow> \<forall>(e, f) \<in> set es. f \<notin> set (listeners_of w e) \<Longrightarrow>
   listeners_of (fold (\<lambda>(e, f). on_event e f) es w) k =
     listeners_of w k @ (case map_of es k of Some f \<Rightarrow> [f] | None \<Rightarrow> [])"
proof (induction es arbitrary: w)
  case (Cons p es)
  obtain e f where p: "p = (e, f)" by (cases p)
  have "\<forall>(e', f') \<in> set es. f' \<notin> set (listeners_of (on_event e f w) e')"
  proof (clarify)
    fix e' f'
    assume i: "(e', f') \<in> set es" and m: "f' \<in> set (listeners_of (on_event e f w) e')"
    have "e' \<noteq> e" using i Cons.prems(1) p by force
    then have "f' \<in> set (listeners_of w e')" using m by (simp add: listeners_of_on)
    then show False using i Cons.prems(2) by auto
  qed
  then have "listeners_of (fold (\<lambda>(e, f). on_event e f) es (on_event e f w)) k =
      listeners_of (on_event e f w) k @ (case map_of es k of Some f \<Rightarrow> [f] | None \<Rightarrow> [])"
    using Cons.IH Cons.prems by simp
  moreover have "map_of es e = None" using Cons.prems p by (auto simp: map_of_eq_None_iff)
  ultimately show ?case using Cons.prems p by (auto simp: listeners_of_on)
qed simp

lemma listeners_of_fold_off:
  "distinct (map fst es) \<Longrightarrow>
   listeners_of (fold (\<lambda>(e, f). off_event e f) es w) k =
     (case map_of es k of Some f \<Rightarrow> filter (\<lambda>g. g \<noteq> f) (listeners_of w k) | None \<Rightarrow> listeners_of w k)"
proof (induction es arbitrary: w)
  case (Cons p es)
  obtain e f where p: "p = (e, f)" by (cases p)
  have "map_of es e = None" using Cons.prems p by (auto simp: map_of_eq_None_iff)
  then show ?case using Cons p by (auto simp: listeners_of_off split: option.splits)
qed simp

lemma listeners_of_connect [simp]: "listeners_of (connect b r w) k = listeners_of w k"
  by (simp add: listeners_of_def listeners_fixed)

section \<open>Properties\<close>

text \<open>
  C39
  Whatever burst of messages comes in before the timeout fires, at most one query is invalidated
  when it does: the one the last invalidating message named. Messages of other types change
  nothing, and a burst within 1.5 seconds of a local change is dropped.
\<close>

theorem last_invalidation_wins:
  assumes "invalidateTimer b = None"
  shows "cache (fireInvalidate now (burst ps b)) = cache b @
    (case rev (filter invalidates ps) of
       [] \<Rightarrow> []
     | p # _ \<Rightarrow> if isRecentLocalInvalidate 1500 now b then []
               else [Invalidate [if jget p ''type'' = JStr ''inbounds'' then ''inbounds'' else ''clients'']])"
proof (cases "rev (filter invalidates ps)")
  case Nil
  then show ?thesis using assms burst_timer[of ps b] burst_rest[of ps b] by (simp add: fireInvalidate_def)
next
  case (Cons p qs)
  then have "p \<in> set (rev (filter invalidates ps))" by simp
  then have "invalidates p" by simp
  then show ?thesis
    using Cons burst_timer[of ps b] burst_rest[of ps b]
    by (auto simp: fireInvalidate_def Let_def isRecentLocalInvalidate_def invalidates_def)
qed

theorem last_invalidation_wins_witness:
  "cache (fireInvalidate 9000 (burst [JObj [(''type'', JStr ''inbounds'')], JNull] empty_bridge))
     = [Invalidate [''inbounds'']]"
  using last_invalidation_wins[of empty_bridge 9000 "[JObj [(''type'', JStr ''inbounds'')], JNull]"]
  by (simp add: empty_bridge_def invalidates_def isRecentLocalInvalidate_def jget_def oget_def)

text \<open>
  Mounting a hook and unmounting it again leaves the listeners of every event as they were, for
  handlers that were not registered before; between the two, each handler is called last.
\<close>

theorem mount_unmount:
  assumes "distinct (map fst entries)" and "\<forall>(e, f) \<in> set entries. f \<notin> set (listeners_of w e)"
  shows "listeners_of (leaveWebSocket entries (useWebSocket entries b r w)) k = listeners_of w k
    \<and> (\<forall>(e, f) \<in> set entries. listeners_of (useWebSocket entries b r w) e = listeners_of w e @ [f])"
proof (intro conjI ballI)
  have fresh: "f \<notin> set (listeners_of w k)" if "map_of entries k = Some f" for f
    using map_of_SomeD[OF that] assms(2) by auto
  then have "filter (\<lambda>g. g \<noteq> f) (listeners_of w k) = listeners_of w k" if "map_of entries k = Some f" for f
    using that by (auto simp: filter_id_conv)
  then show "listeners_of (leaveWebSocket entries (useWebSocket entries b r w)) k = listeners_of w k"
    using listeners_of_fold_on[OF assms, of k]
    by (auto simp: leaveWebSocket_def useWebSocket_def listeners_of_fold_off[OF assms(1)] split: option.splits)
  fix p
  assume "p \<in> set entries"
  then show "case p of (e, f) \<Rightarrow> listeners_of (useWebSocket entries b r w) e = listeners_of w e @ [f]"
    using listeners_of_fold_on[OF assms, of "fst p"] assms(1) by (auto simp: useWebSocket_def)
qed

theorem mount_unmount_witness:
  "listeners_of (useWebSocket bridge_events True 0 (new_client ''/'')) ''nodes'' = [2]"
proof -
  have "distinct (map fst bridge_events)"
    "\<forall>(e, f) \<in> set bridge_events. f \<notin> set (listeners_of (new_client ''/'') e)"
    by (simp_all add: bridge_events_def listeners_of_def new_client_def)
  from mount_unmount[OF this, of True 0] show ?thesis
    by (simp add: bridge_events_def listeners_of_def new_client_def)
qed

text \<open>
  From the wire to the cache: on a client whose only listeners are the bridge's, a text frame on
  the current socket that is a JSON object of type inbounds with an array payload makes the cache
  take that payload as the inbound list, and does nothing else.
\<close>

theorem pushed_inbounds_reach_cache:
  assumes "ws w = Some s" and "\<And>e. listeners_of w e = listeners_of (useWebSocketBridge True 0 (new_client [])) e"
    and "json_parse t = Some (JObj o1)" and "oget o1 ''type'' = JStr ''inbounds''"
    and "oget o1 ''payload'' = JArr xs" and "length t \<le> MAX_PAYLOAD_BYTES"
  shows "\<exists>new. calls (on_message s (Text t) w) = calls w @ new
    \<and> fold run_handler new b = b\<lparr>cache := cache b @ [Set_Data [''inbounds'', ''slim''] (JArr xs)]\<rparr>"
proof -
  have "listeners_of w ''inbounds'' = [3]" "listeners_of w ''message'' = []"
    unfolding assms(2) by (simp_all add: useWebSocketBridge_def useWebSocket_def bridge_events_def on_event_def
        listeners_of_def new_client_def listeners_fixed)
  then have "calls (on_message s (Text t) w) = calls w @ [(3, [JArr xs, oget o1 ''time''])]"
    using assms(1,3-6) by (simp add: on_message_def onMessage_def Let_def emit_def listeners_of_def)
  then show ?thesis by (simp add: run_handler_def onInbounds_def Let_def)
qed

theorem pushed_inbounds_reach_cache_witness:
  "\<exists>new. calls (on_message 0 (Text ''{\"type\":\"inbounds\",\"payload\":[]}'') (useWebSocketBridge True 0 (new_client []))) = new
    \<and> fold run_handler new empty_bridge = empty_bridge\<lparr>cache := [Set_Data [''inbounds'', ''slim''] (JArr [])]\<rparr>"
proof -
  have p: "json_parse ''{\"type\":\"inbounds\",\"payload\":[]}'' = Some (JObj [(''type'', JStr ''inbounds''), (''payload'', JArr [])])"
    by code_simp
  have c: "calls (useWebSocketBridge True 0 (new_client [])) = []" "ws (useWebSocketBridge True 0 (new_client [])) = Some 0"
    by (simp_all add: useWebSocketBridge_def useWebSocket_def bridge_events_def on_event_def connect_def openSocket_def
        cancelReconnect_def Let_def new_client_def)
  show ?thesis
    using pushed_inbounds_reach_cache[OF c(2) refl p, of "[]" empty_bridge] c(1)
    by (simp add: oget_def MAX_PAYLOAD_BYTES_def empty_bridge_def)
qed

text \<open>
  The timeout is shared by both queries, so a message for the clients within its 200 ms discards
  an invalidation of the inbounds that is still pending.
\<close>

lemma invalidation_lost:
  "Invalidate [''inbounds''] \<notin> set (cache (fireInvalidate 9000
     (burst [JObj [(''type'', JStr ''inbounds'')], JObj [(''type'', JStr ''clients'')]] empty_bridge)))"
  by (simp add: burst_def onInvalidate_def fireInvalidate_def empty_bridge_def isRecentLocalInvalidate_def
      jget_def oget_def Let_def)

end
