(* ===== verification/Outbound_Form.thy ===== *)
theory Outbound_Form
  imports Js_Text
begin

text \<open>
  The values of the outbound form, \<open>schemas/forms/outbound-form.ts\<close>: one record per protocol, the
  tagged union of them, and the whole form. A numeric field holds a finite number; a port is an
  integer.
\<close>

section \<open>Settings of the protocols\<close>

record vmess_form =
  vm_address :: string
  vm_port :: int
  vm_id :: string
  vm_security :: string

record reverse_sniffing =
  rs_enabled :: bool
  rs_destOverride :: "string list"
  rs_metadataOnly :: bool
  rs_routeOnly :: bool
  rs_ipsExcluded :: "string list"
  rs_domainsExcluded :: "string list"

record vless_form =
  vl_address :: string
  vl_port :: int
  vl_id :: string
  vl_flow :: string
  vl_encryption :: string
  vl_reverseTag :: string
  vl_reverseSniffing :: reverse_sniffing
  vl_testpre :: rat
  vl_testseed :: "rat list"

record trojan_form =
  tj_address :: string
  tj_port :: int
  tj_password :: string

record shadowsocks_form =
  sh_address :: string
  sh_port :: int
  sh_password :: string
  sh_method :: string
  sh_uot :: bool
  sh_UoTVersion :: rat

record simple_auth_form =
  sa_address :: string
  sa_port :: int
  sa_user :: string
  sa_pass :: string

record wireguard_peer_form =
  wf_publicKey :: string
  wf_psk :: string
  wf_allowedIPs :: "string list"
  wf_endpoint :: string
  wf_keepAlive :: rat

record wireguard_form =
  wg_mtu :: rat
  wg_secretKey :: string
  wg_pubKey :: string
  wg_address :: string
  wg_workers :: rat
  wg_domainStrategy :: string
  wg_reserved :: string
  wg_peers :: "wireguard_peer_form list"
  wg_noKernelTun :: bool

record hysteria_form =
  hy_address :: string
  hy_port :: int
  hy_version :: int

record final_rule_form =
  fr_action :: string
  fr_network :: string
  fr_port :: string
  fr_ip :: "string list"
  fr_blockDelay :: string

record fragment_form =
  fg_packets :: string
  fg_length :: string
  fg_interval :: string
  fg_maxSplit :: string

record noise_form =
  no_type :: string
  no_packet :: string
  no_delay :: string
  no_applyTo :: string

record freedom_form =
  fd_domainStrategy :: string
  fd_redirect :: string
  fd_userLevel :: rat
  fd_proxyProtocol :: rat
  fd_fragment :: fragment_form
  fd_noises :: "noise_form list"
  fd_finalRules :: "final_rule_form list"

record blackhole_form =
  bh_type :: string

record dns_rule_form =
  dr_action :: string
  dr_qType :: string
  dr_domain :: string
  dr_rCode :: rat

record dns_form =
  dn_rewriteNetwork :: string
  dn_rewriteAddress :: string
  dn_rewritePort :: int
  dn_userLevel :: rat
  dn_rules :: "dns_rule_form list"

record loopback_form =
  lo_inboundTag :: string

section \<open>The whole form\<close>

datatype outbound_form_settings =
    Of_Vmess vmess_form
  | Of_Vless vless_form
  | Of_Trojan trojan_form
  | Of_Shadowsocks shadowsocks_form
  | Of_Socks simple_auth_form
  | Of_Http simple_auth_form
  | Of_Wireguard wireguard_form
  | Of_Hysteria hysteria_form
  | Of_Freedom freedom_form
  | Of_Blackhole blackhole_form
  | Of_Dns dns_form
  | Of_Loopback loopback_form

fun of_protocol :: "outbound_form_settings \<Rightarrow> string" where
  "of_protocol (Of_Vmess _) = ''vmess''"
| "of_protocol (Of_Vless _) = ''vless''"
| "of_protocol (Of_Trojan _) = ''trojan''"
| "of_protocol (Of_Shadowsocks _) = ''shadowsocks''"
| "of_protocol (Of_Socks _) = ''socks''"
| "of_protocol (Of_Http _) = ''http''"
| "of_protocol (Of_Wireguard _) = ''wireguard''"
| "of_protocol (Of_Hysteria _) = ''hysteria''"
| "of_protocol (Of_Freedom _) = ''freedom''"
| "of_protocol (Of_Blackhole _) = ''blackhole''"
| "of_protocol (Of_Dns _) = ''dns''"
| "of_protocol (Of_Loopback _) = ''loopback''"

record mux_form =
  mx_enabled :: bool
  mx_concurrency :: rat
  mx_xudpConcurrency :: rat
  mx_xudpProxyUDP443 :: string

record outbound_form =
  of_settings :: outbound_form_settings
  of_tag :: string
  of_sendThrough :: string
  of_mux :: "mux_form option"
  of_streamSettings :: "jobj option"

end
