(* ===== verification/Outbound_Adapter.thy ===== *)
theory Outbound_Adapter
  imports Outbound_Form Wire_Normalize Wireguard_Keys Json
begin

text \<open>
  \<open>lib/xray/outbound-form-adapter.ts\<close>: an outbound of the configuration read into the form, and the
  form written back as an outbound.

  A raw value is JSON. The readers never fail: a field of the wrong type gets its fallback. An
  exception can only come from the WireGuard key, so that reader returns an option. A field the
  code writes as \<open>undefined\<close> is present with that value.
\<close>

section \<open>Coercions\<close>

definition asObject :: "js \<Rightarrow> jobj" where
  "asObject v = (case v of JObj o1 \<Rightarrow> o1 | _ \<Rightarrow> [])"

definition asArray :: "js \<Rightarrow> js list" where
  "asArray v = (case v of JArr xs \<Rightarrow> xs | _ \<Rightarrow> [])"

definition asString :: "js \<Rightarrow> string \<Rightarrow> string" where
  "asString v fallback = (case v of JStr s \<Rightarrow> s | _ \<Rightarrow> fallback)"

definition asNumber :: "js \<Rightarrow> rat \<Rightarrow> rat" where
  "asNumber v fallback =
     (case v of
        JNum (Fin q) \<Rightarrow> q
      | JStr s \<Rightarrow> if trim s \<noteq> [] then (case js_number s of Fin q \<Rightarrow> q | _ \<Rightarrow> fallback) else fallback
      | _ \<Rightarrow> fallback)"

definition asBool :: "js \<Rightarrow> bool" where
  "asBool v \<longleftrightarrow> v = JBool True"

definition asPort :: "js \<Rightarrow> int \<Rightarrow> int" where
  "asPort v fallback =
     (let n = asNumber v (of_int fallback) in
      if of_int \<lfloor>n\<rfloor> \<noteq> n \<or> n < 1 \<or> 65535 < n then fallback else \<lfloor>n\<rfloor>)"

text \<open>\<open>asArray(v)[0]\<close> read as an object, and \<open>asArray(v).map((x) => asString(x))\<close>.\<close>

definition first_obj :: "js \<Rightarrow> jobj" where
  "first_obj v = (case asArray v of [] \<Rightarrow> [] | x # _ \<Rightarrow> asObject x)"

definition strings :: "js \<Rightarrow> string list" where
  "strings v = map (\<lambda>x. asString x []) (asArray v)"

section \<open>Reading\<close>

definition default_dest :: "string list" where
  "default_dest = [''http'', ''tls'', ''quic'', ''fakedns'']"

definition REVERSE_SNIFFING_DEFAULT :: reverse_sniffing where
  "REVERSE_SNIFFING_DEFAULT =
     \<lparr>rs_enabled = False, rs_destOverride = default_dest, rs_metadataOnly = False,
      rs_routeOnly = False, rs_ipsExcluded = [], rs_domainsExcluded = []\<rparr>"

definition reverseSniffingFromWire :: "js \<Rightarrow> reverse_sniffing" where
  "reverseSniffingFromWire raw =
     (let r = asObject raw; dest = strings (oget r ''destOverride'') in
      \<lparr>rs_enabled = asBool (oget r ''enabled''), rs_destOverride = (if dest \<noteq> [] then dest else default_dest),
       rs_metadataOnly = asBool (oget r ''metadataOnly''), rs_routeOnly = asBool (oget r ''routeOnly''),
       rs_ipsExcluded = strings (oget r ''ipsExcluded''), rs_domainsExcluded = strings (oget r ''domainsExcluded'')\<rparr>)"

definition vmess_securities :: "string list" where
  "vmess_securities = [''aes-128-gcm'', ''chacha20-poly1305'', ''auto'', ''none'', ''zero'']"

definition vmessFromWire :: "jobj \<Rightarrow> vmess_form" where
  "vmessFromWire raw =
     (let v = first_obj (oget raw ''vnext''); u = first_obj (oget v ''users'');
          s = asString (oget u ''security'') [] in
      \<lparr>vm_address = asString (oget v ''address'') [], vm_port = asPort (oget v ''port'') 443,
       vm_id = asString (oget u ''id'') [],
       vm_security = (if s \<in> set vmess_securities then s else ''auto'')\<rparr>)"

definition default_seed :: "rat list" where
  "default_seed = [900, 500, 900, 256]"

text \<open>\<open>a.length === 4 && a.every((n) => Number.isInteger(n) && n > 0)\<close>\<close>

definition seed_value :: "js \<Rightarrow> rat option" where
  "seed_value v = (case v of JNum (Fin q) \<Rightarrow> if of_int \<lfloor>q\<rfloor> = q \<and> 0 < q then Some q else None | _ \<Rightarrow> None)"

definition savedSeed :: "js \<Rightarrow> rat list" where
  "savedSeed v =
     (let xs = asArray v in
      if length xs = 4 \<and> list_all (\<lambda>x. seed_value x \<noteq> None) xs then List.map_filter seed_value xs
      else default_seed)"

definition vlessFromWire :: "jobj \<Rightarrow> vless_form" where
  "vlessFromWire raw =
     (let vnext = asArray (oget raw ''vnext'');
          v = (if vnext \<noteq> [] then first_obj (oget raw ''vnext'') else raw);
          u = (if vnext \<noteq> [] then first_obj (oget v ''users'') else raw);
          encryption = asString (oget u ''encryption'') ''none'';
          reverse = asObject (oget raw ''reverse'');
          reverseTag = asString (oget reverse ''tag'') []
      in \<lparr>vl_address = asString (oget v ''address'') [], vl_port = asPort (oget v ''port'') 443,
          vl_id = asString (oget u ''id'') [], vl_flow = asString (oget u ''flow'') [],
          vl_encryption = sor encryption ''none'', vl_reverseTag = reverseTag,
          vl_reverseSniffing = (if reverseTag \<noteq> [] then reverseSniffingFromWire (oget reverse ''sniffing'')
                                else REVERSE_SNIFFING_DEFAULT),
          vl_testpre = asNumber (oget raw ''testpre'') 0, vl_testseed = savedSeed (oget raw ''testseed'')\<rparr>)"

definition trojanFromWire :: "jobj \<Rightarrow> trojan_form" where
  "trojanFromWire raw =
     (let s = first_obj (oget raw ''servers'') in
      \<lparr>tj_address = asString (oget s ''address'') [], tj_port = asPort (oget s ''port'') 443,
       tj_password = asString (oget s ''password'') []\<rparr>)"

definition shadowsocksFromWire :: "jobj \<Rightarrow> shadowsocks_form" where
  "shadowsocksFromWire raw =
     (let s = first_obj (oget raw ''servers'') in
      \<lparr>sh_address = asString (oget s ''address'') [], sh_port = asPort (oget s ''port'') 443,
       sh_password = asString (oget s ''password'') [],
       sh_method = asString (oget s ''method'') ''2022-blake3-aes-128-gcm'',
       sh_uot = asBool (oget s ''uot''), sh_UoTVersion = asNumber (oget s ''UoTVersion'') 1\<rparr>)"

definition simpleAuthFromWire :: "jobj \<Rightarrow> int \<Rightarrow> simple_auth_form" where
  "simpleAuthFromWire raw defaultPort =
     (let s = first_obj (oget raw ''servers''); u = first_obj (oget s ''users'') in
      \<lparr>sa_address = asString (oget s ''address'') [], sa_port = asPort (oget s ''port'') defaultPort,
       sa_user = asString (oget u ''user'') [], sa_pass = asString (oget u ''pass'') []\<rparr>)"

definition num_or_string :: "js \<Rightarrow> string" where
  "num_or_string v = (case v of JNum n \<Rightarrow> num_str n | _ \<Rightarrow> asString v [])"

definition anywhere :: "string list" where
  "anywhere = [''0.0.0.0/0'', ''::/0'']"

definition peerFromWire :: "js \<Rightarrow> wireguard_peer_form" where
  "peerFromWire p =
     (let pp = asObject p; allowed = strings (oget pp ''allowedIPs'') in
      \<lparr>wf_publicKey = asString (oget pp ''publicKey'') [], wf_psk = asString (oget pp ''preSharedKey'') [],
       wf_allowedIPs = (if allowed \<noteq> [] then allowed else anywhere),
       wf_endpoint = asString (oget pp ''endpoint'') [], wf_keepAlive = asNumber (oget pp ''keepAlive'') 0\<rparr>)"

definition wg_strategies :: "string list" where
  "wg_strategies = [''ForceIP'', ''ForceIPv4'', ''ForceIPv4v6'', ''ForceIPv6'', ''ForceIPv6v4'']"

definition wireguardFromWire :: "jobj \<Rightarrow> wireguard_form option" where
  "wireguardFromWire raw =
     (let secretKey = asString (oget raw ''secretKey'') [];
          s = asString (oget raw ''domainStrategy'') [] in
      map_option (\<lambda>pubKey.
        \<lparr>wg_mtu = asNumber (oget raw ''mtu'') 1420, wg_secretKey = secretKey, wg_pubKey = pubKey,
         wg_address = join '','' (map num_or_string (asArray (oget raw ''address''))),
         wg_workers = asNumber (oget raw ''workers'') 2,
         wg_domainStrategy = (if s \<in> set wg_strategies then s else []),
         wg_reserved = join '','' (map num_or_string (asArray (oget raw ''reserved''))),
         wg_peers = map peerFromWire (asArray (oget raw ''peers'')),
         wg_noKernelTun = asBool (oget raw ''noKernelTun'')\<rparr>)
        (if secretKey \<noteq> [] then publicKey_of secretKey else Some []))"

definition hysteriaFromWire :: "jobj \<Rightarrow> hysteria_form" where
  "hysteriaFromWire raw =
     \<lparr>hy_address = asString (oget raw ''address'') [], hy_port = asPort (oget raw ''port'') 443, hy_version = 2\<rparr>"

definition noiseFromWire :: "js \<Rightarrow> noise_form" where
  "noiseFromWire n =
     (let nn = asObject n in
      \<lparr>no_type = asString (oget nn ''type'') ''rand'', no_packet = asString (oget nn ''packet'') ''10-20'',
       no_delay = asString (oget nn ''delay'') ''10-16'', no_applyTo = asString (oget nn ''applyTo'') ''ip''\<rparr>)"

text \<open>A list or a string, shown as one comma-joined string.\<close>

definition joined :: "js \<Rightarrow> string" where
  "joined v = (case v of JArr xs \<Rightarrow> join '','' (map (\<lambda>x. asString x []) xs) | _ \<Rightarrow> asString v [])"

definition finalRuleFromWire :: "js \<Rightarrow> final_rule_form" where
  "finalRuleFromWire r =
     (let rr = asObject r in
      \<lparr>fr_action = (if asString (oget rr ''action'') ''block'' = ''allow'' then ''allow'' else ''block''),
       fr_network = joined (oget rr ''network''), fr_port = asString (oget rr ''port'') [],
       fr_ip = strings (oget rr ''ip''), fr_blockDelay = asString (oget rr ''blockDelay'') []\<rparr>)"

definition freedom_strategies :: "string list" where
  "freedom_strategies =
     [''AsIs'', ''UseIP'', ''UseIPv4'', ''UseIPv6'', ''UseIPv6v4'', ''UseIPv4v6'',
      ''ForceIP'', ''ForceIPv6v4'', ''ForceIPv6'', ''ForceIPv4v6'', ''ForceIPv4'']"

definition no_fragment :: fragment_form where
  "no_fragment = \<lparr>fg_packets = [], fg_length = [], fg_interval = [], fg_maxSplit = []\<rparr>"

definition freedomFromWire :: "jobj \<Rightarrow> freedom_form" where
  "freedomFromWire raw =
     (let fragment = asObject (oget raw ''fragment'');
          rules = map finalRuleFromWire (asArray (oget raw ''finalRules''));
          ipsBlocked = strings (oget raw ''ipsBlocked'');
          rules = (if rules = [] \<and> ipsBlocked \<noteq> []
                   then [\<lparr>fr_action = ''block'', fr_network = [], fr_port = [], fr_ip = ipsBlocked, fr_blockDelay = []\<rparr>]
                   else rules);
          s = asString (oget raw ''domainStrategy'') [];
          n = asNumber (oget raw ''proxyProtocol'') 0
      in \<lparr>fd_domainStrategy = (if s \<in> set freedom_strategies then s else []),
          fd_redirect = asString (oget raw ''redirect'') [], fd_userLevel = asNumber (oget raw ''userLevel'') 0,
          fd_proxyProtocol = (if n = 1 \<or> n = 2 then n else 0),
          fd_fragment =
            (if fragment \<noteq> [] then
               \<lparr>fg_packets = asString (oget fragment ''packets'') ''1-3'', fg_length = asString (oget fragment ''length'') [],
                fg_interval = asString (oget fragment ''interval'') [], fg_maxSplit = asString (oget fragment ''maxSplit'') []\<rparr>
             else no_fragment),
          fd_noises = map noiseFromWire (asArray (oget raw ''noises'')), fd_finalRules = rules\<rparr>)"

definition blackholeFromWire :: "jobj \<Rightarrow> blackhole_form" where
  "blackholeFromWire raw =
     (let t = asString (oget (asObject (oget raw ''response'')) ''type'') [] in
      \<lparr>bh_type = (if t = ''none'' \<or> t = ''http'' then t else [])\<rparr>)"

definition dns_actions :: "string list" where
  "dns_actions = [''direct'', ''drop'', ''return'', ''hijack'']"

definition dnsRuleFromWire :: "js \<Rightarrow> dns_rule_form" where
  "dnsRuleFromWire raw =
     (let r = asObject raw; rawQType = coalesce (oget r ''qType'') (oget r ''qtype'');
          action = asString (oget r ''action'') ''direct'' in
      \<lparr>dr_action = (if action \<in> set dns_actions then action else ''direct''),
       dr_qType = (case rawQType of JArr xs \<Rightarrow> join '','' (map to_str xs) | _ \<Rightarrow> num_or_string rawQType),
       dr_domain = joined (oget r ''domain''), dr_rCode = asNumber (oget r ''rCode'') 0\<rparr>)"

definition dnsFromWire :: "jobj \<Rightarrow> dns_form" where
  "dnsFromWire raw =
     (let s = asString (coalesce (oget raw ''rewriteNetwork'') (oget raw ''network'')) [] in
      \<lparr>dn_rewriteNetwork = (if s = ''udp'' \<or> s = ''tcp'' then s else []),
       dn_rewriteAddress = asString (coalesce (oget raw ''rewriteAddress'') (oget raw ''address'')) [],
       dn_rewritePort = asPort (coalesce (oget raw ''rewritePort'') (oget raw ''port'')) 53,
       dn_userLevel = asNumber (oget raw ''userLevel'') 0,
       dn_rules = map dnsRuleFromWire (asArray (oget raw ''rules''))\<rparr>)"

definition loopbackFromWire :: "jobj \<Rightarrow> loopback_form" where
  "loopbackFromWire raw = \<lparr>lo_inboundTag = asString (oget raw ''inboundTag'') []\<rparr>"

definition mux_proxies :: "string list" where
  "mux_proxies = [''reject'', ''allow'', ''skip'']"

definition muxFromWire :: "js \<Rightarrow> mux_form" where
  "muxFromWire raw =
     (let m = asObject raw; s = asString (oget m ''xudpProxyUDP443'') ''reject'' in
      \<lparr>mx_enabled = asBool (oget m ''enabled''), mx_concurrency = asNumber (oget m ''concurrency'') 8,
       mx_xudpConcurrency = asNumber (oget m ''xudpConcurrency'') 16,
       mx_xudpProxyUDP443 = (if s \<in> set mux_proxies then s else ''reject'')\<rparr>)"

section \<open>Reading a row\<close>

definition XMUX_DEFAULTS :: jobj where
  "XMUX_DEFAULTS =
     [(''maxConcurrency'', JStr ''16-32''), (''maxConnections'', JInt 0), (''cMaxReuseTimes'', JInt 0),
      (''hMaxRequestTimes'', JStr ''600-900''), (''hMaxReusableSecs'', JStr ''1800-3000''),
      (''hKeepAlivePeriod'', JInt 0)]"

definition hydrateStreamForm :: "jobj \<Rightarrow> jobj" where
  "hydrateStreamForm stream =
     (case oget stream ''xhttpSettings'' of
        JObj xhttp \<Rightarrow>
          (case oget xhttp ''xmux'' of
             JObj xmux \<Rightarrow>
               oput ''xhttpSettings''
                 (JObj (oput ''xmux'' (JObj (omerge XMUX_DEFAULTS xmux)) (oput ''enableXmux'' (JBool True) xhttp))) stream
           | _ \<Rightarrow> stream)
      | _ \<Rightarrow> stream)"

definition settingsFromWire :: "string \<Rightarrow> jobj \<Rightarrow> outbound_form_settings option" where
  "settingsFromWire protocol st =
     (if protocol = ''vmess'' then Some (Of_Vmess (vmessFromWire st))
      else if protocol = ''trojan'' then Some (Of_Trojan (trojanFromWire st))
      else if protocol = ''shadowsocks'' then Some (Of_Shadowsocks (shadowsocksFromWire st))
      else if protocol = ''socks'' then Some (Of_Socks (simpleAuthFromWire st 1080))
      else if protocol = ''http'' then Some (Of_Http (simpleAuthFromWire st 8080))
      else if protocol = ''wireguard'' then map_option Of_Wireguard (wireguardFromWire st)
      else if protocol = ''hysteria'' then Some (Of_Hysteria (hysteriaFromWire st))
      else if protocol = ''freedom'' then Some (Of_Freedom (freedomFromWire st))
      else if protocol = ''blackhole'' then Some (Of_Blackhole (blackholeFromWire st))
      else if protocol = ''dns'' then Some (Of_Dns (dnsFromWire st))
      else if protocol = ''loopback'' then Some (Of_Loopback (loopbackFromWire st))
      else Some (Of_Vless (vlessFromWire st)))"

definition rawOutboundToFormValues :: "jobj \<Rightarrow> outbound_form option" where
  "rawOutboundToFormValues raw =
     (let protocol = asString (oget raw ''protocol'') ''vless'';
          st = asObject (oget raw ''settings'');
          stream = spread (oget raw ''streamSettings'')
      in map_option (\<lambda>typed.
           \<lparr>of_settings = typed, of_tag = asString (oget raw ''tag'') [],
            of_sendThrough = asString (oget raw ''sendThrough'') [],
            of_mux = Some (muxFromWire (oget raw ''mux'')),
            of_streamSettings = (if stream \<noteq> [] then Some (hydrateStreamForm stream) else None)\<rparr>)
           (settingsFromWire protocol st))"

section \<open>Writing\<close>

abbreviation jstrs :: "string list \<Rightarrow> js" where
  "jstrs xs \<equiv> JArr (map JStr xs)"

text \<open>\<open>v || undefined\<close> for a string and for a number, and \<open>xs.length > 0 ? xs : undefined\<close>.\<close>

definition str_or_undef :: "string \<Rightarrow> js" where
  "str_or_undef s = (if s \<noteq> [] then JStr s else JUndef)"

definition num_or_undef :: "rat \<Rightarrow> js" where
  "num_or_undef q = (if q \<noteq> 0 then JNum (Fin q) else JUndef)"

definition strs_or_undef :: "string list \<Rightarrow> js" where
  "strs_or_undef xs = (if xs \<noteq> [] then jstrs xs else JUndef)"

definition vmessToWire :: "vmess_form \<Rightarrow> jobj" where
  "vmessToWire s =
     [(''vnext'', JArr [JObj [(''address'', JStr (vm_address s)), (''port'', JInt (vm_port s)),
        (''users'', JArr [JObj [(''id'', JStr (vm_id s)), (''security'', JStr (vm_security s))]])]])]"

definition reverseSniffingToWire :: "reverse_sniffing \<Rightarrow> jobj" where
  "reverseSniffingToWire s =
     [(''enabled'', JBool (rs_enabled s)), (''destOverride'', jstrs (rs_destOverride s)),
      (''metadataOnly'', JBool (rs_metadataOnly s)), (''routeOnly'', JBool (rs_routeOnly s)),
      (''ipsExcluded'', strs_or_undef (rs_ipsExcluded s)),
      (''domainsExcluded'', strs_or_undef (rs_domainsExcluded s))]"

definition vless_reverse :: "vless_form \<Rightarrow> jobj \<Rightarrow> jobj" where
  "vless_reverse s result =
     (if vl_reverseTag s \<noteq> [] then
        (let sn = JObj (reverseSniffingToWire (vl_reverseSniffing s));
             defaultSn = JObj (reverseSniffingToWire REVERSE_SNIFFING_DEFAULT) in
         oput ''reverse'' (JObj [(''tag'', JStr (vl_reverseTag s)),
           (''sniffing'', if json_stringify sn = json_stringify defaultSn then JObj [] else sn)]) result)
      else result)"

definition vlessToWire :: "vless_form \<Rightarrow> jobj" where
  "vlessToWire s =
     (let result = [(''address'', JStr (vl_address s)), (''port'', JInt (vl_port s)), (''id'', JStr (vl_id s)),
            (''flow'', JStr (vl_flow s)), (''encryption'', JStr (sor (vl_encryption s) ''none''))];
          result = vless_reverse s result
      in if vl_flow s = ''xtls-rprx-vision'' then
           (let result = (if 0 < vl_testpre s then oput ''testpre'' (JNum (Fin (vl_testpre s))) result else result)
            in if length (vl_testseed s) = 4 \<and> list_all (\<lambda>q. of_int \<lfloor>q\<rfloor> = q \<and> 0 < q) (vl_testseed s)
               then oput ''testseed'' (JArr (map (\<lambda>q. JNum (Fin q)) (vl_testseed s))) result else result)
         else result)"

definition trojanToWire :: "trojan_form \<Rightarrow> jobj" where
  "trojanToWire s =
     [(''servers'', JArr [JObj [(''address'', JStr (tj_address s)), (''port'', JInt (tj_port s)),
        (''password'', JStr (tj_password s))]])]"

definition shadowsocksToWire :: "shadowsocks_form \<Rightarrow> jobj" where
  "shadowsocksToWire s =
     [(''servers'', JArr [JObj [(''address'', JStr (sh_address s)), (''port'', JInt (sh_port s)),
        (''password'', JStr (sh_password s)), (''method'', JStr (sh_method s)), (''uot'', JBool (sh_uot s)),
        (''UoTVersion'', JNum (Fin (sh_UoTVersion s)))]])]"

definition simpleAuthToWire :: "simple_auth_form \<Rightarrow> jobj" where
  "simpleAuthToWire s =
     [(''servers'', JArr [JObj [(''address'', JStr (sa_address s)), (''port'', JInt (sa_port s)),
        (''users'', JArr (if sa_user s \<noteq> []
           then [JObj [(''user'', JStr (sa_user s)), (''pass'', JStr (sa_pass s))]] else []))]])]"

definition peerToWire :: "wireguard_peer_form \<Rightarrow> js" where
  "peerToWire p =
     JObj [(''publicKey'', JStr (wf_publicKey p)), (''preSharedKey'', str_or_undef (wf_psk p)),
       (''allowedIPs'', strs_or_undef (wf_allowedIPs p)), (''endpoint'', JStr (wf_endpoint p)),
       (''keepAlive'', num_or_undef (wf_keepAlive p))]"

definition trimmed_items :: "string \<Rightarrow> string list" where
  "trimmed_items s = non_empty (map trim (split_char CHR '','' s))"

definition reserved_numbers :: "string \<Rightarrow> jsnum list" where
  "reserved_numbers s = filter is_finite (map (\<lambda>x. js_number (trim x)) (split_char CHR '','' s))"

definition wireguardToWire :: "wireguard_form \<Rightarrow> jobj" where
  "wireguardToWire s =
     [(''mtu'', num_or_undef (wg_mtu s)), (''secretKey'', JStr (wg_secretKey s)),
      (''address'', if wg_address s \<noteq> [] then jstrs (trimmed_items (wg_address s)) else JArr []),
      (''workers'', num_or_undef (wg_workers s)), (''domainStrategy'', str_or_undef (wg_domainStrategy s)),
      (''reserved'', if wg_reserved s \<noteq> [] then JArr (map JNum (reserved_numbers (wg_reserved s))) else JUndef),
      (''peers'', JArr (map peerToWire (wg_peers s))), (''noKernelTun'', JBool (wg_noKernelTun s))]"

definition hysteriaToWire :: "hysteria_form \<Rightarrow> jobj" where
  "hysteriaToWire s =
     [(''address'', JStr (hy_address s)), (''port'', JInt (hy_port s)), (''version'', JInt (hy_version s))]"

definition noiseToWire :: "noise_form \<Rightarrow> js" where
  "noiseToWire n =
     JObj [(''type'', JStr (no_type n)), (''packet'', JStr (no_packet n)), (''delay'', JStr (no_delay n)),
       (''applyTo'', JStr (no_applyTo n))]"

definition finalRuleToWire :: "final_rule_form \<Rightarrow> js" where
  "finalRuleToWire r =
     JObj [(''action'', JStr (fr_action r)), (''network'', str_or_undef (fr_network r)),
       (''port'', str_or_undef (fr_port r)), (''ip'', strs_or_undef (fr_ip r)),
       (''blockDelay'', if fr_action r = ''block'' then str_or_undef (fr_blockDelay r) else JUndef)]"

definition fragmentToWire :: "fragment_form \<Rightarrow> js" where
  "fragmentToWire f =
     (if fg_length f \<noteq> [] \<or> fg_interval f \<noteq> [] \<or> fg_maxSplit f \<noteq> [] then
        JObj (filter (\<lambda>p. snd p \<noteq> JStr [])
          [(''packets'', JStr (fg_packets f)), (''length'', JStr (fg_length f)),
           (''interval'', JStr (fg_interval f)), (''maxSplit'', JStr (fg_maxSplit f))])
      else JUndef)"

definition freedomToWire :: "freedom_form \<Rightarrow> jobj" where
  "freedomToWire s =
     [(''domainStrategy'', str_or_undef (fd_domainStrategy s)), (''redirect'', str_or_undef (fd_redirect s)),
      (''userLevel'', num_or_undef (fd_userLevel s)), (''proxyProtocol'', num_or_undef (fd_proxyProtocol s)),
      (''fragment'', fragmentToWire (fd_fragment s)),
      (''noises'', if fd_noises s \<noteq> [] then JArr (map noiseToWire (fd_noises s)) else JUndef),
      (''finalRules'', if fd_finalRules s \<noteq> [] then JArr (map finalRuleToWire (fd_finalRules s)) else JUndef)]"

definition blackholeToWire :: "blackhole_form \<Rightarrow> jobj" where
  "blackholeToWire s =
     [(''response'', if bh_type s \<noteq> [] then JObj [(''type'', JStr (bh_type s))] else JUndef)]"

definition dnsRuleToWire :: "dns_rule_form \<Rightarrow> js" where
  "dnsRuleToWire r =
     (let result = [(''action'', JStr (if dr_action r \<in> set dns_actions then dr_action r else ''direct''))];
          qType = trim (dr_qType r);
          result = (if qType \<noteq> []
                    then oput ''qType'' (if all_digits qType then JNum (js_number qType) else JStr qType) result
                    else result);
          domains = trimmed_items (dr_domain r);
          result = (if domains \<noteq> [] then oput ''domain'' (jstrs domains) result else result)
      in JObj (if 0 < dr_rCode r then oput ''rCode'' (JNum (Fin (dr_rCode r))) result else result))"

definition dnsToWire :: "dns_form \<Rightarrow> jobj" where
  "dnsToWire s =
     (let result = [];
          result = (if dn_rewriteNetwork s \<noteq> [] then oput ''rewriteNetwork'' (JStr (dn_rewriteNetwork s)) result else result);
          result = (if dn_rewriteAddress s \<noteq> [] then oput ''rewriteAddress'' (JStr (dn_rewriteAddress s)) result else result);
          result = (if dn_rewritePort s \<noteq> 0 then oput ''rewritePort'' (JInt (dn_rewritePort s)) result else result);
          result = (if dn_userLevel s \<noteq> 0 then oput ''userLevel'' (JNum (Fin (dn_userLevel s))) result else result)
      in if dn_rules s \<noteq> [] then oput ''rules'' (JArr (map dnsRuleToWire (dn_rules s))) result else result)"

definition loopbackToWire :: "loopback_form \<Rightarrow> jobj" where
  "loopbackToWire s = [(''inboundTag'', str_or_undef (lo_inboundTag s))]"

section \<open>Writing a row\<close>

definition MUX_PROTOCOLS :: "string list" where
  "MUX_PROTOCOLS = [''vmess'', ''vless'', ''trojan'', ''shadowsocks'', ''http'', ''socks'']"

definition STREAM_PROTOCOLS :: "string list" where
  "STREAM_PROTOCOLS = [''vmess'', ''vless'', ''trojan'', ''shadowsocks'', ''hysteria'']"

definition dropEmptyStrings :: "jobj \<Rightarrow> jobj" where
  "dropEmptyStrings obj = fold (\<lambda>(k, v) out. if v = JStr [] then out else oset k v out) obj []"

definition stripUiOnlyStreamFields :: "jobj \<Rightarrow> jobj" where
  "stripUiOnlyStreamFields stream =
     (let xh = oget stream ''xhttpSettings'' in
      normalizeStreamSettingsForWire
        (if is_obj xh \<or> is_arr xh then
           (let cleaned = spread xh; xmuxEnabled = (oget cleaned ''enableXmux'' = JBool True);
                cleaned = odel ''enableXmux'' cleaned;
                cleaned = (if \<not> xmuxEnabled then odel ''xmux'' cleaned else cleaned)
            in oput ''xhttpSettings'' (JObj (dropEmptyStrings cleaned)) stream)
         else stream) Outbound_Side)"

definition muxAllowed :: "outbound_form \<Rightarrow> bool" where
  "muxAllowed values \<longleftrightarrow>
     of_protocol (of_settings values) \<in> set MUX_PROTOCOLS
     \<and> (case of_settings values of Of_Vless s \<Rightarrow> vl_flow s = [] | _ \<Rightarrow> True)
     \<and> (case of_streamSettings values of Some stream \<Rightarrow> oget stream ''network'' \<noteq> JStr ''xhttp'' | None \<Rightarrow> True)"

fun settingsToWire :: "outbound_form_settings \<Rightarrow> jobj" where
  "settingsToWire (Of_Vmess s) = vmessToWire s"
| "settingsToWire (Of_Vless s) = vlessToWire s"
| "settingsToWire (Of_Trojan s) = trojanToWire s"
| "settingsToWire (Of_Shadowsocks s) = shadowsocksToWire s"
| "settingsToWire (Of_Socks s) = simpleAuthToWire s"
| "settingsToWire (Of_Http s) = simpleAuthToWire s"
| "settingsToWire (Of_Wireguard s) = wireguardToWire s"
| "settingsToWire (Of_Hysteria s) = hysteriaToWire s"
| "settingsToWire (Of_Freedom s) = freedomToWire s"
| "settingsToWire (Of_Blackhole s) = blackholeToWire s"
| "settingsToWire (Of_Dns s) = dnsToWire s"
| "settingsToWire (Of_Loopback s) = loopbackToWire s"

definition mux_obj :: "mux_form \<Rightarrow> js" where
  "mux_obj m =
     JObj [(''enabled'', JBool (mx_enabled m)), (''concurrency'', JNum (Fin (mx_concurrency m))),
       (''xudpConcurrency'', JNum (Fin (mx_xudpConcurrency m))),
       (''xudpProxyUDP443'', JStr (mx_xudpProxyUDP443 m))]"

definition formValuesToWirePayload :: "outbound_form \<Rightarrow> jobj" where
  "formValuesToWirePayload values =
     (let protocol = of_protocol (of_settings values);
          result = [(''protocol'', JStr protocol), (''settings'', JObj (settingsToWire (of_settings values)))];
          result = (if of_tag values \<noteq> [] then oput ''tag'' (JStr (of_tag values)) result else result);
          result =
            (case of_streamSettings values of
               None \<Rightarrow> result
             | Some stream \<Rightarrow>
                 if protocol \<in> set STREAM_PROTOCOLS
                 then oput ''streamSettings'' (JObj (stripUiOnlyStreamFields stream)) result
                 else if truthy (oget stream ''sockopt'')
                 then oput ''streamSettings'' (JObj [(''sockopt'', oget stream ''sockopt'')]) result
                 else result);
          result = (if of_sendThrough values \<noteq> [] then oput ''sendThrough'' (JStr (of_sendThrough values)) result else result)
      in case of_mux values of
           Some m \<Rightarrow> if mx_enabled m \<and> muxAllowed values then oput ''mux'' (mux_obj m) result else result
         | None \<Rightarrow> result)"

section \<open>Fields read back\<close>

named_theorems wire_back \<open>reading back what a writer wrote\<close>

lemma asString_simps [simp, wire_back]:
  "asString (JStr s) d = s" "asString JUndef d = d"
  by (simp_all add: asString_def)

lemma asBool_JBool [simp, wire_back]: "asBool (JBool b) = b" "\<not> asBool JUndef"
  by (simp_all add: asBool_def)

lemma asNumber_simps [simp, wire_back]:
  "asNumber (JNum (Fin q)) d = q" "asNumber JUndef d = d"
  by (simp_all add: asNumber_def)

lemma asObject_simps [simp, wire_back]:
  "asObject (JObj o1) = o1" "asObject JUndef = []"
  by (simp_all add: asObject_def)

lemma asArray_simps [simp, wire_back]:
  "asArray (JArr xs) = xs" "asArray JUndef = []"
  by (simp_all add: asArray_def)

lemma first_obj_simps [simp, wire_back]:
  "first_obj (JArr (JObj o1 # xs)) = o1" "first_obj (JArr []) = []" "first_obj JUndef = []"
  by (simp_all add: first_obj_def)

lemma strings_simps [simp, wire_back]:
  "strings (jstrs xs) = xs" "strings (strs_or_undef xs) = xs" "strings JUndef = []"
  by (simp_all add: strings_def strs_or_undef_def comp_def)

lemma or_undef_back [simp, wire_back]:
  "asString (str_or_undef s) [] = s" "asNumber (num_or_undef q) 0 = q"
  by (simp_all add: str_or_undef_def num_or_undef_def)

definition port_ok :: "int \<Rightarrow> bool" where
  "port_ok p \<longleftrightarrow> 1 \<le> p \<and> p \<le> 65535"

lemma asPort_JInt [simp]: "port_ok p \<Longrightarrow> asPort (JInt p) d = p"
  by (auto simp: asPort_def port_ok_def Let_def)

lemma asPort_range: "port_ok d \<Longrightarrow> port_ok (asPort v d)"
  by (auto simp: asPort_def port_ok_def Let_def le_floor_iff floor_le_iff not_less)

section \<open>The contract of an adapter\<close>

text \<open>
  A writer and a reader of one protocol: the reader gives back every form in normal form that the
  writer wrote.
\<close>

locale wire_adapter =
  fixes to_wire :: "'f \<Rightarrow> jobj"
    and from_wire :: "jobj \<Rightarrow> 'f option"
    and ok :: "'f \<Rightarrow> bool"
  assumes read_back: "ok s \<Longrightarrow> from_wire (to_wire s) = Some s"
begin

lemma wire_inj: "ok s \<Longrightarrow> ok t \<Longrightarrow> to_wire s = to_wire t \<Longrightarrow> s = t"
  by (metis read_back option.inject)

lemma wire_stable: "ok s \<Longrightarrow> map_option to_wire (from_wire (to_wire s)) = Some (to_wire s)"
  by (simp add: read_back)

end

section \<open>VMess, Trojan, Shadowsocks, SOCKS, HTTP, Hysteria, Loopback, Blackhole\<close>

definition vmess_ok :: "vmess_form \<Rightarrow> bool" where
  "vmess_ok s \<longleftrightarrow> port_ok (vm_port s) \<and> vm_security s \<in> set vmess_securities"

interpretation vmess: wire_adapter vmessToWire "Some \<circ> vmessFromWire" vmess_ok
  by unfold_locales (simp add: vmessToWire_def vmessFromWire_def vmess_ok_def Let_def)

interpretation trojan: wire_adapter trojanToWire "Some \<circ> trojanFromWire" "\<lambda>s. port_ok (tj_port s)"
  by unfold_locales (simp add: trojanToWire_def trojanFromWire_def Let_def)

interpretation shadowsocks: wire_adapter shadowsocksToWire "Some \<circ> shadowsocksFromWire" "\<lambda>s. port_ok (sh_port s)"
  by unfold_locales (simp add: shadowsocksToWire_def shadowsocksFromWire_def Let_def)

definition auth_ok :: "simple_auth_form \<Rightarrow> bool" where
  "auth_ok s \<longleftrightarrow> port_ok (sa_port s) \<and> (sa_user s = [] \<longrightarrow> sa_pass s = [])"

interpretation simple_auth: wire_adapter simpleAuthToWire "\<lambda>r. Some (simpleAuthFromWire r d)" auth_ok for d
  by unfold_locales (auto simp: simpleAuthToWire_def simpleAuthFromWire_def auth_ok_def Let_def)

interpretation hysteria: wire_adapter hysteriaToWire "Some \<circ> hysteriaFromWire" "\<lambda>s. port_ok (hy_port s) \<and> hy_version s = 2"
  by unfold_locales (simp add: hysteriaToWire_def hysteriaFromWire_def)

interpretation loopback: wire_adapter loopbackToWire "Some \<circ> loopbackFromWire" "\<lambda>s. True"
  by unfold_locales (simp add: loopbackToWire_def loopbackFromWire_def)

definition blackhole_ok :: "blackhole_form \<Rightarrow> bool" where
  "blackhole_ok s \<longleftrightarrow> bh_type s = [] \<or> bh_type s = ''none'' \<or> bh_type s = ''http''"

interpretation blackhole: wire_adapter blackholeToWire "Some \<circ> blackholeFromWire" blackhole_ok
  by unfold_locales (auto simp: blackholeToWire_def blackholeFromWire_def blackhole_ok_def Let_def)

section \<open>VLESS\<close>

lemma members_defined: "json_members g i ps = json_members g i (filter (\<lambda>p. snd p \<noteq> JUndef) ps)"
  by (induction ps) auto

lemma stringify_defined: "json_stringify (JObj ps) = json_stringify (JObj (filter (\<lambda>p. snd p \<noteq> JUndef) ps))"
  unfolding json_stringify_def json_gen.simps by (simp only: members_defined[of _ _ ps])

lemma strs_clean [simp]: "list_all json_clean (map JStr xs)"
  by (simp add: list_all_iff)

lemma sniffing_clean: "json_clean (JObj (filter (\<lambda>p. snd p \<noteq> JUndef) (reverseSniffingToWire s)))"
proof -
  have "owf (filter (\<lambda>p. snd p \<noteq> JUndef) (reverseSniffingToWire s))"
    by (rule owf_named) (simp_all add: reverseSniffingToWire_def strs_or_undef_def okeys_def is_digit_def)
  then show ?thesis by (simp add: reverseSniffingToWire_def strs_or_undef_def)
qed

lemma sniffing_fields:
  assumes "json_stringify (JObj (reverseSniffingToWire s)) = json_stringify (JObj (reverseSniffingToWire t))"
  shows "s = t"
proof -
  let ?d = "\<lambda>s. filter (\<lambda>p. snd p \<noteq> JUndef) (reverseSniffingToWire s)"
  have same: "json_stringify (JObj (?d s)) = json_stringify (JObj (?d t))"
    using assms by (simp only: stringify_defined[symmetric])
  have "Some (JObj (?d s)) = json_parse (json_stringify (JObj (?d s)))"
    by (rule json_parse_stringify[OF sniffing_clean, symmetric])
  also have "\<dots> = Some (JObj (?d t))"
    unfolding same by (rule json_parse_stringify[OF sniffing_clean])
  finally have eq: "?d s = ?d t" by (simp only: option.inject js.inject)
  have read: "reverseSniffingFromWire (JObj (?d u)) = u\<lparr>rs_destOverride := (if rs_destOverride u \<noteq> [] then rs_destOverride u else default_dest)\<rparr>" for u
    by (simp add: reverseSniffingFromWire_def reverseSniffingToWire_def Let_def strs_or_undef_def)
  have dest: "oget (?d u) ''destOverride'' = jstrs (rs_destOverride u)" for u
    by (simp add: reverseSniffingToWire_def)
  have "rs_destOverride s = rs_destOverride t" using dest[of s] dest[of t] eq by (simp add: inj_map_eq_map inj_def)
  moreover have "s\<lparr>rs_destOverride := D\<rparr> = t\<lparr>rs_destOverride := D\<rparr>"
    if "D = (if rs_destOverride t \<noteq> [] then rs_destOverride t else default_dest)" for D
    using read[of s] read[of t] eq that calculation by simp
  ultimately show ?thesis by (cases s, cases t) simp
qed

definition seed_ok :: "rat list \<Rightarrow> bool" where
  "seed_ok xs \<longleftrightarrow> length xs = 4 \<and> list_all (\<lambda>q. of_int \<lfloor>q\<rfloor> = q \<and> 0 < q) xs"

text \<open>
  The form of a VLESS outbound in normal form: an encryption, the Vision knobs only with the Vision
  flow, the sniffing block only with a reverse tag.
\<close>

definition vless_ok :: "vless_form \<Rightarrow> bool" where
  "vless_ok s \<longleftrightarrow>
     port_ok (vl_port s) \<and> vl_encryption s \<noteq> []
     \<and> (if vl_reverseTag s = [] then vl_reverseSniffing s = REVERSE_SNIFFING_DEFAULT
        else rs_destOverride (vl_reverseSniffing s) \<noteq> [])
     \<and> (if vl_flow s = ''xtls-rprx-vision'' then 0 \<le> vl_testpre s \<and> seed_ok (vl_testseed s)
        else vl_testpre s = 0 \<and> vl_testseed s = default_seed)"

lemma savedSeed_back:
  assumes "seed_ok xs"
  shows "savedSeed (JArr (map (\<lambda>q. JNum (Fin q)) xs)) = xs"
proof -
  have v: "list_all (\<lambda>q. seed_value (JNum (Fin q)) = Some q) xs"
    using assms by (auto simp: seed_ok_def seed_value_def list_all_iff)
  then have "List.map_filter seed_value (map (\<lambda>q. JNum (Fin q)) xs) = xs"
    by (induction xs) (auto simp: List.map_filter_simps)
  then show ?thesis using assms v by (auto simp: savedSeed_def seed_ok_def list_all_iff)
qed

lemma sniffing_back:
  "rs_destOverride s \<noteq> [] \<Longrightarrow> reverseSniffingFromWire (JObj (reverseSniffingToWire s)) = s"
  by (simp add: reverseSniffingFromWire_def reverseSniffingToWire_def Let_def)

lemma sniffing_default: "reverseSniffingFromWire (JObj []) = REVERSE_SNIFFING_DEFAULT"
  by (simp add: reverseSniffingFromWire_def REVERSE_SNIFFING_DEFAULT_def Let_def)

lemma vless_reverse_get:
  "k \<noteq> ''reverse'' \<Longrightarrow> oget (vless_reverse s r) k = oget r k"
  by (simp add: vless_reverse_def Let_def)

lemma vless_reverse_back:
  assumes "rs_destOverride (vl_reverseSniffing s) \<noteq> []" "vl_reverseTag s \<noteq> []"
  shows "\<exists>sn. oget (vless_reverse s r) ''reverse'' = JObj [(''tag'', JStr (vl_reverseTag s)), (''sniffing'', sn)]
    \<and> reverseSniffingFromWire sn = vl_reverseSniffing s"
proof (cases "json_stringify (JObj (reverseSniffingToWire (vl_reverseSniffing s)))
      = json_stringify (JObj (reverseSniffingToWire REVERSE_SNIFFING_DEFAULT))")
  case True
  then have "vl_reverseSniffing s = REVERSE_SNIFFING_DEFAULT" by (rule sniffing_fields)
  then show ?thesis using True assms by (simp add: vless_reverse_def Let_def sniffing_default)
next
  case False
  then show ?thesis using assms by (simp add: vless_reverse_def Let_def sniffing_back)
qed

lemma vless_fields:
  assumes "oget r ''vnext'' = JUndef" "oget r ''address'' = JStr (vl_address s)" "oget r ''port'' = JInt (vl_port s)"
    "oget r ''id'' = JStr (vl_id s)" "oget r ''flow'' = JStr (vl_flow s)"
    "oget r ''encryption'' = JStr (vl_encryption s)"
    "if vl_reverseTag s = [] then oget r ''reverse'' = JUndef
     else \<exists>sn. oget r ''reverse'' = JObj [(''tag'', JStr (vl_reverseTag s)), (''sniffing'', sn)]
       \<and> reverseSniffingFromWire sn = vl_reverseSniffing s"
    "asNumber (oget r ''testpre'') 0 = vl_testpre s" "savedSeed (oget r ''testseed'') = vl_testseed s"
    "vless_ok s"
  shows "vlessFromWire r = s"
  using assms by (auto simp: vlessFromWire_def Let_def vless_ok_def sor_def split: if_splits)

lemma vless_write_get:
  "oget (vlessToWire s) k =
     (if k = ''testseed'' \<and> vl_flow s = ''xtls-rprx-vision'' \<and> seed_ok (vl_testseed s)
      then JArr (map (\<lambda>q. JNum (Fin q)) (vl_testseed s))
      else if k = ''testpre'' \<and> vl_flow s = ''xtls-rprx-vision'' \<and> 0 < vl_testpre s then JNum (Fin (vl_testpre s))
      else oget (vless_reverse s
        [(''address'', JStr (vl_address s)), (''port'', JInt (vl_port s)), (''id'', JStr (vl_id s)),
         (''flow'', JStr (vl_flow s)), (''encryption'', JStr (sor (vl_encryption s) ''none''))]) k)"
  by (simp add: vlessToWire_def Let_def seed_ok_def)

lemma savedSeed_undef [simp]: "savedSeed JUndef = default_seed"
  by (simp add: savedSeed_def)

interpretation vless: wire_adapter vlessToWire "Some \<circ> vlessFromWire" vless_ok
proof unfold_locales
  fix s
  assume ok: "vless_ok s"
  let ?r = "[(''address'', JStr (vl_address s)), (''port'', JInt (vl_port s)), (''id'', JStr (vl_id s)),
         (''flow'', JStr (vl_flow s)), (''encryption'', JStr (sor (vl_encryption s) ''none''))]"
  have g: "oget (vlessToWire s) ''reverse'' = oget (vless_reverse s ?r) ''reverse''"
    by (simp only: vless_write_get) simp
  have r: "if vl_reverseTag s = [] then oget (vlessToWire s) ''reverse'' = JUndef
     else \<exists>sn. oget (vlessToWire s) ''reverse'' = JObj [(''tag'', JStr (vl_reverseTag s)), (''sniffing'', sn)]
       \<and> reverseSniffingFromWire sn = vl_reverseSniffing s"
  proof (cases "vl_reverseTag s = []")
    case True
    then show ?thesis by (simp add: g vless_reverse_def)
  next
    case False
    then have "rs_destOverride (vl_reverseSniffing s) \<noteq> []" using ok by (simp add: vless_ok_def)
    from vless_reverse_back[OF this False, of ?r] show ?thesis using False by (simp only: g if_False)
  qed
  have t: "asNumber (oget (vlessToWire s) ''testpre'') 0 = vl_testpre s"
    "savedSeed (oget (vlessToWire s) ''testseed'') = vl_testseed s"
    using ok savedSeed_back[of "vl_testseed s"]
    by (simp_all add: vless_write_get vless_ok_def vless_reverse_get split: if_splits)
  have "vlessFromWire (vlessToWire s) = s"
    by (rule vless_fields[OF _ _ _ _ _ _ r t ok])
      (use ok in \<open>simp_all add: vless_write_get vless_reverse_get vless_ok_def sor_def\<close>)
  then show "(Some \<circ> vlessFromWire) (vlessToWire s) = Some s" by simp
qed

section \<open>WireGuard\<close>

definition peer_ok :: "wireguard_peer_form \<Rightarrow> bool" where
  "peer_ok p \<longleftrightarrow> wf_allowedIPs p \<noteq> []"

text \<open>A comma-joined text in normal form: its items are trimmed and not empty.\<close>

definition items_text :: "string \<Rightarrow> bool" where
  "items_text s \<longleftrightarrow> join '','' (trimmed_items s) = s"

definition numbers_text :: "string \<Rightarrow> bool" where
  "numbers_text s \<longleftrightarrow> s = [] \<or> join '','' (map num_str (reserved_numbers s)) = s"

definition wireguard_ok :: "wireguard_form \<Rightarrow> bool" where
  "wireguard_ok s \<longleftrightarrow>
     wg_mtu s \<noteq> 0 \<and> wg_workers s \<noteq> 0 \<and> (wg_domainStrategy s = [] \<or> wg_domainStrategy s \<in> set wg_strategies)
     \<and> items_text (wg_address s) \<and> numbers_text (wg_reserved s) \<and> list_all peer_ok (wg_peers s)
     \<and> (if wg_secretKey s \<noteq> [] then publicKey_of (wg_secretKey s) else Some []) = Some (wg_pubKey s)"

lemma peer_back: "peer_ok p \<Longrightarrow> peerFromWire (peerToWire p) = p"
  by (simp add: peerFromWire_def peerToWire_def peer_ok_def Let_def)

lemma num_or_string_simps [simp]:
  "num_or_string (JNum n) = num_str n" "num_or_string (JStr t) = t" "num_or_string JUndef = []"
  by (simp_all add: num_or_string_def)

lemma address_back:
  "items_text a \<Longrightarrow> join '','' (map num_or_string (asArray (if a \<noteq> [] then jstrs (trimmed_items a) else JArr []))) = a"
  by (simp add: items_text_def comp_def)

lemma reserved_back:
  "numbers_text a \<Longrightarrow> join '','' (map num_or_string (asArray
     (if a \<noteq> [] then JArr (map JNum (reserved_numbers a)) else JUndef))) = a"
  by (auto simp: numbers_text_def comp_def)

lemma num_or_undef_other: "q \<noteq> 0 \<Longrightarrow> asNumber (num_or_undef q) d = q"
  by (simp add: num_or_undef_def)

interpretation wireguard: wire_adapter wireguardToWire wireguardFromWire wireguard_ok
proof unfold_locales
  fix s
  assume ok: "wireguard_ok s"
  have peers: "map (peerFromWire \<circ> peerToWire) (wg_peers s) = wg_peers s"
    using ok by (simp add: wireguard_ok_def list_all_iff peer_back map_idI)
  show "wireguardFromWire (wireguardToWire s) = Some s"
    using ok address_back[of "wg_address s"] reserved_back[of "wg_reserved s"] peers
    unfolding wireguardFromWire_def Let_def
    by (cases s) (auto simp: wireguardToWire_def wireguard_ok_def num_or_undef_other)
qed

section \<open>Freedom\<close>

definition rule_ok :: "final_rule_form \<Rightarrow> bool" where
  "rule_ok r \<longleftrightarrow> (fr_action r = ''allow'' \<and> fr_blockDelay r = []) \<or> fr_action r = ''block''"

definition fragment_ok :: "fragment_form \<Rightarrow> bool" where
  "fragment_ok f \<longleftrightarrow>
     f = no_fragment \<or> (fg_packets f \<noteq> [] \<and> (fg_length f \<noteq> [] \<or> fg_interval f \<noteq> [] \<or> fg_maxSplit f \<noteq> []))"

definition freedom_ok :: "freedom_form \<Rightarrow> bool" where
  "freedom_ok s \<longleftrightarrow>
     (fd_domainStrategy s = [] \<or> fd_domainStrategy s \<in> set freedom_strategies)
     \<and> fd_proxyProtocol s \<in> {0, 1, 2} \<and> fragment_ok (fd_fragment s) \<and> list_all rule_ok (fd_finalRules s)"

lemma joined_back [simp]: "joined (str_or_undef s) = s" "joined (jstrs xs) = join '','' xs" "joined JUndef = []"
  by (simp_all add: joined_def str_or_undef_def comp_def)

lemma rule_back: "rule_ok r \<Longrightarrow> finalRuleFromWire (finalRuleToWire r) = r"
  by (cases r) (auto simp: finalRuleFromWire_def finalRuleToWire_def rule_ok_def Let_def)

lemma noise_back: "noiseFromWire (noiseToWire n) = n"
  by (simp add: noiseFromWire_def noiseToWire_def Let_def)

lemma fragment_back:
  assumes "fragment_ok f"
  shows "(let fragment = asObject (fragmentToWire f) in
     if fragment \<noteq> [] then
       \<lparr>fg_packets = asString (oget fragment ''packets'') ''1-3'', fg_length = asString (oget fragment ''length'') [],
        fg_interval = asString (oget fragment ''interval'') [], fg_maxSplit = asString (oget fragment ''maxSplit'') []\<rparr>
     else no_fragment) = f"
proof (cases "f = no_fragment")
  case True
  then show ?thesis by (simp add: fragmentToWire_def no_fragment_def)
next
  case False
  then have "fg_packets f \<noteq> []" "fg_length f \<noteq> [] \<or> fg_interval f \<noteq> [] \<or> fg_maxSplit f \<noteq> []"
    using assms by (auto simp: fragment_ok_def)
  then show ?thesis by (cases f) (simp add: fragmentToWire_def)
qed

interpretation freedom: wire_adapter freedomToWire "Some \<circ> freedomFromWire" freedom_ok
proof unfold_locales
  fix s
  assume ok: "freedom_ok s"
  have lists: "map (finalRuleFromWire \<circ> finalRuleToWire) (fd_finalRules s) = fd_finalRules s"
    "map (noiseFromWire \<circ> noiseToWire) (fd_noises s) = fd_noises s"
    using ok by (auto simp: freedom_ok_def list_all_iff rule_back noise_back intro!: map_idI)
  show "(Some \<circ> freedomFromWire) (freedomToWire s) = Some s"
    using ok lists fragment_back[of "fd_fragment s"]
    by (cases s) (auto simp: freedomFromWire_def freedomToWire_def freedom_ok_def Let_def)
qed

section \<open>DNS\<close>

definition dns_rule_ok :: "dns_rule_form \<Rightarrow> bool" where
  "dns_rule_ok r \<longleftrightarrow>
     dr_action r \<in> set dns_actions \<and> trim (dr_qType r) = dr_qType r
     \<and> (all_digits (dr_qType r) \<longrightarrow> num_str (js_number (dr_qType r)) = dr_qType r)
     \<and> items_text (dr_domain r) \<and> 0 \<le> dr_rCode r"

definition dns_ok :: "dns_form \<Rightarrow> bool" where
  "dns_ok s \<longleftrightarrow>
     dn_rewriteNetwork s \<in> {[], ''udp'', ''tcp''} \<and> port_ok (dn_rewritePort s) \<and> list_all dns_rule_ok (dn_rules s)"

lemma dns_rule_back: "dns_rule_ok r \<Longrightarrow> dnsRuleFromWire (dnsRuleToWire r) = r"
  by (cases r) (auto simp: dnsRuleFromWire_def dnsRuleToWire_def dns_rule_ok_def items_text_def Let_def)

lemma dns_write_get:
  "oget (dnsToWire s) k =
     (if k = ''rules'' \<and> dn_rules s \<noteq> [] then JArr (map dnsRuleToWire (dn_rules s))
      else if k = ''userLevel'' \<and> dn_userLevel s \<noteq> 0 then JNum (Fin (dn_userLevel s))
      else if k = ''rewritePort'' \<and> dn_rewritePort s \<noteq> 0 then JInt (dn_rewritePort s)
      else if k = ''rewriteAddress'' \<and> dn_rewriteAddress s \<noteq> [] then JStr (dn_rewriteAddress s)
      else if k = ''rewriteNetwork'' \<and> dn_rewriteNetwork s \<noteq> [] then JStr (dn_rewriteNetwork s)
      else JUndef)"
  by (simp add: dnsToWire_def Let_def)

interpretation dns: wire_adapter dnsToWire "Some \<circ> dnsFromWire" dns_ok
proof unfold_locales
  fix s
  assume ok: "dns_ok s"
  have rules: "map (dnsRuleFromWire \<circ> dnsRuleToWire) (dn_rules s) = dn_rules s"
    using ok by (auto simp: dns_ok_def list_all_iff dns_rule_back intro!: map_idI)
  have port: "dn_rewritePort s \<noteq> 0" "port_ok (dn_rewritePort s)" using ok by (auto simp: dns_ok_def port_ok_def)
  show "(Some \<circ> dnsFromWire) (dnsToWire s) = Some s"
    using ok rules port by (cases s) (auto simp: dnsFromWire_def dns_write_get dns_ok_def Let_def)
qed

section \<open>The whole form\<close>

fun settings_ok :: "outbound_form_settings \<Rightarrow> bool" where
  "settings_ok (Of_Vmess s) = vmess_ok s"
| "settings_ok (Of_Vless s) = vless_ok s"
| "settings_ok (Of_Trojan s) = port_ok (tj_port s)"
| "settings_ok (Of_Shadowsocks s) = port_ok (sh_port s)"
| "settings_ok (Of_Socks s) = auth_ok s"
| "settings_ok (Of_Http s) = auth_ok s"
| "settings_ok (Of_Wireguard s) = wireguard_ok s"
| "settings_ok (Of_Hysteria s) = (port_ok (hy_port s) \<and> hy_version s = 2)"
| "settings_ok (Of_Freedom s) = freedom_ok s"
| "settings_ok (Of_Blackhole s) = blackhole_ok s"
| "settings_ok (Of_Dns s) = dns_ok s"
| "settings_ok (Of_Loopback s) = True"

lemma settings_back:
  "settings_ok s \<Longrightarrow> settingsFromWire (of_protocol s) (settingsToWire s) = Some s"
  using vmess.read_back vless.read_back trojan.read_back shadowsocks.read_back simple_auth.read_back
    wireguard.read_back hysteria.read_back freedom.read_back blackhole.read_back dns.read_back loopback.read_back
  by (cases s) (simp_all add: settingsFromWire_def comp_def)

definition mux_default :: mux_form where
  "mux_default = muxFromWire JUndef"

definition mux_ok :: "outbound_form \<Rightarrow> bool" where
  "mux_ok v \<longleftrightarrow>
     (case of_mux v of
        None \<Rightarrow> False
      | Some m \<Rightarrow> if mx_enabled m \<and> muxAllowed v then mx_xudpProxyUDP443 m \<in> set mux_proxies else m = mux_default)"

text \<open>
  The stream part in normal form: wire-shaped for a protocol with a stream, just the sockopt of
  another. An XHTTP block is left out: the form shows the defaults of its XMUX object, which the
  wire does not have to.
\<close>

definition stream_part_ok :: "outbound_form \<Rightarrow> bool" where
  "stream_part_ok v \<longleftrightarrow>
     (case of_streamSettings v of
        None \<Rightarrow> True
      | Some st \<Rightarrow>
          (if of_protocol (of_settings v) \<in> set STREAM_PROTOCOLS
           then st \<noteq> [] \<and> stream_normal Outbound_Side st \<and> oget st ''xhttpSettings'' = JUndef
           else \<exists>x. st = [(''sockopt'', x)] \<and> truthy x))"

definition form_ok :: "outbound_form \<Rightarrow> bool" where
  "form_ok v \<longleftrightarrow> settings_ok (of_settings v) \<and> mux_ok v \<and> stream_part_ok v"

lemma mux_back: "mx_xudpProxyUDP443 m \<in> set mux_proxies \<Longrightarrow> muxFromWire (mux_obj m) = m"
  by (simp add: muxFromWire_def mux_obj_def Let_def)

text \<open>The payload, field by field.\<close>

definition stream_wire :: "outbound_form \<Rightarrow> js" where
  "stream_wire v =
     (case of_streamSettings v of
        None \<Rightarrow> JUndef
      | Some st \<Rightarrow>
          if of_protocol (of_settings v) \<in> set STREAM_PROTOCOLS then JObj (stripUiOnlyStreamFields st)
          else if truthy (oget st ''sockopt'') then JObj [(''sockopt'', oget st ''sockopt'')] else JUndef)"

definition mux_wire :: "outbound_form \<Rightarrow> js" where
  "mux_wire v =
     (case of_mux v of Some m \<Rightarrow> if mx_enabled m \<and> muxAllowed v then mux_obj m else JUndef | None \<Rightarrow> JUndef)"

lemma payload_fields:
  "oget (formValuesToWirePayload v) ''protocol'' = JStr (of_protocol (of_settings v))"
  "oget (formValuesToWirePayload v) ''settings'' = JObj (settingsToWire (of_settings v))"
  "oget (formValuesToWirePayload v) ''tag'' = str_or_undef (of_tag v)"
  "oget (formValuesToWirePayload v) ''sendThrough'' = str_or_undef (of_sendThrough v)"
  "oget (formValuesToWirePayload v) ''streamSettings'' = stream_wire v"
  "oget (formValuesToWirePayload v) ''mux'' = mux_wire v"
  by (auto simp: formValuesToWirePayload_def Let_def str_or_undef_def stream_wire_def mux_wire_def split: option.splits)

lemma stream_back:
  assumes "stream_part_ok v"
  shows "(let stream = spread (stream_wire v) in if stream \<noteq> [] then Some (hydrateStreamForm stream) else None)
    = of_streamSettings v"
proof (cases "of_streamSettings v")
  case None
  then show ?thesis by (simp add: stream_wire_def spread_def)
next
  case (Some st)
  then show ?thesis
    using assms stream_normal_fixed
    by (auto simp: stream_part_ok_def stream_wire_def spread_def stripUiOnlyStreamFields_def hydrateStreamForm_def
        split: if_splits)
qed

lemma mux_part_back: "mux_ok v \<Longrightarrow> Some (muxFromWire (mux_wire v)) = of_mux v"
  using mux_back by (auto simp: mux_ok_def mux_wire_def mux_default_def split: option.splits if_splits)

section \<open>Well-typed forms\<close>

fun settings_typed :: "outbound_form_settings \<Rightarrow> bool" where
  "settings_typed (Of_Vmess s) \<longleftrightarrow> port_ok (vm_port s) \<and> vm_security s \<in> set vmess_securities"
| "settings_typed (Of_Vless s) \<longleftrightarrow>
     port_ok (vl_port s) \<and> vl_encryption s \<noteq> [] \<and> seed_ok (vl_testseed s)
     \<and> rs_destOverride (vl_reverseSniffing s) \<noteq> []"
| "settings_typed (Of_Trojan s) \<longleftrightarrow> port_ok (tj_port s)"
| "settings_typed (Of_Shadowsocks s) \<longleftrightarrow> port_ok (sh_port s)"
| "settings_typed (Of_Socks s) \<longleftrightarrow> port_ok (sa_port s)"
| "settings_typed (Of_Http s) \<longleftrightarrow> port_ok (sa_port s)"
| "settings_typed (Of_Wireguard s) \<longleftrightarrow>
     (wg_domainStrategy s = [] \<or> wg_domainStrategy s \<in> set wg_strategies)
     \<and> list_all (\<lambda>p. wf_allowedIPs p \<noteq> []) (wg_peers s)"
| "settings_typed (Of_Hysteria s) \<longleftrightarrow> port_ok (hy_port s) \<and> hy_version s = 2"
| "settings_typed (Of_Freedom s) \<longleftrightarrow>
     (fd_domainStrategy s = [] \<or> fd_domainStrategy s \<in> set freedom_strategies)
     \<and> fd_proxyProtocol s \<in> {0, 1, 2} \<and> list_all (\<lambda>r. fr_action r \<in> {''allow'', ''block''}) (fd_finalRules s)"
| "settings_typed (Of_Blackhole s) \<longleftrightarrow> blackhole_ok s"
| "settings_typed (Of_Dns s) \<longleftrightarrow>
     port_ok (dn_rewritePort s) \<and> dn_rewriteNetwork s \<in> {[], ''udp'', ''tcp''}
     \<and> list_all (\<lambda>r. dr_action r \<in> set dns_actions) (dn_rules s)"
| "settings_typed (Of_Loopback s) \<longleftrightarrow> True"

lemma map_filter_all: "list_all (\<lambda>x. f x \<noteq> None) xs \<Longrightarrow> length (List.map_filter f xs) = length xs"
  by (induction xs) (auto simp: List.map_filter_simps)

lemma seed_ok_saved: "seed_ok (savedSeed v)"
proof -
  have d: "seed_ok default_seed" by (simp add: seed_ok_def default_seed_def)
  have m: "list_all (\<lambda>q. of_int \<lfloor>q\<rfloor> = q \<and> 0 < q) (List.map_filter seed_value xs)" for xs
    by (induction xs) (auto simp: List.map_filter_simps seed_value_def split: option.splits js.splits jsnum.splits if_splits)
  show ?thesis using d m map_filter_all[of seed_value "asArray v"]
    by (auto simp: savedSeed_def Let_def seed_ok_def)
qed

lemma default_ports: "port_ok 443" "port_ok 1080" "port_ok 8080" "port_ok 53"
  by (simp_all add: port_ok_def)

lemma member_actions: "''direct'' \<in> set dns_actions" "''auto'' \<in> set vmess_securities"
  "''reject'' \<in> set mux_proxies"
  by (simp_all add: dns_actions_def vmess_securities_def mux_proxies_def)

lemma anywhere_filled: "anywhere \<noteq> []" "default_dest \<noteq> []"
  by (simp_all add: anywhere_def default_dest_def)

lemma typed_simple:
  "settings_typed (Of_Vmess (vmessFromWire r))" "settings_typed (Of_Trojan (trojanFromWire r))"
  "settings_typed (Of_Shadowsocks (shadowsocksFromWire r))" "settings_typed (Of_Socks (simpleAuthFromWire r 1080))"
  "settings_typed (Of_Http (simpleAuthFromWire r 8080))" "settings_typed (Of_Hysteria (hysteriaFromWire r))"
  "settings_typed (Of_Blackhole (blackholeFromWire r))" "settings_typed (Of_Loopback (loopbackFromWire r))"
  by (auto simp: vmessFromWire_def trojanFromWire_def shadowsocksFromWire_def simpleAuthFromWire_def
      hysteriaFromWire_def blackholeFromWire_def loopbackFromWire_def Let_def asPort_range default_ports member_actions
      blackhole_ok_def)

lemma typed_vless: "settings_typed (Of_Vless (vlessFromWire r))"
  by (auto simp: vlessFromWire_def Let_def asPort_range default_ports seed_ok_saved sor_def
      reverseSniffingFromWire_def REVERSE_SNIFFING_DEFAULT_def anywhere_filled)

lemma typed_wireguard: "wireguardFromWire r = Some s \<Longrightarrow> settings_typed (Of_Wireguard s)"
  by (auto simp: wireguardFromWire_def Let_def list_all_iff peerFromWire_def anywhere_filled split: if_splits)

lemma typed_freedom: "settings_typed (Of_Freedom (freedomFromWire r))"
  by (auto simp: freedomFromWire_def Let_def list_all_iff finalRuleFromWire_def)

lemma typed_dns: "settings_typed (Of_Dns (dnsFromWire r))"
  by (auto simp: dnsFromWire_def Let_def list_all_iff dnsRuleFromWire_def asPort_range default_ports member_actions)

lemma typed_settings: "settingsFromWire protocol r = Some s \<Longrightarrow> settings_typed s"
  using typed_simple typed_vless typed_wireguard typed_freedom typed_dns
  by (auto simp: settingsFromWire_def simp del: settings_typed.simps split: if_splits)

section \<open>Properties\<close>

text \<open>
  C3
  What the form writes it reads back: for every form in normal form, of any of the twelve
  protocols, with its tag, mux, stream settings and source address, the payload that is submitted
  reads back as the same form.
\<close>

theorem outbound_form_roundtrip:
  assumes "form_ok v"
  shows "rawOutboundToFormValues (formValuesToWirePayload v) = Some v"
  using assms settings_back[of "of_settings v"] stream_back[of v] mux_part_back[of v]
  unfolding rawOutboundToFormValues_def Let_def payload_fields
  by (cases v) (simp add: form_ok_def)

theorem outbound_form_roundtrip_witness:
  "let v = \<lparr>of_settings = Of_Trojan \<lparr>tj_address = ''h'', tj_port = 443, tj_password = ''pw''\<rparr>,
            of_tag = ''out'', of_sendThrough = [], of_mux = Some mux_default,
            of_streamSettings = Some [(''network'', JStr ''tcp''), (''security'', JStr ''none'')]\<rparr>
   in rawOutboundToFormValues (formValuesToWirePayload v) = Some v"
  unfolding Let_def
  by (rule outbound_form_roundtrip)
    (simp add: form_ok_def mux_ok_def stream_part_ok_def STREAM_PROTOCOLS_def stream_normal_def okeys_def port_ok_def
      mux_default_def muxFromWire_def Let_def)

text \<open>
  C37
  Whatever JSON an outbound row holds, the form it is read into has its ports between 1 and 65535, a VLESS test
  seed of four positive integers, an allowed address for every WireGuard peer, and only known values in the
  enumerated fields that the readers check: the VMess security, the domain strategies of WireGuard and freedom, the
  proxy protocol and the final rules of freedom, the network and actions of DNS, the type of a blackhole and the
  UDP 443 choice of the mux. A Shadowsocks method and the type and target of a freedom noise are read as any text.
\<close>

theorem read_form_typed:
  assumes "rawOutboundToFormValues raw = Some v"
  shows "settings_typed (of_settings v) \<and> (\<exists>m. of_mux v = Some m \<and> mx_xudpProxyUDP443 m \<in> set mux_proxies)"
  using assms typed_settings
  by (auto simp: rawOutboundToFormValues_def Let_def muxFromWire_def member_actions)

theorem read_form_typed_witness:
  "\<exists>v. rawOutboundToFormValues [(''protocol'', JStr ''socks''), (''settings'', JArr [])] = Some v
     \<and> settings_typed (of_settings v)"
proof -
  obtain v where v: "rawOutboundToFormValues [(''protocol'', JStr ''socks''), (''settings'', JArr [])] = Some v"
    by (simp add: rawOutboundToFormValues_def settingsFromWire_def Let_def)
  from read_form_typed[OF v] v show ?thesis by blast
qed

text \<open>
  The mux object is submitted only where multiplexing works: the switch is on, the protocol is one
  of the six that can multiplex, a VLESS outbound has no flow, and the transport is not XHTTP.
\<close>

theorem mux_gate:
  assumes "oget (formValuesToWirePayload v) ''mux'' \<noteq> JUndef"
  shows "\<exists>m. of_mux v = Some m \<and> mx_enabled m \<and> of_protocol (of_settings v) \<in> set MUX_PROTOCOLS
    \<and> (\<forall>s. of_settings v = Of_Vless s \<longrightarrow> vl_flow s = [])
    \<and> (\<forall>st. of_streamSettings v = Some st \<longrightarrow> oget st ''network'' \<noteq> JStr ''xhttp'')"
  using assms unfolding payload_fields
  by (auto simp: mux_wire_def muxAllowed_def split: option.splits if_splits)

theorem mux_gate_witness:
  "let v = \<lparr>of_settings = Of_Trojan \<lparr>tj_address = ''h'', tj_port = 443, tj_password = ''pw''\<rparr>, of_tag = [],
            of_sendThrough = [], of_mux = Some (mux_default\<lparr>mx_enabled := True\<rparr>), of_streamSettings = None\<rparr>
   in of_protocol (of_settings v) \<in> set MUX_PROTOCOLS"
proof -
  let ?v = "\<lparr>of_settings = Of_Trojan \<lparr>tj_address = ''h'', tj_port = 443, tj_password = ''pw''\<rparr>, of_tag = [],
      of_sendThrough = [], of_mux = Some (mux_default\<lparr>mx_enabled := True\<rparr>), of_streamSettings = None\<rparr>"
  have "oget (formValuesToWirePayload ?v) ''mux'' \<noteq> JUndef"
    unfolding payload_fields by (simp add: mux_wire_def muxAllowed_def MUX_PROTOCOLS_def mux_obj_def)
  from mux_gate[OF this] show ?thesis by (simp add: Let_def)
qed

end
