(* ===== verification/Inbound_Adapter.thy ===== *)
theory Inbound_Adapter
  imports Wire_Normalize Capabilities Json Inbound_Tag
begin

text \<open>
  \<open>lib/xray/inbound-form-adapter.ts\<close>: the stored inbound row read into the form, and the form
  written back as the payload of the API, whose nested slices are JSON texts.

  The code updates the stream settings of the row in place and returns them inside the form; the
  model returns the new value. The per-protocol client schemas belong to the schema library, so
  the outcome of \<open>safeParse\<close> is a parameter: the parsed client, or \<open>None\<close> when it is rejected.

  Of the server, the columns \<open>AddInbound\<close> gives a new row and the row as the API hands it out
  (\<open>internal/web/service/inbound.go\<close>, \<open>internal/database/model/model.go\<close>).
\<close>

section \<open>The row and the form\<close>

record raw_row =
  rr_port :: "int option"
  rr_listen :: "string option"
  rr_protocol :: "string option"
  rr_tag :: "string option"
  rr_settings :: js
  rr_streamSettings :: js
  rr_sniffing :: js
  rr_up :: "int option"
  rr_down :: "int option"
  rr_total :: "int option"
  rr_remark :: "string option"
  rr_enable :: "bool option"
  rr_expiryTime :: "int option"
  rr_trafficReset :: js
  rr_lastTrafficResetTime :: "int option"
  rr_nodeId :: "int option"
  rr_shareAddrStrategy :: js
  rr_shareAddr :: "string option"
  rr_subSortIndex :: "int option"

record inbound_form =
  if_remark :: string
  if_enable :: bool
  if_port :: int
  if_listen :: string
  if_tag :: string
  if_expiryTime :: int
  if_sniffing :: jobj
  if_streamSettings :: "jobj option"
  if_up :: int
  if_down :: int
  if_total :: int
  if_trafficReset :: string
  if_lastTrafficResetTime :: int
  if_nodeId :: "int option"
  if_shareAddrStrategy :: string
  if_shareAddr :: string
  if_subSortIndex :: int
  if_protocol :: string
  if_settings :: jobj

record wire_payload =
  wp_up :: int
  wp_down :: int
  wp_total :: int
  wp_remark :: string
  wp_enable :: bool
  wp_expiryTime :: int
  wp_trafficReset :: string
  wp_lastTrafficResetTime :: int
  wp_listen :: string
  wp_port :: int
  wp_protocol :: string
  wp_settings :: string
  wp_streamSettings :: string
  wp_sniffing :: string
  wp_tag :: string
  wp_nodeId :: "int option"
  wp_shareAddrStrategy :: string
  wp_shareAddr :: string
  wp_subSortIndex :: int

section \<open>Reading\<close>

definition coerceJsonObject :: "js \<Rightarrow> jobj" where
  "coerceJsonObject v =
     (case v of
        JObj o1 \<Rightarrow> o1
      | JStr s \<Rightarrow>
          (let trimmed = trim s in
           if trimmed = [] then []
           else (case json_parse trimmed of Some (JObj o1) \<Rightarrow> o1 | _ \<Rightarrow> []))
      | _ \<Rightarrow> [])"

definition TRAFFIC_RESETS :: "string list" where
  "TRAFFIC_RESETS = [''never'', ''hourly'', ''daily'', ''weekly'', ''monthly'']"

definition SHARE_ADDR_STRATEGIES :: "string list" where
  "SHARE_ADDR_STRATEGIES = [''node'', ''listen'', ''custom'']"

definition coerceTrafficReset :: "js \<Rightarrow> string" where
  "coerceTrafficReset v = (case v of JStr s \<Rightarrow> if s \<in> set TRAFFIC_RESETS then s else ''never'' | _ \<Rightarrow> ''never'')"

definition coerceShareAddrStrategy :: "js \<Rightarrow> string" where
  "coerceShareAddrStrategy v =
     (case v of JStr s \<Rightarrow> if s \<in> set SHARE_ADDR_STRATEGIES then s else ''node'' | _ \<Rightarrow> ''node'')"

definition NETWORK_SETTINGS_KEY :: "(string \<times> string) list" where
  "NETWORK_SETTINGS_KEY =
     [(''tcp'', ''tcpSettings''), (''kcp'', ''kcpSettings''), (''ws'', ''wsSettings''), (''grpc'', ''grpcSettings''),
      (''httpupgrade'', ''httpupgradeSettings''), (''xhttp'', ''xhttpSettings''), (''hysteria'', ''hysteriaSettings'')]"

text \<open>
  A lookup in the table also finds the members of \<open>Object.prototype\<close>, whose texts then serve as
  keys.
\<close>

definition proto_text :: "string \<Rightarrow> string" where
  "proto_text k =
     (if k = ''__proto__'' then ''[object Object]''
      else if k = ''constructor'' then ''function Object() { [native code] }''
      else ''function '' @ k @ ''() { [native code] }'')"

definition network_key :: "string \<Rightarrow> string option" where
  "network_key network =
     (case map_of NETWORK_SETTINGS_KEY network of
        Some k \<Rightarrow> Some k
      | None \<Rightarrow> if network \<in> set proto_names then Some (proto_text network) else None)"

definition healStreamNetworkKey :: "jobj \<Rightarrow> jobj" where
  "healStreamNetworkKey stream =
     (case network_key (case oget stream ''network'' of JStr s \<Rightarrow> s | _ \<Rightarrow> []) of
        None \<Rightarrow> stream
      | Some key \<Rightarrow>
          (case oget stream key of
             JObj _ \<Rightarrow> stream | JArr _ \<Rightarrow> stream | _ \<Rightarrow> oput key (JObj []) stream))"

text \<open>
  The certificates of the TLS block, updated in place. Writing a member of a certificate that is
  not an object raises, and so does deleting one of \<open>null\<close>: \<open>None\<close>.
\<close>

definition map_certs :: "(js \<Rightarrow> js option) \<Rightarrow> jobj \<Rightarrow> jobj option" where
  "map_certs f stream =
     (case oget stream ''tlsSettings'' of
        JObj tls \<Rightarrow>
          (case oget tls ''certificates'' of
             JArr cs \<Rightarrow>
               map_option (\<lambda>cs. oput ''tlsSettings'' (JObj (oput ''certificates'' (JArr cs) tls)) stream)
                 (those (map f cs))
           | _ \<Rightarrow> Some stream)
      | _ \<Rightarrow> Some stream)"

definition filled_array :: "js \<Rightarrow> bool" where
  "filled_array v \<longleftrightarrow> (case v of JArr xs \<Rightarrow> xs \<noteq> [] | _ \<Rightarrow> False)"

definition cert_use_file :: "jobj \<Rightarrow> bool" where
  "cert_use_file c =
     (let hasFile = truthy (oget c ''certificateFile'') \<or> truthy (oget c ''keyFile'');
          hasInline = filled_array (oget c ''certificate'') \<or> filled_array (oget c ''key'')
      in hasFile \<or> \<not> hasInline)"

definition synth_cert :: "js \<Rightarrow> js option" where
  "synth_cert v =
     (case v of
        JObj c \<Rightarrow> Some (JObj (if is_bool (oget c ''useFile'') then c
                           else oput ''useFile'' (JBool (cert_use_file c)) c))
      | JArr _ \<Rightarrow> Some v
      | _ \<Rightarrow> None)"

definition strip_cert :: "js \<Rightarrow> js option" where
  "strip_cert v =
     (case v of JObj c \<Rightarrow> Some (JObj (odel ''useFile'' c)) | JUndef \<Rightarrow> None | JNull \<Rightarrow> None | _ \<Rightarrow> Some v)"

definition synthesizeTlsCertUseFile :: "jobj \<Rightarrow> jobj option" where
  "synthesizeTlsCertUseFile stream = map_certs synth_cert stream"

definition stripTlsCertUseFile :: "jobj \<Rightarrow> jobj option" where
  "stripTlsCertUseFile stream = map_certs strip_cert stream"

definition XMUX_DEFAULTS :: jobj where
  "XMUX_DEFAULTS =
     [(''maxConcurrency'', JStr ''16-32''), (''maxConnections'', JInt 0), (''cMaxReuseTimes'', JInt 0),
      (''hMaxRequestTimes'', JStr ''600-900''), (''hMaxReusableSecs'', JStr ''1800-3000''),
      (''hKeepAlivePeriod'', JInt 0)]"

definition show_xmux :: "jobj \<Rightarrow> jobj" where
  "show_xmux stream =
     (case oget stream ''xhttpSettings'' of
        JObj xhttp \<Rightarrow>
          (case oget xhttp ''xmux'' of
             JObj xmux \<Rightarrow>
               oput ''xhttpSettings''
                 (JObj (oput ''xmux'' (JObj (omerge XMUX_DEFAULTS xmux)) (oput ''enableXmux'' (JBool True) xhttp))) stream
           | _ \<Rightarrow> stream)
      | _ \<Rightarrow> stream)"

definition opt_or :: "'a option \<Rightarrow> 'a \<Rightarrow> 'a" where
  "opt_or x d = (case x of Some a \<Rightarrow> a | None \<Rightarrow> d)"

definition read_stream :: "js \<Rightarrow> jobj option option" where
  "read_stream v =
     (let rawStream = coerceJsonObject v in
      if rawStream \<noteq> []
      then map_option (\<lambda>s. Some (show_xmux s)) (synthesizeTlsCertUseFile (healStreamNetworkKey rawStream))
      else Some None)"

definition rawInboundToFormValues :: "raw_row \<Rightarrow> inbound_form option" where
  "rawInboundToFormValues row =
     map_option (\<lambda>stream.
      \<lparr>if_remark = opt_or (rr_remark row) [], if_enable = opt_or (rr_enable row) True,
       if_port = opt_or (rr_port row) 0, if_listen = opt_or (rr_listen row) [], if_tag = opt_or (rr_tag row) [],
       if_expiryTime = opt_or (rr_expiryTime row) 0, if_sniffing = coerceJsonObject (rr_sniffing row),
       if_streamSettings = stream,
       if_up = opt_or (rr_up row) 0, if_down = opt_or (rr_down row) 0, if_total = opt_or (rr_total row) 0,
       if_trafficReset = coerceTrafficReset (rr_trafficReset row),
       if_lastTrafficResetTime = opt_or (rr_lastTrafficResetTime row) 0, if_nodeId = rr_nodeId row,
       if_shareAddrStrategy = coerceShareAddrStrategy (rr_shareAddrStrategy row),
       if_shareAddr = opt_or (rr_shareAddr row) [],
       if_subSortIndex = max 1 (opt_or (rr_subSortIndex row) 1),
       if_protocol = sor (opt_or (rr_protocol row) []) ''vless'', if_settings = coerceJsonObject (rr_settings row)\<rparr>)
     (read_stream (rr_streamSettings row))"

section \<open>Writing\<close>

fun pruneEmpty :: "js \<Rightarrow> js"
  and prune_members :: "jobj \<Rightarrow> jobj \<Rightarrow> jobj"
where
  "pruneEmpty (JArr xs) = JArr (map pruneEmpty xs)"
| "pruneEmpty (JObj o1) = JObj (prune_members o1 [])"
| "pruneEmpty JUndef = JUndef"
| "pruneEmpty JNull = JNull"
| "pruneEmpty (JBool b) = JBool b"
| "pruneEmpty (JNum n) = JNum n"
| "pruneEmpty (JStr s) = JStr s"
| "prune_members [] out = out"
| "prune_members (p # o1) out =
     prune_members o1 (if pruneEmpty (snd p) = JUndef then out else oset (fst p) (pruneEmpty (snd p)) out)"

text \<open>The protocols whose clients have a schema.\<close>

definition has_client_schema :: "string \<Rightarrow> bool" where
  "has_client_schema protocol \<longleftrightarrow>
     protocol \<in> {''vless'', ''vmess'', ''trojan'', ''shadowsocks'', ''hysteria''}"

definition normalizeClients :: "(string \<Rightarrow> js \<Rightarrow> js option) \<Rightarrow> string \<Rightarrow> js \<Rightarrow> js" where
  "normalizeClients safeParse protocol clients =
     (case clients of
        JArr cs \<Rightarrow>
          if has_client_schema protocol
          then JArr (map (\<lambda>c. case safeParse protocol c of Some d \<Rightarrow> d | None \<Rightarrow> c) cs)
          else clients
      | _ \<Rightarrow> clients)"

definition has_length :: "js \<Rightarrow> bool" where
  "has_length v \<longleftrightarrow> (case v of JArr xs \<Rightarrow> xs \<noteq> [] | JStr s \<Rightarrow> s \<noteq> [] | _ \<Rightarrow> False)"

definition normalizeSniffing :: "jobj \<Rightarrow> jobj" where
  "normalizeSniffing s =
     (if \<not> truthy (oget s ''enabled'') then [(''enabled'', JBool False)]
      else
        (let out = [(''enabled'', JBool True), (''destOverride'', oget s ''destOverride'')];
             out = (if truthy (oget s ''metadataOnly'') then oput ''metadataOnly'' (JBool True) out else out);
             out = (if truthy (oget s ''routeOnly'') then oput ''routeOnly'' (JBool True) out else out);
             out = (if has_length (oget s ''ipsExcluded'') then oput ''ipsExcluded'' (oget s ''ipsExcluded'') out else out)
         in if has_length (oget s ''domainsExcluded'')
            then oput ''domainsExcluded'' (oget s ''domainsExcluded'') out else out))"

definition drop_fallbacks :: "jobj \<Rightarrow> jobj" where
  "drop_fallbacks st = (if oget st ''fallbacks'' = JArr [] then odel ''fallbacks'' st else st)"

definition drop_masks :: "jobj \<Rightarrow> jobj" where
  "drop_masks stream =
     (case oget stream ''finalmask'' of
        JObj fm \<Rightarrow>
          (let hasTcp = filled_array (oget fm ''tcp''); hasUdp = filled_array (oget fm ''udp'');
               hasQuic = \<not> nullish (oget fm ''quicParams'') in
           if \<not> hasTcp \<and> \<not> hasUdp \<and> \<not> hasQuic then odel ''finalmask'' stream
           else
             (let fm = (if \<not> hasTcp then odel ''tcp'' fm else fm);
                  fm = (if \<not> hasUdp then odel ''udp'' fm else fm)
              in oput ''finalmask'' (JObj fm) stream))
      | JArr _ \<Rightarrow> odel ''finalmask'' stream
      | _ \<Rightarrow> stream)"

definition drop_auth :: "jobj \<Rightarrow> jobj" where
  "drop_auth stream =
     (case oget stream ''hysteriaSettings'' of
        JObj hs \<Rightarrow>
          (if oget hs ''auth'' = JStr [] \<or> nullish (oget hs ''auth'')
           then oput ''hysteriaSettings'' (JObj (odel ''auth'' hs)) stream else stream)
      | _ \<Rightarrow> stream)"

definition drop_stream_empties :: "jobj \<Rightarrow> jobj" where
  "drop_stream_empties stream = drop_auth (drop_masks stream)"

definition dropLegacyOptionalEmpties :: "jobj \<Rightarrow> jobj option \<Rightarrow> jobj \<times> jobj option" where
  "dropLegacyOptionalEmpties st stream = (drop_fallbacks st, map_option drop_stream_empties stream)"

definition prune_obj :: "jobj \<Rightarrow> jobj" where
  "prune_obj o1 = prune_members o1 []"

definition settings_for_wire :: "(string \<Rightarrow> js \<Rightarrow> js option) \<Rightarrow> string \<Rightarrow> jobj \<Rightarrow> jobj" where
  "settings_for_wire safeParse protocol st =
     (let p = prune_obj st in
      if is_arr (oget p ''clients'')
      then oput ''clients'' (normalizeClients safeParse protocol (oget p ''clients'')) p else p)"

definition stream_for_wire :: "jobj \<Rightarrow> jobj option" where
  "stream_for_wire stream =
     stripTlsCertUseFile (normalizeStreamSettingsForWire (prune_obj stream) Inbound_Side)"

definition write_stream :: "jobj option \<Rightarrow> jobj option option" where
  "write_stream stream =
     (case stream of None \<Rightarrow> Some None | Some s \<Rightarrow> map_option Some (stream_for_wire s))"

definition sniffing_text :: "string \<Rightarrow> jobj \<Rightarrow> string" where
  "sniffing_text p s =
     (if canEnableSniffing \<lparr>cap_protocol = p, cap_settings = None, cap_stream = None\<rparr>
      then json_stringify (JObj (normalizeSniffing s)) else [])"

definition formValuesToWirePayload :: "(string \<Rightarrow> js \<Rightarrow> js option) \<Rightarrow> inbound_form \<Rightarrow> wire_payload option" where
  "formValuesToWirePayload safeParse values =
     map_option (\<lambda>stream0.
      let (st, stream) =
        dropLegacyOptionalEmpties (settings_for_wire safeParse (if_protocol values) (if_settings values)) stream0 in
      \<lparr>wp_up = if_up values, wp_down = if_down values, wp_total = if_total values, wp_remark = if_remark values,
       wp_enable = if_enable values, wp_expiryTime = if_expiryTime values, wp_trafficReset = if_trafficReset values,
       wp_lastTrafficResetTime = if_lastTrafficResetTime values, wp_listen = if_listen values,
       wp_port = if_port values, wp_protocol = if_protocol values, wp_settings = json_stringify (JObj st),
       wp_streamSettings = (case stream of Some s \<Rightarrow> json_stringify (JObj s) | None \<Rightarrow> []),
       wp_sniffing = sniffing_text (if_protocol values) (if_sniffing values),
       wp_tag = if_tag values, wp_nodeId = if_nodeId values, wp_shareAddrStrategy = if_shareAddrStrategy values,
       wp_shareAddr = if_shareAddr values, wp_subSortIndex = if_subSortIndex values\<rparr>)
     (write_stream (if_streamSettings values))"

section \<open>Pruning\<close>

fun tidy :: "js \<Rightarrow> bool" where
  "tidy (JArr xs) = list_all tidy xs"
| "tidy (JObj o1) = (owf o1 \<and> \<not> ohas o1 ''__proto__'' \<and> list_all (\<lambda>p. tidy (snd p)) o1)"
| "tidy _ = True"

lemma pruneEmpty_undef [simp]: "pruneEmpty v = JUndef \<longleftrightarrow> v = JUndef"
  by (cases v) auto

definition pruned :: "jobj \<Rightarrow> jobj" where
  "pruned o1 = map (\<lambda>p. (fst p, pruneEmpty (snd p))) (filter (\<lambda>p. snd p \<noteq> JUndef) o1)"

lemma pruned_simps [simp]:
  "pruned [] = []"
  "pruned (p # o1) = (if snd p = JUndef then pruned o1 else (fst p, pruneEmpty (snd p)) # pruned o1)"
  by (auto simp: pruned_def)

lemma keys_pruned: "set (okeys (pruned o1)) \<subseteq> set (okeys o1)"
  by (auto simp: pruned_def okeys_def)

lemma key_ordered_sub: "key_ordered (a @ ks) \<Longrightarrow> key_ordered (a @ okeys (pruned o1))"
  if "ks = okeys o1" for a ks
  using that
proof (induction o1 arbitrary: a ks)
  case Nil
  then show ?case by (simp add: okeys_def)
next
  case (Cons p o1)
  have "key_ordered ((a @ [fst p]) @ okeys o1)" using Cons.prems by (simp add: okeys_def)
  from Cons.IH[OF this refl] have "key_ordered ((a @ [fst p]) @ okeys (pruned o1))" .
  then show ?case
    by (auto simp: okeys_def key_ordered_def sorted_wrt_append)
qed

lemma owf_pruned: "owf (a @ o1) \<Longrightarrow> owf (a @ pruned o1)"
proof -
  assume o: "owf (a @ o1)"
  then have "key_ordered (okeys a @ okeys (pruned o1))"
    by (intro key_ordered_sub[OF refl]) (simp add: owf_def okeys_def)
  moreover have "distinct (okeys (pruned o1))"
    using o by (induction o1) (auto simp: owf_def okeys_def key_ordered_def sorted_wrt_append pruned_def)
  ultimately show ?thesis
    using o keys_pruned[of o1] by (auto simp: owf_def okeys_def)
qed

lemma okeys_append [simp]: "okeys (a @ b) = okeys a @ okeys b"
  by (simp add: okeys_def)

lemma okeys_Cons [simp]: "okeys (p # b) = fst p # okeys b"
  by (simp add: okeys_def)

lemma prune_members_eq:
  "owf (acc @ o1) \<Longrightarrow> \<not> ohas o1 ''__proto__'' \<Longrightarrow> prune_members o1 acc = acc @ pruned o1"
proof (induction o1 arbitrary: acc)
  case (Cons p o1)
  have np: "fst p \<noteq> ''__proto__''" "\<not> ohas o1 ''__proto__''"
    using Cons.prems(2) by (auto simp: ohas_def)
  show ?case
  proof (cases "snd p = JUndef")
    case True
    have "owf (acc @ o1)"
      using Cons.prems(1) by (auto simp: owf_def key_ordered_def sorted_wrt_append)
    from Cons.IH[OF this np(2)] True show ?thesis by simp
  next
    case False
    let ?w = "pruneEmpty (snd p)"
    have o: "owf ((acc @ [(fst p, ?w)]) @ o1)"
      using Cons.prems(1) by (simp add: owf_def key_ordered_def)
    from oput_snoc[OF owf_prefix[OF o]] np have "oset (fst p) ?w acc = acc @ [(fst p, ?w)]"
      by (simp add: oset_def)
    with Cons.IH[OF o np(2)] False show ?thesis by simp
  qed
qed simp

lemma prune_obj_eq: "owf o1 \<Longrightarrow> \<not> ohas o1 ''__proto__'' \<Longrightarrow> prune_obj o1 = pruned o1"
  using prune_members_eq[of "[]" o1] by (simp add: prune_obj_def)

lemma elems_map: "json_elems g i xs = map (json_gen g i) xs"
  by (induction xs) auto

lemma members_map:
  "json_members g i ps =
     map (\<lambda>p. json_quote (fst p) @ colon_sep g @ json_gen g i (snd p)) (filter (\<lambda>p. snd p \<noteq> JUndef) ps)"
  by (induction ps) auto

lemma prune_same_gen: "tidy v \<Longrightarrow> json_gen g i (pruneEmpty v) = json_gen g i v"
proof (induction v arbitrary: i)
  case (JArr xs)
  have "json_elems g (i @ g) (map pruneEmpty xs) = json_elems g (i @ g) xs"
    using JArr by (auto simp: elems_map list_all_iff)
  then show ?case by simp
next
  case (JObj o1)
  have "json_members g (i @ g) (pruned o1) = json_members g (i @ g) o1"
    using JObj by (auto simp: members_map pruned_def list_all_iff filter_map comp_def)
  moreover have "pruneEmpty (JObj o1) = JObj (pruned o1)"
    using prune_obj_eq[of o1] JObj.prems by (simp add: prune_obj_def)
  ultimately show ?case by simp
qed auto

text \<open>
  Pruning changes nothing in the JSON text: the printer drops the undefined members by itself,
  at every depth.
\<close>

theorem pruneEmpty_same_text: "tidy v \<Longrightarrow> json_stringify (pruneEmpty v) = json_stringify v"
  by (simp add: json_stringify_def prune_same_gen)

theorem pruneEmpty_same_text_witness:
  "let v = JObj [(''a'', JUndef), (''b'', JArr [JUndef, JObj [(''c'', JUndef)]])]
   in pruneEmpty v = JObj [(''b'', JArr [JUndef, JObj []])] \<and> json_stringify (pruneEmpty v) = json_stringify v"
proof -
  let ?v = "JObj [(''a'', JUndef), (''b'', JArr [JUndef, JObj [(''c'', JUndef)]])]"
  have "tidy ?v"
    by (simp add: owf_def key_ordered_def key_before_def is_digit_def ohas_def okeys_def)
  then have "json_stringify (pruneEmpty ?v) = json_stringify ?v" by (rule pruneEmpty_same_text)
  moreover have "pruneEmpty ?v = JObj [(''b'', JArr [JUndef, JObj []])]"
    by (simp add: oset_def)
  ultimately show ?thesis by (simp only: Let_def simp_thms)
qed

lemma prune_clean: "json_clean v \<Longrightarrow> tidy v \<Longrightarrow> pruneEmpty v = v"
proof (induction v)
  case (JArr xs)
  then show ?case by (auto simp: list_all_iff intro: map_idI)
next
  case (JObj o1)
  have "(fst p, pruneEmpty (snd p)) = p \<and> snd p \<noteq> JUndef" if "p \<in> set o1" for p
    using JObj that by (cases p) (auto simp: list_all_iff snds.simps)
  then have "pruned o1 = o1" by (auto simp: pruned_def filter_id_conv intro!: map_idI)
  then show ?case
    using prune_obj_eq[of o1] JObj.prems by (simp add: prune_obj_def)
qed auto

lemma prune_obj_clean: "json_clean (JObj o1) \<Longrightarrow> tidy (JObj o1) \<Longrightarrow> prune_obj o1 = o1"
  using prune_clean[of "JObj o1"] by (simp add: prune_obj_def)

section \<open>What a read form satisfies\<close>

lemma map_certs_other:
  "map_certs f s = Some s' \<Longrightarrow> k \<noteq> ''tlsSettings'' \<Longrightarrow> oget s' k = oget s k"
  by (auto simp: map_certs_def split: js.splits)

lemma show_xmux_network [simp]: "oget (show_xmux s) ''network'' = oget s ''network''"
  by (auto simp: show_xmux_def split: js.splits)

lemma show_xmux_kind: "is_obj (oget s k) \<or> is_arr (oget s k) \<Longrightarrow> is_obj (oget (show_xmux s) k) \<or> is_arr (oget (show_xmux s) k)"
  by (auto simp: show_xmux_def split: js.splits)

text \<open>
  Whatever a row holds, a form it is read into has a protocol, a traffic reset period and an
  address strategy among the known ones, a sort index of at least 1, and when it has stream
  settings, the block named by a known network is there and is an object or an array.
\<close>

theorem read_inbound_typed:
  assumes "rawInboundToFormValues row = Some f"
  shows "if_protocol f \<noteq> [] \<and> if_trafficReset f \<in> set TRAFFIC_RESETS
    \<and> if_shareAddrStrategy f \<in> set SHARE_ADDR_STRATEGIES \<and> 1 \<le> if_subSortIndex f
    \<and> (\<forall>s n k. if_streamSettings f = Some s \<longrightarrow> oget s ''network'' = JStr n
         \<longrightarrow> map_of NETWORK_SETTINGS_KEY n = Some k \<longrightarrow> is_obj (oget s k) \<or> is_arr (oget s k))"
proof -
  have t: "coerceTrafficReset v \<in> set TRAFFIC_RESETS" for v
    by (auto simp: coerceTrafficReset_def TRAFFIC_RESETS_def split: js.splits)
  have a: "coerceShareAddrStrategy v \<in> set SHARE_ADDR_STRATEGIES" for v
    by (auto simp: coerceShareAddrStrategy_def SHARE_ADDR_STRATEGIES_def split: js.splits)
  have keys: "k \<noteq> ''network'' \<and> k \<noteq> ''tlsSettings''" if "map_of NETWORK_SETTINGS_KEY n = Some k" for n k
    using that by (auto simp: NETWORK_SETTINGS_KEY_def split: if_splits)
  have heal: "is_obj (oget (healStreamNetworkKey s) k) \<or> is_arr (oget (healStreamNetworkKey s) k)"
    if n: "oget (healStreamNetworkKey s) ''network'' = JStr n" and k: "map_of NETWORK_SETTINGS_KEY n = Some k" for s n k
  proof -
    show ?thesis
    proof (cases "oget s ''network'' = JStr n")
      case True
      then have "healStreamNetworkKey s =
          (case oget s k of JObj _ \<Rightarrow> s | JArr _ \<Rightarrow> s | _ \<Rightarrow> oput k (JObj []) s)"
        by (simp add: healStreamNetworkKey_def network_key_def k)
      then show ?thesis by (cases "oget s k") auto
    next
      case False
      have "oget (healStreamNetworkKey s) ''network'' = oget s ''network''"
      proof -
        have "network_key m = Some kk \<Longrightarrow> kk \<noteq> ''network''" for m kk
          by (auto simp: network_key_def proto_text_def proto_names_def keys split: option.splits if_splits)
        then show ?thesis
          by (auto simp: healStreamNetworkKey_def split: option.splits js.splits)
      qed
      with False n show ?thesis by simp
    qed
  qed
  obtain st where st: "read_stream (rr_streamSettings row) = Some st" and f: "if_streamSettings f = st"
    using assms by (auto simp: rawInboundToFormValues_def)
  have stream: "is_obj (oget s k) \<or> is_arr (oget s k)"
    if s: "if_streamSettings f = Some s" and n: "oget s ''network'' = JStr n"
      and k: "map_of NETWORK_SETTINGS_KEY n = Some k" for s n k
  proof -
    obtain raw s2 where s2: "synthesizeTlsCertUseFile (healStreamNetworkKey raw) = Some s2" and "s = show_xmux s2"
      using st s f by (auto simp: read_stream_def Let_def split: if_splits)
    moreover have "oget s2 ''network'' = oget (healStreamNetworkKey raw) ''network''"
      "oget s2 k = oget (healStreamNetworkKey raw) k"
      using s2 keys[OF k] by (auto simp: synthesizeTlsCertUseFile_def map_certs_other)
    ultimately show ?thesis
      using heal[of raw n k] n k show_xmux_kind[of s2 k] by simp
  qed
  have "if_protocol f \<noteq> []" "if_trafficReset f \<in> set TRAFFIC_RESETS"
    "if_shareAddrStrategy f \<in> set SHARE_ADDR_STRATEGIES" "1 \<le> if_subSortIndex f"
    using assms t a by (auto simp: rawInboundToFormValues_def)
  with stream show ?thesis by blast
qed

definition blank_row :: raw_row where
  "blank_row =
     \<lparr>rr_port = None, rr_listen = None, rr_protocol = None, rr_tag = None, rr_settings = JUndef,
      rr_streamSettings = JUndef, rr_sniffing = JUndef, rr_up = None, rr_down = None, rr_total = None,
      rr_remark = None, rr_enable = None, rr_expiryTime = None, rr_trafficReset = JUndef,
      rr_lastTrafficResetTime = None, rr_nodeId = None, rr_shareAddrStrategy = JUndef, rr_shareAddr = None,
      rr_subSortIndex = None\<rparr>"

theorem read_inbound_typed_witness:
  "\<exists>f s. rawInboundToFormValues
       (blank_row\<lparr>rr_streamSettings := JObj [(''network'', JStr ''kcp'')], rr_subSortIndex := Some (-3),
          rr_trafficReset := JStr ''yearly''\<rparr>) = Some f
     \<and> if_streamSettings f = Some s \<and> is_obj (oget s ''kcpSettings'') \<and> if_trafficReset f \<in> set TRAFFIC_RESETS
     \<and> 1 \<le> if_subSortIndex f"
proof -
  let ?row = "blank_row\<lparr>rr_streamSettings := JObj [(''network'', JStr ''kcp'')], rr_subSortIndex := Some (-3),
          rr_trafficReset := JStr ''yearly''\<rparr>"
  let ?s = "[(''network'', JStr ''kcp''), (''kcpSettings'', JObj [])]"
  have k: "map_of NETWORK_SETTINGS_KEY ''kcp'' = Some ''kcpSettings''"
    by (simp add: NETWORK_SETTINGS_KEY_def)
  have "healStreamNetworkKey [(''network'', JStr ''kcp'')] = ?s"
    by (simp add: healStreamNetworkKey_def network_key_def k key_before_def is_digit_def)
  then have r: "read_stream (rr_streamSettings ?row) = Some (Some ?s)"
    by (simp add: read_stream_def coerceJsonObject_def synthesizeTlsCertUseFile_def map_certs_def show_xmux_def)
  then obtain f where f: "rawInboundToFormValues ?row = Some f" and s: "if_streamSettings f = Some ?s"
    by (simp add: rawInboundToFormValues_def)
  have "is_obj (oget ?s ''kcpSettings'')" by simp
  with f s read_inbound_typed[OF f] show ?thesis by blast
qed

section \<open>Writing a form and reading it back\<close>

lemma object_text_cons: "\<exists>t. json_stringify (JObj o1) = CHR ''{'' # t @ [CHR ''}'']"
  by (auto simp: json_stringify_def line_sep_def split: list.splits)

lemma trim_object_text [simp]: "trim (json_stringify (JObj o1)) = json_stringify (JObj o1)"
proof (rule trim_id)
  obtain t where t: "json_stringify (JObj o1) = CHR ''{'' # t @ [CHR ''}'']"
    using object_text_cons by blast
  have p: "plain_char CHR ''{''" "plain_char CHR ''}''"
    by (simp_all add: plain_char_def ascii_ws_def is_lead_def is_tail_def)
  show "ws_len (json_stringify (JObj o1)) = 0" "rws_len (rev (json_stringify (JObj o1))) = 0"
    using p by (simp_all add: t ws_len_def rws_len_def plain_char_def)
qed

lemma coerce_object_text: "json_clean (JObj o1) \<Longrightarrow> coerceJsonObject (JStr (json_stringify (JObj o1))) = o1"
  using object_text_cons[of o1] json_parse_stringify[of "JObj o1"]
  by (auto simp: coerceJsonObject_def)

lemma coerce_empty [simp]: "coerceJsonObject (JStr []) = []" "coerceJsonObject (JObj o1) = o1"
  by (simp_all add: coerceJsonObject_def)

text \<open>
  What the server makes of the payload of a new inbound: \<open>addInbound\<close> of the controller and
  \<open>AddInbound\<close> of \<open>internal/web/service/inbound.go\<close>, as far as the columns of the row go. Three things
  it computes are arguments: \<open>host\<close> is \<open>normalizeInboundShareHost\<close> (no value for an address it refuses),
  \<open>resolve\<close> the conflict checks and \<open>resolveInboundTag\<close>, which read the other rows (no value for a
  refused row), and \<open>settle\<close> what becomes of the settings of an MTProto inbound or of one with clients
  (healed secrets, egress port, time stamps, keys).
\<close>

definition protocolsWithStream :: "string list" where
  "protocolsWithStream =
     [''vmess'', ''vless'', ''trojan'', ''shadowsocks'', ''hysteria'', ''wireguard'', ''tunnel'']"

definition normalizeStreamSettings :: "wire_payload \<Rightarrow> wire_payload" where
  "normalizeStreamSettings w =
     (if wp_protocol w \<in> set protocolsWithStream then w else w\<lparr>wp_streamSettings := []\<rparr>)"

definition normalizeSubSortIndex :: "int \<Rightarrow> int" where
  "normalizeSubSortIndex v = (if v < 1 then 1 else v)"

definition normalizeInboundShareAddrStrategy :: "string \<Rightarrow> string" where
  "normalizeInboundShareAddrStrategy strategy =
     (let strategy = go_trim strategy in
      if strategy \<in> {''listen'', ''custom''} then strategy else ''node'')"

definition has_clients :: "string \<Rightarrow> bool" where
  "has_clients t =
     (case json_parse t of Some (JObj o1) \<Rightarrow> filled_array (oget o1 ''clients'') | _ \<Rightarrow> False)"

definition settle_settings :: "(wire_payload \<Rightarrow> string option) \<Rightarrow> wire_payload \<Rightarrow> wire_payload option" where
  "settle_settings settle w =
     (if wp_protocol w = ''mtproto'' \<or> has_clients (wp_settings w)
      then map_option (\<lambda>t. w\<lparr>wp_settings := t\<rparr>) (settle w) else Some w)"

definition AddInbound :: "(string \<Rightarrow> string option) \<Rightarrow> (wire_payload \<Rightarrow> string option)
    \<Rightarrow> (wire_payload \<Rightarrow> string option) \<Rightarrow> wire_payload \<Rightarrow> wire_payload option" where
  "AddInbound host resolve settle w =
     (let w = w\<lparr>wp_nodeId := (if wp_nodeId w = Some 0 then None else wp_nodeId w)\<rparr>;
          w = normalizeStreamSettings w;
          w = w\<lparr>wp_subSortIndex := normalizeSubSortIndex (wp_subSortIndex w),
                wp_shareAddrStrategy := normalizeInboundShareAddrStrategy (wp_shareAddrStrategy w)\<rparr>
      in Option.bind (host (wp_shareAddr w)) (\<lambda>a.
           let w = w\<lparr>wp_shareAddr := a\<rparr> in
           Option.bind (resolve w) (\<lambda>t. settle_settings settle (w\<lparr>wp_tag := t\<rparr>))))"

text \<open>
  The stored row as the API hands it out again (\<open>Inbound.MarshalJSON\<close>): the three text columns as
  nested JSON, \<open>null\<close> for an empty one, and the text itself where it is no JSON.
\<close>

definition jsonStringFieldToRaw :: "string \<Rightarrow> js" where
  "jsonStringFieldToRaw s =
     (let trimmed = go_trim s in
      if trimmed = [] then JNull
      else (case json_parse trimmed of Some v \<Rightarrow> v | None \<Rightarrow> JStr s))"

definition api_row :: "wire_payload \<Rightarrow> raw_row" where
  "api_row w =
     \<lparr>rr_port = Some (wp_port w), rr_listen = Some (wp_listen w), rr_protocol = Some (wp_protocol w),
      rr_tag = Some (wp_tag w), rr_settings = jsonStringFieldToRaw (wp_settings w),
      rr_streamSettings = jsonStringFieldToRaw (wp_streamSettings w),
      rr_sniffing = jsonStringFieldToRaw (wp_sniffing w), rr_up = Some (wp_up w), rr_down = Some (wp_down w),
      rr_total = Some (wp_total w), rr_remark = Some (wp_remark w), rr_enable = Some (wp_enable w),
      rr_expiryTime = Some (wp_expiryTime w), rr_trafficReset = JStr (wp_trafficReset w),
      rr_lastTrafficResetTime = Some (wp_lastTrafficResetTime w), rr_nodeId = wp_nodeId w,
      rr_shareAddrStrategy = JStr (wp_shareAddrStrategy w), rr_shareAddr = Some (wp_shareAddr w),
      rr_subSortIndex = Some (wp_subSortIndex w)\<rparr>"

lemma go_trim_object_text [simp]: "go_trim (json_stringify (JObj o1)) = json_stringify (JObj o1)"
proof -
  obtain t where t: "json_stringify (JObj o1) = CHR ''{'' # t @ [CHR ''}'']"
    using object_text_cons by blast
  show ?thesis unfolding t by (simp add: go_trim_def ascii_ws_def)
qed

lemma raw_object_text [simp]:
  "json_clean (JObj o1) \<Longrightarrow> jsonStringFieldToRaw (json_stringify (JObj o1)) = JObj o1"
  using object_text_cons[of o1] json_parse_stringify[of "JObj o1"]
  by (auto simp: jsonStringFieldToRaw_def)

lemma raw_empty [simp]: "jsonStringFieldToRaw [] = JNull"
  by (simp add: jsonStringFieldToRaw_def go_trim_def)

definition cert_normal :: "js \<Rightarrow> bool" where
  "cert_normal v =
     (case v of
        JObj c \<Rightarrow> c = odel ''useFile'' c @ [(''useFile'', JBool (cert_use_file (odel ''useFile'' c)))]
      | JArr _ \<Rightarrow> True
      | _ \<Rightarrow> False)"

definition tls_certs :: "jobj \<Rightarrow> js list" where
  "tls_certs s = (case jget (oget s ''tlsSettings'') ''certificates'' of JArr cs \<Rightarrow> cs | _ \<Rightarrow> [])"

definition masks_normal :: "jobj \<Rightarrow> bool" where
  "masks_normal s =
     (case oget s ''finalmask'' of
        JObj fm \<Rightarrow> (filled_array (oget fm ''tcp'') \<or> filled_array (oget fm ''udp'') \<or> \<not> nullish (oget fm ''quicParams''))
           \<and> (ohas fm ''tcp'' \<longrightarrow> filled_array (oget fm ''tcp'')) \<and> (ohas fm ''udp'' \<longrightarrow> filled_array (oget fm ''udp''))
      | JArr _ \<Rightarrow> False
      | _ \<Rightarrow> True)"

definition auth_normal :: "jobj \<Rightarrow> bool" where
  "auth_normal s =
     (case oget s ''hysteriaSettings'' of
        JObj hs \<Rightarrow> ohas hs ''auth'' \<longrightarrow> oget hs ''auth'' \<noteq> JStr [] \<and> \<not> nullish (oget hs ''auth'')
      | _ \<Rightarrow> True)"

definition network_healed :: "jobj \<Rightarrow> bool" where
  "network_healed s =
     (case network_key (case oget s ''network'' of JStr n \<Rightarrow> n | _ \<Rightarrow> []) of
        None \<Rightarrow> True | Some k \<Rightarrow> is_obj (oget s k) \<or> is_arr (oget s k))"

definition stream_form_normal :: "jobj \<Rightarrow> bool" where
  "stream_form_normal s \<longleftrightarrow> s \<noteq> [] \<and> json_clean (JObj s) \<and> tidy (JObj s) \<and> stream_normal Inbound_Side s
     \<and> list_all cert_normal (tls_certs s) \<and> masks_normal s \<and> auth_normal s \<and> network_healed s
     \<and> \<not> is_obj (jget (oget s ''xhttpSettings'') ''xmux'')"

definition settings_normal :: "(string \<Rightarrow> js \<Rightarrow> js option) \<Rightarrow> string \<Rightarrow> jobj \<Rightarrow> bool" where
  "settings_normal safeParse protocol st \<longleftrightarrow> json_clean (JObj st) \<and> tidy (JObj st)
     \<and> oget st ''fallbacks'' \<noteq> JArr [] \<and> normalizeClients safeParse protocol (oget st ''clients'') = oget st ''clients''"

definition sniffing_normal :: "string \<Rightarrow> jobj \<Rightarrow> bool" where
  "sniffing_normal protocol s =
     (if protocol = ''mtproto'' then s = [] else json_clean (JObj s) \<and> normalizeSniffing s = s)"

definition inbound_normal :: "(string \<Rightarrow> js \<Rightarrow> js option) \<Rightarrow> inbound_form \<Rightarrow> bool" where
  "inbound_normal safeParse f \<longleftrightarrow> if_protocol f \<noteq> [] \<and> if_trafficReset f \<in> set TRAFFIC_RESETS
     \<and> if_shareAddrStrategy f \<in> set SHARE_ADDR_STRATEGIES \<and> 1 \<le> if_subSortIndex f
     \<and> settings_normal safeParse (if_protocol f) (if_settings f)
     \<and> sniffing_normal (if_protocol f) (if_sniffing f)
     \<and> (case if_streamSettings f of None \<Rightarrow> True | Some s \<Rightarrow> stream_form_normal s)"

lemma oput_same:
  assumes "\<not> is_index k" and "distinct (okeys o1)" and "ohas o1 k"
  shows "oput k (oget o1 k) o1 = o1"
proof -
  have "snd p = oget o1 k" if "p \<in> set o1" "fst p = k" for p
    using oget_mem[OF assms(2), of k "snd p"] that by (cases p) auto
  then have "map (\<lambda>p. if fst p = k then (k, oget o1 k) else p) o1 = o1"
    by (force intro: map_idI)
  then show ?thesis using oput_replace[OF assms] by simp
qed

lemma oput_twice_replace:
  fixes v w :: js
  assumes "\<not> is_index k" and "distinct (okeys o1)" and "ohas o1 k"
  shows "oput k w (oput k v o1) = oput k w o1" and "distinct (okeys (oput k v o1))"
    and "okeys (oput k v o1) = okeys o1"
proof -
  have r: "oput k u o1 = map_key k (\<lambda>_. u) o1" for u :: js
    using oput_replace[OF assms, of u] by (simp add: map_key_def)
  then show k: "okeys (oput k v o1) = okeys o1" and d: "distinct (okeys (oput k v o1))"
    using assms(2) by simp_all
  have "oput k w (oput k v o1) = map_key k (\<lambda>_. w) (oput k v o1)"
    using oput_replace[OF assms(1) d, of w] by (simp add: map_key_def)
  then show "oput k w (oput k v o1) = oput k w o1" by (simp add: r map_key_comp)
qed

lemma clean_oput_replace:
  assumes k: "\<not> is_index k" and h: "ohas o1 k" and o: "json_clean (JObj o1)" and v: "json_clean v"
  shows "json_clean (JObj (oput k v o1))"
proof -
  have d: "distinct (okeys o1)" using o by (simp add: owf_def)
  have "oput k v o1 = map (\<lambda>p. if fst p = k then (k, v) else p) o1" by (rule oput_replace[OF k d h])
  moreover have "owf (oput k v o1)" using o oput_twice_replace(3)[OF k d h] by (simp add: owf_def)
  ultimately show ?thesis using o v by (auto simp: list_all_iff)
qed

lemma clean_oget: "json_clean (JObj o1) \<Longrightarrow> ohas o1 k \<Longrightarrow> json_clean (oget o1 k)"
  using oget_cases[of o1 k] by (force simp: list_all_iff oget_def ohas_map_of dest: map_of_SomeD split: option.splits)

lemma ohas_oget: "oget o1 k \<noteq> JUndef \<Longrightarrow> ohas o1 k"
  using oget_not_ohas by blast

lemma clean_odel: "json_clean (JObj o1) \<Longrightarrow> json_clean (JObj (odel k o1))"
proof -
  assume o: "json_clean (JObj o1)"
  then have "owf (odel k o1)"
    by (simp add: owf_def odel_def okeys_def key_ordered_def sorted_wrt_map sorted_wrt_filter distinct_map_filter)
  with o show ?thesis by (auto simp: odel_def list_all_iff)
qed

lemma those_map: "(\<And>x. x \<in> set xs \<Longrightarrow> f x = Some (g x)) \<Longrightarrow> those (map f xs) = Some (map g xs)"
  by (induction xs) auto

definition bare_cert :: "js \<Rightarrow> js" where
  "bare_cert v = (case v of JObj c \<Rightarrow> JObj (odel ''useFile'' c) | _ \<Rightarrow> v)"

lemma strip_cert_normal: "cert_normal v \<Longrightarrow> strip_cert v = Some (bare_cert v)"
  by (auto simp: cert_normal_def strip_cert_def bare_cert_def split: js.splits)

lemma oput_absent: "\<not> is_index k \<Longrightarrow> \<not> ohas o1 k \<Longrightarrow> oput k v o1 = o1 @ [(k, v)]"
  by (induction o1) (auto simp: ohas_def key_before_def)

lemma synth_bare_cert: "cert_normal v \<Longrightarrow> synth_cert (bare_cert v) = Some v"
proof (cases v)
  case (JObj c)
  assume n: "cert_normal v"
  let ?b = "odel ''useFile'' c"
  have i: "\<not> is_index ''useFile''" by (simp add: is_digit_def)
  have "oput ''useFile'' (JBool (cert_use_file ?b)) ?b = c"
    using n oput_absent[OF i, of ?b] by (simp add: JObj cert_normal_def)
  then show ?thesis by (simp add: JObj synth_cert_def bare_cert_def)
qed (auto simp: cert_normal_def synth_cert_def bare_cert_def)

lemma clean_bare_cert: "json_clean v \<Longrightarrow> json_clean (bare_cert v)"
  using clean_odel by (cases v) (auto simp: bare_cert_def)

lemma strip_synth:
  assumes c: "json_clean (JObj s)" and n: "list_all cert_normal (tls_certs s)"
  obtains s' where "stripTlsCertUseFile s = Some s'" and "synthesizeTlsCertUseFile s' = Some s"
    and "json_clean (JObj s')" and "okeys s' = okeys s" and "\<And>k. k \<noteq> ''tlsSettings'' \<Longrightarrow> oget s' k = oget s k"
proof (cases "\<exists>tls cs. oget s ''tlsSettings'' = JObj tls \<and> oget tls ''certificates'' = JArr cs")
  case False
  then have "map_certs f s = Some s" for f
    by (auto simp: map_certs_def split: js.splits)
  then show ?thesis
    using that[of s] c by (simp add: stripTlsCertUseFile_def synthesizeTlsCertUseFile_def)
next
  case True
  then obtain tls cs where t: "oget s ''tlsSettings'' = JObj tls" and a: "oget tls ''certificates'' = JArr cs"
    by blast
  let ?T = "''tlsSettings''" and ?C = "''certificates''"
  let ?bs = "map bare_cert cs"
  have i: "\<not> is_index ?T" "\<not> is_index ?C" by (simp_all add: is_digit_def)
  have hs: "ohas s ?T" "ohas tls ?C" using t a ohas_oget[of s ?T] ohas_oget[of tls ?C] by simp_all
  have ct: "json_clean (JObj tls)" using clean_oget[OF c hs(1)] t by simp
  have d: "distinct (okeys s)" "distinct (okeys tls)" using c ct by (simp_all add: owf_def)
  have n: "v \<in> set cs \<Longrightarrow> cert_normal v" for v
    using n by (simp add: tls_certs_def t a list_all_iff)
  let ?u = "oput ?C (JArr ?bs) tls" and ?s = "oput ?T (JObj (oput ?C (JArr ?bs) tls)) s"
  have strip: "stripTlsCertUseFile s = Some ?s"
    using those_map[of cs strip_cert bare_cert] n strip_cert_normal
    by (simp add: stripTlsCertUseFile_def map_certs_def t a)
  have cb: "json_clean (JArr ?bs)"
    using clean_oget[OF ct hs(2)] a clean_bare_cert by (simp add: list_all_iff)
  have cu: "json_clean (JObj ?u)" by (rule clean_oput_replace[OF i(2) hs(2) ct cb])
  have "those (map synth_cert ?bs) = Some (map (\<lambda>v. v) cs)"
    using n synth_bare_cert those_map[of cs "\<lambda>v. synth_cert (bare_cert v)" "\<lambda>v. v"] by (simp add: comp_def)
  then have "synthesizeTlsCertUseFile ?s = Some (oput ?T (JObj (oput ?C (JArr cs) ?u)) ?s)"
    by (simp add: synthesizeTlsCertUseFile_def map_certs_def)
  also have "oput ?C (JArr cs) ?u = tls"
    using oput_twice_replace(1)[OF i(2) d(2) hs(2)] oput_same[OF i(2) d(2) hs(2)] a by simp
  also have "oput ?T (JObj tls) ?s = s"
    using oput_twice_replace(1)[OF i(1) d(1) hs(1)] oput_same[OF i(1) d(1) hs(1)] t by simp
  finally have synth: "synthesizeTlsCertUseFile ?s = Some s" .
  have "json_clean (JObj ?s)" by (rule clean_oput_replace[OF i(1) hs(1) c cu])
  moreover have "okeys ?s = okeys s" by (rule oput_twice_replace(3)[OF i(1) d(1) hs(1)])
  ultimately show ?thesis using that[OF strip synth] by simp
qed

lemma drop_masks_normal:
  assumes "distinct (okeys s)" and "masks_normal s"
  shows "drop_masks s = s"
proof (cases "oget s ''finalmask''")
  case (JObj fm)
  have h: "ohas s ''finalmask''" using JObj ohas_oget by force
  have i: "\<not> is_index ''finalmask''" by (simp add: is_digit_def)
  have "(if \<not> filled_array (oget fm k) then odel k x else x) = x"
    if "ohas fm k \<longrightarrow> filled_array (oget fm k)" "ohas x k = ohas fm k" for k and x :: jobj
    using that by (auto simp: odel_absent)
  then have "drop_masks s = oput ''finalmask'' (JObj fm) s"
    using assms(2) JObj by (auto simp: drop_masks_def masks_normal_def Let_def)
  then show ?thesis using oput_same[OF i assms(1) h] JObj by simp
qed (use assms(2) in \<open>simp_all add: drop_masks_def masks_normal_def\<close>)

lemma drop_auth_normal:
  assumes "distinct (okeys s)" and "auth_normal s"
  shows "drop_auth s = s"
proof (cases "oget s ''hysteriaSettings''")
  case (JObj hs)
  have h: "ohas s ''hysteriaSettings''" using JObj ohas_oget by force
  have i: "\<not> is_index ''hysteriaSettings''" by (simp add: is_digit_def)
  show ?thesis
    using assms(2) JObj oput_same[OF i assms(1) h]
    by (auto simp: drop_auth_def auth_normal_def odel_absent)
qed (simp_all add: drop_auth_def)

lemma heal_healed: "network_healed s \<Longrightarrow> healStreamNetworkKey s = s"
  by (auto simp: network_healed_def healStreamNetworkKey_def split: option.splits js.splits)

lemma network_key_not_tls: "network_key n = Some k \<Longrightarrow> k \<noteq> ''tlsSettings''"
  by (auto simp: network_key_def NETWORK_SETTINGS_KEY_def proto_text_def proto_names_def split: option.splits if_splits)

lemma normal_congs:
  assumes "\<And>k. k \<noteq> ''tlsSettings'' \<Longrightarrow> oget s' k = oget s k"
  shows "masks_normal s' = masks_normal s" and "auth_normal s' = auth_normal s"
    and "network_healed s' = network_healed s"
  using assms network_key_not_tls
  by (auto simp: masks_normal_def auth_normal_def network_healed_def split: option.splits)

lemma show_xmux_none: "\<not> is_obj (jget (oget s ''xhttpSettings'') ''xmux'') \<Longrightarrow> show_xmux s = s"
  by (auto simp: show_xmux_def split: js.splits)

lemma stream_roundtrip:
  assumes "stream_form_normal s"
  obtains w where "write_stream (Some s) = Some (Some w)" and "drop_stream_empties w = w"
    and "read_stream (jsonStringFieldToRaw (json_stringify (JObj w))) = Some (Some s)"
proof -
  have c: "json_clean (JObj s)" and p: "prune_obj s = s" and nn: "s \<noteq> []"
    and n: "normalizeStreamSettingsForWire s Inbound_Side = s"
    using assms prune_obj_clean[of s] stream_normal_fixed by (auto simp: stream_form_normal_def)
  obtain w where w: "stripTlsCertUseFile s = Some w" "synthesizeTlsCertUseFile w = Some s"
    "json_clean (JObj w)" "okeys w = okeys s" and o: "\<And>k. k \<noteq> ''tlsSettings'' \<Longrightarrow> oget w k = oget s k"
    using strip_synth[OF c] assms by (metis stream_form_normal_def)
  have d: "distinct (okeys w)" using w(3) by (simp add: owf_def)
  have wn: "masks_normal w" "auth_normal w" "network_healed w"
    using assms normal_congs[of w s, OF o] by (simp_all add: stream_form_normal_def)
  have "write_stream (Some s) = Some (Some w)"
    by (simp add: write_stream_def stream_for_wire_def p n w(1))
  moreover have "drop_stream_empties w = w"
    by (simp add: drop_stream_empties_def drop_masks_normal[OF d wn(1)] drop_auth_normal[OF d wn(2)])
  moreover have "read_stream (jsonStringFieldToRaw (json_stringify (JObj w))) = Some (Some s)"
  proof -
    have "w \<noteq> []" using w(4) nn by (auto simp: okeys_def)
    moreover have "show_xmux s = s" using assms by (simp add: show_xmux_none stream_form_normal_def)
    ultimately show ?thesis
      by (simp only: read_stream_def raw_object_text[OF w(3)] coerce_empty Let_def heal_healed[OF wn(3)] w(2)
          option.map not_False_eq_True if_True)
  qed
  ultimately show ?thesis using that by blast
qed

lemma settings_roundtrip:
  assumes "settings_normal safeParse p st"
  shows "drop_fallbacks (settings_for_wire safeParse p st) = st"
    and "coerceJsonObject (jsonStringFieldToRaw (json_stringify (JObj st))) = st"
    and "has_clients (json_stringify (JObj st)) = filled_array (oget st ''clients'')"
proof -
  have c: "json_clean (JObj st)" and pr: "prune_obj st = st"
    using assms prune_obj_clean by (auto simp: settings_normal_def)
  have d: "distinct (okeys st)" using c by (simp add: owf_def)
  have i: "\<not> is_index ''clients''" by (simp add: is_digit_def)
  have "oput ''clients'' (oget st ''clients'') st = st" if "is_arr (oget st ''clients'')"
    using oput_same[OF i d] that ohas_oget[of st "''clients''"] by force
  then have "settings_for_wire safeParse p st = st"
    using assms by (simp add: settings_for_wire_def Let_def pr settings_normal_def)
  then show "drop_fallbacks (settings_for_wire safeParse p st) = st"
    using assms by (simp add: drop_fallbacks_def settings_normal_def)
  show "coerceJsonObject (jsonStringFieldToRaw (json_stringify (JObj st))) = st" by (simp add: raw_object_text[OF c])
  show "has_clients (json_stringify (JObj st)) = filled_array (oget st ''clients'')"
    by (simp add: has_clients_def json_parse_stringify[OF c])
qed

lemma sniffing_roundtrip:
  "sniffing_normal p s \<Longrightarrow> coerceJsonObject (jsonStringFieldToRaw (sniffing_text p s)) = s"
  by (auto simp: sniffing_text_def sniffing_normal_def canEnableSniffing_def coerceJsonObject_def split: if_splits)

text \<open>What the server changes of a payload whose stream and settings need no settling.\<close>

lemma AddInbound_plain:
  assumes "wp_streamSettings w = [] \<or> wp_protocol w \<in> set protocolsWithStream"
    and "wp_protocol w \<noteq> ''mtproto''" and "\<not> has_clients (wp_settings w)" and "wp_nodeId w \<noteq> Some 0"
    and "1 \<le> wp_subSortIndex w" and "wp_shareAddrStrategy w \<in> set SHARE_ADDR_STRATEGIES"
    and "host (wp_shareAddr w) = Some a" and "resolve (w\<lparr>wp_shareAddr := a\<rparr>) = Some t"
  shows "AddInbound host resolve settle w = Some (w\<lparr>wp_shareAddr := a, wp_tag := t\<rparr>)"
proof -
  have "go_trim ''node'' = ''node''" "go_trim ''listen'' = ''listen''" "go_trim ''custom'' = ''custom''"
    by code_simp+
  then have "normalizeInboundShareAddrStrategy (wp_shareAddrStrategy w) = wp_shareAddrStrategy w"
    using assms(6) by (auto simp: SHARE_ADDR_STRATEGIES_def normalizeInboundShareAddrStrategy_def)
  moreover have "normalizeStreamSettings w = w"
    using assms(1) by (auto simp: normalizeStreamSettings_def)
  ultimately show ?thesis
    using assms by (simp add: AddInbound_def normalizeSubSortIndex_def settle_settings_def)
qed

definition server_keeps_stream :: "inbound_form \<Rightarrow> bool" where
  "server_keeps_stream f \<longleftrightarrow> if_streamSettings f = None \<or> if_protocol f \<in> set protocolsWithStream"

definition server_keeps_settings :: "inbound_form \<Rightarrow> bool" where
  "server_keeps_settings f \<longleftrightarrow> if_protocol f \<noteq> ''mtproto'' \<and> \<not> filled_array (oget (if_settings f) ''clients'')"

text \<open>
  C4
  A new inbound whose form is in normal form, submitted, stored by the server and handed out again,
  is read into the same form, but for the tag the server gives it and the share address as the
  server writes it: the nested slices through their JSON texts, the certificates through the removal
  and the synthesis of their \<open>useFile\<close> switch. The server clears the stream settings of a protocol
  that has none, heals the secret of an MTProto inbound and stamps clients, so the form has stream
  settings only for a protocol that keeps them, another protocol than MTProto and no client yet.
\<close>

theorem inbound_form_roundtrip:
  assumes "inbound_normal safeParse f" and "server_keeps_stream f" and "server_keeps_settings f"
    and "if_nodeId f \<noteq> Some 0" and "host (if_shareAddr f) = Some a"
  shows "\<exists>w. formValuesToWirePayload safeParse f = Some w
    \<and> (\<forall>t. resolve (w\<lparr>wp_shareAddr := a\<rparr>) = Some t \<longrightarrow>
           Option.bind (AddInbound host resolve settle w) (\<lambda>r. rawInboundToFormValues (api_row r))
             = Some (f\<lparr>if_tag := t, if_shareAddr := a\<rparr>))"
proof -
  note n = assms(1)[unfolded inbound_normal_def]
  obtain w where w: "write_stream (if_streamSettings f) = Some w" "map_option drop_stream_empties w = w"
    "read_stream (jsonStringFieldToRaw (case w of Some s \<Rightarrow> json_stringify (JObj s) | None \<Rightarrow> [])) = Some (if_streamSettings f)"
    "if_streamSettings f = None \<longrightarrow> w = None"
  proof (cases "if_streamSettings f")
    case None
    then show ?thesis using that[of None] by (simp add: write_stream_def read_stream_def coerceJsonObject_def)
  next
    case (Some s)
    with n have "stream_form_normal s" by simp
    then obtain x where "write_stream (Some s) = Some (Some x)" "drop_stream_empties x = x"
      "read_stream (jsonStringFieldToRaw (json_stringify (JObj x))) = Some (Some s)" by (rule stream_roundtrip)
    then show ?thesis by (intro that[of "Some x"]) (simp_all only: Some option.case option.map option.distinct simp_thms)
  qed
  have s: "settings_normal safeParse (if_protocol f) (if_settings f)"
    and sn: "sniffing_normal (if_protocol f) (if_sniffing f)" using n by simp_all
  have tr: "coerceTrafficReset (JStr (if_trafficReset f)) = if_trafficReset f"
    and sa: "coerceShareAddrStrategy (JStr (if_shareAddrStrategy f)) = if_shareAddrStrategy f"
    and pr: "sor (if_protocol f) ''vless'' = if_protocol f"
    and ix: "max 1 (if_subSortIndex f) = if_subSortIndex f"
    using n by (simp_all add: coerceTrafficReset_def coerceShareAddrStrategy_def sor_def)
  define p where "p = \<lparr>wp_up = if_up f, wp_down = if_down f, wp_total = if_total f, wp_remark = if_remark f,
       wp_enable = if_enable f, wp_expiryTime = if_expiryTime f, wp_trafficReset = if_trafficReset f,
       wp_lastTrafficResetTime = if_lastTrafficResetTime f, wp_listen = if_listen f, wp_port = if_port f,
       wp_protocol = if_protocol f, wp_settings = json_stringify (JObj (if_settings f)),
       wp_streamSettings = (case w of Some s \<Rightarrow> json_stringify (JObj s) | None \<Rightarrow> []),
       wp_sniffing = sniffing_text (if_protocol f) (if_sniffing f),
       wp_tag = if_tag f, wp_nodeId = if_nodeId f, wp_shareAddrStrategy = if_shareAddrStrategy f,
       wp_shareAddr = if_shareAddr f, wp_subSortIndex = if_subSortIndex f\<rparr>"
  have "formValuesToWirePayload safeParse f = Some p"
    unfolding p_def formValuesToWirePayload_def w(1) option.map dropLegacyOptionalEmpties_def Let_def prod.case w(2)
      settings_roundtrip(1)[OF s] by (rule refl)
  moreover have "AddInbound host resolve settle p = Some (p\<lparr>wp_shareAddr := a, wp_tag := t\<rparr>)"
    if "resolve (p\<lparr>wp_shareAddr := a\<rparr>) = Some t" for t
    using n assms(2-5) w(4) that
    by (intro AddInbound_plain)
       (simp_all add: p_def server_keeps_stream_def server_keeps_settings_def settings_roundtrip(3)[OF s] split: option.splits)
  moreover have "rawInboundToFormValues (api_row (p\<lparr>wp_shareAddr := a, wp_tag := t\<rparr>))
      = Some (f\<lparr>if_tag := t, if_shareAddr := a\<rparr>)" for t
    unfolding p_def rawInboundToFormValues_def api_row_def raw_row.simps wire_payload.simps wire_payload.update_convs
      w(3) option.map opt_or_def option.case settings_roundtrip(2)[OF s] sniffing_roundtrip[OF sn] tr sa pr ix
    by (cases f) simp
  ultimately show ?thesis by (intro exI[of _ p] conjI allI impI) (simp_all only: bind.simps)
qed

theorem inbound_form_roundtrip_witness:
  "let f = \<lparr>if_remark = ''eu'', if_enable = True, if_port = 443, if_listen = [], if_tag = ''mine'',
       if_expiryTime = 0, if_sniffing = [(''enabled'', JBool False)],
       if_streamSettings = Some [(''network'', JStr ''tcp''), (''tcpSettings'', JObj []),
         (''tlsSettings'', JObj [(''certificates'', JArr [JObj [(''keyFile'', JStr ''k''), (''useFile'', JBool True)]])])],
       if_up = 1, if_down = 2, if_total = 0, if_trafficReset = ''daily'', if_lastTrafficResetTime = 0,
       if_nodeId = Some 3, if_shareAddrStrategy = ''custom'', if_shareAddr = ''H'', if_subSortIndex = 1,
       if_protocol = ''vless'', if_settings = [(''clients'', JArr []), (''decryption'', JStr ''none'')]\<rparr>
   in Option.bind (formValuesToWirePayload (\<lambda>_ _. None) f)
        (\<lambda>w. Option.bind (AddInbound (\<lambda>h. Some ''h'') (\<lambda>w. Some ''in-443-tcp'') (\<lambda>w. None) w)
           (\<lambda>r. rawInboundToFormValues (api_row r)))
        = Some (f\<lparr>if_tag := ''in-443-tcp'', if_shareAddr := ''h''\<rparr>)"
proof -
  let ?c = "[(''keyFile'', JStr ''k''), (''useFile'', JBool True)]"
  let ?t = "[(''certificates'', JArr [JObj ?c])]"
  let ?s = "[(''network'', JStr ''tcp''), (''tcpSettings'', JObj []), (''tlsSettings'', JObj ?t)]"
  let ?st = "[(''clients'', JArr []), (''decryption'', JStr ''none'')]"
  have wf: "owf ?c" "owf ?t" "owf ?s" "owf ?st" "owf [(''enabled'', JBool False)]"
    by (rule owf_named; simp add: okeys_def is_digit_def)+
  have "cert_normal (JObj ?c)"
    by (simp add: cert_normal_def odel_def cert_use_file_def)
  moreover have "tls_normal ?t"
    by (simp add: tls_normal_def fp_dropped_def okeys_def)
  moreover have "network_healed ?s"
    by (simp add: network_healed_def network_key_def NETWORK_SETTINGS_KEY_def)
  ultimately have s: "stream_form_normal ?s"
    using wf by (simp add: stream_form_normal_def tls_certs_def masks_normal_def auth_normal_def
        stream_normal_def ohas_def okeys_def)
  have st: "settings_normal (\<lambda>_ _. None) ''vless'' ?st"
    using wf by (simp add: settings_normal_def ohas_def normalizeClients_def has_client_schema_def)
  have sn: "sniffing_normal ''vless'' [(''enabled'', JBool False)]"
    using wf by (simp add: sniffing_normal_def normalizeSniffing_def)
  have w: "Option.bind (formValuesToWirePayload (\<lambda>_ _. None) f)
        (\<lambda>w. Option.bind (AddInbound (\<lambda>h. Some ''h'') (\<lambda>w. Some ''in-443-tcp'') (\<lambda>w. None) w)
           (\<lambda>r. rawInboundToFormValues (api_row r)))
        = Some (f\<lparr>if_tag := ''in-443-tcp'', if_shareAddr := ''h''\<rparr>)"
    if "inbound_normal (\<lambda>_ _. None) f" "server_keeps_stream f" "server_keeps_settings f" "if_nodeId f \<noteq> Some 0" for f
    using inbound_form_roundtrip[OF that, of "\<lambda>h. Some ''h''" "''h''" "\<lambda>w. Some ''in-443-tcp''" "\<lambda>w. None"]
    by auto
  show ?thesis
    unfolding Let_def
    by (rule w)
       (simp_all add: inbound_normal_def s st sn TRAFFIC_RESETS_def SHARE_ADDR_STRATEGIES_def server_keeps_stream_def
          server_keeps_settings_def protocolsWithStream_def filled_array_def)
qed

text \<open>The stream settings of any other protocol do not come back.\<close>

theorem stream_not_kept:
  assumes "AddInbound host resolve settle w = Some r" and "wp_protocol w \<notin> set protocolsWithStream"
  shows "wp_streamSettings r = []"
  using assms
  by (auto simp: AddInbound_def normalizeStreamSettings_def settle_settings_def Let_def
      split: bind_splits if_splits)

text \<open>
  A network named like a member of \<open>Object.prototype\<close> finds that member in the table, and its text
  becomes a key of the stream settings.
\<close>

theorem heal_prototype_network:
  "healStreamNetworkKey [(''network'', JStr ''valueOf'')]
     = [(''network'', JStr ''valueOf''), (''function valueOf() { [native code] }'', JObj [])]"
  by (simp add: healStreamNetworkKey_def network_key_def NETWORK_SETTINGS_KEY_def proto_names_def proto_text_def
      key_before_def is_digit_def)

end
