(* ===== verification/Random_Util.thy ===== *)
theory Random_Util
  imports Base64_Text "HOL-Library.Word" "HOL-Library.Multiset"
begin

unbundle bit_operations_syntax

text \<open>
  The \<open>RandomUtil\<close> class of \<open>utils/index.ts\<close>: ids, passwords and secrets made of drawn numbers.
  What \<open>crypto.getRandomValues\<close> and \<open>Math.random\<close> deliver is an argument of each operation: the
  list of drawn words, or the order a shuffle ended in. The base32 writer works on the 32-bit
  accumulator of the code and is shown to be the grouping of the bits by five.
\<close>

section \<open>Sequences\<close>

datatype seq_type = Default_Seq | Hex_Seq

record seq_options =
  so_type :: seq_type
  so_hasNumbers :: bool
  so_hasLowercase :: bool
  so_hasUppercase :: bool

definition default_seq :: seq_options where
  "default_seq = \<lparr>so_type = Default_Seq, so_hasNumbers = True, so_hasLowercase = True, so_hasUppercase = True\<rparr>"

definition getSeq :: "seq_options \<Rightarrow> string" where
  "getSeq opts =
     (case so_type opts of
        Hex_Seq \<Rightarrow> ''0123456789abcdef''
      | Default_Seq \<Rightarrow>
          (if so_hasNumbers opts then ''0123456789'' else [])
          @ (if so_hasLowercase opts then ''abcdefghijklmnopqrstuvwxyz'' else [])
          @ (if so_hasUppercase opts then ''ABCDEFGHIJKLMNOPQRSTUVWXYZ'' else []))"

definition randomInteger :: "32 word \<Rightarrow> int \<Rightarrow> int \<Rightarrow> int" where
  "randomInteger drawn lo hi = (let range = hi - lo + 1 in \<lfloor>of_int (uint drawn * range) / (2 ^ 32 :: rat)\<rfloor> + lo)"

text \<open>A letter of the empty sequence is \<open>undefined\<close>, which \<open>join\<close> writes as nothing.\<close>

definition seq_letter :: "string \<Rightarrow> 32 word \<Rightarrow> string" where
  "seq_letter sq v = (if sq = [] then [] else [sq ! (unat v mod length sq)])"

definition randomSeq :: "32 word list \<Rightarrow> seq_options \<Rightarrow> string" where
  "randomSeq randomValues opts = concat (map (seq_letter (getSeq opts)) randomValues)"

definition SHORT_ID_LENGTHS :: "nat list" where
  "SHORT_ID_LENGTHS = [2, 4, 6, 8, 10, 12, 14, 16]"

definition hex_seq :: seq_options where
  "hex_seq = default_seq\<lparr>so_type := Hex_Seq\<rparr>"

text \<open>\<open>lengths\<close> is the order the shuffle left, \<open>draw n\<close> the words drawn for the \<open>n\<close>-th id.\<close>

definition randomShortIds :: "nat list \<Rightarrow> (nat \<Rightarrow> nat \<Rightarrow> 32 word) \<Rightarrow> string" where
  "randomShortIds lengths draw =
     join '','' (map (\<lambda>n. randomSeq (map (draw n) [0 ..< lengths ! n]) hex_seq) [0 ..< length lengths])"

definition randomLowerAndNum :: "32 word list \<Rightarrow> string" where
  "randomLowerAndNum randomValues = randomSeq randomValues (default_seq\<lparr>so_hasUppercase := False\<rparr>)"

section \<open>UUIDs\<close>

definition UUID_TEMPLATE :: string where
  "UUID_TEMPLATE = ''xxxxxxxx-xxxx-4xxx-yxxx-xxxxxxxxxxxx''"

definition hex_char :: "nat \<Rightarrow> char" where
  "hex_char n = ''0123456789abcdef'' ! n"

definition uuid_digit :: "char \<Rightarrow> 8 word \<Rightarrow> char" where
  "uuid_digit c drawn =
     (let randomValue = drawn mod 16;
          calculatedValue = (if c = CHR ''x'' then randomValue else (randomValue AND 0x3) OR 0x8)
      in hex_char (unat calculatedValue))"

text \<open>One byte is drawn for every \<open>x\<close> and \<open>y\<close> of the template, in order.\<close>

fun fill_template :: "string \<Rightarrow> 8 word list \<Rightarrow> string" where
  "fill_template [] drawn = []"
| "fill_template (c # cs) drawn =
     (if c = CHR ''x'' \<or> c = CHR ''y'' then
        (case drawn of
           [] \<Rightarrow> []
         | d # ds \<Rightarrow> uuid_digit c d # fill_template cs ds)
      else c # fill_template cs drawn)"

text \<open>On a secure page the browser makes the UUID: \<open>native\<close>.\<close>

definition randomUUID :: "bool \<Rightarrow> string \<Rightarrow> 8 word list \<Rightarrow> string" where
  "randomUUID https native drawn = (if https then native else fill_template UUID_TEMPLATE drawn)"

section \<open>Passwords\<close>

definition bytes_text :: "8 word list \<Rightarrow> string" where
  "bytes_text bs = map (\<lambda>b. char_of (unat b)) bs"

definition ss_key_length :: "string \<Rightarrow> nat" where
  "ss_key_length method = (if method = ''2022-blake3-aes-128-gcm'' then 16 else 32)"

text \<open>\<open>draw\<close> gives the bytes the array of the asked length is filled with.\<close>

definition randomShadowsocksPassword :: "(nat \<Rightarrow> 8 word) \<Rightarrow> string \<Rightarrow> string" where
  "randomShadowsocksPassword draw method = btoa (bytes_text (map draw [0 ..< ss_key_length method]))"

definition isShadowsocks2022Password :: "string \<Rightarrow> string \<Rightarrow> bool" where
  "isShadowsocks2022Password password method =
     (if method = [] \<or> take 4 method \<noteq> ''2022'' then True
      else case atob password of Some b \<Rightarrow> length b = ss_key_length method | None \<Rightarrow> False)"

definition randomBase64 :: "(nat \<Rightarrow> 8 word) \<Rightarrow> nat \<Rightarrow> string" where
  "randomBase64 draw n = btoa (bytes_text (map draw [0 ..< n]))"

section \<open>Base32\<close>

definition b32_chars :: string where
  "b32_chars = ''ABCDEFGHIJKLMNOPQRSTUVWXYZ234567''"

definition b32_char :: "32 word \<Rightarrow> char" where
  "b32_char w = b32_chars ! unat w"

text \<open>The inner loop: the letters it appends and the number of bits it leaves.\<close>

fun b32_drain :: "32 word \<Rightarrow> nat \<Rightarrow> string \<times> nat" where
  "b32_drain buffer bits =
     (if bits \<ge> 5 then
        (let (out, rest) = b32_drain buffer (bits - 5)
         in (b32_char (drop_bit (bits - 5) buffer AND 0x1F) # out, rest))
      else ([], bits))"

declare b32_drain.simps [simp del]

fun b32_loop :: "32 word \<Rightarrow> nat \<Rightarrow> 8 word list \<Rightarrow> string" where
  "b32_loop buffer bits [] =
     (if bits > 0 then [b32_char (push_bit (5 - bits) buffer AND 0x1F)] else [])"
| "b32_loop buffer bits (x # xs) =
     (let buffer = push_bit 8 buffer OR ucast x; (out, rest) = b32_drain buffer (bits + 8)
      in out @ b32_loop buffer rest xs)"

definition randomBase32String :: "8 word list \<Rightarrow> string" where
  "randomBase32String array = b32_loop 0 0 array"

section \<open>Letters\<close>

lemma randomSeq_length: "getSeq opts \<noteq> [] \<Longrightarrow> length (randomSeq vs opts) = length vs"
  by (induction vs) (auto simp: randomSeq_def seq_letter_def)

lemma randomSeq_letters: "c \<in> set (randomSeq vs opts) \<Longrightarrow> c \<in> set (getSeq opts)"
  by (auto simp: randomSeq_def seq_letter_def split: if_splits)

text \<open>
  A random sequence has the asked length over the asked alphabet, and is empty when every letter
  class is switched off; a random integer lies within its bounds.
\<close>

theorem random_letters_bounds:
  "(getSeq opts \<noteq> [] \<longrightarrow> length (randomSeq vs opts) = length vs)
   \<and> set (randomSeq vs opts) \<subseteq> set (getSeq opts)
   \<and> (getSeq opts = [] \<longleftrightarrow> so_type opts = Default_Seq \<and> \<not> so_hasNumbers opts \<and> \<not> so_hasLowercase opts
        \<and> \<not> so_hasUppercase opts)
   \<and> (lo \<le> hi \<longrightarrow> lo \<le> randomInteger drawn lo hi \<and> randomInteger drawn lo hi \<le> hi)"
proof (intro conjI impI)
  show "getSeq opts \<noteq> [] \<Longrightarrow> length (randomSeq vs opts) = length vs" by (rule randomSeq_length)
  show "set (randomSeq vs opts) \<subseteq> set (getSeq opts)" using randomSeq_letters by blast
  show "getSeq opts = [] \<longleftrightarrow> so_type opts = Default_Seq \<and> \<not> so_hasNumbers opts \<and> \<not> so_hasLowercase opts
        \<and> \<not> so_hasUppercase opts"
    by (simp add: getSeq_def split: seq_type.splits)
next
  assume le: "lo \<le> hi"
  let ?r = "hi - lo + 1"
  have "uint drawn * ?r \<le> (2 ^ 32 - 1) * ?r"
    using uint_lt2p[of drawn] le by (intro mult_right_mono) auto
  also have "\<dots> < 2 ^ 32 * ?r" using le by simp
  finally have "(of_int (uint drawn * ?r) :: rat) < of_int (2 ^ 32 * ?r)" by (simp only: of_int_less_iff)
  then have "of_int (uint drawn * ?r) / (2 ^ 32 :: rat) < of_int ?r" by (simp add: divide_less_eq mult.commute)
  then have "\<lfloor>of_int (uint drawn * ?r) / (2 ^ 32 :: rat)\<rfloor> < ?r" by (simp only: floor_less_iff)
  then show "randomInteger drawn lo hi \<le> hi" by (simp add: randomInteger_def Let_def)
  have "0 \<le> uint drawn * ?r" using le by simp
  then have "(0::rat) \<le> of_int (uint drawn * ?r)" by (simp only: of_int_0_le_iff)
  then have "0 \<le> of_int (uint drawn * ?r) / (2 ^ 32 :: rat)" by simp
  then have "0 \<le> \<lfloor>of_int (uint drawn * ?r) / (2 ^ 32 :: rat)\<rfloor>" by (simp only: zero_le_floor)
  then show "lo \<le> randomInteger drawn lo hi" by (simp only: randomInteger_def Let_def)
qed

theorem random_letters_bounds_witness:
  "randomInteger 0xFFFFFFFF 3 9 \<le> 9 \<and> length (randomSeq [7, 36, 200] default_seq) = 3"
proof -
  have "getSeq default_seq \<noteq> []" by (simp add: getSeq_def default_seq_def)
  then show ?thesis
    using random_letters_bounds[of default_seq "[7, 36, 200]" 3 9 "0xFFFFFFFF"] by auto
qed

lemma hex_seq_letters: "getSeq hex_seq = ''0123456789abcdef''"
  by (simp add: getSeq_def hex_seq_def default_seq_def)

text \<open>
  However the shuffle orders them, the generated short ids, split again at the commas, are one
  lower-case hexadecimal id of every even length from 2 to 16.
\<close>

theorem short_ids_shape:
  assumes "mset lengths = mset SHORT_ID_LENGTHS"
  shows "mset (map length (split_char CHR '','' (randomShortIds lengths draw))) = mset SHORT_ID_LENGTHS
    \<and> (\<forall>i \<in> set (split_char CHR '','' (randomShortIds lengths draw)). set i \<subseteq> set ''0123456789abcdef'')"
proof -
  let ?id = "\<lambda>n. randomSeq (map (draw n) [0 ..< lengths ! n]) hex_seq"
  let ?ids = "map ?id [0 ..< length lengths]"
  have l: "length (?id n) = lengths ! n" for n
    using randomSeq_length[of hex_seq] by (simp add: hex_seq_letters)
  have h: "set (?id n) \<subseteq> set ''0123456789abcdef''" for n
    using randomSeq_letters[of _ _ hex_seq] unfolding hex_seq_letters by blast
  have "size (mset lengths) = size (mset SHORT_ID_LENGTHS)" using assms by simp
  then have ne: "?ids \<noteq> []" by (auto simp: SHORT_ID_LENGTHS_def)
  have comma: "CHR '','' \<notin> set ''0123456789abcdef''" by simp
  have "\<forall>w \<in> set ?ids. CHR '','' \<notin> set w" using h comma by (auto simp del: list.set)
  then have ids: "split_char CHR '','' (randomShortIds lengths draw) = ?ids"
    using split_join[of ?ids "CHR '',''"] ne by (simp add: randomShortIds_def)
  have "map length ?ids = lengths" by (intro nth_equalityI) (simp_all add: l)
  with ids h assms show ?thesis by auto
qed

theorem short_ids_shape_witness:
  "mset (map length (split_char CHR '','' (randomShortIds [16, 2, 4, 6, 8, 10, 12, 14] (\<lambda>_ _. 7)))) = mset SHORT_ID_LENGTHS"
  using short_ids_shape[of "[16, 2, 4, 6, 8, 10, 12, 14]" "\<lambda>_ _. 7"] by (simp add: SHORT_ID_LENGTHS_def)

section \<open>UUIDs have their version and variant\<close>

lemma hex_char_mem: "n < 16 \<Longrightarrow> hex_char n \<in> set ''0123456789abcdef''"
  unfolding hex_char_def by (rule nth_mem) simp

lemma uuid_x: "uuid_digit CHR ''x'' d \<in> set ''0123456789abcdef''"
proof -
  have "unat (d mod 16) < 16" by (simp add: unat_mod)
  then show ?thesis unfolding uuid_digit_def Let_def if_P[OF refl] by (rule hex_char_mem)
qed

lemma small_word:
  fixes w :: "8 word"
  assumes "unat w \<le> 3"
  shows "w \<in> {0, 1, 2, 3}"
proof -
  define k where "k = unat w"
  then have w: "w = of_nat k" by simp
  have "k = 0 \<or> k = 1 \<or> k = 2 \<or> k = 3" using assms unfolding k_def by linarith
  then show ?thesis unfolding w by auto
qed

lemma uuid_y: "uuid_digit CHR ''y'' d \<in> set ''89ab''"
proof -
  have "d mod 16 AND 0x3 \<le> 3" by (rule word_and_le1)
  then have "unat (d mod 16 AND 0x3) \<le> 3" by (simp add: word_le_nat_alt)
  from small_word[OF this] have "(d mod 16 AND 0x3) OR 0x8 \<in> {8, 9, 10, 11}" by auto
  then show ?thesis by (auto simp: uuid_digit_def hex_char_def)
qed

definition uuid_fits :: "char \<Rightarrow> char \<Rightarrow> bool" where
  "uuid_fits t c =
     (if t = CHR ''x'' then c \<in> set ''0123456789abcdef''
      else if t = CHR ''y'' then c \<in> set ''89ab'' else c = t)"

lemma fill_template_fits:
  "length (filter (\<lambda>c. c = CHR ''x'' \<or> c = CHR ''y'') cs) \<le> length drawn \<Longrightarrow>
   list_all2 uuid_fits cs (fill_template cs drawn)"
proof (induction cs arbitrary: drawn)
  case (Cons c cs)
  show ?case
  proof (cases "c = CHR ''x'' \<or> c = CHR ''y''")
    case True
    with Cons.prems obtain d ds where d: "drawn = d # ds" by (cases drawn) auto
    have "uuid_fits c (uuid_digit c d)"
      using True uuid_x uuid_y by (auto simp: uuid_fits_def simp del: list.set)
    with Cons True d show ?thesis by simp
  next
    case False
    with Cons show ?thesis by (simp add: uuid_fits_def)
  qed
qed simp

text \<open>
  Away from HTTPS, and given a byte for each of its 31 drawn places, the generated UUID fits the
  template: hyphens and the version digit 4 in place, a variant digit among 8, 9, a and b, lower-case
  hexadecimal elsewhere.
\<close>

theorem uuid_shape:
  assumes "31 \<le> length drawn"
  shows "list_all2 uuid_fits UUID_TEMPLATE (randomUUID False native drawn)"
  unfolding randomUUID_def if_False
  by (rule fill_template_fits) (use assms in \<open>simp add: UUID_TEMPLATE_def\<close>)

theorem uuid_shape_witness:
  "list_all2 uuid_fits UUID_TEMPLATE (randomUUID False [] (replicate 31 255))"
  by (rule uuid_shape) simp

section \<open>Generated passwords pass the check\<close>

text \<open>
  A password generated for a Shadowsocks method is accepted for it, and for another 2022 method
  exactly when that one asks for keys of the same size.
\<close>

theorem generated_password_accepted:
  "isShadowsocks2022Password (randomShadowsocksPassword draw m) m
   \<and> (isShadowsocks2022Password (randomShadowsocksPassword draw m) m'
      \<longleftrightarrow> (if take 4 m' = ''2022'' then ss_key_length m' = ss_key_length m else True))"
  by (auto simp: isShadowsocks2022Password_def randomShadowsocksPassword_def atob_btoa bytes_text_def)

section \<open>Base32 groups the bits by five\<close>

text \<open>The bits of a word, highest first, and a reference encoder over bit lists.\<close>

definition low_bits :: "'a::len word \<Rightarrow> nat \<Rightarrow> bool list" where
  "low_bits w n = map (\<lambda>i. bit w (n - 1 - i)) [0 ..< n]"

definition bits_num :: "bool list \<Rightarrow> nat" where
  "bits_num bs = foldl (\<lambda>a b. 2 * a + of_bool b) 0 bs"

fun groups5 :: "bool list \<Rightarrow> nat list" where
  "groups5 bs =
     (if bs = [] then [] else bits_num (take 5 (bs @ replicate 4 False)) # groups5 (drop 5 bs))"

declare groups5.simps [simp del]

definition base32_reference :: "8 word list \<Rightarrow> string" where
  "base32_reference xs = map (\<lambda>n. b32_chars ! n) (groups5 (concat (map (\<lambda>x. low_bits x 8) xs)))"

lemma low_bits_length [simp]: "length (low_bits w n) = n"
  by (simp add: low_bits_def)

lemma low_bits_nth: "i < n \<Longrightarrow> low_bits w n ! i = bit w (n - 1 - i)"
  by (simp add: low_bits_def)

lemma low_bits_split: "low_bits w (m + n) = low_bits (drop_bit n w) m @ low_bits w n"
  by (rule nth_equalityI) (auto simp: low_bits_nth nth_append bit_drop_bit_eq algebra_simps intro!: arg_cong[of _ _ "bit w"])

lemma low_bits_push:
  fixes w :: "32 word" and x :: "8 word"
  assumes "n + 8 \<le> 32"
  shows "low_bits (push_bit 8 w OR ucast x) (n + 8) = low_bits w n @ low_bits x 8"
proof (rule nth_equalityI)
  fix i assume "i < length (low_bits (push_bit 8 w OR ucast x) (n + 8))"
  then have i: "i < n + 8" by simp
  show "low_bits (push_bit 8 w OR ucast x) (n + 8) ! i = (low_bits w n @ low_bits x 8) ! i"
  proof (cases "i < n")
    case True
    have e: "n + 8 - 1 - i = (n - 1 - i) + 8" using True by simp
    have "\<not> bit x (n - 1 - i + 8)" by (auto dest: bit_imp_le_length)
    moreover have "8 \<le> 7 + n - i \<and> 7 + n - i < 32" using True assms by auto
    ultimately show ?thesis using True i assms
      by (simp add: low_bits_nth nth_append e bit_or_iff bit_push_bit_iff bit_ucast_iff)
  next
    case False
    then have e: "n + 8 - 1 - i = 7 - (i - n)" "n + 8 - 1 - i < 8" using i by auto
    then show ?thesis using False i assms
      by (simp add: low_bits_nth nth_append bit_or_iff bit_push_bit_iff bit_ucast_iff)
  qed
qed simp

lemma bits_num_snoc [simp]: "bits_num (bs @ [b]) = 2 * bits_num bs + of_bool b"
  by (simp add: bits_num_def)

lemma low_bits_Suc: "low_bits w (Suc n) = low_bits (drop_bit 1 w) n @ [bit w 0]"
  using low_bits_split[of w n 1] by (simp add: low_bits_def)

lemma bits_num_low: "bits_num (low_bits w n) = unat (take_bit n w)"
proof (induction n arbitrary: w)
  case 0
  then show ?case by (simp add: low_bits_def bits_num_def)
next
  case (Suc n)
  have "unat (take_bit (Suc n) w) = take_bit (Suc n) (unat w)" by (simp add: unsigned_take_bit_eq)
  also have "\<dots> = 2 * take_bit n (unat w div 2) + unat w mod 2"
    by (simp add: take_bit_Suc mod_2_eq_odd)
  also have "unat w div 2 = unat (drop_bit 1 w)" by (unfold unat_drop_bit_eq) (simp add: drop_bit_Suc)
  also have "unat w mod 2 = of_bool (bit w 0)"
    using bit_unsigned_iff[of w 0, where 'a = nat] by (simp add: mod_2_eq_odd bit_0)
  finally show ?case
    using Suc[of "drop_bit 1 w"] by (simp add: low_bits_Suc unsigned_take_bit_eq)
qed

lemma b32_char_low: "b32_char (w AND 0x1F) = b32_chars ! bits_num (low_bits w 5)"
proof -
  have "w AND 0x1F = take_bit 5 w" by (simp add: take_bit_eq_mask mask_eq_exp_minus_1)
  then show ?thesis by (simp add: b32_char_def bits_num_low)
qed

lemma groups5_step: "length bs = 5 \<Longrightarrow> groups5 (bs @ ts) = bits_num bs # groups5 ts"
  by (subst groups5.simps) auto

lemma b32_drain_groups:
  "b32_drain w n = (out, rest) \<Longrightarrow>
   rest < 5 \<and> map ((!) b32_chars) (groups5 (low_bits w n @ ts))
                = out @ map ((!) b32_chars) (groups5 (low_bits w rest @ ts))"
proof (induction w n arbitrary: out rule: b32_drain.induct)
  case (1 w n)
  show ?case
  proof (cases "n \<ge> 5")
    case True
    obtain out' where d: "b32_drain w (n - 5) = (out', rest)"
      and o: "out = b32_char (drop_bit (n - 5) w AND 0x1F) # out'"
      using "1.prems" True by (subst (asm) b32_drain.simps) (auto split: prod.splits)
    have s: "low_bits w n = low_bits (drop_bit (n - 5) w) 5 @ low_bits w (n - 5)"
      using low_bits_split[of w 5 "n - 5"] True by simp
    from "1.IH"[OF True d] show ?thesis
      by (simp add: s groups5_step o b32_char_low)
  next
    case False
    with "1.prems" show ?thesis by (subst (asm) b32_drain.simps) auto
  qed
qed

lemma low_bits_pad:
  fixes w :: "32 word"
  assumes "n \<le> 5"
  shows "low_bits (push_bit (5 - n) w) 5 = low_bits w n @ replicate (5 - n) False"
proof (rule nth_equalityI)
  fix i assume "i < length (low_bits (push_bit (5 - n) w) 5)"
  then have i: "i < 5" by simp
  show "low_bits (push_bit (5 - n) w) 5 ! i = (low_bits w n @ replicate (5 - n) False) ! i"
  proof (cases "i < n")
    case True
    have e: "4 - i - (5 - n) = n - Suc i" "5 - n \<le> 4 - i" using True assms by auto
    have "4 - i < 32" by simp
    with True i assms e show ?thesis by (simp add: low_bits_nth nth_append bit_push_bit_iff)
  next
    case False
    then have "\<not> 5 - n \<le> 4 - i" using i assms by auto
    then show ?thesis using False i assms by (simp add: low_bits_nth nth_append bit_push_bit_iff)
  qed
qed (use assms in simp)

lemma groups5_last:
  assumes "0 < length bs" and "length bs < 5"
  shows "groups5 bs = [bits_num (bs @ replicate (5 - length bs) False)]"
proof -
  have "take 5 (bs @ replicate 4 False) = bs @ replicate (5 - length bs) False"
  proof -
    have "5 - length bs \<le> 4" using assms(1) by linarith
    then show ?thesis using assms(2) by (simp add: min_def)
  qed
  moreover have "drop 5 bs = []" "bs \<noteq> []" using assms by auto
  moreover have "groups5 [] = []" by (subst groups5.simps) simp
  ultimately show ?thesis by (subst groups5.simps) simp
qed

lemma b32_loop_groups:
  "n < 5 \<Longrightarrow> b32_loop w n xs =
     map ((!) b32_chars) (groups5 (low_bits w n @ concat (map (\<lambda>x. low_bits x 8) xs)))"
proof (induction xs arbitrary: w n)
  case Nil
  show ?case
  proof (cases "n = 0")
    case True
    have "groups5 [] = []" by (subst groups5.simps) simp
    then show ?thesis by (simp add: True low_bits_def)
  next
    case False
    with Nil have "groups5 (low_bits w n) = [bits_num (low_bits (push_bit (5 - n) w) 5)]"
      by (subst groups5_last) (simp_all add: low_bits_pad)
    with False show ?thesis by (simp add: b32_char_low)
  qed
next
  case (Cons x xs)
  let ?w = "push_bit 8 w OR ucast x"
  let ?ts = "concat (map (\<lambda>x. low_bits x 8) xs)"
  obtain out rest where d: "b32_drain ?w (n + 8) = (out, rest)" by fastforce
  have b: "low_bits ?w (n + 8) = low_bits w n @ low_bits x 8"
    by (rule low_bits_push) (use Cons.prems in simp)
  from b32_drain_groups[OF d, of ?ts] Cons.IH[of rest ?w] show ?case
    by (simp add: d b)
qed

lemma ceil5: "0 < n \<Longrightarrow> (n + 4) div 5 = Suc ((n - 5 + 4) div 5)" for n :: nat
  by (cases "n < 5") auto

lemma groups5_length: "length (groups5 bs) = (length bs + 4) div 5"
proof (induction bs rule: groups5.induct)
  case (1 bs)
  show ?case
  proof (cases "bs = []")
    case False
    then have "0 < length bs" by simp
    then have "(length bs + 4) div 5 = Suc ((length bs - 5 + 4) div 5)" by (rule ceil5)
    moreover have "groups5 bs = bits_num (take 5 (bs @ replicate 4 False)) # groups5 (drop 5 bs)"
      using False by (subst groups5.simps) simp
    ultimately show ?thesis using "1.IH"[OF False] by simp
  qed (simp add: groups5.simps)
qed

lemma byte_bits_length: "length (concat (map (\<lambda>x. low_bits x 8) xs)) = 8 * length xs"
  by (induction xs) auto

text \<open>
  The base32 writer with its 32-bit accumulator, whose upper bits overflow and are lost, refines
  the reference encoder: it writes the bits of the bytes in groups of five, the last one padded
  with zeros, so its length is the number of bits divided by five, rounded up.
\<close>

theorem base32_refines:
  "randomBase32String xs = base32_reference xs \<and> length (randomBase32String xs) = (8 * length xs + 4) div 5"
proof -
  have "low_bits (0::32 word) 0 = []" by (simp add: low_bits_def)
  then have "randomBase32String xs = base32_reference xs"
    using b32_loop_groups[of 0 0 xs] by (simp add: randomBase32String_def base32_reference_def)
  then show ?thesis by (simp add: base32_reference_def groups5_length byte_bits_length)
qed

end
