(* ===== verification/Link_Roundtrip.thy ===== *)
theory Link_Roundtrip
  imports Share_Link Link_Parser
begin

text \<open>
  What the link generators write is what the link parser reads: the round trips between
  \<open>lib/xray/inbound-link.ts\<close> and \<open>lib/xray/outbound-link-parser.ts\<close>.

  The parameters a generator sets are first put in the form of one list of pairs per block of the
  stream settings; the parser is then evaluated on lookups in those lists.
\<close>

section \<open>A URL with a query and a fragment\<close>

definition sets :: "params \<Rightarrow> params \<Rightarrow> params" where
  "sets kvs ps = fold (\<lambda>p. params_set (fst p) (snd p)) kvs ps"

lemma sets_Nil [simp]: "sets [] ps = ps"
  by (simp add: sets_def)

lemma sets_Cons [simp]: "sets ((k, v) # kvs) ps = sets kvs (params_set k v ps)"
  by (simp add: sets_def)

lemma sets_append: "sets (a @ b) ps = sets b (sets a ps)"
  by (simp add: sets_def)

lemma params_set_new: "k \<notin> fst ` set ps \<Longrightarrow> params_set k v ps = ps @ [(k, v)]"
  by (induction k v ps rule: params_set.induct) auto

lemma sets_distinct:
  "distinct (map fst (ps @ kvs)) \<Longrightarrow> sets kvs ps = ps @ kvs"
proof (induction kvs arbitrary: ps)
  case (Cons p kvs)
  then have "fst p \<notin> fst ` set ps" by auto
  then show ?case
    using Cons.IH[of "ps @ [p]"] Cons.prems params_set_new[of "fst p" ps "snd p"]
    by (simp add: sets_def)
qed simp

lemma params_str_Nil_iff: "params_str ps = [] \<longleftrightarrow> ps = []"
proof (cases ps)
  case (Cons p qs)
  have "join d (w # ws) \<noteq> []" if "w \<noteq> []" for d w and ws :: "string list"
    using that by (cases ws) auto
  then show ?thesis using Cons by (simp add: params_str_def)
qed (simp add: params_str_def)

definition holds_params :: "params \<Rightarrow> url \<Rightarrow> bool" where
  "holds_params ps u \<longleftrightarrow> params_ok ps \<and> u_query u = (if ps = [] then None else Some (params_str ps))"

lemma holds_url_params: "holds_params ps u \<Longrightarrow> url_params u = ps"
  by (auto simp: holds_params_def url_params_def params_parse_str)

lemma holds_search_sets:
  assumes "holds_params ps u" and "params_ok kvs"
  shows "holds_params (sets kvs ps) (url_search_sets kvs u)
       \<and> (\<exists>q. url_search_sets kvs u = u\<lparr>u_query := q\<rparr>)"
  using assms
proof (induction kvs arbitrary: ps u)
  case Nil
  then show ?case by (auto simp: url_search_sets_def intro: exI[of _ "u_query u"])
next
  case (Cons p kvs)
  let ?u = "url_search_set (fst p) (snd p) u"
  have h: "holds_params (params_set (fst p) (snd p) ps) ?u"
    using Cons.prems holds_url_params[OF Cons.prems(1)] params_str_Nil_iff
    by (auto simp: holds_params_def url_search_set_def url_set_params_def Let_def params_ok_def
        intro: params_ok_set[unfolded params_ok_def])
  obtain q where u: "?u = u\<lparr>u_query := q\<rparr>"
    by (simp add: url_search_set_def url_set_params_def Let_def)
  have ok: "params_ok kvs" using Cons.prems by (simp add: params_ok_def)
  have s: "sets (p # kvs) ps = sets kvs (params_set (fst p) (snd p) ps)"
    "url_search_sets (p # kvs) u = url_search_sets kvs ?u"
    by (simp_all add: sets_def url_search_sets_def)
  from Cons.IH[OF h ok] obtain q' where
    "holds_params (sets kvs (params_set (fst p) (snd p) ps)) (url_search_sets kvs ?u)"
    "url_search_sets kvs ?u = ?u\<lparr>u_query := q'\<rparr>" by blast
  then show ?case unfolding s u by auto
qed

lemma query_char_ok: "query_char c \<Longrightarrow> \<not> query_set c"
  by (auto simp: query_char_def query_set_def c0_set_def is_alnum_def is_letter_def is_digit_def)

definition link_char :: "char \<Rightarrow> bool" where
  "link_char c \<longleftrightarrow> uri_unreserved c \<or> c = CHR ''%'' \<or> is_alnum c"

definition link_char_safe :: "char \<Rightarrow> bool" where
  "link_char_safe c \<longleftrightarrow> \<not> fragment_set c \<and> \<not> userinfo_set c \<and> 32 < byte c \<and> c \<noteq> CHR ''#''"

lemma link_char_byte:
  "link_char c \<Longrightarrow> byte c \<in> {33, 37, 39, 40, 41, 42, 45, 46, 95, 126}
     \<or> 48 \<le> byte c \<and> byte c \<le> 57 \<or> 65 \<le> byte c \<and> byte c \<le> 90 \<or> 97 \<le> byte c \<and> byte c \<le> 122"
  unfolding link_char_def uri_unreserved_def is_alnum_def is_letter_def is_digit_def by auto

lemma delimiter_byte:
  "userinfo_set c \<or> fragment_set c \<or> c = CHR ''#'' \<Longrightarrow> byte c < 33 \<or> 126 < byte c
     \<or> byte c \<in> {34, 35, 47, 58, 59, 60, 61, 62, 63, 64, 91, 92, 93, 94, 96, 123, 124, 125}"
  unfolding userinfo_set_def fragment_set_def path_set_def query_set_def c0_set_def by auto

lemma link_charD: "link_char c \<Longrightarrow> link_char_safe c"
proof -
  assume "link_char c"
  note b = link_char_byte[OF this]
  have "32 < byte c" using b by auto
  moreover have False if "userinfo_set c \<or> fragment_set c \<or> c = CHR ''#''"
    using delimiter_byte[OF that] b by auto
  ultimately show ?thesis unfolding link_char_safe_def by blast
qed

lemma encode_uri_facts:
  "list_all (\<lambda>c. \<not> fragment_set c) (encode_uri_component s)"
  "list_all (\<lambda>c. \<not> userinfo_set c) (encode_uri_component s)"
  "\<not> starts_with (encode_uri_component s) ''#''"
  "filter (\<lambda>c. c \<notin> set [CHR 0x09, CHR 0x0A, CHR 0x0D]) (encode_uri_component s) = encode_uri_component s"
proof -
  have f: "link_char_safe c" if "c \<in> set (encode_uri_component s)" for c
    by (rule link_charD) (use uri_char[OF that] in \<open>simp only: link_char_def\<close>)
  show "list_all (\<lambda>c. \<not> fragment_set c) (encode_uri_component s)"
    "list_all (\<lambda>c. \<not> userinfo_set c) (encode_uri_component s)"
    using f unfolding list_all_iff link_char_safe_def by blast+
  show "\<not> starts_with (encode_uri_component s) ''#''"
  proof (cases "encode_uri_component s")
    case (Cons c t)
    then have "c \<noteq> CHR ''#''" using f[of c] by (simp add: link_char_safe_def)
    then show ?thesis by (simp add: Cons)
  qed simp
  have "c \<notin> set [CHR 0x09, CHR 0x0A, CHR 0x0D]" if "c \<in> set (encode_uri_component s)" for c
  proof -
    have "32 < byte c" using f[OF that] by (simp only: link_char_safe_def)
    moreover have "byte d \<le> 32" if "d \<in> set [CHR 0x09, CHR 0x0A, CHR 0x0D]" for d using that by auto
    ultimately show ?thesis by (meson not_le)
  qed
  then show "filter (\<lambda>c. c \<notin> set [CHR 0x09, CHR 0x0A, CHR 0x0D]) (encode_uri_component s) = encode_uri_component s"
    by (intro filter_True) blast
qed

lemma encode_uri_Nil_iff: "encode_uri_component s = [] \<longleftrightarrow> s = []"
  by (cases s) (auto simp: encode_uri_component_def percent_encode_def pct_def)

lemma set_hash_encoded:
  "url_set_hash (encode_uri_component r) u
     = u\<lparr>u_fragment := (if r = [] then None else Some (encode_uri_component r))\<rparr>"
  using percent_encode_id[OF encode_uri_facts(1)] encode_uri_facts(3,4)
  by (simp add: url_set_hash_def encode_uri_Nil_iff Let_def)

definition valid_port_no :: "int \<Rightarrow> bool" where
  "valid_port_no p \<longleftrightarrow> 1 \<le> p \<and> p \<le> 65535"

lemma port_str:
  assumes "valid_port_no p"
  shows "int_str p = nat_str (nat p)" and "port_ok (int_str p)"
    and "js_number (int_str p) = Fin (of_int p)"
proof -
  obtain n where p: "p = int n" using assms by (metis nonneg_int_cases valid_port_no_def zero_le_one order_trans)
  have n: "n < 10 ^ 21" "n \<le> 65535" using assms by (simp_all add: p valid_port_no_def)
  have e: "int_str p = nat_str n" using num_str_nat[OF n(1)] by (simp add: int_str_def p)
  then show "int_str p = nat_str (nat p)" by (simp add: p)
  show "port_ok (int_str p)" using n by (simp add: e)
  show "js_number (int_str p) = Fin (of_int p)" unfolding e js_number_nat_str by (simp add: p)
qed

lemma plain_host_format: "plain_host h \<Longrightarrow> formatUrlHost h = h"
proof -
  assume p: "plain_host h"
  have n: "CHR '':'' \<notin> set h" "CHR ''['' \<notin> set h" "CHR '']'' \<notin> set h"
    using plain_hostD(2)[OF p] by (auto simp: list_all_iff forbidden_host_def)
  have "\<not> starts_with h ''[''" using n by (cases h) auto
  moreover have "\<not> ends_with h '']''" using n by (cases "rev h") (auto simp: ends_with_def)
  ultimately show ?thesis using n by (simp add: formatUrlHost_def strip_brackets_def Let_def)
qed

definition bare_url :: "string \<Rightarrow> string \<Rightarrow> string \<Rightarrow> int \<Rightarrow> url" where
  "bare_url scheme us h p =
     \<lparr>u_scheme = scheme, u_user = us, u_pass = [], u_host = Some h, u_port = int_str p, u_path = [],
      u_query = None, u_fragment = None\<rparr>"

text \<open>The facts a link needs: a scheme, a user-info free of delimiters, a plain host, a port.\<close>

definition link_ok :: "string \<Rightarrow> string \<Rightarrow> string \<Rightarrow> int \<Rightarrow> bool" where
  "link_ok scheme us h p \<longleftrightarrow>
     scheme_ok scheme \<and> us \<noteq> [] \<and> list_all (\<lambda>c. \<not> userinfo_set c) us \<and> plain_host h \<and> valid_port_no p"

lemma parse_link_base:
  assumes "link_ok scheme us h p"
  shows "parse_url ip6 (link_base scheme us h p) = Some (bare_url scheme us h p)"
proof -
  have ok: "url_ok (bare_url scheme us h p)"
    using assms port_str(2) by (auto simp: link_ok_def url_ok_def bare_url_def)
  have ne: "int_str p \<noteq> []" using assms port_str(1) by (simp add: link_ok_def)
  have "url_href (bare_url scheme us h p) = link_base scheme us h p"
    using assms ne plain_host_format
    by (simp add: url_href_def bare_url_def link_base_def link_ok_def)
  then show ?thesis using parse_url_href[OF ok, of ip6] by simp
qed

definition final_url :: "string \<Rightarrow> string \<Rightarrow> string \<Rightarrow> int \<Rightarrow> params \<Rightarrow> string \<Rightarrow> url" where
  "final_url scheme us h p ps remark =
     (bare_url scheme us h p)\<lparr>u_query := (if ps = [] then None else Some (params_str ps)),
        u_fragment := (if remark = [] then None else Some (encode_uri_component remark))\<rparr>"

lemma link_url_ok:
  assumes "link_ok scheme us h p" and "params_ok ps" and "distinct (map fst ps)"
  shows "link_url ip6 (link_base scheme us h p) ps remark = Some (url_href (final_url scheme us h p ps remark))"
    and "parse_url ip6 (url_href (final_url scheme us h p ps remark)) = Some (final_url scheme us h p ps remark)"
    and "url_params (final_url scheme us h p ps remark) = ps"
proof -
  let ?u = "bare_url scheme us h p"
  have "holds_params [] ?u" by (simp add: holds_params_def params_ok_def bare_url_def)
  from holds_search_sets[OF this assms(2)]
  have q: "holds_params ps (url_search_sets ps ?u)"
    and "\<exists>q. url_search_sets ps ?u = ?u\<lparr>u_query := q\<rparr>"
    using sets_distinct[of "[]" ps] assms(3) by auto
  then obtain q' where u: "url_search_sets ps ?u = ?u\<lparr>u_query := q'\<rparr>" by blast
  have f: "url_set_hash (encode_uri_component remark) (url_search_sets ps ?u)
      = final_url scheme us h p ps remark"
    using q unfolding set_hash_encoded u by (simp add: holds_params_def final_url_def)
  show "link_url ip6 (link_base scheme us h p) ps remark = Some (url_href (final_url scheme us h p ps remark))"
    by (simp add: link_url_def parse_link_base[OF assms(1)] f)
  have "list_all (\<lambda>c. \<not> query_set c) (params_str ps)"
    using params_str_chars[of ps] query_char_ok by (auto simp: list_all_iff)
  then have "url_ok (final_url scheme us h p ps remark)"
    using assms(1) port_str(2) encode_uri_facts(1)
    by (auto simp: final_url_def url_ok_def bare_url_def link_ok_def)
  then show "parse_url ip6 (url_href (final_url scheme us h p ps remark)) = Some (final_url scheme us h p ps remark)"
    by (rule parse_url_href)
  show "url_params (final_url scheme us h p ps remark) = ps"
    using assms(2) by (auto simp: final_url_def url_params_def bare_url_def params_parse_str)
qed

lemma decode_uri_Nil [simp]: "decode_uri_component [] = Some []"
  by (subst decode_uri_component.simps) simp

lemma final_url_remark:
  "utf8_valid remark \<Longrightarrow> decodeRemark (final_url scheme us h p ps remark) = remark"
  by (cases "remark = []")
     (simp_all add: decodeRemark_def final_url_def bare_url_def url_hash_def decode_or_def
      decode_encode_uri encode_uri_Nil_iff)

lemma final_url_sel [simp]:
  "u_scheme (final_url scheme us h p ps r) = scheme" "u_user (final_url scheme us h p ps r) = us"
  "url_hostname (final_url scheme us h p ps r) = h" "u_port (final_url scheme us h p ps r) = int_str p"
  by (simp_all add: final_url_def bare_url_def url_hostname_def)

lemma final_url_port: "valid_port_no p \<Longrightarrow> url_port (final_url scheme us h p ps r) = JInt p"
  by (auto simp: url_port_def port_str(3) nor_def valid_port_no_def)

lemma link_not_special: "scheme_ok scheme \<Longrightarrow> scheme \<notin> set special_schemes"
  by (simp add: scheme_ok_def)

section \<open>The parameters a generator writes\<close>

lemma keys_params_del: "map fst (params_del k ps) = filter (\<lambda>x. x \<noteq> k) (map fst ps)"
  by (induction ps) (auto simp: params_del_def)

lemma keys_params_set: "set (map fst (params_set k v ps)) = insert k (set (map fst ps))"
  by (induction k v ps rule: params_set.induct) (auto simp: params_del_def)

lemma distinct_params_set: "distinct (map fst ps) \<Longrightarrow> distinct (map fst (params_set k v ps))"
proof (induction k v ps rule: params_set.induct)
  case (2 k v p ps)
  have "fst p \<notin> set (map fst (params_set k v ps))" if "fst p \<noteq> k"
    using 2(2) that keys_params_set[of k v ps] by auto
  then show ?case using 2 by (auto simp: keys_params_del)
qed simp

lemma distinct_params_put: "distinct (map fst ps) \<Longrightarrow> distinct (map fst (params_put k v ps))"
  by (simp add: params_put_def distinct_params_set)

lemmas distinct_writes = distinct_params_set distinct_params_put

lemma distinct_xhttp: "distinct (map fst ps) \<Longrightarrow> distinct (map fst (applyXhttpExtraToParams x ps))"
  unfolding applyXhttpExtraToParams_def Let_def
  by (auto split: option.split intro!: distinct_writes)

lemma distinct_network: "distinct (map fst ps) \<Longrightarrow> distinct (map fst (writeNetworkParams n ps))"
  unfolding writeNetworkParams_def Let_def
  by (auto split: network_settings.split tcp_header.split option.split intro!: distinct_writes distinct_xhttp)

lemma distinct_finalmask: "distinct (map fst ps) \<Longrightarrow> distinct (map fst (applyFinalMaskToParams fm ps))"
  by (simp add: applyFinalMaskToParams_def distinct_params_put)

lemma distinct_vless_tls: "distinct (map fst ps) \<Longrightarrow> distinct (map fst (vless_tls_params t ps))"
  unfolding vless_tls_params_def Let_def by (auto intro!: distinct_writes)

lemma distinct_tls: "distinct (map fst ps) \<Longrightarrow> distinct (map fst (writeTlsParams s ps))"
  unfolding writeTlsParams_def Let_def by (auto split: security_settings.split intro!: distinct_writes)

lemma distinct_reality: "distinct (map fst ps) \<Longrightarrow> distinct (map fst (writeRealityParams s ps))"
  unfolding writeRealityParams_def Let_def
  by (auto split: security_settings.split list.split intro!: distinct_writes)

lemma distinct_ep: "distinct (map fst ps) \<Longrightarrow> distinct (map fst (applyExternalProxyTLSParams e ps s))"
proof -
  have "distinct (map fst (fold (\<lambda>(k, v). params_set k v) kvs ps))" if "distinct (map fst ps)" for kvs
    using that by (induction kvs arbitrary: ps) (auto intro!: distinct_params_set)
  then show "distinct (map fst ps) \<Longrightarrow> distinct (map fst (applyExternalProxyTLSParams e ps s))"
    by (simp add: applyExternalProxyTLSParams_def split: option.split)
qed

lemmas distinct_params = distinct_writes distinct_network distinct_finalmask distinct_vless_tls distinct_tls
  distinct_reality distinct_ep

lemma distinct_vless: "distinct (map fst (vless_params i st stream))"
  unfolding vless_params_def Let_def
  by (auto split: security_settings.split intro!: distinct_params)

lemma distinct_trojan: "distinct (map fst (trojan_params i stream))"
  unfolding trojan_params_def Let_def by (auto intro!: distinct_params)

text \<open>What every VLESS link is read as, in terms of the parameters written.\<close>

definition vless_outbound :: "params \<Rightarrow> string \<Rightarrow> string \<Rightarrow> int \<Rightarrow> string \<Rightarrow> js" where
  "vless_outbound ps uid h p remark =
     JObj [(''protocol'', JStr ''vless''), (''tag'', JStr remark),
        (''settings'', JObj [(''address'', JStr h), (''port'', JInt p), (''id'', JStr uid),
           (''flow'', JStr (or_param ps ''flow'' [])), (''encryption'', JStr (or_param ps ''encryption'' ''none''))]),
        (''streamSettings'', JObj (link_stream ps (or_param ps ''type'' ''tcp'') (or_param ps ''security'' ''none'')))]"

definition trojan_outbound :: "params \<Rightarrow> string \<Rightarrow> string \<Rightarrow> int \<Rightarrow> string \<Rightarrow> js" where
  "trojan_outbound ps pw h p remark =
     JObj [(''protocol'', JStr ''trojan''), (''tag'', JStr remark),
        (''settings'', JObj [(''servers'', JArr [JObj [(''address'', JStr h), (''port'', JInt p),
           (''password'', JStr pw)]])]),
        (''streamSettings'', JObj (link_stream ps (or_param ps ''type'' ''tcp'') (or_param ps ''security'' ''tls'')))]"

lemma parse_final:
  assumes "link_ok scheme us h p" and "params_ok ps" and "distinct (map fst ps)"
  shows "Option.bind (link_url ip6 (link_base scheme us h p) ps remark) (\<lambda>l. parseUrlLink ip6 l scheme)
           = Some (final_url scheme us h p ps remark)"
  using link_url_ok[OF assms] by (simp add: parseUrlLink_def)

lemma vless_link_read:
  assumes "link_ok ''vless'' us h p" and "params_ok ps" and "distinct (map fst ps)" and "utf8_valid remark"
  shows "Option.bind (link_url ip6 (link_base ''vless'' us h p) ps remark) (parseVlessLink ip6)
           = Some (vless_outbound ps us h p remark)"
proof -
  have p: "valid_port_no p" using assms(1) by (simp add: link_ok_def)
  note l = link_url_ok[OF assms(1-3)]
  have "parseUrlLink ip6 (url_href (final_url ''vless'' us h p ps remark)) ''vless''
      = Some (final_url ''vless'' us h p ps remark)"
    by (simp add: parseUrlLink_def l(2))
  then show ?thesis
    by (simp add: l(1,3) parseVlessLink_def vless_outbound_def final_url_remark[OF assms(4)] final_url_port[OF p])
qed

lemma trojan_link_read:
  assumes "link_ok ''trojan'' us h p" and "params_ok ps" and "distinct (map fst ps)" and "utf8_valid remark"
  shows "Option.bind (link_url ip6 (link_base ''trojan'' us h p) ps remark) (parseTrojanLink ip6)
           = Some (trojan_outbound ps us h p remark)"
proof -
  have p: "valid_port_no p" using assms(1) by (simp add: link_ok_def)
  note l = link_url_ok[OF assms(1-3)]
  have "parseUrlLink ip6 (url_href (final_url ''trojan'' us h p ps remark)) ''trojan''
      = Some (final_url ''trojan'' us h p ps remark)"
    by (simp add: parseUrlLink_def l(2))
  then show ?thesis
    by (simp add: l(1,3) parseTrojanLink_def trojan_outbound_def final_url_remark[OF assms(4)] final_url_port[OF p])
qed

section \<open>The stream block read back\<close>

lemma get_set [simp]: "params_get (params_set k v ps) k' = (if k' = k then Some v else params_get ps k')"
  by (simp add: params_get_def map_of_params_set)

lemma get_put [simp]: "params_get (params_put k v ps) k' = (if k' = k \<and> v \<noteq> [] then Some v else params_get ps k')"
  by (simp add: params_put_def)

lemma get_Cons [simp]: "params_get ((k, v) # ps) k' = (if k' = k then Some v else params_get ps k')"
  by (simp add: params_get_def)

lemma get_Nil [simp]: "params_get [] k = None"
  by (simp add: params_get_def)

text \<open>The transports whose link parameters carry the whole client side of the block.\<close>

definition net_ok :: "network_settings \<Rightarrow> bool" where
  "net_ok n = (case n of NetTcp _ \<Rightarrow> True | NetWs _ \<Rightarrow> True | NetGrpc _ \<Rightarrow> True | NetHttpupgrade _ \<Rightarrow> True | _ \<Rightarrow> False)"

definition or_host :: "string \<Rightarrow> v2map \<Rightarrow> string" where
  "or_host h hs = (if h \<noteq> [] then h else getHeaderValue (Some hs) ''host'')"

definition client_network :: "network_settings \<Rightarrow> string \<times> js" where
  "client_network n =
     (case n of
        NetTcp tcp \<Rightarrow>
          (case tcp_header tcp of
             Some (HeaderHttp (Some rq) rs) \<Rightarrow>
               (''tcpSettings'', JObj [(''header'', http_header (join '','' (tq_path rq)) (http_host rq rs))])
           | _ \<Rightarrow> (''tcpSettings'', plain_tcp))
      | NetWs ws \<Rightarrow>
          (''wsSettings'', JObj [(''path'', JStr (ws_path ws)), (''host'', JStr (or_host (ws_host ws) (ws_headers ws))),
             (''headers'', JObj []), (''heartbeatPeriod'', JInt 0)])
      | NetGrpc g \<Rightarrow>
          (''grpcSettings'', JObj [(''serviceName'', JStr (grpc_serviceName g)), (''authority'', JStr (grpc_authority g)),
             (''multiMode'', JBool (grpc_multiMode g))])
      | NetHttpupgrade hu \<Rightarrow>
          (''httpupgradeSettings'', JObj [(''path'', JStr (hu_path hu)), (''host'', JStr (or_host (hu_host hu) (hu_headers hu))),
             (''headers'', JObj [])])
      | _ \<Rightarrow> (''tcpSettings'', plain_tcp))"

definition TRANSPORT_KEYS :: "string list" where
  "TRANSPORT_KEYS = [''host'', ''path'', ''serviceName'', ''authority'', ''mode'', ''headerType'']"

lemma sub_upd_skeleton:
  "\<not> is_index k \<Longrightarrow> k \<noteq> ''network'' \<Longrightarrow> k \<noteq> ''security'' \<Longrightarrow>
   sub_upd k f ((''network'', a) # (''security'', b) # (k, JObj x) # r)
     = (''network'', a) # (''security'', b) # (k, JObj (f x)) # r"
  by (simp add: sub_upd_def key_before_def)

lemma transport_read:
  assumes n: "net_ok n" and t: "network_name n = Some net" and ty: "params_get ps ''type'' = Some net"
    and g: "\<And>k. k \<in> set TRANSPORT_KEYS \<Longrightarrow> params_get ps k = params_get (writeNetworkParams n []) k"
  shows "applyTransportParams ps (buildStream (JStr net) sec)
    = [(''network'', JStr net), (''security'', JStr sec), client_network n] @ security_defaults sec"
proof (cases n)
  case (NetWs ws)
  have "net = ''ws''" using t NetWs by simp
  moreover have "or_param ps ''host'' [] = or_host (ws_host ws) (ws_headers ws)" "or_param ps ''path'' ''/'' = ws_path ws"
    using g[of "''host''"] g[of "''path''"] NetWs
    by (simp_all add: TRANSPORT_KEYS_def or_param_def writeNetworkParams_def or_host_def)
  ultimately show ?thesis
    by (simp add: applyTransportParams_def buildStream_def network_defaults_def NetWs client_network_def
        sub_upd_skeleton key_before_def is_digit_def)
next
  case (NetGrpc gr)
  have "net = ''grpc''" using t NetGrpc by simp
  moreover have "params_get ps ''serviceName'' = Some (grpc_serviceName gr)"
    "or_param ps ''authority'' [] = grpc_authority gr" "params_get ps ''mode'' = Some ''multi'' \<longleftrightarrow> grpc_multiMode gr"
    using g[of "''serviceName''"] g[of "''authority''"] g[of "''mode''"] NetGrpc
    by (simp_all add: TRANSPORT_KEYS_def or_param_def writeNetworkParams_def Let_def)
  ultimately show ?thesis
    by (simp add: applyTransportParams_def buildStream_def network_defaults_def NetGrpc client_network_def Let_def
        sub_upd_skeleton key_before_def is_digit_def)
next
  case (NetHttpupgrade hu)
  have "net = ''httpupgrade''" using t NetHttpupgrade by simp
  moreover have "or_param ps ''host'' [] = or_host (hu_host hu) (hu_headers hu)" "or_param ps ''path'' ''/'' = hu_path hu"
    using g[of "''host''"] g[of "''path''"] NetHttpupgrade
    by (simp_all add: TRANSPORT_KEYS_def or_param_def writeNetworkParams_def or_host_def)
  ultimately show ?thesis
    by (simp add: applyTransportParams_def buildStream_def network_defaults_def NetHttpupgrade client_network_def
        sub_upd_skeleton key_before_def is_digit_def)
next
  case (NetTcp tcp)
  have net: "net = ''tcp''" using t NetTcp by simp
  show ?thesis
  proof (cases "\<exists>rq rs. tcp_header tcp = Some (HeaderHttp (Some rq) rs)")
    case True
    then obtain rq rs where h: "tcp_header tcp = Some (HeaderHttp (Some rq) rs)" by blast
    have "or_param ps ''host'' [] = http_host rq rs" "or_param ps ''path'' ''/'' = join '','' (tq_path rq)"
      "params_get ps ''headerType'' = Some ''http''"
      using g[of "''host''"] g[of "''path''"] g[of "''headerType''"] NetTcp h
      by (simp_all add: TRANSPORT_KEYS_def or_param_def writeNetworkParams_def Let_def)
    then show ?thesis
      by (simp add: applyTransportParams_def buildStream_def network_defaults_def NetTcp client_network_def h net plain_tcp_def
          sub_upd_skeleton key_before_def is_digit_def)
  next
    case False
    then have "writeNetworkParams n [] = []"
      by (auto simp: NetTcp writeNetworkParams_def split: option.splits tcp_header.splits)
    then have "params_get ps ''headerType'' = None"
      using g[of "''headerType''"] by (simp add: TRANSPORT_KEYS_def)
    then have "applyTransportParams ps (buildStream (JStr net) sec) = buildStream (JStr net) sec"
      using ty by (simp add: applyTransportParams_def buildStream_def net Let_def)
    also have "\<dots> = [(''network'', JStr net), (''security'', JStr sec), client_network n] @ security_defaults sec"
      using False by (auto simp: buildStream_def network_defaults_def net client_network_def NetTcp
          split: option.splits tcp_header.splits)
    finally show ?thesis .
  qed
qed (use n in \<open>simp_all add: net_ok_def\<close>)

text \<open>The client side of the security block.\<close>

definition client_security :: "security_settings \<Rightarrow> jobj" where
  "client_security s =
     (case s of
        SecTls t \<Rightarrow>
          [(''tlsSettings'', JObj [(''serverName'', JStr (tls_serverName t)), (''alpn'', JArr (map JStr (tls_alpn t))),
             (''fingerprint'', JStr (tc_fingerprint (tls_client t))),
             (''echConfigList'', JStr (tc_echConfigList (tls_client t))), (''verifyPeerCertByName'', JStr []),
             (''pinnedPeerCertSha256'', JStr (join '','' (tc_pinnedPeerCertSha256 (tls_client t))))])]
      | SecReality r \<Rightarrow>
          [(''realitySettings'', JObj [(''publicKey'', JStr (rc_publicKey (re_client r))),
             (''fingerprint'', JStr (rc_fingerprint (re_client r))), (''serverName'', JStr (reality_sni r)),
             (''shortId'', JStr (first_or_empty (re_shortIds r))), (''spiderX'', JStr (rc_spiderX (re_client r))),
             (''mldsa65Verify'', JStr (rc_mldsa65Verify (re_client r)))])]
      | _ \<Rightarrow> [])"

definition sec_text :: "security_settings \<Rightarrow> string" where
  "sec_text s = (case security_name s of None \<Rightarrow> ''none'' | Some n \<Rightarrow> n)"

text \<open>An ALPN list the comma-separated parameter can carry.\<close>

definition sec_ok :: "security_settings \<Rightarrow> bool" where
  "sec_ok s = (case s of SecTls t \<Rightarrow> tls_alpn t \<noteq> [[]] \<and> list_all (\<lambda>a. CHR '','' \<notin> set a) (tls_alpn t) | _ \<Rightarrow> True)"

definition SECURITY_KEYS :: "string list" where
  "SECURITY_KEYS = [''sni'', ''fp'', ''alpn'', ''ech'', ''pcs'', ''pbk'', ''sid'', ''spx'', ''pqv'']"

definition sec_params :: "security_settings \<Rightarrow> params" where
  "sec_params s = (case s of SecTls t \<Rightarrow> vless_tls_params t [] | _ \<Rightarrow> writeRealityParams s [])"

lemma join_Nil_iff: "join [d] ws = [] \<longleftrightarrow> ws = [] \<or> ws = [[]]"
  by (cases "([d], ws)" rule: join.cases) auto

lemma alpn_present:
  assumes "sec_ok (SecTls t)" and "tls_alpn t \<noteq> []"
  shows "split_list (join '','' (tls_alpn t)) = JArr (map JStr (tls_alpn t))" and "join '','' (tls_alpn t) \<noteq> []"
  using assms split_join[of "tls_alpn t" "CHR '',''"] join_Nil_iff[of "CHR '',''" "tls_alpn t"]
  by (auto simp: sec_ok_def split_list_def list_all_iff)

lemma sub_upd_last:
  "kk \<noteq> k1 \<Longrightarrow> kk \<noteq> k2 \<Longrightarrow> kk \<noteq> k \<Longrightarrow> \<not> is_index kk \<Longrightarrow>
   sub_upd kk f [(k1, a), (k2, c), (k, b), (kk, JObj x)] = [(k1, a), (k2, c), (k, b), (kk, JObj (f x))]"
  by (simp add: sub_upd_def key_before_def)

lemma security_read:
  assumes ok: "sec_ok s" and k: "\<not> is_index k" "k \<noteq> ''network''" "k \<noteq> ''security''" "k \<noteq> ''tlsSettings''" "k \<noteq> ''realitySettings''"
    and g: "\<And>k. k \<in> set SECURITY_KEYS \<Longrightarrow> params_get ps k = params_get (sec_params s) k"
  shows "applySecurityParams ps ((''network'', a) # (''security'', JStr (sec_text s)) # (k, b) # security_defaults (sec_text s))
    = [(''network'', a), (''security'', JStr (sec_text s)), (k, b)] @ client_security s"
proof -
  have nt: "''tlsSettings'' \<noteq> ''network''" "''tlsSettings'' \<noteq> ''security''" "\<not> is_index ''tlsSettings''"
    and nr: "''realitySettings'' \<noteq> ''network''" "''realitySettings'' \<noteq> ''security''" "\<not> is_index ''realitySettings''"
    by (simp_all add: is_digit_def)
  note skel = sub_upd_last[OF nt(1,2) k(4)[symmetric] nt(3)] sub_upd_last[OF nr(1,2) k(5)[symmetric] nr(3)]
  show ?thesis
  proof (cases s)
    case (SecTls t)
    have f: "or_param ps ''sni'' [] = tls_serverName t" "or_param ps ''fp'' [] = tc_fingerprint (tls_client t)"
      "or_param ps ''ech'' [] = tc_echConfigList (tls_client t)"
      "or_param ps ''pcs'' [] = join '','' (tc_pinnedPeerCertSha256 (tls_client t))"
      "params_get ps ''alpn'' = Some (join '','' (tls_alpn t))"
      using g[of "''sni''"] g[of "''fp''"] g[of "''ech''"] g[of "''pcs''"] g[of "''alpn''"]
      by (simp_all add: SECURITY_KEYS_def SecTls sec_params_def or_param_def vless_tls_params_def Let_def)
    show ?thesis
    proof (cases "tls_alpn t = []")
      case True
      then have "present ps ''alpn'' = None" using f(5) by (simp add: present_def)
      then show ?thesis
        using True by (simp add: SecTls sec_text_def security_defaults_def applySecurityParams_def Let_def skel
            client_security_def f key_before_def is_digit_def)
    next
      case False
      have a: "present ps ''alpn'' = Some (join '','' (tls_alpn t))"
        using f(5) alpn_present(2)[OF _ False] ok SecTls by (simp add: present_def)
      have "split_list (join '','' (tls_alpn t)) = JArr (map JStr (tls_alpn t))"
        using alpn_present(1)[OF _ False] ok SecTls by simp
      then show ?thesis
        by (simp add: SecTls sec_text_def security_defaults_def applySecurityParams_def Let_def skel
            client_security_def f a key_before_def is_digit_def)
    qed
  next
    case (SecReality r)
    have "or_param ps ''sni'' [] = reality_sni r" "or_param ps ''fp'' ''chrome'' = rc_fingerprint (re_client r)"
      "or_param ps ''pbk'' [] = rc_publicKey (re_client r)" "or_param ps ''sid'' [] = first_or_empty (re_shortIds r)"
      "or_param ps ''spx'' [] = rc_spiderX (re_client r)" "or_param ps ''pqv'' [] = rc_mldsa65Verify (re_client r)"
      using g[of "''sni''"] g[of "''fp''"] g[of "''pbk''"] g[of "''sid''"] g[of "''spx''"] g[of "''pqv''"]
      by (simp_all add: SECURITY_KEYS_def SecReality sec_params_def or_param_def writeRealityParams_def Let_def
          first_or_empty_def split: list.split)
    then show ?thesis
      by (simp add: SecReality sec_text_def security_defaults_def applySecurityParams_def Let_def skel
          client_security_def key_before_def is_digit_def)
  qed (simp_all add: sec_text_def security_defaults_def applySecurityParams_def client_security_def)
qed

text \<open>A writer is an overlay: what it sets does not depend on what is there already.\<close>

definition overlay :: "(params \<Rightarrow> params) \<Rightarrow> bool" where
  "overlay w \<longleftrightarrow> (\<forall>ps k. params_get (w ps) k = (case params_get (w []) k of None \<Rightarrow> params_get ps k | Some v \<Rightarrow> Some v))"

lemma overlay_get: "overlay w \<Longrightarrow> params_get (w ps) k = (case params_get (w []) k of None \<Rightarrow> params_get ps k | Some v \<Rightarrow> Some v)"
  unfolding overlay_def by blast

lemma overlayI:
  "(\<And>ps k. params_get (w ps) k = (case params_get (w []) k of None \<Rightarrow> params_get ps k | Some v \<Rightarrow> Some v)) \<Longrightarrow> overlay w"
  unfolding overlay_def by blast

lemma overlay_id: "overlay (\<lambda>ps. ps)"
  by (rule overlayI) simp

lemma overlay_set: "overlay w \<Longrightarrow> overlay (\<lambda>ps. params_set a x (w ps))"
proof (rule overlayI)
  fix ps k
  assume "overlay w"
  from overlay_get[OF this, of ps k] show "params_get (params_set a x (w ps)) k =
      (case params_get (params_set a x (w [])) k of None \<Rightarrow> params_get ps k | Some v \<Rightarrow> Some v)"
    by simp
qed

lemma overlay_put: "overlay w \<Longrightarrow> overlay (\<lambda>ps. params_put a x (w ps))"
  by (cases "x = []") (simp_all add: params_put_def overlay_set)

lemma overlay_if: "overlay v \<Longrightarrow> overlay w \<Longrightarrow> overlay (\<lambda>ps. if b then v ps else w ps)"
  by (cases b) simp_all

lemma overlay_first: "overlay w \<Longrightarrow> overlay (\<lambda>ps. case xs of [] \<Rightarrow> w ps | x # _ \<Rightarrow> params_set k x (w ps))"
  by (cases xs) (simp_all add: overlay_set)

lemmas overlays = overlay_id overlay_set overlay_put overlay_if overlay_first

lemma overlay_vless_tls: "overlay (vless_tls_params t)"
  unfolding vless_tls_params_def[abs_def] Let_def by (intro overlays)

lemma overlay_reality: "overlay (writeRealityParams s)"
  unfolding writeRealityParams_def[abs_def] Let_def
  by (cases s; simp only: security_settings.case; intro overlays)

lemma overlay_tls: "overlay (writeTlsParams s)"
  unfolding writeTlsParams_def[abs_def] Let_def
  by (cases s; simp only: security_settings.case; intro overlays)

lemma overlay_http: 
  "overlay (\<lambda>ps. case h of Some (HeaderHttp (Some rq) rs) \<Rightarrow>
     params_set ''headerType'' ''http'' (params_put ''host'' (http_host rq rs) (params_set ''path'' (join '','' (tq_path rq)) ps))
   | _ \<Rightarrow> ps)"
proof (cases "\<exists>rq rs. h = Some (HeaderHttp (Some rq) rs)")
  case True
  then obtain rq rs where h: "h = Some (HeaderHttp (Some rq) rs)" by blast
  show ?thesis unfolding h option.case tcp_header.case by (intro overlays)
next
  case False
  then have "(\<lambda>ps. case h of Some (HeaderHttp (Some rq) rs) \<Rightarrow>
     params_set ''headerType'' ''http'' (params_put ''host'' (http_host rq rs) (params_set ''path'' (join '','' (tq_path rq)) ps))
   | _ \<Rightarrow> ps) = (\<lambda>ps. ps)"
    by (auto simp: fun_eq_iff split: option.splits tcp_header.splits)
  then show ?thesis by (simp only: overlay_id)
qed

lemma overlay_network: "net_ok n \<Longrightarrow> overlay (writeNetworkParams n)"
  unfolding writeNetworkParams_def[abs_def] Let_def net_ok_def
  by (cases n; simp only: network_settings.case; (rule overlay_http | intro overlays)?)

definition keys_in :: "string set \<Rightarrow> params \<Rightarrow> bool" where
  "keys_in K ps \<longleftrightarrow> (\<forall>k. k \<notin> K \<longrightarrow> params_get ps k = None)"

lemma keys_in_Nil: "keys_in K []"
  by (simp add: keys_in_def)

lemma keys_in_set: "a \<in> K \<Longrightarrow> keys_in K ps \<Longrightarrow> keys_in K (params_set a v ps)"
  by (auto simp: keys_in_def)

lemma keys_in_put: "a \<in> K \<Longrightarrow> keys_in K ps \<Longrightarrow> keys_in K (params_put a v ps)"
  by (auto simp: keys_in_def)

lemma keys_in_if: "keys_in K ps \<Longrightarrow> keys_in K qs \<Longrightarrow> keys_in K (if b then ps else qs)"
  by simp

lemma keys_in_first: "a \<in> K \<Longrightarrow> keys_in K ps \<Longrightarrow> keys_in K (case xs of [] \<Rightarrow> ps | x # _ \<Rightarrow> params_set a x ps)"
  by (cases xs) (simp_all add: keys_in_set)

lemmas keys_ins = keys_in_Nil keys_in_set keys_in_put keys_in_if keys_in_first

lemma transport_key_mem:
  "''host'' \<in> set TRANSPORT_KEYS" "''path'' \<in> set TRANSPORT_KEYS" "''serviceName'' \<in> set TRANSPORT_KEYS"
  "''authority'' \<in> set TRANSPORT_KEYS" "''mode'' \<in> set TRANSPORT_KEYS" "''headerType'' \<in> set TRANSPORT_KEYS"
  by (simp_all add: TRANSPORT_KEYS_def)

lemma security_key_mem:
  "''sni'' \<in> set SECURITY_KEYS" "''fp'' \<in> set SECURITY_KEYS" "''alpn'' \<in> set SECURITY_KEYS"
  "''ech'' \<in> set SECURITY_KEYS" "''pcs'' \<in> set SECURITY_KEYS" "''pbk'' \<in> set SECURITY_KEYS"
  "''sid'' \<in> set SECURITY_KEYS" "''spx'' \<in> set SECURITY_KEYS" "''pqv'' \<in> set SECURITY_KEYS"
  by (simp_all add: SECURITY_KEYS_def)

lemma network_keys: "net_ok n \<Longrightarrow> keys_in (set TRANSPORT_KEYS) (writeNetworkParams n [])"
proof (cases n)
  case (NetTcp tcp)
  show ?thesis
  proof (cases "\<exists>rq rs. tcp_header tcp = Some (HeaderHttp (Some rq) rs)")
    case True
    then obtain rq rs where h: "tcp_header tcp = Some (HeaderHttp (Some rq) rs)" by blast
    show ?thesis
      unfolding writeNetworkParams_def Let_def NetTcp network_settings.case h option.case tcp_header.case
      by (intro keys_ins transport_key_mem)
  next
    case False
    then have "writeNetworkParams n [] = []"
      by (auto simp: NetTcp writeNetworkParams_def split: option.splits tcp_header.splits)
    then show ?thesis by (simp only: keys_in_Nil)
  qed
qed (simp_all only: net_ok_def network_settings.case writeNetworkParams_def Let_def,
     (intro keys_ins transport_key_mem)+)

lemma security_keys: "keys_in (set SECURITY_KEYS) (sec_params s)"
  unfolding sec_params_def vless_tls_params_def writeRealityParams_def Let_def
  by (cases s; simp only: security_settings.case; intro keys_ins security_key_mem)

lemma other_keys:
  "''type'' \<notin> set TRANSPORT_KEYS" "''encryption'' \<notin> set TRANSPORT_KEYS" "''security'' \<notin> set TRANSPORT_KEYS"
  "''fm'' \<notin> set TRANSPORT_KEYS" "''flow'' \<notin> set TRANSPORT_KEYS"
  "''type'' \<notin> set SECURITY_KEYS" "''encryption'' \<notin> set SECURITY_KEYS" "''security'' \<notin> set SECURITY_KEYS"
  "''fm'' \<notin> set SECURITY_KEYS" "''flow'' \<notin> set SECURITY_KEYS"
  "set SECURITY_KEYS \<inter> set TRANSPORT_KEYS = {}"
  by (simp_all add: TRANSPORT_KEYS_def SECURITY_KEYS_def)

text \<open>The mask block the parser attaches, from the text of the \<open>fm\<close> parameter.\<close>

definition with_finalmask :: "js \<Rightarrow> jobj \<Rightarrow> jobj" where
  "with_finalmask fm stream =
     (if is_obj fm \<and> hasShareableFinalMaskValue fm then oput ''finalmask'' fm stream else stream)"

definition mask_ok :: "js \<Rightarrow> bool" where
  "mask_ok fm \<longleftrightarrow> fm = JUndef \<or> is_obj fm \<and> json_clean fm"

lemma finalmask_read:
  assumes "mask_ok fm" and g: "params_get ps ''fm'' = params_get (applyFinalMaskToParams fm []) ''fm''"
  shows "applyFinalMaskParam ps stream = with_finalmask fm stream"
proof (cases "is_obj fm \<and> hasShareableFinalMaskValue fm")
  case True
  then obtain o1 where fm: "fm = JObj o1" by (cases fm) auto
  have s: "serializeFinalMask fm = json_stringify fm" "json_parse (json_stringify fm) = Some fm"
    using True assms(1) fm json_parse_stringify by (auto simp: serializeFinalMask_def mask_ok_def)
  then have ne: "json_stringify fm \<noteq> []" by (auto simp: json_parse_def)
  have "present ps ''fm'' = Some (json_stringify fm)"
    using g ne by (simp add: present_def applyFinalMaskToParams_def s)
  then show ?thesis using True by (simp add: applyFinalMaskParam_def s with_finalmask_def)
next
  case False
  then have "serializeFinalMask fm = []"
    using assms(1) by (auto simp: serializeFinalMask_def mask_ok_def)
  then have "present ps ''fm'' = None" using g by (simp add: present_def applyFinalMaskToParams_def)
  then show ?thesis using False by (auto simp: applyFinalMaskParam_def with_finalmask_def)
qed

definition client_stream :: "string \<Rightarrow> stream_settings \<Rightarrow> jobj" where
  "client_stream net st =
     with_finalmask (st_finalmask st)
       ([(''network'', JStr net), (''security'', JStr (sec_text (st_security st))), client_network (st_network st)]
        @ client_security (st_security st))"

definition stream_ok :: "stream_settings \<Rightarrow> bool" where
  "stream_ok st \<longleftrightarrow> net_ok (st_network st) \<and> sec_ok (st_security st) \<and> mask_ok (st_finalmask st)"

lemma client_network_key:
  "net_ok n \<Longrightarrow> \<exists>k b. client_network n = (k, b) \<and> \<not> is_index k \<and> k \<noteq> ''network'' \<and> k \<noteq> ''security''
     \<and> k \<noteq> ''tlsSettings'' \<and> k \<noteq> ''realitySettings''"
  by (cases n) (simp_all add: net_ok_def client_network_def is_digit_def split: option.split tcp_header.split)

text \<open>
  The parameters of a link, as the layers a generator writes one over the other: a few plain ones,
  the transport, the mask and the security block.
\<close>

definition layered :: "stream_settings \<Rightarrow> params \<Rightarrow> bool" where
  "layered st ps \<longleftrightarrow>
     (\<forall>k \<in> set TRANSPORT_KEYS. params_get ps k = params_get (writeNetworkParams (st_network st) []) k)
     \<and> (\<forall>k \<in> set SECURITY_KEYS. params_get ps k = params_get (sec_params (st_security st)) k)
     \<and> params_get ps ''fm'' = params_get (applyFinalMaskToParams (st_finalmask st) []) ''fm''
     \<and> params_get ps ''type'' = network_name (st_network st)
     \<and> params_get ps ''security'' = Some (sec_text (st_security st))"

lemma link_stream_read:
  assumes ok: "stream_ok st" and l: "layered st ps" and t: "network_name (st_network st) = Some net"
  shows "link_stream ps net (sec_text (st_security st)) = client_stream net st"
proof -
  obtain k b where kb: "client_network (st_network st) = (k, b)" "\<not> is_index k" "k \<noteq> ''network''" "k \<noteq> ''security''"
    "k \<noteq> ''tlsSettings''" "k \<noteq> ''realitySettings''"
    using client_network_key ok by (metis stream_ok_def)
  have "applyTransportParams ps (buildStream (JStr net) (sec_text (st_security st)))
      = (''network'', JStr net) # (''security'', JStr (sec_text (st_security st))) # (k, b)
          # security_defaults (sec_text (st_security st))"
    using transport_read[of "st_network st" net ps] ok l t by (simp add: stream_ok_def layered_def kb(1))
  moreover have "applySecurityParams ps \<dots> = [(''network'', JStr net), (''security'', JStr (sec_text (st_security st))), (k, b)]
      @ client_security (st_security st)"
    by (rule security_read[OF _ kb(2-6)]) (use ok l in \<open>simp_all only: stream_ok_def layered_def\<close>)
  moreover have "applyFinalMaskParam ps stream = with_finalmask (st_finalmask st) stream" for stream
    by (rule finalmask_read) (use ok l in \<open>simp_all only: stream_ok_def layered_def\<close>)
  ultimately show ?thesis by (simp only: link_stream_def client_stream_def kb(1))
qed

definition base_ok :: "stream_settings \<Rightarrow> params \<Rightarrow> bool" where
  "base_ok st base \<longleftrightarrow>
     (\<forall>k. k \<in> set TRANSPORT_KEYS \<or> k \<in> set SECURITY_KEYS \<or> k = ''fm'' \<or> k = ''security'' \<longrightarrow> params_get base k = None)
     \<and> params_get base ''type'' = network_name (st_network st)"

definition stack :: "stream_settings \<Rightarrow> (params \<Rightarrow> params) \<Rightarrow> params \<Rightarrow> params" where
  "stack st sw base =
     sw (params_set ''security'' (sec_text (st_security st))
          (applyFinalMaskToParams (st_finalmask st) (writeNetworkParams (st_network st) base)))"

definition sec_writer :: "stream_settings \<Rightarrow> (params \<Rightarrow> params) \<Rightarrow> bool" where
  "sec_writer st sw \<longleftrightarrow> overlay sw \<and> (\<forall>k. params_get (sw []) k = params_get (sec_params (st_security st)) k)"

lemma stack_get:
  assumes ok: "stream_ok st" and sw: "sec_writer st sw"
  shows "params_get (stack st sw base) k =
    (case params_get (sec_params (st_security st)) k of Some v \<Rightarrow> Some v
     | None \<Rightarrow> if k = ''security'' then Some (sec_text (st_security st))
              else case params_get (applyFinalMaskToParams (st_finalmask st) []) k of Some v \<Rightarrow> Some v
              | None \<Rightarrow> (case params_get (writeNetworkParams (st_network st) []) k of Some v \<Rightarrow> Some v
                       | None \<Rightarrow> params_get base k))"
proof -
  have o: "overlay sw" and e: "params_get (sw []) k = params_get (sec_params (st_security st)) k"
    using sw by (simp_all add: sec_writer_def)
  have n: "overlay (writeNetworkParams (st_network st))" using ok by (simp add: stream_ok_def overlay_network)
  have m: "overlay (applyFinalMaskToParams (st_finalmask st))"
    unfolding applyFinalMaskToParams_def[abs_def] by (intro overlays)
  show ?thesis
    unfolding stack_def overlay_get[OF o, of "params_set a v ps" for a v ps] e get_set
      overlay_get[OF m, of "writeNetworkParams a v" for a v] overlay_get[OF n, of base]
    by (auto split: option.split)
qed

lemma keys_in_None: "keys_in K ps \<Longrightarrow> k \<notin> K \<Longrightarrow> params_get ps k = None"
  by (simp add: keys_in_def)

lemma finalmask_keys: "keys_in {''fm''} (applyFinalMaskToParams fm [])"
  unfolding applyFinalMaskToParams_def by (intro keys_ins singletonI)

lemma stack_layered:
  assumes ok: "stream_ok st" and sw: "sec_writer st sw" and b: "base_ok st base"
  shows "layered st (stack st sw base)"
    and "\<And>k. k \<notin> set TRANSPORT_KEYS \<Longrightarrow> k \<notin> set SECURITY_KEYS \<Longrightarrow> k \<noteq> ''fm'' \<Longrightarrow> k \<noteq> ''security'' \<Longrightarrow>
           params_get (stack st sw base) k = params_get base k"
proof -
  note get = stack_get[OF ok sw]
  note fm = keys_in_None[OF finalmask_keys]
  note net = keys_in_None[OF network_keys]
  note sec = keys_in_None[OF security_keys]
  have n: "net_ok (st_network st)" using ok by (simp add: stream_ok_def)
  show o: "params_get (stack st sw base) k = params_get base k"
    if "k \<notin> set TRANSPORT_KEYS" "k \<notin> set SECURITY_KEYS" "k \<noteq> ''fm''" "k \<noteq> ''security''" for k
    using that by (simp add: get sec net[OF n] fm)
  have t: "params_get (stack st sw base) k = params_get (writeNetworkParams (st_network st) []) k"
    if k: "k \<in> set TRANSPORT_KEYS" for k
  proof -
    have "k \<notin> set SECURITY_KEYS" "k \<noteq> ''fm''" "k \<noteq> ''security''" using k other_keys by blast+
    moreover have "params_get base k = None" using b k by (simp add: base_ok_def)
    ultimately show ?thesis by (simp add: get sec fm split: option.split)
  qed
  have s: "params_get (stack st sw base) k = params_get (sec_params (st_security st)) k"
    if k: "k \<in> set SECURITY_KEYS" for k
  proof -
    have "k \<notin> set TRANSPORT_KEYS" "k \<noteq> ''fm''" "k \<noteq> ''security''" using k other_keys by blast+
    moreover have "params_get base k = None" using b k by (simp add: base_ok_def)
    ultimately show ?thesis by (simp add: get net[OF n] fm split: option.split)
  qed
  have f: "params_get (stack st sw base) ''fm'' = params_get (applyFinalMaskToParams (st_finalmask st) []) ''fm''"
  proof -
    have "params_get base ''fm'' = None" using b by (simp add: base_ok_def)
    then show ?thesis by (simp add: get sec[OF other_keys(9)] net[OF n other_keys(4)] split: option.split)
  qed
  have y: "params_get (stack st sw base) ''type'' = network_name (st_network st)"
    using o[OF other_keys(1) other_keys(6)] b by (simp add: base_ok_def)
  have c: "params_get (stack st sw base) ''security'' = Some (sec_text (st_security st))"
    by (simp add: get sec[OF other_keys(8)])
  show "layered st (stack st sw base)" unfolding layered_def using t s f y c by blast
qed

section \<open>VLESS and Trojan links\<close>

definition plain_input :: "url_input \<Rightarrow> bool" where
  "plain_input i \<longleftrightarrow> gi_externalProxy i = None \<and> (gi_forceTls i = None \<or> gi_forceTls i = Some Same)"

lemma plain_security: "plain_input i \<Longrightarrow> gi_security i stream = security_name (st_security stream)"
  by (auto simp: plain_input_def gi_security_def force_security_def)

lemma plain_ep: "plain_input i \<Longrightarrow> applyExternalProxyTLSParams (gi_externalProxy i) ps s = ps"
  by (simp add: plain_input_def applyExternalProxyTLSParams_def)

definition vless_sec :: "security_settings \<Rightarrow> params \<Rightarrow> params" where
  "vless_sec s = (case s of SecTls t \<Rightarrow> vless_tls_params t | _ \<Rightarrow> writeRealityParams s)"

definition trojan_sec :: "security_settings \<Rightarrow> params \<Rightarrow> params" where
  "trojan_sec s = (case s of SecTls t \<Rightarrow> writeTlsParams s | _ \<Rightarrow> writeRealityParams s)"

lemma vless_sec_writer: "sec_writer st (vless_sec (st_security st))"
  by (cases "st_security st") (simp_all add: sec_writer_def vless_sec_def sec_params_def overlay_vless_tls overlay_reality)

lemma trojan_sec_writer: "sec_writer st (trojan_sec (st_security st))"
proof (cases "st_security st")
  case (SecTls t)
  have "params_get (writeTlsParams (SecTls t) []) k = params_get (vless_tls_params t []) k" for k
    by (auto simp: writeTlsParams_def vless_tls_params_def Let_def)
  then show ?thesis by (simp add: SecTls sec_writer_def trojan_sec_def sec_params_def overlay_tls)
qed (simp_all add: sec_writer_def trojan_sec_def sec_params_def overlay_reality)

lemma none_reality: "writeRealityParams SecNone = (\<lambda>ps. ps)" "writeRealityParams SecAbsent = (\<lambda>ps. ps)"
  by (simp_all add: writeRealityParams_def fun_eq_iff)

definition vless_base :: "vless_settings \<Rightarrow> stream_settings \<Rightarrow> params" where
  "vless_base st stream = params_set ''encryption'' (vl_encryption st) (params_set ''type'' (type_param stream) [])"

definition link_flow :: "url_input \<Rightarrow> vless_settings \<Rightarrow> stream_settings \<Rightarrow> string" where
  "link_flow i st stream = (if canEnableTlsFlow (vless_slice st stream) then or_empty (gi_flow i) else [])"

lemma vless_params_stack:
  assumes "plain_input i"
  shows "vless_params i st stream
    = params_put ''flow'' (link_flow i st stream) (stack stream (vless_sec (st_security stream)) (vless_base st stream))"
  unfolding vless_params_def Let_def plain_security[OF assms] plain_ep[OF assms] stack_def vless_base_def
    link_flow_def params_put_def
  by (cases "st_security stream") (simp_all add: vless_sec_def sec_text_def none_reality)

lemma trojan_params_stack:
  assumes "plain_input i"
  shows "trojan_params i stream
    = stack stream (trojan_sec (st_security stream)) (params_set ''type'' (type_param stream) [])"
  unfolding trojan_params_def Let_def plain_security[OF assms] plain_ep[OF assms] stack_def
  by (cases "st_security stream") (simp_all add: trojan_sec_def sec_text_def none_reality)

lemma net_named: "net_ok n \<Longrightarrow> network_name n \<noteq> None"
  by (cases n) (simp_all add: net_ok_def)

lemma base_oks:
  assumes "net_ok (st_network stream)"
  shows "base_ok stream (vless_base st stream)" and "base_ok stream (params_set ''type'' (type_param stream) [])"
proof -
  have t: "network_name (st_network stream) = Some (type_param stream)"
    using net_named[OF assms] by (auto simp: type_param_def)
  have k: "k \<noteq> ''type''" "k \<noteq> ''encryption''"
    if "k \<in> set TRANSPORT_KEYS \<or> k \<in> set SECURITY_KEYS \<or> k = ''fm'' \<or> k = ''security''" for k
    using that other_keys by auto
  show "base_ok stream (params_set ''type'' (type_param stream) [])"
    unfolding base_ok_def using k t by simp
  show "base_ok stream (vless_base st stream)"
    unfolding base_ok_def vless_base_def using k t by simp
qed

lemma layered_flow: "layered st ps \<Longrightarrow> layered st (params_put ''flow'' v ps)"
  unfolding layered_def using other_keys(5,10) by auto

lemma vless_link_back:
  assumes "in_settings (gi_inbound i) = InVless st" and "in_stream (gi_inbound i) = Some stream"
    and "plain_input i" and "stream_ok stream"
    and "link_ok ''vless'' (or_empty (gi_secret i)) (gi_address i) (gi_port_of i)"
    and "params_ok (vless_params i st stream)" and "utf8_valid (or_empty (gi_remark i))"
  shows "Option.bind (genVlessLink ip6 i) (parseVlessLink ip6) = Some (JObj
    [(''protocol'', JStr ''vless''), (''tag'', JStr (or_empty (gi_remark i))),
     (''settings'', JObj [(''address'', JStr (gi_address i)), (''port'', JInt (gi_port_of i)),
        (''id'', JStr (or_empty (gi_secret i))), (''flow'', JStr (link_flow i st stream)),
        (''encryption'', JStr (vl_encryption st))]),
     (''streamSettings'', JObj (client_stream (type_param stream) stream))])"
proof -
  let ?ps = "vless_params i st stream"
  let ?s = "stack stream (vless_sec (st_security stream)) (vless_base st stream)"
  have n: "net_ok (st_network stream)" using assms(4) by (simp add: stream_ok_def)
  have t: "network_name (st_network stream) = Some (type_param stream)"
    using net_named[OF n] by (auto simp: type_param_def)
  have ps: "?ps = params_put ''flow'' (link_flow i st stream) ?s" by (rule vless_params_stack[OF assms(3)])
  note sl = stack_layered[OF assms(4) vless_sec_writer base_oks(1)[OF n, of st]]
  have l: "layered stream ?ps" unfolding ps by (rule layered_flow[OF sl(1)])
  have "or_param ?ps ''flow'' [] = link_flow i st stream"
    unfolding ps or_param_def get_put sl(2)[OF other_keys(5) other_keys(10), simplified]
    by (simp add: vless_base_def)
  moreover have "or_param ?ps ''encryption'' ''none'' = vl_encryption st"
    unfolding ps or_param_def get_put sl(2)[OF other_keys(2) other_keys(7), simplified]
    by (simp add: vless_base_def)
  moreover have "or_param ?ps ''type'' ''tcp'' = type_param stream" "or_param ?ps ''security'' ''none'' = sec_text (st_security stream)"
    using l t by (simp_all add: layered_def or_param_def)
  ultimately have "vless_outbound ?ps (or_empty (gi_secret i)) (gi_address i) (gi_port_of i) (or_empty (gi_remark i)) = JObj
    [(''protocol'', JStr ''vless''), (''tag'', JStr (or_empty (gi_remark i))),
     (''settings'', JObj [(''address'', JStr (gi_address i)), (''port'', JInt (gi_port_of i)),
        (''id'', JStr (or_empty (gi_secret i))), (''flow'', JStr (link_flow i st stream)),
        (''encryption'', JStr (vl_encryption st))]),
     (''streamSettings'', JObj (client_stream (type_param stream) stream))]"
    by (simp only: vless_outbound_def link_stream_read[OF assms(4) l t])
  then show ?thesis
    using vless_link_read[OF assms(5,6) distinct_vless assms(7)]
    by (simp only: genVlessLink_def assms(1,2) prod.case inbound_settings.case option.case)
qed


text \<open>
  The same for Trojan links, except that the password comes back in the percent-encoding of the
  link: it is the password of the inbound exactly when nothing in it needed encoding.
\<close>

theorem trojan_link_roundtrip:
  assumes "in_settings (gi_inbound i) = InTrojan cs fb" and "in_stream (gi_inbound i) = Some stream"
    and "plain_input i" and "stream_ok stream"
    and "link_ok ''trojan'' (encode_uri_component (or_empty (gi_secret i))) (gi_address i) (gi_port_of i)"
    and "params_ok (trojan_params i stream)" and "utf8_valid (or_empty (gi_remark i))"
  shows "Option.bind (genTrojanLink ip6 i) (parseTrojanLink ip6) = Some (JObj
    [(''protocol'', JStr ''trojan''), (''tag'', JStr (or_empty (gi_remark i))),
     (''settings'', JObj [(''servers'', JArr [JObj [(''address'', JStr (gi_address i)), (''port'', JInt (gi_port_of i)),
        (''password'', JStr (encode_uri_component (or_empty (gi_secret i))))]])]),
     (''streamSettings'', JObj (client_stream (type_param stream) stream))])"
proof -
  let ?ps = "trojan_params i stream" and ?pw = "encode_uri_component (or_empty (gi_secret i))"
  have n: "net_ok (st_network stream)" using assms(4) by (simp add: stream_ok_def)
  have t: "network_name (st_network stream) = Some (type_param stream)"
    using net_named[OF n] by (auto simp: type_param_def)
  have l: "layered stream ?ps"
    unfolding trojan_params_stack[OF assms(3)]
    by (rule stack_layered(1)[OF assms(4) trojan_sec_writer base_oks(2)[OF n]])
  have "or_param ?ps ''type'' ''tcp'' = type_param stream" "or_param ?ps ''security'' ''tls'' = sec_text (st_security stream)"
    using l t by (simp_all add: layered_def or_param_def)
  then have "trojan_outbound ?ps ?pw (gi_address i) (gi_port_of i) (or_empty (gi_remark i)) = JObj
    [(''protocol'', JStr ''trojan''), (''tag'', JStr (or_empty (gi_remark i))),
     (''settings'', JObj [(''servers'', JArr [JObj [(''address'', JStr (gi_address i)), (''port'', JInt (gi_port_of i)),
        (''password'', JStr ?pw)]])]),
     (''streamSettings'', JObj (client_stream (type_param stream) stream))]"
    by (simp only: trojan_outbound_def link_stream_read[OF assms(4) l t])
  then show ?thesis
    using trojan_link_read[OF assms(5,6) distinct_trojan assms(7)]
    by (simp only: genTrojanLink_def assms(1,2) prod.case inbound_settings.case option.case)
qed

text \<open>A password with an at sign is imported wrongly.\<close>

theorem trojan_password_not_decoded: "encode_uri_component ''p@ss'' = ''p%40ss''"
  by code_simp

definition sample_input :: "inbound_settings \<Rightarrow> stream_settings \<Rightarrow> string \<Rightarrow> url_input" where
  "sample_input st stream secret =
     \<lparr>gi_inbound = sample_inbound st (Some stream), gi_address = ''v.example.com'', gi_port = Some 8443,
      gi_forceTls = None, gi_remark = Some ''my node'', gi_secret = Some secret, gi_flow = None,
      gi_externalProxy = None\<rparr>"

definition sample_vless :: vless_settings where
  "sample_vless = \<lparr>vl_clients = None, vl_decryption = ''none'', vl_encryption = ''none'', vl_fallbacks = [],
     vl_testseed = None\<rparr>"

lemma sample_params:
  "writeNetworkParams (NetWs sample_ws) ps = params_set ''host'' ''cdn.example.com'' (params_set ''path'' ''/chat'' ps)"
  by (simp add: writeNetworkParams_def sample_ws_def)


theorem trojan_link_roundtrip_witness:
  "let i = sample_input (InTrojan None []) (sample_stream (NetTcp \<lparr>tcp_acceptProxyProtocol = False, tcp_header = None\<rparr>) SecNone) ''p@ss'' in
   \<exists>out. Option.bind (genTrojanLink (\<lambda>_. None) i) (parseTrojanLink (\<lambda>_. None)) = Some (JObj out)
     \<and> oget out ''tag'' = JStr ''my node''"
proof -
  let ?stream = "sample_stream (NetTcp \<lparr>tcp_acceptProxyProtocol = False, tcp_header = None\<rparr>) SecNone"
  let ?i = "sample_input (InTrojan None []) ?stream ''p@ss''"
  have ok: "stream_ok ?stream"
    by (simp add: stream_ok_def sample_stream_def net_ok_def sec_ok_def mask_ok_def)
  have p: "plain_input ?i" by (simp add: plain_input_def sample_input_def)
  have e: "or_empty (gi_secret ?i) = ''p@ss''" by (simp add: sample_input_def or_empty_def)
  have l: "link_ok ''trojan'' (encode_uri_component (or_empty (gi_secret ?i))) (gi_address ?i) (gi_port_of ?i)"
    unfolding e trojan_password_not_decoded
    by (simp add: link_ok_def sample_input_def gi_port_of_def valid_port_no_def scheme_ok_def plain_host_def) code_simp
  have ps: "params_ok (trojan_params ?i ?stream)"
    by (simp add: trojan_params_stack[OF p]) code_simp
  have u: "utf8_valid (or_empty (gi_remark ?i))"
    by (rule utf8_valid_ascii) (simp add: is_ascii_def sample_input_def or_empty_def)
  have s: "in_settings (gi_inbound ?i) = InTrojan None []" "in_stream (gi_inbound ?i) = Some ?stream"
    by (simp_all add: sample_input_def sample_inbound_def)
  show ?thesis
    unfolding Let_def trojan_link_roundtrip[OF s p ok l ps u]
    by (intro exI conjI, rule refl) (simp add: sample_input_def or_empty_def)
qed

section \<open>VMess links\<close>

text \<open>An object all of whose keys are names, every one once, with values a JSON text can carry.\<close>

definition named_clean :: "jobj \<Rightarrow> bool" where
  "named_clean o1 \<longleftrightarrow> list_all (\<lambda>k. \<not> is_index k) (okeys o1) \<and> distinct (okeys o1)
     \<and> list_all (\<lambda>p. json_clean (snd p)) o1"

lemma named_clean_json: "named_clean o1 \<Longrightarrow> json_clean (JObj o1)"
  by (simp add: named_clean_def owf_named)

lemma oput_named:
  assumes "\<not> is_index k" and "list_all (\<lambda>k. \<not> is_index k) (okeys o1)"
  shows "list_all (\<lambda>k. \<not> is_index k) (okeys (oput k v o1))"
  using assms(1,2) set_okeys_oput[of k v o1] by (auto simp: list_all_iff)

lemma oput_distinct: "\<not> is_index k \<Longrightarrow> distinct (okeys o1) \<Longrightarrow> distinct (okeys (oput k v o1))"
proof (induction k v o1 rule: oput.induct)
  case (2 k v p ps)
  have c: "okeys (q # qs) = fst q # okeys qs" for q :: "string \<times> 'a" and qs by (simp add: okeys_def)
  show ?case
  proof (cases "fst p = k")
    case False
    then have "fst p \<notin> set (okeys (oput k v ps))"
      using "2.prems"(2) unfolding set_okeys_oput c by simp
    moreover have "distinct (okeys (oput k v ps))"
      using "2.IH"[OF False _ "2.prems"(1)] "2.prems" by (simp add: c key_before_def)
    ultimately show ?thesis using False "2.prems"(1) by (simp add: c key_before_def)
  qed (use "2.prems" in \<open>simp add: c\<close>)
qed (simp add: okeys_def)

lemma oput_values: "json_clean v \<Longrightarrow> list_all (\<lambda>p. json_clean (snd p)) o1 \<Longrightarrow> list_all (\<lambda>p. json_clean (snd p)) (oput k v o1)"
  by (induction k v o1 rule: oput.induct) auto

lemma named_oput: "\<not> is_index k \<Longrightarrow> json_clean v \<Longrightarrow> named_clean o1 \<Longrightarrow> named_clean (oput k v o1)"
  by (simp add: named_clean_def oput_named oput_distinct oput_values)

lemma named_if: "named_clean a \<Longrightarrow> named_clean b \<Longrightarrow> named_clean (if c then a else b)"
  by simp

lemma vmess_key_names:
  "\<not> is_index ''type''" "\<not> is_index ''path''" "\<not> is_index ''host''" "\<not> is_index ''authority''" "\<not> is_index ''fm''"
  "\<not> is_index ''sni''" "\<not> is_index ''fp''" "\<not> is_index ''alpn''" "\<not> is_index ''ech''" "\<not> is_index ''pcs''"
  by (simp_all add: is_digit_def)

lemma clean_text: "json_clean (JStr s)" by simp

lemmas named_intros = named_oput named_if vmess_key_names clean_text

text \<open>Objects that agree away from a set of keys.\<close>

definition agree_off :: "string set \<Rightarrow> jobj \<Rightarrow> jobj \<Rightarrow> bool" where
  "agree_off K a b \<longleftrightarrow> (\<forall>k. k \<notin> K \<longrightarrow> oget a k = oget b k)"

lemma agree_refl: "agree_off K a a" by (simp add: agree_off_def)

lemma agree_oput: "k \<in> K \<Longrightarrow> agree_off K a b \<Longrightarrow> agree_off K (oput k v a) b"
  by (auto simp: agree_off_def)

lemma agree_if: "agree_off K a c \<Longrightarrow> agree_off K b c \<Longrightarrow> agree_off K (if d then a else b) c"
  by simp

lemmas agrees = agree_refl agree_oput agree_if

definition VMESS_KEYS :: "string list" where
  "VMESS_KEYS = [''type'', ''path'', ''host'', ''authority'', ''fm'', ''sni'', ''fp'', ''alpn'', ''ech'', ''pcs'']"

lemma vmess_key_mem:
  "''type'' \<in> set VMESS_KEYS" "''path'' \<in> set VMESS_KEYS" "''host'' \<in> set VMESS_KEYS" "''authority'' \<in> set VMESS_KEYS"
  "''fm'' \<in> set VMESS_KEYS" "''sni'' \<in> set VMESS_KEYS" "''fp'' \<in> set VMESS_KEYS" "''alpn'' \<in> set VMESS_KEYS"
  "''ech'' \<in> set VMESS_KEYS" "''pcs'' \<in> set VMESS_KEYS"
  by (simp_all add: VMESS_KEYS_def)

definition vmess_net_ok :: "network_settings \<Rightarrow> bool" where
  "vmess_net_ok n \<longleftrightarrow> net_ok n \<and> (case n of NetTcp tcp \<Rightarrow> \<forall>rs. tcp_header tcp \<noteq> Some (HeaderHttp None rs) | _ \<Rightarrow> True)"

lemma vmess_tcp_cases:
  assumes "vmess_net_ok (NetTcp tcp)"
  obtains "vmess_network (NetTcp tcp) = oput ''type'' (JStr ''none'')" and "client_network (NetTcp tcp) = (''tcpSettings'', plain_tcp)"
  | rq rs where "tcp_header tcp = Some (HeaderHttp (Some rq) rs)"
proof (cases "tcp_header tcp")
  case None
  then show ?thesis by (intro that(1)) (simp_all add: vmess_network_def client_network_def fun_eq_iff)
next
  case (Some h)
  show ?thesis
  proof (cases h)
    case HeaderNone
    then show ?thesis using Some by (intro that(1)) (simp_all add: vmess_network_def client_network_def fun_eq_iff)
  next
    case (HeaderHttp rq rs)
    then show ?thesis using Some assms that(2) by (cases rq) (auto simp: vmess_net_ok_def)
  qed
qed

lemma vmess_network_shape:
  assumes "vmess_net_ok n"
  shows "named_clean obj \<Longrightarrow> named_clean (vmess_network n obj)" and "agree_off (set VMESS_KEYS) (vmess_network n obj) obj"
proof -
  have "(named_clean obj \<longrightarrow> named_clean (vmess_network n obj)) \<and> agree_off (set VMESS_KEYS) (vmess_network n obj) obj"
  proof (cases n)
    case (NetTcp tcp)
    from vmess_tcp_cases[OF assms[unfolded NetTcp]] show ?thesis
    proof cases
      case 1
      show ?thesis unfolding NetTcp 1(1) by (intro conjI impI named_intros agrees vmess_key_mem)
    next
      case (2 rq rs)
      show ?thesis
        unfolding NetTcp vmess_network_def network_settings.case 2 option.case tcp_header.case Let_def
        by (intro conjI impI named_intros agrees vmess_key_mem)
    qed
  next
    case (NetWs ws)
    show ?thesis unfolding NetWs vmess_network_def network_settings.case
      by (intro conjI impI named_intros agrees vmess_key_mem)
  next
    case (NetGrpc g)
    show ?thesis unfolding NetGrpc vmess_network_def network_settings.case Let_def
      by (intro conjI impI named_intros agrees vmess_key_mem)
  next
    case (NetHttpupgrade hu)
    show ?thesis unfolding NetHttpupgrade vmess_network_def network_settings.case
      by (intro conjI impI named_intros agrees vmess_key_mem)
  qed (use assms in \<open>simp_all add: vmess_net_ok_def net_ok_def\<close>)
  then show "named_clean obj \<Longrightarrow> named_clean (vmess_network n obj)" and "agree_off (set VMESS_KEYS) (vmess_network n obj) obj"
    by blast+
qed

lemma vmess_tls_shape:
  "named_clean obj \<Longrightarrow> named_clean (vmess_tls t obj)" "agree_off (set VMESS_KEYS) obj b \<Longrightarrow> agree_off (set VMESS_KEYS) (vmess_tls t obj) b"
  unfolding vmess_tls_def Let_def
  by (intro named_intros agrees vmess_key_mem | assumption)+

lemma vmess_fm_shape:
  "named_clean obj \<Longrightarrow> named_clean (applyFinalMaskToObj fm obj)"
  "agree_off (set VMESS_KEYS) obj b \<Longrightarrow> agree_off (set VMESS_KEYS) (applyFinalMaskToObj fm obj) b"
  unfolding applyFinalMaskToObj_def Let_def
  by (intro named_intros agrees vmess_key_mem | assumption)+

definition NET_KEYS :: "string list" where
  "NET_KEYS = [''type'', ''path'', ''host'', ''authority'']"

definition TLS_KEYS :: "string list" where
  "TLS_KEYS = [''fm'', ''sni'', ''fp'', ''alpn'', ''ech'', ''pcs'']"

lemma tls_key_mem:
  "''fm'' \<in> set TLS_KEYS" "''sni'' \<in> set TLS_KEYS" "''fp'' \<in> set TLS_KEYS" "''alpn'' \<in> set TLS_KEYS"
  "''ech'' \<in> set TLS_KEYS" "''pcs'' \<in> set TLS_KEYS"
  by (simp_all add: TLS_KEYS_def)

lemma vmess_late_writes:
  "agree_off (set TLS_KEYS) obj b \<Longrightarrow> agree_off (set TLS_KEYS) (vmess_tls t obj) b"
  "agree_off (set TLS_KEYS) obj b \<Longrightarrow> agree_off (set TLS_KEYS) (applyFinalMaskToObj fm obj) b"
  unfolding vmess_tls_def applyFinalMaskToObj_def Let_def
  by (intro agrees tls_key_mem | assumption)+

lemma vmess_transport_read:
  assumes n: "vmess_net_ok n" and t: "network_name n = Some net"
    and g: "\<And>k. k \<in> set NET_KEYS \<Longrightarrow> jget json k = oget (vmess_network n b) k"
    and b: "\<And>k. k \<in> set NET_KEYS \<Longrightarrow> oget b k = JUndef"
  shows "vmess_transport json (JStr net) (buildStream (JStr net) sec)
    = Some ((''network'', JStr net) # (''security'', JStr sec) # client_network n # security_defaults sec)"
proof -
  note get = g[of "''path''"] g[of "''host''"] g[of "''type''"] g[of "''authority''"]
    b[of "''path''"] b[of "''host''"] b[of "''type''"] b[of "''authority''"]
  have m: "''path'' \<in> set NET_KEYS" "''host'' \<in> set NET_KEYS" "''type'' \<in> set NET_KEYS" "''authority'' \<in> set NET_KEYS"
    by (simp_all add: NET_KEYS_def)
  show ?thesis
  proof (cases n)
    case (NetWs ws)
    have net: "net = ''ws''" using t NetWs by simp
    have f: "jget json ''path'' = JStr (ws_path ws)" "jget json ''host'' = JStr (or_host (ws_host ws) (ws_headers ws))"
      using get m by (simp_all add: NetWs vmess_network_def or_host_def)
    show ?thesis
      by (simp add: vmess_transport_def buildStream_def network_defaults_def NetWs client_network_def net Let_def f
          sub_upd_skeleton key_before_def is_digit_def)
  next
    case (NetGrpc gr)
    have net: "net = ''grpc''" using t NetGrpc by simp
    have f: "jget json ''path'' = JStr (grpc_serviceName gr)" "jget json ''authority'' = JStr (grpc_authority gr)"
      "jget json ''type'' = JStr ''multi'' \<longleftrightarrow> grpc_multiMode gr"
      using get m by (simp_all add: NetGrpc vmess_network_def Let_def)
    show ?thesis
      by (simp add: vmess_transport_def buildStream_def network_defaults_def NetGrpc client_network_def net Let_def f
          sub_upd_skeleton key_before_def is_digit_def)
  next
    case (NetHttpupgrade hu)
    have net: "net = ''httpupgrade''" using t NetHttpupgrade by simp
    have f: "jget json ''path'' = JStr (hu_path hu)" "jget json ''host'' = JStr (or_host (hu_host hu) (hu_headers hu))"
      using get m by (simp_all add: NetHttpupgrade vmess_network_def or_host_def)
    show ?thesis
      by (simp add: vmess_transport_def buildStream_def network_defaults_def NetHttpupgrade client_network_def net Let_def f
          sub_upd_skeleton key_before_def is_digit_def)
  next
    case (NetTcp tcp)
    have net: "net = ''tcp''" using t NetTcp by simp
    from vmess_tcp_cases[OF n[unfolded NetTcp]] show ?thesis
    proof cases
      case 1
      have "jget json ''type'' = JStr ''none''" using get m by (simp add: NetTcp 1(1))
      then show ?thesis
        by (simp add: vmess_transport_def net Let_def buildStream_def NetTcp 1(2)) (simp add: network_defaults_def)
    next
      case (2 rq rs)
      have f: "jget json ''type'' = JStr ''http''" "jget json ''path'' = JStr (join '','' (tq_path rq))"
        "jget json ''host'' = (if http_host rq rs = [] then JUndef else JStr (http_host rq rs))"
        using get m by (simp_all add: NetTcp vmess_network_def 2 Let_def)
      show ?thesis
        by (simp add: vmess_transport_def buildStream_def network_defaults_def NetTcp client_network_def net Let_def f 2
            need_str_def plain_tcp_def sub_upd_skeleton key_before_def is_digit_def)
    qed
  qed (use n in \<open>simp_all add: vmess_net_ok_def net_ok_def\<close>)
qed

text \<open>The security block of an imported VMess link: ECH and pins are in the link, but not read.\<close>

definition vmess_client_security :: "security_settings \<Rightarrow> jobj" where
  "vmess_client_security s =
     (case s of
        SecTls t \<Rightarrow>
          [(''tlsSettings'', JObj [(''serverName'', JStr (tls_serverName t)), (''alpn'', JArr (map JStr (tls_alpn t))),
             (''fingerprint'', JStr (tc_fingerprint (tls_client t))), (''echConfigList'', JStr []),
             (''verifyPeerCertByName'', JStr []), (''pinnedPeerCertSha256'', JStr [])])]
      | _ \<Rightarrow> [])"

lemma vmess_tls_get:
  assumes b: "\<And>k. k \<in> set TLS_KEYS \<Longrightarrow> oget b k = JUndef"
  shows "oget (vmess_tls t b) ''sni'' = (if tls_serverName t = [] then JUndef else JStr (tls_serverName t))"
    and "oget (vmess_tls t b) ''fp'' = (if tc_fingerprint (tls_client t) = [] then JUndef else JStr (tc_fingerprint (tls_client t)))"
    and "oget (vmess_tls t b) ''alpn'' = (if tls_alpn t = [] then JUndef else JStr (join '','' (tls_alpn t)))"
  using b[of "''sni''"] b[of "''fp''"] b[of "''alpn''"]
  by (simp_all add: vmess_tls_def Let_def TLS_KEYS_def)

lemma vmess_security_read:
  assumes k: "\<not> is_index k" "k \<noteq> ''network''" "k \<noteq> ''security''" "k \<noteq> ''tlsSettings''"
    and ok: "sec_ok (SecTls t)"
    and f: "jget json ''sni'' = (if tls_serverName t = [] then JUndef else JStr (tls_serverName t))"
      "jget json ''fp'' = (if tc_fingerprint (tls_client t) = [] then JUndef else JStr (tc_fingerprint (tls_client t)))"
      "jget json ''alpn'' = (if tls_alpn t = [] then JUndef else JStr (join '','' (tls_alpn t)))"
  shows "vmess_security json ''tls'' ((''network'', a) # (''security'', JStr ''tls'') # (k, b) # security_defaults ''tls'')
    = Some ((''network'', a) # (''security'', JStr ''tls'') # (k, b) # vmess_client_security (SecTls t))"
proof -
  have nt: "''tlsSettings'' \<noteq> ''network''" "''tlsSettings'' \<noteq> ''security''" "\<not> is_index ''tlsSettings''"
    by (simp_all add: is_digit_def)
  note skel = sub_upd_last[OF nt(1,2) k(4)[symmetric] nt(3)]
  have sni: "coalesce (jget json ''sni'') (JStr []) = JStr (tls_serverName t)" by (simp add: f(1))
  have fp: "coalesce (jget json ''fp'') (JStr []) = JStr (tc_fingerprint (tls_client t))" by (simp add: f(2))
  show ?thesis
  proof (cases "tls_alpn t = []")
    case True
    then have al: "\<not> truthy (jget json ''alpn'')" by (simp add: f(3))
    show ?thesis
      unfolding vmess_security_def Let_def sni fp
      using al True by (simp add: security_defaults_def skel vmess_client_security_def key_before_def is_digit_def)
  next
    case False
    then have al: "jget json ''alpn'' = JStr (join '','' (tls_alpn t))" by (simp add: f(3))
    note p = alpn_present[OF ok False]
    show ?thesis
      unfolding vmess_security_def Let_def sni fp al
      using p by (simp add: need_str_def security_defaults_def skel vmess_client_security_def key_before_def is_digit_def)
  qed
qed

definition vm_plain :: "vmess_input \<Rightarrow> bool" where
  "vm_plain i \<longleftrightarrow> vm_externalProxy i = None \<and> (vm_forceTls i = None \<or> vm_forceTls i = Some Same)"

definition vm_port_of :: "vmess_input \<Rightarrow> int" where
  "vm_port_of i = (case vm_port i of None \<Rightarrow> in_port (vm_inbound i) | Some p \<Rightarrow> p)"

definition vm_sec_ok :: "security_settings \<Rightarrow> bool" where
  "vm_sec_ok s \<longleftrightarrow> sec_ok s \<and> (case s of SecReality _ \<Rightarrow> False | _ \<Rightarrow> True)"

definition vmess_base :: "vmess_input \<Rightarrow> stream_settings \<Rightarrow> jobj" where
  "vmess_base i stream =
     [(''v'', JStr ''2''), (''ps'', JStr (or_empty (vm_remark i))), (''add'', JStr (vm_address i)),
      (''port'', JInt (vm_port_of i)), (''id'', JStr (vm_clientId i)), (''scy'', opt_js (vm_security i)),
      (''net'', opt_js (network_name (st_network stream))), (''tls'', JStr (sec_text (st_security stream)))]"

definition vmess_sec :: "security_settings \<Rightarrow> jobj \<Rightarrow> jobj" where
  "vmess_sec s obj = (case s of SecTls t \<Rightarrow> vmess_tls t obj | _ \<Rightarrow> obj)"

lemma vmess_obj_layers:
  assumes "vm_plain i"
  shows "vmess_obj i stream = vmess_sec (st_security stream)
    (applyFinalMaskToObj (st_finalmask stream) (vmess_network (st_network stream) (vmess_base i stream)))"
proof -
  have f: "force_security (case vm_forceTls i of None \<Rightarrow> Same | Some f \<Rightarrow> f) s = s" for s
    using assms by (auto simp: vm_plain_def force_security_def)
  have e: "applyExternalProxyTLSObj (vm_externalProxy i) obj s = obj" for obj s
    using assms by (simp add: vm_plain_def applyExternalProxyTLSObj_def)
  show ?thesis
    unfolding vmess_obj_def Let_def f e vmess_base_def vm_port_of_def vmess_sec_def
    by (cases "st_security stream") (simp_all add: sec_text_def)
qed

lemma vmess_base_shape:
  assumes "valid_port_no (vm_port_of i)" and "vm_security i \<noteq> None" and "network_name (st_network stream) \<noteq> None"
  shows "named_clean (vmess_base i stream)"
    and "\<And>k. k \<in> set VMESS_KEYS \<Longrightarrow> oget (vmess_base i stream) k = JUndef"
proof -
  have "\<bar>vm_port_of i\<bar> < 10 ^ 21" using assms(1) by (simp add: valid_port_no_def)
  then show "named_clean (vmess_base i stream)"
    using assms(2,3) by (auto simp: named_clean_def vmess_base_def okeys_def is_digit_def opt_js_def)
  show "oget (vmess_base i stream) k = JUndef" if "k \<in> set VMESS_KEYS" for k
    using that by (auto simp: VMESS_KEYS_def vmess_base_def)
qed

lemma vmess_key_sets:
  "k \<in> set NET_KEYS \<Longrightarrow> k \<notin> set TLS_KEYS" "k \<in> set NET_KEYS \<Longrightarrow> k \<in> set VMESS_KEYS" "k \<in> set TLS_KEYS \<Longrightarrow> k \<in> set VMESS_KEYS"
  "''ps'' \<notin> set VMESS_KEYS" "''add'' \<notin> set VMESS_KEYS" "''port'' \<notin> set VMESS_KEYS" "''id'' \<notin> set VMESS_KEYS"
  "''scy'' \<notin> set VMESS_KEYS" "''net'' \<notin> set VMESS_KEYS" "''tls'' \<notin> set VMESS_KEYS"
  by (auto simp: NET_KEYS_def TLS_KEYS_def VMESS_KEYS_def)

lemma vmess_sec_shape:
  "named_clean obj \<Longrightarrow> named_clean (vmess_sec s obj)"
  "agree_off (set VMESS_KEYS) obj b \<Longrightarrow> agree_off (set VMESS_KEYS) (vmess_sec s obj) b"
  "agree_off (set TLS_KEYS) obj b \<Longrightarrow> agree_off (set TLS_KEYS) (vmess_sec s obj) b"
  by (cases s; simp only: vmess_sec_def security_settings.case; blast intro: vmess_tls_shape vmess_late_writes)+

lemma fm_get: "k \<noteq> ''fm'' \<Longrightarrow> oget (applyFinalMaskToObj fm obj) k = oget obj k"
  by (simp add: applyFinalMaskToObj_def Let_def)

lemma vmess_network_tls_keys: "vmess_net_ok n \<Longrightarrow> agree_off (set NET_KEYS) (vmess_network n obj) obj"
proof (cases n)
  case (NetTcp tcp)
  assume "vmess_net_ok n"
  from vmess_tcp_cases[OF this[unfolded NetTcp]] show ?thesis
    by cases (auto simp: NetTcp agree_off_def NET_KEYS_def vmess_network_def Let_def)
qed (auto simp: vmess_net_ok_def net_ok_def agree_off_def NET_KEYS_def vmess_network_def Let_def)

definition vmess_stream :: "string \<Rightarrow> stream_settings \<Rightarrow> jobj" where
  "vmess_stream net st =
     [(''network'', JStr net), (''security'', JStr (sec_text (st_security st))), client_network (st_network st)]
     @ vmess_client_security (st_security st)"

lemma vmess_json_read:
  assumes n: "vmess_net_ok (st_network stream)" and so: "vm_sec_ok (st_security stream)" and p: "vm_plain i"
    and port: "valid_port_no (vm_port_of i)" and scy: "vm_security i = Some s"
    and t: "network_name (st_network stream) = Some net"
  shows "named_clean (vmess_obj i stream)"
    and "vmess_of_json (JObj (vmess_obj i stream)) = Some (JObj
      [(''protocol'', JStr ''vmess''), (''tag'', JStr (or_empty (vm_remark i))),
       (''settings'', JObj [(''vnext'', JArr [JObj [(''address'', JStr (vm_address i)), (''port'', JInt (vm_port_of i)),
          (''users'', JArr [JObj [(''id'', JStr (vm_clientId i)), (''security'', JStr (sor s ''auto''))]])]])]),
       (''streamSettings'', JObj (vmess_stream net stream))])"
proof -
  let ?b = "vmess_base i stream" and ?obj = "vmess_obj i stream"
  let ?n = "vmess_network (st_network stream) ?b"
  let ?m = "applyFinalMaskToObj (st_finalmask stream) ?n"
  have obj: "?obj = vmess_sec (st_security stream) ?m" by (rule vmess_obj_layers[OF p])
  have b: "named_clean ?b" "\<And>k. k \<in> set VMESS_KEYS \<Longrightarrow> oget ?b k = JUndef"
    using vmess_base_shape[OF port, of stream] scy t by simp_all
  show "named_clean ?obj"
    unfolding obj by (intro vmess_sec_shape(1) vmess_fm_shape(1) vmess_network_shape(1)[OF n] b(1))
  have "agree_off (set VMESS_KEYS) ?obj ?b"
    unfolding obj by (intro vmess_sec_shape(2) vmess_fm_shape(2) vmess_network_shape(2)[OF n])
  then have base: "oget ?obj k = oget ?b k" if "k \<notin> set VMESS_KEYS" for k using that by (simp add: agree_off_def)
  have "agree_off (set TLS_KEYS) ?obj ?n"
    unfolding obj by (intro vmess_sec_shape(3) vmess_late_writes(2) agree_refl)
  then have late: "oget ?obj k = oget ?n k" if "k \<in> set NET_KEYS" for k
    using that vmess_key_sets(1) by (simp add: agree_off_def)
  have fields: "oget ?obj ''ps'' = JStr (or_empty (vm_remark i))" "oget ?obj ''add'' = JStr (vm_address i)"
    "oget ?obj ''port'' = JInt (vm_port_of i)" "oget ?obj ''id'' = JStr (vm_clientId i)" "oget ?obj ''scy'' = JStr s"
    "oget ?obj ''net'' = JStr net" "oget ?obj ''tls'' = JStr (sec_text (st_security stream))"
    unfolding base[OF vmess_key_sets(4)] base[OF vmess_key_sets(5)] base[OF vmess_key_sets(6)] base[OF vmess_key_sets(7)]
      base[OF vmess_key_sets(8)] base[OF vmess_key_sets(9)] base[OF vmess_key_sets(10)]
    by (simp_all add: vmess_base_def scy t opt_js_def)
  let ?st = "sec_text (st_security stream)"
  have sec: "(if ?st = ''tls'' then ''tls'' else ''none'') = ?st"
    using so by (cases "st_security stream") (simp_all add: sec_text_def vm_sec_ok_def)
  have netj: "jor (JStr net) (JStr ''tcp'') = JStr net"
    using t by (cases "st_network stream") (auto simp: jor_def)
  obtain k b' where kb: "client_network (st_network stream) = (k, b')" "\<not> is_index k" "k \<noteq> ''network''" "k \<noteq> ''security''"
    "k \<noteq> ''tlsSettings''"
  proof -
    have "net_ok (st_network stream)" using n by (simp add: vmess_net_ok_def)
    from client_network_key[OF this] that show thesis by blast
  qed
  have tr: "vmess_transport (JObj ?obj) (JStr net) (buildStream (JStr net) ?st)
      = Some ((''network'', JStr net) # (''security'', JStr ?st) # (k, b') # security_defaults ?st)"
    unfolding kb(1)[symmetric]
    by (rule vmess_transport_read[OF n t]) (simp only: jget_JObj late, rule b(2)[OF vmess_key_sets(2)])
  have se: "vmess_security (JObj ?obj) ?st ((''network'', JStr net) # (''security'', JStr ?st) # (k, b') # security_defaults ?st)
      = Some (vmess_stream net stream)"
  proof (cases "st_security stream")
    case (SecTls tl)
    have m: "oget ?m kk = JUndef" if "kk \<in> set TLS_KEYS" "kk \<noteq> ''fm''" for kk
    proof -
      have "kk \<notin> set NET_KEYS" using that vmess_key_sets(1) by blast
      then have "oget ?n kk = oget ?b kk"
        using vmess_network_tls_keys[OF n, of ?b] by (simp add: agree_off_def)
      then show ?thesis using that b(2) vmess_key_sets(3) by (simp add: fm_get)
    qed
    have g: "oget ?obj ''sni'' = (if tls_serverName tl = [] then JUndef else JStr (tls_serverName tl))"
      "oget ?obj ''fp'' = (if tc_fingerprint (tls_client tl) = [] then JUndef else JStr (tc_fingerprint (tls_client tl)))"
      "oget ?obj ''alpn'' = (if tls_alpn tl = [] then JUndef else JStr (join '','' (tls_alpn tl)))"
      using m[of "''sni''"] m[of "''fp''"] m[of "''alpn''"]
      by (simp_all add: obj SecTls vmess_sec_def vmess_tls_def Let_def TLS_KEYS_def)
    have st: "sec_text (SecTls tl) = ''tls''" by (simp add: sec_text_def)
    have "sec_ok (SecTls tl)" using so by (simp add: SecTls vm_sec_ok_def)
    from vmess_security_read[OF kb(2-5) this, of "JObj ?obj" "JStr net" b'] g
    show ?thesis by (simp add: st vmess_stream_def kb(1) SecTls)
  qed (use so in \<open>simp_all add: vmess_security_def vmess_stream_def kb(1) sec_text_def security_defaults_def
         vmess_client_security_def vm_sec_ok_def\<close>)
  have q: "nor (to_num (JInt (vm_port_of i))) (Fin 443) = Fin (of_int (vm_port_of i))"
    using port by (simp add: nor_def valid_port_no_def)
  have out: "vmess_outbound (JObj ?obj) (vmess_stream net stream) = JObj
      [(''protocol'', JStr ''vmess''), (''tag'', JStr (or_empty (vm_remark i))),
       (''settings'', JObj [(''vnext'', JArr [JObj [(''address'', JStr (vm_address i)), (''port'', JInt (vm_port_of i)),
          (''users'', JArr [JObj [(''id'', JStr (vm_clientId i)), (''security'', JStr (sor s ''auto''))]])]])]),
       (''streamSettings'', JObj (vmess_stream net stream))]"
    unfolding vmess_outbound_def Let_def jget_JObj fields q by (simp add: jor_def sor_def)
  have net1: "(if oget ?obj ''tls'' = JStr ''tls'' then ''tls'' else ''none'') = ?st"
    unfolding fields using sec by simp
  show "vmess_of_json (JObj ?obj) = Some (JObj
      [(''protocol'', JStr ''vmess''), (''tag'', JStr (or_empty (vm_remark i))),
       (''settings'', JObj [(''vnext'', JArr [JObj [(''address'', JStr (vm_address i)), (''port'', JInt (vm_port_of i)),
          (''users'', JArr [JObj [(''id'', JStr (vm_clientId i)), (''security'', JStr (sor s ''auto''))]])]])]),
       (''streamSettings'', JObj (vmess_stream net stream))])"
    unfolding vmess_of_json_def Let_def net1 jget_JObj fields(6) netj tr bind.simps se option.map out by simp
qed

lemma json_text_decodable:
  "utf8_valid (json_stringify2 (JObj o1)) \<Longrightarrow> decodable (json_stringify2 (JObj o1))"
  by (auto simp: decodable_def json_stringify2_def split: list.splits)

text \<open>
  C36
  A VMess link over TCP, WebSocket, gRPC or HTTPUpgrade, plain or with TLS, decodes to the outbound
  with its address, port, id, security, remark, transport and the TLS fields the parser reads;
  ECH, pins and masks are in the link and are not read.
\<close>

theorem vmess_link_roundtrip:
  assumes "in_settings (vm_inbound i) = InVmess cs" and "in_stream (vm_inbound i) = Some stream"
    and "vmess_net_ok (st_network stream)" and "vm_sec_ok (st_security stream)" and "vm_plain i"
    and "valid_port_no (vm_port_of i)" and "vm_security i = Some s"
    and "network_name (st_network stream) = Some net"
    and "utf8_valid (json_stringify2 (JObj (vmess_obj i stream)))"
  shows "parseVmessLink (genVmessLink i) = Some (JObj
      [(''protocol'', JStr ''vmess''), (''tag'', JStr (or_empty (vm_remark i))),
       (''settings'', JObj [(''vnext'', JArr [JObj [(''address'', JStr (vm_address i)), (''port'', JInt (vm_port_of i)),
          (''users'', JArr [JObj [(''id'', JStr (vm_clientId i)), (''security'', JStr (sor s ''auto''))]])]])]),
       (''streamSettings'', JObj (vmess_stream net stream))])"
proof -
  let ?t = "json_stringify2 (JObj (vmess_obj i stream))"
  note r = vmess_json_read[OF assms(3-8)]
  have g: "genVmessLink i = ''vmess://'' @ base64_encode ?t"
    by (simp only: genVmessLink_def assms(1,2) inbound_settings.case option.case)
  have d: "drop 8 (''vmess://'' @ base64_encode ?t) = base64_encode ?t"
    by simp
  have p: "json_parse ?t = Some (JObj (vmess_obj i stream))"
    by (rule json_parse_stringify2[OF named_clean_json[OF r(1)]])
  have sw: "starts_with (''vmess://'' @ base64_encode ?t) ''vmess://'' = True" by simp
  show ?thesis
    unfolding parseVmessLink_def g d sw
      base64_decode_encode[OF json_text_decodable[OF assms(9)]] bind.simps p
    by (simp only: r(2) not_True_eq_False if_False bind.simps)
qed

theorem vmess_link_roundtrip_witness:
  "let stream = sample_stream (NetGrpc \<lparr>grpc_serviceName = ''g'', grpc_authority = [], grpc_multiMode = True\<rparr>) SecNone;
       i = \<lparr>vm_inbound = sample_inbound (InVmess None) (Some stream), vm_address = ''h'', vm_port = Some 80,
            vm_forceTls = None, vm_remark = Some ''r'', vm_clientId = ''id'', vm_security = Some [],
            vm_externalProxy = None\<rparr>
   in \<exists>out. parseVmessLink (genVmessLink i) = Some (JObj out) \<and> oget out ''tag'' = JStr ''r''"
proof -
  let ?stream = "sample_stream (NetGrpc \<lparr>grpc_serviceName = ''g'', grpc_authority = [], grpc_multiMode = True\<rparr>) SecNone"
  let ?i = "\<lparr>vm_inbound = sample_inbound (InVmess None) (Some ?stream), vm_address = ''h'', vm_port = Some 80,
            vm_forceTls = None, vm_remark = Some ''r'', vm_clientId = ''id'', vm_security = Some [],
            vm_externalProxy = None\<rparr>"
  have s: "in_settings (vm_inbound ?i) = InVmess None" "in_stream (vm_inbound ?i) = Some ?stream"
    by (simp_all add: sample_inbound_def)
  have n: "vmess_net_ok (st_network ?stream)" and so: "vm_sec_ok (st_security ?stream)" and p: "vm_plain ?i"
    and port: "valid_port_no (vm_port_of ?i)" and scy: "vm_security ?i = Some []"
    and t: "network_name (st_network ?stream) = Some ''grpc''"
    by (simp_all add: sample_stream_def vmess_net_ok_def net_ok_def vm_sec_ok_def sec_ok_def vm_plain_def
        valid_port_no_def vm_port_of_def)
  have "is_ascii (json_stringify2 (JObj (vmess_obj ?i ?stream)))" by code_simp
  then have u: "utf8_valid (json_stringify2 (JObj (vmess_obj ?i ?stream)))" by (rule utf8_valid_ascii)
  show ?thesis
    unfolding Let_def vmess_link_roundtrip[OF s n so p port scy t u]
    by (intro exI conjI, rule refl) (simp add: or_empty_def)
qed

section \<open>Shadowsocks links\<close>

definition delims :: "char set" where
  "delims = {CHR ''@'', CHR ''?'', CHR ''#''}"

definition no_delim :: "string \<Rightarrow> bool" where
  "no_delim s \<longleftrightarrow> set s \<inter> delims = {}"

lemma no_delimD: "no_delim s \<Longrightarrow> CHR ''@'' \<notin> set s" "no_delim s \<Longrightarrow> CHR ''?'' \<notin> set s" "no_delim s \<Longrightarrow> CHR ''#'' \<notin> set s"
  by (auto simp: no_delim_def delims_def)

lemma int_str_digits: "valid_port_no p \<Longrightarrow> list_all is_digit (int_str p)"
  using port_str(1) by simp

lemma digits_no: "list_all is_digit s \<Longrightarrow> \<not> is_digit c \<Longrightarrow> c \<notin> set s"
  by (auto simp: list_all_iff)

lemma plain_host_no: "plain_host h \<Longrightarrow> forbidden_host c \<Longrightarrow> c \<notin> set h"
  by (auto simp: plain_host_def list_all_iff)

text \<open>The tail of a link: an optional query and an optional fragment.\<close>

definition query_part :: "string \<Rightarrow> string" where
  "query_part q = (if q = [] then [] else ''?'' @ q)"

lemma ss_link_read:
  assumes us: "no_delim us" and h: "plain_host h" and p: "valid_port_no p" and q: "CHR ''#'' \<notin> set q"
    and r: "utf8_valid remark" and f: "frag = ''#'' @ encode_uri_component remark \<or> frag = [] \<and> remark = []"
  shows "parseShadowsocksLink (''ss://'' @ us @ ''@'' @ h @ '':'' @ int_str p @ query_part q @ frag)
    = Some (ss_outbound remark (ss_userinfo us) h (JInt p))"
proof -
  let ?c = "''ss://'' @ us @ ''@'' @ h @ '':'' @ int_str p"
  have d: "CHR ''#'' \<notin> set (int_str p)" "CHR ''?'' \<notin> set (int_str p)" "CHR '':'' \<notin> set (int_str p)"
    using digits_no[OF int_str_digits[OF p]] by (simp_all add: is_digit_def)
  have hh: "CHR ''#'' \<notin> set h" "CHR ''?'' \<notin> set h"
    using plain_host_no[OF h] by (simp_all add: forbidden_host_def)
  have c: "CHR ''#'' \<notin> set ?c" "CHR ''?'' \<notin> set ?c"
    using no_delimD[OF us] d hh by simp_all
  have cq: "CHR ''#'' \<notin> set (?c @ query_part q)" using c q by (simp add: query_part_def)
  have link: "''ss://'' @ us @ ''@'' @ h @ '':'' @ int_str p @ query_part q @ frag = (?c @ query_part q) @ frag"
    by simp
  have rem: "(if CHR ''#'' \<in> set ((?c @ query_part q) @ frag)
      then decode_or (after_char CHR ''#'' ((?c @ query_part q) @ frag)) [] else []) = remark"
  proof (cases "frag = []")
    case True
    then show ?thesis using f cq by auto
  next
    case False
    then have fr: "frag = CHR ''#'' # encode_uri_component remark" using f by auto
    have "after_char CHR ''#'' ((?c @ query_part q) @ CHR ''#'' # encode_uri_component remark) = encode_uri_component remark"
      by (rule after_char_append[OF cq])
    moreover have "CHR ''#'' \<in> set ((?c @ query_part q) @ CHR ''#'' # encode_uri_component remark)" by simp
    ultimately show ?thesis unfolding fr by (simp only: if_True decode_or_def decode_encode_uri[OF r] option.case)
  qed
  have noh: "before_char CHR ''#'' ((?c @ query_part q) @ frag) = ?c @ query_part q"
  proof (cases "frag = []")
    case True
    show ?thesis unfolding True append_Nil2 by (rule before_char_none[OF cq])
  next
    case False
    then have fr: "frag = CHR ''#'' # encode_uri_component remark" using f by auto
    show ?thesis unfolding fr by (rule before_char_append[OF cq])
  qed
  have core: "before_char CHR ''?'' (?c @ query_part q) = ?c"
  proof (cases "q = []")
    case True
    then show ?thesis using before_char_none[OF c(2)] by (simp add: query_part_def)
  next
    case False
    then have "query_part q = CHR ''?'' # q" by (simp add: query_part_def)
    then show ?thesis using before_char_append[OF c(2)] by (simp only:)
  qed
  have at: "CHR ''@'' \<notin> set (''ss://'' @ us)" using no_delimD(1)[OF us] by simp
  have c2: "?c = (''ss://'' @ us) @ CHR ''@'' # (h @ CHR '':'' # int_str p)" by simp
  have b: "before_char CHR ''@'' ?c = ''ss://'' @ us" unfolding c2 by (rule before_char_append[OF at])
  have a: "after_char CHR ''@'' ?c = h @ CHR '':'' # int_str p" unfolding c2 by (rule after_char_append[OF at])
  have dr: "drop 5 (''ss://'' @ us) = us" by simp
  have hp: "before_last CHR '':'' (h @ CHR '':'' # int_str p) = h" "after_last CHR '':'' (h @ CHR '':'' # int_str p) = int_str p"
    using d(3) by (rule before_last_append, rule after_last_append)
  have po: "ss_port (int_str p) = JInt p"
    using p by (simp add: ss_port_def port_str(3)[OF p] nor_def valid_port_no_def)
  have sw: "starts_with ((?c @ query_part q) @ frag) ''ss://'' = True" by simp
  have ina: "(CHR ''@'' \<in> set ?c) = True" "(CHR '':'' \<notin> set (h @ CHR '':'' # int_str p)) = False" by simp_all
  show ?thesis
    unfolding link parseShadowsocksLink_def Let_def sw rem noh core b a dr hp po ina by simp
qed

lemma no_delim_append: "no_delim (a @ b) \<longleftrightarrow> no_delim a \<and> no_delim b"
  by (auto simp: no_delim_def)

lemma encode_no_delim: "no_delim (encode_uri_component s)" "CHR '':'' \<notin> set (encode_uri_component s)"
proof -
  have "c \<notin> delims \<and> c \<noteq> CHR '':''" if "c \<in> set (encode_uri_component s)" for c
    using link_char_byte[of c] uri_char[OF that] by (auto simp: link_char_def delims_def)
  then show "no_delim (encode_uri_component s)" "CHR '':'' \<notin> set (encode_uri_component s)"
    by (auto simp: no_delim_def)
qed

lemma decode_encoded_list:
  "ws \<noteq> [] \<Longrightarrow> list_all utf8_valid ws \<Longrightarrow>
   decode_uri_component (join '':'' (map encode_uri_component ws)) = Some (join '':'' ws)"
proof (induction "'':''" ws rule: join.induct)
  case (3 w v ws)
  have "decode_uri_component (join '':'' (map encode_uri_component (v # ws))) = Some (join '':'' (v # ws))"
    using 3 by simp
  then show ?case
    using 3(3) by (simp add: decode_encode_uri_append decode_uri_plain)
qed (simp_all add: decode_encode_uri)

lemma join_no_delim: "list_all no_delim ws \<Longrightarrow> no_delim (join '':'' ws)"
  by (induction "'':''" ws rule: join.induct) (auto simp: no_delim_append, simp_all add: no_delim_def delims_def)

lemma query_char_no_hash: "CHR ''#'' \<notin> set (params_str ps)"
  using params_str_chars[of ps] by (auto simp: list_all_iff query_char_def is_alnum_def is_letter_def is_digit_def)

text \<open>The client side of the password: server key first for a 2022 method, user key unless single-user.\<close>

definition ss_client :: "shadowsocks_settings \<Rightarrow> string \<Rightarrow> string" where
  "ss_client st clientPassword = join '':'' (ss_passwords st clientPassword)"

lemma ss_split:
  assumes "CHR '':'' \<notin> set m" and "ws \<noteq> []"
  shows "ss_outbound remark (join '':'' (m # ws)) h p
    = JObj [(''protocol'', JStr ''shadowsocks''), (''tag'', JStr remark),
        (''settings'', JObj [(''servers'', JArr [JObj [(''address'', JStr h), (''port'', p),
           (''password'', JStr (join '':'' ws)), (''method'', JStr m)]])])]"
proof -
  have j: "join '':'' (m # ws) = m @ CHR '':'' # join '':'' ws" using join_Cons[OF assms(2), of "'':''" m] by simp
  have "(CHR '':'' \<in> set (m @ CHR '':'' # join '':'' ws)) = True" by simp
  then show ?thesis
    unfolding ss_outbound_def Let_def j before_char_append[OF assms(1)] after_char_append[OF assms(1)]
    by (simp only: if_True)
qed

lemma b64_safe_no_delim: "no_delim (base64_encode_safe t)" "CHR '':'' \<notin> set (base64_encode_safe t)"
proof -
  have a: "list_all (\<lambda>c. c \<noteq> CHR ''@'' \<and> c \<noteq> CHR ''?'' \<and> c \<noteq> CHR ''#'' \<and> c \<noteq> CHR '':'') b64_chars" by code_simp
  have "c \<notin> delims \<and> c \<noteq> CHR '':''" if "c \<in> set (base64_encode_safe t)" for c
  proof -
    have "c \<in> set (btoa t) \<or> c = CHR ''-'' \<or> c = CHR ''_''"
      using that unfolding base64_encode_safe_def base64_encode_def replace_char_def set_map set_filter
      by (elim imageE CollectE conjE) (simp split: if_splits)
    then obtain d where d: "d \<in> set (btoa t) \<and> c = d \<or> c = CHR ''-'' \<or> c = CHR ''_''" by blast
    have "d \<notin> delims \<and> d \<noteq> CHR '':''" if "d \<in> set (btoa t)"
      using a b64_alphabet[OF that] by (auto simp: list_all_iff delims_def)
    then show ?thesis using d by (auto simp: delims_def)
  qed
  then show "no_delim (base64_encode_safe t)" "CHR '':'' \<notin> set (base64_encode_safe t)"
    by (auto simp: no_delim_def)
qed

lemma final_href:
  assumes "valid_port_no p" and "us \<noteq> []"
  shows "url_href (final_url scheme us h p ps r)
    = scheme @ ''://'' @ us @ ''@'' @ h @ '':'' @ int_str p @ query_part (params_str ps)
      @ (if r = [] then [] else ''#'' @ encode_uri_component r)"
proof -
  have "int_str p \<noteq> []" using port_str(1)[OF assms(1)] by simp
  then show ?thesis
    using assms(2) params_str_Nil_iff[of ps]
    by (simp add: url_href_def final_url_def bare_url_def query_part_def)
qed

definition ss_import :: "string \<Rightarrow> string \<Rightarrow> int \<Rightarrow> string \<Rightarrow> string \<Rightarrow> js" where
  "ss_import remark h p password m =
     JObj [(''protocol'', JStr ''shadowsocks''), (''tag'', JStr remark),
        (''settings'', JObj [(''servers'', JArr [JObj [(''address'', JStr h), (''port'', JInt p),
           (''password'', JStr password), (''method'', JStr m)]])])]"

text \<open>
  A Shadowsocks 2022 link carries its method and keys percent-encoded and is read back with the
  same method, the server key followed by the user key (or alone, for the single-user method),
  address, port and remark.
\<close>

theorem ss2022_link_roundtrip:
  assumes "in_settings (gi_inbound i) = InShadowsocks st" and "in_stream (gi_inbound i) = Some stream"
    and "take 4 (ss_inb_method st) = ''2022''" and "CHR '':'' \<notin> set (ss_inb_method st)"
    and "plain_host (gi_address i)" and "valid_port_no (gi_port_of i)"
    and "list_all utf8_valid (ss_inb_method st # ss_passwords st (or_empty (gi_secret i)))"
    and "utf8_valid (or_empty (gi_remark i))"
  shows "Option.bind (genShadowsocksLink ip6 i) parseShadowsocksLink
    = Some (ss_import (or_empty (gi_remark i)) (gi_address i) (gi_port_of i)
        (join '':'' (ss_passwords st (or_empty (gi_secret i)))) (ss_inb_method st))"
proof -
  let ?ws = "ss_inb_method st # ss_passwords st (or_empty (gi_secret i))"
  let ?us = "join '':'' (map encode_uri_component ?ws)"
  have ne: "ss_passwords st (or_empty (gi_secret i)) \<noteq> []" using assms(3) by (simp add: ss_passwords_def)
  have nd: "no_delim ?us" by (rule join_no_delim) (simp add: list_all_iff encode_no_delim)
  have "CHR '':'' \<in> set ?us"
    using ne by (cases "ss_passwords st (or_empty (gi_secret i))") simp_all
  then have ui: "ss_userinfo ?us = join '':'' ?ws"
    using decode_encoded_list[of ?ws] assms(7) by (simp add: ss_userinfo_def decode_or_def)
  have q: "(if q \<noteq> [] then ''?'' @ q else []) = query_part q" for q by (simp add: query_part_def)
  have gen: "genShadowsocksLink ip6 i = Some (''ss://'' @ ?us @ ''@'' @ gi_address i @ '':'' @ int_str (gi_port_of i)
      @ query_part (params_str (ss_params i stream)) @ ''#'' @ encode_uri_component (or_empty (gi_remark i)))"
    unfolding genShadowsocksLink_def assms(1,2) prod.case inbound_settings.case option.case Let_def assms(3)
      if_P[OF refl] q link_base_def plain_host_format[OF assms(5)] by simp
  show ?thesis
    unfolding gen bind.simps ss_import_def
      ss_link_read[OF nd assms(5,6) query_char_no_hash assms(8) disjI1[OF refl]] ui
    by (rule arg_cong[of _ _ Some], rule ss_split[OF assms(4) ne])
qed

lemma ss_safe_link_read:
  assumes us: "no_delim us" "us \<noteq> []" and l: "link_ok ''ss'' us h p" and ps: "params_ok ps" "distinct (map fst ps)"
    and r: "utf8_valid remark"
  shows "Option.bind (link_url ip6 (link_base ''ss'' us h p) ps remark) parseShadowsocksLink
    = Some (ss_outbound remark (ss_userinfo us) h (JInt p))"
proof -
  have h: "plain_host h" and p: "valid_port_no p" using l by (simp_all add: link_ok_def)
  let ?f = "if remark = [] then [] else ''#'' @ encode_uri_component remark"
  have f: "?f = ''#'' @ encode_uri_component remark \<or> ?f = [] \<and> remark = []" by simp
  have "parseShadowsocksLink (url_href (final_url ''ss'' us h p ps remark))
      = Some (ss_outbound remark (ss_userinfo us) h (JInt p))"
    unfolding final_href[OF p us(2)] using ss_link_read[OF us(1) h p query_char_no_hash r f, of ps]
    by simp
  then show ?thesis using link_url_ok(1)[OF l ps] by simp
qed

text \<open>
  The link of an older method holds the URL-safe base64 of method and password, which the parser
  gives to a decoder of the plain alphabet: the text itself is then taken for the password.
\<close>

theorem ss_url_safe_not_read:
  "parseShadowsocksLink (''ss://'' @ base64_encode_safe ''aes-256-gcm:???'' @ ''@'' @ ''h'' @ '':'' @ int_str 8443 @ ''#r'')
     = Some (ss_import ''r'' ''h'' 8443 ''YWVzLTI1Ni1nY206Pz8_'' ''2022-blake3-aes-128-gcm'')"
proof -
  let ?u = "''YWVzLTI1Ni1nY206Pz8_''"
  have e: "base64_encode_safe ''aes-256-gcm:???'' = ?u" by code_simp
  have d: "base64_decode ?u = None" by code_simp
  have n: "no_delim ?u" by (simp add: no_delim_def delims_def)
  have h: "plain_host ''h''" by (simp add: plain_host_def forbidden_host_def c0_set_def)
  have p: "valid_port_no 8443" by (simp add: valid_port_no_def)
  have r: "utf8_valid ''r''" by (rule utf8_valid_ascii) (simp add: is_ascii_def)
  have f: "''#r'' = ''#'' @ encode_uri_component ''r''" by code_simp
  have u: "ss_userinfo ?u = ?u" unfolding ss_userinfo_def d by simp
  from ss_link_read[OF n h p _ r disjI1[OF f], of "[]"] show ?thesis
    unfolding e u by (simp add: query_part_def ss_outbound_def ss_import_def)
qed

theorem ss2022_link_roundtrip_witness:
  "let st = \<lparr>ss_inb_method = ''2022-blake3-aes-128-gcm'', ss_inb_password = ''a+b=='', ss_inb_network = ''tcp'',
             ss_inb_clients = None, ss_inb_ivCheck = False\<rparr>;
       i = sample_input (InShadowsocks st) (sample_stream (NetTcp \<lparr>tcp_acceptProxyProtocol = False, tcp_header = None\<rparr>) SecNone) ''c/d:=''
   in Option.bind (genShadowsocksLink (\<lambda>_. None) i) parseShadowsocksLink
     = Some (ss_import ''my node'' ''v.example.com'' 8443 ''a+b==:c/d:='' ''2022-blake3-aes-128-gcm'')"
proof -
  let ?st = "\<lparr>ss_inb_method = ''2022-blake3-aes-128-gcm'', ss_inb_password = ''a+b=='', ss_inb_network = ''tcp'',
             ss_inb_clients = None, ss_inb_ivCheck = False\<rparr>"
  let ?stream = "sample_stream (NetTcp \<lparr>tcp_acceptProxyProtocol = False, tcp_header = None\<rparr>) SecNone"
  let ?i = "sample_input (InShadowsocks ?st) ?stream ''c/d:=''"
  have s: "in_settings (gi_inbound ?i) = InShadowsocks ?st" "in_stream (gi_inbound ?i) = Some ?stream"
    by (simp_all add: sample_input_def sample_inbound_def)
  have m: "take 4 (ss_inb_method ?st) = ''2022''" "CHR '':'' \<notin> set (ss_inb_method ?st)" by simp_all
  have h: "plain_host (gi_address ?i)"
    by (simp add: sample_input_def plain_host_def forbidden_host_def c0_set_def)
  have p: "valid_port_no (gi_port_of ?i)" by (simp add: sample_input_def gi_port_of_def valid_port_no_def)
  have w: "ss_passwords ?st (or_empty (gi_secret ?i)) = [''a+b=='', ''c/d:='']"
    by (simp add: ss_passwords_def sample_input_def or_empty_def)
  have a: "is_ascii x \<Longrightarrow> utf8_valid x" for x by (rule utf8_valid_ascii)
  have v: "list_all utf8_valid (ss_inb_method ?st # ss_passwords ?st (or_empty (gi_secret ?i)))"
    unfolding w by (simp add: a is_ascii_def)
  have r: "utf8_valid (or_empty (gi_remark ?i))"
    by (rule a) (simp add: is_ascii_def sample_input_def or_empty_def)
  show ?thesis
    unfolding Let_def ss2022_link_roundtrip[OF s m h p v r] w
    by (simp add: sample_input_def gi_port_of_def or_empty_def)
qed

end
