(* ===== verification/Wireguard_Field.thy ===== *)
theory Wireguard_Field
  imports Wireguard_Keys
begin

text \<open>
  The arithmetic of the \<open>Wireguard\<close> class is the arithmetic of the field modulo \<open>2^255 - 19\<close>: sixteen
  limbs stand for the number they spell in base \<open>2^16\<close>, every operation respects the residue of that
  number, and every intermediate limb stays far inside the 53 bits a double holds exactly. The
  public key is therefore the one of the same ladder run on residues.
\<close>

section \<open>The number of a limb list\<close>

fun limbs :: "int list \<Rightarrow> int" where
  "limbs [] = 0"
| "limbs (x # xs) = x + 65536 * limbs xs"

definition P25519 :: int where
  "P25519 = 2 ^ 255 - 19"

lemma P25519_pos: "0 < P25519" "1 < P25519"
  by (simp_all add: P25519_def)

lemma limbs_update: "i < length xs \<Longrightarrow> limbs (xs[i := v]) = limbs xs + (v - xs ! i) * 65536 ^ i"
proof (induction xs arbitrary: i)
  case (Cons x xs)
  show ?case
  proof (cases i)
    case (Suc k)
    then have "limbs (xs[k := v]) = limbs xs + (v - xs ! k) * 65536 ^ k" using Cons by simp
    then show ?thesis by (simp only: Suc list_update_code limbs.simps nth_Cons_Suc power_Suc) (simp add: algebra_simps)
  qed simp
qed simp

lemma limbs_replicate [simp]: "limbs (replicate n 0) = 0"
  by (induction n) auto

lemma limbs_append: "limbs (xs @ ys) = limbs xs + 65536 ^ length xs * limbs ys"
  by (induction xs) (simp_all add: algebra_simps)

lemma limbs_gf: "limbs (gf xs) = limbs xs"
  by (simp add: gf_def limbs_append)

lemma limbs_add: "length xs = length ys \<Longrightarrow> limbs (map2 (+) xs ys) = limbs xs + limbs ys"
  by (induction xs ys rule: list_induct2) (simp_all add: algebra_simps)

lemma limbs_diff: "length xs = length ys \<Longrightarrow> limbs (map2 (-) xs ys) = limbs xs - limbs ys"
  by (induction xs ys rule: list_induct2) (simp_all add: algebra_simps)

section \<open>Carrying\<close>

lemma length_carry_step [simp]: "length (carry_step i xs) = length xs"
  by (simp add: carry_step_def Let_def)

lemma length_fold_carry [simp]: "length (fold carry_step is xs) = length xs"
  by (induction "is" arbitrary: xs) simp_all

lemma length_carry [simp]: "length (carry xs) = length xs"
  by (simp add: carry_def)

lemma limbs_carry_step:
  assumes "length xs = 16" and "i < 16"
  shows "limbs (carry_step i xs) mod P25519 = limbs xs mod P25519"
proof -
  let ?q = "xs ! i div 65536" and ?r = "xs ! i mod 65536" and ?j = "(i + 1) mod 16"
  let ?k = "if i < 15 then 1 else 38 :: int"
  have x: "xs ! i = 65536 * ?q + ?r" by simp
  have ji: "?j \<noteq> i" "?j < 16" using assms(2) by (auto simp: mod_if)
  have s: "limbs (carry_step i xs) = limbs xs + ?k * ?q * 65536 ^ ?j + (?r - xs ! i) * 65536 ^ i"
    using assms ji by (simp add: carry_step_def Let_def limbs_update)
  have d: "?r - xs ! i = - (65536 * ?q)" using x by linarith
  show ?thesis
  proof (cases "i < 15")
    case True
    then have j: "?j = Suc i" by simp
    have "limbs (carry_step i xs) = limbs xs" using s True unfolding d j by simp
    then show ?thesis by simp
  next
    case False
    then have i: "i = 15" using assms(2) by simp
    have "limbs (carry_step i xs) = limbs xs + (38 * ?q - 65536 * ?q * 65536 ^ 15)"
      using s unfolding d by (simp add: i)
    also have "38 * ?q - 65536 * ?q * 65536 ^ 15 = P25519 * (- 2 * ?q)" by (simp add: P25519_def)
    finally show ?thesis by (simp only: mod_mult_self2)
  qed
qed

lemma limbs_fold_carry:
  "length xs = 16 \<Longrightarrow> list_all (\<lambda>i. i < 16) is \<Longrightarrow> limbs (fold carry_step is xs) mod P25519 = limbs xs mod P25519"
  by (induction "is" arbitrary: xs) (simp_all add: limbs_carry_step)

lemma limbs_carry: "length xs = 16 \<Longrightarrow> limbs (carry xs) mod P25519 = limbs xs mod P25519"
  unfolding carry_def by (rule limbs_fold_carry) (simp_all add: list_all_iff)

section \<open>Multiplication\<close>

lemma length_row_fold [simp]:
  "length (fold (\<lambda>j t. t[i + j := t ! (i + j) + a ! i * b ! j]) js t) = length t"
  by (induction js arbitrary: t) simp_all

lemma length_mult_row [simp]: "length (mult_row a b i t) = length t"
  by (simp add: mult_row_def)

lemma limbs_row_fold:
  assumes "i + n \<le> length t" and "n \<le> length b"
  shows "limbs (fold (\<lambda>j t. t[i + j := t ! (i + j) + a ! i * b ! j]) [0 ..< n] t)
     = limbs t + a ! i * limbs (take n b) * 65536 ^ i"
  using assms
proof (induction n)
  case (Suc n)
  have t: "take (Suc n) b = take n b @ [b ! n]" using Suc.prems by (simp add: take_Suc_conv_app_nth)
  let ?f = "\<lambda>j t. t[i + j := t ! (i + j) + a ! i * b ! j]"
  let ?t = "fold ?f [0 ..< n] t"
  have l: "length ?t = length t" by (rule length_row_fold)
  have "limbs (fold ?f [0 ..< Suc n] t) = limbs (?t[i + n := ?t ! (i + n) + a ! i * b ! n])" by simp
  also have "\<dots> = limbs ?t + a ! i * b ! n * 65536 ^ (i + n)"
    using Suc.prems l by (subst limbs_update) simp_all
  also have "limbs ?t = limbs t + a ! i * limbs (take n b) * 65536 ^ i" using Suc by simp
  also have "\<dots> + a ! i * b ! n * 65536 ^ (i + n) = limbs t + a ! i * limbs (take (Suc n) b) * 65536 ^ i"
    using Suc.prems by (simp add: t limbs_append power_add algebra_simps)
  finally show ?case .
qed simp

lemma limbs_mult_row:
  "length t = 31 \<Longrightarrow> length b = 16 \<Longrightarrow> i < 16 \<Longrightarrow> limbs (mult_row a b i t) = limbs t + a ! i * limbs b * 65536 ^ i"
  using limbs_row_fold[of i 16 t b a] by (simp add: mult_row_def)

lemma length_rows [simp]: "length (fold (mult_row a b) is t) = length t"
  by (induction "is" arbitrary: t) simp_all

lemma limbs_rows:
  assumes "length b = 16" and "length a = 16" and "n \<le> 16" and "length t = 31"
  shows "limbs (fold (mult_row a b) [0 ..< n] t) = limbs t + limbs (take n a) * limbs b"
  using assms(3)
proof (induction n)
  case (Suc n)
  have "take (Suc n) a = take n a @ [a ! n]" using Suc.prems assms(2) by (simp add: take_Suc_conv_app_nth)
  then show ?case
    using Suc assms by (simp add: limbs_mult_row limbs_append algebra_simps)
qed simp

lemma limbs_mult_table:
  "length a = 16 \<Longrightarrow> length b = 16 \<Longrightarrow> limbs (mult_table a b) = limbs a * limbs b"
  using limbs_rows[of b a 16 "replicate 31 0"] by (simp add: mult_table_def)

lemma length_mult_table [simp]: "length (mult_table a b) = 31"
  by (simp add: mult_table_def)

lemma length_fold_table_steps [simp]: "length (fold (\<lambda>i t. t[i := t ! i + 38 * t ! (i + 16)]) is t) = length t"
  by (induction "is" arbitrary: t) simp_all

lemma nth_fold_table:
  assumes "length t = 31" and "n \<le> 15"
  shows "fold (\<lambda>i t. t[i := t ! i + 38 * t ! (i + 16)]) [0 ..< n] t
    = map (\<lambda>i. if i < n then t ! i + 38 * t ! (i + 16) else t ! i) [0 ..< 31]"
  using assms(2)
proof (induction n)
  case 0
  then show ?case using map_nth[of t] assms(1) by simp
next
  case (Suc n)
  then show ?case by (intro nth_equalityI) (auto simp: nth_list_update)
qed

lemma fold_table_split:
  assumes "length t = 31"
  shows "take 16 (fold_table t) = map2 (+) (take 16 t) (map ((*) 38) (drop 16 t @ [0]))"
proof (rule nth_equalityI)
  let ?m = "map (\<lambda>i. if i < 15 then t ! i + 38 * t ! (i + 16) else t ! i) [0 ..< 31]"
  have f: "fold_table t = ?m" unfolding fold_table_def by (rule nth_fold_table[OF assms order.refl])
  show "length (take 16 (fold_table t)) = length (map2 (+) (take 16 t) (map ((*) 38) (drop 16 t @ [0])))"
    using assms by (simp add: f)
  fix i assume "i < length (take 16 (fold_table t))"
  then have i: "i < 16" by simp
  let ?u = "map ((*) 38) (drop 16 t @ [0])"
  have l: "i < length (take 16 t)" "i < length ?u" using i assms by simp_all
  have u: "?u ! i = 38 * (drop 16 t @ [0]) ! i" by (rule nth_map) (use i assms in simp)
  have v: "(drop 16 t @ [0]) ! i = (if i < 15 then t ! (16 + i) else 0)" using i assms by (auto simp: nth_append)
  have "take 16 (fold_table t) ! i = (if i < 15 then t ! i + 38 * t ! (i + 16) else t ! i)"
    using i by (simp add: f)
  also have "\<dots> = take 16 t ! i + ?u ! i"
    unfolding u v using i by (simp add: add.commute[of i 16])
  also have "\<dots> = map2 (+) (take 16 t) ?u ! i" using l by (simp only: nth_map length_zip min_less_iff_conj nth_zip prod.case)
  finally show "take 16 (fold_table t) ! i = map2 (+) (take 16 t) (map ((*) 38) (drop 16 t @ [0])) ! i" .
qed

lemma limbs_scale: "limbs (map ((*) k) xs) = k * limbs xs"
  by (induction xs) (simp_all add: algebra_simps)

lemma limbs_fold_table:
  assumes "length t = 31"
  shows "limbs (take 16 (fold_table t)) mod P25519 = limbs t mod P25519"
proof -
  have l: "length (take 16 t) = 16" "length (map ((*) 38) (drop 16 t @ [0])) = 16" using assms by simp_all
  have "limbs (take 16 (fold_table t)) = limbs (take 16 t) + 38 * limbs (drop 16 t @ [0])"
    unfolding fold_table_split[OF assms] limbs_scale[symmetric] using l by (subst limbs_add) simp_all
  also have "limbs (drop 16 t @ [0]) = limbs (drop 16 t)" by (simp add: limbs_append)
  finally have e: "limbs (take 16 (fold_table t)) = limbs (take 16 t) + 38 * limbs (drop 16 t)" .
  have "limbs t = limbs (take 16 t @ drop 16 t)" by simp
  also have "\<dots> = limbs (take 16 t) + 65536 ^ 16 * limbs (drop 16 t)"
    unfolding limbs_append using l(1) by (simp only:)
  also have "\<dots> = limbs (take 16 (fold_table t)) + P25519 * (2 * limbs (drop 16 t))"
    unfolding e by (simp add: P25519_def)
  finally show ?thesis by (simp only: mod_mult_self2)
qed

lemma length_multmod [simp]: "length (multmod a b) = 16"
proof -
  have "length (fold_table (mult_table a b)) = 31" by (simp add: fold_table_def)
  then show ?thesis by (simp add: multmod_def)
qed

lemma limbs_multmod:
  assumes "length a = 16" and "length b = 16"
  shows "limbs (multmod a b) mod P25519 = (limbs a * limbs b) mod P25519"
proof -
  have l: "length (take 16 (fold_table (mult_table a b))) = 16" by (simp add: fold_table_def)
  show ?thesis
    unfolding multmod_def
    using l by (simp add: limbs_carry limbs_fold_table limbs_mult_table[OF assms])
qed

section \<open>Bounds\<close>

definition small :: "int \<Rightarrow> int list \<Rightarrow> bool" where
  "small B xs \<longleftrightarrow> length xs = 16 \<and> (\<forall>i<16. \<bar>xs ! i\<bar> \<le> B)"

definition digits :: "int list \<Rightarrow> bool" where
  "digits xs \<longleftrightarrow> length xs = 16 \<and> (\<forall>i<16. 0 \<le> xs ! i \<and> xs ! i < 65536)"

text \<open>What a multiplication leaves: digits, but for a slack of 38 in the lowest limb.\<close>

definition reduced :: "int list \<Rightarrow> bool" where
  "reduced xs \<longleftrightarrow> length xs = 16 \<and> -38 \<le> xs ! 0 \<and> xs ! 0 \<le> 65573
     \<and> (\<forall>i<16. 0 < i \<longrightarrow> 0 \<le> xs ! i \<and> xs ! i < 65536)"

lemma carry_step_nth:
  assumes "length xs = 16" and "i < 15" and "k < 16"
  shows "carry_step i xs ! k =
    (if k = i then xs ! i mod 65536 else if k = Suc i then xs ! k + xs ! i div 65536 else xs ! k)"
proof -
  have j: "(i + 1) mod 16 = Suc i" using assms(2) by simp
  show ?thesis using assms unfolding carry_step_def Let_def j by (simp add: nth_list_update)
qed

lemma carry_step_last:
  assumes "length xs = 16" and "i < 16"
  shows "carry_step 15 xs ! i =
    (if i = 0 then xs ! 0 + 38 * (xs ! 15 div 65536) else if i = 15 then xs ! 15 mod 65536 else xs ! i)"
  using assms unfolding carry_step_def Let_def by (simp add: nth_list_update)

lemma carry_prefix:
  assumes len: "length xs = 16" and b: "\<And>i. i < 16 \<Longrightarrow> L i \<le> xs ! i \<and> xs ! i \<le> U i"
    and c0: "- (65536 * C 0) \<le> L 0" "U 0 \<le> 65536 * C 0 + 65535"
    and c: "\<And>i. 0 < i \<Longrightarrow> i < 16 \<Longrightarrow> - (65536 * C i) \<le> L i - C (i - 1) \<and> U i + C (i - 1) \<le> 65536 * C i + 65535"
    and k: "k < 16"
  shows "(\<forall>i<k. 0 \<le> fold carry_step [0 ..< k] xs ! i \<and> fold carry_step [0 ..< k] xs ! i < 65536)
    \<and> - (65536 * C k) \<le> fold carry_step [0 ..< k] xs ! k \<and> fold carry_step [0 ..< k] xs ! k \<le> 65536 * C k + 65535
    \<and> (\<forall>i<16. k < i \<longrightarrow> fold carry_step [0 ..< k] xs ! i = xs ! i)"
  using k
proof (induction k)
  case 0
  have "- (65536 * C 0) \<le> xs ! 0" "xs ! 0 \<le> 65536 * C 0 + 65535" using b[of 0] c0 by linarith+
  then show ?case by simp
next
  case (Suc k)
  let ?t = "fold carry_step [0 ..< k] xs"
  have ih: "\<forall>i<k. 0 \<le> ?t ! i \<and> ?t ! i < 65536" "- (65536 * C k) \<le> ?t ! k" "?t ! k \<le> 65536 * C k + 65535"
    "\<forall>i<16. k < i \<longrightarrow> ?t ! i = xs ! i"
    using Suc by simp_all
  have l: "length ?t = 16" using len by simp
  have k15: "k < 15" using Suc.prems by simp
  have q: "- C k \<le> ?t ! k div 65536" "?t ! k div 65536 \<le> C k" using ih(2,3) by linarith+
  have f: "fold carry_step [0 ..< Suc k] xs = carry_step k ?t" by simp
  note n = carry_step_nth[OF l k15]
  have "?t ! Suc k = xs ! Suc k" using ih(4) Suc.prems by simp
  then have s: "fold carry_step [0 ..< Suc k] xs ! Suc k = xs ! Suc k + ?t ! k div 65536"
    using n[of "Suc k"] Suc.prems by (simp only: f) simp
  have "- (65536 * C (Suc k)) \<le> L (Suc k) - C k" "U (Suc k) + C k \<le> 65536 * C (Suc k) + 65535"
    using c[of "Suc k"] Suc.prems by simp_all
  then have "- (65536 * C (Suc k)) \<le> fold carry_step [0 ..< Suc k] xs ! Suc k"
    "fold carry_step [0 ..< Suc k] xs ! Suc k \<le> 65536 * C (Suc k) + 65535"
    unfolding s using b[of "Suc k"] q Suc.prems by linarith+
  moreover have "0 \<le> fold carry_step [0 ..< Suc k] xs ! i \<and> fold carry_step [0 ..< Suc k] xs ! i < 65536" if "i < Suc k" for i
    unfolding f using n[of i] that Suc.prems ih(1) by (auto simp: less_Suc_eq)
  moreover have "fold carry_step [0 ..< Suc k] xs ! i = xs ! i" if "i < 16" "Suc k < i" for i
    unfolding f using n[of i] that ih(4) by simp
  ultimately show ?case by blast
qed

lemma carry_bounds:
  assumes len: "length xs = 16" and b: "\<And>i. i < 16 \<Longrightarrow> L i \<le> xs ! i \<and> xs ! i \<le> U i"
    and c0: "- (65536 * C 0) \<le> L 0" "U 0 \<le> 65536 * C 0 + 65535"
    and c: "\<And>i. 0 < i \<Longrightarrow> i < 16 \<Longrightarrow> - (65536 * C i) \<le> L i - C (i - 1) \<and> U i + C (i - 1) \<le> 65536 * C i + 65535"
  shows "- (38 * C 15) \<le> carry xs ! 0 \<and> carry xs ! 0 \<le> 65535 + 38 * C 15
    \<and> (\<forall>i<16. 0 < i \<longrightarrow> 0 \<le> carry xs ! i \<and> carry xs ! i < 65536)"
proof -
  let ?t = "fold carry_step [0 ..< 15] xs"
  have p: "\<forall>i<15. 0 \<le> ?t ! i \<and> ?t ! i < 65536" "- (65536 * C 15) \<le> ?t ! 15" "?t ! 15 \<le> 65536 * C 15 + 65535"
    using carry_prefix[of xs L U C 15, OF len b c0 c] by simp_all
  have q: "- C 15 \<le> ?t ! 15 div 65536" "?t ! 15 div 65536 \<le> C 15" using p(2,3) by linarith+
  have r: "[0 ..< 16] = [0 ..< 15] @ [15 :: nat]" by (simp add: upt_Suc_append[of 0 15, symmetric])
  have u: "carry xs = carry_step 15 ?t" by (simp only: carry_def r fold_append fold.simps comp_apply id_apply)
  have l: "length ?t = 16" using len by simp
  have n: "carry xs ! i = (if i = 0 then ?t ! 0 + 38 * (?t ! 15 div 65536) else if i = 15 then ?t ! 15 mod 65536 else ?t ! i)"
    if "i < 16" for i
    unfolding u by (rule carry_step_last[OF l that])
  have "0 \<le> ?t ! 0" "?t ! 0 < 65536" using p(1) by simp_all
  then have "- (38 * C 15) \<le> carry xs ! 0" "carry xs ! 0 \<le> 65535 + 38 * C 15" unfolding n[of 0, simplified] using q by linarith+
  moreover have "0 \<le> carry xs ! i \<and> carry xs ! i < 65536" if "i < 16" "0 < i" for i
  proof (cases "i = 15")
    case False
    with that p(1) n[of i] show ?thesis by simp
  qed (use n[of 15] in simp)
  ultimately show ?thesis by blast
qed

lemma mult_row_nth:
  assumes "length t = 31" and "i < 16" and "k < 31"
  shows "mult_row a b i t ! k = t ! k + (if i \<le> k \<and> k < i + 16 then a ! i * b ! (k - i) else 0)"
proof -
  have "fold (\<lambda>j t. t[i + j := t ! (i + j) + a ! i * b ! j]) [0 ..< n] t ! k
      = t ! k + (if i \<le> k \<and> k < i + n then a ! i * b ! (k - i) else 0)" if "n \<le> 16" for n
    using that
  proof (induction n)
    case (Suc n)
    then show ?case using assms by (auto simp: nth_list_update)
  qed simp
  from this[of 16] show ?thesis by (simp add: mult_row_def)
qed

lemma rows_bound:
  assumes "small B a" and "small B b" and "n \<le> 16" and "k < 31" and "0 \<le> B"
  shows "\<bar>fold (mult_row a b) [0 ..< n] (replicate 31 0) ! k\<bar> \<le> int n * (B * B)"
  using assms(3)
proof (induction n)
  case 0
  then show ?case using assms(4) by simp
next
  case (Suc n)
  let ?t = "fold (mult_row a b) [0 ..< n] (replicate 31 0)"
  have l: "length ?t = 31" by simp
  have "\<bar>a ! n * b ! (k - n)\<bar> \<le> B * B" if "n \<le> k" "k < n + 16"
    unfolding abs_mult using assms(1,2,5) Suc.prems that by (intro mult_mono) (auto simp: small_def)
  then have "\<bar>if n \<le> k \<and> k < n + 16 then a ! n * b ! (k - n) else 0\<bar> \<le> B * B" using assms(5) by auto
  moreover have "\<bar>?t ! k\<bar> \<le> int n * (B * B)" using Suc by simp
  moreover have "fold (mult_row a b) [0 ..< Suc n] (replicate 31 0) ! k
      = ?t ! k + (if n \<le> k \<and> k < n + 16 then a ! n * b ! (k - n) else 0)"
    using mult_row_nth[OF l, of n k a b] Suc.prems assms(4) by simp
  moreover have "int (Suc n) * (B * B) = int n * (B * B) + B * B" by (simp add: algebra_simps)
  ultimately show ?case by (smt (verit))
qed

text \<open>
  The carries of a multiplication: the first pass takes sums below \<open>2^46\<close>, the second one the digits it
  left beside a low limb below \<open>2^37\<close>.
\<close>

lemma table_bounds:
  assumes "small (2 ^ 18) a" and "small (2 ^ 18) b"
  shows "k < 31 \<Longrightarrow> \<bar>mult_table a b ! k\<bar> \<le> 2 ^ 40"
    and "i < 16 \<Longrightarrow> \<bar>take 16 (fold_table (mult_table a b)) ! i\<bar> \<le> 2 ^ 46"
proof -
  have t: "\<bar>mult_table a b ! k\<bar> \<le> 2 ^ 40" if "k < 31" for k
    using rows_bound[OF assms, of 16 k] that by (simp add: mult_table_def)
  then show "k < 31 \<Longrightarrow> \<bar>mult_table a b ! k\<bar> \<le> 2 ^ 40" .
  assume i: "i < 16"
  have "take 16 (fold_table (mult_table a b)) ! i
      = (if i < 15 then mult_table a b ! i + 38 * mult_table a b ! (i + 16) else mult_table a b ! i)"
    unfolding fold_table_def nth_fold_table[OF length_mult_table order.refl] using i by simp
  moreover have "\<bar>mult_table a b ! i + 38 * mult_table a b ! (i + 16)\<bar> \<le> 2 ^ 46" if "i < 15"
    using t[of i] t[of "i + 16"] that by (simp add: abs_le_iff)
  moreover have "\<bar>mult_table a b ! i\<bar> \<le> 2 ^ 46" using t[of i] i by simp
  ultimately show "\<bar>take 16 (fold_table (mult_table a b)) ! i\<bar> \<le> 2 ^ 46" by simp
qed

lemma multmod_reduced:
  assumes "small (2 ^ 18) a" and "small (2 ^ 18) b"
  shows "reduced (multmod a b)"
proof -
  let ?t = "take 16 (fold_table (mult_table a b))"
  have l: "length ?t = 16" by (simp add: fold_table_def)
  have b1: "- (2 ^ 46) \<le> ?t ! i \<and> ?t ! i \<le> 2 ^ 46" if "i < 16" for i
    using table_bounds(2)[OF assms that] by (simp add: abs_le_iff)
  have c1: "- (38 * 2 ^ 31) \<le> carry ?t ! 0 \<and> carry ?t ! 0 \<le> 65535 + 38 * 2 ^ 31
      \<and> (\<forall>i<16. 0 < i \<longrightarrow> 0 \<le> carry ?t ! i \<and> carry ?t ! i < 65536)"
    using carry_bounds[of ?t "\<lambda>_. - (2 ^ 46)" "\<lambda>_. 2 ^ 46" "\<lambda>_. 2 ^ 31", OF l b1] by simp
  let ?L = "\<lambda>i::nat. if i = 0 then - (38 * 2 ^ 31) else 0 :: int"
  let ?U = "\<lambda>i::nat. if i = 0 then 65535 + 38 * 2 ^ 31 else 65535 :: int"
  let ?C = "\<lambda>i::nat. if i = 0 then 2 ^ 21 else if i = 1 then 32 else 1 :: int"
  have b2: "?L i \<le> carry ?t ! i \<and> carry ?t ! i \<le> ?U i" if "i < 16" for i
    using c1 that by (cases "i = 0") force+
  have l2: "length (carry ?t) = 16" using l by simp
  have "- (38 * ?C 15) \<le> carry (carry ?t) ! 0 \<and> carry (carry ?t) ! 0 \<le> 65535 + 38 * ?C 15
      \<and> (\<forall>i<16. 0 < i \<longrightarrow> 0 \<le> carry (carry ?t) ! i \<and> carry (carry ?t) ! i < 65536)"
    by (rule carry_bounds[of "carry ?t" ?L ?U ?C, OF l2 b2]) auto
  then show ?thesis using l by (simp add: reduced_def multmod_def)
qed

lemma small_mono: "small A xs \<Longrightarrow> A \<le> B \<Longrightarrow> small B xs"
  by (force simp: small_def)

lemma reduced_small: "reduced xs \<Longrightarrow> small (2 ^ 17) xs"
proof -
  assume r: "reduced xs"
  have "\<bar>xs ! i\<bar> \<le> 2 ^ 17" if i: "i < 16" for i
  proof (cases "i = 0")
    case False
    then have "0 \<le> xs ! i \<and> xs ! i < 65536" using r i by (simp add: reduced_def)
    then show ?thesis by simp
  qed (use r in \<open>simp add: reduced_def abs_le_iff\<close>)
  then show ?thesis using r by (simp add: small_def reduced_def)
qed

lemma small18: "reduced xs \<Longrightarrow> small (2 ^ 18) xs"
  by (rule small_mono[OF reduced_small]) simp_all

lemma to_int32_id: "\<bar>x\<bar> \<le> 2 ^ 30 \<Longrightarrow> to_int32 x = x"
  unfolding to_int32_def by (rule signed_take_bit_int_eq_self) (auto simp: abs_le_iff)

lemma gf_add_exact:
  assumes "small (2 ^ 17) a" and "small (2 ^ 17) b"
  shows "gf_add a b = map2 (+) a b" and "small (2 ^ 18) (gf_add a b)" and "limbs (gf_add a b) = limbs a + limbs b"
proof -
  have l: "length a = 16" "length b = 16" using assms by (simp_all add: small_def)
  have s: "\<bar>a ! i + b ! i\<bar> \<le> 2 ^ 18" if "i < 16" for i
  proof -
    have "\<bar>a ! i\<bar> \<le> 2 ^ 17" "\<bar>b ! i\<bar> \<le> 2 ^ 17" using assms that by (simp_all add: small_def)
    then show ?thesis by simp
  qed
  have t: "to_int32 (a ! i + b ! i) = a ! i + b ! i" if "i < 16" for i
    using s[OF that] by (intro to_int32_id) simp
  show e: "gf_add a b = map2 (+) a b"
    unfolding gf_add_def using l t by (intro nth_equalityI) simp_all
  show "small (2 ^ 18) (gf_add a b)" unfolding e using l s by (simp add: small_def)
  show "limbs (gf_add a b) = limbs a + limbs b" unfolding e using l by (intro limbs_add) simp
qed

lemma gf_subtract_exact:
  assumes "small (2 ^ 17) a" and "small (2 ^ 17) b"
  shows "gf_subtract a b = map2 (-) a b" and "small (2 ^ 18) (gf_subtract a b)"
    and "limbs (gf_subtract a b) = limbs a - limbs b"
proof -
  have l: "length a = 16" "length b = 16" using assms by (simp_all add: small_def)
  have s: "\<bar>a ! i - b ! i\<bar> \<le> 2 ^ 18" if "i < 16" for i
  proof -
    have "\<bar>a ! i\<bar> \<le> 2 ^ 17" "\<bar>b ! i\<bar> \<le> 2 ^ 17" using assms that by (simp_all add: small_def)
    then show ?thesis by simp
  qed
  have t: "to_int32 (a ! i - b ! i) = a ! i - b ! i" if "i < 16" for i
    using s[OF that] by (intro to_int32_id) simp
  show e: "gf_subtract a b = map2 (-) a b"
    unfolding gf_subtract_def using l t by (intro nth_equalityI) simp_all
  show "small (2 ^ 18) (gf_subtract a b)" unfolding e using l s by (simp add: small_def)
  show "limbs (gf_subtract a b) = limbs a - limbs b" unfolding e using l by (intro limbs_diff) simp
qed

lemma small_int32:
  assumes "small (2 ^ 18) p" and "i < 16"
  shows "to_int32 (p ! i) = p ! i"
proof (rule to_int32_id)
  have "\<bar>p ! i\<bar> \<le> 2 ^ 18" using assms by (simp add: small_def)
  also have "(2 ^ 18 :: int) \<le> 2 ^ 30" by simp
  finally show "\<bar>p ! i\<bar> \<le> 2 ^ 30" .
qed

lemma xor_cancel: "x XOR (x XOR y) = y" "y XOR (x XOR y) = x" for x y :: int
  by (rule bit_eqI; auto simp: bit_xor_iff)+

lemma cswap_exact:
  assumes "small (2 ^ 18) p" and "small (2 ^ 18) q" and "r = 0 \<or> r = 1"
  shows "cswap p q r = (if r = 1 then (q, p) else (p, q))"
proof -
  have l: "length p = 16" "length q = 16" using assms by (simp_all add: small_def)
  have t: "to_int32 (p ! i) = p ! i" "to_int32 (q ! i) = q ! i" if "i < 16" for i
    using small_int32[OF assms(1) that] small_int32[OF assms(2) that] by blast+
  have one: "cswap1 (- 1) (p ! i) (q ! i) = (q ! i, p ! i)" "cswap1 0 (p ! i) (q ! i) = (p ! i, q ! i)" if "i < 16" for i
    unfolding cswap1_def Let_def t[OF that] by (simp_all add: xor_cancel)
  have c: "NOT (r - 1) = (if r = 1 then - 1 else 0)" using assms(3) by auto
  have z: "fst (zip p q ! i) = p ! i" "snd (zip p q ! i) = q ! i" if "i < 16" for i using l that by simp_all
  show ?thesis
  proof (cases "r = 1")
    case True
    have "map2 (\<lambda>x y. fst (cswap1 (- 1) x y)) p q = q" "map2 (\<lambda>x y. snd (cswap1 (- 1) x y)) p q = p"
      using l one(1) by (auto intro!: nth_equalityI)
    then show ?thesis unfolding cswap_def Let_def c by (simp add: True)
  next
    case False
    have "map2 (\<lambda>x y. fst (cswap1 0 x y)) p q = p" "map2 (\<lambda>x y. snd (cswap1 0 x y)) p q = q"
      using l one(2) by (auto intro!: nth_equalityI)
    then show ?thesis unfolding cswap_def Let_def c by (simp add: False)
  qed
qed

section \<open>The ladder on residues\<close>

text \<open>Equal residues.\<close>

definition same :: "int \<Rightarrow> int \<Rightarrow> bool" where
  "same x y \<longleftrightarrow> x mod P25519 = y mod P25519"

lemma same_refl: "same x x" by (simp add: same_def)

lemma same_sym: "same x y \<Longrightarrow> same y x" by (simp add: same_def)

lemma same_trans: "same x y \<Longrightarrow> same y z \<Longrightarrow> same x z" by (simp add: same_def)

lemma same_mod: "same (x mod P25519) x" by (simp add: same_def)

lemma same_add: "same a c \<Longrightarrow> same b d \<Longrightarrow> same (a + b) (c + d)"
  unfolding same_def by (metis mod_add_eq)

lemma same_diff: "same a c \<Longrightarrow> same b d \<Longrightarrow> same (a - b) (c - d)"
  unfolding same_def by (metis mod_diff_eq)

lemma same_mult: "same a c \<Longrightarrow> same b d \<Longrightarrow> same (a * b) (c * d)"
  unfolding same_def by (metis mod_mult_eq)

lemma same_power: "same a c \<Longrightarrow> same (a ^ n) (c ^ n)"
  unfolding same_def by (metis power_mod)

lemma same_multmod:
  assumes "small B a" and "small B b" and "same (limbs a) x" and "same (limbs b) y"
  shows "same (limbs (multmod a b)) (x * y)"
proof (rule same_trans[OF _ same_mult[OF assms(3,4)]])
  show "same (limbs (multmod a b)) (limbs a * limbs b)"
    using assms(1,2) by (simp add: same_def limbs_multmod small_def)
qed

text \<open>
  One step of the Montgomery ladder of RFC 7748 for the base point 9, on \<open>(x2, x3, z2, z3)\<close>.
\<close>

type_synonym field_ladder = "int \<times> int \<times> int \<times> int"

definition x25519_step :: "field_ladder \<Rightarrow> field_ladder" where
  "x25519_step s =
     (let (x2, x3, z2, z3) = s;
          A = x2 + z2; AA = A * A; B = x2 - z2; BB = B * B; E = AA - BB;
          DA = (x3 - z3) * A; CB = (x3 + z3) * B
      in ((AA * BB) mod P25519, ((DA + CB) * (DA + CB)) mod P25519,
          (E * (AA + 121665 * E)) mod P25519, (9 * ((DA - CB) * (DA - CB))) mod P25519))"

definition x25519_swap :: "int \<Rightarrow> field_ladder \<Rightarrow> field_ladder" where
  "x25519_swap r s = (let (x2, x3, z2, z3) = s in if r = 1 then (x3, x2, z3, z2) else (x2, x3, z2, z3))"

definition x25519_ladder :: "int list \<Rightarrow> field_ladder" where
  "x25519_ladder z =
     fold (\<lambda>i s. x25519_swap (key_bit z i) (x25519_step (x25519_swap (key_bit z i) s))) (rev [0 ..< 255]) (1, 9, 0, 1)"

definition x25519_public :: "int list \<Rightarrow> int" where
  "x25519_public z = (let (x2, x3, z2, z3) = x25519_ladder z in (x2 * z2 ^ (2 ^ 255 - 21)) mod P25519)"

definition abs_ladder :: "ladder \<Rightarrow> field_ladder" where
  "abs_ladder s =
     (let (a, b, c, d) = s in (limbs a mod P25519, limbs b mod P25519, limbs c mod P25519, limbs d mod P25519))"

definition ladder_ok :: "ladder \<Rightarrow> bool" where
  "ladder_ok s = (let (a, b, c, d) = s in reduced a \<and> reduced b \<and> reduced c \<and> reduced d)"

lemma reduced_gf: "reduced (gf [1])" "reduced (gf [9])" "reduced (gf [])" "small (2 ^ 18) (gf [56129, 1])" "small (2 ^ 18) (gf [9])"
proof -
  have g: "gf [x] = x # replicate 15 0" "gf [] = replicate 16 0" "gf [x, y] = x # y # replicate 14 0" for x y
    by (simp_all add: gf_def)
  show "reduced (gf [1])" "reduced (gf [9])" "reduced (gf [])"
    unfolding reduced_def g by (auto simp: nth_Cons' )
  show "small (2 ^ 18) (gf [56129, 1])" "small (2 ^ 18) (gf [9])"
    unfolding small_def g by (auto simp: nth_Cons')
qed

lemma ladder_core_refines:
  assumes "reduced a" and "reduced b" and "reduced c" and "reduced d"
  shows "ladder_ok (ladder_core (a, b, c, d)) \<and> abs_ladder (ladder_core (a, b, c, d)) = x25519_step (abs_ladder (a, b, c, d))"
proof -
  let ?X2 = "limbs a" and ?X3 = "limbs b" and ?Z2 = "limbs c" and ?Z3 = "limbs d"
  note r = reduced_small[OF assms(1)] reduced_small[OF assms(2)] reduced_small[OF assms(3)] reduced_small[OF assms(4)]
  define e where "e = gf_add a c"
  define a1 where "a1 = gf_subtract a c"
  define c1 where "c1 = gf_add b d"
  define b1 where "b1 = gf_subtract b d"
  have s1: "small (2 ^ 18) e" "small (2 ^ 18) a1" "small (2 ^ 18) c1" "small (2 ^ 18) b1"
    and v1: "limbs e = ?X2 + ?Z2" "limbs a1 = ?X2 - ?Z2" "limbs c1 = ?X3 + ?Z3" "limbs b1 = ?X3 - ?Z3"
    unfolding e_def a1_def c1_def b1_def
    using gf_add_exact[OF r(1,3)] gf_subtract_exact[OF r(1,3)] gf_add_exact[OF r(2,4)] gf_subtract_exact[OF r(2,4)]
    by blast+
  define d2 where "d2 = multmod e e"
  define f2 where "f2 = multmod a1 a1"
  define a2 where "a2 = multmod c1 a1"
  define c2 where "c2 = multmod b1 e"
  have r2: "reduced d2" "reduced f2" "reduced a2" "reduced c2"
    unfolding d2_def f2_def a2_def c2_def using s1 multmod_reduced by blast+
  have v2: "same (limbs d2) ((?X2 + ?Z2) * (?X2 + ?Z2))" "same (limbs f2) ((?X2 - ?Z2) * (?X2 - ?Z2))"
    "same (limbs a2) ((?X3 + ?Z3) * (?X2 - ?Z2))" "same (limbs c2) ((?X3 - ?Z3) * (?X2 + ?Z2))"
    unfolding d2_def f2_def a2_def c2_def v1[symmetric] using s1 same_multmod same_refl by blast+
  note q = reduced_small[OF r2(1)] reduced_small[OF r2(2)] reduced_small[OF r2(3)] reduced_small[OF r2(4)]
  define e3 where "e3 = gf_add a2 c2"
  define a3 where "a3 = gf_subtract a2 c2"
  define c3 where "c3 = gf_subtract d2 f2"
  have s3: "small (2 ^ 18) e3" "small (2 ^ 18) a3" "small (2 ^ 18) c3"
    and v3: "limbs e3 = limbs a2 + limbs c2" "limbs a3 = limbs a2 - limbs c2" "limbs c3 = limbs d2 - limbs f2"
    unfolding e3_def a3_def c3_def
    using gf_add_exact[OF q(3,4)] gf_subtract_exact[OF q(3,4)] gf_subtract_exact[OF q(1,2)] by blast+
  define b3 where "b3 = multmod a3 a3"
  define a4 where "a4 = multmod c3 (gf [56129, 1])"
  have r4: "reduced b3" "reduced a4" unfolding b3_def a4_def using s3 multmod_reduced reduced_gf(4) by blast+
  define a5 where "a5 = gf_add a4 d2"
  have s5: "small (2 ^ 18) a5" and v5: "limbs a5 = limbs a4 + limbs d2"
    unfolding a5_def using gf_add_exact[OF reduced_small[OF r4(2)] q(1)] by blast+
  define c6 where "c6 = multmod c3 a5"
  define a6 where "a6 = multmod d2 f2"
  define d6 where "d6 = multmod b3 (gf [9])"
  define b6 where "b6 = multmod e3 e3"
  have r6: "reduced c6" "reduced a6" "reduced d6" "reduced b6"
    unfolding c6_def a6_def d6_def b6_def
    using s3 s5 multmod_reduced small18[OF r2(1)] small18[OF r2(2)] small18[OF r4(1)] reduced_gf(5) by blast+
  have core: "ladder_core (a, b, c, d) = (a6, b6, c6, d6)"
    unfolding ladder_core_def Let_def prod.case a6_def b6_def c6_def d6_def e3_def a3_def c3_def b3_def a4_def a5_def
      d2_def f2_def a2_def c2_def e_def a1_def c1_def b1_def ..
  let ?A = "?X2 + ?Z2" and ?B = "?X2 - ?Z2" and ?CB = "(?X3 + ?Z3) * (?X2 - ?Z2)" and ?DA = "(?X3 - ?Z3) * (?X2 + ?Z2)"
  let ?E = "?A * ?A - ?B * ?B"
  have E: "same (limbs c3) ?E" unfolding v3 by (intro same_diff v2)
  have g: "limbs (gf [56129, 1]) = 121665" "limbs (gf [9]) = 9" by (simp_all add: limbs_gf)
  have a6: "same (limbs a6) ((?A * ?A) * (?B * ?B))"
    unfolding a6_def by (rule same_multmod[OF small18[OF r2(1)] small18[OF r2(2)] v2(1,2)])
  have e3: "same (limbs e3) (?CB + ?DA)" unfolding v3 by (intro same_add v2)
  have a3: "same (limbs a3) (?CB - ?DA)" unfolding v3 by (intro same_diff v2)
  have b6: "same (limbs b6) ((?CB + ?DA) * (?CB + ?DA))"
    unfolding b6_def by (rule same_multmod[OF s3(1) s3(1) e3 e3])
  have b3: "same (limbs b3) ((?CB - ?DA) * (?CB - ?DA))"
    unfolding b3_def by (rule same_multmod[OF s3(2) s3(2) a3 a3])
  have d6: "same (limbs d6) ((?CB - ?DA) * (?CB - ?DA) * 9)"
    unfolding d6_def by (rule same_multmod[OF small18[OF r4(1)] reduced_gf(5) b3]) (simp add: g same_refl)
  have a4: "same (limbs a4) (?E * 121665)"
    unfolding a4_def by (rule same_multmod[OF s3(3) reduced_gf(4) E]) (simp add: g same_refl)
  have c6: "same (limbs c6) (?E * (?E * 121665 + ?A * ?A))"
    unfolding c6_def by (rule same_multmod[OF s3(3) s5 E]) (unfold v5, intro same_add a4 v2)
  have "ladder_ok (a6, b6, c6, d6)" using r6 by (simp add: ladder_ok_def)
  moreover have "abs_ladder (a6, b6, c6, d6) = x25519_step (abs_ladder (a, b, c, d))"
  proof -
    have m: "same (?X2 mod P25519) ?X2" "same (?X3 mod P25519) ?X3" "same (?Z2 mod P25519) ?Z2" "same (?Z3 mod P25519) ?Z3"
      by (rule same_mod)+
    let ?x2 = "?X2 mod P25519" and ?x3 = "?X3 mod P25519" and ?z2 = "?Z2 mod P25519" and ?z3 = "?Z3 mod P25519"
    let ?a = "?x2 + ?z2" and ?b = "?x2 - ?z2"
    let ?da = "(?x3 - ?z3) * ?a" and ?cb = "(?x3 + ?z3) * ?b"
    let ?e = "?a * ?a - ?b * ?b"
    have k1: "same ((?A * ?A) * (?B * ?B)) ((?a * ?a) * (?b * ?b))"
      by (intro same_mult same_add same_diff same_sym[OF m(1)] same_sym[OF m(3)])
    have da: "same ?DA ?da" "same ?CB ?cb" by (intro same_mult same_add same_diff same_sym[OF m(1)]
        same_sym[OF m(2)] same_sym[OF m(3)] same_sym[OF m(4)])+
    have e: "same ?E ?e" by (intro same_mult same_add same_diff same_sym[OF m(1)] same_sym[OF m(3)])
    have aa: "same (?A * ?A) (?a * ?a)" by (intro same_mult same_add same_sym[OF m(1)] same_sym[OF m(3)])
    have "same ((?CB + ?DA) * (?CB + ?DA)) ((?cb + ?da) * (?cb + ?da))" by (intro same_mult same_add da)
    then have k2: "same ((?CB + ?DA) * (?CB + ?DA)) ((?da + ?cb) * (?da + ?cb))" by (simp only: add.commute)
    have "same (?E * (?E * 121665 + ?A * ?A)) (?e * (?e * 121665 + ?a * ?a))" by (intro same_mult same_add e aa same_refl)
    then have k3: "same (?E * (?E * 121665 + ?A * ?A)) (?e * (?a * ?a + 121665 * ?e))"
      by (simp only: add.commute mult.commute)
    have "same ((?CB - ?DA) * (?CB - ?DA) * 9) ((?cb - ?da) * (?cb - ?da) * 9)"
      by (intro same_mult same_diff da same_refl)
    moreover have "(u - v) * (u - v) * 9 = 9 * ((v - u) * (v - u))" for u v :: int by (simp add: algebra_simps)
    ultimately have k4: "same ((?CB - ?DA) * (?CB - ?DA) * 9) (9 * ((?da - ?cb) * (?da - ?cb)))" by (simp only:)
    show ?thesis
      unfolding abs_ladder_def prod.case Let_def x25519_step_def
      using same_trans[OF a6 k1] same_trans[OF b6 k2] same_trans[OF c6 k3] same_trans[OF d6 k4]
      by (simp only: same_def)
  qed
  ultimately show ?thesis by (simp only: core)
qed

lemma ladder_swap_refines:
  assumes "ladder_ok s" and "r = 0 \<or> r = 1"
  shows "ladder_ok (ladder_swap r s) \<and> abs_ladder (ladder_swap r s) = x25519_swap r (abs_ladder s)"
proof -
  obtain a b c d where s: "s = (a, b, c, d)" by (cases s)
  have r: "reduced a" "reduced b" "reduced c" "reduced d" using assms(1) by (simp_all add: s ladder_ok_def)
  have "cswap a b r = (if r = 1 then (b, a) else (a, b))" "cswap c d r = (if r = 1 then (d, c) else (c, d))"
    using cswap_exact[OF small18[OF r(1)] small18[OF r(2)] assms(2)] cswap_exact[OF small18[OF r(3)] small18[OF r(4)] assms(2)]
    by blast+
  then show ?thesis
    using r by (simp add: s ladder_swap_def Let_def x25519_swap_def abs_ladder_def ladder_ok_def)
qed

lemma key_bit_cases: "key_bit z i = 0 \<or> key_bit z i = 1"
  unfolding key_bit_def by (metis mod2_eq_if)

lemma ladder_step_refines:
  assumes "ladder_ok s"
  shows "ladder_ok (ladder_step z i s) \<and> abs_ladder (ladder_step z i s)
     = x25519_swap (key_bit z i) (x25519_step (x25519_swap (key_bit z i) (abs_ladder s)))"
proof -
  let ?r = "key_bit z i"
  note sw = ladder_swap_refines[OF assms key_bit_cases[of z i]]
  obtain a b c d where s: "ladder_swap ?r s = (a, b, c, d)" by (cases "ladder_swap ?r s")
  have "reduced a" "reduced b" "reduced c" "reduced d" using sw by (simp_all add: s ladder_ok_def)
  note co = ladder_core_refines[OF this]
  from ladder_swap_refines[OF conjunct1[OF co] key_bit_cases[of z i]] co sw show ?thesis
    by (simp add: ladder_step_def Let_def s)
qed

lemma ladder_refines:
  "ladder_ok s \<Longrightarrow> ladder_ok (fold (ladder_step z) is s) \<and> abs_ladder (fold (ladder_step z) is s)
     = fold (\<lambda>i s. x25519_swap (key_bit z i) (x25519_step (x25519_swap (key_bit z i) s))) is (abs_ladder s)"
proof (induction "is" arbitrary: s)
  case (Cons i ks)
  from Cons.IH[OF conjunct1[OF ladder_step_refines[OF Cons.prems, of z i]]] ladder_step_refines[OF Cons.prems, of z i]
  show ?case by simp
qed simp

section \<open>Inversion\<close>

definition inv_exp :: "nat \<Rightarrow> nat \<Rightarrow> nat" where
  "inv_exp a e = 2 * e + (if a \<noteq> 2 \<and> a \<noteq> 4 then 1 else 0)"

lemma invert_steps:
  assumes "reduced x"
  shows "reduced c \<Longrightarrow> same (limbs c) (limbs x ^ e) \<Longrightarrow>
    reduced (fold (invert_step x) as c) \<and> same (limbs (fold (invert_step x) as c)) (limbs x ^ fold inv_exp as e)"
proof (induction as arbitrary: c e)
  case (Cons a as)
  have r: "reduced (multmod c c)" by (rule multmod_reduced[OF small18 small18]) (rule Cons.prems)+
  have s: "same (limbs (multmod c c)) (limbs x ^ (2 * e))"
    using same_multmod[OF small18[OF Cons.prems(1)] small18[OF Cons.prems(1)] Cons.prems(2) Cons.prems(2)]
    by (simp add: mult_2 power_add)
  have "reduced (invert_step x a c) \<and> same (limbs (invert_step x a c)) (limbs x ^ inv_exp a e)"
  proof (cases "a \<noteq> 2 \<and> a \<noteq> 4")
    case True
    have "reduced (multmod (multmod c c) x)" by (rule multmod_reduced[OF small18[OF r] small18[OF assms]])
    moreover have "same (limbs (multmod (multmod c c) x)) (limbs x ^ (2 * e) * limbs x)"
      by (rule same_multmod[OF small18[OF r] small18[OF assms] s same_refl])
    ultimately show ?thesis using True by (simp add: invert_step_def Let_def inv_exp_def mult.commute)
  next
    case False
    then show ?thesis using r s by (auto simp: invert_step_def Let_def inv_exp_def)
  qed
  then show ?case using Cons.IH[of "invert_step x a c" "inv_exp a e"] by simp
qed simp

lemma inv_exp_run: "list_all (\<lambda>a. 5 \<le> a) as \<Longrightarrow> fold inv_exp as e + 1 = 2 ^ length as * (e + 1)"
  by (induction as arbitrary: e) (simp_all add: inv_exp_def algebra_simps)

lemma inv_exp_total: "fold inv_exp (rev [0 ..< 254]) 1 = 2 ^ 255 - 21"
proof -
  have n: "(5::nat) + 249 = 254" by simp
  have "[0 ..< 5 + 249] = [0 ..< 5] @ [5 ..< 5 + (249::nat)]" by (rule upt_add_eq_append) simp
  moreover have "rev [0 ..< 5] = [4, 3, 2, 1, 0 :: nat]" by (simp add: upt_rec)
  ultimately have sp: "rev [0 ..< 254] = rev [5 ..< 254] @ [4, 3, 2, 1, 0 :: nat]"
    unfolding n by (simp only: rev_append)
  have "fold inv_exp (rev [5 ..< 254]) 1 + 1 = 2 ^ 249 * 2"
    using inv_exp_run[of "rev [5 ..< 254]" 1] by (simp add: list_all_iff)
  then have "fold inv_exp (rev [5 ..< 254]) 1 = 2 ^ 249 * 2 - 1" by linarith
  then show ?thesis unfolding sp fold_append comp_apply by (simp add: inv_exp_def)
qed

text \<open>
  Inverting sixteen limbs raises the number they stand for to the power \<open>2^255 - 21\<close> modulo
  \<open>2^255 - 19\<close>, the exponent of Fermat's inverse, and leaves reduced limbs.
\<close>

theorem invert_is_power:
  assumes "reduced x"
  shows "reduced (invert x) \<and> limbs (invert x) mod P25519 = limbs x ^ nat (P25519 - 2) mod P25519"
proof -
  have "nat (P25519 - 2) = 2 ^ 255 - 21" by (simp add: P25519_def)
  moreover have "same (limbs x) (limbs x ^ 1)" by (simp add: same_refl)
  ultimately show ?thesis
    using invert_steps[OF assms assms, of 1 "rev [0 ..< 254]"]
    by (simp only: inv_exp_total invert_def same_def)
qed

theorem invert_is_power_witness: "limbs (invert (gf [9])) mod P25519 = 9 ^ nat (P25519 - 2) mod P25519"
  using invert_is_power[OF reduced_gf(2)] by (simp add: limbs_gf)

section \<open>Canonical bytes\<close>

lemma limbs_range: "list_all (\<lambda>x. 0 \<le> x \<and> x < 65536) xs \<Longrightarrow> 0 \<le> limbs xs \<and> limbs xs < 65536 ^ length xs"
proof (induction xs)
  case (Cons x xs)
  then have "0 \<le> limbs xs" "limbs xs + 1 \<le> 65536 ^ length xs" "0 \<le> x" "x \<le> 65535" by simp_all
  then have "0 \<le> x + 65536 * limbs xs" "x + 65536 * limbs xs < 65536 * 65536 ^ length xs" by linarith+
  then show ?case by simp
qed simp

lemma digits_list: "digits xs \<longleftrightarrow> length xs = 16 \<and> list_all (\<lambda>x. 0 \<le> x \<and> x < 65536) xs"
  by (auto simp: digits_def list_all_length)

lemma digits_range: "digits xs \<Longrightarrow> 0 \<le> limbs xs \<and> limbs xs < 2 ^ 256"
  using limbs_range[of xs] by (simp add: digits_list)

lemma carry_digits: "digits xs \<Longrightarrow> carry xs = xs"
proof -
  assume d: "digits xs"
  have step: "carry_step i xs = xs" if "i < 16" for i
  proof -
    have "xs ! i div 65536 = 0" "xs ! i mod 65536 = xs ! i" using d that by (simp_all add: digits_def)
    then show ?thesis by (simp add: carry_step_def Let_def)
  qed
  have "fold carry_step is xs = xs" if "list_all (\<lambda>i. i < 16) is" for "is"
    using that step by (induction "is") simp_all
  then show ?thesis by (simp add: carry_def list_all_iff)
qed

lemma exact_carry_step:
  assumes "length xs = 16" and "i < 15"
  shows "limbs (carry_step i xs) = limbs xs"
proof -
  let ?q = "xs ! i div 65536" and ?r = "xs ! i mod 65536"
  have j: "(i + 1) mod 16 = Suc i" using assms(2) by simp
  have d: "?r - xs ! i = - (65536 * ?q)" using mult_div_mod_eq[of 65536 "xs ! i"] by linarith
  have "limbs (carry_step i xs) = limbs xs + ?q * 65536 ^ Suc i + (?r - xs ! i) * 65536 ^ i"
    using assms by (simp add: carry_step_def Let_def limbs_update j)
  then show ?thesis unfolding d by simp
qed

lemma exact_carries:
  "length xs = 16 \<Longrightarrow> list_all (\<lambda>i. i < 15) is \<Longrightarrow> limbs (fold carry_step is xs) = limbs xs"
  by (induction "is" arbitrary: xs) (simp_all add: exact_carry_step)

lemma limbs_low: "xs \<noteq> [] \<Longrightarrow> limbs xs = xs ! 0 + 65536 * limbs (tl xs)"
  by (cases xs) simp_all

lemma carry_reduced:
  assumes r: "reduced xs"
  shows "digits (carry xs)"
proof -
  let ?t = "fold carry_step [0 ..< 15] xs"
  have len: "length xs = 16" using r by (simp add: reduced_def)
  let ?L = "\<lambda>i::nat. if i = 0 then -38 else 0 :: int" and ?U = "\<lambda>i::nat. if i = 0 then 65573 else 65535 :: int"
  have b: "?L i \<le> xs ! i \<and> xs ! i \<le> ?U i" if "i < 16" for i
    using r that by (cases "i = 0") (force simp: reduced_def)+
  have p: "\<forall>i<15. 0 \<le> ?t ! i \<and> ?t ! i < 65536" "- 65536 \<le> ?t ! 15" "?t ! 15 \<le> 131071"
    using carry_prefix[of xs ?L ?U "\<lambda>_. 1" 15, OF len b] by simp_all
  let ?q = "?t ! 15 div 65536" and ?r = "?t ! 15 mod 65536"
  have q: "?q = -1 \<or> ?q = 0 \<or> ?q = 1" using p(2,3) by linarith
  have l: "length ?t = 16" using len by simp
  have r15: "[0 ..< 16] = [0 ..< 15] @ [15 :: nat]" by (simp add: upt_Suc_append[of 0 15, symmetric])
  have u: "carry xs = carry_step 15 ?t" by (simp only: carry_def r15 fold_append fold.simps comp_apply id_apply)
  have n: "carry xs ! i = (if i = 0 then ?t ! 0 + 38 * ?q else if i = 15 then ?r else ?t ! i)" if "i < 16" for i
    unfolding u by (rule carry_step_last[OF l that])
  define D where "D = ?t[15 := ?r]"
  have dd: "digits D" unfolding D_def digits_def using l p(1) by (auto simp: nth_list_update)
  have vt: "limbs ?t = limbs xs" by (rule exact_carries[OF len]) (simp add: list_all_iff)
  have "limbs D = limbs ?t + (?r - ?t ! 15) * 65536 ^ 15" unfolding D_def using l by (simp add: limbs_update)
  moreover have "?r - ?t ! 15 = - (65536 * ?q)" using mult_div_mod_eq[of 65536 "?t ! 15"] by linarith
  ultimately have vd: "limbs D = limbs xs - ?q * 2 ^ 256" by (simp add: vt)
  have lD: "length D = 16" using dd by (simp only: digits_def)
  have tl0: "D \<noteq> []" using lD by (cases D) simp_all
  have tl1: "D ! 0 = ?t ! 0" unfolding D_def by simp
  have "list_all (\<lambda>x. 0 \<le> x \<and> x < 65536) (tl D)" using dd tl0 by (cases D) (simp_all add: digits_list)
  from limbs_range[OF this] have td: "0 \<le> limbs (tl D)" "limbs (tl D) < 65536 ^ 15" using lD by simp_all
  have D0: "limbs D = ?t ! 0 + 65536 * limbs (tl D)" using limbs_low[OF tl0] tl1 by simp
  have ne: "xs \<noteq> []" using len by auto
  have "list_all (\<lambda>x. 0 \<le> x \<and> x < 65536) (tl xs)"
    using r by (auto simp: reduced_def list_all_length nth_tl)
  from limbs_range[OF this] have tx: "0 \<le> limbs (tl xs)" "limbs (tl xs) < 65536 ^ 15" using len by simp_all
  have X0: "limbs xs = xs ! 0 + 65536 * limbs (tl xs)" by (rule limbs_low[OF ne])
  have x0: "-38 \<le> xs ! 0" "xs ! 0 \<le> 65573" using r by (simp_all add: reduced_def)
  have t0: "0 \<le> ?t ! 0" "?t ! 0 < 65536" using p(1) by simp_all
  have low: "0 \<le> ?t ! 0 + 38 * ?q \<and> ?t ! 0 + 38 * ?q < 65536"
    using q
  proof (elim disjE)
    assume q1: "?q = -1"
    have "-38 \<le> limbs xs" using X0 x0 tx by linarith
    then have "(2::int) ^ 256 - 38 \<le> limbs D" using vd by (simp add: q1)
    moreover have "65536 * limbs (tl D) \<le> 2 ^ 256 - 65536" using td(2) by simp
    ultimately have "65498 \<le> ?t ! 0" using D0 by linarith
    then show ?thesis using t0 by (simp add: q1)
  next
    assume q1: "?q = 1"
    have "limbs xs \<le> 2 ^ 256 + 37" using X0 x0 tx by simp
    then have "limbs D \<le> 37" using vd by (simp add: q1)
    then have "?t ! 0 \<le> 37" using D0 td(1) by linarith
    then show ?thesis using t0 by (simp add: q1)
  qed (use t0 in simp)
  have "0 \<le> carry xs ! i \<and> carry xs ! i < 65536" if i: "i < 16" for i
    using n[OF i] low p(1) i by (auto simp: less_Suc_eq)
  then show ?thesis using len by (simp add: digits_def)
qed

text \<open>The limbs of the modulus.\<close>

definition p_limbs :: "int list" where
  "p_limbs = 65517 # replicate 14 65535 @ [32767]"

lemma p_limbs_val: "limbs p_limbs = P25519" "length p_limbs = 16"
  by (simp_all add: p_limbs_def P25519_def eval_nat_numeral)

lemma p_limbs_nth: "0 < i \<Longrightarrow> i < 15 \<Longrightarrow> p_limbs ! i = 65535" "p_limbs ! 0 = 65517" "p_limbs ! 15 = 32767"
  by (auto simp: p_limbs_def nth_Cons' nth_append)

lemma borrow_value:
  assumes "- 65536 \<le> x" and "x < 65536"
  shows "(to_int32 x div 65536) mod 2 = (if x < 0 then 1 else 0)" and "(x mod 65536) - x = (if x < 0 then 65536 else 0)"
proof -
  have e: "to_int32 x = x" by (rule to_int32_id) (use assms in \<open>simp add: abs_le_iff\<close>)
  show "(to_int32 x div 65536) mod 2 = (if x < 0 then 1 else 0)"
  proof (cases "x < 0")
    case True
    then have "x div 65536 = -1" using assms by linarith
    then show ?thesis using True by (simp add: e)
  qed (use assms in \<open>simp add: e\<close>)
  show "(x mod 65536) - x = (if x < 0 then 65536 else 0)"
  proof (cases "x < 0")
    case True
    then have "x div 65536 = -1" using assms by linarith
    then show ?thesis using mult_div_mod_eq[of 65536 x] True by simp
  qed (use assms in simp)
qed

text \<open>The borrow chain of the packing: after \<open>k\<close> steps the difference of the first \<open>k + 1\<close> limbs.\<close>

definition sub_state :: "int list \<Rightarrow> nat \<Rightarrow> int list \<Rightarrow> bool" where
  "sub_state t k m \<longleftrightarrow> length m = 16 \<and> (\<forall>j<k. 0 \<le> m ! j \<and> m ! j < 65536)
     \<and> - 65536 \<le> m ! k \<and> m ! k < 65536 \<and> (\<forall>j<16. k < j \<longrightarrow> m ! j = 0)
     \<and> limbs m = limbs (take (Suc k) t) - limbs (take (Suc k) p_limbs)"

lemma take_limbs: "k < length xs \<Longrightarrow> limbs (take (Suc k) xs) = limbs (take k xs) + xs ! k * 65536 ^ k"
  by (simp add: take_Suc_conv_app_nth limbs_append)

lemma sub_limb_state:
  assumes t: "digits t" and s: "sub_state t k m" and k: "Suc k < 16"
  shows "sub_state t (Suc k) (sub_limb t (p_limbs ! Suc k) (Suc k) m)"
proof -
  let ?x = "m ! k" and ?d = "p_limbs ! Suc k"
  let ?bo = "(if ?x < 0 then 1 else 0) :: int"
  have l: "length m = 16" and x: "- 65536 \<le> ?x" "?x < 65536" and z: "m ! Suc k = 0"
    using s k by (simp_all add: sub_state_def)
  note b = borrow_value[OF x]
  have d: "0 \<le> ?d" "?d < 65536"
    using p_limbs_nth(1)[of "Suc k"] p_limbs_nth(3) k by (cases "Suc k = 15"; simp)+
  have td: "0 \<le> t ! Suc k" "t ! Suc k < 65536" using t k by (simp_all add: digits_def)
  let ?v = "t ! Suc k - ?d - ?bo"
  have e: "sub_limb t ?d (Suc k) m = m[Suc k := ?v, k := ?x mod 65536]"
    by (simp add: sub_limb_def Let_def b(1))
  have "limbs (m[Suc k := ?v, k := ?x mod 65536]) = limbs m + ?v * 65536 ^ Suc k + (?x mod 65536 - ?x) * 65536 ^ k"
    using l k z by (simp add: limbs_update)
  also have "(?x mod 65536 - ?x) * 65536 ^ k = ?bo * 65536 ^ Suc k" unfolding b(2) by simp
  also have "limbs m + ?v * 65536 ^ Suc k + ?bo * 65536 ^ Suc k = limbs m + (t ! Suc k - ?d) * 65536 ^ Suc k"
    by (simp add: algebra_simps)
  also have "\<dots> = limbs (take (Suc (Suc k)) t) - limbs (take (Suc (Suc k)) p_limbs)"
  proof -
    have a: "limbs m = limbs (take (Suc k) t) - limbs (take (Suc k) p_limbs)" using s by (simp only: sub_state_def)
    have "length t = 16" using t by (simp add: digits_def)
    then show ?thesis
      using take_limbs[of "Suc k" t] take_limbs[of "Suc k" p_limbs] k p_limbs_val(2) unfolding a
      by (simp only: left_diff_distrib)
  qed
  finally have val: "limbs (sub_limb t ?d (Suc k) m) = limbs (take (Suc (Suc k)) t) - limbs (take (Suc (Suc k)) p_limbs)"
    unfolding e .
  have "0 \<le> sub_limb t ?d (Suc k) m ! j \<and> sub_limb t ?d (Suc k) m ! j < 65536" if "j < Suc k" for j
    unfolding e using that s l k by (auto simp: nth_list_update sub_state_def less_Suc_eq)
  moreover have "sub_limb t ?d (Suc k) m ! Suc k = ?v" unfolding e using l k by (simp add: nth_list_update)
  then have "- 65536 \<le> sub_limb t ?d (Suc k) m ! Suc k" "sub_limb t ?d (Suc k) m ! Suc k < 65536"
    using td d by auto
  moreover have "sub_limb t ?d (Suc k) m ! j = 0" if "j < 16" "Suc k < j" for j
    unfolding e using that s l by (auto simp: nth_list_update sub_state_def)
  moreover have "length (sub_limb t ?d (Suc k) m) = 16" unfolding e using l by simp
  ultimately show ?thesis using val unfolding sub_state_def by blast
qed

lemma sub_start:
  assumes "digits t"
  shows "sub_state t 0 ((replicate 16 0)[0 := t ! 0 - 65517])"
proof -
  have l: "length t = 16" and d: "0 \<le> t ! 0" "t ! 0 < 65536" using assms by (simp_all add: digits_def)
  have "limbs ((replicate 16 0)[0 := t ! 0 - 65517]) = t ! 0 - 65517" by (simp add: limbs_update)
  moreover have "limbs (take (Suc 0) t) = t ! 0" "limbs (take (Suc 0) p_limbs) = 65517"
    using take_limbs[of 0 t] take_limbs[of 0 p_limbs] l p_limbs_val(2) p_limbs_nth(2) by simp_all
  ultimately show ?thesis using d by (auto simp: sub_state_def nth_list_update)
qed

lemma sub_fold_state:
  assumes "digits t" and "k < 15"
  shows "sub_state t k (fold (sub_limb t 65535) [1 ..< Suc k] ((replicate 16 0)[0 := t ! 0 - 65517]))"
  using assms(2)
proof (induction k)
  case 0
  then show ?case using sub_start[OF assms(1)] by simp
next
  case (Suc k)
  have "[1 ..< Suc (Suc k)] = [1 ..< Suc k] @ [Suc k]" by simp
  moreover have "p_limbs ! Suc k = 65535" using p_limbs_nth(1)[of "Suc k"] Suc.prems by simp
  ultimately show ?case using sub_limb_state[OF assms(1) Suc.IH] Suc.prems by simp
qed

lemma sub_state_final:
  assumes t: "digits t" and s: "sub_state t 15 m"
  shows "limbs m = limbs t - P25519" and "m ! 15 < 0 \<longleftrightarrow> limbs t < P25519"
    and "\<not> m ! 15 < 0 \<Longrightarrow> digits m" and "small (2 ^ 18) t" and "small (2 ^ 18) m"
proof -
  have l: "length t = 16" using t by (simp add: digits_def)
  have lm: "length m = 16" and low: "\<And>j. j < 15 \<Longrightarrow> 0 \<le> m ! j \<and> m ! j < 65536"
    and top: "- 65536 \<le> m ! 15" "m ! 15 < 65536"
    using s by (simp_all add: sub_state_def)
  have "take (Suc 15) t = t" "take (Suc 15) p_limbs = p_limbs" using l p_limbs_val(2) by simp_all
  then show val: "limbs m = limbs t - P25519" using s unfolding sub_state_def by (simp only: p_limbs_val(1))
  have d16: "limbs (take (Suc 15) m) = limbs (take 15 m) + m ! 15 * 65536 ^ 15" by (rule take_limbs) (simp add: lm)
  have "take (Suc 15) m = m" using lm by simp
  with d16 have a: "limbs m = limbs (take 15 m) + m ! 15 * 65536 ^ 15" by (simp only:)
  have "list_all (\<lambda>x. 0 \<le> x \<and> x < 65536) (take 15 m)" using low lm by (simp add: list_all_length)
  from limbs_range[OF this] have r: "0 \<le> limbs (take 15 m)" "limbs (take 15 m) < 65536 ^ 15" using lm by simp_all
  show "m ! 15 < 0 \<longleftrightarrow> limbs t < P25519"
  proof (cases "m ! 15 < 0")
    case True
    then have "m ! 15 * 65536 ^ 15 \<le> (- 1) * 65536 ^ 15" by (intro mult_right_mono) simp_all
    then have "limbs m < 0" using a r by linarith
    then show ?thesis using val True by linarith
  next
    case False
    then have "0 \<le> m ! 15 * 65536 ^ 15" by simp
    then have "0 \<le> limbs m" using a r by linarith
    then show ?thesis using val False by linarith
  qed
  show "digits m" if "\<not> m ! 15 < 0"
  proof -
    have "0 \<le> m ! i \<and> m ! i < 65536" if i: "i < 16" for i
    proof (cases "i = 15")
      case True
      then show ?thesis using top \<open>\<not> m ! 15 < 0\<close> by simp
    next
      case False
      then show ?thesis using low[of i] i by simp
    qed
    then show ?thesis using lm by (simp add: digits_def)
  qed
  have "\<bar>t ! i\<bar> \<le> 2 ^ 18" if "i < 16" for i using t that by (force simp: digits_def abs_le_iff)
  then show "small (2 ^ 18) t" using l by (simp add: small_def)
  have "\<bar>m ! i\<bar> \<le> 2 ^ 18" if i: "i < 16" for i
  proof (cases "i = 15")
    case True
    then show ?thesis using top by (simp add: abs_le_iff)
  next
    case False
    then show ?thesis using low[of i] i by (simp add: abs_le_iff)
  qed
  then show "small (2 ^ 18) m" using lm by (simp add: small_def)
qed

lemma pack_round_value:
  assumes t: "digits t"
  shows "digits (pack_round t) \<and> limbs (pack_round t) = (if P25519 \<le> limbs t then limbs t - P25519 else limbs t)"
proof -
  define m14 where "m14 = fold (sub_limb t 65535) [1 ..< 15] ((replicate 16 0)[0 := t ! 0 - 65517])"
  have s14: "sub_state t 14 m14" using sub_fold_state[OF t, of 14] by (simp add: m14_def)
  define m where "m = sub_limb t 32767 15 m14"
  have s15: "sub_state t 15 m" using sub_limb_state[OF t s14] p_limbs_nth(3) by (simp add: m_def)
  note f = sub_state_final[OF t s15]
  have top: "- 65536 \<le> m ! 15" "m ! 15 < 65536" using s15 by (simp_all add: sub_state_def)
  let ?b = "(to_int32 (m ! 15) div 65536) mod 2"
  note b = borrow_value(1)[OF top]
  have "length m14 = 16" using s14 by (simp add: sub_state_def)
  then have m15: "m ! 15 = t ! 15 - 32767 - (to_int32 (m14 ! 14) div 65536) mod 2"
    by (simp add: m_def sub_limb_def Let_def nth_list_update)
  let ?v = "t ! 15 - 32767 - (to_int32 (m14 ! 14) div 65536) mod 2"
  have pr0: "pack_round t = fst (cswap t (m14[15 := ?v, 14 := m14[15 := ?v] ! 14 mod 65536])
      (1 - (to_int32 (m14[15 := ?v] ! 15) div 65536) mod 2))"
    unfolding pack_round_def Let_def m14_def ..
  have "m = m14[15 := ?v, 14 := m14[15 := ?v] ! 14 mod 65536]" by (simp add: m_def sub_limb_def Let_def)
  moreover have "m14[15 := ?v] ! 15 = m ! 15" using \<open>length m14 = 16\<close> m15 by simp
  ultimately have pr: "pack_round t = fst (cswap t m (1 - ?b))" using pr0 by (simp only:)
  show ?thesis
  proof (cases "m ! 15 < 0")
    case True
    then have "?b = 1" using b by simp
    then show ?thesis using cswap_exact[OF f(4,5), of 0] f(2) True t pr by simp
  next
    case False
    then have "?b = 0" using b by simp
    then have e: "pack_round t = m" using cswap_exact[OF f(4,5), of 1] pr by simp
    show ?thesis unfolding e using f(1,2,3) False by simp
  qed
qed

definition bytes_num :: "int list \<Rightarrow> int" where
  "bytes_num bs = foldr (\<lambda>b n. b + 256 * n) bs 0"

lemma limb_bytes:
  assumes "0 \<le> x" and "x < 65536"
  shows "to_int32 x mod 256 + 256 * (to_int32 x div 256 mod 256) = x"
proof -
  have e: "to_int32 x = x" by (rule to_int32_id) (use assms in \<open>simp add: abs_le_iff\<close>)
  have "x div 256 mod 256 = x div 256" using assms by simp
  then show ?thesis unfolding e using mult_div_mod_eq[of 256 x] by linarith
qed

lemma pack_bytes:
  "list_all (\<lambda>x. 0 \<le> x \<and> x < 65536) xs \<Longrightarrow>
    bytes_num (concat (map (\<lambda>x. [to_int32 x mod 256, (to_int32 x div 256) mod 256]) xs)) = limbs xs"
proof (induction xs)
  case (Cons x xs)
  let ?r = "concat (map (\<lambda>x. [to_int32 x mod 256, (to_int32 x div 256) mod 256]) xs)"
  have "bytes_num ?r = limbs xs" using Cons by simp
  moreover have "to_int32 x mod 256 + 256 * (to_int32 x div 256 mod 256) = x"
    using Cons.prems by (intro limb_bytes) simp_all
  moreover have "bytes_num (concat (map (\<lambda>x. [to_int32 x mod 256, (to_int32 x div 256) mod 256]) (x # xs)))
      = to_int32 x mod 256 + 256 * (to_int32 x div 256 mod 256 + 256 * bytes_num ?r)"
    by (simp add: bytes_num_def)
  ultimately show ?case by simp
qed (simp add: bytes_num_def)

text \<open>
  Packing the result of a multiplication yields thirty-two bytes whose little-endian value is the
  number of the limbs reduced modulo \<open>2^255 - 19\<close>: the canonical encoding.
\<close>

lemma pack_canonical:
  assumes r: "reduced n"
  shows "length (pack n) = 32 \<and> list_all (\<lambda>b. 0 \<le> b \<and> b < 256) (pack n) \<and> bytes_num (pack n) = limbs n mod P25519"
proof -
  have d: "digits (carry n)" by (rule carry_reduced[OF r])
  have c: "carry (carry (carry n)) = carry n" by (simp only: carry_digits[OF d])
  let ?t = "carry n"
  note p1 = pack_round_value[OF d]
  note p2 = pack_round_value[OF conjunct1[OF p1]]
  let ?u = "pack_round (pack_round ?t)"
  have u: "digits ?u" using p2 by blast
  have len: "length n = 16" using r by (simp add: reduced_def)
  have rg: "0 \<le> limbs ?t" "limbs ?t < 2 ^ 256" using digits_range[OF d] by simp_all
  have "limbs ?u = limbs ?t mod P25519"
  proof -
    consider "limbs ?t < P25519" | "P25519 \<le> limbs ?t" "limbs ?t < 2 * P25519" | "2 * P25519 \<le> limbs ?t" by linarith
    then show ?thesis
    proof cases
      case 1
      then show ?thesis using p1 p2 rg by simp
    next
      case 2
      then have "limbs ?u = limbs ?t - P25519" using p1 p2 by simp
      moreover have "(limbs ?t - P25519) mod P25519 = limbs ?t - P25519" using 2 by (intro mod_pos_pos_trivial) simp_all
      ultimately show ?thesis by simp
    next
      case 3
      have e: "limbs ?t < 3 * P25519" using rg by (simp add: P25519_def)
      have "limbs ?u = limbs ?t - 2 * P25519" using p1 p2 3 P25519_pos by simp
      moreover have "(limbs ?t - 2 * P25519) mod P25519 = limbs ?t - 2 * P25519" using 3 e by (intro mod_pos_pos_trivial) simp_all
      moreover have "(limbs ?t + P25519 * (- 2)) mod P25519 = limbs ?t mod P25519" by (rule mod_mult_self2)
      moreover have "limbs ?t + P25519 * (- 2) = limbs ?t - 2 * P25519" by simp
      ultimately show ?thesis by (simp only:)
    qed
  qed
  also have "\<dots> = limbs n mod P25519" by (rule limbs_carry[OF len])
  finally have v: "limbs ?u = limbs n mod P25519" .
  have pk: "pack n = concat (map (\<lambda>x. [to_int32 x mod 256, (to_int32 x div 256) mod 256]) ?u)"
    unfolding pack_def Let_def c ..
  have la: "list_all (\<lambda>x. 0 \<le> x \<and> x < 65536) ?u" and lu: "length ?u = 16" using u by (simp_all only: digits_list)
  have "length (concat (map (\<lambda>x. [to_int32 x mod 256, (to_int32 x div 256) mod 256]) xs)) = 2 * length xs" for xs
    by (induction xs) simp_all
  moreover have "list_all (\<lambda>b. 0 \<le> b \<and> b < 256) (concat (map (\<lambda>x. [to_int32 x mod 256, (to_int32 x div 256) mod 256]) xs))" for xs
    by (induction xs) simp_all
  ultimately show ?thesis using pack_bytes[OF la] v lu by (simp only: pk) simp
qed

section \<open>The public key\<close>

lemma public_key_value:
  "length (generatePublicKey k) = 32 \<and> list_all (\<lambda>b. 0 \<le> b \<and> b < 256) (generatePublicKey k)
    \<and> bytes_num (generatePublicKey k) = x25519_public (clamp (pad32 k))"
proof -
  let ?z = "clamp (pad32 k)"
  define s where "s = fold (ladder_step ?z) (rev [0 ..< 255]) (gf [1], gf [9], gf [], gf [1])"
  obtain a b c d where e: "s = (a, b, c, d)" by (cases s)
  have ok: "ladder_ok (gf [1], gf [9], gf [], gf [1])" using reduced_gf by (simp add: ladder_ok_def)
  have l: "ladder_ok s \<and> abs_ladder s = x25519_ladder ?z"
  proof -
    have "abs_ladder (gf [1], gf [9], gf [], gf [1]) = (1, 9, 0, 1)"
      by (simp add: abs_ladder_def limbs_gf P25519_def)
    then show ?thesis using ladder_refines[OF ok, of ?z "rev [0 ..< 255]"] unfolding s_def x25519_ladder_def by (simp only:)
  qed
  have ra: "reduced a" and rc: "reduced c" using l by (simp_all add: e ladder_ok_def)
  note i = invert_steps[OF rc rc, of 1 "rev [0 ..< 254]", unfolded inv_exp_total]
  have i: "reduced (invert c)" "same (limbs (invert c)) (limbs c ^ (2 ^ 255 - 21))"
    using i same_refl[of "limbs c"] unfolding invert_def by simp_all
  have m: "reduced (multmod a (invert c))" by (rule multmod_reduced[OF small18[OF ra] small18[OF i(1)]])
  have v: "same (limbs (multmod a (invert c))) (limbs a * limbs c ^ (2 ^ 255 - 21))"
    by (rule same_multmod[OF small18[OF ra] small18[OF i(1)] same_refl i(2)])
  have g: "generatePublicKey k = pack (multmod a (invert c))"
    unfolding generatePublicKey_def Let_def s_def[symmetric] e by simp
  have x: "x25519_public ?z = (limbs a mod P25519) * (limbs c mod P25519) ^ (2 ^ 255 - 21) mod P25519"
  proof -
    have "x25519_ladder ?z = (limbs a mod P25519, limbs b mod P25519, limbs c mod P25519, limbs d mod P25519)"
      using l by (simp add: abs_ladder_def e)
    then show ?thesis unfolding x25519_public_def by (simp only: Let_def prod.case)
  qed
  have "(limbs a mod P25519) * (limbs c mod P25519) ^ n mod P25519 = limbs a * limbs c ^ n mod P25519" for n
    by (metis mod_mult_eq mod_mult_left_eq power_mod)
  then have "x25519_public ?z = limbs (multmod a (invert c)) mod P25519" using v unfolding x same_def by (simp only:)
  then show ?thesis using pack_canonical[OF m] by (simp only: g)
qed

text \<open>
  C2
  The public key computed for any private key is the canonical 32-byte encoding of the X25519 function
  on the base point 9: the Montgomery ladder over the residues modulo \<open>2^255 - 19\<close> and Fermat's
  inverse, for the clamped private key.
\<close>

theorem public_key_refines:
  "length (generatePublicKey k) = 32 \<and> list_all (\<lambda>b. 0 \<le> b \<and> b < 256) (generatePublicKey k)
    \<and> bytes_num (generatePublicKey k) = x25519_public (clamp (pad32 k))"
  by (rule public_key_value)

section \<open>The base64 form of a key\<close>

lemma b64_codes: "map (\<lambda>n. b64_code (int n)) [0 ..< 64] = map (\<lambda>c. int (byte c)) b64_chars"
  by code_simp

lemma b64_code_char:
  assumes "n < 64"
  shows "char_of (nat (b64_code (int n))) = b64_char n"
proof -
  have "b64_code (int n) = int (byte (b64_chars ! n))"
    using arg_cong[OF b64_codes, of "\<lambda>xs. xs ! n"] assms by (simp add: b64_chars_length)
  then show ?thesis by (simp add: b64_char_def)
qed

lemma push_or:
  fixes x y :: int
  assumes "0 \<le> y" and "y < 2 ^ n"
  shows "push_bit n x OR y = x * 2 ^ n + y"
proof -
  have "take_bit n y = y" using assms by (simp add: take_bit_int_eq_self)
  then have b: "bit y m \<Longrightarrow> m < n" for m by (metis bit_take_bit_iff)
  have "push_bit n x + y = push_bit n x OR y"
    by (rule disjunctive_add) (use b in \<open>force simp: bit_push_bit_iff_int\<close>)
  then show ?thesis by (simp add: push_bit_eq_mult)
qed

lemma and_63: "x AND 63 = x mod (64 :: int)"
proof -
  have "x AND mask 6 = take_bit 6 x" by (simp add: take_bit_eq_mask)
  then show ?thesis by (simp add: mask_eq_exp_minus_1 take_bit_eq_mod)
qed

lemma key_sextets:
  assumes "a < 256" and "b < 256" and "c < 256"
  shows "drop_bit 2 (int a) AND 63 = int (sx1 a)"
    and "(push_bit 4 (int a) OR drop_bit 4 (int b)) AND 63 = int (sx2 a b)"
    and "(push_bit 2 (int b) OR drop_bit 6 (int c)) AND 63 = int (sx3 b c)"
    and "int c AND 63 = int (sx4 c)"
proof -
  show "drop_bit 2 (int a) AND 63 = int (sx1 a)"
    using assms(1) by (simp add: and_63 drop_bit_eq_div sx1_def zdiv_int)
  have "push_bit 4 (int a) OR drop_bit 4 (int b) = int a * 2 ^ 4 + drop_bit 4 (int b)"
    by (rule push_or) (use assms(2) in \<open>simp_all add: drop_bit_eq_div\<close>)
  also have "\<dots> = int (a * 16 + b div 16)" by (simp add: drop_bit_eq_div zdiv_int)
  finally have e: "push_bit 4 (int a) OR drop_bit 4 (int b) = int (a * 16 + b div 16)" .
  have "(a * 16 + b div 16) mod 64 = a mod 4 * 16 + b div 16"
    using mod_mult2_eq[of "a * 16 + b div 16" 16 4] assms(2) by simp
  then show "(push_bit 4 (int a) OR drop_bit 4 (int b)) AND 63 = int (sx2 a b)"
    unfolding e and_63 sx2_def by (metis of_nat_mod of_nat_numeral)
  have "push_bit 2 (int b) OR drop_bit 6 (int c) = int b * 2 ^ 2 + drop_bit 6 (int c)"
    by (rule push_or) (use assms(3) in \<open>simp_all add: drop_bit_eq_div\<close>)
  also have "\<dots> = int (b * 4 + c div 64)" by (simp add: drop_bit_eq_div zdiv_int)
  finally have f: "push_bit 2 (int b) OR drop_bit 6 (int c) = int (b * 4 + c div 64)" .
  have "(b * 4 + c div 64) mod 64 = b mod 16 * 4 + c div 64"
    using mod_mult2_eq[of "b * 4 + c div 64" 4 16] assms(3) by simp
  then show "(push_bit 2 (int b) OR drop_bit 6 (int c)) AND 63 = int (sx3 b c)"
    unfolding f and_63 sx3_def by (metis of_nat_mod of_nat_numeral)
  show "int c AND 63 = int (sx4 c)" unfolding and_63 sx4_def by (simp add: zmod_int)
qed

lemma encode_group:
  assumes "a < 256" and "b < 256" and "c < 256"
  shows "map (\<lambda>x. char_of (nat x)) (encodeBase64 (int a) (int b) (int c))
    = [b64_char (sx1 a), b64_char (sx2 a b), b64_char (sx3 b c), b64_char (sx4 c)]"
  unfolding encodeBase64_def key_sextets[OF assms]
  using sextets(1)[OF assms(1)] sextets(2)[OF assms(2)] sextets(3)[OF assms(3)] sextets(4)
  by (simp add: b64_code_char)

definition key_groups :: "int list \<Rightarrow> nat \<Rightarrow> int list" where
  "key_groups key n =
     concat (map (\<lambda>i. encodeBase64 (key_byte key (3 * i)) (key_byte key (3 * i + 1)) (key_byte key (3 * i + 2))) [0 ..< n])"

lemma key_groups_rec:
  "key_groups (x # y # z # ks) (Suc n) = encodeBase64 x y z @ key_groups ks n"
proof -
  have u: "[0 ..< Suc n] = 0 # map Suc [0 ..< n]" unfolding map_Suc_upt by (rule upt_conv_Cons) simp
  have "key_byte (x # y # z # ks) (3 * Suc i + j) = key_byte ks (3 * i + j)" for i j
    by (simp add: key_byte_def)
  from this[of _ 0] this[of _ 1] this[of _ 2] show ?thesis
    unfolding key_groups_def u by (simp only: list.map concat.simps map_map comp_def add_0_right) (simp add: key_byte_def)
qed

lemma groups_body:
  assumes "length s = 3 * n + 2"
  shows "map (\<lambda>x. char_of (nat x)) (key_groups (map (\<lambda>c. int (byte c)) s) (Suc n)) = b64_body s @ ''A''"
  using assms
proof (induction n arbitrary: s)
  case 0
  then obtain a b where s: "s = [a, b]" by (auto simp: length_Suc_conv numeral_2_eq_2)
  have "b64_char (sx4 0) = CHR ''A''" by (simp add: sx4_def b64_char_def b64_chars_def)
  then show ?case using encode_group[of "byte a" "byte b" 0]
    by (simp add: s key_groups_def key_byte_def byte_def)
next
  case (Suc n)
  have "length s = Suc (Suc (Suc (3 * n + 2)))" using Suc.prems by simp
  then obtain a b c r where s: "s = a # b # c # r" unfolding length_Suc_conv by blast
  then have r: "length r = 3 * n + 2" using Suc.prems by simp
  show ?case
    unfolding s list.map key_groups_rec map_append Suc.IH[OF r] b64_body.simps
    using encode_group[of "byte a" "byte b" "byte c"] by (simp add: byte_def)
qed

lemma key_text:
  assumes "length key = 32" and "list_all (\<lambda>b. 0 \<le> b \<and> b < 256) key"
  shows "keyToBase64 key = btoa (map (\<lambda>b. char_of (nat b)) key) \<and> keyFromBase64 (keyToBase64 key) = Some key"
proof -
  let ?s = "map (\<lambda>b. char_of (nat b)) key :: string"
  have k: "map (\<lambda>c. int (byte c)) ?s = key"
    unfolding map_map by (rule map_idI) (use assms(2) in \<open>auto simp: byte_def list_all_iff\<close>)
  have l: "length ?s = 3 * 10 + 2" using assms(1) by simp
  let ?g = "key_groups key 11"
  have g: "map (\<lambda>x. char_of (nat x)) ?g = b64_body ?s @ ''A''"
    using groups_body[OF l] unfolding k by simp
  have "length ?g = 44" by (simp add: key_groups_def length_concat encodeBase64_def comp_def sum_list_triv)
  then have "length (b64_body ?s) = 43" using arg_cong[OF g, of length] by simp
  then have "(b64_body ?s @ ''A'')[43 := CHR ''=''] = b64_body ?s @ ''=''" by (simp add: list_update_append)
  moreover have eq_char: "char_of (nat 61) = CHR ''=''" by code_simp
  moreover have "keyToBase64 key = (map (\<lambda>x. char_of (nat x)) ?g)[43 := CHR ''='']"
    unfolding keyToBase64_def Let_def key_groups_def[symmetric] map_update eq_char by (rule refl)
  ultimately have e: "keyToBase64 key = btoa ?s" using g assms(1) by (simp add: btoa_def b64_pad_def)
  then show ?thesis using k by (simp add: keyFromBase64_def atob_btoa)
qed

lemma keyToBase64_ne: "keyToBase64 key \<noteq> []"
  by (simp add: keyToBase64_def Let_def encodeBase64_def upt_rec)

text \<open>
  The constant-time base64 writer of the keys agrees with \<open>btoa\<close> on 32-byte keys, so that a key read
  back from its text is the key.
\<close>

theorem key_text_roundtrip:
  assumes "length key = 32" and "list_all (\<lambda>b. 0 \<le> b \<and> b < 256) key"
  shows "keyToBase64 key = btoa (map (\<lambda>b. char_of (nat b)) key) \<and> keyFromBase64 (keyToBase64 key) = Some key"
  by (rule key_text[OF assms])

theorem key_text_roundtrip_witness:
  "keyFromBase64 (keyToBase64 (replicate 32 200)) = Some (replicate 32 200)"
  by (rule conjunct2[OF key_text_roundtrip]) (simp_all only: length_replicate list_all_iff set_replicate_conv_if, simp)

text \<open>
  Every number a multiplication of limbs below \<open>2^18\<close> forms is an integer far below the \<open>2^53\<close> up to
  which doubles are exact: each sum of the product table stays within \<open>2^40\<close>, after any number of
  rows, the folded table within \<open>2^46\<close>, and the result is digits again but for a slack of 38.
\<close>

theorem multmod_exact:
  assumes "small (2 ^ 18) a" and "small (2 ^ 18) b"
  shows "(\<forall>n\<le>16. \<forall>k<31. \<bar>fold (mult_row a b) [0 ..< n] (replicate 31 0) ! k\<bar> \<le> 2 ^ 40)
    \<and> (\<forall>i<16. \<bar>fold_table (mult_table a b) ! i\<bar> \<le> 2 ^ 46) \<and> reduced (multmod a b)"
proof -
  have "\<bar>fold (mult_row a b) [0 ..< n] (replicate 31 0) ! k\<bar> \<le> 2 ^ 40" if "n \<le> 16" "k < 31" for n k
  proof -
    have "\<bar>fold (mult_row a b) [0 ..< n] (replicate 31 0) ! k\<bar> \<le> int n * (2 ^ 18 * 2 ^ 18)"
      by (rule rows_bound[OF assms that]) simp
    also have "\<dots> \<le> 16 * (2 ^ 18 * 2 ^ 18)" using that(1) by (intro mult_right_mono) simp_all
    finally show ?thesis by simp
  qed
  moreover have "\<bar>fold_table (mult_table a b) ! i\<bar> \<le> 2 ^ 46" if "i < 16" for i
    using table_bounds(2)[OF assms that] that by simp
  ultimately show ?thesis using multmod_reduced[OF assms] by blast
qed

theorem multmod_exact_witness: "reduced (multmod (gf [9]) (gf [56129, 1]))"
  using multmod_exact[OF reduced_gf(5,4)] by blast

section \<open>Key pairs\<close>

lemma clamp_bytes:
  assumes "length z = 32" and "list_all (\<lambda>b. 0 \<le> b \<and> b < 256) z"
  shows "length (clamp z) = 32 \<and> list_all (\<lambda>b. 0 \<le> b \<and> b < 256) (clamp z)"
proof -
  have z: "0 \<le> z ! i" "z ! i < 256" if "i < 32" for i using assms that by (simp_all add: list_all_length)
  have "z ! 31 AND 127 \<le> 127" by (rule AND_upper2) simp
  then have "(z ! 31 AND 127) OR 64 < 2 ^ 8" by (intro OR_upper) simp_all
  moreover have "z ! 0 AND 248 \<le> 248" by (rule AND_upper2) simp
  ultimately show ?thesis
    using assms(1) z by (auto simp: clamp_def Let_def list_all_length nth_list_update)
qed

lemma clamp_idem:
  assumes "length z = 32"
  shows "clamp (clamp z) = clamp z"
proof -
  have "((x AND 127) OR 64) AND 127 OR 64 = (x AND 127) OR (64 :: int)" for x
    by (simp add: bit.conj_disj_distrib2 and.assoc or.assoc)
  moreover have "(x AND 248) AND 248 = (x AND (248 :: int))" for x by (simp add: and.assoc)
  ultimately show ?thesis
    using assms by (simp add: clamp_def Let_def nth_list_update list_update_swap)
qed

lemma pad32_id: "length z = 32 \<Longrightarrow> pad32 z = z"
  by (rule nth_equalityI) (simp_all add: pad32_def)

text \<open>
  A freshly drawn key pair reads back: deriving a pair from the text of its private key gives the same
  pair, and the bytes of the public text are the X25519 value of the clamped drawn bytes.
\<close>

theorem keypair_consistent:
  assumes "length drawn = 32" and "list_all (\<lambda>b. 0 \<le> b \<and> b < 256) drawn"
  shows "\<exists>pub priv. generateKeypair drawn [] = Some (pub, priv)
    \<and> generateKeypair other priv = Some (pub, priv)
    \<and> keyFromBase64 priv = Some (clamp drawn)
    \<and> map_option bytes_num (keyFromBase64 pub) = Some (x25519_public (clamp drawn))"
proof -
  let ?k = "clamp drawn"
  note c = clamp_bytes[OF assms]
  note pub = public_key_value[of ?k]
  have rp: "keyFromBase64 (keyToBase64 (generatePublicKey ?k)) = Some (generatePublicKey ?k)"
    using key_text pub by blast
  have rk: "keyFromBase64 (keyToBase64 ?k) = Some ?k" using key_text c by blast
  have v: "bytes_num (generatePublicKey ?k) = x25519_public ?k"
    using pub by (simp add: pad32_id[OF conjunct1[OF c]] clamp_idem[OF assms(1)])
  have ne: "keyToBase64 ?k \<noteq> []" by (rule keyToBase64_ne)
  have "generateKeypair drawn [] = Some (keyToBase64 (generatePublicKey ?k), keyToBase64 ?k)"
    by (simp add: generateKeypair_def generatePrivateKey_def generatePresharedKey_def)
  moreover have "generateKeypair other (keyToBase64 ?k) = Some (keyToBase64 (generatePublicKey ?k), keyToBase64 ?k)"
    using ne by (simp add: generateKeypair_def rk)
  ultimately show ?thesis using rk rp v by simp
qed

theorem keypair_consistent_witness:
  "\<exists>pub priv. generateKeypair (replicate 32 7) [] = Some (pub, priv)
    \<and> generateKeypair [] priv = Some (pub, priv)
    \<and> keyFromBase64 priv = Some (clamp (replicate 32 7))
    \<and> map_option bytes_num (keyFromBase64 pub) = Some (x25519_public (clamp (replicate 32 7)))"
  by (rule keypair_consistent) (simp_all only: length_replicate list_all_iff set_replicate_conv_if, simp)

end
