(* ===== verification/Routing_Config.thy ===== *)
theory Routing_Config
  imports Js_Text
begin

text \<open>
  The edits the basic routing, outbound and balancer tabs make to the xray template:
  \<open>ruleGetter\<close>, \<open>ruleSetter\<close>, \<open>syncOutbound\<close> and \<open>propagateOutboundTagRename\<close> of
  \<open>pages/xray/basics/helpers.ts\<close> and \<open>syncObservatories\<close> of
  \<open>pages/xray/balancers/balancer-helpers.ts\<close>.

  The template is the parsed JSON object, which nothing forces to fit its schema. The functions that
  mutate it return the new template, or \<open>None\<close> where the code throws a \<open>TypeError\<close>; \<open>None\<close> also
  stands for a \<open>routing\<close> or an observatory that is an array, to which the code would attach a named
  property. The entries of a selector are compared by value, as the strings the schema asks for.
\<close>

section \<open>Rules of one outbound tag\<close>

definition own_prop :: "js \<Rightarrow> string \<Rightarrow> bool" where
  "own_prop v k = (case v of JObj o1 \<Rightarrow> ohas o1 k | _ \<Rightarrow> False)"

definition rule_matches :: "string \<Rightarrow> string \<Rightarrow> js \<Rightarrow> bool" where
  "rule_matches outboundTag property rule \<longleftrightarrow>
     own_prop rule property \<and> own_prop rule ''outboundTag'' \<and> jget rule ''outboundTag'' = JStr outboundTag"

definition js_elems :: "js \<Rightarrow> js list" where
  "js_elems v = (case v of JArr xs \<Rightarrow> xs | _ \<Rightarrow> [])"

text \<open>The values of all matching rules, in order.\<close>

definition rule_values :: "js list \<Rightarrow> string \<Rightarrow> string \<Rightarrow> js list" where
  "rule_values rules outboundTag property =
     concat (map (\<lambda>rule. js_elems (jget rule property)) (filter (rule_matches outboundTag property) rules))"

text \<open>A truthy value that is neither an array nor a string is not iterable; no character of a string matches.\<close>

definition ruleGetter :: "js \<Rightarrow> string \<Rightarrow> string \<Rightarrow> js list option" where
  "ruleGetter t outboundTag property =
     (case jget (jget t ''routing'') ''rules'' of
        JArr rules \<Rightarrow> Some (rule_values rules outboundTag property)
      | JStr s \<Rightarrow> Some []
      | v \<Rightarrow> if truthy v then None else Some [])"

definition set_prop :: "string \<Rightarrow> js \<Rightarrow> js \<Rightarrow> js" where
  "set_prop k v x = (case x of JObj o1 \<Rightarrow> JObj (oput k v o1) | _ \<Rightarrow> x)"

fun replace_rules :: "string \<Rightarrow> string \<Rightarrow> js list \<Rightarrow> bool \<Rightarrow> js list \<Rightarrow> js list" where
  "replace_rules outboundTag property data inserted [] = []"
| "replace_rules outboundTag property data inserted (rule # rules) =
     (if rule_matches outboundTag property rule then
        (if \<not> inserted \<and> data \<noteq> [] then
           set_prop property (JArr data) rule # replace_rules outboundTag property data True rules
         else replace_rules outboundTag property data inserted rules)
      else rule # replace_rules outboundTag property data inserted rules)"

definition field_rule :: "string \<Rightarrow> string \<Rightarrow> js list \<Rightarrow> js" where
  "field_rule outboundTag property data =
     JObj (oput property (JArr data) [(''type'', JStr ''field''), (''outboundTag'', JStr outboundTag)])"

definition set_rules :: "js list \<Rightarrow> string \<Rightarrow> string \<Rightarrow> js list \<Rightarrow> js list" where
  "set_rules rules outboundTag property data =
     (if rule_values rules outboundTag property = [] then
        rules @ [field_rule outboundTag property data]
      else replace_rules outboundTag property data False rules)"

definition ruleSetter :: "jobj \<Rightarrow> string \<Rightarrow> string \<Rightarrow> js list \<Rightarrow> jobj option" where
  "ruleSetter t outboundTag property data =
     (case oget t ''routing'' of
        JObj r \<Rightarrow>
          Some (oput ''routing'' (JObj (oput ''rules'' (JArr (set_rules (js_elems (oget r ''rules'')) outboundTag property data)) r)) t)
      | v \<Rightarrow> if truthy v then None else Some t)"

section \<open>Outbounds and their references\<close>

definition array_or_empty :: "js \<Rightarrow> js list option" where
  "array_or_empty v = (case v of JArr xs \<Rightarrow> Some xs | _ \<Rightarrow> if truthy v then None else Some [])"

definition has_tag :: "string \<Rightarrow> string \<Rightarrow> js \<Rightarrow> bool" where
  "has_tag key tag v \<longleftrightarrow> jget v key = JStr tag"

fun find_index :: "('a \<Rightarrow> bool) \<Rightarrow> 'a list \<Rightarrow> nat option" where
  "find_index P [] = None"
| "find_index P (x # xs) = (if P x then Some 0 else map_option Suc (find_index P xs))"

definition syncOutbound :: "jobj \<Rightarrow> string \<Rightarrow> js \<Rightarrow> jobj option" where
  "syncOutbound t tag st =
     (if \<not> truthy (oget t ''outbounds'') \<or> \<not> truthy (oget t ''routing'') then Some t
      else
        (case (array_or_empty (jget (oget t ''routing'') ''rules''), oget t ''outbounds'') of
           (Some rules, JArr outbounds) \<Rightarrow>
             (let haveRules = list_ex (has_tag ''outboundTag'' tag) rules;
                  idx = find_index (has_tag ''tag'' tag) outbounds
              in Some
                (case idx of
                   None \<Rightarrow> if haveRules then oput ''outbounds'' (JArr (outbounds @ [st])) t else t
                 | Some i \<Rightarrow>
                     if \<not> haveRules \<and> 0 < i
                     then oput ''outbounds'' (JArr (take i outbounds @ drop (Suc i) outbounds)) t else t))
         | _ \<Rightarrow> None))"

text \<open>Renaming one tag in one place.\<close>

definition rename_tag :: "string \<Rightarrow> string \<Rightarrow> js \<Rightarrow> js" where
  "rename_tag oldTag newTag v = (if v = JStr oldTag then JStr newTag else v)"

definition rename_prop :: "string \<Rightarrow> string \<Rightarrow> string \<Rightarrow> js \<Rightarrow> js" where
  "rename_prop key oldTag newTag v =
     (if has_tag key oldTag v then set_prop key (JStr newTag) v else v)"

definition rename_balancer :: "string \<Rightarrow> string \<Rightarrow> js \<Rightarrow> js" where
  "rename_balancer oldTag newTag balancer =
     (let b = rename_prop ''fallbackTag'' oldTag newTag balancer in
      case jget b ''selector'' of
        JArr sel \<Rightarrow> set_prop ''selector'' (JArr (map (rename_tag oldTag newTag) sel)) b
      | _ \<Rightarrow> b)"

definition rename_outbound :: "string \<Rightarrow> string \<Rightarrow> js \<Rightarrow> js" where
  "rename_outbound oldTag newTag outbound =
     (let sockopt = jget (jget outbound ''streamSettings'') ''sockopt'' in
      if has_tag ''dialerProxy'' oldTag sockopt then
        set_prop ''streamSettings''
          (set_prop ''sockopt'' (set_prop ''dialerProxy'' (JStr newTag) sockopt) (jget outbound ''streamSettings'')) outbound
      else outbound)"

definition map_array :: "string \<Rightarrow> (js \<Rightarrow> js) \<Rightarrow> js \<Rightarrow> js" where
  "map_array key f v = (case jget v key of JArr xs \<Rightarrow> set_prop key (JArr (map f xs)) v | _ \<Rightarrow> v)"

definition propagateOutboundTagRename :: "js \<Rightarrow> string \<Rightarrow> string \<Rightarrow> js" where
  "propagateOutboundTagRename t oldTag newTag =
     (if oldTag = [] \<or> newTag = [] \<or> oldTag = newTag then t
      else
        (let routing = map_array ''balancers'' (rename_balancer oldTag newTag)
               (map_array ''rules'' (rename_prop ''outboundTag'' oldTag newTag) (jget t ''routing''))
         in map_array ''outbounds'' (rename_outbound oldTag newTag)
              (if is_obj (jget t ''routing'') then set_prop ''routing'' routing t else t)))"

section \<open>Observatories\<close>

definition DEFAULT_OBSERVATORY :: jobj where
  "DEFAULT_OBSERVATORY =
     [(''subjectSelector'', JArr []), (''probeURL'', JStr ''https://www.google.com/generate_204''),
      (''probeInterval'', JStr ''1m''), (''enableConcurrency'', JBool True)]"

definition DEFAULT_BURST_OBSERVATORY :: jobj where
  "DEFAULT_BURST_OBSERVATORY =
     [(''subjectSelector'', JArr []),
      (''pingConfig'', JObj [(''destination'', JStr ''https://www.google.com/generate_204''),
         (''interval'', JStr ''1m''),
         (''connectivity'', JStr ''http://connectivitycheck.platform.hicloud.com/generate_204''),
         (''timeout'', JStr ''5s''), (''sampling'', JInt 2)])]"

text \<open>The insertion-ordered set of the truthy selectors.\<close>

definition add_new :: "'a \<Rightarrow> 'a list \<Rightarrow> 'a list" where
  "add_new x xs = (if x \<in> set xs then xs else xs @ [x])"

definition collectSelectors :: "js list \<Rightarrow> js list option" where
  "collectSelectors bs =
     map_option (\<lambda>sels. fold add_new (filter truthy (concat sels)) [])
       (those (map (\<lambda>b. if nullish b then None else array_or_empty (jget b ''selector'')) bs))"

definition strategy_type :: "js \<Rightarrow> js" where
  "strategy_type b = jget (jget b ''strategy'') ''type''"

definition observe :: "string \<Rightarrow> jobj \<Rightarrow> js list \<Rightarrow> jobj \<Rightarrow> jobj option" where
  "observe key dflt bs t =
     (case (collectSelectors bs, if truthy (oget t key) then oget t key else JObj dflt) of
        (Some sel, JObj ob) \<Rightarrow> Some (oput key (JObj (oput ''subjectSelector'' (JArr sel) ob)) t)
      | _ \<Rightarrow> None)"

definition optional_balancer :: "js \<Rightarrow> bool" where
  "optional_balancer b \<longleftrightarrow> (let ty = jor (strategy_type b) (JStr ''random'') in ty = JStr ''random'' \<or> ty = JStr ''roundRobin'')"

definition syncObservatories :: "jobj \<Rightarrow> jobj option" where
  "syncObservatories t =
     (case array_or_empty (jget (oget t ''routing'') ''balancers'') of
        None \<Rightarrow> None
      | Some balancers \<Rightarrow>
          (if list_ex nullish balancers then None
           else
             (let leastPings = filter (\<lambda>b. strategy_type b = JStr ''leastPing'') balancers;
                  required = filter (\<lambda>b. strategy_type b = JStr ''leastLoad'') balancers;
                  optional = filter optional_balancer balancers
              in Option.bind
                (if leastPings \<noteq> [] then observe ''observatory'' DEFAULT_OBSERVATORY leastPings t
                 else Some (odel ''observatory'' t))
                (\<lambda>t. if required \<noteq> [] \<or> (optional \<noteq> [] \<and> truthy (oget t ''burstObservatory''))
                     then observe ''burstObservatory'' DEFAULT_BURST_OBSERVATORY (required @ optional) t
                     else if required = [] \<and> optional = [] then Some (odel ''burstObservatory'' t)
                     else Some t))))"

section \<open>Reading back what was set\<close>

lemma set_prop_simps [simp]:
  "jget (set_prop k v x) k' = (if is_obj x \<and> k' = k then v else jget x k')"
  "is_obj (set_prop k v x) = is_obj x"
  "own_prop (set_prop k v x) k' = (own_prop x k' \<or> is_obj x \<and> k' = k)"
proof -
  show "jget (set_prop k v x) k' = (if is_obj x \<and> k' = k then v else jget x k')"
    by (cases x) (simp_all add: set_prop_def)
  show "is_obj (set_prop k v x) = is_obj x" by (cases x) (simp_all add: set_prop_def)
  show "own_prop (set_prop k v x) k' = (own_prop x k' \<or> is_obj x \<and> k' = k)"
    by (cases x) (auto simp: set_prop_def own_prop_def)
qed

lemma own_prop_obj: "own_prop x k \<Longrightarrow> is_obj x"
  by (cases x) (simp_all add: own_prop_def)

lemma rule_values_Nil [simp]: "rule_values [] tag p = []"
  by (simp add: rule_values_def)

lemma rule_values_Cons [simp]:
  "rule_values (r # rs) tag p = (if rule_matches tag p r then js_elems (jget r p) else []) @ rule_values rs tag p"
  by (simp add: rule_values_def)

lemma rule_values_append: "rule_values (rs @ ss) tag p = rule_values rs tag p @ rule_values ss tag p"
  by (induction rs) simp_all

lemma matches_set:
  assumes "rule_matches tag p r" and "p \<noteq> ''outboundTag''"
  shows "rule_matches tag p (set_prop p v r)" and "jget (set_prop p v r) p = v"
  using assms by (auto simp: rule_matches_def own_prop_obj)

lemma matches_other:
  assumes "rule_matches tag p r" and "p \<noteq> ''outboundTag''" and "tag' \<noteq> tag"
  shows "\<not> rule_matches tag' q (set_prop p v r)" and "\<not> rule_matches tag' q r"
  using assms by (auto simp: rule_matches_def own_prop_obj)

lemma replace_values:
  assumes "p \<noteq> ''outboundTag''"
  shows "rule_values (replace_rules tag p data ins rs) tag p
    = (if \<not> ins \<and> list_ex (rule_matches tag p) rs then data else [])"
proof (induction rs arbitrary: ins)
  case (Cons r rs)
  then show ?case using matches_set[OF _ assms, where v = "JArr data"]
    by (cases "rule_matches tag p r") (auto simp: js_elems_def)
qed simp

lemma replace_other:
  assumes "p \<noteq> ''outboundTag''" and "tag' \<noteq> tag"
  shows "rule_values (replace_rules tag p data ins rs) tag' q = rule_values rs tag' q"
proof (induction rs arbitrary: ins)
  case (Cons r rs)
  then show ?case using matches_other[OF _ assms]
    by (cases "rule_matches tag p r") auto
qed simp

lemma values_none: "\<not> list_ex (rule_matches tag p) rs \<Longrightarrow> rule_values rs tag p = []"
  by (induction rs) auto

definition rules_of :: "jobj \<Rightarrow> js list" where
  "rules_of t = js_elems (jget (oget t ''routing'') ''rules'')"

definition other_rules :: "string \<Rightarrow> string \<Rightarrow> js list \<Rightarrow> js list" where
  "other_rules tag p rules = filter (\<lambda>r. \<not> rule_matches tag p r) rules"

lemma replace_others: "p \<noteq> ''outboundTag'' \<Longrightarrow> other_rules tag p (replace_rules tag p data ins rs) = other_rules tag p rs"
  by (induction tag p data ins rs rule: replace_rules.induct) (auto simp: other_rules_def matches_set)

lemma new_rule:
  assumes "p \<noteq> ''outboundTag''"
  shows "rule_matches tag p (field_rule tag p data)" and "jget (field_rule tag p data) p = JArr data"
    and "tag' \<noteq> tag \<Longrightarrow> \<not> rule_matches tag' q (field_rule tag p data)"
  using assms by (simp_all add: rule_matches_def own_prop_def field_rule_def ohas_def[of "_ # _"] del: oput.simps)

text \<open>
  What \<open>ruleSetter\<close> stores for an outbound tag and a property is what \<open>ruleGetter\<close> then reads; the
  rules it does not match stay as they are and in order, and no other tag reads differently.
\<close>

theorem rule_set_get:
  assumes "ruleSetter t tag p data = Some t'" and "is_obj (oget t ''routing'')" and "p \<noteq> ''outboundTag''"
  shows "ruleGetter (JObj t') tag p = Some data \<and> other_rules tag p (rules_of t') = other_rules tag p (rules_of t)
    \<and> (\<forall>tag' q. tag' \<noteq> tag \<longrightarrow> rule_values (rules_of t') tag' q = rule_values (rules_of t) tag' q)"
proof -
  obtain r where r: "oget t ''routing'' = JObj r" using assms(2) by (cases "oget t ''routing''") simp_all
  let ?rs = "js_elems (oget r ''rules'')"
  let ?ns = "set_rules ?rs tag p data"
  have t': "t' = oput ''routing'' (JObj (oput ''rules'' (JArr ?ns) r)) t"
    using assms(1) by (simp add: ruleSetter_def r)
  have n: "rules_of t' = ?ns" "rules_of t = ?rs" by (simp_all add: rules_of_def t' r js_elems_def)
  have g: "ruleGetter (JObj t') tag p = Some (rule_values ?ns tag p)" by (simp add: ruleGetter_def t')
  note nr = new_rule[OF assms(3)]
  have "rule_values ?ns tag p = data \<and> other_rules tag p ?ns = other_rules tag p ?rs
    \<and> (tag' \<noteq> tag \<longrightarrow> rule_values ?ns tag' q = rule_values ?rs tag' q)" for tag' q
  proof (cases "rule_values ?rs tag p = []")
    case True
    then show ?thesis using nr by (auto simp: set_rules_def rule_values_append js_elems_def other_rules_def)
  next
    case False
    then have "list_ex (rule_matches tag p) ?rs" using values_none by blast
    then show ?thesis using False assms(3) by (simp add: set_rules_def replace_values replace_other replace_others)
  qed
  then show ?thesis using g n by simp
qed

theorem rule_set_get_witness:
  "\<exists>t'. ruleSetter [(''routing'', JObj [])] ''direct'' ''ip'' [JStr ''geoip:private''] = Some t'
     \<and> ruleGetter (JObj t') ''direct'' ''ip'' = Some [JStr ''geoip:private'']"
proof -
  obtain t' where t: "ruleSetter [(''routing'', JObj [])] ''direct'' ''ip'' [JStr ''geoip:private''] = Some t'"
    by (simp add: ruleSetter_def)
  from rule_set_get[OF t] t show ?thesis by simp
qed

text \<open>
  A second matching rule is dropped whole: what it said of other properties is lost.
\<close>

lemma ruleSetter_loses_criteria:
  "map_option (\<lambda>t'. ruleGetter (JObj t') ''direct'' ''domain'')
     (ruleSetter [(''routing'', JObj [(''rules'', JArr
         [JObj [(''outboundTag'', JStr ''direct''), (''ip'', JArr [JStr ''a''])],
          JObj [(''outboundTag'', JStr ''direct''), (''ip'', JArr [JStr ''b'']), (''domain'', JArr [JStr ''d''])]])])]
       ''direct'' ''ip'' [JStr ''c'']) = Some (Some [])
   \<and> ruleGetter (JObj [(''routing'', JObj [(''rules'', JArr
         [JObj [(''outboundTag'', JStr ''direct''), (''ip'', JArr [JStr ''a''])],
          JObj [(''outboundTag'', JStr ''direct''), (''ip'', JArr [JStr ''b'']), (''domain'', JArr [JStr ''d''])]])])])
       ''direct'' ''domain'' = Some [JStr ''d'']"
  by code_simp

section \<open>No dangling tag\<close>

lemma find_index_None: "find_index P xs = None \<longleftrightarrow> \<not> list_ex P xs"
  by (induction xs) auto

lemma find_index_Some: "find_index P xs = Some i \<Longrightarrow> i < length xs \<and> P (xs ! i)"
  by (induction xs arbitrary: i) (auto split: if_splits)

definition outbounds_of :: "jobj \<Rightarrow> js list" where
  "outbounds_of t = js_elems (oget t ''outbounds'')"

text \<open>
  Setting a criterion of an outbound tag and then syncing its outbound, as the basic routing tab does,
  leaves no rule of that tag without an outbound of the tag, provided the settings offered carry it.
\<close>

theorem basic_routing_no_dangling:
  assumes "ruleSetter t tag p data = Some t1" and "syncOutbound t1 tag st = Some t2"
    and "is_obj (oget t ''routing'')" and "is_arr (oget t ''outbounds'')" and "has_tag ''tag'' tag st"
  shows "(if list_ex (has_tag ''outboundTag'' tag) (rules_of t2) then list_ex (has_tag ''tag'' tag) (outbounds_of t2) else True)"
proof -
  obtain r where r: "oget t ''routing'' = JObj r" using assms(3) by (cases "oget t ''routing''") simp_all
  obtain obs where o: "oget t ''outbounds'' = JArr obs" using assms(4) by (cases "oget t ''outbounds''") simp_all
  let ?ns = "set_rules (js_elems (oget r ''rules'')) tag p data"
  have t1: "t1 = oput ''routing'' (JObj (oput ''rules'' (JArr ?ns) r)) t"
    using assms(1) by (simp add: ruleSetter_def r)
  have f: "oget t1 ''outbounds'' = JArr obs" "jget (oget t1 ''routing'') ''rules'' = JArr ?ns" "truthy (oget t1 ''routing'')"
    by (simp_all add: t1 o)
  let ?h = "list_ex (has_tag ''outboundTag'' tag) ?ns" and ?i = "find_index (has_tag ''tag'' tag) obs"
  have t2: "t2 = (case ?i of None \<Rightarrow> if ?h then oput ''outbounds'' (JArr (obs @ [st])) t1 else t1
      | Some i \<Rightarrow> if \<not> ?h \<and> 0 < i then oput ''outbounds'' (JArr (take i obs @ drop (Suc i) obs)) t1 else t1)"
    using assms(2) by (simp add: syncOutbound_def f array_or_empty_def Let_def)
  have rules: "rules_of t2 = ?ns" by (simp add: rules_of_def js_elems_def t2 f split: option.split)
  show ?thesis
  proof (cases ?h)
    case True
    show ?thesis
    proof (cases ?i)
      case None
      then show ?thesis using True assms(5) by (simp add: t2 outbounds_of_def js_elems_def)
    next
      case (Some i)
      then have "list_ex (has_tag ''tag'' tag) obs" using find_index_None by (metis option.distinct(1))
      then show ?thesis using True Some by (simp add: t2 outbounds_of_def js_elems_def f)
    qed
  qed (simp add: rules)
qed

theorem basic_routing_no_dangling_witness:
  "\<exists>t1 t2. ruleSetter [(''outbounds'', JArr []), (''routing'', JObj [])] ''direct'' ''ip'' [JStr ''geoip:cn''] = Some t1
     \<and> syncOutbound t1 ''direct'' (JObj [(''tag'', JStr ''direct'')]) = Some t2
     \<and> (if list_ex (has_tag ''outboundTag'' ''direct'') (rules_of t2) then list_ex (has_tag ''tag'' ''direct'') (outbounds_of t2) else True)"
proof -
  let ?t = "[(''outbounds'', JArr []), (''routing'', JObj [])]" and ?s = "JObj [(''tag'', JStr ''direct'')]"
  have "Option.bind (ruleSetter ?t ''direct'' ''ip'' [JStr ''geoip:cn'']) (\<lambda>t1. syncOutbound t1 ''direct'' ?s) \<noteq> None"
    by code_simp
  then obtain t1 t2 where a: "ruleSetter ?t ''direct'' ''ip'' [JStr ''geoip:cn''] = Some t1"
    and b: "syncOutbound t1 ''direct'' ?s = Some t2"
    by (cases "ruleSetter ?t ''direct'' ''ip'' [JStr ''geoip:cn'']") auto
  show ?thesis using basic_routing_no_dangling[OF a b] a b by (simp add: has_tag_def)
qed

section \<open>Renaming an outbound\<close>

text \<open>Every place a tag is referred to from, in the order the rename visits them.\<close>

definition str_refs :: "js \<Rightarrow> js list" where
  "str_refs v = (if is_str v then [v] else [])"

definition balancer_refs :: "js \<Rightarrow> js list" where
  "balancer_refs b = str_refs (jget b ''fallbackTag'') @ filter is_str (js_elems (jget b ''selector''))"

definition outbound_refs :: "js \<Rightarrow> js list" where
  "outbound_refs o1 = str_refs (jget (jget (jget o1 ''streamSettings'') ''sockopt'') ''dialerProxy'')"

definition tag_refs :: "js \<Rightarrow> js list" where
  "tag_refs t =
     concat (map (\<lambda>r. str_refs (jget r ''outboundTag'')) (js_elems (jget (jget t ''routing'') ''rules'')))
     @ concat (map balancer_refs (js_elems (jget (jget t ''routing'') ''balancers'')))
     @ concat (map outbound_refs (js_elems (jget t ''outbounds'')))"

lemma jget_obj: "jget v k = JObj x \<Longrightarrow> is_obj v" "jget v k = JArr xs \<Longrightarrow> is_obj v" "jget v k = JStr s \<Longrightarrow> is_obj v"
  by (cases v; simp)+

lemma get_map_array: "jget (map_array k f v) k' = (if k' = k \<and> is_arr (jget v k) then JArr (map f (js_elems (jget v k))) else jget v k')"
proof (cases "jget v k")
  case (JArr xs)
  then show ?thesis using jget_obj(2)[OF JArr] by (simp add: map_array_def js_elems_def)
qed (simp_all add: map_array_def)

lemma elems_map_array: "js_elems (jget (map_array k f v) k) = map f (js_elems (jget v k))"
  by (cases "jget v k") (simp_all add: get_map_array js_elems_def)

lemma get_rename_prop: "jget (rename_prop k old new v) k' = (if k' = k then rename_tag old new (jget v k) else jget v k')"
  using jget_obj(3)[of v k old] by (auto simp: rename_prop_def has_tag_def rename_tag_def)

lemma refs_rename_tag: "str_refs (rename_tag old new v) = map (rename_tag old new) (str_refs v)"
  by (simp add: str_refs_def rename_tag_def)

lemma is_str_rename [simp]: "is_str (rename_tag old new v) = is_str v"
  by (simp add: rename_tag_def)

lemma filter_rename: "filter is_str (map (rename_tag old new) xs) = map (rename_tag old new) (filter is_str xs)"
  by (induction xs) simp_all

lemma refs_rename_balancer: "balancer_refs (rename_balancer old new b) = map (rename_tag old new) (balancer_refs b)"
proof -
  have m: "rename_balancer old new b = map_array ''selector'' (rename_tag old new) (rename_prop ''fallbackTag'' old new b)"
    unfolding rename_balancer_def Let_def map_array_def ..
  have s: "jget (rename_prop ''fallbackTag'' old new b) ''selector'' = jget b ''selector''"
    by (simp add: get_rename_prop)
  show ?thesis
    unfolding balancer_refs_def m elems_map_array s
    by (simp add: get_map_array get_rename_prop refs_rename_tag filter_rename)
qed

lemma refs_rename_outbound: "outbound_refs (rename_outbound old new o1) = map (rename_tag old new) (outbound_refs o1)"
proof (cases "has_tag ''dialerProxy'' old (jget (jget o1 ''streamSettings'') ''sockopt'')")
  case True
  let ?so = "jget (jget o1 ''streamSettings'') ''sockopt''"
  obtain so where so: "?so = JObj so" using True by (cases ?so) (simp_all add: has_tag_def)
  have "is_obj (jget o1 ''streamSettings'')" "is_obj o1"
  proof -
    show st: "is_obj (jget o1 ''streamSettings'')" by (rule jget_obj(1)[OF so])
    then obtain x where "jget o1 ''streamSettings'' = JObj x" by (cases "jget o1 ''streamSettings''") simp_all
    then show "is_obj o1" by (rule jget_obj(1))
  qed
  then show ?thesis using True
    by (simp add: rename_outbound_def Let_def outbound_refs_def so has_tag_def str_refs_def rename_tag_def)
next
  case False
  then show ?thesis
    by (auto simp: rename_outbound_def Let_def outbound_refs_def has_tag_def str_refs_def rename_tag_def)
qed

definition renamed_routing :: "string \<Rightarrow> string \<Rightarrow> js \<Rightarrow> js" where
  "renamed_routing old new r =
     map_array ''balancers'' (rename_balancer old new) (map_array ''rules'' (rename_prop ''outboundTag'' old new) r)"

lemma propagate_eq:
  "old \<noteq> [] \<Longrightarrow> new \<noteq> [] \<Longrightarrow> old \<noteq> new \<Longrightarrow> propagateOutboundTagRename t old new =
     map_array ''outbounds'' (rename_outbound old new)
       (if is_obj (jget t ''routing'') then set_prop ''routing'' (renamed_routing old new (jget t ''routing'')) t else t)"
  by (simp add: propagateOutboundTagRename_def renamed_routing_def Let_def)

lemma renamed_routing_other: "\<not> is_obj r \<Longrightarrow> renamed_routing old new r = r"
  by (cases r) (simp_all add: renamed_routing_def map_array_def)

lemma routing_after:
  assumes "old \<noteq> []" and "new \<noteq> []" and "old \<noteq> new"
  shows "jget (propagateOutboundTagRename t old new) ''routing'' = renamed_routing old new (jget t ''routing'')"
    and "js_elems (jget (propagateOutboundTagRename t old new) ''outbounds'')
      = map (rename_outbound old new) (js_elems (jget t ''outbounds''))"
proof -
  have o: "is_obj t" if "is_obj (jget t ''routing'')" using that by (cases t) simp_all
  show "jget (propagateOutboundTagRename t old new) ''routing'' = renamed_routing old new (jget t ''routing'')"
    using o by (auto simp: propagate_eq[OF assms] get_map_array renamed_routing_other)
  show "js_elems (jget (propagateOutboundTagRename t old new) ''outbounds'')
      = map (rename_outbound old new) (js_elems (jget t ''outbounds''))"
    unfolding propagate_eq[OF assms] elems_map_array by simp
qed

text \<open>
  C23
  Renaming an outbound renames exactly the references to it: the rules, fallback tags, selectors and
  dialer proxies of the result are those of the template with the old tag replaced, in the same order,
  so none names the old tag any more.
\<close>

theorem rename_renames_references:
  assumes "old \<noteq> []" and "new \<noteq> []" and "old \<noteq> new"
  shows "tag_refs (propagateOutboundTagRename t old new) = map (rename_tag old new) (tag_refs t)
    \<and> JStr old \<notin> set (tag_refs (propagateOutboundTagRename t old new))"
proof -
  let ?r = "jget t ''routing''"
  have rules: "js_elems (jget (renamed_routing old new ?r) ''rules'')
      = map (rename_prop ''outboundTag'' old new) (js_elems (jget ?r ''rules''))"
    unfolding renamed_routing_def using elems_map_array[of "''rules''"] by (simp add: get_map_array)
  have bals: "js_elems (jget (renamed_routing old new ?r) ''balancers'')
      = map (rename_balancer old new) (js_elems (jget ?r ''balancers''))"
    unfolding renamed_routing_def elems_map_array by (simp add: get_map_array)
  have "tag_refs (propagateOutboundTagRename t old new) = map (rename_tag old new) (tag_refs t)"
    unfolding tag_refs_def routing_after[OF assms] rules bals
    by (simp add: comp_def get_rename_prop refs_rename_tag refs_rename_balancer refs_rename_outbound map_concat)
  moreover have "JStr old \<notin> set (map (rename_tag old new) xs)" for xs
    using assms(3) by (auto simp: rename_tag_def)
  ultimately show ?thesis by simp
qed

theorem rename_renames_references_witness:
  "tag_refs (propagateOutboundTagRename (JObj [(''routing'', JObj [(''rules'', JArr [JObj [(''outboundTag'', JStr ''a'')]])])]) ''a'' ''b'')
   = [JStr ''b'']"
  using rename_renames_references[of "''a''" "''b''"
    "JObj [(''routing'', JObj [(''rules'', JArr [JObj [(''outboundTag'', JStr ''a'')]])])]"]
  by (simp add: tag_refs_def js_elems_def str_refs_def rename_tag_def)

section \<open>Renaming back\<close>

text \<open>Updating one own property in place; the renames are compositions of such updates.\<close>

definition upd_prop :: "string \<Rightarrow> (js \<Rightarrow> js) \<Rightarrow> js \<Rightarrow> js" where
  "upd_prop k f v = (if own_prop v k then set_prop k (f (jget v k)) v else v)"

lemma ohas_Cons: "ohas (p # o1) k \<longleftrightarrow> fst p = k \<or> ohas o1 k"
  by (auto simp: ohas_def)

lemma oput_over: "\<not> is_index k \<Longrightarrow> oput k w (oput k v o1) = oput k w o1"
  by (induction o1) (auto simp: key_before_def)

lemma oput_self: "\<not> is_index k \<Longrightarrow> ohas o1 k \<Longrightarrow> oput k (oget o1 k) o1 = o1"
  by (induction o1) (auto simp: key_before_def ohas_Cons ohas_def[of "[]"])

lemma oput_swap:
  "\<not> is_index k \<Longrightarrow> \<not> is_index k' \<Longrightarrow> k \<noteq> k' \<Longrightarrow> ohas o1 k \<Longrightarrow> ohas o1 k' \<Longrightarrow>
     oput k v (oput k' w o1) = oput k' w (oput k v o1)"
proof (induction o1)
  case (Cons p o1)
  have s: "oput k v (oput k' w o1) = oput k' w (oput k v o1)" if "ohas o1 k" "ohas o1 k'" using Cons that by blast
  have nb: "\<not> key_before k a" "\<not> key_before k' a" for a using Cons.prems(1,2) by (simp_all add: key_before_def)
  consider "fst p = k" | "fst p = k'" "fst p \<noteq> k" | "fst p \<noteq> k" "fst p \<noteq> k'" by blast
  then show ?case
  proof cases
    case 3
    then show ?thesis using s nb Cons.prems(4,5) by (simp add: ohas_Cons)
  qed (use nb Cons.prems(3) in simp_all)
qed (simp add: ohas_def)

text \<open>A key that is not an array index, so that an assignment keeps its place.\<close>

definition named_key :: "string \<Rightarrow> bool" where
  "named_key k \<longleftrightarrow> \<not> is_index k"

lemma own_upd [simp]: "own_prop (upd_prop k f v) k' = own_prop v k'"
  using own_prop_obj by (auto simp: upd_prop_def)

lemma get_upd: "jget (upd_prop k f v) k' = (if k' = k \<and> own_prop v k then f (jget v k) else jget v k')"
  using own_prop_obj by (auto simp: upd_prop_def)

lemma upd_upd: "named_key k \<Longrightarrow> upd_prop k f (upd_prop k g v) = upd_prop k (\<lambda>x. f (g x)) v"
proof (cases "own_prop v k")
  case True
  assume n: "named_key k"
  obtain x where x: "v = JObj x" using own_prop_obj[OF True] by (cases v) simp_all
  have "ohas x k" using True by (simp add: x own_prop_def)
  then show ?thesis using n by (simp add: x upd_prop_def own_prop_def set_prop_def oput_over named_key_def)
qed (simp add: upd_prop_def)

lemma upd_same: "named_key k \<Longrightarrow> (own_prop v k \<Longrightarrow> f (jget v k) = jget v k) \<Longrightarrow> upd_prop k f v = v"
  by (cases v) (auto simp: upd_prop_def own_prop_def set_prop_def oput_self named_key_def)

lemma upd_swap:
  assumes "named_key k" and "named_key k'" and "k \<noteq> k'"
  shows "upd_prop k f (upd_prop k' g v) = upd_prop k' g (upd_prop k f v)"
proof (cases "own_prop v k \<and> own_prop v k'")
  case True
  then obtain x where x: "v = JObj x" by (cases v) (auto simp: own_prop_def)
  have "ohas x k" "ohas x k'" using True by (simp_all add: x own_prop_def)
  then show ?thesis using assms by (simp add: x upd_prop_def own_prop_def set_prop_def oput_swap named_key_def)
next
  case False
  then show ?thesis by (auto simp: upd_prop_def own_prop_obj)
qed

lemma present: "jget x k \<noteq> JUndef \<Longrightarrow> own_prop x k"
  by (cases x) (auto simp: own_prop_def oget_def ohas_map_of split: option.splits)

lemma absent: "\<not> own_prop x k \<Longrightarrow> jget x k = JUndef"
  using present by blast

definition map_elems :: "(js \<Rightarrow> js) \<Rightarrow> js \<Rightarrow> js" where
  "map_elems f v = (case v of JArr xs \<Rightarrow> JArr (map f xs) | _ \<Rightarrow> v)"

lemma set_unchanged: "named_key k \<Longrightarrow> own_prop v k \<Longrightarrow> set_prop k (jget v k) v = v"
  by (cases v) (simp_all add: set_prop_def own_prop_def oput_self named_key_def)

lemma rename_prop_upd: "named_key k \<Longrightarrow> rename_prop k old new v = upd_prop k (rename_tag old new) v"
  using present[of v k] by (auto simp: rename_prop_def has_tag_def upd_prop_def rename_tag_def set_unchanged)

lemma map_array_upd: "named_key k \<Longrightarrow> map_array k f v = upd_prop k (map_elems f) v"
  using present[of v k] absent[of v k] set_unchanged[of k v]
  by (cases "jget v k") (auto simp: map_array_def upd_prop_def map_elems_def)

lemma named_keys [simp]:
  "named_key ''routing''" "named_key ''rules''" "named_key ''balancers''" "named_key ''outbounds''"
  "named_key ''outboundTag''" "named_key ''fallbackTag''" "named_key ''selector''"
  "named_key ''streamSettings''" "named_key ''sockopt''" "named_key ''dialerProxy''"
  by (simp_all add: named_key_def is_digit_def)

lemma rename_outbound_upd:
  "rename_outbound old new o1
     = upd_prop ''streamSettings'' (upd_prop ''sockopt'' (upd_prop ''dialerProxy'' (rename_tag old new))) o1"
proof -
  let ?st = "jget o1 ''streamSettings''"
  let ?so = "jget ?st ''sockopt''"
  have r: "rename_outbound old new o1 = (if has_tag ''dialerProxy'' old ?so then
      set_prop ''streamSettings'' (set_prop ''sockopt'' (rename_prop ''dialerProxy'' old new ?so) ?st) o1 else o1)"
    by (simp add: rename_outbound_def Let_def rename_prop_def)
  show ?thesis
  proof (cases "has_tag ''dialerProxy'' old ?so")
    case True
    then have "own_prop ?st ''sockopt''" "own_prop o1 ''streamSettings''"
      by (auto intro!: present simp: has_tag_def)
    then show ?thesis using True by (simp add: r upd_prop_def[of "''sockopt''"] upd_prop_def[of "''streamSettings''"] rename_prop_upd)
  next
    case False
    have "upd_prop ''dialerProxy'' (rename_tag old new) v = v" if "\<not> has_tag ''dialerProxy'' old v" for v
      using that by (intro upd_same) (simp_all add: rename_tag_def has_tag_def)
    then have "upd_prop ''sockopt'' (upd_prop ''dialerProxy'' (rename_tag old new)) ?st = ?st"
      using False by (intro upd_same[OF named_keys(9)]) blast
    then show ?thesis using False by (simp add: r upd_same)
  qed
qed

lemma rename_balancer_upd:
  "rename_balancer old new b
     = upd_prop ''selector'' (map_elems (rename_tag old new)) (upd_prop ''fallbackTag'' (rename_tag old new) b)"
  unfolding rename_balancer_def Let_def rename_prop_upd[OF named_keys(6)]
  using map_array_upd[OF named_keys(7), of "rename_tag old new" "upd_prop ''fallbackTag'' (rename_tag old new) b"]
  by (simp add: map_array_def)

lemma renamed_routing_upd:
  "renamed_routing old new r
     = upd_prop ''balancers'' (map_elems (rename_balancer old new))
         (upd_prop ''rules'' (map_elems (rename_prop ''outboundTag'' old new)) r)"
  by (simp add: renamed_routing_def map_array_upd)

lemma propagate_upd:
  assumes "old \<noteq> []" and "new \<noteq> []" and "old \<noteq> new"
  shows "propagateOutboundTagRename t old new
     = upd_prop ''outbounds'' (map_elems (rename_outbound old new)) (upd_prop ''routing'' (renamed_routing old new) t)"
proof -
  have "(if is_obj (jget t ''routing'') then set_prop ''routing'' (renamed_routing old new (jget t ''routing'')) t else t)
      = upd_prop ''routing'' (renamed_routing old new) t"
  proof (cases "is_obj (jget t ''routing'')")
    case True
    then have "own_prop t ''routing''" by (intro present) auto
    then show ?thesis using True by (simp add: upd_prop_def)
  next
    case False
    then show ?thesis by (simp add: upd_same renamed_routing_other)
  qed
  then show ?thesis by (simp add: propagate_eq[OF assms] map_array_upd)
qed

lemma tag_back: "v \<noteq> JStr new \<Longrightarrow> rename_tag new old (rename_tag old new v) = v"
  by (simp add: rename_tag_def)

lemma elems_back:
  "(\<And>x. x \<in> set (js_elems v) \<Longrightarrow> g (f x) = x) \<Longrightarrow> map_elems g (map_elems f v) = v"
  by (cases v) (auto simp: map_elems_def js_elems_def intro: map_idI)

lemma balancer_back:
  assumes "JStr new \<notin> set (balancer_refs b)"
  shows "rename_balancer new old (rename_balancer old new b) = b"
proof -
  let ?f = "rename_tag old new" and ?g = "rename_tag new old"
  have sw: "upd_prop ''fallbackTag'' ?g (upd_prop ''selector'' (map_elems ?f) v) = upd_prop ''selector'' (map_elems ?f) (upd_prop ''fallbackTag'' ?g v)" for v
    by (rule upd_swap) simp_all
  have "jget b ''fallbackTag'' \<noteq> JStr new" using assms by (auto simp: balancer_refs_def str_refs_def)
  then have fb: "upd_prop ''fallbackTag'' (\<lambda>x. ?g (?f x)) b = b" by (intro upd_same) (simp_all add: tag_back)
  have "JStr new \<notin> set (js_elems (jget b ''selector''))" using assms by (auto simp: balancer_refs_def)
  then have "map_elems ?g (map_elems ?f (jget b ''selector'')) = jget b ''selector''"
    by (intro elems_back tag_back) auto
  then show ?thesis
    unfolding rename_balancer_upd sw upd_upd[OF named_keys(7)] upd_upd[OF named_keys(6)] fb by (simp add: upd_same)
qed

lemma outbound_back:
  assumes "JStr new \<notin> set (outbound_refs o1)"
  shows "rename_outbound new old (rename_outbound old new o1) = o1"
proof -
  let ?h = "\<lambda>x. rename_tag new old (rename_tag old new x)"
  have "jget (jget (jget o1 ''streamSettings'') ''sockopt'') ''dialerProxy'' \<noteq> JStr new"
    using assms by (auto simp: outbound_refs_def str_refs_def)
  then have "upd_prop ''dialerProxy'' ?h (jget (jget o1 ''streamSettings'') ''sockopt'') = jget (jget o1 ''streamSettings'') ''sockopt''"
    by (intro upd_same) (simp_all add: tag_back)
  then have "upd_prop ''sockopt'' (upd_prop ''dialerProxy'' ?h) (jget o1 ''streamSettings'') = jget o1 ''streamSettings''"
    by (intro upd_same[OF named_keys(9)])
  then show ?thesis
    by (simp add: rename_outbound_upd upd_upd upd_same)
qed

lemma rename_rule_back:
  "jget r ''outboundTag'' \<noteq> JStr new \<Longrightarrow> rename_prop ''outboundTag'' new old (rename_prop ''outboundTag'' old new r) = r"
  by (simp add: rename_prop_upd upd_upd upd_same tag_back)

lemma routing_back:
  assumes "\<And>r. r \<in> set (js_elems (jget v ''rules'')) \<Longrightarrow> jget r ''outboundTag'' \<noteq> JStr new"
    and "\<And>b. b \<in> set (js_elems (jget v ''balancers'')) \<Longrightarrow> JStr new \<notin> set (balancer_refs b)"
  shows "renamed_routing new old (renamed_routing old new v) = v"
proof -
  let ?bf = "map_elems (rename_balancer old new)" and ?rf = "map_elems (rename_prop ''outboundTag'' old new)"
  let ?bg = "map_elems (rename_balancer new old)" and ?rg = "map_elems (rename_prop ''outboundTag'' new old)"
  have sw: "upd_prop ''rules'' ?rg (upd_prop ''balancers'' ?bf x) = upd_prop ''balancers'' ?bf (upd_prop ''rules'' ?rg x)" for x
    by (rule upd_swap) simp_all
  have "?rg (?rf (jget v ''rules'')) = jget v ''rules''" by (intro elems_back rename_rule_back assms(1))
  then have r: "upd_prop ''rules'' (\<lambda>x. ?rg (?rf x)) v = v" by (simp add: upd_same)
  have "?bg (?bf (jget v ''balancers'')) = jget v ''balancers''" by (intro elems_back balancer_back assms(2))
  then show ?thesis
    unfolding renamed_routing_upd sw upd_upd[OF named_keys(3)] upd_upd[OF named_keys(2)] r by (simp add: upd_same)
qed

text \<open>
  Renaming an outbound to a tag nothing refers to and back again restores the template.
\<close>

theorem rename_back_restores:
  assumes "old \<noteq> []" and "new \<noteq> []" and "old \<noteq> new" and "JStr new \<notin> set (tag_refs t)"
  shows "propagateOutboundTagRename (propagateOutboundTagRename t old new) new old = t"
proof -
  let ?of = "map_elems (rename_outbound old new)" and ?og = "map_elems (rename_outbound new old)"
  let ?rf = "renamed_routing old new" and ?rg = "renamed_routing new old"
  have sw: "upd_prop ''routing'' ?rg (upd_prop ''outbounds'' ?of x) = upd_prop ''outbounds'' ?of (upd_prop ''routing'' ?rg x)" for x
    by (rule upd_swap) simp_all
  have "?rg (?rf (jget t ''routing'')) = jget t ''routing''"
  proof (rule routing_back)
    fix r assume r: "r \<in> set (js_elems (jget (jget t ''routing'') ''rules''))"
    then have "JStr new \<notin> set (str_refs (jget r ''outboundTag''))" using assms(4) by (auto simp: tag_refs_def)
    then show "jget r ''outboundTag'' \<noteq> JStr new" by (auto simp: str_refs_def)
  qed (use assms(4) in \<open>auto simp: tag_refs_def\<close>)
  then have r: "upd_prop ''routing'' (\<lambda>x. ?rg (?rf x)) t = t" by (simp add: upd_same)
  have "?og (?of (jget t ''outbounds'')) = jget t ''outbounds''"
    by (intro elems_back outbound_back) (use assms(4) in \<open>auto simp: tag_refs_def\<close>)
  then show ?thesis
    unfolding propagate_upd[OF assms(1,2,3)] propagate_upd[OF assms(2,1) assms(3)[symmetric]] sw
      upd_upd[OF named_keys(4)] upd_upd[OF named_keys(1)] r by (simp add: upd_same)
qed

theorem rename_back_restores_witness:
  "propagateOutboundTagRename (propagateOutboundTagRename (JObj [(''outbounds'', JArr [])]) ''a'' ''b'') ''b'' ''a''
   = JObj [(''outbounds'', JArr [])]"
  by (rule rename_back_restores) (simp_all add: tag_refs_def js_elems_def)

section \<open>Observatories follow the balancers\<close>

definition balancers_of :: "jobj \<Rightarrow> js list" where
  "balancers_of t = js_elems (jget (oget t ''routing'') ''balancers'')"

definition of_strategy :: "string \<Rightarrow> js list \<Rightarrow> js list" where
  "of_strategy s bs = filter (\<lambda>b. strategy_type b = JStr s) bs"

lemma add_new_set: "set (fold add_new xs ys) = set xs \<union> set ys"
  by (induction xs arbitrary: ys) (auto simp: add_new_def)

lemma add_new_distinct: "distinct ys \<Longrightarrow> distinct (fold add_new xs ys)"
  by (induction xs arbitrary: ys) (simp_all add: add_new_def)

lemma those_elems: "those (map f xs) = Some ys \<Longrightarrow> map f xs = map Some ys"
  by (induction xs arbitrary: ys) (auto split: option.splits)

lemma array_or_empty_elems: "array_or_empty v = Some xs \<Longrightarrow> xs = js_elems v"
  by (cases v) (auto simp: array_or_empty_def js_elems_def split: if_splits)

lemma collectSelectors_set:
  assumes "collectSelectors bs = Some sel"
  shows "distinct sel \<and> set sel = {s. truthy s \<and> (\<exists>b\<in>set bs. s \<in> set (js_elems (jget b ''selector'')))}"
proof -
  let ?g = "\<lambda>b. if nullish b then None else array_or_empty (jget b ''selector'')"
  obtain sels where s: "those (map ?g bs) = Some sels" and sel: "sel = fold add_new (filter truthy (concat sels)) []"
    using assms by (auto simp: collectSelectors_def)
  have "map ?g bs = map Some sels" by (rule those_elems[OF s])
  then have "map (\<lambda>b. js_elems (jget b ''selector'')) bs = sels"
  proof (induction bs arbitrary: sels)
    case (Cons b bs)
    then obtain x xs where x: "sels = x # xs" "?g b = Some x" "map ?g bs = map Some xs" by (cases sels) auto
    then have "array_or_empty (jget b ''selector'') = Some x" by (simp split: if_splits)
    then show ?case using Cons.IH[OF x(3)] x(1) array_or_empty_elems by simp
  qed simp
  then have "set (concat sels) = (\<Union>b\<in>set bs. set (js_elems (jget b ''selector'')))" by auto
  then show ?thesis by (auto simp: sel add_new_set add_new_distinct)
qed

lemma observe_Some:
  assumes "observe key d bs t = Some t'" and "named_key key"
  obtains sel ob where "collectSelectors bs = Some sel" and "t' = oput key (JObj (oput ''subjectSelector'' (JArr sel) ob)) t"
    and "observe key d bs t' = Some t'"
proof -
  obtain sel ob where c: "collectSelectors bs = Some sel" and o: "(if truthy (oget t key) then oget t key else JObj d) = JObj ob"
    and t': "t' = oput key (JObj (oput ''subjectSelector'' (JArr sel) ob)) t"
    using assms(1) by (auto simp: observe_def split: option.splits js.splits)
  have n: "\<not> is_index ''subjectSelector''" "\<not> is_index key" using assms(2) by (simp_all add: is_digit_def named_key_def)
  have "observe key d bs t' = Some (oput key (JObj (oput ''subjectSelector'' (JArr sel) (oput ''subjectSelector'' (JArr sel) ob))) t')"
    by (simp add: observe_def c t' del: oput.simps)
  also have "\<dots> = Some t'" unfolding oput_over[OF n(1)] t' oput_over[OF n(2)] ..
  finally show ?thesis using that c t' by blast
qed

lemma observatory_names: "named_key ''observatory''" "named_key ''burstObservatory''" "\<not> is_index ''subjectSelector''"
  by (simp_all add: named_key_def is_digit_def)

definition burst_balancers :: "js list \<Rightarrow> js list" where
  "burst_balancers bs = of_strategy ''leastLoad'' bs @ filter optional_balancer bs"

definition ping_part :: "jobj \<Rightarrow> jobj option" where
  "ping_part t =
     (let bs = of_strategy ''leastPing'' (balancers_of t) in
      if bs \<noteq> [] then observe ''observatory'' DEFAULT_OBSERVATORY bs t else Some (odel ''observatory'' t))"

definition burst_part :: "js list \<Rightarrow> jobj \<Rightarrow> jobj option" where
  "burst_part bs t =
     (let required = of_strategy ''leastLoad'' bs; optional = filter optional_balancer bs in
      if required \<noteq> [] \<or> (optional \<noteq> [] \<and> truthy (oget t ''burstObservatory''))
      then observe ''burstObservatory'' DEFAULT_BURST_OBSERVATORY (required @ optional) t
      else if required = [] \<and> optional = [] then Some (odel ''burstObservatory'' t)
      else Some t)"

lemma syncObservatories_parts:
  "syncObservatories t =
     (if array_or_empty (jget (oget t ''routing'') ''balancers'') = None \<or> list_ex nullish (balancers_of t) then None
      else Option.bind (ping_part t) (burst_part (balancers_of t)))"
proof (cases "array_or_empty (jget (oget t ''routing'') ''balancers'')")
  case (Some bs)
  have "balancers_of t = bs" using array_or_empty_elems[OF Some] by (simp add: balancers_of_def)
  then show ?thesis using Some
    by (simp add: syncObservatories_def ping_part_def burst_part_def[abs_def] of_strategy_def Let_def)
qed (simp add: syncObservatories_def)

lemma ping_part_Some:
  assumes "ping_part t = Some t1"
  shows "\<forall>k. k \<noteq> ''observatory'' \<longrightarrow> oget t1 k = oget t k" and "ping_part t1 = Some t1"
    and "truthy (oget t1 ''observatory'') \<longleftrightarrow> of_strategy ''leastPing'' (balancers_of t) \<noteq> []"
    and "of_strategy ''leastPing'' (balancers_of t) \<noteq> [] \<Longrightarrow> \<exists>sel. collectSelectors (of_strategy ''leastPing'' (balancers_of t)) = Some sel
      \<and> jget (oget t1 ''observatory'') ''subjectSelector'' = JArr sel"
proof -
  let ?bs = "of_strategy ''leastPing'' (balancers_of t)"
  show a: "\<forall>k. k \<noteq> ''observatory'' \<longrightarrow> oget t1 k = oget t k"
    using assms observe_Some[OF _ observatory_names(1)]
    by (cases "?bs = []") (auto simp: ping_part_def Let_def elim: observe_Some[OF _ observatory_names(1)])
  then have b: "balancers_of t1 = balancers_of t" by (simp add: balancers_of_def)
  have c: "ping_part t1 = Some t1 \<and> (truthy (oget t1 ''observatory'') \<longleftrightarrow> ?bs \<noteq> [])
    \<and> (?bs \<noteq> [] \<longrightarrow> (\<exists>sel. collectSelectors ?bs = Some sel \<and> jget (oget t1 ''observatory'') ''subjectSelector'' = JArr sel))"
  proof (cases "?bs = []")
    case True
    then have "t1 = odel ''observatory'' t" using assms by (simp add: ping_part_def)
    then have "odel ''observatory'' t1 = t1" "oget t1 ''observatory'' = JUndef" by simp_all
    then show ?thesis using True by (simp add: ping_part_def b)
  next
    case False
    then have "observe ''observatory'' DEFAULT_OBSERVATORY ?bs t = Some t1" using assms by (simp add: ping_part_def)
    then obtain sel ob where "collectSelectors ?bs = Some sel"
      and "t1 = oput ''observatory'' (JObj (oput ''subjectSelector'' (JArr sel) ob)) t"
      and o: "observe ''observatory'' DEFAULT_OBSERVATORY ?bs t1 = Some t1"
      by (rule observe_Some[OF _ observatory_names(1)])
    then have "jget (oget t1 ''observatory'') ''subjectSelector'' = JArr sel" "truthy (oget t1 ''observatory'')" by simp_all
    moreover have "ping_part t1 = Some t1" using False o by (simp add: ping_part_def b)
    ultimately show ?thesis using False \<open>collectSelectors ?bs = Some sel\<close> by blast
  qed
  then show "ping_part t1 = Some t1" "truthy (oget t1 ''observatory'') \<longleftrightarrow> ?bs \<noteq> []"
    "?bs \<noteq> [] \<Longrightarrow> \<exists>sel. collectSelectors ?bs = Some sel \<and> jget (oget t1 ''observatory'') ''subjectSelector'' = JArr sel"
    by blast+
qed

lemma burst_part_Some:
  assumes "burst_part bs t = Some t1"
  shows "\<forall>k. k \<noteq> ''burstObservatory'' \<longrightarrow> oget t1 k = oget t k \<and> ohas t1 k = ohas t k" and "burst_part bs t1 = Some t1"
    and "truthy (oget t1 ''burstObservatory'') \<longleftrightarrow>
      of_strategy ''leastLoad'' bs \<noteq> [] \<or> (filter optional_balancer bs \<noteq> [] \<and> truthy (oget t ''burstObservatory''))"
    and "truthy (oget t1 ''burstObservatory'') \<Longrightarrow> \<exists>sel. collectSelectors (burst_balancers bs) = Some sel
      \<and> jget (oget t1 ''burstObservatory'') ''subjectSelector'' = JArr sel"
proof -
  let ?req = "of_strategy ''leastLoad'' bs" and ?opt = "filter optional_balancer bs"
  have "(\<forall>k. k \<noteq> ''burstObservatory'' \<longrightarrow> oget t1 k = oget t k \<and> ohas t1 k = ohas t k) \<and> burst_part bs t1 = Some t1
    \<and> (truthy (oget t1 ''burstObservatory'') \<longleftrightarrow> ?req \<noteq> [] \<or> (?opt \<noteq> [] \<and> truthy (oget t ''burstObservatory'')))
    \<and> (truthy (oget t1 ''burstObservatory'') \<longrightarrow> (\<exists>sel. collectSelectors (?req @ ?opt) = Some sel
          \<and> jget (oget t1 ''burstObservatory'') ''subjectSelector'' = JArr sel))"
  proof (cases "?req \<noteq> [] \<or> (?opt \<noteq> [] \<and> truthy (oget t ''burstObservatory''))")
    case True
    then have "observe ''burstObservatory'' DEFAULT_BURST_OBSERVATORY (?req @ ?opt) t = Some t1"
      using assms by (simp add: burst_part_def Let_def)
    then obtain sel ob where "collectSelectors (?req @ ?opt) = Some sel"
      and "t1 = oput ''burstObservatory'' (JObj (oput ''subjectSelector'' (JArr sel) ob)) t"
      and o: "observe ''burstObservatory'' DEFAULT_BURST_OBSERVATORY (?req @ ?opt) t1 = Some t1"
      by (rule observe_Some[OF _ observatory_names(2)])
    then have g: "truthy (oget t1 ''burstObservatory'')" "jget (oget t1 ''burstObservatory'') ''subjectSelector'' = JArr sel"
      "\<forall>k. k \<noteq> ''burstObservatory'' \<longrightarrow> oget t1 k = oget t k \<and> ohas t1 k = ohas t k" by simp_all
    then have "burst_part bs t1 = Some t1" using True o by (auto simp: burst_part_def Let_def)
    then show ?thesis using True g \<open>collectSelectors (?req @ ?opt) = Some sel\<close> by blast
  next
    case False
    show ?thesis
    proof (cases "?opt = []")
      case True
      then have "t1 = odel ''burstObservatory'' t" using False assms by (simp add: burst_part_def)
      then show ?thesis using True False by (simp add: burst_part_def)
    next
      case f: False
      then have "t1 = t" using False assms by (simp add: burst_part_def Let_def split: if_splits)
      then show ?thesis using f False by (simp add: burst_part_def Let_def)
    qed
  qed
  then show "\<forall>k. k \<noteq> ''burstObservatory'' \<longrightarrow> oget t1 k = oget t k \<and> ohas t1 k = ohas t k" "burst_part bs t1 = Some t1"
    "truthy (oget t1 ''burstObservatory'') \<longleftrightarrow> ?req \<noteq> [] \<or> (?opt \<noteq> [] \<and> truthy (oget t ''burstObservatory''))"
    "truthy (oget t1 ''burstObservatory'') \<Longrightarrow> \<exists>sel. collectSelectors (burst_balancers bs) = Some sel
      \<and> jget (oget t1 ''burstObservatory'') ''subjectSelector'' = JArr sel"
    unfolding burst_balancers_def by blast+
qed

lemma observe_same:
  assumes "named_key key" and "collectSelectors bs = Some sel"
    and "oget t key = JObj (oput ''subjectSelector'' (JArr sel) ob)" and "oput key (oget t key) t = t"
  shows "observe key d bs t = Some t"
proof -
  let ?v = "JObj (oput ''subjectSelector'' (JArr sel) ob)"
  have "observe key d bs t = Some (oput key (JObj (oput ''subjectSelector'' (JArr sel) (oput ''subjectSelector'' (JArr sel) ob))) t)"
    using assms(2,3) by (simp add: observe_def)
  also have "\<dots> = Some (oput key ?v t)" by (simp only: oput_over[OF observatory_names(3)])
  finally show ?thesis using assms(3,4) by (simp only:)
qed

lemma ping_ignores_burst:
  assumes "ping_part t1 = Some t1" and "burst_part bs t1 = Some t2"
  shows "ping_part t2 = Some t2"
proof -
  note b = burst_part_Some(1)[OF assms(2)]
  have e: "balancers_of t2 = balancers_of t1" "oget t2 ''observatory'' = oget t1 ''observatory''" using b by (simp_all add: balancers_of_def)
  let ?bs = "of_strategy ''leastPing'' (balancers_of t1)"
  show ?thesis
  proof (cases "?bs = []")
    case True
    then have "odel ''observatory'' t1 = t1" using assms(1) by (simp add: ping_part_def)
    then have "\<not> ohas t1 ''observatory''" by (metis ohas_odel)
    moreover have "ohas t2 ''observatory'' \<longleftrightarrow> ohas t1 ''observatory''"
      using b by simp
    ultimately show ?thesis using True by (simp add: ping_part_def e odel_absent)
  next
    case False
    then have o: "observe ''observatory'' DEFAULT_OBSERVATORY ?bs t1 = Some t1" using assms(1) by (simp add: ping_part_def)
    obtain sel ob where c: "collectSelectors ?bs = Some sel"
      and t1: "t1 = oput ''observatory'' (JObj (oput ''subjectSelector'' (JArr sel) ob)) t1"
      by (rule observe_Some[OF o observatory_names(1)])
    let ?v = "JObj (oput ''subjectSelector'' (JArr sel) ob)"
    have v: "oget t1 ''observatory'' = ?v" by (subst t1) (simp del: oput.simps)
    have h: "ohas t2 ''observatory''" using v e(2) by (metis js.distinct(11) oget_not_ohas)
    have "oput ''observatory'' (oget t2 ''observatory'') t2 = t2"
      by (rule oput_self[OF _ h]) (use observatory_names(1) in \<open>simp only: named_key_def not_False_eq_True\<close>)
    moreover have "oget t2 ''observatory'' = ?v" unfolding e(2) by (rule v)
    ultimately have "observe ''observatory'' DEFAULT_OBSERVATORY ?bs t2 = Some t2"
      using observe_same[OF observatory_names(1) c] by blast
    then show ?thesis using False by (simp add: ping_part_def e)
  qed
qed

lemma sync_Some:
  assumes "syncObservatories t = Some t'"
  obtains t1 where "array_or_empty (jget (oget t ''routing'') ''balancers'') \<noteq> None" and "\<not> list_ex nullish (balancers_of t)"
    and "ping_part t = Some t1" and "burst_part (balancers_of t) t1 = Some t'" and "balancers_of t' = balancers_of t"
    and "ping_part t' = Some t'" and "burst_part (balancers_of t') t' = Some t'"
    and "oget t' ''routing'' = oget t ''routing''"
proof -
  obtain t1 where g: "array_or_empty (jget (oget t ''routing'') ''balancers'') \<noteq> None" "\<not> list_ex nullish (balancers_of t)"
    and p: "ping_part t = Some t1" and b: "burst_part (balancers_of t) t1 = Some t'"
    using assms by (auto simp: syncObservatories_parts split: if_splits bind_splits)
  note P = ping_part_Some[OF p] and B = burst_part_Some[OF b]
  have r: "oget t' ''routing'' = oget t ''routing''" using P(1) B(1) by simp
  then have bs: "balancers_of t' = balancers_of t" by (simp add: balancers_of_def)
  show ?thesis using that[OF g p b bs ping_ignores_burst[OF P(2) b]] B(2) bs r by simp
qed

lemma sync_again: "syncObservatories t = Some t' \<Longrightarrow> syncObservatories t' = Some t'"
  by (erule sync_Some) (simp add: syncObservatories_parts)

text \<open>The tags an observatory is to probe: the non-empty selectors of its balancers.\<close>

definition selected_tags :: "js list \<Rightarrow> js set" where
  "selected_tags bs = {s. truthy s \<and> (\<exists>b\<in>set bs. s \<in> set (js_elems (jget b ''selector'')))}"

definition probes_exactly :: "js \<Rightarrow> js set \<Rightarrow> bool" where
  "probes_exactly ob tags \<longleftrightarrow> (\<exists>sel. jget ob ''subjectSelector'' = JArr sel \<and> distinct sel \<and> set sel = tags)"

lemma probes_collected:
  "collectSelectors bs = Some sel \<Longrightarrow> jget ob ''subjectSelector'' = JArr sel \<Longrightarrow> probes_exactly ob (selected_tags bs)"
  using collectSelectors_set[of bs sel] by (auto simp: probes_exactly_def selected_tags_def)

text \<open>
  C24
  After \<open>syncObservatories\<close> an observatory exists exactly when a balancer uses \<open>leastPing\<close> and probes
  exactly the non-empty selectors of those balancers, each once. A burst observatory exists exactly
  when a balancer uses \<open>leastLoad\<close>, or one was there already and a random or round-robin balancer
  keeps it, and it probes exactly the non-empty selectors of all three kinds. Syncing again changes nothing.
\<close>

theorem observatories_follow_balancers:
  assumes "syncObservatories t = Some t'"
  shows "(truthy (oget t' ''observatory'') \<longleftrightarrow> of_strategy ''leastPing'' (balancers_of t) \<noteq> [])
    \<and> (truthy (oget t' ''observatory'') \<longrightarrow>
        probes_exactly (oget t' ''observatory'') (selected_tags (of_strategy ''leastPing'' (balancers_of t))))
    \<and> (truthy (oget t' ''burstObservatory'') \<longleftrightarrow> of_strategy ''leastLoad'' (balancers_of t) \<noteq> []
        \<or> (filter optional_balancer (balancers_of t) \<noteq> [] \<and> truthy (oget t ''burstObservatory'')))
    \<and> (truthy (oget t' ''burstObservatory'') \<longrightarrow>
        probes_exactly (oget t' ''burstObservatory'')
          (selected_tags (of_strategy ''leastLoad'' (balancers_of t) @ filter optional_balancer (balancers_of t))))
    \<and> syncObservatories t' = Some t'"
proof -
  let ?bs = "balancers_of t"
  obtain t1 where p: "ping_part t = Some t1" and b: "burst_part ?bs t1 = Some t'"
    by (rule sync_Some[OF assms])
  note P = ping_part_Some[OF p] and B = burst_part_Some[OF b]
  have k: "oget t' ''observatory'' = oget t1 ''observatory''" "oget t1 ''burstObservatory'' = oget t ''burstObservatory''"
    using P(1) B(1) by simp_all
  show ?thesis
    using P(3,4) B(3) B(4) probes_collected sync_again[OF assms] unfolding k burst_balancers_def by blast
qed

theorem observatories_follow_balancers_witness:
  "\<exists>t'. syncObservatories [(''routing'', JObj [(''balancers'', JArr [JObj [(''selector'', JArr [JStr ''a'']),
        (''strategy'', JObj [(''type'', JStr ''leastLoad'')])]])])] = Some t'
     \<and> probes_exactly (oget t' ''burstObservatory'') {JStr ''a''}"
proof -
  let ?b = "JObj [(''selector'', JArr [JStr ''a'']), (''strategy'', JObj [(''type'', JStr ''leastLoad'')])]"
  let ?t = "[(''routing'', JObj [(''balancers'', JArr [?b])])]"
  have "syncObservatories ?t \<noteq> None" by code_simp
  then obtain t' where t': "syncObservatories ?t = Some t'" by blast
  have bs: "balancers_of ?t = [?b]" by (simp add: balancers_of_def js_elems_def)
  have l: "of_strategy ''leastLoad'' [?b] = [?b]" "filter optional_balancer [?b] = []" by code_simp+
  have "selected_tags [?b] = {JStr ''a''}" by (auto simp: selected_tags_def js_elems_def)
  with observatories_follow_balancers[OF t'] show ?thesis using t' unfolding bs l by auto
qed

end
