(* ===== verification/Xray_Setting.thy ===== *)
theory Xray_Setting
  imports Json
begin

text \<open>
  The hook \<open>useXraySetting\<close> behind the xray page: the editor that keeps the JSON text and the parsed
  template of the configuration in step and tracks unsaved changes, and the scheduler that tests
  outbounds through one lane of up to eight concurrent TCP probes and one lane of sequential HTTP
  batches.

  React state is a record; a handler returns the new record. The handlers read their refs as the
  state of the last render, which here is the state itself. \<open>syncingRef\<close> is only set while one of the
  setters runs, so no handler finds it set and it is left out. The text of a saved or fetched
  configuration is the two-space JSON text.
\<close>

section \<open>The editor\<close>

record editor =
  xraySetting :: string
  templateSettings :: js
  outboundTestUrl :: string
  saveDisabled :: bool
  oldXraySetting :: string
  oldOutboundTestUrl :: string

definition DEFAULT_TEST_URL :: string where
  "DEFAULT_TEST_URL = ''https://www.google.com/generate_204''"

definition fresh_editor :: editor where
  "fresh_editor = \<lparr>xraySetting = [], templateSettings = JNull, outboundTestUrl = DEFAULT_TEST_URL,
     saveDisabled = True, oldXraySetting = [], oldOutboundTestUrl = []\<rparr>"

text \<open>The effect that runs when the config query delivers new data.\<close>

definition seed :: "js \<Rightarrow> string \<Rightarrow> editor \<Rightarrow> editor" where
  "seed setting url e =
     (let pretty = json_stringify2 setting; nextUrl = (if url = [] then DEFAULT_TEST_URL else url)
      in e\<lparr>xraySetting := pretty, templateSettings := setting, oldXraySetting := pretty,
           outboundTestUrl := nextUrl, oldOutboundTestUrl := nextUrl, saveDisabled := True\<rparr>)"

definition setXraySetting :: "string \<Rightarrow> editor \<Rightarrow> editor" where
  "setXraySetting text1 e =
     (let e = e\<lparr>xraySetting := text1\<rparr>
      in case json_parse text1 of Some parsed \<Rightarrow> e\<lparr>templateSettings := parsed\<rparr> | None \<Rightarrow> e)"

definition setTemplateSettings :: "(js \<Rightarrow> js) \<Rightarrow> editor \<Rightarrow> editor" where
  "setTemplateSettings f e =
     (let next1 = f (templateSettings e) in
      if nullish next1 then e\<lparr>templateSettings := next1\<rparr>
      else e\<lparr>xraySetting := json_stringify2 next1, templateSettings := next1\<rparr>)"

definition setOutboundTestUrl :: "string \<Rightarrow> editor \<Rightarrow> editor" where
  "setOutboundTestUrl v e = e\<lparr>outboundTestUrl := v\<rparr>"

text \<open>What the save request sends, and what its success does; a failure changes nothing.\<close>

definition save_sent :: "editor \<Rightarrow> string \<times> string" where
  "save_sent e = (xraySetting e, if outboundTestUrl e = [] then DEFAULT_TEST_URL else outboundTestUrl e)"

definition save_succeeded :: "string \<times> string \<Rightarrow> editor \<Rightarrow> editor" where
  "save_succeeded sent e =
     e\<lparr>oldXraySetting := fst sent, oldOutboundTestUrl := snd sent, saveDisabled := True\<rparr>"

definition resetDefault :: "js \<Rightarrow> editor \<Rightarrow> editor" where
  "resetDefault obj e =
     (if truthy obj then
        (case json_parse (json_stringify obj) of Some cloned \<Rightarrow> setTemplateSettings (\<lambda>_. cloned) e | None \<Rightarrow> e)
      else e)"

text \<open>The interval timer.\<close>

definition poll_dirty :: "editor \<Rightarrow> editor" where
  "poll_dirty e =
     (let dirtyXray = (oldXraySetting e \<noteq> xraySetting e); dirtyUrl = (oldOutboundTestUrl e \<noteq> outboundTestUrl e)
      in e\<lparr>saveDisabled := \<not> (dirtyXray \<or> dirtyUrl)\<rparr>)"

datatype editor_event =
    Seed js string
  | Edit_Text string
  | Edit_Template "js \<Rightarrow> js"
  | Edit_Url string
  | Save_Ok "string \<times> string"
  | Reset_Default js
  | Poll

fun editor_step :: "editor_event \<Rightarrow> editor \<Rightarrow> editor" where
  "editor_step (Seed v u) e = seed v u e"
| "editor_step (Edit_Text s) e = setXraySetting s e"
| "editor_step (Edit_Template f) e = setTemplateSettings f e"
| "editor_step (Edit_Url u) e = setOutboundTestUrl u e"
| "editor_step (Save_Ok s) e = save_succeeded s e"
| "editor_step (Reset_Default v) e = resetDefault v e"
| "editor_step Poll e = poll_dirty e"

section \<open>Which outbounds are tested, and how\<close>

definition isUdpOutbound :: "js \<Rightarrow> bool" where
  "isUdpOutbound outbound =
     (let p = jget outbound ''protocol''; n = jget (jget outbound ''streamSettings'') ''network'' in
      p = JStr ''wireguard'' \<or> p = JStr ''hysteria'' \<or> n = JStr ''hysteria'' \<or> n = JStr ''kcp'' \<or> n = JStr ''quic'')"

definition skipped :: "js \<Rightarrow> bool" where
  "skipped ob =
     (let proto = jget ob ''protocol'' in
      proto = JStr ''blackhole'' \<or> proto = JStr ''loopback'' \<or> jget ob ''tag'' = JStr ''blocked''
      \<or> proto = JStr ''freedom'' \<or> proto = JStr ''dns'')"

text \<open>The same test as the list shows it, in \<open>outbounds-tab-helpers.ts\<close>.\<close>

definition isUntestable :: "js \<Rightarrow> bool" where
  "isUntestable o1 =
     (if \<not> truthy o1 then True
      else if jget o1 ''protocol'' = JStr ''blackhole'' \<or> jget o1 ''protocol'' = JStr ''loopback''
        \<or> jget o1 ''tag'' = JStr ''blocked'' then True
      else if jget o1 ''protocol'' = JStr ''freedom'' \<or> jget o1 ''protocol'' = JStr ''dns'' then True
      else False)"

datatype test_key = Tpl nat | Sub string

type_synonym test_item = "test_key \<times> js"

record test_queues =
  tcpQueue :: "test_item list"
  httpTplQueue :: "test_item list"
  httpSubQueue :: "test_item list"

definition enqueue :: "string \<Rightarrow> test_item \<Rightarrow> test_queues \<Rightarrow> test_queues" where
  "enqueue mode it q =
     (let ob = snd it in
      if skipped ob then q
      else if fst it = Sub [] then q
      else if mode = ''http'' \<or> isUdpOutbound ob then
        (case fst it of
           Tpl _ \<Rightarrow> q\<lparr>httpTplQueue := httpTplQueue q @ [it]\<rparr>
         | Sub _ \<Rightarrow> q\<lparr>httpSubQueue := httpSubQueue q @ [it]\<rparr>)
      else q\<lparr>tcpQueue := tcpQueue q @ [it]\<rparr>)"

definition sub_tag :: "js \<Rightarrow> string" where
  "sub_tag ob = (case jget ob ''tag'' of JStr s \<Rightarrow> s | _ \<Rightarrow> [])"

definition all_items :: "js list \<Rightarrow> js list \<Rightarrow> test_item list" where
  "all_items templateList subList =
     zip (map Tpl [0 ..< length templateList]) templateList @ map (\<lambda>ob. (Sub (sub_tag ob), ob)) subList"

definition build_queues :: "string \<Rightarrow> js list \<Rightarrow> js list \<Rightarrow> test_queues" where
  "build_queues mode templateList subList =
     fold (enqueue mode) (all_items templateList subList) \<lparr>tcpQueue = [], httpTplQueue = [], httpSubQueue = []\<rparr>"

definition HTTP_BATCH_CHUNK :: nat where
  "HTTP_BATCH_CHUNK = 16"

function chunks :: "nat \<Rightarrow> 'a list \<Rightarrow> 'a list list" where
  "chunks n xs = (if xs = [] \<or> n = 0 then [] else take n xs # chunks n (drop n xs))"
  by pat_completeness auto
termination by (relation "measure (\<lambda>(n, xs). length xs)") auto

declare chunks.simps [simp del]

text \<open>
  The outcome of one request. \<open>Failed\<close> is a thrown error or an unsuccessful answer with its message,
  \<open>Answered\<close> the list of results of a successful one; the results are aligned with the request.
\<close>

datatype test_result = Failure string string | Result js

datatype batch_reply = Failed string | Answered "js list"

definition batch_results :: "string \<Rightarrow> 'a list \<Rightarrow> batch_reply \<Rightarrow> test_result list" where
  "batch_results effMode outbounds reply =
     (case reply of
        Failed err \<Rightarrow> map (\<lambda>_. Failure err effMode) outbounds
      | Answered rs \<Rightarrow>
          map (\<lambda>i. if i < length rs \<and> \<not> nullish (rs ! i) then Result (rs ! i) else Failure ''Missing result'' effMode)
            [0 ..< length outbounds])"

datatype test_state = Testing | Tested test_result

type_synonym test_states = "test_key \<Rightarrow> test_state option"

section \<open>The two lanes\<close>

record lanes =
  tcp_waiting :: "test_item list"
  tcp_running :: "test_item list"
  workers :: nat
  http_waiting :: "test_item list list"
  http_running :: "test_item list option"
  results :: test_states

definition mark_testing :: "test_item list \<Rightarrow> test_states \<Rightarrow> test_states" where
  "mark_testing its m = fold (\<lambda>it m. m(fst it \<mapsto> Testing)) its m"

definition mark_tested :: "test_item list \<Rightarrow> test_result list \<Rightarrow> test_states \<Rightarrow> test_states" where
  "mark_tested its rs m = fold (\<lambda>(it, r) m. m(fst it \<mapsto> Tested r)) (zip its rs) m"

definition start_lanes :: "string \<Rightarrow> js list \<Rightarrow> js list \<Rightarrow> test_states \<Rightarrow> lanes" where
  "start_lanes mode templateList subList m =
     (let q = build_queues mode templateList subList
      in \<lparr>tcp_waiting = tcpQueue q, tcp_running = [], workers = min 8 (length (tcpQueue q)),
          http_waiting = chunks HTTP_BATCH_CHUNK (httpTplQueue q) @ chunks HTTP_BATCH_CHUNK (httpSubQueue q),
          http_running = None, results = m\<rparr>)"

text \<open>
  One step of the event loop: a worker takes an item (passing over an empty one), a probe is answered,
  the HTTP lane sends its next batch, a batch is answered. Any order of answers is possible. Tests the
  user starts one by one meanwhile are not part of the run.
\<close>

inductive lane_step :: "string \<Rightarrow> lanes \<Rightarrow> lanes \<Rightarrow> bool" for mode where
  Tcp_Take: "\<lbrakk>tcp_waiting l = it # rest; length (tcp_running l) < workers l; truthy (snd it)\<rbrakk> \<Longrightarrow>
     lane_step mode l (l\<lparr>tcp_waiting := rest, tcp_running := tcp_running l @ [it],
                         results := mark_testing [it] (results l)\<rparr>)"
| Tcp_Skip: "\<lbrakk>tcp_waiting l = it # rest; length (tcp_running l) < workers l; \<not> truthy (snd it)\<rbrakk> \<Longrightarrow>
     lane_step mode l (l\<lparr>tcp_waiting := rest\<rparr>)"
| Tcp_Done: "\<lbrakk>i < length (tcp_running l)\<rbrakk> \<Longrightarrow>
     lane_step mode l (l\<lparr>tcp_running := take i (tcp_running l) @ drop (Suc i) (tcp_running l),
                         results := mark_tested [tcp_running l ! i] (batch_results mode [tcp_running l ! i] reply) (results l)\<rparr>)"
| Http_Send: "\<lbrakk>http_running l = None; http_waiting l = chunk # rest\<rbrakk> \<Longrightarrow>
     lane_step mode l (l\<lparr>http_waiting := rest, http_running := Some chunk, results := mark_testing chunk (results l)\<rparr>)"
| Http_Done: "\<lbrakk>http_running l = Some chunk\<rbrakk> \<Longrightarrow>
     lane_step mode l (l\<lparr>http_running := None,
                         results := mark_tested chunk (batch_results ''http'' chunk reply) (results l)\<rparr>)"

inductive_cases lane_stepE: "lane_step mode l l'"

definition lanes_finished :: "lanes \<Rightarrow> bool" where
  "lanes_finished l \<longleftrightarrow> tcp_waiting l = [] \<and> tcp_running l = [] \<and> http_waiting l = [] \<and> http_running l = None"

section \<open>The editor keeps text and template in step\<close>

definition in_step :: "editor \<Rightarrow> bool" where
  "in_step e \<longleftrightarrow> (\<forall>v. json_parse (xraySetting e) = Some v \<longrightarrow> templateSettings e = v)"

text \<open>
  The values that reach the editor are JSON values, and a template edit is applied to a loaded template
  only, as the callers do.
\<close>

fun event_ok :: "editor_event \<Rightarrow> editor \<Rightarrow> bool" where
  "event_ok (Seed v u) e = json_clean v"
| "event_ok (Edit_Template f) e =
     (let n = f (templateSettings e) in if nullish n then n = templateSettings e else json_clean n)"
| "event_ok (Reset_Default v) e = (truthy v \<longrightarrow> json_clean v)"
| "event_ok _ e = True"

inductive editor_run :: "editor \<Rightarrow> bool" where
  Start: "editor_run fresh_editor"
| Event: "editor_run e \<Longrightarrow> event_ok ev e \<Longrightarrow> editor_run (editor_step ev e)"

lemma in_step_written: "json_clean v \<Longrightarrow> xraySetting e = json_stringify2 v \<Longrightarrow> templateSettings e = v \<Longrightarrow> in_step e"
  by (simp add: in_step_def json_parse_stringify2)

lemma editor_step_in_step:
  assumes "in_step e" and "event_ok ev e"
  shows "in_step (editor_step ev e)"
proof (cases ev)
  case (Seed v u)
  then show ?thesis using assms(2) by (intro in_step_written[of v]) (simp_all add: seed_def Let_def)
next
  case (Edit_Text s)
  then show ?thesis by (auto simp: setXraySetting_def Let_def in_step_def split: option.split)
next
  case (Edit_Template f)
  let ?n = "f (templateSettings e)"
  show ?thesis
  proof (cases "nullish ?n")
    case True
    then have "setTemplateSettings f e = e" using assms(2) Edit_Template by (simp add: setTemplateSettings_def Let_def)
    then show ?thesis using assms(1) Edit_Template by simp
  next
    case False
    then show ?thesis using assms(2) Edit_Template
      by (intro in_step_written[of ?n]) (simp_all add: setTemplateSettings_def Let_def)
  qed
next
  case (Reset_Default v)
  show ?thesis
  proof (cases "truthy v")
    case True
    then have c: "json_clean v" using assms(2) Reset_Default by simp
    then have "editor_step ev e = setTemplateSettings (\<lambda>_. v) e"
      using True Reset_Default by (simp add: resetDefault_def json_parse_stringify)
    moreover have "\<not> nullish v" using True by (cases v) simp_all
    ultimately show ?thesis using c by (intro in_step_written[of v]) (simp_all add: setTemplateSettings_def)
  next
    case False
    then show ?thesis using assms(1) Reset_Default by (simp add: resetDefault_def)
  qed
qed (use assms(1) in \<open>simp_all add: in_step_def setOutboundTestUrl_def save_succeeded_def poll_dirty_def Let_def\<close>)

text \<open>
  C30
  In every reachable state of the editor, whenever the text of the configuration parses, the template
  the other tabs edit is the value it parses to; and the next tick of the timer disables saving exactly
  when neither the text nor the test address differs from what was last fetched or saved.
\<close>

theorem editor_text_template_agree:
  assumes "editor_run e"
  shows "(json_parse (xraySetting e) = Some v \<longrightarrow> templateSettings e = v)
    \<and> (saveDisabled (poll_dirty e) \<longleftrightarrow> xraySetting e = oldXraySetting e \<and> outboundTestUrl e = oldOutboundTestUrl e)"
proof -
  have "in_step e" using assms
  proof induction
    case Start
    have "json_parse [] = None" by code_simp
    then show ?case by (simp add: in_step_def fresh_editor_def)
  qed (rule editor_step_in_step)
  then show ?thesis by (auto simp: in_step_def poll_dirty_def Let_def)
qed

theorem editor_text_template_agree_witness:
  "templateSettings (setXraySetting ''{}'' fresh_editor) = JObj []"
proof -
  have "editor_run (setXraySetting ''{}'' fresh_editor)" using Event[OF Start, of "Edit_Text ''{}''"] by simp
  moreover have "xraySetting (setXraySetting ''{}'' fresh_editor) = ''{}''"
    by (simp add: setXraySetting_def Let_def split: option.split)
  moreover have "json_parse ''{}'' = Some (JObj [])" by code_simp
  ultimately show ?thesis using editor_text_template_agree by simp
qed

text \<open>
  An edit made while a save is under way is overwritten by the refetch the success triggers, and the
  save button stays disabled.
\<close>

lemma edit_during_save_lost:
  assumes "e1 = setXraySetting s (save_succeeded sent (setXraySetting s e))"
  shows "xraySetting (seed v u e1) = json_stringify2 v \<and> templateSettings (seed v u e1) = v
    \<and> saveDisabled (poll_dirty (seed v u e1))"
  by (simp add: seed_def Let_def poll_dirty_def)

section \<open>The queues\<close>

lemma chunks_Nil [simp]: "chunks n [] = []"
  by (simp add: chunks.simps)

lemma concat_chunks: "0 < n \<Longrightarrow> concat (chunks n xs) = xs"
  by (induction n xs rule: chunks.induct) (subst chunks.simps, auto)

lemma chunk_size: "c \<in> set (chunks n xs) \<Longrightarrow> c \<noteq> [] \<and> length c \<le> n"
  by (induction n xs rule: chunks.induct) (subst (asm) chunks.simps, auto split: if_splits)

text \<open>What is asked of an item to be tested, and by which lane.\<close>

definition wanted :: "test_item \<Rightarrow> bool" where
  "wanted it \<longleftrightarrow> \<not> skipped (snd it) \<and> fst it \<noteq> Sub []"

definition by_http :: "string \<Rightarrow> test_item \<Rightarrow> bool" where
  "by_http mode it \<longleftrightarrow> mode = ''http'' \<or> isUdpOutbound (snd it)"

definition is_tpl :: "test_key \<Rightarrow> bool" where
  "is_tpl k \<longleftrightarrow> (case k of Tpl _ \<Rightarrow> True | Sub _ \<Rightarrow> False)"

lemma fold_enqueue:
  "fold (enqueue mode) its q =
     \<lparr>tcpQueue = tcpQueue q @ filter (\<lambda>it. wanted it \<and> \<not> by_http mode it) its,
      httpTplQueue = httpTplQueue q @ filter (\<lambda>it. wanted it \<and> by_http mode it \<and> is_tpl (fst it)) its,
      httpSubQueue = httpSubQueue q @ filter (\<lambda>it. wanted it \<and> by_http mode it \<and> \<not> is_tpl (fst it)) its\<rparr>"
proof (induction its arbitrary: q)
  case (Cons it its)
  have "enqueue mode it q = \<lparr>tcpQueue = tcpQueue q @ (if wanted it \<and> \<not> by_http mode it then [it] else []),
      httpTplQueue = httpTplQueue q @ (if wanted it \<and> by_http mode it \<and> is_tpl (fst it) then [it] else []),
      httpSubQueue = httpSubQueue q @ (if wanted it \<and> by_http mode it \<and> \<not> is_tpl (fst it) then [it] else [])\<rparr>"
    by (cases q) (auto simp: enqueue_def Let_def wanted_def by_http_def is_tpl_def split: test_key.split)
  then show ?case using Cons by simp
qed simp

lemma build_queues_eq:
  "build_queues mode ts ss =
     \<lparr>tcpQueue = filter (\<lambda>it. wanted it \<and> \<not> by_http mode it) (all_items ts ss),
      httpTplQueue = filter (\<lambda>it. wanted it \<and> by_http mode it \<and> is_tpl (fst it)) (all_items ts ss),
      httpSubQueue = filter (\<lambda>it. wanted it \<and> by_http mode it \<and> \<not> is_tpl (fst it)) (all_items ts ss)\<rparr>"
  by (simp add: build_queues_def fold_enqueue)

text \<open>
  Testing all passes over exactly the outbounds the list marks as untestable, and the answers of a batch
  line up with its request: one result per outbound, a missing one reported as such.
\<close>

theorem tested_are_the_testable:
  "(truthy ob \<longrightarrow> (skipped ob \<longleftrightarrow> isUntestable ob))
   \<and> set (tcpQueue (build_queues mode ts ss)) \<union> set (httpTplQueue (build_queues mode ts ss))
       \<union> set (httpSubQueue (build_queues mode ts ss)) = {it \<in> set (all_items ts ss). \<not> skipped (snd it) \<and> fst it \<noteq> Sub []}
   \<and> length (batch_results mode its reply) = length its"
  by (auto simp: isUntestable_def skipped_def Let_def build_queues_eq wanted_def batch_results_def split: batch_reply.split)

theorem tested_are_the_testable_witness:
  "skipped (JObj [(''protocol'', JStr ''dns'')]) \<longleftrightarrow> isUntestable (JObj [(''protocol'', JStr ''dns'')])"
proof -
  have "truthy ob \<longrightarrow> (skipped ob \<longleftrightarrow> isUntestable ob)" for ob by (rule conjunct1[OF tested_are_the_testable])
  from this[of "JObj [(''protocol'', JStr ''dns'')]"] show ?thesis by (simp only: truthy.simps simp_thms)
qed

section \<open>The lanes\<close>

definition in_flight :: "lanes \<Rightarrow> test_item list" where
  "in_flight l = tcp_running l @ (case http_running l of Some c \<Rightarrow> c | None \<Rightarrow> [])"

definition unsent :: "lanes \<Rightarrow> test_item list" where
  "unsent l = tcp_waiting l @ concat (http_waiting l)"

text \<open>The items of the run that are sent: the HTTP lane also sends empty outbounds.\<close>

definition tested_item :: "string \<Rightarrow> test_item \<Rightarrow> bool" where
  "tested_item mode it \<longleftrightarrow> wanted it \<and> (truthy (snd it) \<or> by_http mode it)"

definition good_batch :: "test_item list \<Rightarrow> bool" where
  "good_batch c \<longleftrightarrow> c \<noteq> [] \<and> length c \<le> 16 \<and> (list_all (\<lambda>it. is_tpl (fst it)) c \<or> list_all (\<lambda>it. \<not> is_tpl (fst it)) c)"

definition lanes_inv :: "string \<Rightarrow> test_item list \<Rightarrow> test_states \<Rightarrow> lanes \<Rightarrow> bool" where
  "lanes_inv mode its m l \<longleftrightarrow>
     length (tcp_running l) \<le> workers l \<and> workers l \<le> 8 \<and> (tcp_waiting l \<noteq> [] \<longrightarrow> 0 < workers l)
     \<and> list_all good_batch (http_waiting l) \<and> (\<forall>c. http_running l = Some c \<longrightarrow> good_batch c)
     \<and> set (tcp_waiting l) \<subseteq> {it \<in> set its. wanted it} \<and> set (concat (http_waiting l)) \<subseteq> {it \<in> set its. tested_item mode it}
     \<and> set (in_flight l) \<subseteq> {it \<in> set its. tested_item mode it}
     \<and> (\<forall>k. results l k = Some Testing \<longrightarrow> k \<in> fst ` set (in_flight l))
     \<and> (\<forall>it\<in>set its. tested_item mode it \<longrightarrow> it \<in> set (unsent l) \<or> results l (fst it) \<noteq> None)
     \<and> (\<forall>k. k \<notin> fst ` {it \<in> set its. tested_item mode it} \<longrightarrow> results l k = m k)"

lemma mark_testing_get: "mark_testing its m k = (if k \<in> fst ` set its then Some Testing else m k)"
  by (induction its arbitrary: m) (auto simp: mark_testing_def)

lemma mark_tested_get:
  "length rs = length its \<Longrightarrow>
     (if k \<in> fst ` set its then \<exists>r. mark_tested its rs m k = Some (Tested r) else mark_tested its rs m k = m k)"
proof (induction its rs arbitrary: m rule: list_induct2')
  case (4 it its r rs)
  have "mark_tested (it # its) (r # rs) m = mark_tested its rs (m(fst it \<mapsto> Tested r))" by (simp add: mark_tested_def)
  moreover have "if k \<in> fst ` set its then \<exists>r'. mark_tested its rs (m(fst it \<mapsto> Tested r)) k = Some (Tested r')
      else mark_tested its rs (m(fst it \<mapsto> Tested r)) k = (m(fst it \<mapsto> Tested r)) k"
    using 4 by simp
  ultimately show ?case by (auto split: if_splits)
qed (simp_all add: mark_tested_def)

lemma batch_results_length [simp]: "length (batch_results mode its reply) = length its"
  by (simp add: batch_results_def split: batch_reply.split)

lemma list_except: "i < length xs \<Longrightarrow> set xs = insert (xs ! i) (set (take i xs @ drop (Suc i) xs))"
  by (subst id_take_nth_drop[of i xs]) auto

lemma marked_inv:
  assumes "\<forall>k. m k = Some Testing \<longrightarrow> k \<in> fst ` (A \<union> set its)" and "length rs = length its"
  shows "\<forall>k. mark_tested its rs m k = Some Testing \<longrightarrow> k \<in> fst ` A"
    and "\<forall>k. m k \<noteq> None \<longrightarrow> mark_tested its rs m k \<noteq> None"
    and "\<forall>k. k \<notin> fst ` set its \<longrightarrow> mark_tested its rs m k = m k"
proof -
  have g: "if k \<in> fst ` set its then \<exists>r. mark_tested its rs m k = Some (Tested r) else mark_tested its rs m k = m k" for k
    by (rule mark_tested_get[OF assms(2)])
  show "\<forall>k. mark_tested its rs m k = Some Testing \<longrightarrow> k \<in> fst ` A"
  proof (intro allI impI)
    fix k assume t: "mark_tested its rs m k = Some Testing"
    then have "k \<notin> fst ` set its" using g[of k] by (cases "k \<in> fst ` set its") simp_all
    then show "k \<in> fst ` A" using g[of k] t assms(1) by auto
  qed
  show "\<forall>k. m k \<noteq> None \<longrightarrow> mark_tested its rs m k \<noteq> None"
  proof (intro allI impI)
    fix k assume "m k \<noteq> None"
    then show "mark_tested its rs m k \<noteq> None" using g[of k] by (auto split: if_splits)
  qed
  show "\<forall>k. k \<notin> fst ` set its \<longrightarrow> mark_tested its rs m k = m k" using g by simp
qed

lemma wanted_tested: "wanted it \<Longrightarrow> truthy (snd it) \<Longrightarrow> tested_item mode it" "tested_item mode it \<Longrightarrow> \<not> by_http mode it \<Longrightarrow> truthy (snd it)"
  by (auto simp: tested_item_def)

lemma by_keys: "it \<in> A \<Longrightarrow> fst it \<in> fst ` A"
  by blast

lemma answer_inv:
  assumes inv: "lanes_inv mode its m l"
    and p: "tcp_waiting l' = tcp_waiting l" "workers l' = workers l" "http_waiting l' = http_waiting l"
      "http_running l' = http_running l \<or> http_running l' = None" "length (tcp_running l') \<le> length (tcp_running l)"
    and s: "set (in_flight l) = set (in_flight l') \<union> X"
    and r: "\<forall>k. results l' k = Some Testing \<longrightarrow> k \<in> fst ` set (in_flight l')"
      "\<forall>k. results l k \<noteq> None \<longrightarrow> results l' k \<noteq> None" "\<forall>k. k \<notin> fst ` X \<longrightarrow> results l' k = results l k"
  shows "lanes_inv mode its m l'"
proof -
  have X: "X \<subseteq> {it \<in> set its. tested_item mode it}" and f: "set (in_flight l') \<subseteq> {it \<in> set its. tested_item mode it}"
    using inv s by (auto simp: lanes_inv_def)
  have u: "unsent l' = unsent l" using p by (simp add: unsent_def)
  have a: "\<forall>it\<in>set its. tested_item mode it \<longrightarrow> it \<in> set (unsent l') \<or> results l' (fst it) \<noteq> None"
    using inv r(2) unfolding u lanes_inv_def by blast
  have b: "\<forall>k. k \<notin> fst ` {it \<in> set its. tested_item mode it} \<longrightarrow> results l' k = m k"
  proof (intro allI impI)
    fix k assume k: "k \<notin> fst ` {it \<in> set its. tested_item mode it}"
    then have "k \<notin> fst ` X" using X by blast
    then show "results l' k = m k" using r(3) k inv by (simp add: lanes_inv_def)
  qed
  show ?thesis
    using inv p a b f r(1) unfolding lanes_inv_def by (elim conjE disjE) simp_all
qed

lemma lane_step_inv:
  assumes "lane_step mode l l'" and "lanes_inv mode its m l" and "\<forall>it\<in>set (tcp_waiting l). \<not> by_http mode it"
  shows "lanes_inv mode its m l' \<and> (\<forall>it\<in>set (tcp_waiting l'). \<not> by_http mode it)"
  using assms(1)
proof cases
  case (Tcp_Take it rest)
  have p: "tcp_waiting l' = rest" "tcp_running l' = tcp_running l @ [it]" "workers l' = workers l"
    "http_waiting l' = http_waiting l" "http_running l' = http_running l"
    by (simp_all add: Tcp_Take(1))
  have f: "in_flight l' = tcp_running l @ it # (case http_running l of Some c \<Rightarrow> c | None \<Rightarrow> [])"
    and u: "unsent l = it # unsent l'"
    using Tcp_Take by (simp_all add: in_flight_def unsent_def)
  have t: "it \<in> set its" "tested_item mode it" using assms(2) Tcp_Take wanted_tested(1) by (auto simp: lanes_inv_def)
  have r: "results l' k = (if k = fst it then Some Testing else results l k)" for k
    using Tcp_Take by (simp add: mark_testing_get)
  have s: "set (in_flight l') = insert it (set (in_flight l))" unfolding f by (auto simp: in_flight_def)
  show ?thesis
    using assms(2,3) Tcp_Take(2-) p t by (auto simp: lanes_inv_def s r u)
next
  case (Tcp_Skip it rest)
  have "in_flight l' = in_flight l" and u: "unsent l = it # unsent l'"
    using Tcp_Skip by (simp_all add: in_flight_def unsent_def)
  moreover have "\<not> tested_item mode it" using Tcp_Skip(2,4) assms(3) by (auto simp: tested_item_def)
  moreover have "tcp_waiting l' = rest" "tcp_running l' = tcp_running l" "workers l' = workers l"
    "http_waiting l' = http_waiting l" "http_running l' = http_running l" "results l' = results l"
    by (simp_all add: Tcp_Skip(1))
  ultimately show ?thesis using assms(2,3) Tcp_Skip(2-) by (auto simp: lanes_inv_def)
next
  case (Tcp_Done i reply)
  let ?x = "tcp_running l ! i"
  have s: "set (in_flight l) = insert ?x (set (in_flight l'))"
    using Tcp_Done list_except[of i "tcp_running l"] by (auto simp: in_flight_def)
  have u: "unsent l' = unsent l" using Tcp_Done by (simp add: unsent_def)
  have tst: "\<forall>k. results l k = Some Testing \<longrightarrow> k \<in> fst ` (set (in_flight l') \<union> set [?x])"
    using assms(2) s by (auto simp: lanes_inv_def)
  note g = marked_inv[OF tst, of "batch_results mode [?x] reply", simplified batch_results_length, OF refl]
  have r: "results l' = mark_tested [?x] (batch_results mode [?x] reply) (results l)" using Tcp_Done by simp
  have p: "tcp_waiting l' = tcp_waiting l" "workers l' = workers l" "http_waiting l' = http_waiting l" "http_running l' = http_running l"
    by (simp_all add: Tcp_Done(1))
  have le: "length (tcp_running l') \<le> length (tcp_running l)" using Tcp_Done by simp
  have "lanes_inv mode its m l'"
    by (rule answer_inv[OF assms(2) p(1,2,3) _ le, of "set [?x]"]) (use p(4) s g in \<open>simp_all add: r\<close>)
  then show ?thesis using assms(3) p by simp
next
  case (Http_Send chunk rest)
  have p: "tcp_waiting l' = tcp_waiting l" "tcp_running l' = tcp_running l" "workers l' = workers l"
    "http_waiting l' = rest" "http_running l' = Some chunk"
    by (simp_all add: Http_Send(1))
  have s: "set (in_flight l') = set chunk \<union> set (in_flight l)" using Http_Send by (auto simp: in_flight_def)
  have u: "set (unsent l) = set chunk \<union> set (unsent l')" using Http_Send by (auto simp: unsent_def)
  have c: "good_batch chunk" "set chunk \<subseteq> {it \<in> set its. tested_item mode it}" "list_all good_batch rest"
    "set (concat rest) \<subseteq> {it \<in> set its. tested_item mode it}"
    using assms(2) Http_Send by (auto simp: lanes_inv_def)
  have r: "results l' k = (if k \<in> fst ` set chunk then Some Testing else results l k)" for k
    using Http_Send by (simp add: mark_testing_get)
  show ?thesis
    using assms(2,3) Http_Send(2-) p c by (auto simp: lanes_inv_def s r u)
next
  case (Http_Done chunk reply)
  have p: "tcp_waiting l' = tcp_waiting l" "tcp_running l' = tcp_running l" "workers l' = workers l"
    "http_waiting l' = http_waiting l" "http_running l' = None"
    by (simp_all add: Http_Done(1))
  have s: "set (in_flight l) = set (in_flight l') \<union> set chunk" using Http_Done by (auto simp: in_flight_def)
  have u: "unsent l' = unsent l" using Http_Done by (simp add: unsent_def)
  have tst: "\<forall>k. results l k = Some Testing \<longrightarrow> k \<in> fst ` (set (in_flight l') \<union> set chunk)"
    using assms(2) s by (auto simp: lanes_inv_def)
  note g = marked_inv[OF tst batch_results_length[of "''http''" chunk reply]]
  have r: "results l' = mark_tested chunk (batch_results ''http'' chunk reply) (results l)" using Http_Done by simp
  have "lanes_inv mode its m l'"
    by (rule answer_inv[OF assms(2) p(1,3,4), of "set chunk"]) (use p(2,5) s g in \<open>simp_all only: r, simp\<close>)
  then show ?thesis using assms(3) p by simp
qed

lemma start_inv:
  assumes "\<forall>k. m k \<noteq> Some Testing"
  shows "lanes_inv mode (all_items ts ss) m (start_lanes mode ts ss m)
    \<and> (\<forall>it\<in>set (tcp_waiting (start_lanes mode ts ss m)). \<not> by_http mode it)"
proof -
  let ?its = "all_items ts ss" and ?l = "start_lanes mode ts ss m"
  let ?T = "filter (\<lambda>it. wanted it \<and> by_http mode it \<and> is_tpl (fst it)) ?its"
  let ?S = "filter (\<lambda>it. wanted it \<and> by_http mode it \<and> \<not> is_tpl (fst it)) ?its"
  let ?Q = "filter (\<lambda>it. wanted it \<and> \<not> by_http mode it) ?its"
  have l: "?l = \<lparr>tcp_waiting = ?Q, tcp_running = [], workers = min 8 (length ?Q),
      http_waiting = chunks 16 ?T @ chunks 16 ?S, http_running = None, results = m\<rparr>"
    by (simp add: start_lanes_def Let_def build_queues_eq HTTP_BATCH_CHUNK_def)
  have cc: "concat (chunks 16 xs) = xs" for xs :: "test_item list" by (rule concat_chunks) simp
  have sub: "c \<in> set (chunks 16 xs) \<Longrightarrow> set c \<subseteq> set xs" for c and xs :: "test_item list"
    using cc[of xs] by (metis UN_upper set_concat)
  have g: "good_batch c" if "c \<in> set (chunks 16 ?T) \<union> set (chunks 16 ?S)" for c
    using that chunk_size[of c 16 ?T] chunk_size[of c 16 ?S] sub[of c ?T] sub[of c ?S]
    by (auto simp: good_batch_def list_all_iff)
  have h: "http_waiting ?l = chunks 16 ?T @ chunks 16 ?S" "concat (http_waiting ?l) = ?T @ ?S" "tcp_waiting ?l = ?Q"
    "tcp_running ?l = []" "workers ?l = min 8 (length ?Q)" "http_running ?l = None" "results ?l = m"
    "in_flight ?l = []" "unsent ?l = ?Q @ ?T @ ?S"
    by (simp_all add: l cc in_flight_def unsent_def)
  have b: "list_all good_batch (http_waiting ?l)" unfolding h list_all_iff using g by auto
  have "lanes_inv mode ?its m ?l"
    unfolding lanes_inv_def h(2-) using assms b by (auto simp: tested_item_def by_http_def)
  then show ?thesis unfolding h by auto
qed

lemma run_inv:
  assumes "(lane_step mode)\<^sup>*\<^sup>* (start_lanes mode ts ss m) l" and "\<forall>k. m k \<noteq> Some Testing"
  shows "lanes_inv mode (all_items ts ss) m l"
proof -
  have "lanes_inv mode (all_items ts ss) m l \<and> (\<forall>it\<in>set (tcp_waiting l). \<not> by_http mode it)"
    using assms(1) by (induction rule: rtranclp_induct) (use start_inv[OF assms(2)] lane_step_inv in blast)+
  then show ?thesis by blast
qed

text \<open>
  C35
  At any moment of a run that tests all outbounds, tests the user starts on single rows meanwhile left aside,
  and in whatever order the answers arrive, at most eight TCP probes are under way, a batch under way holds at
  most sixteen outbounds, all of the template or all of the subscriptions, only outbounds of the run that can
  be tested are sent, and every outbound shown as being tested has a request under way.
\<close>

theorem test_run_bounded:
  assumes "(lane_step mode)\<^sup>*\<^sup>* (start_lanes mode ts ss m) l" and "\<forall>k. m k \<noteq> Some Testing"
  shows "length (tcp_running l) \<le> 8
    \<and> (\<forall>c. http_running l = Some c \<longrightarrow> length c \<le> 16
          \<and> (list_all (\<lambda>it. is_tpl (fst it)) c \<or> list_all (\<lambda>it. \<not> is_tpl (fst it)) c))
    \<and> (\<forall>it\<in>set (in_flight l). it \<in> set (all_items ts ss) \<and> \<not> skipped (snd it) \<and> fst it \<noteq> Sub [])
    \<and> (\<forall>k. results l k = Some Testing \<longrightarrow> k \<in> fst ` set (in_flight l))"
proof -
  note i = run_inv[OF assms, unfolded lanes_inv_def]
  have "\<forall>it\<in>set (in_flight l). it \<in> set (all_items ts ss) \<and> \<not> skipped (snd it) \<and> fst it \<noteq> Sub []"
    using i by (auto simp: tested_item_def wanted_def)
  then show ?thesis using i by (auto simp: good_batch_def)
qed

text \<open>A run with an outbound in each lane: both have been sent and are shown as being tested.\<close>

theorem test_run_bounded_witness:
  "\<exists>l. (lane_step ''tcp'')\<^sup>*\<^sup>* (start_lanes ''tcp'' [JObj [], JObj [(''protocol'', JStr ''wireguard'')]] [] (\<lambda>_. None)) l
     \<and> fst ` set (in_flight l) = {Tpl 0, Tpl 1} \<and> results l (Tpl 0) = Some Testing \<and> results l (Tpl 1) = Some Testing
     \<and> length (tcp_running l) = 1 \<and> (\<forall>c. http_running l = Some c \<longrightarrow> length c \<le> 16)
     \<and> (\<forall>it\<in>set (in_flight l). \<not> skipped (snd it))"
proof -
  let ?wg = "JObj [(''protocol'', JStr ''wireguard'')]" let ?a = "(Tpl 0, JObj [])" let ?b = "(Tpl 1, ?wg)"
  let ?s = "start_lanes ''tcp'' [JObj [], ?wg] [] (\<lambda>_. None)"
  have w: "wanted ?a" "\<not> by_http ''tcp'' ?a" "wanted ?b" "by_http ''tcp'' ?b" "is_tpl (fst ?b)"
    by (simp_all add: wanted_def skipped_def by_http_def is_tpl_def isUdpOutbound_def)
  have a: "all_items [JObj [], ?wg] [] = [?a, ?b]" by (simp add: all_items_def)
  have c: "chunks 16 [x] = [[x]]" for x :: test_item by (subst chunks.simps) simp
  have s: "?s = \<lparr>tcp_waiting = [?a], tcp_running = [], workers = 1, http_waiting = [[?b]], http_running = None, results = \<lambda>_. None\<rparr>"
    using w by (simp add: start_lanes_def Let_def build_queues_eq a c HTTP_BATCH_CHUNK_def)
  let ?l1 = "?s\<lparr>tcp_waiting := [], tcp_running := tcp_running ?s @ [?a], results := mark_testing [?a] (results ?s)\<rparr>"
  let ?l2 = "?l1\<lparr>http_waiting := [], http_running := Some [?b], results := mark_testing [?b] (results ?l1)\<rparr>"
  have m: "\<forall>k. (\<lambda>_. None :: test_state option) k \<noteq> Some Testing" by simp
  have "lane_step ''tcp'' ?s ?l1" by (rule Tcp_Take) (simp_all add: s)
  moreover have "lane_step ''tcp'' ?l1 ?l2" by (rule Http_Send) (simp_all add: s)
  ultimately have r: "(lane_step ''tcp'')\<^sup>*\<^sup>* ?s ?l2" by (meson rtranclp.intros)
  have f: "fst ` set (in_flight ?l2) = {Tpl 0, Tpl 1}" "results ?l2 (Tpl 0) = Some Testing" "results ?l2 (Tpl 1) = Some Testing"
    "length (tcp_running ?l2) = 1"
    by (auto simp: in_flight_def s mark_testing_def)
  show ?thesis using r f test_run_bounded[OF r m] by (intro exI[of _ ?l2]) blast
qed

text \<open>
  C31
  When a run has finished, every outbound that was to be tested shows a result, none shows as being
  tested, and the result of every other outbound is what it was.
\<close>

theorem test_run_complete:
  assumes "(lane_step mode)\<^sup>*\<^sup>* (start_lanes mode ts ss m) l" and "\<forall>k. m k \<noteq> Some Testing" and "lanes_finished l"
  shows "(\<forall>it\<in>set (all_items ts ss). tested_item mode it \<longrightarrow> (\<exists>r. results l (fst it) = Some (Tested r)))
    \<and> (\<forall>k. results l k \<noteq> Some Testing)
    \<and> (\<forall>k. k \<notin> fst ` {it \<in> set (all_items ts ss). tested_item mode it} \<longrightarrow> results l k = m k)"
proof -
  note i = run_inv[OF assms(1,2)]
  have e: "in_flight l = []" "unsent l = []" using assms(3) by (simp_all add: lanes_finished_def in_flight_def unsent_def)
  then have t: "results l k \<noteq> Some Testing" for k using i by (auto simp: lanes_inv_def)
  have "\<exists>r. results l (fst it) = Some (Tested r)" if "it \<in> set (all_items ts ss)" "tested_item mode it" for it
  proof -
    have "results l (fst it) \<noteq> None" using i that e by (simp add: lanes_inv_def)
    then obtain s where s: "results l (fst it) = Some s" by blast
    then show ?thesis using t[of "fst it"] by (cases s) simp_all
  qed
  then show ?thesis using t i by (auto simp: lanes_inv_def)
qed

theorem test_run_complete_witness:
  "\<exists>l. (lane_step ''http'')\<^sup>*\<^sup>* (start_lanes ''http'' [JObj []] [] (\<lambda>_. None)) l \<and> (\<exists>r. results l (Tpl 0) = Some (Tested r))"
proof -
  let ?it = "(Tpl 0, JObj [])" and ?s = "start_lanes ''http'' [JObj []] [] (\<lambda>_. None)"
  have w: "wanted ?it" "by_http ''http'' ?it" "is_tpl (fst ?it)" by (simp_all add: wanted_def skipped_def by_http_def is_tpl_def)
  have a: "all_items [JObj []] [] = [?it]" by (simp add: all_items_def)
  have c: "chunks 16 [?it] = [[?it]]" by (simp add: chunks.simps)
  have s: "?s = \<lparr>tcp_waiting = [], tcp_running = [], workers = 0, http_waiting = [[?it]], http_running = None, results = \<lambda>_. None\<rparr>"
    using w by (simp add: start_lanes_def Let_def build_queues_eq a c HTTP_BATCH_CHUNK_def)
  let ?l1 = "?s\<lparr>http_waiting := [], http_running := Some [?it], results := mark_testing [?it] (results ?s)\<rparr>"
  let ?l2 = "?l1\<lparr>http_running := None, results := mark_tested [?it] (batch_results ''http'' [?it] (Answered [])) (results ?l1)\<rparr>"
  have "lane_step ''http'' ?s ?l1" by (rule Http_Send) (simp_all add: s)
  moreover have "lane_step ''http'' ?l1 ?l2" by (rule Http_Done) simp
  ultimately have r: "(lane_step ''http'')\<^sup>*\<^sup>* ?s ?l2" by (meson rtranclp.intros)
  have "lanes_finished ?l2" by (simp add: lanes_finished_def s)
  from test_run_complete[OF r _ this] a w show ?thesis using r by (auto simp: tested_item_def intro!: exI[of _ ?l2])
qed

section \<open>A run ends\<close>

definition lane_work :: "lanes \<Rightarrow> nat" where
  "lane_work l = 2 * length (tcp_waiting l) + length (tcp_running l) + 2 * length (http_waiting l)
     + (if http_running l = None then 0 else 1)"

lemma lane_step_work: "lane_step mode l l' \<Longrightarrow> lane_work l' < lane_work l"
  by (erule lane_stepE) (auto simp: lane_work_def)

lemma lane_progress:
  assumes "lanes_inv mode its m l" and "\<not> lanes_finished l"
  shows "\<exists>l'. lane_step mode l l'"
proof (cases "http_running l")
  case (Some c)
  then show ?thesis using Http_Done by blast
next
  case h: None
  show ?thesis
  proof (cases "http_waiting l")
    case (Cons c cs)
    then show ?thesis using Http_Send[OF h] by blast
  next
    case Nil
    show ?thesis
    proof (cases "tcp_running l")
      case (Cons x xs)
      then show ?thesis using Tcp_Done[of 0 l mode] by auto
    next
      case r: Nil
      then obtain it rest where w: "tcp_waiting l = it # rest"
        using assms(2) h Nil by (cases "tcp_waiting l") (auto simp: lanes_finished_def)
      then have "length (tcp_running l) < workers l" using assms(1) r by (simp add: lanes_inv_def)
      then show ?thesis using Tcp_Take[OF w] Tcp_Skip[OF w] by blast
    qed
  qed
qed

text \<open>
  A test run ends: whatever the order of the answers, at most two steps are taken per TCP probe and per
  HTTP batch, and a run can only stop where it has finished.
\<close>

theorem test_run_terminates:
  assumes "\<forall>k. m k \<noteq> Some Testing" and "(lane_step mode ^^ n) (start_lanes mode ts ss m) l"
  shows "n \<le> lane_work (start_lanes mode ts ss m) \<and> ((\<nexists>l'. lane_step mode l l') \<longleftrightarrow> lanes_finished l)"
proof -
  have "(lane_step mode ^^ n) l0 l \<Longrightarrow> n + lane_work l \<le> lane_work l0" for l0
    by (induction n arbitrary: l) (auto dest!: lane_step_work, fastforce)
  from this[OF assms(2)] have b: "n \<le> lane_work (start_lanes mode ts ss m)" by simp
  have "(lane_step mode)\<^sup>*\<^sup>* (start_lanes mode ts ss m) l" using assms(2) by (rule relpowp_imp_rtranclp)
  note i = run_inv[OF this assms(1)]
  have "\<not> lane_step mode l l'" if "lanes_finished l" for l'
    using that by (auto simp: lanes_finished_def elim: lane_stepE)
  then show ?thesis using b lane_progress[OF i] by blast
qed

theorem test_run_terminates_witness:
  "\<not> (\<exists>l'. lane_step ''tcp'' (start_lanes ''tcp'' [] [] (\<lambda>_. None)) l')"
proof -
  have "(lane_step ''tcp'' ^^ 0) (start_lanes ''tcp'' [] [] (\<lambda>_. None)) (start_lanes ''tcp'' [] [] (\<lambda>_. None))" by simp
  from test_run_terminates[OF _ this] show ?thesis
    by (simp add: lanes_finished_def start_lanes_def build_queues_def all_items_def)
qed

end
