(* ===== verification/Clients_State.thy ===== *)
theory Clients_State
  imports Web_Url Capabilities "HOL-Library.Multiset"
begin

text \<open>
  The clients page (\<open>hooks/useClients.ts\<close>): the live summary, which mirrors \<open>buildClientsSummary\<close> of
  \<open>internal/web/service/client_paging.go\<close>, the query of the list and its text, the updates the
  WebSocket pushes into the cached pages, and the payload of the enable switch. Numbers are bytes and
  milliseconds: integers, exact in the browser below \<open>2^53\<close>; the server adds them modulo \<open>2^64\<close>.
\<close>

section \<open>Rows\<close>

text \<open>An optional field of a row is \<open>None\<close> when it is absent or not of its type.\<close>

record client_traffic =
  ct_up :: "int option"
  ct_down :: "int option"
  ct_total :: "int option"
  ct_expiryTime :: "int option"
  ct_enable :: "bool option"
  ct_lastOnline :: "int option"

record stat_row = client_traffic +
  sr_email :: "string option"

record clients_summary =
  sm_total :: nat
  sm_active :: nat
  sm_online :: "string list"
  sm_depleted :: "string list"
  sm_expiring :: "string list"
  sm_deactive :: "string list"

definition or0 :: "int option \<Rightarrow> int" where
  "or0 x = (case x of None \<Rightarrow> 0 | Some n \<Rightarrow> n)"

definition or_false :: "bool option \<Rightarrow> bool" where
  "or_false x = (x = Some True)"

section \<open>The summary\<close>

definition empty_summary :: clients_summary where
  "empty_summary = \<lparr>sm_total = 0, sm_active = 0, sm_online = [], sm_depleted = [], sm_expiring = [], sm_deactive = []\<rparr>"

definition add_online :: "bool \<Rightarrow> string \<Rightarrow> clients_summary \<Rightarrow> clients_summary" where
  "add_online b email s = (if b then s\<lparr>sm_online := sm_online s @ [email]\<rparr> else s)"

definition summary_row :: "string set \<Rightarrow> int \<Rightarrow> int \<Rightarrow> int \<Rightarrow> stat_row \<Rightarrow> clients_summary \<Rightarrow> clients_summary" where
  "summary_row onlineSet now expireDiffMs trafficDiffBytes c s =
     (let email = or_empty (sr_email c) in
      if email = [] then s
      else
        let used = or0 (ct_up c) + or0 (ct_down c);
            total = or0 (ct_total c);
            exhausted = total > 0 \<and> used \<ge> total;
            expired = or0 (ct_expiryTime c) > 0 \<and> or0 (ct_expiryTime c) \<le> now;
            s1 = add_online (or_false (ct_enable c) \<and> email \<in> onlineSet) email s
        in if exhausted \<or> expired then s1\<lparr>sm_depleted := sm_depleted s1 @ [email]\<rparr>
           else if \<not> or_false (ct_enable c) then s1\<lparr>sm_deactive := sm_deactive s1 @ [email]\<rparr>
           else
             let nearExpiry = or0 (ct_expiryTime c) > 0 \<and> or0 (ct_expiryTime c) - now < expireDiffMs;
                 nearLimit = total > 0 \<and> total - used < trafficDiffBytes
             in if nearExpiry \<or> nearLimit then s1\<lparr>sm_expiring := sm_expiring s1 @ [email]\<rparr>
                else s1\<lparr>sm_active := sm_active s1 + 1\<rparr>)"

definition computeClientsSummary :: "int \<Rightarrow> stat_row list \<Rightarrow> string set \<Rightarrow> int \<Rightarrow> int \<Rightarrow> clients_summary" where
  "computeClientsSummary now stats onlineSet expireDiffMs trafficDiffBytes =
     (fold (summary_row onlineSet now expireDiffMs trafficDiffBytes) stats empty_summary)\<lparr>sm_total := length stats\<rparr>"

text \<open>The server's function, with \<open>int64\<close> arithmetic.\<close>

record go_client =
  gc_Email :: string
  gc_Enable :: bool
  gc_TotalGB :: int
  gc_ExpiryTime :: int
  gc_Traffic :: "(int \<times> int) option"

definition int64 :: "int \<Rightarrow> int" where
  "int64 n = (n + 2 ^ 63) mod 2 ^ 64 - 2 ^ 63"

definition go_row :: "string set \<Rightarrow> int \<Rightarrow> int \<Rightarrow> int \<Rightarrow> go_client \<Rightarrow> clients_summary \<Rightarrow> clients_summary" where
  "go_row onlineSet nowMs expireDiffMs trafficDiffBytes c s =
     (let used = (case gc_Traffic c of None \<Rightarrow> 0 | Some (up, down) \<Rightarrow> int64 (up + down));
          exhausted = gc_TotalGB c > 0 \<and> used \<ge> gc_TotalGB c;
          expired = gc_ExpiryTime c > 0 \<and> gc_ExpiryTime c \<le> nowMs;
          s1 = add_online (gc_Enable c \<and> gc_Email c \<in> onlineSet) (gc_Email c) s
      in if exhausted \<or> expired then s1\<lparr>sm_depleted := sm_depleted s1 @ [gc_Email c]\<rparr>
         else if \<not> gc_Enable c then s1\<lparr>sm_deactive := sm_deactive s1 @ [gc_Email c]\<rparr>
         else
           let nearExpiry = gc_ExpiryTime c > 0 \<and> int64 (gc_ExpiryTime c - nowMs) < expireDiffMs;
               nearLimit = gc_TotalGB c > 0 \<and> int64 (gc_TotalGB c - used) < trafficDiffBytes
           in if nearExpiry \<or> nearLimit then s1\<lparr>sm_expiring := sm_expiring s1 @ [gc_Email c]\<rparr>
              else s1\<lparr>sm_active := sm_active s1 + 1\<rparr>)"

definition buildClientsSummary :: "go_client list \<Rightarrow> string set \<Rightarrow> int \<Rightarrow> int \<Rightarrow> int \<Rightarrow> clients_summary" where
  "buildClientsSummary all onlineSet nowMs expireDiffMs trafficDiffBytes =
     fold (go_row onlineSet nowMs expireDiffMs trafficDiffBytes) all (empty_summary\<lparr>sm_total := length all\<rparr>)"

section \<open>The query of the list\<close>

record client_query =
  cq_page :: int
  cq_pageSize :: int
  cq_search :: "string option"
  cq_filter :: "string option"
  cq_protocol :: "string option"
  cq_inbound :: "string option"
  cq_sort :: "string option"
  cq_order :: "string option"
  cq_expiryFrom :: "int option"
  cq_expiryTo :: "int option"
  cq_usageFrom :: "int option"
  cq_usageTo :: "int option"
  cq_autoRenew :: "string option"
  cq_hasTgId :: "string option"
  cq_hasComment :: "string option"
  cq_group :: "string option"

definition DEFAULT_QUERY :: client_query where
  "DEFAULT_QUERY = \<lparr>cq_page = 1, cq_pageSize = 25, cq_search = None, cq_filter = None, cq_protocol = None,
     cq_inbound = None, cq_sort = None, cq_order = None, cq_expiryFrom = None, cq_expiryTo = None,
     cq_usageFrom = None, cq_usageTo = None, cq_autoRenew = None, cq_hasTgId = None, cq_hasComment = None,
     cq_group = None\<rparr>"

text \<open>\<open>if (p.x) sp.set(x, p.x)\<close>, and the same for a positive number.\<close>

definition set_text :: "string \<Rightarrow> string option \<Rightarrow> params \<Rightarrow> params" where
  "set_text k v sp = (if or_empty v \<noteq> [] then params_set k (or_empty v) sp else sp)"

definition set_positive :: "string \<Rightarrow> int option \<Rightarrow> params \<Rightarrow> params" where
  "set_positive k v sp = (if or0 v \<noteq> 0 \<and> or0 v > 0 then params_set k (int_str (or0 v)) sp else sp)"

definition query_params :: "client_query \<Rightarrow> params" where
  "query_params p =
     (set_text ''group'' (cq_group p)
     (set_text ''hasComment'' (cq_hasComment p)
     (set_text ''hasTgId'' (cq_hasTgId p)
     (set_text ''autoRenew'' (cq_autoRenew p)
     (set_positive ''usageTo'' (cq_usageTo p)
     (set_positive ''usageFrom'' (cq_usageFrom p)
     (set_positive ''expiryTo'' (cq_expiryTo p)
     (set_positive ''expiryFrom'' (cq_expiryFrom p)
     (set_text ''order'' (cq_order p)
     (set_text ''sort'' (cq_sort p)
     (set_text ''inbound'' (cq_inbound p)
     (set_text ''protocol'' (cq_protocol p)
     (set_text ''filter'' (cq_filter p)
     (set_text ''search'' (cq_search p)
     (params_set ''pageSize'' (int_str (if cq_pageSize p = 0 then cq_pageSize DEFAULT_QUERY else cq_pageSize p))
     (params_set ''page'' (int_str (if cq_page p = 0 then 1 else cq_page p)) []))))))))))))))))"

definition buildQS :: "client_query \<Rightarrow> string" where
  "buildQS p = params_str (query_params p)"

definition same_query :: "client_query \<Rightarrow> client_query \<Rightarrow> bool" where
  "same_query prev nxt \<longleftrightarrow>
     cq_page prev = cq_page nxt \<and> cq_pageSize prev = cq_pageSize nxt
     \<and> or_empty (cq_search prev) = or_empty (cq_search nxt)
     \<and> or_empty (cq_filter prev) = or_empty (cq_filter nxt)
     \<and> or_empty (cq_protocol prev) = or_empty (cq_protocol nxt)
     \<and> or_empty (cq_inbound prev) = or_empty (cq_inbound nxt)
     \<and> or_empty (cq_sort prev) = or_empty (cq_sort nxt)
     \<and> or_empty (cq_order prev) = or_empty (cq_order nxt)
     \<and> or0 (cq_expiryFrom prev) = or0 (cq_expiryFrom nxt)
     \<and> or0 (cq_expiryTo prev) = or0 (cq_expiryTo nxt)
     \<and> or0 (cq_usageFrom prev) = or0 (cq_usageFrom nxt)
     \<and> or0 (cq_usageTo prev) = or0 (cq_usageTo nxt)
     \<and> or_empty (cq_autoRenew prev) = or_empty (cq_autoRenew nxt)
     \<and> or_empty (cq_hasTgId prev) = or_empty (cq_hasTgId nxt)
     \<and> or_empty (cq_hasComment prev) = or_empty (cq_hasComment nxt)
     \<and> or_empty (cq_group prev) = or_empty (cq_group nxt)"

definition setQuery :: "client_query \<Rightarrow> client_query \<Rightarrow> client_query" where
  "setQuery nxt prev = (if same_query prev nxt then prev else nxt)"

section \<open>Pushed updates\<close>

text \<open>The columns of a client row other than its email and traffic are one object.\<close>

record client_record =
  cr_email :: string
  cr_traffic :: "client_traffic option"
  cr_columns :: jobj

record client_page =
  cp_items :: "client_record list"
  cp_total :: nat
  cp_filtered :: nat
  cp_summary :: "clients_summary option"
  cp_groups :: "string list"

text \<open>The hook's state and the entries of the query cache it reads and writes.\<close>

record clients_state =
  cl_query :: client_query
  cl_allStats :: "stat_row list"
  cl_onlines :: "string list option"
  cl_pages :: "client_query \<Rightarrow> client_page option"

definition pick :: "'a option \<Rightarrow> 'a option \<Rightarrow> 'a option" where
  "pick upd old = (case upd of None \<Rightarrow> old | Some v \<Rightarrow> Some v)"

definition no_traffic :: client_traffic where
  "no_traffic = \<lparr>ct_up = None, ct_down = None, ct_total = None, ct_expiryTime = None, ct_enable = None, ct_lastOnline = None\<rparr>"

definition merge_traffic :: "stat_row \<Rightarrow> client_traffic \<Rightarrow> client_traffic" where
  "merge_traffic upd t =
     t\<lparr>ct_up := pick (ct_up upd) (ct_up t), ct_down := pick (ct_down upd) (ct_down t),
       ct_total := pick (ct_total upd) (ct_total t), ct_expiryTime := pick (ct_expiryTime upd) (ct_expiryTime t),
       ct_enable := pick (ct_enable upd) (ct_enable t), ct_lastOnline := pick (ct_lastOnline upd) (ct_lastOnline t)\<rparr>"

definition by_email :: "stat_row option list \<Rightarrow> string \<Rightarrow> stat_row option" where
  "by_email rows = fold (\<lambda>row m. case row of
     None \<Rightarrow> m
   | Some r \<Rightarrow> if or_empty (sr_email r) = [] then m else m(or_empty (sr_email r) \<mapsto> r)) rows (\<lambda>_. None)"

definition merge_row :: "(string \<Rightarrow> stat_row option) \<Rightarrow> client_record \<Rightarrow> client_record" where
  "merge_row m row =
     (case m (cr_email row) of
        None \<Rightarrow> row
      | Some upd \<Rightarrow> row\<lparr>cr_traffic := Some (merge_traffic upd (case cr_traffic row of None \<Rightarrow> no_traffic | Some t \<Rightarrow> t))\<rparr>)"

definition merge_page :: "(string \<Rightarrow> stat_row option) \<Rightarrow> client_page \<Rightarrow> client_page" where
  "merge_page m prev =
     (if list_ex (\<lambda>row. m (cr_email row) \<noteq> None) (cp_items prev)
      then prev\<lparr>cp_items := map (merge_row m) (cp_items prev)\<rparr> else prev)"

text \<open>
  The payload of a \<open>client_stats\<close> message: \<open>None\<close> when it is no object or has no list of clients. The
  rows are those the server sends, one object per client.
\<close>

definition applyClientStatsEvent :: "stat_row list option \<Rightarrow> clients_state \<Rightarrow> clients_state" where
  "applyClientStatsEvent payload st =
     (case payload of
        None \<Rightarrow> st
      | Some [] \<Rightarrow> st
      | Some rows \<Rightarrow>
          let m = by_email (map Some rows); q = cl_query st
          in st\<lparr>cl_allStats := rows, cl_pages := (cl_pages st)(q := map_option (merge_page m) (cl_pages st q))\<rparr>)"

definition applyTrafficEvent :: "string list option \<Rightarrow> clients_state \<Rightarrow> clients_state" where
  "applyTrafficEvent onlineClients st =
     (case onlineClients of None \<Rightarrow> st | Some os \<Rightarrow> st\<lparr>cl_onlines := Some os\<rparr>)"

definition invalidateAll :: "clients_state \<Rightarrow> clients_state" where
  "invalidateAll st = st\<lparr>cl_allStats := []\<rparr>"

text \<open>The summary over the page shown: that of the query, or the previous one while a page is loading.\<close>

definition live_summary :: "client_page option \<Rightarrow> int \<Rightarrow> int \<Rightarrow> int \<Rightarrow> clients_state \<Rightarrow> clients_summary" where
  "live_summary shown now expireDiff trafficDiff st =
     (let serverSummary = (case Option.bind shown cp_summary of None \<Rightarrow> empty_summary | Some s \<Rightarrow> s)
      in if cl_allStats st = [] then serverSummary
         else
           let onlines = (case cl_onlines st of None \<Rightarrow> [] | Some os \<Rightarrow> os);
               live = computeClientsSummary now (cl_allStats st) (set onlines) expireDiff trafficDiff
           in live\<lparr>sm_total := (if sm_total serverSummary \<noteq> 0 then sm_total serverSummary else sm_total live)\<rparr>)"

section \<open>What the server pushes\<close>

text \<open>
  What the server pushes are the rows of its table \<open>client_traffics\<close>, with limits, expiry and switch of their
  own (\<open>GetAllClientTraffics\<close>), while its summary reads those of the client and only the counters of the row.
  A row that says the same about a client:
\<close>

definition row_carries :: "stat_row \<Rightarrow> go_client \<Rightarrow> bool" where
  "row_carries r c \<longleftrightarrow> sr_email r = Some (gc_Email c) \<and> ct_total r = Some (gc_TotalGB c)
     \<and> ct_expiryTime r = Some (gc_ExpiryTime c) \<and> ct_enable r = Some (gc_Enable c)
     \<and> (\<exists>up down. gc_Traffic c = Some (up, down) \<and> ct_up r = Some up \<and> ct_down r = Some down)"

definition in_range :: "int \<Rightarrow> bool" where
  "in_range n \<longleftrightarrow> 0 \<le> n \<and> n \<le> 2 ^ 53"

definition client_in_range :: "go_client \<Rightarrow> bool" where
  "client_in_range c \<longleftrightarrow> gc_Email c \<noteq> [] \<and> in_range (gc_TotalGB c) \<and> gc_ExpiryTime c \<le> 2 ^ 53
     \<and> (case gc_Traffic c of None \<Rightarrow> True | Some (up, down) \<Rightarrow> in_range up \<and> in_range down)"

lemma int64_id: "- (2 ^ 63) \<le> n \<Longrightarrow> n < 2 ^ 63 \<Longrightarrow> int64 n = n"
  by (simp add: int64_def)

section \<open>The buckets of the summary\<close>

datatype bucket = Depleted | Deactive | Expiring | Active

definition bucket_of :: "int \<Rightarrow> int \<Rightarrow> int \<Rightarrow> stat_row \<Rightarrow> bucket" where
  "bucket_of now ed td c =
     (let left = or0 (ct_total c) - (or0 (ct_up c) + or0 (ct_down c)); limited = or0 (ct_total c) > 0;
          ends = or0 (ct_expiryTime c) > 0; rest = or0 (ct_expiryTime c) - now
      in if limited \<and> left \<le> 0 \<or> ends \<and> rest \<le> 0 then Depleted
         else if \<not> or_false (ct_enable c) then Deactive
         else if ends \<and> rest < ed \<or> limited \<and> left < td then Expiring else Active)"

definition emails :: "stat_row list \<Rightarrow> string list" where
  "emails rows = filter (\<lambda>e. e \<noteq> []) (map (\<lambda>c. or_empty (sr_email c)) rows)"

definition bucket_emails :: "int \<Rightarrow> int \<Rightarrow> int \<Rightarrow> bucket \<Rightarrow> stat_row list \<Rightarrow> string list" where
  "bucket_emails now ed td b rows = emails (filter (\<lambda>c. bucket_of now ed td c = b) rows)"

lemma emails_Cons: "emails (c # rows) = (if or_empty (sr_email c) = [] then emails rows else or_empty (sr_email c) # emails rows)"
  by (simp add: emails_def)

lemma bucket_emails_Cons: "bucket_emails now ed td b (c # rows) =
   (if bucket_of now ed td c = b \<and> or_empty (sr_email c) \<noteq> [] then or_empty (sr_email c) # bucket_emails now ed td b rows
    else bucket_emails now ed td b rows)"
  by (simp add: bucket_emails_def emails_def)

lemma bucket_emails_Nil: "bucket_emails now ed td b [] = []"
  by (simp add: bucket_emails_def emails_def)

lemma summary_row_bucket:
  "summary_row os now ed td c s =
     (let e = or_empty (sr_email c); s1 = add_online (or_false (ct_enable c) \<and> e \<in> os) e s in
      if e = [] then s
      else case bucket_of now ed td c of
             Depleted \<Rightarrow> s1\<lparr>sm_depleted := sm_depleted s1 @ [e]\<rparr>
           | Deactive \<Rightarrow> s1\<lparr>sm_deactive := sm_deactive s1 @ [e]\<rparr>
           | Expiring \<Rightarrow> s1\<lparr>sm_expiring := sm_expiring s1 @ [e]\<rparr>
           | Active \<Rightarrow> s1\<lparr>sm_active := sm_active s1 + 1\<rparr>)"
  by (simp add: summary_row_def bucket_of_def Let_def)

definition online_emails :: "string set \<Rightarrow> stat_row list \<Rightarrow> string list" where
  "online_emails os rows = filter (\<lambda>e. e \<in> os) (emails (filter (\<lambda>c. or_false (ct_enable c)) rows))"

lemma online_emails_Nil: "online_emails os [] = []"
  by (simp add: online_emails_def emails_def)

lemma online_emails_Cons: "online_emails os (c # rows) =
   (if or_false (ct_enable c) \<and> or_empty (sr_email c) \<in> os \<and> or_empty (sr_email c) \<noteq> []
    then or_empty (sr_email c) # online_emails os rows else online_emails os rows)"
  by (simp add: online_emails_def emails_def)

lemma fold_buckets:
  "fold (summary_row os now ed td) rows s =
     s\<lparr>sm_active := sm_active s + length (bucket_emails now ed td Active rows),
       sm_online := sm_online s @ online_emails os rows,
       sm_depleted := sm_depleted s @ bucket_emails now ed td Depleted rows,
       sm_expiring := sm_expiring s @ bucket_emails now ed td Expiring rows,
       sm_deactive := sm_deactive s @ bucket_emails now ed td Deactive rows\<rparr>"
proof (induction rows arbitrary: s)
  case Nil
  show ?case by (simp add: bucket_emails_Nil online_emails_Nil)
next
  case (Cons c rows)
  show ?case
    unfolding fold_simps comp_def Cons
    unfolding summary_row_bucket
    by (cases "bucket_of now ed td c") (simp_all add: Let_def add_online_def bucket_emails_Cons online_emails_Cons)
qed

lemma bucket_count:
  "length (bucket_emails now ed td Depleted rows) + length (bucket_emails now ed td Deactive rows)
   + length (bucket_emails now ed td Expiring rows) + length (bucket_emails now ed td Active rows) = length (emails rows)"
proof (induction rows)
  case (Cons c rows)
  then show ?case by (cases "bucket_of now ed td c") (simp_all add: bucket_emails_Cons emails_Cons)
qed (simp add: bucket_emails_Nil emails_def)

text \<open>
  Every client with an email is counted in exactly one bucket, in the order of the rows: depleted when
  its traffic or its time is used up, even if it is disabled; else disabled; else expiring when less
  than a threshold is left; else active. The online list is that of the enabled clients among those online.
\<close>

theorem summary_buckets:
  "let s = computeClientsSummary now rows os ed td in
     sm_depleted s = bucket_emails now ed td Depleted rows \<and> sm_deactive s = bucket_emails now ed td Deactive rows
     \<and> sm_expiring s = bucket_emails now ed td Expiring rows \<and> sm_active s = length (bucket_emails now ed td Active rows)
     \<and> sm_online s = online_emails os rows \<and> sm_total s = length rows
     \<and> length (sm_depleted s) + length (sm_deactive s) + length (sm_expiring s) + sm_active s = length (emails rows)"
  unfolding Let_def computeClientsSummary_def fold_buckets by (simp add: empty_summary_def bucket_count)

section \<open>The live summary and that of the server\<close>

lemma row_as_server:
  assumes "row_carries r c" and "client_in_range c" and "in_range now"
  shows "summary_row os now ed td r s = go_row os now ed td c s"
proof -
  obtain up down where c: "gc_Traffic c = Some (up, down)" "ct_up r = Some up" "ct_down r = Some down"
    using assms(1) by (auto simp: row_carries_def)
  define used where "used = up + down"
  have r: "0 \<le> used \<and> used \<le> 2 ^ 54" using assms(2) c(1)
    by (auto simp: used_def client_in_range_def in_range_def)
  have g: "(case gc_Traffic c of None \<Rightarrow> 0 | Some (up, down) \<Rightarrow> int64 (up + down)) = used"
    using r by (simp add: c used_def int64_id)
  have t: "0 \<le> gc_TotalGB c" "gc_TotalGB c \<le> 2 ^ 53" and e: "gc_Email c \<noteq> []" "gc_ExpiryTime c \<le> 2 ^ 53"
    using assms(2) by (simp_all add: client_in_range_def in_range_def)
  have l: "int64 (gc_TotalGB c - used) = gc_TotalGB c - used"
    by (rule int64_id) (use t r in simp_all)
  have x: "int64 (gc_ExpiryTime c - now) = gc_ExpiryTime c - now" if "0 < gc_ExpiryTime c"
    by (rule int64_id) (use that e assms(3) in \<open>simp_all add: in_range_def\<close>)
  have f: "or0 (ct_up r) + or0 (ct_down r) = used" "or_empty (sr_email r) = gc_Email c"
    "or0 (ct_total r) = gc_TotalGB c" "or0 (ct_expiryTime r) = gc_ExpiryTime c" "or_false (ct_enable r) = gc_Enable c"
    using assms(1) by (simp_all add: c used_def row_carries_def or_empty_def or0_def or_false_def)
  show ?thesis
    unfolding summary_row_def go_row_def f g l Let_def using e(1) x by (cases "0 < gc_ExpiryTime c") simp_all
qed

lemma fold_rows_as_server:
  assumes "list_all2 row_carries rows all" and "\<forall>c\<in>set all. client_in_range c" and "in_range now"
  shows "fold (summary_row os now ed td) rows s = fold (go_row os now ed td) all s"
  using assms(1,2) by (induction arbitrary: s rule: list_all2_induct) (simp_all add: row_as_server[OF _ _ assms(3)])

lemma fold_go_total:
  "fold (go_row os now ed td) all (s\<lparr>sm_total := n\<rparr>) = (fold (go_row os now ed td) all s)\<lparr>sm_total := n\<rparr>"
proof (induction all arbitrary: s)
  case (Cons c all)
  have "go_row os now ed td c (s\<lparr>sm_total := n\<rparr>) = (go_row os now ed td c s)\<lparr>sm_total := n\<rparr>"
    by (simp add: go_row_def add_online_def Let_def)
  then show ?case using Cons by simp
qed simp

lemma summary_as_server:
  assumes "list_all2 row_carries rows all" and "\<forall>c\<in>set all. client_in_range c" and "in_range now"
  shows "computeClientsSummary now rows os ed td = buildClientsSummary all os now ed td"
  unfolding computeClientsSummary_def buildClientsSummary_def fold_go_total fold_rows_as_server[OF assms]
  using assms(1) by (simp add: list_all2_lengthD)

text \<open>The order of the rows matters to the order of the lists only.\<close>

definition same_buckets :: "clients_summary \<Rightarrow> clients_summary \<Rightarrow> bool" where
  "same_buckets s t \<longleftrightarrow> sm_active s = sm_active t \<and> mset (sm_online s) = mset (sm_online t)
     \<and> mset (sm_depleted s) = mset (sm_depleted t) \<and> mset (sm_expiring s) = mset (sm_expiring t)
     \<and> mset (sm_deactive s) = mset (sm_deactive t)"

lemma buckets_of_mset:
  assumes "mset rows = mset rows'"
  shows "mset (bucket_emails now ed td b rows) = mset (bucket_emails now ed td b rows')"
    and "mset (online_emails os rows) = mset (online_emails os rows')"
  using assms by (simp_all add: bucket_emails_def online_emails_def emails_def mset_filter)

lemma summary_of_mset:
  assumes "mset rows = mset rows'"
  shows "same_buckets (computeClientsSummary now rows os ed td) (computeClientsSummary now rows' os ed td)"
  using buckets_of_mset[OF assms] mset_eq_length[OF buckets_of_mset(1)[OF assms]]
  by (simp add: same_buckets_def computeClientsSummary_def fold_buckets empty_summary_def)


definition sample_client :: go_client where
  "sample_client = \<lparr>gc_Email = ''a'', gc_Enable = True, gc_TotalGB = 10, gc_ExpiryTime = 0, gc_Traffic = Some (4, 6)\<rparr>"

definition sample_row :: stat_row where
  "sample_row = \<lparr>ct_up = Some 4, ct_down = Some 6, ct_total = Some 10, ct_expiryTime = Some 0, ct_enable = Some True,
     ct_lastOnline = Some 3, sr_email = Some ''a''\<rparr>"


text \<open>
  The condition on the rows is needed: a row that still has no limit is counted as active, while the server,
  which reads the limit of the client, counts it as depleted.
\<close>

lemma summary_of_stale_row:
  "sm_active (computeClientsSummary 5 [sample_row\<lparr>ct_total := Some 0\<rparr>] {} 0 0) = 1
   \<and> sm_depleted (buildClientsSummary [sample_client] {} 5 0 0) = [''a'']"
  by code_simp

section \<open>The query\<close>

lemma int_str_eq_params: "a = b \<Longrightarrow> set_positive k a sp = set_positive k b sp" by simp

lemma set_text_same: "or_empty a = or_empty b \<Longrightarrow> set_text k a = set_text k b"
  by (simp add: set_text_def fun_eq_iff)

lemma set_positive_same: "or0 a = or0 b \<Longrightarrow> set_positive k a = set_positive k b"
  by (simp add: set_positive_def fun_eq_iff)

lemma same_query_params:
  assumes "same_query p q"
  shows "query_params p = query_params q"
proof -
  note e = assms[unfolded same_query_def]
  show ?thesis
    unfolding query_params_def
    using e set_text_same[of "cq_search p" "cq_search q"] set_text_same[of "cq_filter p" "cq_filter q"]
      set_text_same[of "cq_protocol p" "cq_protocol q"] set_text_same[of "cq_inbound p" "cq_inbound q"]
      set_text_same[of "cq_sort p" "cq_sort q"] set_text_same[of "cq_order p" "cq_order q"]
      set_text_same[of "cq_autoRenew p" "cq_autoRenew q"] set_text_same[of "cq_hasTgId p" "cq_hasTgId q"]
      set_text_same[of "cq_hasComment p" "cq_hasComment q"] set_text_same[of "cq_group p" "cq_group q"]
      set_positive_same[of "cq_expiryFrom p" "cq_expiryFrom q"] set_positive_same[of "cq_expiryTo p" "cq_expiryTo q"]
      set_positive_same[of "cq_usageFrom p" "cq_usageFrom q"] set_positive_same[of "cq_usageTo p" "cq_usageTo q"]
    by simp
qed

lemma query_set_new: "k \<notin> fst ` set ps \<Longrightarrow> params_set k v ps = ps @ [(k, v)]"
  by (induction k v ps rule: params_set.induct) auto

definition text_param :: "string \<Rightarrow> string option \<Rightarrow> params" where
  "text_param k v = (if or_empty v = [] then [] else [(k, or_empty v)])"

definition positive_param :: "string \<Rightarrow> int option \<Rightarrow> params" where
  "positive_param k v = (if or0 v \<le> 0 then [] else [(k, int_str (or0 v))])"

text \<open>The parameters of a query in order, each at most once.\<close>

definition query_list :: "client_query \<Rightarrow> params" where
  "query_list p =
     [(''page'', int_str (if cq_page p = 0 then 1 else cq_page p)),
      (''pageSize'', int_str (if cq_pageSize p = 0 then 25 else cq_pageSize p))]
     @ text_param ''search'' (cq_search p) @ text_param ''filter'' (cq_filter p) @ text_param ''protocol'' (cq_protocol p)
     @ text_param ''inbound'' (cq_inbound p) @ text_param ''sort'' (cq_sort p) @ text_param ''order'' (cq_order p)
     @ positive_param ''expiryFrom'' (cq_expiryFrom p) @ positive_param ''expiryTo'' (cq_expiryTo p)
     @ positive_param ''usageFrom'' (cq_usageFrom p) @ positive_param ''usageTo'' (cq_usageTo p)
     @ text_param ''autoRenew'' (cq_autoRenew p) @ text_param ''hasTgId'' (cq_hasTgId p)
     @ text_param ''hasComment'' (cq_hasComment p) @ text_param ''group'' (cq_group p)"

lemma set_text_new: "k \<notin> fst ` set ps \<Longrightarrow> set_text k v ps = ps @ text_param k v"
  by (simp add: set_text_def text_param_def query_set_new)

lemma set_positive_new: "k \<notin> fst ` set ps \<Longrightarrow> set_positive k v ps = ps @ positive_param k v"
  by (simp add: set_positive_def positive_param_def query_set_new)

lemma param_keys: "fst ` set (text_param k v) \<subseteq> {k}" "fst ` set (positive_param k n) \<subseteq> {k}"
  by (simp_all add: text_param_def positive_param_def)

lemma param_key_mem:
  "k' \<in> fst ` set (text_param k v) \<longleftrightarrow> k' = k \<and> or_empty v \<noteq> []"
  "k' \<in> fst ` set (positive_param k n) \<longleftrightarrow> k' = k \<and> or0 n > 0"
  by (auto simp: text_param_def positive_param_def)

lemma query_params_list: "query_params p = query_list p"
  unfolding query_params_def query_list_def
  by (simp add: set_text_new set_positive_new param_key_mem image_Un DEFAULT_QUERY_def)

text \<open>
  The list is fetched for the query asked for last: whether \<open>setQuery\<close> keeps the old object or takes
  the new one, the text of the query is that of the new one, and reads back as its page and page size
  (1 and 25 for 0), its non-empty texts and its positive bounds, each once and in this order.
\<close>

theorem query_asked_for:
  assumes "params_ok (query_list nxt)"
  shows "buildQS (setQuery nxt prev) = buildQS nxt \<and> params_parse (buildQS (setQuery nxt prev)) = query_list nxt"
proof -
  have "query_params (setQuery nxt prev) = query_list nxt"
    by (simp add: setQuery_def same_query_params query_params_list[symmetric])
  then show ?thesis using params_parse_str[OF assms] by (simp add: buildQS_def query_params_list)
qed

theorem query_asked_for_witness:
  "params_parse (buildQS (setQuery (DEFAULT_QUERY\<lparr>cq_search := Some ''a b'', cq_expiryTo := Some (- 3)\<rparr>) DEFAULT_QUERY))
     = [(''page'', ''1''), (''pageSize'', ''25''), (''search'', ''a b'')]"
proof -
  let ?n = "DEFAULT_QUERY\<lparr>cq_search := Some ''a b'', cq_expiryTo := Some (- 3)\<rparr>"
  have l: "query_list ?n = [(''page'', ''1''), (''pageSize'', ''25''), (''search'', ''a b'')]" by code_simp
  have "params_ok (query_list ?n)" unfolding l by code_simp
  from query_asked_for[OF this, of DEFAULT_QUERY] show ?thesis unfolding l by blast
qed

section \<open>Pushed rows\<close>

lemma fold_by_email:
  "fold (\<lambda>row m. case row of
     None \<Rightarrow> m
   | Some r \<Rightarrow> if or_empty (sr_email r) = [] then m else m(or_empty (sr_email r) \<mapsto> r)) rows m0 e
   = (case find (\<lambda>row. case row of None \<Rightarrow> False | Some r \<Rightarrow> or_empty (sr_email r) = e \<and> e \<noteq> []) (rev rows) of
        Some (Some r) \<Rightarrow> Some r | _ \<Rightarrow> m0 e)"
proof (induction rows rule: rev_induct)
  case (snoc row rows)
  then show ?case by (cases row) auto
qed simp

lemma merge_again: "merge_traffic u (merge_traffic u t) = merge_traffic u t"
  by (simp add: merge_traffic_def pick_def split: option.split)

lemma merge_row_again: "merge_row m (merge_row m r) = merge_row m r"
  by (cases "m (cr_email r)") (simp_all add: merge_row_def merge_again)

lemma merge_row_email [simp]: "cr_email (merge_row m r) = cr_email r" "cr_columns (merge_row m r) = cr_columns r"
  by (simp_all add: merge_row_def split: option.split)

lemma merge_page_items: "cp_items (merge_page m p) = map (merge_row m) (cp_items p)"
proof -
  have "merge_row m r = r" if "m (cr_email r) = None" for r using that by (simp add: merge_row_def)
  then have "map (merge_row m) rs = rs" if "\<not> list_ex (\<lambda>r. m (cr_email r) \<noteq> None) rs" for rs
    using that by (induction rs) auto
  then show ?thesis by (simp add: merge_page_def)
qed

lemma merge_page_again: "merge_page m (merge_page m p) = merge_page m p"
proof (cases "list_ex (\<lambda>r. m (cr_email r) \<noteq> None) (cp_items p)")
  case True
  then have e: "merge_page m p = p\<lparr>cp_items := map (merge_row m) (cp_items p)\<rparr>" by (simp add: merge_page_def)
  have "map (merge_row m) (map (merge_row m) rs) = map (merge_row m) rs" for rs by (simp add: merge_row_again)
  then show ?thesis unfolding e by (simp add: merge_page_def)
qed (simp add: merge_page_def)

text \<open>The last of the rows pushed for an email.\<close>

definition last_row :: "stat_row list \<Rightarrow> string \<Rightarrow> stat_row option" where
  "last_row rows e = find (\<lambda>r. or_empty (sr_email r) = e \<and> e \<noteq> []) (rev rows)"

lemma by_email_last: "by_email (map Some rows) = last_row rows"
proof
  fix e
  have f: "find (\<lambda>row. case row of None \<Rightarrow> False | Some r \<Rightarrow> P r) (map Some rs) = map_option Some (find P rs)" for P and rs :: "stat_row list"
    by (induction rs) auto
  show "by_email (map Some rows) e = last_row rows e"
    unfolding by_email_def fold_by_email rev_map f last_row_def by (simp split: option.split)
qed

text \<open>
  A pushed update touches the shown page only: its rows keep their order, emails and other columns, the
  row of a client takes the fields present in the last row pushed for it and keeps its other counters,
  the other cached pages stay, and applying the same update again changes nothing.
\<close>

theorem pushed_stats_merge:
  "let st' = applyClientStatsEvent (Some rows) st in
     (cl_query st' = cl_query st \<and> cl_onlines st' = cl_onlines st
      \<and> (if q = cl_query st then map_option cp_items (cl_pages st' q) =
           map_option (\<lambda>p. map (\<lambda>r. case last_row rows (cr_email r) of None \<Rightarrow> r
             | Some u \<Rightarrow> r\<lparr>cr_traffic := Some (merge_traffic u (case cr_traffic r of None \<Rightarrow> no_traffic | Some t \<Rightarrow> t))\<rparr>) (cp_items p))
             (cl_pages st q)
         else cl_pages st' q = cl_pages st q)
      \<and> applyClientStatsEvent (Some rows) st' = st')"
proof (cases rows)
  case Nil
  then show ?thesis by (simp add: applyClientStatsEvent_def last_row_def option.map_id0 option.map_ident)
next
  case (Cons a rs)
  let ?m = "last_row rows"
  have e: "applyClientStatsEvent (Some rows) s
      = s\<lparr>cl_allStats := rows, cl_pages := (cl_pages s)(cl_query s := map_option (merge_page ?m) (cl_pages s (cl_query s)))\<rparr>" for s
    unfolding by_email_last[symmetric] by (simp add: applyClientStatsEvent_def Cons Let_def)
  have i: "map_option cp_items (map_option (merge_page ?m) p) = map_option (\<lambda>p. map (merge_row ?m) (cp_items p)) p" for p
    by (cases p) (simp_all add: merge_page_items)
  have a: "map_option (merge_page ?m) (map_option (merge_page ?m) p) = map_option (merge_page ?m) p" for p
    by (cases p) (simp_all add: merge_page_again)
  have r: "merge_row ?m = (\<lambda>r. case ?m (cr_email r) of None \<Rightarrow> r
      | Some u \<Rightarrow> r\<lparr>cr_traffic := Some (merge_traffic u (case cr_traffic r of None \<Rightarrow> no_traffic | Some t \<Rightarrow> t))\<rparr>)"
    by (simp add: merge_row_def fun_eq_iff)
  show ?thesis unfolding e Let_def by (simp add: i a r)
qed

section \<open>Requests\<close>

text \<open>
  The operations the page offers. \<open>None\<close> is the early return without a request; a body is the JSON
  value posted, \<open>JUndef\<close> when there is none.
\<close>

datatype client_op =
  Create js
| Update string js
| Remove string bool
| Bulk_Delete "string list" bool
| Bulk_Create "js list"
| Bulk_Adjust "string list" js js
| Bulk_Add_Group "string list" string
| Bulk_Remove_Group "string list"
| Attach string "js list"
| Set_External_Links string "js list"
| Bulk_Attach "string list" "js list"
| Detach string "js list"
| Bulk_Detach "string list" "js list"
| Reset_Traffic string
| Reset_All_Traffics
| Del_Depleted

definition strs :: "string list \<Rightarrow> js" where
  "strs xs = JArr (map JStr xs)"

definition clients_path :: "string list \<Rightarrow> string" where
  "clients_path ws = ''/panel/api/clients'' @ concat (map ((#) CHR ''/'') ws)"

fun client_request :: "client_op \<Rightarrow> (string \<times> js) option" where
  "client_request (Create payload) = Some (clients_path [''add''], payload)"
| "client_request (Update email client) =
     (if email = [] then None else Some (clients_path [''update'', encode_uri_component email], client))"
| "client_request (Remove email keepTraffic) =
     (if email = [] then None
      else Some (clients_path [''del'', encode_uri_component email] @ (if keepTraffic then ''?keepTraffic=1'' else []), JUndef))"
| "client_request (Bulk_Delete es keepTraffic) =
     (if es = [] then None
      else Some (clients_path [''bulkDel''], JObj [(''emails'', strs es), (''keepTraffic'', JBool keepTraffic)]))"
| "client_request (Bulk_Create payloads) = (if payloads = [] then None else Some (clients_path [''bulkCreate''], JArr payloads))"
| "client_request (Bulk_Adjust es addDays addBytes) =
     (if es = [] then None
      else Some (clients_path [''bulkAdjust''], JObj [(''emails'', strs es), (''addDays'', addDays), (''addBytes'', addBytes)]))"
| "client_request (Bulk_Add_Group es gr) =
     (if es = [] then None else Some (clients_path [''groups'', ''bulkAdd''], JObj [(''emails'', strs es), (''group'', JStr gr)]))"
| "client_request (Bulk_Remove_Group es) =
     (if es = [] then None else Some (clients_path [''groups'', ''bulkRemove''], JObj [(''emails'', strs es)]))"
| "client_request (Attach email inboundIds) =
     (if email = [] then None
      else Some (clients_path [encode_uri_component email, ''attach''], JObj [(''inboundIds'', JArr inboundIds)]))"
| "client_request (Set_External_Links email links) =
     (if email = [] then None
      else Some (clients_path [encode_uri_component email, ''externalLinks''], JObj [(''externalLinks'', JArr links)]))"
| "client_request (Bulk_Attach es inboundIds) =
     (if es = [] then None else if inboundIds = [] then None
      else Some (clients_path [''bulkAttach''], JObj [(''emails'', strs es), (''inboundIds'', JArr inboundIds)]))"
| "client_request (Detach email inboundIds) =
     (if email = [] then None
      else Some (clients_path [encode_uri_component email, ''detach''], JObj [(''inboundIds'', JArr inboundIds)]))"
| "client_request (Bulk_Detach es inboundIds) =
     (if es = [] then None else if inboundIds = [] then None
      else Some (clients_path [''bulkDetach''], JObj [(''emails'', strs es), (''inboundIds'', JArr inboundIds)]))"
| "client_request (Reset_Traffic email) =
     (if email = [] then None else Some (clients_path [''resetTraffic'', encode_uri_component email], JUndef))"
| "client_request Reset_All_Traffics = Some (clients_path [''resetAllTraffics''], JUndef)"
| "client_request Del_Depleted = Some (clients_path [''delDepleted''], JUndef)"

text \<open>The answer of a request: a successful one drops the live rows and refetches the queries.\<close>

definition op_answered :: "bool \<Rightarrow> clients_state \<Rightarrow> clients_state" where
  "op_answered success st = (if success then invalidateAll st else st)"

text \<open>\<open>Number(v) || 0\<close> and \<open>v || d\<close> on the columns of a row.\<close>

definition number_or_0 :: "js \<Rightarrow> js" where
  "number_or_0 v = jor (JNum (to_num v)) (JNum (Fin 0))"

definition enable_payload :: "js \<Rightarrow> bool \<Rightarrow> jobj" where
  "enable_payload base enable =
     [(''email'', jget base ''email''), (''subId'', jget base ''subId''), (''id'', jget base ''uuid''),
      (''password'', jget base ''password''), (''auth'', jget base ''auth''), (''flow'', jor (jget base ''flow'') (JStr [])),
      (''security'', jor (jget base ''security'') (JStr ''auto'')), (''totalGB'', jor (jget base ''totalGB'') (JNum (Fin 0))),
      (''expiryTime'', jor (jget base ''expiryTime'') (JNum (Fin 0))), (''limitIp'', jor (jget base ''limitIp'') (JNum (Fin 0))),
      (''tgId'', number_or_0 (jget base ''tgId'')), (''reset'', number_or_0 (jget base ''reset'')),
      (''group'', jor (jget base ''group'') (JStr [])), (''comment'', jor (jget base ''comment'') (JStr [])),
      (''enable'', JBool enable)]
     @ (if truthy (jget (jget base ''reverse'') ''tag'')
        then [(''reverse'', JObj [(''tag'', jget (jget base ''reverse'') ''tag'')])] else [])"

text \<open>
  The enable switch: the row is fetched first (\<open>fetched\<close> is the client of the answer, not truthy on a
  failure) and written back as an update.
\<close>

definition setEnable :: "string \<Rightarrow> js \<Rightarrow> bool \<Rightarrow> (string \<times> js) option" where
  "setEnable email fetched enable =
     (if email = [] then None else if \<not> truthy fetched then None
      else client_request (Update email (JObj (enable_payload fetched enable))))"

text \<open>\<open>hasForbiddenClientChars\<close> of \<open>schemas/client.ts\<close>, the check of an email in the client form.\<close>

definition hasForbiddenClientChars :: "string \<Rightarrow> bool" where
  "hasForbiddenClientChars v =
     (if CHR ''/'' \<in> set v \<or> CHR 0x5C \<in> set v \<or> CHR '' '' \<in> set v then True
      else list_ex (\<lambda>c. byte c < 0x20 \<or> byte c = 0x7F) v)"

fun op_email :: "client_op \<Rightarrow> string option" where
  "op_email (Update e c) = Some e" | "op_email (Remove e k) = Some e" | "op_email (Attach e is1) = Some e"
| "op_email (Set_External_Links e ls) = Some e" | "op_email (Detach e is1) = Some e" | "op_email (Reset_Traffic e) = Some e"
| "op_email op1 = None"

text \<open>The route of an operation, as the server names its segments.\<close>

fun op_route :: "client_op \<Rightarrow> string list" where
  "op_route (Create p) = [''add'']" | "op_route (Update e c) = [''update'', e]" | "op_route (Remove e k) = [''del'', e]"
| "op_route (Bulk_Delete es k) = [''bulkDel'']" | "op_route (Bulk_Create ps) = [''bulkCreate'']"
| "op_route (Bulk_Adjust es d b) = [''bulkAdjust'']" | "op_route (Bulk_Add_Group es g) = [''groups'', ''bulkAdd'']"
| "op_route (Bulk_Remove_Group es) = [''groups'', ''bulkRemove'']" | "op_route (Attach e is1) = [e, ''attach'']"
| "op_route (Set_External_Links e ls) = [e, ''externalLinks'']" | "op_route (Bulk_Attach es is1) = [''bulkAttach'']"
| "op_route (Detach e is1) = [e, ''detach'']" | "op_route (Bulk_Detach es is1) = [''bulkDetach'']"
| "op_route (Reset_Traffic e) = [''resetTraffic'', e]" | "op_route Reset_All_Traffics = [''resetAllTraffics'']"
| "op_route Del_Depleted = [''delDepleted'']"

definition email_ok :: "string \<Rightarrow> bool" where
  "email_ok e \<longleftrightarrow> utf8_valid e \<and> \<not> hasForbiddenClientChars e"

lemma email_ok_no_slash: "email_ok e \<Longrightarrow> CHR ''/'' \<notin> set e"
  by (auto simp: email_ok_def hasForbiddenClientChars_def)

definition plain_word :: "string \<Rightarrow> bool" where
  "plain_word w \<longleftrightarrow> encode_uri_component w = w \<and> utf8_valid w \<and> CHR ''/'' \<notin> set w"

lemma literal_words:
  "list_all plain_word
    [''add'', ''update'', ''del'', ''bulkDel'', ''bulkCreate'', ''bulkAdjust'', ''groups'', ''bulkAdd'', ''bulkRemove'',
     ''attach'', ''externalLinks'', ''bulkAttach'', ''detach'', ''bulkDetach'', ''resetTraffic'', ''resetAllTraffics'',
     ''delDepleted'']"
  by code_simp

lemmas literal_word = literal_words[unfolded list.pred_inject]

lemma plain_encode: "plain_word w \<Longrightarrow> encode_uri_component w = w"
  by (simp add: plain_word_def)

lemma route_word: "w \<in> set (op_route op1) \<Longrightarrow> plain_word w \<or> op_email op1 = Some w"
  using literal_word by (cases op1) auto

lemma request_path:
  "client_request op1 = Some (url, body) \<Longrightarrow>
   \<exists>q. url = clients_path (map encode_uri_component (op_route op1)) @ q \<and> (q = [] \<or> hd q = CHR ''?'')"
  using literal_word by (cases op1) (auto simp: plain_encode split: if_splits)

lemma decode_segments:
  "list_all utf8_valid ws \<Longrightarrow>
   decode_uri_component (concat (map ((#) CHR ''/'') (map encode_uri_component ws)) ) = Some (concat (map ((#) CHR ''/'') ws))"
proof (induction ws)
  case Nil
  show ?case by (subst decode_uri_component.simps) simp
next
  case (Cons w ws)
  then have w: "utf8_valid w" and ws: "list_all utf8_valid ws" by simp_all
  show ?case using Cons.IH[OF ws] by (simp add: decode_uri_plain decode_encode_uri_append[OF w])
qed

lemma decode_path:
  assumes "list_all utf8_valid ws"
  shows "decode_uri_component (clients_path (map encode_uri_component ws)) = Some (clients_path ws)"
proof -
  have "encode_uri_component ''panel'' = ''panel'' \<and> encode_uri_component ''api'' = ''api'' \<and> encode_uri_component ''clients'' = ''clients''"
    "utf8_valid ''panel'' \<and> utf8_valid ''api'' \<and> utf8_valid ''clients''"
    by code_simp+
  then show ?thesis
    using decode_segments[of "[''panel'', ''api'', ''clients''] @ ws"] assms by (simp add: clients_path_def)
qed

lemma join_segments: "join ''/'' (w # ws) = w @ concat (map ((#) CHR ''/'') ws)"
  by (induction ws arbitrary: w) simp_all

lemma split_path:
  assumes "\<forall>w\<in>set ws. CHR ''/'' \<notin> set w"
  shows "split_char CHR ''/'' (clients_path ws) = [[], ''panel'', ''api'', ''clients''] @ ws"
proof -
  have "clients_path ws = join ''/'' ([] # [''panel'', ''api'', ''clients''] @ ws)"
    unfolding join_segments by (simp add: clients_path_def)
  moreover have "split_char CHR ''/'' (join ''/'' ([] # [''panel'', ''api'', ''clients''] @ ws)) = [] # [''panel'', ''api'', ''clients''] @ ws"
    by (rule split_join) (use assms in auto)
  ultimately show ?thesis by simp
qed

lemma path_no_query: "list_all (\<lambda>c. c \<noteq> CHR ''?'') (clients_path (map encode_uri_component ws))"
proof -
  have "list_all (\<lambda>c. c \<noteq> CHR ''?'') (encode_uri_component w)" for w
    using uri_char[of _ w] by (fastforce simp: list_all_iff uri_unreserved_def is_alnum_def is_letter_def is_digit_def)
  then show ?thesis by (auto simp: clients_path_def list_all_iff)
qed

text \<open>
  A request about a client reaches that client: for an email the form accepts, the path of the request
  decodes to the route of the operation with the email as one whole segment.
\<close>

theorem request_addresses_client:
  assumes "client_request op1 = Some (url, body)" and "\<And>e. op_email op1 = Some e \<Longrightarrow> email_ok e"
  shows "map_option (split_char CHR ''/'') (decode_uri_component (before_char CHR ''?'' url))
    = Some ([[], ''panel'', ''api'', ''clients''] @ op_route op1)"
proof -
  have w: "utf8_valid w \<and> CHR ''/'' \<notin> set w" if "w \<in> set (op_route op1)" for w
    using route_word[OF that] assms(2) email_ok_no_slash by (auto simp: plain_word_def email_ok_def)
  then have ok: "list_all utf8_valid (op_route op1)" "\<forall>w\<in>set (op_route op1). CHR ''/'' \<notin> set w"
    by (simp_all add: list_all_iff)
  from request_path[OF assms(1)]
  obtain q where u: "url = clients_path (map encode_uri_component (op_route op1)) @ q" "q = [] \<or> hd q = CHR ''?''" by blast
  have "before_char CHR ''?'' url = clients_path (map encode_uri_component (op_route op1))"
    using path_no_query[of "op_route op1"] u by (cases q) (simp_all add: before_char_def list_all_iff takeWhile_append)
  then show ?thesis using decode_path[OF ok(1)] split_path[OF ok(2)] by simp
qed

theorem request_addresses_client_witness:
  "map_option (split_char CHR ''/'') (decode_uri_component (before_char CHR ''?'' ''/panel/api/clients/del/a%3Fb?keepTraffic=1''))
     = Some [[], ''panel'', ''api'', ''clients'', ''del'', ''a?b'']"
proof -
  have "client_request (Remove ''a?b'' True) = Some (''/panel/api/clients/del/a%3Fb?keepTraffic=1'', JUndef)"
    and "email_ok ''a?b''" by code_simp+
  from request_addresses_client[OF this(1)] this(2) show ?thesis by simp
qed

end
