(* ===== verification/Inbounds_State.thy ===== *)
theory Inbounds_State
  imports Clients_State "HOL-Library.Multiset"
begin

text \<open>
  The state behind the inbounds page (\<open>pages/inbounds/useInbounds.ts\<close>): the mutable list of inbounds,
  the per-inbound rollup of its clients, the speeds, and the events that change them, from the queries
  and from the WebSocket. The settings of a row are already parsed; emails are compared by their ASCII
  lower case. Each event carries the time \<open>Date.now()\<close> shows while it is handled.
\<close>

section \<open>Rows\<close>

record traffic_stat =
  ts_email :: string
  ts_up :: int
  ts_down :: int
  ts_total :: int
  ts_expiryTime :: int
  ts_enable :: bool

record roll_client =
  rc_email :: "string option"
  rc_enable :: "bool option"
  rc_comment :: "string option"

record inbound_row =
  ib_id :: int
  ib_tag :: string
  ib_protocol :: string
  ib_enable :: bool
  ib_up :: int
  ib_down :: int
  ib_total :: int
  ib_originNodeGuid :: string
  ib_nodeId :: "int option"
  ib_method :: "string option"
  ib_clients :: "roll_client list option"
  ib_clientStats :: "traffic_stat list option"

record client_rollup =
  ro_clients :: nat
  ro_active :: "string list"
  ro_deactive :: "string list"
  ro_depleted :: "string list"
  ro_expiring :: "string list"
  ro_online :: "string list"
  ro_comments :: "string \<Rightarrow> string option"

record inbounds_state =
  is_rows :: "inbound_row list"
  is_counts :: "int \<Rightarrow> client_rollup option"
  is_statsVersion :: nat
  is_speed :: "int \<Rightarrow> (rat \<times> rat) option"
  is_onlineClients :: "string list"
  is_onlineByGuid :: "string \<Rightarrow> string set option"
  is_activeByGuid :: "string \<Rightarrow> string set option"
  is_lastOnline :: "string \<Rightarrow> int option"
  is_expireDiff :: int
  is_trafficDiff :: int

definition TRACKED_PROTOCOLS :: "string list" where
  "TRACKED_PROTOCOLS = [''vmess'', ''vless'', ''trojan'', ''shadowsocks'', ''hysteria'']"

section \<open>The rollup\<close>

definition toGuidOnlineMap :: "(string \<times> string list option) list \<Rightarrow> string \<Rightarrow> string set option" where
  "toGuidOnlineMap data =
     fold (\<lambda>(k, es) m. case es of None \<Rightarrow> m | Some es \<Rightarrow> m(k \<mapsto> set es)) data (\<lambda>_. None)"

definition row_guid :: "inbound_row \<Rightarrow> string" where
  "row_guid r =
     (if ib_originNodeGuid r \<noteq> [] then ib_originNodeGuid r
      else case ib_nodeId r of None \<Rightarrow> [] | Some n \<Rightarrow> ''node:'' @ int_str n)"

definition stats_by_email :: "traffic_stat list \<Rightarrow> string \<Rightarrow> traffic_stat option" where
  "stats_by_email ss = fold (\<lambda>s m. if ts_email s = [] then m else m(to_lower (ts_email s) \<mapsto> s)) ss (\<lambda>_. None)"

definition roll_client_step ::
  "int \<Rightarrow> int \<Rightarrow> int \<Rightarrow> (string \<Rightarrow> traffic_stat option) \<Rightarrow> (string \<Rightarrow> bool) \<Rightarrow> roll_client \<Rightarrow> client_rollup \<Rightarrow> client_rollup" where
  "roll_client_step now expireDiff trafficDiff byEmail shownOnline c a =
     (let email = or_empty (rc_email c);
          a = (if or_empty (rc_comment c) \<noteq> [] \<and> email \<noteq> [] then a\<lparr>ro_comments := (ro_comments a)(email \<mapsto> or_empty (rc_comment c))\<rparr> else a)
      in if email = [] then a
         else
           let stats = byEmail (to_lower email);
               exhausted = (case stats of None \<Rightarrow> False | Some s \<Rightarrow> ts_total s > 0 \<and> ts_up s + ts_down s \<ge> ts_total s);
               expired = (case stats of None \<Rightarrow> False | Some s \<Rightarrow> ts_expiryTime s > 0 \<and> ts_expiryTime s \<le> now)
           in if expired \<or> exhausted then a\<lparr>ro_depleted := ro_depleted a @ [email]\<rparr>
              else if \<not> or_false (rc_enable c) then a\<lparr>ro_deactive := ro_deactive a @ [email]\<rparr>
              else
                let a = a\<lparr>ro_active := ro_active a @ [email]\<rparr>;
                    a = (if shownOnline email then a\<lparr>ro_online := ro_online a @ [email]\<rparr> else a)
                in case stats of
                     None \<Rightarrow> a
                   | Some s \<Rightarrow>
                       if (ts_expiryTime s > 0 \<and> ts_expiryTime s - now < expireDiff)
                          \<or> (ts_total s > 0 \<and> ts_total s - (ts_up s + ts_down s) < trafficDiff)
                       then a\<lparr>ro_expiring := ro_expiring a @ [email]\<rparr> else a)"

definition shown_online :: "(string \<Rightarrow> string set option) \<Rightarrow> (string \<Rightarrow> string set option) \<Rightarrow> inbound_row \<Rightarrow> string \<Rightarrow> bool" where
  "shown_online onlineByGuid activeByGuid r email =
     (let guid = row_guid r;
          inboundActive = (case activeByGuid guid of None \<Rightarrow> True | Some tags \<Rightarrow> ib_tag r = [] \<or> ib_tag r \<in> tags)
      in inboundActive \<and> (case onlineByGuid guid of None \<Rightarrow> False | Some es \<Rightarrow> email \<in> es))"

definition empty_rollup :: client_rollup where
  "empty_rollup = \<lparr>ro_clients = 0, ro_active = [], ro_deactive = [], ro_depleted = [], ro_expiring = [], ro_online = [],
     ro_comments = (\<lambda>_. None)\<rparr>"

definition list_of :: "'a list option \<Rightarrow> 'a list" where
  "list_of x = (case x of None \<Rightarrow> [] | Some xs \<Rightarrow> xs)"

definition rollupClients :: "int \<Rightarrow> inbounds_state \<Rightarrow> inbound_row \<Rightarrow> client_rollup" where
  "rollupClients now st r =
     (let clients = list_of (ib_clients r);
          start = empty_rollup\<lparr>ro_clients := length clients\<rparr>
      in if ib_enable r then
           fold (roll_client_step now (is_expireDiff st) (is_trafficDiff st) (stats_by_email (list_of (ib_clientStats r)))
             (shown_online (is_onlineByGuid st) (is_activeByGuid st) r)) clients start
         else
           fold (\<lambda>c a. if or_empty (rc_email c) = [] then a else a\<lparr>ro_deactive := ro_deactive a @ [or_empty (rc_email c)]\<rparr>)
             clients start)"

definition counted :: "inbound_row \<Rightarrow> bool" where
  "counted r \<longleftrightarrow> ib_protocol r \<in> set TRACKED_PROTOCOLS
     \<and> \<not> (ib_protocol r = ''shadowsocks''
          \<and> \<not> isSSMultiUser \<lparr>cap_protocol = ib_protocol r,
                cap_settings = Some \<lparr>cs_encryption = None, cs_decryption = None, cs_method = ib_method r, cs_clients = None\<rparr>,
                cap_stream = None\<rparr>)"

definition count_rows :: "int \<Rightarrow> inbounds_state \<Rightarrow> inbound_row list \<Rightarrow> int \<Rightarrow> client_rollup option" where
  "count_rows now st rows =
     fold (\<lambda>r m. if counted r then m(ib_id r \<mapsto> rollupClients now st r) else m) rows (\<lambda>_. None)"

definition rebuildClientCount :: "int \<Rightarrow> inbounds_state \<Rightarrow> inbounds_state" where
  "rebuildClientCount now st = st\<lparr>is_counts := count_rows now st (is_rows st)\<rparr>"

section \<open>Events\<close>

text \<open>A list of inbounds from the query, the settings that hold the thresholds, and the other queries.\<close>

definition seedInbounds :: "int \<Rightarrow> inbound_row list \<Rightarrow> inbounds_state \<Rightarrow> inbounds_state" where
  "seedInbounds now rows st = rebuildClientCount now (st\<lparr>is_rows := rows\<rparr>)"

definition loadDefaults :: "int option \<Rightarrow> int option \<Rightarrow> inbounds_state \<Rightarrow> inbounds_state" where
  "loadDefaults expireDays trafficGB st =
     st\<lparr>is_expireDiff := or0 expireDays * 86400000, is_trafficDiff := or0 trafficGB * 1073741824\<rparr>"

definition onlinesFetched :: "string list \<Rightarrow> inbounds_state \<Rightarrow> inbounds_state" where
  "onlinesFetched es st = st\<lparr>is_onlineClients := es\<rparr>"

definition onlinesByGuidFetched :: "int \<Rightarrow> (string \<times> string list option) list \<Rightarrow> inbounds_state \<Rightarrow> inbounds_state" where
  "onlinesByGuidFetched now data st = rebuildClientCount now (st\<lparr>is_onlineByGuid := toGuidOnlineMap data\<rparr>)"

definition activeInboundsFetched :: "int \<Rightarrow> (string \<times> string list option) list \<Rightarrow> inbounds_state \<Rightarrow> inbounds_state" where
  "activeInboundsFetched now data st = rebuildClientCount now (st\<lparr>is_activeByGuid := toGuidOnlineMap data\<rparr>)"

definition lastOnlineFetched :: "(string \<Rightarrow> int option) \<Rightarrow> inbounds_state \<Rightarrow> inbounds_state" where
  "lastOnlineFetched m st = st\<lparr>is_lastOnline := m\<rparr>"

text \<open>
  A full row replaces the cached one. React runs the updater of the list at once or after
  \<open>rebuildClientCount\<close> has read the old list: \<open>at_once\<close> says which.
\<close>

definition hydrateInbound :: "int \<Rightarrow> bool \<Rightarrow> int \<Rightarrow> inbound_row \<Rightarrow> inbounds_state \<Rightarrow> inbounds_state" where
  "hydrateInbound now at_once id1 row st =
     (let rows = map (\<lambda>r. if ib_id r = id1 then row else r) (is_rows st)
      in if at_once then rebuildClientCount now (st\<lparr>is_rows := rows\<rparr>)
         else (rebuildClientCount now st)\<lparr>is_rows := rows\<rparr>)"

record traffic_delta =
  td_Tag :: string
  td_Up :: "int option"
  td_Down :: "int option"
  td_IsInbound :: "bool option"

text \<open>A \<open>traffic\<close> message; a part that is absent or not of its type is \<open>None\<close>.\<close>

record traffic_payload =
  tp_traffics :: "traffic_delta option list option"
  tp_onlineClients :: "string list option"
  tp_onlineByGuid :: "(string \<times> string list option) list option"
  tp_activeInbounds :: "(string \<times> string list option) list option"
  tp_lastOnlineMap :: "(string \<Rightarrow> int option) option"

definition TRAFFIC_POLL_INTERVAL_S :: rat where
  "TRAFFIC_POLL_INTERVAL_S = 5"

definition deltas_by_tag :: "traffic_delta option list \<Rightarrow> string \<Rightarrow> traffic_delta option" where
  "deltas_by_tag trs = fold (\<lambda>tr m. case tr of
     None \<Rightarrow> m
   | Some d \<Rightarrow> if td_IsInbound d = Some False then m else m(td_Tag d \<mapsto> d)) trs (\<lambda>_. None)"

definition speeds :: "(string \<Rightarrow> traffic_delta option) \<Rightarrow> inbound_row list \<Rightarrow> int \<Rightarrow> (rat \<times> rat) option" where
  "speeds byTag rows = fold (\<lambda>r m. case byTag (ib_tag r) of
     None \<Rightarrow> m
   | Some d \<Rightarrow> m(ib_id r \<mapsto> (of_int (or0 (td_Up d)) / TRAFFIC_POLL_INTERVAL_S, of_int (or0 (td_Down d)) / TRAFFIC_POLL_INTERVAL_S)))
     rows (\<lambda>_. None)"

definition applyTrafficMessage :: "int \<Rightarrow> traffic_payload option \<Rightarrow> inbounds_state \<Rightarrow> inbounds_state" where
  "applyTrafficMessage now payload st =
     (case payload of
        None \<Rightarrow> st
      | Some p \<Rightarrow>
          let st = (case tp_onlineClients p of None \<Rightarrow> st | Some es \<Rightarrow> st\<lparr>is_onlineClients := es\<rparr>);
              st = (case tp_onlineByGuid p of None \<Rightarrow> st | Some d \<Rightarrow> st\<lparr>is_onlineByGuid := toGuidOnlineMap d\<rparr>);
              st = (case tp_activeInbounds p of None \<Rightarrow> st | Some d \<Rightarrow> st\<lparr>is_activeByGuid := toGuidOnlineMap d\<rparr>);
              st = (case tp_lastOnlineMap p of None \<Rightarrow> st | Some m \<Rightarrow> st\<lparr>is_lastOnline := is_lastOnline st ++ m\<rparr>);
              st = (case tp_traffics p of None \<Rightarrow> st | Some trs \<Rightarrow> st\<lparr>is_speed := speeds (deltas_by_tag trs) (is_rows st)\<rparr>)
          in rebuildClientCount now st)"

text \<open>A \<open>client_stats\<close> message: rows of inbounds by id and of clients by email.\<close>

record inbound_update =
  iu_id :: "int option"
  iu_up :: "int option"
  iu_down :: "int option"
  iu_total :: "int option"
  iu_enable :: "bool option"

definition updates_by_id :: "inbound_update option list \<Rightarrow> int \<Rightarrow> inbound_update option" where
  "updates_by_id us = fold (\<lambda>u m. case u of
     None \<Rightarrow> m | Some u \<Rightarrow> (case iu_id u of None \<Rightarrow> m | Some i \<Rightarrow> m(i \<mapsto> u))) us (\<lambda>_. None)"

definition new_value :: "'a option \<Rightarrow> 'a \<Rightarrow> 'a" where
  "new_value upd old = (case upd of None \<Rightarrow> old | Some v \<Rightarrow> v)"

definition update_inbound :: "(int \<Rightarrow> inbound_update option) \<Rightarrow> inbound_row \<Rightarrow> inbound_row" where
  "update_inbound byId r =
     (case byId (ib_id r) of
        None \<Rightarrow> r
      | Some u \<Rightarrow> r\<lparr>ib_up := new_value (iu_up u) (ib_up r), ib_down := new_value (iu_down u) (ib_down r),
                    ib_total := new_value (iu_total u) (ib_total r), ib_enable := new_value (iu_enable u) (ib_enable r)\<rparr>)"

definition update_stat :: "(string \<Rightarrow> stat_row option) \<Rightarrow> traffic_stat \<Rightarrow> traffic_stat" where
  "update_stat byEmail s =
     (case byEmail (ts_email s) of
        None \<Rightarrow> s
      | Some u \<Rightarrow> s\<lparr>ts_up := new_value (ct_up u) (ts_up s), ts_down := new_value (ct_down u) (ts_down s),
                    ts_total := new_value (ct_total u) (ts_total s),
                    ts_expiryTime := new_value (ct_expiryTime u) (ts_expiryTime s),
                    ts_enable := new_value (ct_enable u) (ts_enable s)\<rparr>)"

definition update_stats :: "(string \<Rightarrow> stat_row option) \<Rightarrow> inbound_row \<Rightarrow> inbound_row" where
  "update_stats byEmail r = r\<lparr>ib_clientStats := map_option (map (update_stat byEmail)) (ib_clientStats r)\<rparr>"

definition touches :: "(int \<Rightarrow> inbound_update option) \<Rightarrow> (string \<Rightarrow> stat_row option) \<Rightarrow> inbound_row \<Rightarrow> bool" where
  "touches byId byEmail r \<longleftrightarrow> byId (ib_id r) \<noteq> None
     \<or> list_ex (\<lambda>s. byEmail (ts_email s) \<noteq> None) (list_of (ib_clientStats r))"

definition applyStatsMessage ::
  "int \<Rightarrow> (inbound_update option list option \<times> stat_row option list option) option \<Rightarrow> inbounds_state \<Rightarrow> inbounds_state" where
  "applyStatsMessage now payload st =
     (case payload of
        None \<Rightarrow> st
      | Some (us, cs) \<Rightarrow>
          let byId = updates_by_id (list_of us); byEmail = by_email (list_of cs)
          in if list_ex (touches byId byEmail) (is_rows st)
             then rebuildClientCount now (st\<lparr>is_statsVersion := is_statsVersion st + 1,
                    is_rows := map (update_stats byEmail \<circ> update_inbound byId) (is_rows st)\<rparr>)
             else st)"

definition totals :: "inbounds_state \<Rightarrow> int \<times> int" where
  "totals st = fold (\<lambda>r (up, down). (up + ib_up r, down + ib_down r)) (is_rows st) (0, 0)"

section \<open>The rollup agrees with the summary\<close>

text \<open>A client with the counters found for it, as a row of the summary.\<close>

definition client_row :: "(string \<Rightarrow> traffic_stat option) \<Rightarrow> roll_client \<Rightarrow> stat_row" where
  "client_row m c =
     (let s = m (to_lower (or_empty (rc_email c)))
      in \<lparr>ct_up = map_option ts_up s, ct_down = map_option ts_down s, ct_total = map_option ts_total s,
          ct_expiryTime = map_option ts_expiryTime s, ct_enable = rc_enable c, ct_lastOnline = None, sr_email = rc_email c\<rparr>)"

definition client_rows :: "inbound_row \<Rightarrow> stat_row list" where
  "client_rows r = map (client_row (stats_by_email (list_of (ib_clientStats r)))) (list_of (ib_clients r))"

definition note_comment :: "roll_client \<Rightarrow> (string \<Rightarrow> string option) \<Rightarrow> string \<Rightarrow> string option" where
  "note_comment c m = (if or_empty (rc_comment c) \<noteq> [] \<and> or_empty (rc_email c) \<noteq> []
     then m(or_empty (rc_email c) \<mapsto> or_empty (rc_comment c)) else m)"

definition add_if :: "bool \<Rightarrow> 'a \<Rightarrow> 'a list \<Rightarrow> 'a list" where
  "add_if b x xs = (if b then xs @ [x] else xs)"

lemma client_row_email [simp]: "sr_email (client_row m c) = rc_email c" "ct_enable (client_row m c) = rc_enable c"
  by (simp_all add: client_row_def Let_def)

lemma roll_step_bucket:
  "roll_client_step now ed td m sh c a =
     (let e = or_empty (rc_email c); b = bucket_of now ed td (client_row m c); p = e \<noteq> [] in
      a\<lparr>ro_active := add_if (p \<and> (b = Expiring \<or> b = Active)) e (ro_active a),
        ro_deactive := add_if (p \<and> b = Deactive) e (ro_deactive a),
        ro_depleted := add_if (p \<and> b = Depleted) e (ro_depleted a),
        ro_expiring := add_if (p \<and> b = Expiring) e (ro_expiring a),
        ro_online := add_if (p \<and> (b = Expiring \<or> b = Active) \<and> sh e) e (ro_online a),
        ro_comments := note_comment c (ro_comments a)\<rparr>)"
proof (cases "m (to_lower (or_empty (rc_email c)))")
  case None
  then show ?thesis
    by (simp add: roll_client_step_def bucket_of_def client_row_def Let_def or0_def add_if_def note_comment_def)
next
  case (Some s)
  then show ?thesis
    by (simp add: roll_client_step_def bucket_of_def client_row_def Let_def or0_def add_if_def note_comment_def)
qed

definition active_emails :: "int \<Rightarrow> int \<Rightarrow> int \<Rightarrow> stat_row list \<Rightarrow> string list" where
  "active_emails now ed td rows = emails (filter (\<lambda>c. bucket_of now ed td c = Expiring \<or> bucket_of now ed td c = Active) rows)"

lemma active_emails_Nil: "active_emails now ed td [] = []"
  by (simp add: active_emails_def emails_def)

lemma active_emails_Cons: "active_emails now ed td (c # rows) =
   (if (bucket_of now ed td c = Expiring \<or> bucket_of now ed td c = Active) \<and> or_empty (sr_email c) \<noteq> []
    then or_empty (sr_email c) # active_emails now ed td rows else active_emails now ed td rows)"
  by (simp add: active_emails_def emails_def)

lemma fold_roll:
  "fold (roll_client_step now ed td m sh) cs a =
     (let rows = map (client_row m) cs in
      a\<lparr>ro_active := ro_active a @ active_emails now ed td rows,
        ro_deactive := ro_deactive a @ bucket_emails now ed td Deactive rows,
        ro_depleted := ro_depleted a @ bucket_emails now ed td Depleted rows,
        ro_expiring := ro_expiring a @ bucket_emails now ed td Expiring rows,
        ro_online := ro_online a @ filter sh (active_emails now ed td rows),
        ro_comments := fold note_comment cs (ro_comments a)\<rparr>)"
proof (induction cs arbitrary: a)
  case Nil
  show ?case by (simp add: bucket_emails_Nil active_emails_Nil)
next
  case (Cons c cs)
  show ?case
    unfolding fold_simps comp_def Cons Let_def
    unfolding roll_step_bucket Let_def
    by (cases "bucket_of now ed td (client_row m c)") (simp_all add: add_if_def bucket_emails_Cons active_emails_Cons)
qed

lemma fold_disabled:
  "fold (\<lambda>c a. if or_empty (rc_email c) = [] then a else a\<lparr>ro_deactive := ro_deactive a @ [or_empty (rc_email c)]\<rparr>) cs a
   = a\<lparr>ro_deactive := ro_deactive a @ emails (map (client_row m) cs)\<rparr>"
  by (induction cs arbitrary: a) (simp_all add: emails_def)

lemma rollup_eq:
  "rollupClients now st r =
     (let rows = client_rows r; ed = is_expireDiff st; td = is_trafficDiff st;
          base = empty_rollup\<lparr>ro_clients := length (list_of (ib_clients r))\<rparr> in
      if ib_enable r then
        base\<lparr>ro_active := active_emails now ed td rows, ro_deactive := bucket_emails now ed td Deactive rows,
          ro_depleted := bucket_emails now ed td Depleted rows, ro_expiring := bucket_emails now ed td Expiring rows,
          ro_online := filter (shown_online (is_onlineByGuid st) (is_activeByGuid st) r) (active_emails now ed td rows),
          ro_comments := fold note_comment (list_of (ib_clients r)) (\<lambda>_. None)\<rparr>
      else base\<lparr>ro_deactive := emails rows\<rparr>)"
  by (simp add: rollupClients_def fold_roll Let_def client_rows_def empty_rollup_def
      fold_disabled[of _ _ "stats_by_email (list_of (ib_clientStats r))"])

lemma active_split:
  "length (active_emails now ed td rows) = length (bucket_emails now ed td Active rows) + length (bucket_emails now ed td Expiring rows)"
proof (induction rows)
  case (Cons c rows)
  then show ?case by (cases "bucket_of now ed td c") (simp_all add: bucket_emails_Cons active_emails_Cons)
qed (simp add: bucket_emails_Nil active_emails_Nil)

text \<open>
  The counters of an enabled inbound are those the clients page would show for the same clients and
  thresholds: the same depleted, disabled and expiring clients, its active ones being the active and the
  expiring ones of the summary. In a disabled inbound every client with an email counts as disabled.
\<close>

theorem rollup_as_summary:
  "let o1 = rollupClients now st r;
       s = computeClientsSummary now (client_rows r) os (is_expireDiff st) (is_trafficDiff st)
   in if ib_enable r
      then ro_depleted o1 = sm_depleted s \<and> ro_deactive o1 = sm_deactive s \<and> ro_expiring o1 = sm_expiring s
        \<and> length (ro_active o1) = sm_active s + length (sm_expiring s) \<and> ro_clients o1 = sm_total s
      else ro_deactive o1 = emails (client_rows r) \<and> ro_active o1 = [] \<and> ro_depleted o1 = []
        \<and> ro_expiring o1 = [] \<and> ro_online o1 = [] \<and> ro_clients o1 = sm_total s"
proof -
  have s: "computeClientsSummary now rows os ed td = empty_summary\<lparr>sm_active := length (bucket_emails now ed td Active rows),
      sm_online := online_emails os rows, sm_depleted := bucket_emails now ed td Depleted rows,
      sm_expiring := bucket_emails now ed td Expiring rows, sm_deactive := bucket_emails now ed td Deactive rows,
      sm_total := length rows\<rparr>" for rows ed td
    unfolding computeClientsSummary_def fold_buckets by (simp add: empty_summary_def)
  show ?thesis
    unfolding Let_def rollup_eq s
    by (simp add: active_split empty_rollup_def) (simp add: client_rows_def)
qed

lemma emails_partition:
  "mset (active_emails now ed td rows) + mset (bucket_emails now ed td Deactive rows) + mset (bucket_emails now ed td Depleted rows)
   = mset (emails rows)"
proof (induction rows)
  case (Cons c rows)
  then show ?case by (cases "bucket_of now ed td c") (simp_all add: bucket_emails_Cons active_emails_Cons emails_Cons)
qed (simp add: bucket_emails_Nil active_emails_Nil emails_def)

lemma expiring_active: "set (bucket_emails now ed td Expiring rows) \<subseteq> set (active_emails now ed td rows)"
  by (auto simp: bucket_emails_def active_emails_def emails_def)

text \<open>
  Every client of an inbound with an email stands in exactly one of the lists of active, disabled and
  depleted clients; the expiring and the online ones are among the active ones, and an online one is
  seen by the node that hosts the inbound, on an inbound that carried traffic where the node reports it.
\<close>

theorem rollup_partition:
  "let o1 = rollupClients now st r in
     mset (ro_active o1) + mset (ro_deactive o1) + mset (ro_depleted o1) = mset (emails (client_rows r))
     \<and> set (ro_expiring o1) \<subseteq> set (ro_active o1)
     \<and> set (ro_online o1) = (if ib_enable r then {e \<in> set (ro_active o1).
          (case is_onlineByGuid st (row_guid r) of None \<Rightarrow> False | Some es \<Rightarrow> e \<in> es)
          \<and> (case is_activeByGuid st (row_guid r) of None \<Rightarrow> True | Some tags \<Rightarrow> ib_tag r = [] \<or> ib_tag r \<in> tags)} else {})"
  unfolding Let_def rollup_eq
  by (auto simp: empty_rollup_def emails_partition expiring_active[THEN subsetD] shown_online_def Let_def)

section \<open>The counters follow the events\<close>

datatype inbounds_event =
  Seed "inbound_row list"
| Onlines_By_Guid "(string \<times> string list option) list"
| Active_Inbounds "(string \<times> string list option) list"
| Hydrate bool int inbound_row
| Traffic_Message "traffic_payload option"
| Stats_Message "(inbound_update option list option \<times> stat_row option list option) option"
| Onlines "string list"
| Last_Online "string \<Rightarrow> int option"
| Defaults "int option" "int option"

fun inbounds_step :: "int \<Rightarrow> inbounds_event \<Rightarrow> inbounds_state \<Rightarrow> inbounds_state" where
  "inbounds_step now (Seed rows) = seedInbounds now rows"
| "inbounds_step now (Onlines_By_Guid d) = onlinesByGuidFetched now d"
| "inbounds_step now (Active_Inbounds d) = activeInboundsFetched now d"
| "inbounds_step now (Hydrate b i r) = hydrateInbound now b i r"
| "inbounds_step now (Traffic_Message p) = applyTrafficMessage now p"
| "inbounds_step now (Stats_Message p) = applyStatsMessage now p"
| "inbounds_step now (Onlines es) = onlinesFetched es"
| "inbounds_step now (Last_Online m) = lastOnlineFetched m"
| "inbounds_step now (Defaults e t) = loadDefaults e t"

text \<open>The events that do not refresh the counters: a late row and the thresholds.\<close>

fun refreshes :: "inbounds_event \<Rightarrow> bool" where
  "refreshes (Hydrate b i r) = b"
| "refreshes (Defaults e t) = False"
| "refreshes e = True"

lemma count_rows_cong:
  "is_onlineByGuid st = is_onlineByGuid st' \<Longrightarrow> is_activeByGuid st = is_activeByGuid st' \<Longrightarrow>
   is_expireDiff st = is_expireDiff st' \<Longrightarrow> is_trafficDiff st = is_trafficDiff st' \<Longrightarrow> count_rows now st = count_rows now st'"
proof -
  assume e: "is_onlineByGuid st = is_onlineByGuid st'" "is_activeByGuid st = is_activeByGuid st'"
    "is_expireDiff st = is_expireDiff st'" "is_trafficDiff st = is_trafficDiff st'"
  have "rollupClients now st = rollupClients now st'" by (rule ext) (simp only: rollupClients_def e)
  then show ?thesis by (intro ext) (simp only: count_rows_def)
qed

definition counted_at :: "int \<Rightarrow> inbounds_state \<Rightarrow> bool" where
  "counted_at now st \<longleftrightarrow> is_counts st = count_rows now st (is_rows st)"

lemma rebuild_counted: "counted_at now (rebuildClientCount now st)"
  unfolding counted_at_def rebuildClientCount_def
  using count_rows_cong[of "st\<lparr>is_counts := c\<rparr>" st now for c] by simp

lemma counted_same:
  "counted_at t st \<Longrightarrow> is_counts st' = is_counts st \<Longrightarrow> is_rows st' = is_rows st \<Longrightarrow> is_onlineByGuid st' = is_onlineByGuid st \<Longrightarrow>
   is_activeByGuid st' = is_activeByGuid st \<Longrightarrow> is_expireDiff st' = is_expireDiff st \<Longrightarrow> is_trafficDiff st' = is_trafficDiff st \<Longrightarrow>
   counted_at t st'"
  using count_rows_cong[of st' st t] by (simp add: counted_at_def)

text \<open>
  C22
  The counters of the page never lag behind its data: after any sequence of events that starts with a
  list and has no late row and no change of the thresholds, they are the counters of the rows, online
  sets and thresholds at hand, at the time of one of the events.
\<close>

theorem counters_follow_events:
  assumes "list_all (\<lambda>(t, e). refreshes e) evs"
  shows "\<exists>t\<in>insert t0 (fst ` set evs). counted_at t (fold (\<lambda>(t, e). inbounds_step t e) evs (seedInbounds t0 rows st))"
  using assms
proof (induction evs rule: rev_induct)
  case Nil
  then show ?case by (simp add: seedInbounds_def rebuild_counted)
next
  case (snoc te evs)
  obtain t e where te: "te = (t, e)" by (cases te)
  let ?s = "fold (\<lambda>(t, e). inbounds_step t e) evs (seedInbounds t0 rows st)"
  obtain u where u: "u \<in> insert t0 (fst ` set evs)" "counted_at u ?s" using snoc by auto
  have "counted_at t (inbounds_step t e ?s) \<or> counted_at u (inbounds_step t e ?s)"
  proof (cases e)
    case (Traffic_Message p)
    then show ?thesis using u(2) by (cases p) (simp_all add: applyTrafficMessage_def rebuild_counted Let_def)
  next
    case (Stats_Message p)
    then show ?thesis using u(2)
      by (auto simp: applyStatsMessage_def rebuild_counted Let_def split: option.split)
  next
    case (Onlines es)
    then show ?thesis using counted_same[OF u(2)] by (simp add: onlinesFetched_def)
  next
    case (Last_Online m)
    then show ?thesis using counted_same[OF u(2)] by (simp add: lastOnlineFetched_def)
  qed (use snoc.prems te in \<open>simp_all add: seedInbounds_def onlinesByGuidFetched_def activeInboundsFetched_def hydrateInbound_def rebuild_counted Let_def\<close>)
  then show ?case using u(1) te by auto
qed

definition fresh_inbounds :: inbounds_state where
  "fresh_inbounds = \<lparr>is_rows = [], is_counts = (\<lambda>_. None), is_statsVersion = 0, is_speed = (\<lambda>_. None), is_onlineClients = [],
     is_onlineByGuid = (\<lambda>_. None), is_activeByGuid = (\<lambda>_. None), is_lastOnline = (\<lambda>_. None), is_expireDiff = 0,
     is_trafficDiff = 0\<rparr>"

text \<open>One VLESS inbound with a client that has a day of time left.\<close>

definition sample_row :: inbound_row where
  "sample_row = \<lparr>ib_id = 1, ib_tag = ''in-1'', ib_protocol = ''vless'', ib_enable = True, ib_up = 0, ib_down = 0, ib_total = 0,
     ib_originNodeGuid = ''g'', ib_nodeId = None, ib_method = None,
     ib_clients = Some [\<lparr>rc_email = Some ''a'', rc_enable = Some True, rc_comment = None\<rparr>],
     ib_clientStats = Some [\<lparr>ts_email = ''a'', ts_up = 0, ts_down = 0, ts_total = 0, ts_expiryTime = 86400001, ts_enable = True\<rparr>]\<rparr>"

theorem counters_follow_events_witness:
  "\<exists>t\<in>{7, 8}. counted_at t (fold (\<lambda>(t, e). inbounds_step t e) [(8, Onlines_By_Guid [(''g'', Some [''a''])])]
      (seedInbounds 7 [sample_row] fresh_inbounds))"
  using counters_follow_events[of "[(8, Onlines_By_Guid [(''g'', Some [''a''])])]" 7 "[sample_row]" fresh_inbounds]
  by (simp add: insert_commute)

text \<open>
  Thresholds that arrive after the list do not refresh the counters: the client with a day left is not
  shown as expiring although the threshold is ten days, until some later event recounts.
\<close>

lemma thresholds_arrive_late:
  "let st = loadDefaults (Some 10) None (seedInbounds 1 [sample_row] fresh_inbounds) in
     map_option ro_expiring (is_counts st 1) = Some []
     \<and> map_option ro_expiring (count_rows 1 st (is_rows st) 1) = Some [''a'']"
  by code_simp

lemma fold_updates:
  "fold (\<lambda>d m. case d of None \<Rightarrow> m | Some d \<Rightarrow> if td_IsInbound d = Some False then m else m(td_Tag d \<mapsto> d)) trs m0 tag
   = (case find (\<lambda>d. case d of None \<Rightarrow> False | Some d \<Rightarrow> td_IsInbound d \<noteq> Some False \<and> td_Tag d = tag) (rev trs) of
        Some (Some d) \<Rightarrow> Some d | _ \<Rightarrow> m0 tag)"
proof (induction trs rule: rev_induct)
  case (snoc d trs)
  then show ?case by (cases d) auto
qed simp

lemma fold_speeds:
  "distinct (map ib_id rows) \<Longrightarrow>
   fold (\<lambda>r m. case byTag (ib_tag r) of None \<Rightarrow> m
     | Some d \<Rightarrow> m(ib_id r \<mapsto> (of_int (or0 (td_Up d)) / TRAFFIC_POLL_INTERVAL_S, of_int (or0 (td_Down d)) / TRAFFIC_POLL_INTERVAL_S))) rows m0 i
   = (case find (\<lambda>r. ib_id r = i \<and> byTag (ib_tag r) \<noteq> None) rows of
        None \<Rightarrow> m0 i
      | Some r \<Rightarrow> map_option (\<lambda>d. (of_int (or0 (td_Up d)) / 5, of_int (or0 (td_Down d)) / 5)) (byTag (ib_tag r)))"
proof (induction rows arbitrary: m0)
  case (Cons r rows)
  have f: "find (\<lambda>q. ib_id q = ib_id r \<and> byTag (ib_tag q) \<noteq> None) rows = None"
    using Cons.prems unfolding find_None_iff by (metis distinct.simps(2) image_eqI list.set_map list.simps(9))
  show ?case using Cons f by (cases "byTag (ib_tag r)") (auto simp: TRAFFIC_POLL_INTERVAL_S_def split: option.split)
qed simp

lemma deltas_eq:
  "deltas_by_tag trs tag = (case find (\<lambda>d. case d of None \<Rightarrow> False | Some d \<Rightarrow> td_IsInbound d \<noteq> Some False \<and> td_Tag d = tag) (rev trs) of
     Some (Some d) \<Rightarrow> Some d | _ \<Rightarrow> None)"
  by (simp only: deltas_by_tag_def fold_updates)

text \<open>
  After a traffic message with a list of deltas an inbound shows the last delta sent for its tag, per
  second, and every inbound without one shows no speed, whatever it showed before.
\<close>

theorem speeds_replaced:
  assumes "distinct (map ib_id (is_rows st))" and "tp_traffics p = Some trs"
  shows "is_speed (applyTrafficMessage now (Some p) st) i
    = (case find (\<lambda>r. ib_id r = i \<and> deltas_by_tag trs (ib_tag r) \<noteq> None) (is_rows st) of
         None \<Rightarrow> None
       | Some r \<Rightarrow> map_option (\<lambda>d. (of_int (or0 (td_Up d)) / 5, of_int (or0 (td_Down d)) / 5))
           (case find (\<lambda>d. case d of None \<Rightarrow> False | Some d \<Rightarrow> td_IsInbound d \<noteq> Some False \<and> td_Tag d = ib_tag r) (rev trs) of
              Some (Some d) \<Rightarrow> Some d | _ \<Rightarrow> None))"
proof -
  have rows: "is_rows (case a of None \<Rightarrow> s | Some x \<Rightarrow> s\<lparr>is_onlineClients := x\<rparr>) = is_rows s"
    "is_rows (case b of None \<Rightarrow> s | Some x \<Rightarrow> s\<lparr>is_onlineByGuid := toGuidOnlineMap x\<rparr>) = is_rows s"
    "is_rows (case b of None \<Rightarrow> s | Some x \<Rightarrow> s\<lparr>is_activeByGuid := toGuidOnlineMap x\<rparr>) = is_rows s"
    "is_rows (case c of None \<Rightarrow> s | Some x \<Rightarrow> s\<lparr>is_lastOnline := is_lastOnline s ++ x\<rparr>) = is_rows s" for a b c s
    by (simp_all split: option.split)
  have "is_speed (applyTrafficMessage now (Some p) st) = speeds (deltas_by_tag trs) (is_rows st)"
    by (simp add: applyTrafficMessage_def Let_def assms(2) rebuildClientCount_def rows)
  then show ?thesis
    unfolding deltas_eq[symmetric] by (simp only: speeds_def fold_speeds[OF assms(1)])
qed

definition sample_traffic :: traffic_payload where
  "sample_traffic = \<lparr>tp_traffics = Some [Some \<lparr>td_Tag = ''in-1'', td_Up = Some 10, td_Down = None, td_IsInbound = None\<rparr>],
     tp_onlineClients = None, tp_onlineByGuid = None, tp_activeInbounds = None, tp_lastOnlineMap = None\<rparr>"

theorem speeds_replaced_witness:
  "is_speed (applyTrafficMessage 0 (Some sample_traffic) (fresh_inbounds\<lparr>is_rows := [sample_row]\<rparr>)) 1 = Some (2, 0)"
proof -
  let ?d = "\<lparr>td_Tag = ''in-1'', td_Up = Some 10, td_Down = None, td_IsInbound = None\<rparr>"
  have d: "distinct (map ib_id (is_rows (fresh_inbounds\<lparr>is_rows := [sample_row]\<rparr>)))"
    and t: "tp_traffics sample_traffic = Some [Some ?d]" by (simp_all add: sample_traffic_def)
  have r: "is_rows (fresh_inbounds\<lparr>is_rows := [sample_row]\<rparr>) = [sample_row]" and i: "ib_id sample_row = 1" "ib_tag sample_row = ''in-1''"
    by (simp_all add: sample_row_def)
  have m: "deltas_by_tag [Some ?d] ''in-1'' = Some ?d" by (simp add: deltas_by_tag_def)
  show ?thesis
    unfolding speeds_replaced[OF d t] unfolding r deltas_eq[symmetric] find.simps i m by (simp add: m i or0_def)
qed

end
