(* ===== verification/Inbound_Rows.thy ===== *)
theory Inbound_Rows
  imports Headers Json Capabilities
begin

text \<open>
  A row of the inbounds table on the client: the class \<open>DBInbound\<close> (\<open>models/dbinbound.ts\<close>) with
  \<open>ObjectUtil.cloneProps\<close> of \<open>utils/index.ts\<close>, the typed inbound made of a row
  (\<open>lib/xray/inbound-from-db.ts\<close> and \<open>stream-defaults.ts\<close>), and what the list and the information
  dialog read off it (\<open>pages/inbounds/list/helpers.ts\<close>, \<open>pages/inbounds/info/helpers.ts\<close>). The zod
  schemas are a parameter: \<open>safeParse name v\<close> is the parsed data, \<open>None\<close> when parsing fails.
\<close>

section \<open>The class\<close>

definition coerceInboundJsonField :: "js \<Rightarrow> jobj" where
  "coerceInboundJsonField v =
     (if nullish v then []
      else if is_obj v then spread v
      else case v of
        JStr s \<Rightarrow>
          (let trimmed = trim s in
           if trimmed = [] then []
           else case json_parse trimmed of Some (JObj o1) \<Rightarrow> o1 | _ \<Rightarrow> [])
      | _ \<Rightarrow> [])"

text \<open>\<open>ObjectUtil.cloneProps\<close>: the own keys of both objects, no \<open>undefined\<close>, none of those ignored.\<close>

definition cloneProps :: "jobj \<Rightarrow> jobj \<Rightarrow> string list \<Rightarrow> jobj" where
  "cloneProps dest src ignoreProps =
     fold (\<lambda>(k, v) d. if \<not> ohas d k then d else if v = JUndef then d
            else if ignoreProps = [] then oput k v d
            else if k \<in> set ignoreProps then d else oput k v d) src dest"

definition row_defaults :: jobj where
  "row_defaults =
     [(''id'', JNum (Fin 0)), (''userId'', JNum (Fin 0)), (''up'', JNum (Fin 0)), (''down'', JNum (Fin 0)),
      (''total'', JNum (Fin 0)), (''remark'', JStr []), (''enable'', JBool True), (''expiryTime'', JNum (Fin 0)),
      (''trafficReset'', JStr ''never''), (''lastTrafficResetTime'', JNum (Fin 0)), (''listen'', JStr []),
      (''port'', JNum (Fin 0)), (''protocol'', JStr []), (''settings'', JStr []), (''streamSettings'', JStr []),
      (''tag'', JStr []), (''sniffing'', JStr []), (''clientStats'', JArr []), (''nodeId'', JNull),
      (''shareAddrStrategy'', JStr ''node''), (''shareAddr'', JStr []), (''subSortIndex'', JNum (Fin 1)),
      (''originNodeGuid'', JStr []), (''fallbackParent'', JNull), (''_clientStatsMap'', JNull)]"

text \<open>\<open>new DBInbound(data)\<close>, with no data or with an object.\<close>

definition newDBInbound :: "jobj option \<Rightarrow> jobj" where
  "newDBInbound data = (case data of None \<Rightarrow> row_defaults | Some d \<Rightarrow> cloneProps row_defaults d [])"

definition toJSON :: "jobj \<Rightarrow> jobj" where
  "toJSON db = odel ''_clientStatsMap'' db"

definition protocol_is :: "string \<Rightarrow> jobj \<Rightarrow> bool" where
  "protocol_is p db \<longleftrightarrow> oget db ''protocol'' = JStr p"

definition isVMess :: "jobj \<Rightarrow> bool" where "isVMess = protocol_is ''vmess''"
definition isVLess :: "jobj \<Rightarrow> bool" where "isVLess = protocol_is ''vless''"
definition isTrojan :: "jobj \<Rightarrow> bool" where "isTrojan = protocol_is ''trojan''"
definition isSS :: "jobj \<Rightarrow> bool" where "isSS = protocol_is ''shadowsocks''"
definition isMixed :: "jobj \<Rightarrow> bool" where "isMixed = protocol_is ''mixed''"
definition isHTTP :: "jobj \<Rightarrow> bool" where "isHTTP = protocol_is ''http''"
definition isWireguard :: "jobj \<Rightarrow> bool" where "isWireguard = protocol_is ''wireguard''"
definition isHysteria :: "jobj \<Rightarrow> bool" where "isHysteria = protocol_is ''hysteria''"
definition isTunnel :: "jobj \<Rightarrow> bool" where "isTunnel = protocol_is ''tunnel''"

definition is_empty_value :: "js \<Rightarrow> bool" where
  "is_empty_value v \<longleftrightarrow> v = JNull \<or> v = JUndef \<or> v = JStr []"

text \<open>\<open>hostname\<close> is \<open>location.hostname\<close>.\<close>

definition row_address :: "string \<Rightarrow> jobj \<Rightarrow> js" where
  "row_address hostname db =
     (let listen = oget db ''listen'' in
      if \<not> is_empty_value listen \<and> listen \<noteq> JStr ''0.0.0.0'' then listen else JStr hostname)"

text \<open>
  The statistics of a client by email, cached in a map that \<open>invalidateCache\<close> drops. The row is the
  list at hand and the cached map.
\<close>

record stats_row =
  sw_clientStats :: "js list option"
  sw_map :: "(string \<Rightarrow> js option) option"

definition stats_map :: "js list option \<Rightarrow> string \<Rightarrow> js option" where
  "stats_map cs =
     fold (\<lambda>s m. case jget s ''email'' of JStr e \<Rightarrow> if truthy s \<and> e \<noteq> [] then m(e \<mapsto> s) else m | _ \<Rightarrow> m)
       (case cs of None \<Rightarrow> [] | Some xs \<Rightarrow> xs) (\<lambda>_. None)"

definition getClientStats :: "string \<Rightarrow> stats_row \<Rightarrow> js option \<times> stats_row" where
  "getClientStats email r =
     (let m = (case sw_map r of Some m \<Rightarrow> m | None \<Rightarrow> stats_map (sw_clientStats r))
      in (m email, r\<lparr>sw_map := Some m\<rparr>))"

definition invalidateCache :: "stats_row \<Rightarrow> stats_row" where
  "invalidateCache r = r\<lparr>sw_map := None\<rparr>"

section \<open>The typed inbound\<close>

definition network_key :: "string \<Rightarrow> string option" where
  "network_key n =
     map_of [(''tcp'', ''tcpSettings''), (''kcp'', ''kcpSettings''), (''ws'', ''wsSettings''), (''grpc'', ''grpcSettings''),
             (''httpupgrade'', ''httpupgradeSettings''), (''xhttp'', ''xhttpSettings''), (''hysteria'', ''hysteriaSettings'')] n"

definition security_key :: "string \<Rightarrow> string option" where
  "security_key s = (if s = ''tls'' then Some ''tlsSettings'' else if s = ''reality'' then Some ''realitySettings'' else None)"

definition parseOrDefault :: "(js \<Rightarrow> js option) \<Rightarrow> js \<Rightarrow> js" where
  "parseOrDefault schema v =
     (case schema (coalesce v (JObj [])) of
        Some d \<Rightarrow> d
      | None \<Rightarrow> (case schema (JObj []) of Some d \<Rightarrow> d | None \<Rightarrow> v))"

text \<open>The name of a network or security, \<open>d\<close> for none; a value that is no string names no schema.\<close>

definition name_of :: "js \<Rightarrow> string" where
  "name_of v = (case v of JStr s \<Rightarrow> s | _ \<Rightarrow> [])"

definition fill_key :: "(string \<Rightarrow> js \<Rightarrow> js option) \<Rightarrow> string option \<Rightarrow> jobj \<Rightarrow> jobj" where
  "fill_key safeParse k o1 = (case k of None \<Rightarrow> o1 | Some k \<Rightarrow> oput k (parseOrDefault (safeParse k) (oget o1 k)) o1)"

definition fillStreamDefaults :: "(string \<Rightarrow> js \<Rightarrow> js option) \<Rightarrow> jobj \<Rightarrow> jobj" where
  "fillStreamDefaults safeParse stream =
     (let network = coalesce (oget stream ''network'') (JStr ''tcp'');
          security = coalesce (oget stream ''security'') (JStr ''none'');
          o1 = oput ''security'' security (oput ''network'' network stream)
      in fill_key safeParse (security_key (name_of security)) (fill_key safeParse (network_key (name_of network)) o1))"

definition fillProtocolSettingsDefaults :: "(string \<Rightarrow> js \<Rightarrow> js option) \<Rightarrow> js \<Rightarrow> jobj \<Rightarrow> jobj" where
  "fillProtocolSettingsDefaults safeParse protocol settings =
     (case safeParse ''inbound'' (JObj [(''protocol'', protocol), (''settings'', JObj settings)]) of
        Some parsed \<Rightarrow> spread (jget parsed ''settings'')
      | None \<Rightarrow> settings)"

definition inboundFromDb :: "(string \<Rightarrow> js \<Rightarrow> js option) \<Rightarrow> jobj \<Rightarrow> jobj" where
  "inboundFromDb safeParse raw =
     (let settings = fillProtocolSettingsDefaults safeParse (oget raw ''protocol'') (coerceInboundJsonField (oget raw ''settings''));
          streamRaw = coerceInboundJsonField (oget raw ''streamSettings'');
          sniffing = coerceInboundJsonField (oget raw ''sniffing'');
          streamSettings = (if streamRaw = [] then streamRaw else fillStreamDefaults safeParse streamRaw)
      in [(''protocol'', oget raw ''protocol''), (''port'', oget raw ''port''),
          (''listen'', coalesce (oget raw ''listen'') (JStr [])), (''tag'', coalesce (oget raw ''tag'') (JStr [])),
          (''remark'', coalesce (oget raw ''remark'') (JStr [])), (''enable'', coalesce (oget raw ''enable'') (JBool True)),
          (''expiryTime'', coalesce (oget raw ''expiryTime'') (JNum (Fin 0))), (''up'', coalesce (oget raw ''up'') (JNum (Fin 0))),
          (''down'', coalesce (oget raw ''down'') (JNum (Fin 0))), (''total'', coalesce (oget raw ''total'') (JNum (Fin 0))),
          (''shareAddrStrategy'', coalesce (oget raw ''shareAddrStrategy'') (JStr ''node'')),
          (''shareAddr'', coalesce (oget raw ''shareAddr'') (JStr [])), (''settings'', JObj settings),
          (''streamSettings'', JObj streamSettings), (''sniffing'', JObj sniffing)])"

section \<open>What the list shows\<close>

record stream_hints =
  sh_network :: js
  sh_isTls :: bool
  sh_isReality :: bool

definition readStreamHints :: "js \<Rightarrow> stream_hints" where
  "readStreamHints streamSettings =
     (let stream = coerceInboundJsonField streamSettings in
      \<lparr>sh_network = coalesce (oget stream ''network'') (JStr []), sh_isTls = (oget stream ''security'' = JStr ''tls''),
       sh_isReality = (oget stream ''security'' = JStr ''reality'')\<rparr>)"

definition networkLabel :: "string \<Rightarrow> string" where
  "networkLabel network =
     (let n = to_lower network in
      if n = [] then ''TCP''
      else if n = ''httpupgrade'' then ''HTTPUpgrade''
      else if n = ''splithttp'' then ''SplitHTTP''
      else if n = ''xhttp'' then ''XHTTP''
      else to_upper n)"

definition networkL4 :: "string \<Rightarrow> string" where
  "networkL4 network = (let n = to_lower network in if n = ''kcp'' \<or> n = ''quic'' then ''UDP'' else [])"

definition commaNetworkLabel :: "string \<Rightarrow> string" where
  "commaNetworkLabel raw =
     (let parts = non_empty (map trim (split_char CHR '','' (to_lower (sor raw ''tcp'')))) in
      if parts = [] then ''TCP'' else join '','' (map networkLabel parts))"

definition readSettings :: "js \<Rightarrow> jobj" where
  "readSettings settings = coerceInboundJsonField settings"

definition shadowsocksNetworkLabel :: "js \<Rightarrow> string" where
  "shadowsocksNetworkLabel settings = commaNetworkLabel (name_of (oget (readSettings settings) ''network''))"

definition tunnelNetworkLabel :: "js \<Rightarrow> string" where
  "tunnelNetworkLabel settings = commaNetworkLabel (name_of (oget (readSettings settings) ''allowedNetwork''))"

definition mixedNetworkLabel :: "js \<Rightarrow> string" where
  "mixedNetworkLabel settings = (if truthy (oget (coerceInboundJsonField settings) ''udp'') then ''TCP,UDP'' else ''TCP'')"

text \<open>The slice of a row the capability predicates read; a field that is no string counts as absent.\<close>

definition str_field :: "js \<Rightarrow> string option" where
  "str_field v = (case v of JStr s \<Rightarrow> Some s | _ \<Rightarrow> None)"

definition method_slice :: "string \<Rightarrow> jobj \<Rightarrow> cap_slice" where
  "method_slice protocol settings =
     \<lparr>cap_protocol = protocol,
      cap_settings = Some \<lparr>cs_encryption = None, cs_decryption = None, cs_method = str_field (oget settings ''method''), cs_clients = None\<rparr>,
      cap_stream = None\<rparr>"

definition isInboundMultiUser :: "string \<Rightarrow> js \<Rightarrow> bool" where
  "isInboundMultiUser protocol settings =
     (if protocol \<in> set [''vmess'', ''vless'', ''trojan'', ''hysteria''] then True
      else if protocol = ''shadowsocks'' then isSSMultiUser (method_slice ''shadowsocks'' (readSettings settings))
      else False)"

definition showQrCodeMenu :: "jobj \<Rightarrow> bool" where
  "showQrCodeMenu db =
     (if isWireguard db then True
      else if isSS db then \<not> isSSMultiUser (method_slice ''shadowsocks'' (readSettings (oget db ''settings'')))
      else False)"

section \<open>What the information dialog shows\<close>

definition hasShareLink :: "string \<Rightarrow> bool" where
  "hasShareLink protocol \<longleftrightarrow> protocol \<in> set [''vmess'', ''vless'', ''trojan'', ''shadowsocks'', ''hysteria'']"

definition header_list_value :: "string \<Rightarrow> js list \<Rightarrow> string" where
  "header_list_value needle hs =
     (case find (\<lambda>h. (is_obj h \<or> is_arr h) \<and> to_lower (to_str (coalesce (jget h ''name'') (JStr []))) = needle) hs of
        None \<Rightarrow> [] | Some h \<Rightarrow> to_str (coalesce (jget h ''value'') (JStr [])))"

definition header_map_value :: "string \<Rightarrow> jobj \<Rightarrow> string" where
  "header_map_value needle m =
     (case find (\<lambda>(k, v). to_lower k = needle) m of
        None \<Rightarrow> []
      | Some (k, v) \<Rightarrow>
          (case v of JArr xs \<Rightarrow> to_str (coalesce (case xs of [] \<Rightarrow> JUndef | x # _ \<Rightarrow> x) (JStr []))
           | _ \<Rightarrow> to_str (coalesce v (JStr []))))"

definition readHeader :: "js \<Rightarrow> string \<Rightarrow> string" where
  "readHeader headers name =
     (case headers of
        JArr hs \<Rightarrow> header_list_value (to_lower name) hs
      | JObj m \<Rightarrow> header_map_value (to_lower name) m
      | _ \<Rightarrow> [])"

definition has_length :: "js \<Rightarrow> bool" where
  "has_length v = (case v of JStr s \<Rightarrow> s \<noteq> [] | JArr xs \<Rightarrow> xs \<noteq> [] | _ \<Rightarrow> False)"

definition host_of :: "js \<Rightarrow> js" where
  "host_of st = (if has_length (jget st ''host'') then jget st ''host'' else JStr (readHeader (jget st ''headers'') ''host''))"

definition readNetworkHost :: "jobj \<Rightarrow> string \<Rightarrow> js option" where
  "readNetworkHost stream network =
     (if network = ''tcp'' then
        Some (JStr (readHeader (jget (jget (jget (oget stream ''tcpSettings'') ''header'') ''request'') ''headers'') ''host''))
      else if network = ''ws'' then Some (host_of (oget stream ''wsSettings''))
      else if network = ''httpupgrade'' then Some (host_of (oget stream ''httpupgradeSettings''))
      else if network = ''xhttp'' then Some (host_of (oget stream ''xhttpSettings''))
      else None)"

definition non_nullish :: "js \<Rightarrow> js option" where
  "non_nullish v = (if nullish v then None else Some v)"

text \<open>\<open>path?.[0]\<close> of a value that is an array or a text.\<close>

definition first_item :: "js \<Rightarrow> js" where
  "first_item v = (case v of JArr (x # _) \<Rightarrow> x | JStr (c # _) \<Rightarrow> JStr [c] | _ \<Rightarrow> JUndef)"

definition readNetworkPath :: "jobj \<Rightarrow> string \<Rightarrow> js option" where
  "readNetworkPath stream network =
     (if network = ''tcp'' then
        non_nullish (first_item (jget (jget (jget (oget stream ''tcpSettings'') ''header'') ''request'') ''path''))
      else if network = ''ws'' then non_nullish (jget (oget stream ''wsSettings'') ''path'')
      else if network = ''httpupgrade'' then non_nullish (jget (oget stream ''httpupgradeSettings'') ''path'')
      else if network = ''xhttp'' then non_nullish (jget (oget stream ''xhttpSettings'') ''path'')
      else None)"

definition shown_server_name :: "jobj \<Rightarrow> string \<Rightarrow> js" where
  "shown_server_name stream security =
     (if security = ''tls'' then
        coalesce (coalesce (jget (oget stream ''tlsSettings'') ''sni'') (jget (oget stream ''tlsSettings'') ''serverName'')) (JStr [])
      else if security = ''reality'' then
        (case jget (oget stream ''realitySettings'') ''serverNames'' of
           JArr xs \<Rightarrow> JStr (join '', '' (map (\<lambda>x. if nullish x then [] else to_str x) xs))
         | _ \<Rightarrow> jor (jget (oget stream ''realitySettings'') ''serverName'') (JStr []))
      else JStr [])"

record inbound_info =
  ii_protocol :: string
  ii_clients :: "js list"
  ii_settings :: jobj
  ii_isTcp :: bool
  ii_isWs :: bool
  ii_isHttpupgrade :: bool
  ii_isXHTTP :: bool
  ii_isGrpc :: bool
  ii_isSSMultiUser :: bool
  ii_isSS2022 :: bool
  ii_isVlessTlsFlow :: bool
  ii_host :: "js option"
  ii_path :: "js option"
  ii_serviceName :: js
  ii_serverName :: js
  ii_network :: string
  ii_security :: string
  ii_xhttp_mode :: "js option"
  ii_grpc_multiMode :: "js option"

definition buildInboundInfo :: "string \<Rightarrow> js \<Rightarrow> js \<Rightarrow> inbound_info" where
  "buildInboundInfo protocol rawSettings rawStream =
     (let settings = coerceInboundJsonField rawSettings; stream = coerceInboundJsonField rawStream;
          network = name_of (coalesce (oget stream ''network'') (JStr []));
          security = name_of (coalesce (oget stream ''security'') (JStr ''none''));
          xhttp = oget stream ''xhttpSettings''; grpc = oget stream ''grpcSettings''
      in \<lparr>ii_protocol = protocol,
          ii_clients = (case oget settings ''clients'' of JArr cs \<Rightarrow> cs | _ \<Rightarrow> []),
          ii_settings = settings,
          ii_isTcp = (network = ''tcp''), ii_isWs = (network = ''ws''), ii_isHttpupgrade = (network = ''httpupgrade''),
          ii_isXHTTP = (network = ''xhttp''), ii_isGrpc = (network = ''grpc''),
          ii_isSSMultiUser = isSSMultiUser (method_slice protocol settings),
          ii_isSS2022 = isSS2022 (method_slice protocol settings),
          ii_isVlessTlsFlow = canEnableTlsFlow
            \<lparr>cap_protocol = protocol,
             cap_settings = Some \<lparr>cs_encryption = str_field (oget settings ''encryption''),
               cs_decryption = str_field (oget settings ''decryption''), cs_method = None, cs_clients = None\<rparr>,
             cap_stream = Some \<lparr>ct_network = Some network, ct_security = Some security\<rparr>\<rparr>,
          ii_host = readNetworkHost stream network, ii_path = readNetworkPath stream network,
          ii_serviceName = coalesce (jget grpc ''serviceName'') (JStr []),
          ii_serverName = shown_server_name stream security,
          ii_network = network, ii_security = security,
          ii_xhttp_mode = (if truthy xhttp then Some (jget xhttp ''mode'') else None),
          ii_grpc_multiMode = (if truthy grpc then Some (jget grpc ''multiMode'') else None)\<rparr>)"

text \<open>\<open>lib/inbounds/label.ts\<close>.\<close>

definition formatInboundLabel :: "string \<Rightarrow> string \<Rightarrow> string" where
  "formatInboundLabel tag remark = (if trim remark \<noteq> [] then trim remark else trim tag)"

section \<open>Rows survive being written and read\<close>

definition plain_keys :: "jobj \<Rightarrow> bool" where
  "plain_keys o1 \<longleftrightarrow> (\<forall>k. ohas o1 k \<longrightarrow> \<not> is_index k) \<and> distinct (okeys o1)"

lemma okeys_oput_present: "ohas d k \<Longrightarrow> \<not> is_index k \<Longrightarrow> okeys (oput k v d) = okeys d"
  by (induction k v d rule: oput.induct) (auto simp: ohas_def okeys_def key_before_def split: if_splits)

lemma owf_oput_named: "owf o1 \<Longrightarrow> \<not> is_index k \<Longrightarrow> owf (oput k v o1)"
proof (cases "ohas o1 k")
  case True
  moreover assume "owf o1" "\<not> is_index k"
  ultimately show ?thesis by (simp add: owf_def okeys_oput_present)
next
  case False
  moreover assume o: "owf o1" and k: "\<not> is_index k"
  ultimately have "oput k v o1 = o1 @ [(k, v)]"
    by (induction o1) (auto simp: ohas_def key_before_def owf_def okeys_def key_ordered_def)
  then show ?thesis using o k False
    by (auto simp: owf_def okeys_def key_ordered_def sorted_wrt_append key_before_def ohas_def)
qed

lemma same_object: "okeys a = okeys b \<Longrightarrow> distinct (okeys a) \<Longrightarrow> \<forall>k. ohas a k \<longrightarrow> oget a k = oget b k \<Longrightarrow> a = b"
proof (induction a arbitrary: b)
  case Nil
  then show ?case by (simp add: okeys_def)
next
  case (Cons p a)
  obtain q b' where b: "b = q # b'" "fst p = fst q" "okeys a = okeys b'" using Cons.prems(1) by (cases b) (auto simp: okeys_def)
  have k: "fst p \<notin> fst ` set a" "distinct (okeys a)" using Cons.prems(2) by (simp_all add: okeys_def)
  have "snd p = snd q" using Cons.prems(3)[rule_format, of "fst p"] b by (cases p; cases q) (simp add: ohas_def)
  moreover have "a = b'"
  proof (rule Cons.IH[OF b(3) k(2)], intro allI impI)
    fix k' assume h: "ohas a k'"
    then have "k' \<noteq> fst p" using k(1) unfolding ohas_def by metis
    then show "oget a k' = oget b' k'" using Cons.prems(3)[rule_format, of k'] h b by (cases p; cases q) (simp add: ohas_def)
  qed
  ultimately show ?case using b by (simp add: prod_eq_iff)
qed

lemma clone_fold:
  assumes "plain_keys dest" and "distinct (okeys src)"
  shows "okeys (cloneProps dest src []) = okeys dest
    \<and> (\<forall>k. oget (cloneProps dest src []) k = (if ohas dest k \<and> oget src k \<noteq> JUndef then oget src k else oget dest k))"
  using assms(2,1)
proof (induction src arbitrary: dest)
  case Nil
  then show ?case by (simp add: cloneProps_def)
next
  case (Cons p src)
  obtain k v where p: "p = (k, v)" by (cases p)
  let ?d = "if \<not> ohas dest k then dest else if v = JUndef then dest else oput k v dest"
  have step: "cloneProps dest (p # src) [] = cloneProps ?d src []" by (simp add: cloneProps_def p)
  have k: "k \<notin> fst ` set src" "distinct (okeys src)" using Cons.prems(1) by (simp_all add: okeys_def p)
  have ks: "okeys ?d = okeys dest" "\<And>k'. ohas ?d k' = ohas dest k'"
    using Cons.prems(2) okeys_oput_present[of dest k v] by (auto simp: plain_keys_def)
  then have "plain_keys ?d" using Cons.prems(2) by (simp add: plain_keys_def)
  from Cons.IH[OF k(2) this] have ih: "okeys (cloneProps ?d src []) = okeys ?d"
    "\<And>k'. oget (cloneProps ?d src []) k' = (if ohas ?d k' \<and> oget src k' \<noteq> JUndef then oget src k' else oget ?d k')"
    by blast+
  have "oget src k = JUndef" using k(1) by (intro oget_not_ohas) (simp add: ohas_def)
  then show ?case unfolding step using ih ks by (auto simp: p)
qed

lemma row_defaults_plain: "plain_keys row_defaults"
proof -
  have "list_all (\<lambda>k. \<not> is_index k) (okeys row_defaults) \<and> distinct (okeys row_defaults)" by code_simp
  then show ?thesis by (auto simp: plain_keys_def ohas_def okeys_def list_all_iff)
qed

lemma row_defaults_defined: "ohas row_defaults k \<Longrightarrow> oget row_defaults k \<noteq> JUndef"
proof -
  assume "ohas row_defaults k"
  moreover have "list_all (\<lambda>p. oget row_defaults (fst p) \<noteq> JUndef) row_defaults" by code_simp
  ultimately show ?thesis by (auto simp: ohas_def list_all_iff)
qed

text \<open>
  A row made of the server's data has exactly the fields of the class, each with the value sent for it
  or its default where none was sent; written out and read again it is the same row.
\<close>

theorem row_roundtrip:
  assumes "distinct (okeys d)" and "\<not> ohas d ''_clientStatsMap''"
  shows "okeys (newDBInbound (Some d)) = okeys row_defaults
    \<and> oget (newDBInbound (Some d)) k = (if ohas row_defaults k \<and> oget d k \<noteq> JUndef then oget d k else oget row_defaults k)
    \<and> newDBInbound (Some (toJSON (newDBInbound (Some d)))) = newDBInbound (Some d)"
proof -
  note c = clone_fold[OF row_defaults_plain assms(1)]
  let ?n = "cloneProps row_defaults d []"
  have ks: "okeys ?n = okeys row_defaults" and g: "oget ?n k = (if ohas row_defaults k \<and> oget d k \<noteq> JUndef then oget d k else oget row_defaults k)" for k
    using c by blast+
  have dn: "distinct (okeys ?n)" using ks row_defaults_plain by (simp add: plain_keys_def)
  have h: "ohas ?n k = ohas row_defaults k" for k using ks by (metis ohas_def okeys_def list.set_map)
  have "distinct (okeys (toJSON ?n))" using dn by (auto simp: toJSON_def odel_def okeys_def intro: distinct_map_filter)
  note c2 = clone_fold[OF row_defaults_plain this]
  have "cloneProps row_defaults (toJSON ?n) [] = ?n"
  proof (rule same_object)
    show "okeys (cloneProps row_defaults (toJSON ?n) []) = okeys ?n" using c2 ks by simp
    then show "distinct (okeys (cloneProps row_defaults (toJSON ?n) []))" using dn by simp
    have m: "oget ?n ''_clientStatsMap'' = oget row_defaults ''_clientStatsMap''"
      using g oget_not_ohas[OF assms(2)] by simp
    show "\<forall>k. ohas (cloneProps row_defaults (toJSON ?n) []) k \<longrightarrow> oget (cloneProps row_defaults (toJSON ?n) []) k = oget ?n k"
      using c2 m row_defaults_defined g by (auto simp: toJSON_def oget_not_ohas)
  qed
  then show ?thesis using ks g by (simp add: newDBInbound_def)
qed

theorem row_roundtrip_witness:
  "newDBInbound (Some (toJSON (newDBInbound (Some [(''id'', JNum (Fin 3)), (''extra'', JNull)]))))
     = newDBInbound (Some [(''id'', JNum (Fin 3)), (''extra'', JNull)])"
  using row_roundtrip[of "[(''id'', JNum (Fin 3)), (''extra'', JNull)]"] by (simp add: okeys_def ohas_def)

section \<open>The list, the dialog and the links agree\<close>

lemma find_header:
  "(case find (\<lambda>(k, v). to_lower k = n) (map (\<lambda>(k, v). (k, hval_js v)) m) of
      None \<Rightarrow> []
    | Some (k, v) \<Rightarrow> (case v of JArr xs \<Rightarrow> to_str (coalesce (case xs of [] \<Rightarrow> JUndef | x # _ \<Rightarrow> x) (JStr []))
                     | _ \<Rightarrow> to_str (coalesce v (JStr [])))) = first_header n m"
proof (induction m)
  case (Cons p m)
  obtain k v where p: "p = (k, v)" by (cases p)
  show ?case
  proof (cases v)
    case (HArr xs)
    then show ?thesis using Cons by (cases xs) (simp_all add: p coalesce_def)
  qed (use Cons in \<open>simp add: p coalesce_def\<close>)
qed simp

text \<open>
  The information dialog reads a header as the link generator does, so the host it shows for a stored
  header map is the host of the share link.
\<close>

theorem dialog_reads_link_header:
  "readHeader (v2_js m) name = getHeaderValue (Some m) name"
  unfolding readHeader_def v2_js_def header_map_value_def getHeaderValue_def by (simp add: find_header)

text \<open>
  An inbound counts as multi-user in the list exactly when its protocol has share links and, for
  Shadowsocks, the dialog shows it as multi-user; the menu of a single QR code is never offered for one.
\<close>

theorem multi_user_consistent:
  "(isInboundMultiUser p s \<longleftrightarrow> hasShareLink p \<and> (if p = ''shadowsocks'' then ii_isSSMultiUser (buildInboundInfo p s st) else True))
   \<and> \<not> (showQrCodeMenu db \<and> isInboundMultiUser (name_of (oget db ''protocol'')) (oget db ''settings''))"
proof -
  have q: "showQrCodeMenu db \<Longrightarrow> oget db ''protocol'' = JStr ''wireguard'' \<or> oget db ''protocol'' = JStr ''shadowsocks''
      \<and> \<not> isSSMultiUser (method_slice ''shadowsocks'' (readSettings (oget db ''settings'')))"
    by (auto simp: showQrCodeMenu_def isWireguard_def isSS_def protocol_is_def split: if_splits)
  then show ?thesis
    by (auto simp: isInboundMultiUser_def hasShareLink_def buildInboundInfo_def readSettings_def Let_def name_of_def)
qed

section \<open>Defaults of a stream\<close>

text \<open>
  The stream of a typed inbound names its network and security, holds under the keys of both what their
  schemas make of the stored settings (or of none, where those do not parse), and keeps every other key.
\<close>

theorem stream_defaults_filled:
  assumes "\<And>k. safeParse k (JObj []) \<noteq> None"
  shows "let o1 = fillStreamDefaults safeParse stream;
             n = coalesce (oget stream ''network'') (JStr ''tcp''); s = coalesce (oget stream ''security'') (JStr ''none'')
         in oget o1 ''network'' = n \<and> oget o1 ''security'' = s
           \<and> (\<forall>k. k \<in> set_option (network_key (name_of n)) \<union> set_option (security_key (name_of s)) \<longrightarrow>
                (\<exists>v. safeParse k v = Some (oget o1 k) \<and> (v = coalesce (oget stream k) (JObj []) \<or> v = JObj [])))
           \<and> (\<forall>k. k \<notin> set_option (network_key (name_of n)) \<union> set_option (security_key (name_of s)) \<union> {''network'', ''security''} \<longrightarrow>
                oget o1 k = oget stream k)"
proof -
  define n where "n = coalesce (oget stream ''network'') (JStr ''tcp'')"
  define s where "s = coalesce (oget stream ''security'') (JStr ''none'')"
  define o0 where "o0 = oput ''security'' s (oput ''network'' n stream)"
  have p: "\<exists>u. safeParse k u = Some (parseOrDefault (safeParse k) v) \<and> (u = coalesce v (JObj []) \<or> u = JObj [])" for k v
    using assms[of k] by (cases "safeParse k (coalesce v (JObj []))") (auto simp: parseOrDefault_def)
  have nk: "network_key m = Some k \<Longrightarrow> k \<noteq> ''network'' \<and> k \<noteq> ''security'' \<and> k \<noteq> ''tlsSettings'' \<and> k \<noteq> ''realitySettings''" for m k
    by (auto simp: network_key_def split: if_splits)
  have sk: "security_key m = Some k \<Longrightarrow> k \<noteq> ''network'' \<and> k \<noteq> ''security'' \<and> (k = ''tlsSettings'' \<or> k = ''realitySettings'')" for m k
    by (auto simp: security_key_def split: if_splits)
  have f: "oget (fill_key safeParse x o1) k = (if x = Some k then parseOrDefault (safeParse k) (oget o1 k) else oget o1 k)" for x o1 k
    by (cases x) (auto simp: fill_key_def)
  have g: "oget (fillStreamDefaults safeParse stream) k =
      (if security_key (name_of s) = Some k \<or> network_key (name_of n) = Some k then parseOrDefault (safeParse k) (oget o0 k) else oget o0 k)" for k
    using nk[of "name_of n" k] sk[of "name_of s" k] unfolding fillStreamDefaults_def Let_def n_def[symmetric] s_def[symmetric] o0_def[symmetric]
    by (auto simp: f)
  have o0: "oget o0 k = (if k = ''security'' then s else if k = ''network'' then n else oget stream k)" for k
    by (simp add: o0_def)
  show ?thesis unfolding Let_def n_def[symmetric] s_def[symmetric]
  proof (intro conjI allI impI)
    show "oget (fillStreamDefaults safeParse stream) ''network'' = n" "oget (fillStreamDefaults safeParse stream) ''security'' = s"
      using nk[of "name_of n"] sk[of "name_of s"] by (auto simp: g o0)
  next
    fix k assume k: "k \<in> set_option (network_key (name_of n)) \<union> set_option (security_key (name_of s))"
    then have "security_key (name_of s) = Some k \<or> network_key (name_of n) = Some k" by auto
    moreover have "k \<noteq> ''security''" "k \<noteq> ''network''" using calculation nk sk by blast+
    ultimately show "\<exists>v. safeParse k v = Some (oget (fillStreamDefaults safeParse stream) k)
        \<and> (v = coalesce (oget stream k) (JObj []) \<or> v = JObj [])" using p[of k "oget stream k"] by (simp add: g o0)
  next
    fix k assume k: "k \<notin> set_option (network_key (name_of n)) \<union> set_option (security_key (name_of s)) \<union> {''network'', ''security''}"
    then show "oget (fillStreamDefaults safeParse stream) k = oget stream k" by (auto simp: g o0)
  qed
qed

theorem stream_defaults_filled_witness:
  "oget (fillStreamDefaults (\<lambda>_ v. Some v) [(''network'', JStr ''ws'')]) ''security'' = JStr ''none''"
  using stream_defaults_filled[of "\<lambda>_ v. Some v" "[(''network'', JStr ''ws'')]"] by (simp add: Let_def coalesce_def)

end
