(* ===== verification/Fallback_Rows.thy ===== *)
theory Fallback_Rows
  imports Inbound_Rows "HOL-Library.Multiset"
begin

text \<open>
  The fallback rows of a VLESS or Trojan inbound (\<open>pages/inbounds/form/useInboundFallbacks.ts\<close>): the
  rows with their keys, every handler, the defaults derived from the child inbound, and what is saved
  and loaded.
\<close>

section \<open>State\<close>

record fallback_row =
  fb_rowKey :: string
  fb_childId :: "int option"
  fb_name :: string
  fb_alpn :: string
  fb_path :: string
  fb_dest :: string
  fb_xver :: int

text \<open>The rows and the counter \<open>fallbackKeyRef\<close>.\<close>

record fallback_state =
  fs_rows :: "fallback_row list"
  fs_key :: nat

record child_inbound =
  ch_id :: int
  ch_streamSettings :: js

definition next_key :: "nat \<Rightarrow> string" where
  "next_key n = ''fb-'' @ nat_str (Suc n)"

section \<open>Derived defaults\<close>

record derived_row =
  dr_name :: string
  dr_alpn :: string
  dr_path :: string

definition derived_path :: "jobj \<Rightarrow> string" where
  "derived_path stream =
     (let network = name_of (oget stream ''network'') in
      if network = ''ws'' then name_of (jget (oget stream ''wsSettings'') ''path'')
      else if network = ''grpc'' then name_of (jget (oget stream ''grpcSettings'') ''serviceName'')
      else if network = ''httpupgrade'' then name_of (jget (oget stream ''httpupgradeSettings'') ''path'')
      else if network = ''xhttp'' then name_of (jget (oget stream ''xhttpSettings'') ''path'')
      else [])"

definition alpn_text :: "js \<Rightarrow> string" where
  "alpn_text v = (case v of JArr xs \<Rightarrow> join '','' (str_items xs) | _ \<Rightarrow> [])"

text \<open>\<open>None\<close> when the inbound is not in the list.\<close>

definition deriveFallbackDefaults :: "child_inbound list \<Rightarrow> int \<Rightarrow> derived_row option" where
  "deriveFallbackDefaults dbInbounds childId =
     map_option (\<lambda>child.
        let stream = coerceInboundJsonField (ch_streamSettings child); tls = oget stream ''tlsSettings''
        in \<lparr>dr_name = name_of (jget tls ''serverName''), dr_alpn = alpn_text (jget tls ''alpn''), dr_path = derived_path stream\<rparr>)
       (find (\<lambda>ib. ch_id ib = childId) dbInbounds)"

definition apply_derived :: "derived_row option \<Rightarrow> fallback_row \<Rightarrow> fallback_row" where
  "apply_derived d r =
     (case d of None \<Rightarrow> r | Some d \<Rightarrow> r\<lparr>fb_name := dr_name d, fb_alpn := dr_alpn d, fb_path := dr_path d, fb_xver := 0\<rparr>)"

section \<open>Handlers\<close>

definition addFallback :: "fallback_state \<Rightarrow> fallback_state" where
  "addFallback st = \<lparr>fs_rows = fs_rows st @ [\<lparr>fb_rowKey = next_key (fs_key st), fb_childId = None, fb_name = [], fb_alpn = [],
     fb_path = [], fb_dest = [], fb_xver = 0\<rparr>], fs_key = Suc (fs_key st)\<rparr>"

text \<open>A patch: the fields given. A child is a number, or \<open>null\<close> when the picker is cleared.\<close>

record fallback_patch =
  fp_childId :: "int option option"
  fp_name :: "string option"
  fp_alpn :: "string option"
  fp_path :: "string option"
  fp_dest :: "string option"
  fp_xver :: "int option"

definition given :: "'a option \<Rightarrow> 'a \<Rightarrow> 'a" where
  "given p old = (case p of None \<Rightarrow> old | Some v \<Rightarrow> v)"

definition apply_patch :: "fallback_patch \<Rightarrow> fallback_row \<Rightarrow> fallback_row" where
  "apply_patch p r = r\<lparr>fb_childId := given (fp_childId p) (fb_childId r), fb_name := given (fp_name p) (fb_name r),
     fb_alpn := given (fp_alpn p) (fb_alpn r), fb_path := given (fp_path p) (fb_path r), fb_dest := given (fp_dest p) (fb_dest r),
     fb_xver := given (fp_xver p) (fb_xver r)\<rparr>"

definition is_pristine :: "fallback_row \<Rightarrow> bool" where
  "is_pristine r \<longleftrightarrow> fb_name r = [] \<and> fb_alpn r = [] \<and> fb_path r = [] \<and> fb_dest r = [] \<and> fb_xver r = 0"

definition update_row :: "child_inbound list \<Rightarrow> fallback_patch \<Rightarrow> fallback_row \<Rightarrow> fallback_row" where
  "update_row dbInbounds p r =
     (case fp_childId p of
        Some (Some c) \<Rightarrow>
          if Some c \<noteq> fb_childId r \<and> is_pristine r then apply_derived (deriveFallbackDefaults dbInbounds c) (apply_patch p r)
          else apply_patch p r
      | _ \<Rightarrow> apply_patch p r)"

definition updateFallback :: "child_inbound list \<Rightarrow> string \<Rightarrow> fallback_patch \<Rightarrow> fallback_state \<Rightarrow> fallback_state" where
  "updateFallback dbInbounds rowKey p st =
     st\<lparr>fs_rows := map (\<lambda>r. if fb_rowKey r \<noteq> rowKey then r else update_row dbInbounds p r) (fs_rows st)\<rparr>"

definition removeFallback :: "nat \<Rightarrow> fallback_state \<Rightarrow> fallback_state" where
  "removeFallback idx st = st\<lparr>fs_rows := take idx (fs_rows st) @ drop (Suc idx) (fs_rows st)\<rparr>"

text \<open>A move of the row at \<open>idx\<close>, an index of the list, up or down.\<close>

definition moveFallback :: "nat \<Rightarrow> bool \<Rightarrow> fallback_state \<Rightarrow> fallback_state" where
  "moveFallback idx down st =
     (let target = (if down then int idx + 1 else int idx - 1); rows = fs_rows st in
      if target < 0 \<or> target \<ge> int (length rows) then st
      else st\<lparr>fs_rows := (rows[idx := rows ! nat target])[nat target := rows ! idx]\<rparr>)"

definition fallbackChildOptions :: "int option \<Rightarrow> child_inbound list \<Rightarrow> int list" where
  "fallbackChildOptions self dbInbounds = map ch_id (filter (\<lambda>ib. Some (ch_id ib) \<noteq> self) dbInbounds)"

fun number_rows :: "nat \<Rightarrow> (string \<Rightarrow> fallback_row) list \<Rightarrow> fallback_row list" where
  "number_rows n [] = []"
| "number_rows n (f # fs) = f (next_key n) # number_rows (Suc n) fs"

definition derived_addition :: "child_inbound list \<Rightarrow> int \<Rightarrow> string \<Rightarrow> fallback_row" where
  "derived_addition dbInbounds c k =
     apply_derived (deriveFallbackDefaults dbInbounds c)
       \<lparr>fb_rowKey = k, fb_childId = Some c, fb_name = [], fb_alpn = [], fb_path = [], fb_dest = [], fb_xver = 0\<rparr>"

definition addAllFallbacks :: "int option \<Rightarrow> child_inbound list \<Rightarrow> fallback_state \<Rightarrow> fallback_state" where
  "addAllFallbacks self dbInbounds st =
     (let additions = filter (\<lambda>v. Some v \<notin> fb_childId ` set (fs_rows st)) (fallbackChildOptions self dbInbounds)
      in st\<lparr>fs_rows := fs_rows st @ number_rows (fs_key st) (map (derived_addition dbInbounds) additions),
            fs_key := fs_key st + length additions\<rparr>)"

section \<open>Saving and loading\<close>

record saved_fallback =
  sf_childId :: "int option"
  sf_name :: string
  sf_alpn :: string
  sf_path :: string
  sf_dest :: string
  sf_xver :: int
  sf_sortOrder :: nat

text \<open>A row is sent when it has a child (an id is never 0) or a destination.\<close>

definition is_sent :: "fallback_row \<Rightarrow> bool" where
  "is_sent r \<longleftrightarrow> (case fb_childId r of None \<Rightarrow> False | Some c \<Rightarrow> c \<noteq> 0) \<or> trim (fb_dest r) \<noteq> []"

definition saved_row :: "nat \<Rightarrow> fallback_row \<Rightarrow> saved_fallback" where
  "saved_row i r = \<lparr>sf_childId = fb_childId r, sf_name = fb_name r, sf_alpn = fb_alpn r, sf_path = fb_path r, sf_dest = fb_dest r,
     sf_xver = fb_xver r, sf_sortOrder = i\<rparr>"

definition save_payload :: "fallback_state \<Rightarrow> saved_fallback list" where
  "save_payload st = (let rows = filter is_sent (fs_rows st) in map (\<lambda>(i, r). saved_row i r) (zip [0 ..< length rows] rows))"

definition loaded_row :: "saved_fallback \<Rightarrow> string \<Rightarrow> fallback_row" where
  "loaded_row r k = \<lparr>fb_rowKey = k, fb_childId = (case sf_childId r of Some c \<Rightarrow> if c > 0 then Some c else None | None \<Rightarrow> None),
     fb_name = sf_name r, fb_alpn = sf_alpn r, fb_path = sf_path r, fb_dest = sf_dest r, fb_xver = sf_xver r\<rparr>"

text \<open>\<open>None\<close> is a failed answer, or no inbound to load from.\<close>

definition loadFallbacks :: "saved_fallback list option \<Rightarrow> fallback_state \<Rightarrow> fallback_state" where
  "loadFallbacks reply st =
     (case reply of
        None \<Rightarrow> st\<lparr>fs_rows := []\<rparr>
      | Some rs \<Rightarrow> \<lparr>fs_rows = number_rows (fs_key st) (map loaded_row rs), fs_key = fs_key st + length rs\<rparr>)"

text \<open>\<open>saveFallbacks\<close>: no request without an inbound; else the payload, and whether the answer was a success.\<close>

definition saveFallbacks :: "int \<Rightarrow> fallback_state \<Rightarrow> saved_fallback list option" where
  "saveFallbacks masterId st = (if masterId = 0 then None else Some (save_payload st))"

section \<open>Row keys stay distinct\<close>

datatype fallback_event =
  Add | Update string fallback_patch | Remove nat | Move nat bool | Add_All | Load "saved_fallback list option"

fun fallback_step :: "int option \<Rightarrow> child_inbound list \<Rightarrow> fallback_event \<Rightarrow> fallback_state \<Rightarrow> fallback_state" where
  "fallback_step self ibs Add = addFallback"
| "fallback_step self ibs (Update k p) = updateFallback ibs k p"
| "fallback_step self ibs (Remove i) = removeFallback i"
| "fallback_step self ibs (Move i d) = moveFallback i d"
| "fallback_step self ibs Add_All = addAllFallbacks self ibs"
| "fallback_step self ibs (Load r) = loadFallbacks r"

definition keys_inv :: "fallback_state \<Rightarrow> bool" where
  "keys_inv st \<longleftrightarrow> distinct (map fb_rowKey (fs_rows st)) \<and> fb_rowKey ` set (fs_rows st) \<subseteq> next_key ` {0 ..< fs_key st}"

lemma next_key_inj: "next_key m = next_key n \<longleftrightarrow> m = n"
  by (simp add: next_key_def)

lemma upt_step: "[n ..< n + Suc m] = n # [Suc n ..< Suc n + m]"
  by (simp add: upt_conv_Cons del: upt_Suc)

lemma number_rows_keys:
  assumes "\<And>f k. f \<in> set fs \<Longrightarrow> fb_rowKey (f k) = k"
  shows "map fb_rowKey (number_rows n fs) = map next_key [n ..< n + length fs]"
  using assms
proof (induction fs arbitrary: n)
  case (Cons f fs)
  have "map fb_rowKey (number_rows (Suc n) fs) = map next_key [Suc n ..< Suc n + length fs]"
    by (rule Cons.IH) (simp add: Cons.prems)
  then show ?case using Cons.prems[of f] upt_step[of n "length fs"] by (simp del: upt_Suc)
qed simp

lemma keys_extend:
  assumes "keys_inv st" and "\<And>f k. f \<in> set fs \<Longrightarrow> fb_rowKey (f k) = k"
  shows "keys_inv \<lparr>fs_rows = fs_rows st @ number_rows (fs_key st) fs, fs_key = fs_key st + length fs\<rparr>"
proof -
  have k: "map fb_rowKey (number_rows (fs_key st) fs) = map next_key [fs_key st ..< fs_key st + length fs]"
    using assms(2) by (rule number_rows_keys)
  have s: "fb_rowKey ` set (number_rows (fs_key st) fs) = next_key ` {fs_key st ..< fs_key st + length fs}"
    using arg_cong[OF k, of set] by simp
  have d: "distinct (map next_key [a ..< b])" for a b
    by (simp add: distinct_map inj_on_def next_key_inj)
  have "next_key ` {0 ..< fs_key st} \<inter> next_key ` {fs_key st ..< fs_key st + length fs} = {}"
    by (auto simp: next_key_inj)
  moreover have "fb_rowKey ` set (fs_rows st) \<subseteq> next_key ` {0 ..< fs_key st}" using assms(1) by (simp add: keys_inv_def)
  ultimately have "fb_rowKey ` set (fs_rows st) \<inter> fb_rowKey ` set (number_rows (fs_key st) fs) = {}"
    unfolding s by blast
  then show ?thesis using assms(1) d k s by (auto simp: keys_inv_def image_Un next_key_inj)
qed

lemma update_row_key [simp]: "fb_rowKey (update_row ibs p r) = fb_rowKey r"
  by (simp add: update_row_def apply_derived_def apply_patch_def split: option.split)

lemma derived_addition_key [simp]: "fb_rowKey (derived_addition ibs c k) = k"
  by (simp add: derived_addition_def apply_derived_def split: option.split)

lemma loaded_row_key [simp]: "fb_rowKey (loaded_row r k) = k"
  by (simp add: loaded_row_def)

definition swap_at :: "nat \<Rightarrow> nat \<Rightarrow> 'a list \<Rightarrow> 'a list" where
  "swap_at i j xs = (xs[i := xs ! j])[j := xs ! i]"

lemma move_eq:
  "moveFallback idx down st =
     (if down \<and> Suc idx < length (fs_rows st) then st\<lparr>fs_rows := swap_at idx (Suc idx) (fs_rows st)\<rparr>
      else if \<not> down \<and> 0 < idx \<and> idx \<le> length (fs_rows st) then st\<lparr>fs_rows := swap_at idx (idx - 1) (fs_rows st)\<rparr>
      else st)"
  by (auto simp: moveFallback_def Let_def swap_at_def nat_diff_distrib nat_add_distrib)

lemma swap_at_mset: "i < length xs \<Longrightarrow> j < length xs \<Longrightarrow> mset (swap_at i j xs) = mset xs"
  unfolding swap_at_def by (rule mset_swap)

lemma move_mset: "idx < length (fs_rows st) \<Longrightarrow> mset (fs_rows (moveFallback idx down st)) = mset (fs_rows st)"
  by (auto simp: move_eq swap_at_mset)

lemma keys_mset:
  "mset (fs_rows st') = mset (fs_rows st) \<Longrightarrow> fs_key st' = fs_key st \<Longrightarrow> keys_inv st \<Longrightarrow> keys_inv st'"
proof -
  assume m: "mset (fs_rows st') = mset (fs_rows st)" and k: "fs_key st' = fs_key st" "keys_inv st"
  have "mset (map fb_rowKey (fs_rows st')) = mset (map fb_rowKey (fs_rows st))" using m by simp
  then have "distinct (map fb_rowKey (fs_rows st')) = distinct (map fb_rowKey (fs_rows st))" by (rule mset_eq_imp_distinct_iff)
  then show ?thesis using k mset_eq_setD[OF m] by (simp add: keys_inv_def)
qed

lemma keys_same:
  "map fb_rowKey (fs_rows st') = map fb_rowKey (fs_rows st) \<Longrightarrow> fs_key st' = fs_key st \<Longrightarrow> keys_inv st \<Longrightarrow> keys_inv st'"
  by (metis keys_inv_def list.set_map)

fun event_in_range :: "fallback_event \<Rightarrow> fallback_state \<Rightarrow> bool" where
  "event_in_range (Move i d) st \<longleftrightarrow> i < length (fs_rows st)"
| "event_in_range e st \<longleftrightarrow> True"

lemma step_keys:
  assumes "keys_inv st" and "event_in_range e st"
  shows "keys_inv (fallback_step self ibs e st)"
proof (cases e)
  case Add
  let ?f = "\<lambda>k. \<lparr>fb_rowKey = k, fb_childId = None, fb_name = [], fb_alpn = [], fb_path = [], fb_dest = [], fb_xver = 0\<rparr>"
  have "keys_inv \<lparr>fs_rows = fs_rows st @ number_rows (fs_key st) [?f], fs_key = fs_key st + length [?f]\<rparr>"
    by (rule keys_extend[OF assms(1)]) simp
  then show ?thesis using Add by (simp add: addFallback_def)
next
  case (Update k p)
  have "map fb_rowKey (map (\<lambda>r. if fb_rowKey r \<noteq> k then r else update_row ibs p r) rs) = map fb_rowKey rs" for rs
    by (induction rs) simp_all
  then show ?thesis using keys_same[of "updateFallback ibs k p st" st] assms(1) Update by (simp add: updateFallback_def)
next
  case (Remove i)
  have m: "map fb_rowKey (take i rs @ drop (Suc i) rs) = take i (map fb_rowKey rs) @ drop (Suc i) (map fb_rowKey rs)" for rs
    by (simp add: take_map drop_map)
  have d: "distinct (take i ks @ drop (Suc i) ks)" if "distinct ks" for ks :: "string list"
    using that set_take_disj_set_drop_if_distinct[of ks i "Suc i"] by simp
  have s: "set (take i rs @ drop (Suc i) rs) \<subseteq> set rs" for rs :: "fallback_row list"
    using set_take_subset[of i rs] set_drop_subset[of "Suc i" rs] by auto
  let ?rs = "take i (fs_rows st) @ drop (Suc i) (fs_rows st)"
  have "distinct (map fb_rowKey ?rs)" unfolding m using assms(1) by (intro d) (simp add: keys_inv_def)
  moreover have "fb_rowKey ` set ?rs \<subseteq> next_key ` {0 ..< fs_key st}"
    using image_mono[OF s[of "fs_rows st"], of fb_rowKey] assms(1) by (auto simp: keys_inv_def simp del: set_append)
  ultimately show ?thesis unfolding Remove by (simp add: keys_inv_def removeFallback_def)
next
  case (Move i d)
  then show ?thesis using keys_mset[OF move_mset _ assms(1)] assms(2) by (simp add: move_eq split: if_splits)
next
  case Add_All
  let ?as = "filter (\<lambda>v. Some v \<notin> fb_childId ` set (fs_rows st)) (fallbackChildOptions self ibs)"
  have "keys_inv \<lparr>fs_rows = fs_rows st @ number_rows (fs_key st) (map (derived_addition ibs) ?as),
      fs_key = fs_key st + length (map (derived_addition ibs) ?as)\<rparr>"
    by (rule keys_extend[OF assms(1)]) auto
  then have "keys_inv (addAllFallbacks self ibs st)"
    by (rule keys_same[rotated 2]) (simp_all add: addAllFallbacks_def Let_def)
  then show ?thesis using Add_All by simp
next
  case (Load r)
  have e: "keys_inv (st\<lparr>fs_rows := []\<rparr>)" by (simp add: keys_inv_def)
  show ?thesis
  proof (cases r)
    case (Some rs)
    have "keys_inv \<lparr>fs_rows = fs_rows (st\<lparr>fs_rows := []\<rparr>) @ number_rows (fs_key (st\<lparr>fs_rows := []\<rparr>)) (map loaded_row rs),
        fs_key = fs_key (st\<lparr>fs_rows := []\<rparr>) + length (map loaded_row rs)\<rparr>"
      by (rule keys_extend[OF e]) auto
    then show ?thesis using Load Some by (simp add: loadFallbacks_def)
  qed (use Load e in \<open>simp add: loadFallbacks_def\<close>)
qed

inductive fallback_run :: "int option \<Rightarrow> child_inbound list \<Rightarrow> fallback_state \<Rightarrow> bool" for self ibs where
  Fresh: "fallback_run self ibs \<lparr>fs_rows = [], fs_key = 0\<rparr>"
| Step: "fallback_run self ibs st \<Longrightarrow> event_in_range e st \<Longrightarrow> fallback_run self ibs (fallback_step self ibs e st)"

text \<open>
  In every state the handlers reach, the rows have distinct keys, so a patch reaches one row only; all
  keys were given out before, so a new row never takes the key of a row that was removed.
\<close>

theorem fallback_keys_distinct:
  assumes "fallback_run self ibs st"
  shows "distinct (map fb_rowKey (fs_rows st)) \<and> next_key (fs_key st) \<notin> fb_rowKey ` set (fs_rows st)"
proof -
  have "keys_inv st" using assms
  proof induction
    case Fresh
    show ?case by (simp add: keys_inv_def)
  next
    case (Step st e)
    then show ?case by (intro step_keys)
  qed
  then show ?thesis by (auto simp: keys_inv_def next_key_inj)
qed

theorem fallback_keys_distinct_witness:
  "distinct (map fb_rowKey (fs_rows (addFallback \<lparr>fs_rows = [], fs_key = 0\<rparr>)))"
  using fallback_keys_distinct[OF fallback_run.Step[OF fallback_run.Fresh, of Add None "[]"]] by simp

section \<open>Moving, filling and saving\<close>

lemma swap_back: "i < length xs \<Longrightarrow> j < length xs \<Longrightarrow> swap_at j i (swap_at i j xs) = xs"
  by (auto simp: swap_at_def list_eq_iff_nth_eq nth_list_update)

text \<open>
  Moving a row keeps the rows, exchanges it with its neighbour, does nothing at the ends, and moving it
  back restores the list.
\<close>

theorem move_and_back:
  assumes "idx < length (fs_rows st)"
  shows "mset (fs_rows (moveFallback idx down st)) = mset (fs_rows st)
    \<and> (if (if down then Suc idx < length (fs_rows st) else 0 < idx)
       then fs_rows (moveFallback idx down st) ! (if down then Suc idx else idx - 1) = fs_rows st ! idx
         \<and> moveFallback (if down then Suc idx else idx - 1) (\<not> down) (moveFallback idx down st) = st
       else moveFallback idx down st = st)"
proof -
  have l: "length (swap_at i j xs) = length xs" for i j and xs :: "fallback_row list" by (simp add: swap_at_def)
  have n: "i < length xs \<Longrightarrow> j < length xs \<Longrightarrow> swap_at i j xs ! j = xs ! i" for i j and xs :: "fallback_row list"
    by (simp add: swap_at_def)
  show ?thesis using assms move_mset[OF assms, of down]
    by (auto simp: move_eq l n swap_back)
qed

theorem move_and_back_witness:
  "mset (fs_rows (moveFallback 0 True (addFallback (addFallback \<lparr>fs_rows = [], fs_key = 0\<rparr>))))
    = mset (fs_rows (addFallback (addFallback \<lparr>fs_rows = [], fs_key = 0\<rparr>)))"
  using move_and_back[of 0 "addFallback (addFallback \<lparr>fs_rows = [], fs_key = 0\<rparr>)" True] by (simp add: addFallback_def)

lemma number_rows_children:
  "map fb_childId (number_rows n (map (derived_addition ibs) cs)) = map Some cs"
  by (induction cs arbitrary: n) (simp_all add: derived_addition_def apply_derived_def split: option.split)

text \<open>
  Adding all fallbacks keeps the rows there are and wires exactly the eligible inbounds that had none,
  each once, so every eligible inbound has a row and a second time adds nothing.
\<close>

theorem add_all_complete:
  assumes "distinct (map ch_id ibs)"
  shows "let st' = addAllFallbacks self ibs st; new = drop (length (fs_rows st)) (fs_rows st') in
      take (length (fs_rows st)) (fs_rows st') = fs_rows st
      \<and> map fb_childId new = map Some (filter (\<lambda>v. Some v \<notin> fb_childId ` set (fs_rows st)) (fallbackChildOptions self ibs))
      \<and> distinct (map fb_childId new)
      \<and> Some ` set (fallbackChildOptions self ibs) \<subseteq> fb_childId ` set (fs_rows st')
      \<and> addAllFallbacks self ibs st' = st'"
proof -
  let ?as = "filter (\<lambda>v. Some v \<notin> fb_childId ` set (fs_rows st)) (fallbackChildOptions self ibs)"
  let ?st = "addAllFallbacks self ibs st"
  have rows: "fs_rows ?st = fs_rows st @ number_rows (fs_key st) (map (derived_addition ibs) ?as)"
    by (simp add: addAllFallbacks_def Let_def)
  have c: "map fb_childId (number_rows (fs_key st) (map (derived_addition ibs) ?as)) = map Some ?as" by (rule number_rows_children)
  have "fb_childId ` set (number_rows (fs_key st) (map (derived_addition ibs) ?as)) = Some ` set ?as"
    using arg_cong[OF c, of set] by simp
  then have all: "Some ` set (fallbackChildOptions self ibs) \<subseteq> fb_childId ` set (fs_rows ?st)"
    unfolding rows set_append image_Un by auto
  then have none: "filter (\<lambda>v. Some v \<notin> fb_childId ` set (fs_rows ?st)) (fallbackChildOptions self ibs) = []"
    by (auto simp: filter_empty_conv)
  have "distinct (fallbackChildOptions self ibs)" using assms by (simp add: fallbackChildOptions_def distinct_map_filter)
  then have d: "distinct (map Some ?as)" by (simp add: distinct_map)
  have "addAllFallbacks self ibs ?st = ?st" by (simp add: addAllFallbacks_def[of self ibs ?st] none)
  then show ?thesis unfolding Let_def using rows c d all by simp
qed

theorem add_all_complete_witness:
  "let ibs = [\<lparr>ch_id = 4, ch_streamSettings = JNull\<rparr>] in
     Some ` set (fallbackChildOptions None ibs) \<subseteq> fb_childId ` set (fs_rows (addAllFallbacks None ibs \<lparr>fs_rows = [], fs_key = 0\<rparr>))"
  using add_all_complete[of "[\<lparr>ch_id = 4, ch_streamSettings = JNull\<rparr>]" None "\<lparr>fs_rows = [], fs_key = 0\<rparr>"] by (simp add: Let_def)

definition without_key :: "fallback_row \<Rightarrow> fallback_row" where
  "without_key r = r\<lparr>fb_rowKey := []\<rparr>"

lemma loaded_saved:
  "\<forall>r\<in>set rs. \<forall>c. fb_childId r = Some c \<longrightarrow> 0 < c \<Longrightarrow>
   map without_key (number_rows n (map loaded_row (map (\<lambda>(i, r). saved_row i r) (zip [m ..< m + length rs] rs)))) = map without_key rs"
proof (induction rs arbitrary: n m)
  case (Cons r rs)
  have u: "[m ..< m + length (r # rs)] = m # [Suc m ..< Suc m + length rs]" using upt_step[of m "length rs"] by simp
  have r: "without_key (loaded_row (saved_row m r) k) = without_key r" for k
    using Cons.prems by (simp add: without_key_def loaded_row_def saved_row_def split: option.split)
  have "map without_key (number_rows (Suc n) (map loaded_row (map (\<lambda>(i, r). saved_row i r) (zip [Suc m ..< Suc m + length rs] rs))))
      = map without_key rs" by (rule Cons.IH) (use Cons.prems in simp)
  then show ?case unfolding u using r by (simp del: upt_Suc)
qed simp

text \<open>
  C33
  Saving and loading again gives the rows that have a child or a destination, in their order and with
  every field; the saved positions count up from 0.
\<close>

theorem fallbacks_survive_save:
  assumes "\<forall>r\<in>set (fs_rows st). \<forall>c. fb_childId r = Some c \<longrightarrow> 0 < c"
  shows "map without_key (fs_rows (loadFallbacks (Some (save_payload st)) st')) = map without_key (filter is_sent (fs_rows st))
    \<and> map sf_sortOrder (save_payload st) = [0 ..< length (save_payload st)]"
proof -
  let ?rs = "filter is_sent (fs_rows st)"
  have "map without_key (number_rows (fs_key st') (map loaded_row (map (\<lambda>(i, r). saved_row i r) (zip [0 ..< 0 + length ?rs] ?rs))))
      = map without_key ?rs" by (rule loaded_saved) (use assms in auto)
  moreover have "map sf_sortOrder (map (\<lambda>(i, r). saved_row i r) (zip is1 rs)) = is1" if "length is1 = length rs" for is1 rs
    using that by (induction is1 rs rule: list_induct2) (simp_all add: saved_row_def)
  ultimately show ?thesis by (simp add: loadFallbacks_def save_payload_def Let_def)
qed

theorem fallbacks_survive_save_witness:
  "map sf_sortOrder (save_payload (addAllFallbacks None [\<lparr>ch_id = 4, ch_streamSettings = JNull\<rparr>] \<lparr>fs_rows = [], fs_key = 0\<rparr>)) = [0]"
proof -
  let ?st = "addAllFallbacks None [\<lparr>ch_id = 4, ch_streamSettings = JNull\<rparr>] \<lparr>fs_rows = [], fs_key = 0\<rparr>"
  have r: "list_all (\<lambda>r. case fb_childId r of None \<Rightarrow> True | Some c \<Rightarrow> 0 < c) (fs_rows ?st)"
    and l: "length (save_payload ?st) = 1" by code_simp+
  have "\<forall>r\<in>set (fs_rows ?st). \<forall>c. fb_childId r = Some c \<longrightarrow> 0 < c"
    using r by (fastforce simp: list_all_iff)
  from fallbacks_survive_save[OF this] show ?thesis unfolding l by simp
qed

end
