(* ===== verification/Protocol_Defaults.thy ===== *)
theory Protocol_Defaults
  imports Inbound_Tag Outbound_Adapter Capabilities Random_Util
begin

text \<open>
  The starting values of the forms: clients and settings of an inbound
  (\<open>lib/xray/inbound-defaults.ts\<close>), its TLS block (\<open>inbound-tls-defaults.ts\<close>), settings of an outbound
  (\<open>lib/xray/outbound-defaults.ts\<close>), the change of network in the outbound form
  (\<open>pages/xray/outbounds/outbound-form-helpers.ts\<close>), and the MTProto secret with its server counterpart
  (\<open>internal/database/model/model.go\<close>). What is drawn at random is an argument. The empty TLS block of the
  zod schema is a parameter.
\<close>

section \<open>Clients\<close>

text \<open>The drawn words of a client: email, subscription id, UUID, password, and the key bytes.\<close>

record draws =
  dw_email :: "32 word list"
  dw_subId :: "32 word list"
  dw_uuid :: string
  dw_password :: "32 word list"
  dw_key :: "nat \<Rightarrow> 8 word"

text \<open>A seed: the fields given, as an object; \<open>seeded\<close> is \<open>seed.k ?? d\<close>.\<close>

definition seeded :: "jobj \<Rightarrow> string \<Rightarrow> js \<Rightarrow> js" where
  "seeded seed k d = coalesce (oget seed k) d"

definition clientBase :: "draws \<Rightarrow> jobj \<Rightarrow> jobj" where
  "clientBase dw seed =
     [(''email'', seeded seed ''email'' (JStr (randomLowerAndNum (dw_email dw)))),
      (''limitIp'', seeded seed ''limitIp'' (JNum (Fin 0))), (''totalGB'', seeded seed ''totalGB'' (JNum (Fin 0))),
      (''expiryTime'', seeded seed ''expiryTime'' (JNum (Fin 0))), (''enable'', seeded seed ''enable'' (JBool True)),
      (''tgId'', seeded seed ''tgId'' (JNum (Fin 0))), (''subId'', seeded seed ''subId'' (JStr (randomLowerAndNum (dw_subId dw)))),
      (''comment'', seeded seed ''comment'' (JStr [])), (''reset'', seeded seed ''reset'' (JNum (Fin 0)))]"

definition createDefaultVlessClient :: "draws \<Rightarrow> jobj \<Rightarrow> jobj" where
  "createDefaultVlessClient dw seed =
     [(''id'', seeded seed ''id'' (JStr (dw_uuid dw))), (''flow'', seeded seed ''flow'' (JStr []))] @ clientBase dw seed"

definition createDefaultVmessClient :: "draws \<Rightarrow> jobj \<Rightarrow> jobj" where
  "createDefaultVmessClient dw seed =
     [(''id'', seeded seed ''id'' (JStr (dw_uuid dw))), (''security'', seeded seed ''security'' (JStr ''auto'')),
      (''alterId'', JNum (Fin 0))] @ clientBase dw seed"

definition createDefaultTrojanClient :: "draws \<Rightarrow> jobj \<Rightarrow> jobj" where
  "createDefaultTrojanClient dw seed =
     [(''password'', seeded seed ''password'' (JStr (randomSeq (dw_password dw) default_seq)))] @ clientBase dw seed"

definition createDefaultShadowsocksClient :: "draws \<Rightarrow> jobj \<Rightarrow> jobj" where
  "createDefaultShadowsocksClient dw seed =
     [(''method'', seeded seed ''method'' (JStr [])),
      (''password'', seeded seed ''password''
         (JStr (randomShadowsocksPassword (dw_key dw) (asString (oget seed ''ssMethod'') ''2022-blake3-aes-256-gcm''))))]
     @ clientBase dw seed"

definition createDefaultHysteriaClient :: "draws \<Rightarrow> jobj \<Rightarrow> jobj" where
  "createDefaultHysteriaClient dw seed =
     [(''auth'', seeded seed ''auth'' (JStr (randomSeq (dw_password dw) default_seq)))] @ clientBase dw seed"

section \<open>The MTProto secret\<close>

definition hex_lower :: "nat \<Rightarrow> char" where
  "hex_lower n = ''0123456789abcdef'' ! (n mod 16)"

definition domainToHex :: "string \<Rightarrow> string" where
  "domainToHex domain = concat (map (\<lambda>c. [hex_lower (byte c div 16), hex_lower (byte c)]) domain)"

definition generateMtprotoSecret :: "32 word list \<Rightarrow> string \<Rightarrow> string" where
  "generateMtprotoSecret drawn domain = ''ee'' @ randomSeq drawn hex_seq @ domainToHex domain"

definition secret_body :: "string \<Rightarrow> string" where
  "secret_body s = (if take 2 s = ''ee'' \<or> take 2 s = ''dd'' then drop 2 s else s)"

definition is_hex_char :: "char \<Rightarrow> bool" where
  "is_hex_char c \<longleftrightarrow> is_digit c \<or> (97 \<le> byte c \<and> byte c \<le> 102) \<or> (65 \<le> byte c \<and> byte c \<le> 70)"

definition mtprotoSecretForDomain :: "32 word list \<Rightarrow> string \<Rightarrow> string \<Rightarrow> string" where
  "mtprotoSecretForDomain drawn currentSecret domain =
     (let body = secret_body currentSecret;
          middle = (if length (take 32 body) = 32 \<and> list_all is_hex_char (take 32 body) then take 32 body
                    else randomSeq drawn hex_seq)
      in ''ee'' @ middle @ domainToHex domain)"

text \<open>
  The server: \<open>rnd\<close> is the middle it would draw, \<open>secret\<close> the stored secret, \<open>domain\<close> the stored
  domain, of which the server takes off the blanks; \<open>None\<close> leaves the settings as they are.
\<close>

definition hex_decodes :: "string \<Rightarrow> bool" where
  "hex_decodes s \<longleftrightarrow> even (length s) \<and> list_all (\<lambda>c. radix_digit 16 c \<noteq> None) s"

definition mtprotoSecretMiddle :: "string \<Rightarrow> string \<Rightarrow> string" where
  "mtprotoSecretMiddle rnd secret =
     (let s = (if take 2 secret = ''ee'' \<or> take 2 secret = ''dd'' then drop 2 secret else secret) in
      if length s \<ge> 32 \<and> hex_decodes (take 32 s) then take 32 s else rnd)"

definition healed_secret :: "string \<Rightarrow> string \<Rightarrow> string \<Rightarrow> string option" where
  "healed_secret rnd domain secret =
     (let domain = go_trim domain in
      if domain = [] then None
      else let expected = ''ee'' @ mtprotoSecretMiddle rnd secret @ domainToHex domain
           in if secret = expected then None else Some expected)"

section \<open>Inbound settings\<close>

definition createDefaultVlessInboundSettings :: jobj where
  "createDefaultVlessInboundSettings =
     [(''clients'', JArr []), (''decryption'', JStr ''none''), (''encryption'', JStr ''none''), (''fallbacks'', JArr [])]"

definition createDefaultVmessInboundSettings :: jobj where
  "createDefaultVmessInboundSettings = [(''clients'', JArr [])]"

definition createDefaultTrojanInboundSettings :: jobj where
  "createDefaultTrojanInboundSettings = [(''clients'', JArr []), (''fallbacks'', JArr [])]"

definition createDefaultShadowsocksInboundSettings :: "(nat \<Rightarrow> 8 word) \<Rightarrow> jobj \<Rightarrow> jobj" where
  "createDefaultShadowsocksInboundSettings key seed =
     (let method = asString (oget seed ''method'') ''2022-blake3-aes-256-gcm'' in
      [(''method'', JStr method), (''password'', seeded seed ''password'' (JStr (randomShadowsocksPassword key method))),
       (''network'', seeded seed ''network'' (JStr ''tcp,udp'')), (''clients'', JArr []),
       (''ivCheck'', seeded seed ''ivCheck'' (JBool False))])"

definition createDefaultHysteriaInboundSettings :: "jobj \<Rightarrow> jobj" where
  "createDefaultHysteriaInboundSettings seed = [(''version'', seeded seed ''version'' (JNum (Fin 2))), (''clients'', JArr [])]"

definition drawn_account :: "32 word list \<Rightarrow> 32 word list \<Rightarrow> js" where
  "drawn_account user pass =
     JArr [JObj [(''user'', JStr (randomLowerAndNum user)), (''pass'', JStr (randomLowerAndNum pass))]]"

definition createDefaultHttpInboundSettings :: "32 word list \<Rightarrow> 32 word list \<Rightarrow> jobj" where
  "createDefaultHttpInboundSettings user pass = [(''accounts'', drawn_account user pass), (''allowTransparent'', JBool False)]"

definition createDefaultMixedInboundSettings :: "32 word list \<Rightarrow> 32 word list \<Rightarrow> jobj" where
  "createDefaultMixedInboundSettings user pass =
     [(''auth'', JStr ''password''), (''accounts'', drawn_account user pass), (''udp'', JBool False), (''ip'', JStr ''127.0.0.1'')]"

definition createDefaultMtprotoInboundSettings :: "32 word list \<Rightarrow> jobj" where
  "createDefaultMtprotoInboundSettings drawn =
     [(''fakeTlsDomain'', JStr ''www.cloudflare.com''), (''secret'', JStr (generateMtprotoSecret drawn ''www.cloudflare.com''))]"

definition createDefaultTunnelInboundSettings :: jobj where
  "createDefaultTunnelInboundSettings =
     [(''portMap'', JObj []), (''allowedNetwork'', JStr ''tcp,udp''), (''followRedirect'', JBool False)]"

definition createDefaultTunInboundSettings :: jobj where
  "createDefaultTunInboundSettings =
     [(''name'', JStr ''xray0''), (''mtu'', JNum (Fin 1500)), (''gateway'', JArr []), (''dns'', JArr []),
      (''userLevel'', JNum (Fin 0)), (''autoSystemRoutingTable'', JArr []), (''autoOutboundsInterface'', JStr ''auto'')]"

text \<open>
  \<open>drawnPeer\<close> and \<open>drawnSecret\<close> are the bytes of the two key pairs; a seed may give the keys as texts.
  \<open>None\<close> is the exception of a seed key that is no base64.
\<close>

definition createDefaultWireguardInboundSettings ::
  "int list \<Rightarrow> int list \<Rightarrow> js \<Rightarrow> string option \<Rightarrow> bool \<Rightarrow> string \<Rightarrow> jobj option" where
  "createDefaultWireguardInboundSettings drawnPeer drawnSecret mtu secretKey noKernelTun peerPrivateKey =
     Option.bind (generateKeypair drawnPeer peerPrivateKey) (\<lambda>(peerPublic, peerPrivate).
       map_option (\<lambda>secret.
         [(''mtu'', coalesce mtu (JNum (Fin 1420))), (''secretKey'', JStr secret),
          (''peers'', JArr [JObj [(''privateKey'', JStr peerPrivate), (''publicKey'', JStr peerPublic),
             (''allowedIPs'', JArr [JStr ''10.0.0.2/32'']), (''keepAlive'', JNum (Fin 0))]]),
          (''noKernelTun'', JBool noKernelTun)])
        (case secretKey of Some s \<Rightarrow> Some s | None \<Rightarrow> map_option snd (generateKeypair drawnSecret [])))"

text \<open>The dispatch; the outer option is an unknown protocol, whose settings are \<open>null\<close>.\<close>

definition createDefaultInboundSettings ::
  "draws \<Rightarrow> int list \<Rightarrow> int list \<Rightarrow> string \<Rightarrow> jobj option" where
  "createDefaultInboundSettings dw drawnPeer drawnSecret protocol =
     (if protocol = ''vless'' then Some createDefaultVlessInboundSettings
      else if protocol = ''vmess'' then Some createDefaultVmessInboundSettings
      else if protocol = ''trojan'' then Some createDefaultTrojanInboundSettings
      else if protocol = ''shadowsocks'' then Some (createDefaultShadowsocksInboundSettings (dw_key dw) [])
      else if protocol = ''hysteria'' then Some (createDefaultHysteriaInboundSettings [])
      else if protocol = ''http'' then Some (createDefaultHttpInboundSettings (dw_email dw) (dw_password dw))
      else if protocol = ''mixed'' then Some (createDefaultMixedInboundSettings (dw_email dw) (dw_password dw))
      else if protocol = ''tunnel'' then Some createDefaultTunnelInboundSettings
      else if protocol = ''tun'' then Some createDefaultTunInboundSettings
      else if protocol = ''wireguard'' then createDefaultWireguardInboundSettings drawnPeer drawnSecret JUndef None False []
      else if protocol = ''mtproto'' then Some (createDefaultMtprotoInboundSettings (dw_password dw))
      else None)"

section \<open>TLS\<close>

definition defaultCertificate :: jobj where
  "defaultCertificate =
     [(''useFile'', JBool True), (''certificateFile'', JStr []), (''keyFile'', JStr []), (''certificate'', JArr []),
      (''key'', JArr []), (''ocspStapling'', JNum (Fin 3600)), (''oneTimeLoading'', JBool False),
      (''usage'', JStr ''encipherment''), (''buildChain'', JBool False)]"

text \<open>\<open>empty_tls\<close> is what the schema makes of the empty object.\<close>

definition createTlsSettingsWithDefaultCert :: "jobj \<Rightarrow> jobj" where
  "createTlsSettingsWithDefaultCert empty_tls = oput ''certificates'' (JArr [JObj defaultCertificate]) empty_tls"

definition createHysteriaTlsSettingsWithDefaultCert :: "jobj \<Rightarrow> jobj" where
  "createHysteriaTlsSettingsWithDefaultCert empty_tls =
     (let tls = oput ''alpn'' (JArr [JStr ''h3'']) (createTlsSettingsWithDefaultCert empty_tls);
          settings = (case oget tls ''settings'' of JObj o1 \<Rightarrow> o1 | _ \<Rightarrow> [])
      in oput ''settings'' (JObj (oput ''fingerprint'' (JStr []) settings)) tls)"

section \<open>Outbound settings\<close>

definition server_list :: "jobj \<Rightarrow> jobj" where
  "server_list server = [(''servers'', JArr [JObj server])]"

definition createDefaultFreedomOutboundSettings :: jobj where "createDefaultFreedomOutboundSettings = []"
definition createDefaultBlackholeOutboundSettings :: jobj where "createDefaultBlackholeOutboundSettings = []"
definition createDefaultLoopbackOutboundSettings :: jobj where
  "createDefaultLoopbackOutboundSettings = [(''inboundTag'', JStr [])]"
definition createDefaultDNSOutboundSettings :: jobj where
  "createDefaultDNSOutboundSettings =
     [(''rewriteNetwork'', JStr []), (''rewriteAddress'', JStr []), (''rewritePort'', JNum (Fin 53)),
      (''userLevel'', JNum (Fin 0)), (''rules'', JArr [])]"
definition createDefaultVmessOutboundSettings :: jobj where
  "createDefaultVmessOutboundSettings =
     [(''vnext'', JArr [JObj [(''address'', JStr []), (''port'', JNum (Fin 443)),
        (''users'', JArr [JObj [(''id'', JStr []), (''security'', JStr ''auto'')]])]])]"
definition createDefaultVlessOutboundSettings :: jobj where
  "createDefaultVlessOutboundSettings =
     [(''address'', JStr []), (''port'', JNum (Fin 443)), (''id'', JStr []), (''flow'', JStr []), (''encryption'', JStr ''none'')]"
definition createDefaultTrojanOutboundSettings :: jobj where
  "createDefaultTrojanOutboundSettings =
     server_list [(''address'', JStr []), (''port'', JNum (Fin 443)), (''password'', JStr [])]"
definition createDefaultShadowsocksOutboundSettings :: jobj where
  "createDefaultShadowsocksOutboundSettings =
     server_list [(''address'', JStr []), (''port'', JNum (Fin 443)), (''password'', JStr []),
       (''method'', JStr ''2022-blake3-aes-128-gcm'')]"
definition createDefaultSocksOutboundSettings :: jobj where
  "createDefaultSocksOutboundSettings = server_list [(''address'', JStr []), (''port'', JNum (Fin 1080)), (''users'', JArr [])]"
definition createDefaultHttpOutboundSettings :: jobj where
  "createDefaultHttpOutboundSettings = server_list [(''address'', JStr []), (''port'', JNum (Fin 8080)), (''users'', JArr [])]"
definition createDefaultWireguardOutboundSettings :: "string \<Rightarrow> jobj" where
  "createDefaultWireguardOutboundSettings secretKey =
     [(''mtu'', JNum (Fin 1420)), (''secretKey'', JStr secretKey), (''address'', JArr []), (''workers'', JNum (Fin 2)),
      (''peers'', JArr [JObj [(''publicKey'', JStr []), (''allowedIPs'', JArr [JStr ''0.0.0.0/0'', JStr ''::/0'']),
         (''endpoint'', JStr [])]]), (''noKernelTun'', JBool False)]"
definition createDefaultHysteriaOutboundSettings :: jobj where
  "createDefaultHysteriaOutboundSettings = [(''address'', JStr []), (''port'', JNum (Fin 443)), (''version'', JNum (Fin 2))]"

text \<open>The secret key of WireGuard is the drawn one.\<close>

definition createDefaultOutboundSettings :: "string \<Rightarrow> string \<Rightarrow> jobj option" where
  "createDefaultOutboundSettings drawnKey protocol =
     (if protocol = ''freedom'' then Some createDefaultFreedomOutboundSettings
      else if protocol = ''blackhole'' then Some createDefaultBlackholeOutboundSettings
      else if protocol = ''dns'' then Some createDefaultDNSOutboundSettings
      else if protocol = ''vmess'' then Some createDefaultVmessOutboundSettings
      else if protocol = ''vless'' then Some createDefaultVlessOutboundSettings
      else if protocol = ''trojan'' then Some createDefaultTrojanOutboundSettings
      else if protocol = ''shadowsocks'' then Some createDefaultShadowsocksOutboundSettings
      else if protocol = ''socks'' then Some createDefaultSocksOutboundSettings
      else if protocol = ''http'' then Some createDefaultHttpOutboundSettings
      else if protocol = ''wireguard'' then Some (createDefaultWireguardOutboundSettings drawnKey)
      else if protocol = ''hysteria'' then Some createDefaultHysteriaOutboundSettings
      else if protocol = ''loopback'' then Some createDefaultLoopbackOutboundSettings
      else None)"

section \<open>The network of an outbound\<close>

text \<open>The copy of the gate the form shows the mux section by.\<close>

definition isMuxAllowed :: "string \<Rightarrow> string \<Rightarrow> string \<Rightarrow> bool" where
  "isMuxAllowed protocol flow network =
     (if protocol \<notin> set [''vmess'', ''vless'', ''trojan'', ''shadowsocks'', ''http'', ''socks''] then False
      else if protocol = ''vless'' \<and> flow \<noteq> [] then False
      else if network = ''xhttp'' then False else True)"

definition tcp_slice :: jobj where
  "tcp_slice = [(''network'', JStr ''tcp''), (''tcpSettings'', JObj [(''header'', JObj [(''type'', JStr ''none'')])])]"

definition newStreamSlice :: "string \<Rightarrow> jobj" where
  "newStreamSlice network =
     (if network = ''tcp'' then tcp_slice
      else if network = ''kcp'' then
        [(''network'', JStr ''kcp''), (''kcpSettings'', JObj [(''mtu'', JNum (Fin 1350)), (''tti'', JNum (Fin 20)),
           (''uplinkCapacity'', JNum (Fin 5)), (''downlinkCapacity'', JNum (Fin 20)), (''cwndMultiplier'', JNum (Fin 1)),
           (''maxSendingWindow'', JNum (Fin 2097152))])]
      else if network = ''ws'' then
        [(''network'', JStr ''ws''), (''wsSettings'', JObj [(''path'', JStr ''/''), (''host'', JStr []), (''headers'', JObj []),
           (''heartbeatPeriod'', JNum (Fin 0))])]
      else if network = ''grpc'' then
        [(''network'', JStr ''grpc''), (''grpcSettings'', JObj [(''serviceName'', JStr []), (''authority'', JStr []),
           (''multiMode'', JBool False)])]
      else if network = ''httpupgrade'' then
        [(''network'', JStr ''httpupgrade''), (''httpupgradeSettings'', JObj [(''path'', JStr ''/''), (''host'', JStr []),
           (''headers'', JObj [])])]
      else if network = ''xhttp'' then
        [(''network'', JStr ''xhttp''), (''xhttpSettings'', JObj [(''path'', JStr ''/''), (''host'', JStr []), (''mode'', JStr []),
           (''headers'', JArr []), (''xPaddingBytes'', JStr ''100-1000'')])]
      else if network = ''hysteria'' then
        [(''network'', JStr ''hysteria''), (''hysteriaSettings'', JObj [(''version'', JNum (Fin 2)), (''auth'', JStr []),
           (''udpIdleTimeout'', JNum (Fin 60))])]
      else tcp_slice)"

definition hysteriaStreamSlice :: jobj where
  "hysteriaStreamSlice =
     newStreamSlice ''hysteria'' @
       [(''security'', JStr ''tls''),
        (''tlsSettings'', JObj [(''serverName'', JStr []), (''alpn'', JArr [JStr ''h3'']), (''fingerprint'', JStr []),
           (''echConfigList'', JStr []), (''verifyPeerCertByName'', JStr []), (''pinnedPeerCertSha256'', JStr [])])]"

definition stream_slice :: "string \<Rightarrow> string \<Rightarrow> string \<Rightarrow> cap_slice" where
  "stream_slice protocol network security =
     \<lparr>cap_protocol = protocol, cap_settings = None, cap_stream = Some \<lparr>ct_network = Some network, ct_security = Some security\<rparr>\<rparr>"

text \<open>The security of the stream is a string, \<open>none\<close> when absent.\<close>

definition applyNetworkChange :: "string \<Rightarrow> jobj option \<Rightarrow> string \<Rightarrow> jobj" where
  "applyNetworkChange protocol prevStream nxt =
     (if nxt = ''hysteria'' then hysteriaStreamSlice
      else
        let stream = (case prevStream of None \<Rightarrow> [] | Some s \<Rightarrow> s);
            currentSecurity = asString (oget stream ''security'') ''none'';
            stillTls = canEnableTls (stream_slice protocol nxt currentSecurity);
            stillReality = canEnableReality (stream_slice protocol nxt currentSecurity);
            newSecurity = (if currentSecurity = ''tls'' \<and> \<not> stillTls then ''none''
                           else if currentSecurity = ''reality'' \<and> \<not> stillReality then ''none'' else currentSecurity);
            newStream = newStreamSlice nxt @ [(''security'', JStr newSecurity)]
        in if newSecurity = ''tls'' \<and> truthy (oget stream ''tlsSettings'')
           then newStream @ [(''tlsSettings'', oget stream ''tlsSettings'')]
           else if newSecurity = ''reality'' \<and> truthy (oget stream ''realitySettings'')
           then newStream @ [(''realitySettings'', oget stream ''realitySettings'')]
           else newStream)"

definition buildAddModeValues :: "outbound_form option" where
  "buildAddModeValues = rawOutboundToFormValues []"

section \<open>The MTProto secret and the server\<close>

lemma hex_char_radix: "is_hex_char c \<longleftrightarrow> radix_digit 16 c \<noteq> None"
  by (auto simp: is_hex_char_def radix_digit_def is_digit_def Let_def split: if_splits)

definition good_middle :: "string \<Rightarrow> bool" where
  "good_middle m \<longleftrightarrow> length m = 32 \<and> list_all is_hex_char m"

lemma drawn_middle: "length drawn = 32 \<Longrightarrow> good_middle (randomSeq drawn hex_seq)"
proof -
  assume l: "length drawn = 32"
  have "getSeq hex_seq = ''0123456789abcdef''" by (simp add: getSeq_def hex_seq_def)
  moreover have "list_all is_hex_char ''0123456789abcdef''" by code_simp
  ultimately show ?thesis
    using l randomSeq_letters[of _ drawn hex_seq] by (fastforce simp: good_middle_def randomSeq_length list_all_iff)
qed

definition middle_of :: "string \<Rightarrow> string option" where
  "middle_of s = (let m = take 32 (secret_body s) in if good_middle m then Some m else None)"

lemma client_secret:
  "mtprotoSecretForDomain drawn cur d = ''ee'' @ (case middle_of cur of Some m \<Rightarrow> m | None \<Rightarrow> randomSeq drawn hex_seq) @ domainToHex d"
  by (simp add: mtprotoSecretForDomain_def middle_of_def good_middle_def Let_def)

lemma server_middle: "mtprotoSecretMiddle rnd s = (case middle_of s of Some m \<Rightarrow> m | None \<Rightarrow> rnd)"
proof -
  have h: "good_middle (take 32 b) \<longleftrightarrow> length b \<ge> 32 \<and> hex_decodes (take 32 b)" for b
    by (auto simp: good_middle_def hex_decodes_def hex_char_radix list_all_iff)
  have "mtprotoSecretMiddle rnd s = (if length (secret_body s) \<ge> 32 \<and> hex_decodes (take 32 (secret_body s)) then take 32 (secret_body s) else rnd)"
    unfolding mtprotoSecretMiddle_def secret_body_def Let_def ..
  then show ?thesis by (simp add: middle_of_def Let_def h)
qed

lemma middle_of_secret: "good_middle m \<Longrightarrow> middle_of (''ee'' @ m @ r) = Some m"
  by (simp add: middle_of_def secret_body_def good_middle_def)

text \<open>A domain without blanks around it, under any reading of what a blank is.\<close>

definition visible :: "char \<Rightarrow> bool" where
  "visible c \<longleftrightarrow> 32 < byte c \<and> byte c < 127"

definition visible_edges :: "string \<Rightarrow> bool" where
  "visible_edges d \<longleftrightarrow> d \<noteq> [] \<and> visible (hd d) \<and> visible (last d)"

lemma visible_no_blank: "visible c \<Longrightarrow> c \<notin> set ascii_ws"
  by (auto simp: visible_def ascii_ws_def byte_def)

lemma visible_trim: "visible_edges d \<Longrightarrow> go_trim d = d"
proof -
  assume v: "visible_edges d"
  then obtain c e where d: "d = c # e" by (cases d) (auto simp: visible_edges_def)
  have "dropWhile (\<lambda>c. c \<in> set ascii_ws) d = d"
    using v visible_no_blank[of c] by (simp add: d visible_edges_def)
  moreover have "dropWhile (\<lambda>c. c \<in> set ascii_ws) (rev d) = rev d"
    using v visible_no_blank[of "last d"] by (cases d rule: rev_cases) (auto simp: visible_edges_def)
  ultimately show ?thesis by (simp add: go_trim_def)
qed

text \<open>
  C32
  The secret the form builds for a domain without blanks around it is the one the server settles on: the server
  leaves it alone, and where the stored secret has a valid middle, form and server build the same secret from it.
  Editing the domain again keeps the middle.
\<close>

theorem mtproto_secret_settled:
  assumes "length drawn = 32" and "visible_edges d"
  shows "healed_secret rnd d (mtprotoSecretForDomain drawn cur d) = None
    \<and> mtprotoSecretForDomain drawn' (mtprotoSecretForDomain drawn cur d) d' = mtprotoSecretForDomain drawn cur d'
    \<and> (if middle_of cur = None then True
       else healed_secret rnd d cur = (if cur = mtprotoSecretForDomain drawn cur d then None
                                       else Some (mtprotoSecretForDomain drawn cur d)))"
proof -
  let ?m = "case middle_of cur of Some m \<Rightarrow> m | None \<Rightarrow> randomSeq drawn hex_seq"
  have d: "go_trim d = d" "d \<noteq> []" using assms(2) visible_trim by (simp_all add: visible_edges_def)
  have g: "good_middle ?m" using drawn_middle[OF assms(1)] by (auto simp: middle_of_def Let_def split: option.splits if_splits)
  have s: "mtprotoSecretForDomain drawn cur e = ''ee'' @ ?m @ domainToHex e" for e by (rule client_secret)
  have m: "middle_of (mtprotoSecretForDomain drawn cur e) = Some ?m" for e unfolding s by (rule middle_of_secret[OF g])
  have "healed_secret rnd d (mtprotoSecretForDomain drawn cur d) = None"
    by (simp add: healed_secret_def d server_middle m s[symmetric] Let_def) (simp add: s)
  moreover have "mtprotoSecretForDomain drawn' (mtprotoSecretForDomain drawn cur d) d' = mtprotoSecretForDomain drawn cur d'"
    by (simp add: client_secret[of drawn'] m) (simp add: s)
  moreover have "healed_secret rnd d cur = (if cur = mtprotoSecretForDomain drawn cur d then None else Some (mtprotoSecretForDomain drawn cur d))"
    if "middle_of cur \<noteq> None"
    using that by (auto simp: healed_secret_def d server_middle s Let_def)
  ultimately show ?thesis by simp
qed

theorem mtproto_secret_settled_witness:
  "healed_secret [] ''a.b'' (mtprotoSecretForDomain (replicate 32 7) ''eexyz'' ''a.b'') = None"
proof -
  have "visible_edges ''a.b''" by code_simp
  from mtproto_secret_settled[of "replicate 32 7", OF _ this, of "[]" "''eexyz''"] show ?thesis by simp
qed

text \<open>
  The form takes the domain as it is typed, the server without the blanks around it: the secret shown for such a
  domain is not the one the server stores.
\<close>

lemma blanks_change_length: "go_trim d = d \<or> length (go_trim d) < length d"
proof -
  let ?P = "\<lambda>c. c \<in> set ascii_ws"
  have d: "dropWhile ?P xs = xs \<or> length (dropWhile ?P xs) < length xs" for xs :: string
    by (induction xs) (auto simp: less_Suc_eq_le length_dropWhile_le)
  show ?thesis using d[of d] d[of "rev (dropWhile ?P d)"] by (auto simp: go_trim_def Let_def)
qed

lemma blank_domain_rewritten:
  assumes "length drawn = 32" and "go_trim d \<noteq> []" and "go_trim d \<noteq> d"
  shows "healed_secret rnd d (mtprotoSecretForDomain drawn cur d) = Some (mtprotoSecretForDomain drawn cur (go_trim d))"
proof -
  let ?m = "case middle_of cur of Some m \<Rightarrow> m | None \<Rightarrow> randomSeq drawn hex_seq"
  have g: "good_middle ?m" using drawn_middle[OF assms(1)] by (auto simp: middle_of_def Let_def split: option.splits if_splits)
  have s: "mtprotoSecretForDomain drawn cur e = ''ee'' @ ?m @ domainToHex e" for e by (rule client_secret)
  have m: "middle_of (mtprotoSecretForDomain drawn cur e) = Some ?m" for e unfolding s by (rule middle_of_secret[OF g])
  have l: "length (domainToHex e) = 2 * length e" for e by (induction e) (simp_all add: domainToHex_def)
  have "domainToHex d \<noteq> domainToHex (go_trim d)"
    using blanks_change_length[of d] assms(3) l by (metis less_irrefl nat_mult_eq_cancel1 zero_less_numeral)
  then show ?thesis using assms(2) by (simp add: healed_secret_def server_middle m Let_def) (simp add: s)
qed

section \<open>Changing the network keeps the form consistent\<close>

definition known_networks :: "string list" where
  "known_networks = [''tcp'', ''kcp'', ''ws'', ''grpc'', ''httpupgrade'', ''xhttp'']"

lemma slice_fields:
  "oget (newStreamSlice n) ''security'' = JUndef" "oget (newStreamSlice n) ''tlsSettings'' = JUndef"
  "oget (newStreamSlice n) ''realitySettings'' = JUndef"
  "n \<in> set known_networks \<Longrightarrow> oget (newStreamSlice n) ''network'' = JStr n"
  by (simp_all add: newStreamSlice_def tcp_slice_def known_networks_def) auto

lemma oget_append: "oget (a @ b) k = (if ohas a k then oget a k else oget b k)"
  by (simp add: oget_def ohas_map_of map_of_append map_add_def split: option.split)

lemma slice_has:
  "\<not> ohas (newStreamSlice n) ''security''" "\<not> ohas (newStreamSlice n) ''tlsSettings''" "\<not> ohas (newStreamSlice n) ''realitySettings''"
  "ohas (newStreamSlice n) ''network''"
  by (simp_all add: newStreamSlice_def tcp_slice_def ohas_def)

text \<open>
  After a change of network the stream names the new network, its security is one that network supports,
  and a security it still supports is kept with its settings; one it does not is dropped with them.
\<close>

theorem network_change_consistent:
  assumes "nxt \<in> set known_networks" and "asString (oget st ''security'') ''none'' \<in> set [''none'', ''tls'', ''reality'']"
  shows "let o1 = applyNetworkChange p (Some st) nxt; old = asString (oget st ''security'') ''none'';
             sl = stream_slice p nxt old;
             keeps = (old = ''tls'' \<and> canEnableTls sl \<or> old = ''reality'' \<and> canEnableReality sl)
         in oget o1 ''network'' = JStr nxt
           \<and> oget o1 ''security'' = JStr (if keeps then old else ''none'')
           \<and> oget o1 ''tlsSettings'' = (if keeps \<and> old = ''tls'' \<and> truthy (oget st ''tlsSettings'') then oget st ''tlsSettings'' else JUndef)
           \<and> oget o1 ''realitySettings'' = (if keeps \<and> old = ''reality'' \<and> truthy (oget st ''realitySettings'')
                then oget st ''realitySettings'' else JUndef)"
proof -
  have "nxt \<noteq> ''hysteria''" using assms(1) by (auto simp: known_networks_def)
  then show ?thesis
    using assms(2) slice_fields(4)[OF assms(1)]
    by (auto simp: applyNetworkChange_def Let_def oget_append slice_has)
qed

theorem network_change_consistent_witness:
  "oget (applyNetworkChange ''vless'' (Some [(''security'', JStr ''reality'')]) ''ws'') ''security'' = JStr ''none''"
  using network_change_consistent[of "''ws''" "[(''security'', JStr ''reality'')]" "''vless''"]
  by (simp add: Let_def known_networks_def asString_def stream_slice_def canEnableReality_def REALITY_NETWORKS_def
      stream_network_def or_empty_def)

text \<open>
  The gate by which the form shows the mux section is the gate by which the payload carries it.
\<close>

theorem mux_gates_agree:
  "muxAllowed v \<longleftrightarrow> isMuxAllowed (of_protocol (of_settings v))
     (case of_settings v of Of_Vless s \<Rightarrow> vl_flow s | _ \<Rightarrow> [])
     (case of_streamSettings v of Some stream \<Rightarrow> asString (oget stream ''network'') [] | None \<Rightarrow> [])"
proof -
  have n: "oget stream ''network'' = JStr ''xhttp'' \<longleftrightarrow> asString (oget stream ''network'') [] = ''xhttp''" for stream
    by (cases "oget stream ''network''") (auto simp: asString_def)
  have "of_protocol (of_settings v) = ''vless'' \<longleftrightarrow> (\<exists>s. of_settings v = Of_Vless s)"
    by (cases "of_settings v") simp_all
  then show ?thesis
    by (cases "of_settings v"; cases "of_streamSettings v")
       (auto simp: muxAllowed_def isMuxAllowed_def MUX_PROTOCOLS_def n)
qed

section \<open>Fresh inbounds are usable\<close>

text \<open>
  A fresh Shadowsocks inbound has a password its own method accepts, whichever method it was seeded
  with, and a client made for the same method has one that method accepts.
\<close>

theorem fresh_shadowsocks_accepted:
  "isShadowsocks2022Password (asString (oget (createDefaultShadowsocksInboundSettings key [(''method'', JStr m)]) ''password'') []) m
   \<and> oget (createDefaultShadowsocksInboundSettings key [(''method'', JStr m)]) ''method'' = JStr m
   \<and> isShadowsocks2022Password (asString (oget (createDefaultShadowsocksClient dw [(''ssMethod'', JStr m)]) ''password'') []) m"
  by (simp add: createDefaultShadowsocksInboundSettings_def createDefaultShadowsocksClient_def seeded_def coalesce_def
      generated_password_accepted)

end
