(* ===== verification/Log_Parse.thy ===== *)
theory Log_Parse
  imports Js_Text
begin

text \<open>
  The parser of the log viewer (\<open>pages/index/logParse.ts\<close>). Its three regular expressions are written
  as recognisers: each piece of them starts where the one before cannot go on, so that matching is
  deterministic, the lazy identifier of the syslog prefix included: a colon followed by white space ends
  the run of other characters it stands in.
\<close>

section \<open>Pieces of the expressions\<close>

text \<open>\<open>\s+\<close>, \<open>\S+\<close> and \<open>\d{n}\<close>: what is left after them.\<close>

definition skip_space :: "string \<Rightarrow> string option" where
  "skip_space s = (if ws_len s = 0 then None else Some (ltrim s))"

fun word_split :: "string \<Rightarrow> string \<times> string" where
  "word_split [] = ([], [])"
| "word_split (c # s) = (if ws_len (c # s) > 0 then ([], c # s) else (case word_split s of (w, r) \<Rightarrow> (c # w, r)))"

definition digits :: "nat \<Rightarrow> string \<Rightarrow> string option" where
  "digits n s = (if length (take n s) = n \<and> list_all is_digit (take n s) then Some (drop n s) else None)"

definition lit :: "char \<Rightarrow> string \<Rightarrow> string option" where
  "lit c s = (case s of [] \<Rightarrow> None | d # r \<Rightarrow> if d = c then Some r else None)"

text \<open>\<open>\d{2}:\d{2}:\d{2}\<close>: the text and what is left.\<close>

definition clock :: "string \<Rightarrow> (string \<times> string) option" where
  "clock s =
     map_option (\<lambda>r. (take 8 s, r))
       (Option.bind (Option.bind (Option.bind (Option.bind (digits 2 s) (lit CHR '':'')) (digits 2)) (lit CHR '':'')) (digits 2))"

text \<open>\<open>.\<close> matches no line terminator.\<close>

fun one_line :: "string \<Rightarrow> bool" where
  "one_line [] = True"
| "one_line (c # s) \<longleftrightarrow>
     c \<noteq> CHR 0x0A \<and> c \<noteq> CHR 0x0D
     \<and> \<not> starts_with (c # s) [CHR 0xE2, CHR 0x80, CHR 0xA8] \<and> \<not> starts_with (c # s) [CHR 0xE2, CHR 0x80, CHR 0xA9]
     \<and> one_line s"

section \<open>The expressions\<close>

text \<open>\<open>[A-Za-z]{3}\s+\d{1,2}\<close>: the text and what is left.\<close>

definition month_day :: "string \<Rightarrow> (string \<times> string) option" where
  "month_day s =
     (if length (take 3 s) = 3 \<and> list_all is_letter (take 3 s) then
        Option.bind (skip_space (drop 3 s)) (\<lambda>r.
          (case digits 2 r of
             Some r' \<Rightarrow> Some (take (length s - length r') s, r')
           | None \<Rightarrow> map_option (\<lambda>r'. (take (length s - length r') s, r')) (digits 1 r)))
      else None)"

text \<open>A run of other characters, at least \<open>n\<close> long.\<close>

definition word_of :: "nat \<Rightarrow> string \<Rightarrow> (string \<times> string) option" where
  "word_of n s = (if length (fst (word_split s)) \<ge> n then Some (word_split s) else None)"

text \<open>The date, the time and the message of \<open>SYSLOG_PREFIX\<close>.\<close>

definition syslog_prefix :: "string \<Rightarrow> (string \<times> string \<times> string) option" where
  "syslog_prefix s =
     Option.bind (month_day s) (\<lambda>(date, r).
     Option.bind (skip_space r) (\<lambda>r.
     Option.bind (clock r) (\<lambda>(time, r).
     Option.bind (skip_space r) (\<lambda>r.
     Option.bind (word_of 1 r) (\<lambda>(host, r).
     Option.bind (skip_space r) (\<lambda>r.
     Option.bind (word_of 2 r) (\<lambda>(ident, r).
       if last ident \<noteq> CHR '':'' then None
       else Option.bind (skip_space r) (\<lambda>message. if one_line message then Some (date, time, message) else None))))))))"

definition go_log_date :: "string \<Rightarrow> string option" where
  "go_log_date s =
     Option.bind (Option.bind (Option.bind (Option.bind (Option.bind (Option.bind (digits 4 s) (lit CHR ''/'')) (digits 2)) (lit CHR ''/''))
       (digits 2)) skip_space) (\<lambda>r. Option.bind (clock r) (\<lambda>(t, r). skip_space r))"

definition upper_letter :: "char \<Rightarrow> bool" where
  "upper_letter c \<longleftrightarrow> c \<in> set upper_letters"

text \<open>The level and the rest of \<open>TELEGO\<close>.\<close>

definition telego :: "string \<Rightarrow> (string \<times> string) option" where
  "telego s =
     Option.bind (lit CHR ''['' s) (\<lambda>r.
       if takeWhile (\<lambda>c. c \<noteq> CHR '']'') r = [] then None
       else
         Option.bind (lit CHR '']'' (dropWhile (\<lambda>c. c \<noteq> CHR '']'') r)) (\<lambda>r.
         Option.bind (skip_space r) (\<lambda>r.
           let level = takeWhile upper_letter r in
           if level = [] then None
           else Option.bind (skip_space (dropWhile upper_letter r)) (\<lambda>rest. if one_line rest then Some (level, rest) else None))))"

section \<open>The parser\<close>

record parsed_log =
  pl_date :: string
  pl_time :: string
  pl_stamp :: string
  pl_levelText :: string
  pl_levelClass :: string
  pl_service :: string
  pl_body :: string

definition LEVELS :: "string list" where
  "LEVELS = [''DEBUG'', ''INFO'', ''NOTICE'', ''WARNING'', ''ERROR'']"

definition LEVEL_CLASSES :: "string list" where
  "LEVEL_CLASSES = [''level-debug'', ''level-info'', ''level-notice'', ''level-warning'', ''level-error'']"

text \<open>Before and after the first occurrence of a text, as \<open>indexOf\<close> and \<open>split\<close> find it.\<close>

fun cut_at :: "string \<Rightarrow> string \<Rightarrow> (string \<times> string) option" where
  "cut_at sep s =
     (if starts_with s sep then Some ([], drop (length sep) s)
      else case s of [] \<Rightarrow> None | c # r \<Rightarrow> map_option (\<lambda>(a, b). (c # a, b)) (cut_at sep r))"

declare cut_at.simps [simp del]

definition splitLevelDash :: "string \<Rightarrow> (string \<times> string) option" where
  "splitLevelDash message =
     (case cut_at '' - '' message of
        None \<Rightarrow> None
      | Some (a, b) \<Rightarrow> if trim a \<in> set LEVELS then Some (trim a, b) else None)"

text \<open>Level and body of a syslog message.\<close>

definition syslog_message :: "string \<Rightarrow> string \<times> string" where
  "syslog_message message =
     (case splitLevelDash message of
        Some ld \<Rightarrow> ld
      | None \<Rightarrow>
          (let message = (case go_log_date message of Some r \<Rightarrow> r | None \<Rightarrow> message) in
           case telego message of
             Some (level, rest) \<Rightarrow> if level \<in> set LEVELS then (level, rest) else ([], message)
           | None \<Rightarrow> ([], message)))"

text \<open>Date, time, level and body of a line of the panel's own log.\<close>

definition app_line :: "string \<Rightarrow> string \<times> string \<times> string \<times> string" where
  "app_line raw =
     (let (head, message) = (case cut_at '' - '' raw of Some hm \<Rightarrow> hm | None \<Rightarrow> (raw, []));
          parts = split_char CHR '' '' head
      in if length parts \<ge> 3 then (parts ! 0, parts ! 1, parts ! 2, message) else ([], [], head, message))"

definition level_class :: "string \<Rightarrow> string" where
  "level_class levelText =
     (case map_of (zip LEVELS LEVEL_CLASSES) levelText of Some c \<Rightarrow> c | None \<Rightarrow> ''level-unknown'')"

definition parseLogLine :: "string \<Rightarrow> parsed_log" where
  "parseLogLine line =
     (let raw = trim line;
          (date, time, levelText, body) =
            (case syslog_prefix raw of
               Some (date, time, message) \<Rightarrow> (case syslog_message message of (l, b) \<Rightarrow> (date, time, l, b))
             | None \<Rightarrow> app_line raw);
          (service, body) =
            (if starts_with body ''XRAY:'' then (''XRAY:'', ltrim (drop 5 body))
             else if body \<noteq> [] then (''X-UI:'', body) else ([], body))
      in \<lparr>pl_date = date, pl_time = time, pl_stamp = join '' '' (non_empty [date, time]), pl_levelText = levelText,
          pl_levelClass = level_class levelText, pl_service = service, pl_body = body\<rparr>)"

section \<open>Nothing is invented\<close>

text \<open>\<open>ends s t\<close>: \<open>t\<close> is an end of \<open>s\<close>.\<close>

definition tail_of :: "string \<Rightarrow> string \<Rightarrow> bool" where
  "tail_of s t \<longleftrightarrow> (\<exists>u. s = u @ t)"

lemma tail_refl [simp]: "tail_of s s"
  by (simp add: tail_of_def)

lemma tail_trans: "tail_of s t \<Longrightarrow> tail_of t u \<Longrightarrow> tail_of s u"
  by (auto simp: tail_of_def)

lemma tail_drop: "tail_of s (drop n s)"
  unfolding tail_of_def by (metis append_take_drop_id)

lemma tail_Cons: "tail_of s t \<Longrightarrow> tail_of (c # s) t"
  by (auto simp: tail_of_def intro: exI[of _ "c # _"])

lemma tail_ltrim: "tail_of s (ltrim s)"
proof (induction s rule: ltrim.induct)
  case (1 s)
  then show ?case using tail_trans[OF tail_drop] by (subst ltrim.simps) auto
qed

named_theorems tails \<open>each piece of an expression leaves an end of the text\<close>

lemma tail_pieces [tails]:
  "skip_space s = Some r \<Longrightarrow> tail_of s r" "digits n s = Some r \<Longrightarrow> tail_of s r" "lit c s = Some r \<Longrightarrow> tail_of s r"
  using tail_ltrim tail_drop tail_Cons[of r r c]
  by (auto simp: skip_space_def digits_def lit_def split: if_splits list.splits)

lemma bind_tail: "Option.bind x f = Some r \<Longrightarrow> (\<And>y. x = Some y \<Longrightarrow> tail_of s y) \<Longrightarrow> (\<And>y. f y = Some r \<Longrightarrow> tail_of y r) \<Longrightarrow> tail_of s r"
  by (cases x) (auto intro: tail_trans)

lemma clock_tail [tails]: "clock s = Some (t, r) \<Longrightarrow> tail_of s r"
  unfolding clock_def by (auto dest!: tails simp: bind_eq_Some_conv) (meson tail_trans)

lemma word_tail: "tail_of s (snd (word_split s))"
  by (induction s) (auto split: prod.split intro: tail_Cons)

lemma month_tail [tails]:
  assumes "month_day s = Some (d, r)"
  shows "tail_of s r"
proof -
  obtain y where y: "skip_space (drop 3 s) = Some y"
    and r: "(case digits 2 y of Some r' \<Rightarrow> Some (take (length s - length r') s, r')
             | None \<Rightarrow> map_option (\<lambda>r'. (take (length s - length r') s, r')) (digits 1 y)) = Some (d, r)"
    using assms by (auto simp: month_day_def bind_eq_Some_conv split: if_splits)
  have "digits 2 y = Some r \<or> digits 1 y = Some r" using r by (cases "digits 2 y") auto
  then have "tail_of y r" using tails by blast
  then show ?thesis using tails(1)[OF y] tail_drop tail_trans by metis
qed

lemma word_of_tail [tails]: "word_of n s = Some (w, r) \<Longrightarrow> tail_of s r"
  using word_tail[of s] by (simp add: word_of_def split: if_splits)

lemma syslog_tail: "syslog_prefix s = Some (d, t, m) \<Longrightarrow> tail_of s m"
  unfolding syslog_prefix_def
  by (auto simp: bind_eq_Some_conv split: if_splits dest!: tails) (meson tail_trans)

lemma go_log_tail: "go_log_date s = Some r \<Longrightarrow> tail_of s r"
  unfolding go_log_date_def by (auto simp: bind_eq_Some_conv dest!: tails) (meson tail_trans)

lemma dropWhile_tail: "tail_of s (dropWhile P s)"
  unfolding tail_of_def by (metis takeWhile_dropWhile_id)

lemma telego_tail: "telego s = Some (l, r) \<Longrightarrow> tail_of s r"
  unfolding telego_def
  by (auto simp: bind_eq_Some_conv Let_def split: if_splits dest!: tails) (meson tail_trans dropWhile_tail)

lemma cut_at_parts: "cut_at sep s = Some (a, b) \<Longrightarrow> s = a @ sep @ b"
proof (induction sep s arbitrary: a rule: cut_at.induct)
  case (1 sep s)
  show ?case
  proof (cases "starts_with s sep")
    case True
    then show ?thesis using "1.prems" by (subst (asm) cut_at.simps) (auto simp: starts_with_iff)
  next
    case False
    then obtain c r where s: "s = c # r" using "1.prems" by (subst (asm) cut_at.simps) (auto split: list.splits)
    obtain a' where a: "a = c # a'" "cut_at sep r = Some (a', b)"
      using "1.prems" False s by (subst (asm) cut_at.simps) auto
    then show ?thesis using "1.IH"[OF False s] s by simp
  qed
qed

lemma cut_tail: "cut_at sep s = Some (a, b) \<Longrightarrow> tail_of s b"
  using cut_at_parts[of sep s a b] unfolding tail_of_def by (metis append.assoc)

lemma message_tail: "tail_of m (snd (syslog_message m))"
proof (cases "splitLevelDash m")
  case (Some ld)
  then show ?thesis using cut_tail
    by (cases ld) (auto simp: syslog_message_def splitLevelDash_def split: option.splits if_splits)
next
  case None
  let ?m = "case go_log_date m of Some r \<Rightarrow> r | None \<Rightarrow> m"
  have g: "tail_of m ?m" using go_log_tail by (simp split: option.split)
  have "tail_of ?m (snd (syslog_message m))"
    using None telego_tail[of ?m] by (auto simp: syslog_message_def Let_def split: option.splits)
  with g show ?thesis by (rule tail_trans)
qed

lemma app_tail: "tail_of s (snd (snd (snd (app_line s))))"
  using cut_tail[of "'' - ''" s] by (auto simp: app_line_def Let_def tail_of_def split: option.splits prod.splits)

definition raw_parts :: "string \<Rightarrow> string \<times> string \<times> string \<times> string" where
  "raw_parts raw =
     (case syslog_prefix raw of
        Some (date, time, message) \<Rightarrow> (case syslog_message message of (l, b) \<Rightarrow> (date, time, l, b))
      | None \<Rightarrow> app_line raw)"

lemma raw_tail: "raw_parts raw = (d, t, l, b) \<Longrightarrow> tail_of raw b"
  using app_tail[of raw] message_tail syslog_tail[of raw]
  by (auto simp: raw_parts_def split: option.splits prod.splits) (metis snd_conv tail_trans)

lemma parse_parts:
  assumes "raw_parts (trim line) = (d, t, l, b)"
  shows "parseLogLine line =
    \<lparr>pl_date = d, pl_time = t, pl_stamp = join '' '' (non_empty [d, t]), pl_levelText = l, pl_levelClass = level_class l,
     pl_service = (if starts_with b ''XRAY:'' then ''XRAY:'' else if b \<noteq> [] then ''X-UI:'' else []),
     pl_body = (if starts_with b ''XRAY:'' then ltrim (drop 5 b) else b)\<rparr>"
  using assms unfolding parseLogLine_def raw_parts_def[symmetric] by (auto simp: Let_def)

lemma level_class_known: "level_class l \<noteq> ''level-unknown'' \<longleftrightarrow> l \<in> set LEVELS"
  by (simp add: level_class_def LEVELS_def LEVEL_CLASSES_def)

text \<open>
  Whatever the line, the body shown is an end of it, the class is a known one exactly for the five
  levels, the stamp is the date and the time, and a service is named exactly when the line has a body.
\<close>

theorem parsed_from_line:
  "let p = parseLogLine line in
     (\<exists>u. trim line = u @ pl_body p) \<and> (pl_levelClass p = ''level-unknown'' \<longleftrightarrow> pl_levelText p \<notin> set LEVELS)
     \<and> pl_stamp p = join '' '' (non_empty [pl_date p, pl_time p])
     \<and> (if pl_service p = [] then pl_body p = [] else pl_service p = ''XRAY:'' \<or> pl_service p = ''X-UI:'' \<and> pl_body p \<noteq> [])"
proof -
  obtain d t l b where r: "raw_parts (trim line) = (d, t, l, b)" by (metis prod_cases4)
  have "tail_of (trim line) (if starts_with b ''XRAY:'' then ltrim (drop 5 b) else b)"
    using raw_tail[OF r] tail_drop[of b 5] tail_ltrim[of "drop 5 b"] by (auto intro: tail_trans)
  then show ?thesis using level_class_known[of l] unfolding parse_parts[OF r] Let_def tail_of_def by auto
qed

section \<open>Lines of the panel read back\<close>

lemma cut_at_plain:
  assumes "list_all (\<lambda>c. c \<noteq> CHR ''-'') a"
  shows "cut_at '' - '' (a @ '' - '' @ b) = Some (a, b)"
  using assms
proof (induction a)
  case Nil
  show ?case by (subst cut_at.simps) simp
next
  case (Cons c a)
  have "\<not> starts_with (c # a @ '' - '' @ b) '' - ''"
    using Cons.prems by (cases a) (auto simp: starts_with_iff)
  then show ?case using Cons by (subst cut_at.simps) simp
qed

text \<open>A word of visible ASCII without a dash.\<close>

definition field_ok :: "string \<Rightarrow> bool" where
  "field_ok w \<longleftrightarrow> w \<noteq> [] \<and> list_all (\<lambda>c. plain_char c \<and> c \<noteq> CHR ''-'') w"

text \<open>
  A line of the panel's own log reads back: date, time, level and message, with the Xray service where
  the message is marked so.
\<close>

theorem app_line_reads_back:
  assumes "field_ok date" and "field_ok time" and "field_ok level" and "\<not> is_letter (hd date)"
    and "message \<noteq> []" and "plain_char (last message)"
  shows "parseLogLine (date @ '' '' @ time @ '' '' @ level @ '' - '' @ message)
    = \<lparr>pl_date = date, pl_time = time, pl_stamp = date @ '' '' @ time, pl_levelText = level, pl_levelClass = level_class level,
       pl_service = (if starts_with message ''XRAY:'' then ''XRAY:'' else ''X-UI:''),
       pl_body = (if starts_with message ''XRAY:'' then ltrim (drop 5 message) else message)\<rparr>"
proof -
  let ?line = "date @ '' '' @ time @ '' '' @ level @ '' - '' @ message" and ?head = "date @ '' '' @ time @ '' '' @ level"
  obtain c ds where date: "date = c # ds" using assms(1) by (cases date) (simp_all add: field_ok_def)
  have "ws_len ?line = 0" using assms(1) by (simp add: date ws_len_def field_ok_def plain_char_def)
  moreover have "rws_len (rev ?line) = 0"
    using assms(5,6) by (cases "rev message") (auto simp: rws_len_def plain_char_def last_rev)
  ultimately have trim: "trim ?line = ?line" by (rule trim_id)
  have "\<not> list_all is_letter (take 3 ?line)" using assms(4) by (simp add: date)
  then have "month_day ?line = None" unfolding month_day_def by (simp only: simp_thms if_False)
  then have sys: "syslog_prefix ?line = None" by (simp add: syslog_prefix_def)
  have nd: "list_all (\<lambda>c. c \<noteq> CHR ''-'') ?head" using assms(1,2,3) by (auto simp: field_ok_def list_all_iff)
  have cut: "cut_at '' - '' ?line = Some (?head, message)" using cut_at_plain[OF nd, of message] by simp
  have sp: "CHR '' '' \<notin> set w" if "field_ok w" for w
    using that by (auto simp: field_ok_def list_all_iff plain_char_def ascii_ws_def)
  have "split_char CHR '' '' (join [CHR '' ''] [date, time, level]) = [date, time, level]"
    by (rule split_join) (use sp[OF assms(1)] sp[OF assms(2)] sp[OF assms(3)] in auto)
  then have "split_char CHR '' '' ?head = [date, time, level]" by simp
  then have "app_line ?line = (date, time, level, message)" unfolding app_line_def cut by (simp add: Let_def)
  then have r: "raw_parts (trim ?line) = (date, time, level, message)" unfolding trim raw_parts_def sys by simp
  have "non_empty [date, time] = [date, time]" using assms(1,2) by (simp add: field_ok_def non_empty_def)
  then show ?thesis using parse_parts[OF r] assms(5) by simp
qed

theorem app_line_reads_back_witness:
  "pl_levelText (parseLogLine ''2026/06/08 19:22:22 INFO - XRAY: up - ok'') = ''INFO''"
proof -
  have "field_ok ''2026/06/08'' \<and> field_ok ''19:22:22'' \<and> field_ok ''INFO'' \<and> \<not> is_letter (hd ''2026/06/08'')
    \<and> plain_char (last ''XRAY: up - ok'')" by code_simp
  then have "parseLogLine (''2026/06/08'' @ '' '' @ ''19:22:22'' @ '' '' @ ''INFO'' @ '' - '' @ ''XRAY: up - ok'')
      = \<lparr>pl_date = ''2026/06/08'', pl_time = ''19:22:22'', pl_stamp = ''2026/06/08'' @ '' '' @ ''19:22:22'', pl_levelText = ''INFO'',
         pl_levelClass = level_class ''INFO'', pl_service = (if starts_with ''XRAY: up - ok'' ''XRAY:'' then ''XRAY:'' else ''X-UI:''),
         pl_body = (if starts_with ''XRAY: up - ok'' ''XRAY:'' then ltrim (drop 5 ''XRAY: up - ok'') else ''XRAY: up - ok'')\<rparr>"
    by (intro app_line_reads_back) simp_all
  then show ?thesis by simp
qed

end
