(* ===== verification/Csrf_Client.thy ===== *)
theory Csrf_Client
  imports Json
begin

text \<open>
  The HTTP client of the panel (\<open>api/axios-init.ts\<close>): the CSRF token, the request interceptor that adds
  it and encodes the body, and the response interceptor that retries a refused request once and leaves
  an expired session. Requests run side by side; every answer is a step of the environment. The query
  string library is a parameter of the operations that encode a form body.
\<close>

section \<open>Bodies\<close>

definition is_json_type :: "string \<Rightarrow> bool" where
  "is_json_type declaredType \<longleftrightarrow> starts_with (to_lower declaredType) ''application/json''"

text \<open>The body as the request interceptor leaves it; form data objects are not modelled.\<close>

definition encode_body :: "(js \<Rightarrow> string) \<Rightarrow> string \<Rightarrow> js \<Rightarrow> js" where
  "encode_body qs_stringify declaredType d =
     (if is_json_type declaredType then (if d \<noteq> JUndef \<and> \<not> is_str d then JStr (json_stringify d) else d)
      else JStr (qs_stringify d))"

text \<open>The body of a request that is sent again, back as a value.\<close>

definition decode_body :: "(string \<Rightarrow> js) \<Rightarrow> string \<Rightarrow> js \<Rightarrow> js" where
  "decode_body qs_parse declaredType d =
     (case d of
        JStr s \<Rightarrow> if is_json_type declaredType then (case json_parse s of Some v \<Rightarrow> v | None \<Rightarrow> d) else qs_parse s
      | _ \<Rightarrow> d)"

section \<open>State\<close>

record http_request =
  rq_method :: string
  rq_type :: string
  rq_data :: js
  rq_token :: "string option"
  rq_retried :: bool
  rq_sent :: nat

datatype phase = New | Asking | Flying | Asking_Again | Resolved | Rejected | Hung

text \<open>
  The variables of the module, the token of the page's \<open>meta\<close> element (\<open>None\<close> also for an empty one), and what went out: requests for a
  token and redirects to the login page.
\<close>

record axios_state =
  ax_token :: "string option"
  ax_meta :: "string option"
  ax_fetching :: bool
  ax_expired :: bool
  ax_fetches :: nat
  ax_redirects :: nat

definition SAFE_METHODS :: "string list" where
  "SAFE_METHODS = [''GET'', ''HEAD'', ''OPTIONS'', ''TRACE'']"

definition is_safe :: "http_request \<Rightarrow> bool" where
  "is_safe q \<longleftrightarrow> to_upper (if rq_method q = [] then ''get'' else rq_method q) \<in> set SAFE_METHODS"

text \<open>
  \<open>ensureCsrfToken\<close> up to its \<open>await\<close>: the token at hand or that of the page, else the one request for a
  token that is under way.
\<close>

definition ensureCsrfToken :: "axios_state \<Rightarrow> string option \<times> axios_state" where
  "ensureCsrfToken a =
     (if ax_token a \<noteq> None then (ax_token a, a)
      else case ax_meta a of
        Some m \<Rightarrow> (Some m, a\<lparr>ax_token := Some m\<rparr>)
      | None \<Rightarrow>
          (None, if ax_fetching a then a else a\<lparr>ax_fetching := True, ax_fetches := ax_fetches a + 1\<rparr>))"

text \<open>What the interceptor does with the token it got, and the request going out.\<close>

definition send_out :: "(js \<Rightarrow> string) \<Rightarrow> string option \<Rightarrow> http_request \<Rightarrow> http_request" where
  "send_out qs_stringify token q =
     q\<lparr>rq_token := (case token of None \<Rightarrow> rq_token q | Some t \<Rightarrow> Some t),
       rq_data := encode_body qs_stringify (rq_type q) (rq_data q), rq_sent := rq_sent q + 1\<rparr>"

definition request_interceptor :: "(js \<Rightarrow> string) \<Rightarrow> http_request \<Rightarrow> axios_state \<Rightarrow> (http_request \<times> phase) \<times> axios_state" where
  "request_interceptor qs_stringify q a =
     (if is_safe q then ((send_out qs_stringify None q, Flying), a)
      else case ensureCsrfToken a of
        (Some t, a') \<Rightarrow> ((send_out qs_stringify (Some t) q, Flying), a')
      | (None, a') \<Rightarrow> ((q, Asking), a'))"

text \<open>A refused request with a token: its header and body are set and it goes through the interceptor again.\<close>

definition resend :: "(js \<Rightarrow> string) \<Rightarrow> (string \<Rightarrow> js) \<Rightarrow> string \<Rightarrow> http_request \<Rightarrow> axios_state \<Rightarrow> (http_request \<times> phase) \<times> axios_state" where
  "resend qs_stringify qs_parse token q a =
     request_interceptor qs_stringify (q\<lparr>rq_token := Some token, rq_data := decode_body qs_parse (rq_type q) (rq_data q)\<rparr>) a"

datatype answer = Ok_Answer | Unauthorized | Forbidden | Other_Error

definition response_interceptor ::
  "(js \<Rightarrow> string) \<Rightarrow> (string \<Rightarrow> js) \<Rightarrow> answer \<Rightarrow> http_request \<Rightarrow> axios_state \<Rightarrow> (http_request \<times> phase) \<times> axios_state" where
  "response_interceptor qs_stringify qs_parse r q a =
     (case r of
        Ok_Answer \<Rightarrow> ((q, Resolved), a)
      | Unauthorized \<Rightarrow>
          ((q, Hung), if ax_expired a then a else a\<lparr>ax_expired := True, ax_redirects := ax_redirects a + 1\<rparr>)
      | Forbidden \<Rightarrow>
          if rq_retried q then ((q, Rejected), a)
          else
            let q = q\<lparr>rq_retried := True\<rparr> in
            (case ensureCsrfToken (a\<lparr>ax_token := None\<rparr>) of
               (Some t, a') \<Rightarrow> resend qs_stringify qs_parse t q a'
             | (None, a') \<Rightarrow> ((q, Asking_Again), a'))
      | Other_Error \<Rightarrow> ((q, Rejected), a))"

text \<open>The answer to the request for a token reaches every request that waits for it.\<close>

definition resume :: "(js \<Rightarrow> string) \<Rightarrow> (string \<Rightarrow> js) \<Rightarrow> axios_state \<Rightarrow> http_request \<times> phase \<Rightarrow> http_request \<times> phase" where
  "resume qs_stringify qs_parse a p =
     (case p of
        (q, Asking) \<Rightarrow> (send_out qs_stringify (ax_token a) q, Flying)
      | (q, Asking_Again) \<Rightarrow>
          (case ax_token a of
             None \<Rightarrow> (q, Rejected)
           | Some t \<Rightarrow> fst (resend qs_stringify qs_parse t q a))
      | _ \<Rightarrow> p)"

definition token_arrives :: "string option \<Rightarrow> axios_state \<Rightarrow> axios_state" where
  "token_arrives res a = a\<lparr>ax_fetching := False, ax_token := (case res of None \<Rightarrow> ax_token a | Some t \<Rightarrow> if t = [] then ax_token a else Some t)\<rparr>"

section \<open>Steps\<close>

type_synonym http_system = "(http_request \<times> phase) list \<times> axios_state"

inductive ax_step :: "(js \<Rightarrow> string) \<Rightarrow> (string \<Rightarrow> js) \<Rightarrow> http_system \<Rightarrow> http_system \<Rightarrow> bool" for qs_stringify qs_parse where
  Start: "\<lbrakk>i < length ps; ps ! i = (q, New); request_interceptor qs_stringify q a = (p, a')\<rbrakk> \<Longrightarrow>
     ax_step qs_stringify qs_parse (ps, a) (ps[i := p], a')"
| Answer: "\<lbrakk>i < length ps; ps ! i = (q, Flying); response_interceptor qs_stringify qs_parse r q a = (p, a')\<rbrakk> \<Longrightarrow>
     ax_step qs_stringify qs_parse (ps, a) (ps[i := p], a')"
| Token: "\<lbrakk>ax_fetching a; a' = token_arrives res a\<rbrakk> \<Longrightarrow>
     ax_step qs_stringify qs_parse (ps, a) (map (resume qs_stringify qs_parse a') ps, a')"

definition new_request :: "string \<Rightarrow> string \<Rightarrow> js \<Rightarrow> http_request \<times> phase" where
  "new_request m t d = (\<lparr>rq_method = m, rq_type = t, rq_data = d, rq_token = None, rq_retried = False, rq_sent = 0\<rparr>, New)"

text \<open>\<open>setupAxios\<close> reads the token of the page.\<close>

definition setup_state :: "string option \<Rightarrow> axios_state" where
  "setup_state meta = \<lparr>ax_token = meta, ax_meta = meta, ax_fetching = False, ax_expired = False, ax_fetches = 0, ax_redirects = 0\<rparr>"

definition is_new :: "http_request \<times> phase \<Rightarrow> bool" where
  "is_new p \<longleftrightarrow> snd p = New \<and> rq_sent (fst p) = 0 \<and> \<not> rq_retried (fst p)"

definition settled :: "phase \<Rightarrow> bool" where
  "settled p \<longleftrightarrow> p = Resolved \<or> p = Rejected \<or> p = Hung"

section \<open>The invariant\<close>

text \<open>How often a request has gone out, and what its phase allows.\<close>

fun request_ok :: "axios_state \<Rightarrow> http_request \<times> phase \<Rightarrow> bool" where
  "request_ok a (q, New) \<longleftrightarrow> rq_sent q = 0 \<and> \<not> rq_retried q"
| "request_ok a (q, Asking) \<longleftrightarrow> rq_sent q = of_bool (rq_retried q) \<and> ax_fetching a"
| "request_ok a (q, Flying) \<longleftrightarrow> rq_sent q = 1 + of_bool (rq_retried q)"
| "request_ok a (q, Asking_Again) \<longleftrightarrow> rq_sent q = 1 \<and> rq_retried q \<and> ax_fetching a"
| "request_ok a (q, Resolved) \<longleftrightarrow> rq_sent q \<le> 2"
| "request_ok a (q, Rejected) \<longleftrightarrow> rq_sent q \<le> 2"
| "request_ok a (q, Hung) \<longleftrightarrow> rq_sent q \<le> 2 \<and> ax_expired a"

definition system_inv :: "http_system \<Rightarrow> bool" where
  "system_inv s \<longleftrightarrow> list_all (request_ok (snd s)) (fst s) \<and> ax_redirects (snd s) = of_bool (ax_expired (snd s))"

lemma ensure_cases:
  assumes "ensureCsrfToken a = (t, a')"
  shows "ax_redirects a' = ax_redirects a \<and> ax_expired a' = ax_expired a \<and> ax_meta a' = ax_meta a
    \<and> (ax_fetching a \<longrightarrow> ax_fetching a') \<and> (t = None \<longrightarrow> ax_fetching a') \<and> (t \<noteq> None \<longrightarrow> ax_token a' = t)
    \<and> ax_fetching a' = (ax_fetching a \<or> t = None)"
  using assms by (auto simp: ensureCsrfToken_def split: if_splits option.splits)

lemma request_ok_mono:
  "request_ok a p \<Longrightarrow> (ax_fetching a \<longrightarrow> ax_fetching a') \<Longrightarrow> (ax_expired a \<longrightarrow> ax_expired a') \<Longrightarrow> request_ok a' p"
  by (cases "(a, p)" rule: request_ok.cases) auto

lemma send_out_fields [simp]:
  "rq_sent (send_out f t q) = rq_sent q + 1" "rq_retried (send_out f t q) = rq_retried q" "rq_method (send_out f t q) = rq_method q"
  "rq_type (send_out f t q) = rq_type q"
  by (simp_all add: send_out_def)

lemma interceptor_ok:
  assumes "request_interceptor f q a = (p, a')" and "rq_sent q = of_bool (rq_retried q)"
  shows "request_ok a' p \<and> (ax_fetching a \<longrightarrow> ax_fetching a') \<and> ax_expired a' = ax_expired a \<and> ax_redirects a' = ax_redirects a
    \<and> (snd p = Flying \<or> snd p = Asking) \<and> rq_retried (fst p) = rq_retried q \<and> ax_meta a' = ax_meta a"
proof (cases "is_safe q")
  case True
  then show ?thesis using assms by (auto simp: request_interceptor_def)
next
  case False
  obtain t a1 where e: "ensureCsrfToken a = (t, a1)" by (cases "ensureCsrfToken a")
  show ?thesis using assms False ensure_cases[OF e] by (cases t) (auto simp: request_interceptor_def e)
qed

lemma response_ok:
  assumes "response_interceptor f g r q a = (p, a')" and "request_ok a (q, Flying)" and "ax_redirects a = of_bool (ax_expired a)"
  shows "request_ok a' p \<and> (ax_fetching a \<longrightarrow> ax_fetching a') \<and> (ax_expired a \<longrightarrow> ax_expired a') \<and> ax_redirects a' = of_bool (ax_expired a')
    \<and> ax_meta a' = ax_meta a"
proof (cases r)
  case Forbidden
  show ?thesis
  proof (cases "rq_retried q")
    case True
    then show ?thesis using assms Forbidden by (auto simp: response_interceptor_def)
  next
    case nr: False
    let ?q = "q\<lparr>rq_retried := True\<rparr>"
    obtain t a1 where e: "ensureCsrfToken (a\<lparr>ax_token := None\<rparr>) = (t, a1)" by (cases "ensureCsrfToken (a\<lparr>ax_token := None\<rparr>)")
    note E = ensure_cases[OF e]
    have sent: "rq_sent ?q = 1" using assms(2) nr by simp
    show ?thesis
    proof (cases t)
      case None
      then show ?thesis using assms(1,3) Forbidden nr E sent by (auto simp: response_interceptor_def Let_def e)
    next
      case (Some u)
      let ?q' = "?q\<lparr>rq_token := Some u, rq_data := decode_body g (rq_type ?q) (rq_data ?q)\<rparr>"
      have ri: "request_interceptor f ?q' a1 = (p, a')"
        using assms(1) Forbidden nr Some by (simp add: response_interceptor_def Let_def e resend_def)
      have "rq_sent ?q' = of_bool (rq_retried ?q')" using sent by simp
      from interceptor_ok[OF ri this] show ?thesis using E assms(3) by auto
    qed
  qed
qed (use assms in \<open>auto simp: response_interceptor_def split: if_splits\<close>)

lemma resume_ok:
  assumes "request_ok a0 p" and "\<not> ax_fetching a" and "ax_expired a = ax_expired a0"
  shows "request_ok a (resume f g a p)"
proof -
  obtain q ph where p: "p = (q, ph)" by (cases p)
  show ?thesis
  proof (cases ph)
    case Asking_Again
    show ?thesis
    proof (cases "ax_token a")
      case (Some t)
      let ?q = "q\<lparr>rq_token := Some t, rq_data := decode_body g (rq_type q) (rq_data q)\<rparr>"
      have n: "rq_sent ?q = of_bool (rq_retried ?q)" using assms(1) by (simp add: p Asking_Again)
      obtain p' a' where ri: "request_interceptor f ?q a = (p', a')" by (cases "request_interceptor f ?q a")
      have "ensureCsrfToken a = (Some t, a)" using Some by (simp add: ensureCsrfToken_def)
      then have "a' = a" using ri by (auto simp: request_interceptor_def split: if_splits)
      then show ?thesis using interceptor_ok[OF ri n] Some by (simp add: p Asking_Again resume_def resend_def ri)
    qed (use assms in \<open>simp add: p Asking_Again resume_def\<close>)
  qed (use assms in \<open>auto simp: p resume_def\<close>)
qed

lemma step_inv:
  assumes "ax_step f g s s'" and "system_inv s"
  shows "system_inv s'"
  using assms
proof cases
  case (Start i ps q a p a')
  have q: "request_ok a (q, New)" and all: "list_all (request_ok a) ps" and r: "ax_redirects a = of_bool (ax_expired a)"
    using assms(2) Start nth_mem[of i ps] by (auto simp: system_inv_def list_all_iff)
  note I = interceptor_ok[OF Start(5)]
  have "list_all (request_ok a') ps" using all I q request_ok_mono[of a _ a'] by (simp add: list_all_iff)
  then show ?thesis using I q r by (auto simp: Start(2) system_inv_def list_all_iff dest!: set_update_subset_insert[THEN subsetD])
next
  case (Answer i ps q r a p a')
  have q: "request_ok a (q, Flying)" and all: "list_all (request_ok a) ps" and rd: "ax_redirects a = of_bool (ax_expired a)"
    using assms(2) Answer nth_mem[of i ps] by (auto simp: system_inv_def list_all_iff)
  note I = response_ok[OF Answer(5) q rd]
  have "list_all (request_ok a') ps" using all I request_ok_mono[of a _ a'] by (simp add: list_all_iff)
  then show ?thesis using I by (auto simp: Answer(2) system_inv_def list_all_iff dest!: set_update_subset_insert[THEN subsetD])
next
  case (Token a a' res ps)
  have "\<not> ax_fetching a'" "ax_expired a' = ax_expired a" "ax_redirects a' = ax_redirects a" by (simp_all add: Token token_arrives_def)
  then show ?thesis using assms(2) resume_ok[of a _ a'] by (auto simp: Token(1,2) system_inv_def list_all_iff)
qed

lemma http_start_inv: "list_all is_new ps \<Longrightarrow> system_inv (ps, setup_state meta)"
  by (auto simp: system_inv_def setup_state_def list_all_iff is_new_def)

lemma http_run_inv: "(ax_step f g)\<^sup>*\<^sup>* (ps, setup_state meta) s \<Longrightarrow> list_all is_new ps \<Longrightarrow> system_inv s"
  by (induction rule: rtranclp_induct) (auto intro: http_start_inv step_inv)

text \<open>A run that asks for a token, is refused, asks again and succeeds.\<close>

lemma post_not_safe: "rq_method q = ''POST'' \<Longrightarrow> \<not> is_safe q"
proof -
  have "to_upper ''POST'' = ''POST''" by code_simp
  then show "rq_method q = ''POST'' \<Longrightarrow> \<not> is_safe q" by (simp add: is_safe_def SAFE_METHODS_def)
qed

lemma json_type: "is_json_type ''application/json''"
  by code_simp

lemma sample_clean: "json_clean (JObj [(''enable'', JBool True)])"
  by code_simp

lemma json_true_value: "json_parse ''true'' = Some (JBool True)"
  by code_simp

lemma json_true_text: "json_stringify (JBool True) = ''true''"
  by code_simp

abbreviation sample_new :: "http_request \<times> phase" where
  "sample_new \<equiv> new_request ''POST'' ''application/json'' (JBool True)"

definition sample_done :: "http_request \<times> phase" where
  "sample_done = (\<lparr>rq_method = ''POST'', rq_type = ''application/json'', rq_data = JStr ''true'', rq_token = Some ''u'',
     rq_retried = True, rq_sent = 2\<rparr>, Resolved)"

lemma five_steps: "R a b \<Longrightarrow> R b c \<Longrightarrow> R c d \<Longrightarrow> R d e \<Longrightarrow> R e x \<Longrightarrow> (R ^^ 5) a x"
  by (simp add: numeral_eq_Suc relcompp_apply) blast

lemma sample_run:
  "(ax_step (\<lambda>_. []) (\<lambda>_. JNull) ^^ 5) ([sample_new], setup_state None)
     ([sample_done], (setup_state None)\<lparr>ax_token := Some ''u'', ax_fetches := 2\<rparr>)"
proof -
  let ?f = "\<lambda>_. []" let ?g = "\<lambda>_. JNull"
  let ?s = "setup_state None"
  let ?q = "fst sample_new" let ?q1 = "?q\<lparr>rq_token := Some ''t'', rq_data := JStr ''true'', rq_sent := 1\<rparr>"
  let ?q2 = "?q1\<lparr>rq_retried := True\<rparr>" let ?q3 = "?q2\<lparr>rq_token := Some ''u'', rq_sent := 2\<rparr>"
  note D = request_interceptor_def response_interceptor_def post_not_safe ensureCsrfToken_def
    setup_state_def new_request_def send_out_def encode_body_def json_type json_true_text json_true_value numeral_2_eq_2
  have 1: "ax_step ?f ?g ([sample_new], ?s) ([(?q, Asking)], ?s\<lparr>ax_fetching := True, ax_fetches := 1\<rparr>)"
    using ax_step.Start[of 0 "[sample_new]" ?q ?f ?s] by (simp add: D)
  have 2: "ax_step ?f ?g ([(?q, Asking)], ?s\<lparr>ax_fetching := True, ax_fetches := 1\<rparr>) ([(?q1, Flying)], ?s\<lparr>ax_token := Some ''t'', ax_fetches := 1\<rparr>)"
    using ax_step.Token[OF _ refl, of "?s\<lparr>ax_fetching := True, ax_fetches := 1\<rparr>" ?f ?g "[(?q, Asking)]" "Some ''t''"]
    by (simp add: D token_arrives_def resume_def)
  have 3: "ax_step ?f ?g ([(?q1, Flying)], ?s\<lparr>ax_token := Some ''t'', ax_fetches := 1\<rparr>) ([(?q2, Asking_Again)], ?s\<lparr>ax_fetching := True, ax_fetches := 2\<rparr>)"
    using ax_step.Answer[of 0 "[(?q1, Flying)]" ?q1 ?f ?g Forbidden "?s\<lparr>ax_token := Some ''t'', ax_fetches := 1\<rparr>"] by (simp add: D)
  have 4: "ax_step ?f ?g ([(?q2, Asking_Again)], ?s\<lparr>ax_fetching := True, ax_fetches := 2\<rparr>) ([(?q3, Flying)], ?s\<lparr>ax_token := Some ''u'', ax_fetches := 2\<rparr>)"
    using ax_step.Token[OF _ refl, of "?s\<lparr>ax_fetching := True, ax_fetches := 2\<rparr>" ?f ?g "[(?q2, Asking_Again)]" "Some ''u''"]
    by (simp add: D token_arrives_def resume_def resend_def decode_body_def)
  have 5: "ax_step ?f ?g ([(?q3, Flying)], ?s\<lparr>ax_token := Some ''u'', ax_fetches := 2\<rparr>) ([sample_done], ?s\<lparr>ax_token := Some ''u'', ax_fetches := 2\<rparr>)"
    using ax_step.Answer[of 0 "[(?q3, Flying)]" ?q3 ?f ?g Ok_Answer "?s\<lparr>ax_token := Some ''u'', ax_fetches := 2\<rparr>"] by (simp add: D sample_done_def)
  show ?thesis using five_steps[of "ax_step ?f ?g", OF 1 2 3 4 5] by simp
qed

section \<open>How often a request goes out\<close>

lemma request_ok_sent: "request_ok a p \<Longrightarrow> rq_sent (fst p) \<le> 2"
  by (cases "(a, p)" rule: request_ok.cases) (auto simp: of_bool_def split: if_splits)

text \<open>
  C29
  In every run of the client each request goes out at most twice, and the page is left for the login page at
  most once, however many answers say that the session has expired.
\<close>

theorem sent_at_most_twice:
  assumes "(ax_step f g)\<^sup>*\<^sup>* (ps, setup_state meta) s" and "list_all is_new ps"
  shows "list_all (\<lambda>p. rq_sent (fst p) \<le> 2) (fst s) \<and> ax_redirects (snd s) \<le> 1"
  using http_run_inv[OF assms] request_ok_sent by (fastforce simp: system_inv_def list_all_iff of_bool_def)

theorem sent_at_most_twice_witness:
  "rq_sent (fst sample_done) \<le> 2"
  using sent_at_most_twice[OF relpowp_imp_rtranclp[OF sample_run]] by (simp add: is_new_def new_request_def)

section \<open>Runs end\<close>

text \<open>How many steps a request can still take part in, counting two for a request for a token.\<close>

fun todo :: "http_request \<times> phase \<Rightarrow> nat" where
  "todo (q, New) = 12"
| "todo (q, Asking) = (if rq_retried q then 4 else 10)"
| "todo (q, Flying) = (if rq_retried q then 2 else 8)"
| "todo (q, Asking_Again) = 6"
| "todo (q, Resolved) = 0"
| "todo (q, Rejected) = 0"
| "todo (q, Hung) = 0"

definition system_todo :: "http_system \<Rightarrow> nat" where
  "system_todo s = sum_list (map todo (fst s)) + of_bool (ax_fetching (snd s))"

lemma interceptor_todo:
  assumes "request_interceptor f q a = (p, a')"
  shows "todo p + of_bool (ax_fetching a') \<le> (if rq_retried q then 5 else 11) + of_bool (ax_fetching a)"
proof (cases "is_safe q")
  case False
  obtain t a1 where e: "ensureCsrfToken a = (t, a1)" by (cases "ensureCsrfToken a")
  show ?thesis using assms False ensure_cases[OF e] by (cases t) (auto simp: request_interceptor_def e)
qed (use assms in \<open>auto simp: request_interceptor_def\<close>)

lemma interceptor_with_token:
  assumes "ax_token a = Some u"
  shows "request_interceptor f q a = ((send_out f (if is_safe q then None else Some u) q, Flying), a)"
  using assms by (simp add: request_interceptor_def ensureCsrfToken_def)

lemma resend_todo:
  assumes "ax_token a = Some u"
  shows "resend f g t q a =
    ((send_out f (if is_safe q then None else Some u) (q\<lparr>rq_token := Some t, rq_data := decode_body g (rq_type q) (rq_data q)\<rparr>), Flying), a)"
  by (simp add: resend_def interceptor_with_token[OF assms] is_safe_def)

lemma response_todo:
  assumes "response_interceptor f g r q a = (p, a')"
  shows "todo p + of_bool (ax_fetching a') < todo (q, Flying) + of_bool (ax_fetching a)"
proof (cases r)
  case Forbidden
  show ?thesis
  proof (cases "rq_retried q")
    case False
    obtain t a1 where e: "ensureCsrfToken (a\<lparr>ax_token := None\<rparr>) = (t, a1)" by (cases "ensureCsrfToken (a\<lparr>ax_token := None\<rparr>)")
    note E = ensure_cases[OF e]
    show ?thesis
      using assms False Forbidden E by (cases t) (auto simp: response_interceptor_def Let_def e resend_todo)
  qed (use assms Forbidden in \<open>auto simp: response_interceptor_def\<close>)
qed (use assms in \<open>auto simp: response_interceptor_def split: if_splits\<close>)

lemma resume_todo:
  assumes "request_ok a0 p"
  shows "todo (resume f g a p) \<le> todo p"
proof -
  obtain q ph where p: "p = (q, ph)" by (cases p)
  show ?thesis using assms by (cases ph) (auto simp: p resume_def resend_todo split: option.splits)
qed

lemma sum_list_update_less:
  "i < length xs \<Longrightarrow> h x + (m :: nat) < h (xs ! i) + k \<Longrightarrow> sum_list (map h (xs[i := x])) + m < sum_list (map h xs) + k"
proof (induction xs arbitrary: i)
  case (Cons y ys)
  then show ?case by (cases i) auto
qed simp

lemma step_todo:
  assumes "ax_step f g s s'" and "system_inv s"
  shows "system_todo s' < system_todo s"
  using assms
proof cases
  case (Start i ps q a p a')
  have "request_ok a (q, New)" using assms(2) Start nth_mem[of i ps] by (auto simp: system_inv_def list_all_iff)
  then have "todo p + of_bool (ax_fetching a') < todo (ps ! i) + of_bool (ax_fetching a)"
    using interceptor_todo[OF Start(5)] by (simp add: Start(4))
  then show ?thesis using sum_list_update_less[OF Start(3)] by (simp add: system_todo_def Start(1,2))
next
  case (Answer i ps q r a p a')
  have "todo p + of_bool (ax_fetching a') < todo (ps ! i) + of_bool (ax_fetching a)"
    using response_todo[OF Answer(5)] by (simp add: Answer(4))
  then show ?thesis using sum_list_update_less[OF Answer(3)] by (simp add: system_todo_def Answer(1,2))
next
  case (Token a a' res ps)
  have "sum_list (map (todo \<circ> resume f g a') ps) \<le> sum_list (map todo ps)"
    using assms(2) resume_todo by (intro sum_list_mono) (auto simp: system_inv_def Token(1) list_all_iff)
  then show ?thesis by (simp add: system_todo_def Token token_arrives_def comp_def)
qed

lemma run_todo:
  assumes "(ax_step f g ^^ n) s s'" and "system_inv s"
  shows "n + system_todo s' \<le> system_todo s \<and> system_inv s'"
  using assms
proof (induction n arbitrary: s')
  case (Suc n)
  then obtain s1 where "(ax_step f g ^^ n) s s1" "ax_step f g s1 s'" by auto
  with Suc.IH[of s1] Suc.prems(2) step_todo[of f g s1 s'] step_inv[of f g s1 s'] show ?case by auto
qed simp

lemma not_settled_steps:
  assumes "i < length ps" and "\<not> settled (snd (ps ! i))" and "system_inv (ps, a)"
  shows "\<exists>s'. ax_step f g (ps, a) s'"
proof -
  obtain q ph where p: "ps ! i = (q, ph)" by (cases "ps ! i")
  have ok: "request_ok a (q, ph)" using assms(1,3) p by (auto simp: system_inv_def list_all_iff dest: nth_mem)
  obtain p1 a1 where r: "request_interceptor f q a = (p1, a1)" by (cases "request_interceptor f q a")
  obtain p2 a2 where w: "response_interceptor f g Ok_Answer q a = (p2, a2)" by (cases "response_interceptor f g Ok_Answer q a")
  show ?thesis using assms(1,2) p ok r w
    by (cases ph) (auto simp: settled_def intro: ax_step.Start ax_step.Answer ax_step.Token[OF _ refl])
qed

text \<open>
  C28
  No run of the client with a number of requests takes more than twelve steps for each of them, whatever the
  server answers, and a run that cannot go on has settled every request: none waits for ever for a token.
\<close>

theorem requests_settle:
  assumes "(ax_step f g ^^ n) (ps, setup_state meta) s" and "list_all is_new ps"
  shows "n \<le> 12 * length ps \<and> ((\<nexists>s'. ax_step f g s s') \<longrightarrow> list_all (\<lambda>p. settled (snd p)) (fst s))"
proof -
  note T = run_todo[OF assms(1) http_start_inv[OF assms(2)]]
  have "\<forall>p\<in>set ps. todo p = 12" using assms(2) by (auto simp: list_all_iff is_new_def)
  then have "sum_list (map todo ps) = 12 * length ps" by (induction ps) auto
  with T have n: "n \<le> 12 * length ps" by (simp add: system_todo_def setup_state_def)
  show ?thesis using n T not_settled_steps[of _ "fst s" "snd s" f g] by (auto simp: list_all_length)
qed

text \<open>The run of a request that is refused once, gets a new token and is sent again.\<close>

theorem requests_settle_witness:
  "\<exists>s. (ax_step (\<lambda>_. []) (\<lambda>_. JNull) ^^ 5) ([sample_new], setup_state None) s \<and> 5 \<le> 12 * length [sample_new]
     \<and> list_all (\<lambda>p. settled (snd p)) (fst s)"
  using requests_settle[OF sample_run] sample_run
  by (intro exI[of _ "([sample_done], (setup_state None)\<lparr>ax_token := Some ''u'', ax_fetches := 2\<rparr>)"])
    (simp add: is_new_def new_request_def sample_done_def settled_def)

section \<open>What is sent again\<close>

text \<open>
  A request that declares a JSON body and is sent again after a refusal, with a value that JSON text keeps,
  goes out with the body it had the first time and, unless its method needs none, with the new token.
\<close>

theorem resend_keeps_body:
  assumes "is_json_type (rq_type q)" and "json_clean (rq_data q)" and "\<not> is_str (rq_data q)" and "ax_token a = Some u"
  shows "(let first = send_out f t q; again = fst (fst (resend f g u first a)) in
    rq_data again = rq_data first \<and> rq_token again = Some u \<and> rq_method again = rq_method q \<and> rq_sent again = rq_sent q + 2)"
  using assms by (auto simp: resend_todo Let_def send_out_def encode_body_def decode_body_def json_parse_stringify)

theorem resend_keeps_body_witness:
  "(let q = (fst (new_request ''POST'' ''application/json'' (JObj [(''enable'', JBool True)])))\<lparr>rq_retried := True\<rparr>;
        a = (setup_state None)\<lparr>ax_token := Some ''u''\<rparr>; first = send_out (\<lambda>_. []) (Some ''t'') q in
    rq_data (fst (fst (resend (\<lambda>_. []) (\<lambda>_. JNull) ''u'' first a))) = rq_data first)"
  using resend_keeps_body[of "(fst (new_request ''POST'' ''application/json'' (JObj [(''enable'', JBool True)])))\<lparr>rq_retried := True\<rparr>"
      "(setup_state None)\<lparr>ax_token := Some ''u''\<rparr>" "''u''" "\<lambda>_. []" "Some ''t''" "\<lambda>_. JNull"]
  by (simp add: new_request_def json_type sample_clean Let_def setup_state_def del: json_clean.simps)

section \<open>The token of the page\<close>

definition from_page :: "string \<Rightarrow> http_system \<Rightarrow> bool" where
  "from_page m s \<longleftrightarrow> ax_meta (snd s) = Some m \<and> ax_token (snd s) \<in> {None, Some m} \<and> ax_fetches (snd s) = 0
     \<and> \<not> ax_fetching (snd s) \<and> (\<forall>p\<in>set (fst s). rq_token (fst p) \<in> {None, Some m})"

lemma ensure_from_page:
  "ax_meta a = Some m \<Longrightarrow> ax_token a \<in> {None, Some m} \<Longrightarrow> ensureCsrfToken a = (Some m, a\<lparr>ax_token := Some m\<rparr>)"
  by (auto simp: ensureCsrfToken_def)

lemma step_from_page:
  assumes "ax_step f g s s'" and "from_page m s"
  shows "from_page m s'"
  using assms
proof cases
  case (Start i ps q a p a')
  have q: "rq_token q \<in> {None, Some m}" using assms(2) Start nth_mem[of i ps] by (auto simp: from_page_def)
  have "rq_token (fst p) \<in> {None, Some m} \<and> (a' = a \<or> a' = a\<lparr>ax_token := Some m\<rparr>)"
    using Start(5) assms(2) q by (auto simp: from_page_def Start(1) request_interceptor_def ensure_from_page send_out_def split: if_splits)
  then show ?thesis using assms(2) by (auto simp: from_page_def Start(1,2) dest!: set_update_subset_insert[THEN subsetD])
next
  case (Answer i ps q r a p a')
  have q: "rq_token q \<in> {None, Some m}" using assms(2) Answer nth_mem[of i ps] by (auto simp: from_page_def)
  have "rq_token (fst p) \<in> {None, Some m} \<and> ax_meta a' = ax_meta a \<and> ax_token a' \<in> {ax_token a, Some m} \<and> ax_fetches a' = ax_fetches a
      \<and> ax_fetching a' = ax_fetching a"
    using Answer(5) assms(2) q
    by (cases r) (auto simp: from_page_def Answer(1) response_interceptor_def Let_def ensure_from_page resend_todo send_out_def split: if_splits)
  then show ?thesis using assms(2) by (auto simp: from_page_def Answer(1,2) dest!: set_update_subset_insert[THEN subsetD])
next
  case (Token a a' res ps)
  then show ?thesis using assms(2) by (simp add: from_page_def)
qed

text \<open>
  Where the page carries a token the client never asks the server for one: every request, the repeated one
  after a refusal included, goes out with the token of the page, so a refusal because that token is out of
  date is not cured by the retry.
\<close>

theorem meta_token_never_refreshed:
  assumes "(ax_step f g)\<^sup>*\<^sup>* (ps, setup_state (Some m)) s" and "\<forall>p\<in>set ps. rq_token (fst p) = None"
  shows "ax_fetches (snd s) = 0 \<and> (\<forall>p\<in>set (fst s). rq_token (fst p) \<in> {None, Some m})"
proof -
  have "from_page m s"
    using assms(1)
  proof (induction rule: rtranclp_induct)
    case base
    show ?case using assms(2) by (simp add: from_page_def setup_state_def)
  qed (rule step_from_page)
  then show ?thesis by (simp add: from_page_def)
qed

lemma sample_sent:
  "ax_step (\<lambda>_. []) (\<lambda>_. JNull) ([sample_new], setup_state (Some ''m''))
     ([(send_out (\<lambda>_. []) (Some ''m'') (fst sample_new), Flying)], setup_state (Some ''m''))"
  using ax_step.Start[of 0 "[sample_new]" "fst sample_new" "\<lambda>_. []" "setup_state (Some ''m'')"
      "(send_out (\<lambda>_. []) (Some ''m'') (fst sample_new), Flying)" "setup_state (Some ''m'')" "\<lambda>_. JNull"]
  by (simp add: request_interceptor_def post_not_safe ensureCsrfToken_def setup_state_def new_request_def)

theorem meta_token_never_refreshed_witness:
  "rq_token (send_out (\<lambda>_. []) (Some ''m'') (fst sample_new)) \<in> {None, Some ''m''}"
  using meta_token_never_refreshed[OF r_into_rtranclp, OF sample_sent] by (simp add: new_request_def)

end
