(* ===== verification/Template_Tabs.thy ===== *)
theory Template_Tabs
  imports Routing_Config Json "HOL-Library.Multiset"
begin

text \<open>
  The edits that the routing, balancer and outbound tabs make to the xray template
  (\<open>pages/xray/routing/RoutingTab.tsx\<close>, \<open>pages/xray/balancers/BalancersTab.tsx\<close> and
  \<open>BalancerFormModal.tsx\<close>, \<open>pages/xray/outbounds/OutboundsTab.tsx\<close>), each as a function on the template,
  and their composition. As in \<^theory_text>\<open>Routing_Config\<close>, \<open>None\<close> is a \<open>TypeError\<close>; it also stands for a
  string where the code expects an array, for a tag that is no string where one is compared, and for a
  \<open>routing\<close> that is an array.
\<close>

section \<open>Lists\<close>

definition elem_at :: "js list \<Rightarrow> nat \<Rightarrow> js" where
  "elem_at xs i = (if i < length xs then xs ! i else JUndef)"

text \<open>Assigning past the end of an array extends it.\<close>

definition set_at :: "nat \<Rightarrow> js \<Rightarrow> js list \<Rightarrow> js list" where
  "set_at i v xs = (if i < length xs then xs[i := v] else xs @ replicate (i - length xs) JUndef @ [v])"

definition remove_at :: "nat \<Rightarrow> 'a list \<Rightarrow> 'a list" where
  "remove_at i xs = take i xs @ drop (Suc i) xs"

definition insert_at :: "nat \<Rightarrow> 'a \<Rightarrow> 'a list \<Rightarrow> 'a list" where
  "insert_at i x xs = take i xs @ x # drop i xs"

definition swap_at :: "nat \<Rightarrow> nat \<Rightarrow> js list \<Rightarrow> js list" where
  "swap_at i j xs = set_at j (elem_at xs i) (set_at i (elem_at xs j) xs)"

text \<open>\<open>setTemplateSettings\<close> with a mutator works on a deep copy made through the JSON text.\<close>

definition mutate :: "(jobj \<Rightarrow> jobj option) \<Rightarrow> js \<Rightarrow> js option" where
  "mutate mutator prev =
     (if \<not> truthy prev then Some prev
      else case json_parse (json_stringify prev) of
        Some (JObj clone) \<Rightarrow> map_option JObj (mutator clone)
      | _ \<Rightarrow> None)"

section \<open>The rules\<close>

text \<open>A handler that leaves the template alone where there is no list of rules.\<close>

definition edit_rules :: "(js list \<Rightarrow> js list option) \<Rightarrow> jobj \<Rightarrow> jobj option" where
  "edit_rules f t =
     (case oget t ''routing'' of
        JObj r \<Rightarrow>
          (case oget r ''rules'' of
             JArr xs \<Rightarrow> map_option (\<lambda>ys. oput ''routing'' (JObj (oput ''rules'' (JArr ys) r)) t) (f xs)
           | v \<Rightarrow> if truthy v then None else Some t)
      | _ \<Rightarrow> Some t)"

text \<open>The routing section to work on, made where there is none.\<close>

definition routing_obj :: "jobj \<Rightarrow> jobj \<Rightarrow> jobj option" where
  "routing_obj fresh t = (case oget t ''routing'' of JObj r \<Rightarrow> Some r | v \<Rightarrow> if truthy v then None else Some fresh)"

definition onRuleConfirm :: "nat option \<Rightarrow> jobj \<Rightarrow> jobj \<Rightarrow> jobj option" where
  "onRuleConfirm editingIndex rule t =
     (if length (json_stringify (JObj rule)) \<le> 3 then Some t
      else
        map_option (\<lambda>r.
          let rules = js_elems (oget r ''rules'');
              rules = (case editingIndex of None \<Rightarrow> rules @ [JObj rule] | Some i \<Rightarrow> set_at i (JObj rule) rules)
          in oput ''routing'' (JObj (oput ''rules'' (JArr rules) r)) t) (routing_obj [(''rules'', JArr [])] t))"

text \<open>Deleting calls \<open>splice\<close> on whatever is not nullish.\<close>

definition deleteRule :: "nat \<Rightarrow> jobj \<Rightarrow> jobj option" where
  "deleteRule idx t =
     (let rules = jget (oget t ''routing'') ''rules'' in
      if nullish rules then Some t
      else if is_arr rules then edit_rules (\<lambda>xs. Some (remove_at idx xs)) t else None)"

definition moveRuleUp :: "nat \<Rightarrow> jobj \<Rightarrow> jobj option" where
  "moveRuleUp idx t = (if idx = 0 then Some t else edit_rules (\<lambda>xs. Some (swap_at (idx - 1) idx xs)) t)"

definition moveRuleDown :: "nat \<Rightarrow> jobj \<Rightarrow> jobj option" where
  "moveRuleDown idx t =
     edit_rules (\<lambda>xs. Some (if length xs \<le> Suc idx then xs else swap_at (Suc idx) idx xs)) t"

definition toggleRule :: "nat \<Rightarrow> bool \<Rightarrow> jobj \<Rightarrow> jobj option" where
  "toggleRule idx enabled t =
     edit_rules (\<lambda>xs.
       let rule = elem_at xs idx in
       if \<not> truthy rule then Some xs
       else if is_obj rule then Some (set_at idx (set_prop ''enabled'' (JBool enabled) rule) xs) else None) t"

text \<open>The end of a drag: \<open>None\<close> where the pointer has not moved the row.\<close>

definition dropRule :: "(nat \<times> nat) option \<Rightarrow> jobj \<Rightarrow> jobj option" where
  "dropRule drag t =
     (case drag of
        None \<Rightarrow> Some t
      | Some (from1, to1) \<Rightarrow>
          if from1 = to1 then Some t
          else edit_rules (\<lambda>xs. Some (insert_at to1 (elem_at xs from1) (remove_at from1 xs))) t)"

section \<open>The balancers\<close>

record balancer_form =
  bf_tag :: string
  bf_strategy :: string
  bf_selector :: "string list"
  bf_fallbackTag :: string
  bf_settings :: js

definition STRATEGIES :: "string list" where
  "STRATEGIES = [''random'', ''roundRobin'', ''leastPing'', ''leastLoad'']"

text \<open>
  What the dialog submits: nothing for an invalid form or the tag of another balancer. The schema of the
  strategy settings is a parameter.
\<close>

definition submitBalancer :: "(js \<Rightarrow> js option) \<Rightarrow> string list \<Rightarrow> balancer_form \<Rightarrow> balancer_form option" where
  "submitBalancer parse_settings otherTags st =
     (let settings = (if bf_settings st = JUndef then Some JUndef else parse_settings (bf_settings st)) in
      if trim (bf_tag st) = [] \<or> bf_strategy st \<notin> set STRATEGIES \<or> bf_selector st = [] \<or> settings = None
        \<or> trim (bf_tag st) \<in> set otherTags then None
      else Some (st\<lparr>bf_tag := trim (bf_tag st),
        bf_settings := (if bf_strategy st = ''leastLoad'' then the settings else JUndef)\<rparr>))"

definition wire_balancer :: "balancer_form \<Rightarrow> jobj" where
  "wire_balancer form =
     [(''tag'', JStr (bf_tag form)), (''selector'', JArr (map JStr (bf_selector form))), (''fallbackTag'', JStr (bf_fallbackTag form))]
     @ (if bf_strategy form \<noteq> [] \<and> bf_strategy form \<noteq> ''random''
        then [(''strategy'', JObj ([(''type'', JStr (bf_strategy form))]
               @ (if bf_strategy form = ''leastLoad'' \<and> truthy (bf_settings form) then [(''settings'', bf_settings form)] else [])))]
        else [])"

text \<open>The rules of the old tag are pointed at the new one.\<close>

definition relink_rules :: "js \<Rightarrow> string \<Rightarrow> jobj \<Rightarrow> jobj option" where
  "relink_rules oldTag newTag r =
     (case oldTag of
        JStr old \<Rightarrow>
          if old \<noteq> [] \<and> old \<noteq> newTag then
            (case oget r ''rules'' of
               JArr rules \<Rightarrow> Some (oput ''rules'' (JArr (map (rename_prop ''balancerTag'' old newTag) rules)) r)
             | v \<Rightarrow> if truthy v then None else Some r)
          else Some r
      | _ \<Rightarrow> if truthy oldTag then None else Some r)"

definition put_balancer :: "nat option \<Rightarrow> balancer_form \<Rightarrow> jobj \<Rightarrow> jobj option" where
  "put_balancer editingIndex form r =
     (let list = js_elems (oget r ''balancers''); wire = JObj (wire_balancer form) in
      case editingIndex of
        None \<Rightarrow> Some (oput ''balancers'' (JArr (list @ [wire])) r)
      | Some i \<Rightarrow> relink_rules (jget (elem_at list i) ''tag'') (bf_tag form) (oput ''balancers'' (JArr (set_at i wire list)) r))"

definition onBalancerConfirm :: "nat option \<Rightarrow> balancer_form \<Rightarrow> jobj \<Rightarrow> jobj option" where
  "onBalancerConfirm editingIndex form t =
     Option.bind (routing_obj [(''rules'', JArr []), (''balancers'', JArr [])] t) (\<lambda>r.
       Option.bind (put_balancer editingIndex form r) (\<lambda>r. syncObservatories (oput ''routing'' (JObj r) t)))"

definition deleteBalancer :: "nat \<Rightarrow> jobj \<Rightarrow> jobj option" where
  "deleteBalancer idx t =
     (case oget t ''routing'' of
        JObj r \<Rightarrow>
          (case oget r ''balancers'' of
             JArr bs \<Rightarrow> syncObservatories (oput ''routing'' (JObj (oput ''balancers'' (JArr (remove_at idx bs)) r)) t)
           | v \<Rightarrow> if truthy v then None else Some t)
      | _ \<Rightarrow> Some t)"

section \<open>The outbounds\<close>

definition edit_outbounds :: "(js list \<Rightarrow> js list) \<Rightarrow> jobj \<Rightarrow> jobj option" where
  "edit_outbounds f t =
     (case oget t ''outbounds'' of
        JArr xs \<Rightarrow> Some (oput ''outbounds'' (JArr (f xs)) t)
      | v \<Rightarrow> if truthy v then None else Some t)"

definition obj_of :: "js \<Rightarrow> jobj" where
  "obj_of v = (case v of JObj o1 \<Rightarrow> o1 | _ \<Rightarrow> [])"

definition onOutboundConfirm :: "nat option \<Rightarrow> jobj \<Rightarrow> jobj \<Rightarrow> jobj option" where
  "onOutboundConfirm editingIndex outbound t =
     (let list = js_elems (oget t ''outbounds'');
          t1 = oput ''outbounds'' (JArr list) t;
          newTag = (case oget outbound ''tag'' of JStr s \<Rightarrow> s | _ \<Rightarrow> [])
      in case editingIndex of
           None \<Rightarrow> if newTag = [] then Some t1 else Some (oput ''outbounds'' (JArr (list @ [JObj outbound])) t)
         | Some i \<Rightarrow>
             let t2 = oput ''outbounds'' (JArr (set_at i (JObj outbound) list)) t in
             (case jget (elem_at list i) ''tag'' of
                JStr old \<Rightarrow> if old \<noteq> [] \<and> newTag \<noteq> [] \<and> old \<noteq> newTag
                            then Some (obj_of (propagateOutboundTagRename (JObj t2) old newTag)) else Some t2
              | v \<Rightarrow> if truthy v then None else Some t2))"

definition deleteOutbound :: "nat \<Rightarrow> jobj \<Rightarrow> jobj option" where
  "deleteOutbound idx t =
     (if nullish (oget t ''outbounds'') then Some t
      else if is_arr (oget t ''outbounds'') then edit_outbounds (remove_at idx) t else None)"

definition setFirst :: "nat \<Rightarrow> jobj \<Rightarrow> jobj option" where
  "setFirst idx t = edit_outbounds (\<lambda>xs. elem_at xs idx # remove_at idx xs) t"

definition moveOutboundUp :: "nat \<Rightarrow> jobj \<Rightarrow> jobj option" where
  "moveOutboundUp idx t = (if idx = 0 then Some t else edit_outbounds (swap_at (idx - 1) idx) t)"

definition moveOutboundDown :: "nat \<Rightarrow> jobj \<Rightarrow> jobj option" where
  "moveOutboundDown idx t = edit_outbounds (\<lambda>xs. if length xs \<le> Suc idx then xs else swap_at (Suc idx) idx xs) t"

section \<open>The observatory editor and the basic lists\<close>

text \<open>A text that does not parse changes nothing; which of the two is edited is the view of the tab.\<close>

definition obs_key :: "bool \<Rightarrow> string" where
  "obs_key burst = (if burst then ''burstObservatory'' else ''observatory'')"

definition onObsTextChange :: "bool \<Rightarrow> string \<Rightarrow> jobj \<Rightarrow> jobj option" where
  "onObsTextChange burst next_text t =
     (case json_parse next_text of None \<Rightarrow> Some t | Some parsed \<Rightarrow> Some (oput (obs_key burst) parsed t))"

definition BITTORRENT_PROTOCOLS :: "js list" where
  "BITTORRENT_PROTOCOLS = [JStr ''bittorrent'']"

definition directSettings :: js where
  "directSettings = JObj [(''tag'', JStr ''direct''), (''protocol'', JStr ''freedom'')]"

definition ipv4Settings :: js where
  "ipv4Settings = JObj [(''tag'', JStr ''IPv4''), (''protocol'', JStr ''freedom''),
     (''settings'', JObj [(''domainStrategy'', JStr ''UseIPv4'')])]"

datatype basic_list = Blocked_IPs | Blocked_Domains | Direct_IPs | Direct_Domains | IPv4_Domains

text \<open>The five lists of \<open>RoutingBasic\<close>; the values are the texts of a select.\<close>

fun setBasicList :: "basic_list \<Rightarrow> js list \<Rightarrow> jobj \<Rightarrow> jobj option" where
  "setBasicList Blocked_IPs v t = ruleSetter t ''blocked'' ''ip'' v"
| "setBasicList Blocked_Domains v t = ruleSetter t ''blocked'' ''domain'' v"
| "setBasicList Direct_IPs v t = Option.bind (ruleSetter t ''direct'' ''ip'' v) (\<lambda>t. syncOutbound t ''direct'' directSettings)"
| "setBasicList Direct_Domains v t = Option.bind (ruleSetter t ''direct'' ''domain'' v) (\<lambda>t. syncOutbound t ''direct'' directSettings)"
| "setBasicList IPv4_Domains v t = Option.bind (ruleSetter t ''IPv4'' ''domain'' v) (\<lambda>t. syncOutbound t ''IPv4'' ipv4Settings)"

definition setTorrent :: "bool \<Rightarrow> jobj \<Rightarrow> jobj option" where
  "setTorrent checked t =
     Option.bind (ruleGetter (JObj t) ''blocked'' ''protocol'') (\<lambda>blockedProtocols.
       ruleSetter t ''blocked'' ''protocol''
         (if checked then blockedProtocols @ BITTORRENT_PROTOCOLS
          else filter (\<lambda>d. d \<notin> set BITTORRENT_PROTOCOLS) blockedProtocols))"

section \<open>All edits\<close>

datatype edit =
    Rule_Confirm "nat option" jobj | Rule_Delete nat | Rule_Up nat | Rule_Down nat | Rule_Toggle nat bool
  | Rule_Drop "(nat \<times> nat) option"
  | Balancer_Confirm "nat option" balancer_form | Balancer_Delete nat
  | Outbound_Confirm "nat option" jobj | Outbound_Delete nat | Outbound_First nat | Outbound_Up nat | Outbound_Down nat
  | Obs_Text bool string | Basic_List basic_list "js list" | Basic_Torrent bool

fun apply_edit :: "edit \<Rightarrow> jobj \<Rightarrow> jobj option" where
  "apply_edit (Rule_Confirm i r) t = onRuleConfirm i r t"
| "apply_edit (Rule_Delete i) t = deleteRule i t"
| "apply_edit (Rule_Up i) t = moveRuleUp i t"
| "apply_edit (Rule_Down i) t = moveRuleDown i t"
| "apply_edit (Rule_Toggle i b) t = toggleRule i b t"
| "apply_edit (Rule_Drop d) t = dropRule d t"
| "apply_edit (Balancer_Confirm i f) t = onBalancerConfirm i f t"
| "apply_edit (Balancer_Delete i) t = deleteBalancer i t"
| "apply_edit (Outbound_Confirm i r) t = onOutboundConfirm i r t"
| "apply_edit (Outbound_Delete i) t = deleteOutbound i t"
| "apply_edit (Outbound_First i) t = setFirst i t"
| "apply_edit (Outbound_Up i) t = moveOutboundUp i t"
| "apply_edit (Outbound_Down i) t = moveOutboundDown i t"
| "apply_edit (Obs_Text burst x) t = onObsTextChange burst x t"
| "apply_edit (Basic_List l v) t = setBasicList l v t"
| "apply_edit (Basic_Torrent checked) t = setTorrent checked t"

fun apply_edits :: "edit list \<Rightarrow> jobj \<Rightarrow> jobj option" where
  "apply_edits [] t = Some t"
| "apply_edits (e # es) t = Option.bind (apply_edit e t) (apply_edits es)"

section \<open>Observatories stay in step\<close>

lemma observe_kept:
  assumes "observe key d bs t = Some t" and "named_key key" and "oget t' key = oget t key" and "ohas t' key"
  shows "observe key d bs t' = Some t'"
proof -
  obtain sel ob where c: "collectSelectors bs = Some sel"
    and t: "t = oput key (JObj (oput ''subjectSelector'' (JArr sel) ob)) t"
    by (rule observe_Some[OF assms(1,2)])
  have v: "oget t key = JObj (oput ''subjectSelector'' (JArr sel) ob)" by (subst t) (simp del: oput.simps)
  have "oput key (oget t' key) t' = t'" by (rule oput_self) (use assms(2,4) in \<open>simp_all add: named_key_def\<close>)
  then show ?thesis using observe_same[OF assms(2) c] v assms(3) by simp
qed

text \<open>What the synchronisation looks at.\<close>

definition same_watch :: "jobj \<Rightarrow> jobj \<Rightarrow> bool" where
  "same_watch t t' \<longleftrightarrow> jget (oget t' ''routing'') ''balancers'' = jget (oget t ''routing'') ''balancers''
     \<and> (\<forall>k\<in>{''observatory'', ''burstObservatory''}. oget t' k = oget t k \<and> ohas t' k = ohas t k)"

lemma odel_fixed: "odel k o1 = o1 \<longleftrightarrow> \<not> ohas o1 k"
  by (metis odel_absent ohas_odel)

lemma observed_present:
  assumes "observe key d bs u = Some u" and "named_key key"
  shows "ohas u key"
  using observe_Some[OF assms] by (metis ohas_oput)

lemma truthy_ohas: "truthy (oget t k) \<Longrightarrow> ohas t k"
  by (cases "ohas t k") (simp_all add: oget_not_ohas)

lemma parts_kept:
  assumes "balancers_of t' = balancers_of t"
  shows "ping_part t = Some t \<Longrightarrow> oget t' ''observatory'' = oget t ''observatory'' \<Longrightarrow>
      ohas t' ''observatory'' = ohas t ''observatory'' \<Longrightarrow> ping_part t' = Some t'"
    and "burst_part bs t = Some t \<Longrightarrow> oget t' ''burstObservatory'' = oget t ''burstObservatory'' \<Longrightarrow>
      ohas t' ''burstObservatory'' = ohas t ''burstObservatory'' \<Longrightarrow> burst_part bs t' = Some t'"
proof -
  assume "ping_part t = Some t" and w: "oget t' ''observatory'' = oget t ''observatory''"
    "ohas t' ''observatory'' = ohas t ''observatory''"
  then show "ping_part t' = Some t'"
    by (auto simp: ping_part_def Let_def assms odel_fixed split: if_splits
        intro: observe_kept[OF _ observatory_names(1)] dest: observed_present[OF _ observatory_names(1)])
next
  assume "burst_part bs t = Some t" and w: "oget t' ''burstObservatory'' = oget t ''burstObservatory''"
    "ohas t' ''burstObservatory'' = ohas t ''burstObservatory''"
  then show "burst_part bs t' = Some t'"
    by (auto simp: burst_part_def Let_def odel_fixed split: if_splits
        intro: observe_kept[OF _ observatory_names(2)] dest: observed_present[OF _ observatory_names(2)])
qed

lemma sync_kept:
  assumes "syncObservatories t = Some t" and "same_watch t t'"
  shows "syncObservatories t' = Some t'"
proof -
  obtain g: "array_or_empty (jget (oget t ''routing'') ''balancers'') \<noteq> None" "\<not> list_ex nullish (balancers_of t)"
    and p: "ping_part t = Some t" and b: "burst_part (balancers_of t) t = Some t"
    by (rule sync_Some[OF assms(1)])
  have w: "balancers_of t' = balancers_of t" using assms(2) by (simp add: same_watch_def balancers_of_def)
  show ?thesis using g assms(2) w parts_kept[OF w] p b by (simp add: syncObservatories_parts same_watch_def)
qed

text \<open>An observatory edited by hand, if it goes on probing the same tags.\<close>

lemma observe_edited:
  assumes "observe key d bs t = Some t" and "named_key key"
    and "oget ob ''subjectSelector'' = jget (oget t key) ''subjectSelector''"
  shows "observe key d bs (oput key (JObj ob) t) = Some (oput key (JObj ob) t)"
proof -
  let ?t = "oput key (JObj ob) t"
  have n: "\<not> is_index key" using assms(2) by (simp add: named_key_def)
  obtain sel ob0 where c: "collectSelectors bs = Some sel"
    and t: "t = oput key (JObj (oput ''subjectSelector'' (JArr sel) ob0)) t"
    by (rule observe_Some[OF assms(1,2)])
  have "oget t key = JObj (oput ''subjectSelector'' (JArr sel) ob0)" by (subst t) (simp del: oput.simps)
  then have sel: "oget ob ''subjectSelector'' = JArr sel" using assms(3) by (simp del: oput.simps)
  then have "ohas ob ''subjectSelector''" by (intro truthy_ohas) simp
  then have ob: "oput ''subjectSelector'' (JArr sel) ob = ob" using oput_self[OF observatory_names(3)] sel by metis
  have v: "oget ?t key = JObj (oput ''subjectSelector'' (JArr sel) ob)" unfolding ob by simp
  have "oput key (oget ?t key) ?t = ?t" by (simp add: oput_over[OF n] del: oput.simps)
  from observe_same[OF assms(2) c v this] show ?thesis .
qed

lemma obs_edit_sync:
  assumes "syncObservatories t = Some t" and "truthy (oget t (obs_key burst))"
    and "oget ob ''subjectSelector'' = jget (oget t (obs_key burst)) ''subjectSelector''"
  shows "syncObservatories (oput (obs_key burst) (JObj ob) t) = Some (oput (obs_key burst) (JObj ob) t)"
proof -
  let ?t = "oput (obs_key burst) (JObj ob) t"
  obtain g: "array_or_empty (jget (oget t ''routing'') ''balancers'') \<noteq> None" "\<not> list_ex nullish (balancers_of t)"
    and p: "ping_part t = Some t" and b: "burst_part (balancers_of t) t = Some t"
    by (rule sync_Some[OF assms(1)])
  have r: "oget ?t ''routing'' = oget t ''routing''" by (simp add: obs_key_def del: oput.simps)
  then have w: "balancers_of ?t = balancers_of t" by (simp add: balancers_of_def)
  have parts: "ping_part ?t = Some ?t \<and> burst_part (balancers_of t) ?t = Some ?t"
  proof (cases burst)
    case True
    then have k: "obs_key burst = ''burstObservatory''" by (simp add: obs_key_def)
    have ping: "ping_part ?t = Some ?t" by (rule parts_kept(1)[OF w p]) (simp_all add: k del: oput.simps)
    have "observe ''burstObservatory'' DEFAULT_BURST_OBSERVATORY (burst_balancers (balancers_of t)) t = Some t"
    proof (rule ccontr)
      assume "\<not> ?thesis"
      then have "\<not> ohas t ''burstObservatory''"
        using b assms(2) k by (auto simp: burst_part_def burst_balancers_def Let_def odel_fixed split: if_splits)
      then show False using truthy_ohas[OF assms(2)] k by simp
    qed
    from observe_edited[OF this observatory_names(2), of ob] assms(3)
    have "observe ''burstObservatory'' DEFAULT_BURST_OBSERVATORY (burst_balancers (balancers_of t)) ?t = Some ?t" by (simp add: k)
    moreover have "of_strategy ''leastLoad'' (balancers_of t) \<noteq> [] \<or> filter optional_balancer (balancers_of t) \<noteq> []"
      using b truthy_ohas[OF assms(2)] k by (auto simp: burst_part_def odel_fixed)
    moreover have "truthy (oget ?t ''burstObservatory'')" by (simp add: k)
    ultimately have "burst_part (balancers_of t) ?t = Some ?t" by (auto simp: burst_part_def burst_balancers_def Let_def)
    with ping show ?thesis by blast
  next
    case False
    then have k: "obs_key burst = ''observatory''" by (simp add: obs_key_def)
    let ?bs = "of_strategy ''leastPing'' (balancers_of t)"
    have burst: "burst_part (balancers_of t) ?t = Some ?t" by (rule parts_kept(2)[OF w b]) (simp_all add: k del: oput.simps)
    have ne: "?bs \<noteq> []" using p truthy_ohas[OF assms(2)] k by (auto simp: ping_part_def odel_fixed)
    then have "observe ''observatory'' DEFAULT_OBSERVATORY ?bs t = Some t" using p by (simp add: ping_part_def)
    from observe_edited[OF this observatory_names(1), of ob] assms(3)
    have "observe ''observatory'' DEFAULT_OBSERVATORY ?bs ?t = Some ?t" by (simp add: k)
    then have "ping_part ?t = Some ?t" using ne by (simp add: ping_part_def w)
    with burst show ?thesis by blast
  qed
  then show ?thesis using g r w by (simp add: syncObservatories_parts)
qed

lemma same_watch_refl [simp]: "same_watch t t"
  by (simp add: same_watch_def)

lemma edit_rules_Some:
  assumes "edit_rules f t = Some t'"
  obtains "t' = t" | r xs ys where "oget t ''routing'' = JObj r" and "oget r ''rules'' = JArr xs" and "f xs = Some ys"
    and "t' = oput ''routing'' (JObj (oput ''rules'' (JArr ys) r)) t"
  using assms by (auto simp: edit_rules_def split: js.splits if_splits)

lemma edit_rules_watch: "edit_rules f t = Some t' \<Longrightarrow> same_watch t t'"
  by (erule edit_rules_Some) (simp_all add: same_watch_def del: oput.simps)

lemma rule_confirm_Some:
  assumes "onRuleConfirm i rule t = Some t'"
  obtains "t' = t" | r where "oget t ''routing'' = JObj r \<or> \<not> truthy (oget t ''routing'') \<and> r = [(''rules'', JArr [])]"
    and "t' = oput ''routing'' (JObj (oput ''rules'' (JArr (case i of None \<Rightarrow> js_elems (oget r ''rules'') @ [JObj rule]
           | Some i \<Rightarrow> set_at i (JObj rule) (js_elems (oget r ''rules'')))) r)) t"
proof (cases "length (json_stringify (JObj rule)) \<le> 3")
  case False
  then obtain r where r: "routing_obj [(''rules'', JArr [])] t = Some r"
    and t': "t' = oput ''routing'' (JObj (oput ''rules'' (JArr (case i of None \<Rightarrow> js_elems (oget r ''rules'') @ [JObj rule]
           | Some i \<Rightarrow> set_at i (JObj rule) (js_elems (oget r ''rules'')))) r)) t"
    using assms unfolding onRuleConfirm_def Let_def by (auto simp del: oput.simps json_gen.simps)
  have "oget t ''routing'' = JObj r \<or> \<not> truthy (oget t ''routing'') \<and> r = [(''rules'', JArr [])]"
    using r by (auto simp: routing_obj_def split: js.splits if_splits)
  then show ?thesis using t' that(2) by blast
next
  case True
  then have "t' = t" using assms unfolding onRuleConfirm_def by (simp only: if_True option.inject)
  then show ?thesis by (rule that(1))
qed

lemma not_truthy_jget: "\<not> truthy v \<Longrightarrow> jget v k = JUndef"
  by (cases v) simp_all

lemma rule_confirm_watch: "onRuleConfirm i rule t = Some t' \<Longrightarrow> same_watch t t'"
  by (erule rule_confirm_Some) (auto simp: same_watch_def not_truthy_jget simp del: oput.simps)

lemma edit_outbounds_watch: "edit_outbounds f t = Some t' \<Longrightarrow> same_watch t t'"
  by (auto simp: edit_outbounds_def same_watch_def simp del: oput.simps split: js.splits if_splits)

lemma rule_setter_Some:
  assumes "ruleSetter t tag p v = Some t'"
  obtains "t' = t" | r where "oget t ''routing'' = JObj r"
    and "t' = oput ''routing'' (JObj (oput ''rules'' (JArr (set_rules (js_elems (oget r ''rules'')) tag p v)) r)) t"
  using assms by (auto simp: ruleSetter_def split: js.splits if_splits)

lemma sync_outbound_Some:
  assumes "syncOutbound t tag st = Some t'"
  obtains "t' = t" | xs where "t' = oput ''outbounds'' (JArr xs) t"
  using assms
  by (auto simp: syncOutbound_def Let_def simp del: oput.simps split: if_splits option.splits js.splits)

lemma rule_setter_watch: "ruleSetter t tag p v = Some t' \<Longrightarrow> same_watch t t'"
  by (erule rule_setter_Some) (simp_all add: same_watch_def del: oput.simps)

lemma sync_outbound_watch: "syncOutbound t tag st = Some t' \<Longrightarrow> same_watch t t'"
  by (erule sync_outbound_Some) (simp_all add: same_watch_def del: oput.simps)

lemma same_watch_trans: "same_watch t u \<Longrightarrow> same_watch u v \<Longrightarrow> same_watch t v"
  by (simp add: same_watch_def)

lemma basic_watch:
  "setBasicList l v t = Some t' \<Longrightarrow> same_watch t t'" "setTorrent b t = Some t' \<Longrightarrow> same_watch t t'"
proof -
  show "setBasicList l v t = Some t' \<Longrightarrow> same_watch t t'"
    by (cases l) (auto split: bind_splits dest: rule_setter_watch sync_outbound_watch intro: same_watch_trans)
  show "setTorrent b t = Some t' \<Longrightarrow> same_watch t t'"
    by (auto simp: setTorrent_def split: bind_splits dest: rule_setter_watch)
qed

text \<open>
  The edits that may leave the observatories behind: one that gives an outbound another tag, and an observatory
  typed by hand that is new, is no object or probes other tags.
\<close>

fun unsynced :: "edit \<Rightarrow> jobj \<Rightarrow> bool" where
  "unsynced (Outbound_Confirm (Some i) outbound) t \<longleftrightarrow>
     (\<exists>old new. jget (elem_at (js_elems (oget t ''outbounds'')) i) ''tag'' = JStr old \<and> oget outbound ''tag'' = JStr new
        \<and> old \<noteq> [] \<and> new \<noteq> [] \<and> old \<noteq> new)"
| "unsynced (Obs_Text burst x) t \<longleftrightarrow>
     (case json_parse x of
        None \<Rightarrow> False
      | Some v \<Rightarrow> \<not> (is_obj v \<and> truthy (oget t (obs_key burst))
          \<and> jget v ''subjectSelector'' = jget (oget t (obs_key burst)) ''subjectSelector''))"
| "unsynced _ t \<longleftrightarrow> False"

fun all_synced :: "edit list \<Rightarrow> jobj \<Rightarrow> bool" where
  "all_synced [] t \<longleftrightarrow> True"
| "all_synced (e # es) t \<longleftrightarrow> \<not> unsynced e t \<and> (case apply_edit e t of None \<Rightarrow> True | Some t' \<Rightarrow> all_synced es t')"

lemma outbound_confirm_watch:
  assumes "onOutboundConfirm i outbound t = Some t'" and "\<not> unsynced (Outbound_Confirm i outbound) t"
  shows "same_watch t t'"
  using assms
  by (cases i) (auto simp: onOutboundConfirm_def Let_def same_watch_def simp del: oput.simps split: js.splits if_splits)

lemma balancer_edits_sync:
  "onBalancerConfirm i form t = Some t' \<Longrightarrow> syncObservatories t' = Some t'"
  "deleteBalancer j t = Some t' \<Longrightarrow> syncObservatories t = Some t \<Longrightarrow> syncObservatories t' = Some t'"
proof -
  show "onBalancerConfirm i form t = Some t' \<Longrightarrow> syncObservatories t' = Some t'"
    unfolding onBalancerConfirm_def bind_eq_Some_conv using sync_again by blast
  show "deleteBalancer j t = Some t' \<Longrightarrow> syncObservatories t = Some t \<Longrightarrow> syncObservatories t' = Some t'"
    by (auto simp: deleteBalancer_def simp del: oput.simps split: js.splits if_splits intro: sync_again)
qed

lemma edit_sync:
  assumes "apply_edit e t = Some t'" and "syncObservatories t = Some t" and "\<not> unsynced e t"
  shows "syncObservatories t' = Some t'"
proof -
  have "same_watch t t' \<or> syncObservatories t' = Some t'"
  proof (cases e)
    case (Outbound_Confirm i r)
    then show ?thesis using assms(1,3) outbound_confirm_watch by simp
  next
    case (Rule_Drop d)
    then show ?thesis using assms(1) edit_rules_watch
      by (fastforce simp: dropRule_def split: option.splits prod.splits if_splits)
  next
    case (Obs_Text burst x)
    then show ?thesis
    proof (cases "json_parse x")
      case (Some v)
      then obtain ob where "v = JObj ob" using assms(3) Obs_Text by (cases v) auto
      then show ?thesis using assms Obs_Text Some obs_edit_sync[OF assms(2)] by (auto simp: onObsTextChange_def)
    qed (use assms(1) Obs_Text in \<open>simp add: onObsTextChange_def\<close>)
  next
    case (Basic_List l v)
    then show ?thesis using assms(1) basic_watch(1) by simp
  next
    case (Basic_Torrent b)
    then show ?thesis using assms(1) basic_watch(2) by simp
  qed (use assms edit_rules_watch rule_confirm_watch edit_outbounds_watch balancer_edits_sync in
      \<open>fastforce simp: deleteRule_def moveRuleUp_def moveRuleDown_def toggleRule_def deleteOutbound_def setFirst_def
         moveOutboundUp_def moveOutboundDown_def Let_def split: if_splits\<close>)+
  then show ?thesis using sync_kept[OF assms(2)] by blast
qed

text \<open>
  C25
  Whatever the tabs do to the rules, the basic lists, the balancers and the outbounds, and whatever is typed into
  the observatory editor, a template whose observatories match its balancers stays so, as long as no outbound is
  given another tag and a typed observatory was there before and probes the tags it did: synchronising after any
  sequence of edits changes nothing.
\<close>

theorem observatories_in_step:
  assumes "apply_edits es t = Some t'" and "syncObservatories t = Some t" and "all_synced es t"
  shows "syncObservatories t' = Some t'"
  using assms
proof (induction es arbitrary: t)
  case (Cons e es)
  then show ?case using edit_sync[of e t] by (auto split: bind_splits option.splits)
qed simp

definition watched_template :: jobj where
  "watched_template =
     [(''routing'', JObj [(''rules'', JArr []), (''balancers'', JArr [JObj [(''tag'', JStr ''b''), (''selector'', JArr [JStr ''a'']),
         (''fallbackTag'', JStr []), (''strategy'', JObj [(''type'', JStr ''leastPing'')])]])]),
      (''outbounds'', JArr [JObj [(''tag'', JStr ''a'')]]),
      (''observatory'', JObj (oput ''subjectSelector'' (JArr [JStr ''a'']) DEFAULT_OBSERVATORY))]"

lemma watched_sync: "syncObservatories watched_template = Some watched_template"
  by code_simp

theorem observatories_in_step_witness:
  "\<exists>t'. apply_edits [Rule_Confirm None [(''type'', JStr ''field'')], Balancer_Delete 0] watched_template = Some t'
     \<and> syncObservatories t' = Some t'"
proof -
  let ?es = "[Rule_Confirm None [(''type'', JStr ''field'')], Balancer_Delete 0]"
  have "apply_edits ?es watched_template \<noteq> None" by code_simp
  then obtain t' where e: "apply_edits ?es watched_template = Some t'" by blast
  have "all_synced ?es watched_template" by (simp split: option.splits)
  from observatories_in_step[OF e watched_sync this] e show ?thesis by blast
qed

text \<open>
  The exception: the rename reaches the selectors of the balancers but not the observatories, and the
  outbounds tab does not synchronise them, so the observatory goes on probing a tag that is gone.
\<close>

lemma rename_leaves_observatory:
  "map_option (\<lambda>t. (jget (elem_at (balancers_of t) 0) ''selector'', jget (oget t ''observatory'') ''subjectSelector''))
     (apply_edit (Outbound_Confirm (Some 0) [(''tag'', JStr ''c'')]) watched_template)
   = Some (JArr [JStr ''c''], JArr [JStr ''a''])"
  by code_simp

section \<open>Rules keep their balancers\<close>

definition balancer_tags :: "jobj \<Rightarrow> js set" where
  "balancer_tags t = (\<lambda>b. jget b ''tag'') ` set (balancers_of t)"

text \<open>Every balancer a rule names is one of the template.\<close>

definition links_ok :: "jobj \<Rightarrow> bool" where
  "links_ok t \<longleftrightarrow> (\<forall>r\<in>set (rules_of t). \<forall>s. jget r ''balancerTag'' = JStr s \<longrightarrow> s \<noteq> [] \<longrightarrow> JStr s \<in> balancer_tags t)"

lemma set_set_at: "set (set_at i v xs) \<subseteq> insert v (insert JUndef (set xs))"
  by (auto simp: set_at_def dest: set_update_subset_insert[THEN subsetD])

lemma elem_at_in: "elem_at xs i \<in> insert JUndef (set xs)"
  by (simp add: elem_at_def)

lemma set_swap_at: "set (swap_at i j xs) \<subseteq> insert JUndef (set xs)"
  using set_set_at[of j "elem_at xs i" "set_at i (elem_at xs j) xs"] set_set_at[of i "elem_at xs j" xs] elem_at_in[of xs i] elem_at_in[of xs j]
  by (auto simp: swap_at_def)

lemma set_remove_at: "set (remove_at i xs) \<subseteq> set xs"
  by (auto simp: remove_at_def dest: in_set_takeD in_set_dropD)

lemma set_insert_at: "set (insert_at i x xs) = insert x (set xs)"
proof -
  have "set xs = set (take i xs) \<union> set (drop i xs)" by (metis append_take_drop_id set_append)
  then show ?thesis by (auto simp: insert_at_def)
qed

text \<open>What may become of a rule without its balancer changing.\<close>

definition rules_from :: "js list \<Rightarrow> js list \<Rightarrow> bool" where
  "rules_from xs ys \<longleftrightarrow> (\<forall>y\<in>set ys. jget y ''balancerTag'' = JUndef \<or> (\<exists>x\<in>set xs. jget y ''balancerTag'' = jget x ''balancerTag''))"

lemma rules_from_sub: "set ys \<subseteq> insert JUndef (set xs) \<Longrightarrow> rules_from xs ys"
  by (fastforce simp: rules_from_def)

lemma links_from:
  assumes "links_ok t" and "rules_from (rules_of t) (rules_of t')" and "balancer_tags t' = balancer_tags t"
  shows "links_ok t'"
  using assms by (fastforce simp: links_ok_def rules_from_def)

lemma edit_rules_links:
  assumes "edit_rules f t = Some t'" and "links_ok t" and "\<And>xs ys. f xs = Some ys \<Longrightarrow> rules_from xs ys"
  shows "links_ok t'"
  using assms(1)
proof (rule edit_rules_Some)
  fix r xs ys
  assume "oget t ''routing'' = JObj r" "oget r ''rules'' = JArr xs" "f xs = Some ys"
    and "t' = oput ''routing'' (JObj (oput ''rules'' (JArr ys) r)) t"
  then show "links_ok t'" using assms(3)[of xs ys]
    by (intro links_from[OF assms(2)]) (simp_all add: rules_of_def js_elems_def balancer_tags_def balancers_of_def del: oput.simps)
qed (use assms(2) in simp)

lemma move_from:
  "rules_from xs (swap_at i j xs)" "rules_from xs (remove_at i xs)" "rules_from xs (insert_at j (elem_at xs i) (remove_at i xs))"
  "rules_from xs xs"
  using set_swap_at[of i j xs] set_remove_at[of i xs] elem_at_in[of xs i]
  by (auto intro!: rules_from_sub simp: set_insert_at)

lemma toggle_from:
  assumes "(let rule = elem_at xs i in if \<not> truthy rule then Some xs
       else if is_obj rule then Some (set_at i (set_prop ''enabled'' (JBool b) rule) xs) else None) = Some ys"
  shows "rules_from xs ys"
proof (cases "truthy (elem_at xs i)")
  case True
  then have e: "elem_at xs i \<in> set xs" using elem_at_in[of xs i] by auto
  have "ys = set_at i (set_prop ''enabled'' (JBool b) (elem_at xs i)) xs" using assms True by (simp add: Let_def split: if_splits)
  then show ?thesis using set_set_at[of i "set_prop ''enabled'' (JBool b) (elem_at xs i)" xs] e by (fastforce simp: rules_from_def)
qed (use assms move_from(4) in \<open>simp add: Let_def\<close>)

text \<open>
  The edits that may be asked for: a rule is confirmed with a balancer of the template or none, and no
  balancer is deleted that a rule names.
\<close>

fun edit_fits :: "edit \<Rightarrow> jobj \<Rightarrow> bool" where
  "edit_fits (Rule_Confirm i rule) t \<longleftrightarrow> oget rule ''balancerTag'' \<in> insert JUndef (balancer_tags t)"
| "edit_fits (Balancer_Delete i) t \<longleftrightarrow>
     (\<forall>r\<in>set (rules_of t). \<forall>s. jget r ''balancerTag'' = JStr s \<longrightarrow> s \<noteq> [] \<longrightarrow>
        JStr s \<in> (\<lambda>b. jget b ''tag'') ` set (remove_at i (balancers_of t)))"
| "edit_fits _ t \<longleftrightarrow> True"

fun edits_fit :: "edit list \<Rightarrow> jobj \<Rightarrow> bool" where
  "edits_fit [] t \<longleftrightarrow> True"
| "edits_fit (e # es) t \<longleftrightarrow> edit_fits e t \<and> (case apply_edit e t of None \<Rightarrow> True | Some t' \<Rightarrow> edits_fit es t')"

lemma same_routing_links: "oget t' ''routing'' = oget t ''routing'' \<Longrightarrow> links_ok t' = links_ok t"
  by (simp add: links_ok_def rules_of_def balancer_tags_def balancers_of_def)

lemma edit_outbounds_links: "edit_outbounds f t = Some t' \<Longrightarrow> links_ok t' = links_ok t"
  by (rule same_routing_links) (auto simp: edit_outbounds_def simp del: oput.simps split: js.splits if_splits)

lemma rename_keeps:
  "jget (rename_prop ''outboundTag'' old new r) ''balancerTag'' = jget r ''balancerTag''"
  "jget (rename_balancer old new b) ''tag'' = jget b ''tag''"
proof -
  show "jget (rename_prop ''outboundTag'' old new r) ''balancerTag'' = jget r ''balancerTag''" by (simp add: get_rename_prop)
  have "rename_balancer old new b = map_array ''selector'' (rename_tag old new) (rename_prop ''fallbackTag'' old new b)"
    unfolding rename_balancer_def Let_def map_array_def ..
  then show "jget (rename_balancer old new b) ''tag'' = jget b ''tag''" by (simp add: get_map_array get_rename_prop)
qed

lemma obj_of_get: "oget (obj_of v) k = jget v k"
  by (cases v) (simp_all add: obj_of_def)

lemma elems_simps: "js_elems (JArr xs) = xs" "\<not> is_arr v \<Longrightarrow> js_elems v = []"
  by (cases v; simp add: js_elems_def)+

lemma rename_links:
  assumes "old \<noteq> []" and "new \<noteq> []" and "old \<noteq> new" and "links_ok t"
  shows "links_ok (obj_of (propagateOutboundTagRename (JObj t) old new))"
proof -
  let ?t = "obj_of (propagateOutboundTagRename (JObj t) old new)"
  have r: "oget ?t ''routing'' = renamed_routing old new (oget t ''routing'')"
    using routing_after[OF assms(1-3), of "JObj t"] by (simp add: obj_of_get)
  have "rules_of ?t = map (rename_prop ''outboundTag'' old new) (rules_of t)"
    "balancers_of ?t = map (rename_balancer old new) (balancers_of t)"
    by (simp_all add: rules_of_def balancers_of_def r renamed_routing_def elems_simps get_map_array[of "''balancers''"] get_map_array[of "''rules''"])
  moreover have "balancer_tags ?t = balancer_tags t"
    unfolding balancer_tags_def calculation(2) by (simp add: image_image rename_keeps)
  ultimately show ?thesis using assms(4) by (auto simp: links_ok_def rename_keeps)
qed

lemma set_at_keeps: "b \<in> set xs \<Longrightarrow> b \<in> set (set_at i v xs) \<or> i < length xs \<and> b = xs ! i"
proof (cases "i < length xs")
  case True
  assume "b \<in> set xs"
  then obtain k where "k < length xs" "b = xs ! k" by (metis in_set_conv_nth)
  then show ?thesis using True nth_list_update_neq[of i k xs v] set_update_memI nth_mem[of k "xs[i := v]"]
    by (cases "k = i") (auto simp: set_at_def)
qed (simp add: set_at_def)

lemma set_at_has: "v \<in> set (set_at i v xs)"
  by (auto simp: set_at_def set_update_memI)

lemma wire_tag: "jget (JObj (wire_balancer form)) ''tag'' = JStr (bf_tag form)"
  by (simp add: wire_balancer_def)

text \<open>A balancer put in place of another one, with the rules of the old tag pointed at the new one.\<close>

lemma replaced_links:
  assumes "links_ok t" and "balancers_of t' = set_at i (JObj (wire_balancer form)) (balancers_of t)"
    and "rules_of t' = (case jget (elem_at (balancers_of t) i) ''tag'' of
           JStr old \<Rightarrow> if old \<noteq> [] \<and> old \<noteq> bf_tag form then map (rename_prop ''balancerTag'' old (bf_tag form)) (rules_of t) else rules_of t
         | _ \<Rightarrow> rules_of t)"
  shows "links_ok t'"
  unfolding links_ok_def
proof (intro ballI allI impI)
  fix r s
  assume r: "r \<in> set (rules_of t')" "jget r ''balancerTag'' = JStr s" "s \<noteq> []"
  let ?bs = "balancers_of t" and ?n = "bf_tag form"
  have new: "JStr ?n \<in> balancer_tags t'"
    unfolding balancer_tags_def assms(2) using set_at_has wire_tag by (metis image_eqI)
  have other: "JStr s \<in> balancer_tags t'" if "JStr s \<in> balancer_tags t" "jget (elem_at ?bs i) ''tag'' \<noteq> JStr s"
  proof -
    obtain b where b: "b \<in> set ?bs" "jget b ''tag'' = JStr s" using \<open>JStr s \<in> balancer_tags t\<close> by (auto simp: balancer_tags_def)
    then have "b \<in> set (balancers_of t')" using set_at_keeps[OF b(1), of i "JObj (wire_balancer form)"] that(2) unfolding assms(2)
      by (auto simp: elem_at_def split: if_splits)
    then show ?thesis using b(2) unfolding balancer_tags_def by (metis image_eqI)
  qed
  show "JStr s \<in> balancer_tags t'"
  proof (cases "\<exists>old. jget (elem_at ?bs i) ''tag'' = JStr old \<and> old \<noteq> [] \<and> old \<noteq> ?n")
    case True
    then obtain old where o: "jget (elem_at ?bs i) ''tag'' = JStr old" "old \<noteq> []" "old \<noteq> ?n" by blast
    then obtain x where x: "x \<in> set (rules_of t)" "r = rename_prop ''balancerTag'' old ?n x" using r(1) assms(3) by auto
    then have j: "jget r ''balancerTag'' = rename_tag old ?n (jget x ''balancerTag'')" by (simp add: get_rename_prop)
    show ?thesis
    proof (cases "jget x ''balancerTag'' = JStr old")
      case True
      then show ?thesis using j r(2) new by (simp add: rename_tag_def)
    next
      case False
      then have "jget x ''balancerTag'' = JStr s" using j r(2) by (simp add: rename_tag_def split: if_splits)
      then show ?thesis using other assms(1) x(1) r(3) False o(1) by (auto simp: links_ok_def)
    qed
  next
    case False
    then have "rules_of t' = rules_of t" using assms(3) by (auto split: js.splits)
    then have "JStr s \<in> balancer_tags t" using assms(1) r by (auto simp: links_ok_def)
    then show ?thesis using other new False r(3) by fastforce
  qed
qed

lemma relink_Some:
  assumes "relink_rules oldTag new r = Some r'"
  shows "oget r' ''balancers'' = oget r ''balancers''"
    and "js_elems (oget r' ''rules'') = (case oldTag of
        JStr old \<Rightarrow> if old \<noteq> [] \<and> old \<noteq> new then map (rename_prop ''balancerTag'' old new) (js_elems (oget r ''rules'')) else js_elems (oget r ''rules'')
      | _ \<Rightarrow> js_elems (oget r ''rules''))"
proof -
  show "oget r' ''balancers'' = oget r ''balancers''"
    using assms by (auto simp: relink_rules_def simp del: oput.simps split: js.splits if_splits)
  show "js_elems (oget r' ''rules'') = (case oldTag of
        JStr old \<Rightarrow> if old \<noteq> [] \<and> old \<noteq> new then map (rename_prop ''balancerTag'' old new) (js_elems (oget r ''rules'')) else js_elems (oget r ''rules'')
      | _ \<Rightarrow> js_elems (oget r ''rules''))"
    using assms by (auto simp: relink_rules_def elems_simps simp del: oput.simps split: js.splits if_splits)
qed

lemma routing_obj_elems:
  assumes "routing_obj fresh t = Some r" and "js_elems (oget fresh k) = []"
  shows "js_elems (oget r k) = js_elems (jget (oget t ''routing'') k)"
  using assms by (auto simp: routing_obj_def elems_simps split: js.splits if_splits)

lemma confirm_links:
  assumes "onBalancerConfirm i form t = Some t'" and "links_ok t"
  shows "links_ok t'"
proof -
  let ?w = "JObj (wire_balancer form)"
  obtain r r' where r: "routing_obj [(''rules'', JArr []), (''balancers'', JArr [])] t = Some r" and p: "put_balancer i form r = Some r'"
    and s: "syncObservatories (oput ''routing'' (JObj r') t) = Some t'"
    using assms(1) by (auto simp: onBalancerConfirm_def split: bind_splits)
  have bs: "js_elems (oget r ''balancers'') = balancers_of t" "js_elems (oget r ''rules'') = rules_of t"
    using routing_obj_elems[OF r] by (simp_all add: balancers_of_def rules_of_def elems_simps)
  have "oget t' ''routing'' = JObj r'" by (rule sync_Some[OF s]) (simp del: oput.simps)
  then have t': "balancers_of t' = js_elems (oget r' ''balancers'')" "rules_of t' = js_elems (oget r' ''rules'')"
    by (simp_all add: balancers_of_def rules_of_def)
  show ?thesis
  proof (cases i)
    case None
    then have "r' = oput ''balancers'' (JArr (balancers_of t @ [?w])) r" using p by (simp add: put_balancer_def bs)
    then have "rules_of t' = rules_of t" "balancers_of t' = balancers_of t @ [?w]"
      by (simp_all add: t' bs elems_simps del: oput.simps)
    then show ?thesis using assms(2) by (auto simp: links_ok_def balancer_tags_def)
  next
    case (Some k)
    then have "relink_rules (jget (elem_at (balancers_of t) k) ''tag'') (bf_tag form) (oput ''balancers'' (JArr (set_at k ?w (balancers_of t))) r) = Some r'"
      using p by (simp add: put_balancer_def bs Let_def)
    note R = relink_Some[OF this]
    have keep: "oget (oput ''balancers'' v r) ''rules'' = oget r ''rules''" for v by simp
    have "balancers_of t' = set_at k ?w (balancers_of t)" by (simp add: t' R(1) elems_simps del: oput.simps)
    then show ?thesis by (rule replaced_links[OF assms(2)]) (unfold t' R(2) keep bs, rule refl)
  qed
qed

lemma delete_links:
  assumes "deleteBalancer i t = Some t'" and "links_ok t" and "edit_fits (Balancer_Delete i) t"
  shows "links_ok t'"
proof -
  consider "t' = t" | r bs where "oget t ''routing'' = JObj r" "oget r ''balancers'' = JArr bs"
      "syncObservatories (oput ''routing'' (JObj (oput ''balancers'' (JArr (remove_at i bs)) r)) t) = Some t'"
    using assms(1) by (auto simp: deleteBalancer_def simp del: oput.simps split: js.splits if_splits)
  then show ?thesis
  proof cases
    case 2
    have "oget t' ''routing'' = JObj (oput ''balancers'' (JArr (remove_at i bs)) r)"
      by (rule sync_Some[OF 2(3)]) (simp del: oput.simps)
    then have "balancers_of t' = remove_at i (balancers_of t)" "rules_of t' = rules_of t"
      using 2(1,2) by (simp_all add: balancers_of_def rules_of_def elems_simps del: oput.simps)
    then show ?thesis using assms(3) by (auto simp: links_ok_def balancer_tags_def)
  qed (use assms(2) in simp)
qed

lemma rule_confirm_links:
  assumes "onRuleConfirm i rule t = Some t'" and "links_ok t" and "edit_fits (Rule_Confirm i rule) t"
  shows "links_ok t'"
  using assms(1)
proof (rule rule_confirm_Some)
  fix r
  assume r: "oget t ''routing'' = JObj r \<or> \<not> truthy (oget t ''routing'') \<and> r = [(''rules'', JArr [])]"
    and t': "t' = oput ''routing'' (JObj (oput ''rules'' (JArr (case i of None \<Rightarrow> js_elems (oget r ''rules'') @ [JObj rule]
           | Some i \<Rightarrow> set_at i (JObj rule) (js_elems (oget r ''rules'')))) r)) t"
  have rs: "js_elems (oget r ''rules'') = rules_of t" "js_elems (oget r ''balancers'') = balancers_of t"
    using r by (auto simp: rules_of_def balancers_of_def not_truthy_jget elems_simps)
  have "set (rules_of t') \<subseteq> insert (JObj rule) (insert JUndef (set (rules_of t)))"
    using set_set_at[of _ "JObj rule" "rules_of t"] by (auto simp: t' rules_of_def[of "oput _ _ _"] rs elems_simps simp del: oput.simps split: option.splits)
  moreover have "balancer_tags t' = balancer_tags t"
    by (simp add: t' balancer_tags_def balancers_of_def[of "oput _ _ _"] rs del: oput.simps)
  ultimately show ?thesis using assms(2,3) by (fastforce simp: links_ok_def)
qed (use assms(2) in simp)

lemma outbound_confirm_links:
  assumes "onOutboundConfirm i outbound t = Some t'" and "links_ok t"
  shows "links_ok t'"
proof -
  have l: "links_ok (oput ''outbounds'' v t)" for v
    using assms(2) same_routing_links[of "oput ''outbounds'' v t" t] by (simp del: oput.simps)
  have r: "old \<noteq> [] \<Longrightarrow> new \<noteq> [] \<Longrightarrow> old \<noteq> new \<Longrightarrow> links_ok (obj_of (propagateOutboundTagRename (JObj (oput ''outbounds'' v t)) old new))"
    for old new v by (rule rename_links[OF _ _ _ l])
  show ?thesis using assms(1) l r unfolding onOutboundConfirm_def Let_def by (fastforce split: option.splits js.splits if_splits simp del: oput.simps)
qed

lemma rule_edit_links:
  assumes "links_ok t"
  shows "deleteRule i t = Some t' \<Longrightarrow> links_ok t'" and "moveRuleUp i t = Some t' \<Longrightarrow> links_ok t'"
    and "moveRuleDown i t = Some t' \<Longrightarrow> links_ok t'" and "toggleRule i b t = Some t' \<Longrightarrow> links_ok t'"
    and "dropRule d t = Some t' \<Longrightarrow> links_ok t'"
proof -
  note L = edit_rules_links[OF _ assms]
  have f: "edit_rules (\<lambda>xs. Some (g xs)) t = Some t' \<Longrightarrow> (\<And>xs. rules_from xs (g xs)) \<Longrightarrow> links_ok t'" for g
    by (rule L) auto
  show "deleteRule i t = Some t' \<Longrightarrow> links_ok t'" using f[OF _ move_from(2)] assms by (simp add: deleteRule_def Let_def split: if_splits)
  show "moveRuleUp i t = Some t' \<Longrightarrow> links_ok t'" using f[OF _ move_from(1)] assms by (simp add: moveRuleUp_def split: if_splits)
  show "moveRuleDown i t = Some t' \<Longrightarrow> links_ok t'" using f[of "\<lambda>xs. if length xs \<le> Suc i then xs else swap_at (Suc i) i xs"] move_from(1,4)
    by (simp add: moveRuleDown_def)
  show "toggleRule i b t = Some t' \<Longrightarrow> links_ok t'" unfolding toggleRule_def by (erule L) (rule toggle_from)
  show "dropRule d t = Some t' \<Longrightarrow> links_ok t'"
  proof (cases "d = None \<or> fst (the d) = snd (the d)")
    case False
    then obtain m n where d: "d = Some (m, n)" "m \<noteq> n" by auto
    assume "dropRule d t = Some t'"
    then show ?thesis using f[OF _ move_from(3)[of _ n m]] d by (simp add: dropRule_def)
  qed (use assms in \<open>auto simp: dropRule_def split: option.splits prod.splits\<close>)
qed

lemma replaced_rules_from:
  "p \<noteq> ''balancerTag'' \<Longrightarrow> y \<in> set (replace_rules tag p v i xs) \<Longrightarrow> \<exists>x\<in>set xs. jget y ''balancerTag'' = jget x ''balancerTag''"
proof (induction tag p v i xs rule: replace_rules.induct)
  case (2 tag p v i rule rules)
  then show ?case by (auto simp: set_prop_def split: if_splits js.splits)
qed simp

lemma set_rules_from:
  assumes "p \<in> {''ip'', ''domain'', ''protocol''}"
  shows "rules_from xs (set_rules xs tag p v)"
proof -
  have "p \<noteq> ''balancerTag''" "jget (field_rule tag p v) ''balancerTag'' = JUndef" using assms by (auto simp: field_rule_def)
  then show ?thesis using replaced_rules_from[of p _ tag v False xs] by (auto simp: rules_from_def set_rules_def)
qed

lemma rule_setter_links:
  assumes "ruleSetter t tag p v = Some t'" and "p \<in> {''ip'', ''domain'', ''protocol''}" and "links_ok t"
  shows "links_ok t'"
  using assms(1)
proof (rule rule_setter_Some)
  fix r
  assume "oget t ''routing'' = JObj r"
    and "t' = oput ''routing'' (JObj (oput ''rules'' (JArr (set_rules (js_elems (oget r ''rules'')) tag p v)) r)) t"
  then show "links_ok t'" using set_rules_from[OF assms(2)]
    by (intro links_from[OF assms(3)]) (simp_all add: rules_of_def elems_simps balancer_tags_def balancers_of_def del: oput.simps)
qed (use assms(3) in simp)

lemma sync_outbound_links: "syncOutbound t tag st = Some t' \<Longrightarrow> links_ok t' = links_ok t"
  by (erule sync_outbound_Some) (simp_all del: oput.simps, rule same_routing_links, simp del: oput.simps)

lemma basic_links:
  assumes "links_ok t"
  shows "setBasicList l v t = Some t' \<Longrightarrow> links_ok t'" "setTorrent b t = Some t' \<Longrightarrow> links_ok t'"
proof -
  show "setBasicList l v t = Some t' \<Longrightarrow> links_ok t'"
    using assms by (cases l) (auto split: bind_splits dest: rule_setter_links sync_outbound_links)
  show "setTorrent b t = Some t' \<Longrightarrow> links_ok t'"
    using assms by (auto simp: setTorrent_def split: bind_splits dest: rule_setter_links)
qed

lemma obs_text_links: "onObsTextChange burst x t = Some t' \<Longrightarrow> links_ok t' = links_ok t"
  by (rule same_routing_links) (auto simp: onObsTextChange_def obs_key_def simp del: oput.simps split: option.splits)

lemma edit_links:
  assumes "apply_edit e t = Some t'" and "links_ok t" and "edit_fits e t"
  shows "links_ok t'"
proof (cases e)
  case (Rule_Confirm i r)
  then show ?thesis using assms rule_confirm_links by simp
next
  case (Balancer_Confirm i form)
  then show ?thesis using assms confirm_links by simp
next
  case (Balancer_Delete i)
  then show ?thesis using assms delete_links by simp
next
  case (Outbound_Confirm i r)
  then show ?thesis using assms outbound_confirm_links by simp
next
  case (Obs_Text burst x)
  then show ?thesis using assms obs_text_links by simp
next
  case (Basic_List l v)
  then show ?thesis using assms basic_links(1) by simp
next
  case (Basic_Torrent b)
  then show ?thesis using assms basic_links(2) by simp
qed (use assms rule_edit_links[OF assms(2)] edit_outbounds_links in
    \<open>auto simp: deleteOutbound_def setFirst_def moveOutboundUp_def moveOutboundDown_def split: if_splits\<close>)

text \<open>
  C26
  A rule never loses its balancer: where every balancer that a rule names is one of the template, this is so
  after any sequence of edits of the three tabs, renames of balancers and outbounds included, as long as a
  rule is confirmed with a balancer of the template and no balancer is deleted while a rule names it.
\<close>

theorem balancer_links_kept:
  assumes "apply_edits es t = Some t'" and "links_ok t" and "edits_fit es t"
  shows "links_ok t'"
  using assms
proof (induction es arbitrary: t)
  case (Cons e es)
  then show ?case using edit_links[of e t] by (auto split: bind_splits option.splits)
qed simp


definition linked_template :: jobj where
  "linked_template =
     [(''routing'', JObj [(''rules'', JArr [JObj [(''type'', JStr ''field''), (''balancerTag'', JStr ''b'')]]),
         (''balancers'', JArr [JObj [(''tag'', JStr ''b''), (''selector'', JArr [JStr ''a'']), (''fallbackTag'', JStr [])]])])]"

lemma linked_ok: "links_ok linked_template"
  by (simp add: linked_template_def links_ok_def rules_of_def balancers_of_def balancer_tags_def js_elems_def)

theorem balancer_links_kept_witness:
  "\<exists>t'. apply_edits [Balancer_Confirm (Some 0) \<lparr>bf_tag = ''c'', bf_strategy = ''random'', bf_selector = [''a''],
       bf_fallbackTag = [], bf_settings = JUndef\<rparr>, Rule_Down 0] linked_template = Some t'
     \<and> links_ok t' \<and> map (\<lambda>r. jget r ''balancerTag'') (rules_of t') = [JStr ''c'']"
proof -
  let ?es = "[Balancer_Confirm (Some 0) \<lparr>bf_tag = ''c'', bf_strategy = ''random'', bf_selector = [''a''],
       bf_fallbackTag = [], bf_settings = JUndef\<rparr>, Rule_Down 0]"
  have r: "map_option (\<lambda>t'. map (\<lambda>r. jget r ''balancerTag'') (rules_of t')) (apply_edits ?es linked_template) = Some [JStr ''c'']"
    by code_simp
  then obtain t' where e: "apply_edits ?es linked_template = Some t'" by blast
  have "edits_fit ?es linked_template" by (simp split: option.splits)
  from balancer_links_kept[OF e linked_ok this] e r show ?thesis by auto
qed

text \<open>The exception: the balancers tab deletes a balancer and leaves the rules that name it.\<close>

lemma delete_leaves_link:
  "map_option (\<lambda>t'. (balancers_of t', map (\<lambda>r. jget r ''balancerTag'') (rules_of t'))) (apply_edit (Balancer_Delete 0) linked_template)
   = Some ([], [JStr ''b''])"
  by code_simp

section \<open>Moving rules\<close>

text \<open>The template with another list of rules.\<close>

definition with_rules :: "js list \<Rightarrow> jobj \<Rightarrow> jobj" where
  "with_rules xs t = oput ''routing'' (JObj (oput ''rules'' (JArr xs) (obj_of (oget t ''routing'')))) t"

lemma edit_rules_arr:
  "is_arr (jget (oget t ''routing'') ''rules'') \<Longrightarrow> edit_rules (\<lambda>xs. Some (f xs)) t = Some (with_rules (f (rules_of t)) t)"
  by (cases "oget t ''routing''"; cases "jget (oget t ''routing'') ''rules''")
    (auto simp: edit_rules_def with_rules_def obj_of_def rules_of_def js_elems_def simp del: oput.simps)

lemma with_rules_simps:
  "rules_of (with_rules xs t) = xs" "is_arr (jget (oget (with_rules xs t) ''routing'') ''rules'')"
  "with_rules ys (with_rules xs t) = with_rules ys t"
proof -
  have n: "\<not> is_index ''routing''" "\<not> is_index ''rules''" by (simp_all add: is_digit_def)
  show "rules_of (with_rules xs t) = xs" by (simp add: with_rules_def rules_of_def js_elems_def del: oput.simps)
  show "is_arr (jget (oget (with_rules xs t) ''routing'') ''rules'')" by (simp add: with_rules_def del: oput.simps)
  have g: "oget (with_rules xs t) ''routing'' = JObj (oput ''rules'' (JArr xs) (obj_of (oget t ''routing'')))"
    by (simp add: with_rules_def del: oput.simps)
  have o: "obj_of (JObj r) = r" for r by (simp add: obj_of_def)
  show "with_rules ys (with_rules xs t) = with_rules ys t"
    unfolding with_rules_def[of ys] g o oput_over[OF n(2)] unfolding with_rules_def[of xs] oput_over[OF n(1)] ..
qed

lemma swap_in: "i < length xs \<Longrightarrow> j < length xs \<Longrightarrow> swap_at i j xs = xs[i := xs ! j, j := xs ! i]"
  by (simp add: swap_at_def set_at_def elem_at_def)

lemma remove_insert: "j \<le> length xs \<Longrightarrow> remove_at j (insert_at j x xs) = xs" "j \<le> length xs \<Longrightarrow> insert_at j x xs ! j = x"
  by (simp_all add: remove_at_def insert_at_def nth_append)

lemma length_remove: "i < length xs \<Longrightarrow> length (remove_at i xs) = length xs - 1"
  by (simp add: remove_at_def)

lemma mset_remove: "i < length xs \<Longrightarrow> mset xs = add_mset (xs ! i) (mset (remove_at i xs))"
  by (metis add_mset_add_single id_take_nth_drop mset.simps(2) mset_append remove_at_def union_mset_add_mset_right)

lemma mset_insert: "mset (insert_at i x xs) = add_mset x (mset xs)"
  by (metis append_take_drop_id insert_at_def mset.simps(2) mset_append union_mset_add_mset_right)

lemma insert_remove: "i < length xs \<Longrightarrow> insert_at i (xs ! i) (remove_at i xs) = xs"
  by (simp add: insert_at_def remove_at_def id_take_nth_drop[symmetric] min_def)

lemma rule_up_down:
  assumes "is_arr (jget (oget t ''routing'') ''rules'')" and "Suc k < length (rules_of t)"
  shows "Option.bind (moveRuleUp (Suc k) t) (moveRuleDown k) = Some (with_rules (rules_of t) t)"
proof -
  let ?xs = "rules_of t"
  let ?ys = "?xs[k := ?xs ! Suc k, Suc k := ?xs ! k]"
  have up: "moveRuleUp (Suc k) t = Some (with_rules ?ys t)"
    using assms(2) edit_rules_arr[OF assms(1), of "swap_at k (Suc k)"] by (simp add: moveRuleUp_def swap_in)
  have "swap_at (Suc k) k ?ys = ?xs" using assms(2) by (simp add: swap_in list_update_swap nth_list_update)
  then have "moveRuleDown k (with_rules ?ys t) = Some (with_rules ?xs t)"
    using assms(2) edit_rules_arr[OF with_rules_simps(2), of "\<lambda>xs. if length xs \<le> Suc k then xs else swap_at (Suc k) k xs"]
    by (simp add: moveRuleDown_def with_rules_simps)
  then show ?thesis by (simp add: up)
qed

text \<open>
  Dragging a rule to another place keeps every rule: the rule stands where it was dropped, the others keep
  their order, nothing else of the template changes, and dragging it back restores the template.
\<close>

theorem rule_moves:
  assumes "is_arr (jget (oget t ''routing'') ''rules'')" and "i < length (rules_of t)" and "j < length (rules_of t)" and "i \<noteq> j"
  shows "\<exists>ys. dropRule (Some (i, j)) t = Some (with_rules ys t) \<and> mset ys = mset (rules_of t) \<and> ys ! j = rules_of t ! i
      \<and> remove_at j ys = remove_at i (rules_of t)
      \<and> dropRule (Some (j, i)) (with_rules ys t) = Some (with_rules (rules_of t) t)"
proof -
  let ?xs = "rules_of t"
  let ?ys = "insert_at j (?xs ! i) (remove_at i ?xs)"
  have j: "j \<le> length (remove_at i ?xs)" using assms(2,3) by (simp add: length_remove)
  have len: "length ?ys = length ?xs" using assms(2) j by (simp add: insert_at_def length_remove)
  have 1: "dropRule (Some (i, j)) t = Some (with_rules ?ys t)"
    using assms by (simp add: dropRule_def edit_rules_arr elem_at_def)
  have 2: "mset ?ys = mset ?xs" using mset_remove[OF assms(2)] by (simp add: mset_insert)
  have 3: "remove_at j ?ys = remove_at i ?xs" "?ys ! j = ?xs ! i" using remove_insert[OF j] by simp_all
  have 4: "insert_at i (elem_at ?ys j) (remove_at j ?ys) = ?xs"
    using insert_remove[OF assms(2)] assms(3) len by (simp add: elem_at_def 3)
  have 5: "dropRule (Some (j, i)) (with_rules ?ys t) = Some (with_rules ?xs t)"
    using assms(4) edit_rules_arr[OF with_rules_simps(2)] by (simp add: dropRule_def with_rules_simps 4)
  show "\<exists>ys. dropRule (Some (i, j)) t = Some (with_rules ys t) \<and> mset ys = mset ?xs \<and> ys ! j = ?xs ! i
      \<and> remove_at j ys = remove_at i ?xs \<and> dropRule (Some (j, i)) (with_rules ys t) = Some (with_rules ?xs t)"
    using 1 2 3 5 by blast
qed

theorem rule_moves_witness:
  "\<exists>ys. dropRule (Some (0, 1)) [(''routing'', JObj [(''rules'', JArr [JObj [(''port'', JStr ''1'')], JObj [(''port'', JStr ''2'')]])])]
     = Some (with_rules ys [(''routing'', JObj [(''rules'', JArr [JObj [(''port'', JStr ''1'')], JObj [(''port'', JStr ''2'')]])])])
     \<and> ys ! 1 = JObj [(''port'', JStr ''1'')]"
  using rule_moves[of "[(''routing'', JObj [(''rules'', JArr [JObj [(''port'', JStr ''1'')], JObj [(''port'', JStr ''2'')]])])]" 0 1]
  by (auto simp: rules_of_def js_elems_def)

section \<open>The copy\<close>

text \<open>On a template that JSON text keeps, the deep copy is the template.\<close>

lemma mutate_clean:
  assumes "json_clean (JObj t)"
  shows "mutate f (JObj t) = map_option JObj (f t)"
  using json_parse_stringify[OF assms] by (simp add: mutate_def del: json_gen.simps)

section \<open>The balancer form\<close>

text \<open>
  What the dialog submits and the tab stores: a tag that is trimmed, not empty and no other balancer's, a
  known strategy, at least one selector, and settings only for the strategy that has some.
\<close>

lemma submitted_balancer:
  assumes "submitBalancer ps others st = Some form"
  shows "bf_tag form = trim (bf_tag form) \<and> bf_tag form \<noteq> [] \<and> bf_tag form \<notin> set others \<and> bf_strategy form \<in> set STRATEGIES
    \<and> bf_selector form \<noteq> [] \<and> strategy_type (JObj (wire_balancer form)) = (if bf_strategy form = ''random'' then JUndef else JStr (bf_strategy form))
    \<and> (truthy (bf_settings form) \<longrightarrow> bf_strategy form = ''leastLoad'')"
proof -
  have "bf_strategy st \<noteq> []" if "bf_strategy st \<in> set STRATEGIES" using that by (auto simp: STRATEGIES_def)
  then show ?thesis using assms by (auto simp: submitBalancer_def Let_def strategy_type_def wire_balancer_def split: if_splits)
qed

end
