(* ===== verification/Rule_Form.thy ===== *)
theory Rule_Form
  imports Routing_Config Json
begin

text \<open>
  The dialog that edits a routing rule (\<open>pages/xray/routing/RuleFormModal.tsx\<close>): the rule read into the
  form, the check of the form against its schema (\<open>schemas/xray.ts\<close>), and the rule built from it; the rows,
  labels and tag options of the routing tab (\<open>routing/helpers.ts\<close>, \<open>RoutingTab.tsx\<close>). The characters of a
  string put where the attributes of a rule belong are not read as attributes.
\<close>

section \<open>Lists in one line\<close>

definition arrJoin :: "js \<Rightarrow> js" where
  "arrJoin v = (if nullish v then JUndef else JStr (to_str v))"

definition csv :: "string \<Rightarrow> string list" where
  "csv value = (if value = [] then [] else non_empty (map trim (split_char CHR '','' value)))"

definition chipPreviewParts :: "string list \<Rightarrow> string" where
  "chipPreviewParts parts =
     (case parts of [] \<Rightarrow> [] | [p] \<Rightarrow> p | p # ps \<Rightarrow> p @ '' +'' @ nat_str (length ps))"

definition chipPreview :: "string \<Rightarrow> string" where
  "chipPreview value = chipPreviewParts (csv value)"

section \<open>Labels of inbounds\<close>

definition buildRemarkByTag :: "(string \<times> string) list \<Rightarrow> (string \<times> string) list" where
  "buildRemarkByTag options =
     fold (\<lambda>(tag, remark) m. if tag \<noteq> [] then oset tag (sor (trim remark) tag) m else m) options []"

text \<open>A lookup in the object also finds members of the prototype, which have no \<open>trim\<close>.\<close>

definition formatInboundTag :: "string \<Rightarrow> (string \<times> string) list \<Rightarrow> string option" where
  "formatInboundTag tag remarkByTag =
     (case map_of remarkByTag tag of
        Some remark \<Rightarrow> let label = trim remark in Some (if label = [] \<or> label = tag then tag else tag @ '' ('' @ label @ '')'')
      | None \<Rightarrow> if tag \<in> set proto_names then None else Some tag)"

definition formatInboundTagList :: "string \<Rightarrow> (string \<times> string) list \<Rightarrow> string list option" where
  "formatInboundTagList tags remarkByTag = those (map (\<lambda>tag. formatInboundTag tag remarkByTag) (csv tags))"

definition inboundTagsDisplayTitle :: "string \<Rightarrow> (string \<times> string) list \<Rightarrow> string option option" where
  "inboundTagsDisplayTitle tags remarkByTag =
     map_option (\<lambda>l. if l = [] then None else Some (join '', '' l)) (formatInboundTagList tags remarkByTag)"

definition inboundTagChipPreview :: "string \<Rightarrow> (string \<times> string) list \<Rightarrow> string option" where
  "inboundTagChipPreview tags remarkByTag = map_option chipPreviewParts (formatInboundTagList tags remarkByTag)"

text \<open>The rule that carries the traffic statistics.\<close>

definition isApiRule :: "js \<Rightarrow> bool" where
  "isApiRule rule \<longleftrightarrow> jget rule ''outboundTag'' = JStr ''api''
     \<and> (case jget rule ''inboundTag'' of
          JArr tags \<Rightarrow> JStr ''api'' \<in> set tags
        | v \<Rightarrow> truthy v \<and> ''api'' \<in> set (csv (to_str v)))"

section \<open>Tags on offer\<close>

definition push_tag :: "js \<Rightarrow> js list \<Rightarrow> js list" where
  "push_tag tag out = (if truthy tag then add_new tag out else out)"

text \<open>The tags of the template's inbounds, the other inbounds, the reverse outbounds and the DNS section.\<close>

definition inboundTagOptions :: "js \<Rightarrow> string list \<Rightarrow> js list" where
  "inboundTagOptions t inboundTags =
     fold push_tag
       (map (\<lambda>ib. jget ib ''tag'') (js_elems (jget t ''inbounds''))
        @ map JStr inboundTags
        @ map (\<lambda>ob. jor (jor (jget (jget ob ''reverse'') ''tag'') (jget (jget (jget ob ''settings'') ''reverse'') ''tag''))
                        (jget (jget ob ''settings'') ''inboundTag'')) (js_elems (jget t ''outbounds''))
        @ [jget (jget t ''dns'') ''tag'']
        @ map (\<lambda>s. jget s ''tag'') (js_elems (jget (jget t ''dns'') ''servers''))) []"

definition outboundTagOptions :: "js \<Rightarrow> string list \<Rightarrow> string list \<Rightarrow> js list" where
  "outboundTagOptions t clientReverseTags subscriptionOutboundTags =
     fold push_tag
       (map (\<lambda>ob. jget ob ''tag'') (js_elems (jget t ''outbounds''))
        @ map JStr clientReverseTags @ map JStr subscriptionOutboundTags) [JStr []]"

definition balancerTagOptions :: "js \<Rightarrow> js list" where
  "balancerTagOptions t =
     JStr [] # filter truthy (map (\<lambda>b. jget b ''tag'') (js_elems (jget (jget t ''routing'') ''balancers'')))"

section \<open>The form\<close>

definition list_field :: "js \<Rightarrow> js" where
  "list_field v = (if is_arr v then JStr (to_str v) else jor v (JStr []))"

definition entries :: "js \<Rightarrow> (string \<times> js) list" where
  "entries v = (case v of JObj ps \<Rightarrow> ps | JArr xs \<Rightarrow> zip (map nat_str [0 ..< length xs]) xs | _ \<Rightarrow> [])"

text \<open>The form of a rule.\<close>

definition load_rule :: "js \<Rightarrow> jobj" where
  "load_rule rule =
     [(''enabled'', JBool (jget rule ''enabled'' \<noteq> JBool False)),
      (''domain'', list_field (jget rule ''domain'')),
      (''ip'', list_field (jget rule ''ip'')),
      (''port'', jor (jget rule ''port'') (JStr [])),
      (''sourcePort'', jor (jget rule ''sourcePort'') (JStr [])),
      (''vlessRoute'', jor (jget rule ''vlessRoute'') (JStr [])),
      (''network'', jor (jget rule ''network'') (JStr [])),
      (''sourceIP'', list_field (jget rule ''sourceIP'')),
      (''user'', list_field (jget rule ''user'')),
      (''inboundTag'', jor (jget rule ''inboundTag'') (JArr [])),
      (''protocol'', jor (jget rule ''protocol'') (JArr [])),
      (''attrs'', JArr (map (\<lambda>(k, v). JArr [JStr k, v]) (entries (jget rule ''attrs'')))),
      (''outboundTag'', jor (jget rule ''outboundTag'') (JStr [])),
      (''balancerTag'', jor (jget rule ''balancerTag'') (JStr []))]"

record rule_form =
  rf_enabled :: bool
  rf_domain :: string
  rf_ip :: string
  rf_port :: string
  rf_sourcePort :: string
  rf_vlessRoute :: string
  rf_network :: string
  rf_sourceIP :: string
  rf_user :: string
  rf_inboundTag :: "string list"
  rf_protocol :: "string list"
  rf_attrs :: "(string \<times> string) list"
  rf_outboundTag :: string
  rf_balancerTag :: string

definition as_bool :: "js \<Rightarrow> bool option" where
  "as_bool v = (case v of JBool b \<Rightarrow> Some b | _ \<Rightarrow> None)"

definition as_string :: "js \<Rightarrow> string option" where
  "as_string v = (case v of JStr s \<Rightarrow> Some s | _ \<Rightarrow> None)"

definition as_array :: "(js \<Rightarrow> 'a option) \<Rightarrow> js \<Rightarrow> 'a list option" where
  "as_array f v = (case v of JArr xs \<Rightarrow> those (map f xs) | _ \<Rightarrow> None)"

definition as_pair :: "js \<Rightarrow> (string \<times> string) option" where
  "as_pair v = (case v of JArr [JStr a, JStr b] \<Rightarrow> Some (a, b) | _ \<Rightarrow> None)"

text \<open>The schema: each field has its type, or nothing is submitted.\<close>

definition parse_form :: "jobj \<Rightarrow> rule_form option" where
  "parse_form f =
     (case (as_bool (oget f ''enabled''), as_string (oget f ''domain''), as_string (oget f ''ip''), as_string (oget f ''port''),
            as_string (oget f ''sourcePort''), as_string (oget f ''vlessRoute''), as_string (oget f ''network'')) of
        (Some en, Some d, Some ip, Some p, Some sp, Some vr, Some n) \<Rightarrow>
          (case (as_string (oget f ''sourceIP''), as_string (oget f ''user''), as_array as_string (oget f ''inboundTag''),
                 as_array as_string (oget f ''protocol''), as_array as_pair (oget f ''attrs''),
                 as_string (oget f ''outboundTag''), as_string (oget f ''balancerTag'')) of
             (Some si, Some u, Some it, Some pr, Some at1, Some ot, Some bt) \<Rightarrow>
               Some \<lparr>rf_enabled = en, rf_domain = d, rf_ip = ip, rf_port = p, rf_sourcePort = sp, rf_vlessRoute = vr,
                 rf_network = n, rf_sourceIP = si, rf_user = u, rf_inboundTag = it, rf_protocol = pr, rf_attrs = at1,
                 rf_outboundTag = ot, rf_balancerTag = bt\<rparr>
           | _ \<Rightarrow> None)
      | _ \<Rightarrow> None)"

section \<open>The rule\<close>

definition str_list :: "string list \<Rightarrow> js" where
  "str_list ws = JArr (map JStr ws)"

definition from_entries :: "(string \<times> string) list \<Rightarrow> jobj" where
  "from_entries ps = fold (\<lambda>(k, v). oput k (JStr v)) ps []"

definition built_rule :: "rule_form \<Rightarrow> jobj" where
  "built_rule v =
     [(''type'', JStr ''field''),
      (''enabled'', JBool (rf_enabled v)),
      (''domain'', str_list (csv (rf_domain v))),
      (''ip'', str_list (csv (rf_ip v))),
      (''port'', JStr (rf_port v)),
      (''sourcePort'', JStr (rf_sourcePort v)),
      (''vlessRoute'', JStr (rf_vlessRoute v)),
      (''network'', JStr (rf_network v)),
      (''sourceIP'', str_list (csv (rf_sourceIP v))),
      (''user'', str_list (csv (rf_user v))),
      (''inboundTag'', str_list (rf_inboundTag v)),
      (''protocol'', str_list (rf_protocol v)),
      (''attrs'', JObj (from_entries (filter (\<lambda>(k, _). k \<noteq> []) (rf_attrs v)))),
      (''outboundTag'', if rf_outboundTag v = [] then JUndef else JStr (rf_outboundTag v)),
      (''balancerTag'', if rf_balancerTag v = [] then JUndef else JStr (rf_balancerTag v))]"

text \<open>Empty values are left out.\<close>

definition left_out :: "js \<Rightarrow> bool" where
  "left_out v \<longleftrightarrow> nullish v \<or> v = JArr [] \<or> v = JObj [] \<or> v = JStr []"

definition submit_rule :: "jobj \<Rightarrow> jobj option" where
  "submit_rule f = map_option (\<lambda>v. filter (\<lambda>(_, x). \<not> left_out x) (built_rule v)) (parse_form f)"

section \<open>Editing a rule without changing it\<close>

lemma csv_join:
  assumes "list_all (\<lambda>w. w \<noteq> [] \<and> trim w = w \<and> CHR '','' \<notin> set w) ws"
  shows "csv (join '','' ws) = ws"
proof (cases ws)
  case (Cons w ws')
  have "map trim ws = ws" "non_empty ws = ws" using assms by (induction ws) (auto simp: non_empty_def)
  moreover have "split_char CHR '','' (join '','' ws) = ws"
    using split_join[of ws "CHR '',''"] assms Cons by (auto simp: list_all_iff)
  moreover have "join '','' ws \<noteq> []" using assms Cons by (cases ws') auto
  ultimately show ?thesis by (simp add: csv_def)
qed (simp add: csv_def)

text \<open>Fields as the form writes them: a list of entries without commas, a text, a list.\<close>

definition csv_field :: "js \<Rightarrow> bool" where
  "csv_field v \<longleftrightarrow> v = JUndef
     \<or> (\<exists>ws. ws \<noteq> [] \<and> v = str_list ws \<and> list_all (\<lambda>w. w \<noteq> [] \<and> trim w = w \<and> CHR '','' \<notin> set w) ws)"

definition text_field :: "js \<Rightarrow> bool" where
  "text_field v \<longleftrightarrow> v = JUndef \<or> (\<exists>s. s \<noteq> [] \<and> v = JStr s)"

definition tags_field :: "js \<Rightarrow> bool" where
  "tags_field v \<longleftrightarrow> v = JUndef \<or> (\<exists>ws. ws \<noteq> [] \<and> v = str_list ws)"

definition attrs_field :: "js \<Rightarrow> bool" where
  "attrs_field v \<longleftrightarrow> v = JUndef
     \<or> (\<exists>ps. ps \<noteq> [] \<and> owf ps \<and> list_all (\<lambda>(k, s). k \<noteq> []) ps \<and> v = JObj (map (\<lambda>(k, s). (k, JStr s)) ps))"

definition csv_keys :: "string list" where
  "csv_keys = [''domain'', ''ip'', ''sourceIP'', ''user'']"

definition text_keys :: "string list" where
  "text_keys = [''port'', ''sourcePort'', ''vlessRoute'', ''network'', ''outboundTag'', ''balancerTag'']"

definition tags_keys :: "string list" where
  "tags_keys = [''inboundTag'', ''protocol'']"

definition rule_fits :: "js \<Rightarrow> bool" where
  "rule_fits rule \<longleftrightarrow> (\<forall>k\<in>set csv_keys. csv_field (jget rule k)) \<and> (\<forall>k\<in>set text_keys. text_field (jget rule k))
     \<and> (\<forall>k\<in>set tags_keys. tags_field (jget rule k)) \<and> attrs_field (jget rule ''attrs'')"

text \<open>A value written out: absent where it is empty.\<close>

definition written :: "js \<Rightarrow> js" where
  "written v = (if left_out v then JUndef else v)"

lemma join_to_str: "to_str (str_list ws) = join '','' ws"
  by (simp add: str_list_def comp_def)

lemma str_list_simps [simp]: "is_arr (str_list ws)" "truthy (str_list ws)" "str_list ws = JArr [] \<longleftrightarrow> ws = []"
  by (simp_all add: str_list_def)

lemma written_simps [simp]:
  "written (JStr s) = (if s = [] then JUndef else JStr s)" "written (JArr xs) = (if xs = [] then JUndef else JArr xs)"
  "written (str_list ws) = (if ws = [] then JUndef else str_list ws)"
  "written (JObj o1) = (if o1 = [] then JUndef else JObj o1)" "written (JBool b) = JBool b" "written JUndef = JUndef"
  by (auto simp: written_def left_out_def str_list_def)

lemma csv_Nil [simp]: "csv [] = []"
  by (simp add: csv_def)

lemma csv_field_back:
  assumes "csv_field v"
  shows "\<exists>s. as_string (list_field v) = Some s \<and> written (str_list (csv s)) = v"
proof (cases "v = JUndef")
  case True
  then show ?thesis by (intro exI[of _ "[]"]) (simp add: list_field_def jor_def as_string_def)
next
  case False
  then obtain ws where ws: "ws \<noteq> []" "v = str_list ws" and c: "list_all (\<lambda>w. w \<noteq> [] \<and> trim w = w \<and> CHR '','' \<notin> set w) ws"
    using assms by (auto simp: csv_field_def)
  then show ?thesis using csv_join[OF c] by (intro exI[of _ "join '','' ws"]) (simp add: list_field_def join_to_str as_string_def)
qed

lemma text_field_back:
  assumes "text_field v"
  shows "\<exists>s. as_string (jor v (JStr [])) = Some s \<and> written (JStr s) = v"
proof (cases "v = JUndef")
  case True
  then show ?thesis by (intro exI[of _ "[]"]) (simp add: jor_def as_string_def)
next
  case False
  then obtain s where "s \<noteq> []" "v = JStr s" using assms by (auto simp: text_field_def)
  then show ?thesis by (intro exI[of _ s]) (simp add: jor_def as_string_def)
qed

lemma those_strings: "those (map as_string (map JStr ws)) = Some ws"
  by (induction ws) (simp_all add: as_string_def)

lemma tags_field_back:
  assumes "tags_field v"
  shows "\<exists>ws. as_array as_string (jor v (JArr [])) = Some ws \<and> written (str_list ws) = v"
proof (cases "v = JUndef")
  case True
  then show ?thesis by (intro exI[of _ "[]"]) (simp add: jor_def as_array_def)
next
  case False
  then obtain ws where "ws \<noteq> []" "v = str_list ws" using assms by (auto simp: tags_field_def)
  then show ?thesis using those_strings[of ws] by (intro exI[of _ ws]) (simp add: jor_def as_array_def str_list_def[of ws] del: map_map)
qed

lemma those_pairs: "those (map as_pair (map (\<lambda>(k, v). JArr [JStr k, v]) (map (\<lambda>(k, s). (k, JStr s)) ps))) = Some ps"
  by (induction ps) (auto simp: as_pair_def)

lemma from_entries_back: "owf (acc @ ps) \<Longrightarrow> fold (\<lambda>(k, v). oput k (JStr v)) ps (map (\<lambda>(k, s). (k, JStr s)) acc) = map (\<lambda>(k, s). (k, JStr s)) (acc @ ps)"
proof (induction ps arbitrary: acc)
  case (Cons p ps)
  obtain k s where p: "p = (k, s)" by fastforce
  have keys: "okeys (map (\<lambda>(k, s). (k, JStr s)) xs) = okeys xs" for xs by (induction xs) (auto simp: okeys_def)
  have "owf (acc @ [(k, s)])" using Cons.prems owf_prefix[of "acc @ [(k, s)]" ps] by (simp add: p)
  then have "owf (map (\<lambda>(k, s). (k, JStr s)) acc @ [(k, JStr s)])"
    using keys[of "acc @ [(k, s)]"] by (simp add: owf_def)
  from oput_snoc[OF this] show ?case using Cons.IH[of "acc @ [(k, s)]"] Cons.prems by (simp add: p)
qed simp

lemma attrs_field_back:
  assumes "attrs_field v"
  shows "\<exists>ps. as_array as_pair (JArr (map (\<lambda>(k, v). JArr [JStr k, v]) (entries v))) = Some ps
    \<and> written (JObj (from_entries (filter (\<lambda>(k, _). k \<noteq> []) ps))) = v"
proof (cases "v = JUndef")
  case False
  then obtain ps where ps: "ps \<noteq> []" "owf ps" "list_all (\<lambda>(k, s). k \<noteq> []) ps" "v = JObj (map (\<lambda>(k, s). (k, JStr s)) ps)"
    using assms by (auto simp: attrs_field_def)
  have f: "filter (\<lambda>(k, _). k \<noteq> []) ps = ps" using ps(3) by (simp add: list_all_iff case_prod_unfold filter_id_conv)
  have "from_entries ps = map (\<lambda>(k, s). (k, JStr s)) ps" using from_entries_back[of "[]" ps] ps(2) by (simp add: from_entries_def)
  then show ?thesis using ps f those_pairs[of ps] by (auto simp: as_array_def entries_def simp del: map_map)
qed (simp add: as_array_def entries_def from_entries_def)

lemma load_get:
  "oget (load_rule r) ''enabled'' = JBool (jget r ''enabled'' \<noteq> JBool False)"
  "oget (load_rule r) ''attrs'' = JArr (map (\<lambda>(k, v). JArr [JStr k, v]) (entries (jget r ''attrs'')))"
  "list_all (\<lambda>k. oget (load_rule r) k = list_field (jget r k)) csv_keys"
  "list_all (\<lambda>k. oget (load_rule r) k = jor (jget r k) (JStr [])) text_keys"
  "list_all (\<lambda>k. oget (load_rule r) k = jor (jget r k) (JArr [])) tags_keys"
  unfolding csv_keys_def text_keys_def tags_keys_def load_rule_def by simp_all

lemma oget_kept:
  "distinct (map fst o1) \<Longrightarrow> oget (filter (\<lambda>(_, x). \<not> left_out x) o1) k = written (oget o1 k)"
proof (induction o1)
  case (Cons p o1)
  have "oget (filter (\<lambda>(_, x). \<not> left_out x) o1) k = JUndef" if "k \<notin> fst ` set o1"
    using that by (intro oget_not_ohas) (auto simp: ohas_def list_ex_iff)
  then show ?case using Cons by (cases p) (auto simp: written_def)
qed (simp add: written_def)

lemma built_get:
  "oget (built_rule v) ''type'' = JStr ''field''" "oget (built_rule v) ''enabled'' = JBool (rf_enabled v)"
  "oget (built_rule v) ''domain'' = str_list (csv (rf_domain v))" "oget (built_rule v) ''ip'' = str_list (csv (rf_ip v))"
  "oget (built_rule v) ''sourceIP'' = str_list (csv (rf_sourceIP v))" "oget (built_rule v) ''user'' = str_list (csv (rf_user v))"
  "oget (built_rule v) ''port'' = JStr (rf_port v)" "oget (built_rule v) ''sourcePort'' = JStr (rf_sourcePort v)"
  "oget (built_rule v) ''vlessRoute'' = JStr (rf_vlessRoute v)" "oget (built_rule v) ''network'' = JStr (rf_network v)"
  "oget (built_rule v) ''inboundTag'' = str_list (rf_inboundTag v)" "oget (built_rule v) ''protocol'' = str_list (rf_protocol v)"
  "oget (built_rule v) ''attrs'' = JObj (from_entries (filter (\<lambda>(k, _). k \<noteq> []) (rf_attrs v)))"
  "written (oget (built_rule v) ''outboundTag'') = written (JStr (rf_outboundTag v))"
  "written (oget (built_rule v) ''balancerTag'') = written (JStr (rf_balancerTag v))"
  unfolding built_rule_def by simp_all

definition rule_keys :: "string list" where
  "rule_keys = csv_keys @ text_keys @ tags_keys @ [''attrs'']"

lemma built_keys: "map fst (built_rule v) = [''type'', ''enabled'', ''domain'', ''ip'', ''port'', ''sourcePort'', ''vlessRoute'', ''network'',
    ''sourceIP'', ''user'', ''inboundTag'', ''protocol'', ''attrs'', ''outboundTag'', ''balancerTag'']"
  by (simp add: built_rule_def)

lemma built_distinct: "distinct (map fst (built_rule v))"
  unfolding built_keys by simp

lemma built_other: "k \<notin> set rule_keys \<Longrightarrow> k \<noteq> ''type'' \<Longrightarrow> k \<noteq> ''enabled'' \<Longrightarrow> oget (built_rule v) k = JUndef"
proof (rule oget_not_ohas)
  assume "k \<notin> set rule_keys" "k \<noteq> ''type''" "k \<noteq> ''enabled''"
  then have "k \<notin> set (map fst (built_rule v))"
    unfolding built_keys rule_keys_def csv_keys_def text_keys_def tags_keys_def by simp
  then show "\<not> ohas (built_rule v) k" by (simp add: ohas_def)
qed

lemma loaded_form:
  assumes "rule_fits r"
  obtains v where "parse_form (load_rule r) = Some v" and "rf_enabled v = (jget r ''enabled'' \<noteq> JBool False)"
    and "\<forall>k\<in>set rule_keys. written (oget (built_rule v) k) = jget r k"
proof -
  have fits: "list_all (\<lambda>k. csv_field (jget r k)) csv_keys" "list_all (\<lambda>k. text_field (jget r k)) text_keys"
    "list_all (\<lambda>k. tags_field (jget r k)) tags_keys" "attrs_field (jget r ''attrs'')"
    using assms by (simp_all add: rule_fits_def list_all_iff)
  have "\<forall>k\<in>set csv_keys. \<exists>s. as_string (oget (load_rule r) k) = Some s \<and> written (str_list (csv s)) = jget r k"
    using fits(1) load_get(3)[of r] csv_field_back by (fastforce simp: list_all_iff)
  then obtain c where c: "\<forall>k\<in>set csv_keys. as_string (oget (load_rule r) k) = Some (c k) \<and> written (str_list (csv (c k))) = jget r k" by metis
  have "\<forall>k\<in>set text_keys. \<exists>s. as_string (oget (load_rule r) k) = Some s \<and> written (JStr s) = jget r k"
    using fits(2) load_get(4)[of r] text_field_back by (fastforce simp: list_all_iff)
  then obtain t where t: "\<forall>k\<in>set text_keys. as_string (oget (load_rule r) k) = Some (t k) \<and> written (JStr (t k)) = jget r k" by metis
  have "\<forall>k\<in>set tags_keys. \<exists>ws. as_array as_string (oget (load_rule r) k) = Some ws \<and> written (str_list ws) = jget r k"
    using fits(3) load_get(5)[of r] tags_field_back by (fastforce simp: list_all_iff)
  then obtain l where l: "\<forall>k\<in>set tags_keys. as_array as_string (oget (load_rule r) k) = Some (l k) \<and> written (str_list (l k)) = jget r k" by metis
  obtain ps where ps: "as_array as_pair (oget (load_rule r) ''attrs'') = Some ps"
      "written (JObj (from_entries (filter (\<lambda>(k, _). k \<noteq> []) ps))) = jget r ''attrs''"
    using attrs_field_back[OF fits(4)] unfolding load_get(2) by blast
  note C = c[unfolded csv_keys_def, simplified] and T = t[unfolded text_keys_def, simplified] and L = l[unfolded tags_keys_def, simplified]
  have en: "as_bool (oget (load_rule r) ''enabled'') = Some (jget r ''enabled'' \<noteq> JBool False)" by (simp add: load_get(1) as_bool_def)
  let ?v = "\<lparr>rf_enabled = (jget r ''enabled'' \<noteq> JBool False), rf_domain = c ''domain'', rf_ip = c ''ip'', rf_port = t ''port'',
    rf_sourcePort = t ''sourcePort'', rf_vlessRoute = t ''vlessRoute'', rf_network = t ''network'', rf_sourceIP = c ''sourceIP'',
    rf_user = c ''user'', rf_inboundTag = l ''inboundTag'', rf_protocol = l ''protocol'', rf_attrs = ps,
    rf_outboundTag = t ''outboundTag'', rf_balancerTag = t ''balancerTag''\<rparr>"
  have "parse_form (load_rule r) = Some ?v"
    unfolding parse_form_def by (simp only: en C T L ps(1) prod.case option.case)
  moreover have "\<forall>k\<in>set rule_keys. written (oget (built_rule ?v) k) = jget r k"
    unfolding rule_keys_def csv_keys_def text_keys_def tags_keys_def using C T L ps(2) by (simp add: built_get)
  ultimately show ?thesis using that[of ?v] by simp
qed

text \<open>
  C27
  Editing a rule in the dialog and confirming it without a change gives back every field the dialog knows,
  as it was, and says whether the rule is enabled. Every other field is gone, also those of the schema that the
  dialog does not show (\<open>localPort\<close>, \<open>localIP\<close>, \<open>process\<close>, \<open>ruleTag\<close>, \<open>webhook\<close>). The rule has texts for its
  ports (a numeric one is not submitted at all), lists whose entries have no commas and no blanks around them (an entry
  with a comma comes back as two), named attributes that are texts, and no field that is written out empty.
\<close>

theorem rule_edit_roundtrip:
  assumes "rule_fits r"
  shows "\<exists>out. submit_rule (load_rule r) = Some out \<and> oget out ''type'' = JStr ''field''
    \<and> oget out ''enabled'' = JBool (jget r ''enabled'' \<noteq> JBool False)
    \<and> (\<forall>k\<in>set rule_keys. oget out k = jget r k)
    \<and> (\<forall>k. k \<notin> set rule_keys \<longrightarrow> k \<noteq> ''type'' \<longrightarrow> k \<noteq> ''enabled'' \<longrightarrow> oget out k = JUndef)"
proof -
  obtain v where v: "parse_form (load_rule r) = Some v" "rf_enabled v = (jget r ''enabled'' \<noteq> JBool False)"
      "\<forall>k\<in>set rule_keys. written (oget (built_rule v) k) = jget r k"
    by (rule loaded_form[OF assms])
  let ?out = "filter (\<lambda>(_, x). \<not> left_out x) (built_rule v)"
  have g: "oget ?out k = written (oget (built_rule v) k)" for k by (rule oget_kept[OF built_distinct])
  have "submit_rule (load_rule r) = Some ?out" by (simp add: submit_rule_def v(1))
  then show ?thesis using v(2,3) built_other[of _ v] by (auto simp: g built_get)
qed

definition sample_rule :: js where
  "sample_rule = JObj [(''type'', JStr ''field''), (''domain'', str_list [''geosite:cn'', ''a.com'']), (''port'', JStr ''443''),
     (''attrs'', JObj [('':method'', JStr ''GET'')]), (''outboundTag'', JStr ''direct''), (''ruleTag'', JStr ''r1'')]"

lemma sample_rule_fits: "rule_fits sample_rule"
proof -
  let ?ws = "[''geosite:cn'', ''a.com'']" and ?ps = "[('':method'', ''GET'')]"
  have "trim ''geosite:cn'' = ''geosite:cn'' \<and> trim ''a.com'' = ''a.com''" by code_simp
  then have "csv_field (str_list ?ws)" unfolding csv_field_def by (intro disjI2 exI[of _ ?ws]) simp
  moreover have "owf ?ps" by code_simp
  then have "attrs_field (JObj [('':method'', JStr ''GET'')])" unfolding attrs_field_def by (intro disjI2 exI[of _ ?ps]) simp
  ultimately show ?thesis
    by (simp add: rule_fits_def sample_rule_def csv_keys_def text_keys_def tags_keys_def csv_field_def[of JUndef] text_field_def tags_field_def)
qed

theorem rule_edit_roundtrip_witness:
  "\<exists>out. submit_rule (load_rule sample_rule) = Some out \<and> oget out ''outboundTag'' = JStr ''direct'' \<and> oget out ''ruleTag'' = JUndef"
proof -
  obtain out where o: "submit_rule (load_rule sample_rule) = Some out" "\<forall>k\<in>set rule_keys. oget out k = jget sample_rule k"
      "\<forall>k. k \<notin> set rule_keys \<longrightarrow> k \<noteq> ''type'' \<longrightarrow> k \<noteq> ''enabled'' \<longrightarrow> oget out k = JUndef"
    using rule_edit_roundtrip[OF sample_rule_fits] by blast
  have "oget out ''outboundTag'' = JStr ''direct''" using o(2) by (simp add: rule_keys_def text_keys_def sample_rule_def)
  moreover have "oget out ''ruleTag'' = JUndef" using o(3) by (simp add: rule_keys_def text_keys_def csv_keys_def tags_keys_def)
  ultimately show ?thesis using o(1) by blast
qed

text \<open>A port written as a number, which the schema of a rule admits, makes the dialog's check fail: nothing is submitted.\<close>

lemma numeric_port_not_saved: "jget r ''port'' = JNum n \<Longrightarrow> n \<noteq> NaN \<Longrightarrow> n \<noteq> Fin 0 \<Longrightarrow> submit_rule (load_rule r) = None"
proof -
  assume p: "jget r ''port'' = JNum n" "n \<noteq> NaN" "n \<noteq> Fin 0"
  then have t: "truthy (JNum n)" by (cases n) simp_all
  have "oget (load_rule r) ''port'' = jor (jget r ''port'') (JStr [])" using load_get(4)[of r] by (simp add: text_keys_def)
  then have "as_string (oget (load_rule r) ''port'') = None" using p(1) t by (simp add: jor_def as_string_def)
  then show ?thesis by (simp add: submit_rule_def parse_form_def split: option.splits)
qed

section \<open>Tags on offer\<close>

lemma push_tags: "distinct out \<Longrightarrow> distinct (fold push_tag ts out)" "set (fold push_tag ts out) = set out \<union> {t \<in> set ts. truthy t}"
proof -
  show "distinct out \<Longrightarrow> distinct (fold push_tag ts out)"
    by (induction ts arbitrary: out) (simp_all add: push_tag_def add_new_def)
  show "set (fold push_tag ts out) = set out \<union> {t \<in> set ts. truthy t}"
    by (induction ts arbitrary: out) (auto simp: push_tag_def add_new_def)
qed

text \<open>Each tag is offered once; the outbound tags are exactly those of the template, the clients and the subscriptions, and none.\<close>

lemma tag_options:
  "distinct (inboundTagOptions t ts)" "distinct (outboundTagOptions t cs ss)"
  "set (outboundTagOptions t cs ss) = insert (JStr []) ({v. truthy v \<and> (\<exists>ob\<in>set (js_elems (jget t ''outbounds'')). v = jget ob ''tag'')}
     \<union> JStr ` {s \<in> set cs \<union> set ss. s \<noteq> []})"
proof -
  show "distinct (inboundTagOptions t ts)" "distinct (outboundTagOptions t cs ss)"
    unfolding inboundTagOptions_def outboundTagOptions_def by (rule push_tags(1); simp)+
  show "set (outboundTagOptions t cs ss) = insert (JStr []) ({v. truthy v \<and> (\<exists>ob\<in>set (js_elems (jget t ''outbounds'')). v = jget ob ''tag'')}
     \<union> JStr ` {s \<in> set cs \<union> set ss. s \<noteq> []})"
    unfolding outboundTagOptions_def push_tags(2) by auto
qed

end
