(* ===== verification/Dns_Settings.thy ===== *)
theory Dns_Settings
  imports Routing_Config Json
begin

text \<open>
  The DNS tab: the dialog for one server (\<open>pages/xray/dns/DnsServerModal.tsx\<close> with the schema of
  \<open>schemas/dns.ts\<close>), and the edits of the tab to the template (\<open>pages/xray/dns/DnsTab.tsx\<close>). The template
  is the parsed JSON object; \<open>None\<close> is a \<open>TypeError\<close>, or a named property put on an array.
  A \<open>fakedns\<close> that is an object is not looked into.
\<close>

section \<open>The schema of a server\<close>

definition QUERY_STRATEGIES :: "string list" where
  "QUERY_STRATEGIES = [''UseIP'', ''UseIPv4'', ''UseIPv6'', ''UseSystem'']"

definition MAX_SAFE :: rat where
  "MAX_SAFE = 9007199254740991"

definition int_between :: "rat \<Rightarrow> rat \<Rightarrow> js \<Rightarrow> bool" where
  "int_between lo hi v = (case v of JNum (Fin q) \<Rightarrow> is_integer (Fin q) \<and> lo \<le> q \<and> q \<le> hi | _ \<Rightarrow> False)"

definition is_strings :: "js \<Rightarrow> bool" where
  "is_strings v = (case v of JArr xs \<Rightarrow> list_all is_str xs | _ \<Rightarrow> False)"

definition optional_or :: "(js \<Rightarrow> bool) \<Rightarrow> js \<Rightarrow> bool" where
  "optional_or p v \<longleftrightarrow> v = JUndef \<or> p v"

definition is_strategy :: "js \<Rightarrow> bool" where
  "is_strategy v = (case v of JStr s \<Rightarrow> s \<in> set QUERY_STRATEGIES | _ \<Rightarrow> False)"

definition dflt :: "js \<Rightarrow> js \<Rightarrow> js" where
  "dflt v d = (if v = JUndef then d else v)"

text \<open>
  \<open>DnsServerObjectSchema.safeParse\<close>: the legacy name of a list is read, the fields are checked, the defaults
  put in and unknown keys left out.
\<close>

definition server_fields :: "(string \<times> (js \<Rightarrow> bool)) list" where
  "server_fields =
     [(''address'', is_str), (''port'', optional_or (int_between 1 65535)), (''domains'', optional_or is_strings),
      (''expectedIPs'', optional_or is_strings), (''unexpectedIPs'', optional_or is_strings),
      (''skipFallback'', optional_or is_bool), (''finalQuery'', optional_or is_bool), (''tag'', optional_or is_str),
      (''clientIP'', optional_or is_str), (''queryStrategy'', optional_or is_strategy), (''disableCache'', optional_or is_bool),
      (''timeoutMs'', optional_or (int_between 0 MAX_SAFE)), (''serveStale'', optional_or is_bool),
      (''serveExpiredTTL'', optional_or (int_between 0 MAX_SAFE))]"

definition server_default :: "string \<Rightarrow> js" where
  "server_default k = (if k = ''port'' then JInt 53 else if k = ''timeoutMs'' then JInt 4000 else JUndef)"

definition parse_server :: "js \<Rightarrow> (string \<Rightarrow> js) option" where
  "parse_server server =
     (case server of
        JObj v \<Rightarrow>
          let v = (if truthy (oget v ''expectIPs'') \<and> \<not> truthy (oget v ''expectedIPs'')
                   then oput ''expectedIPs'' (oget v ''expectIPs'') v else v)
          in if list_all (\<lambda>(k, ok). ok (oget v k)) server_fields
             then Some (\<lambda>k. if k \<in> fst ` set server_fields then dflt (oget v k) (server_default k) else JUndef) else None
      | _ \<Rightarrow> None)"

section \<open>The form of a server\<close>

record dns_form =
  df_address :: string
  df_port :: int
  df_domains :: "string list"
  df_expectedIPs :: "string list"
  df_unexpectedIPs :: "string list"
  df_queryStrategy :: string
  df_skipFallback :: bool
  df_disableCache :: bool
  df_finalQuery :: bool
  df_tag :: string
  df_clientIP :: string
  df_serveStale :: bool
  df_serveExpiredTTL :: js
  df_timeoutMs :: int

definition defaultFormValues :: dns_form where
  "defaultFormValues = \<lparr>df_address = ''localhost'', df_port = 53, df_domains = [], df_expectedIPs = [], df_unexpectedIPs = [],
     df_queryStrategy = ''UseIP'', df_skipFallback = False, df_disableCache = False, df_finalQuery = False, df_tag = [],
     df_clientIP = [], df_serveStale = False, df_serveExpiredTTL = JInt 0, df_timeoutMs = 4000\<rparr>"

definition strs :: "string list \<Rightarrow> js" where
  "strs ws = JArr (map JStr ws)"

text \<open>
  The values of the form; those read from a server need not have the types of the fields. The time to live has
  no rule: a number with a fraction or not, or \<open>null\<close> where it was cleared.
\<close>

definition form_values :: "dns_form \<Rightarrow> jobj" where
  "form_values v =
     [(''address'', JStr (df_address v)), (''port'', JInt (df_port v)), (''domains'', strs (df_domains v)),
      (''expectedIPs'', strs (df_expectedIPs v)), (''unexpectedIPs'', strs (df_unexpectedIPs v)),
      (''queryStrategy'', JStr (df_queryStrategy v)), (''skipFallback'', JBool (df_skipFallback v)),
      (''disableCache'', JBool (df_disableCache v)), (''finalQuery'', JBool (df_finalQuery v)), (''tag'', JStr (df_tag v)),
      (''clientIP'', JStr (df_clientIP v)), (''serveStale'', JBool (df_serveStale v)),
      (''serveExpiredTTL'', df_serveExpiredTTL v), (''timeoutMs'', JInt (df_timeoutMs v))]"

definition valuesFromServer :: "js \<Rightarrow> jobj" where
  "valuesFromServer server =
     (if nullish server then form_values defaultFormValues
      else if is_str server then oput ''address'' server (form_values defaultFormValues)
      else
        let data = (case parse_server server of Some d \<Rightarrow> d | None \<Rightarrow> (\<lambda>_. JUndef));
            pick = (\<lambda>k d. coalesce (data k) (coalesce (jget server k) d))
        in [(''address'', jor (coalesce (data ''address'') (jget server ''address'')) (JStr ''localhost'')),
            (''port'', dflt (data ''port'') (JInt 53)),
            (''domains'', pick ''domains'' (JArr [])),
            (''expectedIPs'', coalesce (data ''expectedIPs'') (coalesce (jget server ''expectedIPs'') (coalesce (jget server ''expectIPs'') (JArr [])))),
            (''unexpectedIPs'', pick ''unexpectedIPs'' (JArr [])),
            (''queryStrategy'', pick ''queryStrategy'' (JStr ''UseIP'')),
            (''skipFallback'', pick ''skipFallback'' (JBool False)),
            (''disableCache'', pick ''disableCache'' (JBool False)),
            (''finalQuery'', pick ''finalQuery'' (JBool False)),
            (''tag'', pick ''tag'' (JStr [])),
            (''clientIP'', pick ''clientIP'' (JStr [])),
            (''serveStale'', pick ''serveStale'' (JBool False)),
            (''serveExpiredTTL'', pick ''serveExpiredTTL'' (JInt 0)),
            (''timeoutMs'', pick ''timeoutMs'' (JInt 4000))])"

definition is_plain :: "dns_form \<Rightarrow> bool" where
  "is_plain v \<longleftrightarrow> df_domains v = [] \<and> df_expectedIPs v = [] \<and> df_unexpectedIPs v = [] \<and> df_port v = 53
     \<and> df_queryStrategy v = ''UseIP'' \<and> \<not> df_skipFallback v \<and> \<not> df_disableCache v \<and> \<not> df_finalQuery v
     \<and> df_tag v = [] \<and> df_clientIP v = [] \<and> \<not> df_serveStale v \<and> df_serveExpiredTTL v = JInt 0 \<and> df_timeoutMs v = 4000"

definition valuesToWire :: "dns_form \<Rightarrow> js" where
  "valuesToWire v =
     (if is_plain v then JStr (df_address v)
      else JObj (
        [(''address'', JStr (df_address v)), (''port'', JInt (df_port v)), (''domains'', strs (non_empty (df_domains v))),
         (''expectedIPs'', strs (non_empty (df_expectedIPs v))), (''unexpectedIPs'', strs (non_empty (df_unexpectedIPs v))),
         (''queryStrategy'', JStr (df_queryStrategy v)), (''skipFallback'', JBool (df_skipFallback v)),
         (''disableCache'', JBool (df_disableCache v)), (''finalQuery'', JBool (df_finalQuery v)),
         (''serveStale'', JBool (df_serveStale v)), (''serveExpiredTTL'', df_serveExpiredTTL v),
         (''timeoutMs'', JInt (df_timeoutMs v))]
        @ (if df_tag v \<noteq> [] then [(''tag'', JStr (df_tag v))] else [])
        @ (if df_clientIP v \<noteq> [] then [(''clientIP'', JStr (df_clientIP v))] else [])))"

text \<open>
  What the rules of the form let through: port and timeout have one, the strategy is picked from a list; an
  address may be empty and the time to live is not checked.
\<close>

definition rules_pass :: "dns_form \<Rightarrow> bool" where
  "rules_pass v \<longleftrightarrow> 1 \<le> df_port v \<and> df_port v \<le> 65535 \<and> df_queryStrategy v \<in> set QUERY_STRATEGIES
     \<and> 0 \<le> df_timeoutMs v \<and> df_timeoutMs v \<le> 9007199254740991"

section \<open>Saving and opening again\<close>

definition tidy_form :: "dns_form \<Rightarrow> dns_form" where
  "tidy_form v = v\<lparr>df_domains := non_empty (df_domains v), df_expectedIPs := non_empty (df_expectedIPs v),
     df_unexpectedIPs := non_empty (df_unexpectedIPs v)\<rparr>"

definition wire_obj :: "dns_form \<Rightarrow> jobj" where
  "wire_obj v = (case valuesToWire v of JObj o1 \<Rightarrow> o1 | _ \<Rightarrow> [])"

lemma wire_get:
  assumes "\<not> is_plain v"
  shows "valuesToWire v = JObj (wire_obj v)"
    and "oget (wire_obj v) ''address'' = JStr (df_address v)" and "oget (wire_obj v) ''port'' = JInt (df_port v)"
    and "oget (wire_obj v) ''domains'' = strs (non_empty (df_domains v))"
    and "oget (wire_obj v) ''expectedIPs'' = strs (non_empty (df_expectedIPs v))"
    and "oget (wire_obj v) ''unexpectedIPs'' = strs (non_empty (df_unexpectedIPs v))"
    and "oget (wire_obj v) ''queryStrategy'' = JStr (df_queryStrategy v)"
    and "oget (wire_obj v) ''skipFallback'' = JBool (df_skipFallback v)"
    and "oget (wire_obj v) ''disableCache'' = JBool (df_disableCache v)"
    and "oget (wire_obj v) ''finalQuery'' = JBool (df_finalQuery v)"
    and "oget (wire_obj v) ''serveStale'' = JBool (df_serveStale v)"
    and "oget (wire_obj v) ''serveExpiredTTL'' = df_serveExpiredTTL v"
    and "oget (wire_obj v) ''timeoutMs'' = JInt (df_timeoutMs v)"
    and "oget (wire_obj v) ''tag'' = (if df_tag v = [] then JUndef else JStr (df_tag v))"
    and "oget (wire_obj v) ''clientIP'' = (if df_clientIP v = [] then JUndef else JStr (df_clientIP v))"
    and "oget (wire_obj v) ''expectIPs'' = JUndef"
  using assms by (simp_all add: valuesToWire_def wire_obj_def)

lemma int_between_JInt: "lo \<le> of_int z \<Longrightarrow> of_int z \<le> hi \<Longrightarrow> int_between lo hi (JInt z)"
  by (simp add: int_between_def is_integer_def)

lemma is_strings_strs [simp]: "is_strings (strs ws)"
  by (simp add: is_strings_def strs_def list_all_iff)

lemma strs_simps [simp]: "strs ws \<noteq> JUndef" "\<not> nullish (strs ws)"
  by (simp_all add: strs_def)

lemma parse_wire:
  assumes "rules_pass v" and "int_between 0 MAX_SAFE (df_serveExpiredTTL v)" and "\<not> is_plain v"
  shows "parse_server (JObj (wire_obj v)) =
    Some (\<lambda>k. if k \<in> fst ` set server_fields then dflt (oget (wire_obj v) k) (server_default k) else JUndef)"
proof -
  have p: "int_between 1 65535 (JInt (df_port v))" and t: "int_between 0 MAX_SAFE (JInt (df_timeoutMs v))"
    and s: "is_strategy (JStr (df_queryStrategy v))"
    using assms(1) by (auto intro!: int_between_JInt simp: rules_pass_def MAX_SAFE_def is_strategy_def)
  have "list_all (\<lambda>(k, ok). ok (oget (wire_obj v) k)) server_fields"
    using p t s assms(2) by (simp add: server_fields_def wire_get[OF assms(3)] optional_or_def)
  then show ?thesis by (simp add: parse_server_def wire_get(16)[OF assms(3)])
qed

lemma plain_form: "is_plain v \<Longrightarrow> v = defaultFormValues\<lparr>df_address := df_address v\<rparr>"
  by (simp add: is_plain_def defaultFormValues_def)

lemma int_between_number: "int_between lo hi v \<Longrightarrow> v \<noteq> JUndef \<and> \<not> nullish v"
  by (auto simp: int_between_def split: js.splits)

text \<open>
  C34
  A server saved by the dialog and opened again shows the form it was saved from, empty list entries left
  out, whether it was stored as its plain address or as an object, if the form passes its rules, has an address
  (which a plain one need not have) and a whole time to live.
\<close>

theorem dns_server_roundtrip:
  assumes "rules_pass v" and "df_address v \<noteq> [] \<or> is_plain v" and "int_between 0 MAX_SAFE (df_serveExpiredTTL v)"
  shows "valuesFromServer (valuesToWire v) = form_values (tidy_form v)"
proof (cases "is_plain v")
  case True
  then have t: "tidy_form v = v" by (simp add: tidy_form_def is_plain_def)
  have w: "valuesToWire v = JStr (df_address v)" using True by (simp add: valuesToWire_def)
  have "valuesFromServer (JStr a) = form_values (defaultFormValues\<lparr>df_address := a\<rparr>)" for a
    by (simp add: valuesFromServer_def form_values_def)
  then show ?thesis unfolding w t by (subst plain_form[OF True]) simp
next
  case False
  note W = wire_get[OF False]
  have "server_default ''port'' = JInt 53" "server_default ''timeoutMs'' = JInt 4000" by (simp_all add: server_default_def)
  have k: "\<And>k. k \<in> {''address'', ''port'', ''domains'', ''expectedIPs'', ''unexpectedIPs'', ''queryStrategy'', ''skipFallback'',
      ''disableCache'', ''finalQuery'', ''tag'', ''clientIP'', ''serveStale'', ''serveExpiredTTL'', ''timeoutMs''} \<Longrightarrow> k \<in> fst ` set server_fields"
    by (auto simp: server_fields_def)
  have d: "server_default k = JUndef" if "k \<noteq> ''port''" "k \<noteq> ''timeoutMs''" for k using that by (simp add: server_default_def)
  have a: "df_address v \<noteq> []" using assms(2) False by simp
  have n: "df_serveExpiredTTL v \<noteq> JUndef" "\<not> nullish (df_serveExpiredTTL v)" using int_between_number[OF assms(3)] by simp_all
  show ?thesis unfolding W(1) valuesFromServer_def
    by (simp add: parse_wire[OF assms(1,3) False] k W form_values_def tidy_form_def dflt_def d a n coalesce_def jor_def Let_def strs_def)
qed

definition sample_server :: dns_form where
  "sample_server = defaultFormValues\<lparr>df_address := ''1.1.1.1'', df_port := 5353, df_domains := [''geosite:cn'', []], df_tag := ''d1''\<rparr>"

theorem dns_server_roundtrip_witness:
  "valuesFromServer (valuesToWire sample_server) = form_values (sample_server\<lparr>df_domains := [''geosite:cn'']\<rparr>)"
proof -
  have "int_between 0 MAX_SAFE (JInt 0)" by code_simp
  then show ?thesis using dns_server_roundtrip[of sample_server]
    by (simp add: sample_server_def rules_pass_def defaultFormValues_def QUERY_STRATEGIES_def tidy_form_def non_empty_def)
qed

text \<open>
  The two cases the rules let through beside: a time to live that was cleared, or has a fraction, makes a stored
  object that the schema refuses, so that the port is 53 when it is opened again; and an object with an empty
  address is opened with \<open>localhost\<close>.
\<close>

lemma cleared_ttl_loses_port:
  assumes "df_serveExpiredTTL v = JNull \<or> (\<exists>q. df_serveExpiredTTL v = JNum (Fin q) \<and> \<not> is_integer (Fin q))"
  shows "parse_server (valuesToWire v) = None \<and> oget (valuesFromServer (valuesToWire v)) ''port'' = JInt 53"
proof -
  have n: "\<not> is_plain v" using assms by (auto simp: is_plain_def is_integer_def)
  have "\<not> optional_or (int_between 0 MAX_SAFE) (df_serveExpiredTTL v)"
    using assms by (auto simp: optional_or_def int_between_def)
  then have "\<not> list_all (\<lambda>(k, ok). ok (oget (wire_obj v) k)) server_fields"
    by (simp add: server_fields_def wire_get[OF n])
  then have p: "parse_server (valuesToWire v) = None"
    unfolding wire_get(1)[OF n] by (simp add: parse_server_def wire_get(16)[OF n])
  then show ?thesis unfolding wire_get(1)[OF n] by (simp add: valuesFromServer_def Let_def dflt_def)
qed

lemma empty_address_replaced:
  assumes "rules_pass v" and "int_between 0 MAX_SAFE (df_serveExpiredTTL v)" and "df_address v = []" and "\<not> is_plain v"
  shows "oget (valuesFromServer (valuesToWire v)) ''address'' = JStr ''localhost''"
proof -
  have "''address'' \<in> fst ` set server_fields" by (simp add: server_fields_def)
  then show ?thesis unfolding wire_get(1)[OF assms(4)]
    by (simp add: valuesFromServer_def parse_wire[OF assms(1,2,4)] wire_get[OF assms(4)] assms(3) dflt_def coalesce_def jor_def Let_def)
qed

text \<open>
  A stored server that does not fit the schema keeps its other fields in the form, but its port is replaced by
  53: the port is the one field that is not read from the server itself.
\<close>

lemma server_port_lost:
  "parse_server (JObj o1) = None \<Longrightarrow> oget (valuesFromServer (JObj o1)) ''port'' = JInt 53
     \<and> oget (valuesFromServer (JObj o1)) ''tag'' = coalesce (oget o1 ''tag'') (JStr [])"
  by (simp add: valuesFromServer_def Let_def dflt_def)

lemma server_port_lost_example:
  "parse_server (JObj [(''address'', JStr ''1.1.1.1''), (''port'', JInt 5353), (''queryStrategy'', JStr ''UseIPv46'')]) = None"
  by code_simp

section \<open>The tab\<close>

text \<open>An edit of the DNS section where there is one.\<close>

definition edit_dns :: "(jobj \<Rightarrow> jobj option) \<Rightarrow> jobj \<Rightarrow> jobj option" where
  "edit_dns f t =
     (case oget t ''dns'' of
        JObj d \<Rightarrow> map_option (\<lambda>d. oput ''dns'' (JObj d) t) (f d)
      | v \<Rightarrow> if truthy v then None else Some t)"

definition new_dns :: jobj where
  "new_dns =
     [(''tag'', JStr ''dns_inbound''), (''queryStrategy'', JStr ''UseIP''), (''disableCache'', JBool False),
      (''disableFallback'', JBool False), (''disableFallbackIfMatch'', JBool False), (''useSystemHosts'', JBool False),
      (''enableParallelQuery'', JBool False), (''serveStale'', JBool False), (''serveExpiredTTL'', JInt 0),
      (''hosts'', JObj []), (''servers'', JArr [])]"

definition toggleDNS :: "bool \<Rightarrow> jobj \<Rightarrow> jobj" where
  "toggleDNS enabled t =
     (if enabled then oput ''fakedns'' JNull (oput ''dns'' (JObj new_dns) t) else odel ''fakedns'' (odel ''dns'' t))"

text \<open>The rows of the static hosts.\<close>

type_synonym host_row = "string \<times> js list"

definition entries_of :: "js \<Rightarrow> (string \<times> js) list" where
  "entries_of v = (case v of JObj ps \<Rightarrow> ps | JArr xs \<Rightarrow> zip (map nat_str [0 ..< length xs]) xs | _ \<Rightarrow> [])"

definition hosts_rows :: "js \<Rightarrow> host_row list" where
  "hosts_rows dns = map (\<lambda>(domain, val). (domain, if is_arr val then js_elems val else [JStr (to_str val)]))
     (entries_of (jget dns ''hosts''))"

definition host_step :: "host_row \<Rightarrow> jobj \<Rightarrow> jobj" where
  "host_step row obj =
     (case row of (domain, values) \<Rightarrow>
        if domain = [] then obj
        else let vals = filter truthy values in
             if vals = [] then obj else oset domain (if length vals = 1 then hd vals else JArr vals) obj)"

definition hosts_obj :: "host_row list \<Rightarrow> jobj" where
  "hosts_obj rows = fold host_step rows []"

definition syncHosts :: "host_row list \<Rightarrow> jobj \<Rightarrow> jobj option" where
  "syncHosts rows t =
     edit_dns (\<lambda>d. Some (if hosts_obj rows \<noteq> [] then oput ''hosts'' (JObj (hosts_obj rows)) d else odel ''hosts'' d)) t"

definition setDnsField :: "string \<Rightarrow> js \<Rightarrow> bool \<Rightarrow> jobj \<Rightarrow> jobj option" where
  "setDnsField key value omit t =
     edit_dns (\<lambda>d. Some
       (if omit \<and> (nullish value \<or> (case value of JStr s \<Rightarrow> trim s = [] | _ \<Rightarrow> False)) then odel key d
        else oput key value d)) t"

definition put_at :: "nat option \<Rightarrow> js \<Rightarrow> js list \<Rightarrow> js list" where
  "put_at i v xs =
     (case i of None \<Rightarrow> xs @ [v]
      | Some i \<Rightarrow> if i < length xs then xs[i := v] else xs @ replicate (i - length xs) JUndef @ [v])"

definition onServerConfirm :: "nat option \<Rightarrow> js \<Rightarrow> jobj \<Rightarrow> jobj option" where
  "onServerConfirm editingIndex value t =
     edit_dns (\<lambda>d. Some (oput ''servers'' (JArr (put_at editingIndex value (js_elems (oget d ''servers'')))) d)) t"

text \<open>Deleting looks at \<open>servers\<close> only, so that any value of \<open>dns\<close> without one is left alone.\<close>

definition deleteServer :: "nat \<Rightarrow> jobj \<Rightarrow> jobj option" where
  "deleteServer idx t =
     (case jget (oget t ''dns'') ''servers'' of
        JArr xs \<Rightarrow> edit_dns (\<lambda>d. Some (oput ''servers'' (JArr (take idx xs @ drop (Suc idx) xs)) d)) t
      | v \<Rightarrow> if truthy v then None else Some t)"

definition setServers :: "string list \<Rightarrow> jobj \<Rightarrow> jobj option" where
  "setServers servers t = edit_dns (\<lambda>d. Some (oput ''servers'' (strs servers) d)) t"

definition clearAllServers :: "jobj \<Rightarrow> jobj option" where
  "clearAllServers t = setServers [] t"

definition DEFAULT_FAKEDNS :: jobj where
  "DEFAULT_FAKEDNS = [(''ipPool'', JStr ''198.18.0.0/15''), (''poolSize'', JInt 65535)]"

definition addFakedns :: "jobj \<Rightarrow> jobj" where
  "addFakedns t = oput ''fakedns'' (JArr (js_elems (oget t ''fakedns'') @ [JObj DEFAULT_FAKEDNS])) t"

definition deleteFakedns :: "nat \<Rightarrow> jobj \<Rightarrow> jobj option" where
  "deleteFakedns idx t =
     (case oget t ''fakedns'' of
        JArr xs \<Rightarrow> let ys = take idx xs @ drop (Suc idx) xs in Some (oput ''fakedns'' (if ys = [] then JNull else JArr ys) t)
      | v \<Rightarrow> if truthy v then None else Some t)"

definition updateFakednsField :: "nat \<Rightarrow> string \<Rightarrow> js \<Rightarrow> jobj \<Rightarrow> jobj option" where
  "updateFakednsField idx field value t =
     (case oget t ''fakedns'' of
        JArr xs \<Rightarrow>
          if idx < length xs \<and> truthy (xs ! idx)
          then (if is_obj (xs ! idx) then Some (oput ''fakedns'' (JArr (xs[idx := set_prop field value (xs ! idx)])) t) else None)
          else Some t
      | JStr s \<Rightarrow> if idx < length s then None else Some t
      | _ \<Rightarrow> Some t)"

section \<open>Reading and writing the hosts\<close>

text \<open>A host is stored as a text or, from two values on, as a list; a domain is not empty.\<close>

definition host_fits :: "string \<times> js \<Rightarrow> bool" where
  "host_fits p \<longleftrightarrow> fst p \<noteq> [] \<and> fst p \<noteq> ''__proto__''
     \<and> ((\<exists>s. s \<noteq> [] \<and> snd p = JStr s) \<or> (\<exists>ws. 2 \<le> length ws \<and> [] \<notin> set ws \<and> snd p = strs ws))"

lemma host_step_back:
  assumes "host_fits p"
  shows "host_step ((\<lambda>(domain, val). (domain, if is_arr val then js_elems val else [JStr (to_str val)])) p) o1 = oput (fst p) (snd p) o1"
proof -
  obtain k v where p: "p = (k, v)" by fastforce
  have k: "k \<noteq> []" "oset k w o1 = oput k w o1" for w using assms by (simp_all add: p host_fits_def oset_def)
  consider s where "s \<noteq> []" "v = JStr s" | ws where "2 \<le> length ws" "[] \<notin> set ws" "v = strs ws"
    using assms by (auto simp: p host_fits_def)
  then show ?thesis
  proof cases
    case (2 ws)
    have "filter truthy (map JStr ws) = map JStr ws" using 2(2) by (induction ws) auto
    moreover have "ws \<noteq> []" "length ws \<noteq> 1" using 2(1) by auto
    ultimately show ?thesis using k 2(3) by (simp add: p host_step_def strs_def js_elems_def Let_def del: oput.simps)
  qed (use k in \<open>simp add: p host_step_def\<close>)
qed

lemma hosts_back:
  assumes "owf (acc @ h)" and "list_all host_fits h"
  shows "fold host_step (map (\<lambda>(domain, val). (domain, if is_arr val then js_elems val else [JStr (to_str val)])) h) acc = acc @ h"
  using assms
proof (induction h arbitrary: acc)
  case (Cons p h)
  have "owf (acc @ [p])" using Cons.prems(1) owf_prefix[of "acc @ [p]" h] by simp
  then have "oput (fst p) (snd p) acc = acc @ [p]" using oput_snoc[of acc "fst p" "snd p"] by simp
  then show ?case using Cons host_step_back[of p acc] by simp
qed simp

text \<open>
  The static hosts shown by the tab, written back as they are, are the hosts of the template: nothing of the
  template changes but for an empty table, which is removed.
\<close>

theorem hosts_written_as_read:
  assumes "oget t ''dns'' = JObj d" and "oget d ''hosts'' = JObj h" and "owf h" and "list_all host_fits h"
  shows "\<exists>t'. syncHosts (hosts_rows (JObj d)) t = Some t' \<and> (\<forall>k. k \<noteq> ''dns'' \<longrightarrow> oget t' k = oget t k)
    \<and> oget t' ''dns'' = JObj (if h = [] then odel ''hosts'' d else oput ''hosts'' (JObj h) d)
    \<and> (h \<noteq> [] \<longrightarrow> t' = t)"
proof -
  have h: "hosts_obj (hosts_rows (JObj d)) = h"
    using hosts_back[of "[]" h] assms(2-4) by (simp add: hosts_obj_def hosts_rows_def entries_of_def)
  have n: "\<not> is_index ''hosts''" "\<not> is_index ''dns''" by (simp_all add: is_digit_def)
  have "oput ''hosts'' (oget d ''hosts'') d = d"
    by (rule oput_self[OF n(1)]) (use assms(2) oget_not_ohas[of d "''hosts''"] in force)
  then have d: "oput ''hosts'' (JObj h) d = d" using assms(2) by simp
  have "oput ''dns'' (oget t ''dns'') t = t"
    by (rule oput_self[OF n(2)]) (use assms(1) oget_not_ohas[of t "''dns''"] in force)
  then have t: "oput ''dns'' (JObj d) t = t" using assms(1) by simp
  show ?thesis using d t by (auto simp: syncHosts_def edit_dns_def assms(1) h simp del: oput.simps)
qed

theorem hosts_written_as_read_witness:
  "syncHosts (hosts_rows (JObj [(''hosts'', JObj [(''a.b'', JStr ''1.1.1.1''), (''c.d'', strs [''2.2.2.2'', ''3.3.3.3''])])]))
      [(''dns'', JObj [(''hosts'', JObj [(''a.b'', JStr ''1.1.1.1''), (''c.d'', strs [''2.2.2.2'', ''3.3.3.3''])])])]
   = Some [(''dns'', JObj [(''hosts'', JObj [(''a.b'', JStr ''1.1.1.1''), (''c.d'', strs [''2.2.2.2'', ''3.3.3.3''])])])]"
proof -
  let ?h = "[(''a.b'', JStr ''1.1.1.1''), (''c.d'', strs [''2.2.2.2'', ''3.3.3.3''])]"
  have "owf ?h" by code_simp
  moreover have "host_fits (''c.d'', strs [''2.2.2.2'', ''3.3.3.3''])"
    unfolding host_fits_def by (intro conjI disjI2 exI[of _ "[''2.2.2.2'', ''3.3.3.3'']"]) simp_all
  then have "list_all host_fits ?h" by (simp add: host_fits_def[of "(''a.b'', _)"])
  ultimately show ?thesis
    using hosts_written_as_read[of "[(''dns'', JObj [(''hosts'', JObj ?h)])]" "[(''hosts'', JObj ?h)]" ?h] by auto
qed

end
