(* ===== verification/Client_Form.thy ===== *)
theory Client_Form
  imports Js_Text Random_Util Clients_State
begin

text \<open>
  The client dialog (\<open>pages/clients/ClientFormModal.tsx\<close>): the form of a client, the effects that keep it
  in step with the inbounds it is attached to, and the payload it submits; and the page's save
  (\<open>pages/clients/ClientsPage.tsx\<close>) as the sequence of requests it sends, against the part of the server
  they depend on (\<open>client_crud.go\<close>, \<open>client_link.go\<close>, \<open>client_external_link.go\<close>). The columns of a client are typed as the server
  types them; the limit in GB is an exact rational, which is what the doubles of the code round to for every
  limit below 128 TB (the nearest tie of the rounding is 1/50 away, the error below 1/64).
\<close>

section \<open>Limits\<close>

definition js_round :: "rat \<Rightarrow> int" where
  "js_round x = \<lfloor>x + 1 / 2\<rfloor>"

definition bytesToGB :: "int \<Rightarrow> rat" where
  "bytesToGB bytes = (if bytes \<le> 0 then 0 else of_int (js_round (of_int bytes / 1073741824 * 100)) / 100)"

definition gbToBytes :: "rat \<Rightarrow> int" where
  "gbToBytes gb = (if gb \<le> 0 then 0 else js_round (gb * 1073741824))"

section \<open>Data\<close>

datatype link_kind = Share_Link | Subscription

record ext_link =
  el_kind :: link_kind
  el_value :: string
  el_remark :: string

record link_row =
  lr_key :: nat
  lr_kind :: link_kind
  lr_value :: string

record client_record =
  fc_email :: string
  fc_subId :: "string option"
  fc_uuid :: "string option"
  fc_password :: "string option"
  fc_auth :: "string option"
  fc_flow :: "string option"
  fc_security :: "string option"
  fc_reverse_tag :: "string option"
  fc_totalGB :: "int option"
  fc_expiryTime :: "int option"
  fc_reset :: "int option"
  fc_limitIp :: "int option"
  fc_tgId :: "int option"
  fc_group :: "string option"
  fc_comment :: "string option"
  fc_enable :: "bool option"

record inbound_option =
  io_id :: int
  io_protocol :: string
  io_tlsFlowCapable :: bool
  io_ssMethod :: string

record form_state =
  fm_email :: string
  fm_subId :: string
  fm_uuid :: string
  fm_password :: string
  fm_auth :: string
  fm_flow :: string
  fm_security :: string
  fm_reverseTag :: string
  fm_totalGB :: rat
  fm_expiryDate :: "int option"
  fm_delayedStart :: bool
  fm_delayedDays :: int
  fm_reset :: int
  fm_limitIp :: int
  fm_tgId :: int
  fm_group :: string
  fm_comment :: string
  fm_enable :: bool
  fm_inboundIds :: "int list"
  fm_externalLinks :: "link_row list"

definition emptyForm :: form_state where
  "emptyForm = \<lparr>fm_email = [], fm_subId = [], fm_uuid = [], fm_password = [], fm_auth = [], fm_flow = [],
     fm_security = ''auto'', fm_reverseTag = [], fm_totalGB = 0, fm_expiryDate = None, fm_delayedStart = False,
     fm_delayedDays = 0, fm_reset = 0, fm_limitIp = 0, fm_tgId = 0, fm_group = [], fm_comment = [], fm_enable = True,
     fm_inboundIds = [], fm_externalLinks = []\<rparr>"

section \<open>Opening the dialog\<close>

text \<open>The rows take their keys from a counter of the module.\<close>

fun toExternalLinkRows :: "ext_link list \<Rightarrow> nat \<Rightarrow> link_row list \<times> nat" where
  "toExternalLinkRows [] seq = ([], seq)"
| "toExternalLinkRows (l # ls) seq =
     (case toExternalLinkRows ls (seq + 1) of (rows, n) \<Rightarrow>
        (\<lparr>lr_key = seq + 1, lr_kind = el_kind l, lr_value = el_value l\<rparr> # rows, n))"

definition addExternalLinkRow :: "link_kind \<Rightarrow> form_state \<times> nat \<Rightarrow> form_state \<times> nat" where
  "addExternalLinkRow kind s =
     (case s of (form, seq) \<Rightarrow>
        (form\<lparr>fm_externalLinks := fm_externalLinks form @ [\<lparr>lr_key = seq + 1, lr_kind = kind, lr_value = []\<rparr>]\<rparr>, seq + 1))"

definition updateExternalLinkRow :: "nat \<Rightarrow> string \<Rightarrow> form_state \<Rightarrow> form_state" where
  "updateExternalLinkRow key value form =
     form\<lparr>fm_externalLinks := map (\<lambda>r. if lr_key r = key then r\<lparr>lr_value := value\<rparr> else r) (fm_externalLinks form)\<rparr>"

definition removeExternalLinkRow :: "nat \<Rightarrow> form_state \<Rightarrow> form_state" where
  "removeExternalLinkRow key form =
     form\<lparr>fm_externalLinks := filter (\<lambda>r. lr_key r \<noteq> key) (fm_externalLinks form)\<rparr>"

definition or_num :: "int option \<Rightarrow> int" where
  "or_num v = (case v of Some n \<Rightarrow> n | None \<Rightarrow> 0)"

definition DAY :: int where
  "DAY = 86400000"

definition load_client :: "client_record \<Rightarrow> int list \<Rightarrow> ext_link list \<Rightarrow> nat \<Rightarrow> form_state \<times> nat" where
  "load_client client attachedIds links seq =
     (let et = or_num (fc_expiryTime client); (rows, seq') = toExternalLinkRows links seq in
      (\<lparr>fm_email = fc_email client, fm_subId = or_empty (fc_subId client), fm_uuid = or_empty (fc_uuid client),
        fm_password = or_empty (fc_password client), fm_auth = or_empty (fc_auth client), fm_flow = or_empty (fc_flow client),
        fm_security = sor (or_empty (fc_security client)) ''auto'', fm_reverseTag = or_empty (fc_reverse_tag client),
        fm_totalGB = bytesToGB (or_num (fc_totalGB client)),
        fm_expiryDate = (if et > 0 then Some et else None), fm_delayedStart = (et < 0),
        fm_delayedDays = (if et < 0 then js_round (of_int et / of_int (- DAY)) else 0),
        fm_reset = or_num (fc_reset client), fm_limitIp = or_num (fc_limitIp client), fm_tgId = or_num (fc_tgId client),
        fm_group = or_empty (fc_group client), fm_comment = or_empty (fc_comment client), fm_enable = (fc_enable client = Some True),
        fm_inboundIds = attachedIds, fm_externalLinks = rows\<rparr>, seq'))"

text \<open>A new client; the drawn texts are arguments.\<close>

definition new_client_form :: "string \<Rightarrow> string \<Rightarrow> string \<Rightarrow> string \<Rightarrow> string \<Rightarrow> form_state" where
  "new_client_form email uuid subId password auth =
     emptyForm\<lparr>fm_email := email, fm_uuid := uuid, fm_subId := subId, fm_password := password, fm_auth := auth\<rparr>"

section \<open>Effects\<close>

definition attached_to :: "(inbound_option \<Rightarrow> bool) \<Rightarrow> inbound_option list \<Rightarrow> form_state \<Rightarrow> bool" where
  "attached_to p inbounds form \<longleftrightarrow> (\<exists>id\<in>set (fm_inboundIds form). \<exists>ib\<in>set inbounds. io_id ib = id \<and> p ib)"

definition showFlow :: "inbound_option list \<Rightarrow> form_state \<Rightarrow> bool" where
  "showFlow = attached_to io_tlsFlowCapable"

definition showReverseTag :: "inbound_option list \<Rightarrow> form_state \<Rightarrow> bool" where
  "showReverseTag = attached_to (\<lambda>ib. io_protocol ib = ''vless'')"

definition showSecurity :: "inbound_option list \<Rightarrow> form_state \<Rightarrow> bool" where
  "showSecurity = attached_to (\<lambda>ib. io_protocol ib = ''vmess'')"

text \<open>The first attached inbound with a Shadowsocks 2022 method.\<close>

fun first_ss2022 :: "inbound_option list \<Rightarrow> int list \<Rightarrow> string" where
  "first_ss2022 inbounds [] = []"
| "first_ss2022 inbounds (i # ids) =
     (case find (\<lambda>row. io_id row = i) inbounds of
        Some ib \<Rightarrow> if io_ssMethod ib \<noteq> [] \<and> take 4 (io_ssMethod ib) = ''2022'' then io_ssMethod ib else first_ss2022 inbounds ids
      | None \<Rightarrow> first_ss2022 inbounds ids)"

definition ss2022Method :: "inbound_option list \<Rightarrow> form_state \<Rightarrow> string" where
  "ss2022Method inbounds form = first_ss2022 inbounds (fm_inboundIds form)"

text \<open>The three effects, run after every change until none applies; \<open>draw\<close> gives the bytes of a new password.\<close>

definition clear_hidden :: "inbound_option list \<Rightarrow> form_state \<Rightarrow> form_state" where
  "clear_hidden inbounds form =
     form\<lparr>fm_flow := (if showFlow inbounds form then fm_flow form else []),
          fm_reverseTag := (if showReverseTag inbounds form then fm_reverseTag form else [])\<rparr>"

definition ss_password_effect :: "(nat \<Rightarrow> 8 word) \<Rightarrow> inbound_option list \<Rightarrow> form_state \<Rightarrow> form_state" where
  "ss_password_effect draw inbounds form =
     (let m = ss2022Method inbounds form in
      if m = [] \<or> isShadowsocks2022Password (fm_password form) m then form
      else form\<lparr>fm_password := randomShadowsocksPassword draw m\<rparr>)"

definition settle_form :: "(nat \<Rightarrow> 8 word) \<Rightarrow> inbound_option list \<Rightarrow> form_state \<Rightarrow> form_state" where
  "settle_form draw inbounds form = ss_password_effect draw inbounds (clear_hidden inbounds form)"

section \<open>Submitting\<close>

definition form_valid :: "bool \<Rightarrow> form_state \<Rightarrow> bool" where
  "form_valid isEdit form \<longleftrightarrow> trim (fm_email form) \<noteq> [] \<and> \<not> hasForbiddenClientChars (trim (fm_email form))
     \<and> \<not> hasForbiddenClientChars (fm_subId form) \<and> 0 \<le> fm_totalGB form \<and> 0 \<le> fm_delayedDays form \<and> 0 \<le> fm_reset form
     \<and> 0 \<le> fm_limitIp form \<and> 0 \<le> fm_tgId form \<and> (isEdit \<or> fm_inboundIds form \<noteq> [])"

record payload =
  py_email :: string
  py_subId :: string
  py_id :: string
  py_password :: string
  py_auth :: string
  py_flow :: string
  py_security :: string
  py_totalGB :: int
  py_expiryTime :: int
  py_reset :: int
  py_limitIp :: int
  py_tgId :: int
  py_group :: string
  py_comment :: string
  py_enable :: bool
  py_reverse :: "string option"

definition client_payload :: "inbound_option list \<Rightarrow> form_state \<Rightarrow> payload" where
  "client_payload inbounds form =
     \<lparr>py_email = trim (fm_email form), py_subId = fm_subId form, py_id = fm_uuid form, py_password = fm_password form,
      py_auth = fm_auth form, py_flow = (if showFlow inbounds form then fm_flow form else []),
      py_security = (if showSecurity inbounds form then sor (fm_security form) ''auto'' else ''auto''),
      py_totalGB = gbToBytes (fm_totalGB form),
      py_expiryTime = (if fm_delayedStart form then - DAY * fm_delayedDays form
                       else case fm_expiryDate form of Some d \<Rightarrow> d | None \<Rightarrow> 0),
      py_reset = fm_reset form, py_limitIp = fm_limitIp form, py_tgId = fm_tgId form, py_group = fm_group form,
      py_comment = fm_comment form, py_enable = fm_enable form,
      py_reverse = (let tag = (if showReverseTag inbounds form then trim (fm_reverseTag form) else []) in
                    if tag = [] then None else Some tag)\<rparr>"

definition sent_links :: "form_state \<Rightarrow> ext_link list" where
  "sent_links form =
     filter (\<lambda>l. el_value l \<noteq> [])
       (map (\<lambda>r. \<lparr>el_kind = lr_kind r, el_value = trim (lr_value r), el_remark = []\<rparr>) (fm_externalLinks form))"

text \<open>The ids to attach and to detach; a set keeps the order of insertion.\<close>

definition uniques :: "'a list \<Rightarrow> 'a list" where
  "uniques xs = rev (remdups (rev xs))"

definition to_attach :: "int list \<Rightarrow> form_state \<Rightarrow> int list" where
  "to_attach attachedIds form = filter (\<lambda>id. id \<notin> set attachedIds) (uniques (fm_inboundIds form))"

definition to_detach :: "int list \<Rightarrow> form_state \<Rightarrow> int list" where
  "to_detach attachedIds form = filter (\<lambda>id. id \<notin> set (fm_inboundIds form)) (uniques attachedIds)"

text \<open>What the dialog hands to the page.\<close>

datatype save_request =
    Save_Edit string payload "int list" "int list" "ext_link list"
  | Save_Create payload "int list" "ext_link list"

definition onSubmit :: "inbound_option list \<Rightarrow> client_record option \<Rightarrow> int list \<Rightarrow> form_state \<Rightarrow> save_request option" where
  "onSubmit inbounds client attachedIds form =
     (if \<not> form_valid (client \<noteq> None) form then None
      else Some (case client of
        Some c \<Rightarrow> Save_Edit (fc_email c) (client_payload inbounds form) (to_attach attachedIds form) (to_detach attachedIds form) (sent_links form)
      | None \<Rightarrow> Save_Create (client_payload inbounds form) (fm_inboundIds form) (sent_links form)))"

section \<open>The page's save\<close>

text \<open>
  The requests of \<open>onSave\<close>, one after the other until one fails: the state of the server when it stopped,
  and whether all succeeded.
\<close>

definition request :: "('s \<Rightarrow> 's option) \<Rightarrow> bool \<times> 's \<Rightarrow> bool \<times> 's" where
  "request op1 r = (case r of (ok, s) \<Rightarrow> if \<not> ok then r else case op1 s of Some s' \<Rightarrow> (True, s') | None \<Rightarrow> (False, s))"

record 's store_ops =
  op_create :: "payload \<Rightarrow> int list \<Rightarrow> 's \<Rightarrow> 's option"
  op_update :: "string \<Rightarrow> payload \<Rightarrow> 's \<Rightarrow> 's option"
  op_attach :: "string \<Rightarrow> int list \<Rightarrow> 's \<Rightarrow> 's option"
  op_detach :: "string \<Rightarrow> int list \<Rightarrow> 's \<Rightarrow> 's option"
  op_links :: "string \<Rightarrow> ext_link list \<Rightarrow> 's \<Rightarrow> 's option"

fun onSave :: "'s store_ops \<Rightarrow> save_request \<Rightarrow> 's \<Rightarrow> bool \<times> 's" where
  "onSave ops (Save_Create p ids links) s =
     (let r = request (op_create ops p ids) (True, s)
      in if py_email p \<noteq> [] \<and> links \<noteq> [] then request (op_links ops (py_email p) links) r else r)"
| "onSave ops (Save_Edit email p att det links) s =
     (let r = request (op_update ops email p) (True, s);
          r = (if att \<noteq> [] then request (op_attach ops email att) r else r);
          r = (if det \<noteq> [] then request (op_detach ops email det) r else r)
      in request (op_links ops email links) r)"

section \<open>The server\<close>

text \<open>
  What these requests do to the rows of the server: a client is found by its email, an update may give it
  another one that is free and keeps the credentials and the subscription id it is not given, and a set of
  links replaces the old one. Update and attach write the client into the settings of each inbound, with the
  credential its protocol asks for - a missing one is drawn, and so is a Shadowsocks key of the wrong size - and
  without a flow where the inbound allows none; the row of the client is then brought in line with what was
  written (\<open>SyncInbound\<close>), and each inbound keeps the flow written there. Of a client with no inbound an update
  therefore changes the email, the group and the reverse tag only.

  Arguments are the inbounds the server has, of which those a client is attached to are there, what it draws,
  its check of a link (\<open>valid_link\<close>), its other checks of an update (\<open>accepts\<close>) and of an attachment (\<open>admits\<close>),
  and \<open>creates\<close>, the creation of a client, which the properties are not about.
\<close>

record server_inbound =
  ib_protocol :: string
  ib_method :: string
  ib_tlsFlow :: bool

record server_env =
  se_inbound :: "int \<Rightarrow> server_inbound"
  se_draw :: "int \<Rightarrow> string"
  se_subId :: string

record server_client =
  sc_data :: payload
  sc_inbounds :: "int list"
  sc_links :: "ext_link list"
  sc_flow :: "int \<Rightarrow> string"

type_synonym server = "string \<rightharpoonup> server_client"

definition shadowsocksKeyBytes :: "string \<Rightarrow> nat" where
  "shadowsocksKeyBytes method =
     (if method = ''2022-blake3-aes-128-gcm'' then 16
      else if method \<in> {''2022-blake3-aes-256-gcm'', ''2022-blake3-chacha20-poly1305''} then 32 else 0)"

text \<open>\<open>base64.StdEncoding\<close> ignores line ends, and asks for the padding that \<open>atob\<close> may miss.\<close>

definition std_decode :: "string \<Rightarrow> string option" where
  "std_decode key =
     (let t = filter (\<lambda>c. c \<noteq> CHR 0x0A \<and> c \<noteq> CHR 0x0D) key in
      if length t mod 4 = 0 \<and> list_all (\<lambda>c. c \<notin> set ascii_ws) t then atob t else None)"

definition validShadowsocksClientKey :: "string \<Rightarrow> string \<Rightarrow> bool" where
  "validShadowsocksClientKey method key =
     (let n = shadowsocksKeyBytes method in
      if n = 0 then key \<noteq> [] else (case std_decode key of None \<Rightarrow> False | Some d \<Rightarrow> length d = n))"

definition fillProtocolDefaults :: "string \<Rightarrow> server_inbound \<Rightarrow> payload \<Rightarrow> payload" where
  "fillProtocolDefaults drawn ib c =
     (let pr = ib_protocol ib in
      if pr = ''vmess'' \<or> pr = ''vless'' then (if py_id c = [] then c\<lparr>py_id := drawn\<rparr> else c)
      else if pr = ''trojan'' then (if py_password c = [] then c\<lparr>py_password := drawn\<rparr> else c)
      else if pr = ''shadowsocks'' then
        (if py_password c = [] \<or> \<not> validShadowsocksClientKey (ib_method ib) (py_password c)
         then c\<lparr>py_password := drawn\<rparr> else c)
      else if pr = ''hysteria'' then (if py_auth c = [] then c\<lparr>py_auth := drawn\<rparr> else c)
      else c)"

definition clientWithInboundFlow :: "server_inbound \<Rightarrow> payload \<Rightarrow> payload" where
  "clientWithInboundFlow ib c = (if ib_tlsFlow ib then c else c\<lparr>py_flow := []\<rparr>)"

text \<open>The row of a client after the settings of one of its inbounds were written.\<close>

definition SyncInbound :: "payload \<Rightarrow> payload \<Rightarrow> payload" where
  "SyncInbound row incoming = incoming\<lparr>py_email := py_email row,
     py_id := sor (py_id incoming) (py_id row), py_password := sor (py_password incoming) (py_password row),
     py_auth := sor (py_auth incoming) (py_auth row), py_security := sor (py_security incoming) (py_security row),
     py_reverse := (if py_reverse incoming \<noteq> None then py_reverse incoming else py_reverse row),
     py_group := sor (py_group incoming) (py_group row)\<rparr>"

definition fill_payload :: "string \<Rightarrow> payload \<Rightarrow> payload \<Rightarrow> payload" where
  "fill_payload drawn old p = p\<lparr>py_subId := sor (py_subId p) (sor (py_subId old) drawn), py_id := sor (py_id p) (py_id old),
     py_password := sor (py_password p) (py_password old), py_auth := sor (py_auth p) (py_auth old)\<rparr>"

text \<open>One inbound of an update: the client as it is filled up so far, and the rows.\<close>

definition write_inbound :: "server_env \<Rightarrow> int \<Rightarrow> payload \<times> server_client \<Rightarrow> payload \<times> server_client" where
  "write_inbound env i st =
     (case st of (updated, c) \<Rightarrow>
        (let ib = se_inbound env i;
             updated = fillProtocolDefaults (se_draw env i) ib updated;
             written = clientWithInboundFlow ib updated
         in (updated, c\<lparr>sc_data := SyncInbound (sc_data c) written, sc_flow := (sc_flow c)(i := py_flow written)\<rparr>)))"

definition server_update ::
  "server_env \<Rightarrow> (payload \<Rightarrow> server \<Rightarrow> bool) \<Rightarrow> string \<Rightarrow> payload \<Rightarrow> server \<Rightarrow> server option" where
  "server_update env accepts email p s =
     (case s email of
        None \<Rightarrow> None
      | Some c \<Rightarrow>
          if trim (py_email p) = [] \<or> (py_email p \<noteq> email \<and> s (py_email p) \<noteq> None) \<or> \<not> accepts p s then None
          else
            (let c = c\<lparr>sc_data := (sc_data c)\<lparr>py_email := py_email p\<rparr>\<rparr>;
                 c = snd (fold (write_inbound env) (sc_inbounds c) (fill_payload (se_subId env) (sc_data c) p, c));
                 c = c\<lparr>sc_data := (sc_data c)\<lparr>py_reverse := py_reverse p, py_group := py_group p\<rparr>\<rparr>
             in Some ((s(email := None))(py_email p \<mapsto> c))))"

text \<open>The flow of a client that is attached: the first one its inbounds have, in their order by number.\<close>

definition EffectiveFlow :: "server_client \<Rightarrow> string" where
  "EffectiveFlow c =
     (case filter (\<lambda>i. sc_flow c i \<noteq> []) (sort (sc_inbounds c)) of [] \<Rightarrow> [] | i # _ \<Rightarrow> sc_flow c i)"

definition attach_inbound :: "server_env \<Rightarrow> payload \<Rightarrow> int \<Rightarrow> server_client \<Rightarrow> server_client" where
  "attach_inbound env clientWire i c =
     (let ib = se_inbound env i;
          written = clientWithInboundFlow ib (fillProtocolDefaults (se_draw env i) ib clientWire);
          written = written\<lparr>py_subId := sor (py_subId written) (se_subId env)\<rparr>
      in c\<lparr>sc_data := SyncInbound (sc_data c) written, sc_inbounds := sc_inbounds c @ [i],
           sc_flow := (sc_flow c)(i := py_flow written)\<rparr>)"

definition server_attach ::
  "server_env \<Rightarrow> (server_client \<Rightarrow> int list \<Rightarrow> bool) \<Rightarrow> string \<Rightarrow> int list \<Rightarrow> server \<Rightarrow> server option" where
  "server_attach env admits email ids s =
     (case s email of
        None \<Rightarrow> None
      | Some c \<Rightarrow>
          if \<not> admits c ids then None
          else Some (s(email \<mapsto>
            fold (attach_inbound env ((sc_data c)\<lparr>py_flow := EffectiveFlow c\<rparr>))
              (filter (\<lambda>i. i \<notin> set (sc_inbounds c)) ids) c)))"

definition server_detach :: "string \<Rightarrow> int list \<Rightarrow> server \<Rightarrow> server option" where
  "server_detach email ids s =
     map_option (\<lambda>c. s(email \<mapsto> c\<lparr>sc_inbounds := filter (\<lambda>i. i \<notin> set ids) (sc_inbounds c)\<rparr>)) (s email)"

definition normalizeExternalLinks :: "(ext_link \<Rightarrow> bool) \<Rightarrow> ext_link list \<Rightarrow> ext_link list option" where
  "normalizeExternalLinks valid_link inputs =
     (let ls = filter (\<lambda>l. el_value l \<noteq> []) (map (\<lambda>l. l\<lparr>el_value := trim (el_value l), el_remark := trim (el_remark l)\<rparr>) inputs)
      in if list_all valid_link ls then Some ls else None)"

definition server_links :: "(ext_link \<Rightarrow> bool) \<Rightarrow> string \<Rightarrow> ext_link list \<Rightarrow> server \<Rightarrow> server option" where
  "server_links valid_link email links s =
     (case (s email, normalizeExternalLinks valid_link links) of
        (Some c, Some ls) \<Rightarrow> Some (s(email \<mapsto> c\<lparr>sc_links := ls\<rparr>))
      | _ \<Rightarrow> None)"

definition server_ops ::
  "server_env \<Rightarrow> (payload \<Rightarrow> int list \<Rightarrow> server \<Rightarrow> server option) \<Rightarrow> (payload \<Rightarrow> server \<Rightarrow> bool)
   \<Rightarrow> (server_client \<Rightarrow> int list \<Rightarrow> bool) \<Rightarrow> (ext_link \<Rightarrow> bool) \<Rightarrow> server store_ops" where
  "server_ops env creates accepts admits valid_link = \<lparr>op_create = creates, op_update = server_update env accepts,
     op_attach = server_attach env admits, op_detach = server_detach, op_links = server_links valid_link\<rparr>"

section \<open>Rounding\<close>

lemma js_round_close: "\<bar>of_int (js_round x) - x\<bar> \<le> 1 / 2"
  unfolding js_round_def by linarith

lemma js_round_unique: "\<bar>of_int k - x\<bar> < 1 / 2 \<Longrightarrow> js_round x = k"
  unfolding js_round_def by linarith

lemma js_round_mono: "x \<le> y \<Longrightarrow> js_round x \<le> js_round y"
  unfolding js_round_def by (rule floor_mono) simp

lemma js_round_0 [simp]: "js_round 0 = 0"
  by (rule js_round_unique) simp

text \<open>A limit that is a number of hundredths of a GB comes back; any other moves by less than 5.4 MB.\<close>

lemma gb_roundtrip:
  assumes "n = gbToBytes (of_int k / 100)"
  shows "gbToBytes (bytesToGB n) = n"
proof (cases "k \<le> 0")
  case True
  then show ?thesis using assms by (simp add: gbToBytes_def bytesToGB_def)
next
  case False
  let ?y = "of_int k / 100 * 1073741824 :: rat"
  have n: "n = js_round ?y" using False assms by (simp add: gbToBytes_def)
  have close: "\<bar>of_int n - ?y\<bar> \<le> 1 / 2" unfolding n by (rule js_round_close)
  moreover have "?y \<ge> 10737418" using False by simp
  ultimately have pos: "n > 0" by linarith
  have "\<bar>of_int k - of_int n / 1073741824 * 100\<bar> < (1 / 2 :: rat)" using close by linarith
  then have "js_round (of_int n / 1073741824 * 100) = k" by (rule js_round_unique)
  then show ?thesis using pos assms by (simp add: bytesToGB_def)
qed

lemma gb_error:
  assumes "0 \<le> n"
  shows "\<bar>gbToBytes (bytesToGB n) - n\<bar> \<le> 5368709"
proof -
  let ?x = "of_int n / 1073741824 * 100 :: rat"
  let ?k = "js_round ?x"
  have k: "\<bar>of_int ?k - ?x\<bar> \<le> 1 / 2" by (rule js_round_close)
  have k0: "0 \<le> ?k" using js_round_mono[of 0 ?x] assms by simp
  have b: "bytesToGB n = of_int ?k / 100" using assms k0 by (auto simp: bytesToGB_def)
  let ?y = "of_int ?k / 100 * 1073741824 :: rat"
  have y: "\<bar>?y - of_int n\<bar> \<le> 1073741824 / 200" using k by linarith
  have "gbToBytes (bytesToGB n) = js_round ?y" using k0 by (cases "?k = 0") (simp_all add: b gbToBytes_def)
  moreover have "\<bar>of_int (js_round ?y) - ?y\<bar> \<le> 1 / 2" by (rule js_round_close)
  ultimately have "\<bar>of_int (gbToBytes (bytesToGB n)) - (of_int n :: rat)\<bar> \<le> 1073741824 / 200 + 1 / 2" using y by linarith
  then have "of_int \<bar>gbToBytes (bytesToGB n) - n\<bar> < (5368710 :: rat)" by simp
  then show ?thesis by linarith
qed

lemma small_limit_lost: "0 < n \<Longrightarrow> n \<le> 5368709 \<Longrightarrow> gbToBytes (bytesToGB n) = 0"
proof -
  assume n: "0 < n" "n \<le> 5368709"
  then have "(of_int n :: rat) \<le> 5368709" "(0 :: rat) < of_int n" by simp_all
  then have "\<bar>of_int 0 - of_int n / 1073741824 * 100\<bar> < (1 / 2 :: rat)" by simp
  then have "js_round (of_int n / 1073741824 * 100) = 0" by (rule js_round_unique)
  then show ?thesis by (simp add: bytesToGB_def gbToBytes_def)
qed

section \<open>Editing a client without changing it\<close>

definition record_payload :: "client_record \<Rightarrow> payload" where
  "record_payload c =
     \<lparr>py_email = fc_email c, py_subId = or_empty (fc_subId c), py_id = or_empty (fc_uuid c), py_password = or_empty (fc_password c),
      py_auth = or_empty (fc_auth c), py_flow = or_empty (fc_flow c), py_security = sor (or_empty (fc_security c)) ''auto'',
      py_totalGB = or_num (fc_totalGB c), py_expiryTime = or_num (fc_expiryTime c), py_reset = or_num (fc_reset c),
      py_limitIp = or_num (fc_limitIp c), py_tgId = or_num (fc_tgId c), py_group = or_empty (fc_group c),
      py_comment = or_empty (fc_comment c), py_enable = (fc_enable c = Some True),
      py_reverse = (if or_empty (fc_reverse_tag c) = [] then None else fc_reverse_tag c)\<rparr>"

text \<open>
  What the dialog can show: a limit in hundredths of a GB, a delayed start in days, and a flow, a reverse tag,
  a cipher and a password that fit the inbounds the client is attached to.
\<close>

definition client_fits :: "inbound_option list \<Rightarrow> int list \<Rightarrow> client_record \<Rightarrow> bool" where
  "client_fits inbounds ids c \<longleftrightarrow>
     (let form = emptyForm\<lparr>fm_inboundIds := ids\<rparr> in
      trim (fc_email c) = fc_email c \<and> (\<exists>k. or_num (fc_totalGB c) = gbToBytes (of_int k / 100))
      \<and> (or_num (fc_expiryTime c) < 0 \<longrightarrow> DAY dvd or_num (fc_expiryTime c))
      \<and> (or_empty (fc_flow c) \<noteq> [] \<longrightarrow> showFlow inbounds form)
      \<and> (or_empty (fc_reverse_tag c) \<noteq> [] \<longrightarrow> showReverseTag inbounds form)
      \<and> trim (or_empty (fc_reverse_tag c)) = or_empty (fc_reverse_tag c)
      \<and> (sor (or_empty (fc_security c)) ''auto'' \<noteq> ''auto'' \<longrightarrow> showSecurity inbounds form)
      \<and> isShadowsocks2022Password (or_empty (fc_password c)) (ss2022Method inbounds form))"

lemma hidden_empty: "(x \<noteq> [] \<Longrightarrow> b) \<Longrightarrow> (if b then x else []) = x"
  by (cases x) auto

lemma attached_ids: "fm_inboundIds f = fm_inboundIds g \<Longrightarrow> attached_to p ibs f = attached_to p ibs g"
  by (simp add: attached_to_def)

lemma show_ids:
  assumes "fm_inboundIds f = fm_inboundIds g"
  shows "showFlow ibs f = showFlow ibs g" "showReverseTag ibs f = showReverseTag ibs g" "showSecurity ibs f = showSecurity ibs g"
    "ss2022Method ibs f = ss2022Method ibs g"
  using assms attached_ids[OF assms] by (simp_all add: showFlow_def showReverseTag_def showSecurity_def ss2022Method_def)

lemma delay_back:
  assumes "et < 0" and "DAY dvd et"
  shows "- DAY * js_round (of_int et / of_int (- DAY)) = et"
proof -
  obtain d where d: "et = DAY * d" using assms(2) by (auto simp: dvd_def)
  have "js_round (of_int et / of_int (- DAY)) = - d" by (rule js_round_unique) (simp add: d DAY_def)
  then show ?thesis by (simp add: d)
qed

text \<open>
  C18
  Opening a client and saving it without a change sends the client as it is, whatever inbounds it is
  attached to: every column, with the limit, the expiry or the delayed start, and the credentials.
\<close>

theorem edit_keeps_client:
  assumes "client_fits inbounds ids c"
  shows "client_payload inbounds (settle_form draw inbounds (fst (load_client c ids links seq))) = record_payload c"
proof -
  let ?f = "fst (load_client c ids links seq)"
  let ?g = "emptyForm\<lparr>fm_inboundIds := ids\<rparr>"
  have ids: "fm_inboundIds ?f = fm_inboundIds ?g" by (simp add: load_client_def Let_def split: prod.splits)
  note S = show_ids[OF ids, of inbounds]
  have F: "trim (fc_email c) = fc_email c" "or_empty (fc_flow c) \<noteq> [] \<Longrightarrow> showFlow inbounds ?g"
    "or_empty (fc_reverse_tag c) \<noteq> [] \<Longrightarrow> showReverseTag inbounds ?g" "trim (or_empty (fc_reverse_tag c)) = or_empty (fc_reverse_tag c)"
    "sor (or_empty (fc_security c)) ''auto'' \<noteq> ''auto'' \<Longrightarrow> showSecurity inbounds ?g"
    "isShadowsocks2022Password (or_empty (fc_password c)) (ss2022Method inbounds ?g)"
    and days: "or_num (fc_expiryTime c) < 0 \<Longrightarrow> DAY dvd or_num (fc_expiryTime c)"
    and gb: "gbToBytes (bytesToGB (or_num (fc_totalGB c))) = or_num (fc_totalGB c)"
    using assms gb_roundtrip unfolding client_fits_def Let_def by blast+
  have shown: "fm_flow ?f = or_empty (fc_flow c)" "fm_reverseTag ?f = or_empty (fc_reverse_tag c)" "fm_password ?f = or_empty (fc_password c)"
    "fm_security ?f = sor (or_empty (fc_security c)) ''auto''" by (simp_all add: load_client_def Let_def split: prod.splits)
  have clear: "clear_hidden inbounds ?f = ?f"
  proof -
    have "(if showFlow inbounds ?g then or_empty (fc_flow c) else []) = or_empty (fc_flow c)"
      "(if showReverseTag inbounds ?g then or_empty (fc_reverse_tag c) else []) = or_empty (fc_reverse_tag c)"
      using hidden_empty F(2,3) by blast+
    then show ?thesis unfolding clear_hidden_def S shown by (simp add: load_client_def Let_def split: prod.splits)
  qed
  have settle: "settle_form draw inbounds ?f = ?f"
    using F(6) unfolding settle_form_def clear ss_password_effect_def S shown by simp
  have rev: "(if or_empty (fc_reverse_tag c) = [] then None else Some (or_empty (fc_reverse_tag c)))
      = (if or_empty (fc_reverse_tag c) = [] then None else fc_reverse_tag c)"
    by (cases "fc_reverse_tag c") (simp_all add: or_empty_def)
  have exp: "(if fm_delayedStart ?f then - DAY * fm_delayedDays ?f else case fm_expiryDate ?f of Some d \<Rightarrow> d | None \<Rightarrow> 0) = or_num (fc_expiryTime c)"
    using delay_back[OF _ days] by (simp add: load_client_def Let_def split: prod.splits)
  have flow: "(if showFlow inbounds ?g then or_empty (fc_flow c) else []) = or_empty (fc_flow c)" using hidden_empty F(2) by blast
  have tag: "(if showReverseTag inbounds ?g then trim (or_empty (fc_reverse_tag c)) else []) = or_empty (fc_reverse_tag c)"
    unfolding F(4) using hidden_empty F(3) by blast
  have sec: "(if showSecurity inbounds ?g then sor (sor (or_empty (fc_security c)) ''auto'') ''auto'' else ''auto'')
      = sor (or_empty (fc_security c)) ''auto''"
  proof (cases "sor (or_empty (fc_security c)) ''auto'' = ''auto''")
    case True
    then show ?thesis unfolding True by (simp add: sor_def)
  next
    case False
    then show ?thesis using F(5) by (simp add: sor_def split: if_splits)
  qed
  show ?thesis
    unfolding settle client_payload_def exp S record_payload_def shown flow tag sec
    by (simp add: load_client_def Let_def F(1) gb rev split: prod.splits)
qed

text \<open>A vless client that fits the inbound it is attached to.\<close>

definition sample_option :: inbound_option where
  "sample_option = \<lparr>io_id = 3, io_protocol = ''vless'', io_tlsFlowCapable = True, io_ssMethod = []\<rparr>"

definition sample_client :: client_record where
  "sample_client = \<lparr>fc_email = ''ann'', fc_subId = Some ''s1'', fc_uuid = Some ''u1'', fc_password = None, fc_auth = None,
     fc_flow = Some ''xtls-rprx-vision'', fc_security = None, fc_reverse_tag = Some ''r1'', fc_totalGB = Some 1610612736,
     fc_expiryTime = Some (- 172800000), fc_reset = None, fc_limitIp = Some 2, fc_tgId = None, fc_group = None,
     fc_comment = Some ''c'', fc_enable = Some True\<rparr>"

theorem edit_keeps_client_witness:
  "client_payload [sample_option] (settle_form (\<lambda>_. 0) [sample_option] (fst (load_client sample_client [3] [] 0))) = record_payload sample_client"
proof (rule edit_keeps_client)
  have "or_num (fc_totalGB sample_client) = gbToBytes (of_int 150 / 100)" by code_simp
  moreover have "DAY dvd or_num (fc_expiryTime sample_client)" by code_simp
  moreover have "let form = emptyForm\<lparr>fm_inboundIds := [3]\<rparr>; c = sample_client; inbounds = [sample_option] in
      trim (fc_email c) = fc_email c \<and> showFlow inbounds form \<and> showReverseTag inbounds form
      \<and> trim (or_empty (fc_reverse_tag c)) = or_empty (fc_reverse_tag c) \<and> sor (or_empty (fc_security c)) ''auto'' = ''auto''
      \<and> isShadowsocks2022Password (or_empty (fc_password c)) (ss2022Method inbounds form)" by code_simp
  ultimately show "client_fits [sample_option] [3] sample_client" unfolding client_fits_def Let_def by blast
qed

section \<open>Saving\<close>

lemma uniques_set [simp]: "set (uniques xs) = set xs"
  by (simp add: uniques_def)

lemma moved_ids: "(set ids \<union> set (to_attach ids form)) - set (to_detach ids form) = set (fm_inboundIds form)"
  by (auto simp: to_attach_def to_detach_def)

lemma request_simps [simp]:
  "request f (False, s) = (False, s)"
  "request f (True, s) = (case f s of Some s' \<Rightarrow> (True, s') | None \<Rightarrow> (False, s))"
  by (simp_all add: request_def)

lemma request_ok: "request f r = (True, s') \<longleftrightarrow> (\<exists>s. r = (True, s) \<and> f s = Some s')"
  by (cases r) (auto simp: request_def split: option.splits if_splits)

text \<open>Links as the form sends them: trimmed, none empty, and without a remark.\<close>

definition clean_links :: "ext_link list \<Rightarrow> bool" where
  "clean_links ls \<longleftrightarrow> (\<forall>l\<in>set ls. el_value l \<noteq> [] \<and> trim (el_value l) = el_value l \<and> el_remark l = [])"

lemma sent_links_clean: "clean_links (sent_links form)"
  by (auto simp: clean_links_def sent_links_def)

lemma clean_links_normal:
  assumes "clean_links ls"
  shows "normalizeExternalLinks v ls = (if list_all v ls then Some ls else None)"
proof -
  have "map (\<lambda>l. l\<lparr>el_value := trim (el_value l), el_remark := trim (el_remark l)\<rparr>) ls = ls"
    using assms by (intro map_idI) (auto simp: clean_links_def)
  moreover have "filter (\<lambda>l. el_value l \<noteq> []) ls = ls" using assms by (auto simp: clean_links_def filter_id_conv)
  ultimately show ?thesis by (simp add: normalizeExternalLinks_def)
qed

text \<open>
  What the page relies on: every request finds the client by its email and changes only it, in the way
  the requests say; \<open>view\<close> is what a client shows of itself.
\<close>

locale client_store =
  fixes ops :: "'s store_ops"
    and merge :: "payload \<Rightarrow> payload \<Rightarrow> payload"
    and view :: "'s \<Rightarrow> string \<rightharpoonup> payload \<times> int set \<times> ext_link list"
  assumes update_same: "op_update ops e p s = Some s' \<Longrightarrow> py_email p = e \<Longrightarrow> view s e = Some (d, i, l) \<Longrightarrow> i \<noteq> {} \<Longrightarrow>
      view s' = (view s)(e \<mapsto> (merge d p, i, l))"
    and update_other: "op_update ops e p s = Some s' \<Longrightarrow> py_email p \<noteq> e \<Longrightarrow> view s' e = None"
    and attach_view: "op_attach ops e ids s = Some s' \<Longrightarrow> view s e = Some (d, i, l) \<Longrightarrow> py_subId d \<noteq> [] \<Longrightarrow> view s' = (view s)(e \<mapsto> (d, i \<union> set ids, l))"
    and detach_view: "op_detach ops e ids s = Some s' \<Longrightarrow> view s e = Some (d, i, l) \<Longrightarrow> view s' = (view s)(e \<mapsto> (d, i - set ids, l))"
    and links_view: "op_links ops e ls s = Some s' \<Longrightarrow> clean_links ls \<Longrightarrow> view s e = Some (d, i, l) \<Longrightarrow> view s' = (view s)(e \<mapsto> (d, i, ls))"
    and not_found: "view s e = None \<Longrightarrow> op_attach ops e ids s = None \<and> op_detach ops e ids s = None \<and> op_links ops e ls s = None"
begin

lemma maybe_attach:
  assumes "(if att \<noteq> [] then request (op_attach ops e att) r else r) = (True, s')" and "r = (True, s)" and "view s e = Some (d, i, l)"
    and "py_subId d \<noteq> []"
  shows "view s' = (view s)(e \<mapsto> (d, i \<union> set att, l))"
  using assms attach_view by (cases "att = []") (auto simp: fun_upd_idem split: option.splits)

lemma maybe_detach:
  assumes "(if det \<noteq> [] then request (op_detach ops e det) r else r) = (True, s')" and "r = (True, s)" and "view s e = Some (d, i, l)"
  shows "view s' = (view s)(e \<mapsto> (d, i - set det, l))"
  using assms detach_view by (cases "det = []") (auto simp: fun_upd_idem split: option.splits)

lemma maybe_ok: "(if b then request f r else r) = (True, s') \<Longrightarrow> \<exists>s. r = (True, s)"
  by (auto simp: request_ok split: if_splits)

lemma save_applies:
  assumes ok: "onSave ops (Save_Edit e p att det ls) s = (True, s')" and e: "py_email p = e" and c: "clean_links ls"
    and v: "view s e = Some (d, i, l)" and n: "i \<noteq> {}" and sub: "py_subId (merge d p) \<noteq> []"
  shows "view s' = (view s)(e \<mapsto> (merge d p, (i \<union> set att) - set det, ls))"
proof -
  let ?a = "\<lambda>r. if att \<noteq> [] then request (op_attach ops e att) r else r"
  let ?d = "\<lambda>r. if det \<noteq> [] then request (op_detach ops e det) r else r"
  let ?u = "request (op_update ops e p) (True, s)"
  obtain s3 where s3: "?d (?a ?u) = (True, s3)" and l: "op_links ops e ls s3 = Some s'"
    using ok by (auto simp: Let_def request_ok simp del: request_simps)
  obtain s2 where s2: "?a ?u = (True, s2)" using maybe_ok[OF s3] by blast
  obtain s1 where s1: "?u = (True, s1)" using maybe_ok[OF s2] by blast
  have u: "op_update ops e p s = Some s1" using s1 by (auto simp: request_ok simp del: request_simps)
  have v1: "view s1 = (view s)(e \<mapsto> (merge d p, i, l))" by (rule update_same[OF u e v n])
  have v2: "view s2 = (view s1)(e \<mapsto> (merge d p, i \<union> set att, l))" by (rule maybe_attach[OF s2 s1]) (simp_all add: v1 sub)
  have v3: "view s3 = (view s2)(e \<mapsto> (merge d p, (i \<union> set att) - set det, l))" by (rule maybe_detach[OF s3 s2]) (simp add: v2)
  have "view s' = (view s3)(e \<mapsto> (merge d p, (i \<union> set att) - set det, ls))"
    by (rule links_view[OF l c]) (simp add: v3)
  then show ?thesis by (simp add: v1 v2 v3)
qed

lemma save_stops:
  assumes "op_update ops e p s = Some s1" and "py_email p \<noteq> e"
  shows "onSave ops (Save_Edit e p att det ls) s = (False, s1)"
  using assms not_found[OF update_other[OF assms]] by (simp add: Let_def)

end

text \<open>
  What a client shows of itself: its columns but for flow and credentials, which the server settles by
  inbound, its inbounds and its links.
\<close>

definition columns :: "payload \<Rightarrow> payload" where
  "columns p = p\<lparr>py_id := [], py_password := [], py_auth := [], py_flow := []\<rparr>"

definition server_view :: "server \<Rightarrow> string \<rightharpoonup> payload \<times> int set \<times> ext_link list" where
  "server_view s e = map_option (\<lambda>c. (columns (sc_data c), set (sc_inbounds c), sc_links c)) (s e)"

definition merge_columns :: "server_env \<Rightarrow> payload \<Rightarrow> payload \<Rightarrow> payload" where
  "merge_columns env d p = (columns p)\<lparr>py_subId := sor (py_subId p) (sor (py_subId d) (se_subId env)),
     py_security := sor (py_security p) (py_security d)\<rparr>"

lemma server_view_upd: "server_view (s(e \<mapsto> c)) = (server_view s)(e \<mapsto> (columns (sc_data c), set (sc_inbounds c), sc_links c))"
  by (rule ext) (simp add: server_view_def)

lemma server_view_Some:
  "server_view s e = Some (d, i, l) \<longleftrightarrow> (\<exists>c. s e = Some c \<and> columns (sc_data c) = d \<and> set (sc_inbounds c) = i \<and> sc_links c = l)"
  by (auto simp: server_view_def)

lemma columns_simps [simp]:
  "columns (columns p) = columns p" "py_subId (columns p) = py_subId p" "py_security (columns p) = py_security p"
  "py_email (columns p) = py_email p" "py_reverse (columns p) = py_reverse p" "py_group (columns p) = py_group p"
  by (simp_all add: columns_def)

lemma columns_eq:
  "columns p = columns q \<longleftrightarrow> py_email p = py_email q \<and> py_subId p = py_subId q \<and> py_security p = py_security q
     \<and> py_totalGB p = py_totalGB q \<and> py_expiryTime p = py_expiryTime q \<and> py_reset p = py_reset q \<and> py_limitIp p = py_limitIp q
     \<and> py_tgId p = py_tgId q \<and> py_group p = py_group q \<and> py_comment p = py_comment q \<and> py_enable p = py_enable q
     \<and> py_reverse p = py_reverse q"
  by (cases p; cases q) (auto simp: columns_def)

lemma filled_columns [simp]:
  "columns (fillProtocolDefaults t ib c) = columns c" "columns (clientWithInboundFlow ib c) = columns c"
  by (simp_all add: fillProtocolDefaults_def clientWithInboundFlow_def columns_eq Let_def)

lemma sync_columns:
  "columns (SyncInbound row incoming) = (columns incoming)\<lparr>py_email := py_email row,
     py_security := sor (py_security incoming) (py_security row),
     py_reverse := (if py_reverse incoming \<noteq> None then py_reverse incoming else py_reverse row),
     py_group := sor (py_group incoming) (py_group row)\<rparr>"
  by (simp add: SyncInbound_def columns_def)

text \<open>Two rows that differ at most in what an update sets again at its end.\<close>

definition nearly :: "payload \<Rightarrow> payload \<Rightarrow> bool" where
  "nearly p q \<longleftrightarrow> columns (p\<lparr>py_reverse := None, py_group := []\<rparr>) = columns (q\<lparr>py_reverse := None, py_group := []\<rparr>)"

lemma sync_nearly:
  assumes "columns incoming = columns u" and "py_email row = py_email u"
  shows "nearly (SyncInbound row incoming) (u\<lparr>py_security := sor (py_security u) (py_security row)\<rparr>)"
  using assms by (simp add: nearly_def columns_eq SyncInbound_def)

lemma update_loop:
  assumes "fold (write_inbound env) is (u, c) = (u', c')" and "py_email (sc_data c) = py_email u"
  shows "columns u' = columns u \<and> sc_inbounds c' = sc_inbounds c \<and> sc_links c' = sc_links c \<and> py_email (sc_data c') = py_email u
    \<and> (is \<noteq> [] \<longrightarrow> nearly (sc_data c') (u\<lparr>py_security := sor (py_security u) (py_security (sc_data c))\<rparr>))"
  using assms
proof (induction "is" arbitrary: u c)
  case (Cons i "is")
  define u1 where "u1 = fillProtocolDefaults (se_draw env i) (se_inbound env i) u"
  define w where "w = clientWithInboundFlow (se_inbound env i) u1"
  define c1 where "c1 = c\<lparr>sc_data := SyncInbound (sc_data c) w, sc_flow := (sc_flow c)(i := py_flow w)\<rparr>"
  have w: "columns w = columns u" "columns u1 = columns u" by (simp_all add: w_def u1_def)
  have "write_inbound env i (u, c) = (u1, c1)" by (simp add: write_inbound_def Let_def u1_def w_def c1_def)
  then have f: "fold (write_inbound env) is (u1, c1) = (u', c')" using Cons.prems(1) by simp
  have e: "py_email (sc_data c1) = py_email u1" "py_email u1 = py_email u"
    using Cons.prems(2) w(2) by (simp_all add: c1_def SyncInbound_def columns_eq)
  have n: "nearly (sc_data c1) (u\<lparr>py_security := sor (py_security u) (py_security (sc_data c))\<rparr>)"
    using sync_nearly[OF w(1) Cons.prems(2)] by (simp add: c1_def)
  show ?case
  proof (cases "is = []")
    case True
    then show ?thesis using f w(2) e n by (auto simp: c1_def)
  next
    case False
    have "nearly (u1\<lparr>py_security := sor (py_security u1) (py_security (sc_data c1))\<rparr>)
        (u\<lparr>py_security := sor (py_security u) (py_security (sc_data c))\<rparr>)"
      using w n by (auto simp: nearly_def columns_eq sor_def)
    then show ?thesis using Cons.IH[OF f e(1)] False w(2) e(2) by (auto simp: nearly_def c1_def)
  qed
qed simp

lemma update_merges:
  assumes "server_update env accepts e p s = Some s'" and "py_email p = e" and "s e = Some c" and "sc_inbounds c \<noteq> []"
  obtains c' where "s' = s(e \<mapsto> c')" and "columns (sc_data c') = merge_columns env (sc_data c) p"
    and "sc_inbounds c' = sc_inbounds c" and "sc_links c' = sc_links c"
proof -
  let ?c = "c\<lparr>sc_data := (sc_data c)\<lparr>py_email := py_email p\<rparr>\<rparr>"
  let ?u = "fill_payload (se_subId env) (sc_data ?c) p"
  obtain u' c1 where f: "fold (write_inbound env) (sc_inbounds ?c) (?u, ?c) = (u', c1)" by (metis surj_pair)
  have l: "sc_inbounds c1 = sc_inbounds c" "sc_links c1 = sc_links c"
    "nearly (sc_data c1) (?u\<lparr>py_security := sor (py_security ?u) (py_security (sc_data ?c))\<rparr>)"
    using update_loop[OF f] assms(4) by (simp_all add: fill_payload_def)
  have "s' = s(e \<mapsto> c1\<lparr>sc_data := (sc_data c1)\<lparr>py_reverse := py_reverse p, py_group := py_group p\<rparr>\<rparr>)"
    using assms(1-3) f by (auto simp: server_update_def Let_def split: if_splits)
  moreover have "columns ((sc_data c1)\<lparr>py_reverse := py_reverse p, py_group := py_group p\<rparr>) = merge_columns env (sc_data c) p"
    using l(3) by (simp add: nearly_def merge_columns_def columns_eq fill_payload_def) (simp add: columns_def)
  ultimately show ?thesis using l that by simp
qed

lemma attach_loop:
  assumes "fold (attach_inbound env wire) is c = c'" and "columns wire = columns (sc_data c)" and "py_subId (sc_data c) \<noteq> []"
  shows "columns (sc_data c') = columns (sc_data c) \<and> set (sc_inbounds c') = set (sc_inbounds c) \<union> set is \<and> sc_links c' = sc_links c"
  using assms
proof (induction "is" arbitrary: c)
  case (Cons i "is")
  let ?c = "attach_inbound env wire i c" and ?ib = "se_inbound env i"
  define w where "w = clientWithInboundFlow ?ib (fillProtocolDefaults (se_draw env i) ?ib wire)"
  have w: "columns w = columns (sc_data c)" using Cons.prems(2) by (simp add: w_def)
  have "sc_data ?c = SyncInbound (sc_data c) (w\<lparr>py_subId := sor (py_subId w) (se_subId env)\<rparr>)"
    by (simp add: attach_inbound_def Let_def w_def)
  then have s: "columns (sc_data ?c) = columns (sc_data c)"
    using Cons.prems(3) w by (auto simp: columns_eq SyncInbound_def sor_def)
  moreover have "set (sc_inbounds ?c) = insert i (set (sc_inbounds c))" "sc_links ?c = sc_links c"
    by (simp_all add: attach_inbound_def Let_def)
  moreover have "py_subId (sc_data ?c) \<noteq> []" using s Cons.prems(3) by (simp add: columns_eq)
  ultimately show ?case using Cons.IH[of ?c] Cons.prems by auto
qed simp

lemma server_ops_sel [simp]:
  "op_create (server_ops env k a m v) = k" "op_update (server_ops env k a m v) = server_update env a"
  "op_attach (server_ops env k a m v) = server_attach env m" "op_detach (server_ops env k a m v) = server_detach"
  "op_links (server_ops env k a m v) = server_links v"
  by (simp_all add: server_ops_def)

interpretation srv: client_store "server_ops env creates accepts admits valid_link" "merge_columns env" server_view
proof unfold_locales
  let ?ops = "server_ops env creates accepts admits valid_link"
  fix e p and s s' :: server and d i l ids ls
  show "server_view s' = (server_view s)(e \<mapsto> (merge_columns env d p, i, l))"
    if u: "op_update ?ops e p s = Some s'" "py_email p = e" "server_view s e = Some (d, i, l)" "i \<noteq> {}"
  proof -
    obtain c where c: "s e = Some c" "columns (sc_data c) = d" "set (sc_inbounds c) = i" "sc_links c = l"
      using u(3) by (auto simp: server_view_Some)
    have "merge_columns env (sc_data c) p = merge_columns env d p" by (simp add: merge_columns_def flip: c(2))
    moreover have up: "server_update env accepts e p s = Some s'" and ne: "sc_inbounds c \<noteq> []" using u(1,4) c(3) by auto
    obtain c' where "s' = s(e \<mapsto> c')" "columns (sc_data c') = merge_columns env (sc_data c) p"
      "sc_inbounds c' = sc_inbounds c" "sc_links c' = sc_links c"
      by (rule update_merges[of env accepts e p s s' c, OF up u(2) c(1) ne])
    ultimately show ?thesis using c(3,4) by (simp add: server_view_upd)
  qed
  show "op_update ?ops e p s = Some s' \<Longrightarrow> py_email p \<noteq> e \<Longrightarrow> server_view s' e = None"
    by (auto simp: server_update_def server_view_def Let_def split: option.splits if_splits)
  show "server_view s' = (server_view s)(e \<mapsto> (d, i \<union> set ids, l))"
    if u: "op_attach ?ops e ids s = Some s'" "server_view s e = Some (d, i, l)" "py_subId d \<noteq> []"
  proof -
    obtain c where c: "s e = Some c" "columns (sc_data c) = d" "set (sc_inbounds c) = i" "sc_links c = l"
      using u(2) by (auto simp: server_view_Some)
    let ?w = "(sc_data c)\<lparr>py_flow := EffectiveFlow c\<rparr>" and ?is = "filter (\<lambda>i. i \<notin> set (sc_inbounds c)) ids"
    have "columns ?w = columns (sc_data c)" "py_subId (sc_data c) \<noteq> []" using u(3) by (simp_all add: columns_eq flip: c(2))
    from attach_loop[OF refl this, of env ?is] u(1) c show ?thesis
      by (auto simp: server_attach_def server_view_upd split: if_splits)
  qed
  show "op_detach ?ops e ids s = Some s' \<Longrightarrow> server_view s e = Some (d, i, l) \<Longrightarrow>
      server_view s' = (server_view s)(e \<mapsto> (d, i - set ids, l))"
    by (auto simp: server_detach_def server_view_Some server_view_upd set_diff_eq)
  show "op_links ?ops e ls s = Some s' \<Longrightarrow> clean_links ls \<Longrightarrow> server_view s e = Some (d, i, l) \<Longrightarrow>
      server_view s' = (server_view s)(e \<mapsto> (d, i, ls))"
    by (auto simp: server_links_def server_view_Some server_view_upd clean_links_normal split: option.splits if_splits)
  show "server_view s e = None \<Longrightarrow> op_attach ?ops e ids s = None \<and> op_detach ?ops e ids s = None \<and> op_links ?ops e ls s = None"
    by (simp add: server_view_def server_attach_def server_detach_def server_links_def)
qed

text \<open>
  C17
  A save of an edited client that keeps its email, when all its requests succeed, leaves the client of the
  server, attached to some inbound before, with the submitted columns, attached to exactly the selected
  inbounds, and with exactly the links of the form; no other client changes. The columns are all but the flow and
  the credentials, which the server settles by inbound, and an empty subscription id is filled in.
\<close>

theorem save_reaches_selection:
  assumes "onSubmit inbounds (Some c) ids form = Some req" and "trim (fm_email form) = fc_email c"
    and "server_view s (fc_email c) = Some (d, set ids, links)" and "ids \<noteq> []" and "se_subId env \<noteq> []"
    and "onSave (server_ops env creates accepts admits valid_link) req s = (True, s')"
  shows "server_view s' = (server_view s)(fc_email c \<mapsto>
    ((columns (client_payload inbounds form))\<lparr>py_subId := sor (fm_subId form) (sor (py_subId d) (se_subId env))\<rparr>,
     set (fm_inboundIds form), sent_links form))"
proof -
  let ?p = "client_payload inbounds form"
  have req: "req = Save_Edit (fc_email c) ?p (to_attach ids form) (to_detach ids form) (sent_links form)"
    using assms(1) by (auto simp: onSubmit_def split: if_splits)
  have e: "py_email ?p = fc_email c" by (simp add: client_payload_def assms(2))
  have "merge_columns env d ?p = (columns ?p)\<lparr>py_subId := sor (fm_subId form) (sor (py_subId d) (se_subId env))\<rparr>"
    by (simp add: merge_columns_def client_payload_def sor_def columns_def)
  moreover have "py_subId (merge_columns env d ?p) \<noteq> []" using assms(5) by (auto simp: merge_columns_def sor_def)
  ultimately show ?thesis
    using srv.save_applies[OF assms(6)[unfolded req] e sent_links_clean assms(3)] assms(4) unfolding moved_ids by simp
qed

definition sample_payload :: payload where
  "sample_payload = record_payload sample_client"

definition sample_edit :: form_state where
  "sample_edit = (fst (load_client sample_client [3] [] 0))
     \<lparr>fm_comment := ''new'', fm_inboundIds := [3, 4], fm_externalLinks := [\<lparr>lr_key = 1, lr_kind = Share_Link, lr_value = '' ss://x ''\<rparr>]\<rparr>"

text \<open>The server has VLESS on one inbound, and on the other Shadowsocks with keys of another size.\<close>

definition sample_env :: server_env where
  "sample_env = \<lparr>se_inbound = (\<lambda>i. if i = 3 then \<lparr>ib_protocol = ''vless'', ib_method = [], ib_tlsFlow = True\<rparr>
       else \<lparr>ib_protocol = ''shadowsocks'', ib_method = ''2022-blake3-aes-128-gcm'', ib_tlsFlow = False\<rparr>),
     se_draw = (\<lambda>_. ''key''), se_subId = ''sub''\<rparr>"

definition sample_server :: server where
  "sample_server = [''ann'' \<mapsto> \<lparr>sc_data = sample_payload, sc_inbounds = [3], sc_links = [], sc_flow = \<lambda>_. []\<rparr>]"

definition sample_ops :: "server store_ops" where
  "sample_ops = server_ops sample_env (\<lambda>_ _ _. None) (\<lambda>_ _. True) (\<lambda>_ _. True) (\<lambda>_. True)"

theorem save_reaches_selection_witness:
  "\<exists>s'. server_view s' = (server_view sample_server)
     (''ann'' \<mapsto> ((columns (client_payload [sample_option] sample_edit))\<lparr>py_subId := py_subId sample_payload\<rparr>, {3, 4},
        [\<lparr>el_kind = Share_Link, el_value = ''ss://x'', el_remark = []\<rparr>]))"
proof -
  let ?r = "onSubmit [sample_option] (Some sample_client) [3] sample_edit"
  have r: "?r = Some (the ?r)" by code_simp
  have e: "fc_email sample_client = ''ann''" "trim (fm_email sample_edit) = fc_email sample_client" by code_simp+
  have v: "server_view sample_server (fc_email sample_client) = Some (columns sample_payload, set [3], [])"
    by (simp add: server_view_def e sample_server_def)
  have ok: "fst (onSave sample_ops (the ?r) sample_server) = True" by code_simp
  have l: "fm_inboundIds sample_edit = [3, 4]" "sent_links sample_edit = [\<lparr>el_kind = Share_Link, el_value = ''ss://x'', el_remark = []\<rparr>]"
    "sor (fm_subId sample_edit) (sor (py_subId (columns sample_payload)) (se_subId sample_env)) = py_subId sample_payload"
    by code_simp+
  have d: "se_subId sample_env \<noteq> []" by (simp add: sample_env_def)
  have "onSave sample_ops (the ?r) sample_server = (True, snd (onSave sample_ops (the ?r) sample_server))"
    using ok by (simp add: prod_eq_iff)
  from save_reaches_selection[OF r e(2) v _ d this[unfolded sample_ops_def]] show ?thesis unfolding l e(1) by auto
qed

text \<open>What the server makes of flow and key by the way: none where the inbound has no flow, a new key of the right size.\<close>

lemma sample_save_settles:
  "\<exists>req s' c. onSubmit [sample_option] (Some sample_client) [3] sample_edit = Some req \<and> onSave sample_ops req sample_server = (True, s')
     \<and> s' ''ann'' = Some c \<and> sc_flow c 4 = [] \<and> py_password (sc_data c) = ''key''"
proof -
  let ?r = "onSubmit [sample_option] (Some sample_client) [3] sample_edit"
  let ?s = "snd (onSave sample_ops (the ?r) sample_server)"
  have "fst (onSave sample_ops (the ?r) sample_server) = True" by code_simp
  then have "onSave sample_ops (the ?r) sample_server = (True, ?s)" by (simp add: prod_eq_iff)
  moreover have "\<not> Option.is_none (?s ''ann'')" by code_simp
  then have "?s ''ann'' = Some (the (?s ''ann''))" by (cases "?s ''ann''") simp_all
  moreover have "?r = Some (the ?r)"
    "sc_flow (the (?s ''ann'')) 4 = []" "py_password (sc_data (the (?s ''ann''))) = ''key''"
    by code_simp+
  ultimately show ?thesis by blast
qed

text \<open>A client attached to no inbound keeps its columns whatever the form submits.\<close>

lemma detached_edit_lost:
  "s e = Some c \<Longrightarrow> sc_inbounds c = [] \<Longrightarrow> server_update env accepts e p s = Some s' \<Longrightarrow> s' (py_email p) = Some c' \<Longrightarrow>
   sc_data c' = (sc_data c)\<lparr>py_email := py_email p, py_group := py_group p, py_reverse := py_reverse p\<rparr>"
  by (auto simp: server_update_def Let_def split: if_splits)

text \<open>
  C19
  Renaming a client never saves: the update itself goes through, but the requests after it still address
  the old email, so the save is reported as failed, and the inbounds and links of the form are not applied.
\<close>

theorem renamed_client_save_fails:
  assumes "onSubmit inbounds (Some c) ids form = Some req" and "trim (fm_email form) \<noteq> fc_email c"
  shows "onSave (server_ops env creates accepts admits valid_link) req s =
    (False, case server_update env accepts (fc_email c) (client_payload inbounds form) s of Some s1 \<Rightarrow> s1 | None \<Rightarrow> s)"
proof -
  have req: "req = Save_Edit (fc_email c) (client_payload inbounds form) (to_attach ids form) (to_detach ids form) (sent_links form)"
    using assms(1) by (auto simp: onSubmit_def split: if_splits)
  have p: "py_email (client_payload inbounds form) \<noteq> fc_email c" by (simp add: client_payload_def assms(2))
  show ?thesis
  proof (cases "server_update env accepts (fc_email c) (client_payload inbounds form) s")
    case None
    then show ?thesis by (simp add: req Let_def)
  next
    case (Some s1)
    then have "op_update (server_ops env creates accepts admits valid_link) (fc_email c) (client_payload inbounds form) s = Some s1" by simp
    from srv.save_stops[OF this p] Some show ?thesis by (simp add: req)
  qed
qed

theorem renamed_client_save_fails_witness:
  "\<exists>req. onSubmit [sample_option] (Some sample_client) [3] (sample_edit\<lparr>fm_email := ''bob''\<rparr>) = Some req
     \<and> fst (onSave sample_ops req sample_server) = False"
proof -
  let ?r = "onSubmit [sample_option] (Some sample_client) [3] (sample_edit\<lparr>fm_email := ''bob''\<rparr>)"
  have r: "?r = Some (the ?r)" by code_simp
  have "trim (fm_email (sample_edit\<lparr>fm_email := ''bob''\<rparr>)) \<noteq> fc_email sample_client" by code_simp
  from renamed_client_save_fails[OF r this] r show ?thesis unfolding sample_ops_def by (metis fst_conv)
qed

end
