(* ===== verification/Client_Filters.thy ===== *)
theory Client_Filters
  imports Json Client_Form Inbound_Tag
begin

text \<open>
  The list of the clients page (\<open>pages/clients/ClientsPage.tsx\<close>, \<open>pages/clients/filters.ts\<close>): the filters and
  how they are stored, the query they make, and what the server (\<open>internal/web/service/client_paging.go\<close>) makes
  of the query: which rows it keeps and which page of them it sends. Texts are compared over their ASCII
  letters and spaces, as far as the case and the trimming of the server go.
\<close>

section \<open>Filters\<close>

record client_filters =
  cf_buckets :: "string list"
  cf_protocols :: "string list"
  cf_inboundIds :: "int list"
  cf_nodeIds :: "int list"
  cf_groups :: "string list"
  cf_expiryFrom :: "int option"
  cf_expiryTo :: "int option"
  cf_usageFromGB :: "rat option"
  cf_usageToGB :: "rat option"
  cf_autoRenew :: string
  cf_hasTgId :: string
  cf_hasComment :: string

definition emptyFilters :: client_filters where
  "emptyFilters = \<lparr>cf_buckets = [], cf_protocols = [], cf_inboundIds = [], cf_nodeIds = [], cf_groups = [],
     cf_expiryFrom = None, cf_expiryTo = None, cf_usageFromGB = None, cf_usageToGB = None, cf_autoRenew = [],
     cf_hasTgId = [], cf_hasComment = []\<rparr>"

definition some_int :: "int option \<Rightarrow> bool" where
  "some_int v \<longleftrightarrow> or0 v \<noteq> 0"

definition some_rat :: "rat option \<Rightarrow> bool" where
  "some_rat v \<longleftrightarrow> v \<noteq> None \<and> v \<noteq> Some 0"

definition activeFilterCount :: "client_filters \<Rightarrow> nat" where
  "activeFilterCount f = length (filter id
     [cf_buckets f \<noteq> [], cf_protocols f \<noteq> [], cf_inboundIds f \<noteq> [], cf_nodeIds f \<noteq> [], cf_groups f \<noteq> [],
      some_int (cf_expiryFrom f) \<or> some_int (cf_expiryTo f), some_rat (cf_usageFromGB f) \<or> some_rat (cf_usageToGB f),
      cf_autoRenew f \<noteq> [], cf_hasTgId f \<noteq> [], cf_hasComment f \<noteq> []])"

definition usage_bytes :: "rat option \<Rightarrow> int" where
  "usage_bytes gb = (case gb of None \<Rightarrow> 0 | Some g \<Rightarrow> if g \<le> 0 then 0 else js_round (g * 1073741824))"

section \<open>The query\<close>

record node_inbound =
  ni_id :: int
  ni_protocol :: "string option"
  ni_nodeId :: "int option"

definition node_of :: "node_inbound \<Rightarrow> int" where
  "node_of ib = (case ni_nodeId ib of Some n \<Rightarrow> n | None \<Rightarrow> 0)"

definition inbound_pool :: "node_inbound list \<Rightarrow> client_filters \<Rightarrow> int list" where
  "inbound_pool inbounds f =
     (let nodeInboundIds = map ni_id (filter (\<lambda>ib. node_of ib \<in> set (cf_nodeIds f)) inbounds)
      in if cf_inboundIds f \<noteq> [] then filter (\<lambda>i. i \<in> set (cf_inboundIds f)) nodeInboundIds else nodeInboundIds)"

definition ids_csv :: "int list \<Rightarrow> string" where
  "ids_csv ids = join '','' (map int_str ids)"

definition effectiveInboundCsv :: "node_inbound list \<Rightarrow> client_filters \<Rightarrow> string" where
  "effectiveInboundCsv inbounds f =
     (if cf_nodeIds f = [] then ids_csv (cf_inboundIds f)
      else let pool = inbound_pool inbounds f in if pool \<noteq> [] then ids_csv pool else ''-1'')"

record sort_choice =
  so_column :: string
  so_order :: string

definition SORT_OPTIONS :: "sort_choice list" where
  "SORT_OPTIONS = map (\<lambda>(c, d). \<lparr>so_column = c, so_order = d\<rparr>)
     [(''createdAt'', ''ascend''), (''createdAt'', ''descend''), (''updatedAt'', ''descend''), (''lastOnline'', ''descend''),
      (''email'', ''ascend''), (''email'', ''descend''), (''traffic'', ''descend''), (''remaining'', ''descend''), (''expiryTime'', ''ascend'')]"

definition DEFAULT_SORT :: sort_choice where
  "DEFAULT_SORT = hd SORT_OPTIONS"

definition sort_text :: "sort_choice \<Rightarrow> string" where
  "sort_text c = so_column c @ '':'' @ so_order c"

definition sortValueFor :: "string option \<Rightarrow> string option \<Rightarrow> string" where
  "sortValueFor column order =
     (if or_empty column = [] \<or> or_empty order = [] then sort_text DEFAULT_SORT
      else or_empty column @ '':'' @ or_empty order)"

definition initial_sort :: "string \<Rightarrow> sort_choice" where
  "initial_sort saved = (case find (\<lambda>o1. sort_text o1 = saved) SORT_OPTIONS of Some o1 \<Rightarrow> o1 | None \<Rightarrow> DEFAULT_SORT)"

definition opt_text :: "string \<Rightarrow> string option" where
  "opt_text s = (if s = [] then None else Some s)"

record page_state =
  ps_searchKey :: string
  ps_debounced :: string
  ps_filters :: client_filters
  ps_column :: "string option"
  ps_order :: "string option"
  ps_page :: int
  ps_size :: int

definition page_query :: "node_inbound list \<Rightarrow> page_state \<Rightarrow> client_query" where
  "page_query inbounds st =
     (let f = ps_filters st in
      \<lparr>cq_page = ps_page st, cq_pageSize = ps_size st, cq_search = Some (ps_debounced st),
       cq_filter = Some (join '','' (cf_buckets f)), cq_protocol = Some (join '','' (cf_protocols f)),
       cq_inbound = Some (effectiveInboundCsv inbounds f),
       cq_sort = opt_text (or_empty (ps_column st)), cq_order = opt_text (or_empty (ps_order st)),
       cq_expiryFrom = cf_expiryFrom f, cq_expiryTo = cf_expiryTo f,
       cq_usageFrom = Some (usage_bytes (cf_usageFromGB f)), cq_usageTo = Some (usage_bytes (cf_usageToGB f)),
       cq_autoRenew = opt_text (cf_autoRenew f), cq_hasTgId = opt_text (cf_hasTgId f), cq_hasComment = opt_text (cf_hasComment f),
       cq_group = opt_text (join '','' (cf_groups f))\<rparr>)"

section \<open>What is stored\<close>

definition rat_js :: "rat option \<Rightarrow> (string \<times> js) list \<Rightarrow> string \<Rightarrow> (string \<times> js) list" where
  "rat_js v rest k = (case v of Some r \<Rightarrow> (k, JNum (Fin r)) # rest | None \<Rightarrow> rest)"

text \<open>The filters as an object; a bound that is not set has no field in the text.\<close>

definition filters_js :: "client_filters \<Rightarrow> jobj" where
  "filters_js f =
     [(''buckets'', JArr (map JStr (cf_buckets f))), (''protocols'', JArr (map JStr (cf_protocols f))),
      (''inboundIds'', JArr (map (\<lambda>n. JNum (Fin (of_int n))) (cf_inboundIds f))),
      (''nodeIds'', JArr (map (\<lambda>n. JNum (Fin (of_int n))) (cf_nodeIds f))), (''groups'', JArr (map JStr (cf_groups f))),
      (''autoRenew'', JStr (cf_autoRenew f)), (''hasTgId'', JStr (cf_hasTgId f)), (''hasComment'', JStr (cf_hasComment f))]
     @ rat_js (map_option of_int (cf_expiryFrom f)) (rat_js (map_option of_int (cf_expiryTo f))
         (rat_js (cf_usageFromGB f) (rat_js (cf_usageToGB f) [] ''usageToGB'') ''usageFromGB'') ''expiryTo'') ''expiryFrom''"

definition store_filters :: "page_state \<Rightarrow> string" where
  "store_filters st = json_stringify (JObj [(''searchKey'', JStr (ps_searchKey st)), (''filters'', JObj (filters_js (ps_filters st))),
     (''sort'', JStr (sortValueFor (ps_column st) (ps_order st)))])"

text \<open>
  Reading it again. What is stored is what the page wrote, so an element or a field of another type than the
  page writes is left out of the model.
\<close>

definition str_of :: "js \<Rightarrow> string" where
  "str_of v = (case v of JStr s \<Rightarrow> s | _ \<Rightarrow> [])"

definition strs_of :: "js \<Rightarrow> string list" where
  "strs_of v = (case v of JArr xs \<Rightarrow> map str_of xs | _ \<Rightarrow> [])"

definition rat_of :: "js \<Rightarrow> rat option" where
  "rat_of v = (case v of JNum (Fin r) \<Rightarrow> Some r | _ \<Rightarrow> None)"

definition ints_of :: "js \<Rightarrow> int list" where
  "ints_of v = (case v of JArr xs \<Rightarrow> map (\<lambda>x. case rat_of x of Some r \<Rightarrow> \<lfloor>r\<rfloor> | None \<Rightarrow> 0) xs | _ \<Rightarrow> [])"

definition readFilterState :: "string option \<Rightarrow> string \<times> client_filters \<times> string" where
  "readFilterState stored =
     (case json_parse (sor (or_empty stored) ''{}'') of
        Some raw \<Rightarrow>
          (let fr = coalesce (jget raw ''filters'') (JObj []) in
           (str_of (jget raw ''searchKey''),
            \<lparr>cf_buckets = strs_of (jget fr ''buckets''), cf_protocols = strs_of (jget fr ''protocols''),
             cf_inboundIds = ints_of (jget fr ''inboundIds''), cf_nodeIds = ints_of (jget fr ''nodeIds''),
             cf_groups = strs_of (jget fr ''groups''),
             cf_expiryFrom = map_option floor (rat_of (jget fr ''expiryFrom'')), cf_expiryTo = map_option floor (rat_of (jget fr ''expiryTo'')),
             cf_usageFromGB = rat_of (jget fr ''usageFromGB''), cf_usageToGB = rat_of (jget fr ''usageToGB''),
             cf_autoRenew = str_of (jget fr ''autoRenew''), cf_hasTgId = str_of (jget fr ''hasTgId''),
             cf_hasComment = str_of (jget fr ''hasComment'')\<rparr>,
            str_of (jget raw ''sort'')))
      | None \<Rightarrow> ([], emptyFilters, []))"

definition open_page :: "string option \<Rightarrow> page_state" where
  "open_page stored =
     (case readFilterState stored of (search, f, saved) \<Rightarrow>
        \<lparr>ps_searchKey = search, ps_debounced = search, ps_filters = f, ps_column = Some (so_column (initial_sort saved)),
         ps_order = Some (so_order (initial_sort saved)), ps_page = 1, ps_size = 25\<rparr>)"

section \<open>Events of the page\<close>

datatype page_event =
    Type_Search string | Debounce_Fires | Set_Filters client_filters | Set_Sort "string option" "string option"
  | Turn_Page int | Page_Size int | Setting_Size int

definition DISABLED_PAGE_SIZE :: int where
  "DISABLED_PAGE_SIZE = 200"

fun apply_event :: "page_event \<Rightarrow> page_state \<Rightarrow> page_state" where
  "apply_event (Type_Search s) st = st\<lparr>ps_searchKey := s\<rparr>"
| "apply_event Debounce_Fires st = st\<lparr>ps_debounced := ps_searchKey st\<rparr>"
| "apply_event (Set_Filters f) st = st\<lparr>ps_filters := f\<rparr>"
| "apply_event (Set_Sort c d) st = st\<lparr>ps_column := c, ps_order := d\<rparr>"
| "apply_event (Turn_Page n) st = (if n \<noteq> 0 then st\<lparr>ps_page := n\<rparr> else st)"
| "apply_event (Page_Size n) st = (if n \<noteq> 0 then st\<lparr>ps_size := n\<rparr> else st)"
| "apply_event (Setting_Size n) st = st\<lparr>ps_size := (if n > 0 then n else DISABLED_PAGE_SIZE)\<rparr>"

text \<open>The effects after it: back to the first page when the search, a filter or the order changed.\<close>

definition narrowed :: "page_state \<Rightarrow> page_state \<Rightarrow> bool" where
  "narrowed st st' \<longleftrightarrow> ps_debounced st' \<noteq> ps_debounced st \<or> ps_filters st' \<noteq> ps_filters st
     \<or> ps_column st' \<noteq> ps_column st \<or> ps_order st' \<noteq> ps_order st"

definition page_step :: "page_event \<Rightarrow> page_state \<Rightarrow> page_state" where
  "page_step ev st = (let st' = apply_event ev st in if narrowed st st' then st'\<lparr>ps_page := 1\<rparr> else st')"

section \<open>The server\<close>

record server_row =
  sv_texts :: "string list"
  sv_enable :: bool
  sv_total :: int
  sv_expiry :: int
  sv_used :: int
  sv_online :: bool
  sv_reset :: int
  sv_tgId :: int
  sv_comment :: string
  sv_group :: string
  sv_inbounds :: "int list"

definition parseCSVStrings :: "string \<Rightarrow> string list" where
  "parseCSVStrings raw = filter (\<lambda>s. s \<noteq> []) (map (\<lambda>p. to_lower (go_trim p)) (split_char CHR '','' raw))"

definition go_atoi :: "string \<Rightarrow> int option" where
  "go_atoi s =
     (let neg = (s \<noteq> [] \<and> hd s = CHR ''-'');
          ds = (if s \<noteq> [] \<and> (hd s = CHR ''-'' \<or> hd s = CHR ''+'') then drop 1 s else s);
          n = (if neg then - int (str_nat ds) else int (str_nat ds))
      in if ds \<noteq> [] \<and> list_all is_digit ds \<and> - (2 ^ 63) \<le> n \<and> n < 2 ^ 63 then Some n else None)"

definition parseCSVInts :: "string \<Rightarrow> int list" where
  "parseCSVInts raw =
     concat (map (\<lambda>p. case go_atoi (go_trim p) of Some n \<Rightarrow> if n > 0 then [n] else [] | None \<Rightarrow> []) (split_char CHR '','' raw))"

definition clientMatchesSearch :: "string \<Rightarrow> server_row \<Rightarrow> bool" where
  "clientMatchesSearch needle c \<longleftrightarrow> needle = [] \<or> (\<exists>v\<in>set (sv_texts c). v \<noteq> [] \<and> includes_str (to_lower v) needle)"

definition clientMatchesAnyProtocol :: "(int \<Rightarrow> string option) \<Rightarrow> string list \<Rightarrow> server_row \<Rightarrow> bool" where
  "clientMatchesAnyProtocol byInbound protocols c \<longleftrightarrow>
     (\<exists>i\<in>set (sv_inbounds c). or_empty (byInbound i) \<noteq> [] \<and> to_lower (or_empty (byInbound i)) \<in> set protocols)"

definition clientMatchesAnyInbound :: "int list \<Rightarrow> server_row \<Rightarrow> bool" where
  "clientMatchesAnyInbound ids c \<longleftrightarrow> (\<exists>i\<in>set (sv_inbounds c). i \<in> set ids)"

definition clientMatchesExpiryRange :: "int \<Rightarrow> int \<Rightarrow> server_row \<Rightarrow> bool" where
  "clientMatchesExpiryRange fromMs toMs c \<longleftrightarrow>
     (if fromMs \<le> 0 \<and> toMs \<le> 0 then True
      else if sv_expiry c \<le> 0 then False
      else \<not> (fromMs > 0 \<and> sv_expiry c < fromMs) \<and> \<not> (toMs > 0 \<and> sv_expiry c > toMs))"

definition clientMatchesUsageRange :: "int \<Rightarrow> int \<Rightarrow> server_row \<Rightarrow> bool" where
  "clientMatchesUsageRange fromB toB c \<longleftrightarrow>
     (if fromB \<le> 0 \<and> toB \<le> 0 then True
      else \<not> (fromB > 0 \<and> sv_used c < fromB) \<and> \<not> (toB > 0 \<and> sv_used c > toB))"

definition clientMatchesAutoRenew :: "string \<Rightarrow> server_row \<Rightarrow> bool" where
  "clientMatchesAutoRenew mode c \<longleftrightarrow>
     (let m = to_lower (go_trim mode) in if m = ''on'' then sv_reset c > 0 else if m = ''off'' then sv_reset c \<le> 0 else True)"

definition clientMatchesHasTgID :: "string \<Rightarrow> server_row \<Rightarrow> bool" where
  "clientMatchesHasTgID mode c \<longleftrightarrow>
     (let m = to_lower (go_trim mode) in if m = ''yes'' then sv_tgId c \<noteq> 0 else if m = ''no'' then sv_tgId c = 0 else True)"

definition clientMatchesHasComment :: "string \<Rightarrow> server_row \<Rightarrow> bool" where
  "clientMatchesHasComment mode c \<longleftrightarrow>
     (let m = to_lower (go_trim mode) in
      if m = ''yes'' then go_trim (sv_comment c) \<noteq> [] else if m = ''no'' then go_trim (sv_comment c) = [] else True)"

definition clientMatchesAnyGroup :: "string \<Rightarrow> server_row \<Rightarrow> bool" where
  "clientMatchesAnyGroup csv c \<longleftrightarrow>
     (let groups = parseCSVStrings csv in
      groups = [] \<or> (\<exists>g\<in>set groups. to_lower g = to_lower (go_trim (sv_group c))))"

record clock =
  ck_now :: int
  ck_expireDiff :: int
  ck_trafficDiff :: int

definition sv_exhausted :: "server_row \<Rightarrow> bool" where
  "sv_exhausted c \<longleftrightarrow> sv_total c > 0 \<and> sv_used c \<ge> sv_total c"

definition sv_expired :: "clock \<Rightarrow> server_row \<Rightarrow> bool" where
  "sv_expired ck c \<longleftrightarrow> sv_expiry c > 0 \<and> sv_expiry c \<le> ck_now ck"

definition sv_near :: "clock \<Rightarrow> server_row \<Rightarrow> bool" where
  "sv_near ck c \<longleftrightarrow> (sv_expiry c > 0 \<and> sv_expiry c - ck_now ck < ck_expireDiff ck)
     \<or> (sv_total c > 0 \<and> sv_total c - sv_used c < ck_trafficDiff ck)"

definition clientMatchesBucket :: "clock \<Rightarrow> string \<Rightarrow> server_row \<Rightarrow> bool" where
  "clientMatchesBucket ck b c \<longleftrightarrow>
     (if b = ''online'' then sv_online c \<and> sv_enable c
      else if b = ''depleted'' then sv_exhausted c \<or> sv_expired ck c
      else if b = ''deactive'' then \<not> sv_enable c
      else if b = ''active'' then sv_enable c \<and> \<not> sv_exhausted c \<and> \<not> sv_expired ck c
      else if b = ''expiring'' then sv_enable c \<and> \<not> sv_exhausted c \<and> \<not> sv_expired ck c \<and> sv_near ck c
      else True)"

definition server_keeps :: "clock \<Rightarrow> (int \<Rightarrow> string option) \<Rightarrow> client_query \<Rightarrow> server_row \<Rightarrow> bool" where
  "server_keeps ck byInbound q c \<longleftrightarrow>
     (let protocols = parseCSVStrings (or_empty (cq_protocol q)); inboundIDs = parseCSVInts (or_empty (cq_inbound q));
          buckets = parseCSVStrings (or_empty (cq_filter q))
      in clientMatchesSearch (to_lower (go_trim (or_empty (cq_search q)))) c
        \<and> (protocols = [] \<or> clientMatchesAnyProtocol byInbound protocols c)
        \<and> (inboundIDs = [] \<or> clientMatchesAnyInbound inboundIDs c)
        \<and> (buckets = [] \<or> (\<exists>b\<in>set buckets. clientMatchesBucket ck b c))
        \<and> clientMatchesExpiryRange (or0 (cq_expiryFrom q)) (or0 (cq_expiryTo q)) c
        \<and> clientMatchesUsageRange (or0 (cq_usageFrom q)) (or0 (cq_usageTo q)) c
        \<and> clientMatchesAutoRenew (or_empty (cq_autoRenew q)) c \<and> clientMatchesHasTgID (or_empty (cq_hasTgId q)) c
        \<and> clientMatchesHasComment (or_empty (cq_hasComment q)) c \<and> clientMatchesAnyGroup (or_empty (cq_group q)) c)"

definition page_slice :: "int \<Rightarrow> int \<Rightarrow> 'a list \<Rightarrow> 'a list" where
  "page_slice page n1 rows =
     (let n1 = (if n1 \<le> 0 then 25 else n1); n1 = (if n1 > 200 then 200 else n1); page = (if page \<le> 0 then 1 else page);
          n = int (length rows); start = min ((page - 1) * n1) n; stop = min (start + n1) n
      in take (nat (stop - start)) (drop (nat start) rows))"

text \<open>\<open>arrange\<close> is the server's stable sort of the kept rows.\<close>

definition list_paged :: "clock \<Rightarrow> (int \<Rightarrow> string option) \<Rightarrow> (client_query \<Rightarrow> server_row list \<Rightarrow> server_row list) \<Rightarrow> client_query
    \<Rightarrow> server_row list \<Rightarrow> server_row list \<times> nat" where
  "list_paged ck byInbound arrange q rows =
     (let kept = arrange q (filter (server_keeps ck byInbound q) rows)
      in (page_slice (cq_page q) (cq_pageSize q) kept, length kept))"

section \<open>Labels of a row\<close>

datatype bucket_tag = B_Depleted | B_Deactive | B_Expiring | B_Active

definition clientBucket :: "clock \<Rightarrow> server_row \<Rightarrow> bucket_tag" where
  "clientBucket ck c =
     (if sv_expired ck c \<or> sv_exhausted c then B_Depleted else if \<not> sv_enable c then B_Deactive
      else if sv_near ck c then B_Expiring else B_Active)"

datatype row_color = Purple | Red | Orange | Green | Blue

definition remainingColor :: "server_row \<Rightarrow> row_color" where
  "remainingColor c =
     (if sv_total c \<le> 0 then Purple
      else let ratio = of_int (sv_used c) / (of_int (sv_total c) :: rat) in
        if ratio \<ge> 1 then Red else if ratio \<ge> 85 / 100 then Orange else Green)"

definition expiryColor :: "int \<Rightarrow> server_row \<Rightarrow> row_color" where
  "expiryColor now c =
     (if sv_expiry c = 0 then Purple else if sv_expiry c < 0 then Blue else if sv_expiry c \<le> now then Red
      else if sv_expiry c - now < 86400 * 1000 * 3 then Orange else Green)"

section \<open>The query says what the filters mean\<close>

text \<open>A word that goes through a comma list and the reading of the server unchanged.\<close>

definition csv_word :: "string \<Rightarrow> bool" where
  "csv_word w \<longleftrightarrow> w \<noteq> [] \<and> CHR '','' \<notin> set w \<and> go_trim w = w"

definition csv_lower :: "string \<Rightarrow> bool" where
  "csv_lower w \<longleftrightarrow> csv_word w \<and> to_lower w = w"

lemma go_trim_Nil [simp]: "go_trim [] = []"
  by (simp add: go_trim_def)

lemma csv_back:
  assumes "\<forall>w\<in>set ws. csv_word w"
  shows "parseCSVStrings (join '','' ws) = map to_lower ws"
proof (cases "ws = []")
  case True
  then show ?thesis by (simp add: parseCSVStrings_def to_lower_def)
next
  case False
  then have "split_char CHR '','' (join '','' ws) = ws" using assms by (intro split_join) (auto simp: csv_word_def)
  moreover have "map (\<lambda>p. to_lower (go_trim p)) ws = map to_lower ws" using assms by (auto simp: csv_word_def)
  moreover have "filter (\<lambda>s. s \<noteq> []) (map to_lower ws) = map to_lower ws"
    using assms by (auto simp: csv_word_def to_lower_def filter_id_conv)
  ultimately show ?thesis unfolding parseCSVStrings_def by metis
qed

lemma csv_lower_back: "\<forall>w\<in>set ws. csv_lower w \<Longrightarrow> parseCSVStrings (join '','' ws) = ws"
proof -
  assume a: "\<forall>w\<in>set ws. csv_lower w"
  then have "map to_lower ws = ws" by (intro map_idI) (simp add: csv_lower_def)
  then show ?thesis using a csv_back[of ws] by (simp add: csv_lower_def)
qed

lemma int_str_pos: "n > 0 \<Longrightarrow> n < 10 ^ 21 \<Longrightarrow> int_str n = nat_str (nat n)"
  using num_str_nat[of "nat n"] by (simp add: int_str_def)

lemma digits_not_ws: "is_digit c \<Longrightarrow> c \<notin> set ascii_ws"
  by (auto simp: is_digit_def ascii_ws_def)

lemma go_trim_digits: "list_all is_digit s \<Longrightarrow> go_trim s = s"
proof -
  have d: "dropWhile (\<lambda>c. c \<in> set ascii_ws) t = t" if "list_all is_digit t" for t
    using that digits_not_ws by (cases t) auto
  show "list_all is_digit s \<Longrightarrow> go_trim s = s" by (simp add: go_trim_def Let_def d)
qed

lemma digits_no_comma: "list_all is_digit s \<Longrightarrow> CHR '','' \<notin> set s"
  by (auto simp: list_all_iff is_digit_def)

lemma go_atoi_nat_str: "n < 2 ^ 63 \<Longrightarrow> go_atoi (nat_str n) = Some (int n)"
proof -
  assume n: "n < 2 ^ 63"
  have h: "hd (nat_str n) \<noteq> CHR ''-''" "hd (nat_str n) \<noteq> CHR ''+''" using nat_str_hd_digit[of n] by (auto simp: is_digit_def)
  have "int n < 2 ^ 63" using n by (simp add: of_nat_less_iff flip: of_nat_power)
  then show ?thesis using h by (simp add: go_atoi_def Let_def)
qed

definition id_ok :: "int \<Rightarrow> bool" where
  "id_ok i \<longleftrightarrow> 0 < i \<and> i < 2 ^ 63"

lemma ids_back:
  assumes "\<forall>i\<in>set ids. id_ok i"
  shows "parseCSVInts (ids_csv ids) = ids"
proof (cases "ids = []")
  case True
  then show ?thesis by (simp add: ids_csv_def parseCSVInts_def go_atoi_def)
next
  case False
  have s: "int_str i = nat_str (nat i)" if "i \<in> set ids" for i
    using that assms int_str_pos[of i] by (fastforce simp: id_ok_def)
  have one: "(case go_atoi (go_trim (int_str i)) of Some n \<Rightarrow> if n > 0 then [n] else [] | None \<Rightarrow> []) = [i]" if "i \<in> set ids" for i
    using that assms go_atoi_nat_str[of "nat i"] by (fastforce simp: s go_trim_digits id_ok_def)
  have "split_char CHR '','' (ids_csv ids) = map int_str ids"
    unfolding ids_csv_def using False by (intro split_join) (auto simp: s digits_no_comma)
  then have "parseCSVInts (ids_csv ids) = concat (map (\<lambda>i. [i]) ids)"
    using one by (simp add: parseCSVInts_def comp_def cong: map_cong)
  then show ?thesis by simp
qed

lemma impossible_id_dropped: "parseCSVInts ''-1'' = []"
  by code_simp

text \<open>What the drawer promises.\<close>

definition wanted_inbound :: "node_inbound list \<Rightarrow> client_filters \<Rightarrow> server_row \<Rightarrow> bool" where
  "wanted_inbound inbounds f c \<longleftrightarrow>
     (cf_nodeIds f = [] \<and> cf_inboundIds f = [])
     \<or> (\<exists>i\<in>set (sv_inbounds c). (cf_inboundIds f \<noteq> [] \<longrightarrow> i \<in> set (cf_inboundIds f))
          \<and> (cf_nodeIds f \<noteq> [] \<longrightarrow> (\<exists>ib\<in>set inbounds. ni_id ib = i \<and> node_of ib \<in> set (cf_nodeIds f))))"

definition wanted :: "clock \<Rightarrow> (int \<Rightarrow> string option) \<Rightarrow> node_inbound list \<Rightarrow> string \<Rightarrow> client_filters \<Rightarrow> server_row \<Rightarrow> bool" where
  "wanted ck byInbound inbounds search f c \<longleftrightarrow>
     clientMatchesSearch (to_lower (go_trim search)) c
     \<and> (cf_protocols f = [] \<or> (\<exists>i\<in>set (sv_inbounds c). \<exists>p\<in>set (cf_protocols f). to_lower (or_empty (byInbound i)) = p))
     \<and> wanted_inbound inbounds f c
     \<and> (cf_buckets f = [] \<or> (\<exists>b\<in>set (cf_buckets f). clientMatchesBucket ck b c))
     \<and> clientMatchesExpiryRange (or0 (cf_expiryFrom f)) (or0 (cf_expiryTo f)) c
     \<and> clientMatchesUsageRange (usage_bytes (cf_usageFromGB f)) (usage_bytes (cf_usageToGB f)) c
     \<and> clientMatchesAutoRenew (cf_autoRenew f) c \<and> clientMatchesHasTgID (cf_hasTgId f) c
     \<and> clientMatchesHasComment (cf_hasComment f) c
     \<and> (cf_groups f = [] \<or> (\<exists>g\<in>set (cf_groups f). to_lower g = to_lower (go_trim (sv_group c))))"

text \<open>Words of the filters without commas and blanks around them, and ids of database rows.\<close>

definition filters_ok :: "node_inbound list \<Rightarrow> client_filters \<Rightarrow> bool" where
  "filters_ok inbounds f \<longleftrightarrow>
     list_all csv_lower (cf_buckets f) \<and> list_all csv_lower (cf_protocols f) \<and> list_all csv_word (cf_groups f)
     \<and> list_all id_ok (cf_inboundIds f) \<and> list_all (\<lambda>ib. id_ok (ni_id ib)) inbounds"

text \<open>
  The choice the server acts on: nodes that have none of the inbounds to choose from are sent as the id
  \<open>-1\<close>, which it drops, and with it the choice of inbounds and nodes.
\<close>

definition choice_sent :: "node_inbound list \<Rightarrow> client_filters \<Rightarrow> client_filters" where
  "choice_sent inbounds f =
     (if cf_nodeIds f \<noteq> [] \<and> inbound_pool inbounds f = []
      then f\<lparr>cf_inboundIds := [], cf_nodeIds := []\<rparr> else f)"

lemma opt_text_empty [simp]: "or_empty (opt_text s) = s"
  by (simp add: opt_text_def or_empty_def)

lemma or_empty_Some [simp]: "or_empty (Some s) = s"
  by (simp add: or_empty_def)

lemma inbound_clause:
  assumes "filters_ok inbounds f"
  shows "(parseCSVInts (effectiveInboundCsv inbounds f) = [] \<or> clientMatchesAnyInbound (parseCSVInts (effectiveInboundCsv inbounds f)) c)
    \<longleftrightarrow> wanted_inbound inbounds (choice_sent inbounds f) c"
proof (cases "cf_nodeIds f = []")
  case True
  have "parseCSVInts (effectiveInboundCsv inbounds f) = cf_inboundIds f"
    using assms True ids_back by (simp add: effectiveInboundCsv_def filters_ok_def list_all_iff)
  then show ?thesis using True by (auto simp: wanted_inbound_def clientMatchesAnyInbound_def choice_sent_def)
next
  case False
  show ?thesis
  proof (cases "inbound_pool inbounds f = []")
    case True
    then show ?thesis
      using False impossible_id_dropped by (simp add: effectiveInboundCsv_def choice_sent_def wanted_inbound_def Let_def)
  next
    case pool: False
    have ok: "\<forall>i\<in>set (inbound_pool inbounds f). id_ok i"
      using assms by (auto simp: filters_ok_def inbound_pool_def list_all_iff Let_def split: if_splits)
    have mem: "i \<in> set (inbound_pool inbounds f) \<longleftrightarrow> (cf_inboundIds f \<noteq> [] \<longrightarrow> i \<in> set (cf_inboundIds f))
        \<and> (\<exists>ib\<in>set inbounds. ni_id ib = i \<and> node_of ib \<in> set (cf_nodeIds f))" for i
      by (auto simp: inbound_pool_def Let_def image_iff)
    have "parseCSVInts (effectiveInboundCsv inbounds f) = inbound_pool inbounds f"
      using False pool ids_back[OF ok] by (simp add: effectiveInboundCsv_def Let_def)
    then show ?thesis using False pool mem by (auto simp: wanted_inbound_def clientMatchesAnyInbound_def choice_sent_def)
  qed
qed

lemma choice_fields:
  "cf_protocols (choice_sent inbounds f) = cf_protocols f" "cf_buckets (choice_sent inbounds f) = cf_buckets f"
  "cf_expiryFrom (choice_sent inbounds f) = cf_expiryFrom f" "cf_expiryTo (choice_sent inbounds f) = cf_expiryTo f"
  "cf_usageFromGB (choice_sent inbounds f) = cf_usageFromGB f" "cf_usageToGB (choice_sent inbounds f) = cf_usageToGB f"
  "cf_autoRenew (choice_sent inbounds f) = cf_autoRenew f" "cf_hasTgId (choice_sent inbounds f) = cf_hasTgId f"
  "cf_hasComment (choice_sent inbounds f) = cf_hasComment f" "cf_groups (choice_sent inbounds f) = cf_groups f"
  by (simp_all add: choice_sent_def)

lemma protocol_clause:
  assumes "\<forall>p\<in>set ps. csv_lower p"
  shows "clientMatchesAnyProtocol byInbound ps c \<longleftrightarrow> (\<exists>i\<in>set (sv_inbounds c). \<exists>p\<in>set ps. to_lower (or_empty (byInbound i)) = p)"
  using assms by (auto simp: clientMatchesAnyProtocol_def csv_lower_def csv_word_def to_lower_def)

lemma group_clause:
  "\<forall>w\<in>set gs. csv_word w \<Longrightarrow> clientMatchesAnyGroup (join '','' gs) c
     \<longleftrightarrow> gs = [] \<or> (\<exists>g\<in>set gs. to_lower g = to_lower (go_trim (sv_group c)))"
  by (simp add: clientMatchesAnyGroup_def csv_back Let_def)

text \<open>
  C16
  For every search and every choice in the filter drawer - groups with neither commas in their names nor blanks
  around them - the server keeps exactly the clients the filters mean: the query says all of it in its comma
  lists. The one exception is a choice of nodes that have none of the inbounds to choose from: the server then
  keeps the clients the other filters mean, as if no inbound and no node had been chosen.
\<close>

theorem query_means_filters:
  assumes "filters_ok inbounds (ps_filters st)"
  shows "server_keeps ck byInbound (page_query inbounds st) c
    \<longleftrightarrow> wanted ck byInbound inbounds (ps_debounced st) (choice_sent inbounds (ps_filters st)) c"
proof -
  let ?f = "ps_filters st"
  have b: "parseCSVStrings (join '','' (cf_buckets ?f)) = cf_buckets ?f"
    and p: "parseCSVStrings (join '','' (cf_protocols ?f)) = cf_protocols ?f" "\<forall>w\<in>set (cf_protocols ?f). csv_lower w"
    and g: "\<forall>w\<in>set (cf_groups ?f). csv_word w"
    using assms csv_lower_back by (auto simp: filters_ok_def list_all_iff)
  show ?thesis
    unfolding server_keeps_def wanted_def page_query_def Let_def choice_fields
    by (simp add: b p(1) protocol_clause[OF p(2)] group_clause[OF g] inbound_clause[OF assms] or0_def)
qed

text \<open>
  With nodes selected that have no inbound the query carries the id \<open>-1\<close>, which the server drops: every
  client is kept, instead of none.
\<close>

lemma no_inbound_on_node:
  assumes "cf_nodeIds f \<noteq> []" and "inbound_pool inbounds f = []"
  shows "\<not> wanted_inbound inbounds f c \<and> parseCSVInts (effectiveInboundCsv inbounds f) = []"
proof -
  have "(\<exists>ib\<in>set inbounds. ni_id ib = i \<and> node_of ib \<in> set (cf_nodeIds f) \<and> (cf_inboundIds f \<noteq> [] \<longrightarrow> i \<in> set (cf_inboundIds f))) \<Longrightarrow> False" for i
    using assms(2) by (auto simp: inbound_pool_def Let_def filter_empty_conv split: if_splits)
  then show ?thesis using assms by (auto simp: wanted_inbound_def effectiveInboundCsv_def Let_def impossible_id_dropped)
qed

text \<open>
  A group whose name has a comma is sent as two names: the clients of other groups are kept, its own are not.
\<close>

lemma group_with_comma_split:
  "clientMatchesAnyGroup (join '','' [''a,b'']) c
   \<longleftrightarrow> (let g = to_lower (go_trim (sv_group c)) in g = ''a'' \<or> g = ''b'')"
proof -
  have "parseCSVStrings (join '','' [''a,b'']) = [''a'', ''b'']" "to_lower ''a'' = ''a''" "to_lower ''b'' = ''b''" by code_simp+
  then show ?thesis by (auto simp: clientMatchesAnyGroup_def Let_def)
qed

definition sample_filters :: client_filters where
  "sample_filters = emptyFilters\<lparr>cf_buckets := [''expiring''], cf_nodeIds := [0], cf_groups := [''Team A''], cf_usageFromGB := Some 2\<rparr>"

definition sample_page :: page_state where
  "sample_page = \<lparr>ps_searchKey = ''ann'', ps_debounced = ''ann'', ps_filters = sample_filters, ps_column = Some ''email'',
     ps_order = Some ''descend'', ps_page = 3, ps_size = 50\<rparr>"

definition sample_inbounds :: "node_inbound list" where
  "sample_inbounds = [\<lparr>ni_id = 7, ni_protocol = Some ''vless'', ni_nodeId = None\<rparr>, \<lparr>ni_id = 8, ni_protocol = None, ni_nodeId = Some 2\<rparr>]"

theorem query_means_filters_witness:
  "\<forall>ck byInbound c. server_keeps ck byInbound (page_query sample_inbounds sample_page) c
   \<longleftrightarrow> wanted ck byInbound sample_inbounds ''ann'' sample_filters c"
proof (intro allI)
  fix ck byInbound c
  have "filters_ok sample_inbounds (ps_filters sample_page)" by code_simp
  moreover have "ps_debounced sample_page = ''ann''" "ps_filters sample_page = sample_filters" by (simp_all add: sample_page_def)
  moreover have "choice_sent sample_inbounds sample_filters = sample_filters" by code_simp
  ultimately show "server_keeps ck byInbound (page_query sample_inbounds sample_page) c
   \<longleftrightarrow> wanted ck byInbound sample_inbounds ''ann'' sample_filters c"
    using query_means_filters[of sample_inbounds sample_page ck byInbound c] by simp
qed

section \<open>Pages\<close>

lemma page_slice_is:
  assumes "0 < n1"
  shows "page_slice (int k + 1) n1 rows = take (nat (min n1 200)) (drop (k * nat (min n1 200)) rows)"
proof -
  let ?z = "min n1 200"
  have z: "(if (if n1 \<le> 0 then 25 else n1) > 200 then 200 else if n1 \<le> 0 then 25 else n1) = ?z" using assms by simp
  have m: "nat (int k * ?z) = k * nat ?z" using assms by (simp add: nat_mult_distrib)
  let ?n = "int (length rows)"
  have d: "drop (nat (min (int k * ?z) ?n)) rows = drop (k * nat ?z) rows"
  proof (cases "int k * ?z \<le> ?n")
    case True
    then show ?thesis by (simp add: min_absorb1 m)
  next
    case False
    then have "length rows \<le> k * nat ?z" using m assms by linarith
    then show ?thesis using False by (simp add: min_absorb2)
  qed
  have t: "take (nat (min (min (int k * ?z) ?n + ?z) ?n - min (int k * ?z) ?n)) (drop (k * nat ?z) rows) = take (nat ?z) (drop (k * nat ?z) rows)"
  proof (cases "int k * ?z + ?z \<le> ?n")
    case True
    then show ?thesis using assms by (simp add: min_absorb1)
  next
    case False
    then have "length (drop (k * nat ?z) rows) \<le> nat ?z"
      "length (drop (k * nat ?z) rows) \<le> nat (min (min (int k * ?z) ?n + ?z) ?n - min (int k * ?z) ?n)"
      using m assms by (auto simp: min_def)
    then show ?thesis by (simp only: take_all)
  qed
  show ?thesis unfolding page_slice_def Let_def z using d t by simp
qed

lemma slices_take: "concat (map (\<lambda>k. take z (drop (k * z) rows)) [0..<m]) = take (m * z) rows"
proof (induction m)
  case (Suc m)
  have "take (m * z + z) rows = take (m * z) rows @ take z (drop (m * z) rows)" by (rule take_add)
  then show ?case using Suc by (simp add: add.commute)
qed simp

text \<open>
  The pages of the list, one after the other, show every client that is kept, once and in order, for every
  page size the server grants (up to 200).
\<close>

theorem pages_show_everything:
  assumes "0 < n1" and "n1 \<le> 200" and "length rows \<le> m * nat n1"
  shows "concat (map (\<lambda>k. page_slice (int k + 1) n1 rows) [0..<m]) = rows"
proof -
  have "map (\<lambda>k. page_slice (int k + 1) n1 rows) [0..<m] = map (\<lambda>k. take (nat n1) (drop (k * nat n1) rows)) [0..<m]"
    using assms(1,2) by (intro map_cong refl) (simp add: page_slice_is min_absorb1)
  then have "concat (map (\<lambda>k. page_slice (int k + 1) n1 rows) [0..<m]) = take (m * nat n1) rows" by (simp only: slices_take)
  then show ?thesis using assms(3) by (simp only: take_all)
qed

theorem pages_show_everything_witness:
  "concat (map (\<lambda>k. page_slice (int k + 1) 2 [5, 3, 9, 1, 4 :: nat]) [0..<3]) = [5, 3, 9, 1, 4]"
  by (rule pages_show_everything) simp_all

text \<open>With a larger page size, which the settings allow, the pages the table counts end too early.\<close>

lemma large_pages_cut:
  "200 < n1 \<Longrightarrow> concat (map (\<lambda>k. page_slice (int k + 1) n1 rows) [0..<m]) = take (m * 200) rows"
proof -
  assume n1: "200 < n1"
  then have "map (\<lambda>k. page_slice (int k + 1) n1 rows) [0..<m] = map (\<lambda>k. take 200 (drop (k * 200) rows)) [0..<m]"
    by (intro map_cong refl) (simp add: page_slice_is min_absorb2)
  then show ?thesis by (simp only: slices_take)
qed

section \<open>Labels and filters\<close>

lemma bucket_filters:
  "clientMatchesBucket ck ''depleted'' c \<longleftrightarrow> clientBucket ck c = B_Depleted"
  "clientMatchesBucket ck ''expiring'' c \<longleftrightarrow> clientBucket ck c = B_Expiring"
  "clientMatchesBucket ck ''active'' c \<longleftrightarrow> clientBucket ck c = B_Active \<or> clientBucket ck c = B_Expiring"
  by (auto simp: clientMatchesBucket_def clientBucket_def)

text \<open>A disabled client that is depleted is not counted as disabled, and its row is not marked so, but the filter shows it.\<close>

lemma deactive_filter_wider:
  "\<not> sv_enable c \<Longrightarrow> sv_exhausted c \<Longrightarrow> clientMatchesBucket ck ''deactive'' c \<and> clientBucket ck c = B_Depleted"
  by (simp add: clientMatchesBucket_def clientBucket_def)

definition row_stats :: "server_row \<Rightarrow> stat_row" where
  "row_stats c = \<lparr>ct_up = Some (sv_used c), ct_down = Some 0, ct_total = Some (sv_total c), ct_expiryTime = Some (sv_expiry c),
     ct_enable = Some (sv_enable c), ct_lastOnline = None, sr_email = Some ''x''\<rparr>"

text \<open>The mark of a row is the list of the summary its client is counted in.\<close>

lemma row_mark_is_summary:
  "bucket_of (ck_now ck) (ck_expireDiff ck) (ck_trafficDiff ck) (row_stats c) =
    (case clientBucket ck c of B_Depleted \<Rightarrow> Depleted | B_Deactive \<Rightarrow> Deactive | B_Expiring \<Rightarrow> Expiring | B_Active \<Rightarrow> Active)"
  by (auto simp: bucket_of_def row_stats_def clientBucket_def sv_exhausted_def sv_expired_def sv_near_def or_false_def
      Clients_State.or0_def Let_def)

section \<open>What is stored comes back\<close>

definition whole :: "rat option \<Rightarrow> bool" where
  "whole v \<longleftrightarrow> (\<forall>r. v = Some r \<longrightarrow> of_int \<lfloor>r\<rfloor> = r \<and> \<bar>\<lfloor>r\<rfloor>\<bar> < 10 ^ 21)"

definition storable :: "client_filters \<Rightarrow> bool" where
  "storable f \<longleftrightarrow> whole (cf_usageFromGB f) \<and> whole (cf_usageToGB f) \<and> whole (map_option of_int (cf_expiryFrom f))
     \<and> whole (map_option of_int (cf_expiryTo f)) \<and> (\<forall>i\<in>set (cf_inboundIds f) \<union> set (cf_nodeIds f). \<bar>i\<bar> < 10 ^ 21)"

lemma owf_plain: "distinct (map fst o1) \<Longrightarrow> list_all (\<lambda>k. \<not> is_index k) (map fst o1) \<Longrightarrow> owf o1"
proof -
  assume a: "distinct (map fst o1)" "list_all (\<lambda>k. \<not> is_index k) (map fst o1)"
  have "sorted_wrt (\<lambda>a b. \<not> key_before b a) ks" if "list_all (\<lambda>k. \<not> is_index k) ks" for ks
    using that by (induction ks) (auto simp: key_before_def list_all_iff)
  then show ?thesis using a by (simp add: owf_def okeys_def key_ordered_def)
qed

lemma rat_js_keys: "map fst (rat_js v rest k) = (if v = None then [] else [k]) @ map fst rest"
  by (cases v) (simp_all add: rat_js_def)

lemma rat_js_clean: "whole v \<Longrightarrow> list_all (\<lambda>p. json_clean (snd p)) (rat_js v rest k) = list_all (\<lambda>p. json_clean (snd p)) rest"
  by (cases v) (auto simp: rat_js_def whole_def)

lemma text_list_clean: "list_all json_clean (map JStr xs)"
  by (simp add: list_all_iff)

lemma ints_clean: "\<forall>i\<in>set xs. \<bar>i\<bar> < 10 ^ 21 \<Longrightarrow> list_all json_clean (map (\<lambda>n. JNum (Fin (of_int n))) xs)"
  by (auto simp: list_all_iff)

lemma filters_clean: "storable f \<Longrightarrow> json_clean (JObj (filters_js f))"
proof -
  assume s: "storable f"
  have "owf (filters_js f)"
    by (rule owf_plain) (simp_all add: filters_js_def rat_js_keys is_digit_def)
  moreover have "list_all (\<lambda>p. json_clean (snd p)) (filters_js f)"
    using s by (simp add: filters_js_def rat_js_clean text_list_clean ints_clean storable_def)
  ultimately show ?thesis by simp
qed

lemma oget_rat: "oget (rat_js v rest k) k' = (if k' = k \<and> v \<noteq> None then JNum (Fin (the v)) else oget rest k')"
  by (cases v) (simp_all add: rat_js_def)

lemma back_simps:
  "strs_of (JArr (map JStr xs)) = xs" "ints_of (JArr (map (\<lambda>n. JNum (Fin (of_int n))) ns)) = ns" "str_of (JStr t) = t"
  "rat_of (JNum (Fin r)) = Some r" "rat_of JUndef = None"
  by (induction xs; simp add: strs_of_def str_of_def) (induction ns; simp add: ints_of_def rat_of_def str_of_def)+

definition good_order :: "string option \<Rightarrow> string option \<Rightarrow> bool" where
  "good_order column order \<longleftrightarrow> (\<exists>o1\<in>set SORT_OPTIONS. column = Some (so_column o1) \<and> order = Some (so_order o1))"

lemma order_back:
  assumes "good_order column order"
  shows "Some (so_column (initial_sort (sortValueFor column order))) = column \<and> Some (so_order (initial_sort (sortValueFor column order))) = order"
proof -
  have "\<forall>o1\<in>set SORT_OPTIONS. initial_sort (sortValueFor (Some (so_column o1)) (Some (so_order o1))) = o1" by code_simp
  then show ?thesis using assms by (auto simp: good_order_def)
qed

text \<open>
  C40
  The page opened again has the search, the filters and the order it was left with, on the first page.
\<close>

theorem page_reopens_as_left:
  assumes "storable (ps_filters st)" and "good_order (ps_column st) (ps_order st)"
  shows "open_page (Some (store_filters st)) = st\<lparr>ps_debounced := ps_searchKey st, ps_page := 1, ps_size := 25\<rparr>"
proof -
  let ?o = "JObj [(''searchKey'', JStr (ps_searchKey st)), (''filters'', JObj (filters_js (ps_filters st))),
      (''sort'', JStr (sortValueFor (ps_column st) (ps_order st)))]"
  have "owf [(''searchKey'', JStr (ps_searchKey st)), (''filters'', JObj (filters_js (ps_filters st))),
      (''sort'', JStr (sortValueFor (ps_column st) (ps_order st)))]"
    by (rule owf_plain) (simp_all add: is_digit_def)
  then have clean: "json_clean ?o" using filters_clean[OF assms(1)] by simp
  then have p: "json_parse (store_filters st) = Some ?o" unfolding store_filters_def by (rule json_parse_stringify)
  have ne: "sor (store_filters st) ''{}'' = store_filters st"
    by (cases "store_filters st") (use p in \<open>auto simp: store_filters_def json_stringify_def\<close>)
  have f: "oget (filters_js (ps_filters st)) ''expiryFrom'' = (case cf_expiryFrom (ps_filters st) of Some n \<Rightarrow> JNum (Fin (of_int n)) | None \<Rightarrow> JUndef)"
    "oget (filters_js (ps_filters st)) ''expiryTo'' = (case cf_expiryTo (ps_filters st) of Some n \<Rightarrow> JNum (Fin (of_int n)) | None \<Rightarrow> JUndef)"
    "oget (filters_js (ps_filters st)) ''usageFromGB'' = (case cf_usageFromGB (ps_filters st) of Some r \<Rightarrow> JNum (Fin r) | None \<Rightarrow> JUndef)"
    "oget (filters_js (ps_filters st)) ''usageToGB'' = (case cf_usageToGB (ps_filters st) of Some r \<Rightarrow> JNum (Fin r) | None \<Rightarrow> JUndef)"
    by (simp_all add: filters_js_def oget_rat split: option.splits)
  have g: "oget (filters_js (ps_filters st)) ''buckets'' = JArr (map JStr (cf_buckets (ps_filters st)))"
    "oget (filters_js (ps_filters st)) ''protocols'' = JArr (map JStr (cf_protocols (ps_filters st)))"
    "oget (filters_js (ps_filters st)) ''inboundIds'' = JArr (map (\<lambda>n. JNum (Fin (of_int n))) (cf_inboundIds (ps_filters st)))"
    "oget (filters_js (ps_filters st)) ''nodeIds'' = JArr (map (\<lambda>n. JNum (Fin (of_int n))) (cf_nodeIds (ps_filters st)))"
    "oget (filters_js (ps_filters st)) ''groups'' = JArr (map JStr (cf_groups (ps_filters st)))"
    "oget (filters_js (ps_filters st)) ''autoRenew'' = JStr (cf_autoRenew (ps_filters st))"
    "oget (filters_js (ps_filters st)) ''hasTgId'' = JStr (cf_hasTgId (ps_filters st))"
    "oget (filters_js (ps_filters st)) ''hasComment'' = JStr (cf_hasComment (ps_filters st))"
    by (simp_all add: filters_js_def)
  have num: "map_option floor (rat_of (case v of Some n \<Rightarrow> JNum (Fin (of_int n)) | None \<Rightarrow> JUndef)) = v" for v :: "int option"
    by (cases v) (simp_all add: back_simps)
  have rat: "rat_of (case v of Some r \<Rightarrow> JNum (Fin r) | None \<Rightarrow> JUndef) = v" for v
    by (cases v) (simp_all add: back_simps)
  have "readFilterState (Some (store_filters st)) = (ps_searchKey st, ps_filters st, sortValueFor (ps_column st) (ps_order st))"
    unfolding readFilterState_def or_empty_Some ne p
    by (simp add: back_simps g f num rat)
  then show ?thesis using order_back[OF assms(2)] by (simp add: open_page_def)
qed

theorem page_reopens_as_left_witness:
  "open_page (Some (store_filters sample_page)) = sample_page\<lparr>ps_debounced := ''ann'', ps_page := 1, ps_size := 25\<rparr>"
proof -
  have "storable (ps_filters sample_page)"
    by (simp add: storable_def whole_def sample_page_def sample_filters_def emptyFilters_def)
  moreover have "good_order (ps_column sample_page) (ps_order sample_page)" by code_simp
  ultimately show ?thesis using page_reopens_as_left[of sample_page] by (simp add: sample_page_def)
qed

section \<open>The query follows the page\<close>

text \<open>
  A step that changes the search that is in force, a filter or the order goes back to the first page, and no
  step but those and turning the page changes it: the query is never for a page of another list.
\<close>

theorem first_page_of_a_new_list:
  "(narrowed st (page_step ev st) \<longrightarrow> cq_page (page_query inbounds (page_step ev st)) = 1)
   \<and> (\<not> narrowed st (page_step ev st) \<longrightarrow> (\<nexists>n. ev = Turn_Page n) \<longrightarrow>
        cq_page (page_query inbounds (page_step ev st)) = cq_page (page_query inbounds st))"
  by (cases ev) (auto simp: page_step_def narrowed_def page_query_def Let_def)

end
