(* ===== verification/Inbound_Dialog.thy ===== *)
theory Inbound_Dialog
  imports Inbound_Adapter Inbound_Tag Protocol_Defaults
begin

text \<open>
  The dialog of an inbound (\<open>pages/inbounds/form/InboundFormModal.tsx\<close>, \<open>useSecurityActions.ts\<close>,
  \<open>advanced-editors.tsx\<close>): the effects that derive the tag and keep the share address strategy among the
  offered ones, what a change of the protocol, the network or the security does to the form, the handlers of
  the security tab, and the JSON editor of one part of the form. What the zod schemas make of the empty object
  is a parameter, and so is what the server answers.
\<close>

section \<open>What the effects watch\<close>

text \<open>
  An effect reads the values its render watched, and the store of the form when it runs: in the first render
  nothing has been reported yet, later the two agree.
\<close>

record watched =
  wt_port :: "int option"
  wt_node :: "int option"
  wt_protocol :: string
  wt_network :: js
  wt_udp :: js
  wt_ssNetwork :: js
  wt_tunnelNetwork :: js
  wt_tag :: string
  wt_share :: string

definition blank_watch :: watched where
  "blank_watch = \<lparr>wt_port = None, wt_node = None, wt_protocol = [], wt_network = JStr [], wt_udp = JBool False,
     wt_ssNetwork = JUndef, wt_tunnelNetwork = JUndef, wt_tag = [], wt_share = ''node''\<rparr>"

definition stream_of :: "inbound_form \<Rightarrow> jobj" where
  "stream_of f = (case if_streamSettings f of None \<Rightarrow> [] | Some s \<Rightarrow> s)"

definition watched_of :: "inbound_form \<Rightarrow> watched" where
  "watched_of f = \<lparr>wt_port = Some (if_port f), wt_node = if_nodeId f, wt_protocol = if_protocol f,
     wt_network = coalesce (oget (stream_of f) ''network'') (JStr []),
     wt_udp = coalesce (oget (if_settings f) ''udp'') (JBool False),
     wt_ssNetwork = oget (if_settings f) ''network'', wt_tunnelNetwork = oget (if_settings f) ''allowedNetwork'',
     wt_tag = if_tag f, wt_share = if_shareAddrStrategy f\<rparr>"

definition currentTagInput :: "watched \<Rightarrow> tag_input" where
  "currentTagInput w = \<lparr>ti_port = Some (case wt_port w of Some p \<Rightarrow> p | None \<Rightarrow> 0), ti_node = wt_node w,
     ti_protocol = wt_protocol w, ti_stream = Some [(''network'', wt_network w)],
     ti_settings = Some [(''network'', wt_ssNetwork w), (''allowedNetwork'', wt_tunnelNetwork w), (''udp'', wt_udp w)]\<rparr>"

definition initial_input :: "inbound_form \<Rightarrow> tag_input" where
  "initial_input f = \<lparr>ti_port = Some (if_port f), ti_node = if_nodeId f, ti_protocol = if_protocol f,
     ti_stream = Some (stream_of f), ti_settings = Some (if_settings f)\<rparr>"

definition NODE_ELIGIBLE_PROTOCOLS :: "string list" where
  "NODE_ELIGIBLE_PROTOCOLS = [''vless'', ''vmess'', ''trojan'', ''shadowsocks'', ''hysteria'', ''wireguard'']"

definition nodeShareOptionAvailable :: "bool \<Rightarrow> watched \<Rightarrow> bool" where
  "nodeShareOptionAvailable nodes w \<longleftrightarrow> nodes \<and> wt_protocol w \<in> set NODE_ELIGIBLE_PROTOCOLS"

section \<open>Effects\<close>

record dialog =
  dg_form :: inbound_form
  dg_auto :: bool
  dg_written :: string

definition open_effect :: "inbound_form \<Rightarrow> dialog" where
  "open_effect initial = \<lparr>dg_form = initial, dg_auto = isAutoInboundTag (if_tag initial) (initial_input initial),
     dg_written = if_tag initial\<rparr>"

definition tag_effect :: "watched \<Rightarrow> dialog \<Rightarrow> dialog" where
  "tag_effect w st =
     (if wt_tag w = dg_written st then st else st\<lparr>dg_auto := isAutoInboundTag (wt_tag w) (currentTagInput w)\<rparr>)"

definition compose_effect :: "watched \<Rightarrow> dialog \<Rightarrow> dialog" where
  "compose_effect w st =
     (if \<not> dg_auto st then st
      else let nxt = composeInboundTag (currentTagInput w) in
        if nxt \<noteq> if_tag (dg_form st) then st\<lparr>dg_written := nxt, dg_form := (dg_form st)\<lparr>if_tag := nxt\<rparr>\<rparr> else st)"

definition share_effect :: "bool \<Rightarrow> watched \<Rightarrow> dialog \<Rightarrow> dialog" where
  "share_effect nodes w st =
     (if \<not> nodeShareOptionAvailable nodes w \<and> if_shareAddrStrategy (dg_form st) = ''node''
      then st\<lparr>dg_form := (dg_form st)\<lparr>if_shareAddrStrategy := ''listen''\<rparr>\<rparr> else st)"

text \<open>The render that opens the dialog runs all of them, any other one those whose dependencies changed.\<close>

definition open_commit :: "bool \<Rightarrow> watched \<Rightarrow> inbound_form \<Rightarrow> dialog" where
  "open_commit nodes w initial = share_effect nodes w (compose_effect w (tag_effect w (open_effect initial)))"

definition commit :: "bool \<Rightarrow> watched \<Rightarrow> watched \<Rightarrow> dialog \<Rightarrow> dialog" where
  "commit nodes w0 w st =
     (let st = (if wt_tag w \<noteq> wt_tag w0 then tag_effect w st else st);
          st = (if currentTagInput w \<noteq> currentTagInput w0 then compose_effect w st else st)
      in if nodeShareOptionAvailable nodes w \<noteq> nodeShareOptionAvailable nodes w0 \<or> wt_share w \<noteq> wt_share w0
         then share_effect nodes w st else st)"

definition settle :: "bool \<Rightarrow> watched \<Rightarrow> dialog \<Rightarrow> dialog" where
  "settle nodes w0 st = commit nodes w0 (watched_of (dg_form st)) st"

definition open_dialog :: "bool \<Rightarrow> watched \<Rightarrow> inbound_form \<Rightarrow> dialog" where
  "open_dialog nodes w initial = settle nodes w (open_commit nodes w initial)"

text \<open>A change of the form, by whatever field or handler, and the renders it leads to.\<close>

definition edit_form :: "bool \<Rightarrow> inbound_form \<Rightarrow> dialog \<Rightarrow> dialog" where
  "edit_form nodes f st = settle nodes (watched_of (dg_form st)) (st\<lparr>dg_form := f\<rparr>)"

section \<open>Protocol, network and security\<close>

text \<open>The starting values: what the schemas make of the empty object, by network, and the drawn values.\<close>

record blanks =
  bl_network :: "string \<Rightarrow> jobj"
  bl_tls :: jobj
  bl_reality :: jobj
  bl_hysteria :: jobj
  bl_sockopt :: jobj

definition NETWORK_KEYS :: "string list" where
  "NETWORK_KEYS = [''tcpSettings'', ''kcpSettings'', ''wsSettings'', ''grpcSettings'', ''httpupgradeSettings'', ''xhttpSettings'']"

definition settings_key :: "string \<Rightarrow> string" where
  "settings_key n = n @ ''Settings''"

definition obj_of :: "js \<Rightarrow> jobj" where
  "obj_of v = (case v of JObj o1 \<Rightarrow> o1 | _ \<Rightarrow> [])"

definition is_mkcp :: "js \<Rightarrow> bool" where
  "is_mkcp m \<longleftrightarrow> jget m ''type'' = JStr ''mkcp-legacy''"

definition mkcp_mask :: js where
  "mkcp_mask = JObj [(''type'', JStr ''mkcp-legacy''), (''settings'', JObj [(''header'', JStr []), (''value'', JStr [])])]"

definition with_mkcp :: "jobj \<Rightarrow> jobj" where
  "with_mkcp s =
     (let fm = obj_of (oget s ''finalmask'');
          udp = (case oget fm ''udp'' of JArr us \<Rightarrow> us | _ \<Rightarrow> [])
      in if list_ex is_mkcp udp then s
         else oput ''finalmask'' (JObj (oput ''udp'' (JArr (udp @ [mkcp_mask])) fm)) s)"

definition without_mkcp :: "jobj \<Rightarrow> jobj" where
  "without_mkcp s =
     (let fm = obj_of (oget s ''finalmask'')
      in case oget fm ''udp'' of
           JArr us \<Rightarrow> oput ''finalmask'' (JObj (oput ''udp'' (JArr (filter (\<lambda>m. \<not> is_mkcp m) us)) fm)) s
         | _ \<Rightarrow> s)"

definition network_swap :: "blanks \<Rightarrow> string \<Rightarrow> jobj \<Rightarrow> jobj" where
  "network_swap bl nxt current =
     oput (settings_key nxt) (JObj (bl_network bl nxt))
       (odels (filter (\<lambda>k. k \<noteq> settings_key nxt) NETWORK_KEYS) (oput ''network'' (JStr nxt) current))"

definition onNetworkChange :: "blanks \<Rightarrow> string \<Rightarrow> jobj \<Rightarrow> jobj" where
  "onNetworkChange bl nxt current =
     (if nxt = ''kcp'' then with_mkcp (network_swap bl nxt current) else without_mkcp (network_swap bl nxt current))"

text \<open>The list of well-known targets, of which one is drawn.\<close>

definition REALITY_TARGETS :: "(string \<times> string) list" where
  "REALITY_TARGETS =
     map (\<lambda>h. (h @ '':443'', h)) [''www.amazon.com'', ''aws.amazon.com'', ''www.oracle.com'', ''www.nvidia.com'',
       ''www.amd.com'', ''www.intel.com'', ''www.sony.com'']"

definition comma_list :: "string \<Rightarrow> js" where
  "comma_list s = JArr (map JStr (filter (\<lambda>x. x \<noteq> []) (map trim (split_char CHR '','' s))))"

text \<open>\<open>pick\<close> is the drawn index of the target and \<open>ids\<close> the drawn short ids.\<close>

definition onSecurityChange :: "blanks \<Rightarrow> nat \<Rightarrow> string \<Rightarrow> string \<Rightarrow> jobj \<Rightarrow> jobj" where
  "onSecurityChange bl pick ids nxt current =
     (let cleaned = odel ''realitySettings'' (odel ''tlsSettings'' (oput ''security'' (JStr nxt) current)) in
      if nxt = ''tls'' then oput ''tlsSettings'' (JObj (createTlsSettingsWithDefaultCert (bl_tls bl))) cleaned
      else if nxt = ''reality'' then
        (let tgt = REALITY_TARGETS ! (pick mod length REALITY_TARGETS) in
         oput ''realitySettings''
           (JObj (oput ''shortIds'' (comma_list ids) (oput ''serverNames'' (comma_list (snd tgt))
             (oput ''target'' (JStr (fst tgt)) (bl_reality bl))))) cleaned)
      else cleaned)"

definition toggleSockopt :: "blanks \<Rightarrow> bool \<Rightarrow> jobj \<Rightarrow> jobj" where
  "toggleSockopt bl on s = oput ''sockopt'' (if on then JObj (bl_sockopt bl) else JUndef) s"

text \<open>The block a form gets when Hysteria is selected; \<open>pw\<close> is the drawn password.\<close>

definition hysteria_stream :: "blanks \<Rightarrow> string \<Rightarrow> jobj" where
  "hysteria_stream bl pw =
     [(''network'', JStr ''hysteria''), (''security'', JStr ''tls''), (''hysteriaSettings'', JObj (bl_hysteria bl)),
      (''tlsSettings'', JObj (createHysteriaTlsSettingsWithDefaultCert (bl_tls bl))),
      (''finalmask'', JObj [(''tcp'', JArr []), (''udp'', JArr [JObj [(''type'', JStr ''salamander''),
         (''settings'', JObj [(''password'', JStr pw)])]])])]"

definition plain_stream :: jobj where
  "plain_stream = [(''network'', JStr ''tcp''), (''security'', JStr ''none''), (''tcpSettings'', JObj [])]"

definition protocol_stream :: "blanks \<Rightarrow> string \<Rightarrow> string \<Rightarrow> jobj option \<Rightarrow> jobj option" where
  "protocol_stream bl pw nxt current =
     (if nxt = ''hysteria'' then Some (hysteria_stream bl pw)
      else if nxt = ''wireguard'' \<or> nxt = ''tunnel'' then Some [(''security'', JStr ''none'')]
      else (let net = (case current of Some s \<Rightarrow> oget s ''network'' | None \<Rightarrow> JUndef) in
            if net = JStr ''hysteria'' \<or> \<not> truthy net then Some plain_stream else current))"

text \<open>A protocol picked in the form; \<open>defaults\<close> gives the settings of a protocol.\<close>

definition onValuesChange :: "blanks \<Rightarrow> (string \<Rightarrow> jobj option) \<Rightarrow> string \<Rightarrow> bool \<Rightarrow> string \<Rightarrow> inbound_form \<Rightarrow> inbound_form" where
  "onValuesChange bl defaults pw isEdit nxt f =
     (let f = f\<lparr>if_protocol := nxt\<rparr> in
      if isEdit then f
      else f\<lparr>if_settings := (case defaults nxt of Some s \<Rightarrow> s | None \<Rightarrow> []),
             if_nodeId := (if nxt \<in> set NODE_ELIGIBLE_PROTOCOLS then if_nodeId f else None),
             if_streamSettings := protocol_stream bl pw nxt (if_streamSettings f)\<rparr>)"

text \<open>What the dialog starts a new inbound with.\<close>

definition add_row :: "blanks \<Rightarrow> jobj \<Rightarrow> jobj \<Rightarrow> int \<Rightarrow> raw_row" where
  "add_row bl settings sniffing port = \<lparr>rr_port = Some port, rr_listen = Some [], rr_protocol = Some ''vless'', rr_tag = Some [],
     rr_settings = JObj settings,
     rr_streamSettings = JObj [(''network'', JStr ''tcp''), (''security'', JStr ''none''), (''tcpSettings'', JObj (bl_network bl ''tcp''))],
     rr_sniffing = JObj sniffing, rr_up = None, rr_down = None, rr_total = None, rr_remark = None, rr_enable = Some True,
     rr_expiryTime = None, rr_trafficReset = JStr ''never'', rr_lastTrafficResetTime = None, rr_nodeId = None,
     rr_shareAddrStrategy = JUndef, rr_shareAddr = None, rr_subSortIndex = None\<rparr>"

definition new_inbound :: "blanks \<Rightarrow> jobj \<Rightarrow> int \<Rightarrow> inbound_form option" where
  "new_inbound bl sniffing port = rawInboundToFormValues (add_row bl createDefaultVlessInboundSettings sniffing port)"

definition hasSelectableTransport :: "string \<Rightarrow> bool" where
  "hasSelectableTransport protocol \<longleftrightarrow> protocol \<notin> {''hysteria'', ''wireguard'', ''tunnel''}"

definition isFallbackHost :: "inbound_form \<Rightarrow> bool" where
  "isFallbackHost f \<longleftrightarrow> (if_protocol f = ''vless'' \<or> if_protocol f = ''trojan'')
     \<and> wt_network (watched_of f) = JStr ''tcp''
     \<and> coalesce (oget (stream_of f) ''security'') (JStr ''none'') \<in> {JStr ''tls'', JStr ''reality''}"

section \<open>Writing into the store\<close>

text \<open>A value set at a path: objects and lists are made on the way, a list grows to the index.\<close>

datatype path_step = At string | Nth nat

definition put_index :: "nat \<Rightarrow> js \<Rightarrow> js list \<Rightarrow> js list" where
  "put_index i v xs = (if i < length xs then xs[i := v] else xs @ replicate (i - length xs) JUndef @ [v])"

fun get_path :: "path_step list \<Rightarrow> js \<Rightarrow> js" where
  "get_path [] j = j"
| "get_path (At k # p) j = get_path p (jget j k)"
| "get_path (Nth i # p) j = get_path p (case j of JArr xs \<Rightarrow> if i < length xs then xs ! i else JUndef | _ \<Rightarrow> JUndef)"

fun set_path :: "path_step list \<Rightarrow> js \<Rightarrow> js \<Rightarrow> js" where
  "set_path [] v j = v"
| "set_path (At k # p) v j = JObj (oput k (set_path p v (jget j k)) (obj_of j))"
| "set_path (Nth i # p) v j =
     (let xs = (case j of JArr xs \<Rightarrow> xs | _ \<Rightarrow> []) in
      JArr (put_index i (set_path p v (if i < length xs then xs ! i else JUndef)) xs))"

definition set_stream :: "path_step list \<Rightarrow> js \<Rightarrow> jobj \<Rightarrow> jobj" where
  "set_stream p v s = obj_of (set_path p v (JObj s))"

section \<open>The security tab\<close>

definition reality_keys :: "string \<Rightarrow> string \<Rightarrow> jobj \<Rightarrow> jobj" where
  "reality_keys privateKey publicKey s =
     set_stream [At ''realitySettings'', At ''settings'', At ''publicKey''] (JStr publicKey)
       (set_stream [At ''realitySettings'', At ''privateKey''] (JStr privateKey) s)"

text \<open>The answer of the server to a request for a new pair, and the button that clears it.\<close>

definition genRealityKeypair :: "(string \<times> string) option \<Rightarrow> jobj \<Rightarrow> jobj" where
  "genRealityKeypair answer s = (case answer of Some (pri, pub) \<Rightarrow> reality_keys pri pub s | None \<Rightarrow> s)"

definition clearRealityKeypair :: "jobj \<Rightarrow> jobj" where
  "clearRealityKeypair s = reality_keys [] [] s"

definition mldsa_keys :: "string \<Rightarrow> string \<Rightarrow> jobj \<Rightarrow> jobj" where
  "mldsa_keys seed verify s =
     set_stream [At ''realitySettings'', At ''settings'', At ''mldsa65Verify''] (JStr verify)
       (set_stream [At ''realitySettings'', At ''mldsa65Seed''] (JStr seed) s)"

definition genMldsa65 :: "(string \<times> string) option \<Rightarrow> jobj \<Rightarrow> jobj" where
  "genMldsa65 answer s = (case answer of Some (seed, verify) \<Rightarrow> mldsa_keys seed verify s | None \<Rightarrow> s)"

definition clearMldsa65 :: "jobj \<Rightarrow> jobj" where
  "clearMldsa65 s = mldsa_keys [] [] s"

definition randomizeRealityTarget :: "nat \<Rightarrow> jobj \<Rightarrow> jobj" where
  "randomizeRealityTarget pick s =
     (let tgt = REALITY_TARGETS ! (pick mod length REALITY_TARGETS) in
      set_stream [At ''realitySettings'', At ''serverNames''] (comma_list (snd tgt))
        (set_stream [At ''realitySettings'', At ''target''] (JStr (fst tgt)) s))"

definition randomizeShortIds :: "string \<Rightarrow> jobj \<Rightarrow> jobj" where
  "randomizeShortIds ids s = set_stream [At ''realitySettings'', At ''shortIds''] (comma_list ids) s"

definition ech_keys :: "string \<Rightarrow> string \<Rightarrow> jobj \<Rightarrow> jobj" where
  "ech_keys serverKeys configList s =
     set_stream [At ''tlsSettings'', At ''settings'', At ''echConfigList''] (JStr configList)
       (set_stream [At ''tlsSettings'', At ''echServerKeys''] (JStr serverKeys) s)"

definition getNewEchCert :: "(string \<times> string) option \<Rightarrow> jobj \<Rightarrow> jobj" where
  "getNewEchCert answer s = (case answer of Some (serverKeys, configList) \<Rightarrow> ech_keys serverKeys configList s | None \<Rightarrow> s)"

definition clearEchCert :: "jobj \<Rightarrow> jobj" where
  "clearEchCert s = ech_keys [] [] s"

definition pin_text :: "nat list \<Rightarrow> string" where
  "pin_text bytes = concat (map (\<lambda>b. [hex_lower (b div 16), hex_lower b]) bytes)"

definition generateRandomPinHash :: "nat list \<Rightarrow> jobj \<Rightarrow> jobj" where
  "generateRandomPinHash bytes s =
     (let p = [At ''tlsSettings'', At ''settings'', At ''pinnedPeerCertSha256''];
          current = (case get_path p (JObj s) of JArr xs \<Rightarrow> xs | _ \<Rightarrow> [])
      in set_stream p (JArr (current @ [JStr (pin_text bytes)])) s)"

definition cert_files :: "nat \<Rightarrow> string \<Rightarrow> string \<Rightarrow> jobj \<Rightarrow> jobj" where
  "cert_files i cert key s =
     set_stream [At ''tlsSettings'', At ''certificates'', Nth i, At ''keyFile''] (JStr key)
       (set_stream [At ''tlsSettings'', At ''certificates'', Nth i, At ''certificateFile''] (JStr cert) s)"

text \<open>The files of the panel, or of the node the inbound is deployed to.\<close>

definition setCertFromPanel :: "nat \<Rightarrow> (string option \<times> string option) option \<Rightarrow> jobj \<Rightarrow> jobj" where
  "setCertFromPanel i answer s =
     (case answer of
        None \<Rightarrow> s
      | Some (cert, key) \<Rightarrow>
          if or_empty cert = [] \<and> or_empty key = [] then s else cert_files i (or_empty cert) (or_empty key) s)"

definition clearCertFiles :: "nat \<Rightarrow> jobj \<Rightarrow> jobj" where
  "clearCertFiles i s = cert_files i [] [] s"

section \<open>Events of the stream settings\<close>

text \<open>
  What a user can do to the stream settings while the protocol stays, and the answers of the server. The
  forms of TLS and of REALITY are shown for their security only, so their buttons do nothing otherwise; an
  answer arrives whatever the form shows by then.
\<close>

datatype stream_event =
    Pick_Network string
  | Pick_Security nat string string
  | Toggle_Sockopt bool
  | Clear_Reality_Keys | Clear_Mldsa | New_Target nat | New_Short_Ids string
  | Clear_Ech | New_Pin "nat list" | Clear_Cert nat
  | Reality_Keys_Arrive "(string \<times> string) option"
  | Mldsa_Arrives "(string \<times> string) option"
  | Ech_Arrives "(string \<times> string) option"
  | Cert_Arrives nat "(string option \<times> string option) option"

definition has_security :: "string \<Rightarrow> jobj \<Rightarrow> bool" where
  "has_security sec s \<longleftrightarrow> oget s ''security'' = JStr sec"

definition offered :: "string \<Rightarrow> (jobj \<Rightarrow> jobj) \<Rightarrow> jobj \<Rightarrow> jobj" where
  "offered sec f s = (if has_security sec s then f s else s)"

fun stream_step :: "blanks \<Rightarrow> stream_event \<Rightarrow> jobj \<Rightarrow> jobj" where
  "stream_step bl (Pick_Network n) s = onNetworkChange bl n s"
| "stream_step bl (Pick_Security pick ids sec) s = onSecurityChange bl pick ids sec s"
| "stream_step bl (Toggle_Sockopt on) s = toggleSockopt bl on s"
| "stream_step bl Clear_Reality_Keys s = offered ''reality'' clearRealityKeypair s"
| "stream_step bl Clear_Mldsa s = offered ''reality'' clearMldsa65 s"
| "stream_step bl (New_Target pick) s = offered ''reality'' (randomizeRealityTarget pick) s"
| "stream_step bl (New_Short_Ids ids) s = offered ''reality'' (randomizeShortIds ids) s"
| "stream_step bl Clear_Ech s = offered ''tls'' clearEchCert s"
| "stream_step bl (New_Pin bytes) s = offered ''tls'' (generateRandomPinHash bytes) s"
| "stream_step bl (Clear_Cert i) s = offered ''tls'' (clearCertFiles i) s"
| "stream_step bl (Reality_Keys_Arrive answer) s = genRealityKeypair answer s"
| "stream_step bl (Mldsa_Arrives answer) s = genMldsa65 answer s"
| "stream_step bl (Ech_Arrives answer) s = getNewEchCert answer s"
| "stream_step bl (Cert_Arrives i answer) s = setCertFromPanel i answer s"

section \<open>The JSON editor of one part\<close>

text \<open>
  The editor keeps a text of its own: typing writes to the form whenever the text parses, and the text is
  taken over from the form when that changed otherwise. \<open>key\<close> is the name the part is wrapped in.
\<close>

record slice_editor =
  se_text :: string
  se_last :: string
  se_value :: js

definition slice_text :: "string \<Rightarrow> js \<Rightarrow> string" where
  "slice_text key v = json_stringify2 (JObj [(key, coalesce v (JObj []))])"

definition slice_open :: "string \<Rightarrow> js \<Rightarrow> slice_editor" where
  "slice_open key v = \<lparr>se_text = slice_text key v, se_last = slice_text key v, se_value = v\<rparr>"

definition slice_unwrap :: "string \<Rightarrow> js \<Rightarrow> js" where
  "slice_unwrap key parsed = (case parsed of JObj o1 \<Rightarrow> coalesce (oget o1 key) (JObj []) | _ \<Rightarrow> parsed)"

definition slice_type :: "string \<Rightarrow> string \<Rightarrow> slice_editor \<Rightarrow> slice_editor" where
  "slice_type key nxt st =
     (let st = st\<lparr>se_text := nxt\<rparr> in
      case json_parse nxt of
        None \<Rightarrow> st
      | Some parsed \<Rightarrow>
          (let v = slice_unwrap key parsed in
           st\<lparr>se_value := v, se_last := json_stringify2 (JObj [(key, v)])\<rparr>))"

definition slice_sync :: "string \<Rightarrow> slice_editor \<Rightarrow> slice_editor" where
  "slice_sync key st =
     (let formStr = slice_text key (se_value st) in
      if formStr = se_last st then st else st\<lparr>se_text := formStr, se_last := formStr\<rparr>)"

datatype slice_event = Typed string | Form_Set js

fun slice_step :: "string \<Rightarrow> slice_event \<Rightarrow> slice_editor \<Rightarrow> slice_editor" where
  "slice_step key (Typed s) st = slice_sync key (slice_type key s st)"
| "slice_step key (Form_Set v) st = slice_sync key (st\<lparr>se_value := v\<rparr>)"

text \<open>The editor of the whole inbound: each part is written when it has the right type (a list in the place of
  a part, or a port that is not whole, is left out: the form could not hold it).\<close>

definition apply_all :: "bool \<Rightarrow> bool \<Rightarrow> string \<Rightarrow> inbound_form \<Rightarrow> inbound_form" where
  "apply_all streamEnabled sniffingEnabled txt f =
     (case json_parse txt of
        Some (JObj p) \<Rightarrow>
          (let part = (\<lambda>v. case v of JObj o1 \<Rightarrow> Some o1 | _ \<Rightarrow> None);
               f = (case oget p ''listen'' of JStr s \<Rightarrow> f\<lparr>if_listen := s\<rparr> | _ \<Rightarrow> f);
               f = (case oget p ''port'' of JNum (Fin r) \<Rightarrow> if of_int \<lfloor>r\<rfloor> = r then f\<lparr>if_port := \<lfloor>r\<rfloor>\<rparr> else f | _ \<Rightarrow> f);
               f = (case oget p ''protocol'' of JStr s \<Rightarrow> f\<lparr>if_protocol := s\<rparr> | _ \<Rightarrow> f);
               f = (case oget p ''tag'' of JStr s \<Rightarrow> f\<lparr>if_tag := s\<rparr> | _ \<Rightarrow> f);
               f = (case part (oget p ''settings'') of Some s \<Rightarrow> f\<lparr>if_settings := s\<rparr> | None \<Rightarrow> f);
               f = (case part (oget p ''sniffing'') of Some s \<Rightarrow> if sniffingEnabled then f\<lparr>if_sniffing := s\<rparr> else f | None \<Rightarrow> f)
           in (case part (oget p ''streamSettings'') of
                 Some s \<Rightarrow> if streamEnabled then f\<lparr>if_streamSettings := Some s\<rparr> else f | None \<Rightarrow> f))
      | _ \<Rightarrow> f)"

section \<open>The stream settings stay in step\<close>

definition network_of :: "jobj \<Rightarrow> string" where
  "network_of s = (case oget s ''network'' of JStr n \<Rightarrow> n | _ \<Rightarrow> [])"

definition NETWORKS :: "string list" where
  "NETWORKS = [''tcp'', ''kcp'', ''ws'', ''grpc'', ''httpupgrade'', ''xhttp'']"

text \<open>
  The settings of no network but the chosen one, and the settings of TLS and of REALITY exactly with their
  security.
\<close>

definition stream_in_step :: "jobj \<Rightarrow> bool" where
  "stream_in_step s \<longleftrightarrow>
     (\<forall>k\<in>set NETWORK_KEYS. ohas s k \<longrightarrow> k = settings_key (network_of s))
     \<and> (ohas s ''tlsSettings'' \<longleftrightarrow> has_security ''tls'' s) \<and> (ohas s ''realitySettings'' \<longleftrightarrow> has_security ''reality'' s)"

definition timely :: "stream_event \<Rightarrow> jobj \<Rightarrow> bool" where
  "timely ev s = (case ev of
       Pick_Network n \<Rightarrow> n \<in> set NETWORKS
     | Reality_Keys_Arrive (Some _) \<Rightarrow> has_security ''reality'' s
     | Mldsa_Arrives (Some _) \<Rightarrow> has_security ''reality'' s
     | Ech_Arrives (Some _) \<Rightarrow> has_security ''tls'' s
     | Cert_Arrives _ (Some _) \<Rightarrow> has_security ''tls'' s
     | _ \<Rightarrow> True)"

inductive stream_reach :: "blanks \<Rightarrow> jobj \<Rightarrow> jobj \<Rightarrow> bool" for bl :: blanks and s0 :: jobj where
  Start: "stream_reach bl s0 s0"
| Event: "stream_reach bl s0 s \<Longrightarrow> timely ev s \<Longrightarrow> stream_reach bl s0 (stream_step bl ev s)"
| Protocol: "stream_reach bl s0 s \<Longrightarrow> protocol_stream bl pw nxt (Some s) = Some s' \<Longrightarrow> stream_reach bl s0 s'"

lemma set_stream_At: "set_stream (At k # p) v s = oput k (set_path p v (oget s k)) s"
  by (simp add: set_stream_def obj_of_def)

lemma has_security_oput [simp]: "k \<noteq> ''security'' \<Longrightarrow> has_security sec (oput k v s) = has_security sec s"
  by (simp add: has_security_def)

lemma network_of_oput [simp]: "k \<noteq> ''network'' \<Longrightarrow> network_of (oput k v s) = network_of s"
  by (simp add: network_of_def)

lemma network_keys_fresh:
  "k \<in> set NETWORK_KEYS \<Longrightarrow> k \<notin> {''network'', ''security'', ''tlsSettings'', ''realitySettings'', ''sockopt'', ''finalmask''}"
  by (auto simp: NETWORK_KEYS_def)

text \<open>Writing a key that is none of them, or one of the two blocks under its security, keeps them in step.\<close>

lemma in_step_oput:
  assumes "stream_in_step s" and "k \<in> {''sockopt'', ''finalmask''} \<or> k = ''tlsSettings'' \<and> has_security ''tls'' s
    \<or> k = ''realitySettings'' \<and> has_security ''reality'' s"
  shows "stream_in_step (oput k v s)"
proof -
  have k: "k \<noteq> ''network''" "k \<noteq> ''security''" "k \<notin> set NETWORK_KEYS"
    using assms(2) by (auto simp: NETWORK_KEYS_def)
  then have "\<forall>k'\<in>set NETWORK_KEYS. ohas (oput k v s) k' \<longrightarrow> k' = settings_key (network_of (oput k v s))"
    using assms(1) by (auto simp: stream_in_step_def)
  then show ?thesis using assms k by (auto simp: stream_in_step_def)
qed

lemma settings_key_mem: "n \<in> set NETWORKS \<Longrightarrow> settings_key n \<in> set NETWORK_KEYS"
  by (auto simp: NETWORKS_def NETWORK_KEYS_def settings_key_def)

lemma mkcp_in_step: "stream_in_step s \<Longrightarrow> stream_in_step (with_mkcp s)" "stream_in_step s \<Longrightarrow> stream_in_step (without_mkcp s)"
  by (auto simp: with_mkcp_def without_mkcp_def Let_def intro: in_step_oput split: js.splits)

lemma network_in_step:
  assumes "stream_in_step s" and "n \<in> set NETWORKS"
  shows "stream_in_step (onNetworkChange bl n s)"
proof -
  let ?ks = "filter (\<lambda>k. k \<noteq> settings_key n) NETWORK_KEYS"
  let ?c = "oput (settings_key n) (JObj (bl_network bl n)) (odels ?ks (oput ''network'' (JStr n) s))"
  have k: "settings_key n \<in> set NETWORK_KEYS" by (rule settings_key_mem[OF assms(2)])
  note f = network_keys_fresh[OF k]
  have g: "''network'' \<notin> set ?ks" "''security'' \<notin> set ?ks" "''tlsSettings'' \<notin> set ?ks" "''realitySettings'' \<notin> set ?ks"
    by (auto simp: NETWORK_KEYS_def)
  have "oget ?c ''network'' = JStr n" using f g(1) by auto
  then have n: "network_of ?c = n" by (simp add: network_of_def)
  have "oget ?c ''security'' = oget s ''security''" using f g(2) by auto
  then have s: "has_security sec ?c = has_security sec s" for sec by (simp add: has_security_def)
  have "stream_in_step ?c" using assms(1) f g(3,4) unfolding stream_in_step_def n s by auto
  then show ?thesis unfolding onNetworkChange_def network_swap_def using mkcp_in_step by auto
qed

lemma security_in_step:
  assumes "stream_in_step s"
  shows "stream_in_step (onSecurityChange bl pick ids sec s)"
proof -
  let ?c = "odel ''realitySettings'' (odel ''tlsSettings'' (oput ''security'' (JStr sec) s))"
  have n: "network_of (oput k v ?c) = network_of s" "network_of ?c = network_of s" if "k \<noteq> ''network''" for k v
    using that by (simp_all add: network_of_def)
  have h: "has_security x (oput k v ?c) \<longleftrightarrow> sec = x" "has_security x ?c \<longleftrightarrow> sec = x" if "k \<noteq> ''security''" for k v x
    using that by (simp_all add: has_security_def)
  have keys: "ohas ?c k = ohas s k" if "k \<in> set NETWORK_KEYS" for k
    using network_keys_fresh[OF that] by simp
  have none: "\<not> ohas ?c ''tlsSettings''" "\<not> ohas ?c ''realitySettings''" by simp_all
  have old: "\<forall>k\<in>set NETWORK_KEYS. ohas s k \<longrightarrow> k = settings_key (network_of s)" using assms by (simp add: stream_in_step_def)
  have bare: "stream_in_step ?c" if "sec \<noteq> ''tls''" "sec \<noteq> ''reality''"
    unfolding stream_in_step_def using that old keys none h(2)[of "''network''"] n(2)[of "''tlsSettings''"] by auto
  have put: "stream_in_step (oput k v ?c)"
    if "k = ''tlsSettings'' \<and> sec = ''tls'' \<or> k = ''realitySettings'' \<and> sec = ''reality''" for k v
  proof -
    have k: "k \<noteq> ''network''" "k \<noteq> ''security''" "k \<notin> set NETWORK_KEYS" using that by (auto simp: NETWORK_KEYS_def)
    show ?thesis
      unfolding stream_in_step_def n(1)[OF k(1)] h(1)[OF k(2)] ohas_oput using that old keys none k(3) by auto
  qed
  consider "sec = ''tls''" | "sec = ''reality''" | "sec \<noteq> ''tls''" "sec \<noteq> ''reality''" by blast
  then show ?thesis
  proof cases
    case 1
    then show ?thesis using put[of "''tlsSettings''"] by (simp add: onSecurityChange_def Let_def)
  next
    case 2
    then show ?thesis using put[of "''realitySettings''"] by (simp add: onSecurityChange_def Let_def)
  next
    case 3
    then show ?thesis using bare by (simp add: onSecurityChange_def Let_def)
  qed
qed

lemma protocol_in_step: "stream_in_step s \<Longrightarrow> protocol_stream bl pw nxt (Some s) = Some s' \<Longrightarrow> stream_in_step s'"
proof -
  assume a: "stream_in_step s" and p: "protocol_stream bl pw nxt (Some s) = Some s'"
  have "stream_in_step (hysteria_stream bl pw)" "stream_in_step plain_stream" "stream_in_step [(''security'', JStr ''none'')]"
    by (auto simp: stream_in_step_def hysteria_stream_def plain_stream_def has_security_def ohas_def network_of_def
        NETWORK_KEYS_def settings_key_def)
  with a p show ?thesis by (auto simp: protocol_stream_def Let_def split: if_splits)
qed

lemmas security_writes = reality_keys_def mldsa_keys_def ech_keys_def cert_files_def set_stream_At

lemma block_writes:
  "stream_in_step s \<Longrightarrow> has_security ''reality'' s \<Longrightarrow> stream_in_step (set_stream (At ''realitySettings'' # p) v s)"
  "stream_in_step s \<Longrightarrow> has_security ''tls'' s \<Longrightarrow> stream_in_step (set_stream (At ''tlsSettings'' # p) v s)"
  by (simp_all add: set_stream_At in_step_oput)

lemma block_security:
  "has_security sec (set_stream (At ''realitySettings'' # p) v s) = has_security sec s"
  "has_security sec (set_stream (At ''tlsSettings'' # p) v s) = has_security sec s"
  by (simp_all add: set_stream_At)

lemma reality_writes:
  assumes "stream_in_step s" and "has_security ''reality'' s"
  shows "stream_in_step (reality_keys a b s)" "stream_in_step (mldsa_keys a b s)" "stream_in_step (randomizeRealityTarget n s)"
    "stream_in_step (randomizeShortIds ids s)"
  unfolding reality_keys_def mldsa_keys_def randomizeRealityTarget_def randomizeShortIds_def Let_def
  using assms by (intro block_writes; simp only: block_security block_writes)+

lemma tls_writes:
  assumes "stream_in_step s" and "has_security ''tls'' s"
  shows "stream_in_step (ech_keys a b s)" "stream_in_step (cert_files i a b s)" "stream_in_step (generateRandomPinHash bytes s)"
  unfolding ech_keys_def cert_files_def generateRandomPinHash_def Let_def
  using assms by (intro block_writes; simp only: block_security block_writes)+

lemma event_in_step:
  assumes "stream_in_step s" and "timely ev s"
  shows "stream_in_step (stream_step bl ev s)"
proof (cases ev)
  case (Toggle_Sockopt on)
  then show ?thesis using assms(1) by (simp add: toggleSockopt_def in_step_oput)
next
  case (Cert_Arrives i a)
  then show ?thesis using assms tls_writes(2) by (auto simp: timely_def setCertFromPanel_def split: option.splits prod.splits)
next
  case (Reality_Keys_Arrive a)
  then show ?thesis using assms reality_writes(1) by (cases a) (auto simp: timely_def genRealityKeypair_def)
next
  case (Mldsa_Arrives a)
  then show ?thesis using assms reality_writes(2) by (cases a) (auto simp: timely_def genMldsa65_def)
next
  case (Ech_Arrives a)
  then show ?thesis using assms tls_writes(1) by (cases a) (auto simp: timely_def getNewEchCert_def)
qed (use assms reality_writes tls_writes in \<open>simp_all add: timely_def network_in_step security_in_step offered_def
    clearRealityKeypair_def clearMldsa65_def clearEchCert_def clearCertFiles_def\<close>)

text \<open>
  C9
  Whatever a user does to the protocol, the network, the security and the keys of an inbound whose stream
  settings were in step, and whatever the server answers while the security a request was made for is still
  chosen, the stream settings hold the settings of no network but the chosen one, and those of TLS and of REALITY
  exactly under their security.
\<close>

theorem stream_settings_in_step:
  assumes "stream_reach bl s0 s" and "stream_in_step s0"
  shows "stream_in_step s"
  using assms(1) by induction (simp_all add: assms(2) event_in_step protocol_in_step)

definition sample_blanks :: blanks where
  "sample_blanks = \<lparr>bl_network = (\<lambda>n. [(''x'', JStr n)]), bl_tls = [], bl_reality = [(''show'', JBool False)], bl_hysteria = [],
     bl_sockopt = []\<rparr>"

theorem stream_settings_in_step_witness:
  "stream_in_step (stream_step sample_blanks (Pick_Network ''kcp'')
     (stream_step sample_blanks (Reality_Keys_Arrive (Some (''pri'', ''pub'')))
       (stream_step sample_blanks (Pick_Security 3 ''a,b'' ''reality'') plain_stream)))"
proof (rule stream_settings_in_step)
  show "stream_in_step plain_stream"
    by (auto simp: stream_in_step_def plain_stream_def has_security_def ohas_def network_of_def NETWORK_KEYS_def settings_key_def)
  show "stream_reach sample_blanks plain_stream (stream_step sample_blanks (Pick_Network ''kcp'')
     (stream_step sample_blanks (Reality_Keys_Arrive (Some (''pri'', ''pub'')))
       (stream_step sample_blanks (Pick_Security 3 ''a,b'' ''reality'') plain_stream)))"
    by (intro stream_reach.Event stream_reach.Start) (code_simp+)
qed

text \<open>
  An answer that comes after the security was changed again brings back the settings of REALITY beside those
  of TLS.
\<close>

lemma late_keys_resurrect:
  "oget (stream_step bl (Reality_Keys_Arrive (Some (pri, pub))) (onSecurityChange bl pick ids ''tls'' s)) ''realitySettings'' \<noteq> JUndef
   \<and> oget (stream_step bl (Reality_Keys_Arrive (Some (pri, pub))) (onSecurityChange bl pick ids ''tls'' s)) ''security'' = JStr ''tls''"
  by (simp add: genRealityKeypair_def reality_keys_def set_stream_At onSecurityChange_def Let_def)

text \<open>A change of the network keeps the security, whether or not the network has it.\<close>

lemma mkcp_keeps: "k \<noteq> ''finalmask'' \<Longrightarrow> oget (with_mkcp s) k = oget s k" "k \<noteq> ''finalmask'' \<Longrightarrow> oget (without_mkcp s) k = oget s k"
  by (auto simp: with_mkcp_def without_mkcp_def Let_def split: js.splits)

lemma swap_keeps:
  assumes "n \<in> set NETWORKS" and "k \<in> {''security'', ''tlsSettings'', ''realitySettings'', ''sockopt'', ''finalmask''}"
  shows "oget (network_swap bl n s) k = oget s k"
proof -
  have "k \<noteq> settings_key n" using assms(2) network_keys_fresh[OF settings_key_mem[OF assms(1)]] by auto
  moreover have "k \<notin> set NETWORK_KEYS" "k \<noteq> ''network''" using assms(2) by (auto simp: NETWORK_KEYS_def)
  ultimately show ?thesis by (simp add: network_swap_def)
qed

lemma network_keeps_security:
  "n \<in> set NETWORKS \<Longrightarrow> k \<in> {''security'', ''tlsSettings'', ''realitySettings'', ''sockopt''} \<Longrightarrow> oget (onNetworkChange bl n s) k = oget s k"
  using mkcp_keeps[of k] by (auto simp: onNetworkChange_def swap_keeps)

lemma kcp_with_tls:
  "oget s ''security'' = JStr ''tls'' \<Longrightarrow> oget (onNetworkChange bl ''kcp'' s) ''security'' = JStr ''tls''
   \<and> \<not> canEnableTls (stream_slice ''vless'' ''kcp'' ''tls'')"
  by (simp add: network_keeps_security NETWORKS_def canEnableTls_def stream_slice_def stream_network_def or_empty_def
      TLS_ELIGIBLE_PROTOCOLS_def TLS_NETWORKS_def)

section \<open>The mask of mKCP\<close>

definition udp_masks :: "jobj \<Rightarrow> js list" where
  "udp_masks s = (case oget (obj_of (oget s ''finalmask'')) ''udp'' of JArr us \<Rightarrow> us | _ \<Rightarrow> [])"

lemma obj_of_JObj [simp]: "obj_of (JObj o1) = o1"
  by (simp add: obj_of_def)

lemma masks_with: "udp_masks (with_mkcp s) = (if list_ex is_mkcp (udp_masks s) then udp_masks s else udp_masks s @ [mkcp_mask])"
  by (simp add: with_mkcp_def udp_masks_def Let_def)

lemma masks_without: "udp_masks (without_mkcp s) = filter (\<lambda>m. \<not> is_mkcp m) (udp_masks s)"
  by (simp add: without_mkcp_def udp_masks_def Let_def split: js.splits)

lemma mkcp_mask_is: "is_mkcp mkcp_mask"
  by (simp add: is_mkcp_def mkcp_mask_def)

lemma masks_before:
  "n \<in> set NETWORKS \<Longrightarrow> udp_masks (onNetworkChange bl n s) =
    (if n = ''kcp'' then (if list_ex is_mkcp (udp_masks s) then udp_masks s else udp_masks s @ [mkcp_mask])
     else filter (\<lambda>m. \<not> is_mkcp m) (udp_masks s))"
proof -
  assume "n \<in> set NETWORKS"
  then have "udp_masks (network_swap bl n s) = udp_masks s" by (simp add: udp_masks_def swap_keeps)
  then show ?thesis unfolding onNetworkChange_def using masks_with[of "network_swap bl n s"] masks_without[of "network_swap bl n s"]
    by (cases "n = ''kcp''") simp_all
qed

text \<open>
  After a change of the network the UDP masks hold the one of mKCP exactly when mKCP was chosen, and every
  other mask is as it was, in its order.
\<close>

theorem mkcp_mask_follows_network:
  assumes "n \<in> set NETWORKS"
  shows "(list_ex is_mkcp (udp_masks (onNetworkChange bl n s)) \<longleftrightarrow> n = ''kcp'')
    \<and> filter (\<lambda>m. \<not> is_mkcp m) (udp_masks (onNetworkChange bl n s)) = filter (\<lambda>m. \<not> is_mkcp m) (udp_masks s)"
  unfolding masks_before[OF assms] by (auto simp: mkcp_mask_is list_ex_iff)

theorem mkcp_mask_follows_network_witness:
  "list_ex is_mkcp (udp_masks (onNetworkChange sample_blanks ''kcp'' plain_stream))"
  using mkcp_mask_follows_network[of "''kcp''" sample_blanks plain_stream] by (simp add: NETWORKS_def)

section \<open>The derived tag\<close>

lemma composed_is_auto [simp]: "isAutoInboundTag (composeInboundTag i) i"
  by (simp add: isAutoInboundTag_def Let_def)

lemma initial_as_watched: "isAutoInboundTag tag (initial_input f) = isAutoInboundTag tag (currentTagInput (watched_of f))"
proof -
  have "stream_bits (Some (stream_of f)) = stream_bits (Some [(''network'', coalesce (oget (stream_of f) ''network'') (JStr []))])"
    by (cases "oget (stream_of f) ''network''") (simp_all add: stream_bits_def Inbound_Tag.asString_def)
  moreover have "settings_bits p (if_settings f) b = settings_bits p [(''network'', oget (if_settings f) ''network''),
      (''allowedNetwork'', oget (if_settings f) ''allowedNetwork''), (''udp'', coalesce (oget (if_settings f) ''udp'') (JBool False))] b" for p b
    by (cases "oget (if_settings f) ''udp''") (simp_all add: settings_bits_def Let_def)
  ultimately have "composeInboundTag (initial_input f) = composeInboundTag (currentTagInput (watched_of f))"
    by (simp add: composeInboundTag_def inboundTransports_def initial_input_def currentTagInput_def watched_of_def)
  then show ?thesis by (simp add: isAutoInboundTag_def Let_def)
qed

text \<open>What the effects write is not among what the tag is made of.\<close>

lemma input_ignores [simp]:
  "currentTagInput (watched_of (f\<lparr>if_tag := t\<rparr>)) = currentTagInput (watched_of f)"
  "currentTagInput (watched_of (f\<lparr>if_shareAddrStrategy := s\<rparr>)) = currentTagInput (watched_of f)"
  "nodeShareOptionAvailable nodes (watched_of (f\<lparr>if_tag := t\<rparr>)) = nodeShareOptionAvailable nodes (watched_of f)"
  "nodeShareOptionAvailable nodes (watched_of (f\<lparr>if_shareAddrStrategy := s\<rparr>)) = nodeShareOptionAvailable nodes (watched_of f)"
  "wt_tag (watched_of f) = if_tag f" "wt_share (watched_of f) = if_shareAddrStrategy f"
  by (simp_all add: currentTagInput_def watched_of_def stream_of_def nodeShareOptionAvailable_def)

lemma effects_keep [simp]:
  "dg_form (tag_effect w st) = dg_form st" "dg_written (tag_effect w st) = dg_written st"
  "dg_auto (share_effect nodes w st) = dg_auto st" "dg_written (share_effect nodes w st) = dg_written st"
  "if_tag (dg_form (share_effect nodes w st)) = if_tag (dg_form st)"
  "currentTagInput (watched_of (dg_form (share_effect nodes w st))) = currentTagInput (watched_of (dg_form st))"
  "dg_auto (compose_effect w st) = dg_auto st"
  "currentTagInput (watched_of (dg_form (compose_effect w st))) = currentTagInput (watched_of (dg_form st))"
  by (simp_all add: tag_effect_def share_effect_def compose_effect_def Let_def)

lemma tag_composed: "dg_auto st \<Longrightarrow> if_tag (dg_form (compose_effect w st)) = composeInboundTag (currentTagInput w)"
  by (simp add: compose_effect_def Let_def)

lemma tag_left: "\<not> dg_auto st \<Longrightarrow> compose_effect w st = st"
  by (simp add: compose_effect_def)

definition auto_ok :: "dialog \<Rightarrow> bool" where
  "auto_ok st \<longleftrightarrow> (dg_auto st \<longrightarrow> isAutoInboundTag (if_tag (dg_form st)) (currentTagInput (watched_of (dg_form st))))"

definition tag_step :: "watched \<Rightarrow> watched \<Rightarrow> dialog \<Rightarrow> dialog" where
  "tag_step w0 w st =
     (let st = (if wt_tag w \<noteq> wt_tag w0 then tag_effect w st else st)
      in if currentTagInput w \<noteq> currentTagInput w0 then compose_effect w st else st)"

lemma commit_tag: "commit nodes w0 w st =
    (let st = tag_step w0 w st in
     if nodeShareOptionAvailable nodes w \<noteq> nodeShareOptionAvailable nodes w0 \<or> wt_share w \<noteq> wt_share w0 then share_effect nodes w st else st)"
  by (simp add: commit_def tag_step_def Let_def)

lemma auto_ok_commit: "auto_ok (commit nodes w0 w st) = auto_ok (tag_step w0 w st)"
  by (simp add: commit_tag auto_ok_def Let_def)

lemma tag_step_ok:
  assumes w: "w = watched_of (dg_form st)"
    and ok: "currentTagInput w = currentTagInput w0 \<Longrightarrow> wt_tag w = wt_tag w0 \<or> wt_tag w = dg_written st \<Longrightarrow> auto_ok st"
  shows "auto_ok (tag_step w0 w st)"
proof (cases "currentTagInput w = currentTagInput w0")
  case True
  show ?thesis
  proof (cases "wt_tag w = wt_tag w0 \<or> wt_tag w = dg_written st")
    case True
    then show ?thesis using ok \<open>currentTagInput w = currentTagInput w0\<close> by (auto simp: tag_step_def tag_effect_def)
  next
    case False
    then show ?thesis using True by (simp add: tag_step_def tag_effect_def auto_ok_def w)
  qed
next
  case False
  let ?s = "if wt_tag w \<noteq> wt_tag w0 then tag_effect w st else st"
  have f: "dg_form ?s = dg_form st" by simp
  have "auto_ok (compose_effect w ?s)"
    by (cases "dg_auto ?s") (simp_all only: auto_ok_def effects_keep tag_composed f w composed_is_auto, simp_all)
  then show ?thesis using False by (simp add: tag_step_def)
qed

lemma written_or_tag: "dg_written (compose_effect w st) = if_tag (dg_form (compose_effect w st)) \<or> compose_effect w st = st"
  by (simp add: compose_effect_def Let_def)

lemma open_commit_tag:
  "auto_ok (open_dialog nodes w initial)"
proof -
  let ?s = "compose_effect w (tag_effect w (open_effect initial))"
  have o: "auto_ok (open_effect initial)" by (simp add: auto_ok_def open_effect_def initial_as_watched)
  have "auto_ok (tag_step w (watched_of (dg_form (open_commit nodes w initial))) (open_commit nodes w initial))"
  proof (rule tag_step_ok)
    assume i: "currentTagInput (watched_of (dg_form (open_commit nodes w initial))) = currentTagInput w"
      and "wt_tag (watched_of (dg_form (open_commit nodes w initial))) = wt_tag w
        \<or> wt_tag (watched_of (dg_form (open_commit nodes w initial))) = dg_written (open_commit nodes w initial)"
    show "auto_ok (open_commit nodes w initial)"
    proof (cases "dg_auto (tag_effect w (open_effect initial))")
      case True
      then have "if_tag (dg_form (open_commit nodes w initial)) = composeInboundTag (currentTagInput w)"
        by (simp add: open_commit_def tag_composed)
      then show ?thesis using i by (simp add: auto_ok_def)
    next
      case False
      then show ?thesis by (simp add: auto_ok_def open_commit_def)
    qed
  qed simp
  then show ?thesis by (simp add: open_dialog_def settle_def auto_ok_commit)
qed

text \<open>
  The dialog opened, whatever its first render watched, and then any edits, in which the tag is not typed
  back to the one the effects wrote last.
\<close>

inductive dialog_reach :: "bool \<Rightarrow> dialog \<Rightarrow> bool" for nodes :: bool where
  Opened: "dialog_reach nodes (open_dialog nodes w initial)"
| Edited: "dialog_reach nodes st \<Longrightarrow> if_tag f = if_tag (dg_form st) \<or> if_tag f \<noteq> dg_written st \<Longrightarrow> dialog_reach nodes (edit_form nodes f st)"

text \<open>
  C10
  In the dialog opened and edited in any way, except that the tag the effects wrote last is never typed back
  in place of another one, a tag the dialog takes for a derived one is derived from the port, node, protocol
  and transports the form has; a tag it takes for a custom one stays through every edit of other fields.
\<close>

theorem derived_tag_kept:
  assumes "dialog_reach nodes st"
  shows "(dg_auto st \<longrightarrow> isAutoInboundTag (if_tag (dg_form st)) (currentTagInput (watched_of (dg_form st))))
    \<and> (\<not> dg_auto st \<longrightarrow> if_tag f = if_tag (dg_form st) \<longrightarrow>
         if_tag (dg_form (edit_form nodes f st)) = if_tag f \<and> \<not> dg_auto (edit_form nodes f st))"
proof -
  have "auto_ok st"
    using assms
  proof induction
    case (Edited st f)
    have "auto_ok (tag_step (watched_of (dg_form st)) (watched_of f) (st\<lparr>dg_form := f\<rparr>))"
      by (rule tag_step_ok) (use Edited in \<open>auto simp: auto_ok_def\<close>)
    then show ?case by (simp add: edit_form_def settle_def auto_ok_commit)
  qed (rule open_commit_tag)
  moreover have "if_tag (dg_form (edit_form nodes f st)) = if_tag f \<and> \<not> dg_auto (edit_form nodes f st)"
    if "\<not> dg_auto st" "if_tag f = if_tag (dg_form st)"
    using that by (simp add: edit_form_def settle_def commit_tag tag_step_def Let_def tag_left)
  ultimately show ?thesis by (simp add: auto_ok_def)
qed

text \<open>One render runs all there is to run: the next one finds nothing changed that an effect would act on.\<close>

lemma effects_end:
  assumes "w = watched_of (dg_form st)" and "st' = commit nodes w0 w st"
  shows "commit nodes w (watched_of (dg_form st')) st' = st'"
proof -
  let ?t = "tag_step w0 w st"
  have t: "currentTagInput (watched_of (dg_form ?t)) = currentTagInput w"
    "nodeShareOptionAvailable nodes (watched_of (dg_form ?t)) = nodeShareOptionAvailable nodes w"
    "if_shareAddrStrategy (dg_form ?t) = wt_share w"
    by (simp_all add: tag_step_def compose_effect_def assms(1) Let_def)
  have same: "currentTagInput (watched_of (dg_form st')) = currentTagInput w"
    "nodeShareOptionAvailable nodes (watched_of (dg_form st')) = nodeShareOptionAvailable nodes w"
    unfolding assms(2) commit_tag Let_def by (simp_all add: t share_effect_def)
  have tag: "if_tag (dg_form st') = wt_tag w \<or> if_tag (dg_form st') = dg_written st'"
    unfolding assms(2) commit_tag Let_def by (auto simp: tag_step_def compose_effect_def assms(1) Let_def)
  have share: "if_shareAddrStrategy (dg_form st') = wt_share w \<or> if_shareAddrStrategy (dg_form st') = ''listen''"
    unfolding assms(2) commit_tag Let_def by (auto simp: t share_effect_def)
  have "tag_step w (watched_of (dg_form st')) st' = st'"
    using same(1) tag by (auto simp: tag_step_def tag_effect_def)
  then show ?thesis using same(2) share by (auto simp: commit_tag share_effect_def Let_def)
qed

text \<open>
  The first render has been told no field yet. It takes the empty tag it sees for a derived one, and no
  protocol for one a node can run: a custom tag is replaced, and the strategy \<open>node\<close> as well.
\<close>

lemma empty_tag_auto [simp]: "isAutoInboundTag [] i"
  by (simp add: isAutoInboundTag_def)

lemma opening_replaces_tag:
  assumes "if_tag initial \<noteq> []"
  shows "if_tag (dg_form (open_dialog nodes blank_watch initial)) = composeInboundTag (currentTagInput (watched_of initial))"
proof -
  let ?o = "tag_effect blank_watch (open_effect initial)"
  have o: "dg_auto ?o" using assms by (simp add: tag_effect_def open_effect_def blank_watch_def)
  let ?s = "open_commit nodes blank_watch initial"
  have s: "dg_auto ?s" "if_tag (dg_form ?s) = composeInboundTag (currentTagInput blank_watch)"
    "currentTagInput (watched_of (dg_form ?s)) = currentTagInput (watched_of initial)"
    using o by (simp_all add: open_commit_def tag_composed open_effect_def)
  have w: "if_tag (dg_form ?s) = dg_written ?s"
    using o written_or_tag[of blank_watch ?o] by (auto simp: open_commit_def tag_effect_def open_effect_def split: if_splits)
  show ?thesis
    using s w by (simp add: open_dialog_def settle_def commit_tag tag_step_def tag_effect_def tag_composed Let_def)
qed

lemma share_kept:
  "if_shareAddrStrategy (dg_form (compose_effect w st)) = if_shareAddrStrategy (dg_form st)"
  "if_shareAddrStrategy (dg_form (tag_step w0 w st)) = if_shareAddrStrategy (dg_form st)"
  by (simp_all add: compose_effect_def tag_step_def Let_def)

lemma share_listen: "if_shareAddrStrategy (dg_form st) = ''listen'' \<Longrightarrow> if_shareAddrStrategy (dg_form (commit nodes w0 w st)) = ''listen''"
  by (simp add: commit_tag share_effect_def share_kept Let_def)

lemma opening_replaces_node:
  assumes "if_shareAddrStrategy initial = ''node''"
  shows "if_shareAddrStrategy (dg_form (open_dialog nodes blank_watch initial)) = ''listen''"
proof -
  have "\<not> nodeShareOptionAvailable nodes blank_watch"
    by (simp add: nodeShareOptionAvailable_def blank_watch_def NODE_ELIGIBLE_PROTOCOLS_def)
  then have "if_shareAddrStrategy (dg_form (open_commit nodes blank_watch initial)) = ''listen''"
    by (simp add: open_commit_def share_effect_def share_kept assms open_effect_def)
  then show ?thesis unfolding open_dialog_def settle_def by (rule share_listen)
qed

definition sample_form :: inbound_form where
  "sample_form = \<lparr>if_remark = [], if_enable = True, if_port = 443, if_listen = [], if_tag = ''mine'', if_expiryTime = 0,
     if_sniffing = [], if_streamSettings = Some plain_stream, if_up = 0, if_down = 0, if_total = 0, if_trafficReset = ''never'',
     if_lastTrafficResetTime = 0, if_nodeId = None, if_shareAddrStrategy = ''listen'', if_shareAddr = [], if_subSortIndex = 1,
     if_protocol = ''vless'', if_settings = []\<rparr>"

theorem derived_tag_kept_witness:
  "if_tag (dg_form (edit_form True (sample_form\<lparr>if_port := 8443\<rparr>) (open_dialog True (watched_of sample_form) sample_form))) = ''mine''"
proof -
  let ?st = "open_dialog True (watched_of sample_form) sample_form"
  have "\<not> dg_auto ?st" "if_tag (dg_form ?st) = ''mine''" by code_simp+
  moreover have "if_tag (sample_form\<lparr>if_port := 8443\<rparr>) = ''mine''" by (simp add: sample_form_def)
  ultimately show ?thesis
    using derived_tag_kept[OF dialog_reach.Opened[of True "watched_of sample_form" sample_form], of "sample_form\<lparr>if_port := 8443\<rparr>"] by simp
qed

text \<open>
  The exception is real. The port of a form with a custom tag is changed, the new derived tag typed, and then
  the derived tag the dialog once wrote for the old port: the effect returns early on a tag that it wrote, so
  that the tag still counts as derived, although it is one of another port.
\<close>

definition tagged :: "string \<Rightarrow> int \<Rightarrow> inbound_form" where
  "tagged tag port = sample_form\<lparr>if_tag := tag, if_port := port\<rparr>"

definition retyped :: dialog where
  "retyped =
     (let st = open_dialog True (watched_of (tagged ''in-443-tcp'' 443)) (tagged ''in-443-tcp'' 443);
          st = edit_form True (tagged ''mine'' 443) st;
          st = edit_form True (tagged ''mine'' 80) st;
          st = edit_form True (tagged ''in-80-tcp'' 80) st
      in edit_form True (tagged ''in-443-tcp'' 80) st)"

lemma tagged_input:
  "currentTagInput (watched_of (tagged t p)) = (currentTagInput (watched_of sample_form))\<lparr>ti_port := Some p\<rparr>"
  "nodeShareOptionAvailable True (watched_of (tagged t p)) = nodeShareOptionAvailable True (watched_of sample_form)"
  "wt_share (watched_of (tagged t p)) = ''listen''" "wt_tag (watched_of (tagged t p)) = t"
  "if_tag (tagged t p) = t" "if_port (tagged t p) = p" "if_shareAddrStrategy (tagged t p) = ''listen''"
  by (simp_all add: tagged_def sample_form_def currentTagInput_def watched_of_def nodeShareOptionAvailable_def stream_of_def)

lemma edit_tagged:
  "edit_form True (tagged t p) \<lparr>dg_form = tagged t0 p, dg_auto = a, dg_written = w\<rparr> =
     \<lparr>dg_form = tagged t p,
      dg_auto = (if t = t0 \<or> t = w then a else isAutoInboundTag t (currentTagInput (watched_of (tagged t p)))),
      dg_written = w\<rparr>"
  "edit_form True (tagged t q) \<lparr>dg_form = tagged t p, dg_auto = False, dg_written = w\<rparr> =
     \<lparr>dg_form = tagged t q, dg_auto = False, dg_written = w\<rparr>"
  by (simp_all add: edit_form_def settle_def commit_def tag_effect_def compose_effect_def tagged_input Let_def)

lemma retyped_tag_counts_as_derived:
  "if_tag (dg_form retyped) = ''in-443-tcp'' \<and> if_port (dg_form retyped) = 80 \<and> dg_auto retyped
   \<and> \<not> isAutoInboundTag (if_tag (dg_form retyped)) (currentTagInput (watched_of (dg_form retyped)))"
proof -
  have i: "currentTagInput (watched_of (tagged t p)) = \<lparr>ti_port = Some p, ti_node = None, ti_protocol = ''vless'',
     ti_stream = Some [(''network'', JStr ''tcp'')],
     ti_settings = Some [(''network'', JUndef), (''allowedNetwork'', JUndef), (''udp'', JBool False)]\<rparr>" for t p
    by (simp add: tagged_def sample_form_def currentTagInput_def watched_of_def stream_of_def plain_stream_def)
  have c: "composeInboundTag (currentTagInput (watched_of (tagged t 443))) = ''in-443-tcp''"
    "composeInboundTag (currentTagInput (watched_of (tagged t 80))) = ''in-80-tcp''" for t
    unfolding i by code_simp+
  have t: "isAutoInboundTag ''in-443-tcp'' (currentTagInput (watched_of (tagged t 443)))"
    "\<not> isAutoInboundTag ''mine'' (currentTagInput (watched_of (tagged t 443)))"
    "isAutoInboundTag ''in-80-tcp'' (currentTagInput (watched_of (tagged t 80)))"
    "\<not> isAutoInboundTag ''in-443-tcp'' (currentTagInput (watched_of (tagged t 80)))" for t
    by (simp_all add: isAutoInboundTag_def c)
  have o: "open_dialog True (watched_of (tagged ''in-443-tcp'' 443)) (tagged ''in-443-tcp'' 443)
    = \<lparr>dg_form = tagged ''in-443-tcp'' 443, dg_auto = True, dg_written = ''in-443-tcp''\<rparr>"
    by code_simp
  have r: "retyped = \<lparr>dg_form = tagged ''in-443-tcp'' 80, dg_auto = True, dg_written = ''in-443-tcp''\<rparr>"
    unfolding retyped_def Let_def o by (simp add: edit_tagged t)
  show ?thesis unfolding r by (simp add: tagged_input(4-6) t)
qed

section \<open>The JSON editor\<close>

lemma slice_clean: "json_clean (JObj [(key, v)]) \<longleftrightarrow> json_clean v"
  by (simp add: owf_def okeys_def key_ordered_def)

lemma coalesce_twice: "coalesce (coalesce v (JObj [])) (JObj []) = coalesce v (JObj [])"
  by (cases v) simp_all

lemma slice_text_coalesce: "slice_text key (coalesce v (JObj [])) = slice_text key v"
  by (simp add: slice_text_def coalesce_twice)

lemma slice_parses:
  "json_clean (coalesce v (JObj [])) \<Longrightarrow> json_parse (slice_text key v) = Some (JObj [(key, coalesce v (JObj []))])"
  unfolding slice_text_def by (rule json_parse_stringify2) (simp only: slice_clean)

text \<open>What the editor shows reads back as the part, unless it does not parse yet.\<close>

definition slice_ok :: "string \<Rightarrow> slice_editor \<Rightarrow> bool" where
  "slice_ok key st \<longleftrightarrow> se_last st = slice_text key (se_value st)
     \<and> (\<forall>parsed. json_parse (se_text st) = Some parsed \<longrightarrow> slice_text key (slice_unwrap key parsed) = slice_text key (se_value st))"

lemma slice_taken_over:
  "json_clean (coalesce v (JObj [])) \<Longrightarrow> slice_ok key \<lparr>se_text = slice_text key v, se_last = slice_text key v, se_value = v\<rparr>"
  by (simp add: slice_ok_def slice_parses slice_unwrap_def coalesce_twice slice_text_coalesce)

lemma slice_sync_ok:
  assumes "se_last st = slice_text key (se_value st) \<Longrightarrow> slice_ok key st" and "se_last st \<noteq> slice_text key (se_value st) \<Longrightarrow> json_clean (coalesce (se_value st) (JObj []))"
  shows "slice_ok key (slice_sync key st)"
proof (cases "slice_text key (se_value st) = se_last st")
  case True
  then show ?thesis using assms(1) by (simp add: slice_sync_def)
next
  case False
  then have "slice_sync key st = \<lparr>se_text = slice_text key (se_value st), se_last = slice_text key (se_value st), se_value = se_value st\<rparr>"
    by (simp add: slice_sync_def Let_def)
  then show ?thesis using slice_taken_over[OF assms(2)] False by simp
qed

lemma slice_step_ok:
  assumes "slice_ok key st" and "\<And>v. ev = Form_Set v \<Longrightarrow> json_clean (coalesce v (JObj []))"
  shows "slice_ok key (slice_step key ev st)"
proof (cases ev)
  case (Form_Set v)
  have "slice_ok key (slice_sync key (st\<lparr>se_value := v\<rparr>))"
    by (rule slice_sync_ok) (use assms Form_Set in \<open>auto simp: slice_ok_def\<close>)
  then show ?thesis by (simp add: Form_Set)
next
  case (Typed s)
  show ?thesis
  proof (cases "json_parse s")
    case None
    then have "slice_step key ev st = st\<lparr>se_text := s\<rparr>"
      using assms(1) by (simp add: Typed slice_type_def slice_sync_def slice_ok_def Let_def)
    then show ?thesis using assms(1) None by (simp add: slice_ok_def)
  next
    case (Some parsed)
    let ?v = "slice_unwrap key parsed"
    have "slice_ok key (slice_sync key (slice_type key s st))"
    proof (rule slice_sync_ok)
      assume "se_last (slice_type key s st) = slice_text key (se_value (slice_type key s st))"
      then show "slice_ok key (slice_type key s st)" using Some by (simp add: slice_ok_def slice_type_def Let_def)
    next
      assume "se_last (slice_type key s st) \<noteq> slice_text key (se_value (slice_type key s st))"
      then have "?v = JNull \<or> ?v = JUndef" using Some by (cases ?v) (auto simp: slice_type_def slice_text_def Let_def)
      then show "json_clean (coalesce (se_value (slice_type key s st)) (JObj []))"
        using Some by (auto simp: slice_type_def Let_def owf_def okeys_def key_ordered_def)
    qed
    then show ?thesis by (simp add: Typed)
  qed
qed

text \<open>
  C11
  Whatever is typed into the JSON editor of a part and whatever the rest of the form does to the part, the
  text shown, if it parses, is a text of the part as the form has it; only a text that does not parse is kept
  beside the form.
\<close>

theorem editor_shows_form:
  assumes "json_clean (coalesce v (JObj []))" and "\<And>u. Form_Set u \<in> set evs \<Longrightarrow> json_clean (coalesce u (JObj []))"
    and "json_parse (se_text (fold (slice_step key) evs (slice_open key v))) = Some parsed"
  shows "slice_text key (slice_unwrap key parsed) = slice_text key (se_value (fold (slice_step key) evs (slice_open key v)))"
proof -
  have "slice_ok key (fold (slice_step key) evs st)" if "slice_ok key st" "\<And>u. Form_Set u \<in> set evs \<Longrightarrow> json_clean (coalesce u (JObj []))" for st
    using that
  proof (induction evs arbitrary: st)
    case (Cons ev evs)
    then show ?case using slice_step_ok[of key st ev] by simp
  qed simp
  moreover have "slice_ok key (slice_open key v)" unfolding slice_open_def by (rule slice_taken_over[OF assms(1)])
  ultimately have "slice_ok key (fold (slice_step key) evs (slice_open key v))" using assms(2) by blast
  then show ?thesis using assms(3) by (simp add: slice_ok_def)
qed

theorem editor_shows_form_witness:
  "slice_text ''settings'' (JObj [(''a'', JNum (Fin 1))])
   = slice_text ''settings'' (se_value (fold (slice_step ''settings'') [Form_Set (JObj []), Typed ''{'', Typed (json_stringify (JObj [(''settings'', JObj [(''a'', JNum (Fin 1))])]))]
       (slice_open ''settings'' JUndef)))"
proof -
  let ?evs = "[Form_Set (JObj []), Typed ''{'', Typed (json_stringify (JObj [(''settings'', JObj [(''a'', JNum (Fin 1))])]))]"
  have c: "json_clean (coalesce JUndef (JObj []))" "\<And>u. Form_Set u \<in> set ?evs \<Longrightarrow> json_clean (coalesce u (JObj []))"
    by (auto simp: owf_def okeys_def key_ordered_def)
  have p: "json_parse (se_text (fold (slice_step ''settings'') ?evs (slice_open ''settings'' JUndef)))
      = Some (JObj [(''settings'', JObj [(''a'', JNum (Fin 1))])])" by code_simp
  show ?thesis using editor_shows_form[OF c p] by (simp add: slice_unwrap_def)
qed

section \<open>VLESS encryption\<close>

record vless_auth =
  va_id :: "string option"
  va_label :: "string option"
  va_decryption :: string
  va_encryption :: string

definition matchesVlessAuth :: "vless_auth \<Rightarrow> string \<Rightarrow> bool" where
  "matchesVlessAuth block authId \<longleftrightarrow>
     (if va_id block = Some authId then True
      else let label = filter (\<lambda>c. c \<notin> set ''-_'' \<and> c \<notin> set ascii_ws) (to_lower (or_empty (va_label block))) in
        (authId = ''mlkem768'' \<and> includes_str label ''mlkem768'') \<or> (authId = ''x25519'' \<and> includes_str label ''x25519''))"

definition vless_keys :: "string \<Rightarrow> string \<Rightarrow> jobj \<Rightarrow> jobj" where
  "vless_keys decryption encryption settings = oput ''encryption'' (JStr encryption) (oput ''decryption'' (JStr decryption) settings)"

definition getNewVlessEnc :: "string \<Rightarrow> vless_auth list option \<Rightarrow> jobj \<Rightarrow> jobj" where
  "getNewVlessEnc authId answer settings =
     (if authId = [] then settings
      else case answer of
        None \<Rightarrow> settings
      | Some auths \<Rightarrow>
          (case find (\<lambda>a. matchesVlessAuth a authId) auths of
             None \<Rightarrow> settings
           | Some block \<Rightarrow> vless_keys (va_decryption block) (va_encryption block) settings))"

definition clearVlessEnc :: "jobj \<Rightarrow> jobj" where
  "clearVlessEnc settings = vless_keys ''none'' ''none'' settings"

datatype vless_shown = Auth_None | Auth_Custom | Auth_Mlkem | Auth_X25519

definition selectedVlessAuth :: "js \<Rightarrow> vless_shown" where
  "selectedVlessAuth encryption =
     (let enc = (case encryption of JStr s \<Rightarrow> s | _ \<Rightarrow> []) in
      if enc = [] \<or> enc = ''none'' then Auth_None
      else let parts = filter (\<lambda>p. p \<noteq> []) (split_char CHR ''.'' enc) in
        if parts = [] then Auth_Custom else if length (last parts) > 300 then Auth_Mlkem else Auth_X25519)"

section \<open>Submitting\<close>

datatype inbound_request = Post_Inbound string wire_payload | Save_Fallbacks int

text \<open>
  \<open>parse\<close> is the schema, \<open>payload\<close> the writer of the wire form (the form adapter), and the answer of the server
  carries the id of a new inbound under one of two names.
\<close>

definition submit :: "(inbound_form \<Rightarrow> inbound_form option) \<Rightarrow> (inbound_form \<Rightarrow> wire_payload) \<Rightarrow> int option \<Rightarrow> inbound_form
    \<Rightarrow> (int option \<times> int option) option \<Rightarrow> inbound_request list" where
  "submit parse payload dbId f answer =
     (case parse f of
        None \<Rightarrow> []
      | Some data \<Rightarrow>
          (let url = (case dbId of Some i \<Rightarrow> ''/panel/api/inbounds/update/'' @ int_str i | None \<Rightarrow> ''/panel/api/inbounds/add'');
               masterId = (case dbId of Some i \<Rightarrow> i
                 | None \<Rightarrow> (case answer of Some (Some i, _) \<Rightarrow> i | Some (None, Some i) \<Rightarrow> i | _ \<Rightarrow> 0))
           in Post_Inbound url (payload data)
              # (if answer \<noteq> None \<and> isFallbackHost f \<and> masterId \<noteq> 0 then [Save_Fallbacks masterId] else [])))"

text \<open>The fallbacks are saved after the inbound, once it is stored, and for the inbound that was stored.\<close>

lemma fallbacks_after_inbound:
  assumes "Save_Fallbacks m \<in> set (submit parse payload dbId f answer)"
  shows "\<exists>url p. submit parse payload dbId f answer = [Post_Inbound url p, Save_Fallbacks m] \<and> answer \<noteq> None \<and> isFallbackHost f
    \<and> (\<forall>i. dbId = Some i \<longrightarrow> m = i)"
  using assms by (cases "parse f") (auto simp: submit_def Let_def split: option.splits if_splits)

end
