(* ===== verification/Hosts.thy ===== *)
theory Hosts
  imports Json Share_Model Inbound_Adapter "HOL-Library.Multiset" "HOL-Library.Product_Lexorder"
begin

text \<open>
  Hosts: the addresses an inbound is offered under (\<open>pages/hosts\<close>, \<open>schemas/api/host.ts\<close>). The list and the
  order of the hosts of an inbound, the form of a host and what an edit stores, the JSON overrides
  (\<open>json-forms/helpers.ts\<close>), and the link entry a host makes (\<open>lib/hosts/host-link.ts\<close>) beside the server's
  (\<open>internal/web/service/host.go\<close>, \<open>internal/sub/host_sub.go\<close>). A list the server sends as null is an empty one.
\<close>

section \<open>A host\<close>

record host_row =
  hr_id :: int
  hr_inboundId :: int
  hr_sortOrder :: int
  hr_remark :: string
  hr_serverDescription :: string
  hr_isDisabled :: bool
  hr_isHidden :: bool
  hr_tags :: "string list"
  hr_address :: string
  hr_port :: int
  hr_security :: string
  hr_sni :: string
  hr_hostHeader :: string
  hr_path :: string
  hr_alpn :: "string list"
  hr_fingerprint :: string
  hr_overrideSni :: bool
  hr_keepSniBlank :: bool
  hr_pins :: "string list"
  hr_verifyByName :: bool
  hr_allowInsecure :: bool
  hr_ech :: string
  hr_mux :: string
  hr_sockopt :: string
  hr_finalMask :: string
  hr_vlessRoute :: string
  hr_exclude :: "string list"
  hr_nodeGuids :: "string list"
  hr_mihomoIp :: string
  hr_mihomoX25519 :: bool
  hr_shuffle :: bool

section \<open>Order\<close>

definition inboundHostsInOrder :: "host_row list \<Rightarrow> int \<Rightarrow> host_row list" where
  "inboundHostsInOrder hosts inboundId =
     sort_key (\<lambda>h. (hr_sortOrder h, hr_id h)) (filter (\<lambda>h. hr_inboundId h = inboundId) hosts)"

definition sortHosts :: "host_row list \<Rightarrow> host_row list" where
  "sortHosts hosts = sort_key (\<lambda>h. (hr_inboundId h, hr_sortOrder h, hr_id h)) hosts"

fun position :: "int list \<Rightarrow> int \<Rightarrow> nat option" where
  "position [] x = None"
| "position (y # ys) x = (if y = x then Some 0 else map_option Suc (position ys x))"

definition swap_two :: "nat \<Rightarrow> nat \<Rightarrow> 'a list \<Rightarrow> 'a list" where
  "swap_two i j xs = xs[i := xs ! j, j := xs ! i]"

text \<open>The ids of the request that moves a host up or down, none when it is the first or the last.\<close>

definition onMove :: "host_row list \<Rightarrow> host_row \<Rightarrow> bool \<Rightarrow> int list option" where
  "onMove hosts host up =
     (let ids = map hr_id (inboundHostsInOrder hosts (hr_inboundId host)) in
      case position ids (hr_id host) of
        None \<Rightarrow> None
      | Some idx \<Rightarrow>
          if up then (if idx = 0 then None else Some (swap_two idx (idx - 1) ids))
          else (if Suc idx \<ge> length ids then None else Some (swap_two idx (Suc idx) ids)))"

text \<open>The server numbers the given hosts one after the other.\<close>

fun reorder_from :: "int \<Rightarrow> int list \<Rightarrow> host_row list \<Rightarrow> host_row list" where
  "reorder_from n [] hosts = hosts"
| "reorder_from n (i # ids) hosts =
     reorder_from (n + 1) ids (map (\<lambda>h. if hr_id h = i then h\<lparr>hr_sortOrder := n\<rparr> else h) hosts)"

definition ReorderHosts :: "int list \<Rightarrow> host_row list \<Rightarrow> host_row list" where
  "ReorderHosts ids hosts = reorder_from 0 ids hosts"

section \<open>Other requests\<close>

definition SetHostsEnable :: "int list \<Rightarrow> bool \<Rightarrow> host_row list \<Rightarrow> host_row list" where
  "SetHostsEnable ids enable hosts = map (\<lambda>h. if hr_id h \<in> set ids then h\<lparr>hr_isDisabled := \<not> enable\<rparr> else h) hosts"

definition DeleteHosts :: "int list \<Rightarrow> host_row list \<Rightarrow> host_row list" where
  "DeleteHosts ids hosts = filter (\<lambda>h. hr_id h \<notin> set ids) hosts"

definition host_summary :: "host_row list \<Rightarrow> nat \<times> nat \<times> nat" where
  "host_summary hosts =
     (let total = length hosts; enabled = length (filter (\<lambda>h. \<not> hr_isDisabled h) hosts) in (total, enabled, total - enabled))"

section \<open>The form\<close>

text \<open>
  The values of the form are those of the host with the enable switch the other way round; only the fields
  that are shown are sent, and a field that is not sent is its zero value to the server. The inner editors of
  the overrides report the text of their field.
\<close>

record host_form = host_row +
  hf_enable :: bool

definition defaultsFor :: "host_row option \<Rightarrow> host_form" where
  "defaultsFor host =
     (let h = (case host of Some h \<Rightarrow> h | None \<Rightarrow> \<lparr>hr_id = 0, hr_inboundId = 0, hr_sortOrder = 0, hr_remark = [],
        hr_serverDescription = [], hr_isDisabled = False, hr_isHidden = False, hr_tags = [], hr_address = [], hr_port = 0,
        hr_security = ''same'', hr_sni = [], hr_hostHeader = [], hr_path = [], hr_alpn = [], hr_fingerprint = [], hr_overrideSni = False,
        hr_keepSniBlank = False, hr_pins = [], hr_verifyByName = False, hr_allowInsecure = False, hr_ech = [], hr_mux = [],
        hr_sockopt = [], hr_finalMask = [], hr_vlessRoute = [], hr_exclude = [], hr_nodeGuids = [], hr_mihomoIp = [],
        hr_mihomoX25519 = False, hr_shuffle = False\<rparr>)
      in host_row.extend h \<lparr>hf_enable = \<not> hr_isDisabled h\<rparr>)"

definition host_payload :: "host_form \<Rightarrow> host_row" where
  "host_payload f =
     (let showTls = hr_security f \<in> {''tls'', ''reality''}; showTlsExtras = (hr_security f = ''tls'') in
      \<lparr>hr_id = 0, hr_inboundId = hr_inboundId f, hr_sortOrder = 0, hr_remark = hr_remark f,
       hr_serverDescription = hr_serverDescription f, hr_isDisabled = (\<not> hf_enable f), hr_isHidden = False, hr_tags = hr_tags f,
       hr_address = hr_address f, hr_port = hr_port f, hr_security = hr_security f,
       hr_sni = (if showTls then hr_sni f else []), hr_hostHeader = hr_hostHeader f, hr_path = hr_path f,
       hr_alpn = (if showTlsExtras then hr_alpn f else []), hr_fingerprint = (if showTls then hr_fingerprint f else []),
       hr_overrideSni = (showTls \<and> hr_overrideSni f), hr_keepSniBlank = (showTls \<and> hr_keepSniBlank f),
       hr_pins = (if showTlsExtras then hr_pins f else []), hr_verifyByName = (showTlsExtras \<and> hr_verifyByName f),
       hr_allowInsecure = (showTlsExtras \<and> hr_allowInsecure f), hr_ech = (if showTlsExtras then hr_ech f else []),
       hr_mux = hr_mux f, hr_sockopt = hr_sockopt f, hr_finalMask = hr_finalMask f, hr_vlessRoute = hr_vlessRoute f,
       hr_exclude = hr_exclude f, hr_nodeGuids = hr_nodeGuids f, hr_mihomoIp = hr_mihomoIp f,
       hr_mihomoX25519 = hr_mihomoX25519 f, hr_shuffle = hr_shuffle f\<rparr>)"

definition UpdateHost :: "int \<Rightarrow> host_row \<Rightarrow> host_row list \<Rightarrow> host_row list option" where
  "UpdateHost i new hosts =
     (case find (\<lambda>h. hr_id h = i) hosts of
        None \<Rightarrow> None
      | Some old \<Rightarrow>
          (let saved = new\<lparr>hr_id := i, hr_inboundId := hr_inboundId old, hr_sortOrder := hr_sortOrder old\<rparr>
           in Some (map (\<lambda>h. if hr_id h = i then saved else h) hosts)))"

definition AddHost :: "int list \<Rightarrow> int \<Rightarrow> host_row \<Rightarrow> host_row list \<Rightarrow> host_row list option" where
  "AddHost inbounds fresh new hosts =
     (if hr_inboundId new \<notin> set inbounds then None else Some (hosts @ [new\<lparr>hr_id := fresh\<rparr>]))"

definition onSaveHost :: "int list \<Rightarrow> int \<Rightarrow> host_row option \<Rightarrow> host_form \<Rightarrow> host_row list \<Rightarrow> host_row list option" where
  "onSaveHost inbounds fresh formHost f hosts =
     (case formHost of
        Some h \<Rightarrow> if hr_id h \<noteq> 0 then UpdateHost (hr_id h) (host_payload f) hosts else AddHost inbounds fresh (host_payload f) hosts
      | None \<Rightarrow> AddHost inbounds fresh (host_payload f) hosts)"

section \<open>Overrides\<close>

definition parseJsonObject :: "string \<Rightarrow> jobj" where
  "parseJsonObject raw = (if raw = [] then [] else case json_parse raw of Some (JObj o1) \<Rightarrow> o1 | _ \<Rightarrow> [])"

fun pruneEmptyDeep :: "js \<Rightarrow> js"
  and prune_fields :: "jobj \<Rightarrow> jobj \<Rightarrow> jobj"
where
  "pruneEmptyDeep (JArr xs) = (let arr = filter (\<lambda>v. v \<noteq> JUndef) (map pruneEmptyDeep xs) in if arr \<noteq> [] then JArr arr else JUndef)"
| "pruneEmptyDeep (JObj o1) = (let out = prune_fields o1 [] in if out \<noteq> [] then JObj out else JUndef)"
| "pruneEmptyDeep JUndef = JUndef"
| "pruneEmptyDeep JNull = JUndef"
| "pruneEmptyDeep (JBool b) = JBool b"
| "pruneEmptyDeep (JNum n) = JNum n"
| "pruneEmptyDeep (JStr s) = (if s = [] then JUndef else JStr s)"
| "prune_fields [] out = out"
| "prune_fields (p # o1) out =
     prune_fields o1 (if pruneEmptyDeep (snd p) = JUndef then out else oset (fst p) (pruneEmptyDeep (snd p)) out)"

definition serializeOverride :: "js \<Rightarrow> string" where
  "serializeOverride value = (let pruned = pruneEmptyDeep value in if pruned = JUndef then [] else json_stringify pruned)"

fun nestAtPath :: "string list \<Rightarrow> js \<Rightarrow> js" where
  "nestAtPath [] leaf = leaf"
| "nestAtPath (k # ks) leaf = JObj [(k, nestAtPath ks leaf)]"

definition DEFAULT_MUX :: jobj where
  "DEFAULT_MUX = [(''enabled'', JBool False), (''concurrency'', JNum (Fin 8)), (''xudpConcurrency'', JNum (Fin 16)),
     (''xudpProxyUDP443'', JStr ''reject'')]"

definition mux_override :: "js \<Rightarrow> string" where
  "mux_override mux = (if truthy (jget mux ''enabled'') then serializeOverride mux else [])"

definition inner_initial :: "jobj \<Rightarrow> string \<Rightarrow> jobj" where
  "inner_initial defaults value = (let parsed = parseJsonObject value in if parsed \<noteq> [] then parsed else defaults)"

section \<open>The link entry\<close>

definition text_or_none :: "string \<Rightarrow> string option" where
  "text_or_none s = (if s = [] then None else Some s)"

definition list_or_none :: "'a list \<Rightarrow> 'a list option" where
  "list_or_none xs = (if xs = [] then None else Some xs)"

definition hostToExternalProxyEntry :: "host_row \<Rightarrow> external_proxy" where
  "hostToExternalProxyEntry h =
     \<lparr>ep_forceTls = (if hr_security h = ''tls'' then Force_Tls else if hr_security h = ''none'' then Force_None else Same),
      ep_dest = hr_address h, ep_port = (if hr_port h > 0 then hr_port h else 443), ep_remark = hr_remark h,
      ep_sni = (if hr_keepSniBlank h then None
                else if hr_overrideSni h then text_or_none (hr_address h) else text_or_none (hr_sni h)),
      ep_fingerprint = text_or_none (hr_fingerprint h), ep_alpn = list_or_none (hr_alpn h),
      ep_pinnedPeerCertSha256 = list_or_none (hr_pins h), ep_echConfigList = text_or_none (hr_ech h)\<rparr>"

text \<open>The server's entry, as far as the two share it; texts of a list that are empty are dropped.\<close>

definition hostToExternalProxyMap :: "string \<Rightarrow> int \<Rightarrow> host_row \<Rightarrow> external_proxy" where
  "hostToExternalProxyMap defaultDest defaultPort h =
     (let dest = (if hr_address h = [] then defaultDest else hr_address h);
          port = (if hr_port h = 0 then defaultPort else hr_port h);
          sni = (if hr_overrideSni h then dest else hr_sni h)
      in \<lparr>ep_forceTls = (if hr_security h = ''tls'' then Force_Tls else if hr_security h = ''none'' then Force_None else Same),
          ep_dest = dest, ep_port = port, ep_remark = hr_remark h,
          ep_sni = (if \<not> hr_keepSniBlank h \<and> sni \<noteq> [] then Some sni else None),
          ep_fingerprint = text_or_none (hr_fingerprint h),
          ep_alpn = (if hr_alpn h \<noteq> [] then Some (filter (\<lambda>s. s \<noteq> []) (hr_alpn h)) else None),
          ep_pinnedPeerCertSha256 = (if hr_pins h \<noteq> [] then Some (filter (\<lambda>s. s \<noteq> []) (hr_pins h)) else None),
          ep_echConfigList = text_or_none (hr_ech h)\<rparr>)"

definition hostEndpoints :: "string \<Rightarrow> int \<Rightarrow> string \<Rightarrow> int \<Rightarrow> host_row list \<Rightarrow> external_proxy list" where
  "hostEndpoints defaultDest defaultPort format inboundId hosts =
     map (hostToExternalProxyMap defaultDest defaultPort)
       (filter (\<lambda>h. format \<notin> set (hr_exclude h))
         (inboundHostsInOrder (filter (\<lambda>h. \<not> hr_isDisabled h) hosts) inboundId))"

section \<open>A move\<close>

lemma position_None [simp]: "position ids x = None \<longleftrightarrow> x \<notin> set ids"
  by (induction ids) (auto split: if_splits)

lemma position_Some: "position ids x = Some k \<Longrightarrow> k < length ids \<and> ids ! k = x"
  by (induction ids arbitrary: k) (auto split: if_splits)

lemma position_nth: "distinct ids \<Longrightarrow> k < length ids \<Longrightarrow> position ids (ids ! k) = Some k"
proof (induction ids arbitrary: k)
  case (Cons a ids)
  then show ?case by (cases k) (auto simp: nth_Cons')
qed simp

definition numbered :: "int \<Rightarrow> int list \<Rightarrow> host_row \<Rightarrow> host_row" where
  "numbered n ids h = (case position ids (hr_id h) of None \<Rightarrow> h | Some k \<Rightarrow> h\<lparr>hr_sortOrder := n + int k\<rparr>)"

lemma numbered_keeps [simp]:
  "hr_id (numbered n ids h) = hr_id h" "hr_inboundId (numbered n ids h) = hr_inboundId h"
  by (auto simp: numbered_def split: option.splits)

lemma numbered_absent: "hr_id h \<notin> set ids \<Longrightarrow> numbered n ids h = h"
  by (simp add: numbered_def split: option.splits) (metis option.simps(3) position_None)

lemma reorder_numbers: "distinct ids \<Longrightarrow> reorder_from n ids hosts = map (numbered n ids) hosts"
proof (induction ids arbitrary: n hosts)
  case Nil
  then show ?case by (simp add: numbered_def)
next
  case (Cons i ids)
  have "numbered (n + 1) ids (if hr_id h = i then h\<lparr>hr_sortOrder := n\<rparr> else h) = numbered n (i # ids) h" for h
    using Cons.prems numbered_absent[of h ids "n + 1"]
    by (cases "hr_id h = i") (auto simp: numbered_def split: option.splits)
  then show ?case using Cons by simp
qed

lemma sorted_first: "sorted (map (\<lambda>x. (f x :: int, g x :: int)) xs) \<Longrightarrow> sorted (map f xs)"
  unfolding sorted_map by (erule sorted_wrt_mono_rel[rotated]) (auto simp: less_eq_prod_def)

lemma renumbered_order:
  assumes "distinct ids" and "distinct (map hr_id hosts)"
    and same: "set ids = hr_id ` set (filter (\<lambda>h. hr_inboundId h = ib) hosts)"
  shows "map hr_id (inboundHostsInOrder (map (numbered 0 ids) hosts) ib) = ids"
proof -
  let ?f = "\<lambda>h. (hr_sortOrder h, hr_id h)" and ?p = "\<lambda>i. the (position ids i)"
  define hs where "hs = filter (\<lambda>h. hr_inboundId h = ib) (map (numbered 0 ids) hosts)"
  define xs where "xs = sort_key ?f hs"
  have hs: "hs = map (numbered 0 ids) (filter (\<lambda>h. hr_inboundId h = ib) hosts)"
    by (simp add: hs_def filter_map o_def)
  have "map hr_id hs = map hr_id (filter (\<lambda>h. hr_inboundId h = ib) hosts)" by (simp add: hs o_def)
  then have d: "distinct (map hr_id hs)" and s: "hr_id ` set hs = set ids"
    using distinct_map_filter[OF assms(2)] same by (simp_all only:) (simp_all add: hs image_image)
  have dx: "distinct (map hr_id xs)"
    using d by (simp add: xs_def distinct_map)
  have sx: "set (map hr_id xs) = set ids" using s by (simp add: xs_def)
  have key: "hr_sortOrder h = int (?p (hr_id h))" if "h \<in> set xs" for h
  proof -
    from that obtain g where g: "h = numbered 0 ids g" by (auto simp: xs_def hs)
    have "hr_id g \<in> set ids" using that sx g by (metis image_eqI list.set_map numbered_keeps(1))
    then obtain k where "position ids (hr_id g) = Some k" using position_None by (metis not_None_eq)
    then show ?thesis by (simp add: g) (simp add: numbered_def)
  qed
  have "sorted (map hr_sortOrder xs)" unfolding xs_def by (rule sorted_first[of _ hr_id]) simp
  moreover have "map hr_sortOrder xs = map int (map ?p (map hr_id xs))" using key by simp
  ultimately have s1: "sorted (map ?p (map hr_id xs))" by (simp only: sorted_map) (simp add: sorted_wrt_map)
  have p: "map ?p ids = [0..<length ids]"
    by (rule nth_equalityI) (simp_all add: position_nth[OF assms(1)])
  have inj: "inj_on ?p (set ids)" using distinct_upt[of 0 "length ids"] unfolding p[symmetric] distinct_map by blast
  show ?thesis
    unfolding inboundHostsInOrder_def hs_def[symmetric] xs_def[symmetric]
  proof (rule map_sorted_distinct_set_unique[of ?p])
    show "inj_on ?p (set (map hr_id xs) \<union> set ids)" unfolding sx using inj by simp
    show "sorted (map ?p (map hr_id xs))" by (rule s1)
    show "distinct (map ?p (map hr_id xs))" using dx inj unfolding distinct_map[of ?p] sx by simp
    show "sorted (map ?p ids)" "distinct (map ?p ids)" unfolding p by simp_all
    show "set (map hr_id xs) = set ids" by (rule sx)
  qed
qed

lemma onMove_ids:
  assumes "onMove hosts host up = Some ids" and "distinct (map hr_id hosts)"
  shows "distinct ids" and "set ids = hr_id ` set (filter (\<lambda>h. hr_inboundId h = hr_inboundId host) hosts)"
proof -
  define old where "old = map hr_id (inboundHostsInOrder hosts (hr_inboundId host))"
  obtain i j where "ids = swap_two i j old" "i < length old" "j < length old"
    using assms(1) unfolding onMove_def Let_def old_def[symmetric]
    by (auto split: option.splits if_splits dest!: position_Some)
  then have m: "mset ids = mset old" by (simp add: swap_two_def mset_swap)
  have d: "distinct old"
    using distinct_map_filter[OF assms(2)] by (simp add: old_def inboundHostsInOrder_def distinct_map)
  show "distinct ids" using mset_eq_imp_distinct_iff[OF m] d by simp
  show "set ids = hr_id ` set (filter (\<lambda>h. hr_inboundId h = hr_inboundId host) hosts)"
    using mset_eq_setD[OF m] by (simp add: old_def inboundHostsInOrder_def)
qed

text \<open>
  C20
  Moving a host up or down changes the order of its inbound's hosts to the one asked for - the two neighbours
  swapped - and leaves the hosts of every other inbound, and all but the numbers of this one's, as they were.
\<close>
theorem move_reorders:
  assumes "distinct (map hr_id hosts)" and "onMove hosts host up = Some ids"
  shows "map hr_id (inboundHostsInOrder (ReorderHosts ids hosts) (hr_inboundId host)) = ids \<and>
         (\<exists>i j. ids = swap_two i j (map hr_id (inboundHostsInOrder hosts (hr_inboundId host)))
                \<and> hr_id host = map hr_id (inboundHostsInOrder hosts (hr_inboundId host)) ! i
                \<and> (if up then Suc j = i else j = Suc i)) \<and>
         (\<forall>ib. ib \<noteq> hr_inboundId host \<longrightarrow> inboundHostsInOrder (ReorderHosts ids hosts) ib = inboundHostsInOrder hosts ib) \<and>
         map (hr_sortOrder_update (\<lambda>_. 0)) (ReorderHosts ids hosts) = map (hr_sortOrder_update (\<lambda>_. 0)) hosts"
proof (intro conjI)
  note ids = onMove_ids[OF assms(2,1)]
  have R: "ReorderHosts ids hosts = map (numbered 0 ids) hosts"
    by (simp add: ReorderHosts_def reorder_numbers ids)
  show "map hr_id (inboundHostsInOrder (ReorderHosts ids hosts) (hr_inboundId host)) = ids"
    unfolding R by (rule renumbered_order[OF ids(1) assms(1) ids(2)])
  show "\<exists>i j. ids = swap_two i j (map hr_id (inboundHostsInOrder hosts (hr_inboundId host)))
                \<and> hr_id host = map hr_id (inboundHostsInOrder hosts (hr_inboundId host)) ! i
                \<and> (if up then Suc j = i else j = Suc i)"
  proof (cases up)
    case True
    then obtain k where "position (map hr_id (inboundHostsInOrder hosts (hr_inboundId host))) (hr_id host) = Some k" "k \<noteq> 0"
      "ids = swap_two k (k - 1) (map hr_id (inboundHostsInOrder hosts (hr_inboundId host)))"
      using assms(2) by (auto simp: onMove_def Let_def split: option.splits if_splits)
    with True show ?thesis by (intro exI[of _ k] exI[of _ "k - 1"]) (auto dest: position_Some)
  next
    case False
    then obtain k where "position (map hr_id (inboundHostsInOrder hosts (hr_inboundId host))) (hr_id host) = Some k"
      "ids = swap_two k (Suc k) (map hr_id (inboundHostsInOrder hosts (hr_inboundId host)))"
      using assms(2) by (auto simp: onMove_def Let_def split: option.splits if_splits)
    with False show ?thesis by (intro exI[of _ k] exI[of _ "Suc k"]) (auto dest: position_Some)
  qed
  show "\<forall>ib. ib \<noteq> hr_inboundId host \<longrightarrow> inboundHostsInOrder (ReorderHosts ids hosts) ib = inboundHostsInOrder hosts ib"
  proof (intro allI impI)
    fix ib assume ib: "ib \<noteq> hr_inboundId host"
    have same: "hr_id h \<notin> set ids" if "h \<in> set hosts" "hr_inboundId h = ib" for h
      using that ib assms(1) unfolding ids(2) by (auto simp: distinct_map inj_on_def)
    have "filter (\<lambda>h. hr_inboundId h = ib) (map (numbered 0 ids) hosts)
            = map (numbered 0 ids) (filter (\<lambda>h. hr_inboundId h = ib) hosts)"
      by (simp add: filter_map o_def)
    also have "\<dots> = filter (\<lambda>h. hr_inboundId h = ib) hosts"
      by (rule map_idI) (auto intro: numbered_absent dest: same)
    finally show "inboundHostsInOrder (ReorderHosts ids hosts) ib = inboundHostsInOrder hosts ib"
      by (simp add: inboundHostsInOrder_def R)
  qed
  have "(numbered 0 ids h)\<lparr>hr_sortOrder := 0\<rparr> = h\<lparr>hr_sortOrder := 0\<rparr>" for h
    by (auto simp: numbered_def split: option.splits)
  then show "map (hr_sortOrder_update (\<lambda>_. 0)) (ReorderHosts ids hosts) = map (hr_sortOrder_update (\<lambda>_. 0)) hosts"
    by (simp add: R)
qed

lemma move_reorders_witness:
  "let h = (\<lambda>i ib n. (host_payload (defaultsFor None))\<lparr>hr_id := i, hr_inboundId := ib, hr_sortOrder := n\<rparr>);
       hosts = [h 5 1 0, h 2 1 0, h 7 2 4, h 9 1 3]
   in onMove hosts (h 9 1 3) True = Some [2, 9, 5] \<and>
      map hr_id (inboundHostsInOrder (ReorderHosts [2, 9, 5] hosts) 1) = [2, 9, 5] \<and>
      inboundHostsInOrder (ReorderHosts [2, 9, 5] hosts) 2 = [h 7 2 4]"
proof -
  define h where "h = (\<lambda>i ib n. (host_payload (defaultsFor None))\<lparr>hr_id := i, hr_inboundId := ib, hr_sortOrder := n\<rparr>)"
  have m: "onMove [h 5 1 0, h 2 1 0, h 7 2 4, h 9 1 3] (h 9 1 3) True = Some [2, 9, 5]" unfolding h_def by code_simp
  have i: "hr_inboundId (h 9 1 3) = 1" and d: "distinct (map hr_id [h 5 1 0, h 2 1 0, h 7 2 4, h 9 1 3])"
    by (simp_all add: h_def)
  have o: "inboundHostsInOrder [h 5 1 0, h 2 1 0, h 7 2 4, h 9 1 3] 2 = [h 7 2 4]"
    by (simp add: inboundHostsInOrder_def h_def)
  show ?thesis
    using move_reorders[OF d m] m unfolding Let_def h_def[symmetric] i o[symmetric]
    by (metis (no_types) one_eq_numeral_iff semiring_norm(85))
qed

section \<open>An edit\<close>

lemma find_one: "(\<And>g. g \<in> set xs \<Longrightarrow> P g \<longleftrightarrow> g = h) \<Longrightarrow> h \<in> set xs \<Longrightarrow> find P xs = Some h"
  by (induction xs) auto

text \<open>
  Saving the form of a host without touching it keeps the host, its place and every other host, except that
  the hidden flag is cleared - the form has no field for it - and the TLS values the chosen security does not
  show are dropped.
\<close>
theorem edit_host_keeps:
  assumes "distinct (map hr_id hosts)" and "h \<in> set hosts" and "hr_id h \<noteq> 0"
  shows "\<exists>saved. onSaveHost inbounds fresh (Some h) (defaultsFor (Some h)) hosts
                   = Some (map (\<lambda>g. if g = h then saved else g) hosts) \<and>
           (hr_security h = ''tls'' \<longrightarrow> saved = h\<lparr>hr_isHidden := False\<rparr>) \<and>
           (hr_security h = ''reality'' \<longrightarrow>
              saved = h\<lparr>hr_isHidden := False, hr_alpn := [], hr_pins := [], hr_verifyByName := False, hr_allowInsecure := False, hr_ech := []\<rparr>) \<and>
           (hr_security h \<notin> {''tls'', ''reality''} \<longrightarrow>
              saved = h\<lparr>hr_isHidden := False, hr_sni := [], hr_fingerprint := [], hr_overrideSni := False, hr_keepSniBlank := False,
                        hr_alpn := [], hr_pins := [], hr_verifyByName := False, hr_allowInsecure := False, hr_ech := []\<rparr>)"
proof -
  let ?p = "host_payload (defaultsFor (Some h))"
  let ?s = "?p\<lparr>hr_id := hr_id h, hr_inboundId := hr_inboundId h, hr_sortOrder := hr_sortOrder h\<rparr>"
  have same: "hr_id g = hr_id h \<longleftrightarrow> g = h" if "g \<in> set hosts" for g
    using assms(1,2) that by (auto simp: distinct_map inj_on_def)
  have f: "find (\<lambda>g. hr_id g = hr_id h) hosts = Some h"
    using same assms(2) by (rule find_one)
  have "onSaveHost inbounds fresh (Some h) (defaultsFor (Some h)) hosts = Some (map (\<lambda>g. if g = h then ?s else g) hosts)"
    using assms(3) f same by (simp add: onSaveHost_def UpdateHost_def Let_def)
  moreover have "hr_security h = ''tls'' \<Longrightarrow> ?s = h\<lparr>hr_isHidden := False\<rparr>"
    by (cases h) (simp add: host_payload_def defaultsFor_def host_row.defs)
  moreover have "hr_security h = ''reality'' \<Longrightarrow>
     ?s = h\<lparr>hr_isHidden := False, hr_alpn := [], hr_pins := [], hr_verifyByName := False, hr_allowInsecure := False, hr_ech := []\<rparr>"
    by (cases h) (simp add: host_payload_def defaultsFor_def host_row.defs)
  moreover have "hr_security h \<notin> {''tls'', ''reality''} \<Longrightarrow>
     ?s = h\<lparr>hr_isHidden := False, hr_sni := [], hr_fingerprint := [], hr_overrideSni := False, hr_keepSniBlank := False,
                        hr_alpn := [], hr_pins := [], hr_verifyByName := False, hr_allowInsecure := False, hr_ech := []\<rparr>"
    by (cases h) (simp add: host_payload_def defaultsFor_def host_row.defs)
  ultimately show ?thesis by blast
qed

lemma edit_host_keeps_witness:
  "let h = (host_payload (defaultsFor None))\<lparr>hr_id := 4, hr_inboundId := 1, hr_isHidden := True, hr_security := ''tls'', hr_sni := ''a''\<rparr>
   in onSaveHost [1] 9 (Some h) (defaultsFor (Some h)) [h] = Some [h\<lparr>hr_isHidden := False\<rparr>]"
proof -
  define h where "h = (host_payload (defaultsFor None))\<lparr>hr_id := 4, hr_inboundId := 1, hr_isHidden := True, hr_security := ''tls'', hr_sni := ''a''\<rparr>"
  have "hr_id h \<noteq> 0" "hr_security h = ''tls''" by (simp_all add: h_def)
  with edit_host_keeps[of "[h]" h "[1]" 9] have "onSaveHost [1] 9 (Some h) (defaultsFor (Some h)) [h] = Some [h\<lparr>hr_isHidden := False\<rparr>]"
    by auto
  then show ?thesis unfolding Let_def h_def .
qed

section \<open>The preview\<close>

text \<open>
  For a host with an address and a port of its own, the entry the page previews is the one the server puts in a
  subscription, whatever the inbound's address and port.
\<close>
theorem preview_is_served:
  assumes "hr_address h \<noteq> []" and "hr_port h > 0" and "[] \<notin> set (hr_alpn h)" and "[] \<notin> set (hr_pins h)"
  shows "hostToExternalProxyEntry h = hostToExternalProxyMap defaultDest defaultPort h"
proof -
  have "filter (\<lambda>s. s \<noteq> []) (hr_alpn h) = hr_alpn h" "filter (\<lambda>s. s \<noteq> []) (hr_pins h) = hr_pins h"
    using assms(3,4) by (auto simp: filter_id_conv)
  then show ?thesis
    using assms(1,2) by (simp add: hostToExternalProxyEntry_def hostToExternalProxyMap_def Let_def text_or_none_def list_or_none_def)
qed

lemma preview_is_served_witness:
  "let h = (host_payload (defaultsFor None))\<lparr>hr_address := ''a.b'', hr_port := 8443, hr_alpn := [''h2'']\<rparr>
   in hostToExternalProxyEntry h = hostToExternalProxyMap ''z'' 1 h"
proof -
  define h where "h = (host_payload (defaultsFor None))\<lparr>hr_address := ''a.b'', hr_port := 8443, hr_alpn := [''h2'']\<rparr>"
  have "hostToExternalProxyEntry h = hostToExternalProxyMap ''z'' 1 h"
    by (rule preview_is_served) (simp_all add: h_def host_payload_def defaultsFor_def host_row.defs)
  then show ?thesis unfolding Let_def h_def .
qed

text \<open>
  A host without a port of its own is previewed on port 443 and served on the inbound's port; one without an
  address is previewed without one, and with \<open>overrideSniFromAddress\<close> the server sends the inbound's address as
  the server name where the preview has none.
\<close>

theorem inherited_endpoint_differs:
  assumes "hr_address h = []" and "hr_port h = 0" and "hr_overrideSni h" and "\<not> hr_keepSniBlank h" and "dest \<noteq> []"
  shows "ep_dest (hostToExternalProxyEntry h) = [] \<and> ep_port (hostToExternalProxyEntry h) = 443 \<and>
         ep_sni (hostToExternalProxyEntry h) = None \<and>
         ep_dest (hostToExternalProxyMap dest port h) = dest \<and> ep_port (hostToExternalProxyMap dest port h) = port \<and>
         ep_sni (hostToExternalProxyMap dest port h) = Some dest"
  using assms by (simp add: hostToExternalProxyEntry_def hostToExternalProxyMap_def text_or_none_def)

text \<open>A disabled host is in no subscription, and neither is one the format excludes.\<close>

lemma endpoints_of_enabled:
  "set (hostEndpoints dest port format ib hosts)
     = hostToExternalProxyMap dest port ` {h \<in> set hosts. hr_inboundId h = ib \<and> \<not> hr_isDisabled h \<and> format \<notin> set (hr_exclude h)}"
  by (auto simp: hostEndpoints_def inboundHostsInOrder_def)

section \<open>Overrides kept\<close>

fun storable :: "js \<Rightarrow> bool" where
  "storable (JNum n) = json_clean (JNum n)"
| "storable (JArr xs) = list_all storable xs"
| "storable (JObj o1) = (owf o1 \<and> \<not> ohas o1 ''__proto__'' \<and> list_all (\<lambda>p. storable (snd p)) o1)"
| "storable _ = True"

fun sparse :: "js \<Rightarrow> bool" where
  "sparse (JArr xs) = (xs \<noteq> [] \<and> list_all sparse xs)"
| "sparse (JObj o1) = (o1 \<noteq> [] \<and> list_all (\<lambda>p. sparse (snd p)) o1)"
| "sparse (JStr s) = (s \<noteq> [])"
| "sparse (JBool b) = True"
| "sparse (JNum n) = True"
| "sparse _ = False"

definition kept_fields :: "jobj \<Rightarrow> jobj" where
  "kept_fields o1 = map (\<lambda>p. (fst p, pruneEmptyDeep (snd p))) (filter (\<lambda>p. pruneEmptyDeep (snd p) \<noteq> JUndef) o1)"

lemma kept_simps [simp]:
  "kept_fields [] = []"
  "kept_fields (p # o1) = (if pruneEmptyDeep (snd p) = JUndef then kept_fields o1 else (fst p, pruneEmptyDeep (snd p)) # kept_fields o1)"
  by (simp_all add: kept_fields_def)

lemma prune_fields_eq:
  "owf (acc @ o1) \<Longrightarrow> \<not> ohas o1 ''__proto__'' \<Longrightarrow> prune_fields o1 acc = acc @ kept_fields o1"
proof (induction o1 arbitrary: acc)
  case (Cons p o1)
  have np: "fst p \<noteq> ''__proto__''" "\<not> ohas o1 ''__proto__''"
    using Cons.prems(2) by (auto simp: ohas_def)
  show ?case
  proof (cases "pruneEmptyDeep (snd p) = JUndef")
    case True
    have "owf (acc @ o1)"
      using Cons.prems(1) by (auto simp: owf_def key_ordered_def sorted_wrt_append)
    from Cons.IH[OF this np(2)] True show ?thesis by simp
  next
    case False
    let ?w = "pruneEmptyDeep (snd p)"
    have o: "owf ((acc @ [(fst p, ?w)]) @ o1)"
      using Cons.prems(1) by (simp add: owf_def key_ordered_def)
    from oput_snoc[OF owf_prefix[OF o]] np have "oset (fst p) ?w acc = acc @ [(fst p, ?w)]"
      by (simp add: oset_def)
    with Cons.IH[OF o np(2)] False show ?thesis by simp
  qed
qed simp

lemma kept_wf: "owf o1 \<Longrightarrow> owf (kept_fields o1)"
proof -
  assume o: "owf o1"
  have k: "okeys (kept_fields o1) = map fst (filter (\<lambda>p. pruneEmptyDeep (snd p) \<noteq> JUndef) o1)"
    by (simp add: kept_fields_def okeys_def o_def)
  from o show ?thesis
    unfolding owf_def k by (auto simp: okeys_def key_ordered_def distinct_map_filter sorted_wrt_map sorted_wrt_filter)
qed

lemma kept_proto: "\<not> ohas o1 k \<Longrightarrow> \<not> ohas (kept_fields o1) k"
  by (force simp: ohas_def kept_fields_def)

lemma prune_obj: "storable (JObj o1) \<Longrightarrow>
  pruneEmptyDeep (JObj o1) = (if kept_fields o1 \<noteq> [] then JObj (kept_fields o1) else JUndef)"
  using prune_fields_eq[of "[]" o1] by (simp add: Let_def)

lemma prune_result: "storable v \<Longrightarrow> pruneEmptyDeep v \<noteq> JUndef \<Longrightarrow>
  sparse (pruneEmptyDeep v) \<and> storable (pruneEmptyDeep v) \<and> json_clean (pruneEmptyDeep v)"
proof (induction v)
  case (JArr xs)
  then show ?case by (auto simp: Let_def list_all_iff split: if_splits)
next
  case (JObj o1)
  have e: "pruneEmptyDeep (JObj o1) = JObj (kept_fields o1)" "kept_fields o1 \<noteq> []"
    using JObj.prems(2) unfolding prune_obj[OF JObj.prems(1)] by (auto split: if_splits)
  have "list_all (\<lambda>p. sparse (snd p) \<and> storable (snd p) \<and> json_clean (snd p)) (kept_fields o1)"
    using JObj.IH JObj.prems(1) by (auto simp: kept_fields_def list_all_iff)
  then show ?case
    using JObj.prems(1) kept_wf kept_proto unfolding e(1) by (simp add: e(2) list_all_iff)
qed auto

lemma sparse_not_undef: "sparse v \<Longrightarrow> v \<noteq> JUndef"
  by (cases v) auto

lemma sparse_same: "sparse v \<Longrightarrow> storable v \<Longrightarrow> pruneEmptyDeep v = v"
proof (induction v)
  case (JArr xs)
  have m: "map pruneEmptyDeep xs = xs" using JArr by (auto simp: list_all_iff intro: map_idI)
  have "filter (\<lambda>v. v \<noteq> JUndef) xs = xs" using JArr.prems(1) sparse_not_undef by (auto simp: filter_id_conv list_all_iff)
  with m JArr.prems(1) show ?case by (simp add: Let_def)
next
  case (JObj o1)
  have s: "pruneEmptyDeep (snd p) = snd p" "snd p \<noteq> JUndef" if "p \<in> set o1" for p
    using JObj that sparse_not_undef by (cases p; fastforce simp: list_all_iff)+
  have f: "filter (\<lambda>p. pruneEmptyDeep (snd p) \<noteq> JUndef) o1 = o1" using s by (auto simp: filter_id_conv)
  have "kept_fields o1 = o1" unfolding kept_fields_def f by (rule map_idI) (simp add: s)
  with JObj.prems(1) show ?case unfolding prune_obj[OF JObj.prems(2)] by simp
qed auto

text \<open>
  C21
  An override is stored without its empty parts and comes back as such: reading the stored text gives the
  pruned object, at no depth of which anything is empty, and storing it again gives the same text; an override
  with nothing in it is the empty text.
\<close>
theorem override_reopens:
  assumes "storable (JObj o1)"
  shows "(let raw = serializeOverride (JObj o1); kept = parseJsonObject raw in
           (raw = [] \<longleftrightarrow> kept = []) \<and>
           (kept \<noteq> [] \<longrightarrow> JObj kept = pruneEmptyDeep (JObj o1) \<and> sparse (JObj kept)) \<and>
           serializeOverride (JObj kept) = raw)"
proof (cases "kept_fields o1 = []")
  case True
  then have "serializeOverride (JObj o1) = []"
    unfolding serializeOverride_def prune_obj[OF assms] by simp
  then show ?thesis by (simp add: parseJsonObject_def serializeOverride_def)
next
  case False
  let ?k = "kept_fields o1"
  have p: "pruneEmptyDeep (JObj o1) = JObj ?k" unfolding prune_obj[OF assms] using False by simp
  have r: "sparse (JObj ?k)" "storable (JObj ?k)" "json_clean (JObj ?k)"
    using prune_result[OF assms] unfolding p by simp_all
  have t: "serializeOverride (JObj o1) = json_stringify (JObj ?k)" unfolding serializeOverride_def p by simp
  have j: "json_parse (json_stringify (JObj ?k)) = Some (JObj ?k)" by (rule json_parse_stringify[OF r(3)])
  have "json_parse [] = None" by code_simp
  then have n: "json_stringify (JObj ?k) \<noteq> []" using j by (metis option.distinct(1))
  have k: "parseJsonObject (serializeOverride (JObj o1)) = ?k" unfolding t by (simp add: parseJsonObject_def n j)
  have "serializeOverride (JObj ?k) = json_stringify (JObj ?k)"
    unfolding serializeOverride_def sparse_same[OF r(1,2)] by simp
  then show ?thesis using k r(1) p n False t by (simp only: Let_def) simp
qed

lemma override_reopens_witness:
  "let o1 = [(''mark'', JNum (Fin 0)), (''interface'', JStr []), (''opts'', JObj [(''a'', JArr [JNull])])]
   in parseJsonObject (serializeOverride (JObj o1)) = [(''mark'', JNum (Fin 0))]"
proof -
  let ?o = "[(''mark'', JNum (Fin 0)), (''interface'', JStr []), (''opts'', JObj [(''a'', JArr [JNull])])]"
  have s: "storable (JObj ?o)" by code_simp
  have p: "pruneEmptyDeep (JObj ?o) = JObj [(''mark'', JNum (Fin 0))]" by code_simp
  from override_reopens[OF s] have "serializeOverride (JObj ?o) = [] \<longleftrightarrow> parseJsonObject (serializeOverride (JObj ?o)) = []"
    and "parseJsonObject (serializeOverride (JObj ?o)) \<noteq> [] \<Longrightarrow> JObj (parseJsonObject (serializeOverride (JObj ?o))) = pruneEmptyDeep (JObj ?o)"
    unfolding Let_def by blast+
  moreover have "serializeOverride (JObj ?o) \<noteq> []" unfolding serializeOverride_def p by code_simp
  ultimately show ?thesis unfolding p Let_def by simp
qed

end
