(* ===== verification/Outbound_Text.thy ===== *)
theory Outbound_Text
  imports Inbound_Adapter Outbound_Adapter
begin

text \<open>
  An outbound written as a JSON text: the members that are undefined are not in the text, and reading the
  outbound without them gives the same form, for every protocol (\<open>lib/xray/outbound-form-adapter.ts\<close>).
\<close>

section \<open>Reading without the undefined members\<close>

definition tidy_obj :: "jobj \<Rightarrow> bool" where
  "tidy_obj o1 \<longleftrightarrow> tidy (JObj o1)"

lemma get_pruned [simp]: "tidy_obj o1 \<Longrightarrow> oget (pruned o1) k = pruneEmpty (oget o1 k)"
proof -
  have "distinct (okeys o1) \<Longrightarrow> oget (pruned o1) k = pruneEmpty (oget o1 k)"
  proof (induction o1)
    case (Cons p o1)
    have "oget o1 (fst p) = JUndef" using Cons.prems by (intro oget_not_ohas) (simp add: ohas_def okeys_def)
    then show ?case using Cons by (cases p) auto
  qed simp
  then show "tidy_obj o1 \<Longrightarrow> oget (pruned o1) k = pruneEmpty (oget o1 k)" by (simp add: tidy_obj_def owf_def)
qed

lemma tidy_oget [simp]: "tidy_obj o1 \<Longrightarrow> tidy (oget o1 k)"
  by (induction o1) (auto simp: tidy_obj_def owf_def key_ordered_def ohas_def)

lemma prune_read [simp]:
  "asString (pruneEmpty v) d = asString v d" "asNumber (pruneEmpty v) e = asNumber v e" "asBool (pruneEmpty v) = asBool v"
  "asPort (pruneEmpty v) n = asPort v n" "num_or_string (pruneEmpty v) = num_or_string v" "seed_value (pruneEmpty v) = seed_value v"
  "asArray (pruneEmpty v) = map pruneEmpty (asArray v)"
  by (cases v; simp add: asString_def asNumber_def asBool_def asPort_def num_or_string_def seed_value_def asArray_def)+

lemma strings_prune [simp]: "strings (pruneEmpty v) = strings v"
  by (simp add: strings_def o_def)

lemma joined_prune [simp]: "joined (pruneEmpty v) = joined v"
proof (cases v)
  case (JObj o1)
  then show ?thesis by (simp add: joined_def asString_def)
qed (simp_all add: joined_def o_def)

lemma savedSeed_prune [simp]: "savedSeed (pruneEmpty v) = savedSeed v"
  by (auto simp add: savedSeed_def Let_def list_all_iff List.map_filter_def filter_map o_def)

lemma tidy_nil [simp]: "tidy_obj []"
  by (simp add: tidy_obj_def ohas_def)

lemma tidy_elem: "tidy v \<Longrightarrow> x \<in> set (asArray v) \<Longrightarrow> tidy x"
  by (cases v) (simp_all add: asArray_def list_all_iff)

lemma tidy_asObject [simp]: "tidy v \<Longrightarrow> tidy_obj (asObject v)"
proof (cases v)
  case (JObj o1)
  assume "tidy v"
  then show ?thesis unfolding JObj tidy_obj_def asObject_def js.case .
qed (simp_all add: asObject_def)

lemma tidy_first [simp]: "tidy v \<Longrightarrow> tidy_obj (first_obj v)"
  using tidy_elem[of v] by (cases "asArray v") (simp_all add: first_obj_def)

lemma asObject_prune [simp]: "tidy v \<Longrightarrow> asObject (pruneEmpty v) = pruned (asObject v)"
proof (cases v)
  case (JObj o1)
  assume "tidy v"
  then have "prune_members o1 [] = pruned o1" using prune_obj_eq[of o1] by (simp add: JObj prune_obj_def)
  then show ?thesis by (simp add: JObj asObject_def)
qed (simp_all add: asObject_def)

lemma first_obj_prune [simp]: "tidy v \<Longrightarrow> first_obj (pruneEmpty v) = pruned (first_obj v)"
  using tidy_elem[of v] by (cases "asArray v") (simp_all add: first_obj_def)

lemma pruned_reads:
  assumes "tidy_obj r"
  shows "vmessFromWire (pruned r) = vmessFromWire r" "trojanFromWire (pruned r) = trojanFromWire r"
    "shadowsocksFromWire (pruned r) = shadowsocksFromWire r" "simpleAuthFromWire (pruned r) n = simpleAuthFromWire r n"
    "hysteriaFromWire (pruned r) = hysteriaFromWire r" "blackholeFromWire (pruned r) = blackholeFromWire r"
    "loopbackFromWire (pruned r) = loopbackFromWire r"
  using assms by (simp_all add: vmessFromWire_def trojanFromWire_def shadowsocksFromWire_def simpleAuthFromWire_def
      hysteriaFromWire_def blackholeFromWire_def loopbackFromWire_def Let_def)

lemma pruned_vless: "tidy_obj r \<Longrightarrow> vlessFromWire (pruned r) = vlessFromWire r"
  by (simp add: vlessFromWire_def reverseSniffingFromWire_def Let_def)

lemma pruned_wireguard: "tidy_obj r \<Longrightarrow> wireguardFromWire (pruned r) = wireguardFromWire r"
proof -
  assume r: "tidy_obj r"
  have "peerFromWire (pruneEmpty p) = peerFromWire p" if "tidy p" for p
    using that by (simp add: peerFromWire_def Let_def)
  then have peers: "map peerFromWire (map pruneEmpty (asArray (oget r ''peers''))) = map peerFromWire (asArray (oget r ''peers''))"
    using tidy_elem[OF tidy_oget[OF r]] by auto
  have nums: "map num_or_string (map pruneEmpty xs) = map num_or_string xs" for xs by simp
  show ?thesis unfolding wireguardFromWire_def Let_def get_pruned[OF r] prune_read peers nums by (rule refl)
qed

lemma pruned_freedom:
  assumes r: "tidy_obj r" and f: "pruneEmpty (oget r ''fragment'') = oget r ''fragment''"
  shows "freedomFromWire (pruned r) = freedomFromWire r"
proof -
  have "finalRuleFromWire (pruneEmpty p) = finalRuleFromWire p" "noiseFromWire (pruneEmpty p) = noiseFromWire p" if "tidy p" for p
    using that by (simp_all add: finalRuleFromWire_def noiseFromWire_def Let_def)
  then have lists: "map finalRuleFromWire (map pruneEmpty (asArray (oget r ''finalRules''))) = map finalRuleFromWire (asArray (oget r ''finalRules''))"
    "map noiseFromWire (map pruneEmpty (asArray (oget r ''noises''))) = map noiseFromWire (asArray (oget r ''noises''))"
    using tidy_elem[OF tidy_oget[OF r]] by auto
  show ?thesis unfolding freedomFromWire_def Let_def get_pruned[OF r] f prune_read strings_prune lists by (rule refl)
qed

lemma pruned_dns:
  assumes r: "tidy_obj r" and "\<And>x. x \<in> set (asArray (oget r ''rules'')) \<Longrightarrow> pruneEmpty x = x"
  shows "dnsFromWire (pruned r) = dnsFromWire r"
proof -
  have "map pruneEmpty (asArray (oget r ''rules'')) = asArray (oget r ''rules'')" using assms(2) by (simp add: map_idI)
  moreover have "coalesce (pruneEmpty a) (pruneEmpty b) = pruneEmpty (coalesce a b)" for a b
    by (cases a) (simp_all add: coalesce_def)
  ultimately show ?thesis using r unfolding dnsFromWire_def Let_def get_pruned[OF r] by simp
qed


fun solid :: "js \<Rightarrow> bool" where
  "solid JUndef = False"
| "solid (JArr xs) = list_all solid xs"
| "solid (JObj o1) = list_all (\<lambda>p. solid (snd p)) o1"
| "solid _ = True"

lemma solid_same: "solid v \<Longrightarrow> tidy v \<Longrightarrow> pruneEmpty v = v"
proof (induction v)
  case (JArr xs)
  then show ?case by (auto simp: list_all_iff intro: map_idI)
next
  case (JObj o1)
  have d: "snd p \<noteq> JUndef" "pruneEmpty (snd p) = snd p" if "p \<in> set o1" for p
    using JObj.IH[of p "snd p"] JObj.prems that by (cases p; fastforce simp: list_all_iff)+
  have f: "filter (\<lambda>p. snd p \<noteq> JUndef) o1 = o1" using d(1) by (auto simp: filter_id_conv)
  have "pruned o1 = o1" unfolding pruned_def f by (rule map_idI) (simp add: d(2))
  then show ?case using prune_obj_eq[of o1] JObj.prems(2) by (simp add: prune_obj_def)
qed auto

lemma clean_solid: "json_clean v \<Longrightarrow> solid v"
  by (induction v) (auto simp: list_all_iff)

lemma solid_oput: "solid v \<Longrightarrow> list_all (\<lambda>p. solid (snd p)) o1 \<Longrightarrow> list_all (\<lambda>p. solid (snd p)) (oput k v o1)"
  by (induction o1) auto

lemma solid_strs [simp]: "list_all solid (map JStr xs)"
  by (simp add: list_all_iff)

lemma solid_fragment: "fragmentToWire f \<noteq> JUndef \<Longrightarrow> solid (fragmentToWire f)"
  by (auto simp: fragmentToWire_def)

lemma solid_dns_rule: "solid (dnsRuleToWire r)"
  unfolding dnsRuleToWire_def Let_def solid.simps
  by (auto intro!: solid_oput simp del: oput.simps)

lemma settings_pruned:
  assumes ok: "settings_ok s" and t: "tidy_obj (settingsToWire s)"
  shows "settingsFromWire (of_protocol s) (pruned (settingsToWire s)) = Some s"
proof -
  have "settingsFromWire (of_protocol s) (pruned (settingsToWire s)) = settingsFromWire (of_protocol s) (settingsToWire s)"
  proof (cases s)
    case (Of_Freedom f)
    have g: "oget (freedomToWire f) ''fragment'' = fragmentToWire (fd_fragment f)" by (simp add: freedomToWire_def)
    have "pruneEmpty (fragmentToWire (fd_fragment f)) = fragmentToWire (fd_fragment f)"
      using solid_fragment solid_same tidy_oget[OF t, of "''fragment''"] g Of_Freedom
      by (cases "fragmentToWire (fd_fragment f) = JUndef") simp_all
    then show ?thesis using t pruned_freedom[of "freedomToWire f"] g by (simp add: Of_Freedom settingsFromWire_def)
  next
    case (Of_Dns d)
    have "pruneEmpty x = x" if "x \<in> set (asArray (oget (dnsToWire d) ''rules''))" for x
    proof (rule solid_same)
      from that obtain r where "x = dnsRuleToWire r" by (auto simp: dns_write_get asArray_def split: if_splits)
      then show "solid x" by (simp add: solid_dns_rule)
      show "tidy x" using tidy_elem[OF tidy_oget[OF t]] that Of_Dns by simp
    qed
    then show ?thesis using t pruned_dns[of "dnsToWire d"] by (simp add: Of_Dns settingsFromWire_def)
  qed (use t pruned_reads pruned_vless pruned_wireguard in \<open>simp_all add: settingsFromWire_def\<close>)
  then show ?thesis using settings_back[OF ok] by simp
qed

lemma payload_pruned:
  assumes ok: "form_ok v" and t: "tidy_obj (Outbound_Adapter.formValuesToWirePayload v)"
    and s: "solid (stream_wire v) \<or> stream_wire v = JUndef"
  shows "rawOutboundToFormValues (pruned (Outbound_Adapter.formValuesToWirePayload v)) = Some v"
proof -
  let ?p = "Outbound_Adapter.formValuesToWirePayload v"
  note g = get_pruned[OF t]
  have ts: "tidy_obj (settingsToWire (of_settings v))"
    using tidy_oget[OF t, of "''settings''"] unfolding payload_fields tidy_obj_def .
  have st: "pruneEmpty (stream_wire v) = stream_wire v"
    using s solid_same tidy_oget[OF t, of "''streamSettings''"] unfolding payload_fields by fastforce
  have mx: "pruneEmpty (mux_wire v) = mux_wire v"
  proof (cases "mux_wire v = JUndef")
    case False
    then have "solid (mux_wire v)" by (auto simp: mux_wire_def mux_obj_def split: option.splits if_splits)
    then show ?thesis using solid_same tidy_oget[OF t, of "''mux''"] unfolding payload_fields by blast
  qed simp
  have b: "rawOutboundToFormValues ?p = Some v"
    using ok settings_back[of "of_settings v"] stream_back[of v] mux_part_back[of v]
    unfolding rawOutboundToFormValues_def Let_def payload_fields
    by (cases v) (simp add: form_ok_def)
  have so: "settings_ok (of_settings v)" using ok by (simp add: form_ok_def)
  note sp = settings_pruned[OF so ts] settings_back[OF so]
  have ob: "asObject (JObj o1) = o1" for o1 by (simp add: asObject_def)
  have to: "tidy (JObj (settingsToWire (of_settings v)))" using ts unfolding tidy_obj_def .
  show ?thesis
    using b unfolding rawOutboundToFormValues_def Let_def g payload_fields prune_read st mx asObject_prune[OF to] ob
    by (simp add: sp)
qed

end
