(* ===== verification/Outbound_Dialog.thy ===== *)
theory Outbound_Dialog
  imports Template_Tabs Protocol_Defaults Link_Parser Wireguard_Keys Capabilities Outbound_Text
begin

text \<open>
  The dialog of an outbound (\<open>pages/xray/outbounds/OutboundFormModal.tsx\<close>) and the tab that opens it
  (\<open>OutboundsTab.tsx\<close>): the form and its effects, the JSON tab and the import of a share link, and the
  checks before an outbound is handed to the tab. The watched values are those of the form in the render an
  effect belongs to; an edit of plain fields hands over the form they leave; what antd validates is a
  parameter. An exception in a handler leaves the dialog as it is.
\<close>

section \<open>The dialog\<close>

datatype tab_key = Basic_Tab | Json_Tab

record outbound_dialog =
  od_outbound :: "jobj option"
  od_existingTags :: "string list"
  od_form :: outbound_form
  od_activeKey :: tab_key
  od_jsonText :: string
  od_jsonDirty :: bool
  od_linkInput :: string

definition payload_text :: "outbound_form \<Rightarrow> string" where
  "payload_text v = json_stringify2 (JObj (Outbound_Adapter.formValuesToWirePayload v))"

definition open_outbound :: "jobj option \<Rightarrow> string list \<Rightarrow> string \<Rightarrow> outbound_dialog option" where
  "open_outbound outbound tags link =
     map_option (\<lambda>initial. \<lparr>od_outbound = outbound, od_existingTags = tags, od_form = initial, od_activeKey = Basic_Tab,
         od_jsonText = payload_text initial, od_jsonDirty = False, od_linkInput = link\<rparr>)
       (case outbound of Some o1 \<Rightarrow> rawOutboundToFormValues o1 | None \<Rightarrow> buildAddModeValues)"

section \<open>The effects\<close>

definition form_protocol :: "outbound_form \<Rightarrow> string" where
  "form_protocol f = of_protocol (of_settings f)"

definition stream_of :: "outbound_form \<Rightarrow> jobj" where
  "stream_of f = (case of_streamSettings f of None \<Rightarrow> [] | Some s \<Rightarrow> s)"

definition watched_network :: "outbound_form \<Rightarrow> js" where
  "watched_network f = oget (stream_of f) ''network''"

definition streamAllowed :: "outbound_form \<Rightarrow> bool" where
  "streamAllowed f = canEnableStream \<lparr>cap_protocol = form_protocol f, cap_settings = None, cap_stream = None\<rparr>"

definition seed_effect :: "outbound_form \<Rightarrow> outbound_form \<Rightarrow> outbound_form" where
  "seed_effect w f =
     (if \<not> streamAllowed w then f
      else if form_protocol w = ''wireguard'' then
        if truthy (watched_network w) then f\<lparr>of_streamSettings := Some [(''security'', JStr ''none'')]\<rparr> else f
      else if truthy (watched_network w) then f
      else f\<lparr>of_streamSettings := Some (newStreamSlice ''tcp'' @ [(''security'', JStr ''none'')])\<rparr>)"

definition hysteria_effect :: "outbound_form \<Rightarrow> outbound_form \<Rightarrow> outbound_form" where
  "hysteria_effect w f =
     (if form_protocol w \<noteq> ''hysteria'' then f
      else if watched_network w = JStr ''hysteria'' \<and> oget (stream_of w) ''security'' = JStr ''tls'' then f
      else
        let existing = stream_of f;
            slice = hysteriaStreamSlice;
            slice = (if truthy (oget existing ''hysteriaSettings'')
                     then oput ''hysteriaSettings'' (oget existing ''hysteriaSettings'') slice else slice);
            slice = (if truthy (oget existing ''tlsSettings'')
                     then oput ''tlsSettings'' (oget existing ''tlsSettings'') slice else slice)
        in f\<lparr>of_streamSettings := Some slice\<rparr>)"

definition derived_key :: "string \<Rightarrow> string" where
  "derived_key secret =
     (let sk = trim secret in
      if sk = [] then [] else case publicKey_of sk of Some k \<Rightarrow> k | None \<Rightarrow> [])"

definition key_effect :: "outbound_form \<Rightarrow> outbound_form \<Rightarrow> outbound_form" where
  "key_effect w f =
     (case of_settings w of
        Of_Wireguard ws \<Rightarrow>
          (case of_settings f of
             Of_Wireguard s \<Rightarrow> f\<lparr>of_settings := Of_Wireguard (s\<lparr>wg_pubKey := derived_key (wg_secretKey ws)\<rparr>)\<rparr>
           | _ \<Rightarrow> f)
      | _ \<Rightarrow> f)"

text \<open>
  The effects of one render, in their order. Their dependency arrays are left out: an effect the code does not
  run again, because nothing it depends on has changed, would change nothing (\<open>effects_need_a_change\<close> below; the
  public key has no field that could be edited).
\<close>

definition run_effects :: "outbound_form \<Rightarrow> outbound_form" where
  "run_effects w = key_effect w (hysteria_effect w (seed_effect w w))"

section \<open>The handlers\<close>

definition onProtocolChange :: "string \<Rightarrow> outbound_form \<Rightarrow> outbound_form option" where
  "onProtocolChange protocol f =
     map_option (\<lambda>nxt.
         let f = f\<lparr>of_settings := of_settings nxt\<rparr> in
         if protocol = ''hysteria'' then f\<lparr>of_streamSettings := Some hysteriaStreamSlice\<rparr>
         else if watched_network f = JStr ''hysteria''
              then f\<lparr>of_streamSettings := Some (newStreamSlice ''tcp'' @ [(''security'', JStr ''none'')])\<rparr>
              else f)
       (rawOutboundToFormValues [(''protocol'', JStr protocol)])"

definition fresh_tls :: js where
  "fresh_tls = JObj [(''serverName'', JStr []), (''alpn'', JArr []), (''fingerprint'', JStr []), (''echConfigList'', JStr []),
     (''verifyPeerCertByName'', JStr []), (''pinnedPeerCertSha256'', JStr [])]"

definition fresh_reality :: js where
  "fresh_reality = JObj [(''publicKey'', JStr []), (''fingerprint'', JStr ''chrome''), (''serverName'', JStr []), (''shortId'', JStr []),
     (''spiderX'', JStr []), (''mldsa65Verify'', JStr [])]"

definition onOutboundSecurityChange :: "string \<Rightarrow> outbound_form \<Rightarrow> outbound_form" where
  "onOutboundSecurityChange nxt f =
     (let cleaned = odel ''realitySettings'' (odel ''tlsSettings'' (stream_of f));
          cleaned = (if nxt = ''tls'' then oput ''tlsSettings'' fresh_tls cleaned
                     else if nxt = ''reality'' then oput ''realitySettings'' fresh_reality cleaned else cleaned)
      in f\<lparr>of_streamSettings := Some (oput ''security'' (JStr nxt) cleaned)\<rparr>)"

definition onOutboundNetworkChange :: "string \<Rightarrow> outbound_form \<Rightarrow> outbound_form" where
  "onOutboundNetworkChange nxt f =
     f\<lparr>of_streamSettings := Some (applyNetworkChange (form_protocol f) (Some (stream_of f)) nxt)\<rparr>"

definition onXmuxToggle :: "bool \<Rightarrow> outbound_form \<Rightarrow> outbound_form" where
  "onXmuxToggle checked f =
     (if \<not> checked then f
      else case of_streamSettings f of
        None \<Rightarrow> f\<lparr>of_streamSettings := Some [(''xhttpSettings'', JObj [(''xmux'', JObj XMUX_DEFAULTS)])]\<rparr>
      | Some s \<Rightarrow>
          (case oget s ''xhttpSettings'' of
             JObj xh \<Rightarrow>
               (case oget xh ''xmux'' of
                  JObj x \<Rightarrow> if x \<noteq> [] then f
                            else f\<lparr>of_streamSettings := Some (oput ''xhttpSettings'' (JObj (oput ''xmux'' (JObj XMUX_DEFAULTS) xh)) s)\<rparr>
                | _ \<Rightarrow> f\<lparr>of_streamSettings := Some (oput ''xhttpSettings'' (JObj (oput ''xmux'' (JObj XMUX_DEFAULTS) xh)) s)\<rparr>)
           | _ \<Rightarrow> f\<lparr>of_streamSettings := Some (oput ''xhttpSettings'' (JObj [(''xmux'', JObj XMUX_DEFAULTS)]) s)\<rparr>))"

section \<open>The JSON tab\<close>

text \<open>What \<open>JSON.parse\<close> gives, read as an outbound; \<open>null\<close> and a malformed WireGuard block raise.\<close>

definition json_values :: "string \<Rightarrow> outbound_form option" where
  "json_values raw =
     (case json_parse raw of
        Some (JObj o1) \<Rightarrow> rawOutboundToFormValues o1
      | Some JNull \<Rightarrow> None
      | Some _ \<Rightarrow> rawOutboundToFormValues []
      | None \<Rightarrow> None)"

definition applyJsonToForm :: "outbound_dialog \<Rightarrow> outbound_dialog option" where
  "applyJsonToForm st =
     (if \<not> od_jsonDirty st then Some st
      else if trim (od_jsonText st) = [] then Some st
      else map_option (\<lambda>nxt. st\<lparr>od_form := nxt, od_jsonDirty := False\<rparr>) (json_values (trim (od_jsonText st))))"

definition onTabChange :: "tab_key \<Rightarrow> outbound_dialog \<Rightarrow> outbound_dialog" where
  "onTabChange key st =
     (case key of
        Json_Tab \<Rightarrow> st\<lparr>od_jsonText := payload_text (od_form st), od_jsonDirty := False, od_activeKey := Json_Tab\<rparr>
      | Basic_Tab \<Rightarrow>
          if od_activeKey st = Json_Tab
          then (case applyJsonToForm st of None \<Rightarrow> st | Some st' \<Rightarrow> st'\<lparr>od_activeKey := Basic_Tab\<rparr>)
          else st\<lparr>od_activeKey := Basic_Tab\<rparr>)"

definition importLink :: "(string \<Rightarrow> string option) \<Rightarrow> outbound_dialog \<Rightarrow> outbound_dialog" where
  "importLink ip6 st =
     (let link = trim (od_linkInput st) in
      if link = [] then st
      else case parseOutboundLink ip6 link of
        Some (JObj parsed) \<Rightarrow>
          (let currentTag = of_tag (od_form st);
               parsed = (if \<not> truthy (oget parsed ''tag'') \<and> currentTag \<noteq> [] then oput ''tag'' (JStr currentTag) parsed else parsed)
           in case rawOutboundToFormValues parsed of
                None \<Rightarrow> st
              | Some nxt \<Rightarrow> st\<lparr>od_form := nxt, od_jsonText := payload_text nxt, od_jsonDirty := False, od_linkInput := [],
                               od_activeKey := Basic_Tab\<rparr>)
      | _ \<Rightarrow> st)"

section \<open>Confirming\<close>

definition duplicateTag :: "outbound_dialog \<Rightarrow> string \<Rightarrow> bool" where
  "duplicateTag st t \<longleftrightarrow>
     t \<in> set (od_existingTags st) \<and> \<not> (case od_outbound st of None \<Rightarrow> False | Some o1 \<Rightarrow> oget o1 ''tag'' = JStr t)"

definition confirm_values :: "(outbound_form \<Rightarrow> bool) \<Rightarrow> outbound_dialog \<Rightarrow> outbound_form option" where
  "confirm_values valid st =
     (case od_activeKey st of
        Json_Tab \<Rightarrow> if trim (od_jsonText st) = [] then None else json_values (trim (od_jsonText st))
      | Basic_Tab \<Rightarrow> if valid (od_form st) then Some (od_form st) else None)"

definition onOk :: "(outbound_form \<Rightarrow> bool) \<Rightarrow> outbound_dialog \<Rightarrow> jobj option" where
  "onOk valid st =
     (case confirm_values valid st of
        None \<Rightarrow> None
      | Some values \<Rightarrow>
          (let tagValue = trim (of_tag values) in
           if tagValue = [] then None
           else if duplicateTag st tagValue then None
           else Some (Outbound_Adapter.formValuesToWirePayload values)))"

section \<open>A session\<close>

datatype dialog_event =
    Ev_Fields outbound_form | Ev_Protocol string | Ev_Security string | Ev_Network string | Ev_Xmux bool
  | Ev_Tab tab_key | Ev_Json string | Ev_Link string | Ev_Import

fun handle_event :: "(string \<Rightarrow> string option) \<Rightarrow> dialog_event \<Rightarrow> outbound_dialog \<Rightarrow> outbound_dialog" where
  "handle_event ip6 (Ev_Fields f) st = st\<lparr>od_form := f\<rparr>"
| "handle_event ip6 (Ev_Protocol p) st =
     (case onProtocolChange p (od_form st) of None \<Rightarrow> st | Some f \<Rightarrow> st\<lparr>od_form := f\<rparr>)"
| "handle_event ip6 (Ev_Security s) st = st\<lparr>od_form := onOutboundSecurityChange s (od_form st)\<rparr>"
| "handle_event ip6 (Ev_Network n) st = st\<lparr>od_form := onOutboundNetworkChange n (od_form st)\<rparr>"
| "handle_event ip6 (Ev_Xmux b) st = st\<lparr>od_form := onXmuxToggle b (od_form st)\<rparr>"
| "handle_event ip6 (Ev_Tab k) st = onTabChange k st"
| "handle_event ip6 (Ev_Json s) st = st\<lparr>od_jsonText := s, od_jsonDirty := True\<rparr>"
| "handle_event ip6 (Ev_Link s) st = st\<lparr>od_linkInput := s\<rparr>"
| "handle_event ip6 Ev_Import st = importLink ip6 st"

definition dialog_step :: "(string \<Rightarrow> string option) \<Rightarrow> dialog_event \<Rightarrow> outbound_dialog \<Rightarrow> outbound_dialog" where
  "dialog_step ip6 e st = (let st' = handle_event ip6 e st in st'\<lparr>od_form := run_effects (od_form st')\<rparr>)"

definition run_dialog :: "(string \<Rightarrow> string option) \<Rightarrow> dialog_event list \<Rightarrow> outbound_dialog \<Rightarrow> outbound_dialog" where
  "run_dialog ip6 es st = fold (dialog_step ip6) es (st\<lparr>od_form := run_effects (od_form st)\<rparr>)"

section \<open>The tab\<close>

definition tag_texts :: "js list \<Rightarrow> string list" where
  "tag_texts xs = List.map_filter (\<lambda>x. case jget x ''tag'' of JStr s \<Rightarrow> if s \<noteq> [] then Some s else None | _ \<Rightarrow> None) xs"

definition openAdd :: "jobj \<Rightarrow> string \<Rightarrow> outbound_dialog option" where
  "openAdd t link = open_outbound None (tag_texts (js_elems (oget t ''outbounds''))) link"

definition openEdit :: "nat \<Rightarrow> jobj \<Rightarrow> string \<Rightarrow> outbound_dialog option" where
  "openEdit idx t link =
     (let xs = js_elems (oget t ''outbounds'') in
      open_outbound (case elem_at xs idx of JObj o1 \<Rightarrow> Some o1 | _ \<Rightarrow> None) (tag_texts (remove_at idx xs)) link)"

section \<open>The effects settle\<close>

text \<open>What the effects see to: the transport the protocol has, and the public key of a WireGuard outbound.\<close>

definition transport_fits :: "outbound_form \<Rightarrow> bool" where
  "transport_fits f \<longleftrightarrow>
     (form_protocol f = ''hysteria'' \<longrightarrow> watched_network f = JStr ''hysteria'' \<and> oget (stream_of f) ''security'' = JStr ''tls'') \<and>
     (form_protocol f = ''wireguard'' \<longrightarrow> \<not> truthy (watched_network f)) \<and>
     (form_protocol f \<in> set [''vmess'', ''vless'', ''trojan'', ''shadowsocks''] \<longrightarrow> truthy (watched_network f)) \<and>
     (case of_settings f of Of_Wireguard s \<Rightarrow> wg_pubKey s = derived_key (wg_secretKey s) | _ \<Rightarrow> True)"

lemma stream_protocols: "streamAllowed f \<longleftrightarrow> form_protocol f \<in> set [''vmess'', ''vless'', ''trojan'', ''shadowsocks'', ''hysteria'', ''wireguard'']"
  unfolding form_protocol_def
  by (cases "of_settings f") (simp_all add: streamAllowed_def canEnableStream_def Capabilities.STREAM_PROTOCOLS_def form_protocol_def)

lemma wireguard_protocol: "form_protocol f = ''wireguard'' \<longleftrightarrow> (\<exists>s. of_settings f = Of_Wireguard s)"
  unfolding form_protocol_def by (cases "of_settings f") simp_all

lemma slice_gets:
  "oget hysteriaStreamSlice ''network'' = JStr ''hysteria''" "oget hysteriaStreamSlice ''security'' = JStr ''tls''"
  "oget (newStreamSlice ''tcp'' @ [(''security'', JStr ''none'')]) ''network'' = JStr ''tcp''"
  by code_simp+

lemma effects_protocol:
  "form_protocol (seed_effect w f) = form_protocol f" "form_protocol (hysteria_effect w f) = form_protocol f"
  "of_settings (seed_effect w f) = of_settings f" "of_settings (hysteria_effect w f) = of_settings f"
  by (simp_all add: seed_effect_def hysteria_effect_def form_protocol_def Let_def)

lemma key_effect_stream [simp]: "of_streamSettings (key_effect w f) = of_streamSettings f" "form_protocol (key_effect w f) = form_protocol f"
  by (auto simp: key_effect_def form_protocol_def split: outbound_form_settings.splits)

lemma stream_of_key [simp]: "stream_of (key_effect w f) = stream_of f" "watched_network (key_effect w f) = watched_network f"
  by (simp_all add: stream_of_def watched_network_def)

lemma fits_fixed: "transport_fits f \<Longrightarrow> run_effects f = f"
proof -
  assume a: "transport_fits f"
  have s: "seed_effect f f = f"
    using a by (auto simp: seed_effect_def stream_protocols transport_fits_def)
  have h: "hysteria_effect f f = f"
    using a by (auto simp: hysteria_effect_def transport_fits_def)
  have "key_effect f f = f"
    using a by (cases f) (auto simp: key_effect_def transport_fits_def split: outbound_form_settings.splits)
  with s h show ?thesis by (simp add: run_effects_def)
qed

lemma effects_need_a_change:
  assumes "transport_fits f" and "form_protocol g = form_protocol f" and "watched_network g = watched_network f"
    and "oget (stream_of g) ''security'' = oget (stream_of f) ''security''"
    and "\<And>s t. of_settings f = Of_Wireguard s \<Longrightarrow> of_settings g = Of_Wireguard t \<Longrightarrow>
       wg_secretKey t = wg_secretKey s \<and> wg_pubKey t = wg_pubKey s"
  shows "run_effects g = g"
proof (rule fits_fixed)
  have "case of_settings g of Of_Wireguard t \<Rightarrow> wg_pubKey t = derived_key (wg_secretKey t) | _ \<Rightarrow> True"
  proof (cases "form_protocol g = ''wireguard''")
    case True
    then obtain s t where "of_settings f = Of_Wireguard s" "of_settings g = Of_Wireguard t"
      using assms(2) wireguard_protocol by metis
    then show ?thesis using assms(1) assms(5)[of s t] by (simp add: transport_fits_def)
  next
    case False
    then show ?thesis using wireguard_protocol[of g] by (auto split: outbound_form_settings.split)
  qed
  then show "transport_fits g" using assms(1-4) unfolding transport_fits_def by simp
qed

lemma stream_of_set [simp]: "stream_of (f\<lparr>of_streamSettings := Some s\<rparr>) = s"
  by (simp add: stream_of_def)

lemma hysteria_effect_sets:
  assumes "form_protocol w = ''hysteria''" and "\<not> (watched_network w = JStr ''hysteria'' \<and> oget (stream_of w) ''security'' = JStr ''tls'')"
  shows "oget (stream_of (hysteria_effect w f)) ''network'' = JStr ''hysteria'' \<and> oget (stream_of (hysteria_effect w f)) ''security'' = JStr ''tls''"
  unfolding hysteria_effect_def Let_def if_not_P[OF assms(2)]
  using assms(1) by (simp add: slice_gets del: oput.simps)

lemma run_fits: "transport_fits (run_effects f)"
proof -
  let ?s = "seed_effect f f" and ?r = "run_effects f"
  have p: "form_protocol ?r = form_protocol f" by (simp add: run_effects_def effects_protocol)
  have st: "stream_of ?r = stream_of (hysteria_effect f ?s)" "watched_network ?r = watched_network (hysteria_effect f ?s)"
    by (simp_all add: run_effects_def)
  have "watched_network ?r = JStr ''hysteria'' \<and> oget (stream_of ?r) ''security'' = JStr ''tls''" if "form_protocol f = ''hysteria''"
  proof (cases "watched_network f = JStr ''hysteria'' \<and> oget (stream_of f) ''security'' = JStr ''tls''")
    case True
    then have "?s = f" "hysteria_effect f f = f" using that by (simp_all add: seed_effect_def stream_protocols hysteria_effect_def)
    then show ?thesis using True st by simp
  next
    case False
    then show ?thesis using hysteria_effect_sets[OF that] unfolding st watched_network_def by blast
  qed
  moreover have "\<not> truthy (watched_network ?r)" if "form_protocol f = ''wireguard''"
    using that unfolding st
    by (simp add: hysteria_effect_def seed_effect_def stream_protocols watched_network_def stream_of_def)
  moreover have "truthy (watched_network ?r)" if "form_protocol f \<in> set [''vmess'', ''vless'', ''trojan'', ''shadowsocks'']"
  proof -
    have "form_protocol f \<noteq> ''hysteria''" "form_protocol f \<noteq> ''wireguard''" "streamAllowed f" using that by (auto simp: stream_protocols)
    then show ?thesis unfolding st
      by (simp add: hysteria_effect_def seed_effect_def watched_network_def stream_of_def slice_gets del: append.simps)
  qed
  moreover have "case of_settings ?r of Of_Wireguard s \<Rightarrow> wg_pubKey s = derived_key (wg_secretKey s) | _ \<Rightarrow> True"
    by (simp add: run_effects_def key_effect_def effects_protocol split: outbound_form_settings.splits)
  ultimately show ?thesis unfolding transport_fits_def p by blast
qed

lemma step_form: "od_form (dialog_step ip6 e st) = run_effects (od_form (handle_event ip6 e st))"
  by (simp add: dialog_step_def Let_def)

text \<open>
  C8
  After whatever was done in the dialog - edits, changes of protocol, network and security, the JSON tab, an
  imported link - its effects have come to rest, and they leave alone exactly the forms that fit: a hysteria
  outbound has its own network with TLS, a WireGuard one no network, every other protocol with a transport has
  one, and the public key of a WireGuard outbound is the one of its secret.
\<close>
theorem dialog_settled:
  "run_effects (od_form (run_dialog ip6 es st)) = od_form (run_dialog ip6 es st) \<and>
   transport_fits (od_form (run_dialog ip6 es st)) \<and>
   (run_effects f = f \<longleftrightarrow> transport_fits f)"
proof -
  have "transport_fits (od_form (fold (dialog_step ip6) es st'))" if "transport_fits (od_form st')" for st'
    using that by (induction es arbitrary: st') (simp_all add: step_form run_fits)
  then have "transport_fits (od_form (run_dialog ip6 es st))" by (simp add: run_dialog_def run_fits)
  then show ?thesis using fits_fixed run_fits by metis
qed

section \<open>Masks of a WireGuard outbound\<close>

text \<open>
  The form offers masks to a WireGuard outbound (they are all its stream settings are for, beside the socket
  options), but no mask is ever written for one: only the socket options are.
\<close>
theorem wireguard_masks_lost:
  assumes "of_settings v = Of_Wireguard s"
  shows "oget (Outbound_Adapter.formValuesToWirePayload v) ''streamSettings'' = JUndef \<or>
         (\<exists>x. oget (Outbound_Adapter.formValuesToWirePayload v) ''streamSettings'' = JObj [(''sockopt'', x)])"
  unfolding payload_fields stream_wire_def
  by (cases "of_streamSettings v") (simp_all add: assms Outbound_Adapter.STREAM_PROTOCOLS_def)

text \<open>A change of the protocol keeps the security, also for a protocol that does not offer it.\<close>

lemma protocol_change_keeps_stream:
  "onProtocolChange p f = Some f' \<Longrightarrow> p \<noteq> ''hysteria'' \<Longrightarrow> watched_network f \<noteq> JStr ''hysteria'' \<Longrightarrow>
   of_streamSettings f' = of_streamSettings f"
  by (auto simp: onProtocolChange_def Let_def watched_network_def stream_of_def)

section \<open>Tags\<close>

definition tag_text :: "js \<Rightarrow> string list" where
  "tag_text x = (case jget x ''tag'' of JStr s \<Rightarrow> if s \<noteq> [] then [s] else [] | _ \<Rightarrow> [])"

lemma tag_texts_concat: "tag_texts xs = concat (map tag_text xs)"
  by (induction xs) (auto simp: tag_texts_def tag_text_def split: js.splits)

lemma tag_texts_append: "tag_texts (xs @ ys) = tag_texts xs @ tag_texts ys"
  by (simp add: tag_texts_concat)

lemma tag_texts_rename [simp]: "tag_texts (map (rename_outbound old new) xs) = tag_texts xs"
proof -
  have "tag_text (rename_outbound old new x) = tag_text x" for x
    by (simp add: tag_text_def rename_outbound_def Let_def)
  then show ?thesis by (simp add: tag_texts_concat o_def)
qed

lemma tag_text_outbound: "tag_text (JObj out) = (case oget out ''tag'' of JStr s \<Rightarrow> if s \<noteq> [] then [s] else [] | _ \<Rightarrow> [])"
  by (simp add: tag_text_def)

lemma split_at: "i < length xs \<Longrightarrow> xs = take i xs @ elem_at xs i # drop (Suc i) xs"
  by (simp add: elem_at_def Cons_nth_drop_Suc)

lemma tag_texts_set_at:
  "i < length xs \<Longrightarrow> tag_texts (set_at i v xs) = tag_texts (take i xs) @ tag_text v @ tag_texts (drop (Suc i) xs)"
  by (simp add: set_at_def upd_conv_take_nth_drop tag_texts_concat)

lemma tag_texts_split:
  "i < length xs \<Longrightarrow> tag_texts xs = tag_texts (take i xs) @ tag_text (elem_at xs i) @ tag_texts (drop (Suc i) xs)"
  by (subst split_at, assumption) (simp add: tag_texts_concat)

lemma confirm_outbounds:
  assumes "onOutboundConfirm i out t = Some t'"
  shows "tag_texts (js_elems (oget t' ''outbounds'')) =
     (case i of None \<Rightarrow> tag_texts (js_elems (oget t ''outbounds'')) @ tag_text (JObj out)
      | Some i \<Rightarrow> tag_texts (set_at i (JObj out) (js_elems (oget t ''outbounds''))))"
proof (cases i)
  case None
  then show ?thesis using assms
    by (auto simp: onOutboundConfirm_def Let_def tag_texts_concat tag_text_outbound js_elems_def
        simp del: oput.simps split: js.splits if_splits)
next
  case (Some k)
  let ?ys = "set_at k (JObj out) (js_elems (oget t ''outbounds''))"
  let ?t = "JObj (oput ''outbounds'' (JArr ?ys) t)"
  have r: "tag_texts (js_elems (oget (obj_of (propagateOutboundTagRename ?t old new)) ''outbounds'')) = tag_texts ?ys"
    if "old \<noteq> []" "new \<noteq> []" "old \<noteq> new" for old new
  proof -
    have "oget (obj_of x) k' = jget x k'" for x k' by (cases x) (simp_all add: obj_of_def)
    moreover have "js_elems (jget ?t ''outbounds'') = ?ys" by (simp add: js_elems_def del: oput.simps)
    ultimately show ?thesis by (simp only: routing_after(2)[OF that] tag_texts_rename)
  qed
  have e: "js_elems (oget (oput ''outbounds'' (JArr ?ys) t) ''outbounds'') = ?ys" by (simp add: js_elems_def del: oput.simps)
  show ?thesis using assms r e unfolding onOutboundConfirm_def Let_def Some option.case
    by (auto simp del: oput.simps split: js.splits if_splits)
qed

definition outbound_tags :: "jobj \<Rightarrow> string list" where
  "outbound_tags t = tag_texts (js_elems (oget t ''outbounds''))"

lemma opened_with:
  assumes "open_outbound o1 tags link = Some st"
  shows "od_outbound st = o1" "od_existingTags st = tags"
  using assms by (auto simp: open_outbound_def)

lemma event_keeps: "od_outbound (handle_event ip6 e st) = od_outbound st \<and> od_existingTags (handle_event ip6 e st) = od_existingTags st"
  by (cases e) (auto simp: onTabChange_def applyJsonToForm_def importLink_def Let_def split: option.splits tab_key.splits js.splits)

lemma run_keeps: "od_outbound (run_dialog ip6 es st) = od_outbound st \<and> od_existingTags (run_dialog ip6 es st) = od_existingTags st"
proof -
  have "od_outbound (fold (dialog_step ip6) es st') = od_outbound st' \<and> od_existingTags (fold (dialog_step ip6) es st') = od_existingTags st'" for st'
    by (induction es arbitrary: st') (simp_all add: dialog_step_def Let_def event_keeps)
  then show ?thesis by (simp add: run_dialog_def)
qed

text \<open>The dialog opened by the tab, for a new outbound or for one of the list.\<close>

definition open_for :: "nat option \<Rightarrow> jobj \<Rightarrow> string \<Rightarrow> outbound_dialog option" where
  "open_for i t link = (case i of None \<Rightarrow> openAdd t link | Some k \<Rightarrow> openEdit k t link)"

lemma ok_tag:
  assumes "onOk valid st = Some out" and "oget out ''tag'' = JStr s" and "trim s = s"
  shows "s \<noteq> []" and "\<not> duplicateTag st s"
proof -
  obtain v where v: "out = Outbound_Adapter.formValuesToWirePayload v" "trim (of_tag v) \<noteq> []" "\<not> duplicateTag st (trim (of_tag v))"
    using assms(1) by (auto simp: onOk_def Let_def split: option.splits if_splits)
  have "of_tag v = s" using assms(2) by (auto simp: v(1) payload_fields str_or_undef_def split: if_splits)
  then show "s \<noteq> []" "\<not> duplicateTag st s" using v assms(3) by simp_all
qed

text \<open>
  C7
  Outbounds with distinct tags stay so when an outbound is added or edited in the dialog, whatever is done
  there and by whichever tab it is confirmed, and whatever a renaming does to the rest of the template -
  provided that the confirmed tag has no blanks around it.
\<close>
theorem confirmed_tags_distinct:
  assumes "open_for i t link = Some st" and "onOk valid (run_dialog ip6 es st) = Some out"
    and "oget out ''tag'' = JStr s" and "trim s = s"
    and "\<forall>k. i = Some k \<longrightarrow> k < length (js_elems (oget t ''outbounds''))"
    and "onOutboundConfirm i out t = Some t'" and "distinct (outbound_tags t)"
  shows "distinct (outbound_tags t')"
proof -
  let ?xs = "js_elems (oget t ''outbounds'')"
  note ok = ok_tag[OF assms(2-4)]
  have tt: "tag_text (JObj out) = [s]" using ok(1) by (simp add: tag_text_outbound assms(3))
  show ?thesis
  proof (cases i)
    case None
    have "od_outbound st = None" "od_existingTags st = tag_texts ?xs"
      using assms(1) opened_with by (auto simp: None open_for_def openAdd_def)
    then have "s \<notin> set (tag_texts ?xs)" using ok(2) by (simp add: duplicateTag_def run_keeps)
    then show ?thesis
      using assms(7) confirm_outbounds[OF assms(6)] by (simp add: outbound_tags_def None tt)
  next
    case (Some k)
    have k: "k < length ?xs" using assms(5) Some by simp
    have st: "od_outbound st = (case elem_at ?xs k of JObj o1 \<Rightarrow> Some o1 | _ \<Rightarrow> None)"
      "od_existingTags st = tag_texts (take k ?xs) @ tag_texts (drop (Suc k) ?xs)"
      using assms(1) opened_with by (auto simp: Some open_for_def openEdit_def Let_def remove_at_def tag_texts_append)
    have d: "distinct (tag_texts (take k ?xs) @ tag_text (elem_at ?xs k) @ tag_texts (drop (Suc k) ?xs))"
      using assms(7) tag_texts_split[OF k] by (simp add: outbound_tags_def)
    have "s \<notin> set (tag_texts (take k ?xs)) \<union> set (tag_texts (drop (Suc k) ?xs))"
    proof
      assume i: "s \<in> set (tag_texts (take k ?xs)) \<union> set (tag_texts (drop (Suc k) ?xs))"
      with ok(2) have "case od_outbound st of None \<Rightarrow> False | Some o1 \<Rightarrow> oget o1 ''tag'' = JStr s"
        by (auto simp: duplicateTag_def run_keeps st(2))
      then have "tag_text (elem_at ?xs k) = [s]"
        using ok(1) by (auto simp: st(1) tag_text_def split: option.splits js.splits)
      with d i show False by auto
    qed
    with d show ?thesis
      using confirm_outbounds[OF assms(6)] by (auto simp: outbound_tags_def Some tt tag_texts_set_at[OF k])
  qed
qed

definition sample_form :: "string \<Rightarrow> outbound_form" where
  "sample_form t = \<lparr>of_settings = Of_Socks \<lparr>sa_address = ''h'', sa_port = 1080, sa_user = [], sa_pass = []\<rparr>, of_tag = t,
     of_sendThrough = [], of_mux = None, of_streamSettings = None\<rparr>"

lemma sample_tag: "oget (Outbound_Adapter.formValuesToWirePayload (sample_form ''b'')) ''tag'' = JStr ''b''"
  by (simp add: payload_fields str_or_undef_def sample_form_def)

lemma sample_settled: "run_effects (sample_form t) = sample_form t"
  by (rule fits_fixed) (simp add: transport_fits_def sample_form_def form_protocol_def)

lemma confirmed_tags_distinct_witness:
  "let t = [(''outbounds'', JArr [JObj [(''tag'', JStr ''a'')]])]
   in \<exists>st out t'. open_for None t [] = Some st \<and>
      onOk (\<lambda>_. True) (run_dialog (\<lambda>_. None) [Ev_Fields (sample_form ''b'')] st) = Some out \<and>
      onOutboundConfirm None out t = Some t' \<and> distinct (outbound_tags t') \<and> outbound_tags t' = [''a'', ''b'']"
proof -
  define t where "t = [(''outbounds'', JArr [JObj [(''tag'', JStr ''a'')]])]"
  let ?out = "Outbound_Adapter.formValuesToWirePayload (sample_form ''b'')"
  obtain v where v: "buildAddModeValues = Some v" by (simp add: buildAddModeValues_def rawOutboundToFormValues_def settingsFromWire_def Let_def)
  define st where "st = \<lparr>od_outbound = None, od_existingTags = [''a''], od_form = v, od_activeKey = Basic_Tab,
     od_jsonText = payload_text v, od_jsonDirty = False, od_linkInput = []\<rparr>"
  have tg: "tag_texts (js_elems (oget t ''outbounds'')) = [''a'']" by (simp add: t_def js_elems_def tag_texts_concat tag_text_def)
  have o: "open_for None t [] = Some st" unfolding open_for_def openAdd_def option.case tg open_outbound_def v st_def by simp
  have b: "trim ''b'' = ''b''" by code_simp
  have k: "onOk (\<lambda>_. True) (run_dialog (\<lambda>_. None) [Ev_Fields (sample_form ''b'')] st) = Some ?out"
    by (simp add: run_dialog_def dialog_step_def Let_def sample_settled onOk_def confirm_values_def st_def duplicateTag_def)
      (simp add: sample_form_def b)
  have g: "oget ?out ''tag'' = JStr ''b''" by (rule sample_tag)
  obtain t' where t': "onOutboundConfirm None ?out t = Some t'"
    by (simp add: onOutboundConfirm_def Let_def g del: oput.simps)
  have "distinct (outbound_tags t')"
    by (rule confirmed_tags_distinct[OF o k g b _ t']) (simp_all add: outbound_tags_def tg)
  moreover have "outbound_tags t' = [''a'', ''b'']"
    using confirm_outbounds[OF t'] by (simp add: outbound_tags_def tg tag_text_outbound g)
  ultimately show ?thesis unfolding Let_def t_def[symmetric] using o k t' by blast
qed

text \<open>
  The check compares the trimmed tag with the stored ones, but the tag that is stored is the one typed: a tag
  with a blank at its end passes as often as it is entered.
\<close>
theorem blanks_let_tags_repeat:
  assumes "od_activeKey st = Basic_Tab" and "valid (od_form st)" and "of_tag (od_form st) = ''x ''" and "od_outbound st = None"
    and "od_existingTags st = outbound_tags t" and "outbound_tags t = [''x '']"
  shows "\<exists>out t'. onOk valid st = Some out \<and> onOutboundConfirm None out t = Some t' \<and> outbound_tags t' = [''x '', ''x '']"
proof -
  let ?out = "Outbound_Adapter.formValuesToWirePayload (od_form st)"
  have "trim ''x '' = ''x''" by code_simp
  then have k: "onOk valid st = Some ?out"
    using assms by (simp add: onOk_def confirm_values_def duplicateTag_def)
  have g: "oget ?out ''tag'' = JStr ''x ''" by (simp add: payload_fields str_or_undef_def assms(3))
  obtain t' where t': "onOutboundConfirm None ?out t = Some t'" by (simp add: onOutboundConfirm_def Let_def g del: oput.simps)
  have "outbound_tags t' = [''x '', ''x '']"
    using confirm_outbounds[OF t'] assms(6) by (simp add: outbound_tags_def tag_text_outbound g)
  with k t' show ?thesis by blast
qed

section \<open>The two tabs\<close>

text \<open>The payload is one a JSON text can hold: its numbers are whole and its stream settings have no undefined member.\<close>

definition json_outbound :: "outbound_form \<Rightarrow> bool" where
  "json_outbound v \<longleftrightarrow>
     (let p = Outbound_Adapter.formValuesToWirePayload v in
      tidy_obj p \<and> json_clean (pruneEmpty (JObj p)) \<and> (stream_wire v = JUndef \<or> json_clean (stream_wire v)))"

lemma text_braces: "\<exists>t. json_stringify2 (JObj o1) = CHR ''{'' # t @ [CHR ''}'']"
  by (auto simp: json_stringify2_def line_sep_def split: list.splits)

lemma payload_text_trim: "trim (payload_text v) = payload_text v" "payload_text v \<noteq> []"
proof -
  obtain t where t: "payload_text v = CHR ''{'' # t @ [CHR ''}'']"
    using text_braces unfolding payload_text_def by blast
  have p: "plain_char CHR ''{''" "plain_char CHR ''}''"
    by (simp_all add: plain_char_def ascii_ws_def is_lead_def is_tail_def)
  show "trim (payload_text v) = payload_text v"
    by (rule trim_id) (use p in \<open>simp_all add: t ws_len_def rws_len_def plain_char_def\<close>)
  show "payload_text v \<noteq> []" by (simp add: t)
qed

lemma payload_text_read:
  assumes "form_ok v" and "json_outbound v"
  shows "json_values (payload_text v) = Some v"
proof -
  let ?p = "Outbound_Adapter.formValuesToWirePayload v"
  have j: "tidy_obj ?p" "json_clean (pruneEmpty (JObj ?p))" and s: "solid (stream_wire v) \<or> stream_wire v = JUndef"
    using assms(2) clean_solid by (auto simp: json_outbound_def Let_def)
  have "payload_text v = json_stringify2 (pruneEmpty (JObj ?p))"
    using j(1) by (simp only: payload_text_def json_stringify2_def prune_same_gen tidy_obj_def)
  then have "json_parse (payload_text v) = Some (pruneEmpty (JObj ?p))" using json_parse_stringify2[OF j(2)] by simp
  moreover have "pruneEmpty (JObj ?p) = JObj (pruned ?p)"
    using prune_obj_eq[of ?p] j(1) by (simp add: tidy_obj_def prune_obj_def)
  ultimately show ?thesis using payload_pruned[OF assms(1) j(1) s] by (simp add: json_values_def)
qed

text \<open>
  C6
  For a form in normal form whose transport fits its protocol and whose outbound is plain JSON, the JSON tab
  shows the outbound the form stands for: leaving it, whether or not its text was typed anew, brings back the
  form as it was, at rest; confirming there hands over the same outbound, after the same checks of the tag, as
  confirming the form when its fields pass their validation. The JSON tab asks for no validation.
\<close>
theorem json_tab_agrees:
  assumes "od_activeKey st = Basic_Tab" and "form_ok (od_form st)" and "json_outbound (od_form st)"
    and "transport_fits (od_form st)"
  shows "(let st2 = dialog_step ip6 (Ev_Tab Json_Tab) st;
              st3 = dialog_step ip6 (Ev_Json (od_jsonText st2)) st2 in
          onOk valid st2 = onOk (\<lambda>_. True) st \<and> onOk valid st3 = onOk (\<lambda>_. True) st \<and>
          (valid (od_form st) \<longrightarrow> onOk valid st = onOk valid st2) \<and>
          (\<not> valid (od_form st) \<longrightarrow> onOk valid st = None) \<and>
          od_form (dialog_step ip6 (Ev_Tab Basic_Tab) st2) = od_form st \<and>
          od_form (dialog_step ip6 (Ev_Tab Basic_Tab) st3) = od_form st \<and>
          od_activeKey (dialog_step ip6 (Ev_Tab Basic_Tab) st3) = Basic_Tab)"
proof -
  define st2 where "st2 = st\<lparr>od_jsonText := payload_text (od_form st), od_jsonDirty := False, od_activeKey := Json_Tab\<rparr>"
  define st3 where "st3 = st2\<lparr>od_jsonText := payload_text (od_form st), od_jsonDirty := True\<rparr>"
  note at_rest = fits_fixed[OF assms(4)]
  note rd = payload_text_read[OF assms(2,3)]
  have s2: "dialog_step ip6 (Ev_Tab Json_Tab) st = st2"
    by (cases st) (use at_rest in \<open>simp add: dialog_step_def Let_def onTabChange_def st2_def\<close>)
  have s3: "dialog_step ip6 (Ev_Json (od_jsonText st2)) st2 = st3"
    by (cases st) (use at_rest in \<open>simp add: dialog_step_def Let_def st2_def st3_def\<close>)
  have v2: "confirm_values valid st2 = Some (od_form st)" "confirm_values valid st3 = Some (od_form st)"
    using rd payload_text_trim by (simp_all add: confirm_values_def st2_def st3_def)
  have v1: "confirm_values (\<lambda>_. True) st = Some (od_form st)"
    "valid (od_form st) \<longrightarrow> confirm_values valid st = Some (od_form st)"
    "\<not> valid (od_form st) \<longrightarrow> confirm_values valid st = None"
    using assms(1) by (simp_all add: confirm_values_def)
  have d: "duplicateTag st2 t = duplicateTag st t" "duplicateTag st3 t = duplicateTag st t" for t
    by (simp_all add: duplicateTag_def st2_def st3_def)
  have ok: "onOk valid st2 = onOk (\<lambda>_. True) st" "onOk valid st3 = onOk (\<lambda>_. True) st"
    unfolding onOk_def v1(1) v2 option.case d by (rule refl)+
  have fv: "valid (od_form st) \<longrightarrow> onOk valid st = onOk (\<lambda>_. True) st" "\<not> valid (od_form st) \<longrightarrow> onOk valid st = None"
    using v1 by (simp_all add: onOk_def)
  have "od_form (dialog_step ip6 (Ev_Tab Basic_Tab) st2) = od_form st"
    using at_rest by (simp add: dialog_step_def Let_def onTabChange_def applyJsonToForm_def st2_def)
  moreover have "od_form (dialog_step ip6 (Ev_Tab Basic_Tab) st3) = od_form st"
    "od_activeKey (dialog_step ip6 (Ev_Tab Basic_Tab) st3) = Basic_Tab"
    using at_rest rd payload_text_trim by (simp_all add: dialog_step_def Let_def onTabChange_def applyJsonToForm_def st3_def st2_def)
  ultimately show ?thesis using ok fv unfolding s2 Let_def s3 by simp
qed

definition sample_blackhole :: outbound_form where
  "sample_blackhole = \<lparr>of_settings = Of_Blackhole \<lparr>bh_type = []\<rparr>, of_tag = ''bh'', of_sendThrough = [],
     of_mux = Some mux_default, of_streamSettings = None\<rparr>"

lemma json_tab_agrees_witness:
  "let st = \<lparr>od_outbound = None, od_existingTags = [], od_form = sample_blackhole, od_activeKey = Basic_Tab, od_jsonText = [],
             od_jsonDirty = False, od_linkInput = []\<rparr>;
       st2 = dialog_step (\<lambda>_. None) (Ev_Tab Json_Tab) st
   in onOk (\<lambda>_. True) st2 = Some [(''protocol'', JStr ''blackhole''), (''settings'', JObj [(''response'', JUndef)]), (''tag'', JStr ''bh'')] \<and> od_form (dialog_step (\<lambda>_. None) (Ev_Tab Basic_Tab) st2) = sample_blackhole"
proof -
  define st where "st = \<lparr>od_outbound = None, od_existingTags = [], od_form = sample_blackhole, od_activeKey = Basic_Tab, od_jsonText = [],
             od_jsonDirty = False, od_linkInput = []\<rparr>"
  have f: "form_ok (od_form st)"
    by (simp add: st_def sample_blackhole_def form_ok_def mux_ok_def stream_part_ok_def blackhole_ok_def mux_default_def muxFromWire_def Let_def)
  have t: "transport_fits (od_form st)"
    by (simp add: st_def transport_fits_def sample_blackhole_def form_protocol_def)
  have p: "Outbound_Adapter.formValuesToWirePayload sample_blackhole =
     [(''protocol'', JStr ''blackhole''), (''settings'', JObj [(''response'', JUndef)]), (''tag'', JStr ''bh'')]"
    by (simp add: key_before_def is_digit_def Outbound_Adapter.formValuesToWirePayload_def sample_blackhole_def blackholeToWire_def mux_default_def muxFromWire_def Let_def)
  have j: "json_outbound (od_form st)"
    unfolding json_outbound_def Let_def st_def outbound_dialog.simps p tidy_obj_def
    by (intro conjI, code_simp, code_simp) (simp add: stream_wire_def sample_blackhole_def)
  have "od_activeKey st = Basic_Tab" and s: "od_form st = sample_blackhole" by (simp_all add: st_def)
  have "trim ''bh'' = ''bh''" by code_simp
  then have k: "onOk (\<lambda>_. True) st = Some [(''protocol'', JStr ''blackhole''), (''settings'', JObj [(''response'', JUndef)]), (''tag'', JStr ''bh'')]"
    unfolding onOk_def Let_def by (simp add: confirm_values_def duplicateTag_def st_def p) (simp add: sample_blackhole_def)
  from \<open>od_activeKey st = Basic_Tab\<close> json_tab_agrees[OF _ f j t, of "\<lambda>_. None" "\<lambda>_. True"] show ?thesis
    unfolding Let_def st_def[symmetric] s k by blast
qed


end
