(* ===== verification/Link_Import.thy ===== *)
theory Link_Import
  imports Link_Roundtrip Outbound_Dialog
begin

text \<open>
  From one panel to another: the share link of a VLESS inbound (\<open>lib/xray/inbound-link.ts\<close>), pasted into the
  outbound dialog (\<open>OutboundFormModal.tsx\<close>) and confirmed there.
\<close>

lemma vless_link_text:
  assumes "in_settings (gi_inbound i) = InVless st" and "in_stream (gi_inbound i) = Some stream"
    and "plain_input i" and "link_ok ''vless'' (or_empty (gi_secret i)) (gi_address i) (gi_port_of i)"
    and "params_ok (vless_params i st stream)" and "genVlessLink ip6 i = Some link"
  shows "\<not> starts_with link ''vmess://'' \<and> link \<noteq> []"
proof -
  have "link = url_href (final_url ''vless'' (or_empty (gi_secret i)) (gi_address i) (gi_port_of i) (vless_params i st stream) (or_empty (gi_remark i)))"
    using assms(6) link_url_ok(1)[OF assms(4,5) distinct_vless]
    by (simp add: genVlessLink_def assms(1,2))
  moreover have "u_scheme (final_url ''vless'' us h p ps r) = ''vless''" for us h p ps r
    by (simp add: final_url_def bare_url_def)
  ultimately show ?thesis by (simp add: url_href_def)
qed

lemma vless_outbound_read:
  "rawOutboundToFormValues [(''protocol'', JStr ''vless''), (''tag'', JStr t), (''settings'', JObj s), (''streamSettings'', JObj st)]
   = Some \<lparr>of_settings = Of_Vless (vlessFromWire s), of_tag = t, of_sendThrough = [], of_mux = Some (muxFromWire JUndef),
           of_streamSettings = (if st \<noteq> [] then Some (hydrateStreamForm st) else None)\<rparr>"
  by (simp add: rawOutboundToFormValues_def settingsFromWire_def Let_def spread_def)

lemma vless_wire_again:
  assumes "valid_port_no p"
  shows "oget (vlessToWire (vlessFromWire [(''address'', JStr a), (''port'', JInt p), (''id'', JStr u), (''flow'', JStr f),
           (''encryption'', JStr e)])) k =
         (if k = ''address'' then JStr a else if k = ''port'' then JInt p else if k = ''id'' then JStr u
          else if k = ''flow'' then JStr f else if k = ''encryption'' then JStr (sor e ''none'')
          else if k = ''testseed'' \<and> f = ''xtls-rprx-vision'' then JArr (map (\<lambda>q. JNum (Fin q)) default_seed) else JUndef)"
proof -
  have "asPort (JInt p) 443 = p" using assms by (simp add: valid_port_no_def Outbound_Adapter.port_ok_def)
  moreover have "sor (sor e ''none'') ''none'' = sor e ''none''" by (simp add: sor_def)
  ultimately show ?thesis
    by (simp add: vlessFromWire_def vlessToWire_def vless_reverse_def Let_def)
      (simp add: default_seed_def)
qed

lemma oput_filled: "oput k v o1 \<noteq> []"
  by (cases o1) simp_all

lemma client_stream_plain:
  assumes "Link_Roundtrip.stream_ok stream"
  shows "oget (client_stream n stream) ''xhttpSettings'' = JUndef" "client_stream n stream \<noteq> []"
    "oget (client_stream n stream) ''network'' = JStr n"
proof -
  have net: "net_ok (st_network stream)" using assms by (simp add: Link_Roundtrip.stream_ok_def)
  then have c: "fst (client_network (st_network stream)) \<noteq> ''xhttpSettings'' \<and> fst (client_network (st_network stream)) \<noteq> ''network''"
    by (cases "st_network stream") (simp_all add: net_ok_def client_network_def split: option.split tcp_header.split)
  have s: "oget (client_security x) ''xhttpSettings'' = JUndef" for x
    by (cases x) (simp_all add: client_security_def)
  obtain k b where k: "client_network (st_network stream) = (k, b)" by (cases "client_network (st_network stream)")
  show "oget (client_stream n stream) ''xhttpSettings'' = JUndef" "client_stream n stream \<noteq> []"
    "oget (client_stream n stream) ''network'' = JStr n"
    using c s unfolding client_stream_def k with_finalmask_def by (auto simp: oput_filled simp del: oput.simps)
qed

text \<open>
  C5
  A VLESS link generated for an inbound over TCP, WebSocket, gRPC or HTTPUpgrade, with no security, TLS or
  REALITY, without external proxy and forced TLS and with plain host names, pasted into the outbound dialog with
  blanks around it or without and confirmed, makes the outbound with the inbound's address, port and encryption,
  the client's id and flow, the remark as its tag and the client side of the stream, normalised for the wire; the
  form it passes through is at rest. The remark is not empty and free as a tag, and the form passes validation.
\<close>
theorem imported_link_confirmed:
  assumes "in_settings (gi_inbound i) = InVless st" and "in_stream (gi_inbound i) = Some stream"
    and "plain_input i" and "Link_Roundtrip.stream_ok stream"
    and "link_ok ''vless'' (or_empty (gi_secret i)) (gi_address i) (gi_port_of i)"
    and "params_ok (vless_params i st stream)" and "utf8_valid (or_empty (gi_remark i))"
    and "genVlessLink ip6 i = Some link" and "trim (od_linkInput d) = link"
    and "trim (or_empty (gi_remark i)) \<noteq> []" and "\<not> duplicateTag d (trim (or_empty (gi_remark i)))"
    and "valid (od_form (importLink ip6 d))"
  shows "run_effects (od_form (importLink ip6 d)) = od_form (importLink ip6 d) \<and>
    (\<exists>out s. onOk valid (importLink ip6 d) = Some out \<and>
       oget out ''protocol'' = JStr ''vless'' \<and> oget out ''tag'' = JStr (or_empty (gi_remark i)) \<and>
       oget out ''streamSettings'' = JObj (stripUiOnlyStreamFields (client_stream (type_param stream) stream)) \<and>
       oget out ''settings'' = JObj s \<and>
       oget s ''address'' = JStr (gi_address i) \<and> oget s ''port'' = JInt (gi_port_of i) \<and>
       oget s ''id'' = JStr (or_empty (gi_secret i)) \<and> oget s ''flow'' = JStr (link_flow i st stream) \<and>
       oget s ''encryption'' = JStr (sor (Share_Model.vl_encryption st) ''none''))"
proof -
  let ?s = "[(''address'', JStr (gi_address i)), (''port'', JInt (gi_port_of i)), (''id'', JStr (or_empty (gi_secret i))),
     (''flow'', JStr (link_flow i st stream)), (''encryption'', JStr (Share_Model.vl_encryption st))]"
  let ?c = "client_stream (type_param stream) stream" and ?t = "or_empty (gi_remark i)"
  let ?v = "\<lparr>of_settings = Of_Vless (vlessFromWire ?s), of_tag = ?t, of_sendThrough = [], of_mux = Some (muxFromWire JUndef),
           of_streamSettings = Some ?c\<rparr>"
  note text_facts = vless_link_text[OF assms(1-3,5,6,8)]
  have p: "parseVlessLink ip6 link = Some (JObj [(''protocol'', JStr ''vless''), (''tag'', JStr ?t), (''settings'', JObj ?s),
     (''streamSettings'', JObj ?c)])"
    using vless_link_back[OF assms(1-7), of ip6] assms(8) by simp
  have tl: "trim link = link" using assms(9) by (metis trim_idem)
  have po: "parseOutboundLink ip6 link = parseVlessLink ip6 link"
    using text_facts unfolding parseOutboundLink_def Let_def tl by (simp add: parseVmessLink_def p)
  have tg: "?t \<noteq> []" using assms(10) by auto
  have h: "hydrateStreamForm ?c = ?c" by (simp add: hydrateStreamForm_def client_stream_plain[OF assms(4)])
  have r: "rawOutboundToFormValues [(''protocol'', JStr ''vless''), (''tag'', JStr ?t), (''settings'', JObj ?s),
     (''streamSettings'', JObj ?c)] = Some ?v"
    unfolding vless_outbound_read h using client_stream_plain(2)[OF assms(4)] by simp
  have im: "importLink ip6 d = d\<lparr>od_form := ?v, od_jsonText := payload_text ?v, od_jsonDirty := False, od_linkInput := [],
      od_activeKey := Basic_Tab\<rparr>"
    unfolding importLink_def Let_def assms(9) po p using text_facts tg r by simp
  have n: "network_name (st_network stream) = Some (type_param stream)"
    using net_named[of "st_network stream"] assms(4) by (auto simp: Link_Roundtrip.stream_ok_def type_param_def)
  have tp: "type_param stream \<noteq> []" using n by (cases "st_network stream") auto
  have fits: "transport_fits ?v"
    using tp by (simp add: transport_fits_def form_protocol_def watched_network_def stream_of_def client_stream_plain[OF assms(4)])
  have ok: "onOk valid (importLink ip6 d) = Some (Outbound_Adapter.formValuesToWirePayload ?v)"
    using assms(10-12) unfolding im by (simp add: onOk_def confirm_values_def duplicateTag_def Let_def)
  have vp: "valid_port_no (gi_port_of i)" using assms(5) by (simp add: link_ok_def)
  have "oget (Outbound_Adapter.formValuesToWirePayload ?v) ''streamSettings'' = JObj (stripUiOnlyStreamFields ?c)"
    unfolding payload_fields by (simp add: stream_wire_def Outbound_Adapter.STREAM_PROTOCOLS_def)
  moreover have "oget (Outbound_Adapter.formValuesToWirePayload ?v) ''settings'' = JObj (vlessToWire (vlessFromWire ?s))"
    unfolding payload_fields by simp
  moreover have "oget (Outbound_Adapter.formValuesToWirePayload ?v) ''protocol'' = JStr ''vless''"
    "oget (Outbound_Adapter.formValuesToWirePayload ?v) ''tag'' = JStr ?t"
    unfolding payload_fields using tg by (simp_all add: str_or_undef_def)
  moreover note vless_wire_again[OF vp, of "gi_address i" "or_empty (gi_secret i)" "link_flow i st stream" "Share_Model.vl_encryption st"]
  ultimately show ?thesis
    using ok fits_fixed[OF fits] im by (intro conjI exI[of _ "Outbound_Adapter.formValuesToWirePayload ?v"] exI[of _ "vlessToWire (vlessFromWire ?s)"]) simp_all
qed


definition sample_link_input :: url_input where
  "sample_link_input = sample_input (InVless sample_vless) (sample_stream (NetWs sample_ws) (SecTls plain_tls)) ''u-1''"

definition sample_dialog :: "string \<Rightarrow> outbound_dialog" where
  "sample_dialog link = \<lparr>od_outbound = None, od_existingTags = [''direct''], od_form = sample_form [], od_activeKey = Json_Tab,
     od_jsonText = [], od_jsonDirty = False, od_linkInput = link\<rparr>"

lemma imported_link_confirmed_witness:
  "\<exists>link out s. genVlessLink (\<lambda>_. None) sample_link_input = Some link \<and>
     onOk (\<lambda>_. True) (importLink (\<lambda>_. None) (sample_dialog link)) = Some out \<and> oget out ''tag'' = JStr ''my node'' \<and>
     oget out ''settings'' = JObj s \<and> oget s ''address'' = JStr ''v.example.com'' \<and> oget s ''id'' = JStr ''u-1''"
proof -
  let ?stream = "sample_stream (NetWs sample_ws) (SecTls plain_tls)" and ?i = sample_link_input
  have ok: "Link_Roundtrip.stream_ok ?stream"
    by (simp add: Link_Roundtrip.stream_ok_def sample_stream_def net_ok_def sec_ok_def mask_ok_def plain_tls_def)
  have p: "plain_input ?i" by (simp add: plain_input_def sample_input_def sample_link_input_def)
  have l: "link_ok ''vless'' (or_empty (gi_secret ?i)) (gi_address ?i) (gi_port_of ?i)"
    by (simp add: link_ok_def sample_input_def gi_port_of_def valid_port_no_def scheme_ok_def plain_host_def sample_link_input_def) code_simp
  have ps: "params_ok (vless_params ?i sample_vless ?stream)"
    by (simp add: vless_params_stack[OF p]) code_simp
  have r: "or_empty (gi_remark ?i) = ''my node''" by (simp add: sample_input_def or_empty_def sample_link_input_def)
  have u: "utf8_valid (or_empty (gi_remark ?i))" unfolding r by (rule utf8_valid_ascii) (simp add: is_ascii_def)
  have s: "in_settings (gi_inbound ?i) = InVless sample_vless" "in_stream (gi_inbound ?i) = Some ?stream"
    by (simp_all add: sample_input_def sample_inbound_def sample_link_input_def)
  define link where "link = url_href (final_url ''vless'' (or_empty (gi_secret ?i)) (gi_address ?i) (gi_port_of ?i)
      (vless_params ?i sample_vless ?stream) (or_empty (gi_remark ?i)))"
  have g: "genVlessLink (\<lambda>_. None) ?i = Some link"
    using link_url_ok(1)[OF l ps distinct_vless] by (simp add: genVlessLink_def s link_def)
  have "encode_uri_component ''my node'' = ''my%20node''" by code_simp
  then obtain t where t: "link = CHR ''v'' # t @ [CHR ''e'']"
    unfolding link_def r by (auto simp: url_href_def final_url_def bare_url_def url_set_hash_def)
  have c: "plain_char CHR ''v''" "plain_char CHR ''e''"
    by (simp_all add: plain_char_def ascii_ws_def is_lead_def is_tail_def)
  have tl: "trim link = link"
    by (rule trim_id) (use c in \<open>simp_all add: t ws_len_def rws_len_def plain_char_def\<close>)
  have d: "trim (od_linkInput (sample_dialog link)) = link" by (simp add: sample_dialog_def tl)
  have tr: "trim ''my node'' = ''my node''" by code_simp
  have rr: "trim (or_empty (gi_remark ?i)) \<noteq> []" "\<not> duplicateTag (sample_dialog link) (trim (or_empty (gi_remark ?i)))"
    unfolding r tr by (simp_all add: duplicateTag_def sample_dialog_def)
  have a: "gi_address ?i = ''v.example.com''" "or_empty (gi_secret ?i) = ''u-1''"
    by (simp_all add: sample_input_def or_empty_def sample_link_input_def)
  show ?thesis
    using imported_link_confirmed[OF s p ok l ps u g d rr TrueI] g unfolding r a by blast
qed


end
