(* ===== verification/Spec2Isabelle.thy ===== *)
theory Spec2Isabelle
  imports Web_Url Headers Capabilities Inbound_Tag Wire_Normalize Link_Parser Share_Link Web_Socket Query_Bridge
    Outbound_Adapter Inbound_Adapter Random_Util Link_Roundtrip Wireguard_Field Routing_Config Xray_Setting
    Clients_State Inbounds_State Inbound_Rows Fallback_Rows Protocol_Defaults Log_Parse Csrf_Client
    Template_Tabs Rule_Form Dns_Settings Client_Form Client_Filters Inbound_Dialog Hosts
    Outbound_Text Outbound_Dialog Link_Import
begin

text \<open>
  The core logic of the panel's frontend. Paths are relative to \<open>src/frontend/src\<close>; those that begin with
  \<open>internal/\<close> are the Go server under \<open>src\<close>.

  \<^bold>\<open>The program.\<close> The panel configures an xray server: inbounds with their clients, and a template with
  outbounds, routing rules, balancers and DNS. The server stores rows whose nested parts are JSON texts. The
  frontend reads a row into a form, keeps the form consistent while it is edited, writes it back normalised for
  the wire, turns inbounds into share links and share links into outbounds, and keeps lists and counters up to
  date from queries and from messages a WebSocket pushes. React, antd, axios and the query cache are around
  that logic, not in it.

  \<^bold>\<open>The language.\<close>
  \<^item> \<open>Js_Prelude\<close>: values, numbers, objects as lists of own properties in enumeration order; the two collections
    \<open>js_simps\<close> and \<open>wire_simps\<close> the other theories add to.
  \<^item> \<open>Js_Text\<close>: the string and number operations the code calls. \<open>Json\<close>: \<open>JSON.stringify\<close> and \<open>JSON.parse\<close>;
    parsing undoes printing. \<open>Codecs\<close>: UTF-8, base64, percent-encoding, under the locale \<open>codec\<close>. \<open>Web_Url\<close>:
    \<open>URLSearchParams\<close> and \<open>URL\<close>, under the locales \<open>store\<close> and \<open>codec\<close>.

  \<^bold>\<open>Links.\<close>
  \<^item> \<open>Share_Model\<close> (\<open>schemas/protocols\<close>, \<open>schemas/api/inbound.ts\<close>): the inbound row and its blocks.
  \<^item> \<open>Share_Link\<close> (\<open>lib/xray/inbound-link.ts\<close>): every link generator and the fan-out over clients, proxies and
    peers. \<open>Link_Parser\<close> (\<open>lib/xray/outbound-link-parser.ts\<close>): every parser and the dispatcher.
  \<^item> \<open>Link_Roundtrip\<close>: what a generator writes a parser reads, for VLESS, VMess, Trojan and Shadowsocks, and
    where it does not (a percent-encoded Trojan password, a URL-safe Shadowsocks user part).
  \<^item> \<open>Base64_Text\<close>, \<open>Random_Util\<close>, \<open>Wireguard_Keys\<close> (\<open>utils/index.ts\<close>): texts in base64, drawn ids and
    passwords, X25519 over sixteen limbs. \<open>Wireguard_Field\<close>: the limbs compute in the field, no intermediate
    value leaves 53 bits, so the public key is that of the ladder on residues.
  \<^item> \<open>Link_Import\<close>: the link of one panel pasted into the outbound dialog of another.

  \<^bold>\<open>Wire shapes and forms.\<close>
  \<^item> \<open>Headers\<close>, \<open>Capabilities\<close>, \<open>Inbound_Tag\<close>, \<open>Wire_Normalize\<close> (the files of \<open>lib/xray\<close> of these names): the two
    header shapes, what an inbound may enable, derived tags beside the server's derivation, and the pruning
    of stream settings, under the locale \<open>normaliser\<close>.
  \<^item> \<open>Outbound_Form\<close>, \<open>Outbound_Adapter\<close>, \<open>Inbound_Adapter\<close> (\<open>lib/xray/outbound-form-adapter.ts\<close>,
    \<open>inbound-form-adapter.ts\<close>): rows to forms and back, the twelve outbound protocols each an interpretation of
    the locale \<open>wire_adapter\<close>; for a new inbound by way of the row the server makes of it
    (\<open>internal/web/service/inbound.go\<close>): its tag, share address and stream settings.
    \<open>Outbound_Text\<close>: undefined members make no difference to what is read.
  \<^item> \<open>Protocol_Defaults\<close> (\<open>inbound-defaults.ts\<close>, \<open>outbound-defaults.ts\<close> and the helpers of the forms): starting
    values; the MTProto secret is the one the server settles on where the domain has no blanks around it.
    \<open>Inbound_Rows\<close> (\<open>models/dbinbound.ts\<close>,
    \<open>inbound-from-db.ts\<close>): the row class and what lists and dialogs read off it.

  \<^bold>\<open>Dialogs.\<close>
  \<^item> \<open>Inbound_Dialog\<close>, \<open>Fallback_Rows\<close> (\<open>pages/inbounds/form\<close>): the effects over the watched fields, the handlers,
    the JSON editors, the fallback rows. The stream settings stay in step with network and security, a derived
    tag stays derived unless the one written last is typed back.
  \<^item> \<open>Outbound_Dialog\<close> (\<open>pages/xray/outbounds/OutboundFormModal.tsx\<close>): the effects come to rest, both tabs confirm
    the same outbound of a valid form (the JSON tab validates no field), tags stay distinct.
  \<^item> \<open>Client_Form\<close> (\<open>pages/clients/ClientFormModal.tsx\<close> and the save of \<open>ClientsPage.tsx\<close>): the form and the
    sequence of requests a save sends, against the server's rows, under the locale \<open>client_store\<close>; the server
    settles flow and Shadowsocks keys inbound by inbound (\<open>client_crud.go\<close>, \<open>client_link.go\<close>).
  \<^item> \<open>Rule_Form\<close>, \<open>Dns_Settings\<close> (\<open>pages/xray/routing\<close>, \<open>pages/xray/dns\<close>): a rule and a DNS server opened and
    saved again, and what the rules of their forms let through.
    \<open>Hosts\<close> (\<open>pages/hosts\<close>, \<open>lib/hosts\<close>): order, form, JSON overrides and preview of a host.

  \<^bold>\<open>The template.\<close>
  \<^item> \<open>Routing_Config\<close> (\<open>pages/xray/basics/helpers.ts\<close>, \<open>balancers/balancer-helpers.ts\<close>): lists of rules, renaming a
    tag, observatories. \<open>Template_Tabs\<close>: the edits of the routing, balancer and outbound tabs, the observatory
    editor and the basic lists among them, and their composition: references after any sequence of edits, and
    observatories after any that gives no outbound another tag and types no other selection.
  \<^item> \<open>Xray_Setting\<close> (\<open>hooks/useXraySetting.ts\<close>): the text and the template of the editor, and the run that
    tests all outbounds in two lanes as a step relation: bounded, terminating, complete. Tests of single rows
    beside it are left out.

  \<^bold>\<open>Lists and live data.\<close>
  \<^item> \<open>Clients_State\<close>, \<open>Client_Filters\<close> (\<open>hooks/useClients.ts\<close>, \<open>pages/clients\<close>, \<open>internal/web/service/client_paging.go\<close>):
    the live summary of rows that carry the columns of their clients is the server's, the query means what the
    filters say where they can be sent, the page reopens as it was left.
  \<^item> \<open>Inbounds_State\<close> (\<open>pages/inbounds/useInbounds.ts\<close>): rows, rollups and counters under pushed events.
  \<^item> \<open>Web_Socket\<close>, \<open>Query_Bridge\<close> (\<open>api/websocket.ts\<close>, \<open>api/websocketBridge.ts\<close>): the reconnecting client as a
    transition system with the browser as its environment, invariants under the locale \<open>run_invariant\<close>, and the
    debounced invalidation of the cache.
  \<^item> \<open>Csrf_Client\<close> (\<open>api/axios-init.ts\<close>): the interceptors over all requests in flight. \<open>Log_Parse\<close>
    (\<open>pages/index/logParse.ts\<close>): the parser of a log line.

  \<^bold>\<open>How they meet.\<close> A form goes through an adapter and the normaliser of its side to the wire and comes back
  through JSON; the links are made of the same rows and parsed into the same wire shape; the dialogs hand their
  result to the tabs, which edit the template the editor holds; client and server derivations of the same thing
  (tags, summaries, MTProto secrets, filters, host entries) stand side by side and are compared.

  \<^bold>\<open>Conventions.\<close> A thrown exception is \<open>None\<close> or a constructor of its own. In-place mutation returns the new
  value. Strings are UTF-8 bytes, case is folded for ASCII only, numbers are exact rationals with the three
  non-finite values; where the code relies on 32-bit or 53-bit behaviour (X25519, base32, the limits in GB) the
  wrap-around or the bound is in the model and in a lemma. React state is a record, an effect a function of the
  watched values of its render, asynchronous work a step of the environment.

  \<^bold>\<open>Bounds and fuel.\<close> The JSON parser recurs on a counter that starts at the length of the text plus one; every
  printed text is read with it, and \<open>None\<close> on other texts is the syntax error of a parser that has read all it
  was given. The decimal printer scans at most as many digits as its counter says, which integers never need.
  Every other function is total by structure or by a measure. Runs of step relations are bounded by theorems
  (twelve steps for each request, the queue lengths of the test run), not by a counter.

  \<^bold>\<open>Parameters.\<close> Code that is not in the repository is an argument: the IPv6 serialiser of \<open>URL\<close> (\<open>ip6\<close>), the
  zod schemas (\<open>safeParse\<close> and the blank blocks they make), antd's validation, the query string library, the
  order the server's database returns rows in, drawn numbers, the clock, and what the server answers where it
  is not modelled.

  \<^bold>\<open>Not modelled.\<close> Rendering and layout, translations, themes, the DOM, clipboard and downloads; the transport
  of requests and the internals of the query cache; dates as text (dayjs, \<open>Intl\<close>); generated code
  (\<open>generated/\<close>) and the table of API endpoints (\<open>pages/api-docs\<close>), which are data; the pages that only show
  or forward what the server sends (monitoring, security, protocols, nodes, index, login, subscription) and
  the settings form; the mask editor and the per-protocol field lists, whose values are plain fields of the
  forms modelled here; the Warp and NordVPN dialogs, which register with outside services; the Go server
  beyond the functions named above; IEEE rounding outside the stated bounds.
\<close>

end
